(* ===== verification/Prelude.thy ===== *)
theory Prelude
  imports Complex_Main
begin

text \<open>
  Shared vocabulary of the development: computations that may throw (a sum type whose left
  component is the thrown error), JavaScript \<open>Map\<close> objects as insertion-ordered association
  lists, step machines with invariants, one-shot settlement, and the lemma collections the
  component theories extend.
\<close>

section \<open>Throwing computations\<close>

text \<open>
  A function of the source that returns a value or throws is a function into
  \<open>'e + 'a\<close>: \<open>Inl e\<close> is the thrown error, \<open>Inr a\<close> the returned value.
  \<open>rbind\<close> is sequencing (an exception skips the continuation), \<open>rguard\<close> is
  \<open>if (!b) throw e\<close>, and \<open>rmap\<close> is \<open>xs.map(f)\<close> for a throwing \<open>f\<close>, which runs
  left to right and stops at the first exception.
\<close>

named_theorems result_simps "rewrite rules for throwing computations"
named_theorems inv_simps "definitions of component invariants"
named_theorems step_intros "preservation of invariants by single operations"

definition rbind :: "'e + 'a \<Rightarrow> ('a \<Rightarrow> 'e + 'b) \<Rightarrow> 'e + 'b" where
  "rbind r f = (case r of Inl e \<Rightarrow> Inl e | Inr a \<Rightarrow> f a)"

definition rguard :: "bool \<Rightarrow> 'e \<Rightarrow> 'e + unit" where
  "rguard b e = (if b then Inr () else Inl e)"

fun rmap :: "('a \<Rightarrow> 'e + 'b) \<Rightarrow> 'a list \<Rightarrow> 'e + 'b list" where
  "rmap f [] = Inr []"
| "rmap f (x # xs) = rbind (f x) (\<lambda>y. rbind (rmap f xs) (\<lambda>ys. Inr (y # ys)))"

definition is_ok :: "'e + 'a \<Rightarrow> bool" where
  "is_ok r = (case r of Inl _ \<Rightarrow> False | Inr _ \<Rightarrow> True)"

lemma rbind_simps [simp, result_simps]:
  "rbind (Inl e) f = Inl e" "rbind (Inr a) f = f a"
  by (simp_all add: rbind_def)

lemma is_ok_simps [simp]: "is_ok (Inr a)" "\<not> is_ok (Inl e)"
  by (simp_all add: is_ok_def)

lemma is_ok_iff: "is_ok r \<longleftrightarrow> (\<exists>a. r = Inr a)"
  by (cases r) auto

lemma rbind_eq_Inr_iff [simp]: "rbind r f = Inr b \<longleftrightarrow> (\<exists>a. r = Inr a \<and> f a = Inr b)"
  by (cases r) auto

lemma rbind_eq_Inl_iff: "rbind r f = Inl e \<longleftrightarrow> r = Inl e \<or> (\<exists>a. r = Inr a \<and> f a = Inl e)"
  by (cases r) auto

lemma rbind_cong [fundef_cong]:
  "r = r' \<Longrightarrow> (\<And>a. r' = Inr a \<Longrightarrow> f a = g a) \<Longrightarrow> rbind r f = rbind r' g"
  by (cases r') auto

lemma rbind_Inr_right [simp]: "rbind r Inr = r"
  by (cases r) auto

text \<open>An early \<open>throw\<close>: reaching the result means the guard was false. No case splits needed.\<close>

lemma if_Inl_eq_Inr [simp]:
  "(if b then Inl e else r) = Inr a \<longleftrightarrow> \<not> b \<and> r = Inr a"
  "(if b then r else Inl e) = Inr a \<longleftrightarrow> b \<and> r = Inr a"
  by auto

lemma rbind_assoc: "rbind (rbind r f) g = rbind r (\<lambda>a. rbind (f a) g)"
  by (cases r) auto

lemma rguard_simps [simp, result_simps]: "rguard True e = Inr ()" "rguard False e = Inl e"
  by (simp_all add: rguard_def)

lemma rguard_eq_Inr_iff [simp]: "rguard b e = Inr u \<longleftrightarrow> b"
  by (simp add: rguard_def)

lemma rguard_eq_Inl_iff [simp]: "rguard b e = Inl e' \<longleftrightarrow> \<not> b \<and> e' = e"
  by (auto simp: rguard_def)

lemma rmap_cong [fundef_cong]:
  "xs = ys \<Longrightarrow> (\<And>x. x \<in> set ys \<Longrightarrow> f x = g x) \<Longrightarrow> rmap f xs = rmap g ys"
proof (induction ys arbitrary: xs)
  case Nil
  then show ?case by simp
next
  case (Cons y ys)
  then have "rmap f ys = rmap g ys" by auto
  with Cons.prems show ?case by simp
qed

lemma rmap_Inr_iff: "rmap f xs = Inr ys \<longleftrightarrow> list_all2 (\<lambda>x y. f x = Inr y) xs ys"
proof (induction xs arbitrary: ys)
  case Nil
  then show ?case by auto
next
  case (Cons x xs)
  then show ?case by (cases ys) auto
qed

lemma rmap_length: "rmap f xs = Inr ys \<Longrightarrow> length ys = length xs"
  by (auto simp: rmap_Inr_iff dest: list_all2_lengthD)

lemma rmap_set: "rmap f xs = Inr ys \<Longrightarrow> y \<in> set ys \<Longrightarrow> \<exists>x \<in> set xs. f x = Inr y"
  by (fastforce simp: rmap_Inr_iff list_all2_conv_all_nth in_set_conv_nth)

lemma rmap_map_Inr: "(\<And>x. x \<in> set xs \<Longrightarrow> f (g x) = Inr x) \<Longrightarrow> rmap f (map g xs) = Inr xs"
  by (induction xs) auto

lemma rmap_append:
  "rmap f (xs @ ys) = rbind (rmap f xs) (\<lambda>as. rbind (rmap f ys) (\<lambda>bs. Inr (as @ bs)))"
  by (induction xs) (auto simp: rbind_assoc)

text \<open>Loops that only check: \<open>for (const x of xs) check(x)\<close>.\<close>

fun rall :: "('a \<Rightarrow> 'e + unit) \<Rightarrow> 'a list \<Rightarrow> 'e + unit" where
  "rall f [] = Inr ()"
| "rall f (x # xs) = rbind (f x) (\<lambda>_. rall f xs)"

lemma rall_Inr_iff: "rall f xs = Inr u \<longleftrightarrow> (\<forall>x \<in> set xs. f x = Inr ())"
  by (induction xs) auto

lemma rall_cong [fundef_cong]:
  "xs = ys \<Longrightarrow> (\<And>x. x \<in> set ys \<Longrightarrow> f x = g x) \<Longrightarrow> rall f xs = rall g ys"
proof (induction ys arbitrary: xs)
  case Nil
  then show ?case by simp
next
  case (Cons y ys)
  then have "rall f ys = rall g ys" by auto
  with Cons.prems show ?case by simp
qed

section \<open>Step machines\<close>

text \<open>
  A component with state is an initial state, a deterministic step per event (the outputs it
  produces are part of the step's result) and an invariant. The contract is that the start
  satisfies the invariant and every enabled step keeps it; every run then keeps it.
\<close>

fun run_steps :: "('s \<Rightarrow> 'e \<Rightarrow> 's \<times> 'o list) \<Rightarrow> 's \<Rightarrow> 'e list \<Rightarrow> 's \<times> 'o list" where
  "run_steps step s [] = (s, [])"
| "run_steps step s (e # es) =
     (let (s1, o1) = step s e; (s2, o2) = run_steps step s1 es in (s2, o1 @ o2))"

lemma run_steps_append:
  "run_steps step s (xs @ ys) =
     (let (s1, o1) = run_steps step s xs; (s2, o2) = run_steps step s1 ys in (s2, o1 @ o2))"
  by (induction xs arbitrary: s) (auto simp: Let_def split: prod.splits)

locale step_machine =
  fixes step :: "'s \<Rightarrow> 'e \<Rightarrow> 's \<times> 'o list"
    and inv :: "'s \<Rightarrow> bool"
  assumes step_inv: "inv s \<Longrightarrow> inv (fst (step s e))"
begin

lemma run_inv: "inv s \<Longrightarrow> inv (fst (run_steps step s es))"
proof (induction es arbitrary: s)
  case Nil
  then show ?case by simp
next
  case (Cons e es)
  from step_inv [OF Cons.prems] have "inv (fst (step s e))" .
  from Cons.IH [OF this] show ?case by (simp add: Let_def split_beta)
qed

text \<open>A quantity no step can decrease never decreases over a run.\<close>

lemma run_mono:
  fixes f :: "'s \<Rightarrow> 'c::preorder"
  assumes "\<And>s e. inv s \<Longrightarrow> f s \<le> f (fst (step s e))" and "inv s"
  shows "f s \<le> f (fst (run_steps step s es))"
  using assms(2)
proof (induction es arbitrary: s)
  case Nil
  then show ?case by simp
next
  case (Cons e es)
  have "f s \<le> f (fst (step s e))" using assms(1) Cons.prems .
  also have "\<dots> \<le> f (fst (run_steps step (fst (step s e)) es))"
    using Cons.IH step_inv [OF Cons.prems] .
  finally show ?case by (simp add: Let_def split_beta)
qed

end

text \<open>
  Something that happens at most once per identifier: an identifier is \<open>live\<close> while it can still
  happen, a step that emits it ends its life, and the dead stay dead.
\<close>

locale once_only = step_machine +
  fixes live :: "'a \<Rightarrow> 'i \<Rightarrow> bool"
    and emitted :: "'c \<Rightarrow> 'i list"
  assumes emitted_distinct: "inv s \<Longrightarrow> distinct (concat (map emitted (snd (step s e))))"
    and emitted_live: "inv s \<Longrightarrow> i \<in> set (concat (map emitted (snd (step s e)))) \<Longrightarrow>
      live s i \<and> \<not> live (fst (step s e)) i"
    and dead_stays: "inv s \<Longrightarrow> \<not> live s i \<Longrightarrow> \<not> live (fst (step s e)) i"
begin

lemma run_once:
  "inv s \<Longrightarrow> distinct (concat (map emitted (snd (run_steps step s es))))
     \<and> (\<forall>i \<in> set (concat (map emitted (snd (run_steps step s es)))). live s i)"
proof (induction es arbitrary: s)
  case Nil
  then show ?case by simp
next
  case (Cons e es)
  let ?s1 = "fst (step s e)"
  let ?o1 = "concat (map emitted (snd (step s e)))"
  let ?o2 = "concat (map emitted (snd (run_steps step ?s1 es)))"
  have eq: "concat (map emitted (snd (run_steps step s (e # es)))) = ?o1 @ ?o2"
    by (simp add: Let_def split_beta)
  from step_inv [OF Cons.prems] Cons.IH have rest: "distinct ?o2" "\<forall>i \<in> set ?o2. live ?s1 i" by blast+
  have "set ?o1 \<inter> set ?o2 = {}" using emitted_live [OF Cons.prems] rest(2) by blast
  then have "distinct (?o1 @ ?o2)"
    using emitted_distinct [OF Cons.prems] rest(1) by (simp only: distinct_append)
  moreover have "\<forall>i \<in> set (?o1 @ ?o2). live s i"
    using emitted_live [OF Cons.prems] rest(2) dead_stays [OF Cons.prems]
    unfolding set_append by blast
  ultimately show ?case unfolding eq by blast
qed

lemma run_dead: "inv s \<Longrightarrow> \<not> live s i \<Longrightarrow> \<not> live (fst (run_steps step s es)) i"
proof (induction es arbitrary: s)
  case Nil
  then show ?case by simp
next
  case (Cons e es)
  from Cons.IH [OF step_inv [OF Cons.prems(1)] dead_stays [OF Cons.prems]]
  show ?case by (simp add: Let_def split_beta)
qed

lemma run_emitted_dead:
  "inv s \<Longrightarrow> i \<in> set (concat (map emitted (snd (run_steps step s es)))) \<Longrightarrow>
     \<not> live (fst (run_steps step s es)) i"
proof (induction es arbitrary: s)
  case Nil
  then show ?case by simp
next
  case (Cons e es)
  let ?s1 = "fst (step s e)"
  have inv1: "inv ?s1" using step_inv [OF Cons.prems(1)] .
  consider "i \<in> set (concat (map emitted (snd (step s e))))"
    | "i \<in> set (concat (map emitted (snd (run_steps step ?s1 es))))"
    using Cons.prems(2) by (auto simp: Let_def split_beta)
  then have "\<not> live (fst (run_steps step ?s1 es)) i"
  proof cases
    case 1
    then show ?thesis using emitted_live [OF Cons.prems(1)] run_dead [OF inv1] by blast
  next
    case 2
    then show ?thesis by (rule Cons.IH [OF inv1])
  qed
  then show ?case by (simp add: Let_def split_beta)
qed

end

section \<open>Lists\<close>

lemma distinct_map_snoc: "distinct (map f (xs @ [x])) \<longleftrightarrow> distinct (map f xs) \<and> f x \<notin> f ` set xs"
  by auto

lemma filter_neq_id: "x \<notin> set xs \<Longrightarrow> filter (\<lambda>y. y \<noteq> x) xs = xs"
  by (induction xs) auto

text \<open>\<open>new Set(xs).size !== xs.length\<close> is the source's idiom for ``has duplicates''.\<close>

lemma card_set_eq_length_iff: "card (set xs) = length xs \<longleftrightarrow> distinct xs"
  by (simp add: card_distinct distinct_card iff_conv_conj_imp)

text \<open>\<open>[...new Set(xs)]\<close> keeps the first occurrence of every element.\<close>

fun dedup_acc :: "'a list \<Rightarrow> 'a list \<Rightarrow> 'a list" where
  "dedup_acc seen [] = []"
| "dedup_acc seen (x # xs) =
     (if x \<in> set seen then dedup_acc seen xs else x # dedup_acc (x # seen) xs)"

lemma dedup_acc_set: "set (dedup_acc seen xs) = set xs - set seen"
  by (induction seen xs rule: dedup_acc.induct) auto

lemma dedup_acc_distinct: "distinct (dedup_acc seen xs)"
  by (induction seen xs rule: dedup_acc.induct) (auto simp: dedup_acc_set)

end
