(* ===== verification/JsData.thy ===== *)
theory JsData
  imports Prelude
begin

text \<open>
  JavaScript values as the validating code of the repository sees them. The validators read own
  property descriptors, so a value here keeps what a descriptor shows: whether a property is a
  data property or an accessor, whether it is enumerable, the prototype of an object, holes and
  custom keys of an array. Values are finite trees: an input that contains itself has no
  counterpart here, so the cycle checks of the source never fire in the model. Strings are lists
  of code units below 256 (the type \<open>string\<close>), except in the framing theory, which uses
  16-bit code units. Numbers are exact rationals with the three non-finite values; rounding and
  negative zero are not modelled. Proxies are not modelled.
\<close>

datatype jsnum = Fin rat | PosInf | NegInf | NotANumber

datatype proto = ObjectProto | NullProto | OtherProto

datatype pkey = StrKey string | SymKey string

datatype jsv =
    VNull
  | VUndefined
  | VBool bool
  | VNum jsnum
  | VStr string
  | VSym string
  | VFun string
  | VArr bool "jsprop option list" "pkey list"
  | VObj proto "(pkey \<times> jsprop) list"
and jsprop =
    DataProp bool jsv
  | AccProp

text \<open>
  \<open>VArr b ps ks\<close>: \<open>b\<close> says whether the array's prototype is \<open>Array.prototype\<close>, \<open>ps\<close> are
  the slots (\<open>None\<close> for a hole), \<open>ks\<close> the own keys other than \<open>length\<close> and the slots.
  \<open>VObj p ps\<close>: the prototype and the own properties in the order \<open>Reflect.ownKeys\<close> lists
  them. \<open>DataProp e v\<close>: a data property, enumerable when \<open>e\<close>.
\<close>

text \<open>A snapshot of a record: its own string keys with their values.\<close>

type_synonym fields = "(string \<times> jsv) list"

definition fld :: "fields \<Rightarrow> string \<Rightarrow> jsv" where
  "fld r k = (case map_of r k of None \<Rightarrow> VUndefined | Some v \<Rightarrow> v)"

definition has_own :: "fields \<Rightarrow> string \<Rightarrow> bool" where
  "has_own r k = (map_of r k \<noteq> None)"

text \<open>Plain data built by literals: every property an enumerable data property.\<close>

definition obj :: "fields \<Rightarrow> jsv" where
  "obj r = VObj ObjectProto (map (\<lambda>(k, v). (StrKey k, DataProp True v)) r)"

definition arr :: "jsv list \<Rightarrow> jsv" where
  "arr vs = VArr True (map (\<lambda>v. Some (DataProp True v)) vs) []"

abbreviation vint :: "int \<Rightarrow> jsv" where
  "vint n \<equiv> VNum (Fin (of_int n))"

section \<open>Numbers\<close>

definition num_integral :: "rat \<Rightarrow> bool" where
  "num_integral q = (of_int (floor q) = q)"

definition max_safe_integer :: int where
  "max_safe_integer = 9007199254740991"

definition is_safe_integer :: "jsnum \<Rightarrow> bool" where
  "is_safe_integer n = (case n of
     Fin q \<Rightarrow> num_integral q \<and> \<bar>q\<bar> \<le> of_int max_safe_integer
   | _ \<Rightarrow> False)"

definition is_finite_num :: "jsnum \<Rightarrow> bool" where
  "is_finite_num n = (case n of Fin _ \<Rightarrow> True | _ \<Rightarrow> False)"

lemma num_integral_of_int [simp]: "num_integral (of_int n)"
  by (simp add: num_integral_def)

lemma num_integral_numeral [simp]:
  "num_integral 0" "num_integral 1" "num_integral (numeral w)" "num_integral (- numeral w)"
  by (simp_all add: num_integral_def)

lemma num_integralE: "num_integral q \<Longrightarrow> (\<And>n. q = of_int n \<Longrightarrow> P) \<Longrightarrow> P"
  by (metis num_integral_def)

section \<open>Characters and strings\<close>

definition code :: "char \<Rightarrow> nat" where
  "code c = of_char c"

definition is_digit :: "char \<Rightarrow> bool" where
  "is_digit c = (48 \<le> code c \<and> code c \<le> 57)"

definition is_lower :: "char \<Rightarrow> bool" where
  "is_lower c = (97 \<le> code c \<and> code c \<le> 122)"

definition is_upper :: "char \<Rightarrow> bool" where
  "is_upper c = (65 \<le> code c \<and> code c \<le> 90)"

definition is_alpha :: "char \<Rightarrow> bool" where
  "is_alpha c = (is_lower c \<or> is_upper c)"

definition is_alnum :: "char \<Rightarrow> bool" where
  "is_alnum c = (is_alpha c \<or> is_digit c)"

text \<open>White space and line terminators below 256: what \<open>trim()\<close> removes.\<close>

definition js_space :: "char \<Rightarrow> bool" where
  "js_space c = (code c \<in> {9, 10, 11, 12, 13, 32, 160})"

definition blank :: "string \<Rightarrow> bool" where
  "blank s = list_all js_space s" \<comment> \<open>\<open>s.trim().length === 0\<close>\<close>

text \<open>UTF-8 bytes of a string whose code units are below 256.\<close>

definition utf8_length :: "string \<Rightarrow> nat" where
  "utf8_length s = sum_list (map (\<lambda>c. if code c < 128 then 1 else 2) s)"

lemmas char_class_defs =
  code_def is_digit_def is_lower_def is_upper_def is_alpha_def is_alnum_def js_space_def

lemma length_le_utf8_length: "length s \<le> utf8_length s"
  unfolding utf8_length_def by (induction s) auto

lemma utf8_length_ascii: "list_all (\<lambda>c. code c < 128) s \<Longrightarrow> utf8_length s = length s"
  unfolding utf8_length_def by (induction s) auto

text \<open>
  The stable identifier shape \<open>/^[A-Za-z0-9][A-Za-z0-9...]*$/\<close>, parametrised by the
  punctuation the tail admits.
\<close>

definition ident_shape :: "string \<Rightarrow> string \<Rightarrow> bool" where
  "ident_shape punct s = (case s of [] \<Rightarrow> False
     | c # cs \<Rightarrow> is_alnum c \<and> list_all (\<lambda>d. is_alnum d \<or> d \<in> set punct) cs)"

text \<open>\<open>/^(?:0|[1-9][0-9]*)$/\<close>: an array index key.\<close>

definition index_key :: "string \<Rightarrow> bool" where
  "index_key s = (case s of [] \<Rightarrow> False
     | c # cs \<Rightarrow> (c = CHR ''0'' \<and> cs = []) \<or> (is_digit c \<and> c \<noteq> CHR ''0'' \<and> list_all is_digit cs))"

section \<open>Snapshots of own properties\<close>

text \<open>
  The loop every validator runs over the own properties of an object: each must be an enumerable
  data property; the result is the list of its string-keyed values. \<open>bad_symbol\<close> is what a
  symbol key does (the reading code either ignores or rejects it).
\<close>

fun data_fields :: "bool \<Rightarrow> (string \<Rightarrow> bool) \<Rightarrow> (pkey \<times> jsprop) list \<Rightarrow> fields option" where
  "data_fields syms ok [] = Some []"
| "data_fields syms ok ((SymKey _, _) # ps) = (if syms then data_fields syms ok ps else None)"
| "data_fields syms ok ((StrKey k, AccProp) # ps) = None"
| "data_fields syms ok ((StrKey k, DataProp e v) # ps) =
     (if e \<and> ok k then map_option (\<lambda>r. (k, v) # r) (data_fields syms ok ps) else None)"

lemma data_fields_obj:
  "(\<And>k. k \<in> fst ` set r \<Longrightarrow> ok k) \<Longrightarrow>
   data_fields syms ok (map (\<lambda>(k, v). (StrKey k, DataProp True v)) r) = Some r"
  by (induction r) auto

lemma data_fields_keys: "data_fields syms ok ps = Some r \<Longrightarrow> \<forall>k \<in> fst ` set r. ok k"
  by (induction syms ok ps arbitrary: r rule: data_fields.induct) (force split: if_splits)+

lemma data_fields_set:
  "data_fields syms ok ps = Some r \<Longrightarrow> (k, v) \<in> set r \<Longrightarrow> (StrKey k, DataProp True v) \<in> set ps"
  by (induction syms ok ps arbitrary: r rule: data_fields.induct) (auto split: if_splits)

lemma data_fields_distinct:
  "data_fields syms ok ps = Some r \<Longrightarrow> distinct (map fst ps) \<Longrightarrow> distinct (map fst r)"
proof (induction syms ok ps arbitrary: r rule: data_fields.induct)
  case (4 syms ok k e v ps)
  then obtain r' where r': "data_fields syms ok ps = Some r'" "r = (k, v) # r'"
    by (auto split: if_splits)
  have "k \<notin> fst ` set r'"
    using 4(3) data_fields_set [OF r'(1)] by (force simp: image_iff)
  with 4 r' show ?case by (auto split: if_splits)
qed (auto split: if_splits)

text \<open>The slots of a dense array of data items.\<close>

fun data_items :: "bool \<Rightarrow> jsprop option list \<Rightarrow> jsv list option" where
  "data_items need_enum [] = Some []"
| "data_items need_enum (None # ps) = None"
| "data_items need_enum (Some AccProp # ps) = None"
| "data_items need_enum (Some (DataProp e v) # ps) =
     (if need_enum \<longrightarrow> e then map_option (\<lambda>r. v # r) (data_items need_enum ps) else None)"

lemma data_items_arr [simp]: "data_items ne (map (\<lambda>v. Some (DataProp True v)) vs) = Some vs"
  by (induction vs) auto

lemma data_items_length: "data_items ne ps = Some vs \<Longrightarrow> length vs = length ps"
  by (induction ne ps arbitrary: vs rule: data_items.induct) (auto split: if_splits)

lemma data_items_size: "data_items ne ps = Some vs \<Longrightarrow> v \<in> set vs \<Longrightarrow> size v < size (VArr b ps ks)"
proof (induction ne ps arbitrary: vs rule: data_items.induct)
  case (4 ne e w ps)
  then show ?case by (fastforce split: if_splits)
qed (auto split: if_splits)

lemma data_fields_size: "data_fields syms ok ps = Some r \<Longrightarrow> (k, v) \<in> set r \<Longrightarrow> size v < size (VObj p ps)"
proof (induction syms ok ps arbitrary: r rule: data_fields.induct)
  case (4 syms ok k' e w ps)
  then show ?case by (fastforce split: if_splits)
qed (auto split: if_splits)

section \<open>Equality of field lists as records\<close>

lemma fld_Cons [simp]: "fld ((k, v) # r) k' = (if k = k' then v else fld r k')"
  by (simp add: fld_def)

lemma fld_Nil [simp]: "fld [] k = VUndefined"
  by (simp add: fld_def)

lemma has_own_simps [simp]:
  "has_own ((k, v) # r) k' \<longleftrightarrow> k = k' \<or> has_own r k'" "\<not> has_own [] k"
  by (auto simp: has_own_def)

section \<open>Validators as codecs\<close>

text \<open>
  A validator reads an untrusted value and returns a frozen copy of the data. Its contract: what it
  returns is well formed, and the copy of well-formed data is accepted unchanged. Validating twice
  is then the same as validating once, and the accepted data are exactly the well-formed ones.
\<close>

locale validator =
  fixes decode :: "jsv \<Rightarrow> 'e + 'a"
    and encode :: "'a \<Rightarrow> jsv"
    and wf :: "'a \<Rightarrow> bool"
  assumes decode_wf: "decode v = Inr a \<Longrightarrow> wf a"
    and decode_encode: "wf a \<Longrightarrow> decode (encode a) = Inr a"
begin

lemma decode_idem: "decode v = Inr a \<Longrightarrow> decode (encode a) = Inr a"
  by (rule decode_encode [OF decode_wf])

lemma range_iff: "(\<exists>v. decode v = Inr a) \<longleftrightarrow> wf a"
  using decode_wf decode_encode by blast

lemma encode_inj: "wf a \<Longrightarrow> wf b \<Longrightarrow> encode a = encode b \<Longrightarrow> a = b"
  using decode_encode by (metis sum.inject(2))

lemma decode_list: "list_all wf as \<Longrightarrow> rmap decode (map encode as) = Inr as"
  by (rule rmap_map_Inr) (auto simp: list_all_iff decode_encode)

lemma decode_list_wf: "rmap decode vs = Inr as \<Longrightarrow> list_all wf as"
  by (auto simp: list_all_iff dest!: rmap_set decode_wf)

end

section \<open>The data an accepted value holds\<close>

text \<open>
  \<open>same_data T v w\<close>: the untrusted value \<open>v\<close> holds the plain data \<open>w\<close>. Objects have the same keys, in any
  order, arrays the same items; \<open>T\<close> is how a text may differ from the one kept.
\<close>

inductive same_data :: "(string \<Rightarrow> string \<Rightarrow> bool) \<Rightarrow> jsv \<Rightarrow> jsv \<Rightarrow> bool" for T where
  same: "same_data T v v"
| str: "T s t \<Longrightarrow> same_data T (VStr s) (VStr t)"
| slots: "data_items True ps = Some vs \<Longrightarrow> list_all2 (same_data T) vs ws \<Longrightarrow> same_data T (VArr b ps ks) (arr ws)"
| keyed: "p \<noteq> OtherProto \<Longrightarrow> data_fields True (\<lambda>_. True) ps = Some r \<Longrightarrow> fst ` set r = fst ` set s \<Longrightarrow>
    \<forall>k \<in> fst ` set s. same_data T (fld r k) (fld s k) \<Longrightarrow> same_data T (VObj p ps) (obj s)"

lemma data_fields_any: "data_fields syms ok ps = Some r \<Longrightarrow> data_fields syms (\<lambda>_. True) ps = Some r"
  by (induction syms ok ps arbitrary: r rule: data_fields.induct) (auto split: if_splits)

lemma same_arr: "list_all2 (same_data T) vs ws \<Longrightarrow> same_data T (arr vs) (arr ws)"
  using same_data.slots [of "map (\<lambda>v. Some (DataProp True v)) vs" vs T ws True "[]"] by (simp add: arr_def)

lemma same_obj: "fst ` set r = fst ` set s \<Longrightarrow> \<forall>k \<in> fst ` set s. same_data T (fld r k) (fld s k) \<Longrightarrow> same_data T (obj r) (obj s)"
  using same_data.keyed [of ObjectProto _ r s T] data_fields_obj [of r "\<lambda>_. True" True] by (simp add: obj_def [of r])

lemma has_own_iff: "has_own r k \<longleftrightarrow> k \<in> fst ` set r"
  by (auto simp: has_own_def map_of_eq_None_iff)

text \<open>Two lists of fields with the same keys, pairwise alike.\<close>

lemma same_fields: "list_all2 (\<lambda>f g. fst f = fst g \<and> same_data T (snd f) (snd g)) r s \<Longrightarrow>
    fst ` set r = fst ` set s \<and> (\<forall>k. same_data T (fld r k) (fld s k))"
proof (induction rule: list_all2_induct)
  case (Cons f r g s)
  then show ?case by (cases f; cases g) simp
qed (simp add: same_data.same)


lemma fld_missing: "\<not> has_own r k \<Longrightarrow> fld r k = VUndefined"
  by (simp add: has_own_def fld_def)

lemma rmap_same: "(\<And>x y. x \<in> set xs \<Longrightarrow> f x = Inr y \<Longrightarrow> P x (g y)) \<Longrightarrow> rmap f xs = Inr ys \<Longrightarrow> list_all2 P xs (map g ys)"
  by (induction xs arbitrary: ys) auto

lemma obj_inject [simp]: "obj r = obj s \<longleftrightarrow> r = s"
proof
  assume "obj r = obj s"
  then have "data_fields True (\<lambda>_. True) (map (\<lambda>(k, v). (StrKey k, DataProp True v)) r)
      = data_fields True (\<lambda>_. True) (map (\<lambda>(k, v). (StrKey k, DataProp True v)) s)" by (simp add: obj_def)
  then show "r = s" by (simp add: data_fields_obj)
qed simp

lemma same_data_arr: "same_data T (arr ws) x \<Longrightarrow> \<exists>xs. x = arr xs \<and> list_all2 (same_data T) ws xs"
proof (erule same_data.cases)
  fix v assume "arr ws = v" "x = v"
  then show ?thesis by (intro exI [of _ ws]) (simp add: list_all2_refl same_data.same)
qed (auto simp: arr_def [of ws])

lemma same_data_obj: "same_data T (obj s) x \<Longrightarrow> \<exists>q. x = obj q \<and> fst ` set s = fst ` set q \<and> (\<forall>k. same_data T (fld s k) (fld q k))"
proof (erule same_data.cases)
  fix v assume "obj s = v" "x = v"
  then show ?thesis by (intro exI [of _ s]) (simp add: same_data.same)
next
  fix p ps r q assume a: "obj s = VObj p ps" "x = obj q" "data_fields True (\<lambda>_. True) ps = Some r" "fst ` set r = fst ` set q"
    "\<forall>k\<in>fst ` set q. same_data T (fld r k) (fld q k)"
  have "r = s" using a(1,3) data_fields_obj [of s "\<lambda>_. True" True] by (auto simp: obj_def)
  moreover have "same_data T (fld s k) (fld q k)" for k
    using a(4,5) \<open>r = s\<close> fld_missing [of s k] fld_missing [of q k] by (cases "k \<in> fst ` set q") (auto simp: has_own_iff same_data.same)
  ultimately show ?thesis using a by blast
qed (simp_all add: obj_def [of s])

lemma same_data_trans:
  assumes T: "\<And>a b c. T a b \<Longrightarrow> T b c \<Longrightarrow> T a c"
  shows "same_data T u v \<Longrightarrow> same_data T v w \<Longrightarrow> same_data T u w"
proof (induction arbitrary: w rule: same_data.induct)
  case (str s t)
  from str(2) show ?case by cases (use str(1) T in \<open>auto simp: arr_def obj_def intro: same_data.intros\<close>)
next
  case (slots ps vs ws b ks)
  obtain xs where xs: "w = arr xs" "list_all2 (same_data T) ws xs" using same_data_arr [OF slots(3)] by blast
  have "list_all2 (same_data T) vs xs"
    by (rule list_all2_trans [OF _ slots(2) xs(2)]) blast
  then show ?case unfolding xs(1) by (rule same_data.slots [OF slots(1)])
next
  case (keyed p ps r s)
  obtain q where "w = obj q" "fst ` set s = fst ` set q" "\<forall>k. same_data T (fld s k) (fld q k)"
    using same_data_obj [OF keyed(5)] by blast
  then show ?case using keyed(1-4) by (auto intro!: same_data.keyed [OF keyed(1,2)])
qed

end
