(* ===== verification/NativeSchema.thy ===== *)
theory NativeSchema
  imports JsData
begin

text \<open>
  The native wire protocol: \<open>packages/native/src/contracts.ts\<close> (data), \<open>constants.ts\<close>,
  \<open>validation-primitives.ts\<close>, \<open>schema.ts\<close> (validation of untrusted messages) and
  \<open>correlation.ts\<close> (facts about a request and its response). A thrown
  \<open>NativeProtocolError\<close> is modelled by its code; message texts are diagnostics and are left out.
\<close>

section \<open>Constants and data\<close>

datatype issue_code = InvalidFrame | MessageTooLarge | InvalidJson | InvalidMessage
  | UnsupportedProtocol | UnsupportedVersion | CorrelationMismatch | ScopeMismatch | OwnershipRequired

type_synonym 'a checked = "issue_code + 'a"

definition nativeProtocolName :: string where "nativeProtocolName = ''surfaceloom.native''"
definition nativeProtocolVersion :: string where "nativeProtocolVersion = ''1.0''"
definition maxWireMessageBytes :: int where "maxWireMessageBytes = 1048576"
definition maxDeadlineMs :: int where "maxDeadlineMs = 120000"

datatype intent = Observe | Mutate | Lifecycle
datatype outcome = NotExecuted | Executed | UnknownOutcome
datatype ownership = Owned | Borrowed
datatype surface = ApplicationSurface | SystemSurface
datatype scope_kind = BootstrapKind | HostKind | SessionKind | HandleKind
datatype error_category = CatProtocol | CatInvalidRequest | CatUnsupported | CatNotFound
  | CatPermissionDenied | CatDeadline | CatCancelled | CatConflict | CatBackend | CatInternal
datatype retry = RetryNever | RetrySafe
datatype cancel_reason = ByCaller | ByDeadline | ByShutdown

definition operationIntents :: "(string \<times> intent) list" where
  "operationIntents = [(''observe'', Observe), (''mutate'', Mutate), (''lifecycle'', Lifecycle)]"
definition operationOutcomes :: "(string \<times> outcome) list" where
  "operationOutcomes = [(''notExecuted'', NotExecuted), (''executed'', Executed), (''unknown'', UnknownOutcome)]"
definition sessionOwnerships :: "(string \<times> ownership) list" where
  "sessionOwnerships = [(''owned'', Owned), (''borrowed'', Borrowed)]"
definition surfaces :: "(string \<times> surface) list" where
  "surfaces = [(''application'', ApplicationSurface), (''system'', SystemSurface)]"
definition scopeKindNames :: "(string \<times> scope_kind) list" where
  "scopeKindNames = [(''bootstrap'', BootstrapKind), (''host'', HostKind), (''session'', SessionKind),
     (''handle'', HandleKind)]"
definition errorCategories :: "(string \<times> error_category) list" where
  "errorCategories = [(''protocol'', CatProtocol), (''invalidRequest'', CatInvalidRequest),
     (''unsupported'', CatUnsupported), (''notFound'', CatNotFound),
     (''permissionDenied'', CatPermissionDenied), (''deadline'', CatDeadline),
     (''cancelled'', CatCancelled), (''conflict'', CatConflict), (''backend'', CatBackend),
     (''internal'', CatInternal)]"
definition retryDispositions :: "(string \<times> retry) list" where
  "retryDispositions = [(''never'', RetryNever), (''safe'', RetrySafe)]"
definition cancellationReasons :: "(string \<times> cancel_reason) list" where
  "cancellationReasons = [(''caller'', ByCaller), (''deadline'', ByDeadline), (''shutdown'', ByShutdown)]"

text \<open>JSON data: the values a validated payload can hold.\<close>

datatype json = JNull | JBool bool | JNum rat | JStr string | JArr "json list"
  | JObj "(string \<times> json) list"

datatype scope = Bootstrap | HostScope string | SessionScope string string
  | HandleScope string string string

record native_handle =
  h_hostInstanceId :: string
  h_sessionId :: string
  h_handleId :: string

record native_session =
  s_hostInstanceId :: string
  s_sessionId :: string
  s_ownership :: ownership
  s_surface :: surface
  s_root :: native_handle

record native_method =
  m_name :: string
  m_intent :: intent
  m_scopeKinds :: "scope_kind list"

record native_host =
  d_hostInstanceId :: string
  d_platform :: string
  d_backend :: string
  d_methods :: "native_method list"
  d_maxMessageBytes :: int

record native_call =
  c_name :: string
  c_intent :: intent
  c_scope :: scope
  c_payload :: "(string \<times> json) list"
  c_operationId :: "string option"

record wire_request =
  rq_id :: string
  rq_timeoutMs :: int
  rq_call :: native_call

record wire_cancel =
  cn_id :: string
  cn_requestId :: string
  cn_reason :: cancel_reason

record op_receipt =
  r_operationId :: string
  r_outcome :: outcome

record wire_error =
  e_code :: string
  e_category :: error_category
  e_message :: string
  e_retry :: retry
  e_details :: "(string \<times> json) list option"

text \<open>A response: \<open>ok\<close> is whether the body is a result (\<open>Inr\<close>) or an error (\<open>Inl\<close>).\<close>

record wire_response =
  rs_id :: string
  rs_body :: "wire_error + json"
  rs_operation :: "op_receipt option"

datatype wire_message = MRequest wire_request | MCancel wire_cancel | MResponse wire_response

fun kind_of_scope :: "scope \<Rightarrow> scope_kind" where
  "kind_of_scope Bootstrap = BootstrapKind"
| "kind_of_scope (HostScope _) = HostKind"
| "kind_of_scope (SessionScope _ _) = SessionKind"
| "kind_of_scope (HandleScope _ _ _) = HandleKind"

section \<open>Validation primitives\<close>

definition record_of :: "jsv \<Rightarrow> (string \<Rightarrow> bool) \<Rightarrow> fields checked" where
  "record_of v keys = (case v of
     VObj p ps \<Rightarrow>
       if p = OtherProto then Inl InvalidMessage
       else (case data_fields True keys ps of None \<Rightarrow> Inl InvalidMessage | Some r \<Rightarrow> Inr r)
   | _ \<Rightarrow> Inl InvalidMessage)"

definition keys_of :: "string list \<Rightarrow> string \<Rightarrow> bool" where
  "keys_of ks k = (k \<in> set ks)"

definition required :: "fields \<Rightarrow> string \<Rightarrow> jsv checked" where
  "required r k = (if has_own r k then Inr (fld r k) else Inl InvalidMessage)"

text \<open>\<open>Object.hasOwn(input, k) ? f(input[k]) : undefined\<close>\<close>

definition optional :: "fields \<Rightarrow> string \<Rightarrow> (jsv \<Rightarrow> 'a checked) \<Rightarrow> 'a option checked" where
  "optional r k f = (if has_own r k then rbind (f (fld r k)) (\<lambda>a. Inr (Some a)) else Inr None)"

definition text_ok :: "nat \<Rightarrow> string \<Rightarrow> bool" where
  "text_ok maximum s = (s \<noteq> [] \<and> utf8_length s \<le> maximum
     \<and> list_all (\<lambda>c. code c \<noteq> 0 \<and> code c \<noteq> 10 \<and> code c \<noteq> 13) s)"

definition text_of :: "nat \<Rightarrow> jsv \<Rightarrow> string checked" where
  "text_of maximum v = (case v of
     VStr s \<Rightarrow> if text_ok maximum s then Inr s else Inl InvalidMessage
   | _ \<Rightarrow> Inl InvalidMessage)"

definition identifier_ok :: "string \<Rightarrow> bool" where
  "identifier_ok s = (text_ok 128 s \<and> ident_shape ''._:-'' s \<and> length s \<le> 128)"

definition identifier_of :: "jsv \<Rightarrow> string checked" where
  "identifier_of v = rbind (text_of 128 v) (\<lambda>s.
     if ident_shape ''._:-'' s \<and> length s \<le> 128 then Inr s else Inl InvalidMessage)"

definition choice :: "(string \<times> 'a) list \<Rightarrow> jsv \<Rightarrow> 'a checked" where
  "choice table v = (case v of
     VStr s \<Rightarrow> (case map_of table s of None \<Rightarrow> Inl InvalidMessage | Some x \<Rightarrow> Inr x)
   | _ \<Rightarrow> Inl InvalidMessage)"

definition integer :: "int \<Rightarrow> int \<Rightarrow> jsv \<Rightarrow> int checked" where
  "integer minimum maximum v = (case v of
     VNum (Fin q) \<Rightarrow>
       if is_safe_integer (Fin q) \<and> of_int minimum \<le> q \<and> q \<le> of_int maximum
       then Inr (floor q) else Inl InvalidMessage
   | _ \<Rightarrow> Inl InvalidMessage)"

fun key_is_index :: "pkey \<Rightarrow> bool" where
  "key_is_index (StrKey s) = index_key s"
| "key_is_index (SymKey _) = False"

definition arrayValues :: "jsv \<Rightarrow> jsv list checked" where
  "arrayValues v = (case v of
     VArr _ ps ks \<Rightarrow>
       if \<not> list_all key_is_index ks then Inl InvalidMessage
       else (case data_items True ps of None \<Rightarrow> Inl InvalidMessage | Some vs \<Rightarrow> Inr vs)
   | _ \<Rightarrow> Inl InvalidMessage)"

text \<open>Nesting is bounded by the depth argument, so the recursion ends on every input.\<close>

function jsonValue :: "nat \<Rightarrow> jsv \<Rightarrow> json checked" where
  "jsonValue depth v = (if depth > 32 then Inl InvalidMessage else (case v of
     VNull \<Rightarrow> Inr JNull
   | VStr s \<Rightarrow> Inr (JStr s)
   | VBool b \<Rightarrow> Inr (JBool b)
   | VNum (Fin q) \<Rightarrow> Inr (JNum q)
   | VArr b ps ks \<Rightarrow> rbind (arrayValues (VArr b ps ks)) (\<lambda>vs.
       rbind (rmap (jsonValue (Suc depth)) vs) (\<lambda>js. Inr (JArr js)))
   | VObj p ps \<Rightarrow> rbind (record_of (VObj p ps) (\<lambda>_. True)) (\<lambda>r.
       rbind (rmap (\<lambda>(k, w). rbind (jsonValue (Suc depth) w) (\<lambda>j. Inr (k, j))) r) (\<lambda>js.
         Inr (JObj js)))
   | _ \<Rightarrow> Inl InvalidMessage))"
  by pat_completeness auto
termination
  by (relation "measure (\<lambda>(depth, _). 33 - depth)") auto

declare jsonValue.simps [simp del]

section \<open>Messages\<close>

definition header :: "fields \<Rightarrow> unit checked" where
  "header r = rbind (required r ''protocol'') (\<lambda>protocol.
     if protocol \<noteq> VStr nativeProtocolName then Inl UnsupportedProtocol else
     rbind (required r ''version'') (\<lambda>version.
     if version \<noteq> VStr nativeProtocolVersion then Inl UnsupportedVersion else
     rbind (required r ''id'') (\<lambda>i. rbind (identifier_of i) (\<lambda>_. Inr ()))))"

definition scope_of :: "jsv \<Rightarrow> scope checked" where
  "scope_of v =
     rbind (record_of v (keys_of [''kind'', ''hostInstanceId'', ''sessionId'', ''handleId''])) (\<lambda>r.
     rbind (required r ''kind'') (\<lambda>kind.
     if kind = VStr ''bootstrap'' then
       rbind (record_of v (keys_of [''kind''])) (\<lambda>_. Inr Bootstrap)
     else
     rbind (rbind (required r ''hostInstanceId'') identifier_of) (\<lambda>host.
     if kind = VStr ''host'' then
       rbind (record_of v (keys_of [''kind'', ''hostInstanceId''])) (\<lambda>_. Inr (HostScope host))
     else
     rbind (rbind (required r ''sessionId'') identifier_of) (\<lambda>session.
     if kind = VStr ''session'' then
       rbind (record_of v (keys_of [''kind'', ''hostInstanceId'', ''sessionId''])) (\<lambda>_.
       Inr (SessionScope host session))
     else if kind = VStr ''handle'' then
       rbind (record_of v (keys_of [''kind'', ''hostInstanceId'', ''sessionId'', ''handleId''])) (\<lambda>_.
       rbind (rbind (required r ''handleId'') identifier_of) (\<lambda>handle.
       Inr (HandleScope host session handle)))
     else Inl InvalidMessage))))"

definition deadline_of :: "jsv \<Rightarrow> int checked" where
  "deadline_of v = rbind (record_of v (keys_of [''timeoutMs''])) (\<lambda>r.
     rbind (required r ''timeoutMs'') (integer 0 maxDeadlineMs))"

fun split_on :: "char \<Rightarrow> string \<Rightarrow> string list" where
  "split_on c [] = [[]]"
| "split_on c (x # xs) = (if x = c then [] # split_on c xs
     else (case split_on c xs of [] \<Rightarrow> [[x]] | y # ys \<Rightarrow> (x # y) # ys))"

text \<open>\<open>/^[a-z][a-z0-9-]*(?:\.[A-Za-z][A-Za-z0-9-]*)+$/\<close>, read per dot-separated segment.\<close>

definition method_shape :: "string \<Rightarrow> bool" where
  "method_shape s = (case split_on (CHR ''.'') s of
     (c # cs) # rest \<Rightarrow> is_lower c \<and> list_all (\<lambda>d. is_lower d \<or> is_digit d \<or> d = CHR ''-'') cs
       \<and> rest \<noteq> []
       \<and> list_all (\<lambda>seg. case seg of [] \<Rightarrow> False
           | e # es \<Rightarrow> is_alpha e \<and> list_all (\<lambda>d. is_alnum d \<or> d = CHR ''-'') es) rest
   | _ \<Rightarrow> False)"

definition methodName :: "jsv \<Rightarrow> string checked" where
  "methodName v = rbind (text_of 128 v) (\<lambda>s. if method_shape s then Inr s else Inl InvalidMessage)"

definition jsonObject :: "jsv \<Rightarrow> (string \<times> json) list checked" where
  "jsonObject v = rbind (jsonValue 0 v) (\<lambda>j. case j of JObj fs \<Rightarrow> Inr fs | _ \<Rightarrow> Inl InvalidMessage)"

definition call_of :: "jsv \<Rightarrow> native_call checked" where
  "call_of v =
     rbind (record_of v (keys_of [''name'', ''intent'', ''scope'', ''payload'', ''operationId''])) (\<lambda>r.
     rbind (rbind (required r ''name'') methodName) (\<lambda>name.
     rbind (rbind (required r ''intent'') (choice operationIntents)) (\<lambda>intent.
     rbind (optional r ''operationId'' identifier_of) (\<lambda>op.
     if intent = Observe \<and> op \<noteq> None then Inl InvalidMessage
     else if intent \<noteq> Observe \<and> op = None then Inl InvalidMessage else
     rbind (rbind (required r ''payload'') jsonObject) (\<lambda>payload.
     rbind (rbind (required r ''scope'') scope_of) (\<lambda>sc.
     if (kind_of_scope sc = BootstrapKind) \<noteq> (name = ''host.handshake'') then Inl InvalidMessage
     else if name = ''host.handshake'' \<and> intent \<noteq> Observe then Inl InvalidMessage
     else if name = ''session.launch'' \<and> (intent \<noteq> Lifecycle \<or> kind_of_scope sc \<noteq> HostKind)
     then Inl InvalidMessage
     else Inr \<lparr>c_name = name, c_intent = intent, c_scope = sc, c_payload = payload,
               c_operationId = op\<rparr>))))))"

definition receipt_of :: "jsv \<Rightarrow> op_receipt option checked" where
  "receipt_of v = (if v = VNull then Inr None else
     rbind (record_of v (keys_of [''operationId'', ''outcome''])) (\<lambda>r.
     rbind (rbind (required r ''operationId'') identifier_of) (\<lambda>op.
     rbind (rbind (required r ''outcome'') (choice operationOutcomes)) (\<lambda>oc.
     Inr (Some \<lparr>r_operationId = op, r_outcome = oc\<rparr>)))))"

definition wireError_of :: "jsv \<Rightarrow> wire_error checked" where
  "wireError_of v =
     rbind (record_of v (keys_of [''code'', ''category'', ''message'', ''retry'', ''details''])) (\<lambda>r.
     rbind (rbind (required r ''code'') identifier_of) (\<lambda>cd.
     rbind (rbind (required r ''category'') (choice errorCategories)) (\<lambda>cat.
     rbind (rbind (required r ''message'') (text_of 2048)) (\<lambda>msg.
     rbind (rbind (required r ''retry'') (choice retryDispositions)) (\<lambda>rt.
     rbind (optional r ''details'' jsonObject) (\<lambda>det.
     Inr \<lparr>e_code = cd, e_category = cat, e_message = msg, e_retry = rt, e_details = det\<rparr>))))))"

definition requestMessage :: "jsv \<Rightarrow> wire_request checked" where
  "requestMessage v =
     rbind (record_of v (keys_of [''protocol'', ''version'', ''type'', ''id'', ''deadline'', ''call''])) (\<lambda>r.
     rbind (header r) (\<lambda>_.
     rbind (identifier_of (fld r ''id'')) (\<lambda>i.
     rbind (rbind (required r ''deadline'') deadline_of) (\<lambda>t.
     rbind (rbind (required r ''call'') call_of) (\<lambda>c.
     Inr \<lparr>rq_id = i, rq_timeoutMs = t, rq_call = c\<rparr>)))))"

definition cancelMessage :: "jsv \<Rightarrow> wire_cancel checked" where
  "cancelMessage v =
     rbind (record_of v (keys_of [''protocol'', ''version'', ''type'', ''id'', ''requestId'', ''reason''])) (\<lambda>r.
     rbind (header r) (\<lambda>_.
     rbind (identifier_of (fld r ''id'')) (\<lambda>i.
     rbind (rbind (required r ''requestId'') identifier_of) (\<lambda>q.
     if i = q then Inl InvalidMessage else
     rbind (rbind (required r ''reason'') (choice cancellationReasons)) (\<lambda>c.
     Inr \<lparr>cn_id = i, cn_requestId = q, cn_reason = c\<rparr>)))))"

definition responseMessage :: "jsv \<Rightarrow> wire_response checked" where
  "responseMessage v =
     rbind (record_of v (keys_of [''protocol'', ''version'', ''type'', ''id'', ''ok'', ''result'', ''error'',
       ''operation''])) (\<lambda>common.
     rbind (header common) (\<lambda>_.
     rbind (required common ''ok'') (\<lambda>ok.
     if ok \<noteq> VBool True \<and> ok \<noteq> VBool False then Inl InvalidMessage else
     rbind (rbind (required common ''operation'') receipt_of) (\<lambda>op.
     if fld common ''ok'' = VBool True then
       rbind (record_of v (keys_of [''protocol'', ''version'', ''type'', ''id'', ''ok'', ''result'',
         ''operation''])) (\<lambda>r.
       rbind (rbind (required r ''result'') (jsonValue 0)) (\<lambda>result.
       rbind (identifier_of (fld r ''id'')) (\<lambda>i.
       Inr \<lparr>rs_id = i, rs_body = Inr result, rs_operation = op\<rparr>)))
     else
       rbind (record_of v (keys_of [''protocol'', ''version'', ''type'', ''id'', ''ok'', ''error'',
         ''operation''])) (\<lambda>r.
       rbind (identifier_of (fld r ''id'')) (\<lambda>i.
       rbind (rbind (required r ''error'') wireError_of) (\<lambda>err.
       Inr \<lparr>rs_id = i, rs_body = Inl err, rs_operation = op\<rparr>)))))))"

definition validateWireMessage :: "jsv \<Rightarrow> wire_message checked" where
  "validateWireMessage v =
     rbind (record_of v (keys_of [''protocol'', ''version'', ''type'', ''id'', ''deadline'', ''call'',
       ''requestId'', ''reason'', ''ok'', ''result'', ''error'', ''operation''])) (\<lambda>r.
     rbind (required r ''type'') (\<lambda>ty.
     if ty = VStr ''request'' then rbind (requestMessage v) (\<lambda>m. Inr (MRequest m))
     else if ty = VStr ''cancel'' then rbind (cancelMessage v) (\<lambda>m. Inr (MCancel m))
     else if ty = VStr ''response'' then rbind (responseMessage v) (\<lambda>m. Inr (MResponse m))
     else Inl InvalidMessage))"

section \<open>Handles, sessions and hosts\<close>

definition validateNativeHandle :: "jsv \<Rightarrow> native_handle checked" where
  "validateNativeHandle v =
     rbind (record_of v (keys_of [''hostInstanceId'', ''sessionId'', ''handleId''])) (\<lambda>r.
     rbind (rbind (required r ''hostInstanceId'') identifier_of) (\<lambda>h.
     rbind (rbind (required r ''sessionId'') identifier_of) (\<lambda>s.
     rbind (rbind (required r ''handleId'') identifier_of) (\<lambda>i.
     Inr \<lparr>h_hostInstanceId = h, h_sessionId = s, h_handleId = i\<rparr>))))"

definition assertHandleScope :: "string \<Rightarrow> string \<Rightarrow> native_handle \<Rightarrow> unit checked" where
  "assertHandleScope host session h =
     (if host \<noteq> h_hostInstanceId h \<or> session \<noteq> h_sessionId h then Inl ScopeMismatch else Inr ())"

definition validateSessionDescriptor :: "jsv \<Rightarrow> native_session checked" where
  "validateSessionDescriptor v =
     rbind (record_of v (keys_of [''hostInstanceId'', ''sessionId'', ''ownership'', ''surface'', ''root''])) (\<lambda>r.
     rbind (rbind (required r ''hostInstanceId'') identifier_of) (\<lambda>h.
     rbind (rbind (required r ''sessionId'') identifier_of) (\<lambda>s.
     rbind (rbind (required r ''ownership'') (choice sessionOwnerships)) (\<lambda>ow.
     rbind (rbind (required r ''surface'') (choice surfaces)) (\<lambda>sf.
     rbind (rbind (required r ''root'') validateNativeHandle) (\<lambda>root.
     rbind (assertHandleScope h s root) (\<lambda>_.
     if sf = SystemSurface \<and> ow \<noteq> Borrowed then Inl InvalidMessage
     else Inr \<lparr>s_hostInstanceId = h, s_sessionId = s, s_ownership = ow, s_surface = sf,
               s_root = root\<rparr>)))))))"

definition methodDescriptor :: "jsv \<Rightarrow> native_method checked" where
  "methodDescriptor v =
     rbind (record_of v (keys_of [''name'', ''intent'', ''scopeKinds''])) (\<lambda>r.
     rbind (rbind (required r ''scopeKinds'') arrayValues) (\<lambda>kinds.
     if kinds = [] then Inl InvalidMessage else
     rbind (rmap (choice scopeKindNames) kinds) (\<lambda>ks.
     if card (set ks) \<noteq> length ks then Inl InvalidMessage else
     rbind (rbind (required r ''name'') methodName) (\<lambda>name.
     rbind (rbind (required r ''intent'') (choice operationIntents)) (\<lambda>i.
     Inr \<lparr>m_name = name, m_intent = i, m_scopeKinds = ks\<rparr>)))))"

definition methodAllowed :: "native_method \<Rightarrow> unit checked" where
  "methodAllowed m =
     (if m_name m \<noteq> ''host.handshake'' \<and> BootstrapKind \<in> set (m_scopeKinds m) then Inl InvalidMessage
      else if m_name m = ''session.launch'' \<and> (m_intent m \<noteq> Lifecycle \<or> m_scopeKinds m \<noteq> [HostKind])
      then Inl InvalidMessage else Inr ())"

definition validateHostDescriptor :: "jsv \<Rightarrow> native_host checked" where
  "validateHostDescriptor v =
     rbind (record_of v (keys_of [''hostInstanceId'', ''platform'', ''backend'', ''methods'',
       ''maxMessageBytes''])) (\<lambda>r.
     rbind (rbind (required r ''methods'') arrayValues) (\<lambda>methods.
     if methods = [] then Inl InvalidMessage else
     rbind (rmap methodDescriptor methods) (\<lambda>ms.
     if card (set (map m_name ms)) \<noteq> length ms then Inl InvalidMessage else
     (case find (\<lambda>m. m_name m = ''host.handshake'') ms of
        None \<Rightarrow> Inl InvalidMessage
      | Some hs \<Rightarrow>
         if m_intent hs \<noteq> Observe \<or> m_scopeKinds hs \<noteq> [BootstrapKind] then Inl InvalidMessage else
         rbind (rall methodAllowed ms) (\<lambda>_.
         rbind (rbind (required r ''maxMessageBytes'') (integer 1 maxWireMessageBytes)) (\<lambda>boundary.
         rbind (rbind (required r ''hostInstanceId'') identifier_of) (\<lambda>h.
         rbind (rbind (required r ''platform'') identifier_of) (\<lambda>p.
         rbind (rbind (required r ''backend'') identifier_of) (\<lambda>b.
         Inr \<lparr>d_hostInstanceId = h, d_platform = p, d_backend = b, d_methods = ms,
              d_maxMessageBytes = boundary\<rparr>))))))))) "

fun scope_host :: "scope \<Rightarrow> string option" where
  "scope_host Bootstrap = None"
| "scope_host (HostScope h) = Some h"
| "scope_host (SessionScope h _) = Some h"
| "scope_host (HandleScope h _ _) = Some h"

definition validateCallAgainstHost :: "native_call \<Rightarrow> native_host \<Rightarrow> unit checked" where
  "validateCallAgainstHost c host =
     (case find (\<lambda>m. m_name m = c_name c) (d_methods host) of
        None \<Rightarrow> Inl InvalidMessage
      | Some m \<Rightarrow>
         if m_intent m \<noteq> c_intent c \<or> kind_of_scope (c_scope c) \<notin> set (m_scopeKinds m)
         then Inl InvalidMessage
         else (case scope_host (c_scope c) of
             None \<Rightarrow> Inr ()
           | Some h \<Rightarrow> if h \<noteq> d_hostInstanceId host then Inl InvalidMessage else Inr ()))"

section \<open>Correlation\<close>

definition validateResponseForRequest :: "wire_request \<Rightarrow> wire_response \<Rightarrow> unit checked" where
  "validateResponseForRequest rq rs =
     (let sideEffecting = c_intent (rq_call rq) \<noteq> Observe in
      if rq_id rq \<noteq> rs_id rs then Inl CorrelationMismatch
      else if \<not> sideEffecting \<and> rs_operation rs \<noteq> None then Inl CorrelationMismatch
      else if sideEffecting \<and> (case rs_operation rs of None \<Rightarrow> True
             | Some r \<Rightarrow> Some (r_operationId r) \<noteq> c_operationId (rq_call rq)) then Inl CorrelationMismatch
      else if sideEffecting \<and> (case (rs_body rs, rs_operation rs) of
               (Inr _, Some r) \<Rightarrow> r_outcome r \<noteq> Executed | _ \<Rightarrow> False) then Inl CorrelationMismatch
      else (case rs_body rs of
          Inr _ \<Rightarrow> Inr ()
        | Inl err \<Rightarrow>
            if e_retry err = RetrySafe \<and> map_option r_outcome (rs_operation rs) \<noteq> Some NotExecuted
            then Inl CorrelationMismatch else Inr ()))"

datatype ownership_action = ActRelease | ActClose | ActTerminate

definition assertOwnershipAllows :: "native_session \<Rightarrow> ownership_action \<Rightarrow> unit checked" where
  "assertOwnershipAllows s act =
     (if act \<noteq> ActRelease \<and> s_ownership s \<noteq> Owned then Inl OwnershipRequired else Inr ())"

datatype write_phase = BeforeWrite | Writing | Written

definition disconnectedOperationOutcome :: "wire_request \<Rightarrow> write_phase \<Rightarrow> outcome option" where
  "disconnectedOperationOutcome rq phase =
     (if c_intent (rq_call rq) = Observe then None
      else if phase = BeforeWrite then Some NotExecuted else Some UnknownOutcome)"

end
