(* ===== verification/NativeSchemaProps.thy ===== *)
theory NativeSchemaProps
  imports NativeSchema
begin

text \<open>
  What the native schema accepts: the frozen object each validator returns (the \<open>_value\<close>
  functions, field for field the object literal of the source), the well-formedness predicate of
  each kind of message, and the proof that validation accepts exactly the well-formed data and
  returns them unchanged.
\<close>

section \<open>Frozen copies\<close>

fun json_value :: "json \<Rightarrow> jsv" where
  "json_value JNull = VNull"
| "json_value (JBool b) = VBool b"
| "json_value (JNum q) = VNum (Fin q)"
| "json_value (JStr s) = VStr s"
| "json_value (JArr js) = arr (map json_value js)"
| "json_value (JObj fs) = obj (map (\<lambda>(k, j). (k, json_value j)) fs)"

fun json_depth :: "json \<Rightarrow> nat" where
  "json_depth (JArr js) = foldr (\<lambda>j m. max (Suc (json_depth j)) m) js 0"
| "json_depth (JObj fs) = foldr (\<lambda>f m. max (Suc (json_depth (snd f))) m) fs 0"
| "json_depth _ = 0"

fun intent_name :: "intent \<Rightarrow> string" where
  "intent_name Observe = ''observe''" | "intent_name Mutate = ''mutate''"
| "intent_name Lifecycle = ''lifecycle''"

fun outcome_name :: "outcome \<Rightarrow> string" where
  "outcome_name NotExecuted = ''notExecuted''" | "outcome_name Executed = ''executed''"
| "outcome_name UnknownOutcome = ''unknown''"

fun ownership_name :: "ownership \<Rightarrow> string" where
  "ownership_name Owned = ''owned''" | "ownership_name Borrowed = ''borrowed''"

fun surface_name :: "surface \<Rightarrow> string" where
  "surface_name ApplicationSurface = ''application''" | "surface_name SystemSurface = ''system''"

fun category_name :: "error_category \<Rightarrow> string" where
  "category_name CatProtocol = ''protocol''" | "category_name CatInvalidRequest = ''invalidRequest''"
| "category_name CatUnsupported = ''unsupported''" | "category_name CatNotFound = ''notFound''"
| "category_name CatPermissionDenied = ''permissionDenied''" | "category_name CatDeadline = ''deadline''"
| "category_name CatCancelled = ''cancelled''" | "category_name CatConflict = ''conflict''"
| "category_name CatBackend = ''backend''" | "category_name CatInternal = ''internal''"

fun retry_name :: "retry \<Rightarrow> string" where
  "retry_name RetryNever = ''never''" | "retry_name RetrySafe = ''safe''"

fun reason_name :: "cancel_reason \<Rightarrow> string" where
  "reason_name ByCaller = ''caller''" | "reason_name ByDeadline = ''deadline''"
| "reason_name ByShutdown = ''shutdown''"

fun scope_value :: "scope \<Rightarrow> jsv" where
  "scope_value Bootstrap = obj [(''kind'', VStr ''bootstrap'')]"
| "scope_value (HostScope h) = obj [(''kind'', VStr ''host''), (''hostInstanceId'', VStr h)]"
| "scope_value (SessionScope h s) =
     obj [(''kind'', VStr ''session''), (''hostInstanceId'', VStr h), (''sessionId'', VStr s)]"
| "scope_value (HandleScope h s i) =
     obj [(''kind'', VStr ''handle''), (''hostInstanceId'', VStr h), (''sessionId'', VStr s),
          (''handleId'', VStr i)]"

definition handle_value :: "native_handle \<Rightarrow> jsv" where
  "handle_value h = obj [(''hostInstanceId'', VStr (h_hostInstanceId h)),
     (''sessionId'', VStr (h_sessionId h)), (''handleId'', VStr (h_handleId h))]"

definition session_value :: "native_session \<Rightarrow> jsv" where
  "session_value s = obj [(''hostInstanceId'', VStr (s_hostInstanceId s)),
     (''sessionId'', VStr (s_sessionId s)), (''ownership'', VStr (ownership_name (s_ownership s))),
     (''surface'', VStr (surface_name (s_surface s))), (''root'', handle_value (s_root s))]"

definition call_value :: "native_call \<Rightarrow> jsv" where
  "call_value c = obj ([(''name'', VStr (c_name c)), (''intent'', VStr (intent_name (c_intent c))),
     (''scope'', scope_value (c_scope c)), (''payload'', json_value (JObj (c_payload c)))]
     @ (case c_operationId c of None \<Rightarrow> [] | Some op \<Rightarrow> [(''operationId'', VStr op)]))"

definition receipt_value :: "op_receipt option \<Rightarrow> jsv" where
  "receipt_value r = (case r of None \<Rightarrow> VNull
     | Some x \<Rightarrow> obj [(''operationId'', VStr (r_operationId x)), (''outcome'', VStr (outcome_name (r_outcome x)))])"

definition error_value :: "wire_error \<Rightarrow> jsv" where
  "error_value e = obj ([(''code'', VStr (e_code e)), (''category'', VStr (category_name (e_category e))),
     (''message'', VStr (e_message e)), (''retry'', VStr (retry_name (e_retry e)))]
     @ (case e_details e of None \<Rightarrow> [] | Some d \<Rightarrow> [(''details'', json_value (JObj d))]))"

definition header_fields :: "string \<Rightarrow> string \<Rightarrow> fields" where
  "header_fields ty i = [(''protocol'', VStr nativeProtocolName), (''version'', VStr nativeProtocolVersion),
     (''type'', VStr ty), (''id'', VStr i)]"

definition request_value :: "wire_request \<Rightarrow> jsv" where
  "request_value q = obj (header_fields ''request'' (rq_id q)
     @ [(''deadline'', obj [(''timeoutMs'', vint (rq_timeoutMs q))]), (''call'', call_value (rq_call q))])"

definition cancel_value :: "wire_cancel \<Rightarrow> jsv" where
  "cancel_value c = obj (header_fields ''cancel'' (cn_id c)
     @ [(''requestId'', VStr (cn_requestId c)), (''reason'', VStr (reason_name (cn_reason c)))])"

definition response_value :: "wire_response \<Rightarrow> jsv" where
  "response_value p = obj (header_fields ''response'' (rs_id p)
     @ (case rs_body p of
          Inr result \<Rightarrow> [(''ok'', VBool True), (''result'', json_value result)]
        | Inl err \<Rightarrow> [(''ok'', VBool False), (''error'', error_value err)])
     @ [(''operation'', receipt_value (rs_operation p))])"

fun message_value :: "wire_message \<Rightarrow> jsv" where
  "message_value (MRequest q) = request_value q"
| "message_value (MCancel c) = cancel_value c"
| "message_value (MResponse p) = response_value p"

section \<open>Well-formed data\<close>

definition json_ok :: "json \<Rightarrow> bool" where
  "json_ok j = (json_depth j \<le> 32)"

fun wf_scope :: "scope \<Rightarrow> bool" where
  "wf_scope Bootstrap = True"
| "wf_scope (HostScope h) = identifier_ok h"
| "wf_scope (SessionScope h s) = (identifier_ok h \<and> identifier_ok s)"
| "wf_scope (HandleScope h s i) = (identifier_ok h \<and> identifier_ok s \<and> identifier_ok i)"

definition wf_handle :: "native_handle \<Rightarrow> bool" where
  "wf_handle h = (identifier_ok (h_hostInstanceId h) \<and> identifier_ok (h_sessionId h) \<and> identifier_ok (h_handleId h))"

definition wf_session :: "native_session \<Rightarrow> bool" where
  "wf_session s = (identifier_ok (s_hostInstanceId s) \<and> identifier_ok (s_sessionId s) \<and> wf_handle (s_root s)
     \<and> h_hostInstanceId (s_root s) = s_hostInstanceId s \<and> h_sessionId (s_root s) = s_sessionId s
     \<and> (s_surface s = SystemSurface \<longrightarrow> s_ownership s = Borrowed))"

definition method_ok :: "string \<Rightarrow> bool" where
  "method_ok s = (text_ok 128 s \<and> method_shape s)"

definition wf_call :: "native_call \<Rightarrow> bool" where
  "wf_call c = (method_ok (c_name c) \<and> wf_scope (c_scope c) \<and> json_ok (JObj (c_payload c))
     \<and> (c_intent c = Observe \<longleftrightarrow> c_operationId c = None)
     \<and> (\<forall>op \<in> set_option (c_operationId c). identifier_ok op)
     \<and> (c_scope c = Bootstrap \<longleftrightarrow> c_name c = ''host.handshake'')
     \<and> (c_name c = ''host.handshake'' \<longrightarrow> c_intent c = Observe)
     \<and> (c_name c = ''session.launch'' \<longrightarrow> c_intent c = Lifecycle \<and> kind_of_scope (c_scope c) = HostKind))"

definition wf_request :: "wire_request \<Rightarrow> bool" where
  "wf_request q = (identifier_ok (rq_id q) \<and> 0 \<le> rq_timeoutMs q \<and> rq_timeoutMs q \<le> maxDeadlineMs
     \<and> wf_call (rq_call q))"

definition wf_cancel :: "wire_cancel \<Rightarrow> bool" where
  "wf_cancel c = (identifier_ok (cn_id c) \<and> identifier_ok (cn_requestId c) \<and> cn_id c \<noteq> cn_requestId c)"

definition wf_error :: "wire_error \<Rightarrow> bool" where
  "wf_error e = (identifier_ok (e_code e) \<and> text_ok 2048 (e_message e)
     \<and> (\<forall>d \<in> set_option (e_details e). json_ok (JObj d)))"

definition wf_response :: "wire_response \<Rightarrow> bool" where
  "wf_response p = (identifier_ok (rs_id p)
     \<and> (case rs_body p of Inr j \<Rightarrow> json_ok j | Inl e \<Rightarrow> wf_error e)
     \<and> (\<forall>r \<in> set_option (rs_operation p). identifier_ok (r_operationId r)))"

fun wf_message :: "wire_message \<Rightarrow> bool" where
  "wf_message (MRequest q) = wf_request q"
| "wf_message (MCancel c) = wf_cancel c"
| "wf_message (MResponse p) = wf_response p"

section \<open>Primitives\<close>

lemma record_of_obj: "list_all keys (map fst r) \<Longrightarrow> record_of (obj r) keys = Inr r"
  by (subst record_of_def, subst obj_def, subst jsv.case, subst data_fields_obj) (auto simp: list_all_iff)

lemma record_of_InrE:
  "record_of v keys = Inr r \<Longrightarrow>
   (\<And>p ps. v = VObj p ps \<Longrightarrow> p \<noteq> OtherProto \<Longrightarrow> data_fields True keys ps = Some r \<Longrightarrow> thesis) \<Longrightarrow> thesis"
  by (auto simp: record_of_def split: jsv.splits if_splits option.splits)

lemma arrayValues_arr [simp]: "arrayValues (arr vs) = Inr vs"
  by (simp add: arrayValues_def arr_def)

lemma required_eq_Inr [simp]: "required r k = Inr v \<longleftrightarrow> has_own r k \<and> fld r k = v"
  by (auto simp: required_def)

lemma optional_Inr:
  "optional r k f = Inr x \<longleftrightarrow>
   (x = None \<and> \<not> has_own r k) \<or> (has_own r k \<and> (\<exists>a. x = Some a \<and> f (fld r k) = Inr a))"
  by (auto simp: optional_def split: if_splits)

lemma optional_simps:
  "\<not> has_own r k \<Longrightarrow> optional r k f = Inr None"
  "has_own r k \<Longrightarrow> optional r k f = rbind (f (fld r k)) (\<lambda>a. Inr (Some a))"
  by (simp_all add: optional_def)

lemma text_of_VStr [simp]: "text_of n (VStr s) = (if text_ok n s then Inr s else Inl InvalidMessage)"
  by (simp add: text_of_def)

lemma text_of_Inr: "text_of n v = Inr s \<longleftrightarrow> v = VStr s \<and> text_ok n s"
  by (auto simp: text_of_def split: jsv.splits if_splits)

lemma identifier_of_Inr: "identifier_of v = Inr s \<longleftrightarrow> v = VStr s \<and> identifier_ok s"
  by (auto simp: identifier_of_def identifier_ok_def text_of_Inr split: if_splits)

lemma methodName_Inr: "methodName v = Inr s \<longleftrightarrow> v = VStr s \<and> method_ok s"
  by (auto simp: methodName_def method_ok_def text_of_Inr split: if_splits)

lemma integer_Inr:
  "integer lo hi v = Inr n \<longleftrightarrow> v = vint n \<and> lo \<le> n \<and> n \<le> hi \<and> \<bar>n\<bar> \<le> max_safe_integer"
proof
  assume *: "integer lo hi v = Inr n"
  then obtain q where q: "v = VNum (Fin q)" "is_safe_integer (Fin q)" "of_int lo \<le> q" "q \<le> of_int hi"
      "n = floor q"
    by (auto simp: integer_def split: jsv.splits jsnum.splits if_splits)
  from q(2) obtain m where m: "q = of_int m" by (auto simp: is_safe_integer_def elim: num_integralE)
  with q show "v = vint n \<and> lo \<le> n \<and> n \<le> hi \<and> \<bar>n\<bar> \<le> max_safe_integer"
    by (simp add: is_safe_integer_def flip: of_int_abs)
next
  assume "v = vint n \<and> lo \<le> n \<and> n \<le> hi \<and> \<bar>n\<bar> \<le> max_safe_integer"
  then show "integer lo hi v = Inr n"
    by (simp add: integer_def is_safe_integer_def flip: of_int_abs)
qed

lemmas primitive_Inr = text_of_Inr identifier_of_Inr methodName_Inr integer_Inr

interpretation vid: validator identifier_of VStr identifier_ok
  by unfold_locales (auto simp: identifier_of_Inr)

interpretation vname: validator methodName VStr method_ok
  by unfold_locales (auto simp: methodName_Inr)

lemma choice_Inr: "choice table v = Inr x \<longleftrightarrow> (\<exists>s. v = VStr s \<and> map_of table s = Some x)"
  by (auto simp: choice_def split: jsv.splits option.splits)

interpretation vintent: validator "choice operationIntents" "\<lambda>x. VStr (intent_name x)" "\<lambda>_. True"
proof
  fix a :: intent show "choice operationIntents (VStr (intent_name a)) = Inr a"
    by (cases a) (auto simp: choice_Inr operationIntents_def)
qed simp

interpretation voutcome: validator "choice operationOutcomes" "\<lambda>x. VStr (outcome_name x)" "\<lambda>_. True"
proof
  fix a :: outcome show "choice operationOutcomes (VStr (outcome_name a)) = Inr a"
    by (cases a) (auto simp: choice_Inr operationOutcomes_def)
qed simp

interpretation vowner: validator "choice sessionOwnerships" "\<lambda>x. VStr (ownership_name x)" "\<lambda>_. True"
proof
  fix a :: ownership show "choice sessionOwnerships (VStr (ownership_name a)) = Inr a"
    by (cases a) (auto simp: choice_Inr sessionOwnerships_def)
qed simp

interpretation vsurface: validator "choice surfaces" "\<lambda>x. VStr (surface_name x)" "\<lambda>_. True"
proof
  fix a :: surface show "choice surfaces (VStr (surface_name a)) = Inr a"
    by (cases a) (auto simp: choice_Inr surfaces_def)
qed simp

interpretation vcategory: validator "choice errorCategories" "\<lambda>x. VStr (category_name x)" "\<lambda>_. True"
proof
  fix a :: error_category show "choice errorCategories (VStr (category_name a)) = Inr a"
    by (cases a) (auto simp: choice_Inr errorCategories_def)
qed simp

interpretation vretry: validator "choice retryDispositions" "\<lambda>x. VStr (retry_name x)" "\<lambda>_. True"
proof
  fix a :: retry show "choice retryDispositions (VStr (retry_name a)) = Inr a"
    by (cases a) (auto simp: choice_Inr retryDispositions_def)
qed simp

interpretation vreason: validator "choice cancellationReasons" "\<lambda>x. VStr (reason_name x)" "\<lambda>_. True"
proof
  fix a :: cancel_reason show "choice cancellationReasons (VStr (reason_name a)) = Inr a"
    by (cases a) (auto simp: choice_Inr cancellationReasons_def)
qed simp

lemmas choice_encode [simp] =
  vintent.decode_encode [OF TrueI] voutcome.decode_encode [OF TrueI] vowner.decode_encode [OF TrueI]
  vsurface.decode_encode [OF TrueI] vcategory.decode_encode [OF TrueI]
  vretry.decode_encode [OF TrueI] vreason.decode_encode [OF TrueI]

section \<open>JSON payloads\<close>

lemma foldr_max_le_iff: "foldr (\<lambda>x m. max (Suc (f x)) m) xs 0 \<le> n \<longleftrightarrow> (\<forall>x \<in> set xs. Suc (f x) \<le> n)"
  for f :: "'a \<Rightarrow> nat"
  by (induction xs) auto

lemma jsonValue_bound: "jsonValue d v = Inr j \<Longrightarrow> d + json_depth j \<le> 32"
proof (induction d v arbitrary: j rule: jsonValue.induct)
  case (1 d v)
  from "1.prems" have d: "d \<le> 32" by (auto simp: jsonValue.simps [of d v] split: if_splits)
  show ?case
  proof (cases v)
    case (VArr b ps ks)
    with "1.prems" obtain vs js where vs: "arrayValues v = Inr vs" and js: "rmap (jsonValue (Suc d)) vs = Inr js"
        and j: "j = JArr js"
      by (auto simp: jsonValue.simps [of d "VArr b ps ks"] split: if_splits)
    have "Suc (json_depth x) \<le> 32 - d" if "x \<in> set js" for x
    proof -
      from rmap_set [OF js that] obtain w where w: "w \<in> set vs" "jsonValue (Suc d) w = Inr x" by blast
      from "1.IH"(1) [OF _ VArr _ w] d vs VArr have "Suc d + json_depth x \<le> 32" by simp
      then show ?thesis by simp
    qed
    then have "json_depth j \<le> 32 - d" by (simp add: j foldr_max_le_iff)
    with d show ?thesis by simp
  next
    case (VObj p ps)
    with "1.prems" obtain r js where r: "record_of v (\<lambda>_. True) = Inr r"
        and js: "rmap (\<lambda>(k, w). rbind (jsonValue (Suc d) w) (\<lambda>j. Inr (k, j))) r = Inr js" and j: "j = JObj js"
      by (auto simp: jsonValue.simps [of d "VObj p ps"] split: if_splits)
    have "Suc (json_depth (snd x)) \<le> 32 - d" if "x \<in> set js" for x
    proof -
      from rmap_set [OF js that] obtain k w where w: "(k, w) \<in> set r" "jsonValue (Suc d) w = Inr (snd x)"
        by auto
      from "1.IH"(2) [OF _ VObj _ w(1) refl w(2)] d r VObj have "Suc d + json_depth (snd x) \<le> 32" by simp
      then show ?thesis by simp
    qed
    then have "json_depth j \<le> 32 - d" by (simp add: j foldr_max_le_iff)
    with d show ?thesis by simp
  qed (use "1.prems" d in \<open>auto simp: jsonValue.simps [of d] split: if_splits jsnum.splits\<close>)
qed

lemma jsonValue_embed: "d + json_depth j \<le> 32 \<Longrightarrow> jsonValue d (json_value j) = Inr j"
proof (induction j arbitrary: d)
  case (JArr js)
  have d: "d \<le> 32" using JArr.prems by simp
  have sub: "Suc d + json_depth x \<le> 32" if "x \<in> set js" for x
  proof -
    have "json_depth (JArr js) \<le> 32 - d" using JArr.prems by arith
    with that have "Suc (json_depth x) \<le> 32 - d" by (auto simp: foldr_max_le_iff)
    with d show ?thesis by arith
  qed
  have "rmap (jsonValue (Suc d)) (map json_value js) = Inr js"
    by (rule rmap_map_Inr) (use JArr.IH sub in auto)
  then show ?case using d arrayValues_arr [of "map json_value js"]
    by (simp add: jsonValue.simps [of d] arr_def)
next
  case (JObj fs)
  have d: "d \<le> 32" using JObj.prems by simp
  have sub: "Suc d + json_depth (snd x) \<le> 32" if "x \<in> set fs" for x
  proof -
    have "json_depth (JObj fs) \<le> 32 - d" using JObj.prems by arith
    with that have "Suc (json_depth (snd x)) \<le> 32 - d" by (auto simp: foldr_max_le_iff)
    with d show ?thesis by arith
  qed
  let ?f = "\<lambda>(k, w). rbind (jsonValue (Suc d) w) (\<lambda>j. Inr (k, j))"
  have "rmap ?f (map (\<lambda>(k, j). (k, json_value j)) fs) = Inr fs"
    by (rule rmap_map_Inr) (use JObj.IH sub in \<open>fastforce split: prod.splits\<close>)
  then show ?case using d record_of_obj [of "\<lambda>_. True" "map (\<lambda>(k, j). (k, json_value j)) fs"]
    by (simp add: jsonValue.simps [of d] obj_def list_all_iff)
qed (simp_all add: jsonValue.simps)

interpretation vjson: validator "jsonValue 0" json_value json_ok
  by unfold_locales (auto simp: json_ok_def jsonValue_embed dest: jsonValue_bound)

interpretation vjobj: validator jsonObject "\<lambda>fs. json_value (JObj fs)" "\<lambda>fs. json_ok (JObj fs)"
proof
  fix v fs assume "jsonObject v = Inr fs"
  then obtain j where "jsonValue 0 v = Inr j" "(case j of JObj fs \<Rightarrow> Inr fs | _ \<Rightarrow> Inl InvalidMessage) = Inr fs"
    by (auto simp: jsonObject_def)
  then have "jsonValue 0 v = Inr (JObj fs)" by (cases j) auto
  then show "json_ok (JObj fs)" by (rule vjson.decode_wf)
next
  fix fs assume "json_ok (JObj fs)"
  then show "jsonObject (json_value (JObj fs)) = Inr fs"
    by (simp only: jsonObject_def vjson.decode_encode rbind_simps json.case)
qed

section \<open>Composite messages\<close>

lemmas embed_simps = optional_simps record_of_obj keys_of_def vid.decode_encode vname.decode_encode

lemma kind_of_scope_bootstrap [simp]: "kind_of_scope sc = BootstrapKind \<longleftrightarrow> sc = Bootstrap"
  by (cases sc) auto

interpretation vscope: validator scope_of scope_value wf_scope
proof
  fix v sc assume "scope_of v = Inr sc"
  then show "wf_scope sc"
    by (auto simp: scope_of_def primitive_Inr split: if_splits)
next
  fix sc assume "wf_scope sc"
  then show "scope_of (scope_value sc) = Inr sc"
    by (cases sc) (simp_all add: scope_of_def embed_simps required_def)
qed

interpretation vhandle: validator validateNativeHandle handle_value wf_handle
proof
  fix v h assume "validateNativeHandle v = Inr h"
  then show "wf_handle h" by (auto simp: validateNativeHandle_def wf_handle_def primitive_Inr)
next
  fix h assume "wf_handle h"
  then show "validateNativeHandle (handle_value h) = Inr h"
    by (simp add: validateNativeHandle_def handle_value_def wf_handle_def embed_simps required_def)
qed

lemma assertHandleScope_Inr [simp]:
  "assertHandleScope h s r = Inr u \<longleftrightarrow> h_hostInstanceId r = h \<and> h_sessionId r = s"
  by (auto simp: assertHandleScope_def)

interpretation vsession: validator validateSessionDescriptor session_value wf_session
proof
  fix v s assume "validateSessionDescriptor v = Inr s"
  then show "wf_session s"
    by (auto simp: validateSessionDescriptor_def wf_session_def primitive_Inr
        dest: vhandle.decode_wf split: if_splits)
next
  fix s assume "wf_session s"
  then show "validateSessionDescriptor (session_value s) = Inr s"
    by (simp add: validateSessionDescriptor_def session_value_def wf_session_def embed_simps required_def
        vhandle.decode_encode assertHandleScope_def)
qed

interpretation vreceipt: validator receipt_of receipt_value
  "\<lambda>r. \<forall>x \<in> set_option r. identifier_ok (r_operationId x)"
proof
  fix v r assume "receipt_of v = Inr r"
  then show "\<forall>x \<in> set_option r. identifier_ok (r_operationId x)"
    by (auto simp: receipt_of_def primitive_Inr split: if_splits)
next
  fix r :: "op_receipt option" assume "\<forall>x \<in> set_option r. identifier_ok (r_operationId x)"
  then show "receipt_of (receipt_value r) = Inr r"
    by (cases r) (simp_all add: receipt_of_def receipt_value_def embed_simps required_def, simp add: obj_def)
qed

interpretation verror: validator wireError_of error_value wf_error
proof
  fix v e assume "wireError_of v = Inr e"
  then show "wf_error e"
    by (auto simp: wireError_of_def wf_error_def primitive_Inr optional_Inr dest: vjobj.decode_wf)
next
  fix e assume "wf_error e"
  then show "wireError_of (error_value e) = Inr e"
    by (cases "e_details e") (simp_all add: wireError_of_def error_value_def wf_error_def embed_simps required_def
        vjobj.decode_encode del: json_value.simps)
qed

lemma call_of_wf: "call_of v = Inr c \<Longrightarrow> wf_call c"
proof -
  assume "call_of v = Inr c"
  then obtain r where "method_ok (c_name c)" "optional r ''operationId'' identifier_of = Inr (c_operationId c)"
    "jsonObject (fld r ''payload'') = Inr (c_payload c)" "scope_of (fld r ''scope'') = Inr (c_scope c)"
    "\<not> (c_intent c = Observe \<and> c_operationId c \<noteq> None)" "\<not> (c_intent c \<noteq> Observe \<and> c_operationId c = None)"
    "(kind_of_scope (c_scope c) = BootstrapKind) = (c_name c = ''host.handshake'')"
    "\<not> (c_name c = ''host.handshake'' \<and> c_intent c \<noteq> Observe)"
    "\<not> (c_name c = ''session.launch'' \<and> (c_intent c \<noteq> Lifecycle \<or> kind_of_scope (c_scope c) \<noteq> HostKind))"
    by (clarsimp simp: call_of_def methodName_Inr simp del: not_None_eq)
  then show "wf_call c"
    by (auto simp: wf_call_def optional_Inr identifier_of_Inr dest: vjobj.decode_wf vscope.decode_wf)
qed

lemma call_of_embed: "wf_call c \<Longrightarrow> call_of (call_value c) = Inr c"
proof (cases "c_operationId c")
  case None
  assume "wf_call c"
  with None show ?thesis
    by (auto simp add: call_of_def call_value_def wf_call_def embed_simps required_def
        vjobj.decode_encode vscope.decode_encode simp del: json_value.simps intent_name.simps)
next
  case (Some op)
  assume "wf_call c"
  with Some show ?thesis
    by (auto simp add: call_of_def call_value_def wf_call_def embed_simps required_def
        vjobj.decode_encode vscope.decode_encode simp del: json_value.simps intent_name.simps)
qed

interpretation vcall: validator call_of call_value wf_call
  by unfold_locales (rule call_of_wf call_of_embed, assumption)+

lemma header_ok:
  "map_of r ''protocol'' = Some (VStr nativeProtocolName) \<Longrightarrow>
   map_of r ''version'' = Some (VStr nativeProtocolVersion) \<Longrightarrow>
   map_of r ''id'' = Some (VStr i) \<Longrightarrow> identifier_ok i \<Longrightarrow> header r = Inr ()"
  by (simp add: header_def required_def has_own_def fld_def vid.decode_encode)

interpretation vrequest: validator requestMessage request_value wf_request
proof
  fix v q assume "requestMessage v = Inr q"
  then show "wf_request q"
    by (auto simp: requestMessage_def deadline_of_def wf_request_def primitive_Inr dest: vcall.decode_wf)
next
  fix q assume wf: "wf_request q"
  then have "integer 0 maxDeadlineMs (vint (rq_timeoutMs q)) = Inr (rq_timeoutMs q)"
    by (simp add: integer_Inr wf_request_def maxDeadlineMs_def max_safe_integer_def)
  with wf show "requestMessage (request_value q) = Inr q"
    by (simp add: requestMessage_def deadline_of_def request_value_def header_fields_def wf_request_def
        embed_simps required_def header_ok vcall.decode_encode)
qed

interpretation vcancel: validator cancelMessage cancel_value wf_cancel
proof
  fix v c assume "cancelMessage v = Inr c"
  then show "wf_cancel c" by (auto simp: cancelMessage_def wf_cancel_def primitive_Inr split: if_splits)
next
  fix c assume "wf_cancel c"
  then show "cancelMessage (cancel_value c) = Inr c"
    by (simp add: cancelMessage_def cancel_value_def header_fields_def wf_cancel_def
        embed_simps required_def header_ok)
qed

interpretation vresponse: validator responseMessage response_value wf_response
proof
  fix v p assume "responseMessage v = Inr p"
  then show "wf_response p"
    by (auto simp: responseMessage_def wf_response_def primitive_Inr
        dest: vjson.decode_wf verror.decode_wf vreceipt.decode_wf split: if_splits)
next
  fix p assume wf: "wf_response p"
  show "responseMessage (response_value p) = Inr p"
  proof (cases "rs_body p")
    case (Inl e)
    with wf show ?thesis
      by (simp add: responseMessage_def response_value_def header_fields_def wf_response_def
        embed_simps required_def header_ok verror.decode_encode vreceipt.decode_encode)
  next
    case (Inr j)
    with wf show ?thesis
      by (simp add: responseMessage_def response_value_def header_fields_def wf_response_def
        embed_simps required_def header_ok vjson.decode_encode vreceipt.decode_encode)
  qed
qed

lemma message_value_type:
  "\<exists>rest. message_value m = obj (header_fields
     (case m of MRequest _ \<Rightarrow> ''request'' | MCancel _ \<Rightarrow> ''cancel'' | MResponse _ \<Rightarrow> ''response'')
     (case m of MRequest q \<Rightarrow> rq_id q | MCancel c \<Rightarrow> cn_id c | MResponse p \<Rightarrow> rs_id p) @ rest)
   \<and> set (map fst rest) \<subseteq> set [''deadline'', ''call'', ''requestId'', ''reason'', ''ok'', ''result'', ''error'',
       ''operation'']"
  by (cases m) (auto simp: request_value_def cancel_value_def response_value_def split: sum.splits)

interpretation vmessage: validator validateWireMessage message_value wf_message
proof
  fix v m assume "validateWireMessage v = Inr m"
  then show "wf_message m"
    by (auto simp: validateWireMessage_def split: if_splits
        dest: vrequest.decode_wf vcancel.decode_wf vresponse.decode_wf)
next
  fix m assume wf: "wf_message m"
  obtain rest where eq: "message_value m = obj (header_fields
     (case m of MRequest _ \<Rightarrow> ''request'' | MCancel _ \<Rightarrow> ''cancel'' | MResponse _ \<Rightarrow> ''response'')
     (case m of MRequest q \<Rightarrow> rq_id q | MCancel c \<Rightarrow> cn_id c | MResponse p \<Rightarrow> rs_id p) @ rest)"
    and keys: "set (map fst rest) \<subseteq> set [''deadline'', ''call'', ''requestId'', ''reason'', ''ok'', ''result'',
       ''error'', ''operation'']"
    using message_value_type by blast
  let ?r = "header_fields
     (case m of MRequest _ \<Rightarrow> ''request'' | MCancel _ \<Rightarrow> ''cancel'' | MResponse _ \<Rightarrow> ''response'')
     (case m of MRequest q \<Rightarrow> rq_id q | MCancel c \<Rightarrow> cn_id c | MResponse p \<Rightarrow> rs_id p) @ rest"
  have "record_of (message_value m) (keys_of [''protocol'', ''version'', ''type'', ''id'', ''deadline'',
      ''call'', ''requestId'', ''reason'', ''ok'', ''result'', ''error'', ''operation'']) = Inr ?r"
    unfolding eq by (rule record_of_obj) (use keys in \<open>auto simp: header_fields_def keys_of_def list_all_iff\<close>)
  moreover have "required ?r ''type'' = Inr (VStr
     (case m of MRequest _ \<Rightarrow> ''request'' | MCancel _ \<Rightarrow> ''cancel'' | MResponse _ \<Rightarrow> ''response''))"
    by (simp add: header_fields_def)
  ultimately show "validateWireMessage (message_value m) = Inr m"
    using wf by (cases m) (simp_all add: validateWireMessage_def
        vrequest.decode_encode vcancel.decode_encode vresponse.decode_encode)
qed

section \<open>Hosts\<close>

definition method_value :: "native_method \<Rightarrow> jsv" where
  "method_value m = obj [(''name'', VStr (m_name m)), (''intent'', VStr (intent_name (m_intent m))),
     (''scopeKinds'', arr (map (\<lambda>k. VStr (case k of BootstrapKind \<Rightarrow> ''bootstrap'' | HostKind \<Rightarrow> ''host''
        | SessionKind \<Rightarrow> ''session'' | HandleKind \<Rightarrow> ''handle'')) (m_scopeKinds m)))]"

definition wf_method :: "native_method \<Rightarrow> bool" where
  "wf_method m = (method_ok (m_name m) \<and> m_scopeKinds m \<noteq> [] \<and> distinct (m_scopeKinds m))"

definition host_value :: "native_host \<Rightarrow> jsv" where
  "host_value h = obj [(''hostInstanceId'', VStr (d_hostInstanceId h)), (''platform'', VStr (d_platform h)),
     (''backend'', VStr (d_backend h)), (''methods'', arr (map method_value (d_methods h))),
     (''maxMessageBytes'', vint (d_maxMessageBytes h))]"

text \<open>
  A host is well formed when its methods are distinct, the handshake is advertised as
  observe/bootstrap, nothing else uses the bootstrap scope, and a session launch is lifecycle/host.
\<close>

definition wf_host :: "native_host \<Rightarrow> bool" where
  "wf_host h = (identifier_ok (d_hostInstanceId h) \<and> identifier_ok (d_platform h) \<and> identifier_ok (d_backend h)
     \<and> 1 \<le> d_maxMessageBytes h \<and> d_maxMessageBytes h \<le> maxWireMessageBytes
     \<and> list_all wf_method (d_methods h) \<and> distinct (map m_name (d_methods h))
     \<and> (\<exists>m \<in> set (d_methods h). m_name m = ''host.handshake'')
     \<and> (\<forall>m \<in> set (d_methods h). m_name m = ''host.handshake'' \<longrightarrow>
          m_intent m = Observe \<and> m_scopeKinds m = [BootstrapKind])
     \<and> (\<forall>m \<in> set (d_methods h). m_name m \<noteq> ''host.handshake'' \<longrightarrow> BootstrapKind \<notin> set (m_scopeKinds m))
     \<and> (\<forall>m \<in> set (d_methods h). m_name m = ''session.launch'' \<longrightarrow>
          m_intent m = Lifecycle \<and> m_scopeKinds m = [HostKind]))"

interpretation vkind: validator "choice scopeKindNames" "\<lambda>k. VStr (case k of BootstrapKind \<Rightarrow> ''bootstrap''
   | HostKind \<Rightarrow> ''host'' | SessionKind \<Rightarrow> ''session'' | HandleKind \<Rightarrow> ''handle'')" "\<lambda>_. True"
proof
  fix a :: scope_kind
  show "choice scopeKindNames (VStr (case a of BootstrapKind \<Rightarrow> ''bootstrap''
   | HostKind \<Rightarrow> ''host'' | SessionKind \<Rightarrow> ''session'' | HandleKind \<Rightarrow> ''handle'')) = Inr a"
    by (cases a) (auto simp: choice_Inr scopeKindNames_def)
qed simp

interpretation vmethod: validator methodDescriptor method_value wf_method
proof
  fix v m assume "methodDescriptor v = Inr m"
  then show "wf_method m"
    by (auto simp: methodDescriptor_def wf_method_def primitive_Inr card_set_eq_length_iff
        dest: rmap_length split: if_splits)
next
  fix m assume wf: "wf_method m"
  have "rmap (choice scopeKindNames) (map (\<lambda>k. VStr (case k of BootstrapKind \<Rightarrow> ''bootstrap''
     | HostKind \<Rightarrow> ''host'' | SessionKind \<Rightarrow> ''session'' | HandleKind \<Rightarrow> ''handle'')) (m_scopeKinds m))
     = Inr (m_scopeKinds m)"
    by (rule vkind.decode_list) (simp add: list_all_iff)
  with wf show "methodDescriptor (method_value m) = Inr m"
    by (simp add: methodDescriptor_def method_value_def wf_method_def embed_simps required_def
        card_set_eq_length_iff)
qed

lemma rall_methodAllowed: "rall methodAllowed ms = Inr u \<longleftrightarrow>
   (\<forall>m \<in> set ms. (m_name m \<noteq> ''host.handshake'' \<longrightarrow> BootstrapKind \<notin> set (m_scopeKinds m))
      \<and> (m_name m = ''session.launch'' \<longrightarrow> m_intent m = Lifecycle \<and> m_scopeKinds m = [HostKind]))"
  by (auto simp: rall_Inr_iff methodAllowed_def)

lemma find_distinct_name:
  "distinct (map f xs) \<Longrightarrow> x \<in> set xs \<Longrightarrow> find (\<lambda>y. f y = f x) xs = Some x"
  by (induction xs) (auto simp: image_iff)

lemma validateHostDescriptor_Inr:
  "validateHostDescriptor v = Inr h \<Longrightarrow> \<exists>vs hs. rmap methodDescriptor vs = Inr (d_methods h) \<and>
   card (set (map m_name (d_methods h))) = length (d_methods h) \<and>
   find (\<lambda>m. m_name m = ''host.handshake'') (d_methods h) = Some hs \<and> m_intent hs = Observe
   \<and> m_scopeKinds hs = [BootstrapKind] \<and> rall methodAllowed (d_methods h) = Inr ()
   \<and> identifier_ok (d_hostInstanceId h) \<and> identifier_ok (d_platform h) \<and> identifier_ok (d_backend h)
   \<and> 1 \<le> d_maxMessageBytes h \<and> d_maxMessageBytes h \<le> maxWireMessageBytes"
  by (clarsimp simp: validateHostDescriptor_def simp del: not_None_eq split: option.splits)
    (auto simp: primitive_Inr)

lemma validateHostDescriptor_wf: "validateHostDescriptor v = Inr h \<Longrightarrow> wf_host h"
proof -
  assume "validateHostDescriptor v = Inr h"
  then obtain vs hs where ms: "rmap methodDescriptor vs = Inr (d_methods h)"
      "card (set (map m_name (d_methods h))) = length (d_methods h)"
      "find (\<lambda>m. m_name m = ''host.handshake'') (d_methods h) = Some hs" "m_intent hs = Observe"
      "m_scopeKinds hs = [BootstrapKind]" "rall methodAllowed (d_methods h) = Inr ()"
    and h: "identifier_ok (d_hostInstanceId h)" "identifier_ok (d_platform h)" "identifier_ok (d_backend h)"
      "1 \<le> d_maxMessageBytes h" "d_maxMessageBytes h \<le> maxWireMessageBytes"
    using validateHostDescriptor_Inr by blast
  from ms(2) have d: "distinct (map m_name (d_methods h))"
    using card_set_eq_length_iff [of "map m_name (d_methods h)"] by simp
  from ms(3) have hs: "hs \<in> set (d_methods h)" "m_name hs = ''host.handshake''" by (auto simp: find_Some_iff)
  have "m = hs" if "m \<in> set (d_methods h)" "m_name m = ''host.handshake''" for m
    using d hs that by (auto simp: distinct_map inj_on_def)
  then have hsk: "\<forall>m \<in> set (d_methods h). m_name m = ''host.handshake'' \<longrightarrow>
      m_intent m = Observe \<and> m_scopeKinds m = [BootstrapKind]"
    using ms(4,5) by blast
  show "wf_host h"
    unfolding wf_host_def
    using vmethod.decode_list_wf [OF ms(1)] d h hs hsk ms(6) [unfolded rall_methodAllowed] by blast
qed

interpretation vhost: validator validateHostDescriptor host_value wf_host
proof
  fix v h show "validateHostDescriptor v = Inr h \<Longrightarrow> wf_host h" by (rule validateHostDescriptor_wf)
next
  fix h assume wf: "wf_host h"
  then obtain hs where hs: "hs \<in> set (d_methods h)" "m_name hs = ''host.handshake''"
      "m_intent hs = Observe" "m_scopeKinds hs = [BootstrapKind]" "distinct (map m_name (d_methods h))"
    by (auto simp: wf_host_def)
  have "find (\<lambda>m. m_name m = ''host.handshake'') (d_methods h) = Some hs"
    using find_distinct_name [OF hs(5) hs(1)] hs(2) by simp
  moreover have "rmap methodDescriptor (map method_value (d_methods h)) = Inr (d_methods h)"
    by (rule vmethod.decode_list) (use wf in \<open>simp add: wf_host_def\<close>)
  moreover have "rall methodAllowed (d_methods h) = Inr ()"
    using wf by (simp add: rall_methodAllowed wf_host_def)
  moreover have "integer 1 maxWireMessageBytes (vint (d_maxMessageBytes h)) = Inr (d_maxMessageBytes h)"
    using wf by (simp add: integer_Inr wf_host_def maxWireMessageBytes_def max_safe_integer_def)
  moreover have "card (set (map m_name (d_methods h))) = length (d_methods h)"
    using hs(5) by (metis distinct_card length_map)
  moreover have "identifier_ok (d_hostInstanceId h)" "identifier_ok (d_platform h)" "identifier_ok (d_backend h)"
    using wf by (simp_all add: wf_host_def)
  moreover have "d_methods h \<noteq> []" using hs(1) by auto
  ultimately show "validateHostDescriptor (host_value h) = Inr h"
    using hs(3,4) by (simp add: validateHostDescriptor_def host_value_def embed_simps required_def)
qed

section \<open>Records of the protocol\<close>

lemma same_record:
  assumes "record_of v (keys_of ks) = Inr r" "fst ` set s \<subseteq> set ks"
    "list_all (\<lambda>k. has_own r k = has_own s k \<and> same_data T (fld r k) (fld s k)) ks"
  shows "same_data T v (obj s)"
proof -
  obtain p ps where v: "v = VObj p ps" "p \<noteq> OtherProto" "data_fields True (keys_of ks) ps = Some r"
    by (rule record_of_InrE [OF assms(1)])
  have "fst ` set r \<subseteq> set ks" using data_fields_keys [OF v(3)] by (auto simp: keys_of_def)
  then have "fst ` set r = fst ` set s" using assms(2,3) unfolding list_all_iff has_own_iff by blast
  then show ?thesis unfolding v(1) using assms(2,3)
    by (intro same_data.keyed [OF v(2) data_fields_any [OF v(3)]]) (auto simp: list_all_iff)
qed

lemma choice_named:
  assumes "distinct (map fst table)" "\<And>x s. (s, x) \<in> set table \<longleftrightarrow> s = name x"
  shows "choice table v = Inr x \<longleftrightarrow> v = VStr (name x)"
  using assms by (auto simp: choice_Inr)

lemma intent_read: "choice operationIntents v = Inr x \<longleftrightarrow> v = VStr (intent_name x)"
proof (rule choice_named)
  show "(s, x) \<in> set operationIntents \<longleftrightarrow> s = intent_name x" for x s by (cases x; simp add: operationIntents_def)
qed code_simp

lemma outcome_read: "choice operationOutcomes v = Inr x \<longleftrightarrow> v = VStr (outcome_name x)"
proof (rule choice_named)
  show "(s, x) \<in> set operationOutcomes \<longleftrightarrow> s = outcome_name x" for x s by (cases x; simp add: operationOutcomes_def)
qed code_simp

lemma category_read: "choice errorCategories v = Inr x \<longleftrightarrow> v = VStr (category_name x)"
proof (rule choice_named)
  show "(s, x) \<in> set errorCategories \<longleftrightarrow> s = category_name x" for x s by (cases x; simp add: errorCategories_def)
qed code_simp

lemma retry_read: "choice retryDispositions v = Inr x \<longleftrightarrow> v = VStr (retry_name x)"
proof (rule choice_named)
  show "(s, x) \<in> set retryDispositions \<longleftrightarrow> s = retry_name x" for x s by (cases x; simp add: retryDispositions_def)
qed code_simp

lemma reason_read: "choice cancellationReasons v = Inr x \<longleftrightarrow> v = VStr (reason_name x)"
proof (rule choice_named)
  show "(s, x) \<in> set cancellationReasons \<longleftrightarrow> s = reason_name x" for x s by (cases x; simp add: cancellationReasons_def)
qed code_simp

lemma scope_kind_read: "choice scopeKindNames v = Inr x \<longleftrightarrow> v = VStr (case x of BootstrapKind \<Rightarrow> ''bootstrap''
   | HostKind \<Rightarrow> ''host'' | SessionKind \<Rightarrow> ''session'' | HandleKind \<Rightarrow> ''handle'')"
proof (rule choice_named)
  show "(s, x) \<in> set scopeKindNames \<longleftrightarrow> s = (case x of BootstrapKind \<Rightarrow> ''bootstrap''
   | HostKind \<Rightarrow> ''host'' | SessionKind \<Rightarrow> ''session'' | HandleKind \<Rightarrow> ''handle'')" for x s
    by (cases x; simp add: scopeKindNames_def)
qed code_simp

lemmas names_read = intent_read outcome_read category_read retry_read reason_read scope_kind_read

lemma arrayValues_items: "arrayValues v = Inr vs \<Longrightarrow> \<exists>b ps ks. v = VArr b ps ks \<and> data_items True ps = Some vs"
  by (auto simp: arrayValues_def split: jsv.splits if_splits option.splits)

lemma same_array: "arrayValues v = Inr vs \<Longrightarrow> list_all2 (same_data T) vs ws \<Longrightarrow> same_data T v (arr ws)"
  using arrayValues_items same_data.slots by blast

lemma jsonValue_same: "jsonValue d v = Inr j \<Longrightarrow> same_data T v (json_value j)"
proof (induction d v arbitrary: j rule: jsonValue.induct)
  case (1 d v)
  from "1.prems" have d: "d \<le> 32" by (auto simp: jsonValue.simps [of d v] split: if_splits)
  show ?case
  proof (cases v)
    case (VArr b ps ks)
    with "1.prems" obtain vs js where vs: "arrayValues v = Inr vs" and js: "rmap (jsonValue (Suc d)) vs = Inr js"
        and j: "j = JArr js"
      by (auto simp: jsonValue.simps [of d "VArr b ps ks"] split: if_splits)
    have "list_all2 (same_data T) vs (map json_value js)"
      by (rule rmap_same [OF _ js]) (use "1.IH"(1) [OF _ VArr] d vs VArr in simp)
    then show ?thesis using same_array [OF vs] j by simp
  next
    case (VObj p ps)
    with "1.prems" obtain r js where r: "record_of v (\<lambda>_. True) = Inr r"
        and js: "rmap (\<lambda>(k, w). rbind (jsonValue (Suc d) w) (\<lambda>j. Inr (k, j))) r = Inr js" and j: "j = JObj js"
      by (auto simp: jsonValue.simps [of d "VObj p ps"] split: if_splits)
    let ?s = "map (\<lambda>(k, j). (k, json_value j)) js"
    have "list_all2 (\<lambda>f g. fst f = fst g \<and> same_data T (snd f) (snd g)) r ?s"
    proof (rule rmap_same [OF _ js])
      fix x y assume x: "x \<in> set r" "(case x of (k, w) \<Rightarrow> rbind (jsonValue (Suc d) w) (\<lambda>j. Inr (k, j))) = Inr y"
      obtain k w where k: "x = (k, w)" by (cases x)
      with x(2) obtain i where i: "jsonValue (Suc d) w = Inr i" "y = (k, i)" by auto
      show "fst x = fst (case y of (k, j) \<Rightarrow> (k, json_value j)) \<and> same_data T (snd x) (snd (case y of (k, j) \<Rightarrow> (k, json_value j)))"
        using "1.IH"(2) [OF _ VObj _ x(1) [unfolded k] HOL.refl i(1)] d r VObj by (simp add: k i)
    qed
    note alike = same_fields [OF this]
    obtain q qs where q: "v = VObj q qs" "q \<noteq> OtherProto" "data_fields True (\<lambda>_. True) qs = Some r"
      by (rule record_of_InrE [OF r [folded VObj]])
    show ?thesis unfolding j json_value.simps q(1) using alike by (intro same_data.keyed [OF q(2,3)]) blast+
  qed (use "1.prems" d in \<open>auto simp: jsonValue.simps [of d] same_data.same split: if_splits jsnum.splits\<close>)
qed

lemma jsonObject_same: "jsonObject v = Inr fs \<Longrightarrow> same_data T v (json_value (JObj fs))"
proof -
  assume "jsonObject v = Inr fs"
  then obtain j where j: "jsonValue 0 v = Inr j" "(case j of JObj fs \<Rightarrow> Inr fs | _ \<Rightarrow> Inl InvalidMessage) = Inr fs"
    by (auto simp: jsonObject_def)
  then have "j = JObj fs" by (cases j) auto
  with j(1) jsonValue_same show ?thesis by blast
qed

lemma optional_same:
  "optional r k f = Inr x \<Longrightarrow> (\<And>a. f (fld r k) = Inr a \<Longrightarrow> same_data T (fld r k) (g a)) \<Longrightarrow>
    has_own r k = (x \<noteq> None) \<and> (case x of None \<Rightarrow> fld r k = VUndefined | Some a \<Rightarrow> same_data T (fld r k) (g a))"
  by (auto simp: optional_Inr fld_missing)

lemma record_of_once:
  assumes "record_of v f = Inr r" "record_of v g = Inr q"
  shows "q = r"
proof -
  obtain p ps where v: "v = VObj p ps" "data_fields True f ps = Some r" by (rule record_of_InrE [OF assms(1)])
  obtain p' ps' where w: "v = VObj p' ps'" "data_fields True g ps' = Some q" by (rule record_of_InrE [OF assms(2)])
  show ?thesis using data_fields_any [OF v(2)] data_fields_any [OF w(2)] v(1) w(1) by simp
qed

lemma scope_data_same: 
  assumes "scope_of v = Inr sc"
  shows "same_data T v (scope_value sc)"
proof -
  obtain r where r: "record_of v (keys_of [''kind'', ''hostInstanceId'', ''sessionId'', ''handleId'']) = Inr r"
    and kind: "has_own r ''kind''" using assms by (auto simp: scope_of_def)
  note once = record_of_once [OF r]
  show ?thesis
  proof (cases sc)
    case Bootstrap
    then have "record_of v (keys_of [''kind'']) = Inr r" "fld r ''kind'' = VStr ''bootstrap''"
      using assms r by (auto simp: scope_of_def dest: once split: if_splits)
    then show ?thesis using kind unfolding Bootstrap scope_value.simps
      by (elim same_record) (simp_all add: same_data.same)
  next
    case (HostScope h)
    then have "record_of v (keys_of [''kind'', ''hostInstanceId'']) = Inr r" "fld r ''kind'' = VStr ''host''"
        "has_own r ''hostInstanceId''" "fld r ''hostInstanceId'' = VStr h"
      using assms r by (auto simp: scope_of_def primitive_Inr dest: once split: if_splits)
    then show ?thesis using kind unfolding HostScope scope_value.simps
      by (elim same_record) (simp_all add: same_data.same)
  next
    case (SessionScope h s)
    then have "record_of v (keys_of [''kind'', ''hostInstanceId'', ''sessionId'']) = Inr r" "fld r ''kind'' = VStr ''session''"
        "has_own r ''hostInstanceId''" "fld r ''hostInstanceId'' = VStr h" "has_own r ''sessionId''" "fld r ''sessionId'' = VStr s"
      using assms r by (auto simp: scope_of_def primitive_Inr dest: once split: if_splits)
    then show ?thesis using kind unfolding SessionScope scope_value.simps
      by (elim same_record) (simp_all add: same_data.same)
  next
    case (HandleScope h s i)
    then have "fld r ''kind'' = VStr ''handle''" "has_own r ''handleId''" "fld r ''handleId'' = VStr i"
        "has_own r ''hostInstanceId''" "fld r ''hostInstanceId'' = VStr h" "has_own r ''sessionId''" "fld r ''sessionId'' = VStr s"
      using assms r by (auto simp: scope_of_def primitive_Inr dest: once split: if_splits)
    then show ?thesis using kind r unfolding HandleScope scope_value.simps
      by (elim same_record) (simp_all add: same_data.same)
  qed
qed

lemma receipt_same:
  assumes "receipt_of v = Inr x"
  shows "same_data T v (receipt_value x)"
proof (cases "v = VNull")
  case True
  then show ?thesis using assms by (simp add: receipt_of_def receipt_value_def same_data.same)
next
  case False
  then obtain r y where "record_of v (keys_of [''operationId'', ''outcome'']) = Inr r" "x = Some y"
      "has_own r ''operationId''" "fld r ''operationId'' = VStr (r_operationId y)"
      "has_own r ''outcome''" "fld r ''outcome'' = VStr (outcome_name (r_outcome y))"
    using assms by (auto simp: receipt_of_def primitive_Inr names_read)
  then show ?thesis by (simp add: receipt_value_def) (rule same_record, assumption, simp_all add: same_data.same)
qed

lemma error_same:
  assumes "wireError_of v = Inr e"
  shows "same_data T v (error_value e)"
proof -
  obtain r where r: "record_of v (keys_of [''code'', ''category'', ''message'', ''retry'', ''details'']) = Inr r"
      "has_own r ''code''" "fld r ''code'' = VStr (e_code e)" "has_own r ''category''" "fld r ''category'' = VStr (category_name (e_category e))"
      "has_own r ''message''" "fld r ''message'' = VStr (e_message e)" "has_own r ''retry''" "fld r ''retry'' = VStr (retry_name (e_retry e))"
    and d: "optional r ''details'' jsonObject = Inr (e_details e)"
    using assms by (auto simp: wireError_of_def primitive_Inr names_read)
  note d' = optional_same [where g = "\<lambda>d. json_value (JObj d)" and T = T, OF d jsonObject_same]
  show ?thesis unfolding error_value_def
    by (rule same_record [OF r(1)]) (use r d' in \<open>auto simp: same_data.same simp del: json_value.simps split: option.splits\<close>)
qed

lemma call_same:
  assumes "call_of v = Inr c"
  shows "same_data T v (call_value c)"
proof -
  obtain r where r: "record_of v (keys_of [''name'', ''intent'', ''scope'', ''payload'', ''operationId'']) = Inr r"
      "has_own r ''name''" "fld r ''name'' = VStr (c_name c)" "has_own r ''intent''" "fld r ''intent'' = VStr (intent_name (c_intent c))"
      "has_own r ''scope''" "scope_of (fld r ''scope'') = Inr (c_scope c)" "has_own r ''payload''" "jsonObject (fld r ''payload'') = Inr (c_payload c)"
    and d: "optional r ''operationId'' identifier_of = Inr (c_operationId c)"
    using assms unfolding call_of_def rbind_eq_Inr_iff if_Inl_eq_Inr
    by (elim exE conjE) (auto simp: methodName_Inr names_read simp del: not_None_eq)
  have d': "has_own r ''operationId'' = (c_operationId c \<noteq> None) \<and> (case c_operationId c of None \<Rightarrow> fld r ''operationId'' = VUndefined
      | Some a \<Rightarrow> same_data T (fld r ''operationId'') (VStr a))"
    by (rule optional_same [OF d]) (simp add: primitive_Inr same_data.same)
  show ?thesis unfolding call_value_def
    by (rule same_record [OF r(1)])
      (use r d' scope_data_same [OF r(7), of T] jsonObject_same [OF r(9), of T] in \<open>auto simp: same_data.same simp del: json_value.simps split: option.splits\<close>)
qed


lemma header_read: "header r = Inr u \<longleftrightarrow> has_own r ''protocol'' \<and> fld r ''protocol'' = VStr nativeProtocolName
    \<and> has_own r ''version'' \<and> fld r ''version'' = VStr nativeProtocolVersion
    \<and> has_own r ''id'' \<and> (\<exists>i. fld r ''id'' = VStr i \<and> identifier_ok i)"
  by (auto simp: header_def primitive_Inr)

lemma same_int: "integer lo hi v = Inr n \<Longrightarrow> same_data T v (vint n)"
  by (simp add: integer_Inr same_data.same)

lemma deadline_same: "deadline_of v = Inr n \<Longrightarrow> same_data T v (obj [(''timeoutMs'', vint n)])"
  by (clarsimp simp: deadline_of_def) (erule same_record, simp_all add: same_int)

lemma request_same:
  assumes "requestMessage v = Inr q" "record_of v f = Inr r" "fld r ''type'' = VStr ''request''" "has_own r ''type''"
  shows "same_data T v (request_value q)"
proof -
  have r: "record_of v (keys_of [''protocol'', ''version'', ''type'', ''id'', ''deadline'', ''call'']) = Inr r"
      "header r = Inr ()" "fld r ''id'' = VStr (rq_id q)"
      "has_own r ''deadline''" "deadline_of (fld r ''deadline'') = Inr (rq_timeoutMs q)"
      "has_own r ''call''" "call_of (fld r ''call'') = Inr (rq_call q)"
    using assms(1) by (auto simp: requestMessage_def identifier_of_Inr dest: record_of_once [OF assms(2)])
  show ?thesis unfolding request_value_def
    by (rule same_record [OF r(1)])
      (use r assms(3,4) deadline_same [OF r(5), of T] call_same [OF r(7), of T] in \<open>auto simp: header_fields_def header_read same_data.same\<close>)
qed

lemma cancel_same:
  assumes "cancelMessage v = Inr q" "record_of v f = Inr r" "fld r ''type'' = VStr ''cancel''" "has_own r ''type''"
  shows "same_data T v (cancel_value q)"
proof -
  have r: "record_of v (keys_of [''protocol'', ''version'', ''type'', ''id'', ''requestId'', ''reason'']) = Inr r"
      "header r = Inr ()" "fld r ''id'' = VStr (cn_id q)"
      "has_own r ''requestId''" "fld r ''requestId'' = VStr (cn_requestId q)"
      "has_own r ''reason''" "fld r ''reason'' = VStr (reason_name (cn_reason q))"
    using assms(1) by (auto simp: cancelMessage_def identifier_of_Inr names_read dest: record_of_once [OF assms(2)] split: if_splits)
  show ?thesis unfolding cancel_value_def
    by (rule same_record [OF r(1)]) (use r assms(3,4) in \<open>auto simp: header_fields_def header_read same_data.same\<close>)
qed

lemma response_same:
  assumes "responseMessage v = Inr q" "record_of v f = Inr r" "fld r ''type'' = VStr ''response''" "has_own r ''type''"
  shows "same_data T v (response_value q)"
proof -
  have r: "header r = Inr ()" "fld r ''id'' = VStr (rs_id q)" "has_own r ''ok''"
      "has_own r ''operation''" "receipt_of (fld r ''operation'') = Inr (rs_operation q)"
    using assms(1) by (auto simp: responseMessage_def identifier_of_Inr dest!: record_of_once [OF assms(2)] split: if_splits)
  note op = receipt_same [OF r(5), of T]
  show ?thesis
  proof (cases "rs_body q")
    case (Inr j)
    then have b: "record_of v (keys_of [''protocol'', ''version'', ''type'', ''id'', ''ok'', ''result'', ''operation'']) = Inr r"
        "fld r ''ok'' = VBool True" "has_own r ''result''" "jsonValue 0 (fld r ''result'') = Inr j"
      using assms(1) by (auto simp: responseMessage_def dest: record_of_once [OF assms(2)] split: if_splits)
    show ?thesis unfolding response_value_def Inr sum.case
      by (rule same_record [OF b(1)])
        (use r b assms(3,4) op jsonValue_same [OF b(4), of T] in \<open>auto simp: header_fields_def header_read same_data.same\<close>)
  next
    case (Inl e)
    then have b: "record_of v (keys_of [''protocol'', ''version'', ''type'', ''id'', ''ok'', ''error'', ''operation'']) = Inr r"
        "fld r ''ok'' = VBool False" "has_own r ''error''" "wireError_of (fld r ''error'') = Inr e"
      using assms(1) by (auto simp: responseMessage_def dest: record_of_once [OF assms(2)] split: if_splits)
    show ?thesis unfolding response_value_def Inl sum.case
      by (rule same_record [OF b(1)])
        (use r b assms(3,4) op error_same [OF b(4), of T] in \<open>auto simp: header_fields_def header_read same_data.same\<close>)
  qed
qed

lemma message_same:
  assumes "validateWireMessage v = Inr m"
  shows "same_data T v (message_value m)"
proof -
  obtain f r where r: "record_of v f = Inr r" "has_own r ''type''"
    and m: "fld r ''type'' = VStr ''request'' \<and> (\<exists>q. requestMessage v = Inr q \<and> m = MRequest q)
      \<or> fld r ''type'' = VStr ''cancel'' \<and> (\<exists>q. cancelMessage v = Inr q \<and> m = MCancel q)
      \<or> fld r ''type'' = VStr ''response'' \<and> (\<exists>q. responseMessage v = Inr q \<and> m = MResponse q)"
    using assms by (auto simp: validateWireMessage_def split: if_splits)
  then show ?thesis using request_same [OF _ r(1)] cancel_same [OF _ r(1)] response_same [OF _ r(1)] by auto
qed

lemma method_same:
  assumes "methodDescriptor v = Inr m"
  shows "same_data T v (method_value m)"
proof -
  obtain r kinds where r: "record_of v (keys_of [''name'', ''intent'', ''scopeKinds'']) = Inr r"
      "has_own r ''scopeKinds''" "arrayValues (fld r ''scopeKinds'') = Inr kinds" "rmap (choice scopeKindNames) kinds = Inr (m_scopeKinds m)"
      "has_own r ''name''" "fld r ''name'' = VStr (m_name m)" "has_own r ''intent''" "fld r ''intent'' = VStr (intent_name (m_intent m))"
    using assms by (auto simp: methodDescriptor_def methodName_Inr intent_read split: if_splits)
  have "list_all2 (same_data T) kinds (map (\<lambda>k. VStr (case k of BootstrapKind \<Rightarrow> ''bootstrap'' | HostKind \<Rightarrow> ''host''
        | SessionKind \<Rightarrow> ''session'' | HandleKind \<Rightarrow> ''handle'')) (m_scopeKinds m))"
    by (rule rmap_same [OF _ r(4)]) (simp add: scope_kind_read same_data.same)
  from same_array [OF r(3) this] show ?thesis unfolding method_value_def
    by (intro same_record [OF r(1)]) (use r in \<open>auto simp: same_data.same\<close>)
qed

lemma host_same:
  assumes "validateHostDescriptor v = Inr h"
  shows "same_data T v (host_value h)"
proof -
  obtain r methods where r: "record_of v (keys_of [''hostInstanceId'', ''platform'', ''backend'', ''methods'', ''maxMessageBytes'']) = Inr r"
      "has_own r ''methods''" "arrayValues (fld r ''methods'') = Inr methods" "rmap methodDescriptor methods = Inr (d_methods h)"
      "has_own r ''maxMessageBytes''" "fld r ''maxMessageBytes'' = vint (d_maxMessageBytes h)"
      "has_own r ''hostInstanceId''" "fld r ''hostInstanceId'' = VStr (d_hostInstanceId h)"
      "has_own r ''platform''" "fld r ''platform'' = VStr (d_platform h)" "has_own r ''backend''" "fld r ''backend'' = VStr (d_backend h)"
    using assms by (clarsimp simp: validateHostDescriptor_def simp del: not_None_eq split: option.splits) (auto simp: primitive_Inr)
  have "list_all2 (same_data T) methods (map method_value (d_methods h))"
    by (rule rmap_same [OF _ r(4)]) (rule method_same)
  from same_array [OF r(3) this] show ?thesis unfolding host_value_def
    by (intro same_record [OF r(1)]) (use r in \<open>auto simp: same_data.same\<close>)
qed

end
