(* ===== verification/NativeClient.thy ===== *)
theory NativeClient
  imports NativeSchemaProps JsMap
begin

text \<open>
  The native client (\<open>packages/native/src/client/client.ts\<close>, with \<open>errors.ts\<close>, \<open>types.ts\<close>,
  \<open>codec.ts\<close>, \<open>transport.ts\<close>) as a state machine. JavaScript runs each callback to completion, so
  one event of the machine is one callback or one continuation after an \<open>await\<close>: a public call, a
  frame from the transport, a write settling, a timer, an abort signal. Promises the client settles,
  frames it writes and calls it makes on the transport are the outputs of the step.

  Parameters: \<open>idf\<close> is the identifier factory (the n-th call for a kind), \<open>fb\<close> the byte length of
  an encoded message (\<open>Buffer.byteLength\<close> of \<open>JSON.stringify\<close> of the message and a line feed).
  Clock readings are part of the event. A codec is a script of tracking calls and a result.
\<close>

section \<open>Data\<close>

datatype client_phase = Idle | Connecting | Ready | Disconnected | Closed

datatype client_code = NotConnectedCode | ClosedCode | DisconnectedCode | DeadlineCode | CancelledCode
  | ProtocolViolation | DecodeFailed | StaleScope | WriteFailedCode | CloseFailed

datatype client_error =
    ClientError client_code "string option" "outcome option" "write_phase option"
  | RemoteError wire_error "op_receipt option"
  | ProtocolError issue_code
  | TransportRejection
  | CodecThrew

datatype track_op = TrackSession jsv | TrackHandle jsv

datatype codec = HandshakeCodec | LaunchCodec | CustomCodec "json \<Rightarrow> track_op list \<times> jsv option"

datatype decoded = HostValue native_host | SessionValue native_session | PlainValue jsv

datatype id_kind = RequestId | OperationId | CancelId

record pending =
  p_request :: wire_request
  p_codec :: codec
  p_deadlineAt :: rat
  p_phase :: write_phase

datatype connect_phase = NoConnect
  | AwaitOpen nat rat int
  | OpenDone nat rat int "client_error option"
  | AwaitHandshake nat string
  | HandshakeDone nat "client_error + decoded"
  | ConnectSettled

record client =
  cs_state :: client_phase
  cs_host :: "native_host option"
  cs_counter :: nat
  cs_epoch :: nat
  cs_opening :: "nat option"
  cs_connect :: connect_phase
  cs_transportClose :: bool
  cs_pending :: "(string \<times> pending) list"
  cs_dispatched :: "(string \<times> wire_request) list"
  cs_awaitingLate :: "string list"
  cs_allocated :: "string list"
  cs_sessions :: "(string \<times> native_session) list"
  cs_seen :: "string list"
  cs_handles :: "((string \<times> string \<times> string) \<times> native_handle) list"

definition new_client :: client where
  "new_client = \<lparr>cs_state = Idle, cs_host = None, cs_counter = 0, cs_epoch = 0, cs_opening = None,
     cs_connect = NoConnect, cs_transportClose = False, cs_pending = [], cs_dispatched = [],
     cs_awaitingLate = [], cs_allocated = [], cs_sessions = [], cs_seen = [], cs_handles = []\<rparr>"

datatype client_out =
    OpenTransport
  | WriteFrame wire_message
  | CloseTransport
  | ResolveRequest string decoded "op_receipt option"
  | RejectRequest string client_error
  | RejectCall client_error
  | ResolveConnect native_host
  | RejectConnect client_error
  | ReportLate wire_request wire_response
  | Tracked
  | TrackFailed client_error

record invocation =
  i_name :: string
  i_intent :: intent
  i_scope :: scope
  i_payload :: "(string \<times> json) list"
  i_timeoutMs :: jsnum
  i_codec :: codec
  i_operationId :: "string option"
  i_aborted :: bool

text \<open>
  The clock readings of one dispatch, in the order the code takes them, and what a synchronous
  exception of \<open>transport.write\<close> carries (\<open>None\<close> when it returns a promise).
\<close>

record dispatch_clock =
  k_started :: rat
  k_encodeStart :: rat
  k_encodeEnd :: rat
  k_beforeFinal :: rat
  k_writeStart :: rat
  k_writeThrows :: "write_phase option"

section \<open>Errors, settlement, transport\<close>

definition client_error_of :: "client_code \<Rightarrow> client_error" where
  "client_error_of c = ClientError c None None None"

definition stateError :: "client \<Rightarrow> client_error" where
  "stateError s = client_error_of (case cs_state s of
     Closed \<Rightarrow> ClosedCode | Disconnected \<Rightarrow> DisconnectedCode | _ \<Rightarrow> NotConnectedCode)"

definition lift_protocol :: "'a checked \<Rightarrow> client_error + 'a" where
  "lift_protocol r = (case r of Inl c \<Rightarrow> Inl (ProtocolError c) | Inr a \<Rightarrow> Inr a)"

text \<open>Removes the request and its timer and abort listener.\<close>

definition settle :: "string \<Rightarrow> client \<Rightarrow> client" where
  "settle i s = s\<lparr>cs_pending := map_delete i (cs_pending s)\<rparr>"

text \<open>Settling the handshake request makes the continuation of \<open>connect\<close> runnable.\<close>

definition wake_connect :: "string \<Rightarrow> client_error + decoded \<Rightarrow> client \<Rightarrow> client" where
  "wake_connect i r s = (case cs_connect s of
     AwaitHandshake ep hid \<Rightarrow> if hid = i then s\<lparr>cs_connect := HandshakeDone ep r\<rparr> else s
   | _ \<Rightarrow> s)"

definition reject_pending :: "string \<Rightarrow> client_error \<Rightarrow> client \<Rightarrow> client \<times> client_out list" where
  "reject_pending i err s = (wake_connect i (Inl err) (settle i s), [RejectRequest i err])"

definition beginTransportClose :: "client \<Rightarrow> client \<times> client_out list" where
  "beginTransportClose s =
     (if cs_transportClose s then (s, []) else (s\<lparr>cs_transportClose := True\<rparr>, [CloseTransport]))"

definition rejectOpening :: "client_error \<Rightarrow> client \<Rightarrow> client" where
  "rejectOpening err s = (case cs_opening s of
     None \<Rightarrow> s
   | Some _ \<Rightarrow> s\<lparr>cs_opening := None, cs_connect := (case cs_connect s of
        AwaitOpen ep t0 tm \<Rightarrow> OpenDone ep t0 tm (Some err) | c \<Rightarrow> c)\<rparr>)"

definition allocateId :: "(id_kind \<Rightarrow> nat \<Rightarrow> string) \<Rightarrow> id_kind \<Rightarrow> string option \<Rightarrow> client
    \<Rightarrow> client \<times> (client_error + string)" where
  "allocateId idf kind explicit s =
     (let (i, s1) = (case explicit of
            Some x \<Rightarrow> (x, s)
          | None \<Rightarrow> (idf kind (Suc (cs_counter s)), s\<lparr>cs_counter := Suc (cs_counter s)\<rparr>)) in
      if i \<in> set (cs_allocated s1) then (s1, Inl (client_error_of ProtocolViolation))
      else (s1\<lparr>cs_allocated := i # cs_allocated s1\<rparr>, Inr i))"

text \<open>\<open>encodeWireLine\<close> up to the bytes: validate again, then the protocol's frame bound.\<close>

definition encodeBytes :: "(wire_message \<Rightarrow> nat) \<Rightarrow> wire_message \<Rightarrow> nat checked" where
  "encodeBytes fb m = rbind (validateWireMessage (message_value m)) (\<lambda>c.
     if int (fb c) > maxWireMessageBytes then Inl MessageTooLarge else Inr (fb c))"

definition sendCancel :: "(id_kind \<Rightarrow> nat \<Rightarrow> string) \<Rightarrow> (wire_message \<Rightarrow> nat) \<Rightarrow> string \<Rightarrow> cancel_reason
    \<Rightarrow> client \<Rightarrow> client \<times> client_out list" where
  "sendCancel idf fb rid reason s = (case allocateId idf CancelId None s of
     (s1, Inl _) \<Rightarrow> (s1, [])
   | (s1, Inr i) \<Rightarrow>
      (case rbind (validateWireMessage
               (cancel_value \<lparr>cn_id = i, cn_requestId = rid, cn_reason = reason\<rparr>))
             (\<lambda>m. rbind (encodeBytes fb m) (\<lambda>_. Inr m)) of
         Inl _ \<Rightarrow> (s1, [])
       | Inr m \<Rightarrow> (s1, [WriteFrame m])))"

definition mark_late :: "string \<Rightarrow> pending \<Rightarrow> client \<Rightarrow> client" where
  "mark_late i p s = (if p_phase p \<noteq> BeforeWrite
     then s\<lparr>cs_awaitingLate := set_add i (cs_awaitingLate s)\<rparr> else s)"

definition cancelPending :: "(id_kind \<Rightarrow> nat \<Rightarrow> string) \<Rightarrow> (wire_message \<Rightarrow> nat) \<Rightarrow> string \<Rightarrow> cancel_reason
    \<Rightarrow> client \<Rightarrow> client \<times> client_out list" where
  "cancelPending idf fb i reason s = (case map_of (cs_pending s) i of
     None \<Rightarrow> (s, [])
   | Some p \<Rightarrow>
      let oc = disconnectedOperationOutcome (p_request p) (p_phase p);
          (s1, o1) = reject_pending i (ClientError
             (if reason = ByDeadline then DeadlineCode else CancelledCode) (Some i) oc (Some (p_phase p)))
             (mark_late i p s);
          (s2, o2) = (if p_phase p \<noteq> BeforeWrite then sendCancel idf fb i reason s1 else (s1, []))
      in (s2, o1 @ o2))"

definition writeFailed :: "string \<Rightarrow> write_phase \<Rightarrow> client \<Rightarrow> client \<times> client_out list" where
  "writeFailed i phase s = (case map_of (cs_pending s) i of
     None \<Rightarrow> (s, [])
   | Some p \<Rightarrow>
      let q = p\<lparr>p_phase := phase\<rparr>;
          oc = disconnectedOperationOutcome (p_request p) phase
      in reject_pending i (ClientError WriteFailedCode (Some i) oc (Some phase)) (mark_late i q s))"

fun drop_disconnected :: "(string \<times> pending) list \<Rightarrow> client \<Rightarrow> client \<times> client_out list" where
  "drop_disconnected [] s = (s, [])"
| "drop_disconnected ((i, p) # ps) s =
     (let (s1, o1) = reject_pending i (ClientError DisconnectedCode (Some i)
            (disconnectedOperationOutcome (p_request p) (p_phase p)) (Some (p_phase p))) (mark_late i p s);
          (s2, o2) = drop_disconnected ps s1
      in (s2, o1 @ o2))"

definition forget_connection :: "client \<Rightarrow> client" where
  "forget_connection s = s\<lparr>cs_host := None, cs_sessions := [], cs_handles := []\<rparr>"

definition on_disconnect :: "client \<Rightarrow> client \<times> client_out list" where
  "on_disconnect s = (if cs_state s = Closed \<or> cs_state s = Disconnected then (s, [])
     else let s1 = s\<lparr>cs_state := Disconnected, cs_epoch := Suc (cs_epoch s)\<rparr>;
              s2 = forget_connection (rejectOpening (client_error_of DisconnectedCode) s1)
          in drop_disconnected (cs_pending s2) s2)"

fun drop_violated :: "(string \<times> pending) list \<Rightarrow> client \<Rightarrow> client \<times> client_out list" where
  "drop_violated [] s = (s, [])"
| "drop_violated ((i, p) # ps) s =
     (let (s1, o1) = reject_pending i (ClientError ProtocolViolation (Some i)
            (disconnectedOperationOutcome (p_request p) (p_phase p)) (Some (p_phase p))) s;
          (s2, o2) = drop_violated ps s1
      in (s2, o1 @ o2))"

definition protocolFailure :: "client \<Rightarrow> client \<times> client_out list" where
  "protocolFailure s =
     (let s1 = s\<lparr>cs_state := Disconnected, cs_epoch := Suc (cs_epoch s)\<rparr>;
          s2 = forget_connection (rejectOpening (client_error_of ProtocolViolation) s1);
          (s3, o3) = drop_violated (cs_pending s2) s2;
          (s4, o4) = beginTransportClose s3
      in (s4, o3 @ o4))"

section \<open>Tracking sessions and handles\<close>

type_synonym staged =
  "(string \<times> native_session) list \<times> ((string \<times> string \<times> string) \<times> native_handle) list"

definition handle_key :: "native_handle \<Rightarrow> string \<times> string \<times> string" where
  "handle_key h = (h_hostInstanceId h, h_sessionId h, h_handleId h)"

definition lookup_session :: "client \<Rightarrow> staged \<Rightarrow> string \<Rightarrow> native_session option" where
  "lookup_session s st i = (case map_of (fst st) i of Some x \<Rightarrow> Some x | None \<Rightarrow> map_of (cs_sessions s) i)"

definition stageSession :: "client \<Rightarrow> jsv \<Rightarrow> staged \<Rightarrow> client_error + native_session \<times> staged" where
  "stageSession s v st =
     rbind (lift_protocol (validateSessionDescriptor v)) (\<lambda>session.
     case cs_host s of
       None \<Rightarrow> Inl (stateError s)
     | Some host \<Rightarrow>
         if s_hostInstanceId session \<noteq> d_hostInstanceId host then Inl (client_error_of StaleScope)
         else let prior = lookup_session s st (s_sessionId session) in
         if prior = None \<and> s_sessionId session \<in> set (cs_seen s) then Inl (client_error_of StaleScope)
         else if (case prior of None \<Rightarrow> False | Some p \<Rightarrow> s_hostInstanceId p \<noteq> s_hostInstanceId session
                    \<or> h_handleId (s_root p) \<noteq> h_handleId (s_root session))
         then Inl (client_error_of StaleScope)
         else Inr (session, (map_set (s_sessionId session) session (fst st),
                             map_set (handle_key (s_root session)) (s_root session) (snd st))))"

definition stageHandle :: "client \<Rightarrow> jsv \<Rightarrow> staged \<Rightarrow> client_error + native_handle \<times> staged" where
  "stageHandle s v st =
     rbind (lift_protocol (validateNativeHandle v)) (\<lambda>h.
     case lookup_session s st (h_sessionId h) of
       None \<Rightarrow> Inl (client_error_of StaleScope)
     | Some session \<Rightarrow>
         rbind (lift_protocol (assertHandleScope (s_hostInstanceId session) (s_sessionId session) h)) (\<lambda>_.
         Inr (h, (fst st, map_set (handle_key h) h (snd st)))))"

definition commitTracking :: "staged \<Rightarrow> client \<Rightarrow> client" where
  "commitTracking st s = s\<lparr>
     cs_sessions := map_set_all (fst st) (cs_sessions s),
     cs_seen := foldl (\<lambda>acc e. set_add (fst e) acc) (cs_seen s) (fst st),
     cs_handles := map_set_all (snd st) (cs_handles s)\<rparr>"

fun run_tracks :: "client \<Rightarrow> track_op list \<Rightarrow> staged \<Rightarrow> client_error + staged" where
  "run_tracks s [] st = Inr st"
| "run_tracks s (TrackSession v # ops) st =
     rbind (stageSession s v st) (\<lambda>(_, st'). run_tracks s ops st')"
| "run_tracks s (TrackHandle v # ops) st =
     rbind (stageHandle s v st) (\<lambda>(_, st'). run_tracks s ops st')"

definition decode :: "client \<Rightarrow> codec \<Rightarrow> json \<Rightarrow> client_error + decoded \<times> staged" where
  "decode s cd j = (case cd of
     HandshakeCodec \<Rightarrow>
       rbind (lift_protocol (validateHostDescriptor (json_value j))) (\<lambda>h. Inr (HostValue h, ([], [])))
   | LaunchCodec \<Rightarrow>
       rbind (lift_protocol (validateSessionDescriptor (json_value j))) (\<lambda>d.
       rbind (stageSession s (session_value d) ([], [])) (\<lambda>(d', st). Inr (SessionValue d', st)))
   | CustomCodec f \<Rightarrow>
       (let (ops, out) = f j in
        rbind (run_tracks s ops ([], [])) (\<lambda>st.
        case out of None \<Rightarrow> Inl CodecThrew | Some v \<Rightarrow> Inr (PlainValue v, st))))"

definition trackSession :: "jsv \<Rightarrow> client \<Rightarrow> client \<times> client_out list" where
  "trackSession v s = (case stageSession s v ([], []) of
     Inl e \<Rightarrow> (s, [TrackFailed e]) | Inr (_, st) \<Rightarrow> (commitTracking st s, [Tracked]))"

definition trackHandle :: "jsv \<Rightarrow> client \<Rightarrow> client \<times> client_out list" where
  "trackHandle v s = (case stageHandle s v ([], []) of
     Inl e \<Rightarrow> (s, [TrackFailed e]) | Inr (_, st) \<Rightarrow> (commitTracking st s, [Tracked]))"

definition forgetSession :: "string \<Rightarrow> client \<Rightarrow> client" where
  "forgetSession i s = s\<lparr>cs_sessions := map_delete i (cs_sessions s),
     cs_handles := filter (\<lambda>e. h_sessionId (snd e) \<noteq> i) (cs_handles s)\<rparr>"

section \<open>Dispatch\<close>

definition stale :: "client_error + unit" where
  "stale = Inl (client_error_of StaleScope)"

definition validateScope :: "client \<Rightarrow> scope \<Rightarrow> client_error + unit" where
  "validateScope s sc = (case cs_host s of
     None \<Rightarrow> Inl (stateError s)
   | Some host \<Rightarrow>
      (case sc of
         Bootstrap \<Rightarrow> stale
       | HostScope h \<Rightarrow> if h \<noteq> d_hostInstanceId host then stale else Inr ()
       | SessionScope h i \<Rightarrow>
          if h \<noteq> d_hostInstanceId host then stale else
          (case map_of (cs_sessions s) i of
             None \<Rightarrow> stale
           | Some session \<Rightarrow> if s_hostInstanceId session \<noteq> h then stale else Inr ())
       | HandleScope h i k \<Rightarrow>
          if h \<noteq> d_hostInstanceId host then stale else
          (case map_of (cs_sessions s) i of
             None \<Rightarrow> stale
           | Some session \<Rightarrow> if s_hostInstanceId session \<noteq> h then stale
               else if \<not> map_has (cs_handles s) (h, i, k) then stale else Inr ())))"

definition elapsed_ms :: "rat \<Rightarrow> rat \<Rightarrow> int" where
  "elapsed_ms now start = max 0 (ceiling (now - start))"

definition preWriteDeadline :: "string \<Rightarrow> intent \<Rightarrow> client_error" where
  "preWriteDeadline i intent = ClientError DeadlineCode (Some i)
     (if intent = Observe then None else Some NotExecuted) (Some BeforeWrite)"

definition requestTombstone :: "wire_request \<Rightarrow> wire_request" where
  "requestTombstone rq = rq\<lparr>rq_call := (rq_call rq)\<lparr>c_payload := []\<rparr>\<rparr>"

definition max_frame :: "client \<Rightarrow> int" where
  "max_frame s = (case cs_host s of None \<Rightarrow> maxWireMessageBytes
     | Some h \<Rightarrow> min maxWireMessageBytes (d_maxMessageBytes h))"

text \<open>\<open>encodeWireLine\<close> followed by \<open>#assertFrameBoundary\<close>; the frame ends with its line feed.\<close>

definition encodeBounded :: "(wire_message \<Rightarrow> nat) \<Rightarrow> int \<Rightarrow> wire_request \<Rightarrow> unit checked" where
  "encodeBounded fb limit rq = rbind (encodeBytes fb (MRequest rq)) (\<lambda>n.
     if int n > limit then Inl MessageTooLarge else Inr ())"

definition checkRequest :: "wire_request \<Rightarrow> wire_request checked" where
  "checkRequest rq = rbind (validateWireMessage (request_value rq)) (\<lambda>m.
     case m of MRequest q \<Rightarrow> Inr q | _ \<Rightarrow> Inl InvalidMessage)"

text \<open>
  The part of a dispatch before any identifier is allocated, and the part up to the registration:
  a failure there rejects the caller and leaves only the allocated identifiers behind.
\<close>

definition dispatch_guard :: "client \<Rightarrow> invocation \<Rightarrow> client_error + int" where
  "dispatch_guard s iv =
     rbind (lift_protocol (integer 0 maxDeadlineMs (VNum (i_timeoutMs iv)))) (\<lambda>timeout.
     if i_aborted iv then Inl (ClientError CancelledCode None
         (if i_intent iv = Observe then None else Some NotExecuted) (Some BeforeWrite))
     else if i_name iv = ''host.handshake'' then Inr timeout
     else if cs_host s = None then Inl (stateError s)
     else rbind (validateScope s (i_scope iv)) (\<lambda>_. Inr timeout))"

definition prepareRequest :: "(wire_message \<Rightarrow> nat) \<Rightarrow> client \<Rightarrow> invocation \<Rightarrow> string \<Rightarrow> string option \<Rightarrow> int
    \<Rightarrow> client_error + wire_request" where
  "prepareRequest fb s iv rid op timeout = lift_protocol (
     rbind (checkRequest \<lparr>rq_id = rid, rq_timeoutMs = timeout, rq_call =
         \<lparr>c_name = i_name iv, c_intent = i_intent iv, c_scope = i_scope iv,
          c_payload = i_payload iv, c_operationId = op\<rparr>\<rparr>) (\<lambda>prepared.
     rbind (case cs_host s of None \<Rightarrow> Inr () | Some h \<Rightarrow> validateCallAgainstHost (rq_call prepared) h) (\<lambda>_.
     rbind (encodeBounded fb (max_frame s) prepared) (\<lambda>_. Inr prepared))))"

text \<open>The final encode: what is left of the caller's budget goes on the wire.\<close>

definition finalRequest :: "(wire_message \<Rightarrow> nat) \<Rightarrow> client \<Rightarrow> dispatch_clock \<Rightarrow> int \<Rightarrow> wire_request
    \<Rightarrow> client_error + wire_request" where
  "finalRequest fb s ck timeout prepared =
     (let reserve = elapsed_ms (k_encodeEnd ck) (k_encodeStart ck) + 1;
          remaining = timeout - elapsed_ms (k_beforeFinal ck) (k_started ck) - reserve;
          late = preWriteDeadline (rq_id prepared) (c_intent (rq_call prepared)) in
      if remaining \<le> 0 then Inl late else
      rbind (lift_protocol (rbind (checkRequest (prepared\<lparr>rq_timeoutMs := remaining\<rparr>)) (\<lambda>rq.
               rbind (encodeBounded fb (max_frame s) rq) (\<lambda>_. Inr rq)))) (\<lambda>rq.
      if elapsed_ms (k_writeStart ck) (k_started ck) + remaining > timeout then Inl late else Inr rq))"

definition register :: "wire_request \<Rightarrow> codec \<Rightarrow> rat \<Rightarrow> write_phase \<Rightarrow> client \<Rightarrow> client" where
  "register rq cd dl phase s = s\<lparr>cs_pending := map_set (rq_id rq)
     \<lparr>p_request = rq, p_codec = cd, p_deadlineAt = dl, p_phase = phase\<rparr> (cs_pending s)\<rparr>"

text \<open>
  The result says whether the returned promise is already rejected (\<open>Inl\<close>) or which request it
  waits for; the rejection itself is among the outputs.
\<close>

definition startWrite :: "dispatch_clock \<Rightarrow> wire_request \<Rightarrow> codec \<Rightarrow> rat \<Rightarrow> client
    \<Rightarrow> client \<times> client_out list \<times> (client_error + string)" where
  "startWrite ck rq cd dl s =
     (let s1 = register rq cd dl Writing s;
          s2 = s1\<lparr>cs_dispatched := map_set (rq_id rq) (requestTombstone rq) (cs_dispatched s1)\<rparr> in
      case k_writeThrows ck of
        None \<Rightarrow> (s2, [WriteFrame (MRequest rq)], Inr (rq_id rq))
      | Some phase \<Rightarrow>
          let (s3, o3) = writeFailed (rq_id rq) phase s2 in
          (s3, WriteFrame (MRequest rq) # o3, Inl (ClientError WriteFailedCode (Some (rq_id rq))
             (disconnectedOperationOutcome rq phase) (Some phase))))"

definition dispatch :: "(id_kind \<Rightarrow> nat \<Rightarrow> string) \<Rightarrow> (wire_message \<Rightarrow> nat) \<Rightarrow> dispatch_clock \<Rightarrow> invocation
    \<Rightarrow> client \<Rightarrow> client \<times> client_out list \<times> (client_error + string)" where
  "dispatch idf fb ck iv s = (case dispatch_guard s iv of
     Inl e \<Rightarrow> (s, [RejectCall e], Inl e)
   | Inr timeout \<Rightarrow>
      (case (if i_intent iv = Observe then (s, Inr None)
             else (case allocateId idf OperationId (i_operationId iv) s of
                     (s', Inl e) \<Rightarrow> (s', Inl e) | (s', Inr op) \<Rightarrow> (s', Inr (Some op)))) of
         (s1, Inl e) \<Rightarrow> (s1, [RejectCall e], Inl e)
       | (s1, Inr op) \<Rightarrow>
          (case allocateId idf RequestId None s1 of
             (s2, Inl e) \<Rightarrow> (s2, [RejectCall e], Inl e)
           | (s2, Inr rid) \<Rightarrow>
              (case prepareRequest fb s2 iv rid op timeout of
                 Inl e \<Rightarrow> (s2, [RejectCall e], Inl e)
               | Inr prepared \<Rightarrow>
                  let dl = k_started ck + of_int timeout;
                      s3 = register prepared (i_codec iv) dl BeforeWrite s2 in
                  (case finalRequest fb s2 ck timeout prepared of
                     Inl e \<Rightarrow> (settle rid s3, [RejectRequest rid e], Inl e)
                   | Inr rq \<Rightarrow> startWrite ck rq (i_codec iv) dl s3)))))"

definition invoke :: "(id_kind \<Rightarrow> nat \<Rightarrow> string) \<Rightarrow> (wire_message \<Rightarrow> nat) \<Rightarrow> dispatch_clock \<Rightarrow> invocation
    \<Rightarrow> client \<Rightarrow> client \<times> client_out list" where
  "invoke idf fb ck iv s = (if cs_state s \<noteq> Ready then (s, [RejectCall (stateError s)])
     else let (s', out, _) = dispatch idf fb ck iv s in (s', out))"

definition launchSession :: "(id_kind \<Rightarrow> nat \<Rightarrow> string) \<Rightarrow> (wire_message \<Rightarrow> nat) \<Rightarrow> dispatch_clock
    \<Rightarrow> (string \<times> json) list \<Rightarrow> jsnum \<Rightarrow> string option \<Rightarrow> bool \<Rightarrow> client \<Rightarrow> client \<times> client_out list" where
  "launchSession idf fb ck payload timeout op aborted s = (case cs_host s of
     None \<Rightarrow> (s, [RejectCall (stateError s)])
   | Some host \<Rightarrow> invoke idf fb ck \<lparr>i_name = ''session.launch'', i_intent = Lifecycle,
       i_scope = HostScope (d_hostInstanceId host), i_payload = payload, i_timeoutMs = timeout,
       i_codec = LaunchCodec, i_operationId = op, i_aborted = aborted\<rparr> s)"

section \<open>Receiving\<close>

definition accept_response :: "pending \<Rightarrow> wire_response \<Rightarrow> client \<Rightarrow> client \<times> client_out list" where
  "accept_response p rs s =
     (let i = rq_id (p_request p) in
      case rs_body rs of
        Inl err \<Rightarrow> reject_pending i (RemoteError err (rs_operation rs)) s
      | Inr result \<Rightarrow>
          (case decode s (p_codec p) result of
             Inr (v, st) \<Rightarrow> (wake_connect i (Inr v) (commitTracking st (settle i s)),
                            [ResolveRequest i v (rs_operation rs)])
           | Inl _ \<Rightarrow> reject_pending i (ClientError DecodeFailed (Some i)
               (map_option r_outcome (rs_operation rs)) (Some (p_phase p))) s))"

definition receive :: "nat \<Rightarrow> wire_message checked \<Rightarrow> client \<Rightarrow> client \<times> client_out list" where
  "receive bytes parsed s = (if cs_state s = Closed then (s, [])
     else if (case cs_host s of None \<Rightarrow> False | Some h \<Rightarrow> int bytes > d_maxMessageBytes h)
     then protocolFailure s
     else (case parsed of
       Inr (MResponse rs) \<Rightarrow>
         (case map_of (cs_pending s) (rs_id rs) of
            Some p \<Rightarrow>
              (case validateResponseForRequest (p_request p) rs of
                 Inl _ \<Rightarrow> protocolFailure s
               | Inr _ \<Rightarrow> accept_response p rs s)
          | None \<Rightarrow>
              (case map_of (cs_dispatched s) (rs_id rs) of
                 None \<Rightarrow> protocolFailure s
               | Some dispatched \<Rightarrow>
                   if rs_id rs \<in> set (cs_awaitingLate s) then
                     let s1 = s\<lparr>cs_awaitingLate := set_delete (rs_id rs) (cs_awaitingLate s)\<rparr> in
                     (case validateResponseForRequest dispatched rs of
                        Inl _ \<Rightarrow> protocolFailure s1
                      | Inr _ \<Rightarrow> (s1, [ReportLate dispatched rs]))
                   else (s, [])))
     | _ \<Rightarrow> protocolFailure s))"

definition write_done :: "(wire_message \<Rightarrow> nat) \<Rightarrow> string \<Rightarrow> nat \<Rightarrow> client \<Rightarrow> client \<times> client_out list" where
  "write_done fb i n s = (case map_of (cs_pending s) i of
     None \<Rightarrow> (s, [])
   | Some p \<Rightarrow>
      if n \<noteq> fb (MRequest (p_request p)) then writeFailed i (if n = 0 then BeforeWrite else Writing) s
      else (s\<lparr>cs_pending := map_set i (p\<lparr>p_phase := Written\<rparr>) (cs_pending s)\<rparr>, []))"

section \<open>Connecting and closing\<close>

definition connect :: "jsnum \<Rightarrow> rat \<Rightarrow> client \<Rightarrow> client \<times> client_out list" where
  "connect timeout now s = (if cs_state s \<noteq> Idle then (s, [RejectConnect (stateError s)])
     else (case integer 0 maxDeadlineMs (VNum timeout) of
       Inl c \<Rightarrow> (s, [RejectConnect (ProtocolError c)])
     | Inr tm \<Rightarrow> let ep = Suc (cs_epoch s) in
        (s\<lparr>cs_epoch := ep, cs_state := Connecting, cs_opening := Some ep,
           cs_connect := AwaitOpen ep now tm\<rparr>, [OpenTransport])))"

text \<open>The transport's \<open>open\<close> promise settles (\<open>Some\<close> is a rejection or a synchronous throw).\<close>

definition open_settled :: "client_error option \<Rightarrow> client \<Rightarrow> client" where
  "open_settled err s = (case cs_opening s of
     None \<Rightarrow> s
   | Some _ \<Rightarrow> s\<lparr>cs_opening := None, cs_connect := (case cs_connect s of
        AwaitOpen ep t0 tm \<Rightarrow> OpenDone ep t0 tm err | c \<Rightarrow> c)\<rparr>)"

definition open_timeout :: "client \<Rightarrow> client \<times> client_out list" where
  "open_timeout s = (case cs_opening s of
     None \<Rightarrow> (s, [])
   | Some _ \<Rightarrow> beginTransportClose (open_settled (Some (client_error_of DeadlineCode))
        (s\<lparr>cs_state := Disconnected, cs_epoch := Suc (cs_epoch s)\<rparr>)))"

definition connect_failed :: "client_error \<Rightarrow> client \<Rightarrow> client \<times> client_out list" where
  "connect_failed err s =
     (let s1 = (if cs_state s \<noteq> Disconnected \<and> cs_state s \<noteq> Closed then s\<lparr>cs_state := Disconnected\<rparr> else s);
          (s2, o2) = beginTransportClose (s1\<lparr>cs_connect := ConnectSettled\<rparr>)
      in (s2, o2 @ [RejectConnect err]))"

definition handshake_invocation :: "int \<Rightarrow> invocation" where
  "handshake_invocation remaining = \<lparr>i_name = ''host.handshake'', i_intent = Observe, i_scope = Bootstrap,
     i_payload = [], i_timeoutMs = Fin (of_int remaining), i_codec = HandshakeCodec,
     i_operationId = None, i_aborted = False\<rparr>"

text \<open>The continuation of \<open>connect\<close> after the promise it awaits has settled.\<close>

definition resume_connect :: "(id_kind \<Rightarrow> nat \<Rightarrow> string) \<Rightarrow> (wire_message \<Rightarrow> nat) \<Rightarrow> rat \<Rightarrow> dispatch_clock
    \<Rightarrow> client \<Rightarrow> client \<times> client_out list" where
  "resume_connect idf fb now ck s = (case cs_connect s of
     OpenDone ep t0 tm (Some err) \<Rightarrow> connect_failed err s
   | OpenDone ep t0 tm None \<Rightarrow>
       if cs_state s \<noteq> Connecting \<or> cs_epoch s \<noteq> ep then connect_failed (stateError s) s
       else let remaining = max 0 (tm - elapsed_ms now t0);
                (s1, o1, r) = dispatch idf fb ck (handshake_invocation remaining) s
            in (case r of
                  Inl e \<Rightarrow> (s1\<lparr>cs_connect := HandshakeDone ep (Inl e)\<rparr>, o1)
                | Inr i \<Rightarrow> (s1\<lparr>cs_connect := AwaitHandshake ep i\<rparr>, o1))
   | HandshakeDone ep (Inl err) \<Rightarrow> connect_failed err s
   | HandshakeDone ep (Inr v) \<Rightarrow>
       if cs_state s \<noteq> Connecting \<or> cs_epoch s \<noteq> ep then connect_failed (stateError s) s
       else (case v of
          HostValue h \<Rightarrow> (s\<lparr>cs_host := Some h, cs_state := Ready, cs_connect := ConnectSettled\<rparr>,
                          [ResolveConnect h])
        | _ \<Rightarrow> (s, []))
   | _ \<Rightarrow> (s, []))"

fun cancel_all :: "(id_kind \<Rightarrow> nat \<Rightarrow> string) \<Rightarrow> (wire_message \<Rightarrow> nat) \<Rightarrow> string list \<Rightarrow> client
    \<Rightarrow> client \<times> client_out list" where
  "cancel_all idf fb [] s = (s, [])"
| "cancel_all idf fb (i # is) s =
     (let (s1, o1) = cancelPending idf fb i ByShutdown s; (s2, o2) = cancel_all idf fb is s1
      in (s2, o1 @ o2))"

definition close :: "(id_kind \<Rightarrow> nat \<Rightarrow> string) \<Rightarrow> (wire_message \<Rightarrow> nat) \<Rightarrow> client \<Rightarrow> client \<times> client_out list" where
  "close idf fb s = (if cs_state s = Closed then (s, [])
     else let s1 = s\<lparr>cs_epoch := Suc (cs_epoch s), cs_state := Closed\<rparr>;
              s2 = rejectOpening (stateError s1) s1;
              (s3, o3) = cancel_all idf fb (map fst (cs_pending s2)) s2;
              (s4, o4) = beginTransportClose (forget_connection s3)
          in (s4, o3 @ o4))"

text \<open>\<open>snapshot()\<close>: state, host and the three counts.\<close>

definition client_snapshot :: "client \<Rightarrow> client_phase \<times> native_host option \<times> nat \<times> nat \<times> nat" where
  "client_snapshot s = (cs_state s, cs_host s, length (cs_pending s), length (cs_sessions s),
     length (cs_handles s))"

section \<open>The machine\<close>

datatype client_event =
    EConnect jsnum rat
  | EOpenSettled "client_error option"
  | EOpenTimeout
  | EResume rat dispatch_clock
  | EInvoke invocation dispatch_clock
  | ELaunch "(string \<times> json) list" jsnum "string option" bool dispatch_clock
  | EReceive nat "wire_message checked"
  | EAbort string
  | EDeadline string
  | EWriteDone string nat
  | EWriteFailed string "write_phase option"
  | EDisconnect
  | EClose
  | ETrackSession jsv
  | ETrackHandle jsv
  | EForget string

fun client_step :: "(id_kind \<Rightarrow> nat \<Rightarrow> string) \<Rightarrow> (wire_message \<Rightarrow> nat) \<Rightarrow> client \<Rightarrow> client_event
    \<Rightarrow> client \<times> client_out list" where
  "client_step idf fb s (EConnect tm now) = connect tm now s"
| "client_step idf fb s (EOpenSettled err) = (open_settled err s, [])"
| "client_step idf fb s EOpenTimeout = open_timeout s"
| "client_step idf fb s (EResume now ck) = resume_connect idf fb now ck s"
| "client_step idf fb s (EInvoke iv ck) = invoke idf fb ck iv s"
| "client_step idf fb s (ELaunch payload tm op ab ck) = launchSession idf fb ck payload tm op ab s"
| "client_step idf fb s (EReceive n m) = receive n m s"
| "client_step idf fb s (EAbort i) = cancelPending idf fb i ByCaller s"
| "client_step idf fb s (EDeadline i) = cancelPending idf fb i ByDeadline s"
| "client_step idf fb s (EWriteDone i n) = write_done fb i n s"
| "client_step idf fb s (EWriteFailed i ph) =
     writeFailed i (case ph of None \<Rightarrow> Writing | Some p \<Rightarrow> p) s"
| "client_step idf fb s EDisconnect = on_disconnect s"
| "client_step idf fb s EClose = close idf fb s"
| "client_step idf fb s (ETrackSession v) = trackSession v s"
| "client_step idf fb s (ETrackHandle v) = trackHandle v s"
| "client_step idf fb s (EForget i) = (forgetSession i s, [])"

end
