(* ===== verification/NativeClientProps.thy ===== *)
theory NativeClientProps
  imports NativeClient
begin

text \<open>
  Invariants of the native client and what every run of it guarantees: the bookkeeping of request
  identifiers, the one-shot settlement of every promise, the connection phases and the tracked
  sessions and handles, and the contents of what a dispatch puts on the wire.
\<close>

section \<open>Identifier bookkeeping\<close>

text \<open>
  Between events every pending request is filed under its own id, has been handed to the
  transport, and is remembered by a tombstone without payload; a request the caller gave up waits
  for a late response and is no longer pending; every id in use was allocated.
\<close>

definition pending_ok :: "string \<times> pending \<Rightarrow> bool" where
  "pending_ok e = (rq_id (p_request (snd e)) = fst e \<and> p_phase (snd e) \<noteq> BeforeWrite)"

definition tombstone_ok :: "string \<times> wire_request \<Rightarrow> bool" where
  "tombstone_ok e = (rq_id (snd e) = fst e \<and> c_payload (rq_call (snd e)) = [])"

abbreviation pending_ids :: "client \<Rightarrow> string set" where
  "pending_ids s \<equiv> fst ` set (cs_pending s)"

abbreviation dispatched_ids :: "client \<Rightarrow> string set" where
  "dispatched_ids s \<equiv> fst ` set (cs_dispatched s)"

definition ids_inv :: "client \<Rightarrow> bool" where
  "ids_inv s = (distinct (map fst (cs_pending s)) \<and> distinct (map fst (cs_dispatched s))
     \<and> (\<forall>e \<in> set (cs_pending s). pending_ok e) \<and> (\<forall>e \<in> set (cs_dispatched s). tombstone_ok e)
     \<and> pending_ids s \<subseteq> dispatched_ids s \<and> dispatched_ids s \<subseteq> set (cs_allocated s)
     \<and> set (cs_awaitingLate s) \<subseteq> dispatched_ids s \<and> distinct (cs_awaitingLate s)
     \<and> set (cs_awaitingLate s) \<inter> pending_ids s = {})"

text \<open>A promise is live while its request is pending or its id has not been given out.\<close>

definition live :: "client \<Rightarrow> string \<Rightarrow> bool" where
  "live s i = (i \<in> pending_ids s \<or> i \<notin> set (cs_allocated s))"

fun settled_id :: "client_out \<Rightarrow> string list" where
  "settled_id (ResolveRequest i _ _) = [i]"
| "settled_id (RejectRequest i _) = [i]"
| "settled_id _ = []"

definition settled :: "client_out list \<Rightarrow> string list" where
  "settled os = concat (map settled_id os)"

lemma settled_simps [simp]:
  "settled [] = []" "settled (x # xs) = settled_id x @ settled xs"
  "settled (xs @ ys) = settled xs @ settled ys"
  by (simp_all add: settled_def)

text \<open>One operation: keeps the bookkeeping, settles each promise at most once.\<close>

definition settles :: "client \<Rightarrow> client \<times> client_out list \<Rightarrow> bool" where
  "settles s r = (ids_inv (fst r) \<and> distinct (settled (snd r))
     \<and> (\<forall>i \<in> set (settled (snd r)). live s i \<and> \<not> live (fst r) i)
     \<and> (\<forall>i. \<not> live s i \<longrightarrow> \<not> live (fst r) i))"

lemma settles_trans:
  "settles s r1 \<Longrightarrow> settles (fst r1) r2 \<Longrightarrow> settles s (fst r2, snd r1 @ snd r2)"
  unfolding settles_def by auto

lemma settles_quiet:
  "ids_inv s' \<Longrightarrow> cs_pending s' = cs_pending s \<Longrightarrow> cs_allocated s' = cs_allocated s \<Longrightarrow>
   settled out = [] \<Longrightarrow> settles s (s', out)"
  by (simp add: settles_def live_def)

lemma settles_refl: "ids_inv s \<Longrightarrow> settles s (s, [])"
  by (rule settles_quiet) simp_all

text \<open>What the connection-phase fields hold does not matter to the bookkeeping.\<close>

lemma ids_inv_frame [simp]:
  "ids_inv (s\<lparr>cs_state := a\<rparr>) = ids_inv s" "ids_inv (s\<lparr>cs_host := b\<rparr>) = ids_inv s"
  "ids_inv (s\<lparr>cs_counter := c\<rparr>) = ids_inv s" "ids_inv (s\<lparr>cs_epoch := c\<rparr>) = ids_inv s"
  "ids_inv (s\<lparr>cs_opening := d\<rparr>) = ids_inv s" "ids_inv (s\<lparr>cs_connect := e\<rparr>) = ids_inv s"
  "ids_inv (s\<lparr>cs_transportClose := f\<rparr>) = ids_inv s" "ids_inv (s\<lparr>cs_sessions := g\<rparr>) = ids_inv s"
  "ids_inv (s\<lparr>cs_seen := h\<rparr>) = ids_inv s" "ids_inv (s\<lparr>cs_handles := i\<rparr>) = ids_inv s"
  by (simp_all add: ids_inv_def)

lemma live_frame [simp]:
  "live (s\<lparr>cs_state := a\<rparr>) = live s" "live (s\<lparr>cs_host := b\<rparr>) = live s"
  "live (s\<lparr>cs_counter := c\<rparr>) = live s" "live (s\<lparr>cs_epoch := c\<rparr>) = live s"
  "live (s\<lparr>cs_opening := d\<rparr>) = live s" "live (s\<lparr>cs_connect := e\<rparr>) = live s"
  "live (s\<lparr>cs_transportClose := f\<rparr>) = live s" "live (s\<lparr>cs_sessions := g\<rparr>) = live s"
  "live (s\<lparr>cs_seen := h\<rparr>) = live s" "live (s\<lparr>cs_handles := i\<rparr>) = live s"
  "live (s\<lparr>cs_awaitingLate := j\<rparr>) = live s" "live (s\<lparr>cs_dispatched := k\<rparr>) = live s"
  by (simp_all add: live_def fun_eq_iff)

lemma wake_connect_cases: "wake_connect i r s = s \<or> (\<exists>c. wake_connect i r s = s\<lparr>cs_connect := c\<rparr>)"
  by (auto simp: wake_connect_def split: connect_phase.splits)

lemma wake_connect_frame [simp]:
  "ids_inv (wake_connect i r s) = ids_inv s" "live (wake_connect i r s) = live s"
  "cs_pending (wake_connect i r s) = cs_pending s" "cs_allocated (wake_connect i r s) = cs_allocated s"
  "cs_dispatched (wake_connect i r s) = cs_dispatched s" "cs_state (wake_connect i r s) = cs_state s"
  "cs_host (wake_connect i r s) = cs_host s" "cs_sessions (wake_connect i r s) = cs_sessions s"
  "cs_handles (wake_connect i r s) = cs_handles s" "cs_seen (wake_connect i r s) = cs_seen s"
  "cs_awaitingLate (wake_connect i r s) = cs_awaitingLate s" "cs_epoch (wake_connect i r s) = cs_epoch s"
  "cs_opening (wake_connect i r s) = cs_opening s" "cs_counter (wake_connect i r s) = cs_counter s"
  using wake_connect_cases [of i r s] by auto

lemma rejectOpening_frame [simp]:
  "ids_inv (rejectOpening e s) = ids_inv s" "live (rejectOpening e s) = live s"
  "cs_pending (rejectOpening e s) = cs_pending s" "cs_state (rejectOpening e s) = cs_state s"
  "cs_host (rejectOpening e s) = cs_host s" "cs_sessions (rejectOpening e s) = cs_sessions s"
  "cs_handles (rejectOpening e s) = cs_handles s" "cs_seen (rejectOpening e s) = cs_seen s"
  "cs_opening (rejectOpening e s) = None" "cs_allocated (rejectOpening e s) = cs_allocated s"
  by (simp_all add: rejectOpening_def split: option.splits)

lemma forget_connection_frame [simp]:
  "ids_inv (forget_connection s) = ids_inv s" "live (forget_connection s) = live s"
  "cs_pending (forget_connection s) = cs_pending s" "cs_state (forget_connection s) = cs_state s"
  "cs_connect (forget_connection s) = cs_connect s" "cs_host (forget_connection s) = None"
  "cs_sessions (forget_connection s) = []" "cs_handles (forget_connection s) = []"
  by (simp_all add: forget_connection_def)

lemma beginTransportClose_frame [simp]:
  "ids_inv (fst (beginTransportClose s)) = ids_inv s" "live (fst (beginTransportClose s)) = live s"
  "cs_pending (fst (beginTransportClose s)) = cs_pending s" "settled (snd (beginTransportClose s)) = []"
  "cs_state (fst (beginTransportClose s)) = cs_state s" "cs_host (fst (beginTransportClose s)) = cs_host s"
  "cs_sessions (fst (beginTransportClose s)) = cs_sessions s"
  "cs_handles (fst (beginTransportClose s)) = cs_handles s"
  "cs_connect (fst (beginTransportClose s)) = cs_connect s"
  "cs_transportClose (fst (beginTransportClose s))"
  by (simp_all add: beginTransportClose_def)

section \<open>Each operation keeps the bookkeeping\<close>

lemma ids_inv_settle: "ids_inv s \<Longrightarrow> ids_inv (settle i s)"
  by (auto simp: ids_inv_def settle_def distinct_map_delete set_map_delete)

lemma mark_late_frame [simp]:
  "cs_pending (mark_late i p s) = cs_pending s" "live (mark_late i p s) = live s"
  "cs_state (mark_late i p s) = cs_state s" "cs_host (mark_late i p s) = cs_host s"
  "cs_sessions (mark_late i p s) = cs_sessions s" "cs_handles (mark_late i p s) = cs_handles s"
  "cs_connect (mark_late i p s) = cs_connect s" "cs_allocated (mark_late i p s) = cs_allocated s"
  "cs_dispatched (mark_late i p s) = cs_dispatched s"
  by (simp_all add: mark_late_def)

lemma ids_invD:
  assumes "ids_inv s"
  shows "pending_ids s \<subseteq> dispatched_ids s" "dispatched_ids s \<subseteq> set (cs_allocated s)"
    "set (cs_awaitingLate s) \<inter> pending_ids s = {}" "distinct (map fst (cs_pending s))"
    "set (cs_awaitingLate s) \<subseteq> dispatched_ids s" "distinct (cs_awaitingLate s)"
    "pending_ids s \<subseteq> set (cs_allocated s)"
proof -
  show 1: "pending_ids s \<subseteq> dispatched_ids s" and 2: "dispatched_ids s \<subseteq> set (cs_allocated s)"
    and "set (cs_awaitingLate s) \<inter> pending_ids s = {}" and "distinct (map fst (cs_pending s))"
    and "set (cs_awaitingLate s) \<subseteq> dispatched_ids s" and "distinct (cs_awaitingLate s)"
    using assms by (simp_all only: ids_inv_def)
  from 1 2 show "pending_ids s \<subseteq> set (cs_allocated s)" by (rule order_trans)
qed

lemma ids_inv_entries:
  assumes "ids_inv s"
  shows "\<forall>e \<in> set (cs_pending s). pending_ok e" "\<forall>e \<in> set (cs_dispatched s). tombstone_ok e"
    "distinct (map fst (cs_dispatched s))"
  by (insert assms, unfold ids_inv_def) (elim conjE, assumption)+

lemma pending_ids_settle: "pending_ids (settle i s) = pending_ids s - {i}"
  by (auto simp: settle_def set_map_delete)

lemma live_settle: "live (settle i s) j = (j \<in> pending_ids s - {i} \<or> j \<notin> set (cs_allocated s))"
  unfolding live_def pending_ids_settle by (simp add: settle_def)

lemma settles_settle:
  assumes inv: "ids_inv s'" and live: "live s' = live (settle i s)"
    and i: "i \<in> pending_ids s" "i \<in> set (cs_allocated s)" and out: "settled out = [i]"
  shows "settles s (s', out)"
proof -
  have "live s i" using i(1) by (simp add: live_def)
  moreover have "\<not> live s' i" using i by (simp add: live live_settle)
  moreover have "\<not> live s' j" if "\<not> live s j" for j
    using that unfolding live live_settle by (simp add: live_def)
  ultimately show ?thesis using inv out by (simp add: settles_def)
qed

lemma ids_inv_settle_late:
  assumes "ids_inv s" and i: "i \<in> pending_ids s"
  shows "ids_inv (settle i (mark_late i p s))"
proof (cases "p_phase p = BeforeWrite")
  case True
  with ids_inv_settle [OF assms(1)] show ?thesis by (simp add: mark_late_def)
next
  case False
  have "i \<in> dispatched_ids s" using ids_invD(1) [OF assms(1)] i by (rule subsetD)
  with ids_inv_settle [OF assms(1), of i] ids_invD(3) [OF assms(1)] False show ?thesis
    unfolding ids_inv_def pending_ids_settle by (auto simp: mark_late_def settle_def)
qed

lemma settles_reject:
  assumes "ids_inv s" and i: "i \<in> pending_ids s"
  shows "settles s (reject_pending i err s)"
    and "settles s (reject_pending i err (mark_late i p s))"
proof -
  have alloc: "i \<in> set (cs_allocated s)" using ids_invD(7) [OF assms(1)] i by (rule subsetD)
  show "settles s (reject_pending i err s)" unfolding reject_pending_def
    by (rule settles_settle) (simp_all add: ids_inv_settle assms alloc)
  show "settles s (reject_pending i err (mark_late i p s))" unfolding reject_pending_def
  proof (rule settles_settle)
    show "ids_inv (wake_connect i (Inl err) (settle i (mark_late i p s)))"
      by (simp add: ids_inv_settle_late assms)
    show "live (wake_connect i (Inl err) (settle i (mark_late i p s))) = live (settle i s)"
      by (simp add: fun_eq_iff live_settle)
  qed (simp_all add: i alloc)
qed

lemma allocateId_frame:
  "allocateId idf k ex s = (s', r) \<Longrightarrow>
   s' = s\<lparr>cs_counter := cs_counter s', cs_allocated := cs_allocated s'\<rparr> \<and>
   (case r of Inl _ \<Rightarrow> cs_allocated s' = cs_allocated s
    | Inr i \<Rightarrow> cs_allocated s' = i # cs_allocated s \<and> i \<notin> set (cs_allocated s))"
  by (cases s) (auto simp: allocateId_def Let_def split: if_splits option.splits)

lemma ids_inv_more_ids:
  assumes inv: "ids_inv s" and sub: "set (cs_allocated s) \<subseteq> set A"
  shows "ids_inv (s\<lparr>cs_counter := c, cs_allocated := A\<rparr>)"
proof -
  have "dispatched_ids s \<subseteq> set A" using ids_invD(2) [OF inv] sub by (rule order_trans)
  then show ?thesis using inv unfolding ids_inv_def by simp
qed

lemma allocateId_inv:
  assumes "ids_inv s" and a: "allocateId idf k ex s = (s', r)"
  shows "ids_inv s'" and "settles s (s', [])"
proof -
  from allocateId_frame [OF a] have eq: "s' = s\<lparr>cs_counter := cs_counter s', cs_allocated := cs_allocated s'\<rparr>"
    and sub: "set (cs_allocated s) \<subseteq> set (cs_allocated s')"
    by (auto split: sum.splits)
  have pend: "cs_pending s' = cs_pending s" by (subst eq) simp
  show inv: "ids_inv s'" using ids_inv_more_ids [OF assms(1) sub] eq by metis
  with sub show "settles s (s', [])" by (auto simp: settles_def live_def pend)
qed

lemma settles_allocate: "ids_inv s \<Longrightarrow> settles s (fst (allocateId idf k ex s), [])"
  by (metis allocateId_inv(2) prod.collapse)

lemma settles_silent: "settles s (s', o1) \<Longrightarrow> settled o2 = [] \<Longrightarrow> settled o1 = [] \<Longrightarrow> settles s (s', o2)"
  by (simp add: settles_def)

lemma sendCancel_state: "fst (sendCancel idf fb i r s) = fst (allocateId idf CancelId None s)"
  by (auto simp: sendCancel_def split: prod.splits sum.splits)

lemma sendCancel_quiet: "settled (snd (sendCancel idf fb i r s)) = []"
  by (auto simp: sendCancel_def split: prod.splits sum.splits)

lemma settles_sendCancel: "ids_inv s \<Longrightarrow> settles s (sendCancel idf fb i r s)"
  using settles_silent [OF settles_allocate sendCancel_quiet]
  by (metis prod.collapse sendCancel_state settled_simps(1))

lemma settles_inv: "settles s r \<Longrightarrow> ids_inv (fst r)"
  by (simp add: settles_def)

lemma settles_cancelPending: "ids_inv s \<Longrightarrow> settles s (cancelPending idf fb i reason s)"
proof (cases "map_of (cs_pending s) i")
  case None
  assume "ids_inv s"
  with None show ?thesis by (simp add: cancelPending_def settles_refl)
next
  case (Some p)
  assume inv: "ids_inv s"
  obtain r1 where r1: "r1 = reject_pending i (ClientError
     (if reason = ByDeadline then DeadlineCode else CancelledCode) (Some i)
     (disconnectedOperationOutcome (p_request p) (p_phase p)) (Some (p_phase p))) (mark_late i p s)" by simp
  have 1: "settles s r1" unfolding r1 by (rule settles_reject(2) [OF inv map_of_Some_in_keys [OF Some]])
  have 2: "settles (fst r1) (if p_phase p \<noteq> BeforeWrite then sendCancel idf fb i reason (fst r1) else (fst r1, []))"
    using settles_inv [OF 1] by (simp add: settles_sendCancel settles_refl)
  have "cancelPending idf fb i reason s = (fst (if p_phase p \<noteq> BeforeWrite then sendCancel idf fb i reason (fst r1)
     else (fst r1, [])), snd r1 @ snd (if p_phase p \<noteq> BeforeWrite then sendCancel idf fb i reason (fst r1)
     else (fst r1, [])))"
    using Some by (simp add: cancelPending_def r1 Let_def split_beta)
  with settles_trans [OF 1 2] show ?thesis by (simp only:)
qed

lemma settles_writeFailed: "ids_inv s \<Longrightarrow> settles s (writeFailed i ph s)"
proof (cases "map_of (cs_pending s) i")
  case None
  assume "ids_inv s"
  with None show ?thesis by (simp add: writeFailed_def settles_refl)
next
  case (Some p)
  assume inv: "ids_inv s"
  show ?thesis using settles_reject(2) [OF inv map_of_Some_in_keys [OF Some]] Some
    by (simp add: writeFailed_def Let_def)
qed

lemma settles_cong: "settles s r \<Longrightarrow> ids_inv s0 = ids_inv s \<Longrightarrow> live s0 = live s \<Longrightarrow> settles s0 r"
  by (simp add: settles_def)

lemma settles_quiet_end: "settles s r \<Longrightarrow> ids_inv s' = ids_inv (fst r) \<Longrightarrow> live s' = live (fst r)
    \<Longrightarrow> settled o2 = [] \<Longrightarrow> settles s (s', snd r @ o2)"
  by (simp add: settles_def)

lemma pending_reject:
  "cs_pending (fst (reject_pending i e s)) = map_delete i (cs_pending s)"
  by (simp add: reject_pending_def settle_def)

lemma pending_ids_reject:
  "pending_ids (fst (reject_pending i e s)) = pending_ids s - {i}"
  by (auto simp: pending_reject set_map_delete)

lemma settles_drop:
  assumes "ids_inv s" and "distinct (map fst ps)" and "fst ` set ps \<subseteq> pending_ids s"
  shows "settles s (drop_disconnected ps s)" and "settles s (drop_violated ps s)"
  using assms
proof (induction ps arbitrary: s)
  case Nil
  { case 1 then show ?case by (simp add: settles_refl) }
  { case 2 then show ?case by (simp add: settles_refl) }
next
  case (Cons e ps)
  obtain i p where e: "e = (i, p)" by (cases e)
  have rest: "fst ` set ps \<subseteq> pending_ids (fst (reject_pending i err s'))"
    if "fst ` set (e # ps) \<subseteq> pending_ids s" "distinct (map fst (e # ps))" "cs_pending s' = cs_pending s" for err s' s
    unfolding pending_ids_reject that(3) using that(1,2) by (simp add: e subset_Diff_insert)
  { case 1
    have i: "i \<in> pending_ids s" using 1(3) by (simp add: e)
    obtain err where eq: "drop_disconnected (e # ps) s = (let (s1, o1) = reject_pending i err (mark_late i p s);
        (s2, o2) = drop_disconnected ps s1 in (s2, o1 @ o2))" by (simp add: e)
    have a: "settles s (reject_pending i err (mark_late i p s))" by (rule settles_reject(2) [OF 1(1) i])
    have b: "settles (fst (reject_pending i err (mark_late i p s)))
        (drop_disconnected ps (fst (reject_pending i err (mark_late i p s))))"
      using Cons.IH(1) [OF settles_inv [OF a]] 1(2) rest [OF 1(3) 1(2) mark_late_frame(1)] by simp
    from settles_trans [OF a b] show ?case by (simp add: eq Let_def split_beta) }
  { case 2
    have i: "i \<in> pending_ids s" using 2(3) by (simp add: e)
    obtain err where eq: "drop_violated (e # ps) s = (let (s1, o1) = reject_pending i err s;
        (s2, o2) = drop_violated ps s1 in (s2, o1 @ o2))" by (simp add: e)
    have a: "settles s (reject_pending i err s)" by (rule settles_reject(1) [OF 2(1) i])
    have b: "settles (fst (reject_pending i err s)) (drop_violated ps (fst (reject_pending i err s)))"
      using Cons.IH(2) [OF settles_inv [OF a]] 2(2) rest [OF 2(3) 2(2) refl] by simp
    from settles_trans [OF a b] show ?case by (simp add: eq Let_def split_beta) }
qed

lemma settles_on_disconnect: "ids_inv s \<Longrightarrow> settles s (on_disconnect s)"
  unfolding on_disconnect_def Let_def
  by (auto simp: settles_refl ids_invD intro!: settles_cong [OF settles_drop(1)])

lemma settles_protocolFailure: "ids_inv s \<Longrightarrow> settles s (protocolFailure s)"
  unfolding protocolFailure_def Let_def split_beta
  by (auto simp: ids_invD intro!: settles_cong [OF settles_quiet_end [OF settles_drop(2)]])

lemma settles_cancel_all: "ids_inv s \<Longrightarrow> settles s (cancel_all idf fb is s)"
proof (induction "is" arbitrary: s)
  case Nil
  then show ?case by (simp add: settles_refl)
next
  case (Cons i "is")
  note a = settles_cancelPending [OF Cons.prems, of idf fb i ByShutdown]
  from settles_trans [OF a Cons.IH [OF settles_inv [OF a]]] show ?case by (simp add: Let_def split_beta)
qed

lemma settles_close: "ids_inv s \<Longrightarrow> settles s (close idf fb s)"
  unfolding close_def Let_def split_beta
  by (auto simp: settles_refl intro!: settles_cong [OF settles_quiet_end [OF settles_cancel_all]])

lemma commitTracking_frame [simp]:
  "ids_inv (commitTracking st s) = ids_inv s" "live (commitTracking st s) = live s"
  "cs_pending (commitTracking st s) = cs_pending s" "cs_state (commitTracking st s) = cs_state s"
  "cs_host (commitTracking st s) = cs_host s" "cs_connect (commitTracking st s) = cs_connect s"
  "cs_opening (commitTracking st s) = cs_opening s" "cs_allocated (commitTracking st s) = cs_allocated s"
  by (simp_all add: commitTracking_def ids_inv_def live_def fun_eq_iff)

lemma settles_accept:
  assumes "ids_inv s" and "rq_id (p_request p) \<in> pending_ids s"
  shows "settles s (accept_response p rs s)"
proof -
  have alloc: "rq_id (p_request p) \<in> set (cs_allocated s)" using ids_invD(7) [OF assms(1)] assms(2) by (rule subsetD)
  have ok: "settles s (wake_connect i r (commitTracking st (settle i s)), [ResolveRequest i v x])"
    if "i = rq_id (p_request p)" for i r st v x
    by (rule settles_settle) (use that assms alloc in \<open>simp_all add: ids_inv_settle\<close>)
  show ?thesis
    by (auto simp: accept_response_def Let_def ok split: sum.splits intro!: settles_reject(1) assms)
qed

lemma pending_lookup:
  assumes "ids_inv s" and "map_of (cs_pending s) i = Some p"
  shows "rq_id (p_request p) = i" "p_phase p \<noteq> BeforeWrite" "i \<in> pending_ids s"
proof -
  from bspec [OF ids_inv_entries(1) [OF assms(1)] map_of_SomeD [OF assms(2)]]
  show "rq_id (p_request p) = i" "p_phase p \<noteq> BeforeWrite" by (simp_all add: pending_ok_def)
  show "i \<in> pending_ids s" by (rule map_of_Some_in_keys [OF assms(2)])
qed

lemma ids_inv_forget_late:
  assumes "ids_inv s" shows "ids_inv (s\<lparr>cs_awaitingLate := set_delete i (cs_awaitingLate s)\<rparr>)"
proof -
  have "set (set_delete i (cs_awaitingLate s)) \<subseteq> set (cs_awaitingLate s)"
    and "distinct (set_delete i (cs_awaitingLate s))"
    using ids_invD(6) [OF assms] by (auto simp: set_delete_def)
  with assms ids_invD(3,5) [OF assms] show ?thesis unfolding ids_inv_def by auto
qed

lemma settles_receive: "ids_inv s \<Longrightarrow> settles s (receive n m s)"
proof -
  assume inv: "ids_inv s"
  let ?s1 = "\<lambda>i. s\<lparr>cs_awaitingLate := set_delete i (cs_awaitingLate s)\<rparr>"
  have late: "settles s (?s1 i, [ReportLate d rs])" for i d rs
    by (rule settles_quiet) (simp_all add: ids_inv_forget_late [OF inv])
  have viol: "settles s (protocolFailure (?s1 i))" for i
    by (rule settles_cong [OF settles_protocolFailure]) (simp_all add: ids_inv_forget_late [OF inv] inv)
  have acc: "settles s (accept_response p rs s)" if "map_of (cs_pending s) (rs_id rs) = Some p" for p rs
    using settles_accept [OF inv] pending_lookup [OF inv that] by simp
  note pf = settles_protocolFailure [OF inv]
  have resp: "settles s (case map_of (cs_pending s) (rs_id rs) of
            Some p \<Rightarrow> (case validateResponseForRequest (p_request p) rs of
                 Inl _ \<Rightarrow> protocolFailure s | Inr _ \<Rightarrow> accept_response p rs s)
          | None \<Rightarrow> (case map_of (cs_dispatched s) (rs_id rs) of
                 None \<Rightarrow> protocolFailure s
               | Some dispatched \<Rightarrow> if rs_id rs \<in> set (cs_awaitingLate s) then
                     let s1 = ?s1 (rs_id rs) in
                     (case validateResponseForRequest dispatched rs of
                        Inl _ \<Rightarrow> protocolFailure s1 | Inr _ \<Rightarrow> (s1, [ReportLate dispatched rs]))
                   else (s, [])))" for rs
    by (auto simp only: Let_def split: option.split sum.split if_split intro!: pf acc viol late settles_refl [OF inv])
  show ?thesis unfolding receive_def
    by (simp only: split: if_split sum.split wire_message.split) (simp add: pf resp settles_refl inv)
qed

lemma ids_inv_written:
  assumes inv: "ids_inv s" and some: "map_of (cs_pending s) i = Some p"
  shows "ids_inv (s\<lparr>cs_pending := map_set i (p\<lparr>p_phase := Written\<rparr>) (cs_pending s)\<rparr>)"
    and "fst ` set (map_set i (p\<lparr>p_phase := Written\<rparr>) (cs_pending s)) = pending_ids s"
proof -
  let ?ps = "map_set i (p\<lparr>p_phase := Written\<rparr>) (cs_pending s)"
  show keys: "fst ` set ?ps = pending_ids s"
    using pending_lookup(3) [OF inv some] by (auto simp: keys_map_set)
  have "pending_ok (i, p\<lparr>p_phase := Written\<rparr>)"
    using pending_lookup [OF inv some] by (simp add: pending_ok_def)
  then have "\<forall>e \<in> set ?ps. pending_ok e"
    using ids_inv_entries(1) [OF inv] set_map_set_subset [of i _ "cs_pending s"] by blast
  moreover have "distinct (map fst ?ps)" using ids_invD(4) [OF inv] by (rule distinct_map_set)
  ultimately show "ids_inv (s\<lparr>cs_pending := ?ps\<rparr>)" using inv keys unfolding ids_inv_def by simp
qed

lemma settles_write_done: "ids_inv s \<Longrightarrow> settles s (write_done fb i n s)"
proof (cases "map_of (cs_pending s) i")
  case None
  assume "ids_inv s"
  with None show ?thesis by (simp add: write_done_def settles_refl)
next
  case (Some p)
  assume inv: "ids_inv s"
  have "settles s (s\<lparr>cs_pending := map_set i (p\<lparr>p_phase := Written\<rparr>) (cs_pending s)\<rparr>, [])"
    using ids_inv_written [OF inv Some] by (simp add: settles_def live_def)
  then show ?thesis using Some by (simp add: write_done_def settles_writeFailed inv)
qed

section \<open>Dispatch\<close>

text \<open>What a dispatch knows once it has its identifiers.\<close>

definition issued :: "client \<Rightarrow> string \<Rightarrow> client \<Rightarrow> bool" where
  "issued s rid s2 = (s2 = s\<lparr>cs_counter := cs_counter s2, cs_allocated := cs_allocated s2\<rparr>
     \<and> set (cs_allocated s) \<subseteq> set (cs_allocated s2) \<and> rid \<in> set (cs_allocated s2) \<and> rid \<notin> set (cs_allocated s))"

lemma issued_frame:
  assumes "issued s rid s2"
  shows "cs_pending s2 = cs_pending s" "cs_host s2 = cs_host s" "cs_state s2 = cs_state s"
    "cs_sessions s2 = cs_sessions s" "cs_handles s2 = cs_handles s" "cs_dispatched s2 = cs_dispatched s"
    "cs_awaitingLate s2 = cs_awaitingLate s" "cs_connect s2 = cs_connect s" "cs_epoch s2 = cs_epoch s"
    "cs_opening s2 = cs_opening s" "cs_transportClose s2 = cs_transportClose s"
proof -
  have eq: "s2 = s\<lparr>cs_counter := cs_counter s2, cs_allocated := cs_allocated s2\<rparr>"
    using assms by (simp add: issued_def)
  show "cs_pending s2 = cs_pending s" "cs_host s2 = cs_host s" "cs_state s2 = cs_state s"
    "cs_sessions s2 = cs_sessions s" "cs_handles s2 = cs_handles s" "cs_dispatched s2 = cs_dispatched s"
    "cs_awaitingLate s2 = cs_awaitingLate s" "cs_connect s2 = cs_connect s" "cs_epoch s2 = cs_epoch s"
    "cs_opening s2 = cs_opening s" "cs_transportClose s2 = cs_transportClose s"
    by (subst eq, simp)+
qed

lemma allocateId_inv': "ids_inv s \<Longrightarrow> allocateId idf k ex s = (s', r) \<Longrightarrow>
    ids_inv s' \<and> s' = s\<lparr>cs_counter := cs_counter s', cs_allocated := cs_allocated s'\<rparr>
    \<and> set (cs_allocated s) \<subseteq> set (cs_allocated s')"
  using allocateId_inv(1) allocateId_frame [of idf k ex s s' r] by (auto split: sum.splits)

text \<open>
  The four ways a dispatch ends: rejected before it has an id (and then with at most the operation
  id allocated), rejected with a message that does not pass, out of time, or written.
\<close>

definition ids_step :: "client \<Rightarrow> client \<Rightarrow> bool" where
  "ids_step s s2 = (s2 = s\<lparr>cs_counter := cs_counter s2, cs_allocated := cs_allocated s2\<rparr>
     \<and> set (cs_allocated s) \<subseteq> set (cs_allocated s2))"

lemma ids_step_refl: "ids_step s s" by (simp add: ids_step_def)

lemma ids_step_trans: "ids_step s s1 \<Longrightarrow> ids_step s1 s2 \<Longrightarrow> ids_step s s2"
  unfolding ids_step_def by (cases s; cases s1; cases s2) auto

lemma ids_step_allocate: "allocateId idf k ex s = (s', r) \<Longrightarrow> ids_step s s'"
  using allocateId_frame [of idf k ex s s' r] by (auto simp: ids_step_def split: sum.splits)

lemma issued_iff: "issued s rid s2 \<longleftrightarrow> ids_step s s2 \<and> rid \<in> set (cs_allocated s2) \<and> rid \<notin> set (cs_allocated s)"
  by (auto simp: issued_def ids_step_def)

lemma ids_step_inv: "ids_inv s \<Longrightarrow> ids_step s s2 \<Longrightarrow> ids_inv s2"
  using ids_inv_more_ids unfolding ids_step_def by metis

lemma settles_ids_step: "ids_inv s \<Longrightarrow> ids_step s s2 \<Longrightarrow> settled out = [] \<Longrightarrow> settles s (s2, out)"
proof -
  assume inv: "ids_inv s" and st: "ids_step s s2" and out: "settled out = []"
  have "cs_pending s2 = cs_pending s" using st unfolding ids_step_def by (metis client.select_convs(8) client.update_convs(3,11) client.surjective)
  with ids_step_inv [OF inv st] st out show "settles s (s2, out)" by (auto simp: settles_def live_def ids_step_def)
qed

lemma dispatch_cases:
  assumes "dispatch idf fb ck iv s = (s', out, r)"
  obtains (rejected) e where "out = [RejectCall e]" "r = Inl e" "ids_step s s'"
  | (late) rid e op timeout s2 prepared where "dispatch_guard s iv = Inr timeout" "issued s rid s2"
      "prepareRequest fb s2 iv rid op timeout = Inr prepared"
      "finalRequest fb s2 ck timeout prepared = Inl e"
      "s' = settle rid (register prepared (i_codec iv) (k_started ck + of_int timeout) BeforeWrite s2)"
      "out = [RejectRequest rid e]" "r = Inl e"
  | (written) rid op timeout s2 prepared rq where "dispatch_guard s iv = Inr timeout" "issued s rid s2"
      "prepareRequest fb s2 iv rid op timeout = Inr prepared"
      "finalRequest fb s2 ck timeout prepared = Inr rq"
      "(s', out, r) = startWrite ck rq (i_codec iv) (k_started ck + of_int timeout)
         (register prepared (i_codec iv) (k_started ck + of_int timeout) BeforeWrite s2)"
proof (cases "dispatch_guard s iv")
  case (Inl e)
  with assms have "out = [RejectCall e]" "r = Inl e" "s' = s" by (auto simp: dispatch_def)
  then show ?thesis using rejected ids_step_refl by blast
next
  case guard: (Inr timeout)
  obtain s1 ro where op: "(if i_intent iv = Observe then (s, Inr None)
     else (case allocateId idf OperationId (i_operationId iv) s of
             (s', Inl e) \<Rightarrow> (s', Inl e) | (s', Inr op) \<Rightarrow> (s', Inr (Some op)))) = (s1, ro)"
    by fastforce
  then have st1: "ids_step s s1"
    by (auto split: if_splits prod.splits sum.splits intro: ids_step_allocate ids_step_refl)
  show ?thesis
  proof (cases ro)
    case (Inl e)
    with assms guard op have "out = [RejectCall e]" "r = Inl e" "s' = s1"
      unfolding dispatch_def by auto
    then show ?thesis using rejected st1 by blast
  next
    case (Inr oid)
    obtain s2 rr where al: "allocateId idf RequestId None s1 = (s2, rr)" by fastforce
    have st2: "ids_step s s2" by (rule ids_step_trans [OF st1 ids_step_allocate [OF al]])
    show ?thesis
    proof (cases rr)
      case (Inl e)
      with assms guard op Inr al have "out = [RejectCall e]" "r = Inl e" "s' = s2"
        unfolding dispatch_def by auto
      then show ?thesis using rejected st2 by blast
    next
      case rid: (Inr rid)
      have iss: "issued s rid s2" using st1 st2 allocateId_frame [OF al] rid
        by (auto simp: issued_iff ids_step_def)
      show ?thesis
      proof (cases "prepareRequest fb s2 iv rid oid timeout")
        case (Inl e)
        with assms guard op Inr al rid have "out = [RejectCall e]" "r = Inl e" "s' = s2"
          unfolding dispatch_def by auto
        then show ?thesis using rejected st2 by blast
      next
        case prep: (Inr prepared)
        have eq: "dispatch idf fb ck iv s =
            (let dl = k_started ck + of_int timeout; s3 = register prepared (i_codec iv) dl BeforeWrite s2 in
             (case finalRequest fb s2 ck timeout prepared of
                Inl e \<Rightarrow> (settle rid s3, [RejectRequest rid e], Inl e)
              | Inr rq \<Rightarrow> startWrite ck rq (i_codec iv) dl s3))"
          using guard op Inr al rid prep unfolding dispatch_def by simp
        show ?thesis
        proof (cases "finalRequest fb s2 ck timeout prepared")
          case (Inl e)
          with eq assms late [OF guard iss prep] show ?thesis by (simp add: Let_def)
        next
          case (Inr rq)
          with eq assms written [OF guard iss prep Inr] show ?thesis by (simp add: Let_def)
        qed
      qed
    qed
  qed
qed

section \<open>What a dispatch puts on the wire\<close>

lemma scope_of_embed: "scope_of (scope_value sc) = Inr sc' \<Longrightarrow> sc' = sc"
  by (cases sc) (auto simp: scope_of_def embed_simps required_def primitive_Inr)

lemma call_of_call_value:
  assumes "call_of (call_value c) = Inr c'"
  shows "c_name c' = c_name c" "c_intent c' = c_intent c" "c_scope c' = c_scope c"
    "c_operationId c' = c_operationId c"
proof -
  obtain r where r: "record_of (call_value c) (keys_of [''name'', ''intent'', ''scope'', ''payload'', ''operationId'']) = Inr r"
    and r_eq: "r = [(''name'', VStr (c_name c)), (''intent'', VStr (intent_name (c_intent c))),
      (''scope'', scope_value (c_scope c)), (''payload'', json_value (JObj (c_payload c)))]
      @ (case c_operationId c of None \<Rightarrow> [] | Some i \<Rightarrow> [(''operationId'', VStr i)])"
    by (cases "c_operationId c") (simp_all add: call_value_def record_of_obj keys_of_def)
  note d = assms [unfolded call_of_def r rbind_simps]
  have "rbind (required r ''name'') methodName = Inr (c_name c')" using d by auto
  then show "c_name c' = c_name c" by (simp add: r_eq required_def methodName_Inr)
  have "rbind (required r ''intent'') (choice operationIntents) = Inr (c_intent c')" using d by auto
  then show "c_intent c' = c_intent c" by (simp add: r_eq required_def vintent.decode_encode)
  have "rbind (required r ''scope'') scope_of = Inr (c_scope c')" using d by auto
  then show "c_scope c' = c_scope c" by (simp add: r_eq required_def scope_of_embed)
  have "optional r ''operationId'' identifier_of = Inr (c_operationId c')" using d by auto
  then show "c_operationId c' = c_operationId c"
    by (cases "c_operationId c") (auto simp: r_eq optional_simps identifier_of_Inr)
qed

lemma requestMessage_request_value:
  assumes "requestMessage (request_value q) = Inr q'"
  shows "rq_id q' = rq_id q" "rq_timeoutMs q' = rq_timeoutMs q"
    "call_of (call_value (rq_call q)) = Inr (rq_call q')"
  using assms
  by (auto simp: requestMessage_def deadline_of_def request_value_def header_fields_def embed_simps
      required_def identifier_of_Inr integer_Inr)

lemma checkRequest_fields:
  assumes "checkRequest rq = Inr q"
  shows "rq_id q = rq_id rq" "rq_timeoutMs q = rq_timeoutMs rq" "wf_request q"
    "c_name (rq_call q) = c_name (rq_call rq)" "c_intent (rq_call q) = c_intent (rq_call rq)"
    "c_scope (rq_call q) = c_scope (rq_call rq)" "c_operationId (rq_call q) = c_operationId (rq_call rq)"
proof -
  obtain m where m: "validateWireMessage (request_value rq) = Inr m"
    "(case m of MRequest q \<Rightarrow> Inr q | _ \<Rightarrow> Inl InvalidMessage) = Inr q"
    using assms by (auto simp: checkRequest_def)
  then have v: "validateWireMessage (request_value rq) = Inr (MRequest q)" by (cases m) auto
  then have d: "requestMessage (request_value rq) = Inr q"
    by (auto simp: validateWireMessage_def split: if_splits)
  note r = requestMessage_request_value [OF d] call_of_call_value [OF requestMessage_request_value(3) [OF d]]
  show "rq_id q = rq_id rq" "rq_timeoutMs q = rq_timeoutMs rq"
    "c_name (rq_call q) = c_name (rq_call rq)" "c_intent (rq_call q) = c_intent (rq_call rq)"
    "c_scope (rq_call q) = c_scope (rq_call rq)" "c_operationId (rq_call q) = c_operationId (rq_call rq)"
    using r by simp_all
  show "wf_request q" using vmessage.decode_wf [OF v] by simp
qed

lemma lift_protocol_Inr [simp]: "lift_protocol r = Inr a \<longleftrightarrow> r = Inr a"
  by (cases r) (simp_all add: lift_protocol_def)

lemma encodeBounded_Inr: "encodeBounded fb limit rq = Inr u \<longleftrightarrow>
    (\<exists>m. validateWireMessage (request_value rq) = Inr m) \<and> int (fb (MRequest rq)) \<le> maxWireMessageBytes
    \<and> int (fb (MRequest rq)) \<le> limit" if "wf_request rq"
  using that vmessage.decode_encode [of "MRequest rq"]
  by (auto simp: encodeBounded_def encodeBytes_def)

lemma prepareRequest_Inr:
  assumes "prepareRequest fb s iv rid op timeout = Inr q"
  shows "rq_id q = rid" "rq_timeoutMs q = timeout" "wf_request q" "c_scope (rq_call q) = i_scope iv"
    "c_intent (rq_call q) = i_intent iv" "c_name (rq_call q) = i_name iv" "c_operationId (rq_call q) = op"
    "\<forall>h. cs_host s = Some h \<longrightarrow> validateCallAgainstHost (rq_call q) h = Inr ()"
proof -
  from assms have c: "checkRequest \<lparr>rq_id = rid, rq_timeoutMs = timeout, rq_call =
         \<lparr>c_name = i_name iv, c_intent = i_intent iv, c_scope = i_scope iv,
          c_payload = i_payload iv, c_operationId = op\<rparr>\<rparr> = Inr q"
    and h: "(case cs_host s of None \<Rightarrow> Inr () | Some h \<Rightarrow> validateCallAgainstHost (rq_call q) h) = Inr ()"
    by (auto simp: prepareRequest_def)
  show "rq_id q = rid" "rq_timeoutMs q = timeout" "wf_request q" "c_scope (rq_call q) = i_scope iv"
    "c_intent (rq_call q) = i_intent iv" "c_name (rq_call q) = i_name iv" "c_operationId (rq_call q) = op"
    using checkRequest_fields [OF c] by simp_all
  show "\<forall>h. cs_host s = Some h \<longrightarrow> validateCallAgainstHost (rq_call q) h = Inr ()" using h by auto
qed

lemma finalRequest_Inr:
  assumes "finalRequest fb s ck timeout p = Inr q"
  shows "rq_id q = rq_id p" "wf_request q" "c_scope (rq_call q) = c_scope (rq_call p)"
    "c_intent (rq_call q) = c_intent (rq_call p)" "c_name (rq_call q) = c_name (rq_call p)"
    "c_operationId (rq_call q) = c_operationId (rq_call p)"
    "0 < rq_timeoutMs q" "elapsed_ms (k_writeStart ck) (k_started ck) + rq_timeoutMs q \<le> timeout"
    "int (fb (MRequest q)) \<le> max_frame s"
proof -
  obtain t where t: "0 < t" "checkRequest (p\<lparr>rq_timeoutMs := t\<rparr>) = Inr q"
    "encodeBounded fb (max_frame s) q = Inr ()" "elapsed_ms (k_writeStart ck) (k_started ck) + t \<le> timeout"
    by (rule that [of "timeout - elapsed_ms (k_beforeFinal ck) (k_started ck)
         - (elapsed_ms (k_encodeEnd ck) (k_encodeStart ck) + 1)"])
      (use assms in \<open>auto simp: finalRequest_def Let_def not_le not_less\<close>)
  note f = checkRequest_fields [OF t(2)]
  show "rq_id q = rq_id p" "wf_request q" "c_scope (rq_call q) = c_scope (rq_call p)"
    "c_intent (rq_call q) = c_intent (rq_call p)" "c_name (rq_call q) = c_name (rq_call p)"
    "c_operationId (rq_call q) = c_operationId (rq_call p)"
    "0 < rq_timeoutMs q" "elapsed_ms (k_writeStart ck) (k_started ck) + rq_timeoutMs q \<le> timeout"
    using f t by simp_all
  show "int (fb (MRequest q)) \<le> max_frame s" using t(3) encodeBounded_Inr [OF f(3)] by simp
qed

lemma register_frame [simp]:
  "cs_allocated (register q c d ph s) = cs_allocated s" "cs_dispatched (register q c d ph s) = cs_dispatched s"
  "cs_awaitingLate (register q c d ph s) = cs_awaitingLate s" "cs_state (register q c d ph s) = cs_state s"
  "cs_host (register q c d ph s) = cs_host s" "cs_sessions (register q c d ph s) = cs_sessions s"
  "cs_handles (register q c d ph s) = cs_handles s" "cs_connect (register q c d ph s) = cs_connect s"
  "cs_opening (register q c d ph s) = cs_opening s" "cs_epoch (register q c d ph s) = cs_epoch s"
  by (simp_all add: register_def)

lemma fresh_not_pending: "ids_inv s \<Longrightarrow> issued s rid s2 \<Longrightarrow> rid \<notin> dispatched_ids s \<and> rid \<notin> pending_ids s"
  using ids_invD(2,7) [of s] by (auto simp: issued_def)

lemma map_delete_set_fresh: "k \<notin> fst ` set m \<Longrightarrow> map_delete k (map_set k v m) = m"
  by (simp add: map_set_fresh map_delete_def) (auto simp: filter_id_conv)

lemma map_set_map_set: "map_set k v (map_set k w m) = map_set k v m"
  by (induction k w m rule: map_set.induct) auto

lemma settle_register:
  assumes "ids_inv s" "issued s rid s2" "rq_id q = rid"
  shows "settle rid (register q c d ph s2) = s2"
  using fresh_not_pending [OF assms(1,2)] map_delete_set_fresh [of rid "cs_pending s2"]
    issued_frame(1) [OF assms(2)] assms(3)
  by (simp add: settle_def register_def)

text \<open>The state between the registration for writing and the transport's answer.\<close>

definition written_state :: "wire_request \<Rightarrow> codec \<Rightarrow> rat \<Rightarrow> client \<Rightarrow> client" where
  "written_state rq cd dl s = s\<lparr>
     cs_pending := cs_pending s @ [(rq_id rq, \<lparr>p_request = rq, p_codec = cd, p_deadlineAt = dl, p_phase = Writing\<rparr>)],
     cs_dispatched := cs_dispatched s @ [(rq_id rq, requestTombstone rq)]\<rparr>"

lemma startWrite_state:
  assumes "ids_inv s" "issued s rid s2" "rq_id rq = rid" "rq_id q = rid"
  shows "startWrite ck rq cd dl (register q c d ph s2) =
    (case k_writeThrows ck of
       None \<Rightarrow> (written_state rq cd dl s2, [WriteFrame (MRequest rq)], Inr rid)
     | Some phase \<Rightarrow>
         (fst (writeFailed rid phase (written_state rq cd dl s2)),
          WriteFrame (MRequest rq) # snd (writeFailed rid phase (written_state rq cd dl s2)),
          Inl (ClientError WriteFailedCode (Some rid) (disconnectedOperationOutcome rq phase) (Some phase))))"
proof -
  have f: "rid \<notin> fst ` set (cs_pending s2)" "rid \<notin> fst ` set (cs_dispatched s2)"
    using fresh_not_pending [OF assms(1,2)] issued_frame [OF assms(2)] by auto
  have "register rq cd dl Writing (register q c d ph s2)\<lparr>cs_dispatched := map_set (rq_id rq) (requestTombstone rq)
      (cs_dispatched (register rq cd dl Writing (register q c d ph s2)))\<rparr> = written_state rq cd dl s2"
    using f assms(3,4) map_set_map_set [of rid _ _ "cs_pending s2"]
    by (simp add: register_def written_state_def map_set_fresh [OF f(2)])
      (simp add: map_set_fresh [OF f(1)])
  then show ?thesis using assms(3) unfolding startWrite_def Let_def
    by (simp split: option.split prod.split)
qed

lemma ids_inv_written_state:
  assumes inv: "ids_inv s" and iss: "issued s rid s2" and rq: "rq_id rq = rid"
  shows "ids_inv (written_state rq cd dl s2)"
proof -
  have inv2: "ids_inv s2" using iss ids_step_inv [OF inv] by (simp add: issued_iff)
  have f: "rid \<notin> fst ` set (cs_pending s2)" "rid \<notin> fst ` set (cs_dispatched s2)"
    using fresh_not_pending [OF inv iss] issued_frame [OF iss] by auto
  have r: "rid \<in> set (cs_allocated s2)" using iss by (simp add: issued_def)
  have t: "rq_id (requestTombstone rq) = rid" "c_payload (rq_call (requestTombstone rq)) = []"
    using rq by (simp_all add: requestTombstone_def)
  have late: "rid \<notin> set (cs_awaitingLate s2)" using ids_invD(5) [OF inv2] f(2) by blast
  have p: "fst ` set (cs_pending (written_state rq cd dl s2)) = insert rid (pending_ids s2)"
    and d: "fst ` set (cs_dispatched (written_state rq cd dl s2)) = insert rid (dispatched_ids s2)"
    and a: "cs_awaitingLate (written_state rq cd dl s2) = cs_awaitingLate s2"
      "cs_allocated (written_state rq cd dl s2) = cs_allocated s2"
    using rq by (simp_all add: written_state_def)
  show ?thesis unfolding ids_inv_def p d a
  proof (intro conjI)
    show "distinct (map fst (cs_pending (written_state rq cd dl s2)))"
      using ids_invD(4) [OF inv2] f(1) rq by (simp add: written_state_def)
    show "distinct (map fst (cs_dispatched (written_state rq cd dl s2)))"
      using ids_inv_entries(3) [OF inv2] f(2) rq by (simp add: written_state_def)
    show "\<forall>e \<in> set (cs_pending (written_state rq cd dl s2)). pending_ok e"
      using ids_inv_entries(1) [OF inv2] rq by (auto simp add: written_state_def pending_ok_def)
    show "\<forall>e \<in> set (cs_dispatched (written_state rq cd dl s2)). tombstone_ok e"
      using ids_inv_entries(2) [OF inv2] t rq by (auto simp add: written_state_def tombstone_ok_def)
    show "insert rid (pending_ids s2) \<subseteq> insert rid (dispatched_ids s2)"
      using ids_invD(1) [OF inv2] by (rule insert_mono)
    show "insert rid (dispatched_ids s2) \<subseteq> set (cs_allocated s2)"
      using ids_invD(2) [OF inv2] r by simp
    show "set (cs_awaitingLate s2) \<subseteq> insert rid (dispatched_ids s2)"
      using ids_invD(5) [OF inv2] by (rule subset_insertI2)
    show "distinct (cs_awaitingLate s2)" by (rule ids_invD(6) [OF inv2])
    show "set (cs_awaitingLate s2) \<inter> insert rid (pending_ids s2) = {}"
      using ids_invD(3) [OF inv2] late by simp
  qed
qed

lemma settles_written_state:
  assumes inv: "ids_inv s" and iss: "issued s rid s2" and rq: "rq_id rq = rid"
  shows "settles s (written_state rq cd dl s2, [WriteFrame (MRequest rq)])"
proof -
  have "\<not> live (written_state rq cd dl s2) i" if "\<not> live s i" for i
    using that iss rq issued_frame(1) [OF iss] by (auto simp: live_def written_state_def issued_def)
  then show ?thesis using ids_inv_written_state [OF assms] by (simp add: settles_def)
qed

lemma settles_dispatch:
  assumes inv: "ids_inv s" and d: "dispatch idf fb ck iv s = (s', out, r)"
  shows "settles s (s', out)"
proof (cases rule: dispatch_cases [OF d])
  case (1 e)
  then show ?thesis by (simp add: settles_ids_step inv)
next
  case (2 rid e op timeout s2 prepared)
  have s': "s' = s2" using settle_register [OF inv 2(2)] prepareRequest_Inr(1) [OF 2(3)] 2(5) by simp
  have "live s rid" "\<not> live s2 rid" "\<forall>i. \<not> live s i \<longrightarrow> \<not> live s2 i"
    using 2(2) fresh_not_pending [OF inv 2(2)] issued_frame(1) [OF 2(2)] by (auto simp: live_def issued_def)
  moreover have "ids_inv s2" using 2(2) ids_step_inv [OF inv] by (simp add: issued_iff)
  ultimately show ?thesis using 2(6) by (simp add: settles_def s')
next
  case (3 rid op timeout s2 prepared rq)
  have ids: "rq_id rq = rid" "rq_id prepared = rid"
    using prepareRequest_Inr(1) [OF 3(3)] finalRequest_Inr(1) [OF 3(4)] by simp_all
  note st = settles_written_state [OF inv 3(2) ids(1)]
  note eq = 3(5) [unfolded startWrite_state [OF inv 3(2) ids]]
  show ?thesis
  proof (cases "k_writeThrows ck")
    case None
    with eq st show ?thesis by simp
  next
    case (Some phase)
    have w: "settles (written_state rq (i_codec iv) (k_started ck + of_int timeout) s2)
        (writeFailed rid phase (written_state rq (i_codec iv) (k_started ck + of_int timeout) s2))"
      by (rule settles_writeFailed [OF ids_inv_written_state [OF inv 3(2) ids(1)]])
    from settles_trans [OF st] w Some eq show ?thesis by simp
  qed
qed

lemma settles_invoke: "ids_inv s \<Longrightarrow> settles s (invoke idf fb ck iv s)"
  by (cases "dispatch idf fb ck iv s") (auto simp: invoke_def intro: settles_dispatch settles_quiet)

lemma settles_launch: "ids_inv s \<Longrightarrow> settles s (launchSession idf fb ck pl tm op ab s)"
  by (auto simp: launchSession_def intro: settles_invoke settles_quiet split: option.splits)

lemma settles_connect: "ids_inv s \<Longrightarrow> settles s (connect tm now s)"
  by (auto simp: connect_def Let_def intro!: settles_quiet split: sum.splits)

lemma settles_connect_failed: "ids_inv s \<Longrightarrow> settles s (connect_failed e s)"
  by (auto simp: connect_failed_def Let_def split_beta settles_def)

lemma open_settled_frame [simp]:
  "ids_inv (open_settled e s) = ids_inv s" "live (open_settled e s) = live s"
  "cs_pending (open_settled e s) = cs_pending s" "cs_state (open_settled e s) = cs_state s"
  "cs_host (open_settled e s) = cs_host s" "cs_sessions (open_settled e s) = cs_sessions s"
  "cs_handles (open_settled e s) = cs_handles s"
  by (simp_all add: open_settled_def split: option.splits)

lemma settles_open_timeout: "ids_inv s \<Longrightarrow> settles s (open_timeout s)"
  by (auto simp: open_timeout_def settles_def split: option.splits)

lemma settles_resume: 
  assumes inv: "ids_inv s" shows "settles s (resume_connect idf fb now ck s)"
proof -
  have d: "settles s (let remaining = max 0 (tm - elapsed_ms now t0);
                (s1, o1, r) = dispatch idf fb ck (handshake_invocation remaining) s
            in (case r of
                  Inl e \<Rightarrow> (s1\<lparr>cs_connect := HandshakeDone ep (Inl e)\<rparr>, o1)
                | Inr i \<Rightarrow> (s1\<lparr>cs_connect := AwaitHandshake ep i\<rparr>, o1)))" for tm t0 ep
  proof -
    obtain s1 o1 r where e: "dispatch idf fb ck (handshake_invocation (max 0 (tm - elapsed_ms now t0))) s = (s1, o1, r)"
      by (cases "dispatch idf fb ck (handshake_invocation (max 0 (tm - elapsed_ms now t0))) s")
    from settles_dispatch [OF inv e] show ?thesis by (simp add: Let_def e settles_def split: sum.split)
  qed
  have q: "settles s (s\<lparr>cs_host := h, cs_state := a, cs_connect := c\<rparr>, [ResolveConnect x])" for h a c x
    by (rule settles_quiet) (simp_all add: inv)
  show ?thesis unfolding resume_connect_def
    by (intro allI impI conjI inv d q settles_refl settles_connect_failed |
        (split connect_phase.split option.split sum.split if_split decoded.split))+
qed

lemma settles_track: "ids_inv s \<Longrightarrow> settles s (trackSession v s)" "ids_inv s \<Longrightarrow> settles s (trackHandle v s)"
  by (auto simp: trackSession_def trackHandle_def intro!: settles_quiet split: sum.splits)

lemma settles_forget: "ids_inv s \<Longrightarrow> settles s (forgetSession i s, [])"
  by (rule settles_quiet) (simp_all add: forgetSession_def)

lemma settles_open_settled: "ids_inv s \<Longrightarrow> settles s (open_settled e s, [])"
  by (simp add: settles_def)

lemma settles_step: "ids_inv s \<Longrightarrow> settles s (client_step idf fb s e)"
  by (cases e) (simp_all add: settles_connect settles_open_settled settles_open_timeout settles_resume
      settles_invoke settles_launch settles_receive settles_cancelPending settles_write_done
      settles_writeFailed settles_on_disconnect settles_close settles_track settles_forget)

interpretation client_once: once_only "client_step idf fb" ids_inv live settled_id
proof
  fix s e assume "ids_inv s"
  from settles_step [OF this, of idf fb e]
  show "ids_inv (fst (client_step idf fb s e))"
    and "distinct (concat (map settled_id (snd (client_step idf fb s e))))"
    by (simp_all add: settles_def settled_def)
next
  fix s e i assume "ids_inv s" "i \<in> set (concat (map settled_id (snd (client_step idf fb s e))))"
  with settles_step [of s idf fb e, unfolded settles_def settled_def] show "live s i \<and> \<not> live (fst (client_step idf fb s e)) i"
    by blast
next
  fix s e i assume "ids_inv s" "\<not> live s i"
  with settles_step [of s idf fb e] show "\<not> live (fst (client_step idf fb s e)) i"
    by (simp add: settles_def)
qed


section \<open>Connection phases\<close>

text \<open>
  What holds in each phase: a host descriptor exactly while ready, an opening timer only while
  connecting, at most the handshake pending before the connection is ready, and nothing pending,
  no session and no handle once the connection is gone.
\<close>

definition handshake_only :: "string \<Rightarrow> client \<Rightarrow> bool" where
  "handshake_only i s = (\<forall>e \<in> set (cs_pending s). fst e = i \<and> p_codec (snd e) = HandshakeCodec)"

definition phase_ok :: "client \<Rightarrow> bool" where
  "phase_ok s = (case cs_state s of
     Idle \<Rightarrow> cs_connect s = NoConnect \<and> cs_opening s = None \<and> cs_pending s = [] \<and> cs_host s = None
   | Connecting \<Rightarrow> cs_host s = None \<and> (case cs_connect s of
        AwaitOpen _ _ _ \<Rightarrow> cs_pending s = []
      | OpenDone _ _ _ _ \<Rightarrow> cs_pending s = [] \<and> cs_opening s = None
      | AwaitHandshake _ i \<Rightarrow> handshake_only i s \<and> cs_opening s = None
      | HandshakeDone _ _ \<Rightarrow> cs_pending s = [] \<and> cs_opening s = None
      | _ \<Rightarrow> False)
   | Ready \<Rightarrow> cs_host s \<noteq> None \<and> cs_connect s = ConnectSettled \<and> cs_opening s = None
   | _ \<Rightarrow> cs_host s = None \<and> cs_pending s = [] \<and> cs_opening s = None)"

definition phase_inv :: "client \<Rightarrow> bool" where
  "phase_inv s = (phase_ok s \<and> (cs_host s = None \<longrightarrow> cs_sessions s = [] \<and> cs_handles s = []))"

lemma wake_connect_eq:
  "cs_connect (wake_connect i r s) = (case cs_connect s of
     AwaitHandshake ep hid \<Rightarrow> if hid = i then HandshakeDone ep r else AwaitHandshake ep hid | c \<Rightarrow> c)"
  by (auto simp: wake_connect_def split: connect_phase.splits)

lemma handshake_only_delete:
  "handshake_only i s \<Longrightarrow> map_delete i (cs_pending s) = []"
  by (auto simp: handshake_only_def map_delete_def filter_empty_conv)

lemma phase_wake:
  assumes "phase_inv s" and st: "cs_pending s' = map_delete i (cs_pending s)" "cs_state s' = cs_state s"
    "cs_host s' = cs_host s" "cs_opening s' = cs_opening s" "cs_connect s' = cs_connect s"
    "cs_host s' = None \<Longrightarrow> cs_sessions s' = cs_sessions s \<and> cs_handles s' = cs_handles s"
  shows "phase_inv (wake_connect i r s')"
proof -
  have "phase_ok (wake_connect i r s')"
    using assms(1) unfolding phase_inv_def phase_ok_def
    by (auto simp: st(1-5) wake_connect_eq handshake_only_delete map_delete_def handshake_only_def
        split: client_phase.splits connect_phase.splits)
  then show ?thesis using assms(1) st(6) by (simp add: phase_inv_def st(3))
qed

lemma phase_frame [simp]:
  "phase_inv (s\<lparr>cs_counter := c\<rparr>) = phase_inv s" "phase_inv (s\<lparr>cs_epoch := c\<rparr>) = phase_inv s"
  "phase_inv (s\<lparr>cs_allocated := al\<rparr>) = phase_inv s" "phase_inv (s\<lparr>cs_awaitingLate := j\<rparr>) = phase_inv s"
  "phase_inv (s\<lparr>cs_dispatched := k\<rparr>) = phase_inv s" "phase_inv (s\<lparr>cs_transportClose := f\<rparr>) = phase_inv s"
  by (simp_all add: phase_inv_def phase_ok_def handshake_only_def cong: client_phase.case_cong connect_phase.case_cong)

lemma phase_mark_late [simp]: "phase_inv (mark_late i p s) = phase_inv s"
  by (simp add: mark_late_def)

lemma mark_late_frame' [simp]:
  "cs_opening (mark_late i p s) = cs_opening s" 
  by (simp add: mark_late_def)

lemma settle_frame [simp]:
  "cs_state (settle i s) = cs_state s" "cs_host (settle i s) = cs_host s"
  "cs_opening (settle i s) = cs_opening s" "cs_connect (settle i s) = cs_connect s"
  "cs_sessions (settle i s) = cs_sessions s" "cs_handles (settle i s) = cs_handles s"
  "cs_pending (settle i s) = map_delete i (cs_pending s)" "cs_allocated (settle i s) = cs_allocated s"
  "cs_epoch (settle i s) = cs_epoch s"
  by (simp_all add: settle_def)

lemma phase_reject: "phase_inv s \<Longrightarrow> phase_inv (fst (reject_pending i e s))"
  by (auto simp: reject_pending_def intro: phase_wake)

lemma reject_frame [simp]:
  "cs_state (fst (reject_pending i e s)) = cs_state s" "cs_host (fst (reject_pending i e s)) = cs_host s"
  "cs_opening (fst (reject_pending i e s)) = cs_opening s" "cs_epoch (fst (reject_pending i e s)) = cs_epoch s"
  "cs_sessions (fst (reject_pending i e s)) = cs_sessions s"
  "cs_handles (fst (reject_pending i e s)) = cs_handles s"
  by (simp_all add: reject_pending_def)

lemma ids_step_frame:
  assumes "ids_step s s2"
  shows "cs_pending s2 = cs_pending s" "cs_host s2 = cs_host s" "cs_state s2 = cs_state s"
    "cs_sessions s2 = cs_sessions s" "cs_handles s2 = cs_handles s" "cs_opening s2 = cs_opening s"
    "cs_connect s2 = cs_connect s" "phase_inv s2 = phase_inv s"
proof -
  have eq: "s2 = s\<lparr>cs_counter := cs_counter s2, cs_allocated := cs_allocated s2\<rparr>"
    using assms by (simp add: ids_step_def)
  show "cs_pending s2 = cs_pending s" "cs_host s2 = cs_host s" "cs_state s2 = cs_state s"
    "cs_sessions s2 = cs_sessions s" "cs_handles s2 = cs_handles s" "cs_opening s2 = cs_opening s"
    "cs_connect s2 = cs_connect s" "phase_inv s2 = phase_inv s"
    by (subst eq, simp)+
qed

lemma ids_step_sendCancel: "ids_step s (fst (sendCancel idf fb i r s))"
  unfolding sendCancel_state by (cases "allocateId idf CancelId None s") (simp add: ids_step_allocate)

text \<open>Rejecting a request changes nothing of the connection but the waiting \<open>connect\<close>.\<close>

lemma cancelPending_state:
  "cancelPending idf fb i reason s = (s', out) \<Longrightarrow> s' = s \<or>
     (\<exists>p e. map_of (cs_pending s) i = Some p \<and> ids_step (fst (reject_pending i e (mark_late i p s))) s')"
proof (cases "map_of (cs_pending s) i")
  case (Some p)
  assume c: "cancelPending idf fb i reason s = (s', out)"
  obtain e where e: "e = ClientError (if reason = ByDeadline then DeadlineCode else CancelledCode) (Some i)
     (disconnectedOperationOutcome (p_request p) (p_phase p)) (Some (p_phase p))" by simp
  have "s' = (if p_phase p \<noteq> BeforeWrite
      then fst (sendCancel idf fb i reason (fst (reject_pending i e (mark_late i p s))))
      else fst (reject_pending i e (mark_late i p s)))"
    using c Some by (cases "p_phase p = BeforeWrite") (auto simp add: cancelPending_def Let_def split_beta e)
  then have "ids_step (fst (reject_pending i e (mark_late i p s))) s'"
    by (simp add: ids_step_sendCancel ids_step_refl)
  with Some show ?thesis by blast
qed (simp add: cancelPending_def)

lemma cancelPending_frame [simp]:
  "cs_state (fst (cancelPending idf fb i r s)) = cs_state s" 
  "cs_host (fst (cancelPending idf fb i r s)) = cs_host s"
  "cs_opening (fst (cancelPending idf fb i r s)) = cs_opening s"
  "cs_sessions (fst (cancelPending idf fb i r s)) = cs_sessions s"
  "cs_handles (fst (cancelPending idf fb i r s)) = cs_handles s"
  using cancelPending_state [OF surjective_pairing, of idf fb i r s] by (auto simp: ids_step_frame)

lemma phase_cancelPending: "phase_inv s \<Longrightarrow> phase_inv (fst (cancelPending idf fb i r s))"
  using cancelPending_state [OF surjective_pairing, of idf fb i r s]
  by (auto simp: ids_step_frame(8) phase_reject)

lemma phase_writeFailed: "phase_inv s \<Longrightarrow> phase_inv (fst (writeFailed i ph s))"
  by (auto simp: writeFailed_def Let_def phase_reject split: option.split)

lemma pending_cancelPending:
  "cs_pending (fst (cancelPending idf fb i r s)) = map_delete i (cs_pending s)"
proof (cases "map_of (cs_pending s) i")
  case None
  then have "map_delete i (cs_pending s) = cs_pending s"
    by (auto simp: map_delete_def filter_id_conv map_of_eq_None_iff)
  with None show ?thesis by (simp add: cancelPending_def)
next
  case (Some p)
  then show ?thesis
    by (simp add: cancelPending_def Let_def split_beta pending_reject ids_step_frame(1) [OF ids_step_sendCancel])
qed

lemma cancel_all_frame:
  "cs_state (fst (cancel_all idf fb is s)) = cs_state s \<and> cs_opening (fst (cancel_all idf fb is s)) = cs_opening s
   \<and> pending_ids (fst (cancel_all idf fb is s)) = pending_ids s - set is"
proof (induction "is" arbitrary: s)
  case (Cons i "is")
  then show ?case by (simp add: Let_def split_beta pending_cancelPending) blast
qed simp

lemma drop_frame:
  "cs_state (fst (drop_disconnected ps s)) = cs_state s \<and> cs_opening (fst (drop_disconnected ps s)) = cs_opening s
   \<and> cs_host (fst (drop_disconnected ps s)) = cs_host s \<and> cs_sessions (fst (drop_disconnected ps s)) = cs_sessions s
   \<and> cs_handles (fst (drop_disconnected ps s)) = cs_handles s
   \<and> pending_ids (fst (drop_disconnected ps s)) = pending_ids s - fst ` set ps"
proof (induction ps arbitrary: s)
  case (Cons e ps)
  then show ?case
    by (cases e) (simp add: Let_def split_beta pending_reject, blast)
qed simp

lemma drop_violated_frame:
  "cs_state (fst (drop_violated ps s)) = cs_state s \<and> cs_opening (fst (drop_violated ps s)) = cs_opening s
   \<and> cs_host (fst (drop_violated ps s)) = cs_host s \<and> cs_sessions (fst (drop_violated ps s)) = cs_sessions s
   \<and> cs_handles (fst (drop_violated ps s)) = cs_handles s
   \<and> pending_ids (fst (drop_violated ps s)) = pending_ids s - fst ` set ps"
proof (induction ps arbitrary: s)
  case (Cons e ps)
  then show ?case
    by (cases e) (simp add: Let_def split_beta pending_reject, blast)
qed simp

lemma image_fst_empty: "fst ` set ps = {} \<longleftrightarrow> ps = []"
  by auto

lemma phase_over: "cs_state s = Disconnected \<or> cs_state s = Closed \<Longrightarrow>
    phase_inv s \<longleftrightarrow> cs_host s = None \<and> cs_pending s = [] \<and> cs_opening s = None \<and> cs_sessions s = [] \<and> cs_handles s = []"
  by (auto simp: phase_inv_def phase_ok_def)

lemma on_disconnect_frame:
  "fst (on_disconnect s) = s \<and> (cs_state s = Closed \<or> cs_state s = Disconnected) \<or>
   cs_state s \<noteq> Closed \<and> cs_state (fst (on_disconnect s)) = Disconnected \<and> phase_inv (fst (on_disconnect s))"
  using drop_frame [of "cs_pending s" "forget_connection (rejectOpening (client_error_of DisconnectedCode)
     (s\<lparr>cs_state := Disconnected, cs_epoch := Suc (cs_epoch s)\<rparr>))"]
  by (auto simp: on_disconnect_def Let_def phase_over forget_connection_def image_fst_empty)

lemma protocolFailure_frame:
  "cs_state (fst (protocolFailure s)) = Disconnected \<and> phase_inv (fst (protocolFailure s))"
proof -
  let ?s2 = "forget_connection (rejectOpening (client_error_of ProtocolViolation)
     (s\<lparr>cs_state := Disconnected, cs_epoch := Suc (cs_epoch s)\<rparr>))"
  note f = drop_violated_frame [of "cs_pending ?s2" ?s2]
  have op: "cs_opening ?s2 = None" by (simp add: forget_connection_def)
  have st: "cs_state (fst (protocolFailure s)) = Disconnected" 
    using f by (simp add: protocolFailure_def Let_def split_beta)
  have "cs_opening (fst (beginTransportClose x)) = cs_opening x" for x by (simp add: beginTransportClose_def)
  with f op st show ?thesis
    by (simp add: phase_over) (simp add: protocolFailure_def Let_def split_beta image_fst_empty)
qed

lemma close_frame:
  "cs_state (fst (close idf fb s)) = Closed \<and> (cs_state s \<noteq> Closed \<longrightarrow> phase_inv (fst (close idf fb s)))"
proof (cases "cs_state s = Closed")
  case True
  then show ?thesis by (simp add: close_def)
next
  case False
  obtain s1 where s1: "s1 = s\<lparr>cs_epoch := Suc (cs_epoch s), cs_state := Closed\<rparr>" by simp
  note f = cancel_all_frame [of idf fb "map fst (cs_pending s)" "rejectOpening (stateError s1) s1"]
  have o: "cs_opening (fst (beginTransportClose x)) = cs_opening x" "cs_opening (forget_connection x) = cs_opening x" for x
    by (simp_all add: beginTransportClose_def forget_connection_def)
  have eq: "fst (close idf fb s) = fst (beginTransportClose (forget_connection
      (fst (cancel_all idf fb (map fst (cs_pending s)) (rejectOpening (stateError s1) s1)))))"
    using False by (simp add: close_def Let_def split_beta s1)
  have "cs_state (fst (close idf fb s)) = Closed" using f by (simp add: eq s1)
  with f show ?thesis by (simp add: phase_over) (simp add: eq o s1 image_fst_empty)
qed

lemma phase_accept:
  assumes "phase_inv s" "cs_host s = None \<Longrightarrow> p_codec p = HandshakeCodec"
  shows "phase_inv (fst (accept_response p rs s))"
proof -
  have "phase_inv (wake_connect i r (commitTracking st (settle i s)))"
    if "decode s (p_codec p) result = Inr (v, st)" for i r st result v
  proof (rule phase_wake [OF assms(1)])
    assume "cs_host (commitTracking st (settle i s)) = None"
    then have "p_codec p = HandshakeCodec" using assms(2) by simp
    with that have "st = ([], [])" by (auto simp: decode_def)
    then show "cs_sessions (commitTracking st (settle i s)) = cs_sessions s \<and>
        cs_handles (commitTracking st (settle i s)) = cs_handles s"
      by (simp add: commitTracking_def)
  qed simp_all
  then show ?thesis
    by (auto simp: accept_response_def Let_def phase_reject assms(1) split: sum.split)
qed

lemma phase_pending_codec:
  assumes "phase_inv s" "map_of (cs_pending s) i = Some p" "cs_host s = None"
  shows "p_codec p = HandshakeCodec"
  using assms map_of_SomeD [OF assms(2)]
  by (auto simp: phase_inv_def phase_ok_def handshake_only_def split: client_phase.splits connect_phase.splits)

lemma receive_cases:
  "(receive n m s = (s, []) \<or> receive n m s = protocolFailure s \<or>
     (\<exists>i. receive n m s = protocolFailure (s\<lparr>cs_awaitingLate := set_delete i (cs_awaitingLate s)\<rparr>)) \<or>
     (\<exists>i d rs. receive n m s = (s\<lparr>cs_awaitingLate := set_delete i (cs_awaitingLate s)\<rparr>, [ReportLate d rs])) \<or>
     (\<exists>p rs. map_of (cs_pending s) (rs_id rs) = Some p \<and> receive n m s = accept_response p rs s))"
  unfolding receive_def Let_def
  by (simp split: if_split sum.split wire_message.split option.split) blast

lemma receive_frame:
  assumes "phase_inv s"
  shows "phase_inv (fst (receive n m s))"
    and "cs_state (fst (receive n m s)) = cs_state s \<or> cs_state s \<noteq> Closed \<and> cs_state (fst (receive n m s)) = Disconnected"
proof -
  have acc: "cs_state (fst (accept_response p rs s)) = cs_state s" for p rs
    by (simp add: accept_response_def Let_def split: sum.split)
  show "phase_inv (fst (receive n m s))"
    using receive_cases [of n m s] assms protocolFailure_frame phase_accept [OF assms] phase_pending_codec [OF assms]
    by auto
  show "cs_state (fst (receive n m s)) = cs_state s \<or> cs_state s \<noteq> Closed \<and> cs_state (fst (receive n m s)) = Disconnected"
  proof (cases "cs_state s = Closed")
    case True
    then show ?thesis by (simp add: receive_def)
  next
    case False
    then show ?thesis using receive_cases [of n m s] protocolFailure_frame acc by auto
  qed
qed

lemma written_state_frame [simp]:
  "cs_state (written_state rq cd dl s) = cs_state s" "cs_host (written_state rq cd dl s) = cs_host s"
  "cs_opening (written_state rq cd dl s) = cs_opening s" "cs_connect (written_state rq cd dl s) = cs_connect s"
  "cs_sessions (written_state rq cd dl s) = cs_sessions s" "cs_handles (written_state rq cd dl s) = cs_handles s"
  by (simp_all add: written_state_def)

lemma writeFailed_frame:
  "cs_state (fst (writeFailed i ph s)) = cs_state s \<and> cs_host (fst (writeFailed i ph s)) = cs_host s
   \<and> cs_opening (fst (writeFailed i ph s)) = cs_opening s \<and> cs_sessions (fst (writeFailed i ph s)) = cs_sessions s
   \<and> cs_handles (fst (writeFailed i ph s)) = cs_handles s
   \<and> (cs_connect (fst (writeFailed i ph s)) = cs_connect s \<or> (\<exists>ep j. cs_connect s = AwaitHandshake ep j))"
  by (auto simp: writeFailed_def Let_def reject_pending_def wake_connect_eq split: option.split connect_phase.split)

text \<open>A dispatch leaves one more pending request when its promise is still open, and none otherwise.\<close>

definition dispatched_ok :: "client \<Rightarrow> codec \<Rightarrow> client \<Rightarrow> client_error + string \<Rightarrow> bool" where
  "dispatched_ok s cd s' r = (cs_state s' = cs_state s \<and> cs_host s' = cs_host s \<and> cs_opening s' = cs_opening s
     \<and> cs_sessions s' = cs_sessions s \<and> cs_handles s' = cs_handles s
     \<and> (cs_connect s' = cs_connect s \<or> (\<exists>ep j. cs_connect s = AwaitHandshake ep j))
     \<and> (case r of Inl _ \<Rightarrow> cs_pending s' = cs_pending s
        | Inr i \<Rightarrow> \<exists>p. cs_pending s' = cs_pending s @ [(i, p)] \<and> p_codec p = cd))"

lemma dispatch_frame:
  assumes inv: "ids_inv s" and d: "dispatch idf fb ck iv s = (s', out, r)"
  shows "dispatched_ok s (i_codec iv) s' r"
proof (cases rule: dispatch_cases [OF d])
  case (1 e)
  then show ?thesis by (simp add: ids_step_frame dispatched_ok_def)
next
  case (2 rid e op timeout s2 prepared)
  have "s' = s2" using settle_register [OF inv 2(2)] prepareRequest_Inr(1) [OF 2(3)] 2(5) by simp
  then show ?thesis using 2(7) issued_frame [OF 2(2)] by (simp add: dispatched_ok_def)
next
  case (3 rid op timeout s2 prepared rq)
  have ids: "rq_id rq = rid" "rq_id prepared = rid"
    using prepareRequest_Inr(1) [OF 3(3)] finalRequest_Inr(1) [OF 3(4)] by simp_all
  let ?w = "written_state rq (i_codec iv) (k_started ck + of_int timeout) s2"
  note eq = 3(5) [unfolded startWrite_state [OF inv 3(2) ids]]
  note fr = issued_frame [OF 3(2)]
  show ?thesis
  proof (cases "k_writeThrows ck")
    case None
    with eq fr ids(1) show ?thesis by (simp add: dispatched_ok_def) (simp add: written_state_def)
  next
    case (Some phase)
    have "rid \<notin> fst ` set (cs_pending s2)" using fresh_not_pending [OF inv 3(2)] fr(1) by simp
    then have "map_delete rid (cs_pending s2 @ [(rid, p)]) = cs_pending s2" for p
      using map_delete_set_fresh [of rid "cs_pending s2" p] by (simp add: map_set_fresh)
    moreover have "map_of (cs_pending ?w) rid = Some (\<lparr>p_request = rq, p_codec = i_codec iv,
        p_deadlineAt = k_started ck + of_int timeout, p_phase = Writing\<rparr>)"
      using \<open>rid \<notin> fst ` set (cs_pending s2)\<close> ids(1) by (auto simp: written_state_def map_of_append map_add_def
          split: option.splits dest: map_of_Some_in_keys)
    ultimately have "cs_pending (fst (writeFailed rid phase ?w)) = cs_pending s2"
      using ids(1) by (simp add: writeFailed_def Let_def pending_reject) (simp add: written_state_def)
    with eq Some fr writeFailed_frame [of rid phase ?w] show ?thesis by (simp add: dispatched_ok_def)
  qed
qed

lemma phase_dispatched:
  assumes "phase_inv s" "cs_state s = Ready" "dispatched_ok s cd s' r" shows "phase_inv s'"
  using assms by (auto simp: dispatched_ok_def phase_inv_def phase_ok_def)

lemma phase_invoke: "ids_inv s \<Longrightarrow> phase_inv s \<Longrightarrow> phase_inv (fst (invoke idf fb ck iv s)) \<and>
    cs_state (fst (invoke idf fb ck iv s)) = cs_state s"
  using phase_dispatched dispatch_frame [of s idf fb ck iv]
  by (cases "dispatch idf fb ck iv s") (auto simp: invoke_def dispatched_ok_def)

lemma phase_launch: "ids_inv s \<Longrightarrow> phase_inv s \<Longrightarrow> phase_inv (fst (launchSession idf fb ck pl tm op ab s)) \<and>
    cs_state (fst (launchSession idf fb ck pl tm op ab s)) = cs_state s"
  by (auto simp: launchSession_def phase_invoke split: option.split)

definition phase_rank :: "client \<Rightarrow> nat" where
  "phase_rank s = (case cs_state s of Idle \<Rightarrow> 0 | Connecting \<Rightarrow> 1 | Ready \<Rightarrow> 2 | Disconnected \<Rightarrow> 3 | Closed \<Rightarrow> 4)"

definition phase_step :: "client \<Rightarrow> client \<Rightarrow> bool" where
  "phase_step s s' = (phase_inv s' \<and> phase_rank s \<le> phase_rank s')"

lemma phase_same: "phase_inv s' \<Longrightarrow> cs_state s' = cs_state s \<Longrightarrow> phase_step s s'"
  by (simp add: phase_step_def phase_rank_def)

lemma phase_connect: "phase_inv s \<Longrightarrow> phase_step s (fst (connect tm now s))"
proof (cases "cs_state s = Idle")
  case False
  assume "phase_inv s"
  with False show ?thesis by (simp add: connect_def phase_same)
qed (auto simp: connect_def Let_def phase_step_def phase_rank_def phase_inv_def phase_ok_def split: sum.split)

lemma phase_connect_failed: 
  assumes "phase_inv s" "cs_state s = Connecting \<longrightarrow> (\<exists>ep t tm e. cs_connect s = OpenDone ep t tm e) \<or> (\<exists>ep r. cs_connect s = HandshakeDone ep r)"
    "cs_state s \<noteq> Idle" "cs_state s \<noteq> Ready"
  shows "phase_step s (fst (connect_failed e s))"
  using assms
  by (cases "cs_state s") (auto simp: connect_failed_def Let_def split_beta phase_step_def phase_rank_def
      phase_inv_def phase_ok_def beginTransportClose_def)

lemma phase_open_settled: "phase_inv s \<Longrightarrow> phase_step s (open_settled e s)"
  by (auto simp: open_settled_def phase_step_def phase_rank_def phase_inv_def phase_ok_def
      split: option.split client_phase.splits connect_phase.splits)

lemma phase_open_timeout: "phase_inv s \<Longrightarrow> phase_step s (fst (open_timeout s))"
  by (cases "cs_state s") (auto simp: open_timeout_def open_settled_def beginTransportClose_def phase_step_def phase_rank_def
      phase_inv_def phase_ok_def split: option.split connect_phase.splits)

lemma phase_resume:
  assumes inv: "ids_inv s" and ph: "phase_inv s"
  shows "phase_step s (fst (resume_connect idf fb now ck s))"
proof (cases "cs_connect s")
  case (OpenDone ep t0 tm err)
  then have st: "cs_state s \<noteq> Idle" "cs_state s \<noteq> Ready" using ph by (auto simp: phase_inv_def phase_ok_def)
  have failed: "phase_step s (fst (connect_failed e s))" for e
    by (rule phase_connect_failed [OF ph _ st]) (simp add: OpenDone)
  show ?thesis
  proof (cases "err = None \<and> cs_state s = Connecting \<and> cs_epoch s = ep")
    case False
    with failed OpenDone show ?thesis by (auto simp: resume_connect_def split: option.split)
  next
    case True
    obtain s1 o1 r where d: "dispatch idf fb ck (handshake_invocation (max 0 (tm - elapsed_ms now t0))) s = (s1, o1, r)"
      by (cases "dispatch idf fb ck (handshake_invocation (max 0 (tm - elapsed_ms now t0))) s")
    have "p = HandshakeCodec" if "p = i_codec (handshake_invocation x)" for p x
      using that by (simp add: handshake_invocation_def)
    with dispatch_frame [OF inv d] True OpenDone ph d show ?thesis
      by (auto simp: resume_connect_def dispatched_ok_def phase_step_def phase_rank_def phase_inv_def phase_ok_def
          handshake_only_def split: sum.split)
  qed
next
  case (HandshakeDone ep r)
  then have st: "cs_state s \<noteq> Idle" "cs_state s \<noteq> Ready" using ph by (auto simp: phase_inv_def phase_ok_def)
  have failed: "phase_step s (fst (connect_failed e s))" for e
    by (rule phase_connect_failed [OF ph _ st]) (simp add: HandshakeDone)
  have ready: "phase_step s (s\<lparr>cs_host := Some h, cs_state := Ready, cs_connect := ConnectSettled\<rparr>)"
    if "cs_state s = Connecting" for h
    using that ph HandshakeDone by (auto simp: phase_step_def phase_rank_def phase_inv_def phase_ok_def)
  show ?thesis using HandshakeDone failed ready phase_same [OF ph refl]
    by (auto simp: resume_connect_def split: sum.split decoded.split)
qed (simp_all add: resume_connect_def phase_same [OF ph])

lemma tracked_frame:
  "cs_state (fst (trackSession v s)) = cs_state s \<and> cs_state (fst (trackHandle v s)) = cs_state s
   \<and> cs_state (forgetSession i s) = cs_state s"
  by (simp add: trackSession_def trackHandle_def forgetSession_def split: sum.split)

lemma stage_host:
  "stageSession s v st = Inr r \<Longrightarrow> cs_host s \<noteq> None"
  by (auto simp: stageSession_def split: option.splits)

lemma stageHandle_session:
  "stageHandle s v st = Inr (h, st') \<Longrightarrow> \<exists>x. lookup_session s st (h_sessionId h) = Some x"
  by (auto simp: stageHandle_def split: option.splits)

lemma phase_commit: "phase_inv s \<Longrightarrow> cs_host s \<noteq> None \<Longrightarrow> phase_inv (commitTracking st s)"
  by (auto simp: phase_inv_def phase_ok_def split: client_phase.splits)

lemma phase_tracked:
  assumes "phase_inv s"
  shows "phase_inv (fst (trackSession v s))" and "phase_inv (fst (trackHandle v s))"
    and "phase_inv (forgetSession i s)"
proof -
  show "phase_inv (fst (trackSession v s))"
    using assms stage_host [of s v "([], [])"] by (auto simp: trackSession_def phase_commit simp del: not_None_eq split: sum.split)
  have "cs_host s \<noteq> None" if "stageHandle s v ([], []) = Inr r" for r
    using that stageHandle_session [of s v "([], [])" "fst r" "snd r"] assms
    by (auto simp: lookup_session_def phase_inv_def)
  then show "phase_inv (fst (trackHandle v s))"
    using assms by (auto simp: trackHandle_def phase_commit simp del: not_None_eq split: sum.split)
  show "phase_inv (forgetSession i s)" using assms
    by (simp add: phase_inv_def phase_ok_def forgetSession_def handshake_only_def map_delete_def
      cong: client_phase.case_cong connect_phase.case_cong)
qed

lemma phase_write_done:
  assumes ids: "ids_inv s" and ph: "phase_inv s"
  shows "phase_inv (fst (write_done fb i n s)) \<and> cs_state (fst (write_done fb i n s)) = cs_state s"
proof (cases "map_of (cs_pending s) i")
  case None
  then show ?thesis by (simp add: write_done_def ph)
next
  case (Some p)
  let ?ps = "map_set i (p\<lparr>p_phase := Written\<rparr>) (cs_pending s)"
  have sub: "set ?ps \<subseteq> insert (i, p\<lparr>p_phase := Written\<rparr>) (set (cs_pending s))"
    by (rule set_map_set_subset)
  have mem: "(i, p) \<in> set (cs_pending s)" by (rule map_of_SomeD [OF Some])
  have "handshake_only j (s\<lparr>cs_pending := ?ps\<rparr>)" if "handshake_only j s" for j
    using that sub mem by (fastforce simp: handshake_only_def)
  moreover have "cs_pending s \<noteq> []" using mem by auto
  ultimately have "phase_inv (s\<lparr>cs_pending := ?ps\<rparr>)" using ph
    by (auto simp: phase_inv_def phase_ok_def split: client_phase.splits connect_phase.splits)
  then show ?thesis using Some writeFailed_frame ph by (simp add: write_done_def phase_writeFailed)
qed

lemma phase_client_step:
  assumes ids: "ids_inv s" and ph: "phase_inv s"
  shows "phase_step s (fst (client_step idf fb s e))"
proof (cases e)
  case EDisconnect
  then show ?thesis using on_disconnect_frame [of s] ph
    by (auto simp: phase_step_def phase_rank_def split: client_phase.splits)
next
  case EClose
  then show ?thesis using close_frame [of idf fb s] ph
    by (cases "cs_state s = Closed") (auto simp: close_def phase_step_def phase_rank_def split: client_phase.splits)
next
  case (EReceive n m)
  then show ?thesis using receive_frame [OF ph, of n m]
    by (auto simp: phase_step_def phase_rank_def split: client_phase.splits)
next
  case (EWriteFailed i p)
  then show ?thesis using writeFailed_frame [of i _ s] by (simp add: phase_same phase_writeFailed ph)
next
  case (EWriteDone i n)
  then show ?thesis using phase_write_done [OF ids ph] by (simp add: phase_same)
next
  case (EInvoke iv ck)
  then show ?thesis using phase_invoke [OF ids ph] by (simp add: phase_same)
next
  case (ELaunch a b c d ck)
  then show ?thesis using phase_launch [OF ids ph] by (simp add: phase_same)
qed (use ph ids tracked_frame in \<open>simp_all add: phase_same phase_cancelPending phase_tracked phase_connect
   phase_open_settled phase_open_timeout phase_resume\<close>)

text \<open>The whole invariant, and the machine that keeps it.\<close>

definition client_inv :: "client \<Rightarrow> bool" where
  "client_inv s = (ids_inv s \<and> phase_inv s)"

lemma client_inv_new: "client_inv new_client"
  by (simp add: client_inv_def ids_inv_def phase_inv_def phase_ok_def new_client_def)

interpretation client_machine: step_machine "client_step idf fb" client_inv
  using settles_step phase_client_step by unfold_locales (auto simp: client_inv_def phase_step_def settles_def)


section \<open>No promise is lost, no outcome is overstated\<close>

text \<open>
  \<open>keeps s r\<close>: a request pending before the operation is still pending after it or is settled by it.
  \<open>honest\<close>: the client itself never claims that an operation was not executed once its request may
  have reached the host (a failed decode reports the host's own receipt).
\<close>

definition keeps :: "client \<Rightarrow> client \<times> client_out list \<Rightarrow> bool" where
  "keeps s r = (pending_ids s \<subseteq> pending_ids (fst r) \<union> set (settled (snd r)))"

fun honest :: "client_out \<Rightarrow> bool" where
  "honest (RejectRequest _ (ClientError c _ (Some NotExecuted) ph)) = (c = DecodeFailed \<or> ph = Some BeforeWrite)"
| "honest (RejectCall (ClientError c _ (Some NotExecuted) ph)) = (c = DecodeFailed \<or> ph = Some BeforeWrite)"
| "honest _ = True"

definition careful :: "client \<Rightarrow> client \<times> client_out list \<Rightarrow> bool" where
  "careful s r = (keeps s r \<and> list_all honest (snd r))"

lemma careful_trans: "careful s r1 \<Longrightarrow> careful (fst r1) r2 \<Longrightarrow> careful s (fst r2, snd r1 @ snd r2)"
  unfolding careful_def keeps_def by auto

lemma careful_cong: "careful s r \<Longrightarrow> pending_ids s0 = pending_ids s \<Longrightarrow> careful s0 r"
  by (simp add: careful_def keeps_def)

lemma careful_quiet: "cs_pending s' = cs_pending s \<Longrightarrow> list_all honest out \<Longrightarrow> careful s (s', out)"
  by (simp add: careful_def keeps_def)

lemma careful_end: "careful s r \<Longrightarrow> pending_ids s' = pending_ids (fst r) \<Longrightarrow> list_all honest o2
    \<Longrightarrow> careful s (s', snd r @ o2)"
  by (auto simp: careful_def keeps_def)

lemma outcome_not_executed: "disconnectedOperationOutcome rq ph = Some NotExecuted \<Longrightarrow> ph = BeforeWrite"
  by (auto simp: disconnectedOperationOutcome_def split: if_splits write_phase.splits)

lemma honest_reject:
  "honest (RejectRequest i (ClientError c x (disconnectedOperationOutcome rq ph) (Some ph)))"
proof (cases "disconnectedOperationOutcome rq ph")
  case (Some oc)
  then show ?thesis by (cases oc) (auto dest: outcome_not_executed)
qed simp

lemma careful_reject:
  "cs_pending s0 = cs_pending s \<Longrightarrow> honest (RejectRequest i e) \<Longrightarrow> careful s (reject_pending i e s0)"
  by (auto simp: careful_def keeps_def pending_ids_reject) (auto simp: reject_pending_def)

lemma sendCancel_honest: "list_all honest (snd (sendCancel idf fb i r s))"
  by (auto simp: sendCancel_def split: prod.split sum.split)

lemma careful_cancelPending: "careful s (cancelPending idf fb i reason s)"
proof (cases "map_of (cs_pending s) i")
  case None
  then show ?thesis by (simp add: cancelPending_def careful_quiet)
next
  case (Some p)
  obtain r1 where r1: "r1 = reject_pending i (ClientError
     (if reason = ByDeadline then DeadlineCode else CancelledCode) (Some i)
     (disconnectedOperationOutcome (p_request p) (p_phase p)) (Some (p_phase p))) (mark_late i p s)" by simp
  obtain r2 where r2: "r2 = (if p_phase p \<noteq> BeforeWrite then sendCancel idf fb i reason (fst r1) else (fst r1, []))"
    by simp
  have 1: "careful s r1" unfolding r1 by (rule careful_reject) (simp_all add: honest_reject)
  have "cs_pending (fst r2) = cs_pending (fst r1)" by (simp add: r2 ids_step_frame(1) [OF ids_step_sendCancel])
  moreover have "list_all honest (snd r2)" by (simp add: r2 sendCancel_honest)
  ultimately have 2: "careful (fst r1) r2" by (cases r2) (simp add: careful_quiet)
  have "cancelPending idf fb i reason s = (fst r2, snd r1 @ snd r2)"
    unfolding cancelPending_def Some option.case Let_def r2 r1 split_beta by (rule refl)
  with careful_trans [OF 1 2] show ?thesis by (simp only:)
qed

lemma careful_writeFailed: "careful s (writeFailed i ph s)"
  by (auto simp: writeFailed_def Let_def honest_reject intro!: careful_quiet careful_reject split: option.split)

lemma careful_drop: "careful s (drop_disconnected ps s)" "careful s (drop_violated ps s)"
proof (induction ps arbitrary: s)
  case (Cons e ps)
  obtain i p where e: "e = (i, p)" by (cases e)
  { case 1
    let ?r = "reject_pending i (ClientError DisconnectedCode (Some i)
            (disconnectedOperationOutcome (p_request p) (p_phase p)) (Some (p_phase p))) (mark_late i p s)"
    have "careful s ?r" by (rule careful_reject) (simp_all add: honest_reject)
    from careful_trans [OF this Cons.IH(1)] show ?case by (simp add: e Let_def split_beta) }
  { case 2
    let ?r = "reject_pending i (ClientError ProtocolViolation (Some i)
            (disconnectedOperationOutcome (p_request p) (p_phase p)) (Some (p_phase p))) s"
    have "careful s ?r" by (rule careful_reject) (simp_all add: honest_reject)
    from careful_trans [OF this Cons.IH(2)] show ?case by (simp add: e Let_def split_beta) }
qed (simp_all add: careful_quiet)

lemma careful_cancel_all: "careful s (cancel_all idf fb is s)"
proof (induction "is" arbitrary: s)
  case (Cons i "is")
  from careful_trans [OF careful_cancelPending Cons.IH] show ?case by (simp add: Let_def split_beta)
qed (simp add: careful_quiet)

lemma beginTransportClose_honest: "list_all honest (snd (beginTransportClose s))"
  by (simp add: beginTransportClose_def)

lemma careful_on_disconnect: "careful s (on_disconnect s)"
  unfolding on_disconnect_def Let_def
  by (auto intro!: careful_cong [OF careful_drop(1)] careful_quiet)

lemma careful_protocolFailure: "careful s (protocolFailure s)"
  unfolding protocolFailure_def Let_def split_beta
  by (auto intro!: careful_cong [OF careful_end [OF careful_drop(2)]] simp: beginTransportClose_honest)

lemma careful_close: "careful s (close idf fb s)"
proof (cases "cs_state s = Closed")
  case True
  then show ?thesis by (simp add: close_def careful_quiet)
next
  case False
  then show ?thesis unfolding close_def Let_def split_beta
    by (auto intro!: careful_cong [OF careful_end [OF careful_cancel_all]] simp: beginTransportClose_honest)
qed

lemma careful_accept: "careful s (accept_response p rs s)"
proof -
  have "careful s (wake_connect i r (commitTracking st (settle i s)), [ResolveRequest i v x])" for i r st v x
    by (auto simp: careful_def keeps_def)
  moreover have "honest (RejectRequest i (ClientError DecodeFailed y z w))" for i y z w
    by (cases z; cases "the z") auto
  ultimately show ?thesis
    by (auto simp: accept_response_def Let_def intro!: careful_reject split: sum.split)
qed

lemma careful_receive: "careful s (receive n m s)"
proof -
  have "careful s (protocolFailure (s\<lparr>cs_awaitingLate := l\<rparr>))" for l
    by (rule careful_cong [OF careful_protocolFailure]) simp
  then show ?thesis
    using receive_cases [of n m s] careful_protocolFailure [of s] careful_accept [of s] by (auto intro!: careful_quiet)
qed

lemma careful_write_done: "careful s (write_done fb i n s)"
  using careful_writeFailed map_of_Some_in_keys [of "cs_pending s" i]
  by (auto simp: write_done_def careful_def keeps_def keys_map_set split: option.split)

lemma guard_honest: "dispatch_guard s iv = Inl e \<Longrightarrow> honest (RejectCall e)"
  by (auto simp: dispatch_guard_def rbind_eq_Inl_iff lift_protocol_def stateError_def client_error_of_def
      validateScope_def stale_def split: sum.splits if_splits option.splits scope.splits)

lemma final_honest: "finalRequest fb s ck tm p = Inl e \<Longrightarrow> honest (RejectRequest i e)"
  by (auto simp: finalRequest_def Let_def preWriteDeadline_def lift_protocol_def rbind_eq_Inl_iff
      split: sum.splits if_splits)

lemma prepare_honest: "prepareRequest fb s iv rid op tm = Inl e \<Longrightarrow> honest (RejectCall e)"
  by (auto simp: prepareRequest_def lift_protocol_def split: sum.splits)

lemma allocate_honest: "allocateId idf k ex s = (s', Inl e) \<Longrightarrow> honest (RejectCall e)"
  by (auto simp: allocateId_def Let_def client_error_of_def split: if_splits option.splits)

lemma dispatch_reject_honest: "dispatch idf fb ck iv s = (s', [RejectCall e], r) \<Longrightarrow> honest (RejectCall e)"
  by (auto simp: dispatch_def Let_def startWrite_def split: sum.splits prod.splits if_splits option.splits
      dest: guard_honest allocate_honest prepare_honest)

lemma careful_dispatch:
  assumes inv: "ids_inv s" and d: "dispatch idf fb ck iv s = (s', out, r)"
  shows "careful s (s', out)"
proof (cases rule: dispatch_cases [OF d])
  case (1 e)
  then show ?thesis using dispatch_reject_honest d by (auto intro!: careful_quiet simp: ids_step_frame(1))
next
  case (2 rid e op timeout s2 prepared)
  have "s' = s2" using settle_register [OF inv 2(2)] prepareRequest_Inr(1) [OF 2(3)] 2(5) by simp
  then show ?thesis using 2(6) final_honest [OF 2(4)] issued_frame(1) [OF 2(2)] by (auto intro!: careful_quiet)
next
  case (3 rid op timeout s2 prepared rq)
  have ids: "rq_id rq = rid" "rq_id prepared = rid"
    using prepareRequest_Inr(1) [OF 3(3)] finalRequest_Inr(1) [OF 3(4)] by simp_all
  let ?w = "written_state rq (i_codec iv) (k_started ck + of_int timeout) s2"
  note eq = 3(5) [unfolded startWrite_state [OF inv 3(2) ids]]
  have w: "careful s (?w, [WriteFrame (MRequest rq)])"
    using issued_frame(1) [OF 3(2)] by (auto simp: careful_def keeps_def written_state_def)
  have f: "careful ?w (writeFailed rid ph ?w)" for ph by (rule careful_writeFailed)
  show ?thesis
  proof (cases "k_writeThrows ck")
    case None
    with eq w show ?thesis by simp
  next
    case (Some phase)
    from careful_trans [OF w] f eq Some show ?thesis by simp
  qed
qed

lemma state_error_honest: "honest (RejectCall (stateError s))"
  by (simp add: stateError_def client_error_of_def)

lemma careful_invoke: "ids_inv s \<Longrightarrow> careful s (invoke idf fb ck iv s)"
  by (cases "dispatch idf fb ck iv s"; cases "cs_state s = Ready")
    (simp_all add: invoke_def state_error_honest careful_dispatch careful_quiet)

lemma careful_resume:
  assumes inv: "ids_inv s" shows "careful s (resume_connect idf fb now ck s)"
proof -
  have cf: "careful s (connect_failed e s)" for e
    by (auto simp: connect_failed_def Let_def split_beta beginTransportClose_honest intro!: careful_quiet)
  have d: "careful s (let remaining = max 0 (tm - elapsed_ms now t0);
                (s1, o1, r) = dispatch idf fb ck (handshake_invocation remaining) s
            in (case r of
                  Inl e \<Rightarrow> (s1\<lparr>cs_connect := HandshakeDone ep (Inl e)\<rparr>, o1)
                | Inr i \<Rightarrow> (s1\<lparr>cs_connect := AwaitHandshake ep i\<rparr>, o1)))" for tm t0 ep
  proof -
    obtain s1 o1 r where e: "dispatch idf fb ck (handshake_invocation (max 0 (tm - elapsed_ms now t0))) s = (s1, o1, r)"
      by (cases "dispatch idf fb ck (handshake_invocation (max 0 (tm - elapsed_ms now t0))) s")
    from careful_dispatch [OF inv e] show ?thesis by (simp add: Let_def e careful_def keeps_def split: sum.split)
  qed
  have q: "careful s (s\<lparr>cs_host := h, cs_state := a, cs_connect := c\<rparr>, [ResolveConnect x])" for h a c x
    by (rule careful_quiet) simp_all
  have r: "careful s (s, [])" by (rule careful_quiet) simp_all
  show ?thesis unfolding resume_connect_def
    by (intro allI impI conjI d q r cf |
        (split connect_phase.split option.split sum.split if_split decoded.split))+
qed

lemma careful_step: "ids_inv s \<Longrightarrow> careful s (client_step idf fb s e)"
proof (cases e)
  case (EConnect a b)
  then show ?thesis by (auto simp: connect_def Let_def intro!: careful_quiet split: sum.split)
next
  case (EOpenSettled a)
  then show ?thesis by (auto intro!: careful_quiet)
next
  case EOpenTimeout
  then show ?thesis
    by (auto simp: open_timeout_def beginTransportClose_honest careful_def keeps_def split: option.split)
next
  case (ELaunch a b c d f)
  assume "ids_inv s"
  with ELaunch show ?thesis
    by (auto simp: launchSession_def careful_invoke state_error_honest intro!: careful_quiet split: option.split)
next
  case (ETrackSession a)
  then show ?thesis by (auto simp: trackSession_def intro!: careful_quiet split: sum.split)
next
  case (ETrackHandle a)
  then show ?thesis by (auto simp: trackHandle_def intro!: careful_quiet split: sum.split)
next
  case (EForget a)
  then show ?thesis by (auto simp: forgetSession_def intro!: careful_quiet)
qed (simp_all add: careful_resume careful_invoke careful_receive careful_cancelPending careful_write_done
      careful_writeFailed careful_on_disconnect careful_close)

lemma run_careful:
  assumes "client_inv s"
  shows "careful s (run_steps (client_step idf fb) s es)"
  using assms
proof (induction es arbitrary: s)
  case (Cons e es)
  let ?r = "client_step idf fb s e"
  have "careful s ?r" using careful_step Cons.prems by (simp add: client_inv_def)
  moreover have "client_inv (fst ?r)" by (rule client_machine.step_inv [OF Cons.prems])
  ultimately have "careful s (fst (run_steps (client_step idf fb) (fst ?r) es),
      snd ?r @ snd (run_steps (client_step idf fb) (fst ?r) es))"
    using careful_trans Cons.IH by blast
  then show ?case by (simp add: Let_def split_beta)
qed (simp add: careful_quiet)

section \<open>What is written was allowed\<close>

text \<open>The scope of a call names the connected host, and a session and a handle tracked on it.\<close>

definition scope_live :: "client \<Rightarrow> native_host \<Rightarrow> native_call \<Rightarrow> bool" where
  "scope_live s host c = (case c_scope c of
     Bootstrap \<Rightarrow> c_name c = ''host.handshake''
   | HostScope h \<Rightarrow> h = d_hostInstanceId host
   | SessionScope h i \<Rightarrow> h = d_hostInstanceId host \<and> i \<in> fst ` set (cs_sessions s)
   | HandleScope h i k \<Rightarrow> h = d_hostInstanceId host \<and> i \<in> fst ` set (cs_sessions s)
       \<and> (h, i, k) \<in> fst ` set (cs_handles s))"

lemma validateScope_live:
  "validateScope s (c_scope c) = Inr () \<Longrightarrow> cs_host s = Some host \<Longrightarrow> scope_live s host c"
  by (cases "c_scope c") (auto simp: validateScope_def scope_live_def stale_def map_has_def
      split: if_splits option.splits dest!: map_of_Some_in_keys)

lemma finalRequest_call:
  assumes "finalRequest fb s ck timeout p = Inr q" and wf: "wf_request p"
  shows "rq_call q = rq_call p"
proof -
  obtain t where t: "checkRequest (p\<lparr>rq_timeoutMs := t\<rparr>) = Inr q"
    using assms by (auto simp: finalRequest_def Let_def)
  from checkRequest_fields(2,3) [OF t] have "wf_request (p\<lparr>rq_timeoutMs := t\<rparr>)"
    using wf by (auto simp: wf_request_def)
  with vmessage.decode_encode [of "MRequest (p\<lparr>rq_timeoutMs := t\<rparr>)"]
  have "checkRequest (p\<lparr>rq_timeoutMs := t\<rparr>) = Inr (p\<lparr>rq_timeoutMs := t\<rparr>)" by (simp add: checkRequest_def)
  with t have "q = p\<lparr>rq_timeoutMs := t\<rparr>" by (simp only: sum.inject)
  then show ?thesis by simp
qed

lemma writeFailed_no_frame: "WriteFrame m \<notin> set (snd (writeFailed i ph s))"
  by (simp add: writeFailed_def Let_def reject_pending_def split: option.split)

lemma dispatch_written:
  assumes inv: "ids_inv s" and d: "dispatch idf fb ck iv s = (s', out, r)" and w: "WriteFrame m \<in> set out"
  obtains rid op timeout s2 prepared rq where "m = MRequest rq" "dispatch_guard s iv = Inr timeout"
    "issued s rid s2" "prepareRequest fb s2 iv rid op timeout = Inr prepared"
    "finalRequest fb s2 ck timeout prepared = Inr rq" "rq_id rq = rid"
proof (cases rule: dispatch_cases [OF d])
  case (3 rid op timeout s2 prepared rq)
  have ids: "rq_id rq = rid" "rq_id prepared = rid"
    using prepareRequest_Inr(1) [OF 3(3)] finalRequest_Inr(1) [OF 3(4)] by simp_all
  have "m = MRequest rq" using w 3(5) [unfolded startWrite_state [OF inv 3(2) ids]] writeFailed_no_frame
    by (auto split: option.splits)
  then show ?thesis using that 3 ids by blast
qed (use w in auto)

lemma guard_scope:
  "dispatch_guard s iv = Inr t \<Longrightarrow> i_name iv = ''host.handshake'' \<or> validateScope s (i_scope iv) = Inr ()"
  "dispatch_guard s iv = Inr t \<Longrightarrow> integer 0 maxDeadlineMs (VNum (i_timeoutMs iv)) = Inr t \<and> \<not> i_aborted iv"
  by (auto simp: dispatch_guard_def split: if_splits)

text \<open>Everything a public call knows of the request it wrote.\<close>

definition allowed_request :: "(wire_message \<Rightarrow> nat) \<Rightarrow> client \<Rightarrow> dispatch_clock \<Rightarrow> invocation \<Rightarrow> wire_request \<Rightarrow> bool" where
  "allowed_request fb s ck iv rq = (\<exists>host timeout. cs_host s = Some host \<and> \<not> i_aborted iv
     \<and> i_timeoutMs iv = Fin (of_int timeout)
     \<and> wf_request rq \<and> rq_id rq \<notin> set (cs_allocated s)
     \<and> c_name (rq_call rq) = i_name iv \<and> c_intent (rq_call rq) = i_intent iv \<and> c_scope (rq_call rq) = i_scope iv
     \<and> scope_live s host (rq_call rq) \<and> validateCallAgainstHost (rq_call rq) host = Inr ()
     \<and> 0 < rq_timeoutMs rq \<and> elapsed_ms (k_writeStart ck) (k_started ck) + rq_timeoutMs rq \<le> timeout
     \<and> int (fb (MRequest rq)) \<le> min maxWireMessageBytes (d_maxMessageBytes host))"

lemma invoke_written:
  assumes inv: "client_inv s" and w: "WriteFrame m \<in> set (snd (invoke idf fb ck iv s))"
  shows "\<exists>rq. m = MRequest rq \<and> allowed_request fb s ck iv rq"
proof -
  have ids: "ids_inv s" and ph: "phase_inv s" using inv by (simp_all add: client_inv_def)
  have ready: "cs_state s = Ready" using w by (auto simp: invoke_def split: if_splits)
  obtain host where host: "cs_host s = Some host" using ph ready by (auto simp: phase_inv_def phase_ok_def)
  obtain s' out r where d: "dispatch idf fb ck iv s = (s', out, r)" by (cases "dispatch idf fb ck iv s")
  have "WriteFrame m \<in> set out" using w ready d by (simp add: invoke_def)
  from dispatch_written [OF ids d this] obtain rid op timeout s2 prepared rq where
    m: "m = MRequest rq" and g: "dispatch_guard s iv = Inr timeout" and iss: "issued s rid s2"
    and prep: "prepareRequest fb s2 iv rid op timeout = Inr prepared"
    and fin: "finalRequest fb s2 ck timeout prepared = Inr rq" and rid: "rq_id rq = rid" .
  note p = prepareRequest_Inr [OF prep] and f = finalRequest_Inr [OF fin]
  have call: "rq_call rq = rq_call prepared" by (rule finalRequest_call [OF fin p(3)])
  have host2: "cs_host s2 = Some host" using issued_frame(2) [OF iss] host by simp
  have scope: "scope_live s host (rq_call rq)"
  proof (cases "i_name iv = ''host.handshake''")
    case True
    then have "c_scope (rq_call rq) = Bootstrap" using f(2) p(6) call
      by (auto simp: wf_request_def wf_call_def)
    then show ?thesis using True p(6) call by (simp add: scope_live_def)
  next
    case False
    then have "validateScope s (c_scope (rq_call rq)) = Inr ()" using guard_scope(1) [OF g] p(4) call by simp
    then show ?thesis using validateScope_live host by blast
  qed
  have timeout: "i_timeoutMs iv = Fin (of_int timeout)" using guard_scope(2) [OF g] by (simp add: integer_Inr)
  have size: "int (fb (MRequest rq)) \<le> min maxWireMessageBytes (d_maxMessageBytes host)"
    using f(9) host2 by (simp add: max_frame_def)
  have "allowed_request fb s ck iv rq" unfolding allowed_request_def
    by (rule exI [of _ host], rule exI [of _ timeout])
      (use host guard_scope(2) [OF g] timeout f p call iss rid scope size host2 in \<open>simp add: issued_def\<close>)
  with m show ?thesis by blast
qed

section \<open>Who vouches that an operation was not executed\<close>

text \<open>
  The requests a list of outputs hands to the transport, and what must hold of an error that says an operation
  was not executed: if the result could not be decoded, the host's own receipt for that request says so; otherwise
  either no frame of the request was handed to the transport, now or before, or the transport itself says in this
  very event that nothing of it was written.
\<close>

fun wrote :: "client_out list \<Rightarrow> string list" where
  "wrote [] = []"
| "wrote (WriteFrame (MRequest rq) # os) = rq_id rq # wrote os"
| "wrote (_ # os) = wrote os"

definition host_said :: "client_event \<Rightarrow> string \<Rightarrow> bool" where
  "host_said e i = (\<exists>n rs. e = EReceive n (Inr (MResponse rs)) \<and> rs_id rs = i
     \<and> map_option r_outcome (rs_operation rs) = Some NotExecuted)"

definition write_refused_by :: "client_event \<Rightarrow> write_phase option" where
  "write_refused_by e = (case e of EInvoke _ ck \<Rightarrow> k_writeThrows ck | ELaunch _ _ _ _ ck \<Rightarrow> k_writeThrows ck
     | EResume _ ck \<Rightarrow> k_writeThrows ck | _ \<Rightarrow> None)"

definition transport_said :: "client_event \<Rightarrow> client_out list \<Rightarrow> string \<Rightarrow> bool" where
  "transport_said e os i = (e = EWriteFailed i (Some BeforeWrite) \<or> e = EWriteDone i 0
     \<or> write_refused_by e = Some BeforeWrite \<and> i \<in> set (wrote os))"

fun vouched :: "string set \<Rightarrow> client_event \<Rightarrow> client_out list \<Rightarrow> client_out \<Rightarrow> bool" where
  "vouched W e os (RejectRequest i (ClientError c _ (Some NotExecuted) _)) =
     (if c = DecodeFailed then host_said e i else i \<notin> W \<union> set (wrote os) \<or> transport_said e os i)"
| "vouched W e os (RejectCall (ClientError _ _ (Some NotExecuted) _)) = (wrote os = [])"
| "vouched W e os _ = True"

text \<open>An output that makes no such claim.\<close>

fun claimless :: "client_out \<Rightarrow> bool" where
  "claimless (RejectRequest _ (ClientError _ _ (Some NotExecuted) _)) = False"
| "claimless (RejectCall (ClientError _ _ (Some NotExecuted) _)) = False"
| "claimless _ = True"

lemma claimless_vouched: "claimless x \<Longrightarrow> vouched W e os x"
  by (cases x rule: claimless.cases) simp_all

lemma wrote_append [simp]: "wrote (xs @ ys) = wrote xs @ wrote ys"
  by (induction xs rule: wrote.induct) simp_all

lemma wrote_in: "i \<in> set (wrote os) \<longleftrightarrow> (\<exists>rq. WriteFrame (MRequest rq) \<in> set os \<and> rq_id rq = i)"
  by (induction os rule: wrote.induct) auto

lemma reject_claimless:
  "ph \<noteq> BeforeWrite \<Longrightarrow> claimless (RejectRequest i (ClientError c x (disconnectedOperationOutcome rq ph) y))"
  by (cases "disconnectedOperationOutcome rq ph"; cases "the (disconnectedOperationOutcome rq ph)")
    (auto dest: outcome_not_executed)

abbreviation said_nothing :: "client_out list \<Rightarrow> bool" where
  "said_nothing os \<equiv> list_all claimless os \<and> wrote os = []"

lemma cancel_message: "validateWireMessage (cancel_value c) = Inr m \<Longrightarrow> \<exists>x. m = MCancel x"
  by (auto simp: validateWireMessage_def cancel_value_def header_fields_def embed_simps required_def split: if_splits)

lemma sendCancel_says: "said_nothing (snd (sendCancel idf fb i r s))"
  by (auto simp: sendCancel_def split: prod.split sum.split dest!: cancel_message)

lemma close_says: "said_nothing (snd (beginTransportClose s))"
  by (simp add: beginTransportClose_def)

lemma cancelPending_says:
  assumes "ids_inv s" shows "said_nothing (snd (cancelPending idf fb i r s))"
proof (cases "map_of (cs_pending s) i")
  case None
  then show ?thesis by (simp add: cancelPending_def)
next
  case (Some p)
  then have "p_phase p \<noteq> BeforeWrite" by (rule pending_lookup(2) [OF assms])
  then show ?thesis using Some sendCancel_says by (simp add: cancelPending_def Let_def split_beta reject_pending_def reject_claimless)
qed

lemma drop_says:
  "\<forall>x \<in> set ps. p_phase (snd x) \<noteq> BeforeWrite \<Longrightarrow> said_nothing (snd (drop_disconnected ps s))"
  "\<forall>x \<in> set ps. p_phase (snd x) \<noteq> BeforeWrite \<Longrightarrow> said_nothing (snd (drop_violated ps s))"
  by (induction ps arbitrary: s) (auto simp: Let_def split_beta reject_pending_def reject_claimless)

lemma pending_started: "ids_inv s \<Longrightarrow> \<forall>x \<in> set (cs_pending s). p_phase (snd x) \<noteq> BeforeWrite"
  using ids_inv_entries(1) by (fastforce simp: pending_ok_def)

lemma cancel_all_says: "ids_inv s \<Longrightarrow> said_nothing (snd (cancel_all idf fb is s))"
proof (induction "is" arbitrary: s)
  case (Cons i "is")
  then show ?case using cancelPending_says [OF Cons.prems] Cons.IH [OF settles_inv [OF settles_cancelPending [OF Cons.prems]]]
    by (simp add: Let_def split_beta)
qed simp

lemma on_disconnect_says: "ids_inv s \<Longrightarrow> said_nothing (snd (on_disconnect s))"
  using drop_says(1) [OF pending_started [of s]] by (simp add: on_disconnect_def Let_def)

lemma protocolFailure_says: "ids_inv s \<Longrightarrow> said_nothing (snd (protocolFailure s))"
  using drop_says(2) [OF pending_started [of s]] close_says by (simp add: protocolFailure_def Let_def split_beta)

lemma shutdown_says: "ids_inv s \<Longrightarrow> said_nothing (snd (close idf fb s))"
  using cancel_all_says close_says by (simp add: close_def Let_def split_beta)

lemma writeFailed_says:
  assumes "ph = BeforeWrite \<Longrightarrow> transport_said e os i"
  shows "list_all (vouched W e os) (snd (writeFailed i ph s)) \<and> wrote (snd (writeFailed i ph s)) = []"
proof -
  have "vouched W e os (RejectRequest i (ClientError WriteFailedCode x (disconnectedOperationOutcome rq ph) y))" for x rq y
    using assms by (cases "disconnectedOperationOutcome rq ph"; cases "the (disconnectedOperationOutcome rq ph)")
      (auto dest: outcome_not_executed)
  then show ?thesis by (simp add: writeFailed_def Let_def reject_pending_def split: option.split)
qed

lemma accept_says:
  assumes "ids_inv s" "map_of (cs_pending s) (rs_id rs) = Some p"
  shows "list_all (vouched W (EReceive n (Inr (MResponse rs))) os) (snd (accept_response p rs s)) \<and> wrote (snd (accept_response p rs s)) = []"
proof -
  have "rq_id (p_request p) = rs_id rs" by (rule pending_lookup(1) [OF assms])
  moreover have "vouched W (EReceive n (Inr (MResponse rs))) os (RejectRequest (rs_id rs) (ClientError DecodeFailed x
      (map_option r_outcome (rs_operation rs)) y))" for x y
    by (cases "rs_operation rs"; cases "r_outcome (the (rs_operation rs))") (auto simp: host_said_def)
  ultimately show ?thesis by (auto simp: accept_response_def Let_def reject_pending_def split: sum.split)
qed

lemma says_vouched: "said_nothing os \<Longrightarrow> list_all (vouched W e os') os"
  by (auto simp: list_all_iff claimless_vouched)

lemma receive_says:
  assumes inv: "ids_inv s"
  shows "list_all (vouched W (EReceive n m) os) (snd (receive n m s)) \<and> wrote (snd (receive n m s)) = []"
proof -
  have "said_nothing (snd (protocolFailure (s\<lparr>cs_awaitingLate := set_delete i (cs_awaitingLate s)\<rparr>)))" for i
    using protocolFailure_says [OF ids_inv_forget_late [OF inv]] by blast
  then have pf: "list_all (vouched W (EReceive n m) os) (snd (protocolFailure (s\<lparr>cs_awaitingLate := set_delete i (cs_awaitingLate s)\<rparr>)))
      \<and> wrote (snd (protocolFailure (s\<lparr>cs_awaitingLate := set_delete i (cs_awaitingLate s)\<rparr>))) = []" for i
    using says_vouched by blast
  have pf0: "list_all (vouched W (EReceive n m) os) (snd (protocolFailure s)) \<and> wrote (snd (protocolFailure s)) = []"
    using protocolFailure_says [OF inv] says_vouched by blast
  show ?thesis using accept_says [OF inv] pf pf0
    by (auto simp: receive_def Let_def split: sum.split wire_message.split option.split)
qed

lemma write_done_says:
  "list_all (vouched W (EWriteDone i n) os) (snd (write_done fb i n s)) \<and> wrote (snd (write_done fb i n s)) = []"
  using writeFailed_says [where ph = "if n = 0 then BeforeWrite else Writing" and e = "EWriteDone i n" and os = os and i = i and W = W and s = s]
  by (auto simp: write_done_def transport_said_def split: option.split)

lemma step_events [simp]:
  "write_refused_by (EInvoke iv ck) = k_writeThrows ck" "write_refused_by (ELaunch pl tm op ab ck) = k_writeThrows ck"
  "write_refused_by (EResume now ck) = k_writeThrows ck"
  by (simp_all add: write_refused_by_def)

lemma call_claimless: "honest (RejectCall e) \<Longrightarrow> vouched W ev [RejectCall e] (RejectCall e)"
  by (cases "(W, ev, [RejectCall e], RejectCall e)" rule: vouched.cases) simp_all

lemma final_decoded: "finalRequest fb s ck tm p = Inl (ClientError c x oc ph) \<Longrightarrow> c = DeadlineCode"
  by (auto simp: finalRequest_def Let_def preWriteDeadline_def lift_protocol_def rbind_eq_Inl_iff split: sum.splits if_splits)

lemma dispatch_says:
  assumes inv: "ids_inv s" and W: "W \<subseteq> set (cs_allocated s)" and d: "dispatch idf fb ck iv s = (s', out, r)"
    and e: "write_refused_by e = k_writeThrows ck"
  shows "list_all (vouched W e out) out \<and> set (wrote out) \<subseteq> set (cs_allocated s')"
proof (cases rule: dispatch_cases [OF d])
  case (1 x)
  then show ?thesis using call_claimless [OF dispatch_reject_honest] d by auto
next
  case (2 rid x op timeout s2 prepared)
  have "rid \<notin> W" using 2(2) W by (auto simp: issued_def)
  moreover have "c = DeadlineCode" if "x = ClientError c y oc ph" for c y oc ph using final_decoded 2(4) that by blast
  ultimately show ?thesis using 2(6)
    by (cases "(W, e, out, RejectRequest rid x)" rule: vouched.cases) (auto dest!: final_decoded)
next
  case (3 rid op timeout s2 prepared rq)
  have ids: "rq_id rq = rid" "rq_id prepared = rid"
    using prepareRequest_Inr(1) [OF 3(3)] finalRequest_Inr(1) [OF 3(4)] by simp_all
  let ?w = "written_state rq (i_codec iv) (k_started ck + of_int timeout) s2"
  note eq = 3(5) [unfolded startWrite_state [OF inv 3(2) ids]]
  have al: "rid \<in> set (cs_allocated s2)" using 3(2) by (simp add: issued_def)
  show ?thesis
  proof (cases "k_writeThrows ck")
    case None
    with eq al ids show ?thesis by (simp add: written_state_def)
  next
    case (Some phase)
    have w: "rid \<in> set (wrote out)" using eq Some ids by simp
    then have "transport_said e out rid" if "phase = BeforeWrite" using that Some e by (simp add: transport_said_def)
    from writeFailed_says [OF this, where W = W and s = ?w] show ?thesis using eq Some al ids
      by (simp add: writeFailed_def Let_def reject_pending_def split: option.split) (simp add: written_state_def settle_def)
  qed
qed

lemma invoke_says:
  assumes "ids_inv s" "W \<subseteq> set (cs_allocated s)" "write_refused_by e = k_writeThrows ck"
  shows "list_all (vouched W e (snd (invoke idf fb ck iv s))) (snd (invoke idf fb ck iv s))
    \<and> set (wrote (snd (invoke idf fb ck iv s))) \<subseteq> set (cs_allocated (fst (invoke idf fb ck iv s)))"
proof (cases "cs_state s = Ready")
  case True
  obtain s' out r where d: "dispatch idf fb ck iv s = (s', out, r)" by (cases "dispatch idf fb ck iv s")
  from dispatch_says [OF assms(1,2) this assms(3)] show ?thesis by (simp add: invoke_def True d)
qed (simp add: invoke_def stateError_def client_error_of_def)

lemma resume_says:
  assumes inv: "ids_inv s" and W: "W \<subseteq> set (cs_allocated s)"
  shows "list_all (vouched W (EResume now ck) (snd (resume_connect idf fb now ck s))) (snd (resume_connect idf fb now ck s))
    \<and> set (wrote (snd (resume_connect idf fb now ck s))) \<subseteq> set (cs_allocated (fst (resume_connect idf fb now ck s)))"
proof -
  have cf: "list_all (vouched W e os) (snd (connect_failed err s)) \<and> wrote (snd (connect_failed err s)) = []" for e os err
    using says_vouched [OF close_says] close_says by (simp add: connect_failed_def Let_def split_beta)
  show ?thesis
  proof (cases "\<exists>ep t0 tm. cs_connect s = OpenDone ep t0 tm None \<and> cs_state s = Connecting \<and> cs_epoch s = ep")
    case True
    then obtain ep t0 tm where c: "cs_connect s = OpenDone ep t0 tm None" "cs_state s = Connecting" "cs_epoch s = ep" by blast
    obtain s1 o1 r where d: "dispatch idf fb ck (handshake_invocation (max 0 (tm - elapsed_ms now t0))) s = (s1, o1, r)"
      by (cases "dispatch idf fb ck (handshake_invocation (max 0 (tm - elapsed_ms now t0))) s")
    from dispatch_says [OF inv W d, of "EResume now ck"] show ?thesis by (simp add: resume_connect_def c Let_def d split: sum.split)
  next
    case False
    then show ?thesis using cf
      by (auto simp: resume_connect_def split: connect_phase.split option.split sum.split decoded.split)
  qed
qed

lemma step_says:
  assumes inv: "ids_inv s" and W: "W \<subseteq> set (cs_allocated s)"
  shows "list_all (vouched W e (snd (client_step idf fb s e))) (snd (client_step idf fb s e))
    \<and> set (wrote (snd (client_step idf fb s e))) \<subseteq> set (cs_allocated (fst (client_step idf fb s e)))"
proof -
  have quiet: "list_all (vouched W e os) os \<and> set (wrote os) \<subseteq> A" if "said_nothing os" for os A
    using that says_vouched by auto
  show ?thesis
  proof (cases e)
    case (EConnect a b)
    then show ?thesis by (simp add: connect_def Let_def split: sum.split)
  next
    case EOpenTimeout
    then show ?thesis using quiet [OF close_says] by (simp add: open_timeout_def split: option.split)
  next
    case (EInvoke a k)
    then show ?thesis using invoke_says [OF inv W, of "EInvoke a k" k idf fb a] by simp
  next
    case (ELaunch a b c d k)
    then show ?thesis using invoke_says [OF inv W, of "ELaunch a b c d k"]
      by (auto simp: launchSession_def stateError_def client_error_of_def split: option.split)
  next
    case (EReceive n m)
    then show ?thesis using receive_says [OF inv] by auto
  next
    case (EWriteDone i n)
    then show ?thesis using write_done_says by auto
  next
    case (EWriteFailed i ph)
    then show ?thesis using writeFailed_says [where ph = "case ph of None \<Rightarrow> Writing | Some p \<Rightarrow> p" and e = e and i = i and W = W and s = s]
      by (auto simp: transport_said_def split: option.splits)
  next
    case (ETrackSession a)
    then show ?thesis by (simp add: trackSession_def split: sum.split prod.split)
  next
    case (ETrackHandle a)
    then show ?thesis by (simp add: trackHandle_def split: sum.split prod.split)
  qed (use quiet [OF cancelPending_says [OF inv]] quiet [OF on_disconnect_says [OF inv]] quiet [OF shutdown_says [OF inv]] resume_says [OF inv W] in simp_all)
qed

text \<open>Identifiers are never given out twice: one that was allocated stays allocated.\<close>

lemma step_allocated: "ids_inv s \<Longrightarrow> set (cs_allocated s) \<subseteq> set (cs_allocated (fst (client_step idf fb s e)))"
proof
  fix i assume inv: "ids_inv s" and i: "i \<in> set (cs_allocated s)"
  let ?r = "client_step idf fb s e"
  note st = settles_step [OF inv, of idf fb e]
  note c = careful_step [OF inv, of idf fb e]
  have "pending_ids (fst ?r) \<subseteq> set (cs_allocated (fst ?r))" using ids_invD(7) settles_inv [OF st] by blast
  moreover have "i \<in> pending_ids (fst ?r) \<or> \<not> live (fst ?r) i"
  proof (cases "i \<in> pending_ids s")
    case True
    then show ?thesis using c st by (auto simp: careful_def keeps_def settles_def)
  next
    case False
    then show ?thesis using i st by (simp add: live_def settles_def)
  qed
  ultimately show "i \<in> set (cs_allocated (fst ?r))" by (auto simp: live_def)
qed

lemma run_wrote: "client_inv s \<Longrightarrow> set (wrote (snd (run_steps (client_step idf fb) s es))) \<union> set (cs_allocated s)
    \<subseteq> set (cs_allocated (fst (run_steps (client_step idf fb) s es)))"
proof (induction es arbitrary: s)
  case (Cons e es)
  have inv: "ids_inv s" using Cons.prems by (simp add: client_inv_def)
  from Cons.IH [OF client_machine.step_inv [OF Cons.prems, of idf fb e]] step_allocated [OF inv, of idf fb e]
    step_says [OF inv, of "{}" e idf fb]
  show ?case by (auto simp: Let_def split_beta)
qed simp

end
