(* ===== verification/NodeStreams.thy ===== *)
theory NodeStreams
  imports NativeSchema JsMap "HOL-Library.Word"
begin

text \<open>
  The byte side of the child-process transport (\<open>packages/native/src/node-transport/\<close>):
  \<open>StdoutFramer\<close> of \<open>framer.ts\<close> cuts the child's output into frames, \<open>ProcessWriter\<close> of
  \<open>write-admission.ts\<close> admits writes against a budget of outstanding bytes. A frame is kept as
  its bytes: \<open>TextDecoder\<close> in fatal mode with \<open>ignoreBOM\<close> succeeds exactly on well-formed UTF-8
  and loses nothing.
\<close>

type_synonym byte = "8 word"

datatype transport_code = InvalidOptions | NotOpen | Backpressure | SpawnFailed | ProcessExited
  | StdoutClosed | InvalidUtf8 | FrameTooLarge | StreamError | StartupTimeout | WriteTimeout
  | CloseUnconfirmed

section \<open>UTF-8\<close>

definition byte_in :: "nat \<Rightarrow> nat \<Rightarrow> byte \<Rightarrow> bool" where
  "byte_in lo hi b = (lo \<le> unat b \<and> unat b \<le> hi)"

text \<open>The well-formed byte sequences of the Unicode standard (table 3-7).\<close>

fun utf8_valid :: "byte list \<Rightarrow> bool" where
  "utf8_valid [] = True"
| "utf8_valid (a # bs) =
     (if unat a < 128 then utf8_valid bs
      else if byte_in 194 223 a then (case bs of b # r \<Rightarrow> byte_in 128 191 b \<and> utf8_valid r | _ \<Rightarrow> False)
      else if byte_in 224 239 a then (case bs of b # c # r \<Rightarrow>
          byte_in (if unat a = 224 then 160 else 128) (if unat a = 237 then 159 else 191) b
          \<and> byte_in 128 191 c \<and> utf8_valid r | _ \<Rightarrow> False)
      else if byte_in 240 244 a then (case bs of b # c # d # r \<Rightarrow>
          byte_in (if unat a = 240 then 144 else 128) (if unat a = 244 then 143 else 191) b
          \<and> byte_in 128 191 c \<and> byte_in 128 191 d \<and> utf8_valid r | _ \<Rightarrow> False)
      else False)"

section \<open>The framer\<close>

record framer =
  fr_pending :: "byte list"
  fr_ended :: bool

definition new_framer :: framer where
  "new_framer = \<lparr>fr_pending = [], fr_ended = False\<rparr>"

abbreviation newline :: byte where "newline \<equiv> 10"

text \<open>
  A call returns the framer, the frames it emitted before it returned or threw, and what it threw.
\<close>

type_synonym framed = "framer \<times> byte list list \<times> transport_code option"

definition emitPending :: "framer \<Rightarrow> framed" where
  "emitPending f = (let bytes = fr_pending f; f1 = f\<lparr>fr_pending := []\<rparr> in
     if utf8_valid bytes then (f1, [bytes], None) else (f1, [], Some InvalidUtf8))"

text \<open>One turn of the loop takes the bytes up to and including the next line feed.\<close>

function push_loop :: "nat \<Rightarrow> byte list \<Rightarrow> framer \<Rightarrow> framed" where
  "push_loop maximum chunk f = (case chunk of [] \<Rightarrow> (f, [], None) | _ \<Rightarrow>
     (let before = takeWhile (\<lambda>b. b \<noteq> newline) chunk;
          found = newline \<in> set chunk;
          part = (if found then before @ [newline] else before);
          nextBytes = length (fr_pending f) + length part;
          f1 = f\<lparr>fr_pending := fr_pending f @ part\<rparr> in
      if (if \<not> found then nextBytes \<ge> maximum else nextBytes > maximum) then (f, [], Some FrameTooLarge)
      else if \<not> found then (f1, [], None)
      else (case emitPending f1 of
          (f2, out, Some e) \<Rightarrow> (f2, out, Some e)
        | (f2, out, None) \<Rightarrow>
            let (f3, out', e) = push_loop maximum (drop (length part) chunk) f2 in (f3, out @ out', e))))"
  by pat_completeness auto
termination
  by (relation "measure (\<lambda>(_, chunk, _). length chunk)") auto

declare push_loop.simps [simp del]

definition push :: "nat \<Rightarrow> byte list \<Rightarrow> framer \<Rightarrow> framed" where
  "push maximum chunk f = (if fr_ended f then (f, [], None) else push_loop maximum chunk f)"

definition end_framer :: "nat \<Rightarrow> framer \<Rightarrow> framed" where
  "end_framer maximum f = (if fr_ended f then (f, [], None) else
     let f1 = f\<lparr>fr_ended := True\<rparr> in
     if fr_pending f1 = [] then (f1, [], None)
     else if length (fr_pending f1) + 1 > maximum then (f1, [], Some FrameTooLarge)
     else emitPending f1)"

definition abort_framer :: "framer \<Rightarrow> framer" where
  "abort_framer f = \<lparr>fr_pending = [], fr_ended = True\<rparr>"

section \<open>The framer byte by byte\<close>

text \<open>
  The specification: bytes arrive one at a time. A byte that is not a line feed is refused when the
  frame could no longer end within the bound; a line feed ends the frame.
\<close>

definition feed_byte :: "nat \<Rightarrow> byte \<Rightarrow> framer \<Rightarrow> framed" where
  "feed_byte maximum b f =
     (if b \<noteq> newline then
        (if length (fr_pending f) + 1 \<ge> maximum then (f, [], Some FrameTooLarge)
         else (f\<lparr>fr_pending := fr_pending f @ [b]\<rparr>, [], None))
      else if length (fr_pending f) + 1 > maximum then (f, [], Some FrameTooLarge)
      else emitPending (f\<lparr>fr_pending := fr_pending f @ [b]\<rparr>))"

fun feed :: "nat \<Rightarrow> byte list \<Rightarrow> framer \<Rightarrow> framed" where
  "feed maximum [] f = (f, [], None)"
| "feed maximum (b # bs) f = (case feed_byte maximum b f of
     (f1, out, Some e) \<Rightarrow> (f1, out, Some e)
   | (f1, out, None) \<Rightarrow> let (f2, out', e) = feed maximum bs f1 in (f2, out @ out', e))"

text \<open>What a caller observes: the frames and the error, and the state while there is no error.\<close>

definition observed :: "framed \<Rightarrow> byte list list \<times> transport_code option \<times> framer option" where
  "observed r = (case r of (f, out, e) \<Rightarrow> (out, e, if e = None then Some f else None))"

lemma feed_append:
  "feed maximum (as @ bs) f = (case feed maximum as f of
     (f1, out, Some e) \<Rightarrow> (f1, out, Some e)
   | (f1, out, None) \<Rightarrow> let (f2, out', e) = feed maximum bs f1 in (f2, out @ out', e))"
  by (induction as arbitrary: f) (auto simp: Let_def split: prod.split option.split)

lemma feed_plain:
  "newline \<notin> set bs \<Longrightarrow> length (fr_pending f) < maximum \<Longrightarrow>
   observed (feed maximum bs f) =
     (if length (fr_pending f) + length bs \<ge> maximum then ([], Some FrameTooLarge, None)
      else ([], None, Some (f\<lparr>fr_pending := fr_pending f @ bs\<rparr>)))"
proof (induction bs arbitrary: f)
  case Nil
  then show ?case by (simp add: observed_def)
next
  case (Cons b bs)
  show ?case
  proof (cases "length (fr_pending f) + 1 \<ge> maximum")
    case True
    then show ?thesis using Cons.prems by (simp add: feed_byte_def observed_def)
  next
    case False
    have "observed (feed maximum (b # bs) f) = observed (feed maximum bs (f\<lparr>fr_pending := fr_pending f @ [b]\<rparr>))"
      using False Cons.prems by (simp add: feed_byte_def observed_def split_beta)
    then show ?thesis using Cons.IH [of "f\<lparr>fr_pending := fr_pending f @ [b]\<rparr>"] False Cons.prems by simp
  qed
qed

lemma emitPending_pending: "emitPending f = (f1, out, e) \<Longrightarrow> fr_pending f1 = []"
  by (auto simp: emitPending_def Let_def split: if_splits)

lemma push_loop_eq:
  "push_loop maximum chunk f = (if chunk = [] then (f, [], None) else
     (let before = takeWhile (\<lambda>b. b \<noteq> newline) chunk;
          found = newline \<in> set chunk;
          part = (if found then before @ [newline] else before);
          nextBytes = length (fr_pending f) + length part;
          f1 = f\<lparr>fr_pending := fr_pending f @ part\<rparr> in
      if (if \<not> found then nextBytes \<ge> maximum else nextBytes > maximum) then (f, [], Some FrameTooLarge)
      else if \<not> found then (f1, [], None)
      else (case emitPending f1 of
          (f2, out, Some e) \<Rightarrow> (f2, out, Some e)
        | (f2, out, None) \<Rightarrow>
            let (f3, out', e) = push_loop maximum (drop (length part) chunk) f2 in (f3, out @ out', e))))"
  by (subst push_loop.simps, cases chunk) (simp_all only: list.case list.distinct if_False if_True simp_thms)

text \<open>The chunk loop is the byte-wise framer.\<close>

lemma push_loop_feed:
  "length (fr_pending f) < maximum \<Longrightarrow>
   observed (push_loop maximum chunk f) = observed (feed maximum chunk f)"
proof (induction "length chunk" arbitrary: chunk f rule: less_induct)
  case less
  note bound = less.prems
  let ?before = "takeWhile (\<lambda>b. b \<noteq> newline) chunk"
  have nonl: "newline \<notin> set ?before" by (auto dest: set_takeWhileD)
  show ?case
  proof (cases "newline \<in> set chunk")
    case False
    then have whole: "?before = chunk" by (metis (mono_tags, lifting) takeWhile_eq_all_conv)
    have "push_loop maximum chunk f = (if length (fr_pending f) + length chunk \<ge> maximum \<and> chunk \<noteq> []
        then (f, [], Some FrameTooLarge) else (f\<lparr>fr_pending := fr_pending f @ chunk\<rparr>, [], None))"
      using False by (subst push_loop_eq, unfold Let_def whole) simp
    then show ?thesis using bound feed_plain [OF False bound] by (auto simp: observed_def)
  next
    case True
    obtain ys rest where c: "chunk = ys @ newline # rest" "newline \<notin> set ys"
      using split_list_first [OF True] by auto
    have all: "\<forall>b \<in> set ys. b \<noteq> newline" using c(2) by auto
    then have "takeWhile (\<lambda>b. b \<noteq> newline) (ys @ newline # rest) = ys @ takeWhile (\<lambda>b. b \<noteq> newline) (newline # rest)"
      by (intro takeWhile_append2) blast
    then have "?before = ys" by (simp add: c(1))
    then have chunk: "chunk = ?before @ newline # rest" by (simp only: c(1))
    let ?f1 = "f\<lparr>fr_pending := fr_pending f @ ?before @ [newline]\<rparr>"
    let ?n = "length (fr_pending f) + length ?before"
    have ne: "chunk \<noteq> []" using True by auto
    have drop: "drop (Suc (length ?before)) chunk = rest" by (subst chunk) simp
    have lhs: "push_loop maximum chunk f = (if ?n + 1 > maximum then (f, [], Some FrameTooLarge)
       else (case emitPending ?f1 of
          (f2, out, Some e) \<Rightarrow> (f2, out, Some e)
        | (f2, out, None) \<Rightarrow> let (f3, out', e) = push_loop maximum rest f2 in (f3, out @ out', e)))"
      using True ne drop by (subst push_loop_eq) (simp add: Let_def)
    have rhs: "observed (feed maximum chunk f) = (if ?n \<ge> maximum then ([], Some FrameTooLarge, None)
       else observed (case emitPending ?f1 of
          (f2, out, Some e) \<Rightarrow> (f2, out, Some e)
        | (f2, out, None) \<Rightarrow> let (f3, out', e) = feed maximum rest f2 in (f3, out @ out', e)))"
    proof -
      obtain g out e where g: "feed maximum ?before f = (g, out, e)" by (cases "feed maximum ?before f")
      have plain: "observed (g, out, e) = (if ?n \<ge> maximum then ([], Some FrameTooLarge, None)
          else ([], None, Some (f\<lparr>fr_pending := fr_pending f @ ?before\<rparr>)))"
        using feed_plain [OF nonl bound] g by simp
      have "feed maximum chunk f = (case (g, out, e) of
           (f1, out, Some e) \<Rightarrow> (f1, out, Some e)
         | (f1, out, None) \<Rightarrow> let (f2, out', e) = feed maximum (newline # rest) f1 in (f2, out @ out', e))"
        using feed_append [of maximum ?before "newline # rest" f] g chunk by simp
      with plain show ?thesis
        by (cases "?n \<ge> maximum") (auto simp: observed_def feed_byte_def Let_def split: if_splits prod.splits option.splits)
    qed
    show ?thesis
    proof (cases "?n \<ge> maximum \<or> snd (snd (emitPending ?f1)) \<noteq> None")
      case True
      then show ?thesis unfolding lhs rhs by (auto simp: observed_def split: prod.splits option.splits)
    next
      case False
      obtain f2 out where e: "emitPending ?f1 = (f2, out, None)"
        using False by (cases "emitPending ?f1") auto
      have p2: "length (fr_pending f2) < maximum" using emitPending_pending [OF e] bound by simp
      have "observed (push_loop maximum rest f2) = observed (feed maximum rest f2)"
        by (rule less.hyps [OF _ p2]) (simp add: c(1))
      then show ?thesis using False unfolding lhs rhs e by (auto simp: observed_def split: prod.splits if_splits)
    qed
  qed
qed

section \<open>What the framer guarantees\<close>

text \<open>The \<open>data\<close> listener: chunk after chunk, and the framer is aborted at the first error.\<close>

fun push_all :: "nat \<Rightarrow> byte list list \<Rightarrow> framer \<Rightarrow> framed" where
  "push_all maximum [] f = (f, [], None)"
| "push_all maximum (c # cs) f = (case push maximum c f of
     (f1, out, Some e) \<Rightarrow> (abort_framer f1, out, Some e)
   | (f1, out, None) \<Rightarrow> let (f2, out', e) = push_all maximum cs f1 in (f2, out @ out', e))"

definition is_frame :: "nat \<Rightarrow> byte list \<Rightarrow> bool" where
  "is_frame maximum fr = (length fr \<le> maximum \<and> utf8_valid fr \<and> (\<exists>body. fr = body @ [newline] \<and> newline \<notin> set body))"

definition framer_ok :: "nat \<Rightarrow> framer \<Rightarrow> bool" where
  "framer_ok maximum f = (length (fr_pending f) < maximum \<and> newline \<notin> set (fr_pending f))"

lemma feed_byte_ok:
  assumes "framer_ok maximum f" and "feed_byte maximum b f = (f1, out, e)"
  shows "list_all (is_frame maximum) out"
    and "e = None \<Longrightarrow> framer_ok maximum f1 \<and> concat out @ fr_pending f1 = fr_pending f @ [b]"
    and "fr_ended f1 = fr_ended f"
  using assms by (auto simp: feed_byte_def emitPending_def framer_ok_def is_frame_def Let_def split: if_splits)

lemma concat_step: "concat o1 @ p = a @ b \<Longrightarrow> concat o2 @ q = p @ c \<Longrightarrow> concat (o1 @ o2) @ q = a @ (b @ c)"
  by (metis append_assoc concat_append)

lemma feed_ok:
  "framer_ok maximum f \<Longrightarrow> feed maximum bs f = (f1, out, e) \<Longrightarrow>
   list_all (is_frame maximum) out \<and> fr_ended f1 = fr_ended f
   \<and> (e = None \<longrightarrow> framer_ok maximum f1 \<and> concat out @ fr_pending f1 = fr_pending f @ bs)"
proof (induction bs arbitrary: f f1 out e)
  case Nil
  then show ?case by simp
next
  case (Cons b bs)
  obtain g o1 e1 where g: "feed_byte maximum b f = (g, o1, e1)" by (cases "feed_byte maximum b f")
  note b = feed_byte_ok [OF Cons.prems(1) g]
  show ?case
  proof (cases e1)
    case (Some x)
    with Cons.prems(2) g b show ?thesis by auto
  next
    case None
    obtain f2 o2 e2 where h: "feed maximum bs g = (f2, o2, e2)" by (cases "feed maximum bs g")
    from Cons.IH [OF _ h] b(2) [OF None] have ih: "list_all (is_frame maximum) o2" "fr_ended f2 = fr_ended g"
      "e2 = None \<longrightarrow> framer_ok maximum f2 \<and> concat o2 @ fr_pending f2 = fr_pending g @ bs" by auto
    have "f1 = f2" "out = o1 @ o2" "e = e2" using Cons.prems(2) g None h by auto
    with ih b None show ?thesis using concat_step [of o1 "fr_pending g" "fr_pending f" "[b]" o2 "fr_pending f2" bs] by auto
  qed
qed

lemma push_observed:
  assumes "framer_ok maximum f" and "\<not> fr_ended f"
  shows "observed (push maximum c f) = observed (feed maximum c f)"
  using push_loop_feed assms by (simp add: push_def framer_ok_def)

lemma push_ok:
  assumes "framer_ok maximum f" and "\<not> fr_ended f" and "push maximum c f = (f1, out, e)"
  shows "list_all (is_frame maximum) out"
    and "e = None \<Longrightarrow> framer_ok maximum f1 \<and> \<not> fr_ended f1 \<and> concat out @ fr_pending f1 = fr_pending f @ c"
proof -
  obtain g o1 e1 where g: "feed maximum c f = (g, o1, e1)" by (cases "feed maximum c f")
  have "observed (f1, out, e) = observed (g, o1, e1)" using push_observed [OF assms(1,2), of c] unfolding assms(3) g .
  then have eq: "out = o1" "e = e1" "e = None \<longrightarrow> f1 = g" by (auto simp: observed_def split: if_splits)
  from feed_ok [OF assms(1) g] eq assms(2)
  show "list_all (is_frame maximum) out"
    and "e = None \<Longrightarrow> framer_ok maximum f1 \<and> \<not> fr_ended f1 \<and> concat out @ fr_pending f1 = fr_pending f @ c"
    by auto
qed

lemma push_all_feed:
  "framer_ok maximum f \<Longrightarrow> \<not> fr_ended f \<Longrightarrow>
   observed (push_all maximum cs f) = observed (feed maximum (concat cs) f)"
proof (induction cs arbitrary: f)
  case Nil
  then show ?case by simp
next
  case (Cons c cs)
  obtain g o1 e1 where g: "feed maximum c f = (g, o1, e1)" by (cases "feed maximum c f")
  obtain f1 out e where p: "push maximum c f = (f1, out, e)" by (cases "push maximum c f")
  have eq: "out = o1" "e = e1" "e = None \<longrightarrow> f1 = g"
    using push_observed [OF Cons.prems, of c] unfolding p g by (auto simp: observed_def split: if_splits)
  show ?case
  proof (cases e)
    case (Some x)
    then show ?thesis using p g eq by (simp add: feed_append observed_def)
  next
    case None
    note ok = push_ok(2) [OF Cons.prems p None]
    have "observed (push_all maximum cs f1) = observed (feed maximum (concat cs) f1)"
      by (rule Cons.IH) (use ok in auto)
    then show ?thesis using p g eq None by (auto simp: feed_append observed_def split: prod.splits if_splits)
  qed
qed

lemma push_all_ok:
  "framer_ok maximum f \<Longrightarrow> \<not> fr_ended f \<Longrightarrow> push_all maximum cs f = (f1, out, e) \<Longrightarrow>
   list_all (is_frame maximum) out
   \<and> (e = None \<longrightarrow> framer_ok maximum f1 \<and> \<not> fr_ended f1 \<and> concat out @ fr_pending f1 = fr_pending f @ concat cs)"
proof (induction cs arbitrary: f f1 out e)
  case Nil
  then show ?case by simp
next
  case (Cons c cs)
  obtain g o1 e1 where p: "push maximum c f = (g, o1, e1)" by (cases "push maximum c f")
  note ok = push_ok [OF Cons.prems(1,2) p]
  show ?case
  proof (cases e1)
    case (Some x)
    then show ?thesis using p Cons.prems(3) ok(1) by auto
  next
    case None
    obtain h o2 e2 where q: "push_all maximum cs g = (h, o2, e2)" by (cases "push_all maximum cs g")
    from Cons.IH [OF _ _ q] ok(2) [OF None] have ih: "list_all (is_frame maximum) o2"
      "e2 = None \<longrightarrow> framer_ok maximum h \<and> \<not> fr_ended h \<and> concat o2 @ fr_pending h = fr_pending g @ concat cs"
      by auto
    have "f1 = h" "out = o1 @ o2" "e = e2" using p q None Cons.prems(3) by auto
    with ih ok None show ?thesis
      using concat_step [of o1 "fr_pending g" "fr_pending f" c o2 "fr_pending h" "concat cs"] by auto
  qed
qed

lemma framer_ok_new: "0 < maximum \<Longrightarrow> framer_ok maximum new_framer"
  by (simp add: framer_ok_def new_framer_def)

lemma end_never_too_large:
  "framer_ok maximum f \<Longrightarrow> snd (snd (end_framer maximum f)) \<noteq> Some FrameTooLarge"
  by (auto simp: end_framer_def Let_def framer_ok_def emitPending_def)

text \<open>Sequences of frames are read back, however they are cut into chunks.\<close>

lemma observed_quiet: "observed r = (out, None, Some f) \<Longrightarrow> r = (f, out, None)"
  by (cases r) (auto simp: observed_def split: if_splits)

lemma feed_frame:
  assumes "is_frame maximum fr" and "fr_pending f = []"
  shows "feed maximum fr f = (f, [fr], None)"
proof -
  obtain body where fr: "fr = body @ [newline]" "newline \<notin> set body" using assms(1) by (auto simp: is_frame_def)
  have len: "length body < maximum" and valid: "utf8_valid (body @ [newline])"
    using assms(1) fr by (auto simp: is_frame_def)
  have "observed (feed maximum body f) = ([], None, Some (f\<lparr>fr_pending := body\<rparr>))"
    using feed_plain [OF fr(2), of f maximum] assms(2) len by auto
  then have "feed maximum body f = (f\<lparr>fr_pending := body\<rparr>, [], None)" by (rule observed_quiet)
  moreover have "f\<lparr>fr_pending := []\<rparr> = f" using assms(2) by (cases f) simp
  ultimately show ?thesis using len valid assms(2)
    by (simp add: fr(1) feed_append feed_byte_def emitPending_def)
qed

lemma feed_frames: "list_all (is_frame maximum) fs \<Longrightarrow> fr_pending f = [] \<Longrightarrow> feed maximum (concat fs) f = (f, fs, None)"
  by (induction fs) (simp_all add: feed_append feed_frame)

lemma push_all_frames:
  assumes "0 < maximum" and "list_all (is_frame maximum) fs" and "concat cs = concat fs"
  shows "push_all maximum cs new_framer = (new_framer, fs, None)"
proof -
  have "observed (push_all maximum cs new_framer) = observed (feed maximum (concat cs) new_framer)"
    by (rule push_all_feed [OF framer_ok_new [OF assms(1)]]) (simp add: new_framer_def)
  also have "feed maximum (concat cs) new_framer = (new_framer, fs, None)"
    unfolding assms(3) by (rule feed_frames [OF assms(2)]) (simp add: new_framer_def)
  finally show ?thesis using observed_quiet by (simp add: observed_def)
qed

section \<open>Write admission\<close>

text \<open>
  \<open>ProcessWriter\<close>: a write is admitted when the stream takes it at once and the outstanding bytes
  stay within the budget; its bytes are outstanding until the stream's callback (or its synchronous
  exception), whatever happens to the promise meanwhile. One event is one call, one callback of
  the stream or one timer.
\<close>

record write_entry =
  w_bytes :: nat
  w_settled :: bool
  w_accounted :: bool

record writer =
  wr_accepting :: bool
  wr_outstanding :: nat
  wr_next :: nat
  wr_writes :: "(nat \<times> write_entry) list"

definition new_writer :: writer where
  "new_writer = \<lparr>wr_accepting = False, wr_outstanding = 0, wr_next = 0, wr_writes = []\<rparr>"

datatype writer_out =
    WriteRefused
  | StreamWrite nat nat
  | WriteResolved nat nat
  | WriteRejected nat
  | WriterFatal

definition start_writer :: "writer \<Rightarrow> writer" where
  "start_writer w = w\<lparr>wr_accepting := True\<rparr>"

definition stop_writer :: "writer \<Rightarrow> writer" where
  "stop_writer w = w\<lparr>wr_accepting := False\<rparr>"

definition account :: "nat \<Rightarrow> writer \<Rightarrow> writer" where
  "account i w = (case map_of (wr_writes w) i of
     None \<Rightarrow> w
   | Some x \<Rightarrow> if w_accounted x then w
       else w\<lparr>wr_outstanding := wr_outstanding w - w_bytes x,
              wr_writes := map_set i (x\<lparr>w_accounted := True\<rparr>) (wr_writes w)\<rparr>)"

text \<open>\<open>ok\<close>: the write went through; otherwise the promise is rejected with phase \<open>writing\<close>.\<close>

definition settle_write :: "nat \<Rightarrow> bool \<Rightarrow> writer \<Rightarrow> writer \<times> writer_out list" where
  "settle_write i ok w = (case map_of (wr_writes w) i of
     None \<Rightarrow> (w, [])
   | Some x \<Rightarrow> if w_settled x then (w, [])
       else (w\<lparr>wr_writes := map_set i (x\<lparr>w_settled := True\<rparr>) (wr_writes w)\<rparr>,
             [if ok then WriteResolved i (w_bytes x) else WriteRejected i]))"

text \<open>
  \<open>blocked\<close>: the stream is destroyed, ended or wants a drain; \<open>throws\<close>: \<open>stream.write\<close> throws;
  \<open>bytes\<close> is the encoded length.
\<close>

definition write_frame :: "nat \<Rightarrow> bool \<Rightarrow> bool \<Rightarrow> nat \<Rightarrow> writer \<Rightarrow> writer \<times> writer_out list" where
  "write_frame maximum blocked throws bytes w =
     (if \<not> wr_accepting w then (w, [WriteRefused])
      else if blocked \<or> int bytes > int maximum - int (wr_outstanding w) then (w, [WriteRefused])
      else let i = wr_next w;
               w1 = w\<lparr>wr_outstanding := wr_outstanding w + bytes, wr_next := Suc i,
                      wr_writes := wr_writes w @ [(i, \<lparr>w_bytes = bytes, w_settled = False, w_accounted = False\<rparr>)]\<rparr> in
        if throws then (let (w2, out) = settle_write i False (account i w1) in (w2, StreamWrite i bytes # out))
        else (w1, [StreamWrite i bytes]))"

definition write_callback :: "nat \<Rightarrow> bool \<Rightarrow> writer \<Rightarrow> writer \<times> writer_out list" where
  "write_callback i ok w = settle_write i ok (account i w)"

text \<open>The timer is cleared when the promise settles.\<close>

definition write_timeout :: "nat \<Rightarrow> writer \<Rightarrow> writer \<times> writer_out list" where
  "write_timeout i w = (case map_of (wr_writes w) i of
     None \<Rightarrow> (w, [])
   | Some x \<Rightarrow> if w_settled x then (w, [])
       else let (w1, out) = settle_write i False w in (stop_writer w1, out @ [WriterFatal]))"

datatype writer_event =
    WStart | WStop
  | WWrite bool bool nat
  | WCallback nat bool
  | WTimeout nat

fun writer_step :: "nat \<Rightarrow> writer \<Rightarrow> writer_event \<Rightarrow> writer \<times> writer_out list" where
  "writer_step maximum w WStart = (start_writer w, [])"
| "writer_step maximum w WStop = (stop_writer w, [])"
| "writer_step maximum w (WWrite blocked throws bytes) = write_frame maximum blocked throws bytes w"
| "writer_step maximum w (WCallback i ok) = write_callback i ok w"
| "writer_step maximum w (WTimeout i) = write_timeout i w"

section \<open>What write admission guarantees\<close>

definition unaccounted :: "nat \<times> write_entry \<Rightarrow> nat" where
  "unaccounted e = (if w_accounted (snd e) then 0 else w_bytes (snd e))"

definition writer_inv :: "nat \<Rightarrow> writer \<Rightarrow> bool" where
  "writer_inv maximum w = (distinct (map fst (wr_writes w)) \<and> (\<forall>e \<in> set (wr_writes w). fst e < wr_next w)
     \<and> wr_outstanding w = sum_list (map unaccounted (wr_writes w)) \<and> wr_outstanding w \<le> maximum)"

fun write_settled :: "writer_out \<Rightarrow> nat list" where
  "write_settled (WriteResolved i _) = [i]"
| "write_settled (WriteRejected i) = [i]"
| "write_settled _ = []"

definition write_live :: "writer \<Rightarrow> nat \<Rightarrow> bool" where
  "write_live w i = (i \<ge> wr_next w \<or> (\<exists>x. map_of (wr_writes w) i = Some x \<and> \<not> w_settled x))"

lemma sum_map_set:
  fixes g :: "'a \<times> 'b \<Rightarrow> nat"
  shows "distinct (map fst m) \<Longrightarrow> map_of m k = Some x \<Longrightarrow>
   sum_list (map g (map_set k y m)) + g (k, x) = sum_list (map g m) + g (k, y)"
proof (induction k y m rule: map_set.induct)
  case (2 k y k' v' m)
  then show ?case by (cases "k = k'") auto
qed simp

lemma map_set_entries:
  "map_of m k = Some x \<Longrightarrow> \<forall>e \<in> set m. fst e < n \<Longrightarrow> \<forall>e \<in> set (map_set k y m). fst e < n"
proof -
  assume k: "map_of m k = Some x" and all: "\<forall>e \<in> set m. fst e < n"
  from all map_of_SomeD [OF k] have "k < n" by auto
  with all set_map_set_subset [of k y m] show ?thesis by (metis fst_conv insertE subsetD)
qed

lemma account_inv:
  assumes "writer_inv maximum w"
  shows "writer_inv maximum (account i w) \<and> write_live (account i w) = write_live w
    \<and> wr_next (account i w) = wr_next w"
proof (cases "map_of (wr_writes w) i")
  case None
  then show ?thesis using assms by (simp add: account_def)
next
  case (Some x)
  show ?thesis
  proof (cases "w_accounted x")
    case True
    then show ?thesis using Some assms by (simp add: account_def)
  next
    case False
    let ?y = "x\<lparr>w_accounted := True\<rparr>"
    have d: "distinct (map fst (wr_writes w))" and s: "wr_outstanding w = sum_list (map unaccounted (wr_writes w))"
      and n: "\<forall>e \<in> set (wr_writes w). fst e < wr_next w" and m: "wr_outstanding w \<le> maximum"
      using assms by (simp_all add: writer_inv_def)
    have "sum_list (map unaccounted (map_set i ?y (wr_writes w))) = wr_outstanding w - w_bytes x"
      using sum_map_set [OF d Some, of unaccounted ?y] False s by (simp add: unaccounted_def)
    moreover have "write_live (account i w) = write_live w"
      using Some False by (auto simp: account_def write_live_def fun_eq_iff map_of_map_set)
    ultimately show ?thesis using Some False distinct_map_set [OF d] map_set_entries [OF Some n] m
      by (simp add: account_def writer_inv_def)
  qed
qed

lemma settle_write_inv:
  assumes "writer_inv maximum w" and "settle_write i ok w = (w', out)"
  shows "writer_inv maximum w'" and "wr_next w' = wr_next w"
    and "concat (map write_settled out) = [] \<and> write_live w' = write_live w \<or>
      concat (map write_settled out) = [i] \<and> write_live w' = (write_live w)(i := False) \<and> write_live w i"
proof -
  have d: "distinct (map fst (wr_writes w))" and s: "wr_outstanding w = sum_list (map unaccounted (wr_writes w))"
    and n: "\<forall>e \<in> set (wr_writes w). fst e < wr_next w" and m: "wr_outstanding w \<le> maximum"
    using assms(1) by (simp_all add: writer_inv_def)
  show "wr_next w' = wr_next w" using assms(2) by (auto simp: settle_write_def split: option.splits if_splits)
  show "writer_inv maximum w'"
  proof (cases "map_of (wr_writes w) i")
    case None
    then show ?thesis using assms by (simp add: settle_write_def)
  next
    case (Some x)
    have "sum_list (map unaccounted (map_set i (x\<lparr>w_settled := True\<rparr>) (wr_writes w))) = wr_outstanding w"
      using sum_map_set [OF d Some, of unaccounted "x\<lparr>w_settled := True\<rparr>"] s
      by (cases "w_accounted x") (simp_all add: unaccounted_def)
    moreover have "w' = w \<or> w' = w\<lparr>wr_writes := map_set i (x\<lparr>w_settled := True\<rparr>) (wr_writes w)\<rparr>"
      using assms(2) Some by (auto simp: settle_write_def split: if_splits)
    ultimately show ?thesis using assms(1) Some distinct_map_set [OF d] map_set_entries [OF Some n] m
      by (elim disjE) (simp_all add: writer_inv_def)
  qed
  show "concat (map write_settled out) = [] \<and> write_live w' = write_live w \<or>
      concat (map write_settled out) = [i] \<and> write_live w' = (write_live w)(i := False) \<and> write_live w i"
  proof (cases "map_of (wr_writes w) i")
    case None
    then show ?thesis using assms(2) by (simp add: settle_write_def)
  next
    case (Some x)
    have "i < wr_next w" using bspec [OF n map_of_SomeD [OF Some]] by simp
    then have upd: "write_live (w\<lparr>wr_writes := map_set i (x\<lparr>w_settled := True\<rparr>) (wr_writes w)\<rparr>) j
        = ((write_live w)(i := False)) j" for j
      by (cases "j = i") (simp_all add: write_live_def map_of_map_set)
    show ?thesis
    proof (cases "w_settled x")
      case True
      with Some assms(2) show ?thesis by (simp add: settle_write_def)
    next
      case False
      then have "write_live w i" using Some by (simp add: write_live_def)
      moreover have "w' = w\<lparr>wr_writes := map_set i (x\<lparr>w_settled := True\<rparr>) (wr_writes w)\<rparr>"
        "concat (map write_settled out) = [i]" using Some False assms(2) by (auto simp: settle_write_def)
      ultimately show ?thesis using upd by (simp add: fun_eq_iff)
    qed
  qed
qed

lemma start_stop_inv [simp]:
  "writer_inv maximum (start_writer w) = writer_inv maximum w" "write_live (start_writer w) = write_live w"
  "writer_inv maximum (stop_writer w) = writer_inv maximum w" "write_live (stop_writer w) = write_live w"
  by (simp_all add: writer_inv_def write_live_def start_writer_def stop_writer_def fun_eq_iff)

text \<open>One step: the invariant, and every settlement ends the life of a write.\<close>

definition writer_good :: "nat \<Rightarrow> writer \<Rightarrow> writer \<times> writer_out list \<Rightarrow> bool" where
  "writer_good maximum w r = (writer_inv maximum (fst r)
     \<and> distinct (concat (map write_settled (snd r)))
     \<and> (\<forall>i \<in> set (concat (map write_settled (snd r))). write_live w i \<and> \<not> write_live (fst r) i)
     \<and> (\<forall>i. \<not> write_live w i \<longrightarrow> \<not> write_live (fst r) i))"

lemma good_silent:
  "writer_good maximum w r \<Longrightarrow> write_settled x = [] \<Longrightarrow>
   writer_good maximum w (fst r, x # snd r) \<and> writer_good maximum w (fst r, snd r @ [x])
   \<and> writer_good maximum w (stop_writer (fst r), snd r @ [x])"
  by (simp add: writer_good_def)

lemma settle_good:
  assumes "writer_inv maximum w" and "write_live w = write_live w0"
  shows "writer_good maximum w0 (settle_write i ok w)"
proof -
  let ?r = "settle_write i ok w"
  note inv = settle_write_inv [OF assms(1) surjective_pairing, of i ok]
  consider (quiet) "concat (map write_settled (snd ?r)) = []" "write_live (fst ?r) = write_live w0"
    | (once) "concat (map write_settled (snd ?r)) = [i]" "write_live (fst ?r) = (write_live w0)(i := False)" "write_live w0 i"
    using inv(3) unfolding assms(2) by blast
  then show ?thesis
  proof cases
    case quiet
    show ?thesis unfolding writer_good_def quiet using inv(1) by simp
  next
    case once
    show ?thesis unfolding writer_good_def once(1,2) using inv(1) once(3) by simp
  qed
qed

lemma admitted_inv:
  assumes inv: "writer_inv maximum w" and fits: "\<not> int bytes > int maximum - int (wr_outstanding w)"
  shows "writer_inv maximum (w\<lparr>wr_outstanding := wr_outstanding w + bytes, wr_next := Suc (wr_next w),
      wr_writes := wr_writes w @ [(wr_next w, \<lparr>w_bytes = bytes, w_settled = False, w_accounted = False\<rparr>)]\<rparr>)"
    and "write_live (w\<lparr>wr_outstanding := wr_outstanding w + bytes, wr_next := Suc (wr_next w),
      wr_writes := wr_writes w @ [(wr_next w, \<lparr>w_bytes = bytes, w_settled = False, w_accounted = False\<rparr>)]\<rparr>)
      = write_live w"
proof -
  have n: "\<forall>e \<in> set (wr_writes w). fst e < wr_next w" using inv by (simp add: writer_inv_def)
  show "writer_inv maximum (w\<lparr>wr_outstanding := wr_outstanding w + bytes, wr_next := Suc (wr_next w),
      wr_writes := wr_writes w @ [(wr_next w, \<lparr>w_bytes = bytes, w_settled = False, w_accounted = False\<rparr>)]\<rparr>)"
    using inv fits by (auto simp: writer_inv_def unaccounted_def)
  have fresh: "map_of (wr_writes w) (wr_next w) = None" using n by (auto simp: map_of_eq_None_iff)
  show "write_live (w\<lparr>wr_outstanding := wr_outstanding w + bytes, wr_next := Suc (wr_next w),
      wr_writes := wr_writes w @ [(wr_next w, \<lparr>w_bytes = bytes, w_settled = False, w_accounted = False\<rparr>)]\<rparr>)
      = write_live w"
    using n fresh by (auto simp: write_live_def fun_eq_iff map_of_append map_add_def split: option.splits
        dest!: map_of_SomeD)
qed

lemma writer_step_good:
  assumes inv: "writer_inv maximum w"
  shows "writer_good maximum w (writer_step maximum w e)"
proof (cases e)
  case (WWrite blocked throws bytes)
  have refused: "writer_good maximum w (w, [WriteRefused])" using inv by (simp add: writer_good_def)
  let ?w1 = "w\<lparr>wr_outstanding := wr_outstanding w + bytes, wr_next := Suc (wr_next w),
      wr_writes := wr_writes w @ [(wr_next w, \<lparr>w_bytes = bytes, w_settled = False, w_accounted = False\<rparr>)]\<rparr>"
  show ?thesis
  proof (cases "wr_accepting w \<and> \<not> blocked \<and> \<not> int bytes > int maximum - int (wr_outstanding w)")
    case False
    then have "writer_step maximum w e = (w, [WriteRefused])" using WWrite by (auto simp: write_frame_def)
    with refused show ?thesis by simp
  next
    case True
    then have fits: "\<not> int bytes > int maximum - int (wr_outstanding w)" by blast
    note a = admitted_inv [OF inv fits]
    have "writer_good maximum w (settle_write (wr_next w) False (account (wr_next w) ?w1))"
      by (rule settle_good) (use a account_inv [OF a(1)] in simp_all)
    then have "writer_good maximum w (case settle_write (wr_next w) False (account (wr_next w) ?w1) of
        (w2, out) \<Rightarrow> (w2, StreamWrite (wr_next w) bytes # out))"
      using good_silent [of maximum w _ "StreamWrite (wr_next w) bytes"] by (simp add: split_beta)
    moreover have "writer_good maximum w (?w1, [StreamWrite (wr_next w) bytes])"
      using a by (simp add: writer_good_def)
    moreover have "writer_step maximum w e = (if throws
        then (case settle_write (wr_next w) False (account (wr_next w) ?w1) of
          (w2, out) \<Rightarrow> (w2, StreamWrite (wr_next w) bytes # out))
        else (?w1, [StreamWrite (wr_next w) bytes]))"
      using True by (simp add: WWrite write_frame_def Let_def)
    ultimately show ?thesis by simp
  qed
next
  case (WCallback i ok)
  then show ?thesis using settle_good account_inv [OF inv] by (simp add: write_callback_def)
next
  case (WTimeout i)
  have "writer_good maximum w (case settle_write i False w of (w1, out) \<Rightarrow> (stop_writer w1, out @ [WriterFatal]))"
    using good_silent [OF settle_good [OF inv refl, of i False], of WriterFatal] by (simp add: split_beta)
  moreover have "writer_good maximum w (w, [])" using inv by (simp add: writer_good_def)
  ultimately show ?thesis by (simp add: WTimeout write_timeout_def split: option.split)
qed (use inv in \<open>simp_all add: writer_good_def\<close>)

interpretation writer_once: once_only "writer_step maximum" "writer_inv maximum" write_live write_settled
proof
  fix s e assume "writer_inv maximum s"
  note g = writer_step_good [OF this, of e, unfolded writer_good_def]
  show "writer_inv maximum (fst (writer_step maximum s e))"
    and "distinct (concat (map write_settled (snd (writer_step maximum s e))))" using g by blast+
next
  fix s e i assume inv: "writer_inv maximum s"
    and "i \<in> set (concat (map write_settled (snd (writer_step maximum s e))))"
  with writer_step_good [OF inv, of e, unfolded writer_good_def]
  show "write_live s i \<and> \<not> write_live (fst (writer_step maximum s e)) i" by blast
next
  fix s e i assume inv: "writer_inv maximum s" and "\<not> write_live s i"
  with writer_step_good [OF inv, of e, unfolded writer_good_def]
  show "\<not> write_live (fst (writer_step maximum s e)) i" by blast
qed

lemma writer_inv_new: "writer_inv maximum new_writer"
  by (simp add: writer_inv_def new_writer_def)

end
