(* ===== verification/NodeProcess.thy ===== *)
theory NodeProcess
  imports NodeStreams
begin

text \<open>
  The child-process transport (\<open>packages/native/src/node-transport/node-process-transport.ts\<close> with
  \<open>lifecycle.ts\<close>) as a state machine: one event is one call of the transport, one event of the child
  or of its streams, one timer, or one continuation of the shutdown after an \<open>await\<close>. The outputs
  are what the transport makes observable: settled promises, frames, the disconnect notification and
  the orders it gives to the child. The bounded standard-error tail is diagnostic only and not part
  of the state.
\<close>

section \<open>State\<close>

datatype transport_phase = TIdle | TOpening | TOpen | TClosing | TClosed

datatype exit_receipt =
    NotSpawned
  | Exited string int "int option" "string option"
  | Unconfirmed

text \<open>Where \<open>#shutdown\<close> waits: for the grace period, for the forced close, or nowhere.\<close>

datatype shutdown_stage = NoShutdown | GraceWait | ForceWait | ShutdownDone

record transport =
  t_state :: transport_phase
  t_writer :: "writer option"
  t_framer :: "framer option"
  t_child :: bool
  t_instance :: "string option"
  t_pid :: "int option"
  t_spawned :: bool
  t_exitObserved :: bool
  t_stdioClosed :: bool
  t_disconnectNotified :: bool
  t_openSettled :: bool
  t_childCloseSettled :: bool
  t_closing :: bool
  t_exit :: "exit_receipt option"
  t_shutdown :: shutdown_stage

definition new_transport :: transport where
  "new_transport = \<lparr>t_state = TIdle, t_writer = None, t_framer = None, t_child = False,
     t_instance = None, t_pid = None, t_spawned = False, t_exitObserved = False, t_stdioClosed = False,
     t_disconnectNotified = False, t_openSettled = False, t_childCloseSettled = False, t_closing = False,
     t_exit = None, t_shutdown = NoShutdown\<rparr>"

datatype transport_out =
    OpenResolved
  | OpenRejected transport_code
  | OpenRefused
  | OutFrame "byte list"
  | DisconnectOut transport_code
  | StdinEnd
  | KillChild
  | DestroyStdio
  | CloseResolved
  | CloseRejected
  | ExitOut exit_receipt
  | WriterOut writer_out

record transport_config =
  cf_maxFrameBytes :: nat
  cf_maxOutstandingWriteBytes :: nat
  cf_startupTimeoutMs :: nat

type_synonym transported = "transport \<times> transport_out list"

section \<open>One-shot settlements\<close>

definition settleOpen :: "transport_code option \<Rightarrow> transport \<Rightarrow> transported" where
  "settleOpen err t = (if t_openSettled t then (t, [])
     else (t\<lparr>t_openSettled := True\<rparr>, [case err of None \<Rightarrow> OpenResolved | Some c \<Rightarrow> OpenRejected c]))"

definition settleChildClose :: "transport \<Rightarrow> transport" where
  "settleChildClose t = (if t_childCloseSettled t then t else t\<lparr>t_childCloseSettled := True\<rparr>)"

definition settleExit :: "exit_receipt \<Rightarrow> transport \<Rightarrow> transported" where
  "settleExit r t = (if t_exit t \<noteq> None then (t, []) else (t\<lparr>t_exit := Some r\<rparr>, [ExitOut r]))"

definition notifyDisconnect :: "transport_code \<Rightarrow> transport \<Rightarrow> transported" where
  "notifyDisconnect c t = (if t_disconnectNotified t then (t, [])
     else (t\<lparr>t_disconnectNotified := True\<rparr>, [DisconnectOut c]))"

definition stopWriter :: "transport \<Rightarrow> transport" where
  "stopWriter t = t\<lparr>t_writer := map_option stop_writer (t_writer t)\<rparr>"

text \<open>Sequencing of operations that return the new state and their outputs.\<close>

definition tbind :: "transported \<Rightarrow> (transport \<Rightarrow> transported) \<Rightarrow> transported" where
  "tbind r f = (let (t, o1) = r; (t', o2) = f t in (t', o1 @ o2))"

section \<open>Closing\<close>

text \<open>
  \<open>#shutdown\<close> up to its first \<open>await\<close>; \<open>stdinOpen\<close> says that the child's input is neither
  destroyed nor ended.
\<close>

definition shutdown_start :: "bool \<Rightarrow> transport \<Rightarrow> transported" where
  "shutdown_start stdinOpen t = (if \<not> t_child t then (t\<lparr>t_state := TClosed, t_shutdown := ShutdownDone\<rparr>, [CloseResolved])
     else (t\<lparr>t_shutdown := GraceWait\<rparr>, if stdinOpen then [StdinEnd] else []))"

definition shutdown_finish :: "bool \<Rightarrow> transport \<Rightarrow> transported" where
  "shutdown_finish confirmed t =
     (if confirmed then (t\<lparr>t_state := TClosed, t_shutdown := ShutdownDone\<rparr>, [CloseResolved])
      else tbind (if \<not> t_exitObserved t then settleExit Unconfirmed t else (t, []))
        (\<lambda>t. (t\<lparr>t_state := TClosed, t_shutdown := ShutdownDone\<rparr>, [DestroyStdio, CloseRejected])))"

text \<open>The continuation after the close-or-grace race, then after the forced close.\<close>

definition shutdown_resume :: "transport \<Rightarrow> transported" where
  "shutdown_resume t = (case t_shutdown t of
     GraceWait \<Rightarrow> if t_childCloseSettled t then shutdown_finish True t
                  else (t\<lparr>t_shutdown := ForceWait\<rparr>, [KillChild])
   | ForceWait \<Rightarrow> shutdown_finish (t_childCloseSettled t) t
   | _ \<Rightarrow> (t, []))"

definition close_transport :: "bool \<Rightarrow> transport \<Rightarrow> transported" where
  "close_transport stdinOpen t = (if t_closing t then (t, []) else
     let t1 = stopWriter t in
     case t_state t1 of
       TIdle \<Rightarrow> tbind (settleExit NotSpawned (t1\<lparr>t_state := TClosed, t_stdioClosed := True\<rparr>))
                  (\<lambda>t. ((settleChildClose t)\<lparr>t_closing := True, t_shutdown := ShutdownDone\<rparr>, [CloseResolved]))
     | TClosed \<Rightarrow> (t1\<lparr>t_closing := True, t_shutdown := ShutdownDone\<rparr>, [CloseResolved])
     | _ \<Rightarrow> tbind (settleOpen (Some NotOpen) (t1\<lparr>t_state := TClosing\<rparr>))
              (\<lambda>t. shutdown_start stdinOpen (t\<lparr>t_closing := True\<rparr>)))"

definition abortFramer :: "transport \<Rightarrow> transport" where
  "abortFramer t = t\<lparr>t_framer := map_option abort_framer (t_framer t)\<rparr>"

definition fail :: "bool \<Rightarrow> transport_code \<Rightarrow> transport \<Rightarrow> transported" where
  "fail stdinOpen c t = (let t1 = stopWriter (abortFramer t) in
     if t_state t1 = TClosing \<or> t_state t1 = TClosed then (t1, [])
     else tbind (notifyDisconnect c t1) (close_transport stdinOpen))"

section \<open>Opening and the child's life\<close>

definition startupExpired :: "bool \<Rightarrow> transport \<Rightarrow> transported" where
  "startupExpired stdinOpen t = (if t_state t \<noteq> TOpening then (t, [])
     else tbind (settleOpen (Some StartupTimeout) (abortFramer t)) (close_transport stdinOpen))"

text \<open>\<open>instance\<close> is the random identity of the child, \<open>throws\<close> says that \<open>spawn\<close> throws.\<close>

definition open_transport :: "transport_config \<Rightarrow> string \<Rightarrow> bool \<Rightarrow> transport \<Rightarrow> transported" where
  "open_transport cf inst throws t =
     (if t_state t = TOpening then (t, [])
      else if t_state t \<noteq> TIdle then (t, [OpenRefused])
      else let t1 = t\<lparr>t_state := TOpening, t_instance := Some inst\<rparr> in
        if throws then
          tbind (settleExit NotSpawned (t1\<lparr>t_state := TClosed, t_stdioClosed := True\<rparr>))
            (\<lambda>t. settleOpen (Some SpawnFailed) (settleChildClose t))
        else let t2 = t1\<lparr>t_child := True, t_writer := Some new_writer, t_framer := Some new_framer\<rparr> in
          if cf_startupTimeoutMs cf = 0 then startupExpired True t2 else (t2, []))"

definition spawnObserved :: "int option \<Rightarrow> transport \<Rightarrow> transported" where
  "spawnObserved pid t = (let t1 = t\<lparr>t_spawned := True, t_pid := pid\<rparr> in
     if t_state t1 \<noteq> TOpening then (t1, [])
     else settleOpen None (t1\<lparr>t_state := TOpen, t_writer := map_option start_writer (t_writer t1)\<rparr>))"

definition observeExit :: "int option \<Rightarrow> string option \<Rightarrow> transport \<Rightarrow> transported" where
  "observeExit exit_code signal t = (if t_exitObserved t \<or> \<not> t_spawned t then (t, [])
     else let t1 = stopWriter (t\<lparr>t_exitObserved := True\<rparr>) in
       (case (t_instance t1, t_pid t1) of
          (Some inst, Some pid) \<Rightarrow> settleExit (Exited inst pid exit_code signal) t1
        | _ \<Rightarrow> (t1, [])))"

definition processError :: "bool \<Rightarrow> transport \<Rightarrow> transported" where
  "processError stdinOpen t = (if \<not> t_spawned t
     then tbind (settleExit NotSpawned t) (\<lambda>t.
          tbind (settleOpen (Some SpawnFailed) t) (close_transport stdinOpen))
     else fail stdinOpen StreamError t)"

text \<open>Frames of a framer call, then what the listener does about an error.\<close>

definition framed_step :: "bool \<Rightarrow> framed \<Rightarrow> transport \<Rightarrow> transported" where
  "framed_step stdinOpen r t = (case r of (f, frames, err) \<Rightarrow>
     tbind (t\<lparr>t_framer := Some f\<rparr>, map OutFrame frames)
       (\<lambda>t. case err of None \<Rightarrow> (t, []) | Some c \<Rightarrow> fail stdinOpen c t))"

definition stdout_data :: "transport_config \<Rightarrow> bool \<Rightarrow> byte list \<Rightarrow> transport \<Rightarrow> transported" where
  "stdout_data cf stdinOpen chunk t = (case t_framer t of None \<Rightarrow> (t, [])
     | Some f \<Rightarrow> framed_step stdinOpen (push (cf_maxFrameBytes cf) chunk f) t)"

definition framer_end :: "transport_config \<Rightarrow> bool \<Rightarrow> transport \<Rightarrow> transported \<times> bool" where
  "framer_end cf stdinOpen t = (case t_framer t of None \<Rightarrow> ((t, []), True)
     | Some f \<Rightarrow> let r = end_framer (cf_maxFrameBytes cf) f in
         (framed_step stdinOpen r t, snd (snd r) = None))"

definition fail_if_open :: "bool \<Rightarrow> transport_code \<Rightarrow> transport \<Rightarrow> transported" where
  "fail_if_open stdinOpen c t =
     (if t_state t = TOpen \<or> t_state t = TOpening then fail stdinOpen c t else (t, []))"

definition stdout_end :: "transport_config \<Rightarrow> bool \<Rightarrow> transport \<Rightarrow> transported" where
  "stdout_end cf stdinOpen t = (let (r, ok) = framer_end cf stdinOpen t in
     if \<not> ok then r else tbind r (fail_if_open stdinOpen StdoutClosed))"

definition processClosed :: "transport_config \<Rightarrow> bool \<Rightarrow> int option \<Rightarrow> string option \<Rightarrow> transport \<Rightarrow> transported" where
  "processClosed cf stdinOpen exit_code signal t =
     tbind (fst (framer_end cf stdinOpen t)) (\<lambda>t.
     tbind (observeExit exit_code signal (t\<lparr>t_stdioClosed := True\<rparr>)) (\<lambda>t.
     tbind (if \<not> t_spawned t then settleExit NotSpawned t else (t, [])) (\<lambda>t.
     fail_if_open stdinOpen ProcessExited (settleChildClose t))))"

definition stdin_error :: "bool \<Rightarrow> transport \<Rightarrow> transported" where
  "stdin_error stdinOpen t = (case t_writer t of None \<Rightarrow> (t, [])
     | Some w \<Rightarrow> if wr_accepting w then fail stdinOpen StreamError t else (t, []))"

section \<open>Writing\<close>

definition with_writer :: "(writer \<Rightarrow> writer \<times> writer_out list) \<Rightarrow> transport \<Rightarrow> transported" where
  "with_writer f t = (case t_writer t of None \<Rightarrow> (t, [])
     | Some w \<Rightarrow> let (w', out) = f w in (t\<lparr>t_writer := Some w'\<rparr>, map WriterOut out))"

definition write_transport :: "transport_config \<Rightarrow> bool \<Rightarrow> bool \<Rightarrow> nat \<Rightarrow> transport \<Rightarrow> transported" where
  "write_transport cf blocked throws bytes t =
     (if t_state t \<noteq> TOpen \<or> t_writer t = None then (t, [WriterOut WriteRefused])
      else with_writer (write_frame (cf_maxOutstandingWriteBytes cf) blocked throws bytes) t)"

text \<open>A write that times out stops the writer and is fatal for the transport.\<close>

definition writer_timeout :: "bool \<Rightarrow> nat \<Rightarrow> transport \<Rightarrow> transported" where
  "writer_timeout stdinOpen i t = tbind (with_writer (write_timeout i) t) (\<lambda>t'.
     if WriterOut WriterFatal \<in> set (snd (with_writer (write_timeout i) t))
     then fail stdinOpen WriteTimeout t' else (t', []))"

section \<open>The machine\<close>

datatype transport_event =
    TOpenCall string bool
  | TWriteCall bool bool nat
  | TCloseCall bool
  | TSpawn "int option"
  | TError bool
  | TExit "int option" "string option"
  | TChildClose bool "int option" "string option"
  | TStdout bool "byte list"
  | TStdoutEnd bool
  | TStdoutError bool
  | TStdinError bool
  | TStartupExpired bool
  | TWriteCallback nat bool
  | TWriteTimer bool nat
  | TShutdownResume

text \<open>The listeners of the child and its streams exist once it has been spawned.\<close>

definition from_child :: "(transport \<Rightarrow> transported) \<Rightarrow> transport \<Rightarrow> transported" where
  "from_child f t = (if t_child t then f t else (t, []))"

fun transport_step :: "transport_config \<Rightarrow> transport \<Rightarrow> transport_event \<Rightarrow> transported" where
  "transport_step cf t (TOpenCall inst throws) = open_transport cf inst throws t"
| "transport_step cf t (TWriteCall blocked throws bytes) = write_transport cf blocked throws bytes t"
| "transport_step cf t (TCloseCall b) = close_transport b t"
| "transport_step cf t (TSpawn pid) = from_child (spawnObserved pid) t"
| "transport_step cf t (TError b) = from_child (processError b) t"
| "transport_step cf t (TExit c s) = from_child (observeExit c s) t"
| "transport_step cf t (TChildClose b c s) = from_child (processClosed cf b c s) t"
| "transport_step cf t (TStdout b chunk) = from_child (stdout_data cf b chunk) t"
| "transport_step cf t (TStdoutEnd b) = from_child (stdout_end cf b) t"
| "transport_step cf t (TStdoutError b) = from_child (fail b StreamError) t"
| "transport_step cf t (TStdinError b) = from_child (stdin_error b) t"
| "transport_step cf t (TStartupExpired b) = startupExpired b t"
| "transport_step cf t (TWriteCallback i ok) = with_writer (write_callback i ok) t"
| "transport_step cf t (TWriteTimer b i) = writer_timeout b i t"
| "transport_step cf t TShutdownResume = shutdown_resume t"

section \<open>The invariant\<close>

definition accepting :: "transport \<Rightarrow> bool" where
  "accepting t = (case t_writer t of None \<Rightarrow> False | Some w \<Rightarrow> wr_accepting w)"

definition exit_honest :: "exit_receipt option \<Rightarrow> bool \<Rightarrow> transport_phase \<Rightarrow> bool" where
  "exit_honest r ob st = (case r of None \<Rightarrow> True | Some NotSpawned \<Rightarrow> True
     | Some (Exited _ _ _ _) \<Rightarrow> ob | Some Unconfirmed \<Rightarrow> st = TClosed)"

definition transport_ok :: "transport \<Rightarrow> bool" where
  "transport_ok t = (case t_state t of
     TIdle \<Rightarrow> t_shutdown t = NoShutdown \<and> \<not> t_closing t \<and> \<not> t_child t \<and> t_writer t = None \<and> \<not> t_spawned t
   | TOpening \<Rightarrow> t_shutdown t = NoShutdown \<and> \<not> t_closing t \<and> t_child t \<and> \<not> t_spawned t \<and> \<not> accepting t
   | TOpen \<Rightarrow> t_shutdown t = NoShutdown \<and> \<not> t_closing t \<and> t_child t \<and> t_spawned t
       \<and> (accepting t \<longrightarrow> \<not> t_exitObserved t)
   | TClosing \<Rightarrow> (t_shutdown t = GraceWait \<or> t_shutdown t = ForceWait) \<and> t_closing t \<and> t_child t \<and> \<not> accepting t
   | TClosed \<Rightarrow> \<not> accepting t \<and> (if t_closing t then t_shutdown t = ShutdownDone
       else t_shutdown t = NoShutdown \<and> t_childCloseSettled t))"

definition transport_inv :: "transport \<Rightarrow> bool" where
  "transport_inv t = (transport_ok t \<and> (t_exitObserved t \<longrightarrow> t_spawned t)
     \<and> exit_honest (t_exit t) (t_exitObserved t) (t_state t))"

lemma exit_honest_simps [simp]:
  "exit_honest None ob st" "exit_honest (Some NotSpawned) ob st"
  "exit_honest (Some (Exited i p c s)) ob st = ob" "exit_honest (Some Unconfirmed) ob st = (st = TClosed)"
  "exit_honest e ob TClosed = (\<forall>i p c s. e = Some (Exited i p c s) \<longrightarrow> ob)"
  by (auto simp: exit_honest_def split: option.splits exit_receipt.splits)

lemma exit_honest_mono: "exit_honest e ob st \<Longrightarrow> (ob \<Longrightarrow> ob') \<Longrightarrow> (st = TClosed \<Longrightarrow> st' = TClosed) \<Longrightarrow> exit_honest e ob' st'"
  by (auto simp: exit_honest_def split: option.splits exit_receipt.splits)

datatype signal = SigOpen | SigDisconnect | SigExit | SigClose | SigKill

fun signals :: "transport_out \<Rightarrow> signal list" where
  "signals OpenResolved = [SigOpen]"
| "signals (OpenRejected _) = [SigOpen]"
| "signals (DisconnectOut _) = [SigDisconnect]"
| "signals (ExitOut _) = [SigExit]"
| "signals CloseResolved = [SigClose]"
| "signals CloseRejected = [SigClose]"
| "signals KillChild = [SigKill]"
| "signals _ = []"

fun signal_live :: "transport \<Rightarrow> signal \<Rightarrow> bool" where
  "signal_live t SigOpen = (\<not> t_openSettled t)"
| "signal_live t SigDisconnect = (\<not> t_disconnectNotified t)"
| "signal_live t SigExit = (t_exit t = None)"
| "signal_live t SigClose = (t_shutdown t \<noteq> ShutdownDone)"
| "signal_live t SigKill = (t_shutdown t = NoShutdown \<or> t_shutdown t = GraceWait)"

definition transport_rank :: "transport \<Rightarrow> nat" where
  "transport_rank t = (case t_state t of TIdle \<Rightarrow> 0 | TOpening \<Rightarrow> 1 | TOpen \<Rightarrow> 2 | TClosing \<Rightarrow> 3 | TClosed \<Rightarrow> 4)"

definition signalled :: "transported \<Rightarrow> signal list" where
  "signalled r = concat (map signals (snd r))"

definition tgood :: "transport \<Rightarrow> transported \<Rightarrow> bool" where
  "tgood t r = (transport_inv (fst r) \<and> distinct (signalled r)
     \<and> (\<forall>x. x \<in> set (signalled r) \<longrightarrow> signal_live t x \<and> \<not> signal_live (fst r) x)
     \<and> (\<forall>x. \<not> signal_live t x \<longrightarrow> \<not> signal_live (fst r) x)
     \<and> transport_rank t \<le> transport_rank (fst r))"

lemma tbind_fst: "fst (tbind r f) = fst (f (fst r))" and tbind_snd: "snd (tbind r f) = snd r @ snd (f (fst r))"
  by (simp_all add: tbind_def split_beta Let_def)

lemma signalled_tbind: "signalled (tbind r f) = signalled r @ signalled (f (fst r))"
  by (simp add: signalled_def tbind_snd)

lemma tgood_tbind:
  assumes "tgood t r" and "tgood (fst r) (f (fst r))"
  shows "tgood t (tbind r f)"
proof -
  have "distinct (signalled r @ signalled (f (fst r)))" using assms unfolding tgood_def distinct_append by blast
  then show ?thesis using assms unfolding tgood_def tbind_fst signalled_tbind by auto
qed

lemma tgood_refl: "transport_inv t \<Longrightarrow> tgood t (t, [])"
  by (simp add: tgood_def signalled_def)

lemma signal_all: "(\<forall>x. P x) \<longleftrightarrow> P SigOpen \<and> P SigDisconnect \<and> P SigExit \<and> P SigClose \<and> P SigKill"
  by (metis signal.exhaust)

lemma accepting_stop [simp]: "\<not> accepting (stopWriter t)"
  by (simp add: accepting_def stopWriter_def stop_writer_def split: option.split)

lemma accepting_frame [simp]:
  "accepting (t\<lparr>t_state := a\<rparr>) = accepting t" "accepting (t\<lparr>t_framer := b\<rparr>) = accepting t"
  "accepting (t\<lparr>t_closing := c\<rparr>) = accepting t" "accepting (t\<lparr>t_shutdown := d\<rparr>) = accepting t"
  "accepting (t\<lparr>t_exit := e\<rparr>) = accepting t" "accepting (t\<lparr>t_openSettled := f\<rparr>) = accepting t"
  "accepting (t\<lparr>t_childCloseSettled := f\<rparr>) = accepting t" "accepting (t\<lparr>t_stdioClosed := f\<rparr>) = accepting t"
  "accepting (t\<lparr>t_disconnectNotified := f\<rparr>) = accepting t" "accepting (t\<lparr>t_exitObserved := f\<rparr>) = accepting t"
  "accepting (t\<lparr>t_spawned := f\<rparr>) = accepting t" "accepting (t\<lparr>t_pid := g\<rparr>) = accepting t"
  "accepting (t\<lparr>t_instance := h\<rparr>) = accepting t" "accepting (t\<lparr>t_child := f\<rparr>) = accepting t"
  by (simp_all add: accepting_def)

lemma stopWriter_frame [simp]:
  "t_state (stopWriter t) = t_state t" "t_closing (stopWriter t) = t_closing t" "t_child (stopWriter t) = t_child t"
  "t_shutdown (stopWriter t) = t_shutdown t" "t_exit (stopWriter t) = t_exit t"
  "t_openSettled (stopWriter t) = t_openSettled t" "t_childCloseSettled (stopWriter t) = t_childCloseSettled t"
  "t_disconnectNotified (stopWriter t) = t_disconnectNotified t" "t_exitObserved (stopWriter t) = t_exitObserved t"
  "t_spawned (stopWriter t) = t_spawned t" "t_instance (stopWriter t) = t_instance t" "t_pid (stopWriter t) = t_pid t"
  "t_writer (stopWriter t) = None \<longleftrightarrow> t_writer t = None"
  by (simp_all add: stopWriter_def)

lemma abortFramer_frame [simp]:
  "t_state (abortFramer t) = t_state t" "transport_inv (abortFramer t) = transport_inv t"
  "signal_live (abortFramer t) = signal_live t" "transport_rank (abortFramer t) = transport_rank t"
proof -
  show "signal_live (abortFramer t) = signal_live t"
    by (rule ext, case_tac x) (simp_all add: abortFramer_def)
qed (simp_all add: abortFramer_def transport_inv_def transport_rank_def transport_ok_def cong: transport_phase.case_cong)

lemma stopWriter_live [simp]: "signal_live (stopWriter t) = signal_live t"
  by (rule ext, case_tac x) simp_all

lemma stopWriter_inv: "transport_inv t \<Longrightarrow> tgood t (stopWriter t, [])"
  by (cases "t_state t") (auto simp add: transport_inv_def tgood_def transport_rank_def signalled_def transport_ok_def)

lemma close_good: 
  assumes inv: "transport_inv t" shows "tgood t (close_transport b t)"
proof (cases "t_closing t")
  case True
  then show ?thesis by (simp add: close_transport_def tgood_refl inv)
next
  case False
  show ?thesis
  proof (cases "t_state t")
    case TIdle
    with inv False show ?thesis
      by (auto simp: close_transport_def Let_def settleExit_def settleChildClose_def tbind_def tgood_def signalled_def
        signal_all transport_rank_def transport_inv_def transport_ok_def)
  next
    case TOpening
    with inv False show ?thesis
      by (auto simp: close_transport_def Let_def settleOpen_def shutdown_start_def tbind_def tgood_def signalled_def
        signal_all transport_rank_def transport_inv_def transport_ok_def elim: exit_honest_mono)
  next
    case TOpen
    with inv False show ?thesis
      by (auto simp: close_transport_def Let_def settleOpen_def shutdown_start_def tbind_def tgood_def signalled_def
        signal_all transport_rank_def transport_inv_def transport_ok_def elim: exit_honest_mono)
  next
    case TClosing
    with inv False show ?thesis by (simp add: transport_inv_def transport_ok_def)
  next
    case TClosed
    with inv False show ?thesis
      by (auto simp: close_transport_def Let_def tgood_def signalled_def
        signal_all transport_rank_def transport_inv_def transport_ok_def)
  qed
qed

lemma tgood_same:
  "transport_inv t' \<Longrightarrow> signal_live t' = signal_live t \<Longrightarrow> t_state t' = t_state t \<Longrightarrow> signalled (t', out) = [] \<Longrightarrow>
   tgood t (t', out)"
  by (simp add: tgood_def transport_rank_def)

lemma tgood_trans0: "tgood t (t1, []) \<Longrightarrow> tgood t1 r \<Longrightarrow> tgood t r"
  using tgood_tbind [of t "(t1, [])" "\<lambda>_. r"] by (simp add: tbind_def)

lemma tgood_inv: "tgood t r \<Longrightarrow> transport_inv (fst r)"
  by (simp add: tgood_def)

lemma tgood_seq: "tgood t r \<Longrightarrow> (\<And>t'. transport_inv t' \<Longrightarrow> tgood t' (f t')) \<Longrightarrow> tgood t (tbind r f)"
  by (rule tgood_tbind) (simp_all add: tgood_inv)

lemma abort_good: "transport_inv t \<Longrightarrow> tgood t (abortFramer t, [])"
  by (rule tgood_same) (simp_all add: signalled_def)

lemma notify_good: "transport_inv t \<Longrightarrow> tgood t (notifyDisconnect c t)"
  by (auto simp: notifyDisconnect_def tgood_def signalled_def signal_all transport_rank_def transport_inv_def transport_ok_def
      cong: transport_phase.case_cong)

lemma settleOpen_good: "transport_inv t \<Longrightarrow> tgood t (settleOpen e t)"
  by (auto simp: settleOpen_def tgood_def signalled_def signal_all transport_rank_def transport_inv_def transport_ok_def
      cong: transport_phase.case_cong split: option.splits)

lemma settleExit_good:
  "transport_inv t \<Longrightarrow> exit_honest (Some r) (t_exitObserved t) (t_state t) \<Longrightarrow> tgood t (settleExit r t)"
  by (auto simp: settleExit_def tgood_def signalled_def signal_all transport_rank_def transport_inv_def transport_ok_def
      cong: transport_phase.case_cong)

lemma settleChildClose_good: "transport_inv t \<Longrightarrow> tgood t (settleChildClose t, [])"
  by (cases "t_state t") (auto simp: settleChildClose_def tgood_def signalled_def signal_all transport_rank_def
      transport_inv_def transport_ok_def)

lemma fail_good: "transport_inv t \<Longrightarrow> tgood t (fail b c t)"
proof -
  assume inv: "transport_inv t"
  then have "tgood (abortFramer t) (stopWriter (abortFramer t), [])" by (simp add: stopWriter_inv)
  then have s: "tgood t (stopWriter (abortFramer t), [])" by (rule tgood_trans0 [OF abort_good [OF inv]])
  have n: "tgood t (tbind (notifyDisconnect c (stopWriter (abortFramer t))) (close_transport b))"
    by (rule tgood_trans0 [OF s], rule tgood_seq) (use tgood_inv [OF s] in \<open>simp_all add: notify_good close_good\<close>)
  with s show ?thesis by (simp add: fail_def Let_def)
qed

lemma startup_good: "transport_inv t \<Longrightarrow> tgood t (startupExpired b t)"
proof -
  assume inv: "transport_inv t"
  have "tgood t (tbind (settleOpen (Some StartupTimeout) (abortFramer t)) (close_transport b))"
    by (rule tgood_trans0 [OF abort_good [OF inv]], rule tgood_seq)
      (use inv in \<open>simp_all add: settleOpen_good close_good\<close>)
  with inv show ?thesis by (simp add: startupExpired_def tgood_refl)
qed

lemma open_good: "transport_inv t \<Longrightarrow> tgood t (open_transport cf i th t)"
proof (cases "t_state t = TIdle")
  case False
  assume "transport_inv t"
  then have "tgood t (t, [])" "tgood t (t, [OpenRefused])" by (simp_all add: tgood_def signalled_def)
  with False show ?thesis by (simp add: open_transport_def)
next
  case True
  assume inv: "transport_inv t"
  let ?t2 = "t\<lparr>t_state := TOpening, t_instance := Some i, t_child := True, t_writer := Some new_writer,
     t_framer := Some new_framer\<rparr>"
  have "\<not> accepting ?t2" by (simp add: accepting_def new_writer_def)
  then have 2: "tgood t (?t2, [])" using inv True
    by (auto simp: tgood_def signalled_def signal_all transport_rank_def transport_inv_def transport_ok_def exit_honest_def
        split: option.splits exit_receipt.splits)
  have ex: "tgood t (startupExpired True ?t2)"
    by (rule tgood_trans0 [OF 2 startup_good]) (use tgood_inv [OF 2] in simp)
  have "tgood t (tbind (settleExit NotSpawned (t\<lparr>t_instance := Some i, t_state := TClosed, t_stdioClosed := True\<rparr>))
            (\<lambda>t. settleOpen (Some SpawnFailed) (settleChildClose t)))"
    using inv True by (auto simp: settleExit_def settleOpen_def settleChildClose_def tbind_def tgood_def signalled_def
        signal_all transport_rank_def transport_inv_def transport_ok_def accepting_def)
  with 2 ex True show ?thesis by (simp add: open_transport_def Let_def)
qed

lemma spawn_good: "transport_inv t \<Longrightarrow> t_child t \<Longrightarrow> tgood t (spawnObserved pid t)"
proof -
  assume inv: "transport_inv t" and child: "t_child t"
  have 1: "tgood t (t\<lparr>t_spawned := True, t_pid := pid\<rparr>, [])" if "t_state t \<noteq> TOpening"
    using inv child that by (cases "t_state t") (auto simp: tgood_def signalled_def signal_all transport_rank_def
        transport_inv_def transport_ok_def)
  let ?t2 = "t\<lparr>t_spawned := True, t_pid := pid, t_state := TOpen, t_writer := map_option start_writer (t_writer t)\<rparr>"
  have 2: "tgood t (?t2, [])" if "t_state t = TOpening"
    using inv that by (auto simp: tgood_def signalled_def signal_all transport_rank_def
        transport_inv_def transport_ok_def exit_honest_def split: option.splits exit_receipt.splits)
  have "tgood t (settleOpen None ?t2)" if "t_state t = TOpening"
    using tgood_trans0 [OF 2 [OF that] settleOpen_good] tgood_inv [OF 2 [OF that]] by simp
  with 1 show ?thesis by (simp add: spawnObserved_def Let_def)
qed

lemma observeExit_good: "transport_inv t \<Longrightarrow> tgood t (observeExit c s t)"
proof -
  assume inv: "transport_inv t"
  show ?thesis
  proof (cases "t_exitObserved t \<or> \<not> t_spawned t")
    case True
    then show ?thesis by (simp add: observeExit_def tgood_refl inv)
  next
    case False
    let ?t1 = "stopWriter (t\<lparr>t_exitObserved := True\<rparr>)"
    have 1: "tgood t (?t1, [])" using False inv
      by (cases "t_state t") (auto simp: tgood_def signalled_def signal_all transport_rank_def
        transport_inv_def transport_ok_def elim: exit_honest_mono)
    have "tgood t (settleExit (Exited i p c s) ?t1)" for i p
      by (rule tgood_trans0 [OF 1 settleExit_good]) (use tgood_inv [OF 1] in simp_all)
    with 1 False show ?thesis by (simp add: observeExit_def Let_def split: option.split)
  qed
qed

lemma processError_good: "transport_inv t \<Longrightarrow> tgood t (processError b t)"
proof -
  assume inv: "transport_inv t"
  have "tgood t (tbind (settleExit NotSpawned t) (\<lambda>t. tbind (settleOpen (Some SpawnFailed) t) (close_transport b)))"
    by (intro tgood_seq settleExit_good settleOpen_good close_good inv) simp_all
  with inv show ?thesis by (simp add: processError_def fail_good)
qed

lemma framer_set_good: "transport_inv t \<Longrightarrow> tgood t (t\<lparr>t_framer := Some f\<rparr>, map OutFrame frames)"
proof -
  have "concat (map signals (map OutFrame frames)) = []" by (induction frames) auto
  moreover have "signal_live (t\<lparr>t_framer := Some f\<rparr>) = signal_live t" by (rule ext, case_tac x) simp_all
  moreover assume "transport_inv t"
  then have "transport_inv (t\<lparr>t_framer := Some f\<rparr>)"
    by (cases "t_state t") (auto simp add: transport_inv_def transport_ok_def)
  ultimately show ?thesis by (intro tgood_same) (simp_all add: signalled_def)
qed

lemma framed_good: "transport_inv t \<Longrightarrow> tgood t (framed_step b r t)"
proof -
  assume inv: "transport_inv t"
  obtain f frames err where r: "r = (f, frames, err)" by (cases r)
  note 1 = framer_set_good [OF inv, of f frames]
  show ?thesis unfolding framed_step_def r prod.case
    by (rule tgood_seq [OF 1]) (simp add: fail_good tgood_refl split: option.split)
qed

lemma framer_end_good: "transport_inv t \<Longrightarrow> tgood t (fst (framer_end cf b t))"
  by (simp add: framer_end_def Let_def framed_good tgood_refl split: option.split)

lemma fail_if_open_good: "transport_inv t \<Longrightarrow> tgood t (fail_if_open b c t)"
  by (simp add: fail_if_open_def fail_good tgood_refl)

lemma stdout_end_good: "transport_inv t \<Longrightarrow> tgood t (stdout_end cf b t)"
proof -
  assume inv: "transport_inv t"
  note 1 = framer_end_good [OF inv, of cf b]
  have "tgood t (tbind (fst (framer_end cf b t)) (fail_if_open b StdoutClosed))"
    by (rule tgood_seq [OF 1 fail_if_open_good])
  with 1 show ?thesis by (simp add: stdout_end_def split_beta Let_def)
qed

lemma stdio_good: "transport_inv t \<Longrightarrow> tgood t (t\<lparr>t_stdioClosed := True\<rparr>, [])"
proof (rule tgood_same)
  assume "transport_inv t"
  then show "transport_inv (t\<lparr>t_stdioClosed := True\<rparr>)"
    by (cases "t_state t") (auto simp add: transport_inv_def transport_ok_def)
  show "signal_live (t\<lparr>t_stdioClosed := True\<rparr>) = signal_live t" by (rule ext, case_tac x) simp_all
qed (simp_all add: signalled_def)

lemma processClosed_good: "transport_inv t \<Longrightarrow> tgood t (processClosed cf b c s t)"
proof -
  assume inv: "transport_inv t"
  have last: "transport_inv t \<Longrightarrow> tgood t (fail_if_open b ProcessExited (settleChildClose t))" for t
    using tgood_trans0 [OF settleChildClose_good fail_if_open_good] tgood_inv [OF settleChildClose_good] by simp
  have mid: "transport_inv t \<Longrightarrow> tgood t (if \<not> t_spawned t then settleExit NotSpawned t else (t, []))" for t
    by (simp add: settleExit_good tgood_refl)
  have ob: "transport_inv t \<Longrightarrow> tgood t (observeExit c s (t\<lparr>t_stdioClosed := True\<rparr>))" for t
    using tgood_trans0 [OF stdio_good observeExit_good] tgood_inv [OF stdio_good] by simp
  show ?thesis unfolding processClosed_def
    by (intro tgood_seq framer_end_good [OF inv] ob mid last)
qed

lemma shutdown_good: "transport_inv t \<Longrightarrow> tgood t (shutdown_resume t)"
proof (cases "t_shutdown t")
  case GraceWait
  assume inv: "transport_inv t"
  with GraceWait have "t_state t = TClosing" by (cases "t_state t") (auto simp: transport_inv_def transport_ok_def split: if_splits)
  with GraceWait inv show ?thesis
    by (auto simp: shutdown_resume_def shutdown_finish_def tgood_def signalled_def signal_all transport_rank_def
        transport_inv_def transport_ok_def exit_honest_def split: option.splits exit_receipt.splits)
next
  case ForceWait
  assume inv: "transport_inv t"
  with ForceWait have "t_state t = TClosing" by (cases "t_state t") (auto simp: transport_inv_def transport_ok_def split: if_splits)
  with ForceWait inv show ?thesis
    by (auto simp: shutdown_resume_def shutdown_finish_def settleExit_def tbind_def tgood_def signalled_def signal_all
        transport_rank_def transport_inv_def transport_ok_def exit_honest_def split: option.splits exit_receipt.splits)
qed (simp_all add: shutdown_resume_def tgood_refl)

text \<open>The writer's operations other than \<open>start\<close> never begin to accept.\<close>

lemma with_writer_good:
  assumes inv: "transport_inv t" and keep: "\<And>w. wr_accepting (fst (f w)) \<Longrightarrow> wr_accepting w"
  shows "tgood t (with_writer f t)"
proof (cases "t_writer t")
  case None
  then show ?thesis by (simp add: with_writer_def tgood_refl inv)
next
  case (Some w)
  obtain w' out where f: "f w = (w', out)" by (cases "f w")
  have acc: "accepting (t\<lparr>t_writer := Some w'\<rparr>) \<Longrightarrow> accepting t"
    using keep [of w] f Some by (simp add: accepting_def)
  have "transport_inv (t\<lparr>t_writer := Some w'\<rparr>)" using inv acc Some
    by (cases "t_state t") (auto simp add: transport_inv_def transport_ok_def)
  moreover have "signal_live (t\<lparr>t_writer := Some w'\<rparr>) = signal_live t" by (rule ext, case_tac x) simp_all
  moreover have "signalled (t\<lparr>t_writer := Some w'\<rparr>, map WriterOut out) = []"
    by (induction out) (simp_all add: signalled_def)
  ultimately show ?thesis using Some f by (simp add: with_writer_def tgood_same)
qed

lemma writer_keeps_accepting:
  "wr_accepting (fst (settle_write i ok w)) = wr_accepting w" "wr_accepting (account i w) = wr_accepting w"
  "wr_accepting (fst (write_frame m bl th n w)) = wr_accepting w"
  "wr_accepting (fst (write_callback i ok w)) = wr_accepting w"
  "wr_accepting (fst (write_timeout i w)) \<Longrightarrow> wr_accepting w"
proof -
  show s: "wr_accepting (fst (settle_write i ok w)) = wr_accepting w" for i ok w
    by (simp add: settle_write_def split: option.split)
  show a: "wr_accepting (account i w) = wr_accepting w" for i w
    by (simp add: account_def split: option.split)
  show "wr_accepting (fst (write_frame m bl th n w)) = wr_accepting w"
    using s a by (simp add: write_frame_def Let_def split_beta)
  show "wr_accepting (fst (write_callback i ok w)) = wr_accepting w" using s a by (simp add: write_callback_def)
  show "wr_accepting (fst (write_timeout i w)) \<Longrightarrow> wr_accepting w"
    by (simp add: write_timeout_def stop_writer_def Let_def split_beta split: option.splits if_splits)
qed

lemma transport_step_good:
  assumes inv: "transport_inv t"
  shows "tgood t (transport_step cf t e)"
proof (cases e)
  case (TWriteCall bl th n)
  have "tgood t (t, [WriterOut WriteRefused])" using inv by (simp add: tgood_def signalled_def)
  moreover have "tgood t (with_writer (write_frame (cf_maxOutstandingWriteBytes cf) bl th n) t)"
    by (rule with_writer_good [OF inv]) (simp add: writer_keeps_accepting(3))
  ultimately show ?thesis by (simp add: TWriteCall write_transport_def)
next
  case (TWriteTimer b i)
  have "tgood t (with_writer (write_timeout i) t)" using with_writer_good [OF inv] writer_keeps_accepting(5) by blast
  then show ?thesis unfolding TWriteTimer transport_step.simps writer_timeout_def
    by (rule tgood_seq) (simp add: fail_good tgood_refl)
next
  case (TWriteCallback i ok)
  have "tgood t (with_writer (write_callback i ok) t)"
    by (rule with_writer_good [OF inv]) (simp add: writer_keeps_accepting(4))
  then show ?thesis by (simp add: TWriteCallback)
next
  case (TSpawn pid)
  then show ?thesis by (simp add: from_child_def spawn_good inv tgood_refl)
next
  case (TStdinError b)
  then show ?thesis by (simp add: from_child_def stdin_error_def fail_good inv tgood_refl split: option.split)
next
  case (TStdout b c)
  then show ?thesis by (simp add: from_child_def stdout_data_def framed_good inv tgood_refl split: option.split)
qed (use inv in \<open>simp_all add: from_child_def tgood_refl open_good close_good processError_good observeExit_good
    processClosed_good stdout_end_good fail_good startup_good with_writer_good writer_keeps_accepting shutdown_good\<close>)

interpretation transport_once: once_only "transport_step cf" transport_inv signal_live signals
proof
  fix t e assume "transport_inv t"
  from transport_step_good [OF this, of cf e]
  show "transport_inv (fst (transport_step cf t e))"
    and "distinct (concat (map signals (snd (transport_step cf t e))))"
    unfolding tgood_def signalled_def by blast+
next
  fix t e x assume inv: "transport_inv t" and "x \<in> set (concat (map signals (snd (transport_step cf t e))))"
  with transport_step_good [OF inv, of cf e]
  show "signal_live t x \<and> \<not> signal_live (fst (transport_step cf t e)) x"
    unfolding tgood_def signalled_def by blast
next
  fix t e x assume inv: "transport_inv t" and "\<not> signal_live t x"
  with transport_step_good [OF inv, of cf e] show "\<not> signal_live (fst (transport_step cf t e)) x"
    unfolding tgood_def by blast
qed

lemma transport_inv_new: "transport_inv new_transport"
  by (simp add: transport_inv_def transport_ok_def new_transport_def accepting_def)

lemma transport_run_rank:
  "transport_inv t \<Longrightarrow> transport_rank t \<le> transport_rank (fst (run_steps (transport_step cf) t es))"
  by (rule transport_once.run_mono) (use transport_step_good in \<open>auto simp: tgood_def\<close>)

section \<open>Shutting down\<close>

text \<open>
  Once the shutdown waits, two continuations at most close the transport, whatever the child does;
  it is killed only when it has not closed within the grace period, and \<open>close\<close> is confirmed only
  when its streams are known to be closed.
\<close>

lemma shutdown_twice:
  assumes "transport_inv t" and "t_state t = TClosing"
  shows "t_state (fst (run_steps (transport_step cf) t [TShutdownResume, TShutdownResume])) = TClosed"
  using assms
  by (auto simp: transport_inv_def transport_ok_def shutdown_resume_def shutdown_finish_def tbind_def Let_def split_beta)

lemma shutdown_honest:
  assumes "transport_inv t" and "t_state t = TClosing"
  shows "KillChild \<in> set (snd (shutdown_resume t)) \<Longrightarrow> t_shutdown t = GraceWait \<and> \<not> t_childCloseSettled t"
    and "CloseResolved \<in> set (snd (shutdown_resume t)) \<longleftrightarrow> t_childCloseSettled t"
    and "CloseRejected \<in> set (snd (shutdown_resume t)) \<longleftrightarrow> \<not> t_childCloseSettled t \<and> t_shutdown t = ForceWait"
  using assms
  by (auto simp: transport_inv_def transport_ok_def shutdown_resume_def shutdown_finish_def tbind_def settleExit_def
      Let_def split_beta split: if_splits)

definition waits_left :: "nat \<Rightarrow> transport \<Rightarrow> bool" where
  "waits_left n t = (t_state t = TClosed \<or> t_state t = TClosing \<and> (n = 1 \<and> t_shutdown t = ForceWait \<or> 2 \<le> n))"

lemma waits_left_kept:
  assumes inv: "transport_inv t" and w: "waits_left n t"
  shows "waits_left n (fst (transport_step cf t e))"
proof -
  let ?u = "fst (transport_step cf t e)"
  have g: "transport_inv ?u" "transport_rank t \<le> transport_rank ?u" "\<not> signal_live t SigKill \<longrightarrow> \<not> signal_live ?u SigKill"
    using transport_step_good [OF inv, of cf e] unfolding tgood_def by blast+
  have "t_state ?u = TClosed \<or> t_state t = TClosing \<and> t_state ?u = TClosing"
    using g(2) w unfolding waits_left_def transport_rank_def by (cases "t_state t"; cases "t_state ?u") simp_all
  then show ?thesis
    using g w by (auto simp: waits_left_def transport_inv_def transport_ok_def)
qed

lemma waits_left_resumed: "transport_inv t \<Longrightarrow> waits_left (Suc n) t \<Longrightarrow> waits_left n (fst (shutdown_resume t))"
  by (auto simp: waits_left_def transport_inv_def transport_ok_def shutdown_resume_def shutdown_finish_def tbind_def Let_def split_beta
      split: if_splits)

lemma waits_run_out:
  "transport_inv t \<Longrightarrow> waits_left n t \<Longrightarrow> n \<le> count_list es TShutdownResume \<Longrightarrow>
    t_state (fst (run_steps (transport_step cf) t es)) = TClosed"
proof (induction es arbitrary: t n)
  case Nil
  then show ?case by (simp add: waits_left_def)
next
  case (Cons e es)
  have i: "transport_inv (fst (transport_step cf t e))" by (rule transport_once.step_inv [OF Cons.prems(1)])
  show ?case
  proof (cases "e = TShutdownResume \<and> 0 < n")
    case True
    then obtain m where "n = Suc m" by (cases n) auto
    then show ?thesis using Cons.IH [OF i, of m] Cons.prems True waits_left_resumed [of t m] by (simp add: Let_def split_beta)
  next
    case False
    then show ?thesis using Cons.IH [OF i waits_left_kept [OF Cons.prems(1,2)]] Cons.prems(3)
      by (cases "n = 0") (auto simp: Let_def split_beta split: if_splits)
  qed
qed

end
