(* ===== verification/FixtureRuntime.thy ===== *)
theory FixtureRuntime
  imports JsMap JsData
begin

text \<open>
  Fixtures (\<open>packages/core/src/fixture.ts\<close>, \<open>fixture-registry.ts\<close>, \<open>fixture-runtime.ts\<close>): on-demand
  setup of a fixture after its dependencies, caching, rollback of a failed use, and teardown in
  reverse order, for a test runtime and its worker parent.

  A fixture definition is an object with an identity: \<open>defs r\<close> is the definition at reference
  \<open>r\<close>, so dependency graphs may share and may be cyclic. The product's setup callback is a
  parameter: \<open>fx_reads\<close> are the \<open>context.get\<close> calls it makes and \<open>fx_setup\<close> what it does with the
  values it read (it throws, or returns a value and says whether it has a teardown). The shared
  coordinator runs one \<open>use\<close> or \<open>close\<close> at a time, so one operation is one function here.
\<close>

section \<open>Definitions and state\<close>

datatype fixture_scope = TestFixture | WorkerFixture

record fixture =
  fx_id :: string
  fx_scope :: fixture_scope
  fx_deps :: "nat list"
  fx_reads :: "nat list"
  fx_setup :: "nat list \<Rightarrow> string + nat \<times> bool"

record fixture_state =
  st_ref :: nat
  st_value :: nat
  st_teardown :: bool

datatype fixture_error =
    EmptyId
  | UnknownScope
  | DependencyTwice
  | ScopeMismatch string
  | DependencyCycle "string list"
  | RegisteredTwice string
  | NotDeclared string
  | NotResolved string
  | SetupThrew string
  | NotAccepting
  | ChildrenOpen
  | AlreadyRegistered string
  | NoFixture string
  | UnregisteredFixture string string
  | SetupAndRollback fixture_error "string list"
  | TeardownsFailed "string list"

datatype fixture_log = SetUp string | TornDown string

record fixture_runtime =
  rt_states :: "(string \<times> fixture_state) list"
  rt_order :: "string list"

text \<open>The runtimes one operation touches: a test runtime, and its worker or a worker on its own.\<close>

record runtimes =
  rs_test :: "fixture_runtime option"
  rs_worker :: "fixture_runtime option"

definition new_runtime :: fixture_runtime where
  "new_runtime = \<lparr>rt_states = [], rt_order = []\<rparr>"

fun runtime_at :: "fixture_scope \<Rightarrow> runtimes \<Rightarrow> fixture_runtime" where
  "runtime_at TestFixture w = (case rs_test w of Some r \<Rightarrow> r | None \<Rightarrow> new_runtime)"
| "runtime_at WorkerFixture w = (case rs_worker w of Some r \<Rightarrow> r | None \<Rightarrow> new_runtime)"

fun set_runtime :: "fixture_scope \<Rightarrow> fixture_runtime \<Rightarrow> runtimes \<Rightarrow> runtimes" where
  "set_runtime TestFixture r w = w\<lparr>rs_test := Some r\<rparr>"
| "set_runtime WorkerFixture r w = w\<lparr>rs_worker := Some r\<rparr>"

section \<open>Defining and registering\<close>

definition assertFixtureId :: "string \<Rightarrow> fixture_error + unit" where
  "assertFixtureId i = rguard (\<not> blank i) EmptyId"

text \<open>\<open>scope_known\<close>: the scope is absent, \<open>test\<close> or \<open>worker\<close>.\<close>

definition defineFixture :: "(nat \<Rightarrow> fixture) \<Rightarrow> bool \<Rightarrow> fixture \<Rightarrow> fixture_error + fixture" where
  "defineFixture defs scope_known fx =
     rbind (assertFixtureId (fx_id fx)) (\<lambda>_.
     if \<not> scope_known then Inl UnknownScope else
     let ids = map (\<lambda>r. fx_id (defs r)) (fx_deps fx) in
     if card (set ids) \<noteq> length ids then Inl DependencyTwice else Inr fx)"

type_synonym registry = "(string \<times> nat) list"

definition register_fixture :: "(nat \<Rightarrow> fixture) \<Rightarrow> nat \<Rightarrow> registry \<Rightarrow> fixture_error + registry" where
  "register_fixture defs r reg = rbind (assertFixtureId (fx_id (defs r))) (\<lambda>_.
     if map_has reg (fx_id (defs r)) then Inl (AlreadyRegistered (fx_id (defs r)))
     else Inr (map_set (fx_id (defs r)) r reg))"

fun new_registry :: "(nat \<Rightarrow> fixture) \<Rightarrow> nat list \<Rightarrow> registry \<Rightarrow> fixture_error + registry" where
  "new_registry defs [] reg = Inr reg"
| "new_registry defs (r # rs) reg = rbind (register_fixture defs r reg) (new_registry defs rs)"

definition require_fixture :: "registry \<Rightarrow> string \<Rightarrow> fixture_error + nat" where
  "require_fixture reg i = (case map_of reg i of None \<Rightarrow> Inl (NoFixture i) | Some r \<Rightarrow> Inr r)"

definition resolve_fixtures :: "registry \<Rightarrow> string list \<Rightarrow> fixture_error + nat list" where
  "resolve_fixtures reg ids = rmap (require_fixture reg) ids"

text \<open>A manifest is its id and its required fixtures.\<close>

definition validateComponentManifests :: "registry \<Rightarrow> (string \<times> string list) list \<Rightarrow> fixture_error + unit" where
  "validateComponentManifests reg manifests = rall (\<lambda>(m, fs).
     rall (\<lambda>f. if map_has reg f then Inr () else Inl (UnregisteredFixture m f)) fs) manifests"

section \<open>Resolving\<close>

definition runtimeFor :: "fixture_scope \<Rightarrow> runtimes \<Rightarrow> fixture \<Rightarrow> fixture_error + fixture_scope" where
  "runtimeFor self w fx = (if fx_scope fx = self then Inr self
     else if fx_scope fx = WorkerFixture \<and> rs_worker w \<noteq> None then Inr WorkerFixture
     else Inl (ScopeMismatch (fx_id fx)))"

definition readResolvedDependency :: "(nat \<Rightarrow> fixture) \<Rightarrow> fixture_scope \<Rightarrow> runtimes \<Rightarrow> nat \<Rightarrow> fixture_error + nat" where
  "readResolvedDependency defs self w r =
     rbind (runtimeFor self w (defs r)) (\<lambda>target.
     case map_of (rt_states (runtime_at target w)) (fx_id (defs r)) of
       None \<Rightarrow> Inl (NotResolved (fx_id (defs r)))
     | Some st \<Rightarrow> if st_ref st \<noteq> r then Inl (NotResolved (fx_id (defs r))) else Inr (st_value st))"

definition context_get :: "(nat \<Rightarrow> fixture) \<Rightarrow> fixture_scope \<Rightarrow> runtimes \<Rightarrow> nat \<Rightarrow> nat \<Rightarrow> fixture_error + nat" where
  "context_get defs self w r d = (if d \<notin> set (fx_deps (defs r)) then Inl (NotDeclared (fx_id (defs d)))
     else readResolvedDependency defs self w d)"

type_synonym resolved = "runtimes \<times> fixture_log list \<times> (fixture_error + nat)"

definition setup_fixture :: "(nat \<Rightarrow> fixture) \<Rightarrow> fixture_scope \<Rightarrow> nat \<Rightarrow> runtimes \<Rightarrow> resolved" where
  "setup_fixture defs self r w =
     (case rbind (rmap (context_get defs self w r) (fx_reads (defs r))) (\<lambda>vals.
         case fx_setup (defs r) vals of Inl e \<Rightarrow> Inl (SetupThrew e) | Inr x \<Rightarrow> Inr x) of
        Inl e \<Rightarrow> (w, [], Inl e)
      | Inr (v, td) \<Rightarrow>
          let rt = runtime_at self w; i = fx_id (defs r) in
          (set_runtime self (rt\<lparr>rt_states := map_set i \<lparr>st_ref = r, st_value = v, st_teardown = td\<rparr> (rt_states rt),
                              rt_order := rt_order rt @ [i]\<rparr>) w, [SetUp i], Inr v))"

text \<open>
  The first argument bounds the nesting of dependencies; \<open>None\<close> is running out of it. A definition
  with a fresh id is needed for every level, so a bound above the number of ids is never reached.
\<close>

fun resolve :: "(nat \<Rightarrow> fixture) \<Rightarrow> nat \<Rightarrow> fixture_scope \<Rightarrow> string list \<Rightarrow> nat \<Rightarrow> runtimes \<Rightarrow> resolved option"
  and resolve_deps :: "(nat \<Rightarrow> fixture) \<Rightarrow> nat \<Rightarrow> fixture_scope \<Rightarrow> string list \<Rightarrow> nat list \<Rightarrow> runtimes
    \<Rightarrow> (runtimes \<times> fixture_log list \<times> (fixture_error + unit)) option" where
  "resolve defs 0 self ancestry r w = None"
| "resolve defs (Suc n) self ancestry r w =
     (let fx = defs r; i = fx_id fx in
      case rbind (assertFixtureId i) (\<lambda>_. runtimeFor self w fx) of
        Inl e \<Rightarrow> Some (w, [], Inl e)
      | Inr target \<Rightarrow>
          if i \<in> set ancestry then Some (w, [], Inl (DependencyCycle (ancestry @ [i])))
          else (case map_of (rt_states (runtime_at target w)) i of
            Some st \<Rightarrow> Some (w, [], if st_ref st \<noteq> r then Inl (RegisteredTwice i) else Inr (st_value st))
          | None \<Rightarrow>
             (case resolve_deps defs n target (ancestry @ [i]) (fx_deps fx) w of
                None \<Rightarrow> None
              | Some (w1, lg, Inl e) \<Rightarrow> Some (w1, lg, Inl e)
              | Some (w1, lg, Inr _) \<Rightarrow>
                  (case setup_fixture defs target r w1 of (w2, lg2, res) \<Rightarrow> Some (w2, lg @ lg2, res)))))"
| "resolve_deps defs n self ancestry [] w = Some (w, [], Inr ())"
| "resolve_deps defs n self ancestry (d # ds) w =
     (case resolve defs n self ancestry d w of
        None \<Rightarrow> None
      | Some (w1, lg, Inl e) \<Rightarrow> Some (w1, lg, Inl e)
      | Some (w1, lg, Inr _) \<Rightarrow>
          (case resolve_deps defs n self ancestry ds w1 of
             None \<Rightarrow> None
           | Some (w2, lg2, res) \<Rightarrow> Some (w2, lg @ lg2, res)))"

section \<open>Rolling back, using, closing\<close>

text \<open>
  \<open>td\<close> says which teardown callbacks throw. The order list is popped from its end; an id without a
  state has no teardown to call.
\<close>

function rollback :: "(string \<Rightarrow> bool) \<Rightarrow> nat \<Rightarrow> fixture_runtime \<Rightarrow> fixture_runtime \<times> fixture_log list \<times> string list" where
  "rollback td checkpoint rt =
     (if length (rt_order rt) \<le> checkpoint then (rt, [], [])
      else let i = last (rt_order rt); st = map_of (rt_states rt) i;
               rt1 = rt\<lparr>rt_order := butlast (rt_order rt), rt_states := map_delete i (rt_states rt)\<rparr>;
               called = (case st of Some s \<Rightarrow> st_teardown s | None \<Rightarrow> False);
               (rt2, lg, errs) = rollback td checkpoint rt1 in
        (rt2, (if called then [TornDown i] else []) @ lg, (if called \<and> td i then [i] else []) @ errs))"
  by pat_completeness auto
termination
  by (relation "measure (\<lambda>(_, c, rt). length (rt_order rt) - c)") auto

declare rollback.simps [simp del]

definition use_fixture :: "(nat \<Rightarrow> fixture) \<Rightarrow> (string \<Rightarrow> bool) \<Rightarrow> nat \<Rightarrow> fixture_scope \<Rightarrow> nat \<Rightarrow> runtimes
    \<Rightarrow> resolved option" where
  "use_fixture defs td fuel self r w = (case runtimeFor self w (defs r) of
     Inl e \<Rightarrow> Some (w, [], Inl e)
   | Inr target \<Rightarrow>
      let checkpoint = length (rt_order (runtime_at target w)) in
      (case resolve defs fuel target [] r w of
         None \<Rightarrow> None
       | Some (w1, lg, Inr v) \<Rightarrow> Some (w1, lg, Inr v)
       | Some (w1, lg, Inl e) \<Rightarrow>
           let (rt, lg2, errs) = rollback td checkpoint (runtime_at target w1) in
           Some (set_runtime target rt w1, lg @ lg2,
             Inl (if errs \<noteq> [] then SetupAndRollback e errs else e))))"

definition close_runtime :: "(string \<Rightarrow> bool) \<Rightarrow> fixture_runtime \<Rightarrow> fixture_runtime \<times> fixture_log list \<times> (fixture_error + unit)" where
  "close_runtime td rt = (let (rt', lg, errs) = rollback td 0 rt in
     (rt', lg, if errs \<noteq> [] then Inl (TeardownsFailed errs) else Inr ()))"

section \<open>Invariants\<close>

definition runtime_inv :: "(nat \<Rightarrow> fixture) \<Rightarrow> fixture_runtime \<Rightarrow> bool" where
  "runtime_inv defs rt = (map fst (rt_states rt) = rt_order rt \<and> distinct (rt_order rt)
     \<and> (\<forall>e \<in> set (rt_states rt). fx_id (defs (st_ref (snd e))) = fst e \<and> \<not> blank (fst e)))"

definition world_inv :: "(nat \<Rightarrow> fixture) \<Rightarrow> runtimes \<Rightarrow> bool" where
  "world_inv defs w = (\<forall>sc. runtime_inv defs (runtime_at sc w))"

text \<open>The later world only has further fixtures, none of them with an id of the ancestry.\<close>

definition grows :: "string list \<Rightarrow> runtimes \<Rightarrow> runtimes \<Rightarrow> bool" where
  "grows anc w w' = ((rs_worker w' = None \<longleftrightarrow> rs_worker w = None) \<and> (\<forall>sc. \<exists>ns.
     rt_states (runtime_at sc w') = rt_states (runtime_at sc w) @ ns
     \<and> rt_order (runtime_at sc w') = rt_order (runtime_at sc w) @ map fst ns
     \<and> fst ` set ns \<inter> set anc = {}))"

lemma grows_refl: "grows anc w w"
  unfolding grows_def by (intro conjI allI exI [of _ "[]"]) simp_all

lemma grows_trans: "grows anc w w1 \<Longrightarrow> grows anc w1 w2 \<Longrightarrow> grows anc w w2"
proof -
  assume a: "grows anc w w1" and b: "grows anc w1 w2"
  show ?thesis unfolding grows_def
  proof (intro conjI allI)
    show "rs_worker w2 = None \<longleftrightarrow> rs_worker w = None" using a b by (simp add: grows_def)
    fix sc
    obtain n1 n2 where "rt_states (runtime_at sc w1) = rt_states (runtime_at sc w) @ n1"
      "rt_order (runtime_at sc w1) = rt_order (runtime_at sc w) @ map fst n1" "fst ` set n1 \<inter> set anc = {}"
      "rt_states (runtime_at sc w2) = rt_states (runtime_at sc w1) @ n2"
      "rt_order (runtime_at sc w2) = rt_order (runtime_at sc w1) @ map fst n2" "fst ` set n2 \<inter> set anc = {}"
      using a b unfolding grows_def by meson
    then show "\<exists>ns. rt_states (runtime_at sc w2) = rt_states (runtime_at sc w) @ ns
     \<and> rt_order (runtime_at sc w2) = rt_order (runtime_at sc w) @ map fst ns \<and> fst ` set ns \<inter> set anc = {}"
      by (intro exI [of _ "n1 @ n2"]) auto
  qed
qed

lemma grows_ancestry: "grows anc w w' \<Longrightarrow> set anc' \<subseteq> set anc \<Longrightarrow> grows anc' w w'"
  unfolding grows_def by (meson disjoint_iff subsetD)

lemma grows_lookup:
  assumes "grows anc w w'" and "map_of (rt_states (runtime_at sc w)) i = Some st"
  shows "map_of (rt_states (runtime_at sc w')) i = Some st"
proof -
  obtain ns where "rt_states (runtime_at sc w') = rt_states (runtime_at sc w) @ ns"
    using assms(1) unfolding grows_def by blast
  with assms(2) show ?thesis by (simp add: map_of_append)
qed

lemma runtime_at_set [simp]:
  "runtime_at sc (set_runtime sc' rt w) = (if sc = sc' then rt else runtime_at sc w)"
  by (cases sc; cases sc') simp_all

lemma set_runtime_worker: "rs_worker (set_runtime sc rt w) = None \<longleftrightarrow> rs_worker w = None \<and> sc = TestFixture"
  by (cases sc) simp_all

text \<open>Where a dependency lives as seen from a runtime that may hold it.\<close>

definition holds :: "(nat \<Rightarrow> fixture) \<Rightarrow> fixture_scope \<Rightarrow> runtimes \<Rightarrow> nat \<Rightarrow> nat \<Rightarrow> bool" where
  "holds defs self w r v = (\<exists>target st. runtimeFor self w (defs r) = Inr target \<and> st_ref st = r \<and> st_value st = v
     \<and> map_of (rt_states (runtime_at target w)) (fx_id (defs r)) = Some st)"

lemma runtimeFor_grows: "grows anc w w' \<Longrightarrow> runtimeFor self w' fx = runtimeFor self w fx"
  by (simp add: grows_def runtimeFor_def)

lemma holds_grows: "grows anc w w' \<Longrightarrow> holds defs self w r v \<Longrightarrow> holds defs self w' r v"
  unfolding holds_def using grows_lookup runtimeFor_grows by metis

lemma holds_read: "holds defs self w r v \<Longrightarrow> readResolvedDependency defs self w r = Inr v"
  by (auto simp: holds_def readResolvedDependency_def)

lemma runtimeFor_scope: "runtimeFor self w fx = Inr target \<Longrightarrow> target = fx_scope fx \<and> (target = self \<or> rs_worker w \<noteq> None)"
  by (auto simp: runtimeFor_def split: if_splits)

lemma runtimeFor_idem: "runtimeFor self w fx = Inr target \<Longrightarrow> runtimeFor target w fx = Inr target"
  by (auto simp: runtimeFor_def split: if_splits)

text \<open>Setting up a fixture whose id is new to its runtime.\<close>

lemma setup_cases:
  assumes "setup_fixture defs self r w = (w', lg, res)"
  obtains (err) e where "w' = w" "lg = []" "res = Inl e"
  | (ok) v td where "res = Inr v" "lg = [SetUp (fx_id (defs r))]"
      "w' = set_runtime self (runtime_at self w\<lparr>rt_states := map_set (fx_id (defs r))
            \<lparr>st_ref = r, st_value = v, st_teardown = td\<rparr> (rt_states (runtime_at self w)),
          rt_order := rt_order (runtime_at self w) @ [fx_id (defs r)]\<rparr>) w"
  using assms by (auto simp: setup_fixture_def Let_def split: sum.splits prod.splits)

lemma setup_grows:
  assumes res: "setup_fixture defs self r w = (w', lg, res)" and inv: "world_inv defs w"
    and fresh: "map_of (rt_states (runtime_at self w)) (fx_id (defs r)) = None"
    and worker: "self = TestFixture \<or> rs_worker w \<noteq> None" and nb: "\<not> blank (fx_id (defs r))"
    and anc: "fx_id (defs r) \<notin> set anc"
  shows "world_inv defs w'" and "grows anc w w'"
    and "case res of Inl _ \<Rightarrow> w' = w \<and> lg = [] | Inr v \<Rightarrow> lg = [SetUp (fx_id (defs r))] \<and>
      (\<exists>st. map_of (rt_states (runtime_at self w')) (fx_id (defs r)) = Some st \<and> st_ref st = r \<and> st_value st = v)"
proof -
  let ?i = "fx_id (defs r)"
  let ?rt = "runtime_at self w"
  have eq: "map_set ?i st (rt_states ?rt) = rt_states ?rt @ [(?i, st)]" for st
    using fresh by (simp add: map_set_fresh map_of_eq_None_iff)
  have notin: "?i \<notin> set (rt_order ?rt)"
  proof -
    have "map fst (rt_states ?rt) = rt_order ?rt" using inv by (simp add: world_inv_def runtime_inv_def)
    then have "set (rt_order ?rt) = fst ` set (rt_states ?rt)" by (metis set_map)
    with fresh show ?thesis by (simp add: map_of_eq_None_iff)
  qed
  show "world_inv defs w'" using res
  proof (cases rule: setup_cases)
    case err
    with inv show ?thesis by simp
  next
    case (ok v td)
    then show ?thesis using inv notin nb by (auto simp: world_inv_def runtime_inv_def eq)
  qed
  show "grows anc w w'" using res
  proof (cases rule: setup_cases)
    case err
    then show ?thesis by (simp add: grows_refl)
  next
    case (ok v td)
    have "\<exists>ns. rt_states (runtime_at sc w') = rt_states (runtime_at sc w) @ ns
       \<and> rt_order (runtime_at sc w') = rt_order (runtime_at sc w) @ map fst ns \<and> fst ` set ns \<inter> set anc = {}" for sc
    proof (cases "sc = self")
      case True
      then show ?thesis using anc
        by (intro exI [of _ "[(?i, \<lparr>st_ref = r, st_value = v, st_teardown = td\<rparr>)]"]) (simp add: ok(3) eq)
    next
      case False
      then show ?thesis by (intro exI [of _ "[]"]) (simp add: ok(3))
    qed
    then show ?thesis using worker by (auto simp: grows_def ok(3) set_runtime_worker)
  qed
  show "case res of Inl _ \<Rightarrow> w' = w \<and> lg = [] | Inr v \<Rightarrow> lg = [SetUp ?i] \<and>
      (\<exists>st. map_of (rt_states (runtime_at self w')) ?i = Some st \<and> st_ref st = r \<and> st_value st = v)"
    using res by (cases rule: setup_cases) (simp_all add: map_of_map_set)
qed

text \<open>Every fixture was set up after its dependencies: earlier in its runtime, or in the worker.\<close>

definition ordered :: "(nat \<Rightarrow> fixture) \<Rightarrow> runtimes \<Rightarrow> bool" where
  "ordered defs w = (\<forall>sc xs e ys. rt_states (runtime_at sc w) = xs @ e # ys \<longrightarrow>
     (\<forall>d \<in> set (fx_deps (defs (st_ref (snd e)))). fx_id (defs d) \<in>
        (if fx_scope (defs d) = sc then fst ` set xs
         else fst ` set (rt_states (runtime_at WorkerFixture w)))))"

lemma setup_ordered:
  assumes res: "setup_fixture defs self r w = (w', lg, res)" and ord: "ordered defs w"
    and fresh: "map_of (rt_states (runtime_at self w)) (fx_id (defs r)) = None"
    and deps: "\<forall>d \<in> set (fx_deps (defs r)). \<exists>v. holds defs self w d v"
  shows "ordered defs w'"
proof -
  let ?i = "fx_id (defs r)"
  let ?rt = "runtime_at self w"
  consider (err) "w' = w"
    | (ok) st where "st_ref st = r" "rt_states (runtime_at self w') = rt_states ?rt @ [(?i, st)]"
        "\<And>sc. sc \<noteq> self \<Longrightarrow> rt_states (runtime_at sc w') = rt_states (runtime_at sc w)"
    using res
  proof (cases rule: setup_cases)
    case (ok v td)
    then show ?thesis using fresh that(2) [of "\<lparr>st_ref = r, st_value = v, st_teardown = td\<rparr>"]
      by (simp add: map_set_fresh map_of_eq_None_iff)
  qed (use that(1) in simp)
  then show ?thesis
  proof cases
    case err
    with ord show ?thesis by simp
  next
    case ok
    have keep: "fst ` set (rt_states (runtime_at sc w)) \<subseteq> fst ` set (rt_states (runtime_at sc w'))" for sc
      using ok(2,3) by (cases "sc = self") auto
    have new: "fx_id (defs d) \<in> (if fx_scope (defs d) = self then fst ` set (rt_states ?rt)
         else fst ` set (rt_states (runtime_at WorkerFixture w)))" if "d \<in> set (fx_deps (defs r))" for d
    proof -
      obtain v where "holds defs self w d v" using deps \<open>d \<in> _\<close> by blast
      then obtain target st' where "runtimeFor self w (defs d) = Inr target"
        "map_of (rt_states (runtime_at target w)) (fx_id (defs d)) = Some st'" by (auto simp: holds_def)
      then show ?thesis by (auto simp: runtimeFor_def split: if_splits dest: map_of_Some_in_keys)
    qed
    show ?thesis unfolding ordered_def
    proof (intro allI impI ballI)
      fix sc xs e ys d
      assume st: "rt_states (runtime_at sc w') = xs @ e # ys" and d: "d \<in> set (fx_deps (defs (st_ref (snd e))))"
      show "fx_id (defs d) \<in> (if fx_scope (defs d) = sc then fst ` set xs
         else fst ` set (rt_states (runtime_at WorkerFixture w')))"
      proof (cases "sc = self \<and> ys = []")
        case True
        then have "xs = rt_states ?rt" "e = (?i, st)" using st ok(2) by auto
        then show ?thesis using new [of d] d ok(1) True keep [of WorkerFixture] by (auto split: if_splits)
      next
        case False
        then obtain ys' where "rt_states (runtime_at sc w) = xs @ e # ys'"
        proof (cases "sc = self")
          case True
          then have "ys \<noteq> []" using False by simp
          then obtain ys' y where "ys = ys' @ [y]" by (cases ys rule: rev_cases) auto
          with st ok(2) True have "rt_states (runtime_at sc w) = xs @ e # ys'" by simp
          then show ?thesis using that by blast
        qed (use st ok(3) that in auto)
        then have "fx_id (defs d) \<in> (if fx_scope (defs d) = sc then fst ` set xs
            else fst ` set (rt_states (runtime_at WorkerFixture w)))"
          using ord [unfolded ordered_def, rule_format, OF _ d] by blast
        then show ?thesis using subsetD [OF keep [of WorkerFixture], of "fx_id (defs d)"]
          by (cases "fx_scope (defs d) = sc") simp_all
      qed
    qed
  qed
qed

lemma resolve_sound:
  "resolve defs n self anc r w = Some (w', lg, res) \<Longrightarrow> world_inv defs w \<Longrightarrow> ordered defs w \<Longrightarrow>
   self = TestFixture \<or> rs_worker w \<noteq> None \<Longrightarrow>
   world_inv defs w' \<and> ordered defs w' \<and> grows anc w w' \<and> (\<forall>v. res = Inr v \<longrightarrow> holds defs self w' r v)"
  and resolve_deps_sound:
  "resolve_deps defs n self anc ds w = Some (w', lg, res') \<Longrightarrow> world_inv defs w \<Longrightarrow> ordered defs w \<Longrightarrow>
   self = TestFixture \<or> rs_worker w \<noteq> None \<Longrightarrow>
   world_inv defs w' \<and> ordered defs w' \<and> grows anc w w'
   \<and> (res' = Inr () \<longrightarrow> (\<forall>d \<in> set ds. \<exists>v. holds defs self w' d v))"
proof (induction defs n self anc r w and defs n self anc ds w arbitrary: w' lg res and w' lg res'
    rule: resolve_resolve_deps.induct)
  case (1 defs self ancestry r w)
  then show ?case by simp
next
  case (2 defs n self anc r w)
  let ?i = "fx_id (defs r)"
  show ?case
  proof (cases "rbind (assertFixtureId ?i) (\<lambda>_. runtimeFor self w (defs r))")
    case (Inl e)
    with "2.prems" show ?thesis by (auto simp: grows_refl)
  next
    case (Inr target)
    then have nb: "\<not> blank ?i" and tgt: "runtimeFor self w (defs r) = Inr target" by (auto simp: assertFixtureId_def)
    have worker: "target = TestFixture \<or> rs_worker w \<noteq> None" using runtimeFor_scope [OF tgt] "2.prems"(4) by auto
    show ?thesis
    proof (cases "?i \<in> set anc")
      case True
      with "2.prems" Inr show ?thesis by (auto simp: grows_refl)
    next
      case fresh_anc: False
      show ?thesis
      proof (cases "map_of (rt_states (runtime_at target w)) ?i")
        case (Some st)
        with "2.prems" Inr fresh_anc tgt show ?thesis by (auto simp: grows_refl holds_def split: if_splits)
      next
        case None
        obtain w1 l1 r1 where deps: "resolve_deps defs n target (anc @ [?i]) (fx_deps (defs r)) w = Some (w1, l1, r1)"
          using "2.prems"(1) Inr fresh_anc None by (auto simp: Let_def split: option.splits)
        note ih = "2.IH" [OF refl refl Inr fresh_anc None deps "2.prems"(2,3) worker]
        have g1: "grows anc w w1" by (rule grows_ancestry [of "anc @ [?i]"]) (use ih in auto)
        show ?thesis
        proof (cases r1)
          case (Inl e)
          with "2.prems"(1) \<open>rbind _ _ = Inr target\<close> fresh_anc None deps have "w' = w1" "res = Inl e" by (auto simp: Let_def)
          with ih g1 show ?thesis by simp
        next
          case (Inr u)
          obtain w2 l2 r2 where s: "setup_fixture defs target r w1 = (w2, l2, r2)"
            by (cases "setup_fixture defs target r w1")
          have eqs: "w' = w2" "res = r2"
            using "2.prems"(1) \<open>rbind _ _ = Inr target\<close> fresh_anc None deps Inr s by (auto simp: Let_def)
          have fresh1: "map_of (rt_states (runtime_at target w1)) ?i = None"
          proof -
            obtain ns where "rt_states (runtime_at target w1) = rt_states (runtime_at target w) @ ns"
              "fst ` set ns \<inter> set (anc @ [?i]) = {}" using ih unfolding grows_def by blast
            with None show ?thesis unfolding map_of_eq_None_iff by auto
          qed
          have worker1: "target = TestFixture \<or> rs_worker w1 \<noteq> None" using worker g1 by (simp add: grows_def)
          have inv1: "world_inv defs w1" "ordered defs w1" using ih by simp_all
          have held: "\<forall>d \<in> set (fx_deps (defs r)). \<exists>v. holds defs target w1 d v" using ih Inr by simp
          note sg = setup_grows [OF s inv1(1) fresh1 worker1 nb fresh_anc]
          have "ordered defs w2" by (rule setup_ordered [OF s inv1(2) fresh1 held])
          moreover have "grows anc w w2" by (rule grows_trans [OF g1 sg(2)])
          moreover have "holds defs self w2 r v" if "r2 = Inr v" for v
            using sg(3) that tgt runtimeFor_grows [OF \<open>grows anc w w2\<close>] by (auto simp: holds_def)
          ultimately show ?thesis using sg(1) eqs by simp
        qed
      qed
    qed
  qed
next
  case (3 defs n self anc w)
  then show ?case by (simp add: grows_refl)
next
  case (4 defs n self anc d ds w)
  obtain w1 l1 r1 where d: "resolve defs n self anc d w = Some (w1, l1, r1)"
    using "4.prems"(1) by (auto split: option.splits)
  note ih1 = "4.IH"(1) [OF d "4.prems"(2-4)]
  show ?case
  proof (cases r1)
    case (Inl e)
    with "4.prems"(1) d ih1 show ?thesis by auto
  next
    case (Inr v)
    obtain w2 l2 r2 where ds: "resolve_deps defs n self anc ds w1 = Some (w2, l2, r2)"
      using "4.prems"(1) d Inr by (auto split: option.splits)
    have worker1: "self = TestFixture \<or> rs_worker w1 \<noteq> None" using ih1 "4.prems"(4) by (auto simp: grows_def)
    have inv1: "world_inv defs w1" "ordered defs w1" using ih1 by simp_all
    note ih2 = "4.IH"(2) [OF d refl refl Inr ds inv1 worker1]
    have eqs: "w' = w2" "res' = r2" using "4.prems"(1) d Inr ds by auto
    have "grows anc w w2" using ih1 ih2 grows_trans by blast
    moreover have "\<exists>v. holds defs self w2 d v" using ih1 ih2 Inr holds_grows by blast
    ultimately show ?thesis using ih2 eqs by auto
  qed
qed

section \<open>Termination\<close>

text \<open>
  Every level of the recursion adds an id of a definition to the ancestry, so a bound above the
  number of ids is never reached.
\<close>

lemma resolve_enough:
  "finite I \<Longrightarrow> range (\<lambda>r. fx_id (defs r)) \<subseteq> I \<Longrightarrow> card (I - set anc) < n \<Longrightarrow> resolve defs n self anc r w \<noteq> None"
  and resolve_deps_enough:
  "finite I \<Longrightarrow> range (\<lambda>r. fx_id (defs r)) \<subseteq> I \<Longrightarrow> card (I - set anc) < n \<Longrightarrow> resolve_deps defs n self anc ds w \<noteq> None"
proof (induction defs n self anc r w and defs n self anc ds w rule: resolve_resolve_deps.induct)
  case (1 defs self anc r w)
  then show ?case by simp
next
  case (2 defs n self anc r w)
  let ?i = "fx_id (defs r)"
  show ?case
  proof (cases "rbind (assertFixtureId ?i) (\<lambda>_. runtimeFor self w (defs r))")
    case (Inl e)
    then show ?thesis by simp
  next
    case (Inr target)
    show ?thesis
    proof (cases "?i \<in> set anc \<or> map_of (rt_states (runtime_at target w)) ?i \<noteq> None")
      case True
      with Inr show ?thesis by (auto simp: Let_def split: option.splits)
    next
      case False
      then have new: "?i \<in> I - set anc" using "2.prems"(2) by auto
      have "I - set (anc @ [?i]) = (I - set anc) - {?i}" by auto
      then have "card (I - set (anc @ [?i])) < n"
        using card_Diff1_less [OF finite_Diff [OF "2.prems"(1)] new] "2.prems"(3) by simp
      then have "resolve_deps defs n target (anc @ [?i]) (fx_deps (defs r)) w \<noteq> None"
        using "2.IH" [OF refl refl Inr] False "2.prems"(1,2) by blast
      with Inr False show ?thesis by (auto simp: Let_def split: prod.splits sum.splits)
    qed
  qed
next
  case (3 defs n self anc w)
  then show ?case by simp
next
  case (4 defs n self anc d ds w)
  have "resolve defs n self anc d w \<noteq> None" using "4.IH"(1) "4.prems" by blast
  then obtain w1 l1 r1 where d: "resolve defs n self anc d w = Some (w1, l1, r1)" by auto
  show ?case
  proof (cases r1)
    case (Inr v)
    have "resolve_deps defs n self anc ds w1 \<noteq> None" using "4.IH"(2) [OF d refl refl Inr "4.prems"] .
    with d Inr show ?thesis by auto
  qed (use d in simp)
qed

text \<open>Resolving in a worker never touches a test runtime.\<close>

lemma worker_only:
  "resolve defs n self anc r w = Some (w', lg, res) \<Longrightarrow> self = WorkerFixture \<Longrightarrow> rs_test w' = rs_test w"
  and worker_only_deps:
  "resolve_deps defs n self anc ds w = Some (w', lg, res') \<Longrightarrow> self = WorkerFixture \<Longrightarrow> rs_test w' = rs_test w"
proof (induction defs n self anc r w and defs n self anc ds w arbitrary: w' lg res and w' lg res'
    rule: resolve_resolve_deps.induct)
  case (1 defs self anc r w)
  then show ?case by simp
next
  case (2 defs n self anc r w)
  show ?case
  proof (cases "rbind (assertFixtureId (fx_id (defs r))) (\<lambda>_. runtimeFor self w (defs r))")
    case (Inl e)
    with "2.prems" show ?thesis by auto
  next
    case (Inr target)
    then have tgt: "target = WorkerFixture" using "2.prems"(2) by (auto simp: runtimeFor_def split: if_splits)
    show ?thesis
    proof (cases "fx_id (defs r) \<in> set anc \<or> map_of (rt_states (runtime_at target w)) (fx_id (defs r)) \<noteq> None")
      case True
      with Inr "2.prems" show ?thesis by (auto simp: Let_def split: option.splits if_splits)
    next
      case False
      then obtain w1 l1 r1 where deps: "resolve_deps defs n target (anc @ [fx_id (defs r)]) (fx_deps (defs r)) w
          = Some (w1, l1, r1)" using "2.prems"(1) Inr by (auto simp: Let_def split: option.splits)
      have "rs_test w1 = rs_test w" using "2.IH" [OF refl refl Inr] False deps tgt by blast
      moreover have "rs_test w2 = rs_test w1" if "setup_fixture defs target r w1 = (w2, l2, r2)" for w2 l2 r2
        using that tgt by (cases rule: setup_cases) simp_all
      ultimately show ?thesis using "2.prems"(1) Inr False deps
        by (auto simp: Let_def split: sum.splits prod.splits)
    qed
  qed
next
  case (3 defs n self anc w)
  then show ?case by simp
next
  case (4 defs n self anc d ds w)
  obtain w1 l1 r1 where d: "resolve defs n self anc d w = Some (w1, l1, r1)"
    using "4.prems"(1) by (auto split: option.splits)
  note ih = "4.IH"(1) [OF d "4.prems"(2)]
  show ?case
  proof (cases r1)
    case (Inl e)
    with "4.prems"(1) d ih show ?thesis by auto
  next
    case (Inr v)
    obtain w2 l2 r2 where ds: "resolve_deps defs n self anc ds w1 = Some (w2, l2, r2)"
      using "4.prems"(1) d Inr by (auto split: option.splits)
    from "4.IH"(2) [OF d refl refl Inr ds "4.prems"(2)] ih show ?thesis using "4.prems"(1) d Inr ds by auto
  qed
qed

section \<open>Rollback\<close>

text \<open>Rolling back to a checkpoint undoes exactly what was set up since, in reverse order.\<close>

definition teardown_log :: "(string \<times> fixture_state) list \<Rightarrow> fixture_log list" where
  "teardown_log ns = map (\<lambda>e. TornDown (fst e)) (filter (\<lambda>e. st_teardown (snd e)) (rev ns))"

definition teardown_errors :: "(string \<Rightarrow> bool) \<Rightarrow> (string \<times> fixture_state) list \<Rightarrow> string list" where
  "teardown_errors td ns = filter td (map fst (filter (\<lambda>e. st_teardown (snd e)) (rev ns)))"

lemma rollback_done: "length (rt_order rt) \<le> c \<Longrightarrow> rollback td c rt = (rt, [], [])"
  by (subst rollback.simps) simp

lemma rollback_step:
  "length (rt_order rt) > c \<Longrightarrow> rollback td c rt =
     (let i = last (rt_order rt); st = map_of (rt_states rt) i;
          rt1 = rt\<lparr>rt_order := butlast (rt_order rt), rt_states := map_delete i (rt_states rt)\<rparr>;
          called = (case st of Some s \<Rightarrow> st_teardown s | None \<Rightarrow> False);
          (rt2, lg, errs) = rollback td c rt1 in
      (rt2, (if called then [TornDown i] else []) @ lg, (if called \<and> td i then [i] else []) @ errs))"
  by (subst rollback.simps) simp

lemma rollback_undoes:
  "distinct (map fst (states @ ns)) \<Longrightarrow> length order = checkpoint \<Longrightarrow>
   rollback td checkpoint \<lparr>rt_states = states @ ns, rt_order = order @ map fst ns\<rparr>
     = (\<lparr>rt_states = states, rt_order = order\<rparr>, teardown_log ns, teardown_errors td ns)"
proof (induction ns rule: rev_induct)
  case Nil
  then show ?case by (simp add: rollback_done teardown_log_def teardown_errors_def)
next
  case (snoc e ns)
  obtain i st where e: "e = (i, st)" by (cases e)
  have fresh: "i \<notin> fst ` set (states @ ns)" using snoc.prems(1) by (auto simp: e)
  then have "\<forall>e \<in> set states. fst e \<noteq> i" "\<forall>e \<in> set ns. fst e \<noteq> i" by auto
  then have del: "map_delete i (states @ ns @ [(i, st)]) = states @ ns" by (simp add: map_delete_def)
  have look: "map_of (states @ ns @ [(i, st)]) i = Some st"
    using fresh by (auto simp: map_of_append map_add_def map_of_eq_None_iff split: option.splits dest!: map_of_Some_in_keys)
  have d: "distinct (map fst (states @ ns))" using snoc.prems(1) by simp
  note ih = snoc.IH [OF d snoc.prems(2)]
  show ?case
    by (subst rollback_step)
      (use snoc.prems(2) ih look del in \<open>simp_all add: e Let_def teardown_log_def teardown_errors_def butlast_append\<close>)
qed

text \<open>A failed \<open>use\<close> leaves its runtime as it was and tears down what it had set up, last first.\<close>

lemma use_sound:
  assumes u: "use_fixture defs td fuel self r w = Some (w', lg, res)" and inv: "world_inv defs w" "ordered defs w"
    and self: "self = TestFixture \<or> rs_worker w \<noteq> None"
  shows "world_inv defs w' \<and> ordered defs w'"
    and "res = Inr v \<Longrightarrow> holds defs self w' r v \<and> grows [] w w'"
    and "res = Inl e \<Longrightarrow> runtimeFor self w (defs r) = Inr target \<Longrightarrow> runtime_at target w' = runtime_at target w"
proof -
  have rec: "rt = \<lparr>rt_states = rt_states rt, rt_order = rt_order rt\<rparr>" for rt :: fixture_runtime by simp
  have all: "(world_inv defs w' \<and> ordered defs w') \<and> (\<forall>v. res = Inr v \<longrightarrow> holds defs self w' r v \<and> grows [] w w') \<and>
      (\<forall>e target. res = Inl e \<and> runtimeFor self w (defs r) = Inr target \<longrightarrow> runtime_at target w' = runtime_at target w)"
  proof (cases "runtimeFor self w (defs r)")
    case (Inl e)
    with u inv show ?thesis by (auto simp: use_fixture_def)
  next
    case (Inr target)
    have worker: "target = TestFixture \<or> rs_worker w \<noteq> None" using runtimeFor_scope [OF Inr] self by auto
    obtain w1 l1 r1 where res1: "resolve defs fuel target [] r w = Some (w1, l1, r1)"
      using u Inr by (auto simp: use_fixture_def Let_def split: option.splits)
    note s = resolve_sound [OF res1 inv worker]
    show ?thesis
    proof (cases r1)
      case ok: (Inr x)
      have "w' = w1" "res = Inr x" using u Inr res1 ok by (auto simp: use_fixture_def Let_def)
      moreover have "holds defs self w1 r x"
      proof -
        have "holds defs target w1 r x" using s ok by simp
        moreover have "runtimeFor self w1 (defs r) = runtimeFor target w1 (defs r)"
          using s runtimeFor_grows Inr runtimeFor_idem [OF Inr] by metis
        ultimately show ?thesis by (simp add: holds_def)
      qed
      ultimately show ?thesis using s by auto
    next
      case err: (Inl e)
      obtain ns where ns: "rt_states (runtime_at target w1) = rt_states (runtime_at target w) @ ns"
        "rt_order (runtime_at target w1) = rt_order (runtime_at target w) @ map fst ns"
        using s unfolding grows_def by blast
      have d: "distinct (map fst (rt_states (runtime_at target w) @ ns))"
        using s ns unfolding world_inv_def runtime_inv_def by metis
      have rb: "rollback td (length (rt_order (runtime_at target w))) (runtime_at target w1)
          = (runtime_at target w, teardown_log ns, teardown_errors td ns)"
        using rollback_undoes [OF d refl] ns rec by metis
      have w': "w' = set_runtime target (runtime_at target w) w1" "\<exists>e'. res = Inl e'"
        using u Inr res1 err rb by (auto simp: use_fixture_def Let_def)
      have states: "runtime_at sc w' = (if sc = target then runtime_at sc w else runtime_at sc w1)" for sc
        by (simp add: w')
      have "world_inv defs w'" using s inv unfolding world_inv_def states by simp
      moreover have "ordered defs w'" unfolding ordered_def
      proof (intro allI impI ballI)
        fix sc xs e ys d
        assume st: "rt_states (runtime_at sc w') = xs @ e # ys" and d: "d \<in> set (fx_deps (defs (st_ref (snd e))))"
        have keep: "fst ` set (rt_states (runtime_at WorkerFixture w)) \<subseteq> fst ` set (rt_states (runtime_at WorkerFixture w'))"
        proof -
          obtain m where "rt_states (runtime_at WorkerFixture w1) = rt_states (runtime_at WorkerFixture w) @ m"
            using s unfolding grows_def by blast
          then show ?thesis unfolding states by (cases target) auto
        qed
        have keep1: "target = TestFixture \<Longrightarrow> runtime_at WorkerFixture w' = runtime_at WorkerFixture w1"
          by (simp only: states fixture_scope.distinct if_False simp_thms)
        have same: "target = WorkerFixture \<Longrightarrow> runtime_at TestFixture w1 = runtime_at TestFixture w"
          using worker_only [OF res1] by simp
        consider (old) "rt_states (runtime_at sc w) = xs @ e # ys"
          | (worker) "target = TestFixture" "sc = WorkerFixture" "rt_states (runtime_at sc w1) = xs @ e # ys"
          using st same unfolding states by (cases sc; cases target) auto
        then show "fx_id (defs d) \<in> (if fx_scope (defs d) = sc then fst ` set xs
            else fst ` set (rt_states (runtime_at WorkerFixture w')))"
        proof cases
          case old
          then have "fx_id (defs d) \<in> (if fx_scope (defs d) = sc then fst ` set xs
            else fst ` set (rt_states (runtime_at WorkerFixture w)))"
            using inv(2) [unfolded ordered_def, rule_format, OF old d] by blast
          then show ?thesis using subsetD [OF keep, of "fx_id (defs d)"]
            by (cases "fx_scope (defs d) = sc") simp_all
        next
          case worker
          have "ordered defs w1" using s by simp
          from this [unfolded ordered_def, rule_format, OF worker(3) d] show ?thesis
            by (simp only: keep1 [OF worker(1)])
        qed
      qed
      ultimately show ?thesis using w' states Inr by auto
    qed
  qed
  show "world_inv defs w' \<and> ordered defs w'"
    and "res = Inr v \<Longrightarrow> holds defs self w' r v \<and> grows [] w w'"
    and "res = Inl e \<Longrightarrow> runtimeFor self w (defs r) = Inr target \<Longrightarrow> runtime_at target w' = runtime_at target w"
    using all by blast+
qed

lemma use_ends:
  assumes "finite I" and "range (\<lambda>r. fx_id (defs r)) \<subseteq> I" and "card I < fuel"
  shows "use_fixture defs td fuel self r w \<noteq> None"
proof (cases "runtimeFor self w (defs r)")
  case (Inr target)
  obtain w1 lg res where "resolve defs fuel target [] r w = Some (w1, lg, res)"
    using resolve_enough(1) [OF assms(1,2), of "[]" fuel target r w] assms(3) by auto
  then show ?thesis using Inr by (cases res) (simp_all add: use_fixture_def Let_def split_beta)
qed (simp add: use_fixture_def)

lemma empty_world: "world_inv defs \<lparr>rs_test = None, rs_worker = None\<rparr>" "ordered defs \<lparr>rs_test = None, rs_worker = None\<rparr>"
proof -
  have "rt_states (runtime_at sc \<lparr>rs_test = None, rs_worker = None\<rparr>) = []"
    and "rt_order (runtime_at sc \<lparr>rs_test = None, rs_worker = None\<rparr>) = []" for sc
    by (cases sc; simp add: new_runtime_def)+
  then show "world_inv defs \<lparr>rs_test = None, rs_worker = None\<rparr>" "ordered defs \<lparr>rs_test = None, rs_worker = None\<rparr>"
    by (simp_all add: world_inv_def ordered_def runtime_inv_def)
qed

text \<open>A declared dependency is always there when the setup of a fixture reads it.\<close>

lemma declared_read_ok:
  "\<forall>d \<in> set (fx_deps (defs r)). \<exists>v. holds defs self w d v \<Longrightarrow> d \<in> set (fx_deps (defs r)) \<Longrightarrow>
   \<exists>v. context_get defs self w r d = Inr v"
  using holds_read by (fastforce simp: context_get_def)

text \<open>Closing tears down every fixture of the runtime, in the reverse of the order of setup.\<close>

lemma close_all:
  assumes "runtime_inv defs rt"
  shows "close_runtime td rt = (new_runtime, teardown_log (rt_states rt),
     if teardown_errors td (rt_states rt) \<noteq> [] then Inl (TeardownsFailed (teardown_errors td (rt_states rt))) else Inr ())"
proof -
  have "rt = \<lparr>rt_states = [] @ rt_states rt, rt_order = [] @ map fst (rt_states rt)\<rparr>"
    using assms by (cases rt) (simp add: runtime_inv_def)
  then have "rollback td 0 rt = rollback td 0 \<lparr>rt_states = [] @ rt_states rt, rt_order = [] @ map fst (rt_states rt)\<rparr>"
    by (rule arg_cong)
  also have "\<dots> = (\<lparr>rt_states = [], rt_order = []\<rparr>, teardown_log (rt_states rt), teardown_errors td (rt_states rt))"
    by (rule rollback_undoes) (use assms in \<open>simp_all add: runtime_inv_def\<close>)
  finally have "rollback td 0 rt
      = (\<lparr>rt_states = [], rt_order = []\<rparr>, teardown_log (rt_states rt), teardown_errors td (rt_states rt))" .
  then show ?thesis by (simp add: close_runtime_def new_runtime_def)
qed

text \<open>In the log of a close, a fixture comes before every dependency of its own runtime.\<close>

lemma teardown_before_deps:
  assumes "ordered defs w" and "rt_states (runtime_at sc w) = xs @ e # ys" and "st_teardown (snd e)"
    and d: "d \<in> set (fx_deps (defs (st_ref (snd e))))" "fx_scope (defs d) = sc"
  shows "\<exists>later. teardown_log (rt_states (runtime_at sc w)) = teardown_log ys @ TornDown (fst e) # later
     \<and> fx_id (defs d) \<in> fst ` set xs \<and> later = teardown_log xs"
  using assms(1) [unfolded ordered_def, rule_format, OF assms(2) d(1)] d(2) assms(3)
  by (simp add: assms(2) teardown_log_def)

section \<open>Accepting work\<close>

text \<open>
  The guards that are read at the call, before the coordinator runs anything: a closing runtime takes
  no work, and a worker cannot close while a test scope of its own is open.
\<close>

record runtime_meta =
  rm_scope :: fixture_scope
  rm_parent :: "nat option"
  rm_children :: "nat list"
  rm_closing :: bool
  rm_closed :: bool

type_synonym runtime_world = "(nat \<times> runtime_meta) list"

definition assertAcceptingWork :: "runtime_meta \<Rightarrow> fixture_error + unit" where
  "assertAcceptingWork m = (if rm_closing m \<or> rm_closed m then Inl NotAccepting else Inr ())"

definition new_worker :: "nat \<Rightarrow> runtime_world \<Rightarrow> runtime_world" where
  "new_worker i ws = (if map_has ws i then ws
     else map_set i \<lparr>rm_scope = WorkerFixture, rm_parent = None, rm_children = [], rm_closing = False, rm_closed = False\<rparr> ws)"

definition createTestScope :: "nat \<Rightarrow> nat \<Rightarrow> runtime_world \<Rightarrow> runtime_world \<times> (fixture_error + unit)" where
  "createTestScope child parent ws = (case map_of ws parent of
     None \<Rightarrow> (ws, Inl NotAccepting)
   | Some m \<Rightarrow> (case assertAcceptingWork m of
       Inl e \<Rightarrow> (ws, Inl e)
     | Inr _ \<Rightarrow> if rm_scope m \<noteq> WorkerFixture \<or> map_has ws child then (ws, Inl (ScopeMismatch []))
         else (map_set child \<lparr>rm_scope = TestFixture, rm_parent = Some parent, rm_children = [],
                 rm_closing = False, rm_closed = False\<rparr>
               (map_set parent (m\<lparr>rm_children := set_add child (rm_children m)\<rparr>) ws), Inr ())))"

definition close_requested :: "nat \<Rightarrow> runtime_world \<Rightarrow> runtime_world \<times> (fixture_error + unit)" where
  "close_requested i ws = (case map_of ws i of
     None \<Rightarrow> (ws, Inl NotAccepting)
   | Some m \<Rightarrow> if rm_closing m then (ws, Inr ())
       else if rm_scope m = WorkerFixture \<and> rm_children m \<noteq> [] then (ws, Inl ChildrenOpen)
       else (map_set i (m\<lparr>rm_closing := True\<rparr>) ws, Inr ()))"

text \<open>The queued part of a close, after the teardowns.\<close>

definition close_finished :: "nat \<Rightarrow> runtime_world \<Rightarrow> runtime_world" where
  "close_finished i ws = (case map_of ws i of
     None \<Rightarrow> ws
   | Some m \<Rightarrow> if \<not> rm_closing m then ws
       else let ws1 = map_set i (m\<lparr>rm_closed := True\<rparr>) ws in
         (case rm_parent m of
            None \<Rightarrow> ws1
          | Some p \<Rightarrow> (case map_of ws1 p of None \<Rightarrow> ws1
              | Some pm \<Rightarrow> map_set p (pm\<lparr>rm_children := set_delete i (rm_children pm)\<rparr>) ws1)))"

datatype runtime_event = NewWorker nat | NewTest nat nat | CloseCall nat | CloseDone nat

fun runtime_step :: "runtime_world \<Rightarrow> runtime_event \<Rightarrow> runtime_world \<times> (fixture_error + unit) list" where
  "runtime_step ws (NewWorker i) = (new_worker i ws, [])"
| "runtime_step ws (NewTest c p) = (let (ws', r) = createTestScope c p ws in (ws', [r]))"
| "runtime_step ws (CloseCall i) = (let (ws', r) = close_requested i ws in (ws', [r]))"
| "runtime_step ws (CloseDone i) = (close_finished i ws, [])"

text \<open>A worker knows its open test scopes, and a closing worker has none.\<close>

definition child_ok :: "runtime_world \<Rightarrow> nat \<Rightarrow> runtime_meta \<Rightarrow> bool" where
  "child_ok ws c cm = (case rm_parent cm of None \<Rightarrow> True
     | Some p \<Rightarrow> (case map_of ws p of None \<Rightarrow> False
        | Some m \<Rightarrow> rm_closed cm \<or> c \<in> set (rm_children m) \<and> rm_scope m = WorkerFixture))"

definition scopes_inv :: "runtime_world \<Rightarrow> bool" where
  "scopes_inv ws = (\<forall>c cm. map_of ws c = Some cm \<longrightarrow> child_ok ws c cm \<and> (rm_closed cm \<longrightarrow> rm_closing cm)
     \<and> rm_parent cm \<noteq> Some c \<and> (rm_scope cm = WorkerFixture \<and> rm_closing cm \<longrightarrow> rm_children cm = []))"

lemma scopes_update:
  assumes inv: "scopes_inv ws" and m: "map_of ws i = Some m"
    and upd: "rm_scope m' = rm_scope m" "rm_parent m' = rm_parent m" "rm_children m' = rm_children m"
    and closed: "rm_closed m \<Longrightarrow> rm_closed m'" "rm_closed m' \<Longrightarrow> rm_closing m'"
      "rm_scope m = WorkerFixture \<and> rm_closing m' \<Longrightarrow> rm_children m = []"
  shows "scopes_inv (map_set i m' ws)"
  unfolding scopes_inv_def
proof (intro allI impI)
  fix c cm assume c: "map_of (map_set i m' ws) c = Some cm"
  have keep: "child_ok (map_set i m' ws) c cm0" if "child_ok ws c cm0" for c cm0
    using that m upd by (auto simp: child_ok_def map_of_map_set split: option.splits)
  show "child_ok (map_set i m' ws) c cm \<and> (rm_closed cm \<longrightarrow> rm_closing cm)
     \<and> rm_parent cm \<noteq> Some c \<and> (rm_scope cm = WorkerFixture \<and> rm_closing cm \<longrightarrow> rm_children cm = [])"
  proof (cases "c = i")
    case True
    then have "cm = m'" using c by (simp add: map_of_map_set)
    moreover have "child_ok ws i m'" using inv m upd closed(1)
      unfolding scopes_inv_def child_ok_def by (metis (no_types, lifting) option.case_eq_if)
    ultimately show ?thesis using inv m upd closed True keep [of i m'] by (auto simp: scopes_inv_def)
  next
    case False
    then have "map_of ws c = Some cm" using c by (simp add: map_of_map_set)
    then show ?thesis using inv keep by (auto simp: scopes_inv_def)
  qed
qed

lemma scopes_forget_child:
  assumes inv: "scopes_inv ws" and p: "map_of ws p = Some pm"
    and i: "\<And>cm. map_of ws i = Some cm \<Longrightarrow> rm_closed cm"
  shows "scopes_inv (map_set p (pm\<lparr>rm_children := set_delete i (rm_children pm)\<rparr>) ws)"
  unfolding scopes_inv_def
proof (intro allI impI)
  let ?pm = "pm\<lparr>rm_children := set_delete i (rm_children pm)\<rparr>"
  fix c cm assume c: "map_of (map_set p ?pm ws) c = Some cm"
  have keep: "child_ok (map_set p ?pm ws) c cm0" if "child_ok ws c cm0" "c = i \<Longrightarrow> rm_closed cm0" for cm0
    using that p by (auto simp: child_ok_def map_of_map_set split: option.splits)
  have pinv: "child_ok ws p pm \<and> (rm_closed pm \<longrightarrow> rm_closing pm) \<and> rm_parent pm \<noteq> Some p
      \<and> (rm_scope pm = WorkerFixture \<and> rm_closing pm \<longrightarrow> rm_children pm = [])"
    using inv p unfolding scopes_inv_def by blast
  show "child_ok (map_set p ?pm ws) c cm \<and> (rm_closed cm \<longrightarrow> rm_closing cm)
     \<and> rm_parent cm \<noteq> Some c \<and> (rm_scope cm = WorkerFixture \<and> rm_closing cm \<longrightarrow> rm_children cm = [])"
  proof (cases "c = p")
    case True
    then have cm: "cm = ?pm" using c by (simp add: map_of_map_set)
    have "child_ok ws p ?pm" using pinv by (auto simp add: child_ok_def split: option.splits)
    then show ?thesis using cm True pinv keep [of ?pm] i p by (auto simp: set_delete_def)
  next
    case False
    then have old: "map_of ws c = Some cm" using c by (simp add: map_of_map_set)
    then have "child_ok ws c cm \<and> (rm_closed cm \<longrightarrow> rm_closing cm) \<and> rm_parent cm \<noteq> Some c
      \<and> (rm_scope cm = WorkerFixture \<and> rm_closing cm \<longrightarrow> rm_children cm = [])"
      using inv unfolding scopes_inv_def by blast
    then show ?thesis using keep [of cm] i old by auto
  qed
qed

lemma scopes_new:
  assumes inv: "scopes_inv ws" and fresh: "map_of ws i = None" and m: "child_ok ws i m" "\<not> rm_closing m" "\<not> rm_closed m"
    "rm_parent m \<noteq> Some i"
  shows "scopes_inv (map_set i m ws)"
  unfolding scopes_inv_def
proof (intro allI impI)
  fix c cm assume c: "map_of (map_set i m ws) c = Some cm"
  have keep: "child_ok (map_set i m ws) c cm0" if "child_ok ws c cm0" for c cm0
    using that fresh by (auto simp: child_ok_def map_of_map_set split: option.splits)
  show "child_ok (map_set i m ws) c cm \<and> (rm_closed cm \<longrightarrow> rm_closing cm)
     \<and> rm_parent cm \<noteq> Some c \<and> (rm_scope cm = WorkerFixture \<and> rm_closing cm \<longrightarrow> rm_children cm = [])"
    using c inv m keep [of c cm] keep [of i m] by (cases "c = i") (auto simp: map_of_map_set scopes_inv_def)
qed

lemma scopes_adopt:
  assumes inv: "scopes_inv ws" and p: "map_of ws p = Some pm" and open_: "\<not> rm_closing pm" "rm_scope pm = WorkerFixture"
  shows "scopes_inv (map_set p (pm\<lparr>rm_children := set_add c0 (rm_children pm)\<rparr>) ws)"
  unfolding scopes_inv_def
proof (intro allI impI)
  let ?pm = "pm\<lparr>rm_children := set_add c0 (rm_children pm)\<rparr>"
  fix c cm assume c: "map_of (map_set p ?pm ws) c = Some cm"
  have keep: "child_ok (map_set p ?pm ws) c cm0" if "child_ok ws c cm0" for c cm0
    using that p by (auto simp: child_ok_def map_of_map_set split: option.splits)
  have pinv: "child_ok ws p pm \<and> (rm_closed pm \<longrightarrow> rm_closing pm) \<and> rm_parent pm \<noteq> Some p"
    using inv p unfolding scopes_inv_def by blast
  show "child_ok (map_set p ?pm ws) c cm \<and> (rm_closed cm \<longrightarrow> rm_closing cm)
     \<and> rm_parent cm \<noteq> Some c \<and> (rm_scope cm = WorkerFixture \<and> rm_closing cm \<longrightarrow> rm_children cm = [])"
  proof (cases "c = p")
    case True
    then have cm: "cm = ?pm" using c by (simp add: map_of_map_set)
    have "child_ok ws p ?pm" using pinv by (auto simp add: child_ok_def split: option.splits)
    then show ?thesis using cm True pinv keep [of p ?pm] open_ by auto
  next
    case False
    then have "map_of ws c = Some cm" using c by (simp add: map_of_map_set)
    then show ?thesis using inv keep [of c cm] unfolding scopes_inv_def by blast
  qed
qed

lemma scopes_step: 
  assumes inv: "scopes_inv ws" shows "scopes_inv (fst (runtime_step ws e))"
proof (cases e)
  case (NewWorker i)
  then show ?thesis using scopes_new [OF inv, of i] inv
    by (auto simp: new_worker_def map_has_iff child_ok_def)
next
  case (NewTest c p)
  show ?thesis
  proof (cases "\<exists>m. map_of ws p = Some m \<and> assertAcceptingWork m = Inr () \<and> rm_scope m = WorkerFixture \<and> \<not> map_has ws c")
    case False
    then have "fst (createTestScope c p ws) = ws"
      by (auto simp: createTestScope_def split: option.split sum.split)
    with inv show ?thesis by (simp add: NewTest split_beta Let_def)
  next
    case True
    then obtain m where m: "map_of ws p = Some m" "assertAcceptingWork m = Inr ()" "rm_scope m = WorkerFixture"
      "\<not> map_has ws c" by blast
    have acc: "\<not> rm_closing m" using m(2) by (auto simp: assertAcceptingWork_def split: if_splits)
    let ?ws1 = "map_set p (m\<lparr>rm_children := set_add c (rm_children m)\<rparr>) ws"
    have ne: "c \<noteq> p" using m(1,4) by (auto simp: map_has_iff)
    have "scopes_inv (map_set c \<lparr>rm_scope = TestFixture, rm_parent = Some p, rm_children = [],
                 rm_closing = False, rm_closed = False\<rparr> ?ws1)"
      by (rule scopes_new [OF scopes_adopt [OF inv m(1) acc m(3)]])
        (use m ne in \<open>simp_all add: map_of_map_set map_has_iff child_ok_def\<close>)
    then show ?thesis using m by (simp add: NewTest createTestScope_def)
  qed
next
  case (CloseCall i)
  show ?thesis
  proof (cases "map_of ws i")
    case None
    then show ?thesis using inv by (simp add: CloseCall close_requested_def)
  next
    case (Some m)
    have "scopes_inv (map_set i (m\<lparr>rm_closing := True\<rparr>) ws)" if "\<not> (rm_scope m = WorkerFixture \<and> rm_children m \<noteq> [])"
      by (rule scopes_update [OF inv Some]) (use that in auto)
    then show ?thesis using inv Some by (simp add: CloseCall close_requested_def)
  qed
next
  case (CloseDone i)
  show ?thesis
  proof (cases "\<exists>m. map_of ws i = Some m \<and> rm_closing m")
    case False
    then show ?thesis using inv by (auto simp: CloseDone close_finished_def split: option.split)
  next
    case True
    then obtain m where m: "map_of ws i = Some m" "rm_closing m" by blast
    let ?ws1 = "map_set i (m\<lparr>rm_closed := True\<rparr>) ws"
    have minv: "rm_scope m = WorkerFixture \<Longrightarrow> rm_children m = []" using inv m unfolding scopes_inv_def by blast
    have 1: "scopes_inv ?ws1" by (rule scopes_update [OF inv m(1)]) (use minv m(2) in simp_all)
    have 2: "scopes_inv (map_set p (pm\<lparr>rm_children := set_delete i (rm_children pm)\<rparr>) ?ws1)"
      if "map_of ?ws1 p = Some pm" for p pm
      by (rule scopes_forget_child [OF 1 that]) (simp add: map_of_map_set)
    show ?thesis using m 1 2 by (auto simp: CloseDone close_finished_def Let_def split: option.split)
  qed
qed

interpretation fixture_scopes: step_machine runtime_step scopes_inv
  by unfold_locales (rule scopes_step)

text \<open>The consequence: when a worker closes, all its test scopes are closed.\<close>

lemma worker_closes_last:
  assumes "scopes_inv ws" and "map_of ws p = Some m" "rm_closing m" "rm_scope m = WorkerFixture"
    and "map_of ws c = Some cm" "rm_parent cm = Some p"
  shows "rm_closed cm"
proof -
  have "child_ok ws c cm" "rm_children m = []" using assms unfolding scopes_inv_def by blast+
  then show ?thesis using assms by (auto simp: child_ok_def)
qed

section \<open>What is set up and torn down\<close>

text \<open>A state as the setup callback of its fixture made it, with the teardown it returned.\<close>

definition made :: "(nat \<Rightarrow> fixture) \<Rightarrow> string \<times> fixture_state \<Rightarrow> bool" where
  "made defs e = (fx_id (defs (st_ref (snd e))) = fst e
     \<and> (\<exists>vals. fx_setup (defs (st_ref (snd e))) vals = Inr (st_value (snd e), st_teardown (snd e))))"

abbreviation set_ups :: "(string \<times> fixture_state) list \<Rightarrow> fixture_log list" where
  "set_ups ns \<equiv> map (\<lambda>e. SetUp (fst e)) ns"

text \<open>From \<open>w\<close> to \<open>w'\<close> the log says what was added to the test runtime and to the worker.\<close>

definition logged :: "(nat \<Rightarrow> fixture) \<Rightarrow> runtimes \<Rightarrow> runtimes \<Rightarrow> fixture_log list \<Rightarrow> bool" where
  "logged defs w w' lg = (\<exists>nt nw. rt_states (runtime_at TestFixture w') = rt_states (runtime_at TestFixture w) @ nt
     \<and> rt_states (runtime_at WorkerFixture w') = rt_states (runtime_at WorkerFixture w) @ nw
     \<and> lg \<in> shuffles (set_ups nt) (set_ups nw) \<and> list_all (made defs) (nt @ nw))"

lemma logged_refl [simp]: "logged defs w w []"
  by (simp add: logged_def)

lemma shuffles_append: "xs \<in> shuffles as bs \<Longrightarrow> ys \<in> shuffles cs ds \<Longrightarrow> xs @ ys \<in> shuffles (as @ cs) (bs @ ds)"
proof (induction xs arbitrary: as bs)
  case (Cons x xs)
  then consider as' where "as = x # as'" "xs \<in> shuffles as' bs" | bs' where "bs = x # bs'" "xs \<in> shuffles as bs'"
    by (cases as; cases bs) (auto simp: Cons_in_shuffles_iff)
  then show ?case
  proof cases
    case 1
    then show ?thesis using Cons.IH [OF 1(2) Cons.prems(2)] by (simp add: Cons_in_shuffles_iff)
  next
    case 2
    then show ?thesis using Cons.IH [OF 2(2) Cons.prems(2)] by (simp add: Cons_in_shuffles_iff)
  qed
qed simp

lemma logged_trans:
  assumes "logged defs w w1 l1" "logged defs w1 w2 l2"
  shows "logged defs w w2 (l1 @ l2)"
proof -
  obtain nt nw where a: "rt_states (runtime_at TestFixture w1) = rt_states (runtime_at TestFixture w) @ nt"
     "rt_states (runtime_at WorkerFixture w1) = rt_states (runtime_at WorkerFixture w) @ nw"
     "l1 \<in> shuffles (set_ups nt) (set_ups nw)" "list_all (made defs) (nt @ nw)"
    using assms(1) unfolding logged_def by blast
  obtain mt mw where b: "rt_states (runtime_at TestFixture w2) = rt_states (runtime_at TestFixture w1) @ mt"
     "rt_states (runtime_at WorkerFixture w2) = rt_states (runtime_at WorkerFixture w1) @ mw"
     "l2 \<in> shuffles (set_ups mt) (set_ups mw)" "list_all (made defs) (mt @ mw)"
    using assms(2) unfolding logged_def by blast
  show ?thesis unfolding logged_def
    by (rule exI [of _ "nt @ mt"], rule exI [of _ "nw @ mw"])
      (use a b shuffles_append [OF a(3) b(3)] in simp)
qed

lemma setup_logged:
  assumes "setup_fixture defs self r w = (w', lg, res)" "map_of (rt_states (runtime_at self w)) (fx_id (defs r)) = None"
  shows "logged defs w w' lg"
proof (cases res)
  case (Inl e)
  then show ?thesis using assms(1) by (auto simp: setup_fixture_def Let_def split: sum.splits prod.splits)
next
  case (Inr v)
  obtain vals td where s: "fx_setup (defs r) vals = Inr (v, td)" "lg = [SetUp (fx_id (defs r))]"
      "w' = set_runtime self (runtime_at self w\<lparr>rt_states := map_set (fx_id (defs r))
            \<lparr>st_ref = r, st_value = v, st_teardown = td\<rparr> (rt_states (runtime_at self w)),
          rt_order := rt_order (runtime_at self w) @ [fx_id (defs r)]\<rparr>) w"
  proof -
    let ?call = "rbind (rmap (context_get defs self w r) (fx_reads (defs r))) (\<lambda>vals.
         case fx_setup (defs r) vals of Inl e \<Rightarrow> Inl (SetupThrew e) | Inr x \<Rightarrow> Inr x)"
    obtain v' td where c: "?call = Inr (v', td)"
    proof (cases ?call)
      case fails: (Inl e)
      have "res = Inl e" using assms(1) unfolding setup_fixture_def fails sum.case by simp
      then show thesis using Inr by simp
    next
      case ok: (Inr x)
      then show thesis using that by (cases x) blast
    qed
    then obtain vals where f: "(case fx_setup (defs r) vals of Inl e \<Rightarrow> Inl (SetupThrew e) | Inr x \<Rightarrow> Inr x) = Inr (v', td)"
      unfolding rbind_eq_Inr_iff by blast
    have "fx_setup (defs r) vals = Inr (v', td)" using f by (cases "fx_setup (defs r) vals") simp_all
    moreover have "v' = v" using assms(1) Inr unfolding setup_fixture_def c sum.case prod.case Let_def by simp
    moreover have "lg = [SetUp (fx_id (defs r))]" "w' = set_runtime self (runtime_at self w\<lparr>rt_states := map_set (fx_id (defs r))
            \<lparr>st_ref = r, st_value = v', st_teardown = td\<rparr> (rt_states (runtime_at self w)),
          rt_order := rt_order (runtime_at self w) @ [fx_id (defs r)]\<rparr>) w"
      using assms(1) unfolding setup_fixture_def c sum.case prod.case Let_def by simp_all
    ultimately show thesis using that by blast
  qed
  let ?e = "(fx_id (defs r), \<lparr>st_ref = r, st_value = v, st_teardown = td\<rparr>)"
  have st: "rt_states (runtime_at self w') = rt_states (runtime_at self w) @ [?e]"
    using assms(2) by (simp add: s(3) map_set_fresh map_of_eq_None_iff)
  have other: "sc \<noteq> self \<Longrightarrow> rt_states (runtime_at sc w') = rt_states (runtime_at sc w)" for sc by (simp add: s(3))
  have m: "made defs ?e" using s(1) by (auto simp: made_def)
  show ?thesis
  proof (cases self)
    case TestFixture
    show ?thesis unfolding logged_def
      by (rule exI [of _ "[?e]"], rule exI [of _ "[]"]) (use st other [of WorkerFixture] TestFixture s(2) m in simp)
  next
    case WorkerFixture
    show ?thesis unfolding logged_def
      by (rule exI [of _ "[]"], rule exI [of _ "[?e]"]) (use st other [of TestFixture] WorkerFixture s(2) m in simp)
  qed
qed

lemma resolve_logged:
  "resolve defs n self anc r w = Some (w', lg, res) \<Longrightarrow> world_inv defs w \<Longrightarrow> ordered defs w \<Longrightarrow>
   self = TestFixture \<or> rs_worker w \<noteq> None \<Longrightarrow> logged defs w w' lg"
  and resolve_deps_logged:
  "resolve_deps defs n self anc ds w = Some (w', lg, res') \<Longrightarrow> world_inv defs w \<Longrightarrow> ordered defs w \<Longrightarrow>
   self = TestFixture \<or> rs_worker w \<noteq> None \<Longrightarrow> logged defs w w' lg"
proof (induction defs n self anc r w and defs n self anc ds w arbitrary: w' lg res and w' lg res'
    rule: resolve_resolve_deps.induct)
  case (1 defs self ancestry r w)
  then show ?case by simp
next
  case (2 defs n self anc r w)
  let ?i = "fx_id (defs r)"
  show ?case
  proof (cases "rbind (assertFixtureId ?i) (\<lambda>_. runtimeFor self w (defs r))")
    case (Inl e)
    with "2.prems" show ?thesis by auto
  next
    case (Inr target)
    then have tgt: "runtimeFor self w (defs r) = Inr target" by (auto simp: assertFixtureId_def)
    have worker: "target = TestFixture \<or> rs_worker w \<noteq> None" using runtimeFor_scope [OF tgt] "2.prems"(4) by auto
    show ?thesis
    proof (cases "?i \<in> set anc \<or> map_of (rt_states (runtime_at target w)) ?i \<noteq> None")
      case True
      with "2.prems" Inr show ?thesis by (auto simp: Let_def split: option.splits if_splits)
    next
      case False
      then have None: "map_of (rt_states (runtime_at target w)) ?i = None" and fresh_anc: "?i \<notin> set anc" by auto
      obtain w1 l1 r1 where deps: "resolve_deps defs n target (anc @ [?i]) (fx_deps (defs r)) w = Some (w1, l1, r1)"
        using "2.prems"(1) Inr fresh_anc None by (auto simp: Let_def split: option.splits)
      note ih = "2.IH" [OF HOL.refl HOL.refl Inr fresh_anc None deps "2.prems"(2,3) worker]
      note s = resolve_deps_sound [OF deps "2.prems"(2,3) worker]
      show ?thesis
      proof (cases r1)
        case (Inl e)
        with "2.prems"(1) \<open>rbind _ _ = Inr target\<close> fresh_anc None deps ih show ?thesis by (auto simp: Let_def)
      next
        case (Inr u)
        obtain w2 l2 r2 where set: "setup_fixture defs target r w1 = (w2, l2, r2)" by (cases "setup_fixture defs target r w1")
        have eqs: "w' = w2" "lg = l1 @ l2"
          using "2.prems"(1) \<open>rbind _ _ = Inr target\<close> fresh_anc None deps Inr set by (auto simp: Let_def)
        obtain ns where "rt_states (runtime_at target w1) = rt_states (runtime_at target w) @ ns"
            "fst ` set ns \<inter> set (anc @ [?i]) = {}" using s unfolding grows_def by blast
        with None have "map_of (rt_states (runtime_at target w1)) ?i = None" unfolding map_of_eq_None_iff by auto
        from logged_trans [OF ih setup_logged [OF set this]] show ?thesis by (simp add: eqs)
      qed
    qed
  qed
next
  case (3 defs n self anc w)
  then show ?case by simp
next
  case (4 defs n self anc d ds w)
  obtain w1 l1 r1 where d: "resolve defs n self anc d w = Some (w1, l1, r1)"
    using "4.prems"(1) by (auto split: option.splits)
  note ih1 = "4.IH"(1) [OF d "4.prems"(2-4)]
  note s = resolve_sound [OF d "4.prems"(2-4)]
  show ?case
  proof (cases r1)
    case (Inl e)
    with "4.prems"(1) d ih1 show ?thesis by auto
  next
    case (Inr v)
    obtain w2 l2 r2 where ds: "resolve_deps defs n self anc ds w1 = Some (w2, l2, r2)"
      using "4.prems"(1) d Inr by (auto split: option.splits)
    have worker1: "self = TestFixture \<or> rs_worker w1 \<noteq> None" using s "4.prems"(4) by (auto simp: grows_def)
    have "logged defs w1 w2 l2" using "4.IH"(2) [OF d HOL.refl HOL.refl Inr ds _ _ worker1] s by simp
    from logged_trans [OF ih1 this] show ?thesis using "4.prems"(1) d Inr ds by auto
  qed
qed

text \<open>
  A failed \<open>use\<close>: the fixtures \<open>ns\<close> it set up in its own runtime are torn down, last first; the ones it
  set up in the worker on the way are kept there.
\<close>

definition rolled_back :: "(nat \<Rightarrow> fixture) \<Rightarrow> fixture_scope \<Rightarrow> runtimes \<Rightarrow> runtimes \<Rightarrow> fixture_log list \<Rightarrow> bool" where
  "rolled_back defs target w w' lg = (\<exists>ns kept ups. lg = ups @ teardown_log ns \<and> ups \<in> shuffles (set_ups ns) (set_ups kept)
     \<and> list_all (made defs) (ns @ kept)
     \<and> (if target = WorkerFixture then kept = []
        else rt_states (runtime_at WorkerFixture w') = rt_states (runtime_at WorkerFixture w) @ kept))"

lemma use_rolled_back:
  assumes u: "use_fixture defs td fuel self r w = Some (w', lg, Inl e)" and inv: "world_inv defs w" "ordered defs w"
    and self: "self = TestFixture \<or> rs_worker w \<noteq> None" and tgt: "runtimeFor self w (defs r) = Inr target"
  shows "rolled_back defs target w w' lg"
proof -
  have worker: "target = TestFixture \<or> rs_worker w \<noteq> None" using runtimeFor_scope [OF tgt] self by auto
  obtain w1 l1 e1 where res1: "resolve defs fuel target [] r w = Some (w1, l1, Inl e1)"
    using u tgt by (auto simp: use_fixture_def Let_def split: option.splits sum.splits)
  note s = resolve_sound [OF res1 inv worker]
  obtain nt nw where l: "rt_states (runtime_at TestFixture w1) = rt_states (runtime_at TestFixture w) @ nt"
     "rt_states (runtime_at WorkerFixture w1) = rt_states (runtime_at WorkerFixture w) @ nw"
     "l1 \<in> shuffles (set_ups nt) (set_ups nw)" "list_all (made defs) (nt @ nw)"
    using resolve_logged [OF res1 inv worker] unfolding logged_def by blast
  let ?ns = "if target = WorkerFixture then nw else nt"
  obtain ms where ns: "rt_states (runtime_at target w1) = rt_states (runtime_at target w) @ ms"
      "rt_order (runtime_at target w1) = rt_order (runtime_at target w) @ map fst ms"
    using s unfolding grows_def by blast
  have ms: "ms = ?ns" using l ns(1) by (cases target) auto
  have d: "distinct (map fst (rt_states (runtime_at target w) @ ?ns))"
    using s ns ms unfolding world_inv_def runtime_inv_def by metis
  have "runtime_at target w1 = \<lparr>rt_states = rt_states (runtime_at target w) @ ?ns, rt_order = rt_order (runtime_at target w) @ map fst ?ns\<rparr>"
    by (rule fixture_runtime.equality) (simp_all only: ns ms fixture_runtime.simps unit_eq)
  then have rb: "rollback td (length (rt_order (runtime_at target w))) (runtime_at target w1)
      = (runtime_at target w, teardown_log ?ns, teardown_errors td ?ns)"
    using rollback_undoes [OF d HOL.refl, of td] by simp
  have w': "w' = set_runtime target (runtime_at target w) w1" "lg = l1 @ teardown_log ?ns"
    using u tgt res1 rb by (auto simp: use_fixture_def Let_def)
  show ?thesis
  proof (cases target)
    case TestFixture
    then show ?thesis unfolding rolled_back_def using l w'
      by (intro exI [of _ nt] exI [of _ nw] exI [of _ l1]) simp
  next
    case WorkerFixture
    then have "nt = []" using worker_only [OF res1] l(1) by simp
    then show ?thesis unfolding rolled_back_def using l w' WorkerFixture
      by (intro exI [of _ nw] exI [of _ "[]"] exI [of _ l1]) simp
  qed
qed

end
