(* ===== verification/Actions.thy ===== *)
theory Actions
  imports JsData
begin

text \<open>
  Guarded element actions (\<open>packages/core/src/actionability.ts\<close>, \<open>action-invocation.ts\<close>,
  \<open>guarded-actions.ts\<close>): which checks an action asks for, and one invocation of an action as a state
  machine from the call to the submission. Clock readings and the state of the abort signal are part
  of the events; the backend's answers are events.
\<close>

section \<open>Checks\<close>

datatype check = Attached | Unique | Visible | Stable | Enabled | Editable | Focusable | ReceivesInput

definition actionabilityChecks :: "(string \<times> check) list" where
  "actionabilityChecks = [(''attached'', Attached), (''unique'', Unique), (''visible'', Visible),
     (''stable'', Stable), (''enabled'', Enabled), (''editable'', Editable), (''focusable'', Focusable),
     (''receivesInput'', ReceivesInput)]"

datatype action_kind = Invoke | SetValue | TypeText

definition essentialChecks :: "check list" where
  "essentialChecks = [Attached, Unique]"

fun default_checks :: "action_kind \<Rightarrow> check list" where
  "default_checks Invoke = essentialChecks @ [Visible, Enabled]"
| "default_checks SetValue = essentialChecks @ [Visible, Enabled, Editable]"
| "default_checks TypeText = essentialChecks @ [Visible, Enabled, Editable, Focusable]"

text \<open>
  An abort signal argument: absent, native (with its current \<open>aborted\<close> flag), or something else.
  The additional checks as given: absent, not an array, or the array's items.
\<close>

datatype signal_arg = NoSignal | NativeSignal bool | BogusSignal

datatype additional_arg = NoAdditional | NotAnArray | Additional "jsv list"

record action_options =
  ao_timeoutMs :: "jsnum option"
  ao_signal :: signal_arg
  ao_additional :: additional_arg
  ao_force :: jsv

datatype action_error =
    BadTimeout
  | BadSignal
  | BadForce
  | BadAdditional
  | UnknownCheck
  | UnknownBackendCheck
  | DuplicateBackendCheck check
  | UnsupportedChecks "check list"
  | Aborted
  | ResolutionTimeout
  | ResolutionFailed
  | InvalidElement
  | PerformFailed

definition assertTimeout :: "jsnum option \<Rightarrow> action_error + unit" where
  "assertTimeout t = (case t of None \<Rightarrow> Inr ()
     | Some (Fin q) \<Rightarrow> if q < 0 then Inl BadTimeout else Inr ()
     | Some _ \<Rightarrow> Inl BadTimeout)"

definition assertAbortSignal :: "signal_arg \<Rightarrow> action_error + unit" where
  "assertAbortSignal s = (if s = BogusSignal then Inl BadSignal else Inr ())"

definition check_of :: "jsv \<Rightarrow> action_error + check" where
  "check_of v = (case v of VStr s \<Rightarrow> (case map_of actionabilityChecks s of None \<Rightarrow> Inl UnknownCheck | Some c \<Rightarrow> Inr c)
     | _ \<Rightarrow> Inl UnknownCheck)"

definition additional_checks :: "additional_arg \<Rightarrow> action_error + check list" where
  "additional_checks a = (case a of NoAdditional \<Rightarrow> Inr [] | NotAnArray \<Rightarrow> Inl BadAdditional
     | Additional vs \<Rightarrow> rmap check_of vs)"

definition is_bool :: "jsv \<Rightarrow> bool" where
  "is_bool v = (case v of VBool _ \<Rightarrow> True | _ \<Rightarrow> False)"

definition resolveActionabilityChecks :: "action_kind \<Rightarrow> action_options \<Rightarrow> action_error + check list" where
  "resolveActionabilityChecks action opts =
     rbind (assertTimeout (ao_timeoutMs opts)) (\<lambda>_.
     rbind (assertAbortSignal (ao_signal opts)) (\<lambda>_.
     if ao_force opts \<noteq> VUndefined \<and> \<not> is_bool (ao_force opts) then Inl BadForce else
     rbind (additional_checks (ao_additional opts)) (\<lambda>extra.
     let requested = (if ao_force opts = VBool True then essentialChecks @ extra
                      else default_checks action @ extra) in
     Inr (dedup_acc [] (essentialChecks @ requested)))))"

fun validate_checks :: "check list \<Rightarrow> jsv list \<Rightarrow> action_error + check list" where
  "validate_checks supported [] = Inr supported"
| "validate_checks supported (v # vs) = (case check_of v of
     Inl _ \<Rightarrow> Inl UnknownBackendCheck
   | Inr c \<Rightarrow> if c \<in> set supported then Inl (DuplicateBackendCheck c)
       else validate_checks (supported @ [c]) vs)"

definition validateSupportedChecks :: "jsv list \<Rightarrow> action_error + check list" where
  "validateSupportedChecks vs = validate_checks [] vs"

section \<open>Elements\<close>

definition read_prop :: "jsv \<Rightarrow> string \<Rightarrow> jsv" where
  "read_prop v k = (case v of
     VObj _ ps \<Rightarrow> (case map_of ps (StrKey k) of Some (DataProp _ w) \<Rightarrow> w | _ \<Rightarrow> VUndefined)
   | _ \<Rightarrow> VUndefined)"

definition is_object :: "jsv \<Rightarrow> bool" where
  "is_object v = (case v of VObj _ _ \<Rightarrow> True | VArr _ _ _ \<Rightarrow> True | _ \<Rightarrow> False)"

definition nonblank_string :: "jsv \<Rightarrow> bool" where
  "nonblank_string v = (case v of VStr s \<Rightarrow> \<not> blank s | _ \<Rightarrow> False)"

definition validateResolvedElement :: "jsv \<Rightarrow> action_error + jsv" where
  "validateResolvedElement v =
     (if \<not> is_object v then Inl InvalidElement
      else if \<not> nonblank_string (read_prop v ''id'') then Inl InvalidElement
      else if \<not> is_object (read_prop v ''locator'') then Inl InvalidElement
      else if \<not> nonblank_string (read_prop (read_prop v ''locator'') ''key'') then Inl InvalidElement
      else Inr v)"

section \<open>One invocation\<close>

record invocation_context =
  ic_startedAt :: rat
  ic_timeoutMs :: "rat option"
  ic_signal :: bool

text \<open>The instant the pre-action checks must be over.\<close>

definition precheckDeadlineAt :: "invocation_context \<Rightarrow> rat option" where
  "precheckDeadlineAt c = map_option (\<lambda>t. ic_startedAt c + t) (ic_timeoutMs c)"

definition createInvocationContext :: "rat \<Rightarrow> jsnum option \<Rightarrow> signal_arg \<Rightarrow> invocation_context" where
  "createInvocationContext started timeout sig = \<lparr>ic_startedAt = started,
     ic_timeoutMs = (case timeout of Some (Fin q) \<Rightarrow> Some q | _ \<Rightarrow> None), ic_signal = (sig \<noteq> NoSignal)\<rparr>"

definition assertInvocationMaySubmit :: "invocation_context \<Rightarrow> bool \<Rightarrow> rat \<Rightarrow> action_error + unit" where
  "assertInvocationMaySubmit c aborted now =
     (if ic_signal c \<and> aborted then Inl Aborted
      else (case precheckDeadlineAt c of
         Some d \<Rightarrow> if now \<ge> d then Inl ResolutionTimeout else Inr ()
       | None \<Rightarrow> Inr ()))"

datatype action_phase = Resolving | Resolved jsv | Performing | Finished "action_error + unit"

record action_run =
  ar_action :: action_kind
  ar_checks :: "check list"
  ar_context :: invocation_context
  ar_aborted :: bool
  ar_phase :: action_phase

datatype action_out =
    CallResolve action_kind "check list"
  | Submit action_kind jsv invocation_context
  | SettleAction "action_error + unit"

definition finish_action :: "action_error + unit \<Rightarrow> action_run \<Rightarrow> action_run \<times> action_out list" where
  "finish_action r s = (s\<lparr>ar_phase := Finished r\<rparr>, [SettleAction r])"

definition freezeRequest :: "action_kind \<Rightarrow> action_options \<Rightarrow> action_error + check list" where
  "freezeRequest action opts = resolveActionabilityChecks action opts"

text \<open>
  \<open>resolve\<close> up to its \<open>await\<close>: the guards, the call of the backend, then the guards of
  \<open>awaitActionResolution\<close>. \<open>started\<close> is the first clock reading, \<open>waiting\<close> the one taken after the
  backend returned its promise, \<open>aborted2\<close> the signal's flag at that time.
\<close>

definition start_action :: "check list \<Rightarrow> action_kind \<Rightarrow> action_options \<Rightarrow> rat \<Rightarrow> rat \<Rightarrow> bool
    \<Rightarrow> action_run \<times> action_out list" where
  "start_action supported action opts started waiting aborted2 =
     (let ctx = createInvocationContext started (ao_timeoutMs opts) (ao_signal opts);
          s0 = \<lparr>ar_action = action, ar_checks = [], ar_context = ctx,
                ar_aborted = (ao_signal opts = NativeSignal True), ar_phase = Resolving\<rparr> in
      case freezeRequest action opts of
        Inl e \<Rightarrow> finish_action (Inl e) s0
      | Inr checks \<Rightarrow>
          let s1 = s0\<lparr>ar_checks := checks\<rparr>;
              unsupported = filter (\<lambda>c. c \<notin> set supported) checks in
          if ar_aborted s1 then finish_action (Inl Aborted) s1
          else if unsupported \<noteq> [] then finish_action (Inl (UnsupportedChecks unsupported)) s1
          else let s2 = s1\<lparr>ar_aborted := ic_signal ctx \<and> aborted2\<rparr>;
                   call = CallResolve action checks in
            if ar_aborted s2 then (fst (finish_action (Inl Aborted) s2), call # snd (finish_action (Inl Aborted) s2))
            else (case ic_timeoutMs ctx of
               Some t \<Rightarrow> if t - (waiting - started) \<le> 0
                 then (fst (finish_action (Inl ResolutionTimeout) s2), call # snd (finish_action (Inl ResolutionTimeout) s2))
                 else (s2, [call])
             | None \<Rightarrow> (s2, [call])))"

datatype action_event =
    BackendResolved jsv rat
  | BackendFailed
  | AbortFired
  | TimerFired
  | Continue rat
  | PerformDone bool

text \<open>What \<open>invoke\<close>, \<open>setValue\<close> and \<open>typeText\<close> do once the element is resolved.\<close>

definition submit_action :: "jsv \<Rightarrow> rat \<Rightarrow> action_run \<Rightarrow> action_run \<times> action_out list" where
  "submit_action v now s =
     (case rbind (validateResolvedElement v) (\<lambda>e.
             rbind (assertInvocationMaySubmit (ar_context s) (ar_aborted s) now) (\<lambda>_. Inr e)) of
        Inl e \<Rightarrow> finish_action (Inl e) s
      | Inr e \<Rightarrow> (s\<lparr>ar_phase := Performing\<rparr>, [Submit (ar_action s) e (ar_context s)]))"

text \<open>
  \<open>Continue\<close> is the continuation after the resolution: the element is validated, then the submission
  is allowed or not at that very moment, and the backend is called.
\<close>

fun action_step :: "action_run \<Rightarrow> action_event \<Rightarrow> action_run \<times> action_out list" where
  "action_step s (BackendResolved v now) = (case ar_phase s of
     Resolving \<Rightarrow> (case ic_timeoutMs (ar_context s) of
         Some t \<Rightarrow> if now - ic_startedAt (ar_context s) \<ge> t then finish_action (Inl ResolutionTimeout) s
                   else (s\<lparr>ar_phase := Resolved v\<rparr>, [])
       | None \<Rightarrow> (s\<lparr>ar_phase := Resolved v\<rparr>, []))
   | _ \<Rightarrow> (s, []))"
| "action_step s BackendFailed = (if ar_phase s = Resolving then finish_action (Inl ResolutionFailed) s else (s, []))"
| "action_step s AbortFired = (if \<not> ic_signal (ar_context s) then (s, []) else
     let s1 = s\<lparr>ar_aborted := True\<rparr> in
     if ar_phase s1 = Resolving then finish_action (Inl Aborted) s1 else (s1, []))"
| "action_step s TimerFired = (if ar_phase s = Resolving \<and> ic_timeoutMs (ar_context s) \<noteq> None
     then finish_action (Inl ResolutionTimeout) s else (s, []))"
| "action_step s (Continue now) = (case ar_phase s of
     Resolved v \<Rightarrow> submit_action v now s
   | _ \<Rightarrow> (s, []))"
| "action_step s (PerformDone ok) = (if ar_phase s = Performing
     then finish_action (if ok then Inr () else Inl PerformFailed) s else (s, []))"

section \<open>What the checks guarantee\<close>

lemma resolveActionabilityChecks_Inr:
  assumes "resolveActionabilityChecks action opts = Inr cs"
  shows "distinct cs" and "\<exists>rest. cs = Attached # Unique # rest"
    and "set cs = set essentialChecks \<union> (if ao_force opts = VBool True then {} else set (default_checks action))
       \<union> (case additional_checks (ao_additional opts) of Inr xs \<Rightarrow> set xs | Inl _ \<Rightarrow> {})"
proof -
  obtain extra where x: "additional_checks (ao_additional opts) = Inr extra"
    and cs: "cs = dedup_acc [] (essentialChecks @ (if ao_force opts = VBool True then essentialChecks @ extra
        else default_checks action @ extra))"
    using assms by (auto simp: resolveActionabilityChecks_def Let_def)
  show "distinct cs" unfolding cs by (rule dedup_acc_distinct)
  show "\<exists>rest. cs = Attached # Unique # rest" unfolding cs by (simp add: essentialChecks_def)
  show "set cs = set essentialChecks \<union> (if ao_force opts = VBool True then {} else set (default_checks action))
       \<union> (case additional_checks (ao_additional opts) of Inr xs \<Rightarrow> set xs | Inl _ \<Rightarrow> {})"
    unfolding cs x by (auto simp: dedup_acc_set)
qed

lemma validate_checks_Inr:
  "validate_checks supported vs = Inr cs \<Longrightarrow> distinct supported \<Longrightarrow>
   distinct cs \<and> length cs = length supported + length vs"
  by (induction supported vs rule: validate_checks.induct) (auto split: sum.splits if_splits)

section \<open>What an invocation guarantees\<close>

definition action_inv :: "check list \<Rightarrow> action_run \<Rightarrow> bool" where
  "action_inv supported s = ((\<forall>e. ar_phase s \<noteq> Finished e) \<longrightarrow>
     set (ar_checks s) \<subseteq> set supported \<and> {Attached, Unique} \<subseteq> set (ar_checks s))"

datatype action_signal = SigSubmit | SigSettle

fun action_signals :: "action_out \<Rightarrow> action_signal list" where
  "action_signals (Submit _ _ _) = [SigSubmit]"
| "action_signals (SettleAction _) = [SigSettle]"
| "action_signals _ = []"

fun action_live :: "action_run \<Rightarrow> action_signal \<Rightarrow> bool" where
  "action_live s SigSubmit = (case ar_phase s of Resolving \<Rightarrow> True | Resolved _ \<Rightarrow> True | _ \<Rightarrow> False)"
| "action_live s SigSettle = (case ar_phase s of Finished _ \<Rightarrow> False | _ \<Rightarrow> True)"

lemma action_signal_all: "(\<forall>x. P x) \<longleftrightarrow> P SigSubmit \<and> P SigSettle"
  by (metis action_signal.exhaust)

lemmas action_step_splits = action_phase.split option.split sum.split

interpretation action_once: once_only action_step "action_inv supported" action_live action_signals
proof
  fix s e assume inv: "action_inv supported s"
  show "action_inv supported (fst (action_step s e))"
    using inv by (cases e) (auto simp: action_inv_def submit_action_def finish_action_def Let_def split: action_step_splits)
  show "distinct (concat (map action_signals (snd (action_step s e))))"
    by (cases e) (auto simp: submit_action_def finish_action_def Let_def split: action_step_splits)
next
  fix s e i assume "i \<in> set (concat (map action_signals (snd (action_step s e))))"
  then show "action_live s i \<and> \<not> action_live (fst (action_step s e)) i"
    by (cases e) (auto simp: submit_action_def finish_action_def Let_def split: action_step_splits if_splits)
next
  fix s e i assume "\<not> action_live s i"
  then show "\<not> action_live (fst (action_step s e)) i"
    by (cases i; cases e) (auto simp: submit_action_def finish_action_def Let_def split: action_step_splits action_phase.splits)
qed

text \<open>What is true at the moment of submission.\<close>

lemma submit_guarded:
  assumes "Submit a e c \<in> set (snd (action_step s ev))"
  shows "\<exists>now. ev = Continue now \<and> a = ar_action s \<and> c = ar_context s \<and> ar_phase s = Resolved e
     \<and> validateResolvedElement e = Inr e \<and> \<not> (ic_signal c \<and> ar_aborted s)
     \<and> (\<forall>t. ic_timeoutMs c = Some t \<longrightarrow> now < ic_startedAt c + t)"
  using assms
  by (cases ev) (auto simp: submit_action_def finish_action_def Let_def assertInvocationMaySubmit_def precheckDeadlineAt_def
      validateResolvedElement_def split: action_phase.splits option.splits sum.splits if_splits)

lemma start_inv: "action_inv supported (fst (start_action supported action opts started waiting ab))"
proof (cases "freezeRequest action opts")
  case (Inl e)
  then show ?thesis by (simp add: start_action_def Let_def finish_action_def action_inv_def)
next
  case (Inr checks)
  obtain rest where "checks = Attached # Unique # rest"
    using resolveActionabilityChecks_Inr(2) Inr unfolding freezeRequest_def by blast
  then show ?thesis using Inr
    by (auto simp: start_action_def Let_def finish_action_def action_inv_def filter_empty_conv split: option.split)
qed

lemma start_signals:
  "distinct (concat (map action_signals (snd (start_action supported action opts started waiting ab))))
   \<and> (\<forall>i \<in> set (concat (map action_signals (snd (start_action supported action opts started waiting ab)))).
        \<not> action_live (fst (start_action supported action opts started waiting ab)) i)"
  by (auto simp: start_action_def Let_def finish_action_def split: sum.split option.split)

lemma started_once:
  "distinct (concat (map action_signals (snd (start_action supported action opts started waiting ab)
     @ snd (run_steps action_step (fst (start_action supported action opts started waiting ab)) es))))"
  using start_signals [of supported action opts started waiting ab]
    action_once.run_once [OF start_inv, of supported action opts started waiting ab es] by auto

end
