(* ===== verification/GraphOrder.thy ===== *)
theory GraphOrder
  imports JsMap
begin

text \<open>
  The cycle check of the evidence graph (\<open>rejectCycles\<close> of
  \<open>packages/core/src/evidence-context.ts\<close>): Kahn's algorithm over \<open>Map\<close> objects of targets and of
  in-degrees, with a growing list as the queue. The theory proves that it accepts exactly the
  acyclic edge lists.
\<close>

section \<open>The algorithm\<close>

text \<open>The loop over the edges: the targets of every source and the in-degree of every endpoint.\<close>

fun edge_maps :: "('k \<times> 'k) list \<Rightarrow> ('k \<times> 'k list) list \<Rightarrow> ('k \<times> int) list
    \<Rightarrow> ('k \<times> 'k list) list \<times> ('k \<times> int) list" where
  "edge_maps [] adjacency indegree = (adjacency, indegree)"
| "edge_maps ((frm, to) # es) adjacency indegree =
     (let targets = (case map_of adjacency frm of None \<Rightarrow> [] | Some ts \<Rightarrow> ts);
          adjacency1 = map_set frm (targets @ [to]) adjacency;
          indegree1 = (if map_has indegree frm then indegree else map_set frm 0 indegree);
          count = (case map_of indegree1 to of None \<Rightarrow> 0 | Some n \<Rightarrow> n);
          indegree2 = map_set to (count + 1) indegree1
      in edge_maps es adjacency1 indegree2)"

text \<open>The inner loop: one edge to every target of a visited key.\<close>

fun release :: "'k list \<Rightarrow> ('k \<times> int) list \<Rightarrow> ('k \<times> int) list \<times> 'k list" where
  "release [] indegree = (indegree, [])"
| "release (t # ts) indegree =
     (let n = (case map_of indegree t of None \<Rightarrow> 0 | Some n \<Rightarrow> n) - 1;
          (indegree1, pushed) = release ts (map_set t n indegree)
      in (indegree1, (if n = 0 then [t] else []) @ pushed))"

definition positives :: "('k \<times> int) list \<Rightarrow> nat" where
  "positives indegree = card {k. \<exists>n. map_of indegree k = Some n \<and> n > 0}"

lemma finite_positives: "finite {k. \<exists>n. map_of m k = Some (n::int) \<and> n > 0}"
  by (rule finite_subset [of _ "dom (map_of m)"]) (auto simp: finite_dom_map_of)

lemma card_update:
  "finite P \<Longrightarrow> card (if b then insert t (P - {t}) else P - {t}) + (if t \<in> P then 1 else 0) = card P + (if b then 1 else 0)"
  using card.remove [of P t] card_insert_disjoint [of "P - {t}" t] by (cases "t \<in> P") simp_all

lemma positives_map_set:
  "positives (map_set t (n::int) m) + (if \<exists>k. map_of m t = Some k \<and> k > 0 then 1 else 0)
     = positives m + (if n > 0 then 1 else 0)"
proof -
  have "{k. \<exists>j. map_of (map_set t n m) k = Some j \<and> j > 0}
      = (if n > 0 then insert t ({k. \<exists>n. map_of m k = Some n \<and> n > 0} - {t})
         else {k. \<exists>n. map_of m k = Some n \<and> n > 0} - {t})"
    by (auto simp: map_of_map_set split: if_splits)
  with card_update [OF finite_positives, of "n > 0" t m] show ?thesis
    by (simp only: positives_def mem_Collect_eq)
qed

lemma release_measure: "release ts m = (m', pushed) \<Longrightarrow> positives m' + length pushed \<le> positives m"
proof (induction ts arbitrary: m m' pushed)
  case Nil
  then show ?case by simp
next
  case (Cons t ts)
  let ?n = "(case map_of m t of None \<Rightarrow> 0 | Some n \<Rightarrow> n) - 1"
  obtain m1 p1 where r: "release ts (map_set t ?n m) = (m1, p1)" by (cases "release ts (map_set t ?n m)")
  have eqs: "m' = m1" "pushed = (if ?n = 0 then [t] else []) @ p1" using Cons.prems r by (auto simp: Let_def)
  have ih: "positives m1 + length p1 \<le> positives (map_set t ?n m)" by (rule Cons.IH [OF r])
  have "positives (map_set t ?n m) + (if ?n = 0 then 1 else 0) \<le> positives m"
  proof (cases "map_of m t")
    case None
    then show ?thesis using positives_map_set [of t ?n m] by simp
  next
    case (Some k)
    then show ?thesis using positives_map_set [of t ?n m] by (cases "k = 1"; cases "k > 0") simp_all
  qed
  with ih eqs show ?case by (auto split: if_splits)
qed

function visit :: "('k \<times> 'k list) list \<Rightarrow> 'k list \<Rightarrow> ('k \<times> int) list \<Rightarrow> nat" where
  "visit adjacency ready indegree = (case ready of [] \<Rightarrow> 0
     | key # rest \<Rightarrow>
         (let (indegree1, pushed) = release (case map_of adjacency key of None \<Rightarrow> [] | Some ts \<Rightarrow> ts) indegree
          in Suc (visit adjacency (rest @ pushed) indegree1)))"
  by pat_completeness auto
termination
proof (relation "measure (\<lambda>(_, ready, m). length ready + positives m)", goal_cases)
  case 1
  then show ?case by simp
next
  case (2 adjacency ready m key rest p m1 pushed)
  then have "release (case map_of adjacency key of None \<Rightarrow> [] | Some ts \<Rightarrow> ts) m = (m1, pushed)" by simp
  from release_measure [OF this] 2 show ?case by simp
qed

declare visit.simps [simp del]

definition acyclic_edges :: "('k \<times> 'k) list \<Rightarrow> bool" where
  "acyclic_edges es = (let (adjacency, indegree) = edge_maps es [] [];
       ready = map fst (filter (\<lambda>e. snd e = 0) indegree)
     in visit adjacency ready indegree = length indegree)"

section \<open>What the maps hold\<close>

definition targets :: "('k \<times> 'k) list \<Rightarrow> 'k \<Rightarrow> 'k list" where
  "targets es k = map snd (filter (\<lambda>e. fst e = k) es)"

text \<open>The number of edges into \<open>k\<close> whose source is not in \<open>vis\<close>.\<close>

definition open_in :: "('k \<times> 'k) list \<Rightarrow> 'k set \<Rightarrow> 'k \<Rightarrow> int" where
  "open_in es vis k = int (length (filter (\<lambda>e. snd e = k \<and> fst e \<notin> vis) es))"

definition endpoints :: "('k \<times> 'k) list \<Rightarrow> 'k set" where
  "endpoints es = fst ` set es \<union> snd ` set es"

lemma targets_snoc: "targets (ds @ [(a, b)]) k = targets ds k @ (if k = a then [b] else [])"
  by (simp add: targets_def)

lemma open_in_snoc: "open_in (ds @ [(a, b)]) vis k = open_in ds vis k + (if k = b \<and> a \<notin> vis then 1 else 0)"
  by (auto simp: open_in_def)

definition maps_of :: "('k \<times> 'k) list \<Rightarrow> ('k \<times> 'k list) list \<Rightarrow> ('k \<times> int) list \<Rightarrow> bool" where
  "maps_of ds adjacency indegree = (distinct (map fst indegree)
     \<and> (\<forall>k. (case map_of adjacency k of None \<Rightarrow> [] | Some ts \<Rightarrow> ts) = targets ds k)
     \<and> (\<forall>k. map_of indegree k = (if k \<in> endpoints ds then Some (open_in ds {} k) else None)))"

lemma open_in_none: "k \<notin> endpoints ds \<Longrightarrow> open_in ds vis k = 0"
  by (auto simp: open_in_def endpoints_def filter_empty_conv)

lemma edge_maps_maps_of:
  "maps_of ds adjacency indegree \<Longrightarrow> edge_maps es adjacency indegree = (a, i) \<Longrightarrow> maps_of (ds @ es) a i"
proof (induction es adjacency indegree arbitrary: ds rule: edge_maps.induct)
  case (1 adjacency indegree)
  then show ?case by simp
next
  case (2 frm to es adjacency indegree)
  let ?adj = "map_set frm ((case map_of adjacency frm of None \<Rightarrow> [] | Some ts \<Rightarrow> ts) @ [to]) adjacency"
  let ?in1 = "if map_has indegree frm then indegree else map_set frm 0 indegree"
  let ?in2 = "map_set to ((case map_of ?in1 to of None \<Rightarrow> 0 | Some n \<Rightarrow> n) + 1) ?in1"
  have d: "distinct (map fst indegree)"
    and adj: "\<And>k. (case map_of adjacency k of None \<Rightarrow> [] | Some ts \<Rightarrow> ts) = targets ds k"
    and ind: "\<And>k. map_of indegree k = (if k \<in> endpoints ds then Some (open_in ds {} k) else None)"
    using "2.prems"(1) unfolding maps_of_def by blast+
  have in1: "map_of ?in1 k = (if k \<in> insert frm (endpoints ds) then Some (open_in ds {} k) else None)" for k
    by (simp add: map_has_iff ind map_of_map_set open_in_none)
  have ends: "endpoints (ds @ [(frm, to)]) = insert to (insert frm (endpoints ds))"
    by (auto simp: endpoints_def)
  have "maps_of (ds @ [(frm, to)]) ?adj ?in2"
    unfolding maps_of_def
  proof (intro conjI allI)
    show "distinct (map fst ?in2)" using d by (simp add: distinct_map_set)
    fix k
    show "(case map_of ?adj k of None \<Rightarrow> [] | Some ts \<Rightarrow> ts) = targets (ds @ [(frm, to)]) k"
      using adj [of k] adj [of frm] by (simp add: map_of_map_set targets_snoc)
    show "map_of ?in2 k = (if k \<in> endpoints (ds @ [(frm, to)]) then Some (open_in (ds @ [(frm, to)]) {} k) else None)"
      unfolding map_of_map_set in1 ends by (auto simp: open_in_snoc open_in_none)
  qed
  with "2.IH" [OF refl refl refl refl refl, of "ds @ [(frm, to)]"] "2.prems"(2) show ?case
    by (simp add: Let_def)
qed

section \<open>What the loop visits\<close>

lemma count_list_pos: "0 < count_list xs x \<longleftrightarrow> x \<in> set xs"
  using count_list_0_iff [of xs x] by auto

lemma release_spec:
  "release ts m = (m', pushed) \<Longrightarrow> \<forall>k \<in> set ts. \<exists>v. map_of m k = Some v \<and> int (count_list ts k) \<le> v \<Longrightarrow>
   (\<forall>k. map_of m' k = map_option (\<lambda>v. v - int (count_list ts k)) (map_of m k))
   \<and> set pushed = {k \<in> set ts. map_of m k = Some (int (count_list ts k))} \<and> distinct pushed"
proof (induction ts arbitrary: m m' pushed)
  case Nil
  then show ?case by (auto simp: option.map_ident)
next
  case (Cons t ts)
  obtain v where v: "map_of m t = Some v" "int (count_list (t # ts) t) \<le> v" using Cons.prems(2) by auto
  obtain m1 p1 where r: "release ts (map_set t (v - 1) m) = (m1, p1)" by (cases "release ts (map_set t (v - 1) m)")
  have eqs: "m' = m1" "pushed = (if v - 1 = 0 then [t] else []) @ p1" using Cons.prems(1) r v by (auto simp: Let_def)
  have pre: "\<forall>k \<in> set ts. \<exists>w. map_of (map_set t (v - 1) m) k = Some w \<and> int (count_list ts k) \<le> w"
  proof
    fix k assume "k \<in> set ts"
    then show "\<exists>w. map_of (map_set t (v - 1) m) k = Some w \<and> int (count_list ts k) \<le> w"
      using Cons.prems(2) v by (cases "k = t") (auto simp: map_of_map_set)
  qed
  note ih = Cons.IH [OF r pre]
  have vals: "map_of m' k = map_option (\<lambda>v. v - int (count_list (t # ts) k)) (map_of m k)" for k
    using ih v eqs by (auto simp: map_of_map_set)
  have "set pushed = {k \<in> set (t # ts). map_of m k = Some (int (count_list (t # ts) k))}"
  proof -
    have p1: "set p1 = {k \<in> set ts. map_of (map_set t (v - 1) m) k = Some (int (count_list ts k))}" using ih by blast
    have "t \<notin> set ts" if "v - 1 = 0"
    proof -
      have "count_list ts t = 0" using v(2) that by simp
      then show ?thesis by (simp add: count_list_0_iff)
    qed
    then show ?thesis using v(1) unfolding eqs set_append p1
      by (auto simp: map_of_map_set count_notin count_list_pos split: if_splits)
  qed
  moreover have "distinct pushed"
  proof -
    have "t \<notin> set ts" if "v - 1 = 0"
    proof -
      have "count_list ts t = 0" using v(2) that by simp
      then show ?thesis by (simp add: count_list_0_iff)
    qed
    then show ?thesis using ih eqs by auto
  qed
  ultimately show ?case using vals by blast
qed

lemma count_targets: "int (count_list (targets es key) k) = int (length (filter (\<lambda>e. fst e = key \<and> snd e = k) es))"
  by (induction es) (auto simp: targets_def)

lemma open_in_visit:
  "key \<notin> vis \<Longrightarrow> open_in es (insert key vis) k = open_in es vis k - int (count_list (targets es key) k)"
  by (induction es) (auto simp: open_in_def targets_def)

lemma open_in_nonneg: "0 \<le> open_in es vis k"
  by (simp add: open_in_def)

lemma open_in_zero: "open_in es vis k = 0 \<longleftrightarrow> (\<forall>a. (a, k) \<in> set es \<longrightarrow> a \<in> vis)"
  by (auto simp: open_in_def filter_empty_conv)

lemma count_le_open: "key \<notin> vis \<Longrightarrow> int (count_list (targets es key) k) \<le> open_in es vis k"
  using open_in_visit [of key vis es k] open_in_nonneg [of es "insert key vis" k] by simp

definition preds_before :: "('k \<times> 'k) list \<Rightarrow> 'k list \<Rightarrow> bool" where
  "preds_before es vis = (\<forall>xs k ys. vis = xs @ k # ys \<longrightarrow> (\<forall>a. (a, k) \<in> set es \<longrightarrow> a \<in> set xs))"

definition visited :: "('k \<times> 'k) list \<Rightarrow> 'k list \<Rightarrow> 'k list \<Rightarrow> ('k \<times> int) list \<Rightarrow> bool" where
  "visited es vis ready m = (distinct (vis @ ready) \<and> preds_before es vis
     \<and> set (vis @ ready) = {k \<in> endpoints es. open_in es (set vis) k = 0}
     \<and> (\<forall>k. map_of m k = (if k \<in> endpoints es then Some (open_in es (set vis) k) else None)))"

lemma preds_before_snoc:
  "preds_before es vis \<Longrightarrow> (\<forall>a. (a, key) \<in> set es \<longrightarrow> a \<in> set vis) \<Longrightarrow> preds_before es (vis @ [key])"
  unfolding preds_before_def
proof (intro allI impI)
  fix xs k ys a
  assume old: "\<forall>xs k ys. vis = xs @ k # ys \<longrightarrow> (\<forall>a. (a, k) \<in> set es \<longrightarrow> a \<in> set xs)"
    and key: "\<forall>a. (a, key) \<in> set es \<longrightarrow> a \<in> set vis" and eq: "vis @ [key] = xs @ k # ys" and e: "(a, k) \<in> set es"
  show "a \<in> set xs"
  proof (cases ys rule: rev_cases)
    case Nil
    with eq key e show ?thesis by auto
  next
    case (snoc ys' y)
    with eq have "vis = xs @ k # ys'" by simp
    with old e show ?thesis by blast
  qed
qed

lemma visited_step:
  assumes v: "visited es vis (key # rest) m"
    and adj: "\<And>k. (case map_of adjacency k of None \<Rightarrow> [] | Some ts \<Rightarrow> ts) = targets es k"
    and r: "release (case map_of adjacency key of None \<Rightarrow> [] | Some ts \<Rightarrow> ts) m = (m', pushed)"
  shows "visited es (vis @ [key]) (rest @ pushed) m'"
proof -
  have fresh: "key \<notin> set vis" and d: "distinct (vis @ key # rest)" and key: "key \<in> endpoints es" "open_in es (set vis) key = 0"
    and all: "set (vis @ key # rest) = {k \<in> endpoints es. open_in es (set vis) k = 0}"
    and mv: "\<And>k. map_of m k = (if k \<in> endpoints es then Some (open_in es (set vis) k) else None)"
    and ord: "preds_before es vis"
    using v unfolding visited_def by auto
  have r': "release (targets es key) m = (m', pushed)" using r adj by simp
  have ends: "k \<in> endpoints es" if "k \<in> set (targets es key)" for k
    using that by (auto simp: targets_def endpoints_def)
  have rs: "\<And>k. map_of m' k = map_option (\<lambda>v. v - int (count_list (targets es key) k)) (map_of m k)"
    "set pushed = {k \<in> set (targets es key). map_of m k = Some (int (count_list (targets es key) k))}" "distinct pushed"
    using release_spec [OF r'] mv ends count_le_open [OF fresh] by auto
  have op: "open_in es (set (vis @ [key])) k = open_in es (set vis) k - int (count_list (targets es key) k)" for k
    using open_in_visit [OF fresh, of es k] by simp
  have vis': "set (vis @ [key]) = insert key (set vis)" by simp
  have new: "set pushed = {k \<in> endpoints es. open_in es (set (vis @ [key])) k = 0 \<and> open_in es (set vis) k \<noteq> 0}"
  proof -
    have "k \<in> set (targets es key) \<longleftrightarrow> 0 < int (count_list (targets es key) k)" for k
      using count_list_0_iff [of "targets es key" k] by auto
    then show ?thesis unfolding rs(2) op using mv ends by (auto split: if_splits)
  qed
  have "set (vis @ [key]) \<union> set rest = {k \<in> endpoints es. open_in es (set vis) k = 0}" using all by auto
  moreover have "open_in es (set vis) k = 0 \<Longrightarrow> open_in es (set (vis @ [key])) k = 0" for k
    unfolding open_in_zero by auto
  ultimately have "set ((vis @ [key]) @ rest @ pushed) = {k \<in> endpoints es. open_in es (set (vis @ [key])) k = 0}"
    unfolding set_append new by blast
  moreover have "distinct ((vis @ [key]) @ rest @ pushed)"
  proof -
    have "set (vis @ key # rest) \<inter> set pushed = {}" unfolding all new by blast
    then show ?thesis using d rs(3) by auto
  qed
  moreover have "preds_before es (vis @ [key])"
    by (rule preds_before_snoc [OF ord]) (use key(2) in \<open>simp add: open_in_zero\<close>)
  moreover have "map_of m' k = (if k \<in> endpoints es then Some (open_in es (set (vis @ [key])) k) else None)" for k
    using rs(1) [of k] mv [of k] by (simp only: vis' open_in_visit [OF fresh]) simp
  ultimately show ?thesis unfolding visited_def by blast
qed

lemma visit_final:
  "visited es vis ready m \<Longrightarrow> (\<And>k. (case map_of adjacency k of None \<Rightarrow> [] | Some ts \<Rightarrow> ts) = targets es k) \<Longrightarrow>
   \<exists>vis' m'. visited es vis' [] m' \<and> length vis' = length vis + visit adjacency ready m"
proof (induction adjacency ready m arbitrary: vis rule: visit.induct)
  case (1 adjacency ready m)
  show ?case
  proof (cases ready)
    case Nil
    with 1 show ?thesis by (auto simp: visit.simps)
  next
    case (Cons key rest)
    obtain m1 p1 where r: "release (case map_of adjacency key of None \<Rightarrow> [] | Some ts \<Rightarrow> ts) m = (m1, p1)"
      by (cases "release (case map_of adjacency key of None \<Rightarrow> [] | Some ts \<Rightarrow> ts) m")
    have v: "visited es (vis @ [key]) (rest @ p1) m1"
      by (rule visited_step [OF _ _ r]) (use 1 Cons in auto)
    have "\<exists>vis' m'. visited es vis' [] m' \<and> length vis' = length (vis @ [key]) + visit adjacency (rest @ p1) m1"
      by (rule "1.IH" [OF Cons r [symmetric] refl v]) (use 1 in auto)
    moreover have "visit adjacency ready m = Suc (visit adjacency (rest @ p1) m1)"
      using r unfolding Cons by (subst visit.simps) (simp del: visit.simps)
    ultimately show ?thesis by simp
  qed
qed

section \<open>The check is exact\<close>

lemma maps_of_start: "maps_of [] [] []"
  by (simp add: maps_of_def targets_def endpoints_def)

lemma visited_start:
  assumes m: "maps_of es adjacency indegree"
  shows "visited es [] (map fst (filter (\<lambda>e. snd e = 0) indegree)) indegree"
proof -
  have d: "distinct (map fst indegree)"
    and ind: "\<And>k. map_of indegree k = (if k \<in> endpoints es then Some (open_in es {} k) else None)"
    using m unfolding maps_of_def by blast+
  have "set (map fst (filter (\<lambda>e. snd e = 0) indegree)) = {k. map_of indegree k = Some 0}"
    using d by (auto simp: map_of_eq_Some_iff intro!: image_eqI)
  moreover have "distinct (map fst (filter (\<lambda>e. snd e = 0) indegree))"
    using d by (simp add: distinct_map_filter)
  ultimately show ?thesis
    unfolding visited_def using ind by (auto simp: preds_before_def)
qed

lemma size_endpoints:
  assumes "maps_of es adjacency indegree"
  shows "length indegree = card (endpoints es)" and "finite (endpoints es)"
proof -
  have d: "distinct (map fst indegree)"
    and ind: "\<And>k. map_of indegree k = (if k \<in> endpoints es then Some (open_in es {} k) else None)"
    using assms unfolding maps_of_def by blast+
  have "k \<in> set (map fst indegree) \<longleftrightarrow> k \<in> endpoints es" for k
    using map_of_eq_None_iff [of indegree k] ind [of k] by (auto split: if_splits)
  then have "set (map fst indegree) = endpoints es" by blast
  with distinct_card [OF d] show "length indegree = card (endpoints es)" by simp
  show "finite (endpoints es)" by (simp add: endpoints_def)
qed

text \<open>A list in which every source stands before its targets orders the graph.\<close>

lemma preds_before_acyclic:
  "distinct vis \<Longrightarrow> preds_before es vis \<Longrightarrow> snd ` set es \<subseteq> set vis \<Longrightarrow> acyclic (set es)"
proof -
  assume d: "distinct vis" and ord: "preds_before es vis" and cover: "snd ` set es \<subseteq> set vis"
  let ?pos = "\<lambda>k. length (takeWhile (\<lambda>x. x \<noteq> k) vis)"
  have less: "?pos a < ?pos b" if e: "(a, b) \<in> set es" for a b
  proof -
    have "b \<in> set vis" using cover e by force
    then obtain xs ys where vis: "vis = xs @ b # ys" "b \<notin> set xs" by (meson split_list_first)
    with ord e have "a \<in> set xs" unfolding preds_before_def by blast
    then obtain us vs where xs: "xs = us @ a # vs" "a \<notin> set us" by (meson split_list_first)
    have "takeWhile (\<lambda>x. x \<noteq> b) vis = xs" using vis by (auto simp: takeWhile_append)
    moreover have "takeWhile (\<lambda>x. x \<noteq> a) vis = us" using vis xs by (auto simp: takeWhile_append)
    ultimately show ?thesis using xs by simp
  qed
  have "set es \<subseteq> measure ?pos" using less by auto
  then show ?thesis by (rule wf_acyclic [OF wf_subset [OF wf_measure]])
qed

text \<open>An acyclic graph has no set of endpoints each of which has a predecessor in the set.\<close>

lemma acyclic_source:
  assumes "acyclic (set es)" and "rest \<noteq> {}"
  obtains k where "k \<in> rest" and "\<And>a. (a, k) \<in> set es \<Longrightarrow> a \<notin> rest"
proof -
  have "wf (set es)" using assms(1) by (simp add: finite_acyclic_wf)
  then show ?thesis using wfE_min [of "set es" _ rest] assms(2) that by (metis ex_in_conv)
qed

theorem acyclic_edges_exact: "acyclic_edges es \<longleftrightarrow> acyclic (set es)"
proof -
  obtain a i where ai: "edge_maps es [] [] = (a, i)" by (cases "edge_maps es [] []")
  have m: "maps_of es a i" using edge_maps_maps_of [OF maps_of_start ai] by simp
  have adj: "\<And>k. (case map_of a k of None \<Rightarrow> [] | Some ts \<Rightarrow> ts) = targets es k"
    using m unfolding maps_of_def by blast
  obtain vis m' where v: "visited es vis [] m'"
    and len: "length vis = visit a (map fst (filter (\<lambda>e. snd e = 0) i)) i"
    using visit_final [OF visited_start [OF m] adj] by auto
  have d: "distinct vis" and ord: "preds_before es vis"
    and all: "set vis = {k \<in> endpoints es. open_in es (set vis) k = 0}"
    using v unfolding visited_def by simp_all
  have "acyclic_edges es \<longleftrightarrow> card (set vis) = card (endpoints es)"
    by (simp add: acyclic_edges_def ai Let_def len [symmetric] size_endpoints(1) [OF m] distinct_card [OF d])
  also have "\<dots> \<longleftrightarrow> set vis = endpoints es"
    using card_subset_eq [OF size_endpoints(2) [OF m], of "set vis"] all by auto
  also have "\<dots> \<longleftrightarrow> acyclic (set es)"
  proof
    assume "set vis = endpoints es"
    then show "acyclic (set es)"
      by (intro preds_before_acyclic [OF d ord]) (auto simp: endpoints_def)
  next
    assume acyc: "acyclic (set es)"
    show "set vis = endpoints es"
    proof (rule ccontr)
      assume "set vis \<noteq> endpoints es"
      then have "endpoints es - set vis \<noteq> {}" using all by blast
      from acyclic_source [OF acyc this] obtain k
        where k: "k \<in> endpoints es - set vis" "\<And>b. (b, k) \<in> set es \<Longrightarrow> b \<notin> endpoints es - set vis" by blast
      have "\<forall>b. (b, k) \<in> set es \<longrightarrow> b \<in> set vis"
      proof (intro allI impI)
        fix b assume e: "(b, k) \<in> set es"
        then have "b \<in> endpoints es" by (force simp: endpoints_def)
        with k(2) [OF e] show "b \<in> set vis" by blast
      qed
      then have "open_in es (set vis) k = 0" by (simp add: open_in_zero)
      with k(1) all show False by blast
    qed
  qed
  finally show ?thesis .
qed

end
