(* ===== verification/EvidenceContext.thy ===== *)
theory EvidenceContext
  imports NativeSchemaProps GraphOrder
begin

text \<open>
  Evidence graphs: \<open>packages/core/src/evidence-context.ts\<close>. Untrusted data is snapshotted under a
  budget, parsed into nodes and relations, and accepted only as a rooted graph without duplicates,
  dangling or crossing edges and cycles. Labels of error messages are left out; a thrown error is
  the constructor naming its cause.
\<close>

section \<open>Data\<close>

datatype ev_error = EvBudget | EvNonFinite | EvNonData | EvDepth | EvCustomProperty | EvArrayLength
  | EvItem | EvNotPlain | EvWidth | EvSymbol | EvField | EvRecord | EvArray | EvUnknownField
  | EvIdentifier | EvTimestamp | EvKind | EvSchema | EvSize | EvCrossCase | EvDuplicateNode
  | EvNoRoot | EvParent | EvRunParent | EvDuplicateId | EvUnknownNode | EvCrossAttempt
  | EvEndpoints | EvDuplicateEdge | EvCycle

datatype source_kind = Runner | Adapter | Probe | TraceImporter

record evidence_source =
  es_kind :: source_kind
  es_producerId :: string
  es_sourceRecordId :: string

datatype evidence_ref =
    CaseExecutionRef string
  | AttemptRef string string
  | StepRef string string string
  | AgentRunRef string string string
  | ToolCallRef string string string string
  | ArtifactRef string string string

record evidence_node =
  en_ref :: evidence_ref
  en_source :: evidence_source
  en_observedAt :: "string option"

datatype relation_kind = Contains | DeclaredCause | Produced | ObservedBy | AttachedTo

record evidence_relation =
  er_id :: string
  er_relation :: relation_kind
  er_from :: evidence_ref
  er_to :: evidence_ref
  er_source :: evidence_source

record evidence_context =
  ec_caseExecutionId :: string
  ec_nodes :: "evidence_node list"
  ec_relations :: "evidence_relation list"

definition evidenceContextSchemaVersion :: string where
  "evidenceContextSchemaVersion = ''surfaceloom.evidence-context/v1''"

definition source_kinds :: "(string \<times> source_kind) list" where
  "source_kinds = [(''runner'', Runner), (''adapter'', Adapter), (''probe'', Probe),
     (''trace-importer'', TraceImporter)]"

definition relation_kinds :: "(string \<times> relation_kind) list" where
  "relation_kinds = [(''contains'', Contains), (''declaredCause'', DeclaredCause),
     (''produced'', Produced), (''observedBy'', ObservedBy), (''attachedTo'', AttachedTo)]"

definition max_items :: nat where "max_items = 10000"
definition max_snapshot_units :: int where "max_snapshot_units = 500000"

fun ref_case :: "evidence_ref \<Rightarrow> string" where
  "ref_case (CaseExecutionRef c) = c"
| "ref_case (AttemptRef c _) = c"
| "ref_case (StepRef c _ _) = c"
| "ref_case (AgentRunRef c _ _) = c"
| "ref_case (ToolCallRef c _ _ _) = c"
| "ref_case (ArtifactRef c _ _) = c"

fun ref_attempt :: "evidence_ref \<Rightarrow> string option" where
  "ref_attempt (CaseExecutionRef _) = None"
| "ref_attempt (AttemptRef _ a) = Some a"
| "ref_attempt (StepRef _ a _) = Some a"
| "ref_attempt (AgentRunRef _ a _) = Some a"
| "ref_attempt (ToolCallRef _ a _ _) = Some a"
| "ref_attempt (ArtifactRef _ a _) = Some a"

fun ref_kind :: "evidence_ref \<Rightarrow> string" where
  "ref_kind (CaseExecutionRef _) = ''caseExecution''"
| "ref_kind (AttemptRef _ _) = ''attempt''"
| "ref_kind (StepRef _ _ _) = ''step''"
| "ref_kind (AgentRunRef _ _ _) = ''agentRun''"
| "ref_kind (ToolCallRef _ _ _ _) = ''toolCall''"
| "ref_kind (ArtifactRef _ _ _) = ''artifact''"

section \<open>Snapshots of untrusted data\<close>

text \<open>
  The budget is the object every recursive call decrements, so it is threaded through the loops;
  an error ends the whole snapshot.
\<close>

fun symbol_key :: "pkey \<times> jsprop \<Rightarrow> bool" where
  "symbol_key (SymKey _, _) = True"
| "symbol_key (StrKey _, _) = False"

fun snapshotData :: "nat \<Rightarrow> int \<Rightarrow> jsv \<Rightarrow> ev_error + json \<times> int"
  and snapshotItems :: "nat \<Rightarrow> int \<Rightarrow> jsprop option list \<Rightarrow> ev_error + json list \<times> int"
  and snapshotFields :: "nat \<Rightarrow> int \<Rightarrow> (pkey \<times> jsprop) list \<Rightarrow> ev_error + (string \<times> json) list \<times> int" where
  "snapshotData depth n VNull = (if n - 1 < 0 then Inl EvBudget else Inr (JNull, n - 1))"
| "snapshotData depth n (VStr s) = (if n - 1 < 0 then Inl EvBudget else Inr (JStr s, n - 1))"
| "snapshotData depth n (VBool b) = (if n - 1 < 0 then Inl EvBudget else Inr (JBool b, n - 1))"
| "snapshotData depth n (VNum x) = (if n - 1 < 0 then Inl EvBudget else
     (case x of Fin q \<Rightarrow> Inr (JNum q, n - 1) | _ \<Rightarrow> Inl EvNonFinite))"
| "snapshotData depth n VUndefined = (if n - 1 < 0 then Inl EvBudget else Inl EvNonData)"
| "snapshotData depth n (VSym _) = (if n - 1 < 0 then Inl EvBudget else Inl EvNonData)"
| "snapshotData depth n (VFun _) = (if n - 1 < 0 then Inl EvBudget else Inl EvNonData)"
| "snapshotData depth n (VArr b ps ks) = (if n - 1 < 0 then Inl EvBudget
     else if depth > 20 then Inl EvDepth
     else if \<not> list_all key_is_index ks then Inl EvCustomProperty
     else if length ps > max_items then Inl EvArrayLength
     else rbind (snapshotItems (Suc depth) (n - 1) ps) (\<lambda>(js, n'). Inr (JArr js, n')))"
| "snapshotData depth n (VObj p ps) = (if n - 1 < 0 then Inl EvBudget
     else if depth > 20 then Inl EvDepth
     else if p = OtherProto then Inl EvNotPlain
     else if length ps > 1000 then Inl EvWidth
     else if list_ex symbol_key ps then Inl EvSymbol
     else rbind (snapshotFields (Suc depth) (n - 1) ps) (\<lambda>(fs, n'). Inr (JObj fs, n')))"
| "snapshotItems depth n [] = Inr ([], n)"
| "snapshotItems depth n (None # ps) = Inl EvItem"
| "snapshotItems depth n (Some AccProp # ps) = Inl EvItem"
| "snapshotItems depth n (Some (DataProp e v) # ps) = (if \<not> e then Inl EvItem else
     rbind (snapshotData depth n v) (\<lambda>(j, n1).
     rbind (snapshotItems depth n1 ps) (\<lambda>(js, n2). Inr (j # js, n2))))"
| "snapshotFields depth n [] = Inr ([], n)"
| "snapshotFields depth n ((SymKey _, _) # ps) = snapshotFields depth n ps"
| "snapshotFields depth n ((StrKey k, AccProp) # ps) = Inl EvField"
| "snapshotFields depth n ((StrKey k, DataProp e v) # ps) = (if \<not> e then Inl EvField else
     rbind (snapshotData depth n v) (\<lambda>(j, n1).
     rbind (snapshotFields depth n1 ps) (\<lambda>(fs, n2). Inr ((k, j) # fs, n2))))"

definition snapshot :: "jsv \<Rightarrow> ev_error + json" where
  "snapshot v = rbind (snapshotData 0 max_snapshot_units v) (\<lambda>(j, n). Inr j)"

section \<open>Readers\<close>

definition ev_record :: "json option \<Rightarrow> ev_error + (string \<times> json) list" where
  "ev_record v = (case v of Some (JObj fs) \<Rightarrow> Inr fs | _ \<Rightarrow> Inl EvRecord)"

definition ev_array :: "json option \<Rightarrow> ev_error + json list" where
  "ev_array v = (case v of Some (JArr js) \<Rightarrow> Inr js | _ \<Rightarrow> Inl EvArray)"

definition ev_exact :: "(string \<times> json) list \<Rightarrow> string list \<Rightarrow> ev_error + unit" where
  "ev_exact fs allowed = (if list_all (\<lambda>f. fst f \<in> set allowed) fs then Inr () else Inl EvUnknownField)"

definition ev_identifier_ok :: "string \<Rightarrow> bool" where
  "ev_identifier_ok s = (s \<noteq> [] \<and> length s \<le> 240 \<and> ident_shape ''._:@/-'' s)"

definition ev_identifier :: "json option \<Rightarrow> ev_error + string" where
  "ev_identifier v = (case v of
     Some (JStr s) \<Rightarrow> if ev_identifier_ok s then Inr s else Inl EvIdentifier
   | _ \<Rightarrow> Inl EvIdentifier)"

text \<open>
  \<open>/^\d{4}-\d{2}-\d{2}T\d{2}:\d{2}:\d{2}\.\d{3}Z$/\<close>, and a finite \<open>Date.parse\<close>: month, day and
  time in range. \<open>Date.parse\<close> (as V8 implements it) takes day 31 in every month and hour 24 at
  midnight sharp.
\<close>

definition two_digits :: "string \<Rightarrow> nat \<Rightarrow> nat" where
  "two_digits s i = 10 * (code (s ! i) - 48) + (code (s ! Suc i) - 48)"

definition date_parses :: "string \<Rightarrow> bool" where
  "date_parses s = (1 \<le> two_digits s 5 \<and> two_digits s 5 \<le> 12 \<and> 1 \<le> two_digits s 8 \<and> two_digits s 8 \<le> 31
     \<and> (two_digits s 11 \<le> 23 \<and> two_digits s 14 \<le> 59 \<and> two_digits s 17 \<le> 59
        \<or> drop 11 s = ''24:00:00.000Z''))"

definition timestamp_shape :: "string \<Rightarrow> bool" where
  "timestamp_shape s = list_all2 (\<lambda>p c. if p = CHR ''d'' then is_digit c else c = p)
     ''dddd-dd-ddTdd:dd:dd.dddZ'' s"

definition timestamp_ok :: "string \<Rightarrow> bool" where
  "timestamp_ok s = (length s \<le> 80 \<and> timestamp_shape s \<and> date_parses s)"

definition ev_timestamp :: "json option \<Rightarrow> ev_error + string" where
  "ev_timestamp v = (case v of
     Some (JStr s) \<Rightarrow> if timestamp_ok s then Inr s else Inl EvTimestamp
   | _ \<Rightarrow> Inl EvTimestamp)"

definition ev_pick :: "(string \<times> 'a) list \<Rightarrow> json option \<Rightarrow> ev_error + 'a" where
  "ev_pick table v = (case v of
     Some (JStr s) \<Rightarrow> (case map_of table s of None \<Rightarrow> Inl EvKind | Some x \<Rightarrow> Inr x)
   | _ \<Rightarrow> Inl EvKind)"

definition refKeys :: "string \<Rightarrow> string list" where
  "refKeys kind =
     (if kind = ''caseExecution'' then [''kind'', ''caseExecutionId'']
      else if kind = ''attempt'' then [''kind'', ''caseExecutionId'', ''attemptId'']
      else if kind = ''step'' then [''kind'', ''caseExecutionId'', ''attemptId'', ''stepId'']
      else if kind = ''agentRun'' then [''kind'', ''caseExecutionId'', ''attemptId'', ''runId'']
      else if kind = ''toolCall'' then [''kind'', ''caseExecutionId'', ''attemptId'', ''runId'', ''callId'']
      else if kind = ''artifact'' then [''kind'', ''caseExecutionId'', ''attemptId'', ''artifactId'']
      else [''kind''])"

definition evidenceSource :: "json option \<Rightarrow> ev_error + evidence_source" where
  "evidenceSource v =
     rbind (ev_record v) (\<lambda>r.
     rbind (ev_exact r [''kind'', ''producerId'', ''sourceRecordId'']) (\<lambda>_.
     rbind (ev_pick source_kinds (map_of r ''kind'')) (\<lambda>k.
     rbind (ev_identifier (map_of r ''producerId'')) (\<lambda>p.
     rbind (ev_identifier (map_of r ''sourceRecordId'')) (\<lambda>s.
     Inr \<lparr>es_kind = k, es_producerId = p, es_sourceRecordId = s\<rparr>)))))"

definition ref_kind_names :: "string list" where
  "ref_kind_names = [''caseExecution'', ''attempt'', ''step'', ''agentRun'', ''toolCall'', ''artifact'']"

definition evidenceRef :: "(string \<times> json) list \<Rightarrow> string list \<Rightarrow> ev_error + evidence_ref" where
  "evidenceRef item additional =
     rbind (case map_of item ''kind'' of
         Some (JStr k) \<Rightarrow> if k \<in> set ref_kind_names then Inr k else Inl EvKind
       | _ \<Rightarrow> Inl EvKind) (\<lambda>kind.
     rbind (ev_exact item (refKeys kind @ additional)) (\<lambda>_.
     rbind (ev_identifier (map_of item ''caseExecutionId'')) (\<lambda>c.
     if kind = ''caseExecution'' then Inr (CaseExecutionRef c) else
     rbind (ev_identifier (map_of item ''attemptId'')) (\<lambda>a.
     if kind = ''attempt'' then Inr (AttemptRef c a)
     else if kind = ''step'' then
       rbind (ev_identifier (map_of item ''stepId'')) (\<lambda>s. Inr (StepRef c a s))
     else if kind = ''agentRun'' then
       rbind (ev_identifier (map_of item ''runId'')) (\<lambda>r. Inr (AgentRunRef c a r))
     else if kind = ''toolCall'' then
       rbind (ev_identifier (map_of item ''runId'')) (\<lambda>r.
       rbind (ev_identifier (map_of item ''callId'')) (\<lambda>t. Inr (ToolCallRef c a r t)))
     else rbind (ev_identifier (map_of item ''artifactId'')) (\<lambda>x. Inr (ArtifactRef c a x))))))"

definition ev_node :: "json \<Rightarrow> ev_error + evidence_node" where
  "ev_node v =
     rbind (ev_record (Some v)) (\<lambda>item.
     rbind (evidenceRef item [''source'', ''observedAt'']) (\<lambda>ref.
     rbind (ev_exact item (refKeys (ref_kind ref) @ [''source'', ''observedAt''])) (\<lambda>_.
     rbind (evidenceSource (map_of item ''source'')) (\<lambda>src.
     rbind (case map_of item ''observedAt'' of None \<Rightarrow> Inr None
         | Some t \<Rightarrow> rbind (ev_timestamp (Some t)) (\<lambda>s. Inr (Some s))) (\<lambda>observed_at.
     Inr \<lparr>en_ref = ref, en_source = src, en_observedAt = observed_at\<rparr>)))))"

definition ev_relation :: "json \<Rightarrow> ev_error + evidence_relation" where
  "ev_relation v =
     rbind (ev_record (Some v)) (\<lambda>item.
     rbind (ev_exact item [''id'', ''relation'', ''from'', ''to'', ''source'']) (\<lambda>_.
     rbind (ev_identifier (map_of item ''id'')) (\<lambda>i.
     rbind (ev_pick relation_kinds (map_of item ''relation'')) (\<lambda>k.
     rbind (rbind (ev_record (map_of item ''from'')) (\<lambda>r. evidenceRef r [])) (\<lambda>f.
     rbind (rbind (ev_record (map_of item ''to'')) (\<lambda>r. evidenceRef r [])) (\<lambda>t.
     rbind (evidenceSource (map_of item ''source'')) (\<lambda>src.
     Inr \<lparr>er_id = i, er_relation = k, er_from = f, er_to = t, er_source = src\<rparr>)))))))"

section \<open>Keys: \<open>JSON.stringify\<close> of a list of strings\<close>

definition hex_digit :: "nat \<Rightarrow> char" where
  "hex_digit n = ''0123456789abcdef'' ! n"

definition json_escape :: "char \<Rightarrow> string" where
  "json_escape c =
     (if c = CHR 0x22 then [CHR 0x5C, CHR 0x22]
      else if c = CHR 0x5C then [CHR 0x5C, CHR 0x5C]
      else if code c = 8 then [CHR 0x5C, CHR ''b'']
      else if code c = 9 then [CHR 0x5C, CHR ''t'']
      else if code c = 10 then [CHR 0x5C, CHR ''n'']
      else if code c = 12 then [CHR 0x5C, CHR ''f'']
      else if code c = 13 then [CHR 0x5C, CHR ''r'']
      else if code c < 32 then [CHR 0x5C, CHR ''u'', CHR ''0'', CHR ''0'',
        hex_digit (code c div 16), hex_digit (code c mod 16)]
      else [c])"

definition json_quote :: "string \<Rightarrow> string" where
  "json_quote s = CHR 0x22 # concat (map json_escape s) @ [CHR 0x22]"

fun json_commas :: "string list \<Rightarrow> string" where
  "json_commas [] = ''''"
| "json_commas [s] = json_quote s"
| "json_commas (s # ss) = json_quote s @ '','' @ json_commas ss"

definition stringify :: "string list \<Rightarrow> string" where
  "stringify ss = ''['' @ json_commas ss @ '']''"

fun ref_parts :: "evidence_ref \<Rightarrow> string list" where
  "ref_parts (CaseExecutionRef c) = [''caseExecution'', c]"
| "ref_parts (AttemptRef c a) = [''attempt'', c, a]"
| "ref_parts (StepRef c a s) = [''step'', c, a, s]"
| "ref_parts (AgentRunRef c a r) = [''agentRun'', c, a, r]"
| "ref_parts (ToolCallRef c a r t) = [''toolCall'', c, a, r, t]"
| "ref_parts (ArtifactRef c a x) = [''artifact'', c, a, x]"

definition evidenceRefKey :: "evidence_ref \<Rightarrow> string" where
  "evidenceRefKey r = stringify (ref_parts r)"

section \<open>The graph\<close>

fun index_nodes :: "string \<Rightarrow> evidence_node list \<Rightarrow> (string \<times> evidence_node) list
    \<Rightarrow> ev_error + (string \<times> evidence_node) list" where
  "index_nodes c [] m = Inr m"
| "index_nodes c (x # xs) m =
     (if ref_case (en_ref x) \<noteq> c then Inl EvCrossCase
      else if map_has m (evidenceRefKey (en_ref x)) then Inl EvDuplicateNode
      else index_nodes c xs (map_set (evidenceRefKey (en_ref x)) x m))"

definition parent_ok :: "(string \<times> evidence_node) list \<Rightarrow> evidence_node \<Rightarrow> ev_error + unit" where
  "parent_ok m x = (case en_ref x of
     CaseExecutionRef _ \<Rightarrow> Inr ()
   | r \<Rightarrow> if \<not> map_has m (evidenceRefKey (AttemptRef (ref_case r) (the (ref_attempt r)))) then Inl EvParent
       else (case r of
           ToolCallRef c a run _ \<Rightarrow>
             if \<not> map_has m (evidenceRefKey (AgentRunRef c a run)) then Inl EvRunParent else Inr ()
         | _ \<Rightarrow> Inr ()))"

definition validateParents :: "evidence_node list \<Rightarrow> (string \<times> evidence_node) list \<Rightarrow> ev_error + unit" where
  "validateParents nodes m = rall (parent_ok m) nodes"

definition compatibleAttempt :: "evidence_ref \<Rightarrow> evidence_ref \<Rightarrow> bool" where
  "compatibleAttempt l r = (ref_attempt l = None \<or> ref_attempt r = None \<or> ref_attempt l = ref_attempt r)"

definition validRelationEndpoints :: "evidence_relation \<Rightarrow> bool" where
  "validRelationEndpoints e =
     (let f = ref_kind (er_from e); t = ref_kind (er_to e) in
      if er_relation e = Contains then
        f = ''caseExecution'' \<and> t = ''attempt''
        \<or> f = ''attempt'' \<and> t \<in> {''step'', ''agentRun'', ''artifact''}
        \<or> f = ''agentRun'' \<and> t = ''toolCall''
      else if er_relation e = Produced \<or> er_relation e = ObservedBy then
        f \<in> {''step'', ''agentRun'', ''toolCall''} \<and> t = ''artifact''
      else if er_relation e = AttachedTo then
        f = ''artifact'' \<and> t \<in> {''attempt'', ''step'', ''agentRun'', ''toolCall''}
      else f \<in> {''step'', ''agentRun'', ''toolCall'', ''artifact''}
        \<and> t \<in> {''step'', ''agentRun'', ''toolCall'', ''artifact''})"

fun relation_name :: "relation_kind \<Rightarrow> string" where
  "relation_name Contains = ''contains''"
| "relation_name DeclaredCause = ''declaredCause''"
| "relation_name Produced = ''produced''"
| "relation_name ObservedBy = ''observedBy''"
| "relation_name AttachedTo = ''attachedTo''"

fun check_relations :: "string \<Rightarrow> (string \<times> evidence_node) list \<Rightarrow> evidence_relation list
    \<Rightarrow> string list \<Rightarrow> string list \<Rightarrow> ev_error + unit" where
  "check_relations c m [] ids keys = Inr ()"
| "check_relations c m (e # es) ids keys =
     (if \<not> ev_identifier_ok (er_id e) then Inl EvIdentifier
      else if er_id e \<in> set ids then Inl EvDuplicateId
      else (let fromKey = evidenceRefKey (er_from e); toKey = evidenceRefKey (er_to e) in
        if \<not> map_has m fromKey \<or> \<not> map_has m toKey then Inl EvUnknownNode
        else if ref_case (er_from e) \<noteq> c \<or> ref_case (er_to e) \<noteq> c then Inl EvCrossCase
        else if \<not> compatibleAttempt (er_from e) (er_to e) then Inl EvCrossAttempt
        else if \<not> validRelationEndpoints e then Inl EvEndpoints
        else (let edgeKey = stringify [relation_name (er_relation e), fromKey, toKey] in
          if edgeKey \<in> set keys then Inl EvDuplicateEdge
          else check_relations c m es (set_add (er_id e) ids) (set_add edgeKey keys))))"

definition rejectCycles :: "evidence_relation list \<Rightarrow> ev_error + unit" where
  "rejectCycles es =
     (if acyclic_edges (map (\<lambda>e. (evidenceRefKey (er_from e), evidenceRefKey (er_to e))) es)
      then Inr () else Inl EvCycle)"

definition context_of :: "json \<Rightarrow> ev_error + evidence_context" where
  "context_of j =
     rbind (ev_record (Some j)) (\<lambda>r.
     rbind (ev_exact r [''schemaVersion'', ''caseExecutionId'', ''nodes'', ''relations'']) (\<lambda>_.
     if map_of r ''schemaVersion'' \<noteq> Some (JStr evidenceContextSchemaVersion) then Inl EvSchema else
     rbind (ev_identifier (map_of r ''caseExecutionId'')) (\<lambda>c.
     rbind (ev_array (map_of r ''nodes'')) (\<lambda>rawNodes.
     rbind (ev_array (map_of r ''relations'')) (\<lambda>rawRelations.
     if length rawNodes > max_items \<or> length rawRelations > max_items then Inl EvSize else
     rbind (rmap ev_node rawNodes) (\<lambda>nodes.
     rbind (index_nodes c nodes []) (\<lambda>m.
     if \<not> map_has m (evidenceRefKey (CaseExecutionRef c)) then Inl EvNoRoot else
     rbind (validateParents nodes m) (\<lambda>_.
     rbind (rmap ev_relation rawRelations) (\<lambda>relations.
     rbind (check_relations c m relations [] []) (\<lambda>_.
     rbind (rejectCycles relations) (\<lambda>_.
     Inr \<lparr>ec_caseExecutionId = c, ec_nodes = nodes, ec_relations = relations\<rparr>)))))))))))"

definition defineEvidenceContext :: "jsv \<Rightarrow> ev_error + evidence_context" where
  "defineEvidenceContext v = rbind (snapshot v) context_of"

definition defineEvidenceRef :: "jsv \<Rightarrow> ev_error + evidence_ref" where
  "defineEvidenceRef v = rbind (snapshot v) (\<lambda>j. rbind (ev_record (Some j)) (\<lambda>r. evidenceRef r []))"

definition defineEvidenceSource :: "jsv \<Rightarrow> ev_error + evidence_source" where
  "defineEvidenceSource v = rbind (snapshot v) (\<lambda>j. evidenceSource (Some j))"

end
