(* ===== verification/EvidenceProps.thy ===== *)
theory EvidenceProps
  imports EvidenceContext
begin

text \<open>
  What an accepted evidence graph is (\<open>wf_context\<close>), and that \<open>defineEvidenceContext\<close> accepts
  exactly the well-formed graphs: keys are injective, the snapshot returns the data it was given
  within its bounds, and every check of the source is one clause of \<open>wf_context\<close>.
\<close>

section \<open>Keys identify references\<close>

definition hex_value :: "char \<Rightarrow> nat" where
  "hex_value c = (if is_digit c then code c - 48 else code c - 87)"

fun unescape :: "string \<Rightarrow> char \<times> string" where
  "unescape (c # r) =
     (if c \<noteq> CHR 0x5C then (c, r) else (case r of
        d # r' \<Rightarrow>
          if d = CHR ''b'' then (char_of (8::nat), r') else if d = CHR ''t'' then (char_of (9::nat), r')
          else if d = CHR ''n'' then (char_of (10::nat), r') else if d = CHR ''f'' then (char_of (12::nat), r')
          else if d = CHR ''r'' then (char_of (13::nat), r')
          else if d = CHR ''u'' then
            (case r' of _ # _ # h # l # r'' \<Rightarrow> (char_of (16 * hex_value h + hex_value l), r'') | _ \<Rightarrow> (c, r'))
          else (d, r')
      | [] \<Rightarrow> (c, r)))"
| "unescape [] = (CHR 0x00, [])"

lemma hex_values: "list_all (\<lambda>n. hex_value (hex_digit n) = n) [0..<16]"
  by code_simp

lemma hex_value_digit: "n < 16 \<Longrightarrow> hex_value (hex_digit n) = n"
  using hex_values by (simp add: list_all_iff)

lemma char_of_code: "code c = n \<Longrightarrow> char_of n = c"
  by (auto simp: code_def)

lemma unescape_escape: "unescape (json_escape c @ r) = (c, r)"
proof -
  have "char_of (16 * (code c div 16) + code c mod 16) = c" by (simp add: code_def)
  moreover have "code c < 32 \<Longrightarrow> code c div 16 < 16" and "code c mod 16 < 16" by auto
  ultimately show ?thesis
    by (auto simp: json_escape_def hex_value_digit char_of_code)
qed

lemma escape_start: "\<exists>d ds. json_escape c = d # ds \<and> d \<noteq> CHR 0x22"
  by (auto simp: json_escape_def)

lemma escaped_inj:
  "concat (map json_escape s) @ CHR 0x22 # x = concat (map json_escape t) @ CHR 0x22 # y \<Longrightarrow> s = t \<and> x = y"
proof (induction s arbitrary: t)
  case Nil
  show ?case
  proof (cases t)
    case (Cons d t')
    with Nil escape_start [of d] show ?thesis by force
  qed (use Nil in simp)
next
  case (Cons c s)
  show ?case
  proof (cases t)
    case Nil
    with Cons.prems escape_start [of c] show ?thesis by force
  next
    case (Cons d t')
    let ?l = "concat (map json_escape s) @ CHR 0x22 # x" and ?r = "concat (map json_escape t') @ CHR 0x22 # y"
    have "json_escape c @ ?l = json_escape d @ ?r" using Cons.prems Cons by simp
    then have "unescape (json_escape c @ ?l) = unescape (json_escape d @ ?r)" by (rule arg_cong)
    then have "c = d" "?l = ?r" by (simp_all add: unescape_escape)
    with Cons.IH [of t'] Cons show ?thesis by simp
  qed
qed

lemma quote_inj: "json_quote s @ x = json_quote t @ y \<longleftrightarrow> s = t \<and> x = y"
  using escaped_inj [of s x t y] by (auto simp: json_quote_def)

lemma quote_start: "hd (json_quote s) = CHR 0x22" "json_quote s \<noteq> []"
  by (simp_all add: json_quote_def)

lemma quote_inj_end: "json_quote s = json_quote t \<longleftrightarrow> s = t" "json_quote s = json_quote t @ y \<longleftrightarrow> s = t \<and> y = []"
  "json_quote t @ y = json_quote s \<longleftrightarrow> s = t \<and> y = []"
  using quote_inj [of s "[]" t "[]"] quote_inj [of s "[]" t y] by auto

lemma quote_nonempty: "json_quote s = [] \<Longrightarrow> False"
  by (simp add: json_quote_def)

lemma commas_inj: "json_commas xs @ '']'' = json_commas ys @ '']'' \<Longrightarrow> xs = ys"
proof (induction xs arbitrary: ys rule: json_commas.induct)
  case 1
  then show ?case by (cases ys rule: json_commas.cases) (auto simp: json_quote_def)
next
  case (2 s)
  then show ?case
    by (cases ys rule: json_commas.cases) (auto simp: quote_inj quote_inj_end dest: quote_nonempty)
next
  case (3 s s' ss)
  then show ?case
    by (cases ys rule: json_commas.cases) (auto simp: quote_inj quote_inj_end)
qed

lemma stringify_inj [simp]: "stringify xs = stringify ys \<longleftrightarrow> xs = ys"
  using commas_inj by (auto simp: stringify_def)

lemma ref_parts_inj [simp]: "ref_parts r = ref_parts r' \<longleftrightarrow> r = r'"
  by (cases r; cases r') auto

lemma evidenceRefKey_inj [simp]: "evidenceRefKey r = evidenceRefKey r' \<longleftrightarrow> r = r'"
  by (simp add: evidenceRefKey_def)

lemma relation_name_inj [simp]: "relation_name k = relation_name k' \<longleftrightarrow> k = k'"
  by (cases k; cases k') auto

section \<open>The snapshot\<close>

fun data_units :: "json \<Rightarrow> nat" where
  "data_units (JArr js) = Suc (sum_list (map data_units js))"
| "data_units (JObj fs) = Suc (sum_list (map (\<lambda>f. data_units (snd f)) fs))"
| "data_units _ = 1"

fun data_ok :: "nat \<Rightarrow> json \<Rightarrow> bool" where
  "data_ok depth (JArr js) = (depth \<le> 20 \<and> length js \<le> max_items \<and> list_all (data_ok (Suc depth)) js)"
| "data_ok depth (JObj fs) = (depth \<le> 20 \<and> length fs \<le> 1000 \<and> list_all (\<lambda>f. data_ok (Suc depth) (snd f)) fs)"
| "data_ok depth _ = True"

lemma snapshot_embed_lists:
  "(\<And>j n. j \<in> set js \<Longrightarrow> data_ok d j \<Longrightarrow> int (data_units j) \<le> n \<Longrightarrow>
      snapshotData d n (json_value j) = Inr (j, n - int (data_units j))) \<Longrightarrow>
   list_all (data_ok d) js \<Longrightarrow> int (sum_list (map data_units js)) \<le> n \<Longrightarrow>
   snapshotItems d n (map (\<lambda>v. Some (DataProp True v)) (map json_value js))
     = Inr (js, n - int (sum_list (map data_units js)))"
proof (induction js arbitrary: n)
  case (Cons j js)
  have "snapshotData d n (json_value j) = Inr (j, n - int (data_units j))"
    by (rule Cons.prems(1)) (use Cons.prems in auto)
  moreover have "snapshotItems d (n - int (data_units j)) (map (\<lambda>v. Some (DataProp True v)) (map json_value js))
      = Inr (js, n - int (data_units j) - int (sum_list (map data_units js)))"
    by (rule Cons.IH) (use Cons.prems in auto)
  ultimately show ?case by (simp add: algebra_simps)
qed simp

lemma snapshot_embed_fields:
  "(\<And>f n. f \<in> set fs \<Longrightarrow> data_ok d (snd f) \<Longrightarrow> int (data_units (snd f)) \<le> n \<Longrightarrow>
      snapshotData d n (json_value (snd f)) = Inr (snd f, n - int (data_units (snd f)))) \<Longrightarrow>
   list_all (\<lambda>f. data_ok d (snd f)) fs \<Longrightarrow> int (sum_list (map (\<lambda>f. data_units (snd f)) fs)) \<le> n \<Longrightarrow>
   snapshotFields d n (map (\<lambda>(k, v). (StrKey k, DataProp True v)) (map (\<lambda>(k, j). (k, json_value j)) fs))
     = Inr (fs, n - int (sum_list (map (\<lambda>f. data_units (snd f)) fs)))"
proof (induction fs arbitrary: n)
  case (Cons f fs)
  obtain k j where f: "f = (k, j)" by (cases f)
  have "snapshotData d n (json_value j) = Inr (j, n - int (data_units j))"
    using Cons.prems(1) [of f n] Cons.prems(2,3) by (simp add: f)
  moreover have "snapshotFields d (n - int (data_units j))
      (map (\<lambda>(k, v). (StrKey k, DataProp True v)) (map (\<lambda>(k, j). (k, json_value j)) fs))
      = Inr (fs, n - int (data_units j) - int (sum_list (map (\<lambda>f. data_units (snd f)) fs)))"
    by (rule Cons.IH) (use Cons.prems f in auto)
  ultimately show ?case by (simp add: f algebra_simps)
qed simp

lemma no_symbols: "\<not> list_ex symbol_key (map (\<lambda>(k, v). (StrKey k, DataProp True v)) r)"
  by (induction r) auto

lemma units_pos: "0 < data_units j"
  by (cases j) auto

lemma snapshotData_embed:
  "data_ok d j \<Longrightarrow> int (data_units j) \<le> n \<Longrightarrow> snapshotData d n (json_value j) = Inr (j, n - int (data_units j))"
proof (induction j arbitrary: d n)
  case (JArr js)
  have "snapshotItems (Suc d) (n - 1) (map (\<lambda>v. Some (DataProp True v)) (map json_value js))
      = Inr (js, n - 1 - int (sum_list (map data_units js)))"
    by (rule snapshot_embed_lists) (use JArr in auto)
  then show ?case using JArr.prems by (simp add: arr_def)
next
  case (JObj fs)
  have "snapshotFields (Suc d) (n - 1)
      (map (\<lambda>(k, v). (StrKey k, DataProp True v)) (map (\<lambda>(k, j). (k, json_value j)) fs))
      = Inr (fs, n - 1 - int (sum_list (map (\<lambda>f. data_units (snd f)) fs)))"
  proof (rule snapshot_embed_fields)
    fix f m assume f: "f \<in> set fs" "data_ok (Suc d) (snd f)" "int (data_units (snd f)) \<le> m"
    have "snd f \<in> Basic_BNFs.snds f" by (cases f) simp
    from JObj.IH [OF f(1) this f(2,3)]
    show "snapshotData (Suc d) m (json_value (snd f)) = Inr (snd f, m - int (data_units (snd f)))" .
  qed (use JObj.prems in auto)
  then show ?case using JObj.prems no_symbols [of "map (\<lambda>(k, j). (k, json_value j)) fs"]
    by (simp add: obj_def)
qed auto

lemma snapshot_bounds:
  "snapshotData d n v = Inr (j, n') \<Longrightarrow> 0 \<le> n' \<and> n' + int (data_units j) = n \<and> data_ok d j"
  "snapshotItems d n ps = Inr (js, n') \<Longrightarrow> 0 \<le> n \<Longrightarrow>
     0 \<le> n' \<and> n' + int (sum_list (map data_units js)) = n \<and> list_all (data_ok d) js \<and> length js = length ps"
  "snapshotFields d n qs = Inr (fs, n') \<Longrightarrow> 0 \<le> n \<Longrightarrow>
     0 \<le> n' \<and> n' + int (sum_list (map (\<lambda>f. data_units (snd f)) fs)) = n
     \<and> list_all (\<lambda>f. data_ok d (snd f)) fs \<and> length fs \<le> length qs"
proof (induction d n v and d n ps and d n qs arbitrary: j n' and js n' and fs n'
    rule: snapshotData_snapshotItems_snapshotFields.induct)
  case (4 depth n x)
  then show ?case by (auto split: if_splits jsnum.splits)
next
  case (8 depth n b ps ks)
  then show ?case by (auto split: if_splits)
next
  case (9 depth n p ps)
  then show ?case by (fastforce split: if_splits)
next
  case (13 depth n e v ps)
  then show ?case by (fastforce split: if_splits)
next
  case (15 depth n s x ps)
  then show ?case by fastforce
next
  case (17 depth n k e v ps)
  then show ?case by (fastforce split: if_splits)
qed (auto split: if_splits)

section \<open>Readers and what they accept\<close>

definition source_ok :: "evidence_source \<Rightarrow> bool" where
  "source_ok s = (ev_identifier_ok (es_producerId s) \<and> ev_identifier_ok (es_sourceRecordId s))"

definition ref_ok :: "evidence_ref \<Rightarrow> bool" where
  "ref_ok r = list_all ev_identifier_ok (tl (ref_parts r))"

fun source_name :: "source_kind \<Rightarrow> string" where
  "source_name Runner = ''runner''"
| "source_name Adapter = ''adapter''"
| "source_name Probe = ''probe''"
| "source_name TraceImporter = ''trace-importer''"

definition source_fields :: "evidence_source \<Rightarrow> (string \<times> json) list" where
  "source_fields s = [(''kind'', JStr (source_name (es_kind s))), (''producerId'', JStr (es_producerId s)),
     (''sourceRecordId'', JStr (es_sourceRecordId s))]"

definition ref_fields :: "evidence_ref \<Rightarrow> (string \<times> json) list" where
  "ref_fields r = zip (refKeys (ref_kind r)) (map JStr (ref_parts r))"

definition node_json :: "evidence_node \<Rightarrow> json" where
  "node_json x = JObj (ref_fields (en_ref x) @ [(''source'', JObj (source_fields (en_source x)))]
     @ (case en_observedAt x of None \<Rightarrow> [] | Some t \<Rightarrow> [(''observedAt'', JStr t)]))"

definition relation_json :: "evidence_relation \<Rightarrow> json" where
  "relation_json e = JObj [(''id'', JStr (er_id e)), (''relation'', JStr (relation_name (er_relation e))),
     (''from'', JObj (ref_fields (er_from e))), (''to'', JObj (ref_fields (er_to e))),
     (''source'', JObj (source_fields (er_source e)))]"

definition context_json :: "evidence_context \<Rightarrow> json" where
  "context_json c = JObj [(''schemaVersion'', JStr evidenceContextSchemaVersion),
     (''caseExecutionId'', JStr (ec_caseExecutionId c)), (''nodes'', JArr (map node_json (ec_nodes c))),
     (''relations'', JArr (map relation_json (ec_relations c)))]"

lemma ev_record_Inr [simp]: "ev_record v = Inr r \<longleftrightarrow> v = Some (JObj r)"
  by (auto simp: ev_record_def split: option.splits json.splits)

lemma ev_array_Inr [simp]: "ev_array v = Inr r \<longleftrightarrow> v = Some (JArr r)"
  by (auto simp: ev_array_def split: option.splits json.splits)

lemma ev_identifier_Inr [simp]: "ev_identifier v = Inr s \<longleftrightarrow> v = Some (JStr s) \<and> ev_identifier_ok s"
  by (auto simp: ev_identifier_def split: option.splits json.splits)

lemma ev_timestamp_Inr [simp]: "ev_timestamp v = Inr s \<longleftrightarrow> v = Some (JStr s) \<and> timestamp_ok s"
  by (auto simp: ev_timestamp_def split: option.splits json.splits)

lemma ev_pick_Inr: "ev_pick table v = Inr x \<longleftrightarrow> (\<exists>s. v = Some (JStr s) \<and> map_of table s = Some x)"
  by (auto simp: ev_pick_def split: option.splits json.splits)

lemma ev_exact_Inr [simp]: "ev_exact fs ks = Inr u \<longleftrightarrow> list_all (\<lambda>f. fst f \<in> set ks) fs"
  by (auto simp: ev_exact_def)

lemma source_kind_name: "map_of source_kinds (source_name k) = Some k"
  by (cases k) (simp_all add: source_kinds_def)

lemma relation_kind_name: "map_of relation_kinds (relation_name k) = Some k"
  by (cases k) (simp_all add: relation_kinds_def)

lemma evidenceSource_ok: "evidenceSource v = Inr s \<Longrightarrow> source_ok s"
  by (auto simp: evidenceSource_def source_ok_def)

lemma evidenceSource_embed: "source_ok s \<Longrightarrow> evidenceSource (Some (JObj (source_fields s))) = Inr s"
  by (simp add: evidenceSource_def source_ok_def source_fields_def ev_pick_Inr source_kind_name)

lemma evidenceRef_ok:
  assumes "evidenceRef item ks = Inr r"
  shows "ref_ok r"
proof -
  from assms obtain p1 p2 p3 p4 p5 :: bool and c where c: "ev_identifier_ok c"
    and r: "(if p1 then Inr (CaseExecutionRef c) else
     rbind (ev_identifier (map_of item ''attemptId'')) (\<lambda>a.
     if p2 then Inr (AttemptRef c a)
     else if p3 then rbind (ev_identifier (map_of item ''stepId'')) (\<lambda>s. Inr (StepRef c a s))
     else if p4 then rbind (ev_identifier (map_of item ''runId'')) (\<lambda>r. Inr (AgentRunRef c a r))
     else if p5 then
       rbind (ev_identifier (map_of item ''runId'')) (\<lambda>r.
       rbind (ev_identifier (map_of item ''callId'')) (\<lambda>t. Inr (ToolCallRef c a r t)))
     else rbind (ev_identifier (map_of item ''artifactId'')) (\<lambda>x. Inr (ArtifactRef c a x)))) = Inr r"
    unfolding evidenceRef_def rbind_eq_Inr_iff ev_identifier_Inr by blast
  from r c show ?thesis
    by (cases p1; cases p2; cases p3; cases p4; cases p5) (auto simp: ref_ok_def)
qed

lemma evidenceRef_embed:
  "ref_ok r \<Longrightarrow> list_all (\<lambda>f. fst f \<in> set ks) extra \<Longrightarrow> evidenceRef (ref_fields r @ extra) ks = Inr r"
  by (cases r)
    (auto simp: evidenceRef_def ref_ok_def ref_fields_def refKeys_def ref_kind_names_def list_all_iff)

definition node_ok :: "evidence_node \<Rightarrow> bool" where
  "node_ok x = (ref_ok (en_ref x) \<and> source_ok (en_source x)
     \<and> (case en_observedAt x of None \<Rightarrow> True | Some t \<Rightarrow> timestamp_ok t))"

definition relation_ok :: "evidence_relation \<Rightarrow> bool" where
  "relation_ok e = (ev_identifier_ok (er_id e) \<and> ref_ok (er_from e) \<and> ref_ok (er_to e) \<and> source_ok (er_source e))"

lemma ev_node_ok: "ev_node v = Inr x \<Longrightarrow> node_ok x"
  by (auto simp: ev_node_def node_ok_def evidenceRef_ok evidenceSource_ok split: option.splits)

lemma ref_fields_other: "k \<notin> set (refKeys (ref_kind r)) \<Longrightarrow> map_of (ref_fields r) k = None"
  by (cases r) (auto simp: ref_fields_def refKeys_def)

lemma ref_fields_keys: "list_all (\<lambda>f. fst f \<in> set (refKeys (ref_kind r))) (ref_fields r)"
  by (cases r) (auto simp: ref_fields_def refKeys_def)

lemma refKeys_no_source: "''source'' \<notin> set (refKeys k)" "''observedAt'' \<notin> set (refKeys k)"
  by (auto simp: refKeys_def)

lemma ev_node_reads:
  "evidenceRef item [''source'', ''observedAt''] = Inr r \<Longrightarrow>
   list_all (\<lambda>f. fst f \<in> set (refKeys (ref_kind r) @ [''source'', ''observedAt''])) item \<Longrightarrow>
   evidenceSource (map_of item ''source'') = Inr s \<Longrightarrow>
   map_of item ''observedAt'' = map_option JStr t \<Longrightarrow> (\<And>x. t = Some x \<Longrightarrow> timestamp_ok x) \<Longrightarrow>
   ev_node (JObj item) = Inr \<lparr>en_ref = r, en_source = s, en_observedAt = t\<rparr>"
  by (cases t) (simp_all add: ev_node_def)

lemma ev_node_embed: "node_ok x \<Longrightarrow> ev_node (node_json x) = Inr x"
proof -
  assume ok: "node_ok x"
  let ?t = "case en_observedAt x of None \<Rightarrow> [] | Some t \<Rightarrow> [(''observedAt'', JStr t)]"
  let ?item = "ref_fields (en_ref x) @ [(''source'', JObj (source_fields (en_source x)))] @ ?t"
  have keys: "list_all (\<lambda>f. fst f \<in> {''source'', ''observedAt''}) ?t" by (simp split: option.splits)
  have "ev_node (JObj ?item) = Inr \<lparr>en_ref = en_ref x, en_source = en_source x, en_observedAt = en_observedAt x\<rparr>"
  proof (rule ev_node_reads)
    show "evidenceRef ?item [''source'', ''observedAt''] = Inr (en_ref x)"
      by (rule evidenceRef_embed) (use ok keys in \<open>simp_all add: node_ok_def\<close>)
    show "list_all (\<lambda>f. fst f \<in> set (refKeys (ref_kind (en_ref x)) @ [''source'', ''observedAt''])) ?item"
      using ref_fields_keys [of "en_ref x"] keys by (auto simp: list_all_iff)
    have "map_of ?item ''source'' = Some (JObj (source_fields (en_source x)))"
      by (simp add: map_add_def ref_fields_other refKeys_no_source)
    then show "evidenceSource (map_of ?item ''source'') = Inr (en_source x)"
      using ok by (simp only: evidenceSource_embed node_ok_def)
    show "map_of ?item ''observedAt'' = map_option JStr (en_observedAt x)"
      by (cases "en_observedAt x") (simp_all add: map_add_def ref_fields_other refKeys_no_source)
    show "\<And>t. en_observedAt x = Some t \<Longrightarrow> timestamp_ok t" using ok by (simp add: node_ok_def)
  qed
  then show ?thesis by (simp add: node_json_def)
qed

lemma ev_relation_ok: "ev_relation v = Inr e \<Longrightarrow> relation_ok e"
  by (auto simp: ev_relation_def relation_ok_def evidenceRef_ok evidenceSource_ok)

lemma ev_relation_embed: "relation_ok e \<Longrightarrow> ev_relation (relation_json e) = Inr e"
  using evidenceRef_embed [of "er_from e" "[]" "[]"] evidenceRef_embed [of "er_to e" "[]" "[]"]
  by (simp add: ev_relation_def relation_json_def relation_ok_def ev_pick_Inr relation_kind_name
      evidenceSource_embed)

section \<open>What an accepted graph is\<close>

fun parents :: "evidence_ref \<Rightarrow> evidence_ref list" where
  "parents (CaseExecutionRef _) = []"
| "parents (ToolCallRef c a r _) = [AttemptRef c a, AgentRunRef c a r]"
| "parents (StepRef c a _) = [AttemptRef c a]"
| "parents (AgentRunRef c a _) = [AttemptRef c a]"
| "parents (ArtifactRef c a _) = [AttemptRef c a]"
| "parents (AttemptRef c a) = [AttemptRef c a]"

text \<open>The endpoint matrix of the source's comment.\<close>

definition endpoint_matrix :: "(relation_kind \<times> string list \<times> string list) list" where
  "endpoint_matrix = (let causal = [''step'', ''agentRun'', ''toolCall'', ''artifact''] in
     [(Contains, [''caseExecution''], [''attempt'']),
      (Contains, [''attempt''], [''step'', ''agentRun'', ''artifact'']),
      (Contains, [''agentRun''], [''toolCall'']),
      (Produced, [''step'', ''agentRun'', ''toolCall''], [''artifact'']),
      (ObservedBy, [''step'', ''agentRun'', ''toolCall''], [''artifact'']),
      (AttachedTo, [''artifact''], [''attempt'', ''step'', ''agentRun'', ''toolCall'']),
      (DeclaredCause, causal, causal)])"

definition in_matrix :: "evidence_relation \<Rightarrow> bool" where
  "in_matrix e = list_ex (\<lambda>(k, fs, ts). er_relation e = k \<and> ref_kind (er_from e) \<in> set fs
     \<and> ref_kind (er_to e) \<in> set ts) endpoint_matrix"

lemma validRelationEndpoints_matrix: "validRelationEndpoints e = in_matrix e"
  by (cases "er_relation e") (auto simp: validRelationEndpoints_def in_matrix_def endpoint_matrix_def Let_def)

definition edge_ok :: "string \<Rightarrow> evidence_ref set \<Rightarrow> evidence_relation \<Rightarrow> bool" where
  "edge_ok c refs e = (er_from e \<in> refs \<and> er_to e \<in> refs \<and> ref_case (er_from e) = c \<and> ref_case (er_to e) = c
     \<and> compatibleAttempt (er_from e) (er_to e) \<and> in_matrix e)"

definition edge_of :: "evidence_relation \<Rightarrow> relation_kind \<times> evidence_ref \<times> evidence_ref" where
  "edge_of e = (er_relation e, er_from e, er_to e)"

definition wf_edges :: "string \<Rightarrow> evidence_ref set \<Rightarrow> evidence_relation list \<Rightarrow> bool" where
  "wf_edges c refs es = ((\<forall>e \<in> set es. edge_ok c refs e)
     \<and> distinct (map er_id es) \<and> distinct (map edge_of es))"

definition wf_context :: "evidence_context \<Rightarrow> bool" where
  "wf_context c = (ev_identifier_ok (ec_caseExecutionId c)
     \<and> length (ec_nodes c) \<le> max_items \<and> length (ec_relations c) \<le> max_items
     \<and> list_all node_ok (ec_nodes c) \<and> list_all relation_ok (ec_relations c)
     \<and> (\<forall>x \<in> set (ec_nodes c). ref_case (en_ref x) = ec_caseExecutionId c)
     \<and> distinct (map en_ref (ec_nodes c))
     \<and> CaseExecutionRef (ec_caseExecutionId c) \<in> en_ref ` set (ec_nodes c)
     \<and> (\<forall>x \<in> set (ec_nodes c). set (parents (en_ref x)) \<subseteq> en_ref ` set (ec_nodes c))
     \<and> wf_edges (ec_caseExecutionId c) (en_ref ` set (ec_nodes c)) (ec_relations c)
     \<and> acyclic ((\<lambda>e. (er_from e, er_to e)) ` set (ec_relations c)))"

section \<open>The loops\<close>

definition node_keys :: "evidence_node list \<Rightarrow> (string \<times> evidence_node) list" where
  "node_keys xs = map (\<lambda>x. (evidenceRefKey (en_ref x), x)) xs"

lemma index_nodes_Inr:
  "index_nodes c xs m = Inr m' \<longleftrightarrow> (\<forall>x \<in> set xs. ref_case (en_ref x) = c) \<and> distinct (map en_ref xs)
     \<and> (\<forall>x \<in> set xs. evidenceRefKey (en_ref x) \<notin> fst ` set m) \<and> m' = m @ node_keys xs"
proof (induction c xs m rule: index_nodes.induct)
  case (1 c m)
  then show ?case by (auto simp: node_keys_def)
next
  case (2 c x xs m)
  show ?case
  proof (cases "ref_case (en_ref x) \<noteq> c \<or> map_has m (evidenceRefKey (en_ref x))")
    case True
    then show ?thesis by (auto simp: map_has_def)
  next
    case False
    then have new: "map_set (evidenceRefKey (en_ref x)) x m = m @ [(evidenceRefKey (en_ref x), x)]"
      by (simp add: map_has_def map_set_fresh)
    have eq: "index_nodes c (x # xs) m = index_nodes c xs (m @ [(evidenceRefKey (en_ref x), x)])"
      using False new by simp
    have ih: "index_nodes c xs (m @ [(evidenceRefKey (en_ref x), x)]) = Inr m' \<longleftrightarrow>
        (\<forall>y \<in> set xs. ref_case (en_ref y) = c) \<and> distinct (map en_ref xs)
        \<and> (\<forall>y \<in> set xs. evidenceRefKey (en_ref y) \<notin> fst ` set (m @ [(evidenceRefKey (en_ref x), x)]))
        \<and> m' = (m @ [(evidenceRefKey (en_ref x), x)]) @ node_keys xs"
      using "2.IH" False unfolding new by simp
    have "(\<forall>y \<in> set xs. evidenceRefKey (en_ref y) \<notin> fst ` set (m @ [(evidenceRefKey (en_ref x), x)]))
        \<longleftrightarrow> (\<forall>y \<in> set xs. evidenceRefKey (en_ref y) \<notin> fst ` set m) \<and> en_ref x \<notin> en_ref ` set xs"
      by (auto simp: image_iff)
    moreover have "evidenceRefKey (en_ref x) \<notin> fst ` set m" "ref_case (en_ref x) = c"
      using False by (auto simp: map_has_def)
    ultimately show ?thesis unfolding eq ih by (simp add: node_keys_def) blast
  qed
qed

lemma node_keys_has: "map_has (node_keys xs) (evidenceRefKey r) \<longleftrightarrow> r \<in> en_ref ` set xs"
  by (auto simp: map_has_def node_keys_def image_iff)

lemma parent_ok_Inr: "parent_ok (node_keys xs) x = Inr u \<longleftrightarrow> set (parents (en_ref x)) \<subseteq> en_ref ` set xs"
  by (cases "en_ref x") (auto simp: parent_ok_def node_keys_has)

definition edge_key :: "evidence_relation \<Rightarrow> string" where
  "edge_key e = stringify [relation_name (er_relation e), evidenceRefKey (er_from e), evidenceRefKey (er_to e)]"

lemma edge_key_inj: "edge_key e = edge_key e' \<longleftrightarrow> edge_of e = edge_of e'"
  by (simp add: edge_key_def edge_of_def)

lemma check_relations_step:
  "check_relations c (node_keys xs) (e # es) ids keys = Inr u \<longleftrightarrow>
     ev_identifier_ok (er_id e) \<and> er_id e \<notin> set ids \<and> edge_ok c (en_ref ` set xs) e \<and> edge_key e \<notin> set keys
     \<and> check_relations c (node_keys xs) es (set_add (er_id e) ids) (set_add (edge_key e) keys) = Inr u"
  unfolding check_relations.simps Let_def node_keys_has if_Inl_eq_Inr validRelationEndpoints_matrix
    edge_key_def [symmetric] edge_ok_def by blast

lemma wf_edges_Cons:
  "wf_edges c refs (e # es) \<longleftrightarrow> edge_ok c refs e \<and> er_id e \<notin> er_id ` set es \<and> edge_key e \<notin> edge_key ` set es
     \<and> wf_edges c refs es"
  by (auto simp: wf_edges_def edge_key_inj image_iff)

lemma check_relations_Inr:
  "check_relations c (node_keys xs) es ids keys = Inr u \<longleftrightarrow>
     (\<forall>e \<in> set es. ev_identifier_ok (er_id e) \<and> er_id e \<notin> set ids \<and> edge_key e \<notin> set keys)
     \<and> wf_edges c (en_ref ` set xs) es"
proof (induction es arbitrary: ids keys)
  case Nil
  then show ?case by (simp add: wf_edges_def)
next
  case (Cons e es)
  have "(\<forall>e' \<in> set es. ev_identifier_ok (er_id e') \<and> er_id e' \<notin> insert (er_id e) (set ids)
          \<and> edge_key e' \<notin> insert (edge_key e) (set keys))
     \<longleftrightarrow> (\<forall>e' \<in> set es. ev_identifier_ok (er_id e') \<and> er_id e' \<notin> set ids \<and> edge_key e' \<notin> set keys)
        \<and> er_id e \<notin> er_id ` set es \<and> edge_key e \<notin> edge_key ` set es"
    by (auto simp: image_iff)
  then show ?case
    unfolding check_relations_step wf_edges_Cons Cons.IH set_set_add by (simp only: list.set ball_simps) blast
qed

lemma rejectCycles_Inr: "rejectCycles es = Inr u \<longleftrightarrow> acyclic ((\<lambda>e. (er_from e, er_to e)) ` set es)"
proof -
  let ?R = "(\<lambda>e. (er_from e, er_to e)) ` set es"
  have img: "set (map (\<lambda>e. (evidenceRefKey (er_from e), evidenceRefKey (er_to e))) es)
      = map_prod evidenceRefKey evidenceRefKey ` ?R"
    by (auto simp: image_image)
  have inj: "inj evidenceRefKey" by (rule injI) simp
  have "acyclic (map_prod evidenceRefKey evidenceRefKey ` ?R) \<longleftrightarrow> wf (map_prod evidenceRefKey evidenceRefKey ` ?R)"
    by (rule wf_iff_acyclic_if_finite [symmetric]) simp
  also have "\<dots> \<longleftrightarrow> wf ?R"
  proof
    assume "wf ?R"
    then show "wf (map_prod evidenceRefKey evidenceRefKey ` ?R)" by (rule wf_map_prod_image [OF _ inj])
  next
    assume "wf (map_prod evidenceRefKey evidenceRefKey ` ?R)"
    then have "wf (inv_image (map_prod evidenceRefKey evidenceRefKey ` ?R) evidenceRefKey)" by (rule wf_inv_image)
    then show "wf ?R" by (rule wf_subset) (auto simp: inv_image_def)
  qed
  also have "\<dots> \<longleftrightarrow> acyclic ?R" by (rule wf_iff_acyclic_if_finite) simp
  finally show ?thesis by (simp add: rejectCycles_def acyclic_edges_exact img del: set_map)
qed

section \<open>Exactness\<close>

lemma index_nodes_start:
  "index_nodes c xs [] = Inr m \<longleftrightarrow>
     (\<forall>x \<in> set xs. ref_case (en_ref x) = c) \<and> distinct (map en_ref xs) \<and> m = node_keys xs"
  by (simp add: index_nodes_Inr)

lemma validateParents_Inr:
  "validateParents xs (node_keys xs) = Inr u \<longleftrightarrow> (\<forall>x \<in> set xs. set (parents (en_ref x)) \<subseteq> en_ref ` set xs)"
  by (simp add: validateParents_def rall_Inr_iff parent_ok_Inr)

lemma check_relations_start:
  "list_all relation_ok es \<Longrightarrow> check_relations c (node_keys xs) es [] [] = Inr u \<longleftrightarrow> wf_edges c (en_ref ` set xs) es"
  by (auto simp: check_relations_Inr list_all_iff relation_ok_def)

lemma context_of_wf:
  assumes "context_of j = Inr c"
  shows "wf_context c"
proof -
  from assms obtain rawNodes rawRelations cid nodes relations m u1 u2 u3 where
    sizes: "\<not> (length rawNodes > max_items \<or> length rawRelations > max_items)"
    and cid: "ev_identifier_ok cid" and nodes: "rmap ev_node rawNodes = Inr nodes"
    and m: "index_nodes cid nodes [] = Inr m" and root: "map_has m (evidenceRefKey (CaseExecutionRef cid))"
    and parents: "validateParents nodes m = Inr u1" and rels: "rmap ev_relation rawRelations = Inr relations"
    and check: "check_relations cid m relations [] [] = Inr u2" and cyc: "rejectCycles relations = Inr u3"
    and c': "Inr \<lparr>ec_caseExecutionId = cid, ec_nodes = nodes, ec_relations = relations\<rparr> = (Inr c :: ev_error + evidence_context)"
    unfolding context_of_def rbind_eq_Inr_iff if_Inl_eq_Inr ev_identifier_Inr not_not by blast
  from c' have c: "c = \<lparr>ec_caseExecutionId = cid, ec_nodes = nodes, ec_relations = relations\<rparr>" by simp
  have ok: "list_all node_ok nodes" "list_all relation_ok relations"
    using rmap_set [OF nodes] rmap_set [OF rels] unfolding list_all_iff
    by (blast dest: ev_node_ok, blast dest: ev_relation_ok)
  from m have m': "m = node_keys nodes" "\<forall>x \<in> set nodes. ref_case (en_ref x) = cid" "distinct (map en_ref nodes)"
    by (simp_all add: index_nodes_start)
  show ?thesis
    using sizes cid root parents check cyc ok m' rmap_length [OF nodes] rmap_length [OF rels]
    by (simp add: c wf_context_def node_keys_has validateParents_Inr check_relations_start rejectCycles_Inr)
qed

lemma context_of_embed:
  assumes wf: "wf_context c"
  shows "context_of (context_json c) = Inr c"
proof -
  have nodes: "rmap ev_node (map node_json (ec_nodes c)) = Inr (ec_nodes c)"
    by (rule rmap_map_Inr) (use wf in \<open>simp add: wf_context_def list_all_iff ev_node_embed\<close>)
  have rels: "rmap ev_relation (map relation_json (ec_relations c)) = Inr (ec_relations c)"
    by (rule rmap_map_Inr) (use wf in \<open>simp add: wf_context_def list_all_iff ev_relation_embed\<close>)
  have "index_nodes (ec_caseExecutionId c) (ec_nodes c) [] = Inr (node_keys (ec_nodes c))"
    using wf by (simp add: index_nodes_start wf_context_def)
  moreover have "validateParents (ec_nodes c) (node_keys (ec_nodes c)) = Inr ()"
    using wf by (simp add: validateParents_Inr wf_context_def)
  moreover have "check_relations (ec_caseExecutionId c) (node_keys (ec_nodes c)) (ec_relations c) [] [] = Inr ()"
    using wf by (simp add: check_relations_start wf_context_def)
  moreover have "rejectCycles (ec_relations c) = Inr ()"
    using wf by (simp add: rejectCycles_Inr wf_context_def)
  ultimately show ?thesis
    using wf nodes rels by (simp add: context_of_def context_json_def wf_context_def node_keys_has)
qed

lemma source_units: "data_units (JObj (source_fields s)) = 4"
  by (simp add: source_fields_def)

lemma ref_units: "sum_list (map (\<lambda>f. data_units (snd f)) (ref_fields r)) \<le> 5"
  by (cases r) (simp_all add: ref_fields_def refKeys_def)

lemma node_units: "data_units (node_json x) \<le> 11"
  using ref_units [of "en_ref x"] source_units [of "en_source x"]
  by (simp add: node_json_def split: option.splits)

lemma relation_units: "data_units (relation_json e) \<le> 19"
  using ref_units [of "er_from e"] ref_units [of "er_to e"] source_units [of "er_source e"]
  by (simp add: relation_json_def)

lemma sum_units_le: "(\<And>x. f x \<le> k) \<Longrightarrow> sum_list (map f xs) \<le> k * length xs" for f :: "'a \<Rightarrow> nat"
  by (induction xs) (simp_all add: add_mono)

lemma context_units: "wf_context c \<Longrightarrow> int (data_units (context_json c)) \<le> max_snapshot_units"
proof -
  assume wf: "wf_context c"
  have "sum_list (map (data_units \<circ> node_json) (ec_nodes c)) \<le> 11 * length (ec_nodes c)"
    by (rule sum_units_le) (simp add: node_units)
  moreover have "sum_list (map (data_units \<circ> relation_json) (ec_relations c)) \<le> 19 * length (ec_relations c)"
    by (rule sum_units_le) (simp add: relation_units)
  ultimately show ?thesis using wf
    by (simp add: context_json_def wf_context_def max_items_def max_snapshot_units_def)
qed

lemma ref_data: "length (ref_fields r) \<le> 5 \<and> list_all (\<lambda>f. data_ok d (snd f)) (ref_fields r)"
  by (cases r) (simp_all add: ref_fields_def refKeys_def)

lemma node_data: "data_ok 2 (node_json x)"
  using ref_data [of "en_ref x" 3] by (simp add: node_json_def source_fields_def split: option.splits)

lemma relation_data: "data_ok 2 (relation_json e)"
  using ref_data [of "er_from e" 4] ref_data [of "er_to e" 4]
  by (simp add: relation_json_def source_fields_def)

lemma context_data: "wf_context c \<Longrightarrow> data_ok 0 (context_json c)"
  using node_data relation_data
  by (simp add: context_json_def wf_context_def list_all_iff numeral_2_eq_2)

lemma context_snapshot: "wf_context c \<Longrightarrow> snapshot (json_value (context_json c)) = Inr (context_json c)"
  using snapshotData_embed [OF context_data context_units] by (simp add: snapshot_def)

interpretation evidence: validator defineEvidenceContext "\<lambda>c. json_value (context_json c)" wf_context
  by unfold_locales (auto simp: defineEvidenceContext_def context_snapshot context_of_embed intro: context_of_wf)

end
