(* ===== verification/Resources.thy ===== *)
theory Resources
  imports JsData
begin

text \<open>
  Ownership of test resources: \<open>ResourceScope\<close> (\<open>packages/test/src/resources.ts\<close>), the bounded wait
  for one cleanup (\<open>resources-cleanup.ts\<close>) and the validation of registrations and receipts
  (\<open>resources-validation.ts\<close>). The scope is a machine: calls of its methods, the turns of its cleanup
  loop, the answers of cleanup callbacks and the timers are events. Readings of
  \<open>performance.now()\<close> are part of the events. Cleanup callbacks are not called inside a step: the
  step puts the call out, and whatever the callback does to the scope is a later event.
\<close>

section \<open>Data\<close>

datatype failure_code = ExecutionFailed | InvalidRegistration | DuplicateResource | ScopeClosed
  | CleanupFailed | CleanupUnconfirmed | CleanupTimedOut | InvalidCleanupReceipt

record rfailure =
  f_phase :: string
  f_code :: failure_code
  f_message :: string
  f_resource :: "string option"

datatype resource = OwnedResource string | BorrowedResource string

fun resource_id :: "resource \<Rightarrow> string" where
  "resource_id (OwnedResource i) = i"
| "resource_id (BorrowedResource i) = i"

fun is_owned :: "resource \<Rightarrow> bool" where
  "is_owned (OwnedResource _) = True"
| "is_owned (BorrowedResource _) = False"

datatype receipt = ReleasedReceipt | UnconfirmedReceipt string

datatype cleanup_outcome =
    OutBorrowed string
  | OutReleased string
  | OutFailed string rfailure
  | OutUnconfirmed string rfailure

fun outcome_id :: "cleanup_outcome \<Rightarrow> string" where
  "outcome_id (OutBorrowed i) = i"
| "outcome_id (OutReleased i) = i"
| "outcome_id (OutFailed i _) = i"
| "outcome_id (OutUnconfirmed i _) = i"

fun outcome_failure :: "cleanup_outcome \<Rightarrow> rfailure option" where
  "outcome_failure (OutFailed _ f) = Some f"
| "outcome_failure (OutUnconfirmed _ f) = Some f"
| "outcome_failure _ = None"

datatype scope_state = ScopeOpen | ScopeClosing | ScopeEnded

text \<open>
  Where the cleanup loop stands: not begun, queued as a microtask by \<open>close()\<close>, waiting for the
  answer to the call it made at a given time, about to resume with an outcome, or at its end.
\<close>

datatype drain = Idle | Queued | Waiting rat | Answered cleanup_outcome | Drained

record rscope =
  timeoutMs :: rat
  cleanupDeadlineAt :: rat
  resources :: "resource list"
  outcomes :: "cleanup_outcome list"
  failures :: "rfailure list"
  cleanupStopped :: bool
  scopeState :: scope_state
  tainted :: bool
  drain_at :: drain

section \<open>Validation\<close>

text \<open>\<open>fields\<close>: own data properties, all of them allowed; enumerability does not matter.\<close>

fun own_fields :: "string list \<Rightarrow> (pkey \<times> jsprop) list \<Rightarrow> string + fields" where
  "own_fields allowed [] = Inr []"
| "own_fields allowed ((SymKey _, _) # ps) = Inl ''Unexpected resource record field.''"
| "own_fields allowed ((StrKey k, d) # ps) =
     (if k \<notin> set allowed then Inl ''Unexpected resource record field.''
      else (case d of
          AccProp \<Rightarrow> Inl ''Resource fields must be data properties.''
        | DataProp _ v \<Rightarrow> rbind (own_fields allowed ps) (\<lambda>r. Inr ((k, v) # r))))"

definition rfields :: "jsv \<Rightarrow> string list \<Rightarrow> string + fields" where
  "rfields v allowed = (case v of
     VObj p ps \<Rightarrow> if p = OtherProto then Inl ''Expected a plain resource record.'' else own_fields allowed ps
   | _ \<Rightarrow> Inl ''Expected a plain resource record.'')"

definition resourceTimeout :: "jsv \<Rightarrow> string + rat" where
  "resourceTimeout v = rbind (rfields v [''cleanupTimeoutMs'', ''cleanupDeadlineAt'']) (\<lambda>r.
     let bad = Inl ''cleanupTimeoutMs must be finite and between 1 and 2147483647.'' in
     case fld r ''cleanupTimeoutMs'' of
       VUndefined \<Rightarrow> Inr 5000
     | VNum (Fin q) \<Rightarrow> if q < 1 \<or> q > 2147483647 then bad else Inr q
     | _ \<Rightarrow> bad)"

definition resourceCleanupDeadline :: "jsv \<Rightarrow> string + rat" where
  "resourceCleanupDeadline v = rbind (rfields v [''cleanupTimeoutMs'', ''cleanupDeadlineAt'']) (\<lambda>r.
     case fld r ''cleanupDeadlineAt'' of
       VUndefined \<Rightarrow> Inr (of_int max_safe_integer)
     | VNum (Fin q) \<Rightarrow> Inr q
     | _ \<Rightarrow> Inl ''cleanupDeadlineAt must be a finite monotonic timestamp.'')"

definition snapshotResource :: "jsv \<Rightarrow> string + resource" where
  "snapshotResource v = rbind (rfields v [''id'', ''ownership'', ''cleanup'']) (\<lambda>r.
     case fld r ''id'' of
       VStr i \<Rightarrow>
         if length i > 200 \<or> \<not> ident_shape ''._:@-'' i
         then Inl ''A resource requires a stable nonempty machine id.''
         else if fld r ''ownership'' = VStr ''borrowed'' \<and> \<not> has_own r ''cleanup''
         then Inr (BorrowedResource i)
         else if fld r ''ownership'' \<noteq> VStr ''owned'' \<or> \<not> (case fld r ''cleanup'' of VFun _ \<Rightarrow> True | _ \<Rightarrow> False)
         then Inl ''Owned resources need cleanup; borrowed resources cannot supply cleanup.''
         else Inr (OwnedResource i)
     | _ \<Rightarrow> Inl ''A resource requires a stable nonempty machine id.'')"

definition snapshotReceipt :: "jsv \<Rightarrow> string + receipt" where
  "snapshotReceipt v = rbind (rfields v [''status'', ''reason'']) (\<lambda>r.
     let bad = Inl ''Cleanup must return an explicit released or unconfirmed receipt.'' in
     if fld r ''status'' = VStr ''released'' \<and> fld r ''reason'' = VUndefined then Inr ReleasedReceipt
     else (case fld r ''reason'' of
         VStr reason \<Rightarrow>
           if fld r ''status'' = VStr ''unconfirmed'' \<and> \<not> blank reason
           then Inr (UnconfirmedReceipt (take 2048 reason)) else bad
       | _ \<Rightarrow> bad))"

text \<open>
  What can be read safely of a thrown value: a string; an object (or function) with its own
  string \<open>message\<close>, if it has one, and the first item of its own \<open>errors\<close> when it is an
  \<open>AggregateError\<close>; or anything else.
\<close>

datatype thrown = ThrownString string | ThrownObject "string option" "thrown option" | ThrownOther

definition unavailable :: string where
  "unavailable = ''Failure details were unavailable or unsafe to inspect.''"

fun resourceErrorMessage :: "nat \<Rightarrow> thrown \<Rightarrow> string" where
  "resourceErrorMessage seen (ThrownString s) = (if blank s then unavailable else take 2048 s)"
| "resourceErrorMessage seen (ThrownObject msg agg) =
     (case agg of
        Some t \<Rightarrow> if seen < 16 then resourceErrorMessage (Suc seen) t
          else (case msg of Some m \<Rightarrow> if blank m then unavailable else take 2048 m | None \<Rightarrow> unavailable)
      | None \<Rightarrow> (case msg of Some m \<Rightarrow> if blank m then unavailable else take 2048 m | None \<Rightarrow> unavailable))"
| "resourceErrorMessage seen ThrownOther = unavailable"

section \<open>The scope\<close>

definition new_scope :: "rat \<Rightarrow> rat \<Rightarrow> rscope" where
  "new_scope timeout deadline = \<lparr>timeoutMs = timeout, cleanupDeadlineAt = deadline, resources = [],
     outcomes = [], failures = [], cleanupStopped = False, scopeState = ScopeOpen, tainted = False,
     drain_at = Idle\<rparr>"

datatype scope_output = Refused failure_code | CallCleanup string | StopCleanup | ScopeResolved

definition rejectMutation :: "failure_code \<Rightarrow> string \<Rightarrow> string option \<Rightarrow> string \<Rightarrow> rscope \<Rightarrow> rscope \<times> scope_output list" where
  "rejectMutation cd msg rid phase s =
     (s\<lparr>tainted := True, failures := failures s @ [\<lparr>f_phase = phase, f_code = cd, f_message = msg,
        f_resource = rid\<rparr>]\<rparr>, [Refused cd])"

definition scope_closed :: "string \<Rightarrow> string \<Rightarrow> rscope \<Rightarrow> rscope \<times> scope_output list" where
  "scope_closed phase operation s =
     rejectMutation ScopeClosed (''Resource scope no longer accepts '' @ operation @ ''.'') None phase s"

definition register_resource :: "jsv \<Rightarrow> rscope \<Rightarrow> rscope \<times> scope_output list" where
  "register_resource input s =
     (if scopeState s \<noteq> ScopeOpen then scope_closed ''registration'' ''registrations'' s
      else (case snapshotResource input of
          Inl msg \<Rightarrow> rejectMutation InvalidRegistration msg None ''registration'' s
        | Inr r \<Rightarrow>
            if resource_id r \<in> set (map resource_id (resources s))
            then rejectMutation DuplicateResource ''Resource id is already registered.''
              (Some (resource_id r)) ''registration'' s
            else (s\<lparr>resources := resources s @ [r]\<rparr>, [])))"

definition recordFailure :: "string option \<Rightarrow> thrown \<Rightarrow> rscope \<Rightarrow> rscope \<times> scope_output list" where
  "recordFailure phase err s =
     (if scopeState s \<noteq> ScopeOpen then scope_closed ''failureRecording'' ''failure records'' s
      else (s\<lparr>failures := failures s @ [\<lparr>
        f_phase = (case phase of Some p \<Rightarrow> if blank p then ''execution'' else take 128 p | None \<Rightarrow> ''execution''),
        f_code = ExecutionFailed, f_message = resourceErrorMessage 0 err, f_resource = None\<rparr>]\<rparr>, []))"

definition stopCleanup :: "rscope \<Rightarrow> rscope \<times> scope_output list" where
  "stopCleanup s = (if cleanupStopped s then (s, []) else (s\<lparr>cleanupStopped := True\<rparr>, [StopCleanup]))"

definition close_scope :: "rat \<Rightarrow> rscope \<Rightarrow> rscope \<times> scope_output list" where
  "close_scope now s =
     (if drain_at s \<noteq> Idle then (s, [])
      else (let s1 = s\<lparr>scopeState := ScopeClosing, drain_at := Queued\<rparr> in
        if cleanupDeadlineAt s - now \<le> 0 then stopCleanup s1 else (s1, [])))"

text \<open>The callback of the timer \<open>armDeadline\<close> sets; it is cleared when the loop ends.\<close>

definition deadline_timer :: "rat \<Rightarrow> rscope \<Rightarrow> rscope \<times> scope_output list" where
  "deadline_timer now s =
     (if drain_at s = Idle \<or> drain_at s = Drained \<or> cleanupDeadlineAt s = of_int max_safe_integer then (s, [])
      else if cleanupDeadlineAt s - now \<le> 0 then stopCleanup s else (s, []))"

text \<open>The part of the loop body after an outcome is known.\<close>

definition settle_outcome :: "rat \<Rightarrow> cleanup_outcome \<Rightarrow> rscope \<Rightarrow> rscope \<times> scope_output list" where
  "settle_outcome now oc s =
     (let s1 = s\<lparr>outcomes := outcomes s @ [oc]\<rparr>;
          (s2, o2) = (case outcome_failure oc of
              None \<Rightarrow> (s1, [])
            | Some f \<Rightarrow> stopCleanup (s1\<lparr>tainted := True, failures := failures s1 @ [f]\<rparr>));
          (s3, o3) = (if now \<ge> cleanupDeadlineAt s2 then stopCleanup s2 else (s2, []))
      in (s3, o2 @ o3))"

text \<open>
  The loop from a resource on, until it waits or ends. \<open>began i\<close> and \<open>now i\<close> are the clock readings
  when the \<open>i\<close>th cleanup is called and after its outcome is stored.
\<close>

fun drain_loop :: "(nat \<Rightarrow> rat) \<Rightarrow> (nat \<Rightarrow> rat) \<Rightarrow> resource list \<Rightarrow> rscope \<Rightarrow> rscope \<times> scope_output list" where
  "drain_loop began now [] s = (s\<lparr>scopeState := ScopeEnded, drain_at := Drained\<rparr>, [ScopeResolved])"
| "drain_loop began now (BorrowedResource i # rest) s =
     (let (s1, o1) = settle_outcome (now (length (outcomes s))) (OutBorrowed i) s;
          (s2, o2) = drain_loop began now rest s1
      in (s2, o1 @ o2))"
| "drain_loop began now (OwnedResource i # rest) s =
     (s\<lparr>drain_at := Waiting (began (length (outcomes s)))\<rparr>, [CallCleanup i])"

definition remaining :: "rscope \<Rightarrow> resource list" where
  "remaining s = drop (length (outcomes s)) (rev (resources s))"

definition drain_turn :: "(nat \<Rightarrow> rat) \<Rightarrow> (nat \<Rightarrow> rat) \<Rightarrow> rscope \<Rightarrow> rscope \<times> scope_output list" where
  "drain_turn began now s = (case drain_at s of
     Queued \<Rightarrow> drain_loop began now (remaining s) s
   | Answered oc \<Rightarrow>
       (let (s1, o1) = settle_outcome (now (length (outcomes s))) oc s;
            (s2, o2) = drain_loop began now (remaining s1) s1
        in (s2, o1 @ o2))
   | _ \<Rightarrow> (s, []))"

section \<open>Waiting for one cleanup\<close>

definition cleanup_failure :: "string \<Rightarrow> failure_code \<Rightarrow> string \<Rightarrow> rfailure" where
  "cleanup_failure i cd msg = \<lparr>f_phase = ''cleanup'', f_code = cd, f_message = msg, f_resource = Some i\<rparr>"

definition timed_out :: "string \<Rightarrow> cleanup_outcome" where
  "timed_out i = OutUnconfirmed i (cleanup_failure i CleanupTimedOut
     ''Cleanup receipt wait expired; release and callback termination are unconfirmed.'')"

text \<open>
  The callback's answer: its value (returned, or fulfilled by a native promise) with the two clock
  readings around the check of the receipt, or what it threw or rejected with.
\<close>

datatype answer = AnsValue jsv rat rat | AnsThrown thrown | AnsTimer

definition cleanup_answer :: "rat \<Rightarrow> rat \<Rightarrow> string \<Rightarrow> answer \<Rightarrow> cleanup_outcome" where
  "cleanup_answer timeout started i a = (case a of
     AnsTimer \<Rightarrow> timed_out i
   | AnsThrown t \<Rightarrow> OutFailed i (cleanup_failure i CleanupFailed (resourceErrorMessage 0 t))
   | AnsValue v t1 t2 \<Rightarrow>
       if t1 - started \<ge> timeout then timed_out i
       else (case snapshotReceipt v of
           Inl msg \<Rightarrow> OutUnconfirmed i (cleanup_failure i InvalidCleanupReceipt msg)
         | Inr rc \<Rightarrow>
             if t2 - started \<ge> timeout then timed_out i
             else (case rc of
                 ReleasedReceipt \<Rightarrow> OutReleased i
               | UnconfirmedReceipt reason \<Rightarrow> OutUnconfirmed i (cleanup_failure i CleanupUnconfirmed reason))))"

text \<open>Only the wait that is open can be answered; later answers find it finished.\<close>

definition answered :: "string \<Rightarrow> answer \<Rightarrow> rscope \<Rightarrow> rscope \<times> scope_output list" where
  "answered i a s = (case (drain_at s, remaining s) of
     (Waiting started, r # _) \<Rightarrow>
       if resource_id r = i then (s\<lparr>drain_at := Answered (cleanup_answer (timeoutMs s) started i a)\<rparr>, [])
       else (s, [])
   | _ \<Rightarrow> (s, []))"

datatype scope_event =
    Register jsv
  | RecordFailure "string option" thrown
  | CloseScope rat
  | DrainTurn "nat \<Rightarrow> rat" "nat \<Rightarrow> rat"
  | Answer string answer
  | DeadlineTimer rat

fun scope_step :: "rscope \<Rightarrow> scope_event \<Rightarrow> rscope \<times> scope_output list" where
  "scope_step s (Register input) = register_resource input s"
| "scope_step s (RecordFailure phase err) = recordFailure phase err s"
| "scope_step s (CloseScope now) = close_scope now s"
| "scope_step s (DrainTurn began now) = drain_turn began now s"
| "scope_step s (Answer i a) = answered i a s"
| "scope_step s (DeadlineTimer now) = deadline_timer now s"

datatype scope_status = Pending | Passed | FailedStatus

definition scope_status :: "rscope \<Rightarrow> scope_status" where
  "scope_status s = (if failures s \<noteq> [] \<or> tainted s then FailedStatus
     else if scopeState s = ScopeEnded then Passed else Pending)"

definition primaryFailure :: "rscope \<Rightarrow> rfailure option" where
  "primaryFailure s = (case failures s of [] \<Rightarrow> None | f # _ \<Rightarrow> Some f)"

section \<open>The invariant\<close>

definition fits :: "resource \<Rightarrow> cleanup_outcome \<Rightarrow> bool" where
  "fits r oc = (outcome_id oc = resource_id r \<and> (is_owned r \<longleftrightarrow> oc \<noteq> OutBorrowed (resource_id r)))"

definition outcomes_fit :: "rscope \<Rightarrow> bool" where
  "outcomes_fit s = list_all2 fits (take (length (outcomes s)) (rev (resources s))) (outcomes s)"

definition failures_kept :: "rscope \<Rightarrow> bool" where
  "failures_kept s = ((\<forall>oc \<in> set (outcomes s). \<forall>f. outcome_failure oc = Some f \<longrightarrow> f \<in> set (failures s))
     \<and> (tainted s \<longrightarrow> failures s \<noteq> []))"

definition drain_ok :: "rscope \<Rightarrow> bool" where
  "drain_ok s = (case drain_at s of
     Idle \<Rightarrow> scopeState s = ScopeOpen \<and> outcomes s = []
   | Queued \<Rightarrow> scopeState s = ScopeClosing \<and> outcomes s = []
   | Waiting t \<Rightarrow> scopeState s = ScopeClosing \<and> (\<exists>i rest. remaining s = OwnedResource i # rest)
   | Answered oc \<Rightarrow> scopeState s = ScopeClosing
       \<and> (\<exists>i rest. remaining s = OwnedResource i # rest \<and> fits (OwnedResource i) oc)
   | Drained \<Rightarrow> scopeState s = ScopeEnded \<and> remaining s = [])"

definition scope_inv :: "rscope \<Rightarrow> bool" where
  "scope_inv s = (distinct (map resource_id (resources s)) \<and> outcomes_fit s \<and> failures_kept s \<and> drain_ok s)"

text \<open>The resources whose cleanup was called.\<close>

definition begun :: "rscope \<Rightarrow> nat" where
  "begun s = length (outcomes s) + (case drain_at s of Waiting _ \<Rightarrow> 1 | Answered _ \<Rightarrow> 1 | _ \<Rightarrow> 0)"

definition was_called :: "rscope \<Rightarrow> string \<Rightarrow> bool" where
  "was_called s i = (OwnedResource i \<in> set (take (begun s) (rev (resources s))))"

fun cleanup_calls :: "scope_output \<Rightarrow> string list" where
  "cleanup_calls (CallCleanup i) = [i]"
| "cleanup_calls _ = []"

definition calls_of :: "scope_output list \<Rightarrow> string list" where
  "calls_of out = concat (map cleanup_calls out)"

lemma calls_of_simps [simp]:
  "calls_of [] = []" "calls_of (x # xs) = cleanup_calls x @ calls_of xs"
  "calls_of (xs @ ys) = calls_of xs @ calls_of ys"
  by (simp_all add: calls_of_def)

lemmas scope_inv_parts = scope_inv_def outcomes_fit_def failures_kept_def

lemma outcome_frame:
  "settle_outcome now oc s = (s', out) \<Longrightarrow>
   resources s' = resources s \<and> outcomes s' = outcomes s @ [oc] \<and> scopeState s' = scopeState s
   \<and> drain_at s' = drain_at s \<and> timeoutMs s' = timeoutMs s
   \<and> failures s' = failures s @ (case outcome_failure oc of None \<Rightarrow> [] | Some f \<Rightarrow> [f])
   \<and> tainted s' = (tainted s \<or> outcome_failure oc \<noteq> None) \<and> calls_of out = []"
  by (auto simp: settle_outcome_def stopCleanup_def Let_def split: option.splits if_splits)

lemma remaining_Cons:
  "remaining s = r # rest \<Longrightarrow> length (outcomes s) < length (resources s) \<and> rev (resources s) ! length (outcomes s) = r
     \<and> rest = drop (Suc (length (outcomes s))) (rev (resources s))"
  by (metis Cons_nth_drop_Suc drop_eq_Nil length_rev linorder_not_less list.discI list.inject remaining_def)

lemma settle_keeps:
  assumes r: "remaining s = r # rest" and f: "fits r oc" "outcomes_fit s" "failures_kept s"
    and st: "settle_outcome now oc s = (s', out)"
  shows "remaining s' = rest \<and> outcomes_fit s' \<and> failures_kept s'"
proof -
  note fr = outcome_frame [OF st]
  from remaining_Cons [OF r] have len: "length (outcomes s) < length (resources s)"
    and nth: "rev (resources s) ! length (outcomes s) = r"
    and rest: "rest = drop (Suc (length (outcomes s))) (rev (resources s))" by blast+
  have "take (Suc (length (outcomes s))) (rev (resources s)) = take (length (outcomes s)) (rev (resources s)) @ [r]"
    using len nth by (simp add: take_Suc_conv_app_nth)
  then have "outcomes_fit s'"
    using f fr by (simp add: outcomes_fit_def list_all2_appendI)
  moreover have "failures_kept s'" using f fr by (auto simp: failures_kept_def split: option.splits)
  moreover have "remaining s' = rest" using fr rest by (simp add: remaining_def)
  ultimately show ?thesis by blast
qed

lemma drain_loop_spec:
  assumes "remaining s = rest" and "scopeState s = ScopeClosing" and "outcomes_fit s" and "failures_kept s"
    and "drain_loop began now rest s = (s', out)"
  shows "resources s' = resources s \<and> outcomes_fit s' \<and> failures_kept s' \<and> drain_ok s'
     \<and> length (outcomes s) \<le> length (outcomes s')
     \<and> (\<forall>i. OwnedResource i \<in> set (drop (length (outcomes s)) (take (begun s') (rev (resources s))))
          \<longleftrightarrow> calls_of out = [i])
     \<and> length (calls_of out) \<le> 1
     \<and> (\<exists>more. failures s' = failures s @ more) \<and> (tainted s \<longrightarrow> tainted s')"
  using assms
proof (induction began now rest s arbitrary: s' out rule: drain_loop.induct)
  case (1 began now s)
  then have "length (resources s) \<le> length (outcomes s)" by (simp add: remaining_def)
  moreover have "length (outcomes s) \<le> length (resources s)"
    using 1(3) by (auto simp: outcomes_fit_def dest!: list_all2_lengthD)
  ultimately show ?case using 1
    by (auto simp: outcomes_fit_def failures_kept_def drain_ok_def remaining_def begun_def)
next
  case (2 began now i rest s)
  obtain s1 o1 where st: "settle_outcome (now (length (outcomes s))) (OutBorrowed i) s = (s1, o1)" by fastforce
  obtain s2 o2 where lp: "drain_loop began now rest s1 = (s2, o2)" by fastforce
  have eqs: "s' = s2" "out = o1 @ o2" using 2(6) st lp by (simp_all add: Let_def)
  note fr = outcome_frame [OF st]
  have k: "remaining s1 = rest \<and> outcomes_fit s1 \<and> failures_kept s1"
    by (rule settle_keeps [OF 2(2) _ 2(4,5) st]) (simp add: fits_def)
  have ih: "resources s2 = resources s1 \<and> outcomes_fit s2 \<and> failures_kept s2 \<and> drain_ok s2
     \<and> length (outcomes s1) \<le> length (outcomes s2)
     \<and> (\<forall>i. OwnedResource i \<in> set (drop (length (outcomes s1)) (take (begun s2) (rev (resources s1))))
          \<longleftrightarrow> calls_of o2 = [i])
     \<and> length (calls_of o2) \<le> 1
     \<and> (\<exists>more. failures s2 = failures s1 @ more) \<and> (tainted s1 \<longrightarrow> tainted s2)"
    by (rule "2.IH" [OF refl st [symmetric]]) (use k fr 2(3) lp in simp_all)
  note rc = remaining_Cons [OF 2(2)]
  have lt: "length (outcomes s) < begun s2" using ih fr by (auto simp: begun_def)
  have "drop (length (outcomes s)) (take (begun s2) (rev (resources s)))
      = BorrowedResource i # drop (length (outcomes s1)) (take (begun s2) (rev (resources s1)))"
    using rc lt fr by (simp add: Cons_nth_drop_Suc [symmetric])
  then show ?case using ih fr unfolding eqs by auto
next
  case (3 began now i rest s)
  note rc = remaining_Cons [OF 3(1)]
  have "drop (length (outcomes s)) (take (Suc (length (outcomes s))) (rev (resources s))) = [OwnedResource i]"
    using rc by (simp add: take_Suc_conv_app_nth)
  then show ?case using 3
    by (auto simp: outcomes_fit_def failures_kept_def drain_ok_def remaining_def begun_def)
qed

text \<open>What a step promises: the invariant, new calls only, and nothing recorded is lost.\<close>

definition scope_good :: "rscope \<Rightarrow> rscope \<times> scope_output list \<Rightarrow> bool" where
  "scope_good s r = (scope_inv (fst r) \<and> distinct (calls_of (snd r))
     \<and> (\<forall>i \<in> set (calls_of (snd r)). \<not> was_called s i \<and> was_called (fst r) i)
     \<and> (\<forall>i. was_called s i \<longrightarrow> was_called (fst r) i)
     \<and> (\<exists>more. failures (fst r) = failures s @ more) \<and> (tainted s \<longrightarrow> tainted (fst r)))"

text \<open>Steps that only record failures or stop cleanup.\<close>

lemma scope_good_note:
  assumes "scope_inv s" and "resources s' = resources s" and "outcomes s' = outcomes s"
    and "scopeState s' = scopeState s" and "drain_at s' = drain_at s" and "failures s' = failures s @ extra"
    and "tainted s' \<longrightarrow> tainted s \<or> extra \<noteq> []" and "tainted s \<longrightarrow> tainted s'" and "calls_of out = []"
  shows "scope_good s (s', out)"
proof -
  have "remaining s' = remaining s" using assms by (simp add: remaining_def)
  then have "scope_inv s'" using assms
    by (auto simp: scope_inv_parts drain_ok_def split: drain.splits)
  then show ?thesis using assms by (simp add: scope_good_def was_called_def begun_def)
qed

lemma reject_good: "scope_inv s \<Longrightarrow> scope_good s (rejectMutation cd msg rid phase s)"
  unfolding rejectMutation_def by (rule scope_good_note) auto

lemma stop_good: "scope_inv s \<Longrightarrow> scope_good s (stopCleanup s)"
  unfolding stopCleanup_def by (simp, intro conjI impI; rule scope_good_note) auto

lemma scope_same: "scope_inv s \<Longrightarrow> scope_good s (s, [])"
  by (simp add: scope_good_def)

lemma open_idle: "scope_inv s \<Longrightarrow> scopeState s = ScopeOpen \<longleftrightarrow> drain_at s = Idle"
  by (auto simp: scope_inv_def drain_ok_def split: drain.splits)

lemma idle_outcomes: "scope_inv s \<Longrightarrow> drain_at s = Idle \<or> drain_at s = Queued \<Longrightarrow> outcomes s = []"
  by (auto simp: scope_inv_def drain_ok_def)

lemma register_good: "scope_inv s \<Longrightarrow> scope_good s (register_resource input s)"
proof (cases "scopeState s = ScopeOpen")
  case True
  assume inv: "scope_inv s"
  then have idle: "drain_at s = Idle" "outcomes s = []" using True open_idle idle_outcomes by blast+
  show ?thesis
  proof (cases "snapshotResource input")
    case (Inl msg)
    then show ?thesis using inv True by (simp add: register_resource_def reject_good)
  next
    case (Inr r)
    have "scope_good s (s\<lparr>resources := resources s @ [r]\<rparr>, [])" if "resource_id r \<notin> set (map resource_id (resources s))"
      using inv idle True that
      by (auto simp: scope_good_def scope_inv_parts drain_ok_def was_called_def begun_def)
    then show ?thesis using inv True Inr by (simp add: register_resource_def reject_good del: set_map)
  qed
qed (simp add: register_resource_def scope_closed_def reject_good)

lemma recordFailure_good: "scope_inv s \<Longrightarrow> scope_good s (recordFailure phase err s)"
proof (cases "scopeState s = ScopeOpen")
  case True
  assume inv: "scope_inv s"
  show ?thesis unfolding recordFailure_def using True inv by (simp, intro scope_good_note) auto
qed (simp add: recordFailure_def scope_closed_def reject_good)

lemma scope_close_good: "scope_inv s \<Longrightarrow> scope_good s (close_scope now s)"
proof (cases "drain_at s = Idle")
  case True
  assume inv: "scope_inv s"
  let ?s1 = "s\<lparr>scopeState := ScopeClosing, drain_at := Queued\<rparr>"
  have out: "outcomes s = []" using inv True idle_outcomes by blast
  then have "scope_good s (?s1, [])" using inv True
    by (auto simp: scope_good_def scope_inv_parts drain_ok_def was_called_def begun_def)
  moreover from this have "scope_good ?s1 (stopCleanup ?s1)" by (intro stop_good) (simp add: scope_good_def)
  ultimately show ?thesis using True
    by (auto simp: close_scope_def Let_def scope_good_def stopCleanup_def)
qed (simp add: close_scope_def scope_same)

lemma timer_good: "scope_inv s \<Longrightarrow> scope_good s (deadline_timer now s)"
  by (simp add: deadline_timer_def scope_same stop_good)

lemma cleanup_answer_fits: "fits (OwnedResource i) (cleanup_answer t started i a)"
  by (auto simp: fits_def cleanup_answer_def timed_out_def split: answer.splits sum.splits receipt.splits)

lemma answered_good: "scope_inv s \<Longrightarrow> scope_good s (answered i a s)"
proof (cases "drain_at s")
  case (Waiting t)
  assume inv: "scope_inv s"
  then obtain j rest where rem: "remaining s = OwnedResource j # rest" and st: "scopeState s = ScopeClosing"
    using Waiting by (auto simp: scope_inv_def drain_ok_def)
  show ?thesis
  proof (cases "j = i")
    case True
    let ?s' = "s\<lparr>drain_at := Answered (cleanup_answer (timeoutMs s) t i a)\<rparr>"
    have "remaining ?s' = remaining s" by (simp add: remaining_def)
    then have "scope_inv ?s'" using inv rem st True cleanup_answer_fits
      by (auto simp: scope_inv_parts drain_ok_def)
    then show ?thesis using rem True Waiting
      by (simp add: answered_def scope_good_def was_called_def begun_def)
  qed (use inv rem Waiting in \<open>simp add: answered_def scope_same\<close>)
qed (simp_all add: answered_def scope_same)

text \<open>From a state whose outcomes cover everything called so far, the loop makes at most one new call.\<close>

lemma drain_loop_good:
  assumes inv: "distinct (map resource_id (resources s))" and st: "scopeState s = ScopeClosing"
    and f: "outcomes_fit s" "failures_kept s"
    and lp: "drain_loop began now (remaining s) s = (s', out)"
  shows "scope_inv s' \<and> distinct (calls_of out)
     \<and> (\<forall>i \<in> set (calls_of out). OwnedResource i \<notin> set (take (length (outcomes s)) (rev (resources s))) \<and> was_called s' i)
     \<and> (\<forall>i. OwnedResource i \<in> set (take (length (outcomes s)) (rev (resources s))) \<longrightarrow> was_called s' i)
     \<and> (\<exists>more. failures s' = failures s @ more) \<and> (tainted s \<longrightarrow> tainted s')"
proof -
  note sp = drain_loop_spec [OF refl st f lp]
  let ?rs = "rev (resources s)" and ?n = "length (outcomes s)"
  have le: "?n \<le> begun s'" using sp by (simp add: begun_def)
  have "take (begun s') ?rs = take ?n ?rs @ drop ?n (take (begun s') ?rs)"
    using le by (metis append_take_drop_id min.absorb1 take_take)
  then have called: "was_called s' i \<longleftrightarrow> OwnedResource i \<in> set (take ?n ?rs)
      \<or> OwnedResource i \<in> set (drop ?n (take (begun s') ?rs))" for i
    using sp unfolding was_called_def by (metis Un_iff set_append)
  have "distinct ?rs" using inv by (simp add: distinct_map)
  then have "set (take ?n ?rs) \<inter> set (drop ?n (take (begun s') ?rs)) = {}"
    using set_take_disj_set_drop_if_distinct [of ?rs ?n ?n] set_take_subset [of "begun s' - ?n" "drop ?n ?rs"]
    by (auto simp: drop_take)
  moreover have one: "calls_of out = [] \<or> (\<exists>i. calls_of out = [i])"
    using sp by (cases "calls_of out") auto
  ultimately show ?thesis using sp inv called
    by (auto simp: scope_inv_def)
qed

lemma drain_turn_good:
  assumes inv: "scope_inv s"
  shows "scope_good s (drain_turn began now s)"
proof (cases "drain_at s")
  case Queued
  obtain s' out where lp: "drain_loop began now (remaining s) s = (s', out)" by fastforce
  have o: "outcomes s = []" using inv Queued idle_outcomes by blast
  have "scopeState s = ScopeClosing" using inv Queued by (simp add: scope_inv_def drain_ok_def)
  from drain_loop_good [OF _ this _ _ lp] inv o lp Queued show ?thesis
    by (simp add: scope_good_def drain_turn_def was_called_def [of s] begun_def [of s] scope_inv_def)
next
  case (Answered oc)
  obtain i rest where rem: "remaining s = OwnedResource i # rest" and fit: "fits (OwnedResource i) oc"
    and cl: "scopeState s = ScopeClosing"
    using inv Answered by (auto simp: scope_inv_def drain_ok_def)
  obtain s1 o1 where st: "settle_outcome (now (length (outcomes s))) oc s = (s1, o1)" by fastforce
  obtain s2 o2 where lp: "drain_loop began now (remaining s1) s1 = (s2, o2)" by fastforce
  note fr = outcome_frame [OF st]
  have k: "outcomes_fit s1" "failures_kept s1"
    using settle_keeps [OF rem fit _ _ st] inv by (auto simp: scope_inv_def)
  have d: "distinct (map resource_id (resources s1))" "scopeState s1 = ScopeClosing"
    using inv fr cl by (simp_all add: scope_inv_def)
  have "was_called s j \<longleftrightarrow> OwnedResource j \<in> set (take (length (outcomes s1)) (rev (resources s1)))" for j
    using fr Answered by (simp add: was_called_def begun_def)
  with drain_loop_good [OF d k lp] fr Answered st lp show ?thesis
    by (auto simp: scope_good_def drain_turn_def Let_def)
qed (simp_all add: drain_turn_def scope_same inv)

lemma scope_step_good: "scope_inv s \<Longrightarrow> scope_good s (scope_step s e)"
  by (cases e) (simp_all add: register_good recordFailure_good scope_close_good drain_turn_good answered_good timer_good)

interpretation scope_once: once_only scope_step scope_inv "\<lambda>s i. \<not> was_called s i" cleanup_calls
  using scope_step_good by unfold_locales (auto simp: scope_good_def calls_of_def)

lemma scope_inv_new: "scope_inv (new_scope timeout deadline)"
  by (simp add: scope_inv_parts drain_ok_def new_scope_def)

section \<open>What a closed scope shows\<close>

text \<open>One outcome per resource, in the reverse of the order of registration.\<close>

lemma ended_complete:
  "scope_inv s \<Longrightarrow> scopeState s = ScopeEnded \<Longrightarrow> list_all2 fits (rev (resources s)) (outcomes s)"
proof -
  assume inv: "scope_inv s" and st: "scopeState s = ScopeEnded"
  then have "remaining s = []" by (auto simp: scope_inv_def drain_ok_def split: drain.splits)
  then have "take (length (outcomes s)) (rev (resources s)) = rev (resources s)" by (simp add: remaining_def)
  with inv show ?thesis by (simp add: scope_inv_def outcomes_fit_def)
qed

text \<open>A scope that reports success has released every resource it owned.\<close>

lemma passed_released:
  assumes inv: "scope_inv s" and ok: "scope_status s = Passed"
  shows "outcomes s = map (\<lambda>r. if is_owned r then OutReleased (resource_id r) else OutBorrowed (resource_id r))
     (rev (resources s))"
proof -
  have st: "failures s = []" "scopeState s = ScopeEnded" using ok by (auto simp: scope_status_def split: if_splits)
  have none: "outcome_failure oc = None" if "oc \<in> set (outcomes s)" for oc
    using inv that st(1) by (cases "outcome_failure oc") (auto simp: scope_inv_def failures_kept_def)
  have "oc = (if is_owned r then OutReleased (resource_id r) else OutBorrowed (resource_id r))"
    if "fits r oc" "outcome_failure oc = None" for r oc
    using that by (cases oc) (auto simp: fits_def)
  with none have "list_all2 (\<lambda>r oc. oc = (if is_owned r then OutReleased (resource_id r) else OutBorrowed (resource_id r)))
      (rev (resources s)) (outcomes s)"
    using ended_complete [OF inv st(2)] by (auto simp: list_all2_conv_all_nth)
  then show ?thesis by (auto simp: list_all2_conv_all_nth intro!: nth_equalityI)
qed

text \<open>Failures are never lost, so the first one recorded stays the primary failure.\<close>

lemma failures_grow:
  "scope_inv s \<Longrightarrow> (\<exists>more. failures (fst (run_steps scope_step s es)) = failures s @ more)
     \<and> (tainted s \<longrightarrow> tainted (fst (run_steps scope_step s es)))"
proof (induction es arbitrary: s)
  case (Cons e es)
  have "scope_good s (scope_step s e)" by (rule scope_step_good [OF Cons.prems])
  with Cons.IH [of "fst (scope_step s e)"] show ?case
    by (auto simp: scope_good_def Let_def split_beta)
qed simp

lemma primary_stays:
  "scope_inv s \<Longrightarrow> primaryFailure s = Some f \<Longrightarrow> primaryFailure (fst (run_steps scope_step s es)) = Some f"
  using failures_grow [of s es] by (auto simp: primaryFailure_def split: list.splits)

text \<open>
  The loop ends: when every callback answers, alternating its answers with the turns of the loop
  closes the scope within one answer and one turn per owned resource.
\<close>

fun cleanup_rounds :: "(nat \<Rightarrow> rat) \<Rightarrow> (nat \<Rightarrow> rat) \<Rightarrow> (string \<Rightarrow> answer) \<Rightarrow> resource list \<Rightarrow> scope_event list" where
  "cleanup_rounds began now ans [] = []"
| "cleanup_rounds began now ans (BorrowedResource i # rs) = cleanup_rounds began now ans rs"
| "cleanup_rounds began now ans (OwnedResource i # rs) =
     Answer i (ans i) # DrainTurn began now # cleanup_rounds began now ans rs"

lemma drain_loop_waits:
  "remaining s = rest \<Longrightarrow> drain_loop began now rest s = (s', out) \<Longrightarrow>
   (drain_at s' = Drained \<and> cleanup_rounds began now ans rest = []) \<or>
   (\<exists>t i rs. drain_at s' = Waiting t \<and> remaining s' = OwnedResource i # rs \<and> length rs < length rest
      \<and> cleanup_rounds began now ans rest = cleanup_rounds began now ans (OwnedResource i # rs))"
proof (induction began now rest s arbitrary: s' out rule: drain_loop.induct)
  case (1 began now s)
  then show ?case by auto
next
  case (2 began now i rest s)
  obtain s1 o1 where st: "settle_outcome (now (length (outcomes s))) (OutBorrowed i) s = (s1, o1)" by fastforce
  obtain s2 o2 where lp: "drain_loop began now rest s1 = (s2, o2)" by fastforce
  have "remaining s1 = rest"
    using remaining_Cons [OF 2(2)] outcome_frame [OF st] by (simp add: remaining_def)
  from "2.IH" [OF refl st [symmetric] this lp] show ?case using 2(3) st lp by (auto simp: Let_def)
next
  case (3 began now i rest s)
  then show ?case by (auto simp: remaining_def)
qed

lemma rounds_close:
  "scope_inv s \<Longrightarrow> drain_at s = Waiting t \<Longrightarrow>
   drain_at (fst (run_steps scope_step s (cleanup_rounds began now ans (remaining s)))) = Drained"
proof (induction "length (remaining s)" arbitrary: s t rule: less_induct)
  case less
  obtain i rest where rem: "remaining s = OwnedResource i # rest"
    using less.prems by (auto simp: scope_inv_def drain_ok_def)
  let ?oc = "cleanup_answer (timeoutMs s) t i (ans i)"
  let ?sa = "s\<lparr>drain_at := Answered ?oc\<rparr>"
  have a: "scope_step s (Answer i (ans i)) = (?sa, [])" using less.prems rem by (simp add: answered_def)
  obtain s1 o1 where st: "settle_outcome (now (length (outcomes s))) ?oc ?sa = (s1, o1)" by fastforce
  obtain s2 o2 where lp: "drain_loop began now (remaining s1) s1 = (s2, o2)" by fastforce
  have rem1: "remaining s1 = rest"
    using remaining_Cons [OF rem] outcome_frame [OF st] by (simp add: remaining_def)
  have d: "scope_step ?sa (DrainTurn began now) = (s2, o1 @ o2)"
    using st lp by (simp add: drain_turn_def Let_def)
  have inv2: "scope_inv s2"
    using scope_step_good [OF less.prems(1), of "Answer i (ans i)"] scope_step_good [of ?sa "DrainTurn began now"]
    by (simp add: a d scope_good_def del: scope_step.simps)
  let ?R = "\<lambda>rs. cleanup_rounds began now ans rs"
  have run: "fst (run_steps scope_step s (?R (remaining s))) = fst (run_steps scope_step s2 (?R rest))"
    by (simp add: rem a d Let_def split_beta del: scope_step.simps)
  from drain_loop_waits [OF rem1 lp [unfolded rem1], of ans]
  consider "drain_at s2 = Drained" "?R rest = []"
    | t' where "drain_at s2 = Waiting t'" "?R rest = ?R (remaining s2)" "length (remaining s2) \<le> length rest" by fastforce
  then show ?case
  proof cases
    case 1
    then show ?thesis using run by simp
  next
    case 2
    have "length (remaining s2) < length (remaining s)" using 2(3) rem by simp
    from less.hyps [OF this inv2 2(1)] show ?thesis using run 2(2) by simp
  qed
qed

lemma queued_closes:
  assumes inv: "scope_inv s" and q: "drain_at s = Queued"
  shows "drain_at (fst (run_steps scope_step s (DrainTurn began now # cleanup_rounds began now ans (rev (resources s))))) = Drained"
proof -
  have rem: "remaining s = rev (resources s)" using idle_outcomes [OF inv] q by (simp add: remaining_def)
  obtain s' out where lp: "drain_loop began now (remaining s) s = (s', out)" by fastforce
  have step: "scope_step s (DrainTurn began now) = (s', out)" using q lp by (simp add: drain_turn_def)
  have inv': "scope_inv s'" using scope_step_good [OF inv, of "DrainTurn began now"]
    unfolding step by (simp add: scope_good_def)
  have run: "fst (run_steps scope_step s (DrainTurn began now # cleanup_rounds began now ans (rev (resources s))))
      = fst (run_steps scope_step s' (cleanup_rounds began now ans (remaining s)))"
    by (simp add: step rem Let_def split_beta del: scope_step.simps)
  from drain_loop_waits [OF refl lp, of ans] show ?thesis
    unfolding run using rounds_close [OF inv', where began = began and now = now and ans = ans] by fastforce
qed

end
