(* ===== verification/CaseSpec.thy ===== *)
theory CaseSpec
  imports JsData
begin

text \<open>
  Case contracts: \<open>packages/core/src/case-spec.ts\<close>, with the platforms of \<open>platform.ts\<close> and the
  side-effect levels of \<open>component.ts\<close>. The properties of the objects given are read as plain data;
  an object with an accessor or a non-enumerable property is outside the model, which answers
  \<open>CsNotPlain\<close> (the planner, the caller of interest, rejects such objects beforehand). Strings hold
  code units below 256 only, so the Unicode script table behind \<open>\p{Script=Han}\<close> is a parameter.
\<close>

section \<open>Side-effect levels\<close>

datatype side_effect = ReadOnly | Reversible | WritesLocal | ExternalEffect | SecuritySensitive

definition sideEffectLevels :: "(string \<times> side_effect) list" where
  "sideEffectLevels = [(''readOnly'', ReadOnly), (''reversible'', Reversible), (''writesLocal'', WritesLocal),
     (''externalEffect'', ExternalEffect), (''securitySensitive'', SecuritySensitive)]"

fun getSideEffectRank :: "side_effect \<Rightarrow> int" where
  "getSideEffectRank ReadOnly = 0"
| "getSideEffectRank Reversible = 1"
| "getSideEffectRank WritesLocal = 2"
| "getSideEffectRank ExternalEffect = 3"
| "getSideEffectRank SecuritySensitive = 4"

definition compareSideEffectLevel :: "side_effect \<Rightarrow> side_effect \<Rightarrow> int" where
  "compareSideEffectLevel l r = getSideEffectRank l - getSideEffectRank r"

definition isSideEffectAtMost :: "side_effect \<Rightarrow> side_effect \<Rightarrow> bool" where
  "isSideEffectAtMost level maximum = (compareSideEffectLevel level maximum \<le> 0)"

lemma getSideEffectRank_inj: "getSideEffectRank a = getSideEffectRank b \<longleftrightarrow> a = b"
  by (cases a; cases b) simp_all

text \<open>The levels form a chain, so the library's order lemmas apply to them.\<close>

instantiation side_effect :: linorder
begin

definition less_eq_side_effect :: "side_effect \<Rightarrow> side_effect \<Rightarrow> bool" where
  "less_eq_side_effect a b = isSideEffectAtMost a b"

definition less_side_effect :: "side_effect \<Rightarrow> side_effect \<Rightarrow> bool" where
  "less_side_effect a b = (isSideEffectAtMost a b \<and> \<not> isSideEffectAtMost b a)"

instance
  by standard (auto simp: less_eq_side_effect_def less_side_effect_def isSideEffectAtMost_def
      compareSideEffectLevel_def getSideEffectRank_inj [symmetric])

end

lemma isSideEffectAtMost_le [simp]: "isSideEffectAtMost a b \<longleftrightarrow> a \<le> b"
  by (simp add: less_eq_side_effect_def)

section \<open>Data\<close>

datatype test_platform = MacOS | Windows | Web

definition testPlatforms :: "(string \<times> test_platform) list" where
  "testPlatforms = [(''macos'', MacOS), (''windows'', Windows), (''web'', Web)]"

record case_clause =
  cl_id :: string
  cl_text :: string

record case_spec =
  sp_id :: string
  sp_locale :: string
  sp_platforms :: "test_platform list"
  sp_suite_id :: string
  sp_suite_name :: string
  sp_name :: string
  sp_sourceName :: "string option"
  sp_intent :: string
  sp_preconditions :: "case_clause list"
  sp_acceptanceCriteria :: "case_clause list"
  sp_sideEffect :: side_effect
  sp_tags :: "string list option"

datatype cs_error = CsNotPlain | CsUnknownField | CsNotString | CsEmpty | CsTooLong | CsShape | CsLocale
  | CsNotArray | CsNoPlatform | CsPlatform | CsDuplicatePlatform | CsSideEffect | CsNoCriterion
  | CsDuplicateClause | CsDuplicateTag | CsLanguage

section \<open>Loops that also reject duplicates\<close>

text \<open>
  \<open>for (const x of xs) { y = f(x); if (seen.has(key(y))) throw dup; seen.add(key(y)); }\<close>
\<close>

fun rmap_unique :: "'e \<Rightarrow> ('a \<Rightarrow> 'e + 'b) \<Rightarrow> ('b \<Rightarrow> 'k) \<Rightarrow> 'k list \<Rightarrow> 'a list \<Rightarrow> 'e + 'b list" where
  "rmap_unique dup f key seen [] = Inr []"
| "rmap_unique dup f key seen (x # xs) = rbind (f x) (\<lambda>y.
     if key y \<in> set seen then Inl dup
     else rbind (rmap_unique dup f key (key y # seen) xs) (\<lambda>ys. Inr (y # ys)))"

lemma rmap_unique_Inr:
  "rmap_unique dup f key seen xs = Inr ys \<longleftrightarrow>
     rmap f xs = Inr ys \<and> distinct (map key ys) \<and> set (map key ys) \<inter> set seen = {}"
proof (induction xs arbitrary: seen ys)
  case Nil
  then show ?case by auto
next
  case (Cons x xs)
  then show ?case by (cases ys) (auto simp: Cons.IH)
qed

lemma rmap_list_all: "rmap f xs = Inr ys \<Longrightarrow> (\<And>x y. f x = Inr y \<Longrightarrow> P y) \<Longrightarrow> list_all P ys"
  by (auto simp: list_all_iff dest: rmap_set)

section \<open>Primitive checks\<close>

definition exactKeys :: "jsv \<Rightarrow> string list \<Rightarrow> cs_error + fields" where
  "exactKeys v allowed = (case v of
     VObj p ps \<Rightarrow>
       if p = OtherProto then Inl CsNotPlain
       else (case data_fields True (\<lambda>_. True) ps of
           None \<Rightarrow> Inl CsNotPlain
         | Some r \<Rightarrow> if list_all (\<lambda>f. fst f \<in> set allowed) r then Inr r else Inl CsUnknownField)
   | _ \<Rightarrow> Inl CsNotPlain)"

definition nonEmpty :: "jsv \<Rightarrow> cs_error + string" where
  "nonEmpty v = (case v of VStr s \<Rightarrow> if blank s then Inl CsEmpty else Inr s | _ \<Rightarrow> Inl CsNotString)"

definition stable_ok :: "string \<Rightarrow> bool" where
  "stable_ok s = (length s \<le> 200 \<and> ident_shape ''._:@-'' s)"

definition stableIdentifier :: "jsv \<Rightarrow> cs_error + string" where
  "stableIdentifier v = rbind (nonEmpty v) (\<lambda>s.
     if length s > 200 then Inl CsTooLong
     else if \<not> ident_shape ''._:@-'' s then Inl CsShape else Inr s)"

text \<open>\<open>/^[A-Za-z]{2,3}(?:-[A-Za-z0-9]{2,8})*$/\<close>, read per dash-separated part.\<close>

fun dash_parts :: "string \<Rightarrow> string list" where
  "dash_parts [] = [[]]"
| "dash_parts (c # cs) = (if c = CHR ''-'' then [] # dash_parts cs
     else (case dash_parts cs of [] \<Rightarrow> [[c]] | p # ps \<Rightarrow> (c # p) # ps))"

definition locale_shape :: "string \<Rightarrow> bool" where
  "locale_shape s = (case dash_parts s of [] \<Rightarrow> False
     | lang # subtags \<Rightarrow> 2 \<le> length lang \<and> length lang \<le> 3 \<and> list_all is_alpha lang
         \<and> list_all (\<lambda>t. 2 \<le> length t \<and> length t \<le> 8 \<and> list_all is_alnum t) subtags)"

definition cs_locale :: "jsv \<Rightarrow> cs_error + string" where
  "cs_locale v = rbind (nonEmpty v) (\<lambda>s. if locale_shape s then Inr s else Inl CsLocale)"

text \<open>\<open>Array.isArray\<close> and the values a \<open>for ... of\<close> loop sees: holes read as \<open>undefined\<close>.\<close>

fun slot_value :: "jsprop option \<Rightarrow> cs_error + jsv" where
  "slot_value None = Inr VUndefined"
| "slot_value (Some (DataProp _ v)) = Inr v"
| "slot_value (Some AccProp) = Inl CsNotPlain"

definition cs_array :: "jsv \<Rightarrow> cs_error + jsv list" where
  "cs_array v = (case v of VArr _ ps _ \<Rightarrow> rmap slot_value ps | _ \<Rightarrow> Inl CsNotArray)"

definition cs_platform :: "jsv \<Rightarrow> cs_error + test_platform" where
  "cs_platform v = (case v of
     VStr s \<Rightarrow> (case map_of testPlatforms s of None \<Rightarrow> Inl CsPlatform | Some p \<Rightarrow> Inr p)
   | _ \<Rightarrow> Inl CsPlatform)"

definition validatePlatforms :: "jsv \<Rightarrow> cs_error + test_platform list" where
  "validatePlatforms v = rbind (cs_array v) (\<lambda>vs. if vs = [] then Inl CsNoPlatform else rmap_unique CsDuplicatePlatform cs_platform id [] vs)"

definition cs_sideEffect :: "jsv \<Rightarrow> cs_error + side_effect" where
  "cs_sideEffect v = (case v of
     VStr s \<Rightarrow> (case map_of sideEffectLevels s of None \<Rightarrow> Inl CsSideEffect | Some l \<Rightarrow> Inr l)
   | _ \<Rightarrow> Inl CsSideEffect)"

definition cs_clause :: "jsv \<Rightarrow> cs_error + case_clause" where
  "cs_clause v =
     rbind (exactKeys v [''id'', ''text'']) (\<lambda>r.
     rbind (stableIdentifier (fld r ''id'')) (\<lambda>i.
     rbind (nonEmpty (fld r ''text'')) (\<lambda>t. Inr \<lparr>cl_id = i, cl_text = t\<rparr>)))"

definition validateClauses :: "jsv list \<Rightarrow> cs_error + case_clause list" where
  "validateClauses vs = rmap_unique CsDuplicateClause cs_clause cl_id [] vs"

definition validateTextList :: "jsv list \<Rightarrow> cs_error + string list" where
  "validateTextList vs = rmap_unique CsDuplicateTag nonEmpty id [] vs"

definition cs_optional :: "fields \<Rightarrow> string \<Rightarrow> (jsv \<Rightarrow> cs_error + 'a) \<Rightarrow> cs_error + 'a option" where
  "cs_optional r k f = (if fld r k = VUndefined then Inr None else rbind (f (fld r k)) (\<lambda>a. Inr (Some a)))"

definition lower_char :: "char \<Rightarrow> nat" where
  "lower_char c = (if is_upper c then code c + 32 else code c)"

text \<open>\<open>locale.toLowerCase().startsWith("zh")\<close>\<close>

definition is_zh :: "string \<Rightarrow> bool" where
  "is_zh s = (case s of a # b # _ \<Rightarrow> lower_char a = 122 \<and> lower_char b = 104 | _ \<Rightarrow> False)"

definition canonical_texts :: "case_spec \<Rightarrow> string list" where
  "canonical_texts s = [sp_suite_name s, sp_name s, sp_intent s] @ map cl_text (sp_preconditions s)
     @ map cl_text (sp_acceptanceCriteria s)"

definition validateCanonicalLanguage :: "(string \<Rightarrow> bool) \<Rightarrow> case_spec \<Rightarrow> cs_error + unit" where
  "validateCanonicalLanguage han s =
     (if is_zh (sp_locale s) \<and> \<not> list_all han (canonical_texts s) then Inl CsLanguage else Inr ())"

section \<open>Definition\<close>

definition spec_keys :: "string list" where
  "spec_keys = [''id'', ''locale'', ''platforms'', ''suite'', ''name'', ''sourceName'', ''intent'',
     ''preconditions'', ''acceptanceCriteria'', ''sideEffect'', ''tags'']"

definition defineCaseSpec :: "(string \<Rightarrow> bool) \<Rightarrow> jsv \<Rightarrow> cs_error + case_spec" where
  "defineCaseSpec han v =
     rbind (exactKeys v spec_keys) (\<lambda>r.
     rbind (exactKeys (fld r ''suite'') [''id'', ''name'']) (\<lambda>suite.
     rbind (stableIdentifier (fld r ''id'')) (\<lambda>i.
     rbind (cs_locale (fld r ''locale'')) (\<lambda>loc.
     rbind (validatePlatforms (fld r ''platforms'')) (\<lambda>platforms.
     rbind (stableIdentifier (fld suite ''id'')) (\<lambda>si.
     rbind (nonEmpty (fld suite ''name'')) (\<lambda>sn.
     rbind (nonEmpty (fld r ''name'')) (\<lambda>name.
     rbind (cs_optional r ''sourceName'' nonEmpty) (\<lambda>sourceName.
     rbind (nonEmpty (fld r ''intent'')) (\<lambda>intent.
     rbind (cs_sideEffect (fld r ''sideEffect'')) (\<lambda>level.
     rbind (cs_array (fld r ''preconditions'')) (\<lambda>pre.
     rbind (cs_array (fld r ''acceptanceCriteria'')) (\<lambda>acc.
     rbind (cs_optional r ''tags'' cs_array) (\<lambda>rawTags.
     if acc = [] then Inl CsNoCriterion else
     rbind (validateClauses pre) (\<lambda>preconditions.
     rbind (validateClauses acc) (\<lambda>criteria.
     rbind (validateTextList (case rawTags of None \<Rightarrow> [] | Some ts \<Rightarrow> ts)) (\<lambda>tags.
     let spec = \<lparr>sp_id = i, sp_locale = loc, sp_platforms = platforms, sp_suite_id = si, sp_suite_name = sn,
       sp_name = name, sp_sourceName = sourceName, sp_intent = intent, sp_preconditions = preconditions,
       sp_acceptanceCriteria = criteria, sp_sideEffect = level,
       sp_tags = (if rawTags = None then None else Some tags)\<rparr>
     in rbind (validateCanonicalLanguage han spec) (\<lambda>_. Inr spec))))))))))))))))))"

section \<open>What an accepted case is\<close>

definition text_nonblank :: "string \<Rightarrow> bool" where
  "text_nonblank s = (\<not> blank s)"

definition wf_clauses :: "case_clause list \<Rightarrow> bool" where
  "wf_clauses cs = (list_all (\<lambda>c. stable_ok (cl_id c) \<and> text_nonblank (cl_text c)) cs \<and> distinct (map cl_id cs))"

definition wf_case :: "(string \<Rightarrow> bool) \<Rightarrow> case_spec \<Rightarrow> bool" where
  "wf_case han s = (stable_ok (sp_id s) \<and> text_nonblank (sp_locale s) \<and> locale_shape (sp_locale s)
     \<and> sp_platforms s \<noteq> [] \<and> distinct (sp_platforms s)
     \<and> stable_ok (sp_suite_id s) \<and> text_nonblank (sp_suite_name s) \<and> text_nonblank (sp_name s)
     \<and> pred_option text_nonblank (sp_sourceName s) \<and> text_nonblank (sp_intent s)
     \<and> wf_clauses (sp_preconditions s) \<and> sp_acceptanceCriteria s \<noteq> [] \<and> wf_clauses (sp_acceptanceCriteria s)
     \<and> pred_option (\<lambda>ts. list_all text_nonblank ts \<and> distinct ts) (sp_tags s)
     \<and> (is_zh (sp_locale s) \<longrightarrow> list_all han (canonical_texts s)))"

fun side_effect_name :: "side_effect \<Rightarrow> string" where
  "side_effect_name ReadOnly = ''readOnly''"
| "side_effect_name Reversible = ''reversible''"
| "side_effect_name WritesLocal = ''writesLocal''"
| "side_effect_name ExternalEffect = ''externalEffect''"
| "side_effect_name SecuritySensitive = ''securitySensitive''"

fun platform_name :: "test_platform \<Rightarrow> string" where
  "platform_name MacOS = ''macos''"
| "platform_name Windows = ''windows''"
| "platform_name Web = ''web''"

definition clause_value :: "case_clause \<Rightarrow> jsv" where
  "clause_value c = obj [(''id'', VStr (cl_id c)), (''text'', VStr (cl_text c))]"

definition case_fields :: "case_spec \<Rightarrow> fields" where
  "case_fields s = [(''id'', VStr (sp_id s)), (''locale'', VStr (sp_locale s)),
     (''platforms'', arr (map (\<lambda>p. VStr (platform_name p)) (sp_platforms s))),
     (''suite'', obj [(''id'', VStr (sp_suite_id s)), (''name'', VStr (sp_suite_name s))]),
     (''name'', VStr (sp_name s)), (''intent'', VStr (sp_intent s)),
     (''preconditions'', arr (map clause_value (sp_preconditions s))),
     (''acceptanceCriteria'', arr (map clause_value (sp_acceptanceCriteria s))),
     (''sideEffect'', VStr (side_effect_name (sp_sideEffect s)))]
     @ (case sp_sourceName s of None \<Rightarrow> [] | Some n \<Rightarrow> [(''sourceName'', VStr n)])
     @ (case sp_tags s of None \<Rightarrow> [] | Some ts \<Rightarrow> [(''tags'', arr (map VStr ts))])"

definition case_value :: "case_spec \<Rightarrow> jsv" where
  "case_value s = obj (case_fields s)"

lemma ident_not_blank: "ident_shape punct s \<Longrightarrow> \<not> blank s"
  by (cases s) (auto simp: ident_shape_def blank_def char_class_defs)

lemma nonEmpty_Inr: "nonEmpty v = Inr s \<longleftrightarrow> v = VStr s \<and> text_nonblank s"
  by (auto simp: nonEmpty_def text_nonblank_def split: jsv.splits)

lemma stableIdentifier_Inr: "stableIdentifier v = Inr s \<longleftrightarrow> v = VStr s \<and> stable_ok s"
  using ident_not_blank [of "''._:@-''" s]
  by (auto simp: stableIdentifier_def nonEmpty_Inr stable_ok_def text_nonblank_def)

lemma cs_locale_Inr: "cs_locale v = Inr s \<longleftrightarrow> v = VStr s \<and> text_nonblank s \<and> locale_shape s"
  by (auto simp: cs_locale_def nonEmpty_Inr)

lemma exactKeys_obj: "list_all (\<lambda>f. fst f \<in> set ks) r \<Longrightarrow> exactKeys (obj r) ks = Inr r"
  using data_fields_obj [of r "\<lambda>_. True" True] by (simp add: exactKeys_def obj_def)

lemma cs_array_arr [simp]: "cs_array (arr vs) = Inr vs"
proof -
  have "rmap slot_value (map (\<lambda>v. Some (DataProp True v)) vs) = Inr vs"
    by (rule rmap_map_Inr) simp
  then show ?thesis by (simp add: cs_array_def arr_def)
qed

lemma platform_named: "cs_platform (VStr (platform_name p)) = Inr p"
  by (cases p) (simp_all add: cs_platform_def testPlatforms_def)

lemma side_effect_named: "cs_sideEffect (VStr (side_effect_name l)) = Inr l"
  by (cases l) (simp_all add: cs_sideEffect_def sideEffectLevels_def)

lemma cs_clause_ok: "cs_clause v = Inr c \<Longrightarrow> stable_ok (cl_id c) \<and> text_nonblank (cl_text c)"
  by (auto simp: cs_clause_def stableIdentifier_Inr nonEmpty_Inr)

lemma cs_clause_embed: "stable_ok (cl_id c) \<Longrightarrow> text_nonblank (cl_text c) \<Longrightarrow> cs_clause (clause_value c) = Inr c"
  by (simp add: cs_clause_def clause_value_def exactKeys_obj stableIdentifier_Inr nonEmpty_Inr
      stableIdentifier_Inr [THEN iffD2])

lemma validateClauses_wf: "validateClauses vs = Inr cs \<Longrightarrow> wf_clauses cs \<and> length cs = length vs"
  by (auto simp: validateClauses_def rmap_unique_Inr wf_clauses_def dest: rmap_length
      intro!: rmap_list_all dest: cs_clause_ok)

lemma validateClauses_embed: "wf_clauses cs \<Longrightarrow> validateClauses (map clause_value cs) = Inr cs"
  by (simp add: validateClauses_def rmap_unique_Inr wf_clauses_def list_all_iff rmap_map_Inr cs_clause_embed)

lemma validateTextList_wf: "validateTextList vs = Inr ts \<Longrightarrow> list_all text_nonblank ts \<and> distinct ts"
  by (auto simp: validateTextList_def rmap_unique_Inr intro!: rmap_list_all dest: nonEmpty_Inr [THEN iffD1])

lemma validateTextList_embed: "list_all text_nonblank ts \<Longrightarrow> distinct ts \<Longrightarrow> validateTextList (map VStr ts) = Inr ts"
  by (simp add: validateTextList_def rmap_unique_Inr list_all_iff rmap_map_Inr nonEmpty_Inr)

lemma validatePlatforms_wf: "validatePlatforms v = Inr ps \<Longrightarrow> ps \<noteq> [] \<and> distinct ps"
  by (auto simp: validatePlatforms_def rmap_unique_Inr dest: rmap_length)

lemma validatePlatforms_embed:
  "ps \<noteq> [] \<Longrightarrow> distinct ps \<Longrightarrow> validatePlatforms (arr (map (\<lambda>p. VStr (platform_name p)) ps)) = Inr ps"
  by (simp add: validatePlatforms_def rmap_unique_Inr rmap_map_Inr platform_named)

lemma cs_optional_Inr: "cs_optional r k f = Inr x \<longleftrightarrow>
    (fld r k = VUndefined \<and> x = None) \<or> (fld r k \<noteq> VUndefined \<and> (\<exists>a. f (fld r k) = Inr a \<and> x = Some a))"
  by (auto simp: cs_optional_def)

lemma validateCanonicalLanguage_Inr: "validateCanonicalLanguage han s = Inr u \<longleftrightarrow>
    (is_zh (sp_locale s) \<longrightarrow> list_all han (canonical_texts s))"
  by (simp add: validateCanonicalLanguage_def)

lemma defineCaseSpec_parts:
  "defineCaseSpec han v = Inr s \<Longrightarrow> (\<exists>x. stableIdentifier x = Inr (sp_id s)) \<and> (\<exists>x. cs_locale x = Inr (sp_locale s))
     \<and> (\<exists>x. validatePlatforms x = Inr (sp_platforms s)) \<and> (\<exists>x. stableIdentifier x = Inr (sp_suite_id s))
     \<and> (\<exists>x. nonEmpty x = Inr (sp_suite_name s)) \<and> (\<exists>x. nonEmpty x = Inr (sp_name s))
     \<and> (\<exists>r. cs_optional r ''sourceName'' nonEmpty = Inr (sp_sourceName s)) \<and> (\<exists>x. nonEmpty x = Inr (sp_intent s))
     \<and> (\<exists>x. validateClauses x = Inr (sp_preconditions s)) \<and> (\<exists>x. x \<noteq> [] \<and> validateClauses x = Inr (sp_acceptanceCriteria s))
     \<and> (\<exists>raw ts. sp_tags s = (if raw = None then None else Some ts)
          \<and> validateTextList (case raw of None \<Rightarrow> [] | Some xs \<Rightarrow> xs) = Inr ts)
     \<and> (\<exists>u. validateCanonicalLanguage han s = Inr u)"
  unfolding defineCaseSpec_def Let_def rbind_eq_Inr_iff if_Inl_eq_Inr sum.inject
  by (elim exE conjE, hypsubst, unfold case_spec.simps, intro conjI; blast)

lemma defineCaseSpec_wf:
  assumes "defineCaseSpec han v = Inr s"
  shows "wf_case han s"
proof -
  note parts = defineCaseSpec_parts [OF assms]
  have "wf_clauses (sp_preconditions s)" using parts validateClauses_wf by blast
  moreover have "wf_clauses (sp_acceptanceCriteria s)" "sp_acceptanceCriteria s \<noteq> []"
    using parts validateClauses_wf by (blast, fastforce)
  moreover have "sp_platforms s \<noteq> []" "distinct (sp_platforms s)" using parts validatePlatforms_wf by blast+
  moreover have "pred_option (\<lambda>ts. list_all text_nonblank ts \<and> distinct ts) (sp_tags s)"
    using parts validateTextList_wf by auto
  moreover have "pred_option text_nonblank (sp_sourceName s)" using parts by (auto simp: cs_optional_Inr nonEmpty_Inr)
  ultimately show ?thesis
    using parts by (auto simp: wf_case_def stableIdentifier_Inr nonEmpty_Inr cs_locale_Inr validateCanonicalLanguage_Inr)
qed

lemma case_fields_reads:
  "fld (case_fields s) ''id'' = VStr (sp_id s)" "fld (case_fields s) ''locale'' = VStr (sp_locale s)"
  "fld (case_fields s) ''platforms'' = arr (map (\<lambda>p. VStr (platform_name p)) (sp_platforms s))"
  "fld (case_fields s) ''suite'' = obj [(''id'', VStr (sp_suite_id s)), (''name'', VStr (sp_suite_name s))]"
  "fld (case_fields s) ''name'' = VStr (sp_name s)" "fld (case_fields s) ''intent'' = VStr (sp_intent s)"
  "fld (case_fields s) ''preconditions'' = arr (map clause_value (sp_preconditions s))"
  "fld (case_fields s) ''acceptanceCriteria'' = arr (map clause_value (sp_acceptanceCriteria s))"
  "fld (case_fields s) ''sideEffect'' = VStr (side_effect_name (sp_sideEffect s))"
  "fld (case_fields s) ''sourceName'' = (case sp_sourceName s of None \<Rightarrow> VUndefined | Some n \<Rightarrow> VStr n)"
  "fld (case_fields s) ''tags'' = (case sp_tags s of None \<Rightarrow> VUndefined | Some ts \<Rightarrow> arr (map VStr ts))"
  by (simp_all add: case_fields_def split: option.split)

lemma case_fields_keys: "list_all (\<lambda>f. fst f \<in> set spec_keys) (case_fields s)"
  by (simp add: case_fields_def spec_keys_def split: option.split)

lemma arr_defined [simp]: "arr vs \<noteq> VUndefined"
  by (simp add: arr_def)

lemma defineCaseSpec_embed:
  assumes wf: "wf_case han s"
  shows "defineCaseSpec han (case_value s) = Inr s"
proof -
  have keys: "exactKeys (case_value s) spec_keys = Inr (case_fields s)"
    unfolding case_value_def by (rule exactKeys_obj [OF case_fields_keys])
  have src: "cs_optional (case_fields s) ''sourceName'' nonEmpty = Inr (sp_sourceName s)"
    using wf by (cases "sp_sourceName s") (auto simp: cs_optional_def case_fields_reads wf_case_def nonEmpty_Inr)
  have tags: "cs_optional (case_fields s) ''tags'' cs_array = Inr (map_option (map VStr) (sp_tags s))"
    by (cases "sp_tags s") (simp_all add: cs_optional_def case_fields_reads)
  have texts: "validateTextList (case map_option (map VStr) (sp_tags s) of None \<Rightarrow> [] | Some ts \<Rightarrow> ts)
      = Inr (case sp_tags s of None \<Rightarrow> [] | Some ts \<Rightarrow> ts)"
    using wf validateTextList_embed [of "[]"]
    by (cases "sp_tags s") (auto simp: wf_case_def validateTextList_embed)
  have tagged: "(if map_option (map VStr) (sp_tags s) = None then None
      else Some (case sp_tags s of None \<Rightarrow> [] | Some ts \<Rightarrow> ts)) = sp_tags s"
    by (cases "sp_tags s") simp_all
  have ids: "stableIdentifier (VStr (sp_id s)) = Inr (sp_id s)" "stableIdentifier (VStr (sp_suite_id s)) = Inr (sp_suite_id s)"
      "cs_locale (VStr (sp_locale s)) = Inr (sp_locale s)" "nonEmpty (VStr (sp_suite_name s)) = Inr (sp_suite_name s)"
      "nonEmpty (VStr (sp_name s)) = Inr (sp_name s)" "nonEmpty (VStr (sp_intent s)) = Inr (sp_intent s)"
    using wf by (simp_all add: wf_case_def stableIdentifier_Inr nonEmpty_Inr cs_locale_Inr)
  have parts: "validatePlatforms (arr (map (\<lambda>p. VStr (platform_name p)) (sp_platforms s))) = Inr (sp_platforms s)"
      "validateClauses (map clause_value (sp_preconditions s)) = Inr (sp_preconditions s)"
      "validateClauses (map clause_value (sp_acceptanceCriteria s)) = Inr (sp_acceptanceCriteria s)"
      "map clause_value (sp_acceptanceCriteria s) \<noteq> []"
    using wf by (simp_all add: wf_case_def validatePlatforms_embed validateClauses_embed)
  have lang: "validateCanonicalLanguage han s = Inr ()"
    using wf by (simp add: validateCanonicalLanguage_def wf_case_def)
  have suite: "exactKeys (obj [(''id'', VStr (sp_suite_id s)), (''name'', VStr (sp_suite_name s))]) [''id'', ''name'']
      = Inr [(''id'', VStr (sp_suite_id s)), (''name'', VStr (sp_suite_name s))]"
    by (rule exactKeys_obj) simp
  show ?thesis
    unfolding defineCaseSpec_def keys rbind_simps case_fields_reads suite fld_Cons src tags ids parts texts
      side_effect_named cs_array_arr tagged Let_def
    using parts(4) ids lang by (cases s) simp
qed

interpretation vcase: validator "defineCaseSpec han" case_value "wf_case han"
  by unfold_locales (auto intro: defineCaseSpec_wf defineCaseSpec_embed)

end
