(* ===== verification/Policy.thy ===== *)
theory Policy
  imports CaseSpec JsMap
begin

text \<open>
  Execution plans and the effect policy of \<open>packages/test/src\<close>: \<open>plan-validation.ts\<close>,
  \<open>effects.ts\<close>, \<open>plan.ts\<close>, \<open>plan-preflight.ts\<close>, \<open>policy-validation.ts\<close> and \<open>policy.ts\<close>. A thrown
  \<open>ExecutionPolicyError\<close> is its code and its phase; its details are diagnostics and are left out.
\<close>

section \<open>Errors\<close>

datatype policy_code = InvalidInput | IncompatibleEffectSummary | CasePlatformUnsupported
  | HostUnsupported | MissingSurface | SurfaceKindMismatch | MissingCapability
  | EffectLimitExceeded | UndeclaredEffect | ResourceDenied | OperationDenied
  | BoundaryDenied | ExternalEffectDenied | SecuritySensitiveDenied | UnknownRecoveryDenied

datatype policy_phase = PhasePlan | PhasePreflight | PhaseAuthorize

datatype policy_error = PolicyError policy_code policy_phase

definition invalid :: "policy_error + 'a" where
  "invalid = Inl (PolicyError InvalidInput PhasePlan)"

section \<open>Validation of declarations\<close>

definition plan_record :: "jsv \<Rightarrow> (string \<Rightarrow> bool) \<Rightarrow> policy_error + fields" where
  "plan_record v keys = (case v of
     VObj p ps \<Rightarrow> if p = OtherProto then invalid
       else (case data_fields False keys ps of None \<Rightarrow> invalid | Some r \<Rightarrow> Inr r)
   | _ \<Rightarrow> invalid)"

definition keys_in :: "string list \<Rightarrow> string \<Rightarrow> bool" where
  "keys_in ks k = (k \<in> set ks)"

definition plan_items :: "jsv \<Rightarrow> policy_error + jsv list" where
  "plan_items v = (case v of
     VArr plain ps ks \<Rightarrow> if \<not> plain \<or> length ps > 10000 \<or> ks \<noteq> [] then invalid
       else (case data_items False ps of None \<Rightarrow> invalid | Some vs \<Rightarrow> Inr vs)
   | _ \<Rightarrow> invalid)"

definition plan_choice :: "(string \<times> 'a) list \<Rightarrow> jsv \<Rightarrow> policy_error + 'a" where
  "plan_choice table v = (case v of
     VStr s \<Rightarrow> (case map_of table s of None \<Rightarrow> invalid | Some x \<Rightarrow> Inr x)
   | _ \<Rightarrow> invalid)"

definition plan_choices :: "(string \<times> 'a) list \<Rightarrow> jsv \<Rightarrow> policy_error + 'a list" where
  "plan_choices table v = rbind (plan_items v) (\<lambda>vs. rbind (rmap (plan_choice table) vs) (\<lambda>xs.
     if card (set xs) \<noteq> length xs then invalid else Inr xs))"

definition plan_identifier_ok :: "string \<Rightarrow> bool" where
  "plan_identifier_ok s = (length s \<le> 200 \<and> ident_shape ''._:@/-'' s)"

definition plan_identifier :: "jsv \<Rightarrow> policy_error + string" where
  "plan_identifier v = (case v of VStr s \<Rightarrow> if plan_identifier_ok s then Inr s else invalid | _ \<Rightarrow> invalid)"

definition plan_flag :: "jsv \<Rightarrow> policy_error + bool" where
  "plan_flag v = (case v of VBool b \<Rightarrow> Inr b | _ \<Rightarrow> invalid)"

text \<open>\<open>input.k === undefined ? default : f(input.k)\<close>\<close>

definition plan_default :: "jsv \<Rightarrow> 'a \<Rightarrow> (jsv \<Rightarrow> policy_error + 'a) \<Rightarrow> policy_error + 'a" where
  "plan_default v d f = (if v = VUndefined then Inr d else f v)"

section \<open>Effects\<close>

datatype effect_operation = OpRead | OpWrite | OpExecute
datatype effect_boundary = LocalBoundary | ExternalBoundary
datatype effect_recovery = NotNeeded | Resettable | UnknownRecovery

definition effectOperations :: "(string \<times> effect_operation) list" where
  "effectOperations = [(''read'', OpRead), (''write'', OpWrite), (''execute'', OpExecute)]"

definition effectBoundaries :: "(string \<times> effect_boundary) list" where
  "effectBoundaries = [(''local'', LocalBoundary), (''external'', ExternalBoundary)]"

definition effectRecoveries :: "(string \<times> effect_recovery) list" where
  "effectRecoveries = [(''notNeeded'', NotNeeded), (''resettable'', Resettable), (''unknown'', UnknownRecovery)]"

record effect =
  ef_resource :: string
  ef_operation :: effect_operation
  ef_boundary :: effect_boundary
  ef_securitySensitive :: bool
  ef_recovery :: effect_recovery

definition defineEffect :: "jsv \<Rightarrow> policy_error + effect" where
  "defineEffect v =
     rbind (plan_record v (keys_in [''resource'', ''operation'', ''boundary'', ''securitySensitive'', ''recovery''])) (\<lambda>r.
     rbind (plan_identifier (fld r ''resource'')) (\<lambda>rs.
     rbind (plan_choice effectOperations (fld r ''operation'')) (\<lambda>ops.
     rbind (plan_choice effectBoundaries (fld r ''boundary'')) (\<lambda>b.
     rbind (plan_flag (fld r ''securitySensitive'')) (\<lambda>sec.
     rbind (plan_choice effectRecoveries (fld r ''recovery'')) (\<lambda>rc.
     Inr \<lparr>ef_resource = rs, ef_operation = ops, ef_boundary = b, ef_securitySensitive = sec, ef_recovery = rc\<rparr>))))))"

text \<open>
  The source validates its argument again before it reads it; \<open>effect_level\<close> is what it returns for
  a validated effect, which validates to itself.
\<close>

definition effect_level :: "effect \<Rightarrow> side_effect" where
  "effect_level e = (if ef_securitySensitive e then SecuritySensitive
     else if ef_boundary e = ExternalBoundary then ExternalEffect
     else if ef_operation e = OpRead then ReadOnly
     else if ef_recovery e = Resettable then Reversible
     else WritesLocal)"

definition effectSideEffectLevel :: "jsv \<Rightarrow> policy_error + side_effect" where
  "effectSideEffectLevel v = rbind (defineEffect v) (\<lambda>e. Inr (effect_level e))"

definition sameEffect :: "effect \<Rightarrow> effect \<Rightarrow> bool" where
  "sameEffect l r = (ef_resource l = ef_resource r \<and> ef_operation l = ef_operation r
     \<and> ef_boundary l = ef_boundary r \<and> ef_securitySensitive l = ef_securitySensitive r
     \<and> ef_recovery l = ef_recovery r)"

section \<open>Plans\<close>

datatype host_os = HostMacOS | HostWindows | HostLinux
datatype surface_kind = BrowserSurface | DesktopSurface | SystemSurfaceKind

definition hostOS :: "(string \<times> host_os) list" where
  "hostOS = [(''macos'', HostMacOS), (''windows'', HostWindows), (''linux'', HostLinux)]"

definition surfaceKinds :: "(string \<times> surface_kind) list" where
  "surfaceKinds = [(''browser'', BrowserSurface), (''desktop'', DesktopSurface), (''system'', SystemSurfaceKind)]"

text \<open>\<open>packages/core/src/capabilities.ts\<close>: a capability is its name.\<close>

definition desktopCapabilities :: "string list" where
  "desktopCapabilities = [''app.launch'', ''app.attach'', ''app.quit'', ''app.terminate'', ''ui.inspect'',
     ''ui.invoke'', ''ui.set-value'', ''ui.wait'', ''window.inspect'', ''window.manage'', ''menu.invoke'',
     ''keyboard.inject'', ''pointer.inject'', ''clipboard.read'', ''clipboard.write'', ''drag-drop.perform'',
     ''screenshot.capture'', ''browser.navigate'', ''browser.dom.inspect'', ''browser.dom.invoke'',
     ''browser.trace'', ''browser.network.observe'', ''browser.console.observe'', ''browser.network.proxy'',
     ''browser.storage.export'', ''system.open-save-panel'', ''system.permission.inspect'',
     ''system.notification.inspect'', ''system.status-area.inspect'', ''system.elevation.observe'']"

definition capability_table :: "(string \<times> string) list" where
  "capability_table = map (\<lambda>c. (c, c)) desktopCapabilities"

definition hasCapability :: "string list \<Rightarrow> string \<Rightarrow> bool" where
  "hasCapability available required = (required \<in> set available)"

definition missingCapabilities :: "string list \<Rightarrow> string list \<Rightarrow> string list" where
  "missingCapabilities available required = filter (\<lambda>c. \<not> hasCapability available c) required"

record surface_capabilities =
  sc_kind :: surface_kind
  sc_capabilities :: "string list"

type_synonym surface_table = "(string \<times> surface_capabilities) list"

record requirements =
  rq_host :: "host_os list option"
  rq_surfaces :: surface_table

datatype effect_declaration = LegacyCeiling side_effect | PreciseEffects "effect list"

record execution_plan =
  pl_spec :: case_spec
  pl_requirements :: requirements
  pl_effects :: effect_declaration

record environment =
  env_platform :: test_platform
  env_host :: host_os
  env_surfaces :: surface_table

definition snapshotSurface :: "string \<times> jsv \<Rightarrow> policy_error + string \<times> surface_capabilities" where
  "snapshotSurface f = (case f of (i, v) \<Rightarrow>
     rbind (plan_identifier (VStr i)) (\<lambda>_.
     rbind (plan_record v (keys_in [''kind'', ''capabilities''])) (\<lambda>r.
     rbind (plan_choice surfaceKinds (fld r ''kind'')) (\<lambda>k.
     rbind (plan_choices capability_table (fld r ''capabilities'')) (\<lambda>cs.
     Inr (i, \<lparr>sc_kind = k, sc_capabilities = cs\<rparr>))))))"

definition snapshotSurfaces :: "jsv \<Rightarrow> policy_error + surface_table" where
  "snapshotSurfaces v = rbind (plan_record v (\<lambda>_. True)) (\<lambda>r. rmap snapshotSurface r)"

definition snapshotEnvironment :: "jsv \<Rightarrow> policy_error + environment" where
  "snapshotEnvironment v =
     rbind (plan_record v (keys_in [''platform'', ''host'', ''surfaces''])) (\<lambda>r.
     rbind (plan_record (fld r ''host'') (keys_in [''os''])) (\<lambda>host.
     rbind (plan_choice testPlatforms (fld r ''platform'')) (\<lambda>p.
     rbind (plan_choice hostOS (fld host ''os'')) (\<lambda>os.
     rbind (snapshotSurfaces (fld r ''surfaces'')) (\<lambda>ss.
     Inr \<lparr>env_platform = p, env_host = os, env_surfaces = ss\<rparr>)))))"

definition snapshotRequirements :: "jsv \<Rightarrow> policy_error + requirements" where
  "snapshotRequirements v =
     rbind (plan_record v (keys_in [''host'', ''surfaces''])) (\<lambda>r.
     rbind (snapshotSurfaces (fld r ''surfaces'')) (\<lambda>ss.
     if fld r ''host'' = VUndefined then Inr \<lparr>rq_host = None, rq_surfaces = ss\<rparr> else
     rbind (plan_record (fld r ''host'') (keys_in [''os''])) (\<lambda>host.
     rbind (plan_choices hostOS (fld host ''os'')) (\<lambda>os.
     if os = [] then invalid else Inr \<lparr>rq_host = Some os, rq_surfaces = ss\<rparr>))))"

text \<open>
  \<open>snapshotSpec\<close>: every object and array of the spec is replaced by a plain copy, which
  \<open>defineCaseSpec\<close> then validates; \<open>replace k v r\<close> is the spread \<open>{ ...r, k: v }\<close>.
\<close>

definition plain_record :: "jsv \<Rightarrow> policy_error + jsv" where
  "plain_record v = rbind (plan_record v (\<lambda>_. True)) (\<lambda>r. Inr (obj r))"

definition plain_items :: "jsv \<Rightarrow> policy_error + jsv" where
  "plain_items v = rbind (plan_items v) (\<lambda>vs. Inr (arr vs))"

definition plain_clauses :: "jsv \<Rightarrow> policy_error + jsv" where
  "plain_clauses v = rbind (plan_items v) (\<lambda>vs. rbind (rmap plain_record vs) (\<lambda>ws. Inr (arr ws)))"

definition or_invalid :: "'e + 'a \<Rightarrow> policy_error + 'a" where
  "or_invalid r = (case r of Inl _ \<Rightarrow> invalid | Inr s \<Rightarrow> Inr s)"

definition snapshotSpec :: "(string \<Rightarrow> bool) \<Rightarrow> jsv \<Rightarrow> policy_error + case_spec" where
  "snapshotSpec han v =
     rbind (plan_record v (\<lambda>_. True)) (\<lambda>r.
     rbind (plain_record (fld r ''suite'')) (\<lambda>suite.
     rbind (plain_items (fld r ''platforms'')) (\<lambda>platforms.
     rbind (plain_clauses (fld r ''preconditions'')) (\<lambda>pre.
     rbind (plain_clauses (fld r ''acceptanceCriteria'')) (\<lambda>acc.
     rbind (plan_default (fld r ''tags'') None (\<lambda>t. rbind (plain_items t) (\<lambda>ts. Inr (Some ts)))) (\<lambda>tags.
     let r1 = map_set ''acceptanceCriteria'' acc (map_set ''preconditions'' pre
           (map_set ''platforms'' platforms (map_set ''suite'' suite r)));
         r2 = (case tags of None \<Rightarrow> r1 | Some ts \<Rightarrow> map_set ''tags'' ts r1)
     in or_invalid (defineCaseSpec han (obj r2))))))))"

text \<open>The loop over the declared effects: the limit of the case, then duplicates.\<close>

fun effects_loop :: "side_effect \<Rightarrow> effect list \<Rightarrow> effect list \<Rightarrow> policy_error + unit" where
  "effects_loop limit earlier [] = Inr ()"
| "effects_loop limit earlier (e # es) =
     (if \<not> isSideEffectAtMost (effect_level e) limit
      then Inl (PolicyError IncompatibleEffectSummary PhasePlan)
      else if list_ex (\<lambda>x. sameEffect x e) earlier then invalid
      else effects_loop limit (earlier @ [e]) es)"

definition defineExecutionPlan :: "(string \<Rightarrow> bool) \<Rightarrow> jsv \<Rightarrow> policy_error + execution_plan" where
  "defineExecutionPlan han v =
     rbind (plan_record v (keys_in [''spec'', ''requirements'', ''effects''])) (\<lambda>r.
     rbind (snapshotSpec han (fld r ''spec'')) (\<lambda>spec.
     rbind (snapshotRequirements (fld r ''requirements'')) (\<lambda>req.
     rbind (if fld r ''effects'' = VUndefined then Inr (LegacyCeiling (sp_sideEffect spec))
       else rbind (plan_items (fld r ''effects'')) (\<lambda>vs.
         rbind (rmap defineEffect vs) (\<lambda>es.
         rbind (effects_loop (sp_sideEffect spec) [] es) (\<lambda>_. Inr (PreciseEffects es))))) (\<lambda>decl.
     Inr \<lparr>pl_spec = spec, pl_requirements = req, pl_effects = decl\<rparr>))))"

text \<open>A plan argument: one that \<open>defineExecutionPlan\<close> returned, or a structural lookalike.\<close>

datatype plan_arg = DefinedPlan execution_plan | Lookalike

definition requireExecutionPlan :: "plan_arg \<Rightarrow> policy_error + execution_plan" where
  "requireExecutionPlan p = (case p of DefinedPlan pl \<Rightarrow> Inr pl | Lookalike \<Rightarrow> invalid)"

section \<open>Preflight\<close>

fun required_os :: "test_platform \<Rightarrow> host_os option" where
  "required_os Web = None"
| "required_os MacOS = Some HostMacOS"
| "required_os Windows = Some HostWindows"

definition surface_met :: "environment \<Rightarrow> string \<times> surface_capabilities \<Rightarrow> policy_error + unit" where
  "surface_met env f = (case map_of (env_surfaces env) (fst f) of
     None \<Rightarrow> Inl (PolicyError MissingSurface PhasePreflight)
   | Some available \<Rightarrow>
       if sc_kind available \<noteq> sc_kind (snd f) then Inl (PolicyError SurfaceKindMismatch PhasePreflight)
       else rall (\<lambda>c. if c \<in> set (sc_capabilities available) then Inr ()
              else Inl (PolicyError MissingCapability PhasePreflight)) (sc_capabilities (snd f)))"

definition checkExecutionRequirements :: "execution_plan \<Rightarrow> environment \<Rightarrow> policy_error + unit" where
  "checkExecutionRequirements plan env =
     (if env_platform env \<notin> set (sp_platforms (pl_spec plan))
      then Inl (PolicyError CasePlatformUnsupported PhasePreflight)
      else if (case required_os (env_platform env) of None \<Rightarrow> False | Some os \<Rightarrow> os \<noteq> env_host env)
        \<or> (case rq_host (pl_requirements plan) of None \<Rightarrow> False | Some os \<Rightarrow> env_host env \<notin> set os)
      then Inl (PolicyError HostUnsupported PhasePreflight)
      else rall (surface_met env) (rq_surfaces (pl_requirements plan)))"

section \<open>Policy\<close>

record grant =
  gr_resource :: string
  gr_operations :: "effect_operation list"
  gr_boundaries :: "effect_boundary list"
  gr_allowSecuritySensitive :: bool
  gr_allowUnknownRecovery :: bool

record effect_policy =
  po_maximum :: side_effect
  po_grants :: "grant list"

definition snapshotGrant :: "jsv \<Rightarrow> policy_error + grant" where
  "snapshotGrant v =
     rbind (plan_record v (keys_in [''resource'', ''operations'', ''boundaries'', ''allowSecuritySensitive'',
       ''allowUnknownRecovery''])) (\<lambda>r.
     rbind (plan_choices effectOperations (fld r ''operations'')) (\<lambda>ops.
     rbind (plan_default (fld r ''boundaries'') [LocalBoundary] (plan_choices effectBoundaries)) (\<lambda>bs.
     if ops = [] \<or> bs = [] then invalid else
     rbind (plan_identifier (fld r ''resource'')) (\<lambda>rs.
     rbind (plan_default (fld r ''allowSecuritySensitive'') False plan_flag) (\<lambda>sec.
     rbind (plan_default (fld r ''allowUnknownRecovery'') False plan_flag) (\<lambda>unk.
     Inr \<lparr>gr_resource = rs, gr_operations = ops, gr_boundaries = bs, gr_allowSecuritySensitive = sec,
          gr_allowUnknownRecovery = unk\<rparr>))))))"

definition snapshotEffectPolicy :: "jsv \<Rightarrow> policy_error + effect_policy" where
  "snapshotEffectPolicy v =
     rbind (plan_record v (keys_in [''maximumSideEffect'', ''grants''])) (\<lambda>r.
     rbind (plan_default (fld r ''maximumSideEffect'') WritesLocal (plan_choice sideEffectLevels)) (\<lambda>m.
     rbind (plan_items (if fld r ''grants'' = VUndefined then arr [] else fld r ''grants'')) (\<lambda>vs.
     rbind (rmap snapshotGrant vs) (\<lambda>gs.
     if card (set (map gr_resource gs)) \<noteq> length gs then invalid
     else Inr \<lparr>po_maximum = m, po_grants = gs\<rparr>))))"

definition checkPolicy :: "effect_policy \<Rightarrow> policy_phase \<Rightarrow> effect \<Rightarrow> policy_error + unit" where
  "checkPolicy po phase e =
     (if \<not> isSideEffectAtMost (effect_level e) (po_maximum po) then Inl (PolicyError EffectLimitExceeded phase)
      else (case find (\<lambda>g. gr_resource g = ef_resource e) (po_grants po) of
          None \<Rightarrow> Inl (PolicyError ResourceDenied phase)
        | Some g \<Rightarrow>
            if ef_operation e \<notin> set (gr_operations g) then Inl (PolicyError OperationDenied phase)
            else if ef_boundary e \<notin> set (gr_boundaries g)
            then Inl (PolicyError (if ef_boundary e = ExternalBoundary then ExternalEffectDenied else BoundaryDenied) phase)
            else if ef_securitySensitive e \<and> \<not> gr_allowSecuritySensitive g
            then Inl (PolicyError SecuritySensitiveDenied phase)
            else if ef_recovery e = UnknownRecovery \<and> \<not> gr_allowUnknownRecovery g
            then Inl (PolicyError UnknownRecoveryDenied phase)
            else Inr ()))"

record policy_gate =
  pg_plan :: execution_plan
  pg_policy :: effect_policy

definition preflightExecution :: "plan_arg \<Rightarrow> jsv \<Rightarrow> jsv \<Rightarrow> policy_error + policy_gate" where
  "preflightExecution p env v =
     rbind (requireExecutionPlan p) (\<lambda>plan.
     rbind (snapshotEffectPolicy v) (\<lambda>po.
     rbind (snapshotEnvironment env) (\<lambda>en.
     rbind (checkExecutionRequirements plan en) (\<lambda>_.
     if \<not> isSideEffectAtMost (sp_sideEffect (pl_spec plan)) (po_maximum po)
     then Inl (PolicyError EffectLimitExceeded PhasePreflight) else
     rbind (case pl_effects plan of LegacyCeiling _ \<Rightarrow> Inr ()
         | PreciseEffects es \<Rightarrow> rall (checkPolicy po PhasePreflight) es) (\<lambda>_.
     Inr \<lparr>pg_plan = plan, pg_policy = po\<rparr>)))))"

definition check_effect :: "policy_gate \<Rightarrow> jsv \<Rightarrow> policy_error + effect" where
  "check_effect g v = (case defineEffect v of
     Inl (PolicyError cd phase) \<Rightarrow> Inl (PolicyError cd (if cd = InvalidInput then PhaseAuthorize else phase))
   | Inr e \<Rightarrow>
       if \<not> isSideEffectAtMost (effect_level e) (sp_sideEffect (pl_spec (pg_plan g)))
       then Inl (PolicyError IncompatibleEffectSummary PhaseAuthorize)
       else if (case pl_effects (pg_plan g) of LegacyCeiling _ \<Rightarrow> False
           | PreciseEffects es \<Rightarrow> \<not> list_ex (\<lambda>x. sameEffect x e) es)
       then Inl (PolicyError UndeclaredEffect PhaseAuthorize)
       else rbind (checkPolicy (pg_policy g) PhaseAuthorize e) (\<lambda>_. Inr e))"

text \<open>\<open>dispatch\<close>: the effects the action is called with (at most one), and how the call ends.\<close>

definition dispatch_effect :: "policy_gate \<Rightarrow> bool \<Rightarrow> jsv \<Rightarrow> effect list \<times> (policy_error + unit)" where
  "dispatch_effect g callable v =
     (if \<not> callable then ([], invalid)
      else (case check_effect g v of Inl e \<Rightarrow> ([], Inl e) | Inr e \<Rightarrow> ([e], Inr ())))"

section \<open>Effects\<close>

fun operation_name :: "effect_operation \<Rightarrow> string" where
  "operation_name OpRead = ''read''"
| "operation_name OpWrite = ''write''"
| "operation_name OpExecute = ''execute''"

fun boundary_name :: "effect_boundary \<Rightarrow> string" where
  "boundary_name LocalBoundary = ''local''"
| "boundary_name ExternalBoundary = ''external''"

fun recovery_name :: "effect_recovery \<Rightarrow> string" where
  "recovery_name NotNeeded = ''notNeeded''"
| "recovery_name Resettable = ''resettable''"
| "recovery_name UnknownRecovery = ''unknown''"

definition effect_value :: "effect \<Rightarrow> jsv" where
  "effect_value e = obj [(''resource'', VStr (ef_resource e)), (''operation'', VStr (operation_name (ef_operation e))),
     (''boundary'', VStr (boundary_name (ef_boundary e))), (''securitySensitive'', VBool (ef_securitySensitive e)),
     (''recovery'', VStr (recovery_name (ef_recovery e)))]"

lemma invalid_not_ok [simp]: "invalid \<noteq> Inr a" "Inr a \<noteq> invalid"
  by (simp_all add: invalid_def)

lemma if_invalid_Inr [simp]:
  "(if b then invalid else r) = Inr a \<longleftrightarrow> \<not> b \<and> r = Inr a" "(if b then r else invalid) = Inr a \<longleftrightarrow> b \<and> r = Inr a"
  by auto

lemma plan_record_obj: "list_all keys (map fst r) \<Longrightarrow> plan_record (obj r) keys = Inr r"
proof -
  assume "list_all keys (map fst r)"
  then have "data_fields False keys (map (\<lambda>(k, v). (StrKey k, DataProp True v)) r) = Some r"
    by (intro data_fields_obj) (auto simp: list_all_iff)
  then show ?thesis by (simp add: plan_record_def obj_def)
qed

lemma plan_identifier_Inr: "plan_identifier v = Inr s \<longleftrightarrow> v = VStr s \<and> plan_identifier_ok s"
  by (auto simp: plan_identifier_def split: jsv.splits)

lemma plan_flag_Inr: "plan_flag v = Inr b \<longleftrightarrow> v = VBool b"
  by (auto simp: plan_flag_def split: jsv.splits)

lemma choice_names:
  "plan_choice effectOperations (VStr (operation_name x)) = Inr x"
  "plan_choice effectBoundaries (VStr (boundary_name b)) = Inr b"
  "plan_choice effectRecoveries (VStr (recovery_name c)) = Inr c"
    apply (cases x; simp add: plan_choice_def effectOperations_def)
   apply (cases b; simp add: plan_choice_def effectBoundaries_def)
  apply (cases c; simp add: plan_choice_def effectRecoveries_def)
  done

interpretation veffect: validator defineEffect effect_value "\<lambda>e. plan_identifier_ok (ef_resource e)"
  by unfold_locales (auto simp: defineEffect_def effect_value_def plan_record_obj keys_in_def
      plan_identifier_Inr plan_flag_Inr choice_names)

lemma sameEffect_eq [simp]: "sameEffect l r \<longleftrightarrow> l = r"
  by (cases l; cases r) (auto simp: sameEffect_def)

lemma effectSideEffectLevel_defined: "defineEffect v = Inr e \<Longrightarrow> effectSideEffectLevel (effect_value e) = Inr (effect_level e)"
  using veffect.decode_idem by (simp add: effectSideEffectLevel_def)

section \<open>Plans\<close>

lemma effects_loop_Inr:
  "effects_loop m earlier es = Inr u \<longleftrightarrow>
     (\<forall>e \<in> set es. effect_level e \<le> m) \<and> distinct es \<and> set es \<inter> set earlier = {}"
  by (induction m earlier es rule: effects_loop.induct) (auto simp: list_ex_iff)

definition declared :: "execution_plan \<Rightarrow> effect list option" where
  "declared p = (case pl_effects p of LegacyCeiling _ \<Rightarrow> None | PreciseEffects es \<Rightarrow> Some es)"

lemma or_invalid_Inr [simp]: "or_invalid r = Inr a \<longleftrightarrow> r = Inr a"
  by (simp add: or_invalid_def split: sum.split)

lemma plan_case_wf: "snapshotSpec han v = Inr s \<Longrightarrow> wf_case han s"
  by (auto simp: snapshotSpec_def Let_def intro: vcase.decode_wf)

lemma plan_effects_ok:
  "defineExecutionPlan han v = Inr p \<Longrightarrow> wf_case han (pl_spec p)
     \<and> (case pl_effects p of LegacyCeiling m \<Rightarrow> m = sp_sideEffect (pl_spec p)
        | PreciseEffects es \<Rightarrow> distinct es
           \<and> (\<forall>e \<in> set es. plan_identifier_ok (ef_resource e) \<and> effect_level e \<le> sp_sideEffect (pl_spec p)))"
  by (auto simp: defineExecutionPlan_def effects_loop_Inr plan_case_wf list_all_iff split: if_splits
      dest!: veffect.decode_list_wf)

section \<open>The gate\<close>

definition granted :: "effect_policy \<Rightarrow> effect \<Rightarrow> bool" where
  "granted po e = (effect_level e \<le> po_maximum po \<and> (\<exists>g \<in> set (po_grants po). gr_resource g = ef_resource e
     \<and> ef_operation e \<in> set (gr_operations g) \<and> ef_boundary e \<in> set (gr_boundaries g)
     \<and> (ef_securitySensitive e \<longrightarrow> gr_allowSecuritySensitive g)
     \<and> (ef_recovery e = UnknownRecovery \<longrightarrow> gr_allowUnknownRecovery g)))"

definition authorized :: "policy_gate \<Rightarrow> effect \<Rightarrow> bool" where
  "authorized g e = (effect_level e \<le> sp_sideEffect (pl_spec (pg_plan g))
     \<and> (case pl_effects (pg_plan g) of LegacyCeiling _ \<Rightarrow> True | PreciseEffects es \<Rightarrow> e \<in> set es)
     \<and> granted (pg_policy g) e)"

definition policy_ok :: "effect_policy \<Rightarrow> bool" where
  "policy_ok po = distinct (map gr_resource (po_grants po))"

lemma snapshotEffectPolicy_ok: "snapshotEffectPolicy v = Inr po \<Longrightarrow> policy_ok po"
  by (auto simp: snapshotEffectPolicy_def policy_ok_def card_set_eq_length_iff [of "map gr_resource _", simplified])

lemma find_grant:
  "distinct (map gr_resource gs) \<Longrightarrow> find (\<lambda>g. gr_resource g = i) gs = Some g \<longleftrightarrow> g \<in> set gs \<and> gr_resource g = i"
  by (induction gs) auto

lemma checkPolicy_Inr: "policy_ok po \<Longrightarrow> checkPolicy po phase e = Inr u \<longleftrightarrow> granted po e"
proof (cases "find (\<lambda>g. gr_resource g = ef_resource e) (po_grants po)")
  case None
  then have "\<not> granted po e" by (auto simp: granted_def find_None_iff)
  then show ?thesis by (simp add: checkPolicy_def None)
next
  case (Some g)
  assume ok: "policy_ok po"
  then have "g \<in> set (po_grants po)" "gr_resource g = ef_resource e"
    using Some find_grant unfolding policy_ok_def by blast+
  moreover have "h = g" if "h \<in> set (po_grants po)" "gr_resource h = ef_resource e" for h
    using ok that Some find_grant [of "po_grants po" "ef_resource e" h] by (simp add: policy_ok_def)
  ultimately have "granted po e \<longleftrightarrow> effect_level e \<le> po_maximum po
     \<and> ef_operation e \<in> set (gr_operations g) \<and> ef_boundary e \<in> set (gr_boundaries g)
     \<and> (ef_securitySensitive e \<longrightarrow> gr_allowSecuritySensitive g)
     \<and> (ef_recovery e = UnknownRecovery \<longrightarrow> gr_allowUnknownRecovery g)"
    unfolding granted_def by blast
  then show ?thesis by (simp add: checkPolicy_def Some)
qed

lemma preflight_policy_ok: "preflightExecution p env v = Inr g \<Longrightarrow> policy_ok (pg_policy g)"
  by (auto simp: preflightExecution_def dest: snapshotEffectPolicy_ok)

lemma check_effect_Inr:
  assumes "policy_ok (pg_policy g)"
  shows "check_effect g v = Inr e \<longleftrightarrow> defineEffect v = Inr e \<and> authorized g e"
proof (cases "defineEffect v")
  case (Inl err)
  then show ?thesis by (cases err) (simp add: check_effect_def)
next
  case (Inr e')
  then show ?thesis using checkPolicy_Inr [OF assms]
    by (auto simp: check_effect_def authorized_def list_ex_iff split: effect_declaration.splits)
qed

text \<open>What preflight accepted is never refused at dispatch.\<close>

lemma preflight_promise:
  assumes g: "preflightExecution (DefinedPlan p) env v = Inr g" and p: "defineExecutionPlan han w = Inr p"
    and e: "pl_effects p = PreciseEffects es" "e \<in> set es"
  shows "check_effect g (effect_value e) = Inr e"
proof -
  have gate: "pg_plan g = p" "checkPolicy (pg_policy g) PhasePreflight e = Inr ()"
    using g e by (auto simp: preflightExecution_def requireExecutionPlan_def rall_Inr_iff)
  have "granted (pg_policy g) e" using gate(2) checkPolicy_Inr [OF preflight_policy_ok [OF g]] by blast
  moreover have "effect_level e \<le> sp_sideEffect (pl_spec p)" "plan_identifier_ok (ef_resource e)"
    using plan_effects_ok [OF p] e by auto
  ultimately show ?thesis
    using e gate(1) by (simp add: check_effect_Inr [OF preflight_policy_ok [OF g]] authorized_def veffect.decode_encode)
qed

text \<open>Preflight requirements, as a relation between the plan and the environment.\<close>

definition surface_available :: "environment \<Rightarrow> string \<times> surface_capabilities \<Rightarrow> bool" where
  "surface_available env f = (\<exists>s. map_of (env_surfaces env) (fst f) = Some s \<and> sc_kind s = sc_kind (snd f)
     \<and> set (sc_capabilities (snd f)) \<subseteq> set (sc_capabilities s))"

definition runnable :: "execution_plan \<Rightarrow> environment \<Rightarrow> bool" where
  "runnable plan env = (env_platform env \<in> set (sp_platforms (pl_spec plan))
     \<and> (\<forall>os. required_os (env_platform env) = Some os \<longrightarrow> env_host env = os)
     \<and> (\<forall>os. rq_host (pl_requirements plan) = Some os \<longrightarrow> env_host env \<in> set os)
     \<and> list_all (surface_available env) (rq_surfaces (pl_requirements plan)))"

lemma surface_met_Inr: "surface_met env f = Inr () \<longleftrightarrow> surface_available env f"
  by (auto simp: surface_met_def surface_available_def rall_Inr_iff split: option.splits)

lemma checkExecutionRequirements_Inr: "checkExecutionRequirements plan env = Inr u \<longleftrightarrow> runnable plan env"
  by (auto simp: checkExecutionRequirements_def runnable_def rall_Inr_iff surface_met_Inr list_all_iff
      split: option.splits)

lemma dispatch_authorized:
  "policy_ok (pg_policy g) \<Longrightarrow> fst (dispatch_effect g c v) =
     (if c \<and> (\<exists>e. defineEffect v = Inr e \<and> authorized g e) then [projr (defineEffect v)] else [])"
  using check_effect_Inr [of g v] by (auto simp: dispatch_effect_def split: sum.split)

definition permitted :: "execution_plan \<Rightarrow> effect_policy \<Rightarrow> environment \<Rightarrow> bool" where
  "permitted p po en = (runnable p en \<and> sp_sideEffect (pl_spec p) \<le> po_maximum po
     \<and> (case pl_effects p of LegacyCeiling _ \<Rightarrow> True | PreciseEffects es \<Rightarrow> list_all (granted po) es))"

lemma preflight_Inr:
  "preflightExecution (DefinedPlan p) env v = Inr g \<longleftrightarrow>
     (\<exists>po en. snapshotEffectPolicy v = Inr po \<and> snapshotEnvironment env = Inr en \<and> permitted p po en
        \<and> g = \<lparr>pg_plan = p, pg_policy = po\<rparr>)"
proof (cases "snapshotEffectPolicy v")
  case (Inr po)
  have "(case pl_effects p of LegacyCeiling _ \<Rightarrow> Inr () | PreciseEffects es \<Rightarrow> rall (checkPolicy po PhasePreflight) es) = Inr u
      \<longleftrightarrow> (case pl_effects p of LegacyCeiling _ \<Rightarrow> True | PreciseEffects es \<Rightarrow> list_all (granted po) es)" for u
    using checkPolicy_Inr [OF snapshotEffectPolicy_ok [OF Inr]]
    by (auto simp: rall_Inr_iff list_all_iff split: effect_declaration.split)
  then show ?thesis using Inr
    by (auto simp: preflightExecution_def requireExecutionPlan_def permitted_def checkExecutionRequirements_Inr)
qed (simp add: preflightExecution_def requireExecutionPlan_def)

end
