(* ===== verification/Deadline.thy ===== *)
theory Deadline
  imports Prelude
begin

text \<open>
  Bounded tasks: \<open>startDeadlineTask\<close> (\<open>packages/test/src/deadline.ts\<close>) over the monotonic
  timer of \<open>deadline-clock.ts\<close>. The task is a machine; its events are the settlement of the callback's
  promise, calls of the context and of \<open>cancel\<close>, the external signal and the timer's callback. Every
  event brings the clock readings its handler takes (\<open>None\<close>: the clock threw, or returned a
  non-finite number) and whether the scheduler accepts a callback (it may throw, return no
  cancellation function, or fire synchronously). Times are exact rationals, so sums of finite times
  are finite and the overflow guards of the source never fire.
\<close>

section \<open>Data\<close>

datatype cancel_kind = CkDeadline | CkExternal | CkRequested | CkClockFailed

record cancellation =
  ca_kind :: cancel_kind
  ca_at :: rat

datatype settle_status = TaskFulfilled | TaskRejected | TaskNotStarted

record task_settlement =
  se_status :: settle_status
  se_observedAt :: "rat option"
  se_cancellation :: "cancellation option"

datatype task_status = StatusSettled | StatusTimedOut | StatusCancelled | StatusClockFailed

datatype stop_status = StopSettled | CooperativeStopped | StopNotStarted | StopUnconfirmed

record task_outcome =
  oc_started :: bool
  oc_settlement :: "task_settlement option"
  oc_cancellation :: "cancellation option"
  oc_acknowledged :: bool
  oc_clockFailure :: bool
  oc_status :: task_status
  oc_stop :: stop_status

section \<open>The timer\<close>

type_synonym reading = "rat option"

record mono_timer =
  dt_last :: rat
  dt_failed :: bool

text \<open>\<open>read\<close>: the clock must not fail, nor go back; a failure is sticky.\<close>

definition timer_read :: "reading \<Rightarrow> mono_timer \<Rightarrow> mono_timer \<times> rat option" where
  "timer_read r t = (if dt_failed t then (t, None) else (case r of
     None \<Rightarrow> (t\<lparr>dt_failed := True\<rparr>, None)
   | Some now \<Rightarrow> if now < dt_last t then (t\<lparr>dt_failed := True\<rparr>, None) else (t\<lparr>dt_last := now\<rparr>, Some now)))"

text \<open>What is armed: nothing, or a target with the last reading before its callback was scheduled.\<close>

datatype armed = Disarmed | ArmedFor bool rat rat

datatype arm_result = ArmFailed | ArmElapsed | ArmWaiting armed

text \<open>\<open>schedule\<close> inside \<open>arm\<close>.\<close>

definition arm_schedule :: "bool \<Rightarrow> rat \<Rightarrow> reading \<Rightarrow> bool \<Rightarrow> mono_timer \<Rightarrow> mono_timer \<times> arm_result" where
  "arm_schedule grace target r accepted t = (case timer_read r t of
     (t1, None) \<Rightarrow> (t1, ArmFailed)
   | (t1, Some before) \<Rightarrow>
       if before \<ge> target then (t1, ArmElapsed)
       else if \<not> accepted then (t1, ArmFailed)
       else (t1, ArmWaiting (ArmedFor grace target before)))"

text \<open>The scheduled callback: the time has come, the clock stands still, or another wait.\<close>

definition arm_fired :: "bool \<Rightarrow> rat \<Rightarrow> rat \<Rightarrow> reading \<Rightarrow> reading \<Rightarrow> bool \<Rightarrow> mono_timer \<Rightarrow> mono_timer \<times> arm_result" where
  "arm_fired grace target before r r2 accepted t = (case timer_read r t of
     (t1, None) \<Rightarrow> (t1, ArmFailed)
   | (t1, Some now) \<Rightarrow>
       if now \<ge> target then (t1, ArmElapsed)
       else if now \<le> before then (t1\<lparr>dt_failed := True\<rparr>, ArmFailed)
       else arm_schedule grace target r2 accepted t1)"

section \<open>The task\<close>

record deadline_task =
  tk_timer :: mono_timer
  tk_deadline :: rat
  tk_grace :: rat
  tk_started :: bool
  tk_settling :: bool
  tk_finished :: bool
  tk_cancellation :: "cancellation option"
  tk_clockFailure :: bool
  tk_settlement :: "task_settlement option"
  tk_acknowledged :: bool
  tk_armed :: armed
  tk_listening :: bool

datatype task_out =
    RunBody
  | AbortController
  | ResolveOutcome task_outcome
  | ResolveSettled task_settlement
  | RemainingMs rat
  | ContextThrows

type_synonym tasked = "deadline_task \<times> task_out list"

definition then_do :: "tasked \<Rightarrow> (deadline_task \<Rightarrow> tasked) \<Rightarrow> tasked" where
  "then_do r f = (let (t1, o1) = r; (t2, o2) = f t1 in (t2, o1 @ o2))"

definition task_status_of :: "cancellation option \<Rightarrow> task_status" where
  "task_status_of c = (case c of None \<Rightarrow> StatusSettled
     | Some x \<Rightarrow> (case ca_kind x of CkDeadline \<Rightarrow> StatusTimedOut | CkClockFailed \<Rightarrow> StatusClockFailed
         | _ \<Rightarrow> StatusCancelled))"

definition stop_status_of :: "deadline_task \<Rightarrow> stop_status" where
  "stop_status_of t = (case tk_settlement t of None \<Rightarrow> StopUnconfirmed
     | Some s \<Rightarrow> if se_status s = TaskNotStarted then StopNotStarted
         else if tk_cancellation t \<noteq> None \<and> tk_acknowledged t then CooperativeStopped else StopSettled)"

definition outcome_of :: "deadline_task \<Rightarrow> task_outcome" where
  "outcome_of t = \<lparr>oc_started = tk_started t, oc_settlement = tk_settlement t,
     oc_cancellation = tk_cancellation t, oc_acknowledged = tk_acknowledged t,
     oc_clockFailure = tk_clockFailure t, oc_status = task_status_of (tk_cancellation t),
     oc_stop = stop_status_of t\<rparr>"

definition finish_task :: "deadline_task \<Rightarrow> tasked" where
  "finish_task t = (if tk_finished t then (t, [])
     else let t1 = t\<lparr>tk_finished := True, tk_armed := Disarmed, tk_listening := False\<rparr>
       in (t1, [ResolveOutcome (outcome_of t1)]))"

text \<open>
  The part of \<open>requestCancellation\<close> common to every caller: nothing is done twice, and after a
  settlement nothing is done. \<open>arm_grace\<close> is what happens when the callback runs, the clock works and
  there is a grace period.
\<close>

definition cancel_with :: "(deadline_task \<Rightarrow> tasked) \<Rightarrow> cancel_kind \<Rightarrow> deadline_task \<Rightarrow> tasked" where
  "cancel_with arm_grace kind t =
     (if tk_cancellation t \<noteq> None \<or> tk_settlement t \<noteq> None then (t, [])
      else let c = \<lparr>ca_kind = kind, ca_at = dt_last (tk_timer t)\<rparr>;
               t1 = t\<lparr>tk_cancellation := Some c, tk_armed := Disarmed, tk_listening := False\<rparr> in
        then_do (t1, [AbortController]) (\<lambda>t2.
          if \<not> tk_started t2 then
            let s = \<lparr>se_status = TaskNotStarted,
                  se_observedAt = (if tk_clockFailure t2 then None else Some (dt_last (tk_timer t2))),
                  se_cancellation = Some c\<rparr>
            in then_do (t2\<lparr>tk_settlement := Some s\<rparr>, [ResolveSettled s]) finish_task
          else if tk_settling t2 then (t2, [])
          else if tk_grace t2 = 0 \<or> tk_clockFailure t2 then finish_task t2
          else arm_grace t2))"

text \<open>A broken clock cannot measure a grace period, so this call arms nothing.\<close>

definition clock_failed :: "deadline_task \<Rightarrow> tasked" where
  "clock_failed t =
     then_do (cancel_with (\<lambda>t. (t, [])) CkClockFailed (t\<lparr>tk_clockFailure := True\<rparr>)) (\<lambda>t1.
       if tk_settling t1 then (t1, []) else finish_task t1)"

definition armed_result :: "(deadline_task \<Rightarrow> tasked) \<Rightarrow> mono_timer \<times> arm_result \<Rightarrow> deadline_task \<Rightarrow> tasked" where
  "armed_result elapsed r t = (let t1 = t\<lparr>tk_timer := fst r\<rparr> in (case snd r of
     ArmFailed \<Rightarrow> clock_failed (t1\<lparr>tk_armed := Disarmed\<rparr>)
   | ArmElapsed \<Rightarrow> elapsed (t1\<lparr>tk_armed := Disarmed\<rparr>)
   | ArmWaiting a \<Rightarrow> (t1\<lparr>tk_armed := a\<rparr>, [])))"

definition arm_grace :: "reading \<Rightarrow> bool \<Rightarrow> deadline_task \<Rightarrow> tasked" where
  "arm_grace r accepted t = armed_result finish_task
     (arm_schedule True (dt_last (tk_timer t) + tk_grace t) r accepted (tk_timer t)) t"

definition request_cancellation :: "reading \<Rightarrow> bool \<Rightarrow> cancel_kind \<Rightarrow> deadline_task \<Rightarrow> tasked" where
  "request_cancellation r accepted kind t = cancel_with (arm_grace r accepted) kind t"

definition sample :: "reading \<Rightarrow> deadline_task \<Rightarrow> tasked \<times> rat option" where
  "sample r t = (case timer_read r (tk_timer t) of
     (tm, Some now) \<Rightarrow> ((t\<lparr>tk_timer := tm\<rparr>, []), Some now)
   | (tm, None) \<Rightarrow> (clock_failed (t\<lparr>tk_timer := tm\<rparr>), None))"

definition external_abort :: "reading \<Rightarrow> reading \<Rightarrow> bool \<Rightarrow> deadline_task \<Rightarrow> tasked" where
  "external_abort r ra accepted t = then_do (fst (sample r t)) (request_cancellation ra accepted CkExternal)"

definition remaining_ms :: "reading \<Rightarrow> reading \<Rightarrow> bool \<Rightarrow> deadline_task \<Rightarrow> tasked" where
  "remaining_ms r ra accepted t = (case sample r t of
     (res, None) \<Rightarrow> then_do res (\<lambda>t1. (t1, [ContextThrows]))
   | (res, Some now) \<Rightarrow>
       then_do res (\<lambda>t1.
       then_do (if now \<ge> tk_deadline t1 then request_cancellation ra accepted CkDeadline t1 else (t1, [])) (\<lambda>t2.
       (t2, [RemainingMs (max 0 (tk_deadline t2 - now))]))))"

definition acknowledge :: "deadline_task \<Rightarrow> tasked" where
  "acknowledge t = (if tk_cancellation t = None \<or> tk_settlement t \<noteq> None then (t, [])
     else (t\<lparr>tk_acknowledged := True\<rparr>, []))"

definition complete :: "settle_status \<Rightarrow> reading \<Rightarrow> deadline_task \<Rightarrow> tasked" where
  "complete status r t =
     (if tk_settlement t \<noteq> None then (t, [])
      else (let (res, now) = sample r (t\<lparr>tk_settling := True\<rparr>) in
        then_do res (\<lambda>t1.
        then_do (if (case now of None \<Rightarrow> False | Some n \<Rightarrow> n \<ge> tk_deadline t1)
          then request_cancellation None False CkDeadline t1 else (t1, [])) (\<lambda>t2.
        let s = \<lparr>se_status = status, se_observedAt = now, se_cancellation = tk_cancellation t2\<rparr> in
        then_do (t2\<lparr>tk_settlement := Some s, tk_settling := False\<rparr>, [ResolveSettled s]) finish_task))))"

definition cancel_task :: "reading \<Rightarrow> reading \<Rightarrow> bool \<Rightarrow> deadline_task \<Rightarrow> tasked" where
  "cancel_task r ra accepted t =
     (if tk_cancellation t \<noteq> None \<or> tk_settlement t \<noteq> None then (t, [])
      else then_do (fst (sample r t)) (request_cancellation ra accepted CkRequested))"

definition timer_fired :: "reading \<Rightarrow> reading \<Rightarrow> bool \<Rightarrow> reading \<Rightarrow> bool \<Rightarrow> deadline_task \<Rightarrow> tasked" where
  "timer_fired r r2 accepted ra accepted2 t = (case tk_armed t of
     Disarmed \<Rightarrow> (t, [])
   | ArmedFor grace target before \<Rightarrow>
       armed_result (if grace then finish_task else request_cancellation ra accepted2 CkDeadline)
         (arm_fired grace target before r r2 accepted (tk_timer t)) t)"

section \<open>The start\<close>

definition deadline_duration :: "rat option \<Rightarrow> rat option" where
  "deadline_duration v = (case v of Some q \<Rightarrow> if q < 0 then None else Some q | None \<Rightarrow> None)"

text \<open>
  \<open>r0\<close> is the reading of the timer's constructor, \<open>r\<close> the next one; \<open>sig\<close> is the external signal, if
  there is one, with its \<open>aborted\<close> flag. A rejected argument or first reading throws (\<open>None\<close>).
\<close>

definition fresh_task :: "rat \<Rightarrow> rat \<Rightarrow> rat \<Rightarrow> deadline_task" where
  "fresh_task now timeout grace = \<lparr>tk_timer = \<lparr>dt_last = now, dt_failed = False\<rparr>, tk_deadline = now + timeout,
     tk_grace = grace, tk_started = False, tk_settling = False, tk_finished = False, tk_cancellation = None,
     tk_clockFailure = False, tk_settlement = None, tk_acknowledged = False, tk_armed = Disarmed,
     tk_listening = False\<rparr>"

definition start_task :: "rat option \<Rightarrow> rat option \<Rightarrow> bool option \<Rightarrow> reading \<Rightarrow> reading \<Rightarrow> bool \<Rightarrow> tasked option" where
  "start_task timeout grace sig r0 r accepted =
     (case (deadline_duration grace, deadline_duration timeout, r0) of
        (Some g, Some d, Some now) \<Rightarrow> Some
          (let t0 = fresh_task now d g in
           then_do (if sig = Some True then external_abort r None False t0
             else armed_result (request_cancellation None False CkDeadline)
               (arm_schedule False (tk_deadline t0) r accepted (tk_timer t0)) (t0\<lparr>tk_listening := (sig \<noteq> None)\<rparr>)) (\<lambda>t1.
           if tk_cancellation t1 = None then (t1\<lparr>tk_started := True\<rparr>, [RunBody]) else (t1, [])))
      | _ \<Rightarrow> None)"

datatype task_event =
    TaskSettles settle_status reading
  | AskRemaining reading reading bool
  | Acknowledge
  | CancelCall reading reading bool
  | ExternalAbort reading reading bool
  | TimerFires reading reading bool reading bool

text \<open>A settlement of the callback's promise is a fulfilment or a rejection.\<close>

fun task_step :: "deadline_task \<Rightarrow> task_event \<Rightarrow> tasked" where
  "task_step t (TaskSettles status r) =
     (if tk_started t \<and> status \<noteq> TaskNotStarted then complete status r t else (t, []))"
| "task_step t (AskRemaining r ra ok) = remaining_ms r ra ok t"
| "task_step t Acknowledge = acknowledge t"
| "task_step t (CancelCall r ra ok) = cancel_task r ra ok t"
| "task_step t (ExternalAbort r ra ok) = (if tk_listening t then external_abort r ra ok t else (t, []))"
| "task_step t (TimerFires r r2 ok ra ok2) = timer_fired r r2 ok ra ok2 t"

section \<open>The invariant\<close>

text \<open>
  A settlement without a cancellation was observed strictly before the deadline; an open task has a
  timer armed: for the deadline, or after a cancellation for the end of the grace period.
\<close>

definition settle_ok :: "rat \<Rightarrow> task_settlement \<Rightarrow> bool" where
  "settle_ok deadline s = ((se_cancellation s = None \<longrightarrow> se_status s \<noteq> TaskNotStarted
     \<and> (\<exists>now. se_observedAt s = Some now \<and> now < deadline)))"

definition task_inv :: "deadline_task \<Rightarrow> bool" where
  "task_inv t = (\<not> tk_settling t
     \<and> (\<forall>s. tk_settlement t = Some s \<longrightarrow> tk_finished t \<and> settle_ok (tk_deadline t) s
          \<and> se_cancellation s = tk_cancellation t)
     \<and> (tk_finished t \<longrightarrow> tk_armed t = Disarmed \<and> \<not> tk_listening t
          \<and> (tk_settlement t \<noteq> None \<or> tk_cancellation t \<noteq> None))
     \<and> (\<not> tk_started t \<longrightarrow> tk_settlement t \<noteq> None)
     \<and> (tk_clockFailure t \<longrightarrow> tk_finished t)
     \<and> (tk_cancellation t \<noteq> None \<longrightarrow> \<not> tk_listening t)
     \<and> (tk_acknowledged t \<longrightarrow> tk_cancellation t \<noteq> None)
     \<and> (\<not> tk_finished t \<longrightarrow> (\<exists>g target before. tk_armed t = ArmedFor g target before
          \<and> g = (tk_cancellation t \<noteq> None) \<and> (\<not> g \<longrightarrow> target = tk_deadline t))))"

definition outcome_ok :: "rat \<Rightarrow> task_outcome \<Rightarrow> bool" where
  "outcome_ok deadline oc = ((oc_status oc = StatusSettled \<longleftrightarrow> oc_cancellation oc = None)
     \<and> (oc_stop oc = StopUnconfirmed \<longleftrightarrow> oc_settlement oc = None)
     \<and> (oc_stop oc = CooperativeStopped \<longrightarrow> oc_acknowledged oc \<and> oc_cancellation oc \<noteq> None)
     \<and> (oc_stop oc = StopNotStarted \<longleftrightarrow> \<not> oc_started oc)
     \<and> (oc_settlement oc = None \<longrightarrow> oc_cancellation oc \<noteq> None)
     \<and> (\<forall>s. oc_settlement oc = Some s \<longrightarrow> settle_ok deadline s \<and> se_cancellation s = oc_cancellation oc))"

datatype task_signal = SigAbortTask | SigOutcome | SigSettled | SigRun

fun task_signals :: "task_out \<Rightarrow> task_signal list" where
  "task_signals AbortController = [SigAbortTask]"
| "task_signals (ResolveOutcome _) = [SigOutcome]"
| "task_signals (ResolveSettled _) = [SigSettled]"
| "task_signals RunBody = [SigRun]"
| "task_signals _ = []"

fun task_live :: "deadline_task \<Rightarrow> task_signal \<Rightarrow> bool" where
  "task_live t SigAbortTask = (tk_cancellation t = None \<and> tk_settlement t = None)"
| "task_live t SigOutcome = (\<not> tk_finished t)"
| "task_live t SigSettled = (tk_settlement t = None)"
| "task_live t SigRun = False"

fun out_ok :: "rat \<Rightarrow> task_out \<Rightarrow> bool" where
  "out_ok deadline (ResolveOutcome oc) = outcome_ok deadline oc"
| "out_ok deadline (ResolveSettled s) = settle_ok deadline s"
| "out_ok deadline _ = True"

definition tsignals :: "task_out list \<Rightarrow> task_signal list" where
  "tsignals out = concat (map task_signals out)"

lemma tsignals_simps [simp]:
  "tsignals [] = []" "tsignals (x # xs) = task_signals x @ tsignals xs" "tsignals (xs @ ys) = tsignals xs @ tsignals ys"
  by (simp_all add: tsignals_def)

definition task_good :: "deadline_task \<Rightarrow> tasked \<Rightarrow> bool" where
  "task_good t r = (task_inv (fst r) \<and> distinct (tsignals (snd r))
     \<and> (\<forall>x \<in> set (tsignals (snd r)). task_live t x \<and> \<not> task_live (fst r) x)
     \<and> (\<forall>x. \<not> task_live t x \<longrightarrow> \<not> task_live (fst r) x)
     \<and> list_all (out_ok (tk_deadline t)) (snd r) \<and> tk_deadline (fst r) = tk_deadline t
     \<and> (\<forall>c. tk_cancellation t = Some c \<longrightarrow> tk_cancellation (fst r) = Some c)
     \<and> (\<forall>s. tk_settlement t = Some s \<longrightarrow> tk_settlement (fst r) = Some s)
     \<and> dt_last (tk_timer t) \<le> dt_last (tk_timer (fst r)))"

lemma signal_cases: "(\<forall>x. P x) \<longleftrightarrow> P SigAbortTask \<and> P SigOutcome \<and> P SigSettled \<and> P SigRun"
  by (metis task_signal.exhaust)

lemmas task_defs = then_do_def finish_task_def cancel_with_def clock_failed_def armed_result_def arm_grace_def
  request_cancellation_def sample_def Let_def

lemma timer_read_cases:
  "timer_read r t = (t\<lparr>dt_failed := True\<rparr>, None) \<or>
   (\<exists>now. timer_read r t = (t\<lparr>dt_last := now\<rparr>, Some now) \<and> dt_last t \<le> now)"
  by (cases "dt_failed t"; cases r) (auto simp: timer_read_def not_less)

lemma arm_schedule_cases:
  "\<exists>tm. dt_last t \<le> dt_last tm \<and> (arm_schedule g target r ok t = (tm, ArmFailed)
     \<or> arm_schedule g target r ok t = (tm, ArmElapsed) \<and> target \<le> dt_last tm
     \<or> (\<exists>before. arm_schedule g target r ok t = (tm, ArmWaiting (ArmedFor g target before))))"
  using timer_read_cases [of r t] by (auto simp: arm_schedule_def not_le)

lemma arm_fired_cases:
  "\<exists>tm. dt_last t \<le> dt_last tm \<and> (arm_fired g target before r r2 ok t = (tm, ArmFailed)
     \<or> arm_fired g target before r r2 ok t = (tm, ArmElapsed) \<and> target \<le> dt_last tm
     \<or> (\<exists>before'. arm_fired g target before r r2 ok t = (tm, ArmWaiting (ArmedFor g target before'))))"
proof -
  consider "timer_read r t = (t\<lparr>dt_failed := True\<rparr>, None)"
    | now where "timer_read r t = (t\<lparr>dt_last := now\<rparr>, Some now)" "dt_last t \<le> now"
    using timer_read_cases by blast
  then show ?thesis
  proof cases
    case 1
    then show ?thesis by (intro exI [of _ "t\<lparr>dt_failed := True\<rparr>"]) (simp add: arm_fired_def)
  next
    case 2
    then show ?thesis
      using arm_schedule_cases [of "t\<lparr>dt_last := now\<rparr>" g target r2 ok]
      by (auto simp: arm_fired_def intro: exI [of _ "t\<lparr>dt_last := now\<rparr>"] exI [of _ "t\<lparr>dt_last := now, dt_failed := True\<rparr>"])
  qed
qed

text \<open>An open task, and the ways out of it.\<close>

definition task_open :: "deadline_task \<Rightarrow> bool" where
  "task_open t = (\<not> tk_finished t \<and> \<not> tk_settling t \<and> tk_started t \<and> tk_settlement t = None
     \<and> \<not> tk_clockFailure t \<and> (tk_cancellation t \<noteq> None \<longrightarrow> \<not> tk_listening t)
     \<and> (tk_acknowledged t \<longrightarrow> tk_cancellation t \<noteq> None))"

lemma finish_good:
  "task_open t \<Longrightarrow> tk_cancellation t \<noteq> None \<Longrightarrow> task_good t (finish_task t)"
  by (auto simp: task_good_def task_open_def finish_task_def task_inv_def outcome_ok_def outcome_of_def
      task_status_of_def stop_status_of_def signal_cases Let_def split: option.split cancel_kind.split)

lemma clock_failed_good: "task_open t \<Longrightarrow> task_good t (clock_failed t)"
  by (cases "tk_cancellation t")
    (auto simp: task_good_def task_open_def task_defs task_inv_def outcome_ok_def outcome_of_def
      task_status_of_def stop_status_of_def signal_cases split: option.split cancel_kind.split)

lemma task_live_timer [simp]: "task_live (t\<lparr>tk_timer := tm\<rparr>) x = task_live t x"
  "task_live (t\<lparr>tk_armed := a\<rparr>) x = task_live t x"
  by (cases x; simp)+

lemma task_good_timer: "dt_last (tk_timer t) \<le> dt_last tm \<Longrightarrow> task_good (t\<lparr>tk_timer := tm\<rparr>) r \<Longrightarrow> task_good t r"
  by (simp add: task_good_def)

lemma task_good_armed: "task_good (t\<lparr>tk_armed := a\<rparr>) r \<Longrightarrow> task_good t r"
  by (simp add: task_good_def)

lemma task_open_frame [simp]: "task_open (t\<lparr>tk_timer := tm\<rparr>) = task_open t" "task_open (t\<lparr>tk_armed := a\<rparr>) = task_open t"
  by (simp_all add: task_open_def)

text \<open>The result of arming, when every way out of it is good.\<close>

lemma armed_result_good:
  assumes o: "task_open t" and tm: "dt_last (tk_timer t) \<le> dt_last (fst r)"
    and res: "snd r = ArmFailed \<or> snd r = ArmElapsed \<or> (\<exists>before. snd r = ArmWaiting (ArmedFor g target before))"
    and g: "g = (tk_cancellation t \<noteq> None)" "\<not> g \<Longrightarrow> target = tk_deadline t"
    and el: "\<And>t'. task_open t' \<Longrightarrow> tk_cancellation t' = tk_cancellation t \<Longrightarrow> task_good t' (elapsed t')"
  shows "task_good t (armed_result elapsed r t)"
proof (rule task_good_timer [OF tm])
  let ?t1 = "t\<lparr>tk_timer := fst r\<rparr>"
  consider "snd r = ArmFailed" | "snd r = ArmElapsed" | before where "snd r = ArmWaiting (ArmedFor g target before)"
    using res by blast
  then show "task_good ?t1 (armed_result elapsed r t)"
  proof cases
    case 1
    have "task_good ?t1 (clock_failed (?t1\<lparr>tk_armed := Disarmed\<rparr>))"
      by (rule task_good_armed, rule clock_failed_good) (use o in simp)
    then show ?thesis by (simp add: armed_result_def Let_def 1)
  next
    case 2
    have "task_good ?t1 (elapsed (?t1\<lparr>tk_armed := Disarmed\<rparr>))"
      by (rule task_good_armed, rule el) (use o in simp_all)
    then show ?thesis by (simp add: armed_result_def Let_def 2)
  next
    case 3
    then show ?thesis using o g
      by (auto simp: armed_result_def Let_def task_good_def task_open_def task_inv_def signal_cases)
  qed
qed

lemma request_good:
  assumes o: "task_open t" and c: "tk_cancellation t = None"
  shows "task_good t (request_cancellation ra ok kind t)"
proof -
  let ?c = "\<lparr>ca_kind = kind, ca_at = dt_last (tk_timer t)\<rparr>"
  let ?t1 = "t\<lparr>tk_cancellation := Some ?c, tk_armed := Disarmed, tk_listening := False\<rparr>"
  have o1: "task_open ?t1" using o c by (simp add: task_open_def)
  have first: "request_cancellation ra ok kind t = then_do (?t1, [AbortController])
      (\<lambda>t2. if tk_grace t2 = 0 then finish_task t2 else arm_grace ra ok t2)"
    using o c by (simp add: request_cancellation_def cancel_with_def Let_def task_open_def then_do_def)
  have "task_good ?t1 (arm_grace ra ok ?t1)"
    unfolding arm_grace_def
    by (rule armed_result_good [OF o1, where g = True and target = "dt_last (tk_timer ?t1) + tk_grace ?t1"])
      (use arm_schedule_cases [of "tk_timer ?t1" True "dt_last (tk_timer ?t1) + tk_grace ?t1" ra ok] finish_good in auto)
  moreover have "task_good ?t1 (finish_task ?t1)" by (rule finish_good [OF o1]) simp
  ultimately have "task_good ?t1 (if tk_grace ?t1 = 0 then finish_task ?t1 else arm_grace ra ok ?t1)" by simp
  moreover have "task_live t x" if "task_live ?t1 x" for x
    using that o c by (cases x) (auto simp: task_open_def)
  ultimately show ?thesis unfolding first using o c
    by (cases "if tk_grace ?t1 = 0 then finish_task ?t1 else arm_grace ra ok ?t1")
      (auto simp: then_do_def task_good_def signal_cases task_open_def split: if_splits)
qed

text \<open>Composition with a quiet first part.\<close>

lemma then_do_simps [simp]: "then_do (t, []) f = f t"
  by (simp add: then_do_def)

lemma task_open_inv: "task_inv t \<Longrightarrow> \<not> tk_finished t \<Longrightarrow> task_open t"
  by (auto simp: task_inv_def task_open_def)

lemma task_same: "task_inv t \<Longrightarrow> task_good t (t, [])"
  by (simp add: task_good_def)

lemma task_timer_inv [simp]: "task_inv (t\<lparr>tk_timer := tm\<rparr>) = task_inv t"
  by (simp add: task_inv_def)

lemma task_good_out: "task_good t r \<Longrightarrow> task_signals x = [] \<Longrightarrow> out_ok (tk_deadline t) x \<Longrightarrow>
    task_good t (fst r, snd r @ [x])"
  by (simp add: task_good_def)

text \<open>A finished task only answers questions.\<close>

lemma clock_failed_over: "tk_finished t \<Longrightarrow> task_inv t \<Longrightarrow> task_good t (clock_failed t)"
  by (auto simp: task_good_def task_defs task_inv_def signal_cases)

lemma request_over: "task_inv t \<Longrightarrow> tk_cancellation t \<noteq> None \<or> tk_settlement t \<noteq> None \<Longrightarrow>
    request_cancellation ra ok kind t = (t, [])"
  by (auto simp: request_cancellation_def cancel_with_def)

lemma request_inv_good: "task_inv t \<Longrightarrow> task_good t (request_cancellation ra ok kind t)"
proof (cases "tk_cancellation t \<noteq> None \<or> tk_settlement t \<noteq> None")
  case False
  assume inv: "task_inv t"
  with False have "task_open t" by (auto simp: task_inv_def task_open_def)
  with False request_good show ?thesis by blast
qed (simp add: request_over task_same)

lemma clock_failed_inv_good: "task_inv t \<Longrightarrow> task_good t (clock_failed t)"
  using clock_failed_good clock_failed_over task_open_inv by blast

lemma sample_cases:
  assumes "task_inv t"
  shows "\<exists>tm. dt_last (tk_timer t) \<le> dt_last tm \<and>
    (sample r t = ((t\<lparr>tk_timer := tm\<rparr>, []), Some (dt_last tm))
     \<or> sample r t = (clock_failed (t\<lparr>tk_timer := tm\<rparr>), None) \<and> task_good t (clock_failed (t\<lparr>tk_timer := tm\<rparr>)))"
proof -
  consider "timer_read r (tk_timer t) = ((tk_timer t)\<lparr>dt_failed := True\<rparr>, None)"
    | now where "timer_read r (tk_timer t) = ((tk_timer t)\<lparr>dt_last := now\<rparr>, Some now)" "dt_last (tk_timer t) \<le> now"
    using timer_read_cases by blast
  then show ?thesis
  proof cases
    case 1
    let ?tm = "(tk_timer t)\<lparr>dt_failed := True\<rparr>"
    have "task_good t (clock_failed (t\<lparr>tk_timer := ?tm\<rparr>))"
      by (rule task_good_timer [where tm = ?tm]) (use assms clock_failed_inv_good in simp_all)
    then show ?thesis using 1 by (intro exI [of _ ?tm]) (simp add: sample_def)
  next
    case 2
    then show ?thesis by (intro exI [of _ "(tk_timer t)\<lparr>dt_last := now\<rparr>"]) (simp add: sample_def)
  qed
qed

text \<open>After a failed reading a further request changes nothing.\<close>

lemma clock_failed_over_now: "task_inv t \<Longrightarrow>
    tk_cancellation (fst (clock_failed t)) \<noteq> None \<or> tk_settlement (fst (clock_failed t)) \<noteq> None"
  by (auto simp: task_defs task_inv_def)

lemma sampled_request_good:
  assumes "task_inv t"
  shows "task_good t (then_do (fst (sample r t)) (request_cancellation ra ok kind))"
proof -
  obtain tm where tm: "dt_last (tk_timer t) \<le> dt_last tm"
    and "sample r t = ((t\<lparr>tk_timer := tm\<rparr>, []), Some (dt_last tm))
     \<or> sample r t = (clock_failed (t\<lparr>tk_timer := tm\<rparr>), None) \<and> task_good t (clock_failed (t\<lparr>tk_timer := tm\<rparr>))"
    using sample_cases [OF assms] by blast
  then consider "sample r t = ((t\<lparr>tk_timer := tm\<rparr>, []), Some (dt_last tm))"
    | "sample r t = (clock_failed (t\<lparr>tk_timer := tm\<rparr>), None)" "task_good t (clock_failed (t\<lparr>tk_timer := tm\<rparr>))" by blast
  then show ?thesis
  proof cases
    case 1
    then show ?thesis using task_good_timer [OF tm request_inv_good] assms by simp
  next
    case 2
    obtain t1 o1 where cf: "clock_failed (t\<lparr>tk_timer := tm\<rparr>) = (t1, o1)" by fastforce
    have "request_cancellation ra ok kind t1 = (t1, [])"
      using clock_failed_over_now [of "t\<lparr>tk_timer := tm\<rparr>"] assms cf
      by (auto simp: request_cancellation_def cancel_with_def)
    then show ?thesis using 2 cf by (simp add: then_do_def)
  qed
qed


lemma then_do_some: "then_do (t, out) f = (fst (f t), out @ snd (f t))"
  by (simp add: then_do_def split_beta)

lemma task_good_answer:
  assumes "task_good t r" and "\<And>t2. task_signals (f t2) = [] \<and> out_ok (tk_deadline t) (f t2)"
  shows "task_good t (then_do r (\<lambda>t2. (t2, [f t2])))"
  using task_good_out [OF assms(1), of "f (fst r)"] assms(2) by (simp add: then_do_def split_beta)

lemma remaining_good: "task_inv t \<Longrightarrow> task_good t (remaining_ms r ra ok t)"
proof -
  assume inv: "task_inv t"
  obtain tm where tm: "dt_last (tk_timer t) \<le> dt_last tm"
    and "sample r t = ((t\<lparr>tk_timer := tm\<rparr>, []), Some (dt_last tm))
     \<or> sample r t = (clock_failed (t\<lparr>tk_timer := tm\<rparr>), None) \<and> task_good t (clock_failed (t\<lparr>tk_timer := tm\<rparr>))"
    using sample_cases [OF inv] by blast
  then consider "sample r t = ((t\<lparr>tk_timer := tm\<rparr>, []), Some (dt_last tm))"
    | "sample r t = (clock_failed (t\<lparr>tk_timer := tm\<rparr>), None)" "task_good t (clock_failed (t\<lparr>tk_timer := tm\<rparr>))" by blast
  then show ?thesis
  proof cases
    case 1
    let ?t = "t\<lparr>tk_timer := tm\<rparr>"
    have "task_good ?t (if dt_last tm \<ge> tk_deadline ?t then request_cancellation ra ok CkDeadline ?t else (?t, []))"
      using inv by (simp add: request_inv_good task_same)
    then have "task_good ?t (remaining_ms r ra ok t)"
      by (simp add: remaining_ms_def 1 task_good_answer split del: if_split)
    then show ?thesis by (rule task_good_timer [OF tm])
  next
    case 2
    then show ?thesis
      using task_good_out [OF 2(2), of ContextThrows]
      by (cases "clock_failed (t\<lparr>tk_timer := tm\<rparr>)") (simp add: remaining_ms_def then_do_some)
  qed
qed

lemma acknowledge_good: "task_inv t \<Longrightarrow> task_good t (acknowledge t)"
  by (auto simp: task_good_def acknowledge_def task_inv_def signal_cases)

text \<open>The settlement of the promise, by what its clock reading says.\<close>

lemma complete_good:
  assumes inv: "task_inv t" and st: "status \<noteq> TaskNotStarted" "tk_started t"
  shows "task_good t (complete status r t)"
proof (cases "tk_settlement t")
  case (Some s)
  then show ?thesis using inv by (simp add: complete_def task_same)
next
  case None
  consider "timer_read r (tk_timer t) = ((tk_timer t)\<lparr>dt_failed := True\<rparr>, None)"
    | now where "timer_read r (tk_timer t) = ((tk_timer t)\<lparr>dt_last := now\<rparr>, Some now)" "dt_last (tk_timer t) \<le> now"
    using timer_read_cases by blast
  then show ?thesis
  proof cases
    case 1
    show ?thesis using inv st None
      by (cases "tk_finished t"; cases "tk_cancellation t")
        (auto simp: 1 complete_def task_good_def task_defs task_inv_def outcome_ok_def outcome_of_def settle_ok_def
          task_status_of_def stop_status_of_def signal_cases split: option.split cancel_kind.split)
  next
    case 2
    show ?thesis using inv st None 2(2)
      by (cases "tk_finished t"; cases "tk_cancellation t"; cases "tk_deadline t \<le> now")
        (auto simp: 2(1) complete_def task_good_def task_defs task_inv_def outcome_ok_def outcome_of_def settle_ok_def
          task_status_of_def stop_status_of_def signal_cases split: option.split cancel_kind.split)
  qed
qed

lemma timer_fired_good:
  assumes inv: "task_inv t" shows "task_good t (timer_fired r r2 ok ra ok2 t)"
proof (cases "tk_armed t")
  case Disarmed
  then show ?thesis using inv by (simp add: timer_fired_def task_same)
next
  case (ArmedFor g target before)
  have o: "task_open t" by (rule task_open_inv [OF inv]) (use inv ArmedFor in \<open>auto simp: task_inv_def\<close>)
  have g: "g = (tk_cancellation t \<noteq> None)" "\<not> g \<Longrightarrow> target = tk_deadline t"
    using inv o ArmedFor by (auto simp: task_inv_def task_open_def)
  have "task_good t (armed_result (if g then finish_task else request_cancellation ra ok2 CkDeadline)
      (arm_fired g target before r r2 ok (tk_timer t)) t)"
  proof (rule armed_result_good [OF o, where g = g and target = target])
    show "dt_last (tk_timer t) \<le> dt_last (fst (arm_fired g target before r r2 ok (tk_timer t)))"
      using arm_fired_cases [of "tk_timer t" g target before r r2 ok] by auto
    show "snd (arm_fired g target before r r2 ok (tk_timer t)) = ArmFailed \<or>
        snd (arm_fired g target before r r2 ok (tk_timer t)) = ArmElapsed \<or>
        (\<exists>b. snd (arm_fired g target before r r2 ok (tk_timer t)) = ArmWaiting (ArmedFor g target b))"
      using arm_fired_cases [of "tk_timer t" g target before r r2 ok] by auto
    show "g = (tk_cancellation t \<noteq> None)" by (rule g(1))
    show "\<not> g \<Longrightarrow> target = tk_deadline t" by (rule g(2))
    show "task_good t' ((if g then finish_task else request_cancellation ra ok2 CkDeadline) t')"
      if "task_open t'" "tk_cancellation t' = tk_cancellation t" for t'
      using that g(1) finish_good request_good by auto
  qed
  then show ?thesis by (simp add: timer_fired_def ArmedFor)
qed

lemma task_step_good: "task_inv t \<Longrightarrow> task_good t (task_step t e)"
  by (cases e) (auto simp: task_same complete_good remaining_good acknowledge_good cancel_task_def
      external_abort_def sampled_request_good timer_fired_good)

interpretation task_once: once_only task_step task_inv task_live task_signals
  by unfold_locales
    (use task_step_good in \<open>auto simp: task_good_def tsignals_def [symmetric] simp del: task_live.simps\<close>)


section \<open>A task from its start\<close>

definition run_task :: "rat option \<Rightarrow> rat option \<Rightarrow> bool option \<Rightarrow> reading \<Rightarrow> reading \<Rightarrow> bool \<Rightarrow> task_event list \<Rightarrow> tasked option" where
  "run_task timeout grace sig r0 r ok es = (case start_task timeout grace sig r0 r ok of
     None \<Rightarrow> None | Some res \<Rightarrow> Some (then_do res (\<lambda>t. run_steps task_step t es)))"

definition task_begun :: "tasked \<Rightarrow> bool" where
  "task_begun r = (task_inv (fst r) \<and> distinct (tsignals (snd r))
     \<and> (\<forall>x \<in> set (tsignals (snd r)). \<not> task_live (fst r) x)
     \<and> list_all (out_ok (tk_deadline (fst r))) (snd r))"

lemma start_task_begun:
  assumes "start_task timeout grace sig r0 r ok = Some res"
  shows "task_begun res"
proof -
  obtain g d now where eq: "deadline_duration grace = Some g" "deadline_duration timeout = Some d" "r0 = Some now"
    using assms by (auto simp: start_task_def split: option.splits)
  let ?tm = "tk_timer (fresh_task now d g)"
  consider "timer_read r ?tm = (?tm\<lparr>dt_failed := True\<rparr>, None)"
    | n where "timer_read r ?tm = (?tm\<lparr>dt_last := n\<rparr>, Some n)" "dt_last ?tm \<le> n"
    using timer_read_cases by blast
  then show ?thesis
  proof cases
    case 1
    then show ?thesis using assms
      by (cases "sig = Some True")
        (auto simp: eq start_task_def fresh_task_def external_abort_def task_defs arm_schedule_def task_begun_def
          task_inv_def outcome_ok_def outcome_of_def settle_ok_def task_status_of_def stop_status_of_def)
  next
    case 2
    then show ?thesis using assms
      by (cases "sig = Some True"; cases ok; cases "now + d \<le> n")
        (auto simp: eq start_task_def fresh_task_def external_abort_def task_defs arm_schedule_def task_begun_def
          task_inv_def outcome_ok_def outcome_of_def settle_ok_def task_status_of_def stop_status_of_def
          split: if_splits)
  qed
qed

lemma task_run_out_ok: "task_inv t \<Longrightarrow> list_all (out_ok (tk_deadline t)) (snd (run_steps task_step t es))
    \<and> tk_deadline (fst (run_steps task_step t es)) = tk_deadline t"
proof (induction es arbitrary: t)
  case Nil
  then show ?case by simp
next
  case (Cons e es)
  have "task_good t (task_step t e)" using Cons.prems by (rule task_step_good)
  with Cons.IH [of "fst (task_step t e)"] show ?case
    by (auto simp: task_good_def Let_def split_beta)
qed

lemma run_task_begun:
  assumes "run_task timeout grace sig r0 r ok es = Some res"
  shows "task_begun res"
proof -
  obtain t0 out0 where st: "start_task timeout grace sig r0 r ok = Some (t0, out0)"
    and res: "res = then_do (t0, out0) (\<lambda>t. run_steps task_step t es)"
    using assms by (auto simp: run_task_def split: option.splits)
  have b: "task_begun (t0, out0)" using start_task_begun [OF st] .
  then have inv: "task_inv t0" by (simp add: task_begun_def)
  have live: "\<forall>x \<in> set (tsignals (snd (run_steps task_step t0 es))). task_live t0 x"
    "distinct (tsignals (snd (run_steps task_step t0 es)))"
    using task_once.run_once [OF inv, of es] by (simp_all add: tsignals_def)
  have dead: "\<not> task_live (fst (run_steps task_step t0 es)) x" if "x \<in> set (tsignals out0)" for x
    using b that by (simp add: task_begun_def task_once.run_dead [OF inv])
  have dead': "\<not> task_live (fst (run_steps task_step t0 es)) x"
    if "x \<in> set (tsignals (snd (run_steps task_step t0 es)))" for x
    using that task_once.run_emitted_dead [OF inv, of x es] by (simp add: tsignals_def)
  show ?thesis
    using b live dead dead' task_once.run_inv [OF inv] task_run_out_ok [OF inv, of es]
    unfolding res then_do_some task_begun_def by auto
qed

lemma run_task_fixed:
  assumes "task_inv t"
  shows "(\<forall>c. tk_cancellation t = Some c \<longrightarrow> tk_cancellation (fst (run_steps task_step t es)) = Some c)
    \<and> (\<forall>s. tk_settlement t = Some s \<longrightarrow> tk_settlement (fst (run_steps task_step t es)) = Some s)"
  using assms
proof (induction es arbitrary: t)
  case Nil
  then show ?case by simp
next
  case (Cons e es)
  have "task_good t (task_step t e)" using Cons.prems by (rule task_step_good)
  with Cons.IH [of "fst (task_step t e)"] show ?case
    by (auto simp: task_good_def Let_def split_beta)
qed

end
