(* ===== verification/SafeData.thy ===== *)
theory SafeData
  imports NativeSchemaProps
begin

text \<open>
  Bounded copies of untrusted data: \<open>packages/service/src/safe-data.ts\<close>. \<open>cloneSafeData\<close> copies a
  JSON-like tree through its own property descriptors, within budgets of depth, nodes, string bytes
  and collection entries. Values are trees here, so the rejection of shared references and of proxies
  has no counterpart.
\<close>

section \<open>Limits and errors\<close>

definition sd_maxDepth :: nat where "sd_maxDepth = 64"
definition sd_maxNodes :: nat where "sd_maxNodes = 10000"
definition sd_maxStringBytes :: nat where "sd_maxStringBytes = 1048576"
definition sd_maxCollectionEntries :: nat where "sd_maxCollectionEntries = 1024"

lemmas sd_limits = sd_maxDepth_def sd_maxNodes_def sd_maxStringBytes_def sd_maxCollectionEntries_def

datatype sd_code = SdAccessor | SdBudget | SdInvalidNumber | SdUnsupportedData

section \<open>Descriptors\<close>

fun assertDataDescriptor :: "jsprop \<Rightarrow> sd_code + jsv" where
  "assertDataDescriptor AccProp = Inl SdAccessor"
| "assertDataDescriptor (DataProp e v) = (if e then Inr v else Inl SdUnsupportedData)"

definition slot_data :: "jsprop option \<Rightarrow> sd_code + jsv" where
  "slot_data s = (case s of None \<Rightarrow> Inl SdUnsupportedData | Some d \<Rightarrow> assertDataDescriptor d)"

definition copyArrayDescriptors :: "nat \<Rightarrow> jsprop option list \<Rightarrow> pkey list \<Rightarrow> sd_code + jsv list" where
  "copyArrayDescriptors maxItems ps ks =
     (if length ps > maxItems then Inl SdBudget
      else if length (filter (\<lambda>s. s \<noteq> None) ps) + length ks \<noteq> length ps then Inl SdUnsupportedData
      else rmap slot_data ps)"

fun symbol_prop :: "pkey \<times> jsprop \<Rightarrow> bool" where
  "symbol_prop (SymKey _, _) = True"
| "symbol_prop (StrKey _, _) = False"

fun prop_data :: "pkey \<times> jsprop \<Rightarrow> sd_code + string \<times> jsv" where
  "prop_data (SymKey _, _) = Inl SdUnsupportedData"
| "prop_data (StrKey k, d) = rbind (assertDataDescriptor d) (\<lambda>v. Inr (k, v))"

definition copyRecordDescriptors :: "nat \<Rightarrow> (pkey \<times> jsprop) list \<Rightarrow> sd_code + fields" where
  "copyRecordDescriptors maxFields ps =
     (if length ps > maxFields then Inl SdBudget
      else if list_ex symbol_prop ps then Inl SdUnsupportedData
      else rmap prop_data ps)"

definition readSafeRecordEnvelope :: "jsv \<Rightarrow> sd_code + fields" where
  "readSafeRecordEnvelope v = (case v of
     VObj p ps \<Rightarrow> if p = OtherProto then Inl SdUnsupportedData
       else copyRecordDescriptors sd_maxCollectionEntries ps
   | _ \<Rightarrow> Inl SdUnsupportedData)"

definition readSafeArrayEnvelope :: "nat \<Rightarrow> jsv \<Rightarrow> sd_code + jsv list" where
  "readSafeArrayEnvelope maxItems v = (case v of
     VArr _ ps ks \<Rightarrow> copyArrayDescriptors maxItems ps ks
   | _ \<Rightarrow> Inl SdUnsupportedData)"

section \<open>The copy\<close>

text \<open>\<open>CloneState\<close>: the nodes and the string bytes spent so far.\<close>

record clone_state =
  cn_nodes :: nat
  cn_stringBytes :: nat

definition spendNode :: "clone_state \<Rightarrow> sd_code + clone_state" where
  "spendNode st = (if cn_nodes st + 1 > sd_maxNodes then Inl SdBudget else Inr (st\<lparr>cn_nodes := cn_nodes st + 1\<rparr>))"

definition spendString :: "string \<Rightarrow> clone_state \<Rightarrow> sd_code + clone_state" where
  "spendString s st = (let b = cn_stringBytes st + utf8_length s in
     if b > sd_maxStringBytes then Inl SdBudget else Inr (st\<lparr>cn_stringBytes := b\<rparr>))"

text \<open>
  Every value costs a node and is within the depth first. The descriptors of an array or record are
  all read before its first item is copied.
\<close>

definition enter :: "nat \<Rightarrow> clone_state \<Rightarrow> sd_code + clone_state" where
  "enter depth st = rbind (spendNode st) (\<lambda>st1. if depth > sd_maxDepth then Inl SdBudget else Inr st1)"

fun clone :: "nat \<Rightarrow> clone_state \<Rightarrow> jsv \<Rightarrow> sd_code + json \<times> clone_state"
  and clone_items :: "nat \<Rightarrow> clone_state \<Rightarrow> jsprop option list \<Rightarrow> sd_code + json list \<times> clone_state"
  and clone_fields :: "nat \<Rightarrow> clone_state \<Rightarrow> (pkey \<times> jsprop) list \<Rightarrow> sd_code + (string \<times> json) list \<times> clone_state" where
  "clone depth st VNull = rbind (enter depth st) (\<lambda>s. Inr (JNull, s))"
| "clone depth st (VBool b) = rbind (enter depth st) (\<lambda>s. Inr (JBool b, s))"
| "clone depth st (VStr t) = rbind (enter depth st) (\<lambda>s. rbind (spendString t s) (\<lambda>s2. Inr (JStr t, s2)))"
| "clone depth st (VNum x) = rbind (enter depth st) (\<lambda>s. case x of Fin q \<Rightarrow> Inr (JNum q, s) | _ \<Rightarrow> Inl SdInvalidNumber)"
| "clone depth st VUndefined = rbind (enter depth st) (\<lambda>_. Inl SdUnsupportedData)"
| "clone depth st (VSym _) = rbind (enter depth st) (\<lambda>_. Inl SdUnsupportedData)"
| "clone depth st (VFun _) = rbind (enter depth st) (\<lambda>_. Inl SdUnsupportedData)"
| "clone depth st (VArr b ps ks) = rbind (enter depth st) (\<lambda>s.
     rbind (copyArrayDescriptors sd_maxCollectionEntries ps ks) (\<lambda>_.
     rbind (clone_items (Suc depth) s ps) (\<lambda>(js, s2). Inr (JArr js, s2))))"
| "clone depth st (VObj p ps) = rbind (enter depth st) (\<lambda>s.
     if p = OtherProto then Inl SdUnsupportedData else
     rbind (copyRecordDescriptors sd_maxCollectionEntries ps) (\<lambda>_.
     rbind (clone_fields (Suc depth) s ps) (\<lambda>(fs, s2). Inr (JObj fs, s2))))"
| "clone_items depth st [] = Inr ([], st)"
| "clone_items depth st (None # ps) = Inl SdUnsupportedData"
| "clone_items depth st (Some AccProp # ps) = Inl SdAccessor"
| "clone_items depth st (Some (DataProp e v) # ps) =
     rbind (clone depth st v) (\<lambda>(j, s1).
     rbind (clone_items depth s1 ps) (\<lambda>(js, s2). Inr (j # js, s2)))"
| "clone_fields depth st [] = Inr ([], st)"
| "clone_fields depth st ((SymKey _, _) # ps) = Inl SdUnsupportedData"
| "clone_fields depth st ((StrKey k, AccProp) # ps) = Inl SdAccessor"
| "clone_fields depth st ((StrKey k, DataProp e v) # ps) =
     rbind (spendString k st) (\<lambda>s0.
     rbind (clone depth s0 v) (\<lambda>(j, s1).
     rbind (clone_fields depth s1 ps) (\<lambda>(fs, s2). Inr ((k, j) # fs, s2))))"

definition cloneSafeData :: "jsv \<Rightarrow> sd_code + json" where
  "cloneSafeData v = rbind (clone 0 \<lparr>cn_nodes = 0, cn_stringBytes = 0\<rparr> v) (\<lambda>(j, _). Inr j)"

section \<open>What is copied\<close>

fun json_nodes :: "json \<Rightarrow> nat" where
  "json_nodes (JArr js) = Suc (sum_list (map json_nodes js))"
| "json_nodes (JObj fs) = Suc (sum_list (map (\<lambda>f. json_nodes (snd f)) fs))"
| "json_nodes _ = 1"

fun json_bytes :: "json \<Rightarrow> nat" where
  "json_bytes (JStr s) = utf8_length s"
| "json_bytes (JArr js) = sum_list (map json_bytes js)"
| "json_bytes (JObj fs) = sum_list (map (\<lambda>f. utf8_length (fst f) + json_bytes (snd f)) fs)"
| "json_bytes _ = 0"

fun safe_shape :: "nat \<Rightarrow> json \<Rightarrow> bool" where
  "safe_shape depth (JArr js) = (depth \<le> sd_maxDepth \<and> length js \<le> sd_maxCollectionEntries
     \<and> list_all (safe_shape (Suc depth)) js)"
| "safe_shape depth (JObj fs) = (depth \<le> sd_maxDepth \<and> length fs \<le> sd_maxCollectionEntries
     \<and> list_all (\<lambda>f. safe_shape (Suc depth) (snd f)) fs)"
| "safe_shape depth _ = (depth \<le> sd_maxDepth)"

definition within_budget :: "json \<Rightarrow> bool" where
  "within_budget j = (safe_shape 0 j \<and> json_nodes j \<le> sd_maxNodes \<and> json_bytes j \<le> sd_maxStringBytes)"

definition spent :: "nat \<Rightarrow> nat \<Rightarrow> clone_state \<Rightarrow> clone_state" where
  "spent n b st = st\<lparr>cn_nodes := cn_nodes st + n, cn_stringBytes := cn_stringBytes st + b\<rparr>"

definition affords :: "clone_state \<Rightarrow> nat \<Rightarrow> nat \<Rightarrow> bool" where
  "affords st n b = (cn_nodes st + n \<le> sd_maxNodes \<and> cn_stringBytes st + b \<le> sd_maxStringBytes)"

lemma spent_spent: "spent n b (spent m c st) = spent (m + n) (c + b) st"
  by (simp add: spent_def)

lemma spent_0 [simp]: "spent 0 0 st = st"
  by (simp add: spent_def)

lemma affords_spent: "affords (spent m c st) n b \<longleftrightarrow> affords st (m + n) (c + b)"
  by (simp add: affords_def spent_def add.assoc)

lemma affords_mono: "affords st n b \<Longrightarrow> m \<le> n \<Longrightarrow> c \<le> b \<Longrightarrow> affords st m c"
  by (simp add: affords_def)

text \<open>The two ways to spend; reaching a result means it was affordable.\<close>

lemma enter_Inr: "enter depth st = Inr s \<longleftrightarrow> cn_nodes st + 1 \<le> sd_maxNodes \<and> depth \<le> sd_maxDepth \<and> s = spent 1 0 st"
  by (auto simp: enter_def spendNode_def spent_def)

lemma spendString_Inr: "spendString t st = Inr s \<longleftrightarrow>
    cn_stringBytes st + utf8_length t \<le> sd_maxStringBytes \<and> s = spent 0 (utf8_length t) st"
  by (auto simp: spendString_def spent_def Let_def)

lemma copy_array_arr: "length vs \<le> n \<Longrightarrow> copyArrayDescriptors n (map (\<lambda>v. Some (DataProp True v)) vs) [] = Inr vs"
  by (auto simp: copyArrayDescriptors_def slot_data_def comp_def intro: rmap_map_Inr)

lemma copy_record_obj:
  "length r \<le> n \<Longrightarrow> copyRecordDescriptors n (map (\<lambda>(k, v). (StrKey k, DataProp True v)) r) = Inr r"
proof -
  have "\<not> list_ex symbol_prop (map (\<lambda>(k, v). (StrKey k, DataProp True v)) r)" by (induction r) auto
  moreover have "rmap prop_data (map (\<lambda>(k, v). (StrKey k, DataProp True v)) r) = Inr r" by (induction r) auto
  ultimately show "length r \<le> n \<Longrightarrow> ?thesis" by (simp add: copyRecordDescriptors_def)
qed


lemma clone_embed_items:
  "(\<And>j st. j \<in> set js \<Longrightarrow> safe_shape d j \<Longrightarrow> affords st (json_nodes j) (json_bytes j) \<Longrightarrow>
      clone d st (json_value j) = Inr (j, spent (json_nodes j) (json_bytes j) st)) \<Longrightarrow>
   list_all (safe_shape d) js \<Longrightarrow> affords st (sum_list (map json_nodes js)) (sum_list (map json_bytes js)) \<Longrightarrow>
   clone_items d st (map (\<lambda>v. Some (DataProp True v)) (map json_value js))
     = Inr (js, spent (sum_list (map json_nodes js)) (sum_list (map json_bytes js)) st)"
proof (induction js arbitrary: st)
  case (Cons j js)
  have "clone d st (json_value j) = Inr (j, spent (json_nodes j) (json_bytes j) st)"
    by (rule Cons.prems(1)) (use Cons.prems in \<open>auto elim: affords_mono\<close>)
  moreover have "clone_items d (spent (json_nodes j) (json_bytes j) st) (map (\<lambda>v. Some (DataProp True v)) (map json_value js))
      = Inr (js, spent (sum_list (map json_nodes js)) (sum_list (map json_bytes js)) (spent (json_nodes j) (json_bytes j) st))"
    by (rule Cons.IH) (use Cons.prems in \<open>auto simp: affords_spent\<close>)
  ultimately show ?case by (simp add: spent_spent)
qed simp

lemma clone_embed_fields:
  "(\<And>f st. f \<in> set fs \<Longrightarrow> safe_shape d (snd f) \<Longrightarrow> affords st (json_nodes (snd f)) (json_bytes (snd f)) \<Longrightarrow>
      clone d st (json_value (snd f)) = Inr (snd f, spent (json_nodes (snd f)) (json_bytes (snd f)) st)) \<Longrightarrow>
   list_all (\<lambda>f. safe_shape d (snd f)) fs \<Longrightarrow>
   affords st (sum_list (map (\<lambda>f. json_nodes (snd f)) fs)) (sum_list (map (\<lambda>f. utf8_length (fst f) + json_bytes (snd f)) fs)) \<Longrightarrow>
   clone_fields d st (map (\<lambda>(k, v). (StrKey k, DataProp True v)) (map (\<lambda>(k, j). (k, json_value j)) fs))
     = Inr (fs, spent (sum_list (map (\<lambda>f. json_nodes (snd f)) fs))
         (sum_list (map (\<lambda>f. utf8_length (fst f) + json_bytes (snd f)) fs)) st)"
proof (induction fs arbitrary: st)
  case (Cons f fs)
  obtain k j where f: "f = (k, j)" by (cases f)
  let ?s0 = "spent 0 (utf8_length k) st"
  have key: "spendString k st = Inr ?s0"
    using Cons.prems(3) by (simp add: spendString_Inr affords_def f)
  have "affords ?s0 (json_nodes j) (json_bytes j)" using Cons.prems(3) by (simp add: f affords_def spent_def)
  then have "clone d ?s0 (json_value j) = Inr (j, spent (json_nodes j) (json_bytes j) ?s0)"
    using Cons.prems(1) [of f ?s0] Cons.prems(2) by (simp add: f)
  moreover have "clone_fields d (spent (json_nodes j) (json_bytes j) ?s0)
      (map (\<lambda>(k, v). (StrKey k, DataProp True v)) (map (\<lambda>(k, j). (k, json_value j)) fs))
      = Inr (fs, spent (sum_list (map (\<lambda>f. json_nodes (snd f)) fs))
         (sum_list (map (\<lambda>f. utf8_length (fst f) + json_bytes (snd f)) fs)) (spent (json_nodes j) (json_bytes j) ?s0))"
    by (rule Cons.IH) (use Cons.prems f in \<open>auto simp: affords_spent add.assoc\<close>)
  ultimately show ?case using key by (simp add: f spent_spent add.assoc)
qed simp

lemma json_nodes_pos: "0 < json_nodes j"
  by (cases j) auto

lemma clone_embed:
  "safe_shape d j \<Longrightarrow> affords st (json_nodes j) (json_bytes j) \<Longrightarrow>
   clone d st (json_value j) = Inr (j, spent (json_nodes j) (json_bytes j) st)"
proof (induction j arbitrary: d st)
  case (JArr js)
  have "enter d st = Inr (spent 1 0 st)" using JArr.prems by (simp add: enter_Inr affords_def)
  moreover have "clone_items (Suc d) (spent 1 0 st) (map (\<lambda>v. Some (DataProp True v)) (map json_value js))
      = Inr (js, spent (sum_list (map json_nodes js)) (sum_list (map json_bytes js)) (spent 1 0 st))"
    by (rule clone_embed_items) (use JArr in \<open>auto simp: affords_spent\<close>)
  moreover have "copyArrayDescriptors sd_maxCollectionEntries (map (\<lambda>v. Some (DataProp True v)) (map json_value js)) []
      = Inr (map json_value js)"
    by (rule copy_array_arr) (use JArr.prems in simp)
  ultimately show ?case by (simp add: arr_def spent_spent)
next
  case (JObj fs)
  have "enter d st = Inr (spent 1 0 st)" using JObj.prems by (simp add: enter_Inr affords_def)
  moreover have "clone_fields (Suc d) (spent 1 0 st)
      (map (\<lambda>(k, v). (StrKey k, DataProp True v)) (map (\<lambda>(k, j). (k, json_value j)) fs))
      = Inr (fs, spent (sum_list (map (\<lambda>f. json_nodes (snd f)) fs))
         (sum_list (map (\<lambda>f. utf8_length (fst f) + json_bytes (snd f)) fs)) (spent 1 0 st))"
  proof (rule clone_embed_fields)
    fix f st' assume f: "f \<in> set fs" "safe_shape (Suc d) (snd f)" "affords st' (json_nodes (snd f)) (json_bytes (snd f))"
    have "snd f \<in> Basic_BNFs.snds f" by (cases f) simp
    from JObj.IH [OF f(1) this f(2,3)]
    show "clone (Suc d) st' (json_value (snd f)) = Inr (snd f, spent (json_nodes (snd f)) (json_bytes (snd f)) st')" .
  qed (use JObj.prems in \<open>auto simp: affords_spent\<close>)
  moreover have "copyRecordDescriptors sd_maxCollectionEntries
      (map (\<lambda>(k, v). (StrKey k, DataProp True v)) (map (\<lambda>(k, j). (k, json_value j)) fs)) = Inr (map (\<lambda>(k, j). (k, json_value j)) fs)"
    by (rule copy_record_obj) (use JObj.prems in simp)
  ultimately show ?case by (simp add: obj_def spent_spent)
qed (auto simp: enter_Inr spendString_Inr affords_def spent_def enter_def spendNode_def spendString_def Let_def)

definition cloned :: "nat \<Rightarrow> clone_state \<Rightarrow> json \<Rightarrow> clone_state \<Rightarrow> bool" where
  "cloned d st j st' = (st' = spent (json_nodes j) (json_bytes j) st \<and> safe_shape d j
     \<and> cn_nodes st' \<le> sd_maxNodes \<and> (cn_stringBytes st \<le> sd_maxStringBytes \<longrightarrow> cn_stringBytes st' \<le> sd_maxStringBytes))"

definition cloned_items :: "nat \<Rightarrow> clone_state \<Rightarrow> json list \<Rightarrow> clone_state \<Rightarrow> bool" where
  "cloned_items d st js st' = (st' = spent (sum_list (map json_nodes js)) (sum_list (map json_bytes js)) st
     \<and> list_all (safe_shape d) js \<and> (cn_nodes st \<le> sd_maxNodes \<longrightarrow> cn_nodes st' \<le> sd_maxNodes)
     \<and> (cn_stringBytes st \<le> sd_maxStringBytes \<longrightarrow> cn_stringBytes st' \<le> sd_maxStringBytes))"

definition cloned_fields :: "nat \<Rightarrow> clone_state \<Rightarrow> (string \<times> json) list \<Rightarrow> clone_state \<Rightarrow> bool" where
  "cloned_fields d st fs st' = (st' = spent (sum_list (map (\<lambda>f. json_nodes (snd f)) fs))
       (sum_list (map (\<lambda>f. utf8_length (fst f) + json_bytes (snd f)) fs)) st
     \<and> list_all (\<lambda>f. safe_shape d (snd f)) fs \<and> (cn_nodes st \<le> sd_maxNodes \<longrightarrow> cn_nodes st' \<le> sd_maxNodes)
     \<and> (cn_stringBytes st \<le> sd_maxStringBytes \<longrightarrow> cn_stringBytes st' \<le> sd_maxStringBytes))"

lemma copyArray_length: "copyArrayDescriptors n ps ks = Inr vs \<Longrightarrow> length ps \<le> n"
  by (simp add: copyArrayDescriptors_def split: if_splits)

lemma copyRecord_length: "copyRecordDescriptors n ps = Inr r \<Longrightarrow> length ps \<le> n"
  by (simp add: copyRecordDescriptors_def split: if_splits)

lemma clone_items_length: "clone_items d st ps = Inr (js, st') \<Longrightarrow> length js = length ps"
proof (induction ps arbitrary: st js st')
  case (Cons p ps)
  then show ?case by (cases p rule: option.exhaust; cases "the p") fastforce+
qed simp

lemma clone_fields_length: "clone_fields d st ps = Inr (fs, st') \<Longrightarrow> length fs = length ps"
proof (induction ps arbitrary: st fs st')
  case (Cons p ps)
  obtain k q where "p = (k, q)" by (cases p)
  with Cons show ?case by (cases k; cases q) fastforce+
qed simp

lemma clone_bounds:
  "clone d st v = Inr (j, st') \<Longrightarrow> cloned d st j st'"
  "clone_items d st ps = Inr (js, st') \<Longrightarrow> cloned_items d st js st'"
  "clone_fields d st qs = Inr (fs, st') \<Longrightarrow> cloned_fields d st fs st'"
proof (induction d st v and d st ps and d st qs arbitrary: j st' and js st' and fs st'
    rule: clone_clone_items_clone_fields.induct)
  case (4 depth st x)
  then show ?case by (auto simp: cloned_def enter_Inr spent_def split: jsnum.splits)
next
  case (8 depth st b ps ks)
  obtain s vs js where s: "enter depth st = Inr s" "copyArrayDescriptors sd_maxCollectionEntries ps ks = Inr vs"
    "clone_items (Suc depth) s ps = Inr (js, st')" and j: "j = JArr js"
    using "8.prems" by auto
  have "cloned_items (Suc depth) s js st'" by (rule "8.IH" [OF s])
  then show ?case using s(1) copyArray_length [OF s(2)] clone_items_length [OF s(3)] j
    by (auto simp: enter_Inr cloned_def cloned_items_def spent_spent) (simp_all add: spent_def)
next
  case (9 depth st p ps)
  obtain s r fs where s: "enter depth st = Inr s" "\<not> p = OtherProto" "copyRecordDescriptors sd_maxCollectionEntries ps = Inr r"
    "clone_fields (Suc depth) s ps = Inr (fs, st')" and j: "j = JObj fs"
    using "9.prems" by (auto split: if_splits)
  have "cloned_fields (Suc depth) s fs st'" by (rule "9.IH" [OF s])
  then show ?case using s(1) copyRecord_length [OF s(3)] clone_fields_length [OF s(4)] j
    by (auto simp: enter_Inr cloned_def cloned_fields_def spent_spent) (simp_all add: spent_def)
next
  case (13 depth st e v ps)
  obtain j s1 js' where s: "clone depth st v = Inr (j, s1)" "clone_items depth s1 ps = Inr (js', st')" and js: "js = j # js'"
    using "13.prems" by auto
  have "cloned depth st j s1" "cloned_items depth s1 js' st'" using "13.IH" s by blast+
  then show ?case using js by (auto simp: cloned_def cloned_items_def spent_spent)
next
  case (17 depth st k e v ps)
  obtain s0 j s1 fs' where s: "spendString k st = Inr s0" "clone depth s0 v = Inr (j, s1)"
    "clone_fields depth s1 ps = Inr (fs', st')" and fs: "fs = (k, j) # fs'"
    using "17.prems" by auto
  have "cloned depth s0 j s1" "cloned_fields depth s1 fs' st'" using "17.IH" s by blast+
  then show ?case using s(1) fs
    by (auto simp: cloned_def cloned_fields_def spendString_Inr spent_spent add.assoc) (simp_all add: spent_def)
qed (auto simp: cloned_def cloned_items_def cloned_fields_def enter_Inr spendString_Inr spent_spent; simp add: spent_def)+

interpretation vsafe: validator cloneSafeData json_value within_budget
proof
  fix v j assume "cloneSafeData v = Inr j"
  then obtain st' where "clone 0 \<lparr>cn_nodes = 0, cn_stringBytes = 0\<rparr> v = Inr (j, st')"
    by (auto simp: cloneSafeData_def)
  from clone_bounds(1) [OF this] show "within_budget j" by (auto simp: cloned_def within_budget_def spent_def)
next
  fix j assume "within_budget j"
  then show "cloneSafeData (json_value j) = Inr j"
    using clone_embed [of 0 j "\<lparr>cn_nodes = 0, cn_stringBytes = 0\<rparr>"]
    by (simp add: within_budget_def affords_def cloneSafeData_def)
qed

section \<open>The copy\<close>

lemma slots_read: "rmap slot_data ps = Inr vs \<Longrightarrow> data_items True ps = Some vs"
proof (induction ps arbitrary: vs)
  case (Cons p ps)
  then show ?case by (cases p; cases "the p") (auto simp: slot_data_def split: if_splits)
qed simp

lemma props_read: "rmap prop_data ps = Inr r \<Longrightarrow> data_fields True (\<lambda>_. True) ps = Some r"
proof (induction ps arbitrary: r)
  case (Cons p ps)
  then show ?case by (cases "fst p"; cases "snd p"; cases p) (auto split: if_splits)
qed simp

lemma clone_same:
  "clone d st v = Inr (j, st') \<Longrightarrow> same_data T v (json_value j)"
  "clone_items d st ps = Inr (js, st') \<Longrightarrow> rmap slot_data ps = Inr vs \<Longrightarrow> list_all2 (same_data T) vs (map json_value js)"
  "clone_fields d st qs = Inr (fs, st') \<Longrightarrow> rmap prop_data qs = Inr r \<Longrightarrow>
     list_all2 (\<lambda>f g. fst f = fst g \<and> same_data T (snd f) (snd g)) r (map (\<lambda>(k, j). (k, json_value j)) fs)"
proof (induction d st v and d st ps and d st qs arbitrary: j st' and js st' vs and fs st' r rule: clone_clone_items_clone_fields.induct)
  case (4 depth st x)
  then show ?case by (cases x) (auto intro: same_data.same)
next
  case (8 depth st b ps ks)
  then obtain s js where s: "enter depth st = Inr s" "clone_items (Suc depth) s ps = Inr (js, st')" "j = JArr js"
    and "\<exists>vs. copyArrayDescriptors sd_maxCollectionEntries ps ks = Inr vs" by auto
  then obtain vs where v: "copyArrayDescriptors sd_maxCollectionEntries ps ks = Inr vs" "rmap slot_data ps = Inr vs"
    by (auto simp: copyArrayDescriptors_def split: if_splits)
  from 8(1) [OF s(1) v(1) s(2) v(2)] show ?case using same_data.slots [OF slots_read [OF v(2)]] s(3) by simp
next
  case (9 depth st p ps)
  then obtain s fs where s: "enter depth st = Inr s" "p \<noteq> OtherProto" "clone_fields (Suc depth) s ps = Inr (fs, st')" "j = JObj fs"
    and "\<exists>r. copyRecordDescriptors sd_maxCollectionEntries ps = Inr r" by (auto split: if_splits)
  then obtain r where r: "copyRecordDescriptors sd_maxCollectionEntries ps = Inr r" "rmap prop_data ps = Inr r"
    by (auto simp: copyRecordDescriptors_def split: if_splits)
  note alike = same_fields [OF 9(1) [OF s(1,2) r(1) s(3) r(2)]]
  show ?case unfolding s(4) json_value.simps using alike by (intro same_data.keyed [OF s(2) props_read [OF r(2)]]) blast+
next
  case (13 depth st e v ps)
  then obtain i s1 gs where i: "clone depth st v = Inr (i, s1)" "clone_items depth s1 ps = Inr (gs, st')" "js = i # gs" by auto
  obtain us where u: "vs = v # us" "rmap slot_data ps = Inr us" using 13(4) by (auto simp: slot_data_def [of "Some (DataProp e v)"] split: if_splits)
  show ?case unfolding i(3) u(1) using 13(1) [OF i(1)] 13(2) [OF i(1) HOL.refl i(2) u(2)] by simp
next
  case (17 depth st k e v ps)
  then obtain s0 i s1 gs where i: "spendString k st = Inr s0" "clone depth s0 v = Inr (i, s1)" "clone_fields depth s1 ps = Inr (gs, st')"
    "fs = (k, i) # gs" by auto
  obtain q where u: "r = (k, v) # q" "rmap prop_data ps = Inr q" using 17(4) by (auto split: if_splits)
  show ?case unfolding i(4) u(1) using 17(1) [OF i(1,2)] 17(2) [OF i(1,2) HOL.refl i(3) u(2)] by simp
qed (auto intro: same_data.same)

lemma cloneSafeData_same: "cloneSafeData v = Inr j \<Longrightarrow> same_data T v (json_value j)"
  by (auto simp: cloneSafeData_def intro: clone_same)

lemma envelope_same: "readSafeRecordEnvelope v = Inr r \<Longrightarrow> same_data T v (obj r)"
  by (auto simp: readSafeRecordEnvelope_def copyRecordDescriptors_def same_data.same intro!: same_data.keyed dest: props_read split: jsv.splits if_splits)

end
