(* ===== verification/StoredRuns.thy ===== *)
theory StoredRuns
  imports SafeData EvidenceContext JsMap
begin

text \<open>
  The records of the durable run store: \<open>packages/service/src/stores/contracts.ts\<close>,
  \<open>stores/validation.ts\<close>, and the data of \<open>execution.ts\<close>, \<open>ids.ts\<close> and \<open>workspace.ts\<close> they hold.
  \<open>parseStoredRun\<close> reads untrusted data; \<open>stored_json\<close> is the plain data a record is written as.
\<close>

section \<open>Data\<close>

datatype run_status = RunQueued | RunPreparing | RunRunning | RunCancelling
  | RunCompleted | RunFailed | RunCancelled | RunInterrupted

datatype business_outcome = BizPassed | BizFailed | BizSkipped | BizUnsupported | BizUnknown

datatype receipt_status = ReceiptConfirmed | ReceiptUnconfirmed | ReceiptNotRequired

record cleanup_receipt =
  cu_runId :: "string option"
  cu_snapshotId :: string
  cu_status :: receipt_status
  cu_tainted :: bool
  cu_attemptedAt :: string
  cu_detail :: "string option"

record artifact =
  af_artifactId :: string
  af_runId :: string
  af_name :: string
  af_mediaType :: string
  af_sizeBytes :: int
  af_sha256 :: string

record run_error =
  xe_code :: string
  xe_message :: string
  xe_retryable :: bool

type_synonym jfields = "(string \<times> json) list"

record stored_run =
  sr_revision :: int
  sr_requestId :: string
  sr_fingerprint :: string
  sr_runId :: string
  sr_snapshot :: "string \<times> string"
  sr_testId :: string
  sr_parameters :: jfields
  sr_status :: run_status
  sr_outcome :: "business_outcome option"
  sr_artifacts :: "artifact list"
  sr_createdAt :: string
  sr_updatedAt :: string
  sr_startedAt :: "string option"
  sr_finishedAt :: "string option"
  sr_taskId :: "string option"
  sr_executionLinks :: "jfields option"
  sr_result :: "jfields option"
  sr_error :: "run_error option"
  sr_cleanup :: "cleanup_receipt option"
  sr_workspaceRelease :: "cleanup_receipt option"
  sr_tainted :: bool

datatype store_error = StoreConflict | StoreCorruption | StoreInvalid

definition run_statuses :: "(string \<times> run_status) list" where
  "run_statuses = [(''queued'', RunQueued), (''preparing'', RunPreparing), (''running'', RunRunning),
     (''cancelling'', RunCancelling), (''completed'', RunCompleted), (''failed'', RunFailed),
     (''cancelled'', RunCancelled), (''interrupted'', RunInterrupted)]"

definition run_outcomes :: "(string \<times> business_outcome) list" where
  "run_outcomes = [(''passed'', BizPassed), (''failed'', BizFailed), (''skipped'', BizSkipped),
     (''unsupported'', BizUnsupported), (''unknown'', BizUnknown)]"

definition receipt_statuses :: "(string \<times> receipt_status) list" where
  "receipt_statuses = [(''confirmed'', ReceiptConfirmed), (''unconfirmed'', ReceiptUnconfirmed),
     (''not-required'', ReceiptNotRequired)]"

text \<open>\<open>isTerminal\<close>\<close>

definition isTerminal :: "run_status \<Rightarrow> bool" where
  "isTerminal st = (st \<in> {RunCompleted, RunFailed, RunCancelled, RunInterrupted})"

section \<open>Identities\<close>

definition is_hex :: "char \<Rightarrow> bool" where
  "is_hex c = (is_digit c \<or> (97 \<le> code c \<and> code c \<le> 102))"

text \<open>The pattern of an UUID, one letter per position: \<open>h\<close> a hexadecimal digit, \<open>v\<close> the version, \<open>n\<close> the variant.\<close>

definition uuid_char :: "char \<Rightarrow> char \<Rightarrow> bool" where
  "uuid_char p c = (if p = CHR ''h'' then is_hex c
     else if p = CHR ''v'' then 49 \<le> code c \<and> code c \<le> 56
     else if p = CHR ''n'' then c \<in> set ''89ab''
     else c = p)"

definition uuid_ok :: "string \<Rightarrow> bool" where
  "uuid_ok s = list_all2 uuid_char ''hhhhhhhh-hhhh-vhhh-nhhh-hhhhhhhhhhhh'' s"

definition uuid_identity :: "string \<Rightarrow> string \<Rightarrow> bool" where
  "uuid_identity prefix s = (take (length prefix) s = prefix \<and> uuid_ok (drop (length prefix) s))"

definition run_id_ok :: "string \<Rightarrow> bool" where "run_id_ok = uuid_identity ''run:''"
definition task_id_ok :: "string \<Rightarrow> bool" where "task_id_ok = uuid_identity ''task:''"
definition operation_id_ok :: "string \<Rightarrow> bool" where "operation_id_ok = uuid_identity ''operation:''"

text \<open>\<open>/^service-test:[a-z0-9](?:[a-z0-9._-]{0,62})\/[a-z0-9](?:[a-z0-9._-]{0,126})$/u\<close>\<close>

definition test_segment :: "nat \<Rightarrow> string \<Rightarrow> bool" where
  "test_segment maximum s = (s \<noteq> [] \<and> length s \<le> maximum
     \<and> (is_lower (hd s) \<or> is_digit (hd s))
     \<and> list_all (\<lambda>c. is_lower c \<or> is_digit c \<or> c \<in> set ''._-'') s)"

definition test_id_ok :: "string \<Rightarrow> bool" where
  "test_id_ok s = (take 13 s = ''service-test:'' \<and> (case split_on CHR ''/'' (drop 13 s) of
     [ns, name] \<Rightarrow> test_segment 63 ns \<and> test_segment 127 name | _ \<Rightarrow> False))"

section \<open>Times\<close>

text \<open>
  \<open>new Date(s).toISOString() === s\<close>: the strings \<open>toISOString\<close> produces. Years 0 to 9999 have four
  digits, the others a sign and six; the time value is at most 8.64e15 milliseconds from the epoch.
\<close>

definition digits_value :: "string \<Rightarrow> int" where
  "digits_value s = foldl (\<lambda>n c. 10 * n + (int (code c) - 48)) 0 s"

definition leap_year :: "int \<Rightarrow> bool" where
  "leap_year y = (y mod 4 = 0 \<and> (y mod 100 \<noteq> 0 \<or> y mod 400 = 0))"

definition days_in_month :: "int \<Rightarrow> nat \<Rightarrow> nat" where
  "days_in_month y m = (if m = 2 then (if leap_year y then 29 else 28) else if m \<in> {4, 6, 9, 11} then 30 else 31)"

text \<open>The part after the year: \<open>-MM-DDThh:mm:ss.sssZ\<close>.\<close>

definition iso_rest_ok :: "int \<Rightarrow> string \<Rightarrow> bool" where
  "iso_rest_ok y s = (list_all2 (\<lambda>p c. if p = CHR ''d'' then is_digit c else c = p) ''-dd-ddTdd:dd:dd.dddZ'' s
     \<and> 1 \<le> two_digits s 1 \<and> two_digits s 1 \<le> 12 \<and> 1 \<le> two_digits s 4 \<and> two_digits s 4 \<le> days_in_month y (two_digits s 1)
     \<and> two_digits s 7 \<le> 23 \<and> two_digits s 10 \<le> 59 \<and> two_digits s 13 \<le> 59)"

definition iso_in_range :: "int \<Rightarrow> string \<Rightarrow> bool" where
  "iso_in_range y s = (let m = two_digits s 1; d = two_digits s 4 in
     (y < 275760 \<or> y = 275760 \<and> (m < 9 \<or> m = 9 \<and> (d < 13 \<or> d = 13 \<and> drop 6 s = ''T00:00:00.000Z'')))
     \<and> (- 271821 < y \<or> y = - 271821 \<and> (4 < m \<or> m = 4 \<and> 20 \<le> d)))"

definition iso_canonical :: "string \<Rightarrow> bool" where
  "iso_canonical s = (
     (list_all is_digit (take 4 s) \<and> iso_rest_ok (digits_value (take 4 s)) (drop 4 s))
     \<or> (s \<noteq> [] \<and> hd s \<in> {CHR ''+'', CHR ''-''} \<and> list_all is_digit (take 6 (tl s)) \<and> length s = 27
        \<and> (let y = (if hd s = CHR ''+'' then digits_value (take 6 (tl s)) else - digits_value (take 6 (tl s))) in
            (if hd s = CHR ''+'' then 9999 < y else y < 0)
            \<and> iso_rest_ok y (drop 7 s) \<and> iso_in_range y (drop 7 s))))"

section \<open>Readers\<close>

definition corrupt :: "store_error + 'a" where "corrupt = Inl StoreCorruption"

definition rd_record :: "json option \<Rightarrow> store_error + jfields" where
  "rd_record v = (case v of Some (JObj fs) \<Rightarrow> Inr fs | _ \<Rightarrow> corrupt)"

definition stored_text_ok :: "string \<Rightarrow> bool" where
  "stored_text_ok s = (s \<noteq> [] \<and> list_all (\<lambda>c. code c \<noteq> 0) s)"

definition rd_text :: "json option \<Rightarrow> store_error + string" where
  "rd_text v = (case v of Some (JStr s) \<Rightarrow> if stored_text_ok s then Inr s else corrupt | _ \<Rightarrow> corrupt)"

definition rd_when :: "(string \<Rightarrow> bool) \<Rightarrow> json option \<Rightarrow> store_error + string" where
  "rd_when ok v = (case v of Some (JStr s) \<Rightarrow> if ok s then Inr s else corrupt | _ \<Rightarrow> corrupt)"

definition sha_ok :: "string \<Rightarrow> bool" where
  "sha_ok s = (length s = 64 \<and> list_all is_hex s)"

definition request_id_ok :: "string \<Rightarrow> bool" where
  "request_id_ok s = (stored_text_ok s \<and> utf8_length s \<le> 256)"

definition rd_sha :: "json option \<Rightarrow> store_error + string" where
  "rd_sha v = rbind (rd_text v) (\<lambda>s. if sha_ok s then Inr s else corrupt)"

definition rd_timestamp :: "json option \<Rightarrow> store_error + string" where
  "rd_timestamp v = rbind (rd_text v) (\<lambda>s. if iso_canonical s then Inr s else corrupt)"

definition rd_requestKey :: "json option \<Rightarrow> store_error + string" where
  "rd_requestKey v = rbind (rd_text v) (\<lambda>s. if utf8_length s \<le> 256 then Inr s else corrupt)"

definition rd_integer :: "json option \<Rightarrow> store_error + int" where
  "rd_integer v = (case v of
     Some (JNum q) \<Rightarrow> if num_integral q \<and> 0 \<le> q \<and> q \<le> of_int max_safe_integer then Inr (floor q) else corrupt
   | _ \<Rightarrow> corrupt)"

definition rd_boolean :: "json option \<Rightarrow> store_error + bool" where
  "rd_boolean v = (case v of Some (JBool b) \<Rightarrow> Inr b | _ \<Rightarrow> corrupt)"

definition rd_choice :: "(string \<times> 'a) list \<Rightarrow> json option \<Rightarrow> store_error + 'a" where
  "rd_choice table v = (case v of
     Some (JStr s) \<Rightarrow> (case map_of table s of None \<Rightarrow> corrupt | Some x \<Rightarrow> Inr x)
   | _ \<Rightarrow> corrupt)"

definition rd_outcome :: "json option \<Rightarrow> store_error + business_outcome option" where
  "rd_outcome v = (if v = Some JNull then Inr None else rbind (rd_choice run_outcomes v) (\<lambda>x. Inr (Some x)))"

definition rd_optional :: "(json option \<Rightarrow> store_error + 'a) \<Rightarrow> json option \<Rightarrow> store_error + 'a option" where
  "rd_optional rd v = (if v = None then Inr None else rbind (rd v) (\<lambda>x. Inr (Some x)))"

definition rd_pair :: "string \<Rightarrow> string \<Rightarrow> json option \<Rightarrow> store_error + string \<times> string" where
  "rd_pair a b v = rbind (rd_record v) (\<lambda>fs.
     rbind (rd_text (map_of fs a)) (\<lambda>x. rbind (rd_text (map_of fs b)) (\<lambda>y. Inr (x, y))))"

definition parseArtifact :: "json option \<Rightarrow> store_error + artifact" where
  "parseArtifact v = rbind (rd_record v) (\<lambda>fs.
     rbind (rd_text (map_of fs ''artifactId'')) (\<lambda>i.
     rbind (rd_when run_id_ok (map_of fs ''runId'')) (\<lambda>r.
     rbind (rd_text (map_of fs ''name'')) (\<lambda>n.
     rbind (rd_text (map_of fs ''mediaType'')) (\<lambda>m.
     rbind (rd_integer (map_of fs ''sizeBytes'')) (\<lambda>b.
     rbind (rd_sha (map_of fs ''sha256'')) (\<lambda>h.
     Inr \<lparr>af_artifactId = i, af_runId = r, af_name = n, af_mediaType = m, af_sizeBytes = b, af_sha256 = h\<rparr>)))))))"

definition rd_artifacts :: "json option \<Rightarrow> store_error + artifact list" where
  "rd_artifacts v = (case v of Some (JArr js) \<Rightarrow> rmap (\<lambda>j. parseArtifact (Some j)) js | _ \<Rightarrow> corrupt)"

definition parseCleanup :: "string \<Rightarrow> json option \<Rightarrow> store_error + cleanup_receipt" where
  "parseCleanup runId v = rbind (rd_record v) (\<lambda>fs.
     rbind (rd_choice receipt_statuses (map_of fs ''status'')) (\<lambda>st.
     rbind (rd_optional (rd_when run_id_ok) (map_of fs ''runId'')) (\<lambda>r.
     if r \<noteq> None \<and> r \<noteq> Some runId then corrupt else
     rbind (rd_text (map_of fs ''snapshotId'')) (\<lambda>sn.
     rbind (rd_boolean (map_of fs ''tainted'')) (\<lambda>t.
     rbind (rd_timestamp (map_of fs ''attemptedAt'')) (\<lambda>att.
     rbind (rd_optional rd_text (map_of fs ''detail'')) (\<lambda>d.
     Inr \<lparr>cu_runId = r, cu_snapshotId = sn, cu_status = st, cu_tainted = t, cu_attemptedAt = att, cu_detail = d\<rparr>)))))))"

definition parseError :: "json option \<Rightarrow> store_error + run_error" where
  "parseError v = rbind (rd_record v) (\<lambda>fs.
     rbind (rd_text (map_of fs ''code'')) (\<lambda>c.
     rbind (rd_text (map_of fs ''message'')) (\<lambda>m.
     rbind (rd_boolean (map_of fs ''retryable'')) (\<lambda>r.
     Inr \<lparr>xe_code = c, xe_message = m, xe_retryable = r\<rparr>))))"

text \<open>The stored result stays the data it is: its run, its status and its cleanup are checked.\<close>

definition parseResult :: "string \<Rightarrow> run_status \<Rightarrow> json option \<Rightarrow> store_error + jfields" where
  "parseResult runId st v = rbind (rd_record v) (\<lambda>fs.
     rbind (rd_when run_id_ok (map_of fs ''runId'')) (\<lambda>r.
     if r \<noteq> runId then corrupt else
     rbind (rd_choice run_statuses (map_of fs ''executionStatus'')) (\<lambda>x.
     if \<not> isTerminal x \<or> x \<noteq> st then corrupt else
     rbind (parseCleanup runId (map_of fs ''cleanup'')) (\<lambda>_. Inr fs))))"

definition run_schema :: string where "run_schema = ''surfaceloom.service-run/v1''"

definition parse_fields :: "jfields \<Rightarrow> store_error + stored_run" where
  "parse_fields fs =
     (if map_of fs ''schemaVersion'' \<noteq> Some (JStr run_schema) then corrupt else
     rbind (rd_integer (map_of fs ''revision'')) (\<lambda>rev.
     rbind (rd_requestKey (map_of fs ''requestId'')) (\<lambda>req.
     rbind (rd_sha (map_of fs ''fingerprint'')) (\<lambda>fp.
     rbind (rd_when run_id_ok (map_of fs ''runId'')) (\<lambda>run.
     rbind (rd_when test_id_ok (map_of fs ''testId'')) (\<lambda>test.
     rbind (rd_choice run_statuses (map_of fs ''status'')) (\<lambda>st.
     rbind (rd_pair ''snapshotId'' ''resolvedRevision'' (map_of fs ''snapshot'')) (\<lambda>snap.
     rbind (rd_record (map_of fs ''parameters'')) (\<lambda>params.
     rbind (rd_artifacts (map_of fs ''artifacts'')) (\<lambda>arts.
     rbind (rd_optional (parseResult run st) (map_of fs ''result'')) (\<lambda>result.
     rbind (rd_optional (parseCleanup run) (map_of fs ''cleanup'')) (\<lambda>cleanup.
     rbind (rd_optional (parseCleanup run) (map_of fs ''workspaceRelease'')) (\<lambda>release.
     rbind (rd_outcome (map_of fs ''outcome'')) (\<lambda>oc.
     rbind (rd_timestamp (map_of fs ''createdAt'')) (\<lambda>created.
     rbind (rd_timestamp (map_of fs ''updatedAt'')) (\<lambda>updated.
     rbind (rd_optional rd_timestamp (map_of fs ''startedAt'')) (\<lambda>started.
     rbind (rd_optional rd_timestamp (map_of fs ''finishedAt'')) (\<lambda>finished.
     rbind (rd_optional (rd_when task_id_ok) (map_of fs ''taskId'')) (\<lambda>task.
     rbind (rd_optional rd_record (map_of fs ''executionLinks'')) (\<lambda>links.
     rbind (rd_optional parseError (map_of fs ''error'')) (\<lambda>err.
     rbind (rd_boolean (map_of fs ''tainted'')) (\<lambda>tainted.
     Inr \<lparr>sr_revision = rev, sr_requestId = req, sr_fingerprint = fp, sr_runId = run, sr_snapshot = snap,
       sr_testId = test, sr_parameters = params, sr_status = st, sr_outcome = oc, sr_artifacts = arts,
       sr_createdAt = created, sr_updatedAt = updated, sr_startedAt = started, sr_finishedAt = finished,
       sr_taskId = task, sr_executionLinks = links, sr_result = result, sr_error = err, sr_cleanup = cleanup,
       sr_workspaceRelease = release, sr_tainted = tainted\<rparr>))))))))))))))))))))))"

definition parseStoredRun :: "jsv \<Rightarrow> store_error + stored_run" where
  "parseStoredRun v = (case cloneSafeData v of
     Inr (JObj fs) \<Rightarrow> parse_fields fs | _ \<Rightarrow> corrupt)"

end
