(* ===== verification/StoredRunProps.thy ===== *)
theory StoredRunProps
  imports StoredRuns
begin

text \<open>
  What \<open>parseStoredRun\<close> accepts, exactly: the well-formed records within the copy's budget, each read
  back from the data it is written as. Reading drops unknown fields only, so re-encoding what was read
  never costs more than the data it came from.
\<close>

section \<open>Smaller data\<close>

inductive json_le :: "json \<Rightarrow> json \<Rightarrow> bool" where
  refl: "json_le j j"
| arr: "list_all2 json_le js js' \<Longrightarrow> json_le (JArr js) (JArr js')"
| obj: "distinct (map fst fs) \<Longrightarrow> \<forall>f \<in> set fs. \<exists>w. (fst f, w) \<in> set fs' \<and> json_le (snd f) w \<Longrightarrow>
    json_le (JObj fs) (JObj fs')"
| same: "list_all2 (\<lambda>f g. fst f = fst g \<and> json_le (snd f) (snd g)) fs fs' \<Longrightarrow> json_le (JObj fs) (JObj fs')"

lemma sum_sub_fields:
  assumes "distinct (map fst fs)" and "\<forall>f \<in> set fs. \<exists>w. (fst f, w) \<in> set fs' \<and> (m (fst f) (snd f) :: nat) \<le> m (fst f) w"
  shows "sum_list (map (\<lambda>f. m (fst f) (snd f)) fs) \<le> sum_list (map (\<lambda>f. m (fst f) (snd f)) fs')"
  using assms
proof (induction fs arbitrary: fs')
  case (Cons f fs)
  obtain w where w: "(fst f, w) \<in> set fs'" "m (fst f) (snd f) \<le> m (fst f) w" using Cons.prems(2) by auto
  let ?rest = "remove1 (fst f, w) fs'"
  have "\<exists>w'. (fst g, w') \<in> set ?rest \<and> m (fst g) (snd g) \<le> m (fst g) w'" if g: "g \<in> set fs" for g
  proof -
    obtain w' where w': "(fst g, w') \<in> set fs'" "m (fst g) (snd g) \<le> m (fst g) w'" using Cons.prems(2) g by auto
    have "fst g \<noteq> fst f" using Cons.prems(1) g by (auto simp: image_iff)
    then have "(fst g, w') \<in> set ?rest" using w'(1) by simp
    then show ?thesis using w'(2) by blast
  qed
  then have "sum_list (map (\<lambda>f. m (fst f) (snd f)) fs) \<le> sum_list (map (\<lambda>f. m (fst f) (snd f)) ?rest)"
    using Cons.IH [of ?rest] Cons.prems(1) by simp
  moreover have "sum_list (map (\<lambda>f. m (fst f) (snd f)) fs')
      = m (fst f) w + sum_list (map (\<lambda>f. m (fst f) (snd f)) ?rest)"
    using sum_list_map_remove1 [OF w(1), of "\<lambda>f. m (fst f) (snd f)"] by simp
  ultimately show ?case using w(2) by simp
qed simp

lemma sum_list2: "list_all2 (\<lambda>x y. (f x :: nat) \<le> f y) xs ys \<Longrightarrow> sum_list (map f xs) \<le> sum_list (map f ys)"
  by (induction rule: list_all2_induct) auto

lemma json_le_costs:
  "json_le a b \<Longrightarrow> json_nodes a \<le> json_nodes b \<and> json_bytes a \<le> json_bytes b \<and> (\<forall>d. safe_shape d b \<longrightarrow> safe_shape d a)"
proof (induction rule: json_le.induct)
  case (arr js js')
  then have n: "list_all2 (\<lambda>x y. json_nodes x \<le> json_nodes y) js js'"
    and b: "list_all2 (\<lambda>x y. json_bytes x \<le> json_bytes y) js js'"
    and s: "list_all2 (\<lambda>x y. \<forall>d. safe_shape d y \<longrightarrow> safe_shape d x) js js'"
    by (auto elim: list_all2_mono)
  have "list_all (safe_shape d) js' \<Longrightarrow> list_all (safe_shape d) js" for d
    using s by (induction rule: list_all2_induct) auto
  then show ?case using sum_list2 [OF n] sum_list2 [OF b] list_all2_lengthD [OF n] by auto
next
  case (obj fs fs')
  have n: "sum_list (map (\<lambda>f. json_nodes (snd f)) fs) \<le> sum_list (map (\<lambda>f. json_nodes (snd f)) fs')"
    by (rule sum_sub_fields [where m = "\<lambda>_. json_nodes"]) (use obj in blast)+
  have b: "sum_list (map (\<lambda>f. utf8_length (fst f) + json_bytes (snd f)) fs)
      \<le> sum_list (map (\<lambda>f. utf8_length (fst f) + json_bytes (snd f)) fs')"
    by (rule sum_sub_fields [where m = "\<lambda>k j. utf8_length k + json_bytes j"]) (use obj in \<open>auto dest!: bspec\<close>)
  have l: "length fs \<le> length fs'"
    using sum_sub_fields [OF obj(1), of fs' "\<lambda>_ _. 1"] obj(2) by (auto simp: sum_list_triv)
  have "list_all (\<lambda>f. safe_shape d (snd f)) fs" if all: "list_all (\<lambda>f. safe_shape d (snd f)) fs'" for d
    unfolding list_all_iff
  proof
    fix f assume "f \<in> set fs"
    then obtain w where "(fst f, w) \<in> set fs'" "\<forall>d. safe_shape d w \<longrightarrow> safe_shape d (snd f)" using obj(2) by blast
    then show "safe_shape d (snd f)" using all by (auto simp: list_all_iff)
  qed
  with n b l show ?case by auto
next
  case (same fs fs')
  then have n: "list_all2 (\<lambda>f g. json_nodes (snd f) \<le> json_nodes (snd g)) fs fs'"
    and b: "list_all2 (\<lambda>f g. utf8_length (fst f) + json_bytes (snd f) \<le> utf8_length (fst g) + json_bytes (snd g)) fs fs'"
    and s: "list_all2 (\<lambda>f g. \<forall>d. safe_shape d (snd g) \<longrightarrow> safe_shape d (snd f)) fs fs'"
    by (auto elim!: list_all2_mono)
  have "list_all (\<lambda>f. safe_shape d (snd f)) fs' \<Longrightarrow> list_all (\<lambda>f. safe_shape d (snd f)) fs" for d
    using s by (induction rule: list_all2_induct) auto
  then show ?case using sum_list2 [OF n] sum_list2 [OF b] list_all2_lengthD [OF n] by auto
qed auto

lemma within_budget_le: "json_le a b \<Longrightarrow> within_budget b \<Longrightarrow> within_budget a"
  using json_le_costs [of a b] by (auto simp: within_budget_def)

section \<open>Readers\<close>

lemma corrupt_not_ok [simp]: "corrupt \<noteq> Inr a" "Inr a \<noteq> corrupt"
  by (simp_all add: corrupt_def)

lemma if_corrupt_Inr [simp]: "(if b then corrupt else r) = Inr a \<longleftrightarrow> \<not> b \<and> r = Inr a"
    "(if b then r else corrupt) = Inr a \<longleftrightarrow> b \<and> r = Inr a"
  by auto

lemma rd_record_Inr: "rd_record v = Inr fs \<longleftrightarrow> v = Some (JObj fs)"
  by (auto simp: rd_record_def split: option.split json.split)

lemma rd_text_Inr: "rd_text v = Inr s \<longleftrightarrow> v = Some (JStr s) \<and> stored_text_ok s"
  by (auto simp: rd_text_def split: option.split json.split)

lemma rd_when_Inr: "rd_when ok v = Inr s \<longleftrightarrow> v = Some (JStr s) \<and> ok s"
  by (auto simp: rd_when_def split: option.split json.split)

lemma rd_integer_Inr: "rd_integer v = Inr n \<longleftrightarrow> v = Some (JNum (of_int n)) \<and> 0 \<le> n \<and> n \<le> max_safe_integer"
  by (auto simp: rd_integer_def split: option.splits json.splits elim!: num_integralE)

lemma rd_boolean_Inr: "rd_boolean v = Inr b \<longleftrightarrow> v = Some (JBool b)"
  by (auto simp: rd_boolean_def split: option.split json.split)

lemma rd_sha_Inr: "rd_sha v = Inr s \<longleftrightarrow> v = Some (JStr s) \<and> stored_text_ok s \<and> sha_ok s"
  by (auto simp: rd_sha_def rd_text_Inr)

lemma rd_timestamp_Inr: "rd_timestamp v = Inr s \<longleftrightarrow> v = Some (JStr s) \<and> stored_text_ok s \<and> iso_canonical s"
  by (auto simp: rd_timestamp_def rd_text_Inr)

lemma rd_requestKey_Inr: "rd_requestKey v = Inr s \<longleftrightarrow> v = Some (JStr s) \<and> request_id_ok s"
  by (auto simp: rd_requestKey_def rd_text_Inr request_id_ok_def)

lemma rd_optional_Inr: "rd_optional rd v = Inr x \<longleftrightarrow>
    (case x of None \<Rightarrow> v = None | Some a \<Rightarrow> v \<noteq> None \<and> rd v = Inr a)"
  by (auto simp: rd_optional_def split: option.split)

fun status_name :: "run_status \<Rightarrow> string" where
  "status_name RunQueued = ''queued''"
| "status_name RunPreparing = ''preparing''"
| "status_name RunRunning = ''running''"
| "status_name RunCancelling = ''cancelling''"
| "status_name RunCompleted = ''completed''"
| "status_name RunFailed = ''failed''"
| "status_name RunCancelled = ''cancelled''"
| "status_name RunInterrupted = ''interrupted''"

fun receipt_name :: "receipt_status \<Rightarrow> string" where
  "receipt_name ReceiptConfirmed = ''confirmed''"
| "receipt_name ReceiptUnconfirmed = ''unconfirmed''"
| "receipt_name ReceiptNotRequired = ''not-required''"

lemma rd_choice_Inr: "rd_choice table v = Inr x \<longleftrightarrow> (\<exists>s. v = Some (JStr s) \<and> map_of table s = Some x)"
  by (auto simp: rd_choice_def split: option.split json.split)

text \<open>A table of names is read backwards by the name function.\<close>

lemma table_reads: "distinct (map fst table) \<Longrightarrow> (\<And>x s. (s, x) \<in> set table \<longleftrightarrow> s = name x) \<Longrightarrow>
    rd_choice table v = Inr x \<longleftrightarrow> v = Some (JStr (name x))"
  by (simp add: rd_choice_Inr)

lemma rd_status_Inr: "rd_choice run_statuses v = Inr x \<longleftrightarrow> v = Some (JStr (status_name x))"
proof (rule table_reads)
  show "distinct (map fst run_statuses)" by code_simp
  show "(s, x) \<in> set run_statuses \<longleftrightarrow> s = status_name x" for s x by (cases x; simp add: run_statuses_def)
qed

lemma rd_receipt_Inr: "rd_choice receipt_statuses v = Inr x \<longleftrightarrow> v = Some (JStr (receipt_name x))"
proof (rule table_reads)
  show "distinct (map fst receipt_statuses)" by code_simp
  show "(s, x) \<in> set receipt_statuses \<longleftrightarrow> s = receipt_name x" for s x by (cases x; simp add: receipt_statuses_def)
qed

fun business_name :: "business_outcome \<Rightarrow> string" where
  "business_name BizPassed = ''passed''"
| "business_name BizFailed = ''failed''"
| "business_name BizSkipped = ''skipped''"
| "business_name BizUnsupported = ''unsupported''"
| "business_name BizUnknown = ''unknown''"

definition outcome_json :: "business_outcome option \<Rightarrow> json" where
  "outcome_json x = (case x of None \<Rightarrow> JNull | Some b \<Rightarrow> JStr (business_name b))"

lemma rd_business_Inr: "rd_choice run_outcomes v = Inr x \<longleftrightarrow> v = Some (JStr (business_name x))"
proof (rule table_reads)
  show "distinct (map fst run_outcomes)" by code_simp
  show "(s, x) \<in> set run_outcomes \<longleftrightarrow> s = business_name x" for s x by (cases x; simp add: run_outcomes_def)
qed

lemma rd_outcome_Inr: "rd_outcome v = Inr x \<longleftrightarrow> v = Some (outcome_json x)"
  by (cases x) (auto simp: rd_outcome_def rd_business_Inr outcome_json_def)

lemmas reader_iffs = rd_record_Inr rd_text_Inr rd_when_Inr rd_integer_Inr rd_boolean_Inr rd_sha_Inr rd_timestamp_Inr
  rd_requestKey_Inr rd_status_Inr rd_receipt_Inr rd_outcome_Inr

section \<open>Written data\<close>

definition opt_field :: "string \<Rightarrow> ('a \<Rightarrow> json) \<Rightarrow> 'a option \<Rightarrow> jfields" where
  "opt_field k enc x = (case x of None \<Rightarrow> [] | Some a \<Rightarrow> [(k, enc a)])"

lemma map_of_opt_field [simp]:
  "map_of (opt_field k enc x @ rest) k' = (if k = k' then (case x of None \<Rightarrow> map_of rest k' | Some a \<Rightarrow> Some (enc a))
     else map_of rest k')"
  "map_of (opt_field k enc x) k' = (if k = k' then map_option enc x else None)"
  by (auto simp: opt_field_def split: option.split)

lemma opt_field_keys: "set (map fst (opt_field k enc x)) \<subseteq> {k}" "distinct (map fst (opt_field k enc x))"
  by (auto simp: opt_field_def split: option.split)

definition artifact_json :: "artifact \<Rightarrow> json" where
  "artifact_json a = JObj [(''artifactId'', JStr (af_artifactId a)), (''runId'', JStr (af_runId a)),
     (''name'', JStr (af_name a)), (''mediaType'', JStr (af_mediaType a)),
     (''sizeBytes'', JNum (of_int (af_sizeBytes a))), (''sha256'', JStr (af_sha256 a))]"

definition cleanup_fields :: "cleanup_receipt \<Rightarrow> jfields" where
  "cleanup_fields c = (''snapshotId'', JStr (cu_snapshotId c)) # (''status'', JStr (receipt_name (cu_status c)))
     # (''tainted'', JBool (cu_tainted c)) # (''attemptedAt'', JStr (cu_attemptedAt c))
     # opt_field ''runId'' JStr (cu_runId c) @ opt_field ''detail'' JStr (cu_detail c)"

definition error_json :: "run_error \<Rightarrow> json" where
  "error_json e = JObj [(''code'', JStr (xe_code e)), (''message'', JStr (xe_message e)),
     (''retryable'', JBool (xe_retryable e))]"

definition pair_json :: "string \<times> string \<Rightarrow> json" where
  "pair_json p = JObj [(''snapshotId'', JStr (fst p)), (''resolvedRevision'', JStr (snd p))]"

definition cleanup_json :: "cleanup_receipt \<Rightarrow> json" where
  "cleanup_json c = JObj (cleanup_fields c)"

definition stored_fields :: "stored_run \<Rightarrow> jfields" where
  "stored_fields r = (''schemaVersion'', JStr run_schema) # (''revision'', JNum (of_int (sr_revision r)))
     # (''requestId'', JStr (sr_requestId r)) # (''fingerprint'', JStr (sr_fingerprint r))
     # (''runId'', JStr (sr_runId r)) # (''snapshot'', pair_json (sr_snapshot r)) # (''testId'', JStr (sr_testId r))
     # (''parameters'', JObj (sr_parameters r)) # (''status'', JStr (status_name (sr_status r)))
     # (''outcome'', outcome_json (sr_outcome r)) # (''artifacts'', JArr (map artifact_json (sr_artifacts r)))
     # (''createdAt'', JStr (sr_createdAt r)) # (''updatedAt'', JStr (sr_updatedAt r)) # (''tainted'', JBool (sr_tainted r))
     # opt_field ''startedAt'' JStr (sr_startedAt r) @ opt_field ''finishedAt'' JStr (sr_finishedAt r)
     @ opt_field ''taskId'' JStr (sr_taskId r) @ opt_field ''executionLinks'' JObj (sr_executionLinks r)
     @ opt_field ''result'' JObj (sr_result r) @ opt_field ''error'' error_json (sr_error r)
     @ opt_field ''cleanup'' cleanup_json (sr_cleanup r) @ opt_field ''workspaceRelease'' cleanup_json (sr_workspaceRelease r)"

definition stored_json :: "stored_run \<Rightarrow> json" where
  "stored_json r = JObj (stored_fields r)"

section \<open>Well-formed records\<close>

definition time_ok :: "string \<Rightarrow> bool" where
  "time_ok s = (stored_text_ok s \<and> iso_canonical s)"

definition artifact_ok :: "artifact \<Rightarrow> bool" where
  "artifact_ok a = (stored_text_ok (af_artifactId a) \<and> run_id_ok (af_runId a) \<and> stored_text_ok (af_name a)
     \<and> stored_text_ok (af_mediaType a) \<and> 0 \<le> af_sizeBytes a \<and> af_sizeBytes a \<le> max_safe_integer
     \<and> stored_text_ok (af_sha256 a) \<and> sha_ok (af_sha256 a))"

definition cleanup_ok :: "string \<Rightarrow> cleanup_receipt \<Rightarrow> bool" where
  "cleanup_ok run c = ((\<forall>i. cu_runId c = Some i \<longrightarrow> i = run \<and> run_id_ok i) \<and> stored_text_ok (cu_snapshotId c)
     \<and> time_ok (cu_attemptedAt c) \<and> pred_option stored_text_ok (cu_detail c))"

definition error_ok :: "run_error \<Rightarrow> bool" where
  "error_ok e = (stored_text_ok (xe_code e) \<and> stored_text_ok (xe_message e))"

definition result_ok :: "string \<Rightarrow> run_status \<Rightarrow> jfields \<Rightarrow> bool" where
  "result_ok run st fs = (run_id_ok run \<and> isTerminal st \<and> map_of fs ''runId'' = Some (JStr run)
     \<and> map_of fs ''executionStatus'' = Some (JStr (status_name st))
     \<and> (\<exists>c. parseCleanup run (map_of fs ''cleanup'') = Inr c))"

definition record_ok :: "stored_run \<Rightarrow> bool" where
  "record_ok r = (0 \<le> sr_revision r \<and> sr_revision r \<le> max_safe_integer \<and> request_id_ok (sr_requestId r)
     \<and> stored_text_ok (sr_fingerprint r) \<and> sha_ok (sr_fingerprint r) \<and> run_id_ok (sr_runId r)
     \<and> stored_text_ok (fst (sr_snapshot r)) \<and> stored_text_ok (snd (sr_snapshot r)) \<and> test_id_ok (sr_testId r)
     \<and> list_all artifact_ok (sr_artifacts r) \<and> time_ok (sr_createdAt r) \<and> time_ok (sr_updatedAt r)
     \<and> pred_option time_ok (sr_startedAt r) \<and> pred_option time_ok (sr_finishedAt r) \<and> pred_option task_id_ok (sr_taskId r)
     \<and> pred_option (result_ok (sr_runId r) (sr_status r)) (sr_result r) \<and> pred_option error_ok (sr_error r)
     \<and> pred_option (cleanup_ok (sr_runId r)) (sr_cleanup r) \<and> pred_option (cleanup_ok (sr_runId r)) (sr_workspaceRelease r))"

definition wf_stored :: "stored_run \<Rightarrow> bool" where
  "wf_stored r = (record_ok r \<and> within_budget (stored_json r))"

section \<open>Reading what was written, and writing what was read\<close>

lemma artifact_reads: "parseArtifact (Some (artifact_json a)) = Inr a \<longleftrightarrow> artifact_ok a"
  by (auto simp: parseArtifact_def artifact_json_def reader_iffs artifact_ok_def)

lemma artifact_read:
  assumes "parseArtifact (Some j) = Inr a"
  shows "artifact_ok a" and "json_le (artifact_json a) j"
proof -
  obtain fs where j: "j = JObj fs" and fs: "map_of fs ''artifactId'' = Some (JStr (af_artifactId a))"
    "map_of fs ''runId'' = Some (JStr (af_runId a))" "map_of fs ''name'' = Some (JStr (af_name a))"
    "map_of fs ''mediaType'' = Some (JStr (af_mediaType a))" "map_of fs ''sizeBytes'' = Some (JNum (of_int (af_sizeBytes a)))"
    "map_of fs ''sha256'' = Some (JStr (af_sha256 a))" and ok: "artifact_ok a"
    using assms by (auto simp: parseArtifact_def reader_iffs artifact_ok_def)
  show "artifact_ok a" by (rule ok)
  show "json_le (artifact_json a) j"
    unfolding artifact_json_def j by (rule json_le.obj) (use fs [THEN map_of_SomeD] json_le.refl in auto)
qed

lemma error_reads: "parseError (Some (error_json e)) = Inr e \<longleftrightarrow> error_ok e"
  by (auto simp: parseError_def error_json_def reader_iffs error_ok_def)

lemma error_read:
  assumes "parseError (Some j) = Inr e"
  shows "error_ok e" and "json_le (error_json e) j"
proof -
  obtain fs where j: "j = JObj fs" and fs: "map_of fs ''code'' = Some (JStr (xe_code e))"
    "map_of fs ''message'' = Some (JStr (xe_message e))" "map_of fs ''retryable'' = Some (JBool (xe_retryable e))"
    and ok: "error_ok e"
    using assms by (auto simp: parseError_def reader_iffs error_ok_def)
  show "error_ok e" by (rule ok)
  show "json_le (error_json e) j"
    unfolding error_json_def j by (rule json_le.obj) (use fs [THEN map_of_SomeD] json_le.refl in auto)
qed

lemma pair_reads: "rd_pair ''snapshotId'' ''resolvedRevision'' (Some (pair_json p)) = Inr p
    \<longleftrightarrow> stored_text_ok (fst p) \<and> stored_text_ok (snd p)"
  by (auto simp: rd_pair_def pair_json_def reader_iffs prod_eq_iff)

lemma pair_read:
  assumes "rd_pair ''snapshotId'' ''resolvedRevision'' (Some j) = Inr p"
  shows "stored_text_ok (fst p) \<and> stored_text_ok (snd p)" and "json_le (pair_json p) j"
proof -
  obtain fs where j: "j = JObj fs" and fs: "map_of fs ''snapshotId'' = Some (JStr (fst p))"
    "map_of fs ''resolvedRevision'' = Some (JStr (snd p))" and ok: "stored_text_ok (fst p) \<and> stored_text_ok (snd p)"
    using assms by (auto simp: rd_pair_def reader_iffs)
  show "stored_text_ok (fst p) \<and> stored_text_ok (snd p)" by (rule ok)
  show "json_le (pair_json p) j"
    unfolding pair_json_def j by (rule json_le.obj) (use fs [THEN map_of_SomeD] json_le.refl in auto)
qed

lemma pred_option_iff: "pred_option P x \<longleftrightarrow> (\<forall>a. x = Some a \<longrightarrow> P a)"
  by (cases x) auto

text \<open>Optional fields: what is read is what is there.\<close>

lemma opt_reads: "(\<And>a. x = Some a \<Longrightarrow> rd (Some (enc a)) = Inr a) \<Longrightarrow> rd_optional rd (map_option enc x) = Inr x"
  by (cases x) (auto simp: rd_optional_def)

definition field_le :: "jfields \<Rightarrow> string \<times> json \<Rightarrow> bool" where
  "field_le fs f = (\<exists>w. (fst f, w) \<in> set fs \<and> json_le (snd f) w)"

lemma field_le_same: "map_of fs k = Some v \<Longrightarrow> field_le fs (k, v)"
  using map_of_SomeD json_le.refl by (fastforce simp: field_le_def)

lemma field_le_read: "map_of fs k = Some j \<Longrightarrow> json_le v j \<Longrightarrow> field_le fs (k, v)"
  using map_of_SomeD by (fastforce simp: field_le_def)

lemma opt_field_le:
  assumes "rd_optional rd (map_of fs k) = Inr x" and "\<And>j a. rd (Some j) = Inr a \<Longrightarrow> json_le (enc a) j"
  shows "list_all (field_le fs) (opt_field k enc x)"
  using assms by (cases x) (auto simp: opt_field_def rd_optional_Inr intro: field_le_read)

lemma obj_le: "distinct (map fst fs) \<Longrightarrow> list_all (field_le fs') fs \<Longrightarrow> json_le (JObj fs) (JObj fs')"
  by (rule json_le.obj) (auto simp: field_le_def list_all_iff)

lemma opt_distinct: "k \<notin> fst ` set r \<Longrightarrow> distinct (map fst r) \<Longrightarrow> distinct (map fst (opt_field k enc x @ r))"
  by (cases x) (auto simp: opt_field_def)

lemma opt_key: "fst ` set (opt_field k enc x) = (if x = None then {} else {k})"
  by (cases x) (auto simp: opt_field_def)

lemma cleanup_reads: "cleanup_ok run c \<Longrightarrow> parseCleanup run (Some (cleanup_json c)) = Inr c"
  by (cases "cu_runId c"; cases "cu_detail c")
    (auto simp: parseCleanup_def cleanup_json_def cleanup_fields_def opt_field_def reader_iffs rd_optional_def
      cleanup_ok_def time_ok_def)

lemma cleanup_read:
  assumes "parseCleanup run (Some j) = Inr c"
  shows "cleanup_ok run c" and "json_le (cleanup_json c) j"
proof -
  obtain fs where j: "j = JObj fs" and fs: "map_of fs ''snapshotId'' = Some (JStr (cu_snapshotId c))"
    "map_of fs ''status'' = Some (JStr (receipt_name (cu_status c)))" "map_of fs ''tainted'' = Some (JBool (cu_tainted c))"
    "map_of fs ''attemptedAt'' = Some (JStr (cu_attemptedAt c))"
    and opt: "rd_optional (rd_when run_id_ok) (map_of fs ''runId'') = Inr (cu_runId c)"
      "rd_optional rd_text (map_of fs ''detail'') = Inr (cu_detail c)"
    and run: "cu_runId c = None \<or> cu_runId c = Some run" and ok: "stored_text_ok (cu_snapshotId c)" "time_ok (cu_attemptedAt c)"
    using assms by (auto simp: parseCleanup_def reader_iffs time_ok_def)
  show "cleanup_ok run c"
    using ok run opt by (auto simp: cleanup_ok_def rd_optional_Inr reader_iffs pred_option_iff split: option.splits)
  have "list_all (field_le fs) (opt_field ''runId'' JStr (cu_runId c))"
    "list_all (field_le fs) (opt_field ''detail'' JStr (cu_detail c))"
    by (rule opt_field_le [OF opt(1)] opt_field_le [OF opt(2)]; auto simp: reader_iffs json_le.refl)+
  then have "list_all (field_le fs) (cleanup_fields c)"
    using fs by (simp add: cleanup_fields_def field_le_same)
  moreover have "distinct (map fst (cleanup_fields c))"
    by (auto simp: cleanup_fields_def opt_field_def split: option.split)
  ultimately show "json_le (cleanup_json c) j" unfolding cleanup_json_def j by (rule obj_le [rotated])
qed

lemma result_reads: "parseResult run st (Some j) = Inr fs \<longleftrightarrow> j = JObj fs \<and> result_ok run st fs"
  by (auto simp: parseResult_def result_ok_def reader_iffs)

lemma artifacts_read:
  assumes "rd_artifacts (Some j) = Inr as"
  shows "list_all artifact_ok as" and "json_le (JArr (map artifact_json as)) j"
proof -
  obtain js where j: "j = JArr js" and r: "list_all2 (\<lambda>x y. parseArtifact (Some x) = Inr y) js as"
    using assms by (auto simp: rd_artifacts_def rmap_Inr_iff split: json.splits)
  show "list_all artifact_ok as" using r by (induction rule: list_all2_induct) (auto simp: artifact_read(1))
  have "list_all2 json_le (map artifact_json as) js"
    using r by (induction rule: list_all2_induct) (auto simp: artifact_read(2))
  then show "json_le (JArr (map artifact_json as)) j" unfolding j by (rule json_le.arr)
qed

lemma artifacts_reads: "list_all artifact_ok as \<Longrightarrow> rd_artifacts (Some (JArr (map artifact_json as))) = Inr as"
  by (auto simp: rd_artifacts_def list_all_iff artifact_reads intro!: rmap_map_Inr
      [where f = "\<lambda>j. parseArtifact (Some j)" and g = artifact_json])

lemma stored_lookup:
  "map_of (stored_fields r) ''schemaVersion'' = Some (JStr run_schema)"
  "map_of (stored_fields r) ''revision'' = Some (JNum (of_int (sr_revision r)))"
  "map_of (stored_fields r) ''requestId'' = Some (JStr (sr_requestId r))"
  "map_of (stored_fields r) ''fingerprint'' = Some (JStr (sr_fingerprint r))"
  "map_of (stored_fields r) ''runId'' = Some (JStr (sr_runId r))"
  "map_of (stored_fields r) ''snapshot'' = Some (pair_json (sr_snapshot r))"
  "map_of (stored_fields r) ''testId'' = Some (JStr (sr_testId r))"
  "map_of (stored_fields r) ''parameters'' = Some (JObj (sr_parameters r))"
  "map_of (stored_fields r) ''status'' = Some (JStr (status_name (sr_status r)))"
  "map_of (stored_fields r) ''outcome'' = Some (outcome_json (sr_outcome r))"
  "map_of (stored_fields r) ''artifacts'' = Some (JArr (map artifact_json (sr_artifacts r)))"
  "map_of (stored_fields r) ''createdAt'' = Some (JStr (sr_createdAt r))"
  "map_of (stored_fields r) ''updatedAt'' = Some (JStr (sr_updatedAt r))"
  "map_of (stored_fields r) ''tainted'' = Some (JBool (sr_tainted r))"
  "map_of (stored_fields r) ''startedAt'' = map_option JStr (sr_startedAt r)"
  "map_of (stored_fields r) ''finishedAt'' = map_option JStr (sr_finishedAt r)"
  "map_of (stored_fields r) ''taskId'' = map_option JStr (sr_taskId r)"
  "map_of (stored_fields r) ''executionLinks'' = map_option JObj (sr_executionLinks r)"
  "map_of (stored_fields r) ''result'' = map_option JObj (sr_result r)"
  "map_of (stored_fields r) ''error'' = map_option error_json (sr_error r)"
  "map_of (stored_fields r) ''cleanup'' = map_option cleanup_json (sr_cleanup r)"
  "map_of (stored_fields r) ''workspaceRelease'' = map_option cleanup_json (sr_workspaceRelease r)"
  by (simp_all add: stored_fields_def del: map_of_append split: option.split)

lemma opt_key_mem: "k' \<in> fst ` set (opt_field k enc x) \<longleftrightarrow> k' = k \<and> x \<noteq> None"
  by (simp add: opt_key)

lemma stored_distinct: "distinct (map fst (stored_fields r))"
  unfolding stored_fields_def
  by (simp add: opt_key_mem image_Un opt_distinct opt_field_keys(2) del: distinct_append map_append)

lemma parse_fields_reads:
  assumes "record_ok r"
  shows "parse_fields (stored_fields r) = Inr r"
proof -
  note ok = assms [unfolded record_ok_def]
  have opts: "rd_optional rd_timestamp (map_option JStr (sr_startedAt r)) = Inr (sr_startedAt r)"
    "rd_optional rd_timestamp (map_option JStr (sr_finishedAt r)) = Inr (sr_finishedAt r)"
    "rd_optional (rd_when task_id_ok) (map_option JStr (sr_taskId r)) = Inr (sr_taskId r)"
    "rd_optional rd_record (map_option JObj (sr_executionLinks r)) = Inr (sr_executionLinks r)"
    "rd_optional parseError (map_option error_json (sr_error r)) = Inr (sr_error r)"
    "rd_optional (parseCleanup (sr_runId r)) (map_option cleanup_json (sr_cleanup r)) = Inr (sr_cleanup r)"
    "rd_optional (parseCleanup (sr_runId r)) (map_option cleanup_json (sr_workspaceRelease r)) = Inr (sr_workspaceRelease r)"
    "rd_optional (parseResult (sr_runId r) (sr_status r)) (map_option JObj (sr_result r)) = Inr (sr_result r)"
    by (rule opt_reads; use ok in \<open>simp add: reader_iffs pred_option_iff time_ok_def error_reads cleanup_reads result_reads\<close>)+
  have reads: "rd_pair ''snapshotId'' ''resolvedRevision'' (Some (pair_json (sr_snapshot r))) = Inr (sr_snapshot r)"
    "rd_artifacts (Some (JArr (map artifact_json (sr_artifacts r)))) = Inr (sr_artifacts r)"
    "rd_integer (Some (JNum (of_int (sr_revision r)))) = Inr (sr_revision r)"
    "rd_requestKey (Some (JStr (sr_requestId r))) = Inr (sr_requestId r)"
    "rd_sha (Some (JStr (sr_fingerprint r))) = Inr (sr_fingerprint r)"
    "rd_when run_id_ok (Some (JStr (sr_runId r))) = Inr (sr_runId r)"
    "rd_when test_id_ok (Some (JStr (sr_testId r))) = Inr (sr_testId r)"
    "rd_timestamp (Some (JStr (sr_createdAt r))) = Inr (sr_createdAt r)"
    "rd_timestamp (Some (JStr (sr_updatedAt r))) = Inr (sr_updatedAt r)"
    using ok by (simp_all add: reader_iffs pair_reads artifacts_reads time_ok_def)
  have fixed: "rd_choice run_statuses (Some (JStr (status_name x))) = Inr x" "rd_outcome (Some (outcome_json y)) = Inr y"
    "rd_boolean (Some (JBool b)) = Inr b" "rd_record (Some (JObj fs)) = Inr fs" for x y b fs
    by (simp_all add: reader_iffs)
  show ?thesis
    unfolding parse_fields_def stored_lookup reads fixed by (simp add: reads opts fixed)
qed

text \<open>What a record that was read was read from.\<close>

lemma parse_fields_all:
  assumes "parse_fields fs = Inr r"
  shows "(map_of fs ''schemaVersion'' = Some (JStr run_schema))
     \<and> (rd_integer (map_of fs ''revision'') = Inr (sr_revision r))
     \<and> (rd_requestKey (map_of fs ''requestId'') = Inr (sr_requestId r))
     \<and> (rd_sha (map_of fs ''fingerprint'') = Inr (sr_fingerprint r))
     \<and> (rd_when run_id_ok (map_of fs ''runId'') = Inr (sr_runId r))
     \<and> (rd_when test_id_ok (map_of fs ''testId'') = Inr (sr_testId r))
     \<and> (rd_choice run_statuses (map_of fs ''status'') = Inr (sr_status r))
     \<and> (rd_pair ''snapshotId'' ''resolvedRevision'' (map_of fs ''snapshot'') = Inr (sr_snapshot r))
     \<and> (rd_record (map_of fs ''parameters'') = Inr (sr_parameters r))
     \<and> (rd_artifacts (map_of fs ''artifacts'') = Inr (sr_artifacts r))
     \<and> (rd_optional (parseResult (sr_runId r) (sr_status r)) (map_of fs ''result'') = Inr (sr_result r))
     \<and> (rd_optional (parseCleanup (sr_runId r)) (map_of fs ''cleanup'') = Inr (sr_cleanup r))
     \<and> (rd_optional (parseCleanup (sr_runId r)) (map_of fs ''workspaceRelease'') = Inr (sr_workspaceRelease r))
     \<and> (rd_outcome (map_of fs ''outcome'') = Inr (sr_outcome r))
     \<and> (rd_timestamp (map_of fs ''createdAt'') = Inr (sr_createdAt r))
     \<and> (rd_timestamp (map_of fs ''updatedAt'') = Inr (sr_updatedAt r))
     \<and> (rd_optional rd_timestamp (map_of fs ''startedAt'') = Inr (sr_startedAt r))
     \<and> (rd_optional rd_timestamp (map_of fs ''finishedAt'') = Inr (sr_finishedAt r))
     \<and> (rd_optional (rd_when task_id_ok) (map_of fs ''taskId'') = Inr (sr_taskId r))
     \<and> (rd_optional rd_record (map_of fs ''executionLinks'') = Inr (sr_executionLinks r))
     \<and> (rd_optional parseError (map_of fs ''error'') = Inr (sr_error r))
     \<and> (rd_boolean (map_of fs ''tainted'') = Inr (sr_tainted r))"
  using assms unfolding parse_fields_def rbind_eq_Inr_iff if_corrupt_Inr not_not sum.inject
  by (elim exE conjE, hypsubst, unfold stored_run.simps, intro conjI)

lemma parse_fields_read:
  assumes "parse_fields fs = Inr r"
  shows "record_ok r" and "json_le (stored_json r) (JObj fs)"
proof -
  have fixed: "map_of fs ''schemaVersion'' = Some (JStr run_schema)"
    "map_of fs ''revision'' = Some (JNum (of_int (sr_revision r)))" "map_of fs ''requestId'' = Some (JStr (sr_requestId r))"
    "map_of fs ''fingerprint'' = Some (JStr (sr_fingerprint r))" "map_of fs ''runId'' = Some (JStr (sr_runId r))"
    "map_of fs ''testId'' = Some (JStr (sr_testId r))" "map_of fs ''parameters'' = Some (JObj (sr_parameters r))"
    "map_of fs ''status'' = Some (JStr (status_name (sr_status r)))" "map_of fs ''outcome'' = Some (outcome_json (sr_outcome r))"
    "map_of fs ''createdAt'' = Some (JStr (sr_createdAt r))" "map_of fs ''updatedAt'' = Some (JStr (sr_updatedAt r))"
    "map_of fs ''tainted'' = Some (JBool (sr_tainted r))"
    and plain: "0 \<le> sr_revision r \<and> sr_revision r \<le> max_safe_integer \<and> request_id_ok (sr_requestId r)
      \<and> stored_text_ok (sr_fingerprint r) \<and> sha_ok (sr_fingerprint r) \<and> run_id_ok (sr_runId r) \<and> test_id_ok (sr_testId r)
      \<and> time_ok (sr_createdAt r) \<and> time_ok (sr_updatedAt r)"
    and snap: "rd_pair ''snapshotId'' ''resolvedRevision'' (map_of fs ''snapshot'') = Inr (sr_snapshot r)"
    and arts: "rd_artifacts (map_of fs ''artifacts'') = Inr (sr_artifacts r)"
    and opts: "rd_optional rd_timestamp (map_of fs ''startedAt'') = Inr (sr_startedAt r)"
      "rd_optional rd_timestamp (map_of fs ''finishedAt'') = Inr (sr_finishedAt r)"
      "rd_optional (rd_when task_id_ok) (map_of fs ''taskId'') = Inr (sr_taskId r)"
      "rd_optional rd_record (map_of fs ''executionLinks'') = Inr (sr_executionLinks r)"
      "rd_optional (parseResult (sr_runId r) (sr_status r)) (map_of fs ''result'') = Inr (sr_result r)"
      "rd_optional parseError (map_of fs ''error'') = Inr (sr_error r)"
      "rd_optional (parseCleanup (sr_runId r)) (map_of fs ''cleanup'') = Inr (sr_cleanup r)"
      "rd_optional (parseCleanup (sr_runId r)) (map_of fs ''workspaceRelease'') = Inr (sr_workspaceRelease r)"
    using parse_fields_all [OF assms, unfolded reader_iffs] unfolding time_ok_def by blast+
  obtain sn where sn: "map_of fs ''snapshot'' = Some sn"
    using snap by (cases "map_of fs ''snapshot''") (auto simp: rd_pair_def reader_iffs)
  obtain ar where ar: "map_of fs ''artifacts'' = Some ar"
    using arts by (cases "map_of fs ''artifacts''") (auto simp: rd_artifacts_def)
  have reads: "\<And>j s. rd_timestamp (Some j) = Inr s \<Longrightarrow> json_le (JStr s) j"
    "\<And>j s. rd_when task_id_ok (Some j) = Inr s \<Longrightarrow> json_le (JStr s) j"
    "\<And>j x. rd_record (Some j) = Inr x \<Longrightarrow> json_le (JObj x) j"
    "\<And>j x. parseResult (sr_runId r) (sr_status r) (Some j) = Inr x \<Longrightarrow> json_le (JObj x) j"
    by (auto simp: reader_iffs result_reads json_le.refl)
  have "list_all (field_le fs) (stored_fields r)"
    using fixed
    by (simp add: stored_fields_def field_le_same field_le_read [OF sn pair_read(2) [OF snap [unfolded sn]]]
        field_le_read [OF ar artifacts_read(2) [OF arts [unfolded ar]]]
        opt_field_le [OF opts(1) reads(1)] opt_field_le [OF opts(2) reads(1)] opt_field_le [OF opts(3) reads(2)]
        opt_field_le [OF opts(4) reads(3)] opt_field_le [OF opts(5) reads(4)] opt_field_le [OF opts(6) error_read(2)]
        opt_field_le [OF opts(7) cleanup_read(2)] opt_field_le [OF opts(8) cleanup_read(2)])
  then show "json_le (stored_json r) (JObj fs)"
    unfolding stored_json_def by (rule obj_le [OF stored_distinct])
  have some: "x = Some a \<Longrightarrow> rd_optional rd v = Inr x \<Longrightarrow> \<exists>j. v = Some j \<and> rd (Some j) = Inr a"
    for rd :: "json option \<Rightarrow> store_error + 'z" and v x a
    by (cases v) (auto simp: rd_optional_Inr)
  show "record_ok r"
    using plain pair_read(1) [OF snap [unfolded sn]] artifacts_read(1) [OF arts [unfolded ar]]
      some [OF _ opts(1)] some [OF _ opts(2)] some [OF _ opts(3)] some [OF _ opts(5)] some [OF _ opts(6)]
      some [OF _ opts(7)] some [OF _ opts(8)]
    unfolding record_ok_def pred_option_iff
    by (simp add: reader_iffs time_ok_def result_reads) (metis error_read(1) cleanup_read(1))
qed

section \<open>The validator of stored records\<close>

definition encode_stored :: "stored_run \<Rightarrow> jsv" where
  "encode_stored r = json_value (stored_json r)"

interpretation vstored: validator parseStoredRun encode_stored wf_stored
proof
  fix v r assume "parseStoredRun v = Inr r"
  then obtain fs where c: "cloneSafeData v = Inr (JObj fs)" and p: "parse_fields fs = Inr r"
    by (auto simp: parseStoredRun_def split: sum.splits json.splits)
  show "wf_stored r"
    using parse_fields_read [OF p] within_budget_le vsafe.decode_wf [OF c] by (auto simp: wf_stored_def)
next
  fix r assume "wf_stored r"
  then show "parseStoredRun (encode_stored r) = Inr r"
    using vsafe.decode_encode [of "stored_json r"] parse_fields_reads [of r]
    by (simp add: wf_stored_def parseStoredRun_def encode_stored_def stored_json_def)
qed

end
