(* ===== verification/RunStore.thy ===== *)
theory RunStore
  imports StoredRunProps
begin

text \<open>
  The durable run store: \<open>packages/service/src/stores/file-run-store.ts\<close>, \<open>run-store-file.ts\<close> and
  \<open>atomic-file.ts\<close>. The store keeps two maps and one file. Mutations are queued behind one promise, so
  each runs alone; a mutation that throws, or whose file write fails, puts the maps back. The arguments
  \<open>max_bytes\<close> and \<open>text_bytes\<close> are the configured limit and the UTF-8 length of the serialized file;
  \<open>io\<close> says whether the file system accepts the write.
\<close>

section \<open>State\<close>

text \<open>The file: absent, or a text with its length and what \<open>JSON.parse\<close> makes of it.\<close>

datatype disk = DiskAbsent | DiskText nat "json option"

record run_store =
  st_runs :: "(string \<times> stored_run) list"
  st_requests :: "(string \<times> string) list"
  st_disk :: disk

datatype store_failure = Failed store_error | FileSystemError

type_synonym 'a outcome_of = "(store_failure + 'a) \<times> run_store"

definition store_result :: "store_error + 'a \<Rightarrow> store_failure + 'a" where
  "store_result r = (case r of Inl e \<Rightarrow> Inl (Failed e) | Inr a \<Rightarrow> Inr a)"

section \<open>The file\<close>

definition store_schema :: string where "store_schema = ''surfaceloom.run-store/v1''"

definition store_json :: "json list \<Rightarrow> json" where
  "store_json js = JObj [(''schemaVersion'', JStr store_schema), (''runs'', JArr js)]"

definition readRunStoreFile :: "nat \<Rightarrow> disk \<Rightarrow> store_error + json list" where
  "readRunStoreFile max_bytes d = (case d of
     DiskAbsent \<Rightarrow> Inr []
   | DiskText n v \<Rightarrow> if max_bytes < n then corrupt else (case v of
       Some (JObj fs) \<Rightarrow> if map_of fs ''schemaVersion'' \<noteq> Some (JStr store_schema) then corrupt
         else (case map_of fs ''runs'' of Some (JArr js) \<Rightarrow> Inr js | _ \<Rightarrow> corrupt)
     | Some JNull \<Rightarrow> Inl StoreInvalid
     | _ \<Rightarrow> corrupt))"

definition st_values :: "run_store \<Rightarrow> stored_run list" where
  "st_values s = map snd (st_runs s)"

text \<open>\<open>writeRunStoreFile\<close>: the limit first, then the write to a temporary file and its renaming.\<close>

definition writeRunStoreFile :: "(json list \<Rightarrow> nat) \<Rightarrow> nat \<Rightarrow> bool \<Rightarrow> json list \<Rightarrow> store_failure + disk" where
  "writeRunStoreFile text_bytes max_bytes io js =
     (if max_bytes < text_bytes js then Inl (Failed StoreConflict)
      else if \<not> io then Inl FileSystemError
      else Inr (DiskText (text_bytes js) (Some (store_json js))))"

definition persist :: "(json list \<Rightarrow> nat) \<Rightarrow> nat \<Rightarrow> bool \<Rightarrow> run_store \<Rightarrow> store_failure + run_store" where
  "persist text_bytes max_bytes io s =
     rbind (writeRunStoreFile text_bytes max_bytes io (map stored_json (st_values s))) (\<lambda>d. Inr (s\<lparr>st_disk := d\<rparr>))"

section \<open>The maps\<close>

definition require_run :: "string \<Rightarrow> run_store \<Rightarrow> store_error + stored_run" where
  "require_run k s = (case map_of (st_runs s) k of None \<Rightarrow> Inl StoreConflict | Some r \<Rightarrow> Inr r)"

definition set_run :: "stored_run \<Rightarrow> run_store \<Rightarrow> store_error + run_store" where
  "set_run r s = (let owner = map_of (st_requests s) (sr_requestId r) in
     if owner \<noteq> None \<and> owner \<noteq> Some (sr_runId r) then corrupt
     else Inr (s\<lparr>st_runs := map_set (sr_runId r) r (st_runs s),
                 st_requests := map_set (sr_requestId r) (sr_runId r) (st_requests s)\<rparr>))"

definition restore :: "run_store \<Rightarrow> run_store \<Rightarrow> run_store" where
  "restore previous s = s\<lparr>st_runs := st_runs previous, st_requests := st_requests previous\<rparr>"

definition clone_record :: "stored_run \<Rightarrow> store_error + stored_run" where
  "clone_record r = parseStoredRun (encode_stored r)"

text \<open>\<open>#mutate\<close>: the operation, then the write when something changed; any failure restores the maps.\<close>

definition mutate :: "(json list \<Rightarrow> nat) \<Rightarrow> nat \<Rightarrow> bool \<Rightarrow> ('a \<Rightarrow> bool) \<Rightarrow> (run_store \<Rightarrow> (store_error + 'a) \<times> run_store)
    \<Rightarrow> run_store \<Rightarrow> 'a outcome_of" where
  "mutate text_bytes max_bytes io changed operation s =
     (case operation s of
        (Inl e, s') \<Rightarrow> (Inl (Failed e), restore s s')
      | (Inr v, s') \<Rightarrow>
          if changed v then (case persist text_bytes max_bytes io s' of
              Inl e \<Rightarrow> (Inl e, restore s s') | Inr s'' \<Rightarrow> (Inr v, s''))
          else (Inr v, s'))"

definition update_run :: "(stored_run \<Rightarrow> store_error + jfields) \<Rightarrow> string \<Rightarrow> run_store \<Rightarrow> (store_error + stored_run) \<times> run_store" where
  "update_run change k s =
     (if \<not> run_id_ok k then (Inl StoreInvalid, s)
      else case rbind (require_run k s) (\<lambda>cur. rbind (change cur) (\<lambda>fs. parseStoredRun (json_value (JObj fs)))) of
        Inl e \<Rightarrow> (Inl e, s)
      | Inr r \<Rightarrow> (case set_run r s of Inl e \<Rightarrow> (Inl e, s) | Inr s' \<Rightarrow> (clone_record r, s')))"

section \<open>Object literals\<close>

text \<open>\<open>{ ...fs, k: v }\<close> written to JSON and read back: an \<open>undefined\<close> value leaves no field.\<close>

definition put :: "string \<Rightarrow> json option \<Rightarrow> jfields \<Rightarrow> jfields" where
  "put k v fs = (case v of None \<Rightarrow> map_delete k fs | Some j \<Rightarrow> map_set k j fs)"

fun spread :: "jfields \<Rightarrow> (string \<times> json option) list \<Rightarrow> jfields" where
  "spread fs [] = fs"
| "spread fs ((k, v) # ups) = spread (put k v fs) ups"

definition jint :: "int \<Rightarrow> json" where "jint n = JNum (of_int n)"

definition member :: "json option \<Rightarrow> string \<Rightarrow> store_error + json option" where
  "member v k = (case v of
     None \<Rightarrow> Inl StoreInvalid | Some JNull \<Rightarrow> Inl StoreInvalid
   | Some (JObj fs) \<Rightarrow> Inr (map_of fs k) | Some _ \<Rightarrow> Inr None)"

definition truthy :: "json option \<Rightarrow> bool" where
  "truthy v = (case v of None \<Rightarrow> False | Some j \<Rightarrow> (case j of
     JNull \<Rightarrow> False | JBool b \<Rightarrow> b | JNum q \<Rightarrow> q \<noteq> 0 | JStr s \<Rightarrow> s \<noteq> [] | _ \<Rightarrow> True))"

definition safe_copy :: "jsv \<Rightarrow> store_error + json" where
  "safe_copy v = (case cloneSafeData v of Inl _ \<Rightarrow> Inl StoreInvalid | Inr j \<Rightarrow> Inr j)"

section \<open>Operations\<close>

record reservation =
  rv_requestId :: string
  rv_fingerprint :: string
  rv_runId :: string
  rv_snapshot :: jsv
  rv_testId :: string
  rv_parameters :: jsv
  rv_taskId :: "string option"
  rv_links :: "jsv option"
  rv_createdAt :: string

definition valid_request :: "string \<Rightarrow> store_error + string" where
  "valid_request q = (if q = [] \<or> 256 < utf8_length q then Inl StoreInvalid else Inr q)"

definition reservation_value :: "reservation \<Rightarrow> jsv" where
  "reservation_value i = obj ([(''schemaVersion'', VStr run_schema), (''revision'', vint 0),
     (''requestId'', VStr (rv_requestId i)), (''fingerprint'', VStr (rv_fingerprint i)), (''runId'', VStr (rv_runId i)),
     (''snapshot'', rv_snapshot i), (''testId'', VStr (rv_testId i)), (''parameters'', rv_parameters i)]
     @ (case rv_taskId i of None \<Rightarrow> [] | Some t \<Rightarrow> [(''taskId'', VStr t)])
     @ (case rv_links i of None \<Rightarrow> [] | Some l \<Rightarrow> [(''executionLinks'', l)])
     @ [(''status'', VStr ''queued''), (''outcome'', VNull), (''artifacts'', arr []), (''createdAt'', VStr (rv_createdAt i)),
        (''updatedAt'', VStr (rv_createdAt i)), (''tainted'', VBool False)])"

definition reserve_run :: "reservation \<Rightarrow> run_store \<Rightarrow> (store_error + bool \<times> stored_run) \<times> run_store" where
  "reserve_run i s = (case valid_request (rv_requestId i) of
     Inl e \<Rightarrow> (Inl e, s)
   | Inr q \<Rightarrow> (case map_of (st_requests s) q of
       Some k \<Rightarrow> (rbind (require_run k s) (\<lambda>r.
         if sr_fingerprint r \<noteq> rv_fingerprint i then Inl StoreConflict else Inr (False, r)), s)
     | None \<Rightarrow>
         if map_has (st_runs s) (rv_runId i) then (Inl StoreConflict, s)
         else (case rbind (parseStoredRun (reservation_value i)) (\<lambda>r. rbind (set_run r s) (\<lambda>s'. Inr (r, s'))) of
             Inl e \<Rightarrow> (Inl e, s) | Inr (r, s') \<Rightarrow> (Inr (True, r), s'))))"

definition mark_running :: "string \<Rightarrow> stored_run \<Rightarrow> store_error + jfields" where
  "mark_running startedAt r =
     (if sr_status r \<noteq> RunQueued then Inl StoreConflict
      else Inr (spread (stored_fields r) [(''revision'', Some (jint (sr_revision r + 1))),
        (''status'', Some (JStr ''running'')), (''startedAt'', Some (JStr startedAt)), (''updatedAt'', Some (JStr startedAt))]))"

definition mark_cancelling :: "string \<Rightarrow> stored_run \<Rightarrow> store_error + jfields" where
  "mark_cancelling updatedAt r =
     (if isTerminal (sr_status r) then Inr (stored_fields r)
      else if sr_status r = RunCancelling then Inr (stored_fields r)
      else if sr_status r \<noteq> RunRunning \<and> sr_status r \<noteq> RunQueued then Inl StoreConflict
      else Inr (spread (stored_fields r) [(''revision'', Some (jint (sr_revision r + 1))),
        (''status'', Some (JStr ''cancelling'')), (''updatedAt'', Some (JStr updatedAt))]))"

text \<open>\<open>mergeArtifacts\<close>: by identity, the later one in the place of the earlier.\<close>

definition iterate :: "json option \<Rightarrow> store_error + json list" where
  "iterate v = (case v of
     Some (JArr js) \<Rightarrow> Inr js | Some (JStr s) \<Rightarrow> Inr (map (\<lambda>c. JStr [c]) s) | _ \<Rightarrow> Inl StoreInvalid)"

fun merge_into :: "json list \<Rightarrow> (string \<times> artifact) list \<Rightarrow> store_error + (string \<times> artifact) list" where
  "merge_into [] m = Inr m"
| "merge_into (j # js) m = rbind (parseArtifact (Some j)) (\<lambda>a. merge_into js (map_set (af_artifactId a) a m))"

definition mergeArtifacts :: "artifact list \<Rightarrow> json option \<Rightarrow> store_error + artifact list" where
  "mergeArtifacts left right =
     rbind (iterate right) (\<lambda>js.
     rbind (merge_into js (map_set_all (map (\<lambda>a. (af_artifactId a, a)) left) [])) (\<lambda>m. Inr (map snd m)))"

definition artifacts_json :: "artifact list \<Rightarrow> json" where
  "artifacts_json as = JArr (map artifact_json as)"

definition finish_updates :: "stored_run \<Rightarrow> jfields \<Rightarrow> artifact list \<Rightarrow> cleanup_receipt option \<Rightarrow> json option
    \<Rightarrow> (string \<times> json option) list" where
  "finish_updates r safe as released cleanup_tainted =
     [(''revision'', Some (jint (sr_revision r + 1))), (''status'', map_of safe ''executionStatus''),
      (''outcome'', map_of safe ''outcome''), (''artifacts'', Some (artifacts_json as)),
      (''updatedAt'', map_of safe ''finishedAt''), (''finishedAt'', map_of safe ''finishedAt''),
      (''result'', Some (JObj (spread safe [(''artifacts'', Some (artifacts_json as))])))]
     @ (if map_of safe ''executionStatus'' = Some (JStr ''completed'') then [] else [(''error'', map_of safe ''error'')])
     @ [(''cleanup'', map_of safe ''cleanup'')]
     @ (case released of None \<Rightarrow> [] | Some c \<Rightarrow> [(''workspaceRelease'', Some (cleanup_json c))])
     @ [(''tainted'', if truthy cleanup_tainted then cleanup_tainted
           else Some (JBool (case released of None \<Rightarrow> False | Some c \<Rightarrow> cu_tainted c)))]"

definition finish_run :: "jsv \<Rightarrow> cleanup_receipt option \<Rightarrow> stored_run \<Rightarrow> store_error + jfields" where
  "finish_run result receipt r =
     (if isTerminal (sr_status r) then Inl StoreConflict else
     rbind (safe_copy result) (\<lambda>safe.
     rbind (member (Some safe) ''runId'') (\<lambda>run.
     if run \<noteq> Some (JStr (sr_runId r)) then Inl StoreConflict else
     rbind (member (Some safe) ''snapshot'') (\<lambda>snap.
     rbind (member snap ''snapshotId'') (\<lambda>sid.
     if sid \<noteq> Some (JStr (fst (sr_snapshot r))) then Inl StoreConflict else
     rbind (case receipt of None \<Rightarrow> Inr None
            | Some c \<Rightarrow> rbind (parseCleanup (sr_runId r) (Some (cleanup_json c))) (\<lambda>x. Inr (Some x))) (\<lambda>released.
     rbind (rd_record (Some safe)) (\<lambda>fs.
     rbind (mergeArtifacts (sr_artifacts r) (map_of fs ''artifacts'')) (\<lambda>as.
     rbind (member (map_of fs ''cleanup'') ''tainted'') (\<lambda>t.
     Inr (spread (stored_fields r) (finish_updates r fs as released t)))))))))))"

text \<open>The result a run gets that did not report one, in \<open>interrupt\<close> and in \<open>recoverInterrupted\<close>.\<close>

definition interrupted_result :: "stored_run \<Rightarrow> json \<Rightarrow> json \<Rightarrow> string \<Rightarrow> jfields" where
  "interrupted_result r cleanup err finishedAt =
     [(''runId'', JStr (sr_runId r)), (''snapshot'', pair_json (sr_snapshot r)), (''testId'', JStr (sr_testId r)),
      (''parameters'', JObj (sr_parameters r))]
     @ opt_field ''taskId'' JStr (sr_taskId r) @ opt_field ''executionLinks'' JObj (sr_executionLinks r)
     @ [(''startedAt'', JStr (case sr_startedAt r of None \<Rightarrow> sr_createdAt r | Some t \<Rightarrow> t)),
        (''finishedAt'', JStr finishedAt), (''artifacts'', artifacts_json (sr_artifacts r)), (''cleanup'', cleanup),
        (''executionStatus'', JStr ''interrupted''), (''outcome'', JNull), (''error'', err)]"

definition interrupted_fields :: "stored_run \<Rightarrow> json \<Rightarrow> json \<Rightarrow> string \<Rightarrow> jfields" where
  "interrupted_fields r cleanup err finishedAt =
     spread (stored_fields r) [(''revision'', Some (jint (sr_revision r + 1))), (''status'', Some (JStr ''interrupted'')),
       (''outcome'', Some JNull), (''updatedAt'', Some (JStr finishedAt)), (''finishedAt'', Some (JStr finishedAt)),
       (''result'', Some (JObj (interrupted_result r cleanup err finishedAt))), (''error'', Some err),
       (''cleanup'', Some cleanup), (''tainted'', Some (JBool True))]"

definition interrupt_run :: "jsv \<Rightarrow> cleanup_receipt \<Rightarrow> string \<Rightarrow> stored_run \<Rightarrow> store_error + jfields" where
  "interrupt_run err cleanup finishedAt r =
     (if isTerminal (sr_status r) then Inr (stored_fields r) else
     rbind (parseCleanup (sr_runId r) (Some (cleanup_json cleanup))) (\<lambda>c.
     rbind (safe_copy err) (\<lambda>e. Inr (interrupted_fields r (cleanup_json c) e finishedAt))))"

definition attach_artifact :: "artifact \<Rightarrow> string \<Rightarrow> stored_run \<Rightarrow> store_error + jfields" where
  "attach_artifact a updatedAt r =
     (if isTerminal (sr_status r) then Inl StoreConflict else
     rbind (parseArtifact (Some (artifact_json a))) (\<lambda>safe.
     if af_runId safe \<noteq> sr_runId r then Inl StoreConflict else
     rbind (mergeArtifacts (sr_artifacts r) (Some (JArr [artifact_json safe]))) (\<lambda>as.
     Inr (spread (stored_fields r) [(''revision'', Some (jint (sr_revision r + 1))),
       (''artifacts'', Some (artifacts_json as)), (''updatedAt'', Some (JStr updatedAt))]))))"

definition recoveryCleanup :: "stored_run \<Rightarrow> string \<Rightarrow> cleanup_receipt" where
  "recoveryCleanup r now = \<lparr>cu_runId = Some (sr_runId r), cu_snapshotId = fst (sr_snapshot r),
     cu_status = ReceiptUnconfirmed, cu_tainted = True, cu_attemptedAt = now,
     cu_detail = Some ''Service restart left process cleanup unconfirmed; workspace remains quarantined.''\<rparr>"

definition restart_error :: run_error where
  "restart_error = \<lparr>xe_code = ''service_restarted'',
     xe_message = ''Service restarted before the run reached a terminal state.'', xe_retryable = True\<rparr>"

fun recover_all :: "string \<Rightarrow> stored_run list \<Rightarrow> stored_run list \<Rightarrow> run_store \<Rightarrow> (store_error + stored_run list) \<times> run_store" where
  "recover_all now [] recovered s = (rmap clone_record recovered, s)"
| "recover_all now (r # rs) recovered s =
     (if isTerminal (sr_status r) then recover_all now rs recovered s
      else case parseStoredRun (json_value (JObj (interrupted_fields r (cleanup_json (recoveryCleanup r now))
          (error_json restart_error) now))) of
        Inl e \<Rightarrow> (Inl e, s)
      | Inr r' \<Rightarrow> (case set_run r' s of
          Inl e \<Rightarrow> (Inl e, s) | Inr s' \<Rightarrow> recover_all now rs (recovered @ [r']) s'))"

definition get_run :: "string \<Rightarrow> run_store \<Rightarrow> store_error + stored_run option" where
  "get_run k s = (if \<not> run_id_ok k then Inl StoreInvalid else
     case map_of (st_runs s) k of None \<Rightarrow> Inr None | Some r \<Rightarrow> rbind (clone_record r) (\<lambda>x. Inr (Some x)))"

definition get_by_request :: "string \<Rightarrow> run_store \<Rightarrow> store_error + stored_run option" where
  "get_by_request q s = rbind (valid_request q) (\<lambda>q. case map_of (st_requests s) q of
     None \<Rightarrow> Inr None
   | Some k \<Rightarrow> rbind (require_run k s) (\<lambda>r. rbind (clone_record r) (\<lambda>x. Inr (Some x))))"

definition list_runs :: "run_store \<Rightarrow> store_error + stored_run list" where
  "list_runs s = rmap clone_record (st_values s)"

text \<open>\<open>open\<close>: the file's records one after the other.\<close>

fun load_all :: "json list \<Rightarrow> run_store \<Rightarrow> store_error + run_store" where
  "load_all [] s = Inr s"
| "load_all (j # js) s = rbind (parseStoredRun (json_value j)) (\<lambda>r. rbind (set_run r s) (load_all js))"

definition open_store :: "nat \<Rightarrow> disk \<Rightarrow> store_error + run_store" where
  "open_store max_bytes d = rbind (readRunStoreFile max_bytes d) (\<lambda>js.
     load_all js \<lparr>st_runs = [], st_requests = [], st_disk = d\<rparr>)"

section \<open>The store as a machine\<close>

datatype store_op =
    OpReserve reservation
  | OpMarkRunning string string
  | OpMarkCancelling string string
  | OpFinish string jsv "cleanup_receipt option"
  | OpInterrupt string jsv cleanup_receipt string
  | OpAttach string artifact string
  | OpRecover string
  | OpRestart

datatype store_reply =
    Reserved bool stored_run
  | Updated stored_run
  | Recovered "stored_run list"
  | Opened
  | StoreRefused store_failure

definition reply :: "('a \<Rightarrow> store_reply) \<Rightarrow> 'a outcome_of \<Rightarrow> run_store \<times> store_reply list" where
  "reply f o' = (snd o', [case fst o' of Inl e \<Rightarrow> StoreRefused e | Inr a \<Rightarrow> f a])"

fun store_step :: "(json list \<Rightarrow> nat) \<Rightarrow> nat \<Rightarrow> run_store \<Rightarrow> bool \<times> store_op \<Rightarrow> run_store \<times> store_reply list" where
  "store_step tb mx s (io, OpReserve i) = reply (\<lambda>(c, r). Reserved c r) (mutate tb mx io (\<lambda>_. True) (reserve_run i) s)"
| "store_step tb mx s (io, OpMarkRunning k t) =
     reply Updated (mutate tb mx io (\<lambda>_. True) (update_run (mark_running t) k) s)"
| "store_step tb mx s (io, OpMarkCancelling k t) =
     reply Updated (mutate tb mx io (\<lambda>_. True) (update_run (mark_cancelling t) k) s)"
| "store_step tb mx s (io, OpFinish k result receipt) =
     reply Updated (mutate tb mx io (\<lambda>_. True) (update_run (finish_run result receipt) k) s)"
| "store_step tb mx s (io, OpInterrupt k err cleanup t) =
     reply Updated (mutate tb mx io (\<lambda>_. True) (update_run (interrupt_run err cleanup t) k) s)"
| "store_step tb mx s (io, OpAttach k a t) =
     reply Updated (mutate tb mx io (\<lambda>_. True) (update_run (attach_artifact a t) k) s)"
| "store_step tb mx s (io, OpRecover now) =
     reply Recovered (mutate tb mx io (\<lambda>rs. rs \<noteq> []) (\<lambda>s. recover_all now (st_values s) [] s) s)"
| "store_step tb mx s (io, OpRestart) = (case open_store mx (st_disk s) of
     Inl e \<Rightarrow> (s, [StoreRefused (Failed e)]) | Inr s' \<Rightarrow> (s', [Opened]))"

definition fresh_store :: run_store where
  "fresh_store = \<lparr>st_runs = [], st_requests = [], st_disk = DiskAbsent\<rparr>"

end
