(* ===== verification/RunStoreProps.thy ===== *)
theory RunStoreProps
  imports RunStore
begin

text \<open>
  What the run store promises. Its two maps mirror each other and the file; an operation either fails
  and leaves memory and file as they were or succeeds with the file holding what memory holds; a record
  keeps its identity, moves forward one revision at a time and is final once terminal.
\<close>

section \<open>The data a copy keeps\<close>

fun plain :: "jsv \<Rightarrow> json" and plain_item :: "jsprop option \<Rightarrow> json" and plain_field :: "pkey \<times> jsprop \<Rightarrow> string \<times> json" where
  "plain (VBool b) = JBool b"
| "plain (VStr t) = JStr t"
| "plain (VNum n) = (case n of Fin q \<Rightarrow> JNum q | _ \<Rightarrow> JNull)"
| "plain (VArr b ps ks) = JArr (map plain_item ps)"
| "plain (VObj p ps) = JObj (map plain_field ps)"
| "plain _ = JNull"
| "plain_item (Some (DataProp e v)) = plain v"
| "plain_item _ = JNull"
| "plain_field (StrKey k, DataProp e v) = (k, plain v)"
| "plain_field _ = ([], JNull)"

lemma clone_plain:
  "clone d st v = Inr (j, s) \<Longrightarrow> j = plain v"
  "clone_items d st ps = Inr (js, s) \<Longrightarrow> js = map plain_item ps"
  "clone_fields d st fs = Inr (gs, s) \<Longrightarrow> gs = map plain_field fs"
  by (induction d st v and d st ps and d st fs arbitrary: j s and js s and gs s rule: clone_clone_items_clone_fields.induct)
    (auto split: jsnum.splits if_splits)

lemma plain_json_value: "plain (json_value j) = j"
proof (induction j)
  case (JArr js)
  then show ?case by (simp add: arr_def map_idI)
next
  case (JObj fs)
  have "plain (json_value (snd f)) = snd f" if "f \<in> set fs" for f
    by (rule JObj [OF that]) (cases f; simp)
  then show ?case by (auto simp: obj_def intro!: map_idI split: prod.split)
qed auto

lemma cloneSafeData_plain: "cloneSafeData v = Inr j \<Longrightarrow> j = plain v"
  by (auto simp: cloneSafeData_def dest: clone_plain(1))

lemma parse_written: "parseStoredRun (json_value (JObj fs)) = Inr r \<longleftrightarrow> within_budget (JObj fs) \<and> parse_fields fs = Inr r"
proof
  assume "parseStoredRun (json_value (JObj fs)) = Inr r"
  then obtain gs where g: "cloneSafeData (json_value (JObj fs)) = Inr (JObj gs)" "parse_fields gs = Inr r"
    by (auto simp: parseStoredRun_def split: sum.splits json.splits)
  from cloneSafeData_plain [OF g(1)] have "gs = fs" by (simp only: plain_json_value) simp
  with g vsafe.decode_wf [OF g(1)] show "within_budget (JObj fs) \<and> parse_fields fs = Inr r" by simp
qed (simp add: parseStoredRun_def vsafe.decode_encode del: json_value.simps)

section \<open>Object literals\<close>

lemma map_of_put: "map_of (put k v fs) k' = (if k' = k then v else map_of fs k')"
  by (cases v) (simp_all add: put_def map_of_map_delete map_of_map_set)

lemma map_of_spread: "map_of (spread fs ups) k = (case map_of (rev ups) k of None \<Rightarrow> map_of fs k | Some v \<Rightarrow> v)"
  by (induction fs ups rule: spread.induct) (auto simp: map_of_put map_add_def split: option.split)

lemma spread_other: "k \<notin> fst ` set ups \<Longrightarrow> map_of (spread fs ups) k = map_of fs k"
  by (induction fs ups rule: spread.induct) (auto simp: map_of_put)

declare spread.simps [simp del]

section \<open>What a record keeps\<close>

definition identity_of :: "stored_run \<Rightarrow> (string \<times> string \<times> string \<times> (string \<times> string) \<times> string) \<times> jfields \<times> string
    \<times> string option \<times> jfields option" where
  "identity_of r = ((sr_requestId r, sr_fingerprint r, sr_runId r, sr_snapshot r, sr_testId r), sr_parameters r,
     sr_createdAt r, sr_taskId r, sr_executionLinks r)"

definition identity_keys :: "string list" where
  "identity_keys = [''schemaVersion'', ''requestId'', ''fingerprint'', ''runId'', ''snapshot'', ''testId'', ''parameters'', ''createdAt'',
     ''taskId'', ''executionLinks'']"

lemma parse_fields_facts:
  assumes "parse_fields fs = Inr r"
  shows "rd_integer (map_of fs ''revision'') = Inr (sr_revision r)"
    "rd_requestKey (map_of fs ''requestId'') = Inr (sr_requestId r)"
    "rd_sha (map_of fs ''fingerprint'') = Inr (sr_fingerprint r)"
    "rd_when run_id_ok (map_of fs ''runId'') = Inr (sr_runId r)"
    "rd_when test_id_ok (map_of fs ''testId'') = Inr (sr_testId r)"
    "rd_choice run_statuses (map_of fs ''status'') = Inr (sr_status r)"
    "rd_pair ''snapshotId'' ''resolvedRevision'' (map_of fs ''snapshot'') = Inr (sr_snapshot r)"
    "rd_record (map_of fs ''parameters'') = Inr (sr_parameters r)"
    "rd_artifacts (map_of fs ''artifacts'') = Inr (sr_artifacts r)"
    "rd_optional (parseResult (sr_runId r) (sr_status r)) (map_of fs ''result'') = Inr (sr_result r)"
    "rd_optional (parseCleanup (sr_runId r)) (map_of fs ''cleanup'') = Inr (sr_cleanup r)"
    "rd_timestamp (map_of fs ''createdAt'') = Inr (sr_createdAt r)"
    "rd_optional (rd_when task_id_ok) (map_of fs ''taskId'') = Inr (sr_taskId r)"
    "rd_optional rd_record (map_of fs ''executionLinks'') = Inr (sr_executionLinks r)"
    "rd_boolean (map_of fs ''tainted'') = Inr (sr_tainted r)"
  using parse_fields_all [OF assms] by blast+

lemma same_identity:
  assumes p: "parse_fields fs = Inr r'" and ok: "record_ok r"
    and same: "\<forall>k \<in> set identity_keys. map_of fs k = map_of (stored_fields r) k"
  shows "identity_of r' = identity_of r"
proof -
  note new = parse_fields_facts [OF p] and old = parse_fields_facts [OF parse_fields_reads [OF ok]]
  have eq: "map_of fs ''requestId'' = map_of (stored_fields r) ''requestId''"
    "map_of fs ''fingerprint'' = map_of (stored_fields r) ''fingerprint''"
    "map_of fs ''runId'' = map_of (stored_fields r) ''runId''"
    "map_of fs ''snapshot'' = map_of (stored_fields r) ''snapshot''"
    "map_of fs ''testId'' = map_of (stored_fields r) ''testId''"
    "map_of fs ''parameters'' = map_of (stored_fields r) ''parameters''"
    "map_of fs ''createdAt'' = map_of (stored_fields r) ''createdAt''"
    "map_of fs ''taskId'' = map_of (stored_fields r) ''taskId''"
    "map_of fs ''executionLinks'' = map_of (stored_fields r) ''executionLinks''"
    using same by (simp_all add: identity_keys_def)
  show ?thesis
    using new [unfolded eq] old by (simp add: identity_of_def)
qed

section \<open>Moves of a record\<close>

fun status_rank :: "run_status \<Rightarrow> nat" where
  "status_rank RunQueued = 0"
| "status_rank RunPreparing = 1"
| "status_rank RunRunning = 2"
| "status_rank RunCancelling = 3"
| "status_rank _ = 4"

text \<open>One operation either leaves a record as it is or moves an unfinished record one revision on.\<close>

definition record_step :: "stored_run \<Rightarrow> stored_run \<Rightarrow> bool" where
  "record_step r r' = (r' = r \<or> (\<not> isTerminal (sr_status r) \<and> identity_of r' = identity_of r
     \<and> sr_revision r' = sr_revision r + 1 \<and> status_rank (sr_status r) \<le> status_rank (sr_status r')))"

lemma rank_le_terminal: "isTerminal st \<Longrightarrow> status_rank x \<le> status_rank st"
  by (cases st; cases x) (simp_all add: isTerminal_def)

lemma rank_le_4 [simp]: "status_rank x \<le> 4"
  by (cases x) simp_all

lemma status_name_inj: "status_name x = status_name y \<longleftrightarrow> x = y"
  using rd_status_Inr [of "Some (JStr (status_name x))" x] rd_status_Inr [of "Some (JStr (status_name x))" y] by auto

lemma status_named: "status_name x = ''running'' \<longleftrightarrow> x = RunRunning" "status_name x = ''cancelling'' \<longleftrightarrow> x = RunCancelling"
  "status_name x = ''interrupted'' \<longleftrightarrow> x = RunInterrupted" "status_name x = ''queued'' \<longleftrightarrow> x = RunQueued"
  by (cases x; simp)+

lemma parsed_status: "parse_fields fs = Inr r \<Longrightarrow> map_of fs ''status'' = Some (JStr (status_name (sr_status r)))"
  using parse_fields_facts(6) by (simp add: rd_status_Inr)

lemma parsed_terminal: "parse_fields fs = Inr r \<Longrightarrow> map_of fs ''result'' \<noteq> None \<Longrightarrow> isTerminal (sr_status r)"
  using parse_fields_facts(10) [of fs r] by (auto simp: rd_optional_Inr result_reads result_ok_def split: option.splits)

text \<open>What every literal with a new revision has in common.\<close>

lemma moved:
  assumes p: "parse_fields (spread (stored_fields r) ups) = Inr r'" and ok: "wf_stored r"
    and "set identity_keys \<inter> fst ` set ups = {}"
    and "map_of (spread (stored_fields r) ups) ''revision'' = Some (jint (sr_revision r + 1))"
  shows "identity_of r' = identity_of r" and "sr_revision r' = sr_revision r + 1"
proof -
  show "identity_of r' = identity_of r"
  proof (rule same_identity [OF p])
    show "\<forall>k \<in> set identity_keys. map_of (spread (stored_fields r) ups) k = map_of (stored_fields r) k"
      using assms(3) by (blast intro: spread_other)
  qed (use ok in \<open>simp add: wf_stored_def\<close>)
  show "sr_revision r' = sr_revision r + 1"
    using parse_fields_facts(1) [OF p] assms(4) by (simp add: rd_integer_Inr jint_def flip: of_int_eq_iff)
qed

lemmas literal_simps = map_of_spread identity_keys_def jint_def

lemma mark_running_step:
  assumes "wf_stored r" "mark_running t r = Inr fs" "parse_fields fs = Inr r'"
  shows "record_step r r'" and "sr_status r = RunQueued \<and> sr_status r' = RunRunning"
proof -
  have q: "sr_status r = RunQueued" and fs: "fs = spread (stored_fields r) [(''revision'', Some (jint (sr_revision r + 1))),
        (''status'', Some (JStr ''running'')), (''startedAt'', Some (JStr t)), (''updatedAt'', Some (JStr t))]"
    using assms(2) by (auto simp: mark_running_def split: if_splits)
  note m = moved [OF assms(3) [unfolded fs] assms(1)]
  have st: "sr_status r' = RunRunning"
    using parsed_status [OF assms(3)] by (simp add: fs literal_simps status_named [symmetric])
  show "record_step r r'" unfolding record_step_def
    using m q st by (simp add: literal_simps isTerminal_def)
  show "sr_status r = RunQueued \<and> sr_status r' = RunRunning" using q st by simp
qed

lemma literal_step:
  assumes "parse_fields (spread (stored_fields r) ups) = Inr r'" and "wf_stored r"
    and "set identity_keys \<inter> fst ` set ups = {}"
    and "map_of (spread (stored_fields r) ups) ''revision'' = Some (jint (sr_revision r + 1))"
    and "\<not> isTerminal (sr_status r)" and "status_rank (sr_status r) \<le> status_rank (sr_status r')"
  shows "record_step r r'"
  using moved [OF assms(1-4)] assms(5,6) by (simp add: record_step_def)

lemma unchanged_step:
  assumes "wf_stored r" "parse_fields (stored_fields r) = Inr r'"
  shows "r' = r" and "record_step r r'"
  using assms parse_fields_reads [of r] by (auto simp: wf_stored_def record_step_def)

lemma parsed_kept_status:
  assumes "parse_fields (spread (stored_fields r) ups) = Inr r'" and "''status'' \<notin> fst ` set ups" and "wf_stored r"
  shows "sr_status r' = sr_status r"
  using parsed_status [OF assms(1)] assms(3) parsed_status [OF parse_fields_reads [of r]]
  by (simp add: spread_other [OF assms(2)] wf_stored_def status_name_inj)

lemma mark_cancelling_step:
  assumes "wf_stored r" "mark_cancelling t r = Inr fs" "parse_fields fs = Inr r'"
  shows "record_step r r'"
proof (cases "isTerminal (sr_status r) \<or> sr_status r = RunCancelling")
  case True
  then have "fs = stored_fields r" using assms(2) by (auto simp: mark_cancelling_def split: if_splits)
  then show ?thesis using unchanged_step(2) assms by simp
next
  case False
  then have src: "sr_status r = RunRunning \<or> sr_status r = RunQueued"
    and fs: "fs = spread (stored_fields r) [(''revision'', Some (jint (sr_revision r + 1))),
        (''status'', Some (JStr ''cancelling'')), (''updatedAt'', Some (JStr t))]"
    using assms(2) by (auto simp: mark_cancelling_def split: if_splits)
  have "sr_status r' = RunCancelling"
    using parsed_status [OF assms(3)] by (simp add: fs literal_simps status_named [symmetric])
  then show ?thesis
    by (intro literal_step [OF assms(3) [unfolded fs] assms(1)]) (use src False in \<open>auto simp: literal_simps\<close>)
qed

lemma attach_step:
  assumes "wf_stored r" "attach_artifact a t r = Inr fs" "parse_fields fs = Inr r'"
  shows "record_step r r'"
proof -
  obtain as where live: "\<not> isTerminal (sr_status r)" and fs: "fs = spread (stored_fields r)
      [(''revision'', Some (jint (sr_revision r + 1))), (''artifacts'', Some (artifacts_json as)), (''updatedAt'', Some (JStr t))]"
    using assms(2) by (auto simp: attach_artifact_def split: if_splits)
  have "sr_status r' = sr_status r"
    by (rule parsed_kept_status [OF assms(3) [unfolded fs] _ assms(1)]) simp
  then show ?thesis
    by (intro literal_step [OF assms(3) [unfolded fs] assms(1)]) (use live in \<open>simp_all add: literal_simps\<close>)
qed

lemma interrupted_step:
  assumes "wf_stored r" "\<not> isTerminal (sr_status r)" "parse_fields (interrupted_fields r c e t) = Inr r'"
  shows "record_step r r'" and "sr_status r' = RunInterrupted" and "sr_tainted r'"
    and "rd_optional (parseCleanup (sr_runId r)) (Some c) = Inr (sr_cleanup r')" and "sr_revision r' = sr_revision r + 1"
proof -
  note p = assms(3) [unfolded interrupted_fields_def]
  show st: "sr_status r' = RunInterrupted"
    using parsed_status [OF p] by (simp add: literal_simps status_named [symmetric])
  have d: "set identity_keys \<inter> fst ` set [(''revision'', Some (jint (sr_revision r + 1))), (''status'', Some (JStr ''interrupted'')),
       (''outcome'', Some JNull), (''updatedAt'', Some (JStr t)), (''finishedAt'', Some (JStr t)),
       (''result'', Some (JObj (interrupted_result r c e t))), (''error'', Some e),
       (''cleanup'', Some c), (''tainted'', Some (JBool True))] = {}"
    by (simp add: identity_keys_def)
  show "record_step r r'"
    by (rule literal_step [OF p assms(1) d _ assms(2)]) (simp_all add: st literal_simps rank_le_terminal isTerminal_def)
  have id: "identity_of r' = identity_of r" "sr_revision r' = sr_revision r + 1"
    by (rule moved [OF p assms(1) d]; simp add: literal_simps)+
  then show "sr_revision r' = sr_revision r + 1" by simp
  show "sr_tainted r'" using parse_fields_facts(15) [OF p] by (simp add: literal_simps rd_boolean_Inr)
  show "rd_optional (parseCleanup (sr_runId r)) (Some c) = Inr (sr_cleanup r')"
    using parse_fields_facts(11) [OF p] id by (simp add: literal_simps identity_of_def)
qed

lemma interrupt_step:
  assumes "wf_stored r" "interrupt_run err c t r = Inr fs" "parse_fields fs = Inr r'"
  shows "record_step r r'"
proof (cases "isTerminal (sr_status r)")
  case True
  then show ?thesis using unchanged_step(2) assms by (simp add: interrupt_run_def)
next
  case False
  then show ?thesis using interrupted_step(1) [OF assms(1) False] assms(2,3) by (auto simp: interrupt_run_def)
qed

text \<open>The literal of \<open>finish\<close>: the fields it sets, whatever the result says.\<close>

lemma finish_updates_facts:
  "set identity_keys \<inter> fst ` set (finish_updates r safe as released t) = {}"
  "map_of (rev (finish_updates r safe as released t)) ''revision'' = Some (Some (jint (sr_revision r + 1)))"
  "\<exists>j. map_of (rev (finish_updates r safe as released t)) ''result'' = Some (Some j)"
  by (cases released; simp add: finish_updates_def identity_keys_def)+

lemma finish_cases:
  assumes "finish_run result receipt r = Inr fs"
  obtains safe as released t where "fs = spread (stored_fields r) (finish_updates r safe as released t)"
    "\<not> isTerminal (sr_status r)"
  using assms by (auto simp: finish_run_def split: if_splits)

lemma finish_step:
  assumes "wf_stored r" "finish_run result receipt r = Inr fs" "parse_fields fs = Inr r'"
  shows "record_step r r'" and "isTerminal (sr_status r')"
proof -
  obtain safe as released t where fs: "fs = spread (stored_fields r) (finish_updates r safe as released t)"
    and live: "\<not> isTerminal (sr_status r)"
    using finish_cases [OF assms(2)] by metis
  note ups = finish_updates_facts [of r safe as released t]
  note p = assms(3) [unfolded fs]
  show t: "isTerminal (sr_status r')" by (rule parsed_terminal [OF p]) (use ups(3) in \<open>auto simp: map_of_spread\<close>)
  show "record_step r r'"
    by (rule literal_step [OF p assms(1) ups(1) _ live rank_le_terminal [OF t]]) (simp add: map_of_spread ups(2))
qed

section \<open>The maps in memory\<close>

definition mem_ok :: "run_store \<Rightarrow> bool" where
  "mem_ok s = (distinct (map fst (st_runs s)) \<and> distinct (map fst (st_requests s))
     \<and> (\<forall>k r. (k, r) \<in> set (st_runs s) \<longrightarrow> sr_runId r = k \<and> wf_stored r)
     \<and> st_requests s = map (\<lambda>e. (sr_requestId (snd e), fst e)) (st_runs s))"

definition store_ok :: "nat \<Rightarrow> run_store \<Rightarrow> bool" where
  "store_ok mx s = (mem_ok s \<and> readRunStoreFile mx (st_disk s) = Inr (map stored_json (st_values s)))"

lemma mem_ok_disk [simp]: "mem_ok (s\<lparr>st_disk := d\<rparr>) \<longleftrightarrow> mem_ok s"
  by (simp add: mem_ok_def)

lemma mem_okD:
  assumes "mem_ok s" "map_of (st_runs s) k = Some r"
  shows "sr_runId r = k" "wf_stored r" "map_of (st_requests s) (sr_requestId r) = Some k"
proof -
  have in': "(k, r) \<in> set (st_runs s)" by (rule map_of_SomeD [OF assms(2)])
  then show "sr_runId r = k" "wf_stored r" using assms(1) by (auto simp: mem_ok_def)
  have "(sr_requestId r, k) \<in> set (st_requests s)" using in' assms(1) by (force simp: mem_ok_def image_iff)
  moreover have "distinct (map fst (st_requests s))" using assms(1) unfolding mem_ok_def by blast
  ultimately show "map_of (st_requests s) (sr_requestId r) = Some k" by (rule map_of_is_SomeI [rotated])
qed

lemma mem_ok_request:
  assumes "mem_ok s" "map_of (st_requests s) q = Some k"
  obtains r where "map_of (st_runs s) k = Some r" "sr_requestId r = q"
proof -
  from map_of_SomeD [OF assms(2)] assms(1) obtain r where "(k, r) \<in> set (st_runs s)" "sr_requestId r = q"
    by (auto simp: mem_ok_def)
  then show ?thesis using assms(1) that by (auto simp: mem_ok_def)
qed

lemma map_set_same: "map_of m k = Some v \<Longrightarrow> map_set k v m = m"
  by (induction k v m rule: map_set.induct) (auto split: if_splits)

lemma map_map_set:
  assumes "map_of m k = Some v" and "f (k, v') = f (k, v)"
  shows "map f (map_set k v' m) = map f m"
  using assms by (induction k v' m rule: map_set.induct) (auto split: if_splits)

text \<open>Replacing the record of a run by one of the same request.\<close>

lemma set_run_replace:
  assumes "mem_ok s" "map_of (st_runs s) k = Some r" "wf_stored r'" "sr_runId r' = k" "sr_requestId r' = sr_requestId r"
  shows "set_run r' s = Inr (s\<lparr>st_runs := map_set k r' (st_runs s)\<rparr>)"
    and "mem_ok (s\<lparr>st_runs := map_set k r' (st_runs s)\<rparr>)"
proof -
  note d = mem_okD [OF assms(1,2)]
  show "set_run r' s = Inr (s\<lparr>st_runs := map_set k r' (st_runs s)\<rparr>)"
    using d assms(4,5) by (simp add: set_run_def Let_def map_set_same)
  have "map (\<lambda>e. (sr_requestId (snd e), fst e)) (map_set k r' (st_runs s))
      = map (\<lambda>e. (sr_requestId (snd e), fst e)) (st_runs s)"
    by (rule map_map_set [OF assms(2)]) (simp add: assms(5))
  then show "mem_ok (s\<lparr>st_runs := map_set k r' (st_runs s)\<rparr>)"
    using assms set_map_set [of "st_runs s" k r'] by (auto simp: mem_ok_def distinct_map_set)
qed

text \<open>Adding a run under a new identity and a new request.\<close>

lemma set_run_new:
  assumes "mem_ok s" "map_of (st_runs s) (sr_runId r) = None" "map_of (st_requests s) (sr_requestId r) = None" "wf_stored r"
  shows "set_run r s = Inr (s\<lparr>st_runs := st_runs s @ [(sr_runId r, r)],
      st_requests := st_requests s @ [(sr_requestId r, sr_runId r)]\<rparr>)"
    and "mem_ok (s\<lparr>st_runs := st_runs s @ [(sr_runId r, r)], st_requests := st_requests s @ [(sr_requestId r, sr_runId r)]\<rparr>)"
proof -
  have fresh: "sr_runId r \<notin> fst ` set (st_runs s)" "sr_requestId r \<notin> fst ` set (st_requests s)"
    using assms(2,3) by (simp_all add: map_of_eq_None_iff)
  show "set_run r s = Inr (s\<lparr>st_runs := st_runs s @ [(sr_runId r, r)],
      st_requests := st_requests s @ [(sr_requestId r, sr_runId r)]\<rparr>)"
    using assms(3) by (simp add: set_run_def Let_def map_set_fresh fresh)
  show "mem_ok (s\<lparr>st_runs := st_runs s @ [(sr_runId r, r)], st_requests := st_requests s @ [(sr_requestId r, sr_runId r)]\<rparr>)"
    (is "mem_ok ?s")
  proof -
    have keys: "distinct (map fst (st_runs s))" "distinct (map fst (st_requests s))"
      and recs: "\<forall>k r. (k, r) \<in> set (st_runs s) \<longrightarrow> sr_runId r = k \<and> wf_stored r"
      and eq: "st_requests s = map (\<lambda>e. (sr_requestId (snd e), fst e)) (st_runs s)"
      using assms(1) unfolding mem_ok_def by blast+
    have "distinct (map fst (st_runs ?s))" "distinct (map fst (st_requests ?s))" using keys fresh by simp_all
    moreover have "st_requests ?s = map (\<lambda>e. (sr_requestId (snd e), fst e)) (st_runs ?s)" by (simp add: eq)
    ultimately show ?thesis using recs assms(4) by (auto simp: mem_ok_def)
  qed
qed

lemma clone_wf: "wf_stored r \<Longrightarrow> clone_record r = Inr r"
  by (simp add: clone_record_def vstored.decode_encode)

section \<open>Changing one record\<close>

text \<open>
  The contract of the functions \<open>#update\<close> is given: what they make of a well-formed record, once
  parsed, is a step of that record.
\<close>

locale record_change =
  fixes change :: "stored_run \<Rightarrow> store_error + jfields"
  assumes change_steps: "wf_stored r \<Longrightarrow> change r = Inr fs \<Longrightarrow> parse_fields fs = Inr r' \<Longrightarrow> record_step r r'"
begin

lemma update_cases:
  assumes "mem_ok s"
  obtains (failed) e where "update_run change k s = (Inl e, s)"
  | (updated) r fs r' where "map_of (st_runs s) k = Some r" "change r = Inr fs" "parse_fields fs = Inr r'"
      "record_step r r'" "wf_stored r'"
      "update_run change k s = (Inr r', s\<lparr>st_runs := map_set k r' (st_runs s)\<rparr>)"
      "mem_ok (s\<lparr>st_runs := map_set k r' (st_runs s)\<rparr>)"
proof (cases "\<exists>r fs r'. run_id_ok k \<and> map_of (st_runs s) k = Some r \<and> change r = Inr fs
    \<and> parseStoredRun (json_value (JObj fs)) = Inr r'")
  case True
  then obtain r fs r' where r: "run_id_ok k" "map_of (st_runs s) k = Some r" "change r = Inr fs"
    "parseStoredRun (json_value (JObj fs)) = Inr r'" by metis
  note d = mem_okD [OF assms r(2)]
  have wf: "wf_stored r'" by (rule vstored.decode_wf [OF r(4)])
  have p: "parse_fields fs = Inr r'" using r(4) by (simp only: parse_written)
  have step: "record_step r r'" by (rule change_steps [OF d(2) r(3) p])
  then have id: "sr_runId r' = k" "sr_requestId r' = sr_requestId r"
    using d(1) by (auto simp: record_step_def identity_of_def)
  note set' = set_run_replace [OF assms r(2) wf id]
  show ?thesis
    by (rule updated [OF r(2,3) p step wf _ set'(2)])
      (simp add: update_run_def require_run_def r clone_wf [OF wf] set'(1) del: json_value.simps)
next
  case False
  have "\<exists>e. rbind (require_run k s) (\<lambda>cur. rbind (change cur) (\<lambda>fs. parseStoredRun (json_value (JObj fs)))) = Inl e"
    if "run_id_ok k"
    using False that
    by (cases "rbind (require_run k s) (\<lambda>cur. rbind (change cur) (\<lambda>fs. parseStoredRun (json_value (JObj fs))))")
      (auto simp: require_run_def simp del: json_value.simps split: option.splits)
  then have "\<exists>e. update_run change k s = (Inl e, s)"
    by (cases "run_id_ok k") (auto simp: update_run_def simp del: json_value.simps)
  then show ?thesis using failed by blast
qed

end

interpretation running_change: record_change "mark_running t" for t
  by unfold_locales (rule mark_running_step(1))

interpretation cancelling_change: record_change "mark_cancelling t" for t
  by unfold_locales (rule mark_cancelling_step)

interpretation finish_change: record_change "finish_run result receipt" for result receipt
  by unfold_locales (rule finish_step(1))

interpretation interrupt_change: record_change "interrupt_run err cleanup t" for err cleanup t
  by unfold_locales (rule interrupt_step)

interpretation attach_change: record_change "attach_artifact a t" for a t
  by unfold_locales (rule attach_step)

section \<open>Operations on the maps\<close>

definition steps_all :: "run_store \<Rightarrow> run_store \<Rightarrow> bool" where
  "steps_all s s' = (\<forall>k r. map_of (st_runs s) k = Some r \<longrightarrow> (\<exists>r'. map_of (st_runs s') k = Some r' \<and> record_step r r'))"

lemma record_step_refl [simp]: "record_step r r"
  by (simp add: record_step_def)

lemma steps_all_same: "st_runs s' = st_runs s \<Longrightarrow> steps_all s s'"
  by (simp add: steps_all_def)

text \<open>What \<open>#mutate\<close> needs of an operation: the file is not touched, and a result comes with good maps.\<close>

definition operation_ok :: "run_store \<Rightarrow> (store_error + 'a) \<times> run_store \<Rightarrow> bool" where
  "operation_ok s o' = (st_disk (snd o') = st_disk s \<and> (\<forall>v s'. o' = (Inr v, s') \<longrightarrow> mem_ok s' \<and> steps_all s s'))"

context record_change begin

lemma update_ok: "mem_ok s \<Longrightarrow> operation_ok s (update_run change k s)"
  by (erule update_cases [of s k]) (auto simp: operation_ok_def steps_all_def map_of_map_set)

end

lemma reservation_parsed:
  assumes "parseStoredRun (reservation_value i) = Inr r"
  shows "sr_requestId r = rv_requestId i" "sr_runId r = rv_runId i" "sr_fingerprint r = rv_fingerprint i"
    "sr_status r = RunQueued" "sr_revision r = 0" "\<not> sr_tainted r" "wf_stored r"
proof -
  obtain fs where c: "cloneSafeData (reservation_value i) = Inr (JObj fs)" and p: "parse_fields fs = Inr r"
    using assms by (auto simp: parseStoredRun_def split: sum.splits json.splits)
  have "JObj fs = plain (reservation_value i)" by (rule cloneSafeData_plain [OF c])
  then have "map_of fs ''requestId'' = Some (JStr (rv_requestId i))" "map_of fs ''runId'' = Some (JStr (rv_runId i))"
    "map_of fs ''fingerprint'' = Some (JStr (rv_fingerprint i))" "map_of fs ''revision'' = Some (JNum (of_int 0))"
    "map_of fs ''status'' = Some (JStr ''queued'')" "map_of fs ''tainted'' = Some (JBool False)"
    by (simp_all add: reservation_value_def obj_def split: option.split)
  then show "sr_requestId r = rv_requestId i" "sr_runId r = rv_runId i" "sr_fingerprint r = rv_fingerprint i"
    "sr_status r = RunQueued" "sr_revision r = 0" "\<not> sr_tainted r"
    using parse_fields_facts(1-4,15) [OF p] parsed_status [OF p] by (auto simp: reader_iffs status_named [symmetric])
  show "wf_stored r" by (rule vstored.decode_wf [OF assms])
qed

lemma reserve_cases:
  assumes "mem_ok s"
  obtains (failed) e where "reserve_run i s = (Inl e, s)"
  | (reused) r where "reserve_run i s = (Inr (False, r), s)" "map_of (st_runs s) (sr_runId r) = Some r"
      "sr_requestId r = rv_requestId i" "sr_fingerprint r = rv_fingerprint i"
  | (created) r s' where "reserve_run i s = (Inr (True, r), s')" "mem_ok s'" "st_disk s' = st_disk s"
      "st_runs s' = st_runs s @ [(sr_runId r, r)]" "map_of (st_runs s) (sr_runId r) = None"
      "map_of (st_requests s) (rv_requestId i) = None" "parseStoredRun (reservation_value i) = Inr r"
proof (cases "map_of (st_requests s) (rv_requestId i)")
  case None
  show ?thesis
  proof (cases "valid_request (rv_requestId i) = Inr (rv_requestId i) \<and> \<not> map_has (st_runs s) (rv_runId i)
      \<and> (\<exists>r. parseStoredRun (reservation_value i) = Inr r)")
    case True
    then obtain r where r: "parseStoredRun (reservation_value i) = Inr r" by blast
    note id = reservation_parsed [OF r]
    have fresh: "map_of (st_runs s) (sr_runId r) = None" using True id by (simp add: map_has_iff)
    have free: "map_of (st_requests s) (sr_requestId r) = None" using None id by simp
    note new = set_run_new [OF assms fresh free id(7)]
    show ?thesis
      by (rule created [of r, OF _ new(2)]) (use True None r fresh in \<open>simp_all add: reserve_run_def new(1)\<close>)
  next
    case False
    then have "snd (reserve_run i s) = s \<and> \<not> is_ok (fst (reserve_run i s))" using None
      by (auto simp: reserve_run_def valid_request_def split: if_splits sum.splits)
    then show ?thesis using failed by (cases "reserve_run i s"; cases "fst (reserve_run i s)") (auto simp: is_ok_iff)
  qed
next
  case (Some k)
  obtain r where r: "map_of (st_runs s) k = Some r" "sr_requestId r = rv_requestId i"
    using mem_ok_request [OF assms Some] by metis
  note d = mem_okD(1) [OF assms r(1)]
  have "reserve_run i s = (rbind (valid_request (rv_requestId i)) (\<lambda>_.
      if sr_fingerprint r \<noteq> rv_fingerprint i then Inl StoreConflict else Inr (False, r)), s)"
    using Some r(1) by (auto simp: reserve_run_def valid_request_def require_run_def)
  then show ?thesis using failed reused [of r] r d
    by (cases "valid_request (rv_requestId i)"; cases "sr_fingerprint r = rv_fingerprint i") auto
qed

lemma map_of_added: "map_of m k = None \<Longrightarrow> map_of (m @ [(k, v)]) = (map_of m)(k \<mapsto> v)"
  by (induction m) (auto split: if_splits)

lemma reserve_ok:
  assumes "mem_ok s"
  shows "operation_ok s (reserve_run i s)"
  by (rule reserve_cases [OF assms, of i])
    (use assms in \<open>auto simp: operation_ok_def steps_all_def map_of_added\<close>)

text \<open>\<open>#mutate\<close> on such an operation: a failure leaves the store as it was, a result goes to the file.\<close>

lemma write_reads: "writeRunStoreFile tb mx io js = Inr d \<Longrightarrow> readRunStoreFile mx d = Inr js"
  by (auto simp: writeRunStoreFile_def readRunStoreFile_def store_json_def split: if_splits)

lemma mutate_cases:
  assumes ok: "operation_ok s (operation s)"
    and quiet: "\<And>v s'. operation s = (Inr v, s') \<Longrightarrow> \<not> changed v \<Longrightarrow> s' = s"
  obtains (failed) e where "mutate tb mx io changed operation s = (Inl e, s)"
  | (unchanged) v where "operation s = (Inr v, s)" "mutate tb mx io changed operation s = (Inr v, s)"
  | (written) v s' d where "operation s = (Inr v, s')" "mutate tb mx io changed operation s = (Inr v, s'\<lparr>st_disk := d\<rparr>)"
      "mem_ok s'" "steps_all s s'" "readRunStoreFile mx d = Inr (map stored_json (st_values s'))"
proof -
  obtain res s' where o': "operation s = (res, s')" by fastforce
  have undone: "restore s s' = s" using ok by (simp add: o' operation_ok_def restore_def)
  show ?thesis
  proof (cases res)
    case (Inl e)
    then show ?thesis using o' undone failed by (simp add: mutate_def)
  next
    case v: (Inr v)
    show ?thesis
    proof (cases "changed v")
      case False
      then have "s' = s" using quiet [of v s'] o' v by simp
      then show ?thesis using False o' v unchanged [of v] by (simp add: mutate_def)
    next
      case True
      show ?thesis
      proof (cases "writeRunStoreFile tb mx io (map stored_json (st_values s'))")
        case (Inl e)
        then show ?thesis using True o' v undone failed by (simp add: mutate_def persist_def)
      next
        case (Inr d)
        have "mem_ok s'" "steps_all s s'" using ok o' v by (auto simp: operation_ok_def)
        then show ?thesis using True o' v write_reads [OF Inr] Inr written [of v s' d] by (simp add: mutate_def persist_def)
      qed
    qed
  qed
qed

section \<open>Recovery\<close>

text \<open>What a restart makes of a record that was not terminal.\<close>

definition recovered_as :: "string \<Rightarrow> stored_run \<Rightarrow> stored_run \<Rightarrow> bool" where
  "recovered_as now r r' = (identity_of r' = identity_of r \<and> sr_revision r' = sr_revision r + 1
     \<and> sr_status r' = RunInterrupted \<and> sr_tainted r' \<and> sr_cleanup r' = Some (recoveryCleanup r now))"

lemma receipt_name_inj: "receipt_name x = receipt_name y \<longleftrightarrow> x = y"
  using rd_receipt_Inr [of "Some (JStr (receipt_name x))" x] rd_receipt_Inr [of "Some (JStr (receipt_name x))" y] by auto

lemma cleanup_reads_same: "parseCleanup run (Some (cleanup_json c)) = Inr c' \<Longrightarrow> c' = c"
  by (cases c; cases "cu_runId c"; cases "cu_detail c")
    (auto simp: parseCleanup_def cleanup_json_def cleanup_fields_def opt_field_def reader_iffs rd_optional_def receipt_name_inj)

lemma recovered_record:
  assumes "wf_stored r" "\<not> isTerminal (sr_status r)"
    and "parseStoredRun (json_value (JObj (interrupted_fields r (cleanup_json (recoveryCleanup r now)) (error_json restart_error) now))) = Inr r'"
  shows "recovered_as now r r'" and "record_step r r'" and "wf_stored r'"
proof -
  have p: "parse_fields (interrupted_fields r (cleanup_json (recoveryCleanup r now)) (error_json restart_error) now) = Inr r'"
    using assms(3) by (simp only: parse_written)
  note i = interrupted_step [OF assms(1,2) p]
  show step: "record_step r r'" by (rule i(1))
  have "identity_of r' = identity_of r" using step i(5) by (auto simp: record_step_def)
  moreover have "sr_cleanup r' = Some (recoveryCleanup r now)"
    using i(4) by (auto simp: rd_optional_Inr split: option.splits dest: cleanup_reads_same)
  ultimately show "recovered_as now r r'" using i by (simp add: recovered_as_def)
  show "wf_stored r'" by (rule vstored.decode_wf [OF assms(3)])
qed

lemma recover_all_disk: "st_disk (snd (recover_all now rs acc s)) = st_disk s"
proof (induction now rs acc s rule: recover_all.induct)
  case (2 now r rs acc s)
  then show ?case by (auto simp del: json_value.simps simp: set_run_def Let_def split: sum.split)
qed simp

definition recovery_ok :: "string \<Rightarrow> run_store \<Rightarrow> stored_run list \<Rightarrow> stored_run list \<Rightarrow> stored_run list \<Rightarrow> run_store \<Rightarrow> bool" where
  "recovery_ok now s rs acc v s' = (mem_ok s' \<and> (\<exists>new. v = acc @ new \<and> (new = [] \<longrightarrow> s' = s))
     \<and> dom (map_of (st_runs s')) = dom (map_of (st_runs s)) \<and> (\<forall>k r. map_of (st_runs s) k = Some r \<longrightarrow> (\<exists>r'. map_of (st_runs s') k = Some r' \<and>
      (if r \<in> set rs \<and> \<not> isTerminal (sr_status r) then recovered_as now r r' \<and> record_step r r' \<and> r' \<in> set v else r' = r))))"

lemma recover_all_ok:
  assumes "mem_ok s" "\<forall>r \<in> set rs. map_of (st_runs s) (sr_runId r) = Some r" "distinct (map sr_runId rs)"
    "\<forall>r \<in> set acc. wf_stored r" "recover_all now rs acc s = (Inr v, s')"
  shows "recovery_ok now s rs acc v s'"
  using assms
proof (induction now rs acc s arbitrary: v s' rule: recover_all.induct)
  case (1 now acc s)
  have "rmap clone_record (map id acc) = Inr acc" by (rule rmap_map_Inr) (use 1 in \<open>simp add: clone_wf\<close>)
  with 1 show ?case by (simp add: recovery_ok_def)
next
  case (2 now r rs acc s)
  let ?k = "sr_runId r"
  have here: "map_of (st_runs s) ?k = Some r" using 2 by simp
  show ?case
  proof (cases "isTerminal (sr_status r)")
    case True
    then have "recovery_ok now s rs acc v s'" using 2 by (intro "2.IH"(1)) auto
    moreover have "x \<in> set (r # rs) \<and> \<not> isTerminal (sr_status x) \<longleftrightarrow> x \<in> set rs \<and> \<not> isTerminal (sr_status x)" for x
      using True by auto
    ultimately show ?thesis unfolding recovery_ok_def by presburger
  next
    case False
    note wf = mem_okD(2) [OF "2.prems"(1) here]
    obtain r' s1 where r': "parseStoredRun (json_value (JObj (interrupted_fields r (cleanup_json (recoveryCleanup r now))
          (error_json restart_error) now))) = Inr r'" "set_run r' s = Inr s1"
      and rest: "recover_all now rs (acc @ [r']) s1 = (Inr v, s')"
      using "2.prems"(5) False by (simp del: json_value.simps split: sum.splits)
    note rr = recovered_record [OF wf False r'(1)]
    have id: "sr_runId r' = ?k" "sr_requestId r' = sr_requestId r" "isTerminal (sr_status r')"
      using rr(1) by (auto simp: recovered_as_def identity_of_def isTerminal_def)
    note set' = set_run_replace [OF "2.prems"(1) here rr(3) id(1,2)]
    have s1: "s1 = s\<lparr>st_runs := map_set ?k r' (st_runs s)\<rparr>" using set'(1) r'(2) by simp
    have runs1: "map_of (st_runs s1) k = (if k = ?k then Some r' else map_of (st_runs s) k)" for k
      by (simp add: s1 map_of_map_set)
    have "recovery_ok now s1 rs (acc @ [r']) v s'"
    proof (rule "2.IH"(2) [OF False r' _ _ _ _ rest])
      show "mem_ok s1" using set'(2) by (simp add: s1)
      show "\<forall>x \<in> set rs. map_of (st_runs s1) (sr_runId x) = Some x"
      proof
        fix x assume x: "x \<in> set rs"
        then have "sr_runId x \<noteq> ?k" using "2.prems"(3) by (auto simp: image_iff)
        moreover have "map_of (st_runs s) (sr_runId x) = Some x" using "2.prems"(2) x by simp
        ultimately show "map_of (st_runs s1) (sr_runId x) = Some x" by (simp only: runs1 if_False)
      qed
      show "distinct (map sr_runId rs)" using "2.prems"(3) by simp
      show "\<forall>x \<in> set (acc @ [r']). wf_stored x" using "2.prems"(4) rr(3) by simp
    qed
    then have mem: "mem_ok s'" and new: "\<exists>new. v = acc @ r' # new"
      and keys: "dom (map_of (st_runs s')) = dom (map_of (st_runs s1))"
      and eff: "\<forall>k x. map_of (st_runs s1) k = Some x \<longrightarrow> (\<exists>x'. map_of (st_runs s') k = Some x' \<and>
        (if x \<in> set rs \<and> \<not> isTerminal (sr_status x) then recovered_as now x x' \<and> record_step x x' \<and> x' \<in> set v else x' = x))"
      by (auto simp: recovery_ok_def)
    have "dom (map_of (st_runs s1)) = dom (map_of (st_runs s))" using here by (auto simp: runs1 dom_def)
    with keys have keys: "dom (map_of (st_runs s')) = dom (map_of (st_runs s))" by simp
    have "\<exists>x'. map_of (st_runs s') k = Some x' \<and> (if x \<in> set (r # rs) \<and> \<not> isTerminal (sr_status x)
        then recovered_as now x x' \<and> record_step x x' \<and> x' \<in> set v else x' = x)"
      if x: "map_of (st_runs s) k = Some x" for k x
    proof (cases "k = ?k")
      case True
      then have "x = r" using x here by simp
      moreover have "map_of (st_runs s') k = Some r'" using eff [rule_format, of ?k r'] runs1 [of ?k] True id(3) by simp
      ultimately show ?thesis using rr(1,2) False new by auto
    next
      case other: False
      have "x \<noteq> r" using mem_okD(1) [OF "2.prems"(1) x] other by auto
      moreover have "map_of (st_runs s1) k = Some x" using runs1 [of k] other x by simp
      ultimately show ?thesis using eff [rule_format, of k x] by simp
    qed
    then show ?thesis using mem new keys unfolding recovery_ok_def by blast
  qed
qed

lemma recover_ok:
  assumes "mem_ok s"
  shows "operation_ok s (recover_all now (st_values s) [] s)"
    and "recover_all now (st_values s) [] s = (Inr v, s') \<Longrightarrow> recovery_ok now s (st_values s) [] v s'"
proof -
  have here: "map_of (st_runs s) k = Some r \<and> sr_runId r = k" if "(k, r) \<in> set (st_runs s)" for k r
    using that assms by (auto simp: mem_ok_def)
  have vals: "\<forall>r \<in> set (st_values s). map_of (st_runs s) (sr_runId r) = Some r"
    using here by (auto simp: st_values_def)
  have "map sr_runId (st_values s) = map fst (st_runs s)" using here by (auto simp: st_values_def)
  then have dist: "distinct (map sr_runId (st_values s))" using assms unfolding mem_ok_def by simp
  have ok: "recovery_ok now s (st_values s) [] v s'" if "recover_all now (st_values s) [] s = (Inr v, s')" for v s'
    by (rule recover_all_ok [OF assms vals dist _ that]) simp
  then show "recover_all now (st_values s) [] s = (Inr v, s') \<Longrightarrow> recovery_ok now s (st_values s) [] v s'" .
  have "steps_all s s'" if "recovery_ok now s (st_values s) [] v s'" for v s'
    unfolding steps_all_def
  proof (intro allI impI)
    fix k r assume "map_of (st_runs s) k = Some r"
    with that obtain r' where "map_of (st_runs s') k = Some r'" "r' = r \<or> record_step r r'"
      unfolding recovery_ok_def by metis
    then show "\<exists>r'. map_of (st_runs s') k = Some r' \<and> record_step r r'" by auto
  qed
  moreover have "mem_ok s'" if "recovery_ok now s (st_values s) [] v s'" for v s'
    using that by (simp add: recovery_ok_def)
  ultimately show "operation_ok s (recover_all now (st_values s) [] s)"
    using ok by (auto simp: operation_ok_def recover_all_disk)
qed

section \<open>Reopening\<close>

lemma load_all_values:
  assumes "mem_ok \<lparr>st_runs = pre @ suf, st_requests = map (\<lambda>e. (sr_requestId (snd e), fst e)) (pre @ suf), st_disk = d\<rparr>"
  shows "load_all (map (\<lambda>e. stored_json (snd e)) suf)
      \<lparr>st_runs = pre, st_requests = map (\<lambda>e. (sr_requestId (snd e), fst e)) pre, st_disk = d\<rparr>
    = Inr \<lparr>st_runs = pre @ suf, st_requests = map (\<lambda>e. (sr_requestId (snd e), fst e)) (pre @ suf), st_disk = d\<rparr>"
  using assms
proof (induction suf arbitrary: pre)
  case (Cons e suf)
  obtain k r where e: "e = (k, r)" by (cases e)
  let ?s = "\<lparr>st_runs = pre, st_requests = map (\<lambda>e. (sr_requestId (snd e), fst e)) pre, st_disk = d\<rparr>"
  have all: "mem_ok \<lparr>st_runs = (pre @ [e]) @ suf, st_requests = map (\<lambda>e. (sr_requestId (snd e), fst e)) ((pre @ [e]) @ suf),
      st_disk = d\<rparr>" using Cons.prems by simp
  have facts: "distinct (map fst (pre @ e # suf))" "distinct (map fst (map (\<lambda>e. (sr_requestId (snd e), fst e)) (pre @ e # suf)))"
    "\<forall>k r. (k, r) \<in> set (pre @ e # suf) \<longrightarrow> sr_runId r = k \<and> wf_stored r"
    using Cons.prems unfolding mem_ok_def run_store.select_convs by blast+
  have r: "sr_runId r = k" "wf_stored r" using facts(3) [rule_format, of k r] e by simp_all
  have fresh: "map_of pre k = None" using facts(1) by (simp add: e map_of_eq_None_iff)
  have "distinct (map (\<lambda>e. sr_requestId (snd e)) (pre @ e # suf))" using facts(2) by (simp add: comp_def)
  moreover have "fst ` set (st_requests ?s) = (\<lambda>e. sr_requestId (snd e)) ` set pre" by (simp add: image_image)
  ultimately have free: "sr_requestId r \<notin> fst ` set (st_requests ?s)" by (simp add: e)
  have "parseStoredRun (json_value (stored_json r)) = Inr r"
    using vstored.decode_encode [OF r(2)] by (simp add: encode_stored_def)
  moreover have "set_run r ?s = Inr \<lparr>st_runs = pre @ [e], st_requests = map (\<lambda>e. (sr_requestId (snd e), fst e)) (pre @ [e]),
      st_disk = d\<rparr>"
  proof -
    have "map_of (st_requests ?s) (sr_requestId r) = None" using free by (simp add: map_of_eq_None_iff)
    moreover have "map_set k r pre = pre @ [(k, r)]" using fresh by (simp add: map_set_fresh map_of_eq_None_iff)
    ultimately show ?thesis using map_set_fresh [OF free, of k] r(1) by (simp add: set_run_def e)
  qed
  ultimately show ?case using Cons.IH [OF all] by (simp add: e)
qed simp

lemma open_store_ok: "store_ok mx s \<Longrightarrow> open_store mx (st_disk s) = Inr s"
proof -
  assume ok: "store_ok mx s"
  have eq: "s = \<lparr>st_runs = [] @ st_runs s, st_requests = map (\<lambda>e. (sr_requestId (snd e), fst e)) ([] @ st_runs s),
      st_disk = st_disk s\<rparr>"
    using ok by (cases s) (simp add: store_ok_def mem_ok_def)
  have "mem_ok s" using ok by (simp add: store_ok_def)
  then have m: "mem_ok \<lparr>st_runs = [] @ st_runs s, st_requests = map (\<lambda>e. (sr_requestId (snd e), fst e)) ([] @ st_runs s),
      st_disk = st_disk s\<rparr>" using eq by simp
  have "map stored_json (st_values s) = map (\<lambda>e. stored_json (snd e)) (st_runs s)" by (simp add: st_values_def)
  then show "open_store mx (st_disk s) = Inr s"
    using load_all_values [OF m] eq ok by (simp add: open_store_def store_ok_def)
qed

section \<open>The abstract table of runs\<close>

text \<open>
  What a client may think the store is: a table from run identities to records that every operation
  changes at once. An operation leaves it, adds one queued run under a new identity and a new request,
  moves one record, or ends every unfinished run as interrupted.
\<close>

type_synonym run_table = "string \<rightharpoonup> stored_run"

inductive table_step :: "run_table \<Rightarrow> run_table \<Rightarrow> bool" where
  stay: "table_step t t"
| create: "t (sr_runId r) = None \<Longrightarrow> \<forall>k x. t k = Some x \<longrightarrow> sr_requestId x \<noteq> sr_requestId r \<Longrightarrow> sr_status r = RunQueued \<Longrightarrow>
    sr_revision r = 0 \<Longrightarrow> \<not> sr_tainted r \<Longrightarrow> table_step t (t(sr_runId r \<mapsto> r))"
| move: "t k = Some r \<Longrightarrow> record_step r r' \<Longrightarrow> table_step t (t(k \<mapsto> r'))"
| recover: "dom t' = dom t \<Longrightarrow> \<forall>k r. t k = Some r \<longrightarrow> (\<exists>r'. t' k = Some r' \<and>
    (if isTerminal (sr_status r) then r' = r else recovered_as now r r')) \<Longrightarrow> table_step t t'"

definition table_of :: "run_store \<Rightarrow> run_table" where
  "table_of s = map_of (st_runs s)"

text \<open>What holds between a store and the store after one operation.\<close>

definition store_refines :: "nat \<Rightarrow> run_store \<Rightarrow> run_store \<Rightarrow> bool" where
  "store_refines mx s s' = (store_ok mx s' \<and> steps_all s s' \<and> table_step (table_of s) (table_of s'))"

lemma refines_same: "store_ok mx s \<Longrightarrow> store_refines mx s s"
  by (simp add: store_refines_def steps_all_same table_step.stay)

text \<open>A mutation refines the table when its operation does.\<close>

lemma mutate_refines:
  assumes s: "store_ok mx s" and ok: "operation_ok s (operation s)"
    and quiet: "\<And>v s'. operation s = (Inr v, s') \<Longrightarrow> \<not> changed v \<Longrightarrow> s' = s"
    and tab: "\<And>v s'. operation s = (Inr v, s') \<Longrightarrow> table_step (table_of s) (table_of s')"
  shows "store_refines mx s (snd (mutate tb mx io changed operation s))"
    and "fst (mutate tb mx io changed operation s) = Inl e \<Longrightarrow> snd (mutate tb mx io changed operation s) = s"
proof -
  have "store_refines mx s (snd (mutate tb mx io changed operation s))
      \<and> (fst (mutate tb mx io changed operation s) = Inl e \<longrightarrow> snd (mutate tb mx io changed operation s) = s)"
  proof (rule mutate_cases [where operation = operation and s = s and changed = changed and tb = tb and mx = mx and io = io])
    show "operation_ok s (operation s)" by (rule ok)
    show "s' = s" if "operation s = (Inr v, s')" "\<not> changed v" for v s' using quiet that .
    fix v s' d assume w: "operation s = (Inr v, s')" "mutate tb mx io changed operation s = (Inr v, s'\<lparr>st_disk := d\<rparr>)"
      "mem_ok s'" "steps_all s s'" "readRunStoreFile mx d = Inr (map stored_json (st_values s'))"
    have "table_step (table_of s) (table_of (s'\<lparr>st_disk := d\<rparr>))" using tab [OF w(1)] by (simp add: table_of_def)
    then show ?thesis using w by (simp add: store_refines_def store_ok_def steps_all_def st_values_def)
  qed (use s refines_same in auto)
  then show "store_refines mx s (snd (mutate tb mx io changed operation s))"
    and "fst (mutate tb mx io changed operation s) = Inl e \<Longrightarrow> snd (mutate tb mx io changed operation s) = s"
    by auto
qed

text \<open>Every operation refines the table and refuses without a trace.\<close>

lemma table_of_set: "table_of (s\<lparr>st_runs := map_set k r (st_runs s)\<rparr>) = (table_of s)(k \<mapsto> r)"
  by (rule ext) (simp add: table_of_def map_of_map_set)

text \<open>The table after an update: one record changed at most, by the function given.\<close>

definition changed_at :: "(stored_run \<Rightarrow> store_error + jfields) \<Rightarrow> string \<Rightarrow> run_table \<Rightarrow> run_table \<Rightarrow> bool" where
  "changed_at change k t t' = (t' = t \<or> (\<exists>r fs r'. t k = Some r \<and> wf_stored r \<and> change r = Inr fs
     \<and> parse_fields fs = Inr r' \<and> t' = t(k \<mapsto> r')))"

context record_change
begin

lemma update_refines:
  assumes "store_ok mx s"
  shows "store_refines mx s (snd (mutate tb mx io (\<lambda>_. True) (update_run change k) s))"
    and "fst (mutate tb mx io (\<lambda>_. True) (update_run change k) s) = Inl e \<Longrightarrow>
      snd (mutate tb mx io (\<lambda>_. True) (update_run change k) s) = s"
proof -
  have mem: "mem_ok s" using assms by (simp add: store_ok_def)
  have tab: "table_step (table_of s) (table_of s')" if "update_run change k s = (Inr v, s')" for v s'
    by (rule update_cases [OF mem, of k])
      (use that table_step.move [of "table_of s" k] in \<open>auto simp: table_of_set table_of_def [of s]\<close>)
  show "store_refines mx s (snd (mutate tb mx io (\<lambda>_. True) (update_run change k) s))"
    by (rule mutate_refines(1)) (rule assms update_ok [OF mem] tab | assumption | simp)+
  show "fst (mutate tb mx io (\<lambda>_. True) (update_run change k) s) = Inl e \<Longrightarrow>
      snd (mutate tb mx io (\<lambda>_. True) (update_run change k) s) = s"
    by (rule mutate_refines(2)) (rule assms update_ok [OF mem] tab | assumption | simp)+
qed

lemma update_table:
  assumes "store_ok mx s"
  shows "changed_at change k (table_of s) (table_of (snd (mutate tb mx io (\<lambda>_. True) (update_run change k) s)))"
proof -
  have mem: "mem_ok s" using assms by (simp add: store_ok_def)
  have eff: "changed_at change k (table_of s) (table_of s')" if v: "update_run change k s = (Inr v, s')" for v s'
  proof (rule update_cases [OF mem, of k])
    fix r fs r' assume u: "map_of (st_runs s) k = Some r" "change r = Inr fs" "parse_fields fs = Inr r'"
      "update_run change k s = (Inr r', s\<lparr>st_runs := map_set k r' (st_runs s)\<rparr>)"
    have "table_of s' = (table_of s)(k \<mapsto> r')" using u(4) v by (simp add: table_of_set)
    then show ?thesis using u mem_okD(2) [OF mem u(1)] unfolding changed_at_def table_of_def [of s] by blast
  qed (use v in simp)
  show ?thesis
  proof (rule mutate_cases [where operation = "update_run change k" and s = s and changed = "\<lambda>_. True" and tb = tb and mx = mx and io = io])
    show "operation_ok s (update_run change k s)" by (rule update_ok [OF mem])
    fix v s' d assume "update_run change k s = (Inr v, s')"
      "mutate tb mx io (\<lambda>_. True) (update_run change k) s = (Inr v, s'\<lparr>st_disk := d\<rparr>)"
    then show ?thesis using eff by (simp add: table_of_def)
  qed (simp_all add: changed_at_def)
qed

end

lemma reserve_refines:
  assumes "store_ok mx s"
  shows "store_refines mx s (snd (mutate tb mx io (\<lambda>_. True) (reserve_run i) s))"
    and "fst (mutate tb mx io (\<lambda>_. True) (reserve_run i) s) = Inl e \<Longrightarrow> snd (mutate tb mx io (\<lambda>_. True) (reserve_run i) s) = s"
proof -
  have mem: "mem_ok s" using assms by (simp add: store_ok_def)
  have tab: "table_step (table_of s) (table_of s')" if v: "reserve_run i s = (Inr v, s')" for v s'
  proof (rule reserve_cases [OF mem, of i])
    fix r s'' assume c: "reserve_run i s = (Inr (True, r), s'')" "st_runs s'' = st_runs s @ [(sr_runId r, r)]"
      "map_of (st_runs s) (sr_runId r) = None" "map_of (st_requests s) (rv_requestId i) = None"
      "parseStoredRun (reservation_value i) = Inr r"
    note p = reservation_parsed [OF c(5)]
    have "\<forall>k x. table_of s k = Some x \<longrightarrow> sr_requestId x \<noteq> sr_requestId r"
      using mem_okD(3) [OF mem] c(4) p(1) unfolding table_of_def by (metis option.distinct(1))
    moreover have "table_of s' = (table_of s)(sr_runId r \<mapsto> r)"
      using c(1,2) v map_of_added [OF c(3), of r] by (simp add: table_of_def)
    ultimately show ?thesis using p c(3) table_step.create [of "table_of s" r] by (simp add: table_of_def)
  qed (use v table_step.stay in auto)
  show "store_refines mx s (snd (mutate tb mx io (\<lambda>_. True) (reserve_run i) s))"
    by (rule mutate_refines(1)) (rule assms reserve_ok [OF mem] tab | assumption | simp)+
  show "fst (mutate tb mx io (\<lambda>_. True) (reserve_run i) s) = Inl e \<Longrightarrow> snd (mutate tb mx io (\<lambda>_. True) (reserve_run i) s) = s"
    by (rule mutate_refines(2)) (rule assms reserve_ok [OF mem] tab | assumption | simp)+
qed

lemma recovery_table:
  assumes "mem_ok s" "recovery_ok now s (st_values s) [] v s'"
  shows "table_step (table_of s) (table_of s')"
proof (rule table_step.recover)
  show "dom (table_of s') = dom (table_of s)" using assms(2) by (simp add: recovery_ok_def table_of_def)
  show "\<forall>k r. table_of s k = Some r \<longrightarrow> (\<exists>r'. table_of s' k = Some r' \<and>
    (if isTerminal (sr_status r) then r' = r else recovered_as now r r'))"
  proof (intro allI impI)
    fix k r assume r: "table_of s k = Some r"
    then have "r \<in> set (st_values s)" using map_of_SomeD by (force simp: table_of_def st_values_def)
    then show "\<exists>r'. table_of s' k = Some r' \<and> (if isTerminal (sr_status r) then r' = r else recovered_as now r r')"
      using assms(2) r unfolding recovery_ok_def table_of_def by metis
  qed
qed

lemma recover_refines:
  assumes "store_ok mx s"
  shows "store_refines mx s (snd (mutate tb mx io (\<lambda>rs. rs \<noteq> []) (\<lambda>s. recover_all now (st_values s) [] s) s))"
    and "fst (mutate tb mx io (\<lambda>rs. rs \<noteq> []) (\<lambda>s. recover_all now (st_values s) [] s) s) = Inl e \<Longrightarrow>
      snd (mutate tb mx io (\<lambda>rs. rs \<noteq> []) (\<lambda>s. recover_all now (st_values s) [] s) s) = s"
proof -
  have mem: "mem_ok s" using assms by (simp add: store_ok_def)
  have quiet: "s' = s" if "recover_all now (st_values s) [] s = (Inr v, s')" "\<not> v \<noteq> []" for v s'
    using recover_ok(2) [OF mem that(1)] that(2) by (auto simp: recovery_ok_def)
  have tab: "table_step (table_of s) (table_of s')" if "recover_all now (st_values s) [] s = (Inr v, s')" for v s'
    using recovery_table [OF mem recover_ok(2) [OF mem that]] .
  show "store_refines mx s (snd (mutate tb mx io (\<lambda>rs. rs \<noteq> []) (\<lambda>s. recover_all now (st_values s) [] s) s))"
    by (rule mutate_refines(1)) (rule assms recover_ok(1) [OF mem] quiet tab | assumption)+
  show "fst (mutate tb mx io (\<lambda>rs. rs \<noteq> []) (\<lambda>s. recover_all now (st_values s) [] s) s) = Inl e \<Longrightarrow>
      snd (mutate tb mx io (\<lambda>rs. rs \<noteq> []) (\<lambda>s. recover_all now (st_values s) [] s) s) = s"
    by (rule mutate_refines(2)) (rule assms recover_ok(1) [OF mem] quiet tab | assumption)+
qed

lemmas op_refines = reserve_refines running_change.update_refines cancelling_change.update_refines
  finish_change.update_refines interrupt_change.update_refines attach_change.update_refines recover_refines

lemma store_step_refines: "store_ok mx s \<Longrightarrow> store_refines mx s (fst (store_step tb mx s (io, e)))"
  by (cases e) (simp_all add: reply_def op_refines(1,3,5,7,9,11,13) open_store_ok refines_same)

lemma store_step_refused: "store_ok mx s \<Longrightarrow> StoreRefused err \<in> set (snd (store_step tb mx s (io, e))) \<Longrightarrow> fst (store_step tb mx s (io, e)) = s"
  by (cases e) (auto simp: reply_def open_store_ok split: sum.splits prod.splits intro: op_refines(2,4,6,8,10,12,14))

lemma fresh_ok: "store_ok mx fresh_store"
  by (simp add: store_ok_def mem_ok_def fresh_store_def readRunStoreFile_def st_values_def)

interpretation run_store_machine: step_machine "store_step tb mx" "store_ok mx" for tb mx
proof
  show "store_ok mx s \<Longrightarrow> store_ok mx (fst (store_step tb mx s e))" for s e
    using store_step_refines [of mx s tb "fst e" "snd e"] by (simp add: store_refines_def)
qed

section \<open>Over any sequence of operations\<close>

definition advances :: "stored_run \<Rightarrow> stored_run \<Rightarrow> bool" where
  "advances r r' = (r' = r \<or> (\<not> isTerminal (sr_status r) \<and> identity_of r' = identity_of r
     \<and> sr_revision r < sr_revision r' \<and> status_rank (sr_status r) \<le> status_rank (sr_status r')))"

lemma advances_refl [simp]: "advances r r"
  by (simp add: advances_def)

lemma advances_step: "record_step r r' \<Longrightarrow> advances r' r'' \<Longrightarrow> advances r r''"
  by (auto simp: advances_def record_step_def)

lemma run_advances:
  assumes "store_ok mx s" "table_of s k = Some r"
  shows "\<exists>r'. table_of (fst (run_steps (store_step tb mx) s es)) k = Some r' \<and> advances r r'"
  using assms
proof (induction es arbitrary: s r)
  case (Cons e es)
  have ref: "store_refines mx s (fst (store_step tb mx s e))"
    using store_step_refines [OF Cons.prems(1), of tb "fst e" "snd e"] by simp
  then have ok: "store_ok mx (fst (store_step tb mx s e))" by (simp add: store_refines_def)
  obtain r1 where r1: "table_of (fst (store_step tb mx s e)) k = Some r1" "record_step r r1"
    using ref Cons.prems(2) unfolding store_refines_def steps_all_def table_of_def by blast
  then show ?case using Cons.IH [OF ok r1(1)] advances_step [OF r1(2)] by (fastforce simp: Let_def split_beta)
qed simp

lemmas reached_ok = run_store_machine.run_inv [OF fresh_ok]

lemma recover_reply:
  assumes "store_ok mx s" "snd (store_step tb mx s (io, OpRecover now)) = [Recovered rs]"
  shows "list_all (\<lambda>r. isTerminal (sr_status r)) (st_values (fst (store_step tb mx s (io, OpRecover now))))"
proof -
  have mem: "mem_ok s" using assms(1) by (simp add: store_ok_def)
  let ?op = "\<lambda>s. recover_all now (st_values s) [] s"
  let ?m = "mutate tb mx io (\<lambda>rs. rs \<noteq> []) ?op s"
  have quiet: "s' = s" if "?op s = (Inr v, s')" "\<not> v \<noteq> []" for v s'
    using recover_ok(2) [OF mem that(1)] that(2) by (auto simp: recovery_ok_def)
  have m: "fst ?m = Inr rs" using assms(2) by (auto simp: reply_def split: sum.splits)
  have "\<exists>s'. ?op s = (Inr rs, s') \<and> st_values (snd ?m) = st_values s'"
    by (rule mutate_cases [where operation = ?op and s = s and changed = "\<lambda>rs. rs \<noteq> []" and tb = tb and mx = mx and io = io])
      (use recover_ok(1) [OF mem] quiet m in \<open>auto simp: st_values_def\<close>)
  then obtain s' where s': "?op s = (Inr rs, s')" "st_values (snd ?m) = st_values s'" by blast
  note r = recover_ok(2) [OF mem s'(1)]
  have ended: "isTerminal (sr_status x)" if x: "x \<in> set (st_values s')" for x
  proof -
    obtain k where "(k, x) \<in> set (st_runs s')" using x by (auto simp: st_values_def)
    moreover have "distinct (map fst (st_runs s'))" using r unfolding recovery_ok_def mem_ok_def by blast
    ultimately have here: "map_of (st_runs s') k = Some x" by simp
    then have "k \<in> dom (map_of (st_runs s))" using r unfolding recovery_ok_def by blast
    then obtain y where y: "map_of (st_runs s) k = Some y" by blast
    then have "y \<in> set (st_values s)" using map_of_SomeD by (force simp: st_values_def)
    with r y here have "if \<not> isTerminal (sr_status y) then recovered_as now y x else x = y"
      unfolding recovery_ok_def by (metis option.inject)
    then show ?thesis by (auto simp: recovered_as_def isTerminal_def split: if_splits)
  qed
  then show "list_all (\<lambda>r. isTerminal (sr_status r)) (st_values (fst (store_step tb mx s (io, OpRecover now))))"
    using s'(2) by (simp add: reply_def list_all_iff)
qed

end
