(* ===== verification/Workspaces.thy ===== *)
theory Workspaces
  imports StoredRunProps
begin

text \<open>
  Workspace snapshots of the test service: \<open>packages/service/src/workspaces/snapshot-lifecycle.ts\<close>
  (leases, quarantine, removal), \<open>local-git-support.ts\<close> (requests and cleanup evidence) and the
  bookkeeping of \<open>local-git-provider.ts\<close> (operations, reserved identities). Git and the file system
  answer through events. \<open>parses_date\<close> is \<open>Number.isFinite(Date.parse(s))\<close>, which an engine may extend
  beyond the ISO format.
\<close>

section \<open>Data\<close>

datatype ws_error = WsAborted | WsInvalidRequest | WsOperationConflict | WsPathUnsafe | WsPrepareFailed
  | WsRevisionUnresolved | WsDirtyWorktree | WsSnapshotUnsafe | WsTypeError

record workspace_snapshot =
  wk_operationId :: string
  wk_snapshotId :: string
  wk_resolvedRevision :: string
  wk_rootPath :: string

record workspace_lease =
  wl_snapshotId :: string
  wl_runId :: string
  wl_generation :: nat
  wl_acquiredAt :: string

record directory_identity =
  di_path :: string
  di_device :: int
  di_inode :: int

text \<open>The release promise of a snapshot: none, waiting for the removal, or settled.\<close>

datatype release_promise = NoRelease | Removing | ReleaseSettled "ws_error + cleanup_receipt"

record snapshot_state =
  ss_snapshot :: workspace_snapshot
  ss_directory :: directory_identity
  ss_root :: directory_identity
  ss_lease :: "workspace_lease option"
  ss_lastRun :: "string option"
  ss_quarantined :: bool
  ss_token :: "nat option"
  ss_promise :: release_promise

record ws_registry =
  rg_snapshots :: "(string \<times> snapshot_state) list"
  rg_released :: "(string \<times> cleanup_receipt) list"
  rg_nextLease :: nat
  rg_nextToken :: nat

text \<open>A clock reading: the ISO text of a valid date, or nothing when the clock's date is invalid.\<close>

type_synonym clock = "string option"

definition workspaceTimestamp :: "clock \<Rightarrow> ws_error + string" where
  "workspaceTimestamp c = (case c of None \<Rightarrow> Inl WsTypeError | Some t \<Rightarrow> Inr t)"

section \<open>Cleanup evidence\<close>

definition assertExactKeys :: "jfields \<Rightarrow> string list \<Rightarrow> string list \<Rightarrow> ws_error \<Rightarrow> ws_error + unit" where
  "assertExactKeys fs needed allowed err =
     (if list_all (\<lambda>f. fst f \<in> set (needed @ allowed)) fs \<and> list_all (\<lambda>k. map_of fs k \<noteq> None) needed
      then Inr () else Inl err)"

text \<open>Fields of a copied value; only a record can have the required ones.\<close>

definition record_fields :: "ws_error \<Rightarrow> jsv \<Rightarrow> ws_error + jfields" where
  "record_fields err v = (case cloneSafeData v of
     Inl _ \<Rightarrow> Inl err | Inr JNull \<Rightarrow> Inl WsTypeError | Inr (JObj fs) \<Rightarrow> Inr fs | Inr _ \<Rightarrow> Inl err)"

definition is_text :: "json option \<Rightarrow> bool" where
  "is_text v = (case v of Some (JStr _) \<Rightarrow> True | _ \<Rightarrow> False)"

definition readCleanup :: "(string \<Rightarrow> bool) \<Rightarrow> jsv \<Rightarrow> workspace_lease \<Rightarrow> ws_error + jfields" where
  "readCleanup parses_date cleanup lease =
     rbind (record_fields WsSnapshotUnsafe cleanup) (\<lambda>fs.
     rbind (assertExactKeys fs [''runId'', ''snapshotId'', ''status'', ''tainted'', ''attemptedAt''] [''detail''] WsSnapshotUnsafe) (\<lambda>_.
     if \<not> is_ok (rd_when run_id_ok (map_of fs ''runId'')) then Inl WsSnapshotUnsafe
     else if map_of fs ''runId'' \<noteq> Some (JStr (wl_runId lease)) \<or> map_of fs ''snapshotId'' \<noteq> Some (JStr (wl_snapshotId lease))
       then Inl WsSnapshotUnsafe
     else if \<not> is_ok (rd_choice receipt_statuses (map_of fs ''status'')) \<or> \<not> is_ok (rd_boolean (map_of fs ''tainted''))
         \<or> \<not> (case map_of fs ''attemptedAt'' of Some (JStr t) \<Rightarrow> parses_date t | _ \<Rightarrow> False)
         \<or> (map_of fs ''detail'' \<noteq> None \<and> \<not> is_text (map_of fs ''detail''))
       then Inl WsSnapshotUnsafe
     else Inr fs))"

definition evidence_unsafe :: "jfields \<Rightarrow> bool" where
  "evidence_unsafe fs = (map_of fs ''status'' = Some (JStr ''unconfirmed'') \<or> map_of fs ''tainted'' = Some (JBool True))"

definition cleanupReceipt :: "snapshot_state \<Rightarrow> string \<Rightarrow> receipt_status \<Rightarrow> bool \<Rightarrow> string option \<Rightarrow> cleanup_receipt" where
  "cleanupReceipt st attemptedAt status tainted detail =
     \<lparr>cu_runId = ss_lastRun st, cu_snapshotId = wk_snapshotId (ss_snapshot st), cu_status = status,
      cu_tainted = tainted, cu_attemptedAt = attemptedAt, cu_detail = detail\<rparr>"

section \<open>The registry\<close>

definition set_snapshot :: "snapshot_state \<Rightarrow> ws_registry \<Rightarrow> ws_registry" where
  "set_snapshot st g = g\<lparr>rg_snapshots := map_set (wk_snapshotId (ss_snapshot st)) st (rg_snapshots g)\<rparr>"

definition add_snapshot :: "workspace_snapshot \<Rightarrow> directory_identity \<Rightarrow> directory_identity \<Rightarrow> ws_registry \<Rightarrow> ws_error + ws_registry" where
  "add_snapshot w dir base g =
     (if map_has (rg_snapshots g) (wk_snapshotId w) \<or> map_has (rg_released g) (wk_snapshotId w) then Inl WsSnapshotUnsafe
      else Inr (set_snapshot \<lparr>ss_snapshot = w, ss_directory = dir, ss_root = base, ss_lease = None, ss_lastRun = None,
        ss_quarantined = False, ss_token = None, ss_promise = NoRelease\<rparr> g))"

definition require_snapshot :: "workspace_snapshot \<Rightarrow> ws_registry \<Rightarrow> ws_error + snapshot_state" where
  "require_snapshot w g = (case map_of (rg_snapshots g) (wk_snapshotId w) of
     None \<Rightarrow> Inl WsSnapshotUnsafe
   | Some st \<Rightarrow> if wk_operationId (ss_snapshot st) \<noteq> wk_operationId w \<or> wk_rootPath (ss_snapshot st) \<noteq> wk_rootPath w
       \<or> wk_resolvedRevision (ss_snapshot st) \<noteq> wk_resolvedRevision w then Inl WsSnapshotUnsafe else Inr st)"

datatype ws_output =
    Leased workspace_lease
  | LeaseCompleted string bool          \<comment> \<open>the snapshot, and whether the evidence was unsafe\<close>
  | RemoveTree string directory_identity directory_identity
  | ReceiptReturned string cleanup_receipt
  | ReleaseWaits string
  | Prepared workspace_snapshot
  | PrepareStarted string string
  | DiscardTree directory_identity directory_identity
  | WsRefused ws_error

text \<open>\<open>acquire\<close>: the generation is drawn before the clock is read.\<close>

definition acquire_lease :: "workspace_snapshot \<Rightarrow> string \<Rightarrow> clock \<Rightarrow> ws_registry \<Rightarrow> ws_registry \<times> ws_output list" where
  "acquire_lease w runId now g = (case require_snapshot w g of
     Inl e \<Rightarrow> (g, [WsRefused e])
   | Inr st \<Rightarrow>
       if \<not> run_id_ok runId then (g, [WsRefused WsTypeError])
       else if ss_quarantined st \<or> ss_lease st \<noteq> None \<or> ss_token st \<noteq> None then (g, [WsRefused WsSnapshotUnsafe])
       else let g1 = g\<lparr>rg_nextLease := rg_nextLease g + 1\<rparr> in (case workspaceTimestamp now of
           Inl e \<Rightarrow> (g1, [WsRefused e])
         | Inr t \<Rightarrow> let lease = \<lparr>wl_snapshotId = wk_snapshotId w, wl_runId = runId, wl_generation = rg_nextLease g1,
                       wl_acquiredAt = t\<rparr> in
             (set_snapshot (st\<lparr>ss_lease := Some lease\<rparr>) g1, [Leased lease])))"

definition complete_lease :: "(string \<Rightarrow> bool) \<Rightarrow> workspace_lease \<Rightarrow> jsv \<Rightarrow> ws_registry \<Rightarrow> ws_registry \<times> ws_output list" where
  "complete_lease parses_date lease cleanup g = (case map_of (rg_snapshots g) (wl_snapshotId lease) of
     None \<Rightarrow> (g, [WsRefused WsSnapshotUnsafe])
   | Some st \<Rightarrow> (case ss_lease st of
       None \<Rightarrow> (g, [WsRefused WsSnapshotUnsafe])
     | Some active \<Rightarrow>
         if wl_runId active \<noteq> wl_runId lease \<or> wl_generation active \<noteq> wl_generation lease
           \<or> wl_acquiredAt active \<noteq> wl_acquiredAt lease then (g, [WsRefused WsSnapshotUnsafe])
         else (case readCleanup parses_date cleanup lease of
             Inl e \<Rightarrow> (g, [WsRefused e])
           | Inr fs \<Rightarrow> (set_snapshot (st\<lparr>ss_lease := None, ss_lastRun := Some (wl_runId lease),
               ss_quarantined := evidence_unsafe fs\<rparr>) g, [LeaseCompleted (wl_snapshotId lease) (evidence_unsafe fs)]))))"

definition unconfirmed :: "snapshot_state \<Rightarrow> clock \<Rightarrow> string \<Rightarrow> ws_error + cleanup_receipt" where
  "unconfirmed st now detail =
     rbind (workspaceTimestamp now) (\<lambda>t. Inr (cleanupReceipt st t ReceiptUnconfirmed True (Some detail)))"

definition receipt_output :: "string \<Rightarrow> ws_error + cleanup_receipt \<Rightarrow> ws_output" where
  "receipt_output k r = (case r of Inl e \<Rightarrow> WsRefused e | Inr c \<Rightarrow> ReceiptReturned k c)"

text \<open>\<open>release\<close>, up to the start of the removal. The check in \<open>#releaseReady\<close> runs before anything else can.\<close>

definition release_snapshot :: "workspace_snapshot \<Rightarrow> bool \<Rightarrow> clock \<Rightarrow> ws_registry \<Rightarrow> ws_registry \<times> ws_output list" where
  "release_snapshot w aborted now g = (case map_of (rg_released g) (wk_snapshotId w) of
     Some c \<Rightarrow> (g, [ReceiptReturned (wk_snapshotId w) c])
   | None \<Rightarrow> (case require_snapshot w g of
       Inl e \<Rightarrow> (g, [WsRefused e])
     | Inr st \<Rightarrow>
         if ss_lease st \<noteq> None \<or> ss_quarantined st \<or> aborted then
           (g, [receipt_output (wk_snapshotId w) (unconfirmed st now
             (if aborted then ''Snapshot release was aborted.''
              else if ss_lease st \<noteq> None then ''Snapshot still has an active run lease.''
              else ''Snapshot is quarantined by unconfirmed cleanup evidence.''))])
         else (case ss_promise st of
             Removing \<Rightarrow> (g, [ReleaseWaits (wk_snapshotId w)])
           | ReleaseSettled r \<Rightarrow> (g, [receipt_output (wk_snapshotId w) r])
           | NoRelease \<Rightarrow>
               let g1 = g\<lparr>rg_nextToken := rg_nextToken g + 1\<rparr>;
                   st1 = st\<lparr>ss_token := Some (rg_nextToken g1)\<rparr> in
               if aborted \<or> ss_token st1 \<noteq> Some (rg_nextToken g1) \<or> ss_lease st1 \<noteq> None \<or> ss_quarantined st1 then
                 let r = unconfirmed st1 now ''Snapshot release safety changed before removal.'' in
                 (set_snapshot (st1\<lparr>ss_quarantined := True, ss_promise := ReleaseSettled r\<rparr>) g1, [receipt_output (wk_snapshotId w) r])
               else (set_snapshot (st1\<lparr>ss_promise := Removing\<rparr>) g1,
                 [RemoveTree (wk_snapshotId w) (ss_directory st1) (ss_root st1), ReleaseWaits (wk_snapshotId w)]))))"

text \<open>The removal settles. An invalid clock after a removal that worked counts as a removal that failed.\<close>

definition removal_settles :: "string \<Rightarrow> bool \<Rightarrow> clock \<Rightarrow> clock \<Rightarrow> ws_registry \<Rightarrow> ws_registry \<times> ws_output list" where
  "removal_settles k removed now later g = (case map_of (rg_snapshots g) k of
     None \<Rightarrow> (g, [])
   | Some st \<Rightarrow>
       if ss_promise st \<noteq> Removing then (g, [])
       else (case (if removed then workspaceTimestamp now else Inl WsTypeError) of
           Inr t \<Rightarrow> let c = cleanupReceipt st t ReceiptConfirmed False None in
             (g\<lparr>rg_snapshots := map_delete k (rg_snapshots g), rg_released := map_set k c (rg_released g)\<rparr>, [ReceiptReturned k c])
         | Inl _ \<Rightarrow> let st1 = st\<lparr>ss_quarantined := True\<rparr>; r = unconfirmed st1 later ''Snapshot removal could not be confirmed.'' in
             (set_snapshot (st1\<lparr>ss_promise := ReleaseSettled r\<rparr>) g, [receipt_output k r])))"

section \<open>The provider\<close>

datatype operation_status =
    OpPreparing
  | OpReady string string               \<comment> \<open>the snapshot and its revision\<close>
  | OpFailed ws_error

record operation_record =
  or_status :: operation_status
  or_requestedRevision :: string
  or_startedAt :: string
  or_finishedAt :: "string option"

record prepare_request =
  pq_operationId :: string
  pq_provider :: string
  pq_locator :: string
  pq_revision :: string

text \<open>A preparation that waits for git and the file system: its request, its snapshot, its start.\<close>

record preparation =
  pr_request :: prepare_request
  pr_snapshotId :: string
  pr_startedAt :: string

record provider =
  pv_operations :: "(string \<times> operation_record) list"
  pv_reserved :: "string list"
  pv_waiting :: "(string \<times> preparation) list"
  pv_registry :: ws_registry

definition revision_ok :: "string \<Rightarrow> bool" where
  "revision_ok s = (\<not> blank s \<and> length s \<le> 200 \<and> list_all (\<lambda>c. code c \<notin> {0, 10, 13}) s)"

definition readRequest :: "jsv \<Rightarrow> ws_error + prepare_request" where
  "readRequest v =
     rbind (record_fields WsInvalidRequest v) (\<lambda>fs.
     rbind (assertExactKeys fs [''operationId'', ''source'', ''revision''] [] WsInvalidRequest) (\<lambda>_.
     case rd_when operation_id_ok (map_of fs ''operationId'') of Inl _ \<Rightarrow> Inl WsTypeError | Inr oid \<Rightarrow>
     case rd_when revision_ok (map_of fs ''revision'') of Inl _ \<Rightarrow> Inl WsInvalidRequest | Inr wanted \<Rightarrow>
     case map_of fs ''source'' of
       Some (JObj src) \<Rightarrow> (case (map_of src ''provider'', map_of src ''locator'') of
           (Some (JStr p), Some (JStr l)) \<Rightarrow> rbind (assertExactKeys src [''provider'', ''locator''] [] WsInvalidRequest) (\<lambda>_.
             Inr \<lparr>pq_operationId = oid, pq_provider = p, pq_locator = l, pq_revision = wanted\<rparr>)
         | _ \<Rightarrow> Inl WsInvalidRequest)
     | _ \<Rightarrow> Inl WsInvalidRequest))"

text \<open>\<open>parseRelativeLocator\<close>\<close>

definition drive_prefix :: "string \<Rightarrow> bool" where
  "drive_prefix s = (2 < length s \<and> is_alpha (s ! 0) \<and> s ! 1 = CHR '':'' \<and> code (s ! 2) \<in> {47, 92})"

definition locator_segment_ok :: "string \<Rightarrow> bool" where
  "locator_segment_ok s = ident_shape ''._-'' s"

definition parseRelativeLocator :: "string \<Rightarrow> ws_error + string list" where
  "parseRelativeLocator s =
     (if s = [] \<or> 500 < length s then Inl WsPathUnsafe
      else if hd s = CHR ''/'' \<or> drive_prefix s then Inl WsPathUnsafe
      else let segments = concat (map (split_on (char_of (92 :: nat))) (split_on CHR ''/'' s)) in
        if list_ex (\<lambda>g. g = [] \<or> g = ''.'' \<or> g = ''..'' \<or> \<not> locator_segment_ok g) segments then Inl WsPathUnsafe
        else Inr segments)"

definition set_operation :: "string \<Rightarrow> operation_record \<Rightarrow> provider \<Rightarrow> provider" where
  "set_operation k r p = p\<lparr>pv_operations := map_set k r (pv_operations p)\<rparr>"

text \<open>The \<open>catch\<close> of \<open>prepare\<close>: an invalid clock leaves the record as it was.\<close>

definition prepare_fails :: "string \<Rightarrow> string \<Rightarrow> string \<Rightarrow> ws_error \<Rightarrow> clock \<Rightarrow> provider \<Rightarrow> provider \<times> ws_output list" where
  "prepare_fails k revision startedAt err now p = (case workspaceTimestamp now of
     Inl e \<Rightarrow> (p, [WsRefused e])
   | Inr t \<Rightarrow> (set_operation k \<lparr>or_status = OpFailed err, or_requestedRevision = revision, or_startedAt = startedAt,
       or_finishedAt = Some t\<rparr> p, [WsRefused err]))"

definition prepare_start :: "jsv \<Rightarrow> string \<Rightarrow> clock \<Rightarrow> clock \<Rightarrow> provider \<Rightarrow> provider \<times> ws_output list" where
  "prepare_start request uuid now later p = (case readRequest request of
     Inl e \<Rightarrow> (p, [WsRefused e])
   | Inr q \<Rightarrow> let k = pq_operationId q in
       if map_has (pv_operations p) k then (p, [WsRefused WsOperationConflict])
       else (case workspaceTimestamp now of
         Inl e \<Rightarrow> (p, [WsRefused e])
       | Inr t \<Rightarrow>
           let p1 = set_operation k \<lparr>or_status = OpPreparing, or_requestedRevision = pq_revision q, or_startedAt = t,
                 or_finishedAt = None\<rparr> p;
               sid = ''snapshot:'' @ uuid;
               p2 = p1\<lparr>pv_reserved := set_add sid (pv_reserved p1)\<rparr> in
           if pq_provider q \<noteq> ''local-git'' then prepare_fails k (pq_revision q) t WsInvalidRequest later p1
           else if \<not> uuid_ok uuid then prepare_fails k (pq_revision q) t WsPrepareFailed later p1
           else if sid \<in> set (pv_reserved p1) then prepare_fails k (pq_revision q) t WsSnapshotUnsafe later p1
           else (case parseRelativeLocator (pq_locator q) of
               Inl e \<Rightarrow> prepare_fails k (pq_revision q) t e later p2
             | Inr _ \<Rightarrow> (p2\<lparr>pv_waiting := map_set k \<lparr>pr_request = q, pr_snapshotId = sid, pr_startedAt = t\<rparr> (pv_waiting p2)\<rparr>,
                 [PrepareStarted k sid]))))"

text \<open>
  What the asynchronous part of a preparation comes to: a snapshot directory with its revision, or an
  error with the directory made so far. \<open>normalizeError\<close>: an error of another kind becomes
  \<open>aborted\<close> or \<open>prepare-failed\<close>.
\<close>

datatype prepare_outcome =
    SnapshotMade directory_identity directory_identity string
  | SnapshotFailed "ws_error option" "(directory_identity \<times> directory_identity) option"

definition normalizeError :: "ws_error option \<Rightarrow> bool \<Rightarrow> ws_error" where
  "normalizeError e aborted = (case e of Some c \<Rightarrow> c | None \<Rightarrow> if aborted then WsAborted else WsPrepareFailed)"

definition discard_output :: "(directory_identity \<times> directory_identity) option \<Rightarrow> ws_output list" where
  "discard_output d = (case d of None \<Rightarrow> [] | Some (dir, base) \<Rightarrow> [DiscardTree dir base])"

definition prepare_settles :: "string \<Rightarrow> prepare_outcome \<Rightarrow> bool \<Rightarrow> clock \<Rightarrow> clock \<Rightarrow> provider \<Rightarrow> provider \<times> ws_output list" where
  "prepare_settles k out aborted now later p = (case map_of (pv_waiting p) k of
     None \<Rightarrow> (p, [])
   | Some w \<Rightarrow>
       let p1 = p\<lparr>pv_waiting := map_delete k (pv_waiting p)\<rparr>;
           wanted = pq_revision (pr_request w);
           failing = (\<lambda>e dirs p. let (p', os) = prepare_fails k wanted (pr_startedAt w) e later p in (p', discard_output dirs @ os)) in
       (case out of
          SnapshotFailed e dirs \<Rightarrow> failing (normalizeError e aborted) dirs p1
        | SnapshotMade dir base revision \<Rightarrow>
            if aborted then failing WsAborted (Some (dir, base)) p1
            else let snap = \<lparr>wk_operationId = k, wk_snapshotId = pr_snapshotId w, wk_resolvedRevision = revision,
                      wk_rootPath = di_path dir\<rparr> in
              (case add_snapshot snap dir base (pv_registry p1) of
                 Inl e \<Rightarrow> failing e (Some (dir, base)) p1
               | Inr g \<Rightarrow> let p2 = p1\<lparr>pv_registry := g\<rparr> in (case workspaceTimestamp now of
                     Inl e \<Rightarrow> failing (normalizeError None aborted) (Some (dir, base)) p2
                   | Inr t \<Rightarrow> (set_operation k \<lparr>or_status = OpReady (pr_snapshotId w) revision, or_requestedRevision = wanted,
                       or_startedAt = pr_startedAt w, or_finishedAt = Some t\<rparr> p2, [Prepared snap])))))"

section \<open>The provider as a machine\<close>

datatype ws_event =
    PrepareCall jsv string clock clock
  | PrepareDone string prepare_outcome bool clock clock
  | AcquireCall workspace_snapshot string clock
  | CompleteCall workspace_lease jsv
  | ReleaseCall workspace_snapshot bool clock
  | RemovalDone string bool clock clock

definition on_registry :: "(ws_registry \<Rightarrow> ws_registry \<times> ws_output list) \<Rightarrow> provider \<Rightarrow> provider \<times> ws_output list" where
  "on_registry f p = (let (g, os) = f (pv_registry p) in (p\<lparr>pv_registry := g\<rparr>, os))"

fun ws_step :: "(string \<Rightarrow> bool) \<Rightarrow> provider \<Rightarrow> ws_event \<Rightarrow> provider \<times> ws_output list" where
  "ws_step dp p (PrepareCall v uuid t u) = prepare_start v uuid t u p"
| "ws_step dp p (PrepareDone k out aborted t u) = prepare_settles k out aborted t u p"
| "ws_step dp p (AcquireCall w r t) = on_registry (acquire_lease w r t) p"
| "ws_step dp p (CompleteCall l c) = on_registry (complete_lease dp l c) p"
| "ws_step dp p (ReleaseCall w aborted t) = on_registry (release_snapshot w aborted t) p"
| "ws_step dp p (RemovalDone k removed t u) = on_registry (removal_settles k removed t u) p"

definition empty_registry :: ws_registry where
  "empty_registry = \<lparr>rg_snapshots = [], rg_released = [], rg_nextLease = 0, rg_nextToken = 0\<rparr>"

definition empty_provider :: provider where
  "empty_provider = \<lparr>pv_operations = [], pv_reserved = [], pv_waiting = [], pv_registry = empty_registry\<rparr>"

end
