(* ===== verification/WorkspaceProps.thy ===== *)
theory WorkspaceProps
  imports Workspaces
begin

text \<open>
  What the workspace provider promises: at most one lease per snapshot at a time; a snapshot whose
  removal has started, or whose last run left unsafe cleanup evidence, is never leased or removed again;
  identities of operations and snapshots are used once.
\<close>

section \<open>The invariant of the registry\<close>

definition snapshot_ok :: "ws_registry \<Rightarrow> string \<Rightarrow> snapshot_state \<Rightarrow> bool" where
  "snapshot_ok g k st = (wk_snapshotId (ss_snapshot st) = k
     \<and> (ss_token st \<noteq> None \<longrightarrow> ss_lease st = None) \<and> (ss_promise st = NoRelease \<longleftrightarrow> ss_token st = None)
     \<and> (\<forall>l. ss_lease st = Some l \<longrightarrow> wl_snapshotId l = k \<and> wl_generation l \<le> rg_nextLease g)
     \<and> (ss_promise st = Removing \<longrightarrow> \<not> ss_quarantined st) \<and> (\<forall>r. ss_promise st = ReleaseSettled r \<longrightarrow> ss_quarantined st))"

definition registry_ok :: "ws_registry \<Rightarrow> bool" where
  "registry_ok g = (\<forall>k st. map_of (rg_snapshots g) k = Some st \<longrightarrow> snapshot_ok g k st \<and> map_of (rg_released g) k = None)"

definition receipts_ok :: "ws_registry \<Rightarrow> bool" where
  "receipts_ok g = (\<forall>k c. map_of (rg_released g) k = Some c \<longrightarrow> cu_status c = ReceiptConfirmed \<and> \<not> cu_tainted c)"

text \<open>A snapshot that can be neither leased nor removed any more.\<close>

definition closed_state :: "snapshot_state \<Rightarrow> bool" where
  "closed_state st = (ss_token st \<noteq> None \<or> ss_quarantined st \<and> ss_lease st = None)"

definition closed_snapshot :: "ws_registry \<Rightarrow> string \<Rightarrow> bool" where
  "closed_snapshot g k = (map_of (rg_released g) k \<noteq> None \<or> (case map_of (rg_snapshots g) k of None \<Rightarrow> False | Some st \<Rightarrow> closed_state st))"

definition leased_now :: "ws_registry \<Rightarrow> string \<Rightarrow> nat" where
  "leased_now g k = (case map_of (rg_snapshots g) k of None \<Rightarrow> 0 | Some st \<Rightarrow> if ss_lease st = None then 0 else 1)"

fun removals :: "ws_output \<Rightarrow> string list" where
  "removals (RemoveTree k _ _) = [k]"
| "removals _ = []"

fun leases :: "ws_output \<Rightarrow> string list" where
  "leases (Leased l) = [wl_snapshotId l]"
| "leases _ = []"

fun completions :: "ws_output \<Rightarrow> string list" where
  "completions (LeaseCompleted k _) = [k]"
| "completions _ = []"

definition uses :: "ws_output \<Rightarrow> string list" where
  "uses x = removals x @ leases x"

abbreviation outs :: "(ws_output \<Rightarrow> string list) \<Rightarrow> 'a \<times> ws_output list \<Rightarrow> string list" where
  "outs f r \<equiv> concat (map f (snd r))"

text \<open>
  What one registry operation does, in one statement: the invariant, the closing of snapshots, and the
  count of leases.
\<close>

definition registry_step_ok :: "ws_registry \<Rightarrow> ws_registry \<times> ws_output list \<Rightarrow> bool" where
  "registry_step_ok g r = (registry_ok (fst r) \<and> (receipts_ok g \<longrightarrow> receipts_ok (fst r))
     \<and> (\<forall>k. closed_snapshot g k \<longrightarrow> closed_snapshot (fst r) k)
     \<and> (\<forall>k. k \<in> set (outs uses r) \<longrightarrow> \<not> closed_snapshot g k)
     \<and> distinct (outs removals r) \<and> (\<forall>k. k \<in> set (outs removals r) \<longrightarrow> closed_snapshot (fst r) k)
     \<and> (\<forall>k. count_list (outs leases r) k + leased_now g k = count_list (outs completions r) k + leased_now (fst r) k))"

lemma quiet_step:
  assumes "registry_ok g" "outs uses (g, os) = []" "outs completions (g, os) = []"
  shows "registry_step_ok g (g, os)"
proof -
  have e: "outs removals (g, os) = []" "outs leases (g, os) = []" using assms(2) by (induction os) (auto simp: uses_def)
  show ?thesis unfolding registry_step_ok_def e assms(2,3) using assms(1) by simp
qed

lemma quiet_one: "registry_ok g \<Longrightarrow> uses x = [] \<Longrightarrow> completions x = [] \<Longrightarrow> registry_step_ok g (g, [x])"
  by (rule quiet_step) simp_all

lemma quiet_refused: "registry_ok g \<Longrightarrow> registry_step_ok g (g, [WsRefused e])"
  by (rule quiet_one) (simp_all add: uses_def)

lemma require_Inr: "require_snapshot w g = Inr st \<Longrightarrow> map_of (rg_snapshots g) (wk_snapshotId w) = Some st"
  by (auto simp: require_snapshot_def split: option.splits if_splits)

text \<open>Replacing the state of one snapshot.\<close>

lemma set_snapshot_step:
  assumes g: "registry_ok g" and here: "map_of (rg_snapshots g) k = Some st"
    and id: "wk_snapshotId (ss_snapshot st') = k"
    and g1: "rg_snapshots g1 = rg_snapshots g" "rg_released g1 = rg_released g" "rg_nextLease g \<le> rg_nextLease g1"
    and ok: "snapshot_ok g1 k st'" and stays: "closed_state st \<Longrightarrow> closed_state st'"
    and uses: "outs uses (g', os) \<noteq> [] \<Longrightarrow> set (outs uses (g', os)) = {k} \<and> \<not> closed_state st"
    and rem: "outs removals (g', os) = [] \<or> outs removals (g', os) = [k] \<and> closed_state st'"
    and cnt: "\<And>k'. count_list (outs leases (g', os)) k' + (if k' = k \<and> ss_lease st \<noteq> None then 1 else 0)
      = count_list (outs completions (g', os)) k' + (if k' = k \<and> ss_lease st' \<noteq> None then 1 else 0)"
    and g': "g' = set_snapshot st' g1"
  shows "registry_step_ok g (g', os)"
proof -
  have look: "map_of (rg_snapshots g') k' = (if k' = k then Some st' else map_of (rg_snapshots g) k')" for k'
    by (simp add: g' set_snapshot_def map_of_map_set id g1)
  have rel: "rg_released g' = rg_released g" "rg_nextLease g \<le> rg_nextLease g'" "rg_nextLease g' = rg_nextLease g1"
    using g1 by (simp_all add: g' set_snapshot_def)
  have closed: "closed_snapshot g' k' = (if k' = k then map_of (rg_released g) k \<noteq> None \<or> closed_state st' else closed_snapshot g k')" for k'
    by (simp add: closed_snapshot_def look rel)
  have open': "\<not> closed_snapshot g k" if "\<not> closed_state st"
    using g here that by (simp add: closed_snapshot_def registry_ok_def)
  have "registry_ok g'"
    unfolding registry_ok_def look rel
  proof (intro allI impI)
    fix k' x assume x: "(if k' = k then Some st' else map_of (rg_snapshots g) k') = Some x"
    show "snapshot_ok g' k' x \<and> map_of (rg_released g) k' = None"
    proof (cases "k' = k")
      case True
      then show ?thesis using x ok g here rel(3) by (simp add: snapshot_ok_def registry_ok_def)
    next
      case False
      then have "snapshot_ok g k' x \<and> map_of (rg_released g) k' = None" using x g by (simp add: registry_ok_def)
      then show ?thesis using rel(2) by (fastforce simp: snapshot_ok_def)
    qed
  qed
  moreover have "receipts_ok g \<longrightarrow> receipts_ok g'" by (simp add: receipts_ok_def rel)
  moreover have "\<forall>k'. closed_snapshot g k' \<longrightarrow> closed_snapshot g' k'"
  proof (intro allI impI)
    fix k' assume c: "closed_snapshot g k'"
    show "closed_snapshot g' k'"
    proof (cases "k' = k")
      case True
      then have "map_of (rg_released g) k \<noteq> None \<or> closed_state st" using c here by (simp add: closed_snapshot_def)
      then show ?thesis using stays by (auto simp: closed True)
    qed (use c closed in simp)
  qed
  moreover have "\<forall>k'. k' \<in> set (outs uses (g', os)) \<longrightarrow> \<not> closed_snapshot g k'"
  proof (intro allI impI)
    fix k' assume in': "k' \<in> set (outs uses (g', os))"
    then have "outs uses (g', os) \<noteq> []" by (metis empty_iff list.set(1))
    from uses [OF this] in' open' show "\<not> closed_snapshot g k'" by simp
  qed
  moreover have "distinct (outs removals (g', os)) \<and> (\<forall>k'. k' \<in> set (outs removals (g', os)) \<longrightarrow> closed_snapshot g' k')"
  proof (cases "outs removals (g', os) = []")
    case True
    then show ?thesis by (metis distinct.simps(1) empty_iff list.set(1))
  next
    case False
    then have "outs removals (g', os) = [k]" "closed_state st'" using rem by blast+
    then show ?thesis using closed by (metis distinct_singleton empty_iff insert_iff list.set)
  qed
  moreover have "\<forall>k'. count_list (outs leases (g', os)) k' + leased_now g k' = count_list (outs completions (g', os)) k' + leased_now g' k'"
  proof
    fix k'
    show "count_list (outs leases (g', os)) k' + leased_now g k' = count_list (outs completions (g', os)) k' + leased_now g' k'"
      using cnt [of k'] by (cases "k' = k") (simp_all add: leased_now_def look here split: if_splits)
  qed
  ultimately show ?thesis by (simp add: registry_step_ok_def)
qed

section \<open>Operations\<close>

lemma acquire_ok:
  assumes "registry_ok g"
  shows "registry_step_ok g (acquire_lease w r t g)"
proof (cases "require_snapshot w g")
  case (Inl e)
  then show ?thesis using assms by (simp add: acquire_lease_def quiet_step uses_def)
next
  case (Inr st)
  note here = require_Inr [OF Inr]
  have ok: "snapshot_ok g (wk_snapshotId w) st" using assms here by (simp add: registry_ok_def)
  show ?thesis
  proof (cases "\<not> run_id_ok r \<or> ss_quarantined st \<or> ss_lease st \<noteq> None \<or> ss_token st \<noteq> None")
    case True
    then have "\<exists>e. acquire_lease w r t g = (g, [WsRefused e])" using Inr by (auto simp: acquire_lease_def)
    then show ?thesis using quiet_refused [OF assms] by auto
  next
    case False
    let ?g1 = "g\<lparr>rg_nextLease := rg_nextLease g + 1\<rparr>"
    have id: "wk_snapshotId (ss_snapshot st) = wk_snapshotId w" using ok by (simp add: snapshot_ok_def)
    show ?thesis
    proof (cases t)
      case None
      have "acquire_lease w r t g = (?g1, [WsRefused WsTypeError])"
        using Inr False None by (simp add: acquire_lease_def Let_def workspaceTimestamp_def)
      moreover have "registry_ok ?g1" using assms by (fastforce simp: registry_ok_def snapshot_ok_def)
      ultimately show ?thesis
        by (auto simp: registry_step_ok_def receipts_ok_def closed_snapshot_def leased_now_def uses_def split: option.split)
    next
      case (Some time)
      let ?l = "\<lparr>wl_snapshotId = wk_snapshotId w, wl_runId = r, wl_generation = rg_nextLease ?g1, wl_acquiredAt = time\<rparr>"
      have eq: "acquire_lease w r t g = (set_snapshot (st\<lparr>ss_lease := Some ?l\<rparr>) ?g1, [Leased ?l])"
        using Inr False Some by (simp add: acquire_lease_def Let_def workspaceTimestamp_def)
      show ?thesis unfolding eq
        by (rule set_snapshot_step [OF assms here, where ?g1.0 = ?g1 and st' = "st\<lparr>ss_lease := Some ?l\<rparr>"])
          (use False ok id in \<open>auto simp: snapshot_ok_def closed_state_def uses_def\<close>)
    qed
  qed
qed

lemma complete_ok:
  assumes "registry_ok g"
  shows "registry_step_ok g (complete_lease dp l c g)"
proof (cases "\<exists>st active fs. map_of (rg_snapshots g) (wl_snapshotId l) = Some st \<and> ss_lease st = Some active
    \<and> wl_runId active = wl_runId l \<and> wl_generation active = wl_generation l \<and> wl_acquiredAt active = wl_acquiredAt l
    \<and> readCleanup dp c l = Inr fs")
  case True
  then obtain st active fs where st: "map_of (rg_snapshots g) (wl_snapshotId l) = Some st" "ss_lease st = Some active"
    "wl_runId active = wl_runId l" "wl_generation active = wl_generation l" "wl_acquiredAt active = wl_acquiredAt l"
    "readCleanup dp c l = Inr fs" by metis
  let ?st = "st\<lparr>ss_lease := None, ss_lastRun := Some (wl_runId l), ss_quarantined := evidence_unsafe fs\<rparr>"
  have ok: "snapshot_ok g (wl_snapshotId l) st" using assms st by (simp add: registry_ok_def)
  have eq: "complete_lease dp l c g = (set_snapshot ?st g, [LeaseCompleted (wl_snapshotId l) (evidence_unsafe fs)])"
    using st by (simp add: complete_lease_def)
  have free: "ss_token st = None" "ss_promise st = NoRelease" using ok st(2) by (auto simp: snapshot_ok_def)
  show ?thesis unfolding eq
    by (rule set_snapshot_step [OF assms st(1), where ?g1.0 = g and st' = ?st])
      (use ok st(2) free in \<open>auto simp: snapshot_ok_def closed_state_def uses_def\<close>)
next
  case False
  then have "\<exists>e. complete_lease dp l c g = (g, [WsRefused e])"
    by (auto simp: complete_lease_def split: option.split sum.split)
  then show ?thesis using quiet_refused [OF assms] by auto
qed

lemma receipt_output_quiet [simp]: "removals (receipt_output k r) = []" "leases (receipt_output k r) = []"
  "completions (receipt_output k r) = []" "uses (receipt_output k r) = []"
  by (auto simp: receipt_output_def uses_def split: sum.split)

lemma release_ok:
  assumes "registry_ok g"
  shows "registry_step_ok g (release_snapshot w aborted t g)"
proof (cases "map_of (rg_released g) (wk_snapshotId w)")
  case (Some c)
  then show ?thesis using assms by (simp add: release_snapshot_def quiet_step uses_def)
next
  case None
  show ?thesis
  proof (cases "require_snapshot w g")
    case (Inl e)
    then show ?thesis using assms None by (simp add: release_snapshot_def quiet_step uses_def)
  next
    case (Inr st)
    note here = require_Inr [OF Inr]
    have ok: "snapshot_ok g (wk_snapshotId w) st" using assms here by (simp add: registry_ok_def)
    show ?thesis
    proof (cases "ss_lease st \<noteq> None \<or> ss_quarantined st \<or> aborted \<or> ss_promise st \<noteq> NoRelease")
      case True
      then have "\<exists>x. uses x = [] \<and> completions x = [] \<and> release_snapshot w aborted t g = (g, [x])"
        using None Inr by (cases "ss_promise st") (auto simp: release_snapshot_def uses_def)
      then show ?thesis using quiet_one [OF assms] by auto
    next
      case False
      let ?g1 = "g\<lparr>rg_nextToken := rg_nextToken g + 1\<rparr>"
      let ?st = "st\<lparr>ss_token := Some (rg_nextToken ?g1), ss_promise := Removing\<rparr>"
      have eq: "release_snapshot w aborted t g = (set_snapshot ?st ?g1,
          [RemoveTree (wk_snapshotId w) (ss_directory st) (ss_root st), ReleaseWaits (wk_snapshotId w)])"
        using None Inr False by (simp add: release_snapshot_def Let_def)
      show ?thesis unfolding eq
        by (rule set_snapshot_step [OF assms here, where ?g1.0 = ?g1 and st' = ?st])
          (use False ok in \<open>auto simp: snapshot_ok_def closed_state_def uses_def\<close>)
    qed
  qed
qed

lemma removal_ok:
  assumes "registry_ok g"
  shows "registry_step_ok g (removal_settles k removed t u g)"
proof (cases "\<exists>st. map_of (rg_snapshots g) k = Some st \<and> ss_promise st = Removing")
  case False
  then have "removal_settles k removed t u g = (g, [])" by (auto simp: removal_settles_def split: option.split)
  then show ?thesis using quiet_step [OF assms, of "[]"] by simp
next
  case True
  then obtain st where st: "map_of (rg_snapshots g) k = Some st" "ss_promise st = Removing" by blast
  have ok: "snapshot_ok g k st" using assms st by (simp add: registry_ok_def)
  have free: "ss_lease st = None" "ss_token st \<noteq> None" using ok st(2) by (auto simp: snapshot_ok_def)
  show ?thesis
  proof (cases "if removed then workspaceTimestamp t else Inl WsTypeError")
    case (Inl e)
    let ?r = "unconfirmed (st\<lparr>ss_quarantined := True\<rparr>) u ''Snapshot removal could not be confirmed.''"
    let ?st = "st\<lparr>ss_quarantined := True, ss_promise := ReleaseSettled ?r\<rparr>"
    have eq: "removal_settles k removed t u g = (set_snapshot ?st g, [receipt_output k ?r])"
      using st Inl by (simp add: removal_settles_def Let_def)
    show ?thesis unfolding eq
      by (rule set_snapshot_step [OF assms st(1), where ?g1.0 = g and st' = ?st])
        (use ok free in \<open>auto simp: snapshot_ok_def closed_state_def\<close>)
  next
    case (Inr time)
    let ?c = "cleanupReceipt st time ReceiptConfirmed False None"
    let ?g = "g\<lparr>rg_snapshots := map_delete k (rg_snapshots g), rg_released := map_set k ?c (rg_released g)\<rparr>"
    have eq: "removal_settles k removed t u g = (?g, [ReceiptReturned k ?c])"
      using st Inr by (simp add: removal_settles_def Let_def)
    have "registry_ok ?g" using assms
      by (auto simp: registry_ok_def snapshot_ok_def map_of_map_delete map_of_map_set split: if_splits)
    moreover have "receipts_ok g \<longrightarrow> receipts_ok ?g"
      by (auto simp: receipts_ok_def map_of_map_set cleanupReceipt_def split: if_splits)
    moreover have "closed_snapshot g k' \<longrightarrow> closed_snapshot ?g k'" for k'
      by (auto simp: closed_snapshot_def map_of_map_delete map_of_map_set)
    moreover have "leased_now ?g k' = leased_now g k'" for k'
      using st(1) free(1) by (simp add: leased_now_def map_of_map_delete)
    ultimately show ?thesis unfolding eq by (simp add: registry_step_ok_def uses_def)
  qed
qed

lemma add_ok:
  assumes "registry_ok g" "add_snapshot w dir base g = Inr g'"
  shows "registry_step_ok g (g', [])"
proof -
  have fresh: "map_of (rg_snapshots g) (wk_snapshotId w) = None" "map_of (rg_released g) (wk_snapshotId w) = None"
    using assms(2) by (auto simp: add_snapshot_def map_has_iff split: if_splits)
  let ?st = "\<lparr>ss_snapshot = w, ss_directory = dir, ss_root = base, ss_lease = None, ss_lastRun = None,
        ss_quarantined = False, ss_token = None, ss_promise = NoRelease\<rparr>"
  have g': "g' = set_snapshot ?st g" using assms(2) by (auto simp: add_snapshot_def split: if_splits)
  have look: "map_of (rg_snapshots g') k = (if k = wk_snapshotId w then Some ?st else map_of (rg_snapshots g) k)" for k
    by (simp add: g' set_snapshot_def map_of_map_set)
  have rel: "rg_released g' = rg_released g" "rg_nextLease g' = rg_nextLease g" by (simp_all add: g' set_snapshot_def)
  have "registry_ok g'" using assms(1) fresh by (auto simp: registry_ok_def snapshot_ok_def look rel split: if_splits)
  moreover have "closed_snapshot g k \<longrightarrow> closed_snapshot g' k" for k
    using fresh by (auto simp: closed_snapshot_def look rel)
  moreover have "leased_now g' k = leased_now g k" for k using fresh(1) by (simp add: leased_now_def look)
  ultimately show ?thesis by (simp add: registry_step_ok_def receipts_ok_def rel)
qed

section \<open>The provider\<close>

lemma provider_registry [simp]: "pv_registry (set_operation k r p) = pv_registry p" "pv_reserved (set_operation k r p) = pv_reserved p"
  "pv_waiting (set_operation k r p) = pv_waiting p"
  by (simp_all add: set_operation_def)

lemma prepare_fails_quiet: "pv_registry (fst (prepare_fails k a b e t p)) = pv_registry p"
  "\<exists>x. snd (prepare_fails k a b e t p) = [WsRefused x]"
  by (auto simp: prepare_fails_def split: sum.split)

lemma prepare_start_quiet: "pv_registry (fst (prepare_start v uuid t u p)) = pv_registry p"
  "\<exists>x. snd (prepare_start v uuid t u p) = [x] \<and> uses x = [] \<and> completions x = []"
proof -
  have q: "\<exists>y. snd (prepare_fails k a b e t p) = [y] \<and> uses y = [] \<and> completions y = []" for k a b e t p
    using prepare_fails_quiet(2) [of k a b e t p] by (auto simp: uses_def)
  show "pv_registry (fst (prepare_start v uuid t u p)) = pv_registry p"
    by (auto simp: prepare_start_def Let_def prepare_fails_quiet(1) split: sum.split)
  show "\<exists>x. snd (prepare_start v uuid t u p) = [x] \<and> uses x = [] \<and> completions x = []"
    by (simp add: prepare_start_def Let_def q split: sum.split) (simp add: uses_def)
qed

lemma discard_quiet [simp]: "concat (map uses (discard_output d)) = []" "concat (map completions (discard_output d)) = []"
  "concat (map removals (discard_output d)) = []" "concat (map leases (discard_output d)) = []"
  by (auto simp: discard_output_def uses_def split: option.split)

definition quiet :: "ws_output list \<Rightarrow> bool" where
  "quiet os = (concat (map uses os) = [] \<and> concat (map completions os) = [])"

lemma quiet_outputs:
  assumes "registry_step_ok g (g', [])" "quiet os"
  shows "registry_step_ok g (g', os)"
proof -
  have "concat (map removals os) = []" "concat (map leases os) = []" using assms(2) by (auto simp: quiet_def uses_def)
  note e = this assms(2) [unfolded quiet_def, THEN conjunct1] assms(2) [unfolded quiet_def, THEN conjunct2]
  show ?thesis using assms(1) unfolding registry_step_ok_def fst_conv snd_conv e by simp
qed

lemma prepare_settles_ok:
  assumes "registry_ok (pv_registry p)"
  shows "registry_step_ok (pv_registry p) (pv_registry (fst (prepare_settles k x aborted t u p)), snd (prepare_settles k x aborted t u p))"
proof -
  let ?g = "pv_registry p" and ?r = "prepare_settles k x aborted t u p"
  have same: "registry_step_ok ?g (?g, [])" by (rule quiet_step [OF assms]) simp_all
  have failing: "pv_registry (fst (let (p', os) = prepare_fails k a b e u q in (p', discard_output d @ os))) = pv_registry q
      \<and> quiet (snd (let (p', os) = prepare_fails k a b e u q in (p', discard_output d @ os)))" for k a b e q d
    using prepare_fails_quiet [of k a b e u q] by (auto simp: split_beta quiet_def discard_output_def uses_def split: option.split)
  have silent: "quiet []" "quiet [Prepared sn]" for sn by (simp_all add: quiet_def uses_def)
  have "registry_step_ok ?g (pv_registry (fst ?r), []) \<and> quiet (snd ?r)"
  proof (cases "map_of (pv_waiting p) k")
    case None
    then show ?thesis using same silent by (simp add: prepare_settles_def)
  next
    case (Some w)
    show ?thesis
    proof (cases x)
      case (SnapshotFailed e dirs)
      then show ?thesis using Some same by (simp add: prepare_settles_def Let_def failing [unfolded Let_def])
    next
      case (SnapshotMade dir base revision)
      let ?snap = "\<lparr>wk_operationId = k, wk_snapshotId = pr_snapshotId w, wk_resolvedRevision = revision, wk_rootPath = di_path dir\<rparr>"
      show ?thesis
      proof (cases "add_snapshot ?snap dir base ?g")
        case (Inl e)
        then show ?thesis using Some same SnapshotMade by (simp add: prepare_settles_def Let_def failing [unfolded Let_def])
      next
        case (Inr g')
        then show ?thesis using Some same SnapshotMade add_ok [OF assms Inr]
          by (cases "workspaceTimestamp t") (simp_all add: prepare_settles_def Let_def failing [unfolded Let_def] silent)
      qed
    qed
  qed
  then show ?thesis using quiet_outputs by blast
qed

lemma ws_step_ok:
  assumes "registry_ok (pv_registry p)"
  shows "registry_step_ok (pv_registry p) (pv_registry (fst (ws_step dp p e)), snd (ws_step dp p e))"
proof (cases e)
  case (PrepareCall v uuid t u)
  obtain x where "snd (prepare_start v uuid t u p) = [x]" "uses x = []" "completions x = []"
    using prepare_start_quiet(2) by metis
  then show ?thesis using quiet_one [OF assms] by (simp add: PrepareCall prepare_start_quiet(1))
next
  case (PrepareDone k x aborted t u)
  then show ?thesis using prepare_settles_ok [OF assms] by simp
qed (use acquire_ok [OF assms] complete_ok [OF assms] release_ok [OF assms] removal_ok [OF assms] in
    \<open>simp_all add: on_registry_def split_beta\<close>)

interpretation workspace_machine: step_machine "ws_step dp" "\<lambda>p. registry_ok (pv_registry p) \<and> receipts_ok (pv_registry p)" for dp
  by unfold_locales (use ws_step_ok in \<open>auto simp: registry_step_ok_def\<close>)

interpretation removal_once: once_only "ws_step dp" "\<lambda>p. registry_ok (pv_registry p)"
  "\<lambda>p k. \<not> closed_snapshot (pv_registry p) k" removals for dp
proof
  fix p :: provider and e k assume inv: "registry_ok (pv_registry p)"
  note step = ws_step_ok [OF inv, of dp e, unfolded registry_step_ok_def fst_conv snd_conv]
  show "registry_ok (pv_registry (fst (ws_step dp p e)))" using step by blast
  show "distinct (concat (map removals (snd (ws_step dp p e))))" using step by blast
  show "\<not> closed_snapshot (pv_registry p) k \<and> \<not> \<not> closed_snapshot (pv_registry (fst (ws_step dp p e))) k"
    if "k \<in> set (concat (map removals (snd (ws_step dp p e))))"
  proof -
    have "k \<in> set (concat (map uses (snd (ws_step dp p e))))" using that by (auto simp: uses_def)
    then show ?thesis using step that by blast
  qed
  show "\<not> \<not> closed_snapshot (pv_registry (fst (ws_step dp p e))) k" if "\<not> \<not> closed_snapshot (pv_registry p) k"
    using step that by blast
qed

section \<open>Over any sequence of events\<close>

lemma empty_ok: "registry_ok (pv_registry empty_provider)" "receipts_ok (pv_registry empty_provider)"
  by (simp_all add: registry_ok_def receipts_ok_def empty_provider_def empty_registry_def)

lemma reached_registry: "registry_ok (pv_registry (fst (run_steps (ws_step dp) empty_provider es)))"
  by (rule removal_once.run_inv [OF empty_ok(1)])

text \<open>A closed snapshot is not touched again.\<close>

lemma closed_untouched:
  assumes "registry_ok (pv_registry p)" "closed_snapshot (pv_registry p) k"
  shows "k \<notin> set (outs uses (run_steps (ws_step dp) p es))"
  using assms
proof (induction es arbitrary: p)
  case (Cons e es)
  note step = ws_step_ok [OF Cons.prems(1), of dp e, unfolded registry_step_ok_def fst_conv snd_conv]
  have "k \<notin> set (outs uses (ws_step dp p e))" using step Cons.prems(2) by blast
  moreover have "k \<notin> set (outs uses (run_steps (ws_step dp) (fst (ws_step dp p e)) es))"
    using Cons.IH step Cons.prems(2) by blast
  ultimately show ?case by (simp add: Let_def split_beta)
qed simp

lemma lease_count:
  assumes "registry_ok (pv_registry p)"
  shows "count_list (outs leases (run_steps (ws_step dp) p es)) k + leased_now (pv_registry p) k
    = count_list (outs completions (run_steps (ws_step dp) p es)) k
      + leased_now (pv_registry (fst (run_steps (ws_step dp) p es))) k"
  using assms
proof (induction es arbitrary: p)
  case (Cons e es)
  note step = ws_step_ok [OF Cons.prems(1), of dp e, unfolded registry_step_ok_def fst_conv snd_conv]
  let ?p = "fst (ws_step dp p e)"
  have "count_list (outs leases (ws_step dp p e)) k + leased_now (pv_registry p) k
      = count_list (outs completions (ws_step dp p e)) k + leased_now (pv_registry ?p) k" using step by blast
  moreover have "count_list (outs leases (run_steps (ws_step dp) ?p es)) k + leased_now (pv_registry ?p) k
      = count_list (outs completions (run_steps (ws_step dp) ?p es)) k
        + leased_now (pv_registry (fst (run_steps (ws_step dp) ?p es))) k"
    using Cons.IH step by blast
  ultimately show ?case by (simp add: Let_def split_beta)
qed simp

text \<open>Completing a lease on unsafe evidence closes the snapshot.\<close>

lemma unsafe_closes:
  assumes "snd (complete_lease dp l c g) = [LeaseCompleted k True]" "registry_ok g"
  shows "closed_snapshot (fst (complete_lease dp l c g)) k"
proof -
  obtain st fs where st: "map_of (rg_snapshots g) (wl_snapshotId l) = Some st" "k = wl_snapshotId l" "evidence_unsafe fs"
    "complete_lease dp l c g = (set_snapshot (st\<lparr>ss_lease := None, ss_lastRun := Some (wl_runId l),
       ss_quarantined := True\<rparr>) g, [LeaseCompleted k True])"
    using assms(1) by (auto simp: complete_lease_def split: option.splits if_splits sum.splits)
  have "wk_snapshotId (ss_snapshot st) = k" using assms(2) st by (simp add: registry_ok_def snapshot_ok_def)
  then show ?thesis
    by (simp add: st(4) closed_snapshot_def set_snapshot_def map_of_map_set closed_state_def)
qed

text \<open>What closes a snapshot: the start of its removal, and a lease completed on unsafe evidence.\<close>

fun closings :: "ws_output \<Rightarrow> string list" where
  "closings (RemoveTree k _ _) = [k]"
| "closings (LeaseCompleted k True) = [k]"
| "closings _ = []"

lemma closings_cases:
  assumes "k \<in> set (outs closings r)"
  shows "k \<in> set (outs removals r) \<or> LeaseCompleted k True \<in> set (snd r)"
proof -
  obtain x where x: "x \<in> set (snd r)" "k \<in> set (closings x)" using assms by auto
  then show ?thesis by (cases x rule: closings.cases) force+
qed

lemma completed_output: "LeaseCompleted k b \<in> set (snd (ws_step dp p e)) \<Longrightarrow>
    \<exists>l c. e = CompleteCall l c \<and> snd (complete_lease dp l c (pv_registry p)) = [LeaseCompleted k b]"
proof (cases e)
  case (PrepareCall v uuid t u)
  assume "LeaseCompleted k b \<in> set (snd (ws_step dp p e))"
  moreover obtain x where "snd (prepare_start v uuid t u p) = [x]" "completions x = []" using prepare_start_quiet(2) by metis
  ultimately show ?thesis by (auto simp: PrepareCall)
next
  case (PrepareDone j x aborted t u)
  assume "LeaseCompleted k b \<in> set (snd (ws_step dp p e))"
  then show ?thesis
    by (auto simp: PrepareDone prepare_settles_def Let_def split_beta discard_output_def prepare_fails_def
        split: option.splits prepare_outcome.splits if_splits sum.splits prod.splits)
next
  case (CompleteCall l c)
  assume "LeaseCompleted k b \<in> set (snd (ws_step dp p e))"
  then show ?thesis
    by (auto simp: CompleteCall on_registry_def split_beta complete_lease_def split: option.splits if_splits sum.splits)
qed (auto simp: on_registry_def split_beta acquire_lease_def release_snapshot_def removal_settles_def Let_def receipt_output_def
      split: option.splits if_splits sum.splits release_promise.splits)

lemma step_closings:
  assumes "registry_ok (pv_registry p)" "k \<in> set (outs closings (ws_step dp p e))"
  shows "closed_snapshot (pv_registry (fst (ws_step dp p e))) k"
  using closings_cases [OF assms(2)]
proof
  assume "k \<in> set (outs removals (ws_step dp p e))"
  then show ?thesis using removal_once.emitted_live [OF assms(1)] by blast
next
  assume "LeaseCompleted k True \<in> set (snd (ws_step dp p e))"
  then obtain l c where "e = CompleteCall l c" "snd (complete_lease dp l c (pv_registry p)) = [LeaseCompleted k True]"
    using completed_output by blast
  then show ?thesis using unsafe_closes [OF _ assms(1)] by (simp add: on_registry_def split_beta)
qed

lemma run_closings:
  assumes "registry_ok (pv_registry p)" "k \<in> set (outs closings (run_steps (ws_step dp) p es))"
  shows "closed_snapshot (pv_registry (fst (run_steps (ws_step dp) p es))) k"
  using assms
proof (induction es arbitrary: p)
  case (Cons e es)
  let ?p = "fst (ws_step dp p e)"
  have ok: "registry_ok (pv_registry ?p)" using removal_once.step_inv [OF Cons.prems(1)] .
  have "k \<in> set (outs closings (ws_step dp p e)) \<or> k \<in> set (outs closings (run_steps (ws_step dp) ?p es))"
    using Cons.prems(2) by (simp add: Let_def split_beta)
  then have "closed_snapshot (pv_registry (fst (run_steps (ws_step dp) ?p es))) k"
    using step_closings [OF Cons.prems(1)] removal_once.run_dead [OF ok, of k dp es] Cons.IH [OF ok] by blast
  then show ?case by (simp add: Let_def split_beta)
qed simp

section \<open>Whose lease it is\<close>

definition active_lease :: "ws_registry \<Rightarrow> string \<Rightarrow> workspace_lease option" where
  "active_lease g k = Option.bind (map_of (rg_snapshots g) k) ss_lease"

text \<open>
  What one event does to the lease of a snapshot: it stays, or the very lease is completed. A lease is
  given only when there is none, under a generation not given before.
\<close>

definition completes :: "string \<Rightarrow> ws_output \<Rightarrow> bool" where
  "completes k x = (case x of LeaseCompleted j _ \<Rightarrow> j = k | _ \<Rightarrow> False)"

definition lease_kept :: "ws_registry \<Rightarrow> ws_event \<Rightarrow> ws_registry \<Rightarrow> ws_output list \<Rightarrow> string \<Rightarrow> bool" where
  "lease_kept g e g' os k = (case active_lease g k of
     None \<Rightarrow> \<not> list_ex (completes k) os
   | Some l \<Rightarrow> active_lease g' k = Some l \<and> \<not> list_ex (completes k) os
       \<or> active_lease g' k = None \<and> (\<exists>c b. e = CompleteCall l c \<and> os = [LeaseCompleted k b]))"

definition lease_fresh :: "ws_registry \<Rightarrow> ws_registry \<Rightarrow> ws_output \<Rightarrow> bool" where
  "lease_fresh g g' x = (case x of
     Leased l \<Rightarrow> active_lease g (wl_snapshotId l) = None \<and> active_lease g' (wl_snapshotId l) = Some l
       \<and> wl_generation l = rg_nextLease g + 1 \<and> rg_nextLease g' = rg_nextLease g + 1
   | _ \<Rightarrow> True)"

definition lease_step :: "ws_registry \<Rightarrow> ws_event \<Rightarrow> ws_registry \<times> ws_output list \<Rightarrow> bool" where
  "lease_step g e r = ((\<forall>k. lease_kept g e (fst r) (snd r) k) \<and> list_all (lease_fresh g (fst r)) (snd r)
     \<and> rg_nextLease g \<le> rg_nextLease (fst r))"

lemma lease_same:
  assumes "\<And>k. active_lease g' k = active_lease g k" "rg_nextLease g \<le> rg_nextLease g'"
    "list_all (\<lambda>x. leases x = [] \<and> completions x = []) os"
  shows "lease_step g e (g', os)"
proof -
  have "\<not> list_ex (completes k) os" for k
    using assms(3) by (induction os) (auto simp: completes_def split: ws_output.split)
  moreover have "list_all (lease_fresh g g') os"
    using assms(3) by (induction os) (auto simp: lease_fresh_def split: ws_output.split)
  ultimately show ?thesis using assms(1,2) by (simp add: lease_step_def lease_kept_def split: option.split)
qed

lemma active_set: "wk_snapshotId (ss_snapshot st) = j \<Longrightarrow> active_lease (set_snapshot st g) k = (if k = j then ss_lease st else active_lease g k)"
  by (simp add: active_lease_def set_snapshot_def map_of_map_set)

lemma acquire_lease_step:
  assumes "registry_ok g"
  shows "lease_step g e (acquire_lease w r t g)"
proof (cases "\<exists>st. require_snapshot w g = Inr st \<and> run_id_ok r \<and> \<not> ss_quarantined st \<and> ss_lease st = None \<and> ss_token st = None")
  case False
  then have "\<exists>x. acquire_lease w r t g = (g, [WsRefused x])" by (auto simp: acquire_lease_def split: sum.split)
  then show ?thesis by (elim exE) (simp add: lease_same)
next
  case True
  then obtain st where st: "require_snapshot w g = Inr st" "run_id_ok r" "\<not> ss_quarantined st" "ss_lease st = None" "ss_token st = None"
    by blast
  note here = require_Inr [OF st(1)]
  have id: "wk_snapshotId (ss_snapshot st) = wk_snapshotId w" using assms here by (simp add: registry_ok_def snapshot_ok_def)
  let ?g1 = "g\<lparr>rg_nextLease := rg_nextLease g + 1\<rparr>"
  have act: "active_lease ?g1 k = active_lease g k" for k by (simp add: active_lease_def)
  show ?thesis
  proof (cases t)
    case None
    have "acquire_lease w r t g = (?g1, [WsRefused WsTypeError])"
      using st None by (simp add: acquire_lease_def Let_def workspaceTimestamp_def)
    then show ?thesis using lease_same [of ?g1 g] act by simp
  next
    case (Some time)
    let ?l = "\<lparr>wl_snapshotId = wk_snapshotId w, wl_runId = r, wl_generation = rg_nextLease ?g1, wl_acquiredAt = time\<rparr>"
    have eq: "acquire_lease w r t g = (set_snapshot (st\<lparr>ss_lease := Some ?l\<rparr>) ?g1, [Leased ?l])"
      using st Some by (simp add: acquire_lease_def Let_def workspaceTimestamp_def)
    have a: "active_lease (set_snapshot (st\<lparr>ss_lease := Some ?l\<rparr>) ?g1) k = (if k = wk_snapshotId w then Some ?l else active_lease g k)" for k
      using active_set [of "st\<lparr>ss_lease := Some ?l\<rparr>" "wk_snapshotId w" ?g1 k] id act [of k] by simp
    have none: "active_lease g (wk_snapshotId w) = None" using here st(4) by (simp add: active_lease_def)
    have n: "rg_nextLease (set_snapshot (st\<lparr>ss_lease := Some ?l\<rparr>) ?g1) = rg_nextLease g + 1" by (simp add: set_snapshot_def)
    show ?thesis unfolding eq lease_step_def fst_conv snd_conv lease_kept_def lease_fresh_def a n
      using none by (auto simp: completes_def split: option.split)
  qed
qed

lemma complete_lease_step:
  assumes "registry_ok g"
  shows "lease_step g (CompleteCall l c) (complete_lease dp l c g)"
proof (cases "\<exists>st active fs. map_of (rg_snapshots g) (wl_snapshotId l) = Some st \<and> ss_lease st = Some active
    \<and> wl_runId active = wl_runId l \<and> wl_generation active = wl_generation l \<and> wl_acquiredAt active = wl_acquiredAt l
    \<and> readCleanup dp c l = Inr fs")
  case False
  then have "\<exists>e. complete_lease dp l c g = (g, [WsRefused e])"
    by (auto simp: complete_lease_def split: option.split sum.split)
  then show ?thesis by (elim exE) (simp add: lease_same)
next
  case True
  then obtain st active fs where st: "map_of (rg_snapshots g) (wl_snapshotId l) = Some st" "ss_lease st = Some active"
    "wl_runId active = wl_runId l" "wl_generation active = wl_generation l" "wl_acquiredAt active = wl_acquiredAt l"
    "readCleanup dp c l = Inr fs" by metis
  let ?st = "st\<lparr>ss_lease := None, ss_lastRun := Some (wl_runId l), ss_quarantined := evidence_unsafe fs\<rparr>"
  have ok: "snapshot_ok g (wl_snapshotId l) st" using assms st by (simp add: registry_ok_def)
  have same: "active = l" using ok st by (simp add: snapshot_ok_def)
  have eq: "complete_lease dp l c g = (set_snapshot ?st g, [LeaseCompleted (wl_snapshotId l) (evidence_unsafe fs)])"
    using st by (simp add: complete_lease_def)
  have id: "wk_snapshotId (ss_snapshot ?st) = wl_snapshotId l" using ok by (simp add: snapshot_ok_def)
  have before: "active_lease g (wl_snapshotId l) = Some l" using st(1,2) same by (simp add: active_lease_def)
  have n: "rg_nextLease (set_snapshot ?st g) = rg_nextLease g" by (simp add: set_snapshot_def)
  show ?thesis unfolding eq lease_step_def fst_conv snd_conv lease_kept_def lease_fresh_def active_set [OF id] n
    using before by (auto simp: completes_def split: option.split)
qed

lemma release_lease_step:
  assumes "registry_ok g"
  shows "lease_step g e (release_snapshot w aborted t g)"
proof -
  have quiet: "list_all (\<lambda>x. leases x = [] \<and> completions x = []) (snd (release_snapshot w aborted t g))"
    by (auto simp: release_snapshot_def Let_def split: option.split sum.split release_promise.split)
  have keep: "active_lease (fst (release_snapshot w aborted t g)) k = active_lease g k
      \<and> rg_nextLease g \<le> rg_nextLease (fst (release_snapshot w aborted t g))" for k
  proof (cases "map_of (rg_released g) (wk_snapshotId w)")
    case None
    show ?thesis
    proof (cases "require_snapshot w g")
      case (Inr st)
      note here = require_Inr [OF Inr]
      have id: "wk_snapshotId (ss_snapshot st) = wk_snapshotId w" using assms here by (simp add: registry_ok_def snapshot_ok_def)
      have a: "active_lease g (wk_snapshotId w) = ss_lease st" using here by (simp add: active_lease_def)
      show ?thesis using None Inr id a
        by (cases "ss_promise st") (auto simp: release_snapshot_def Let_def active_set, simp_all add: active_lease_def set_snapshot_def)
    qed (use None in \<open>simp add: release_snapshot_def\<close>)
  qed (simp add: release_snapshot_def)
  show ?thesis using lease_same [of "fst (release_snapshot w aborted t g)" g "snd (release_snapshot w aborted t g)" e] quiet keep by simp
qed

lemma removal_lease_step:
  assumes "registry_ok g"
  shows "lease_step g e (removal_settles k removed t u g)"
proof (cases "\<exists>st. map_of (rg_snapshots g) k = Some st \<and> ss_promise st = Removing")
  case False
  then have "removal_settles k removed t u g = (g, [])" by (auto simp: removal_settles_def split: option.split)
  then show ?thesis by (simp add: lease_same)
next
  case True
  then obtain st where st: "map_of (rg_snapshots g) k = Some st" "ss_promise st = Removing" by blast
  have ok: "snapshot_ok g k st" using assms st by (simp add: registry_ok_def)
  have free: "ss_lease st = None" "wk_snapshotId (ss_snapshot st) = k" using ok st(2) by (auto simp: snapshot_ok_def)
  have a: "active_lease g k = None" using st(1) free(1) by (simp add: active_lease_def)
  show ?thesis
  proof (cases "if removed then workspaceTimestamp t else Inl WsTypeError")
    case (Inl x)
    then show ?thesis using st free a
      by (auto simp: removal_settles_def Let_def active_set intro!: lease_same) (auto simp: set_snapshot_def)
  next
    case (Inr time)
    then show ?thesis using st a
      by (auto simp: removal_settles_def Let_def active_lease_def map_of_map_delete intro!: lease_same)
  qed
qed

lemma add_active: "add_snapshot w dir base g = Inr g' \<Longrightarrow> active_lease g' k = active_lease g k \<and> rg_nextLease g' = rg_nextLease g"
  by (auto simp: add_snapshot_def active_lease_def set_snapshot_def map_of_map_set map_has_iff split: if_splits)

lemma prepare_lease_step:
  "active_lease (pv_registry (fst (prepare_settles k x aborted t u p))) j = active_lease (pv_registry p) j
    \<and> rg_nextLease (pv_registry (fst (prepare_settles k x aborted t u p))) = rg_nextLease (pv_registry p)
    \<and> list_all (\<lambda>x. leases x = [] \<and> completions x = []) (snd (prepare_settles k x aborted t u p))"
proof (cases "map_of (pv_waiting p) k")
  case (Some w)
  have f: "pv_registry (fst (prepare_fails k a b e u q)) = pv_registry q
      \<and> list_all (\<lambda>x. leases x = [] \<and> completions x = []) (snd (prepare_fails k a b e u q))" for k a b e q
    using prepare_fails_quiet [of k a b e u q] by auto
  have d: "list_all (\<lambda>x. leases x = [] \<and> completions x = []) (discard_output d)" for d
    by (simp add: discard_output_def split: option.split)
  show ?thesis
  proof (cases x)
    case (SnapshotFailed e dirs)
    then show ?thesis using Some f d by (simp add: prepare_settles_def Let_def split_beta)
  next
    case (SnapshotMade dir base revision)
    let ?snap = "\<lparr>wk_operationId = k, wk_snapshotId = pr_snapshotId w, wk_resolvedRevision = revision, wk_rootPath = di_path dir\<rparr>"
    show ?thesis
    proof (cases "add_snapshot ?snap dir base (pv_registry p)")
      case (Inl e)
      then show ?thesis using Some SnapshotMade f d by (simp add: prepare_settles_def Let_def split_beta)
    next
      case (Inr g')
      then show ?thesis using Some SnapshotMade f d add_active [OF Inr, of j]
        by (cases "workspaceTimestamp t") (simp_all add: prepare_settles_def Let_def split_beta)
    qed
  qed
qed (simp add: prepare_settles_def)

lemma ws_lease_step:
  assumes "registry_ok (pv_registry p)"
  shows "lease_step (pv_registry p) e (pv_registry (fst (ws_step dp p e)), snd (ws_step dp p e))"
proof (cases e)
  case (PrepareCall v uuid t u)
  obtain x where "snd (prepare_start v uuid t u p) = [x]" "uses x = []" "completions x = []"
    using prepare_start_quiet(2) by metis
  then show ?thesis by (simp add: PrepareCall prepare_start_quiet(1) lease_same uses_def)
next
  case (PrepareDone k x aborted t u)
  then show ?thesis using prepare_lease_step [of k x aborted t u p] by (simp add: lease_same)
qed (use acquire_lease_step [OF assms] complete_lease_step [OF assms] release_lease_step [OF assms] removal_lease_step [OF assms] in
    \<open>simp_all add: on_registry_def split_beta\<close>)

end
