(* ===== verification/RunService.thy ===== *)
theory RunService
  imports RunStoreProps WorkspaceProps
begin

text \<open>
  The durable coordinator of the test service: \<open>packages/service/src/persistent-service.ts\<close> and
  \<open>run-lifecycle.ts\<close>. A run is dispatched through its phases, one per \<open>await\<close>, on the run store and the
  workspace registry; between two phases other runs, cancellations and removals go on. The executor, the
  clock, the deadline timers and the file system answer through the inputs of a step.
\<close>

section \<open>Run lifecycle\<close>

text \<open>\<open>cleanupIsSafe\<close> on the data of a result; reading a field of \<open>undefined\<close> throws.\<close>

definition cleanupIsSafe :: "json option \<Rightarrow> store_error + bool" where
  "cleanupIsSafe c = rbind (member c ''status'') (\<lambda>st.
     if st = Some (JStr ''unconfirmed'') then Inr False
     else rbind (member c ''tainted'') (\<lambda>t. Inr (\<not> truthy t)))"

definition receipt_safe :: "cleanup_receipt \<Rightarrow> bool" where
  "receipt_safe c = (cu_status c \<noteq> ReceiptUnconfirmed \<and> \<not> cu_tainted c)"

definition object_fields :: "json \<Rightarrow> jfields" where
  "object_fields j = (case j of JObj fs \<Rightarrow> fs | _ \<Rightarrow> [])"

definition failed_result :: "json \<Rightarrow> string \<Rightarrow> string \<Rightarrow> (string \<times> json option) list \<Rightarrow> json" where
  "failed_result result failure_code message ups = JObj (spread (object_fields result) (ups @
     [(''executionStatus'', Some (JStr ''failed'')), (''outcome'', Some JNull),
      (''error'', Some (JObj [(''code'', JStr failure_code), (''message'', JStr message), (''retryable'', JBool False)]))]))"

definition failClosedCleanup :: "json \<Rightarrow> store_error + json" where
  "failClosedCleanup result =
     rbind (member (Some result) ''cleanup'') (\<lambda>c.
     rbind (cleanupIsSafe c) (\<lambda>safe.
     if safe then Inr result else
     rbind (member (Some result) ''executionStatus'') (\<lambda>st.
     if st \<noteq> Some (JStr ''completed'') then Inr result
     else Inr (failed_result result ''cleanup_unconfirmed'' ''Executor cleanup was not confirmed.'' []))))"

definition workspaceReleaseFailure :: "json \<Rightarrow> cleanup_receipt \<Rightarrow> json" where
  "workspaceReleaseFailure result c = failed_result result ''workspace_release_unconfirmed'' ''Workspace release was not confirmed.''
     [(''finishedAt'', Some (JStr (cu_attemptedAt c))), (''cleanup'', Some (cleanup_json c))]"

definition interruptionCleanup :: "string \<Rightarrow> string \<Rightarrow> string \<Rightarrow> cleanup_receipt" where
  "interruptionCleanup k sid time = \<lparr>cu_runId = Some k, cu_snapshotId = sid, cu_status = ReceiptUnconfirmed, cu_tainted = True,
     cu_attemptedAt = time, cu_detail = Some ''Owned process cleanup was not confirmed; workspace must remain quarantined.''\<rparr>"

section \<open>State\<close>

text \<open>Where a dispatch waits. The two last ones are the \<open>catch\<close>, with the cleanup receipt and the message it made.\<close>

datatype phase =
    AwaitRunning
  | AwaitExecute
  | AwaitCurrent json
  | AwaitRelease json
  | AwaitFinish json "cleanup_receipt option"
  | CatchGet cleanup_receipt string
  | CatchInterrupt cleanup_receipt string string

record run_dispatch =
  ds_workspace :: workspace_snapshot
  ds_snapshotId :: string
  ds_lease :: "workspace_lease option"
  ds_leaseCompleted :: bool
  ds_phase :: phase

text \<open>An \<open>#interrupt\<close> called by \<open>cancel\<close> that has read an unfinished record and goes on to write.\<close>

record interruption =
  it_runId :: string
  it_code :: string
  it_message :: string
  it_snapshotId :: string
  it_active :: bool                            \<comment> \<open>called by \<open>#cancelActive\<close>\<close>

record service =
  sv_store :: run_store
  sv_provider :: provider
  sv_active :: "(string \<times> run_dispatch) list"
  sv_cancelling :: "(string \<times> bool) list"   \<comment> \<open>the \<open>cancelPromise\<close> of a run, and whether it still waits\<close>
  sv_interruptions :: "interruption list"

text \<open>What the surroundings answer in one step.\<close>

record answers =
  an_io :: bool
  an_time :: string
  an_result :: "json option"
  an_message :: string
  an_timeout :: bool

definition sv_registry :: "service \<Rightarrow> ws_registry" where
  "sv_registry sv = pv_registry (sv_provider sv)"

definition set_registry :: "ws_registry \<Rightarrow> service \<Rightarrow> service" where
  "set_registry g sv = sv\<lparr>sv_provider := (sv_provider sv)\<lparr>pv_registry := g\<rparr>\<rparr>"

definition interrupt_error :: "string \<Rightarrow> string \<Rightarrow> jsv" where
  "interrupt_error failure_code message = json_value (error_json \<lparr>xe_code = failure_code, xe_message = message, xe_retryable = True\<rparr>)"

definition set_phase :: "string \<Rightarrow> run_dispatch \<Rightarrow> phase \<Rightarrow> service \<Rightarrow> service" where
  "set_phase k d ph sv = sv\<lparr>sv_active := map_set k (d\<lparr>ds_phase := ph\<rparr>) (sv_active sv)\<rparr>"

definition end_dispatch :: "string \<Rightarrow> service \<Rightarrow> service" where
  "end_dispatch k sv = sv\<lparr>sv_active := map_delete k (sv_active sv)\<rparr>"

definition catch_dispatch :: "answers \<Rightarrow> string \<Rightarrow> run_dispatch \<Rightarrow> service \<Rightarrow> service" where
  "catch_dispatch an k d sv =
     set_phase k d (CatchGet (interruptionCleanup k (ds_snapshotId d) (an_time an)) (an_message an)) sv"

text \<open>\<open>completeLease\<close>: whether it returned, and the registry after it.\<close>

definition complete_call :: "(string \<Rightarrow> bool) \<Rightarrow> workspace_lease \<Rightarrow> jsv \<Rightarrow> service \<Rightarrow> bool \<times> service" where
  "complete_call dp l c sv = (let (g, os) = complete_lease dp l c (sv_registry sv) in
     (concat (map completions os) \<noteq> [], set_registry g sv))"

text \<open>The \<open>finally\<close> of the \<open>catch\<close>, and the end of the dispatch.\<close>

definition end_catch :: "(string \<Rightarrow> bool) \<Rightarrow> string \<Rightarrow> run_dispatch \<Rightarrow> cleanup_receipt \<Rightarrow> service \<Rightarrow> service" where
  "end_catch dp k d c sv = end_dispatch k (case ds_lease d of
     None \<Rightarrow> sv
   | Some l \<Rightarrow> if ds_leaseCompleted d then sv else snd (complete_call dp l (json_value (cleanup_json c)) sv))"

definition value_of :: "json option \<Rightarrow> jsv" where
  "value_of v = (case v of None \<Rightarrow> VUndefined | Some j \<Rightarrow> json_value j)"

definition released_phase :: "json \<Rightarrow> cleanup_receipt \<Rightarrow> phase" where
  "released_phase result c = (if receipt_safe c then AwaitFinish result (Some c)
     else AwaitFinish (workspaceReleaseFailure result c) (Some c))"

text \<open>\<open>#releaseWorkspace\<close> up to its wait.\<close>

definition begin_release :: "answers \<Rightarrow> string \<Rightarrow> run_dispatch \<Rightarrow> json \<Rightarrow> service \<Rightarrow> service" where
  "begin_release an k d result sv =
     (let (g, os) = release_snapshot (ds_workspace d) False (Some (an_time an)) (sv_registry sv); sv1 = set_registry g sv in
      case rev os of
        ReceiptReturned _ c # _ \<Rightarrow> set_phase k d (released_phase result c) sv1
      | ReleaseWaits _ # _ \<Rightarrow> set_phase k d (AwaitRelease result) sv1
      | _ \<Rightarrow> catch_dispatch an k d sv1)"

text \<open>The executor has answered and the record is read: what follows up to the next wait.\<close>

definition settle_result :: "(string \<Rightarrow> bool) \<Rightarrow> answers \<Rightarrow> string \<Rightarrow> run_dispatch \<Rightarrow> json \<Rightarrow> service \<Rightarrow> service" where
  "settle_result dp an k d result sv = (case failClosedCleanup result of
     Inl _ \<Rightarrow> catch_dispatch an k d sv
   | Inr res \<Rightarrow> (case ds_lease d of
       None \<Rightarrow> set_phase k d (AwaitFinish res None) sv
     | Some l \<Rightarrow> (case member (Some res) ''cleanup'' of
         Inl _ \<Rightarrow> catch_dispatch an k d sv
       | Inr c \<Rightarrow> (let (done, sv1) = complete_call dp l (value_of c) sv; d1 = d\<lparr>ds_leaseCompleted := True\<rparr> in
           if \<not> done then catch_dispatch an k d sv1
           else (case cleanupIsSafe c of
               Inl _ \<Rightarrow> catch_dispatch an k d1 sv1
             | Inr safe \<Rightarrow> if safe then begin_release an k d1 res sv1 else set_phase k d1 (AwaitFinish res None) sv1)))))"

definition current_read :: "(string \<Rightarrow> bool) \<Rightarrow> answers \<Rightarrow> string \<Rightarrow> run_dispatch \<Rightarrow> json \<Rightarrow> service \<Rightarrow> service" where
  "current_read dp an k d result sv = (case get_run k (sv_store sv) of
     Inl _ \<Rightarrow> catch_dispatch an k d sv
   | Inr None \<Rightarrow> end_dispatch k sv
   | Inr (Some r) \<Rightarrow>
       if \<not> isTerminal (sr_status r) then settle_result dp an k d result sv
       else (case (ds_lease d, sr_cleanup r) of
           (Some l, Some c) \<Rightarrow> (let (done, sv1) = complete_call dp l (json_value (cleanup_json c)) sv in
             if done then end_dispatch k sv1 else catch_dispatch an k d sv1)
         | _ \<Rightarrow> end_dispatch k sv))"

text \<open>A store operation of the service: its success and the service after it.\<close>

definition store_call :: "(json list \<Rightarrow> nat) \<Rightarrow> nat \<Rightarrow> bool \<Rightarrow> store_op \<Rightarrow> service \<Rightarrow> bool \<times> service" where
  "store_call tb mx io x sv = (let (s, os) = store_step tb mx (sv_store sv) (io, x) in
     (case os of [StoreRefused _] \<Rightarrow> False | _ \<Rightarrow> True, sv\<lparr>sv_store := s\<rparr>))"

definition advance :: "(json list \<Rightarrow> nat) \<Rightarrow> nat \<Rightarrow> (string \<Rightarrow> bool) \<Rightarrow> answers \<Rightarrow> string \<Rightarrow> run_dispatch \<Rightarrow> service \<Rightarrow> service" where
  "advance tb mx dp an k d sv = (case ds_phase d of
     AwaitRunning \<Rightarrow> (let (ok, sv1) = store_call tb mx (an_io an) (OpMarkRunning k (an_time an)) sv in
       if ok then set_phase k d AwaitExecute sv1 else catch_dispatch an k d sv1)
   | AwaitExecute \<Rightarrow> (case an_result an of
       None \<Rightarrow> catch_dispatch an k d sv | Some result \<Rightarrow> set_phase k d (AwaitCurrent result) sv)
   | AwaitCurrent result \<Rightarrow> current_read dp an k d result sv
   | AwaitRelease result \<Rightarrow>
       if an_timeout an then set_phase k d (released_phase result \<lparr>cu_runId = Some k, cu_snapshotId = wk_snapshotId (ds_workspace d),
         cu_status = ReceiptUnconfirmed, cu_tainted = True, cu_attemptedAt = an_time an,
         cu_detail = Some ''Workspace release did not settle before its deadline.''\<rparr>) sv
       else (case map_of (rg_released (sv_registry sv)) (wk_snapshotId (ds_workspace d)) of
           Some c \<Rightarrow> set_phase k d (released_phase result c) sv
         | None \<Rightarrow> (case map_of (rg_snapshots (sv_registry sv)) (wk_snapshotId (ds_workspace d)) of
             None \<Rightarrow> catch_dispatch an k d sv
           | Some st \<Rightarrow> (case ss_promise st of
               ReleaseSettled (Inr c) \<Rightarrow> set_phase k d (released_phase result c) sv
             | ReleaseSettled (Inl _) \<Rightarrow> catch_dispatch an k d sv
             | _ \<Rightarrow> sv)))
   | AwaitFinish result receipt \<Rightarrow> (let (ok, sv1) = store_call tb mx (an_io an) (OpFinish k (json_value result) receipt) sv in
       if ok then end_dispatch k sv1 else catch_dispatch an k d sv1)
   | CatchGet c message \<Rightarrow> (case get_run k (sv_store sv) of
       Inr (Some r) \<Rightarrow> if isTerminal (sr_status r) then end_catch dp k d c sv
         else set_phase k d (CatchInterrupt c message (an_time an)) sv
     | _ \<Rightarrow> end_catch dp k d c sv)
   | CatchInterrupt c message time \<Rightarrow>
       end_catch dp k d c (snd (store_call tb mx (an_io an) (OpInterrupt k (interrupt_error ''executor_failed'' message) c time) sv)))"

section \<open>Calls\<close>

text \<open>
  \<open>start\<close>: the reservation, then the first part of the dispatch, which leases the workspace when the
  service has a workspace lifecycle.
\<close>

definition begin_dispatch :: "bool \<Rightarrow> answers \<Rightarrow> string \<Rightarrow> workspace_snapshot \<Rightarrow> string \<Rightarrow> service \<Rightarrow> service" where
  "begin_dispatch lc an k w sid sv =
     (let d = \<lparr>ds_workspace = w, ds_snapshotId = sid, ds_lease = None, ds_leaseCompleted = False, ds_phase = AwaitRunning\<rparr> in
      if \<not> lc then set_phase k d AwaitRunning sv
      else (let (g, os) = acquire_lease w k (Some (an_time an)) (sv_registry sv); sv1 = set_registry g sv in
        case os of
          [Leased l] \<Rightarrow> set_phase k (d\<lparr>ds_lease := Some l\<rparr>) AwaitRunning sv1
        | _ \<Rightarrow> catch_dispatch an k d sv1))"

datatype sv_reply = StartReply string bool | NotFound string | AlreadyTerminal string | Accepted string | CallFailed

definition start_run :: "(json list \<Rightarrow> nat) \<Rightarrow> nat \<Rightarrow> bool \<Rightarrow> answers \<Rightarrow> reservation \<Rightarrow> workspace_snapshot \<Rightarrow> string \<Rightarrow> service
    \<Rightarrow> service \<times> sv_reply list" where
  "start_run tb mx lc an i w sid sv = (let (s, os) = store_step tb mx (sv_store sv) (an_io an, OpReserve i); sv1 = sv\<lparr>sv_store := s\<rparr> in
     case os of
       [Reserved True r] \<Rightarrow> (begin_dispatch lc an (rv_runId i) w sid sv1, [StartReply (rv_runId i) False])
     | [Reserved False r] \<Rightarrow> (sv1, [StartReply (sr_runId r) True])
     | _ \<Rightarrow> (sv1, [CallFailed]))"

text \<open>\<open>cancel\<close> up to its first write; \<open>abort\<close> and the executor's own \<open>cancel\<close> only change what the executor answers.\<close>

definition cancel_run :: "(json list \<Rightarrow> nat) \<Rightarrow> nat \<Rightarrow> answers \<Rightarrow> string \<Rightarrow> service \<Rightarrow> service \<times> sv_reply list" where
  "cancel_run tb mx an k sv = (case get_run k (sv_store sv) of
     Inl _ \<Rightarrow> (sv, [CallFailed])
   | Inr None \<Rightarrow> (sv, [NotFound k])
   | Inr (Some r) \<Rightarrow>
       if isTerminal (sr_status r) then (sv, [AlreadyTerminal k])
       else if \<not> map_has (sv_active sv) k then
         (sv\<lparr>sv_interruptions := sv_interruptions sv @ [\<lparr>it_runId = k, it_code = ''executor_lost'',
            it_message = ''No live executor owns the persisted run.'', it_snapshotId = fst (sr_snapshot r), it_active = False\<rparr>]\<rparr>, [])
       else if map_has (sv_cancelling sv) k then (sv, if map_of (sv_cancelling sv) k = Some False then [Accepted k] else [])
       else (let (ok, sv1) = store_call tb mx (an_io an) (OpMarkCancelling k (an_time an)) sv in
         if ok then (sv1\<lparr>sv_cancelling := map_set k True (sv_cancelling sv1)\<rparr>, []) else (sv1, [CallFailed])))"

text \<open>The wait of \<open>#cancelActive\<close> ends: settled, or at its deadline with an interruption.\<close>

definition cancel_waited :: "answers \<Rightarrow> string \<Rightarrow> service \<Rightarrow> service \<times> sv_reply list" where
  "cancel_waited an k sv =
     (if map_of (sv_cancelling sv) k \<noteq> Some True \<or> \<not> an_timeout an \<and> map_has (sv_active sv) k then (sv, [])
      else (let sv1 = sv\<lparr>sv_cancelling := map_set k False (sv_cancelling sv)\<rparr> in
        if \<not> an_timeout an then (sv1, [Accepted k])
        else (case get_run k (sv_store sv) of
            Inl _ \<Rightarrow> (sv1\<lparr>sv_cancelling := map_delete k (sv_cancelling sv)\<rparr>, [CallFailed])
          | Inr None \<Rightarrow> (sv1, [Accepted k])
          | Inr (Some r) \<Rightarrow> if isTerminal (sr_status r) then (sv1, [Accepted k])
              else (sv1\<lparr>sv_interruptions := sv_interruptions sv1 @ [\<lparr>it_runId = k, it_code = ''cancel_cleanup_timeout'',
                it_message = ''Cancellation did not reach a confirmed terminal state before its deadline.'',
                it_snapshotId = fst (sr_snapshot r), it_active = True\<rparr>]\<rparr>, []))))"

definition write_interruption :: "(json list \<Rightarrow> nat) \<Rightarrow> nat \<Rightarrow> answers \<Rightarrow> service \<Rightarrow> service \<times> sv_reply list" where
  "write_interruption tb mx an sv = (case sv_interruptions sv of
     [] \<Rightarrow> (sv, [])
   | i # rest \<Rightarrow> (let (ok, sv1) = store_call tb mx (an_io an) (OpInterrupt (it_runId i) (interrupt_error (it_code i) (it_message i))
         (interruptionCleanup (it_runId i) (it_snapshotId i) (an_time an)) (an_time an)) (sv\<lparr>sv_interruptions := rest\<rparr>) in
       if ok then (sv1, [Accepted (it_runId i)])
       else if it_active i then (sv1\<lparr>sv_cancelling := map_delete (it_runId i) (sv_cancelling sv1)\<rparr>, [CallFailed])
       else (sv1, [CallFailed])))"

section \<open>The service as a machine\<close>

datatype sv_event =
    SvStart reservation workspace_snapshot string
  | SvAdvance string
  | SvCancel string
  | SvCancelWaited string
  | SvWriteInterruption
  | SvAttach string artifact
  | SvWorkspace ws_event
  | SvRestart

fun service_step :: "(json list \<Rightarrow> nat) \<Rightarrow> nat \<Rightarrow> (string \<Rightarrow> bool) \<Rightarrow> bool \<Rightarrow> service \<Rightarrow> answers \<times> sv_event \<Rightarrow> service \<times> sv_reply list" where
  "service_step tb mx dp lc sv (an, SvStart i w sid) = start_run tb mx lc an i w sid sv"
| "service_step tb mx dp lc sv (an, SvAdvance k) = (case map_of (sv_active sv) k of
     None \<Rightarrow> (sv, []) | Some d \<Rightarrow> (advance tb mx dp an k d sv, []))"
| "service_step tb mx dp lc sv (an, SvCancel k) = cancel_run tb mx an k sv"
| "service_step tb mx dp lc sv (an, SvCancelWaited k) = cancel_waited an k sv"
| "service_step tb mx dp lc sv (an, SvWriteInterruption) = write_interruption tb mx an sv"
| "service_step tb mx dp lc sv (an, SvAttach k a) = (let (ok, sv1) = store_call tb mx (an_io an) (OpAttach k a (an_time an)) sv in
     (sv1, if ok then [] else [CallFailed]))"
| "service_step tb mx dp lc sv (an, SvWorkspace e) = (sv\<lparr>sv_provider := fst (ws_step dp (sv_provider sv) e)\<rparr>, [])"
| "service_step tb mx dp lc sv (an, SvRestart) =
     (let sv1 = snd (store_call tb mx (an_io an) OpRestart sv);
          sv2 = snd (store_call tb mx (an_io an) (OpRecover (an_time an)) sv1) in
      (sv2\<lparr>sv_provider := empty_provider, sv_active := [], sv_cancelling := [], sv_interruptions := []\<rparr>, []))"

definition fresh_service :: service where
  "fresh_service = \<lparr>sv_store = fresh_store, sv_provider = empty_provider, sv_active = [], sv_cancelling = [], sv_interruptions = []\<rparr>"

end
