(* ===== verification/RunServiceProps.thy ===== *)
theory RunServiceProps
  imports RunService
begin

text \<open>
  What the coordinator promises about the records it leaves: a run recorded as completed was cleaned
  up on confirmed evidence, and, when the service owns the workspace, its snapshot was released safely.
\<close>

section \<open>Clean records\<close>

definition run_clean :: "bool \<Rightarrow> stored_run \<Rightarrow> bool" where
  "run_clean lc r = (if sr_status r \<noteq> RunCompleted then True
     else \<not> sr_tainted r \<and> (case sr_cleanup r of None \<Rightarrow> False | Some c \<Rightarrow> receipt_safe c)
       \<and> (if lc then (case sr_workspaceRelease r of None \<Rightarrow> False | Some c \<Rightarrow> receipt_safe c) else True))"

definition completed_result :: "json \<Rightarrow> bool" where
  "completed_result j = (map_of (object_fields j) ''executionStatus'' = Some (JStr ''completed''))"

definition result_safe :: "json \<Rightarrow> bool" where
  "result_safe j = (cleanupIsSafe (map_of (object_fields j) ''cleanup'') = Inr True)"

text \<open>The gate every finish passes.\<close>

definition finish_gate :: "bool \<Rightarrow> json \<Rightarrow> cleanup_receipt option \<Rightarrow> bool" where
  "finish_gate lc result receipt = (completed_result result \<longrightarrow> result_safe result
     \<and> (case receipt of None \<Rightarrow> \<not> lc | Some c \<Rightarrow> receipt_safe c))"

definition dispatch_phase_ok :: "bool \<Rightarrow> run_dispatch \<Rightarrow> bool" where
  "dispatch_phase_ok lc d = (case ds_phase d of
     AwaitFinish result receipt \<Rightarrow> finish_gate lc result receipt
   | AwaitRelease result \<Rightarrow> completed_result result \<longrightarrow> result_safe result
   | CatchGet _ _ \<Rightarrow> True | CatchInterrupt _ _ _ \<Rightarrow> True
   | _ \<Rightarrow> lc \<longrightarrow> ds_lease d \<noteq> None)"

lemma receipt_name_unconfirmed: "receipt_name x = ''unconfirmed'' \<longleftrightarrow> x = ReceiptUnconfirmed"
  by (cases x) simp_all

lemma safe_receipt_read:
  assumes "cleanupIsSafe (Some j) = Inr True" "parseCleanup k (Some j) = Inr c"
  shows "receipt_safe c"
  using assms
  by (auto simp: cleanupIsSafe_def parseCleanup_def reader_iffs member_def receipt_safe_def truthy_def receipt_name_unconfirmed
      split: if_splits)

lemma finish_completed_clean:
  assumes fin: "finish_run (json_value result) receipt r = Inr fs" and p: "parse_fields fs = Inr r'"
    and gate: "finish_gate lc result receipt"
  shows "run_clean lc r'"
proof (cases "sr_status r' = RunCompleted")
  case False
  then show ?thesis by (simp add: run_clean_def)
next
  case completed: True
  obtain safe gs as t released sn where safe: "safe_copy (json_value result) = Inr safe" "safe = JObj gs"
    and rel: "(case receipt of None \<Rightarrow> Inr None | Some c \<Rightarrow> rbind (parseCleanup (sr_runId r) (Some (cleanup_json c))) (\<lambda>x. Inr (Some x)))
        = Inr released"
    and t: "member (map_of gs ''cleanup'') ''tainted'' = Inr t"
    and fs: "fs = spread (stored_fields r) (finish_updates r gs as released t)"
    using fin by (auto simp: finish_run_def reader_iffs split: if_splits)
  have result: "result = JObj gs"
    using safe cloneSafeData_plain [of "json_value result"] by (auto simp: safe_copy_def plain_json_value split: sum.splits)
  have released: "released = receipt"
    using rel by (cases receipt) (auto dest: cleanup_reads_same)
  let ?ups = "finish_updates r gs as released t"
  have look: "map_of fs ''status'' = map_of gs ''executionStatus''" "map_of fs ''cleanup'' = map_of gs ''cleanup''"
    "map_of fs ''tainted'' = (if truthy t then t else Some (JBool (case released of None \<Rightarrow> False | Some c \<Rightarrow> cu_tainted c)))"
    "\<And>c. released = Some c \<Longrightarrow> map_of fs ''workspaceRelease'' = Some (cleanup_json c)"
    unfolding fs by (cases released; simp add: map_of_spread finish_updates_def)+
  have ended: "completed_result result"
    using parsed_status [OF p] look(1) completed by (simp add: completed_result_def result object_fields_def)
  then have g: "result_safe result" "case receipt of None \<Rightarrow> \<not> lc | Some c \<Rightarrow> receipt_safe c"
    using gate by (auto simp: finish_gate_def)
  obtain j where j: "map_of gs ''cleanup'' = Some j" using t by (cases "map_of gs ''cleanup''") (auto simp: member_def)
  have sj: "cleanupIsSafe (Some j) = Inr True" using g(1) j by (simp add: result_safe_def result object_fields_def)
  obtain c where c: "sr_cleanup r' = Some c" "parseCleanup (sr_runId r') (Some j) = Inr c"
    using parse_fields_facts(11) [OF p] j look(2) by (auto simp: rd_optional_Inr split: option.splits)
  have clean: "receipt_safe c" by (rule safe_receipt_read [OF sj c(2)])
  have nt: "\<not> truthy t" using sj t j by (auto simp: cleanupIsSafe_def split: if_splits)
  have "sr_tainted r' = (case released of None \<Rightarrow> False | Some c \<Rightarrow> cu_tainted c)"
    using parse_fields_facts(15) [OF p] look(3) nt by (simp add: rd_boolean_Inr)
  then have "\<not> sr_tainted r'" using g(2) released by (auto simp: receipt_safe_def split: option.splits)
  moreover have "if lc then (case sr_workspaceRelease r' of None \<Rightarrow> False | Some c \<Rightarrow> receipt_safe c) else True"
  proof (cases receipt)
    case None
    then show ?thesis using g(2) by simp
  next
    case (Some c')
    have "rd_optional (parseCleanup (sr_runId r')) (map_of fs ''workspaceRelease'') = Inr (sr_workspaceRelease r')"
      using parse_fields_all [OF p] by blast
    then have "sr_workspaceRelease r' = Some c'"
      using look(4) [of c'] released Some by (auto simp: rd_optional_Inr split: option.splits dest: cleanup_reads_same)
    then show ?thesis using g(2) Some by simp
  qed
  ultimately show ?thesis using c(1) clean by (simp add: run_clean_def)
qed

section \<open>Store operations keep records clean\<close>

definition records_clean :: "bool \<Rightarrow> run_table \<Rightarrow> bool" where
  "records_clean lc t = (\<forall>k r. t k = Some r \<longrightarrow> run_clean lc r)"

lemma clean_unless_completed: "sr_status r \<noteq> RunCompleted \<Longrightarrow> run_clean lc r"
  by (simp add: run_clean_def)

lemma running_clean: "wf_stored r \<Longrightarrow> mark_running t r = Inr fs \<Longrightarrow> parse_fields fs = Inr r' \<Longrightarrow> run_clean lc r'"
  using mark_running_step(2) by (intro clean_unless_completed) auto

lemma same_clean: "wf_stored r \<Longrightarrow> parse_fields (stored_fields r) = Inr r' \<Longrightarrow> run_clean lc r \<Longrightarrow> run_clean lc r'"
  by (auto dest: unchanged_step(1))

lemma cancelling_clean:
  assumes "wf_stored r" "mark_cancelling t r = Inr fs" "parse_fields fs = Inr r'" "run_clean lc r"
  shows "run_clean lc r'"
proof (cases "isTerminal (sr_status r) \<or> sr_status r = RunCancelling")
  case True
  then have "fs = stored_fields r" using assms(2) by (auto simp: mark_cancelling_def split: if_splits)
  then show ?thesis using same_clean assms by simp
next
  case False
  then have fs: "fs = spread (stored_fields r) [(''revision'', Some (jint (sr_revision r + 1))),
        (''status'', Some (JStr ''cancelling'')), (''updatedAt'', Some (JStr t))]"
    using assms(2) by (auto simp: mark_cancelling_def split: if_splits)
  have "sr_status r' = RunCancelling"
    using parsed_status [OF assms(3)] by (simp add: fs literal_simps status_named [symmetric])
  then show ?thesis by (intro clean_unless_completed) simp
qed

lemma interrupt_clean:
  assumes "wf_stored r" "interrupt_run err c t r = Inr fs" "parse_fields fs = Inr r'" "run_clean lc r"
  shows "run_clean lc r'"
proof (cases "isTerminal (sr_status r)")
  case True
  then show ?thesis using same_clean assms by (simp add: interrupt_run_def)
next
  case False
  then have "sr_status r' = RunInterrupted"
    using interrupted_step(2) [OF assms(1) False] assms(2,3) by (auto simp: interrupt_run_def)
  then show ?thesis by (intro clean_unless_completed) simp
qed

lemma attach_clean:
  assumes "wf_stored r" "attach_artifact a t r = Inr fs" "parse_fields fs = Inr r'"
  shows "run_clean lc r'"
proof -
  obtain as where live: "\<not> isTerminal (sr_status r)" and fs: "fs = spread (stored_fields r)
      [(''revision'', Some (jint (sr_revision r + 1))), (''artifacts'', Some (artifacts_json as)), (''updatedAt'', Some (JStr t))]"
    using assms(2) by (auto simp: attach_artifact_def split: if_splits)
  have "sr_status r' = sr_status r" by (rule parsed_kept_status [OF assms(3) [unfolded fs] _ assms(1)]) simp
  then show ?thesis using live by (intro clean_unless_completed) (auto simp: isTerminal_def)
qed

lemma changed_clean:
  assumes "changed_at change k t t'" "records_clean lc t"
    and "\<And>r fs r'. wf_stored r \<Longrightarrow> change r = Inr fs \<Longrightarrow> parse_fields fs = Inr r' \<Longrightarrow> run_clean lc r \<Longrightarrow> run_clean lc r'"
  shows "records_clean lc t'"
  using assms unfolding changed_at_def records_clean_def by (auto split: if_splits)

definition clean_op :: "bool \<Rightarrow> store_op \<Rightarrow> bool" where
  "clean_op lc x = (case x of OpFinish k v receipt \<Rightarrow> (\<exists>result. v = json_value result \<and> finish_gate lc result receipt) | _ \<Rightarrow> True)"

lemma mutate_table:
  assumes "operation_ok s (operation s)" "\<And>v s'. operation s = (Inr v, s') \<Longrightarrow> \<not> changed v \<Longrightarrow> s' = s"
    and "\<And>v s'. operation s = (Inr v, s') \<Longrightarrow> records_clean lc (table_of s')" and "records_clean lc (table_of s)"
  shows "records_clean lc (table_of (snd (mutate tb mx io changed operation s)))"
proof (rule mutate_cases [where operation = operation and s = s and changed = changed and tb = tb and mx = mx and io = io])
  fix v s' d assume "operation s = (Inr v, s')" "mutate tb mx io changed operation s = (Inr v, s'\<lparr>st_disk := d\<rparr>)"
  then show ?thesis using assms(3) by (simp add: table_of_def)
qed (use assms in simp_all)

lemma store_step_clean:
  assumes "store_ok mx s" "records_clean lc (table_of s)" "clean_op lc x"
  shows "records_clean lc (table_of (fst (store_step tb mx s (io, x))))"
proof -
  have mem: "mem_ok s" using assms(1) by (simp add: store_ok_def)
  show ?thesis
  proof (cases x)
    case (OpReserve i)
    have "records_clean lc (table_of (snd (mutate tb mx io (\<lambda>_. True) (reserve_run i) s)))"
    proof (rule mutate_table)
      show "operation_ok s (reserve_run i s)" by (rule reserve_ok [OF mem])
      fix v s' assume v: "reserve_run i s = (Inr v, s')"
      show "records_clean lc (table_of s')"
      proof (rule reserve_cases [OF mem, of i])
        fix r s'' assume c: "reserve_run i s = (Inr (True, r), s'')" "st_runs s'' = st_runs s @ [(sr_runId r, r)]"
          "map_of (st_runs s) (sr_runId r) = None" "parseStoredRun (reservation_value i) = Inr r"
        have "run_clean lc r" by (rule clean_unless_completed) (simp add: reservation_parsed(4) [OF c(4)])
        moreover have "table_of s' = (table_of s)(sr_runId r \<mapsto> r)"
          using c(1,2) v map_of_added [OF c(3), of r] by (simp add: table_of_def)
        ultimately show ?thesis using assms(2) by (auto simp: records_clean_def split: if_splits)
      qed (use v assms(2) in auto)
    qed (use assms(2) in simp_all)
    then show ?thesis by (simp add: OpReserve reply_def)
  next
    case (OpRecover now)
    have "records_clean lc (table_of (snd (mutate tb mx io (\<lambda>rs. rs \<noteq> []) (\<lambda>s. recover_all now (st_values s) [] s) s)))"
    proof (rule mutate_table)
      show "operation_ok s (recover_all now (st_values s) [] s)" by (rule recover_ok(1) [OF mem])
      show "records_clean lc (table_of s)" by (rule assms(2))
      fix v s' assume v: "recover_all now (st_values s) [] s = (Inr v, s')"
      note r = recover_ok(2) [OF mem v]
      show "\<not> v \<noteq> [] \<Longrightarrow> s' = s" using r by (auto simp: recovery_ok_def)
      show "records_clean lc (table_of s')"
        unfolding records_clean_def table_of_def
      proof (intro allI impI)
        fix k r' assume r': "map_of (st_runs s') k = Some r'"
        then have "k \<in> dom (map_of (st_runs s))" using r unfolding recovery_ok_def by blast
        then obtain y where y: "map_of (st_runs s) k = Some y" by blast
        then have "r' = y \<or> recovered_as now y r'" using r r' unfolding recovery_ok_def by (metis option.inject)
        then show "run_clean lc r'"
          using assms(2) y by (auto simp: records_clean_def table_of_def recovered_as_def intro: clean_unless_completed)
      qed
    qed
    then show ?thesis by (simp add: OpRecover reply_def)
  next
    case OpRestart
    then show ?thesis using assms(2) by (simp add: open_store_ok [OF assms(1)])
  next
    case (OpFinish k v receipt)
    obtain result where g: "v = json_value result" "finish_gate lc result receipt"
      using assms(3) by (auto simp: clean_op_def OpFinish)
    have "records_clean lc (table_of (snd (mutate tb mx io (\<lambda>_. True) (update_run (finish_run v receipt) k) s)))"
      by (rule changed_clean [OF finish_change.update_table [OF assms(1)] assms(2)]) (rule finish_completed_clean [OF _ _ g(2)], use g(1) in auto)
    then show ?thesis by (simp add: OpFinish reply_def)
  next
    case (OpMarkRunning k t)
    then show ?thesis
      using changed_clean [OF running_change.update_table [OF assms(1)] assms(2)] running_clean by (fastforce simp: reply_def)
  next
    case (OpMarkCancelling k t)
    then show ?thesis
      using changed_clean [OF cancelling_change.update_table [OF assms(1)] assms(2)] cancelling_clean by (fastforce simp: reply_def)
  next
    case (OpInterrupt k err c t)
    then show ?thesis
      using changed_clean [OF interrupt_change.update_table [OF assms(1)] assms(2)] interrupt_clean by (fastforce simp: reply_def)
  next
    case (OpAttach k a t)
    then show ?thesis
      using changed_clean [OF attach_change.update_table [OF assms(1)] assms(2)] attach_clean by (fastforce simp: reply_def)
  qed
qed

section \<open>The service keeps records clean\<close>

definition service_ok :: "nat \<Rightarrow> bool \<Rightarrow> service \<Rightarrow> bool" where
  "service_ok mx lc sv = (store_ok mx (sv_store sv) \<and> records_clean lc (table_of (sv_store sv))
     \<and> (\<forall>k d. map_of (sv_active sv) k = Some d \<longrightarrow> dispatch_phase_ok lc d))"

lemma service_ok_set_phase: "service_ok mx lc sv \<Longrightarrow> dispatch_phase_ok lc (d\<lparr>ds_phase := ph\<rparr>) \<Longrightarrow> service_ok mx lc (set_phase k d ph sv)"
  by (auto simp: service_ok_def set_phase_def map_of_map_set split: if_splits)

lemma service_ok_end [simp]: "service_ok mx lc sv \<Longrightarrow> service_ok mx lc (end_dispatch k sv)"
  by (auto simp: service_ok_def end_dispatch_def map_of_map_delete split: if_splits)

lemma service_ok_catch [simp]: "service_ok mx lc sv \<Longrightarrow> service_ok mx lc (catch_dispatch an k d sv)"
  unfolding catch_dispatch_def by (rule service_ok_set_phase) (simp_all add: dispatch_phase_ok_def)

lemma service_ok_registry [simp]: "service_ok mx lc (set_registry g sv) \<longleftrightarrow> service_ok mx lc sv"
  by (simp add: service_ok_def set_registry_def)

lemma service_ok_complete [simp]: "service_ok mx lc (snd (complete_call dp l c sv)) \<longleftrightarrow> service_ok mx lc sv"
  by (simp add: complete_call_def split_beta)

lemma service_ok_end_catch [simp]: "service_ok mx lc sv \<Longrightarrow> service_ok mx lc (end_catch dp k d c sv)"
  by (simp add: end_catch_def split: option.split)

lemma service_ok_store:
  assumes "service_ok mx lc sv" "clean_op lc x"
  shows "service_ok mx lc (snd (store_call tb mx io x sv))"
proof -
  have ok: "store_ok mx (sv_store sv)" "records_clean lc (table_of (sv_store sv))" using assms(1) by (simp_all add: service_ok_def)
  show ?thesis
    using store_step_refines [OF ok(1), of tb io x] store_step_clean [OF ok assms(2), of tb io] assms(1)
    by (simp add: service_ok_def store_call_def split_beta store_refines_def)
qed

lemma member_fields: "member (Some j) k = Inr v \<Longrightarrow> v = map_of (object_fields j) k"
  by (cases j) (auto simp: member_def object_fields_def)

lemma failed_not_completed: "\<not> completed_result (failed_result result a b ups)"
  by (simp add: completed_result_def failed_result_def object_fields_def map_of_spread)

lemma failClosed_safe:
  assumes "failClosedCleanup result = Inr res" "completed_result res"
  shows "result_safe res"
proof -
  obtain c safe where c: "member (Some result) ''cleanup'' = Inr c" "cleanupIsSafe c = Inr safe"
    using assms(1) by (auto simp: failClosedCleanup_def)
  have "safe \<and> res = result"
  proof (rule ccontr)
    assume n: "\<not> (safe \<and> res = result)"
    with assms(1) c have ns: "\<not> safe" by (auto simp: failClosedCleanup_def)
    obtain st where st: "member (Some result) ''executionStatus'' = Inr st"
      using assms(1) c ns by (auto simp: failClosedCleanup_def)
    have "st \<noteq> Some (JStr ''completed'') \<and> res = result \<or> res = failed_result result ''cleanup_unconfirmed'' ''Executor cleanup was not confirmed.'' []"
      using assms(1) c ns st by (cases "st = Some (JStr ''completed'')") (simp_all add: failClosedCleanup_def)
    then show False using assms(2) failed_not_completed member_fields [OF st(1)] by (auto simp: completed_result_def)
  qed
  then show ?thesis using c member_fields [OF c(1)] by (simp add: result_safe_def)
qed

lemma released_ok: "completed_result result \<longrightarrow> result_safe result \<Longrightarrow> dispatch_phase_ok lc (d\<lparr>ds_phase := released_phase result c\<rparr>)"
  by (auto simp: dispatch_phase_ok_def released_phase_def finish_gate_def workspaceReleaseFailure_def failed_not_completed)

lemma begin_release_ok:
  assumes "service_ok mx lc sv" "completed_result result \<longrightarrow> result_safe result"
  shows "service_ok mx lc (begin_release an k d result sv)"
proof -
  obtain g os where r: "release_snapshot (ds_workspace d) False (Some (an_time an)) (sv_registry sv) = (g, os)" by fastforce
  have "service_ok mx lc (set_phase k d (released_phase result c) (set_registry g sv))" for c
    by (rule service_ok_set_phase) (use assms released_ok in auto)
  moreover have "service_ok mx lc (set_phase k d (AwaitRelease result) (set_registry g sv))"
    by (rule service_ok_set_phase) (use assms in \<open>auto simp: dispatch_phase_ok_def\<close>)
  moreover have "service_ok mx lc (catch_dispatch an k d (set_registry g sv))" using assms by simp
  ultimately show ?thesis by (simp add: begin_release_def r Let_def split: list.split ws_output.split)
qed

lemma settle_result_ok:
  assumes "service_ok mx lc sv" "lc \<longrightarrow> ds_lease d \<noteq> None"
  shows "service_ok mx lc (settle_result dp an k d result sv)"
proof (cases "failClosedCleanup result")
  case (Inl e)
  then show ?thesis using assms by (simp add: settle_result_def)
next
  case (Inr res)
  have safe: "completed_result res \<longrightarrow> result_safe res" using failClosed_safe [OF Inr] by blast
  show ?thesis
  proof (cases "ds_lease d")
    case None
    have "service_ok mx lc (set_phase k d (AwaitFinish res None) sv)"
      by (rule service_ok_set_phase [OF assms(1)]) (use safe assms(2) None in \<open>auto simp: dispatch_phase_ok_def finish_gate_def\<close>)
    then show ?thesis by (simp add: settle_result_def Inr None)
  next
    case (Some l)
    show ?thesis
    proof (cases "member (Some res) ''cleanup''")
      case (Inl e)
      then show ?thesis using assms Some Inr by (simp add: settle_result_def)
    next
      case c: (Inr c)
      let ?sv = "snd (complete_call dp l (value_of c) sv)" and ?d = "d\<lparr>ds_leaseCompleted := True\<rparr>"
      have sv: "service_ok mx lc ?sv" using assms(1) by simp
      have unsafe: "service_ok mx lc (set_phase k ?d (AwaitFinish res None) ?sv)" if "cleanupIsSafe c = Inr False"
      proof (rule service_ok_set_phase [OF sv])
        have "\<not> completed_result res" using safe that member_fields [OF c] by (auto simp: result_safe_def)
        then show "dispatch_phase_ok lc (?d\<lparr>ds_phase := AwaitFinish res None\<rparr>)" by (simp add: dispatch_phase_ok_def finish_gate_def)
      qed
      have "service_ok mx lc (case cleanupIsSafe c of Inl _ \<Rightarrow> catch_dispatch an k ?d ?sv
          | Inr safe \<Rightarrow> if safe then begin_release an k ?d res ?sv else set_phase k ?d (AwaitFinish res None) ?sv)"
        using unsafe begin_release_ok [OF sv safe] sv by (auto split: sum.split)
      then show ?thesis using sv by (simp add: settle_result_def Inr Some c split_beta Let_def)
    qed
  qed
qed

lemma advance_ok:
  assumes "service_ok mx lc sv" "dispatch_phase_ok lc d"
  shows "service_ok mx lc (advance tb mx dp an k d sv)"
proof (cases "ds_phase d")
  case AwaitRunning
  have "service_ok mx lc (snd (store_call tb mx (an_io an) (OpMarkRunning k (an_time an)) sv))"
    by (rule service_ok_store [OF assms(1)]) (simp add: clean_op_def)
  moreover have "dispatch_phase_ok lc (d\<lparr>ds_phase := AwaitExecute\<rparr>)" using assms(2) AwaitRunning by (simp add: dispatch_phase_ok_def)
  ultimately show ?thesis by (simp add: advance_def AwaitRunning split_beta Let_def service_ok_set_phase)
next
  case AwaitExecute
  have "dispatch_phase_ok lc (d\<lparr>ds_phase := AwaitCurrent result\<rparr>)" for result using assms(2) AwaitExecute by (simp add: dispatch_phase_ok_def)
  then show ?thesis using assms(1) by (simp add: advance_def AwaitExecute service_ok_set_phase split: option.split)
next
  case (AwaitCurrent result)
  then have "lc \<longrightarrow> ds_lease d \<noteq> None" using assms(2) by (simp add: dispatch_phase_ok_def)
  then show ?thesis using assms(1) settle_result_ok [OF assms(1)]
    by (simp add: advance_def AwaitCurrent current_read_def split_beta Let_def split: sum.split option.split)
next
  case (AwaitRelease result)
  then have "completed_result result \<longrightarrow> result_safe result" using assms(2) by (simp add: dispatch_phase_ok_def)
  then have "service_ok mx lc (set_phase k d (released_phase result c) sv)" for c
    using service_ok_set_phase [OF assms(1)] released_ok by blast
  then show ?thesis using assms(1)
    by (simp add: advance_def AwaitRelease split: option.split release_promise.split sum.split)
next
  case (AwaitFinish result receipt)
  have "clean_op lc (OpFinish k (json_value result) receipt)"
    using assms(2) AwaitFinish by (auto simp: clean_op_def dispatch_phase_ok_def)
  then have "service_ok mx lc (snd (store_call tb mx (an_io an) (OpFinish k (json_value result) receipt) sv))"
    by (rule service_ok_store [OF assms(1)])
  then show ?thesis by (simp add: advance_def AwaitFinish split_beta Let_def)
next
  case (CatchGet c message)
  have "dispatch_phase_ok lc (d\<lparr>ds_phase := CatchInterrupt c message t\<rparr>)" for t by (simp add: dispatch_phase_ok_def)
  then show ?thesis using assms(1)
    by (simp add: advance_def CatchGet service_ok_set_phase split: sum.split option.split)
next
  case (CatchInterrupt c message t)
  have "service_ok mx lc (snd (store_call tb mx (an_io an) (OpInterrupt k (interrupt_error ''executor_failed'' message) c t) sv))"
    by (rule service_ok_store [OF assms(1)]) (simp add: clean_op_def)
  then show ?thesis by (simp add: advance_def CatchInterrupt)
qed

lemma begin_dispatch_ok:
  assumes "service_ok mx lc sv"
  shows "service_ok mx lc (begin_dispatch lc an k w sid sv)"
proof -
  let ?d = "\<lparr>ds_workspace = w, ds_snapshotId = sid, ds_lease = None, ds_leaseCompleted = False, ds_phase = AwaitRunning\<rparr>"
  have "service_ok mx lc (set_phase k ?d AwaitRunning sv)" if "\<not> lc"
    by (rule service_ok_set_phase [OF assms]) (use that in \<open>simp add: dispatch_phase_ok_def\<close>)
  moreover have "service_ok mx lc (set_phase k (?d\<lparr>ds_lease := Some l\<rparr>) AwaitRunning (set_registry g sv))" for l g
    by (rule service_ok_set_phase) (use assms in \<open>simp_all add: dispatch_phase_ok_def\<close>)
  moreover have "service_ok mx lc (catch_dispatch an k ?d (set_registry g sv))" for g using assms by simp
  ultimately show ?thesis
    by (cases lc) (simp_all add: begin_dispatch_def Let_def split_beta split: list.split ws_output.split)
qed

lemma service_ok_fields [simp]:
  "service_ok mx lc (sv\<lparr>sv_cancelling := x\<rparr>) \<longleftrightarrow> service_ok mx lc sv"
  "service_ok mx lc (sv\<lparr>sv_interruptions := y\<rparr>) \<longleftrightarrow> service_ok mx lc sv"
  "service_ok mx lc (sv\<lparr>sv_provider := z\<rparr>) \<longleftrightarrow> service_ok mx lc sv"
  "service_ok mx lc sv \<Longrightarrow> service_ok mx lc (sv\<lparr>sv_active := []\<rparr>)"
  by (simp_all add: service_ok_def)

lemma service_step_ok:
  assumes "service_ok mx lc sv"
  shows "service_ok mx lc (fst (service_step tb mx dp lc sv (an, e)))"
proof (cases e)
  case (SvStart i w sid)
  have "service_ok mx lc (sv\<lparr>sv_store := fst (store_step tb mx (sv_store sv) (an_io an, OpReserve i))\<rparr>)"
    using service_ok_store [OF assms, of "OpReserve i" tb "an_io an"] by (simp add: clean_op_def store_call_def split_beta)
  then show ?thesis using begin_dispatch_ok
    by (simp add: SvStart start_run_def split_beta Let_def split: list.split store_reply.split bool.split)
next
  case (SvAdvance k)
  have "dispatch_phase_ok lc d" if "map_of (sv_active sv) k = Some d" for d using assms that by (auto simp: service_ok_def)
  then show ?thesis using assms advance_ok [OF assms] by (simp add: SvAdvance split: option.split)
next
  case (SvCancel k)
  have "service_ok mx lc (snd (store_call tb mx (an_io an) (OpMarkCancelling k (an_time an)) sv))"
    by (rule service_ok_store [OF assms]) (simp add: clean_op_def)
  then show ?thesis using assms by (simp add: SvCancel cancel_run_def split_beta Let_def split: sum.split option.split)
next
  case (SvCancelWaited k)
  then show ?thesis using assms by (simp add: cancel_waited_def Let_def split: sum.split option.split)
next
  case SvWriteInterruption
  have "service_ok mx lc (snd (store_call tb mx (an_io an) (OpInterrupt k err c t) (sv\<lparr>sv_interruptions := x\<rparr>)))" for k err c t x
    by (rule service_ok_store) (use assms in \<open>simp_all add: clean_op_def\<close>)
  then show ?thesis using assms by (simp add: SvWriteInterruption write_interruption_def split_beta Let_def split: list.split)
next
  case (SvAttach k a)
  have "service_ok mx lc (snd (store_call tb mx (an_io an) (OpAttach k a (an_time an)) sv))"
    by (rule service_ok_store [OF assms]) (simp add: clean_op_def)
  then show ?thesis by (simp add: SvAttach split_beta Let_def)
next
  case (SvWorkspace x)
  then show ?thesis using assms by simp
next
  case SvRestart
  have "service_ok mx lc (snd (store_call tb mx (an_io an) (OpRecover (an_time an)) (snd (store_call tb mx (an_io an) OpRestart sv))))"
    by (intro service_ok_store assms) (simp_all add: clean_op_def)
  then show ?thesis by (simp add: SvRestart Let_def)
qed

interpretation service_machine: step_machine "service_step tb mx dp lc" "service_ok mx lc" for tb mx dp lc
proof
  show "service_ok mx lc sv \<Longrightarrow> service_ok mx lc (fst (service_step tb mx dp lc sv e))" for sv e
    using service_step_ok [of mx lc sv tb dp "fst e" "snd e"] by simp
qed

lemma fresh_service_ok: "service_ok mx lc fresh_service"
  using fresh_ok [of mx] by (simp add: service_ok_def fresh_service_def records_clean_def table_of_def fresh_store_def)

lemmas reached_service = service_machine.run_inv [OF fresh_service_ok]

text \<open>The end of the \<open>catch\<close> does not touch the records and ends the dispatch.\<close>

lemma end_catch_store: "sv_store (end_catch dp k d c sv) = sv_store sv"
  by (simp add: end_catch_def end_dispatch_def complete_call_def set_registry_def split_beta split: option.split)

lemma end_catch_over: "map_of (sv_active (end_catch dp k d c sv)) k = None"
  by (simp add: end_catch_def end_dispatch_def map_of_map_delete)

section \<open>A message that cannot be stored\<close>

text \<open>
  An executor that fails with an error of no message: its interruption cannot be recorded, because the
  stored error must have one.
\<close>

lemma empty_message_unparsed: "parse_fields (interrupted_fields r c (error_json \<lparr>xe_code = failure_code, xe_message = [], xe_retryable = b\<rparr>) t) \<noteq> Inr r'"
proof
  assume p: "parse_fields (interrupted_fields r c (error_json \<lparr>xe_code = failure_code, xe_message = [], xe_retryable = b\<rparr>) t) = Inr r'"
  let ?e = "error_json \<lparr>xe_code = failure_code, xe_message = [], xe_retryable = b\<rparr>"
  have "map_of (interrupted_fields r c ?e t) ''error'' = Some ?e" by (simp add: interrupted_fields_def map_of_spread)
  moreover have "rd_optional parseError (map_of (interrupted_fields r c ?e t) ''error'') = Inr (sr_error r')"
    using parse_fields_all [OF p] by blast
  ultimately obtain x where "parseError (Some ?e) = Inr x" by (auto simp: rd_optional_Inr split: option.splits)
  then show False by (auto simp: parseError_def error_json_def reader_iffs stored_text_ok_def)
qed

lemma empty_message_kept:
  assumes "store_ok mx s"
  shows "table_of (fst (store_step tb mx s (io, OpInterrupt k (interrupt_error failure_code []) c t))) = table_of s"
proof -
  have same: "t' = table_of s" if ch: "changed_at (interrupt_run (interrupt_error failure_code []) c t) k (table_of s) t'" for t'
  proof (rule ccontr)
    assume "t' \<noteq> table_of s"
    then obtain r fs r' where r: "table_of s k = Some r" "wf_stored r"
      "interrupt_run (interrupt_error failure_code []) c t r = Inr fs" "parse_fields fs = Inr r'" "t' = (table_of s)(k \<mapsto> r')"
      using ch unfolding changed_at_def by blast
    show False
    proof (cases "isTerminal (sr_status r)")
      case True
      then have "r' = r" using unchanged_step(1) [OF r(2)] r(3,4) by (simp add: interrupt_run_def)
      then show False using r(1,5) \<open>t' \<noteq> table_of s\<close> by (simp add: fun_upd_idem)
    next
      case False
      obtain c' e where ce: "safe_copy (interrupt_error failure_code []) = Inr e" "fs = interrupted_fields r (cleanup_json c') e t"
        using r(3) False by (auto simp: interrupt_run_def)
      have "e = error_json \<lparr>xe_code = failure_code, xe_message = [], xe_retryable = True\<rparr>"
        using ce(1) by (auto simp: safe_copy_def interrupt_error_def plain_json_value dest!: cloneSafeData_plain split: sum.splits)
      then show False using empty_message_unparsed r(4) ce(2) by blast
    qed
  qed
  show ?thesis using same [OF interrupt_change.update_table [OF assms]] by (simp add: reply_def)
qed

section \<open>A throw without a message, from the executor's answer on\<close>

text \<open>The three steps of a dispatch whose executor throws: the throw itself, the reading of the record, the interruption.\<close>

abbreviation advances_of :: "string \<Rightarrow> answers list \<Rightarrow> (answers \<times> sv_event) list" where
  "advances_of k ans \<equiv> map (\<lambda>an. (an, SvAdvance k)) ans"

lemma catch_reads:
  assumes "map_of (sv_active sv) k = Some d" "ds_phase d = CatchGet c m" "sv' = fst (service_step tb mx dp lc sv (an, SvAdvance k))"
  shows "sv_store sv' = sv_store sv"
    and "map_of (sv_active sv') k = None \<or> (\<exists>d' t. map_of (sv_active sv') k = Some d' \<and> ds_phase d' = CatchInterrupt c m t)"
  using assms by (auto simp: advance_def end_catch_store end_catch_over set_phase_def map_of_map_set split: sum.split option.split)

lemma catch_ends:
  assumes "store_ok mx (sv_store sv)" "map_of (sv_active sv) k = Some d" "ds_phase d = CatchInterrupt c [] t"
    "sv' = fst (service_step tb mx dp lc sv (an, SvAdvance k))"
  shows "table_of (sv_store sv') = table_of (sv_store sv) \<and> map_of (sv_active sv') k = None"
  using empty_message_kept [OF assms(1), of tb "an_io an" k "''executor_failed''" c t] assms(2-4)
  by (simp add: advance_def end_catch_store end_catch_over store_call_def split_beta)

lemma empty_throw_unrecorded:
  assumes ok: "store_ok mx (sv_store sv)" and d: "map_of (sv_active sv) k = Some d" "ds_phase d = AwaitExecute"
    and an: "an_result an1 = None" "an_message an1 = []"
    and sv': "sv' = fst (run_steps (service_step tb mx dp lc) sv (advances_of k [an1, an2, an3]))"
  shows "table_of (sv_store sv') = table_of (sv_store sv) \<and> map_of (sv_active sv') k = None"
proof -
  obtain sv1 c d1 where 1: "service_step tb mx dp lc sv (an1, SvAdvance k) = (sv1, [])" "sv_store sv1 = sv_store sv"
      "map_of (sv_active sv1) k = Some d1" "ds_phase d1 = CatchGet c []"
    using d an by (simp add: advance_def catch_dispatch_def set_phase_def map_of_map_set)
  obtain sv2 where 2: "sv2 = fst (service_step tb mx dp lc sv1 (an2, SvAdvance k))" by blast
  have run: "sv' = fst (service_step tb mx dp lc sv2 (an3, SvAdvance k))"
    unfolding sv' 2 using 1(1) by (simp add: Let_def split_beta del: service_step.simps)
  have st: "sv_store sv2 = sv_store sv" using catch_reads(1) [OF 1(3,4) 2] 1(2) by simp
  from catch_reads(2) [OF 1(3,4) 2] show ?thesis
  proof (elim disjE exE conjE)
    assume "map_of (sv_active sv2) k = None"
    then show ?thesis using st by (simp add: run)
  next
    fix d' t assume "map_of (sv_active sv2) k = Some d'" "ds_phase d' = CatchInterrupt c [] t"
    from catch_ends [OF _ this run] show ?thesis using ok st by simp
  qed
qed

section \<open>An example of such a dispatch\<close>

definition example_reservation :: reservation where
  "example_reservation = \<lparr>rv_requestId = ''q'', rv_fingerprint = replicate 64 (CHR ''0''),
     rv_runId = ''run:00000000-0000-4000-8000-000000000000'',
     rv_snapshot = obj [(''snapshotId'', VStr ''snapshot:00000000-0000-4000-8000-000000000000''), (''resolvedRevision'', VStr ''r'')],
     rv_testId = ''service-test:a/b'', rv_parameters = obj [], rv_taskId = None, rv_links = None, rv_createdAt = ''2024-01-01T00:00:00.000Z''\<rparr>"

definition example_record :: stored_run where
  "example_record = \<lparr>sr_revision = 0, sr_requestId = ''q'', sr_fingerprint = replicate 64 (CHR ''0''),
     sr_runId = ''run:00000000-0000-4000-8000-000000000000'',
     sr_snapshot = (''snapshot:00000000-0000-4000-8000-000000000000'', ''r''), sr_testId = ''service-test:a/b'', sr_parameters = [],
     sr_status = RunQueued, sr_outcome = None, sr_artifacts = [], sr_createdAt = ''2024-01-01T00:00:00.000Z'',
     sr_updatedAt = ''2024-01-01T00:00:00.000Z'', sr_startedAt = None, sr_finishedAt = None, sr_taskId = None,
     sr_executionLinks = None, sr_result = None, sr_error = None, sr_cleanup = None, sr_workspaceRelease = None, sr_tainted = False\<rparr>"

definition example_running :: stored_run where
  "example_running = example_record\<lparr>sr_revision := 1, sr_status := RunRunning, sr_startedAt := Some ''2024-01-01T00:00:01.000Z'',
     sr_updatedAt := ''2024-01-01T00:00:01.000Z''\<rparr>"

abbreviation example_fields :: jfields where
  "example_fields \<equiv> [(''schemaVersion'', JStr run_schema), (''revision'', JNum 0), (''requestId'', JStr ''q''),
     (''fingerprint'', JStr (replicate 64 (CHR ''0''))), (''runId'', JStr ''run:00000000-0000-4000-8000-000000000000''),
     (''snapshot'', JObj [(''snapshotId'', JStr ''snapshot:00000000-0000-4000-8000-000000000000''), (''resolvedRevision'', JStr ''r'')]),
     (''testId'', JStr ''service-test:a/b''), (''parameters'', JObj []), (''status'', JStr ''queued''), (''outcome'', JNull), (''artifacts'', JArr []),
     (''createdAt'', JStr ''2024-01-01T00:00:00.000Z''), (''updatedAt'', JStr ''2024-01-01T00:00:00.000Z''), (''tainted'', JBool False)]"

lemma small_budget: "safe_shape 0 j \<Longrightarrow> json_bytes j \<le> 9999 \<Longrightarrow> json_nodes j \<le> 999 \<Longrightarrow> within_budget j"
  by (simp add: within_budget_def sd_maxNodes_def sd_maxStringBytes_def)

lemma example_reserved: "parseStoredRun (reservation_value example_reservation) = Inr example_record"
proof -
  have "reservation_value example_reservation = json_value (JObj example_fields)"
    by (simp add: reservation_value_def example_reservation_def)
  moreover have "within_budget (JObj example_fields)" by (rule small_budget) code_simp+
  moreover have "parse_fields example_fields = Inr example_record" by code_simp
  ultimately show ?thesis by (simp only: parse_written)
qed

lemma rbind_via: "x = Inr a \<Longrightarrow> f a = Inr b \<Longrightarrow> rbind x f = Inr b" by simp

lemma example_marked:
  "rbind (mark_running ''2024-01-01T00:00:01.000Z'' example_record) (\<lambda>fs. parseStoredRun (json_value (JObj fs))) = Inr example_running"
proof -
  let ?fs = "case mark_running ''2024-01-01T00:00:01.000Z'' example_record of Inr fs \<Rightarrow> fs | Inl _ \<Rightarrow> []"
  have "mark_running ''2024-01-01T00:00:01.000Z'' example_record = Inr ?fs" by (simp add: mark_running_def example_record_def)
  moreover have "parseStoredRun (json_value (JObj ?fs)) = Inr example_running"
  proof (rule iffD2 [OF parse_written], rule conjI)
    show "within_budget (JObj ?fs)" by (rule small_budget) code_simp+
    show "parse_fields ?fs = Inr example_running" by code_simp
  qed
  ultimately show ?thesis by (rule rbind_via)
qed

lemma example_copied: "clone_record example_running = Inr example_running"
proof -
  obtain v where "parseStoredRun v = Inr example_running" using example_marked by (auto simp: rbind_eq_Inr_iff)
  from vstored.decode_wf [OF this] show ?thesis unfolding clone_record_def by (rule vstored.decode_encode)
qed

definition example_workspace :: workspace_snapshot where
  "example_workspace = \<lparr>wk_operationId = ''o'', wk_snapshotId = ''snapshot:00000000-0000-4000-8000-000000000000'',
     wk_resolvedRevision = ''r'', wk_rootPath = ''/s''\<rparr>"

text \<open>The surroundings at the second \<open>t\<close>: the file system works, and the executor throws an error without a message.\<close>

definition throwing :: answers where
  "throwing = \<lparr>an_io = True, an_time = ''2024-01-01T00:00:01.000Z'', an_result = None, an_message = [], an_timeout = False\<rparr>"

abbreviation example_id :: string where "example_id \<equiv> ''run:00000000-0000-4000-8000-000000000000''"

definition example_service :: service where
  "example_service = fst (run_steps (service_step (\<lambda>_. 0) 0 (\<lambda>_. True) False) fresh_service
     [(throwing, SvStart example_reservation example_workspace ''s''), (throwing, SvAdvance example_id)])"

lemma example_dispatched:
  "map_of (sv_active example_service) example_id = Some \<lparr>ds_workspace = example_workspace, ds_snapshotId = ''s'', ds_lease = None,
     ds_leaseCompleted = False, ds_phase = AwaitExecute\<rparr> \<and> st_runs (sv_store example_service) = [(example_id, example_running)]"
proof -
  have keys: "rv_requestId example_reservation = ''q''" "rv_runId example_reservation = example_id" "sr_requestId example_record = ''q''"
      "sr_runId example_record = example_id" "sr_requestId example_running = ''q''" "sr_runId example_running = example_id"
    by (simp_all add: example_reservation_def example_record_def example_running_def)
  have q: "valid_request ''q'' = Inr ''q''" "run_id_ok example_id" by code_simp+
  have w: "writeRunStoreFile (\<lambda>_. 0) 0 True js = Inr (DiskText 0 (Some (store_json js)))" for js by (simp add: writeRunStoreFile_def)
  show ?thesis unfolding example_service_def
    by (simp add: start_run_def fresh_service_def fresh_store_def reserve_run_def keys q example_reserved set_run_def mutate_def reply_def persist_def
        w throwing_def begin_dispatch_def set_phase_def advance_def store_call_def update_run_def require_run_def example_marked
        example_copied Let_def st_values_def map_has_def del: json_value.simps)
qed

end
