(* ===== verification/TestCatalog.thy ===== *)
theory TestCatalog
  imports StoredRunProps CaseSpec
begin

text \<open>
  The catalog of the test service: \<open>packages/service/src/test-definition.ts\<close>, \<open>validate-definition.ts\<close>
  and \<open>validation.ts\<close> (what a definition is), \<open>catalog.ts\<close> (the registry) and
  \<open>parameter-normalization.ts\<close> (the parameters of a run). A validated definition is a frozen copy of the
  data, typed by its checks; here it is a record. Messages are dropped.
\<close>

section \<open>Data\<close>

datatype catalog_error = CatUnsafe sd_code | CatType | CatDuplicate | CatUnknown

datatype parameter_type = ParString | ParNumber | ParInteger | ParBoolean

datatype runtime_kind = NodeRuntime | CliRuntime | SurfaceLoomRuntime

datatype service_platform = OnDarwin | OnLinux | OnWin32

record case_reference =
  cf_id :: string
  cf_source :: "string option"

record coverage_exclusion =
  ce_target :: string
  ce_reason :: string

record coverage_declaration =
  cd_includes :: "string list"
  cd_exclusions :: "coverage_exclusion list"

record parameter_definition =
  pd_type :: parameter_type
  pd_description :: string
  pd_enum :: "json list option"
  pd_default :: "json option"

record parameter_schema =
  ps_properties :: "(string \<times> parameter_definition) list"
  ps_required :: "string list"

record runtime_declaration =
  rn_executorId :: string
  rn_kind :: runtime_kind

record test_requirements =
  tq_platforms :: "service_platform list"
  tq_capabilities :: "string list"
  tq_environment :: "string list"

record artifact_output =
  ad_name :: string
  ad_mediaType :: string
  ad_required :: bool

record test_definition =
  td_testId :: string
  td_title :: string
  td_description :: string
  td_caseSpecs :: "case_reference list"
  td_coverage :: coverage_declaration
  td_parameters :: parameter_schema
  td_runtime :: runtime_declaration
  td_effect :: side_effect
  td_requirements :: test_requirements
  td_artifacts :: "artifact_output list"

definition parameterTypes :: "(string \<times> parameter_type) list" where
  "parameterTypes = [(''string'', ParString), (''number'', ParNumber), (''integer'', ParInteger), (''boolean'', ParBoolean)]"

definition runtimeKinds :: "(string \<times> runtime_kind) list" where
  "runtimeKinds = [(''node'', NodeRuntime), (''cli'', CliRuntime), (''surfaceloom-v3'', SurfaceLoomRuntime)]"

definition servicePlatforms :: "(string \<times> service_platform) list" where
  "servicePlatforms = [(''darwin'', OnDarwin), (''linux'', OnLinux), (''win32'', OnWin32)]"

definition validEffectLevels :: "(string \<times> side_effect) list" where
  "validEffectLevels = [(''readOnly'', ReadOnly), (''reversible'', Reversible), (''writesLocal'', WritesLocal),
     (''externalEffect'', ExternalEffect), (''securitySensitive'', SecuritySensitive)]"

section \<open>Readers\<close>

definition bad_type :: "catalog_error + 'a" where "bad_type = Inl CatType"

definition ct_record :: "json option \<Rightarrow> catalog_error + jfields" where
  "ct_record v = (case v of Some (JObj fs) \<Rightarrow> Inr fs | _ \<Rightarrow> bad_type)"

definition ct_array :: "json option \<Rightarrow> catalog_error + json list" where
  "ct_array v = (case v of Some (JArr js) \<Rightarrow> Inr js | _ \<Rightarrow> bad_type)"

text \<open>\<open>exactKeys\<close>\<close>

definition exact_fields :: "string list \<Rightarrow> string list \<Rightarrow> (string \<times> 'a) list \<Rightarrow> catalog_error + unit" where
  "exact_fields needed allowed fs =
     (if list_all (\<lambda>f. fst f \<in> set (needed @ allowed)) fs \<and> list_all (\<lambda>k. map_of fs k \<noteq> None) needed
      then Inr () else bad_type)"

definition plain_text :: "string \<Rightarrow> bool" where
  "plain_text s = (\<not> blank s \<and> length s \<le> 500)"

definition ct_when :: "(string \<Rightarrow> bool) \<Rightarrow> json option \<Rightarrow> catalog_error + string" where
  "ct_when ok v = (case v of Some (JStr s) \<Rightarrow> if ok s then Inr s else bad_type | _ \<Rightarrow> bad_type)"

definition ct_text :: "json option \<Rightarrow> catalog_error + string" where
  "ct_text = ct_when plain_text"

definition machine_id_ok :: "string \<Rightarrow> bool" where
  "machine_id_ok s = (plain_text s \<and> length s \<le> 200 \<and> ident_shape ''._:@/-'' s)"

definition machineId :: "json option \<Rightarrow> catalog_error + string" where
  "machineId = ct_when machine_id_ok"

definition oneOf :: "(string \<times> 'a) list \<Rightarrow> json option \<Rightarrow> catalog_error + 'a" where
  "oneOf table v = (case v of
     Some (JStr s) \<Rightarrow> (case map_of table s of None \<Rightarrow> bad_type | Some x \<Rightarrow> Inr x)
   | _ \<Rightarrow> bad_type)"

definition ct_boolean :: "json option \<Rightarrow> catalog_error + bool" where
  "ct_boolean v = (case v of Some (JBool b) \<Rightarrow> Inr b | _ \<Rightarrow> bad_type)"

definition ct_literal :: "json \<Rightarrow> json option \<Rightarrow> catalog_error + unit" where
  "ct_literal j v = (if v = Some j then Inr () else bad_type)"

definition ct_optional :: "(json option \<Rightarrow> catalog_error + 'a) \<Rightarrow> json option \<Rightarrow> catalog_error + 'a option" where
  "ct_optional rd v = (if v = None then Inr None else rbind (rd v) (\<lambda>x. Inr (Some x)))"

text \<open>A loop over an array that rejects a second item with the same key.\<close>

definition ct_list :: "(json option \<Rightarrow> catalog_error + 'a) \<Rightarrow> ('a \<Rightarrow> 'k) \<Rightarrow> json option \<Rightarrow> catalog_error + 'a list" where
  "ct_list rd key v = rbind (ct_array v) (rmap_unique CatType (\<lambda>j. rd (Some j)) key [])"

text \<open>\<open>stringList\<close>: the items are all read before they are compared.\<close>

definition ct_unique :: "'a list \<Rightarrow> catalog_error + 'a list" where
  "ct_unique xs = (if card (set xs) \<noteq> length xs then bad_type else Inr xs)"

definition ct_items :: "(json option \<Rightarrow> catalog_error + 'a) \<Rightarrow> json option \<Rightarrow> catalog_error + 'a list" where
  "ct_items rd v = rbind (ct_array v) (\<lambda>js. rbind (rmap (\<lambda>j. rd (Some j)) js) ct_unique)"

definition stringList :: "json option \<Rightarrow> catalog_error + string list" where
  "stringList = ct_items ct_text"

section \<open>Definitions of tests\<close>

definition read_case :: "json option \<Rightarrow> catalog_error + case_reference" where
  "read_case v = rbind (ct_record v) (\<lambda>fs.
     rbind (exact_fields [''id''] [''source''] fs) (\<lambda>_.
     rbind (machineId (map_of fs ''id'')) (\<lambda>i.
     rbind (ct_optional ct_text (map_of fs ''source'')) (\<lambda>s. Inr \<lparr>cf_id = i, cf_source = s\<rparr>))))"

definition validateCaseSpecs :: "json option \<Rightarrow> catalog_error + case_reference list" where
  "validateCaseSpecs = ct_list read_case cf_id"

definition read_exclusion :: "json option \<Rightarrow> catalog_error + coverage_exclusion" where
  "read_exclusion v = rbind (ct_record v) (\<lambda>fs.
     rbind (exact_fields [''target'', ''reason''] [] fs) (\<lambda>_.
     rbind (ct_text (map_of fs ''target'')) (\<lambda>t.
     rbind (ct_text (map_of fs ''reason'')) (\<lambda>r. Inr \<lparr>ce_target = t, ce_reason = r\<rparr>))))"

definition validateCoverage :: "json option \<Rightarrow> catalog_error + coverage_declaration" where
  "validateCoverage v = rbind (ct_record v) (\<lambda>fs.
     rbind (exact_fields [''includes'', ''exclusions''] [] fs) (\<lambda>_.
     rbind (stringList (map_of fs ''includes'')) (\<lambda>is.
     rbind (ct_list read_exclusion ce_target (map_of fs ''exclusions'')) (\<lambda>es. Inr \<lparr>cd_includes = is, cd_exclusions = es\<rparr>))))"

text \<open>\<open>parameterValue\<close>: a string, a boolean, a number or an integer.\<close>

fun conforms :: "parameter_type \<Rightarrow> json \<Rightarrow> bool" where
  "conforms ParString (JStr _) = True"
| "conforms ParBoolean (JBool _) = True"
| "conforms ParNumber (JNum _) = True"
| "conforms ParInteger (JNum q) = num_integral q"
| "conforms _ _ = False"

definition parameterValue :: "parameter_type \<Rightarrow> json option \<Rightarrow> catalog_error + json" where
  "parameterValue t v = (case v of Some j \<Rightarrow> if conforms t j then Inr j else bad_type | None \<Rightarrow> bad_type)"

definition parameter_name_ok :: "string \<Rightarrow> bool" where
  "parameter_name_ok s = (case s of [] \<Rightarrow> False
     | c # cs \<Rightarrow> is_alpha c \<and> length cs \<le> 63 \<and> list_all (\<lambda>d. is_alnum d \<or> d \<in> set ''_-'') cs)"

definition default_allowed :: "json list option \<Rightarrow> json option \<Rightarrow> bool" where
  "default_allowed choices d = (case (choices, d) of (Some cs, Some x) \<Rightarrow> x \<in> set cs | _ \<Rightarrow> True)"

definition read_parameter :: "json option \<Rightarrow> catalog_error + parameter_definition" where
  "read_parameter v = rbind (ct_record v) (\<lambda>fs.
     rbind (exact_fields [''type'', ''description''] [''default'', ''enum''] fs) (\<lambda>_.
     rbind (oneOf parameterTypes (map_of fs ''type'')) (\<lambda>t.
     rbind (ct_text (map_of fs ''description'')) (\<lambda>d.
     rbind (ct_optional (ct_items (parameterValue t)) (map_of fs ''enum'')) (\<lambda>choices.
     rbind (ct_optional (parameterValue t) (map_of fs ''default'')) (\<lambda>x.
     if default_allowed choices x then Inr \<lparr>pd_type = t, pd_description = d, pd_enum = choices, pd_default = x\<rparr> else bad_type))))))"

fun validateParameter :: "string \<times> json \<Rightarrow> catalog_error + string \<times> parameter_definition" where
  "validateParameter (k, j) = (if \<not> parameter_name_ok k then bad_type else rbind (read_parameter (Some j)) (\<lambda>p. Inr (k, p)))"

definition validateParameters :: "json option \<Rightarrow> catalog_error + parameter_schema" where
  "validateParameters v = rbind (ct_record v) (\<lambda>fs.
     rbind (exact_fields [''type'', ''properties'', ''required'', ''additionalProperties''] [] fs) (\<lambda>_.
     rbind (ct_literal (JStr ''object'') (map_of fs ''type'')) (\<lambda>_.
     rbind (ct_literal (JBool False) (map_of fs ''additionalProperties'')) (\<lambda>_.
     rbind (ct_record (map_of fs ''properties'')) (\<lambda>props.
     rbind (rmap validateParameter props) (\<lambda>ps.
     rbind (stringList (map_of fs ''required'')) (\<lambda>ks.
     if list_all (\<lambda>k. map_of props k \<noteq> None) ks then Inr \<lparr>ps_properties = ps, ps_required = ks\<rparr> else bad_type)))))))"

definition validateRuntime :: "json option \<Rightarrow> catalog_error + runtime_declaration" where
  "validateRuntime v = rbind (ct_record v) (\<lambda>fs.
     rbind (exact_fields [''executorId'', ''kind''] [] fs) (\<lambda>_.
     rbind (machineId (map_of fs ''executorId'')) (\<lambda>i.
     rbind (oneOf runtimeKinds (map_of fs ''kind'')) (\<lambda>k. Inr \<lparr>rn_executorId = i, rn_kind = k\<rparr>))))"

definition environment_name_ok :: "string \<Rightarrow> bool" where
  "environment_name_ok s = (case s of [] \<Rightarrow> False
     | c # cs \<Rightarrow> is_upper c \<and> list_all (\<lambda>d. is_upper d \<or> is_digit d \<or> d = CHR ''_'') cs)"

definition validateRequirements :: "json option \<Rightarrow> catalog_error + test_requirements" where
  "validateRequirements v = rbind (ct_record v) (\<lambda>fs.
     rbind (exact_fields [''platforms'', ''capabilities'', ''environment''] [] fs) (\<lambda>_.
     rbind (ct_items (oneOf servicePlatforms) (map_of fs ''platforms'')) (\<lambda>ps.
     rbind (stringList (map_of fs ''capabilities'')) (\<lambda>cs.
     rbind (stringList (map_of fs ''environment'')) (\<lambda>es.
     if list_all environment_name_ok es
     then Inr \<lparr>tq_platforms = ps, tq_capabilities = cs, tq_environment = es\<rparr> else bad_type)))))"

definition read_artifact_output :: "json option \<Rightarrow> catalog_error + artifact_output" where
  "read_artifact_output v = rbind (ct_record v) (\<lambda>fs.
     rbind (exact_fields [''name'', ''mediaType'', ''required''] [] fs) (\<lambda>_.
     rbind (machineId (map_of fs ''name'')) (\<lambda>n.
     rbind (ct_text (map_of fs ''mediaType'')) (\<lambda>m.
     rbind (ct_boolean (map_of fs ''required'')) (\<lambda>b. Inr \<lparr>ad_name = n, ad_mediaType = m, ad_required = b\<rparr>)))))"

definition result_format :: string where "result_format = ''surfaceloom.run-result/v1''"

definition validateOutput :: "json option \<Rightarrow> catalog_error + artifact_output list" where
  "validateOutput v = rbind (ct_record v) (\<lambda>fs.
     rbind (exact_fields [''resultFormat'', ''artifacts''] [] fs) (\<lambda>_.
     rbind (ct_literal (JStr result_format) (map_of fs ''resultFormat'')) (\<lambda>_.
     ct_list read_artifact_output ad_name (map_of fs ''artifacts''))))"

definition definition_keys :: "string list" where
  "definition_keys = [''schemaVersion'', ''testId'', ''title'', ''description'', ''caseSpecs'', ''coverage'', ''parameters'',
     ''runtime'', ''effect'', ''requirements'', ''output'']"

definition read_definition :: "json option \<Rightarrow> catalog_error + test_definition" where
  "read_definition v = rbind (ct_record v) (\<lambda>fs.
     rbind (ct_literal (JNum 1) (map_of fs ''schemaVersion'')) (\<lambda>_.
     rbind (ct_when test_id_ok (map_of fs ''testId'')) (\<lambda>tid.
     rbind (ct_text (map_of fs ''title'')) (\<lambda>title.
     rbind (ct_text (map_of fs ''description'')) (\<lambda>desc.
     rbind (validateCaseSpecs (map_of fs ''caseSpecs'')) (\<lambda>cases.
     rbind (validateCoverage (map_of fs ''coverage'')) (\<lambda>cov.
     rbind (validateParameters (map_of fs ''parameters'')) (\<lambda>params.
     rbind (validateRuntime (map_of fs ''runtime'')) (\<lambda>run.
     rbind (oneOf validEffectLevels (map_of fs ''effect'')) (\<lambda>eff.
     rbind (validateRequirements (map_of fs ''requirements'')) (\<lambda>reqs.
     rbind (validateOutput (map_of fs ''output'')) (\<lambda>arts.
     Inr \<lparr>td_testId = tid, td_title = title, td_description = desc, td_caseSpecs = cases, td_coverage = cov,
       td_parameters = params, td_runtime = run, td_effect = eff, td_requirements = reqs, td_artifacts = arts\<rparr>))))))))))))"

definition as_safe :: "sd_code + 'a \<Rightarrow> catalog_error + 'a" where
  "as_safe r = (case r of Inl e \<Rightarrow> Inl (CatUnsafe e) | Inr a \<Rightarrow> Inr a)"

definition validateTestDefinition :: "jsv \<Rightarrow> catalog_error + test_definition" where
  "validateTestDefinition v =
     rbind (as_safe (readSafeRecordEnvelope v)) (\<lambda>envelope.
     rbind (exact_fields definition_keys [] envelope) (\<lambda>_.
     rbind (as_safe (cloneSafeData (obj envelope))) (\<lambda>j. read_definition (Some j))))"

section \<open>The registry\<close>

type_synonym catalog = "(string \<times> test_definition) list"

definition register_test :: "jsv \<Rightarrow> catalog \<Rightarrow> catalog \<times> (catalog_error + test_definition)" where
  "register_test v c = (case validateTestDefinition v of
     Inl e \<Rightarrow> (c, Inl e)
   | Inr d \<Rightarrow> if map_has c (td_testId d) then (c, Inl CatDuplicate) else (map_set (td_testId d) d c, Inr d))"

fun register_all :: "jsv list \<Rightarrow> catalog \<Rightarrow> catalog_error + catalog" where
  "register_all [] c = Inr c"
| "register_all (v # vs) c = (case register_test v c of (c', r) \<Rightarrow> rbind r (\<lambda>_. register_all vs c'))"

definition maxCatalogDefinitions :: nat where "maxCatalogDefinitions = 1000"

definition new_catalog :: "jsv \<Rightarrow> catalog_error + catalog" where
  "new_catalog v = rbind (as_safe (readSafeArrayEnvelope maxCatalogDefinitions v)) (\<lambda>vs. register_all vs [])"

definition parse_test_id :: "string \<Rightarrow> catalog_error + string" where
  "parse_test_id k = (if test_id_ok k then Inr k else bad_type)"

definition catalog_get :: "string \<Rightarrow> catalog \<Rightarrow> catalog_error + test_definition option" where
  "catalog_get k c = rbind (parse_test_id k) (\<lambda>k. Inr (map_of c k))"

definition catalog_require :: "string \<Rightarrow> catalog \<Rightarrow> catalog_error + test_definition" where
  "catalog_require k c = rbind (parse_test_id k) (\<lambda>k. case map_of c k of None \<Rightarrow> Inl CatUnknown | Some d \<Rightarrow> Inr d)"

definition catalog_has :: "string \<Rightarrow> catalog \<Rightarrow> catalog_error + bool" where
  "catalog_has k c = rbind (parse_test_id k) (\<lambda>k. Inr (map_has c k))"

text \<open>\<open>list\<close> sorts by \<open>localeCompare\<close>, whose order depends on the locale: a rank of the identities.\<close>

definition catalog_list :: "(string \<Rightarrow> nat) \<Rightarrow> catalog \<Rightarrow> test_definition list" where
  "catalog_list rank c = sort_key (\<lambda>d. rank (td_testId d)) (map snd c)"

definition catalog_size :: "catalog \<Rightarrow> nat" where "catalog_size c = length c"

section \<open>The parameters of a run\<close>

fun value_conforms :: "parameter_type \<Rightarrow> jsv \<Rightarrow> json option" where
  "value_conforms ParString (VStr s) = Some (JStr s)"
| "value_conforms ParBoolean (VBool b) = Some (JBool b)"
| "value_conforms ParNumber (VNum (Fin q)) = Some (JNum q)"
| "value_conforms ParInteger (VNum (Fin q)) = (if num_integral q then Some (JNum q) else None)"
| "value_conforms _ _ = None"

definition normal_value :: "parameter_definition \<Rightarrow> jsv \<Rightarrow> catalog_error + json" where
  "normal_value p v = (case value_conforms (pd_type p) v of
     None \<Rightarrow> bad_type
   | Some j \<Rightarrow> if (case pd_enum p of None \<Rightarrow> False | Some cs \<Rightarrow> j \<notin> set cs) then bad_type else Inr j)"

text \<open>One declared parameter: what it contributes to the result.\<close>

definition supplied_value :: "fields \<Rightarrow> string \<Rightarrow> parameter_definition \<Rightarrow> jsv" where
  "supplied_value source k p = (case map_of source k of
     Some v \<Rightarrow> v | None \<Rightarrow> (case pd_default p of None \<Rightarrow> VUndefined | Some j \<Rightarrow> json_value j))"

fun normalize_loop :: "string list \<Rightarrow> fields \<Rightarrow> (string \<times> parameter_definition) list \<Rightarrow> jfields \<Rightarrow> catalog_error + jfields" where
  "normalize_loop needed source [] result = Inr result"
| "normalize_loop needed source ((k, p) # ps) result = (let v = supplied_value source k p in
     if v = VUndefined then (if k \<in> set needed then bad_type else normalize_loop needed source ps result)
     else rbind (normal_value p v) (\<lambda>j. normalize_loop needed source ps (map_set k j result)))"

definition normalizeParameters :: "test_definition \<Rightarrow> jsv \<Rightarrow> catalog_error + jfields" where
  "normalizeParameters d v =
     rbind (as_safe (readSafeRecordEnvelope v)) (\<lambda>source.
     if list_ex (\<lambda>f. map_of (ps_properties (td_parameters d)) (fst f) = None) source then bad_type
     else normalize_loop (ps_required (td_parameters d)) source (ps_properties (td_parameters d)) [])"

end
