(* ===== verification/TestCatalogProps.thy ===== *)
theory TestCatalogProps
  imports TestCatalog RunStoreProps
begin

text \<open>
  What the catalog promises: it accepts exactly the well-formed definitions; a registered definition is
  never replaced; and normalized parameters are complete, typed and stable.
\<close>

section \<open>Readers of fields\<close>

lemma bad_type_not_ok [simp]: "bad_type \<noteq> Inr a" "Inr a \<noteq> bad_type"
  by (simp_all add: bad_type_def)

lemma if_bad_type_Inr [simp]: "(if b then bad_type else r) = Inr a \<longleftrightarrow> \<not> b \<and> r = Inr a"
    "(if b then r else bad_type) = Inr a \<longleftrightarrow> b \<and> r = Inr a"
  by auto

lemma ct_record_Inr [simp]: "ct_record v = Inr fs \<longleftrightarrow> v = Some (JObj fs)"
  by (auto simp: ct_record_def split: option.split json.split)

lemma ct_array_Inr [simp]: "ct_array v = Inr js \<longleftrightarrow> v = Some (JArr js)"
  by (auto simp: ct_array_def split: option.split json.split)

lemma ct_literal_Inr [simp]: "ct_literal j v = Inr u \<longleftrightarrow> v = Some j"
  by (simp add: ct_literal_def)

lemma ct_optional_Inr: "ct_optional rd v = Inr x \<longleftrightarrow> (case x of None \<Rightarrow> v = None | Some a \<Rightarrow> v \<noteq> None \<and> rd v = Inr a)"
  by (auto simp: ct_optional_def split: option.split)

lemma ct_unique_Inr [simp]: "ct_unique xs = Inr ys \<longleftrightarrow> ys = xs \<and> distinct xs"
  by (auto simp: ct_unique_def card_set_eq_length_iff)

lemma exact_fields_Inr [simp]: "exact_fields needed allowed fs = Inr u \<longleftrightarrow>
    list_all (\<lambda>f. fst f \<in> set (needed @ allowed)) fs \<and> list_all (\<lambda>k. map_of fs k \<noteq> None) needed"
  by (simp add: exact_fields_def)

lemma list_all_opt_field: "list_all P (opt_field k enc x) \<longleftrightarrow> (case x of None \<Rightarrow> True | Some a \<Rightarrow> P (k, enc a))"
  by (auto simp: opt_field_def split: option.split)

text \<open>
  A reader of one field, and the data it reads back: what it accepts is well formed and costs no less
  than what it is written as.
\<close>

locale field_reader =
  fixes rd :: "json option \<Rightarrow> catalog_error + 'a"
    and enc :: "'a \<Rightarrow> json"
    and ok :: "'a \<Rightarrow> bool"
  assumes reads: "ok x \<Longrightarrow> rd (Some (enc x)) = Inr x"
    and read_ok: "rd v = Inr x \<Longrightarrow> ok x"
    and read_le: "rd v = Inr x \<Longrightarrow> \<exists>j. v = Some j \<and> json_le (enc x) j"
begin

lemma present: "rd (map_of fs k) = Inr x \<Longrightarrow> field_le fs (k, enc x)"
  using read_le field_le_read by blast

lemma optional_reads: "pred_option ok x \<Longrightarrow> ct_optional rd (map_option enc x) = Inr x"
  by (cases x) (simp_all add: ct_optional_def reads)

lemma optional_ok: "ct_optional rd v = Inr x \<Longrightarrow> pred_option ok x"
  using read_ok by (cases x) (auto simp: ct_optional_Inr)

lemma optional_le: "ct_optional rd (map_of fs k) = Inr x \<Longrightarrow> list_all (field_le fs) (opt_field k enc x)"
  by (cases x) (auto simp: ct_optional_Inr list_all_opt_field present)

lemma rmap_reads: "list_all ok xs \<Longrightarrow> rmap (\<lambda>j. rd (Some j)) (map enc xs) = Inr xs"
  by (rule rmap_map_Inr) (simp add: list_all_iff reads)

lemma rmap_read: "rmap (\<lambda>j. rd (Some j)) js = Inr xs \<Longrightarrow> list_all ok xs \<and> list_all2 json_le (map enc xs) js"
proof (induction js arbitrary: xs)
  case (Cons j js)
  then show ?case using read_ok read_le by fastforce
qed simp

lemma items_reader: "field_reader (ct_items rd) (\<lambda>xs. JArr (map enc xs)) (\<lambda>xs. distinct xs \<and> list_all ok xs)"
  by unfold_locales (auto simp: ct_items_def rmap_reads intro: json_le.arr dest: rmap_read)

lemma list_reader: "field_reader (ct_list rd key) (\<lambda>xs. JArr (map enc xs)) (\<lambda>xs. distinct (map key xs) \<and> list_all ok xs)"
  by unfold_locales (auto simp: ct_list_def rmap_unique_Inr rmap_reads intro: json_le.arr dest: rmap_read)

end

lemma when_reader: "field_reader (ct_when ok) JStr ok"
  by unfold_locales (auto simp: ct_when_def json_le.refl split: option.splits json.splits)

lemma table_reader:
  assumes "distinct (map fst table)" "\<And>x s. (s, x) \<in> set table \<longleftrightarrow> s = name x"
  shows "field_reader (oneOf table) (\<lambda>x. JStr (name x)) (\<lambda>_. True)"
proof -
  have named: "map_of table s = Some x \<longleftrightarrow> s = name x" for s x using assms by simp
  have inj: "name x = name y \<longleftrightarrow> x = y" for x y using named [of "name x" x] named [of "name x" y] by auto
  show ?thesis using named inj by unfold_locales (auto simp: oneOf_def json_le.refl split: option.splits json.splits)
qed

interpretation text_field: field_reader ct_text JStr plain_text
  unfolding ct_text_def by (rule when_reader)

interpretation machine_field: field_reader machineId JStr machine_id_ok
  unfolding machineId_def by (rule when_reader)

interpretation test_id_field: field_reader "ct_when test_id_ok" JStr test_id_ok
  by (rule when_reader)

interpretation texts_field: field_reader stringList "\<lambda>xs. JArr (map JStr xs)" "\<lambda>xs. distinct xs \<and> list_all plain_text xs"
  unfolding stringList_def by (rule text_field.items_reader)

interpretation flag_field: field_reader ct_boolean JBool "\<lambda>_. True"
  by unfold_locales (auto simp: ct_boolean_def json_le.refl split: option.splits json.splits)

interpretation value_field: field_reader "parameterValue t" "\<lambda>j. j" "conforms t" for t
  by unfold_locales (auto simp: parameterValue_def json_le.refl split: option.splits)

interpretation values_field: field_reader "ct_items (parameterValue t)" JArr
  "\<lambda>xs. distinct xs \<and> list_all (conforms t) xs" for t
  using value_field.items_reader [of t] by simp

fun type_name :: "parameter_type \<Rightarrow> string" where
  "type_name ParString = ''string''" | "type_name ParNumber = ''number''"
| "type_name ParInteger = ''integer''" | "type_name ParBoolean = ''boolean''"

fun runtime_name :: "runtime_kind \<Rightarrow> string" where
  "runtime_name NodeRuntime = ''node''" | "runtime_name CliRuntime = ''cli''"
| "runtime_name SurfaceLoomRuntime = ''surfaceloom-v3''"

fun platform_name :: "service_platform \<Rightarrow> string" where
  "platform_name OnDarwin = ''darwin''" | "platform_name OnLinux = ''linux''" | "platform_name OnWin32 = ''win32''"

fun effect_name :: "side_effect \<Rightarrow> string" where
  "effect_name ReadOnly = ''readOnly''" | "effect_name Reversible = ''reversible''" | "effect_name WritesLocal = ''writesLocal''"
| "effect_name ExternalEffect = ''externalEffect''" | "effect_name SecuritySensitive = ''securitySensitive''"

interpretation type_field: field_reader "oneOf parameterTypes" "\<lambda>x. JStr (type_name x)" "\<lambda>_. True"
proof (rule table_reader)
  show "distinct (map fst parameterTypes)" by code_simp
  show "(s, x) \<in> set parameterTypes \<longleftrightarrow> s = type_name x" for x s by (cases x; simp add: parameterTypes_def)
qed

interpretation kind_field: field_reader "oneOf runtimeKinds" "\<lambda>x. JStr (runtime_name x)" "\<lambda>_. True"
proof (rule table_reader)
  show "distinct (map fst runtimeKinds)" by code_simp
  show "(s, x) \<in> set runtimeKinds \<longleftrightarrow> s = runtime_name x" for x s by (cases x; simp add: runtimeKinds_def)
qed

interpretation platform_field: field_reader "oneOf servicePlatforms" "\<lambda>x. JStr (platform_name x)" "\<lambda>_. True"
proof (rule table_reader)
  show "distinct (map fst servicePlatforms)" by code_simp
  show "(s, x) \<in> set servicePlatforms \<longleftrightarrow> s = platform_name x" for x s by (cases x; simp add: servicePlatforms_def)
qed

interpretation platforms_field: field_reader "ct_items (oneOf servicePlatforms)" "\<lambda>xs. JArr (map (\<lambda>x. JStr (platform_name x)) xs)"
  "\<lambda>xs. distinct xs \<and> list_all (\<lambda>_. True) xs"
  by (rule platform_field.items_reader)

interpretation effect_field: field_reader "oneOf validEffectLevels" "\<lambda>x. JStr (effect_name x)" "\<lambda>_. True"
proof (rule table_reader)
  show "distinct (map fst validEffectLevels)" by code_simp
  show "(s, x) \<in> set validEffectLevels \<longleftrightarrow> s = effect_name x" for x s by (cases x; simp add: validEffectLevels_def)
qed

section \<open>The parts of a definition\<close>

definition case_json :: "case_reference \<Rightarrow> json" where
  "case_json c = JObj ((''id'', JStr (cf_id c)) # opt_field ''source'' JStr (cf_source c))"

definition case_ok :: "case_reference \<Rightarrow> bool" where
  "case_ok c = (machine_id_ok (cf_id c) \<and> pred_option plain_text (cf_source c))"

interpretation case_field: field_reader read_case case_json case_ok
proof
  show "read_case (Some (case_json c)) = Inr c" if "case_ok c" for c
    using that machine_field.reads text_field.optional_reads
    by (auto simp: read_case_def case_json_def case_ok_def list_all_opt_field split: option.split)
  fix v c assume "read_case v = Inr c"
  then obtain fs where v: "v = Some (JObj fs)" and r: "machineId (map_of fs ''id'') = Inr (cf_id c)"
    "ct_optional ct_text (map_of fs ''source'') = Inr (cf_source c)"
    by (auto simp: read_case_def)
  show "case_ok c" using r machine_field.read_ok text_field.optional_ok by (auto simp: case_ok_def)
  have "json_le (case_json c) (JObj fs)" unfolding case_json_def
    by (rule obj_le) (use r in \<open>simp_all add: machine_field.present text_field.optional_le opt_key opt_field_keys(2)\<close>)
  then show "\<exists>j. v = Some j \<and> json_le (case_json c) j" using v by blast
qed

interpretation cases_field: field_reader validateCaseSpecs "\<lambda>xs. JArr (map case_json xs)"
  "\<lambda>xs. distinct (map cf_id xs) \<and> list_all case_ok xs"
  unfolding validateCaseSpecs_def by (rule case_field.list_reader)

definition exclusion_json :: "coverage_exclusion \<Rightarrow> json" where
  "exclusion_json e = JObj [(''target'', JStr (ce_target e)), (''reason'', JStr (ce_reason e))]"

definition exclusion_ok :: "coverage_exclusion \<Rightarrow> bool" where
  "exclusion_ok e = (plain_text (ce_target e) \<and> plain_text (ce_reason e))"

interpretation exclusion_field: field_reader read_exclusion exclusion_json exclusion_ok
proof
  show "read_exclusion (Some (exclusion_json e)) = Inr e" if "exclusion_ok e" for e
    using that text_field.reads by (simp add: read_exclusion_def exclusion_json_def exclusion_ok_def)
  fix v e assume "read_exclusion v = Inr e"
  then obtain fs where v: "v = Some (JObj fs)" and r: "ct_text (map_of fs ''target'') = Inr (ce_target e)"
    "ct_text (map_of fs ''reason'') = Inr (ce_reason e)"
    by (auto simp: read_exclusion_def)
  show "exclusion_ok e" using r text_field.read_ok by (auto simp: exclusion_ok_def)
  have "json_le (exclusion_json e) (JObj fs)" unfolding exclusion_json_def
    by (rule obj_le) (use r in \<open>simp_all add: text_field.present\<close>)
  then show "\<exists>j. v = Some j \<and> json_le (exclusion_json e) j" using v by blast
qed

interpretation exclusions_field: field_reader "ct_list read_exclusion ce_target" "\<lambda>xs. JArr (map exclusion_json xs)"
  "\<lambda>xs. distinct (map ce_target xs) \<and> list_all exclusion_ok xs"
  by (rule exclusion_field.list_reader)

definition coverage_json :: "coverage_declaration \<Rightarrow> json" where
  "coverage_json c = JObj [(''includes'', JArr (map JStr (cd_includes c))), (''exclusions'', JArr (map exclusion_json (cd_exclusions c)))]"

definition coverage_ok :: "coverage_declaration \<Rightarrow> bool" where
  "coverage_ok c = (distinct (cd_includes c) \<and> list_all plain_text (cd_includes c)
     \<and> distinct (map ce_target (cd_exclusions c)) \<and> list_all exclusion_ok (cd_exclusions c))"

interpretation coverage_field: field_reader validateCoverage coverage_json coverage_ok
proof
  show "validateCoverage (Some (coverage_json c)) = Inr c" if "coverage_ok c" for c
    using that texts_field.reads exclusions_field.reads by (simp add: validateCoverage_def coverage_json_def coverage_ok_def)
  fix v c assume "validateCoverage v = Inr c"
  then obtain fs where v: "v = Some (JObj fs)" and r: "stringList (map_of fs ''includes'') = Inr (cd_includes c)"
    "ct_list read_exclusion ce_target (map_of fs ''exclusions'') = Inr (cd_exclusions c)"
    by (auto simp: validateCoverage_def)
  show "coverage_ok c" using texts_field.read_ok [OF r(1)] exclusions_field.read_ok [OF r(2)] by (simp add: coverage_ok_def)
  have "json_le (coverage_json c) (JObj fs)" unfolding coverage_json_def
    by (rule obj_le) (use r in \<open>simp_all add: texts_field.present exclusions_field.present\<close>)
  then show "\<exists>j. v = Some j \<and> json_le (coverage_json c) j" using v by blast
qed

definition parameter_json :: "parameter_definition \<Rightarrow> json" where
  "parameter_json p = JObj ((''type'', JStr (type_name (pd_type p))) # (''description'', JStr (pd_description p))
     # opt_field ''enum'' JArr (pd_enum p) @ opt_field ''default'' (\<lambda>j. j) (pd_default p))"

definition parameter_ok :: "parameter_definition \<Rightarrow> bool" where
  "parameter_ok p = (plain_text (pd_description p)
     \<and> pred_option (\<lambda>xs. distinct xs \<and> list_all (conforms (pd_type p)) xs) (pd_enum p)
     \<and> pred_option (conforms (pd_type p)) (pd_default p) \<and> default_allowed (pd_enum p) (pd_default p))"

interpretation parameter_field: field_reader read_parameter parameter_json parameter_ok
proof
  show "read_parameter (Some (parameter_json p)) = Inr p" if ok: "parameter_ok p" for p
  proof -
    have o: "ct_optional (ct_items (parameterValue (pd_type p))) (map_option JArr (pd_enum p)) = Inr (pd_enum p)"
      "ct_optional (parameterValue (pd_type p)) (pd_default p) = Inr (pd_default p)"
      using ok values_field.optional_reads value_field.optional_reads [of _ "pd_default p"] by (simp_all add: parameter_ok_def option.map_ident)
    have "list_all (\<lambda>f. fst f \<in> set ([''type'', ''description''] @ [''default'', ''enum'']))
        (opt_field ''enum'' JArr (pd_enum p) @ opt_field ''default'' (\<lambda>j. j) (pd_default p))"
      by (simp add: list_all_opt_field split: option.split)
    moreover have "map_of (opt_field ''enum'' JArr (pd_enum p) @ opt_field ''default'' (\<lambda>j. j) (pd_default p)) ''enum'' = map_option JArr (pd_enum p)"
      "map_of (opt_field ''enum'' JArr (pd_enum p) @ opt_field ''default'' (\<lambda>j. j) (pd_default p)) ''default'' = pd_default p"
      by (simp_all add: option.map_ident del: map_of_append split: option.split)
    ultimately show ?thesis using ok o text_field.reads type_field.reads
      by (simp add: read_parameter_def parameter_json_def parameter_ok_def del: map_of_append map_of_opt_field)
  qed
  fix v p assume "read_parameter v = Inr p"
  then obtain fs where v: "v = Some (JObj fs)" and r: "oneOf parameterTypes (map_of fs ''type'') = Inr (pd_type p)"
    "ct_text (map_of fs ''description'') = Inr (pd_description p)"
    "ct_optional (ct_items (parameterValue (pd_type p))) (map_of fs ''enum'') = Inr (pd_enum p)"
    "ct_optional (parameterValue (pd_type p)) (map_of fs ''default'') = Inr (pd_default p)"
    and d: "default_allowed (pd_enum p) (pd_default p)"
    by (auto simp: read_parameter_def)
  show "parameter_ok p"
    using d text_field.read_ok [OF r(2)] values_field.optional_ok [OF r(3)] value_field.optional_ok [OF r(4)]
    by (simp add: parameter_ok_def)
  have "list_all (field_le fs) (opt_field ''enum'' JArr (pd_enum p) @ opt_field ''default'' (\<lambda>j. j) (pd_default p))"
    using values_field.optional_le [OF r(3)] value_field.optional_le [OF r(4)] by simp
  then have "json_le (parameter_json p) (JObj fs)" unfolding parameter_json_def
    using r(1,2) by (intro obj_le)
      (simp_all add: type_field.present text_field.present opt_key opt_field_keys(2) opt_distinct image_Un del: distinct_append map_append)
  then show "\<exists>j. v = Some j \<and> json_le (parameter_json p) j" using v by blast
qed

lemma validateParameters_props:
  assumes "rmap validateParameter props = Inr ps"
  shows "list_all (\<lambda>f. parameter_name_ok (fst f) \<and> parameter_ok (snd f)) ps"
    and "list_all2 (\<lambda>f g. fst f = fst g \<and> json_le (snd f) (snd g)) (map (\<lambda>f. (fst f, parameter_json (snd f))) ps) props"
    and "map fst ps = map fst props"
proof -
  have "list_all (\<lambda>f. parameter_name_ok (fst f) \<and> parameter_ok (snd f)) ps
    \<and> list_all2 (\<lambda>f g. fst f = fst g \<and> json_le (snd f) (snd g)) (map (\<lambda>f. (fst f, parameter_json (snd f))) ps) props
    \<and> map fst ps = map fst props"
    using assms
  proof (induction props arbitrary: ps)
    case (Cons f props)
    obtain k j where f: "f = (k, j)" by (cases f)
    then show ?case using Cons parameter_field.read_ok parameter_field.read_le by fastforce
  qed simp
  then show "list_all (\<lambda>f. parameter_name_ok (fst f) \<and> parameter_ok (snd f)) ps"
    and "list_all2 (\<lambda>f g. fst f = fst g \<and> json_le (snd f) (snd g)) (map (\<lambda>f. (fst f, parameter_json (snd f))) ps) props"
    and "map fst ps = map fst props" by blast+
qed

lemma map_of_None_keys: "map_of xs k = None \<longleftrightarrow> k \<notin> set (map fst xs)"
  by (simp add: map_of_eq_None_iff)

definition schema_json :: "parameter_schema \<Rightarrow> json" where
  "schema_json s = JObj [(''type'', JStr ''object''), (''properties'', JObj (map (\<lambda>f. (fst f, parameter_json (snd f))) (ps_properties s))),
     (''required'', JArr (map JStr (ps_required s))), (''additionalProperties'', JBool False)]"

definition schema_ok :: "parameter_schema \<Rightarrow> bool" where
  "schema_ok s = (list_all (\<lambda>f. parameter_name_ok (fst f) \<and> parameter_ok (snd f)) (ps_properties s)
     \<and> distinct (ps_required s) \<and> list_all plain_text (ps_required s)
     \<and> list_all (\<lambda>k. map_of (ps_properties s) k \<noteq> None) (ps_required s))"

lemma same_keys_defined: "map fst xs = map fst ys \<Longrightarrow> map_of xs k = None \<longleftrightarrow> map_of ys k = None"
  by (simp add: map_of_None_keys del: set_map)

interpretation schema_field: field_reader validateParameters schema_json schema_ok
proof
  show "validateParameters (Some (schema_json s)) = Inr s" if ok: "schema_ok s" for s
  proof -
    have "rmap validateParameter (map (\<lambda>f. (fst f, parameter_json (snd f))) (ps_properties s)) = Inr (ps_properties s)"
      by (rule rmap_map_Inr) (use ok parameter_field.reads in \<open>auto simp: schema_ok_def list_all_iff\<close>)
    moreover have "map_of (map (\<lambda>f. (fst f, parameter_json (snd f))) (ps_properties s)) k = None \<longleftrightarrow> map_of (ps_properties s) k = None" for k
      by (rule same_keys_defined) (simp add: comp_def)
    then have "list_all (\<lambda>k. map_of (map (\<lambda>f. (fst f, parameter_json (snd f))) (ps_properties s)) k \<noteq> None) (ps_required s)"
      using ok by (simp add: schema_ok_def del: not_None_eq)
    ultimately show ?thesis using ok texts_field.reads
      by (simp add: validateParameters_def schema_json_def schema_ok_def del: not_None_eq)
  qed
  fix v s assume "validateParameters v = Inr s"
  then obtain fs props where v: "v = Some (JObj fs)" and r: "map_of fs ''type'' = Some (JStr ''object'')"
    "map_of fs ''additionalProperties'' = Some (JBool False)" "map_of fs ''properties'' = Some (JObj props)"
    "rmap validateParameter props = Inr (ps_properties s)" "stringList (map_of fs ''required'') = Inr (ps_required s)"
    "list_all (\<lambda>k. map_of props k \<noteq> None) (ps_required s)"
    by (auto simp: validateParameters_def)
  note p = validateParameters_props [OF r(4)]
  show "schema_ok s" using p(1) texts_field.read_ok [OF r(5)] r(6) same_keys_defined [OF p(3)] by (simp add: schema_ok_def)
  have "field_le fs (''properties'', JObj (map (\<lambda>f. (fst f, parameter_json (snd f))) (ps_properties s)))"
    by (rule field_le_read [OF r(3) json_le.same]) (rule p(2))
  then have "json_le (schema_json s) (JObj fs)" unfolding schema_json_def
    by (intro obj_le) (use r in \<open>simp_all add: texts_field.present field_le_same\<close>)
  then show "\<exists>j. v = Some j \<and> json_le (schema_json s) j" using v by blast
qed

definition runtime_json :: "runtime_declaration \<Rightarrow> json" where
  "runtime_json r = JObj [(''executorId'', JStr (rn_executorId r)), (''kind'', JStr (runtime_name (rn_kind r)))]"

definition runtime_ok :: "runtime_declaration \<Rightarrow> bool" where
  "runtime_ok r = machine_id_ok (rn_executorId r)"

interpretation runtime_field: field_reader validateRuntime runtime_json runtime_ok
proof
  show "validateRuntime (Some (runtime_json r)) = Inr r" if "runtime_ok r" for r
    using that machine_field.reads kind_field.reads by (simp add: validateRuntime_def runtime_json_def runtime_ok_def)
  fix v r assume "validateRuntime v = Inr r"
  then obtain fs where v: "v = Some (JObj fs)" and r: "machineId (map_of fs ''executorId'') = Inr (rn_executorId r)"
    "oneOf runtimeKinds (map_of fs ''kind'') = Inr (rn_kind r)"
    by (auto simp: validateRuntime_def)
  show "runtime_ok r" using machine_field.read_ok [OF r(1)] by (simp add: runtime_ok_def)
  have "json_le (runtime_json r) (JObj fs)" unfolding runtime_json_def
    by (rule obj_le) (use r in \<open>simp_all add: machine_field.present kind_field.present\<close>)
  then show "\<exists>j. v = Some j \<and> json_le (runtime_json r) j" using v by blast
qed

definition requirements_json :: "test_requirements \<Rightarrow> json" where
  "requirements_json r = JObj [(''platforms'', JArr (map (\<lambda>x. JStr (platform_name x)) (tq_platforms r))),
     (''capabilities'', JArr (map JStr (tq_capabilities r))), (''environment'', JArr (map JStr (tq_environment r)))]"

definition requirements_ok :: "test_requirements \<Rightarrow> bool" where
  "requirements_ok r = (distinct (tq_platforms r) \<and> distinct (tq_capabilities r) \<and> list_all plain_text (tq_capabilities r)
     \<and> distinct (tq_environment r) \<and> list_all plain_text (tq_environment r) \<and> list_all environment_name_ok (tq_environment r))"

interpretation requirements_field: field_reader validateRequirements requirements_json requirements_ok
proof
  show "validateRequirements (Some (requirements_json r)) = Inr r" if "requirements_ok r" for r
    using that texts_field.reads platforms_field.reads
    by (simp add: validateRequirements_def requirements_json_def requirements_ok_def list_all_iff)
  fix v r assume "validateRequirements v = Inr r"
  then obtain fs where v: "v = Some (JObj fs)" and r: "ct_items (oneOf servicePlatforms) (map_of fs ''platforms'') = Inr (tq_platforms r)"
    "stringList (map_of fs ''capabilities'') = Inr (tq_capabilities r)" "stringList (map_of fs ''environment'') = Inr (tq_environment r)"
    "list_all environment_name_ok (tq_environment r)"
    by (auto simp: validateRequirements_def)
  show "requirements_ok r"
    using platforms_field.read_ok [OF r(1)] texts_field.read_ok [OF r(2)] texts_field.read_ok [OF r(3)] r(4)
    by (simp add: requirements_ok_def)
  have "json_le (requirements_json r) (JObj fs)" unfolding requirements_json_def
    by (rule obj_le) (use r in \<open>simp_all add: platforms_field.present texts_field.present\<close>)
  then show "\<exists>j. v = Some j \<and> json_le (requirements_json r) j" using v by blast
qed

definition artifact_output_json :: "artifact_output \<Rightarrow> json" where
  "artifact_output_json a = JObj [(''name'', JStr (ad_name a)), (''mediaType'', JStr (ad_mediaType a)), (''required'', JBool (ad_required a))]"

definition artifact_output_ok :: "artifact_output \<Rightarrow> bool" where
  "artifact_output_ok a = (machine_id_ok (ad_name a) \<and> plain_text (ad_mediaType a))"

interpretation artifact_field: field_reader read_artifact_output artifact_output_json artifact_output_ok
proof
  show "read_artifact_output (Some (artifact_output_json a)) = Inr a" if "artifact_output_ok a" for a
    using that machine_field.reads text_field.reads flag_field.reads
    by (simp add: read_artifact_output_def artifact_output_json_def artifact_output_ok_def)
  fix v a assume "read_artifact_output v = Inr a"
  then obtain fs where v: "v = Some (JObj fs)" and r: "machineId (map_of fs ''name'') = Inr (ad_name a)"
    "ct_text (map_of fs ''mediaType'') = Inr (ad_mediaType a)" "ct_boolean (map_of fs ''required'') = Inr (ad_required a)"
    by (auto simp: read_artifact_output_def)
  show "artifact_output_ok a" using machine_field.read_ok [OF r(1)] text_field.read_ok [OF r(2)] by (simp add: artifact_output_ok_def)
  have "json_le (artifact_output_json a) (JObj fs)" unfolding artifact_output_json_def
    by (rule obj_le) (use r in \<open>simp_all add: machine_field.present text_field.present flag_field.present\<close>)
  then show "\<exists>j. v = Some j \<and> json_le (artifact_output_json a) j" using v by blast
qed

interpretation artifacts_field: field_reader "ct_list read_artifact_output ad_name" "\<lambda>xs. JArr (map artifact_output_json xs)"
  "\<lambda>xs. distinct (map ad_name xs) \<and> list_all artifact_output_ok xs"
  by (rule artifact_field.list_reader)

definition output_json :: "artifact_output list \<Rightarrow> json" where
  "output_json as = JObj [(''resultFormat'', JStr result_format), (''artifacts'', JArr (map artifact_output_json as))]"

definition output_ok :: "artifact_output list \<Rightarrow> bool" where
  "output_ok as = (distinct (map ad_name as) \<and> list_all artifact_output_ok as)"

interpretation output_field: field_reader validateOutput output_json output_ok
proof
  show "validateOutput (Some (output_json as)) = Inr as" if "output_ok as" for as
    using that artifacts_field.reads by (simp add: validateOutput_def output_json_def output_ok_def)
  fix v as assume "validateOutput v = Inr as"
  then obtain fs where v: "v = Some (JObj fs)" and r: "map_of fs ''resultFormat'' = Some (JStr result_format)"
    "ct_list read_artifact_output ad_name (map_of fs ''artifacts'') = Inr as"
    by (auto simp: validateOutput_def)
  show "output_ok as" using artifacts_field.read_ok [OF r(2)] by (simp add: output_ok_def)
  have "json_le (output_json as) (JObj fs)" unfolding output_json_def
    by (rule obj_le) (use r in \<open>simp_all add: artifacts_field.present field_le_same\<close>)
  then show "\<exists>j. v = Some j \<and> json_le (output_json as) j" using v by blast
qed

section \<open>Definitions\<close>

definition definition_fields :: "test_definition \<Rightarrow> jfields" where
  "definition_fields d = [(''schemaVersion'', JNum 1), (''testId'', JStr (td_testId d)), (''title'', JStr (td_title d)),
     (''description'', JStr (td_description d)), (''caseSpecs'', JArr (map case_json (td_caseSpecs d))),
     (''coverage'', coverage_json (td_coverage d)), (''parameters'', schema_json (td_parameters d)),
     (''runtime'', runtime_json (td_runtime d)), (''effect'', JStr (effect_name (td_effect d))),
     (''requirements'', requirements_json (td_requirements d)), (''output'', output_json (td_artifacts d))]"

definition definition_ok :: "test_definition \<Rightarrow> bool" where
  "definition_ok d = (test_id_ok (td_testId d) \<and> plain_text (td_title d) \<and> plain_text (td_description d)
     \<and> distinct (map cf_id (td_caseSpecs d)) \<and> list_all case_ok (td_caseSpecs d) \<and> coverage_ok (td_coverage d)
     \<and> schema_ok (td_parameters d) \<and> runtime_ok (td_runtime d) \<and> requirements_ok (td_requirements d) \<and> output_ok (td_artifacts d))"

lemma definition_lookup:
  "map_of (definition_fields d) ''schemaVersion'' = Some (JNum 1)"
  "map_of (definition_fields d) ''testId'' = Some (JStr (td_testId d))"
  "map_of (definition_fields d) ''title'' = Some (JStr (td_title d))"
  "map_of (definition_fields d) ''description'' = Some (JStr (td_description d))"
  "map_of (definition_fields d) ''caseSpecs'' = Some (JArr (map case_json (td_caseSpecs d)))"
  "map_of (definition_fields d) ''coverage'' = Some (coverage_json (td_coverage d))"
  "map_of (definition_fields d) ''parameters'' = Some (schema_json (td_parameters d))"
  "map_of (definition_fields d) ''runtime'' = Some (runtime_json (td_runtime d))"
  "map_of (definition_fields d) ''effect'' = Some (JStr (effect_name (td_effect d)))"
  "map_of (definition_fields d) ''requirements'' = Some (requirements_json (td_requirements d))"
  "map_of (definition_fields d) ''output'' = Some (output_json (td_artifacts d))"
  by (simp_all add: definition_fields_def)

lemma definition_reads: "definition_ok d \<Longrightarrow> read_definition (Some (JObj (definition_fields d))) = Inr d"
  by (simp add: read_definition_def definition_ok_def definition_lookup test_id_field.reads text_field.reads cases_field.reads
      coverage_field.reads schema_field.reads runtime_field.reads effect_field.reads requirements_field.reads output_field.reads)

lemma definition_read:
  assumes "read_definition (Some j) = Inr d"
  shows "definition_ok d" and "json_le (JObj (definition_fields d)) j"
proof -
  obtain fs where j: "j = JObj fs" and r: "map_of fs ''schemaVersion'' = Some (JNum 1)"
    "ct_when test_id_ok (map_of fs ''testId'') = Inr (td_testId d)" "ct_text (map_of fs ''title'') = Inr (td_title d)"
    "ct_text (map_of fs ''description'') = Inr (td_description d)"
    "validateCaseSpecs (map_of fs ''caseSpecs'') = Inr (td_caseSpecs d)"
    "validateCoverage (map_of fs ''coverage'') = Inr (td_coverage d)"
    "validateParameters (map_of fs ''parameters'') = Inr (td_parameters d)"
    "validateRuntime (map_of fs ''runtime'') = Inr (td_runtime d)"
    "oneOf validEffectLevels (map_of fs ''effect'') = Inr (td_effect d)"
    "validateRequirements (map_of fs ''requirements'') = Inr (td_requirements d)"
    "validateOutput (map_of fs ''output'') = Inr (td_artifacts d)"
    using assms by (auto simp: read_definition_def)
  show "definition_ok d"
    using test_id_field.read_ok [OF r(2)] text_field.read_ok [OF r(3)] text_field.read_ok [OF r(4)] cases_field.read_ok [OF r(5)]
      coverage_field.read_ok [OF r(6)] schema_field.read_ok [OF r(7)] runtime_field.read_ok [OF r(8)]
      requirements_field.read_ok [OF r(10)] output_field.read_ok [OF r(11)]
    by (simp add: definition_ok_def)
  have "list_all (field_le fs) (definition_fields d)"
    using r by (simp add: definition_fields_def field_le_same test_id_field.present text_field.present cases_field.present
        coverage_field.present schema_field.present runtime_field.present effect_field.present requirements_field.present
        output_field.present)
  moreover have "distinct (map fst (definition_fields d))" by (simp add: definition_fields_def)
  ultimately show "json_le (JObj (definition_fields d)) j" unfolding j by (rule obj_le [rotated])
qed

definition wf_definition :: "test_definition \<Rightarrow> bool" where
  "wf_definition d = (definition_ok d \<and> within_budget (JObj (definition_fields d)))"

definition encode_definition :: "test_definition \<Rightarrow> jsv" where
  "encode_definition d = json_value (JObj (definition_fields d))"

lemma as_safe_Inr [simp]: "as_safe r = Inr a \<longleftrightarrow> r = Inr a"
  by (auto simp: as_safe_def split: sum.split)

lemma envelope_obj: "length r \<le> sd_maxCollectionEntries \<Longrightarrow> readSafeRecordEnvelope (obj r) = Inr r"
  by (simp add: readSafeRecordEnvelope_def obj_def copy_record_obj)

interpretation vcatalog: validator validateTestDefinition encode_definition wf_definition
proof
  fix v d assume "validateTestDefinition v = Inr d"
  then obtain r j where c: "cloneSafeData (obj r) = Inr j" and d: "read_definition (Some j) = Inr d"
    by (auto simp: validateTestDefinition_def)
  show "wf_definition d"
    using definition_read [OF d] within_budget_le vsafe.decode_wf [OF c] by (auto simp: wf_definition_def)
next
  fix d assume wf: "wf_definition d"
  let ?r = "map (\<lambda>(k, j). (k, json_value j)) (definition_fields d)"
  have plain: "encode_definition d = obj ?r" by (simp add: encode_definition_def)
  have "readSafeRecordEnvelope (obj ?r) = Inr ?r"
    by (rule envelope_obj) (simp add: definition_fields_def sd_maxCollectionEntries_def)
  moreover have "exact_fields definition_keys [] ?r = Inr ()" by (simp add: definition_fields_def definition_keys_def)
  moreover have "cloneSafeData (obj ?r) = Inr (JObj (definition_fields d))"
    unfolding plain [symmetric] encode_definition_def by (rule vsafe.decode_encode) (use wf in \<open>simp add: wf_definition_def\<close>)
  ultimately show "validateTestDefinition (encode_definition d) = Inr d"
    using definition_reads wf unfolding plain by (simp add: validateTestDefinition_def wf_definition_def)
qed

section \<open>The registry\<close>

definition catalog_ok :: "catalog \<Rightarrow> bool" where
  "catalog_ok c = (distinct (map fst c) \<and> list_all (\<lambda>(k, d). td_testId d = k \<and> wf_definition d) c)"

text \<open>Registering appends one definition, or refuses and changes nothing.\<close>

lemma register_cases:
  obtains e where "register_test v c = (c, Inl e)"
  | d where "validateTestDefinition v = Inr d" "td_testId d \<notin> set (map fst c)" "register_test v c = (c @ [(td_testId d, d)], Inr d)"
proof (cases "validateTestDefinition v")
  case (Inl e)
  then show thesis using that(1) by (simp add: register_test_def)
next
  case (Inr d)
  show thesis
  proof (cases "td_testId d \<in> set (map fst c)")
    case True
    then show thesis using that(1) Inr by (simp add: register_test_def map_has_iff map_of_eq_None_iff)
  next
    case False
    then have "map_of c (td_testId d) = None" by (simp add: map_of_eq_None_iff)
    then show thesis using that(2) Inr False by (simp add: register_test_def map_has_iff map_set_fresh)
  qed
qed

definition catalog_step :: "catalog \<Rightarrow> jsv \<Rightarrow> catalog \<times> (catalog_error + test_definition) list" where
  "catalog_step c v = (case register_test v c of (c', r) \<Rightarrow> (c', [r]))"

interpretation catalog_machine: step_machine catalog_step catalog_ok
proof
  fix c v assume ok: "catalog_ok c"
  show "catalog_ok (fst (catalog_step c v))"
    by (rule register_cases [of v c]) (use ok vcatalog.decode_wf in \<open>auto simp: catalog_step_def catalog_ok_def\<close>)
qed

lemma catalog_grows: "\<exists>x. fst (run_steps catalog_step c vs) = c @ x"
proof (induction vs arbitrary: c)
  case (Cons v vs)
  have "\<exists>y. fst (catalog_step c v) = c @ y" by (rule register_cases [of v c]) (auto simp: catalog_step_def)
  then obtain y where y: "fst (catalog_step c v) = c @ y" ..
  moreover obtain x where "fst (run_steps catalog_step (c @ y) vs) = (c @ y) @ x" using Cons.IH by blast
  ultimately show ?case by (simp add: Let_def split_beta)
qed simp

lemma empty_catalog_ok: "catalog_ok []"
  by (simp add: catalog_ok_def)

section \<open>Normalized parameters\<close>

definition value_allowed :: "parameter_definition \<Rightarrow> json \<Rightarrow> bool" where
  "value_allowed p j = (conforms (pd_type p) j \<and> (case pd_enum p of None \<Rightarrow> True | Some cs \<Rightarrow> j \<in> set cs))"

lemma value_conforms_Some: "value_conforms t v = Some j \<longleftrightarrow> v = json_value j \<and> conforms t j"
proof (cases t)
  case ParInteger
  show ?thesis
  proof (cases v)
    case (VNum x)
    then show ?thesis using ParInteger by (cases x; cases j) auto
  qed (use ParInteger in \<open>cases j; auto simp: arr_def obj_def\<close>)+
qed (cases v; cases j; auto split: jsnum.splits elim: value_conforms.elims)+

lemma normal_value_Inr: "normal_value p v = Inr j \<longleftrightarrow> v = json_value j \<and> value_allowed p j"
proof (cases "value_conforms (pd_type p) v")
  case None
  then have "\<not> (v = json_value j \<and> conforms (pd_type p) j)" using value_conforms_Some [of "pd_type p" v j] by simp
  then show ?thesis using None by (auto simp: normal_value_def value_allowed_def)
next
  case (Some i)
  have "v = json_value j \<and> conforms (pd_type p) j \<longleftrightarrow> i = j" using value_conforms_Some [of "pd_type p" v j] Some by simp
  then show ?thesis using Some by (auto simp: normal_value_def value_allowed_def split: option.split)
qed

text \<open>What one declared parameter contributes, and when the loop refuses it.\<close>

definition accepted :: "string list \<Rightarrow> fields \<Rightarrow> string \<times> parameter_definition \<Rightarrow> bool" where
  "accepted needed source f = (let v = supplied_value source (fst f) (snd f) in
     if v = VUndefined then fst f \<notin> set needed else is_ok (normal_value (snd f) v))"

definition contribution :: "fields \<Rightarrow> string \<times> parameter_definition \<Rightarrow> jfields" where
  "contribution source f = (case normal_value (snd f) (supplied_value source (fst f) (snd f)) of
     Inl _ \<Rightarrow> [] | Inr j \<Rightarrow> [(fst f, j)])"

lemma json_value_defined [simp]: "json_value j \<noteq> VUndefined" "VUndefined \<noteq> json_value j"
  by (cases j; simp add: arr_def obj_def)+

lemma undefined_not_normal: "normal_value p VUndefined \<noteq> Inr j"
  by (simp add: normal_value_Inr)

lemma normalize_loop_Inr:
  "distinct (map fst acc @ map fst ps) \<Longrightarrow>
   normalize_loop needed source ps acc = Inr r \<longleftrightarrow>
     list_all (accepted needed source) ps \<and> r = acc @ concat (map (contribution source) ps)"
proof (induction ps arbitrary: acc)
  case (Cons f ps)
  obtain k p where f: "f = (k, p)" by (cases f)
  let ?v = "supplied_value source k p"
  show ?case
  proof (cases "?v = VUndefined")
    case True
    then have "contribution source f = []"
      using undefined_not_normal [of p] by (auto simp: contribution_def f split: sum.split)
    then show ?thesis using Cons True by (auto simp: f accepted_def Let_def)
  next
    case False
    show ?thesis
    proof (cases "normal_value p ?v")
      case (Inl e)
      then show ?thesis using False by (simp add: f accepted_def Let_def)
    next
      case (Inr j)
      have "map_set k j acc = acc @ [(k, j)]" by (rule map_set_fresh) (use Cons.prems f in \<open>auto simp: map_of_eq_None_iff\<close>)
      moreover have "distinct (map fst (acc @ [(k, j)]) @ map fst ps)" using Cons.prems f by auto
      ultimately show ?thesis using False Inr Cons.IH by (simp add: f accepted_def contribution_def Let_def)
    qed
  qed
qed auto

definition normalized :: "test_definition \<Rightarrow> jfields \<Rightarrow> bool" where
  "normalized d r = (distinct (map fst r)
     \<and> list_all (\<lambda>(k, j). case map_of (ps_properties (td_parameters d)) k of None \<Rightarrow> False | Some p \<Rightarrow> value_allowed p j) r
     \<and> list_all (\<lambda>k. map_of r k \<noteq> None) (ps_required (td_parameters d)))"

lemma loop_start: "distinct (map fst ps) \<Longrightarrow> normalize_loop needed source ps [] = Inr r \<longleftrightarrow>
    list_all (accepted needed source) ps \<and> r = concat (map (contribution source) ps)"
  using normalize_loop_Inr [of "[]" ps] by simp

lemma contribution_keys: "k \<in> set (map fst (concat (map (contribution source) ps))) \<Longrightarrow> k \<in> set (map fst ps)"
  by (induction ps) (auto simp: contribution_def split: sum.splits)

lemma contributions_distinct: "distinct (map fst ps) \<Longrightarrow> distinct (map fst (concat (map (contribution source) ps)))"
proof (induction ps)
  case (Cons f ps)
  have "fst f \<notin> set (map fst ps)" using Cons.prems by simp
  then have "fst f \<notin> set (map fst (concat (map (contribution source) ps)))" using contribution_keys by blast
  then show ?case using Cons by (auto simp: contribution_def split: sum.split)
qed simp

lemma contributions_lookup:
  "distinct (map fst ps) \<Longrightarrow> map_of ps k = Some p \<Longrightarrow>
   map_of (concat (map (contribution source) ps)) k =
     (case normal_value p (supplied_value source k p) of Inl _ \<Rightarrow> None | Inr j \<Rightarrow> Some j)"
proof (induction ps)
  case (Cons f ps)
  show ?case
  proof (cases "fst f = k")
    case True
    then have f: "f = (k, p)" using Cons.prems by (cases f) auto
    have "k \<notin> set (map fst ps)" using Cons.prems True by simp
    then have "k \<notin> set (map fst (concat (map (contribution source) ps)))" using contribution_keys by blast
    then have "map_of (concat (map (contribution source) ps)) k = None" by (simp only: map_of_None_keys not_False_eq_True)
    then show ?thesis by (simp add: f contribution_def [of source "(k, p)"] map_add_def split: sum.split)
  next
    case False
    then have "map_of (contribution source f) k = None" by (simp add: contribution_def split: sum.split)
    then show ?thesis using Cons False by (cases f) (simp add: map_add_def split: option.split)
  qed
qed simp

text \<open>The result holds each declared parameter once, typed and allowed; no required one is missing.\<close>

lemma normalizeParameters_ok:
  assumes d: "schema_ok (td_parameters d)" "distinct (map fst (ps_properties (td_parameters d)))"
    and n: "normalizeParameters d v = Inr r"
  shows "normalized d r"
proof -
  let ?ps = "ps_properties (td_parameters d)" and ?needed = "ps_required (td_parameters d)"
  obtain source where "normalize_loop ?needed source ?ps [] = Inr r" using n by (auto simp: normalizeParameters_def)
  then have acc: "list_all (accepted ?needed source) ?ps" and r: "r = concat (map (contribution source) ?ps)"
    using loop_start [OF d(2)] by blast+
  have look: "map_of r k = (case normal_value p (supplied_value source k p) of Inl _ \<Rightarrow> None | Inr j \<Rightarrow> Some j)"
    if "map_of ?ps k = Some p" for k p
    unfolding r by (rule contributions_lookup [OF d(2) that])
  have dist: "distinct (map fst r)" unfolding r by (rule contributions_distinct [OF d(2)])
  have "case map_of ?ps k of None \<Rightarrow> False | Some p \<Rightarrow> value_allowed p j" if kj: "(k, j) \<in> set r" for k j
  proof -
    have "k \<in> set (map fst r)" using kj by force
    then have "k \<in> set (map fst ?ps)" unfolding r by (rule contribution_keys)
    then obtain p where p: "map_of ?ps k = Some p" using map_of_None_keys [of ?ps k] by (cases "map_of ?ps k") auto
    have "map_of r k = Some j" using kj dist by simp
    then show ?thesis using look [OF p] p by (simp add: normal_value_Inr split: sum.splits)
  qed
  then have "list_all (\<lambda>(k, j). case map_of ?ps k of None \<Rightarrow> False | Some p \<Rightarrow> value_allowed p j) r"
    unfolding list_all_iff by blast
  moreover have "map_of r k \<noteq> None" if k: "k \<in> set ?needed" for k
  proof -
    have "map_of ?ps k \<noteq> None" using d(1) k by (simp add: schema_ok_def list_all_iff)
    then obtain p where p: "map_of ?ps k = Some p" by blast
    from map_of_SomeD [OF p] acc have "accepted ?needed source (k, p)" unfolding list_all_iff by blast
    then have "is_ok (normal_value p (supplied_value source k p))" using k by (simp add: accepted_def Let_def split: if_splits)
    then show ?thesis using look [OF p] by (auto simp: is_ok_iff)
  qed
  ultimately show ?thesis using dist by (simp add: normalized_def list_all_iff)
qed

text \<open>Normalizing plain data again changes nothing.\<close>

lemma json_value_inj [simp]: "json_value i = json_value j \<longleftrightarrow> i = j"
  by (metis plain_json_value)

definition plain_source :: "jfields \<Rightarrow> fields" where
  "plain_source fs = map (\<lambda>(k, j). (k, json_value j)) fs"

lemma supplied_json: "supplied_value (plain_source fs) k p =
    (case map_of fs k of Some j \<Rightarrow> json_value j | None \<Rightarrow> (case pd_default p of None \<Rightarrow> VUndefined | Some j \<Rightarrow> json_value j))"
  by (simp add: supplied_value_def plain_source_def map_of_map split: option.split)

lemma normalize_plain: "length fs \<le> sd_maxCollectionEntries \<Longrightarrow>
    normalizeParameters d (json_value (JObj fs)) = Inr r \<longleftrightarrow>
      \<not> list_ex (\<lambda>f. map_of (ps_properties (td_parameters d)) (fst f) = None) fs
      \<and> normalize_loop (ps_required (td_parameters d)) (plain_source fs) (ps_properties (td_parameters d)) [] = Inr r"
  using envelope_obj [of "plain_source fs"]
  by (simp add: normalizeParameters_def plain_source_def list_ex_iff split_beta)

lemma normalize_length: "normalizeParameters d (json_value (JObj fs)) = Inr r \<Longrightarrow> length fs \<le> sd_maxCollectionEntries"
  by (auto simp: normalizeParameters_def readSafeRecordEnvelope_def obj_def copyRecordDescriptors_def split: if_splits)

lemma contributions_length: "length (concat (map (contribution s) ps)) \<le> length ps"
proof (induction ps)
  case (Cons f ps)
  have "length (contribution s f) \<le> 1" by (simp add: contribution_def split: sum.split)
  then show ?case using Cons by simp
qed simp

lemma normalize_again:
  assumes d: "distinct (map fst (ps_properties (td_parameters d)))"
    and len: "length (ps_properties (td_parameters d)) \<le> sd_maxCollectionEntries"
    and n: "normalizeParameters d (json_value (JObj fs)) = Inr r"
  shows "normalizeParameters d (json_value (JObj r)) = Inr r"
proof -
  let ?ps = "ps_properties (td_parameters d)" and ?needed = "ps_required (td_parameters d)"
  note len_fs = normalize_length [OF n]
  have loop: "normalize_loop ?needed (plain_source fs) ?ps [] = Inr r" using n normalize_plain [OF len_fs] by blast
  then have acc: "list_all (accepted ?needed (plain_source fs)) ?ps" and r: "r = concat (map (contribution (plain_source fs)) ?ps)"
    using loop_start [OF d] by blast+
  have same: "supplied_value (plain_source r) k p = supplied_value (plain_source fs) k p" if f: "(k, p) \<in> set ?ps" for k p
  proof -
    have p: "map_of ?ps k = Some p" using f d by simp
    have look: "map_of r k = (case normal_value p (supplied_value (plain_source fs) k p) of Inl _ \<Rightarrow> None | Inr j \<Rightarrow> Some j)"
      unfolding r by (rule contributions_lookup [OF d p])
    have a: "accepted ?needed (plain_source fs) (k, p)" using acc f unfolding list_all_iff by blast
    show ?thesis
    proof (cases "supplied_value (plain_source fs) k p = VUndefined")
      case True
      then have "pd_default p = None" by (simp add: supplied_json split: option.splits)
      moreover have "map_of r k = None" using look True undefined_not_normal [of p] by (simp split: sum.splits)
      ultimately show ?thesis using True by (simp add: supplied_json)
    next
      case False
      then obtain i where i: "normal_value p (supplied_value (plain_source fs) k p) = Inr i"
        using a by (auto simp: accepted_def Let_def is_ok_iff)
      then have "map_of r k = Some i" using look by simp
      then have "supplied_value (plain_source r) k p = json_value i" by (simp add: supplied_json)
      then show ?thesis using i by (simp add: normal_value_Inr)
    qed
  qed
  have "list_all (accepted ?needed (plain_source r)) ?ps"
    using acc same by (force simp: list_all_iff accepted_def)
  moreover have "map (contribution (plain_source r)) ?ps = map (contribution (plain_source fs)) ?ps"
    using same by (force simp: contribution_def)
  ultimately have again: "normalize_loop ?needed (plain_source r) ?ps [] = Inr r"
    using loop_start [OF d] r by metis
  have "length r \<le> sd_maxCollectionEntries" using contributions_length [of "plain_source fs" ?ps] r len by simp
  moreover have "\<not> list_ex (\<lambda>f. map_of ?ps (fst f) = None) r"
  proof -
    have "map_of ?ps k \<noteq> None" if "k \<in> set (map fst r)" for k
      using contribution_keys [of k] that map_of_None_keys [of ?ps k] unfolding r by blast
    then show ?thesis by (force simp: list_ex_iff)
  qed
  ultimately show ?thesis using again normalize_plain by blast
qed

lemma wf_definition_short:
  assumes "wf_definition d"
  shows "length (ps_properties (td_parameters d)) \<le> sd_maxCollectionEntries"
  using assms by (simp add: wf_definition_def within_budget_def definition_fields_def schema_json_def)

section \<open>Readers keep the data\<close>

definition same_json :: "json \<Rightarrow> json \<Rightarrow> bool" where
  "same_json i j = same_data (=) (json_value i) (json_value j)"

lemma same_json_refl [simp]: "same_json j j"
  by (simp add: same_json_def same_data.same)

lemma same_json_arr: "list_all2 same_json is js \<Longrightarrow> same_json (JArr is) (JArr js)"
  unfolding same_json_def json_value.simps by (rule same_arr) (simp add: list.rel_map same_json_def [abs_def])

lemma fld_json: "fld (map (\<lambda>(k, j). (k, json_value j)) fs) k = (case map_of fs k of None \<Rightarrow> VUndefined | Some j \<Rightarrow> json_value j)"
  by (simp add: fld_def map_of_map split: option.split)

lemma keys_json: "fst ` set (map (\<lambda>(k, j). (k, json_value j)) fs) = fst ` set fs"
  by force

definition field_same :: "jfields \<Rightarrow> string \<Rightarrow> json option \<Rightarrow> bool" where
  "field_same fs k w = (case (map_of fs k, w) of (None, None) \<Rightarrow> True | (Some i, Some j) \<Rightarrow> same_json i j | _ \<Rightarrow> False)"

lemma same_json_obj:
  assumes "list_all (\<lambda>f. fst f \<in> set ks) fs" "list_all (\<lambda>f. fst f \<in> set ks) es"
    "list_all (\<lambda>k. field_same fs k (map_of es k)) ks"
  shows "same_json (JObj fs) (JObj es)"
proof -
  have f: "field_same fs k (map_of es k)" if "k \<in> set ks" for k using assms(3) that by (simp add: list_all_iff)
  have keys: "k \<in> fst ` set fs \<longleftrightarrow> k \<in> fst ` set es" for k
  proof (cases "k \<in> set ks")
    case True
    have "map_of fs k = None \<longleftrightarrow> map_of es k = None" using f [OF True] by (auto simp: field_same_def split: option.splits)
    then show ?thesis by (simp add: map_of_eq_None_iff)
  qed (use assms(1,2) in \<open>auto simp: list_all_iff\<close>)
  have data: "same_data (=) (fld (map (\<lambda>(k, j). (k, json_value j)) fs) k) (fld (map (\<lambda>(k, j). (k, json_value j)) es) k)"
    if "k \<in> fst ` set es" for k
    using f [of k] that assms(2) by (auto simp: field_same_def fld_json same_json_def list_all_iff same_data.same split: option.splits)
  have "fst ` set fs = fst ` set es" using keys by blast
  then show ?thesis unfolding same_json_def json_value.simps using data by (intro same_obj) (simp_all only: keys_json, blast)
qed

text \<open>A reader of one field that keeps its data.\<close>

locale exact_reader =
  fixes rd :: "json option \<Rightarrow> catalog_error + 'a"
    and enc :: "'a \<Rightarrow> json"
  assumes read_same: "rd v = Inr x \<Longrightarrow> \<exists>j. v = Some j \<and> same_json j (enc x)"
begin

lemma kept: "rd (map_of fs k) = Inr x \<Longrightarrow> field_same fs k (Some (enc x))"
  using read_same by (fastforce simp: field_same_def)

lemma optional_kept: "ct_optional rd (map_of fs k) = Inr x \<Longrightarrow> field_same fs k (map_option enc x)"
  using read_same by (cases x) (fastforce simp: field_same_def ct_optional_Inr)+

lemma rmap_kept: "rmap (\<lambda>j. rd (Some j)) js = Inr xs \<Longrightarrow> list_all2 same_json js (map enc xs)"
proof (induction js arbitrary: xs)
  case (Cons j js)
  then show ?case using read_same by fastforce
qed simp

lemma items_exact: "exact_reader (ct_items rd) (\<lambda>xs. JArr (map enc xs))"
  by unfold_locales (auto simp: ct_items_def intro: same_json_arr dest: rmap_kept)

lemma list_exact: "exact_reader (ct_list rd key) (\<lambda>xs. JArr (map enc xs))"
  by unfold_locales (auto simp: ct_list_def rmap_unique_Inr intro: same_json_arr dest: rmap_kept)

end

lemma when_exact: "exact_reader (ct_when ok) JStr"
  by unfold_locales (auto simp: ct_when_def split: option.splits json.splits)

lemma table_exact:
  assumes "distinct (map fst table)" "\<And>x s. (s, x) \<in> set table \<longleftrightarrow> s = name x"
  shows "exact_reader (oneOf table) (\<lambda>x. JStr (name x))"
proof -
  have "map_of table s = Some x \<longleftrightarrow> s = name x" for s x using assms by simp
  then show ?thesis by unfold_locales (auto simp: oneOf_def split: option.splits json.splits)
qed

interpretation xtext: exact_reader ct_text JStr
  unfolding ct_text_def by (rule when_exact)

interpretation xmachine: exact_reader machineId JStr
  unfolding machineId_def by (rule when_exact)

interpretation xtest_id: exact_reader "ct_when test_id_ok" JStr
  by (rule when_exact)

interpretation xtexts: exact_reader stringList "\<lambda>xs. JArr (map JStr xs)"
  unfolding stringList_def by (rule xtext.items_exact)

interpretation xflag: exact_reader ct_boolean JBool
  by unfold_locales (auto simp: ct_boolean_def split: option.splits json.splits)

interpretation xvalue: exact_reader "parameterValue t" "\<lambda>j. j" for t
  by unfold_locales (auto simp: parameterValue_def split: option.splits if_splits)

interpretation xvalues: exact_reader "ct_items (parameterValue t)" JArr for t
  using xvalue.items_exact [of t] by simp

interpretation xtype: exact_reader "oneOf parameterTypes" "\<lambda>x. JStr (type_name x)"
proof (rule table_exact)
  show "distinct (map fst parameterTypes)" by code_simp
  show "(s, x) \<in> set parameterTypes \<longleftrightarrow> s = type_name x" for x s by (cases x; simp add: parameterTypes_def)
qed

interpretation xkind: exact_reader "oneOf runtimeKinds" "\<lambda>x. JStr (runtime_name x)"
proof (rule table_exact)
  show "distinct (map fst runtimeKinds)" by code_simp
  show "(s, x) \<in> set runtimeKinds \<longleftrightarrow> s = runtime_name x" for x s by (cases x; simp add: runtimeKinds_def)
qed

interpretation xplatform: exact_reader "oneOf servicePlatforms" "\<lambda>x. JStr (platform_name x)"
proof (rule table_exact)
  show "distinct (map fst servicePlatforms)" by code_simp
  show "(s, x) \<in> set servicePlatforms \<longleftrightarrow> s = platform_name x" for x s by (cases x; simp add: servicePlatforms_def)
qed

interpretation xplatforms: exact_reader "ct_items (oneOf servicePlatforms)" "\<lambda>xs. JArr (map (\<lambda>x. JStr (platform_name x)) xs)"
  by (rule xplatform.items_exact)

interpretation xeffect: exact_reader "oneOf validEffectLevels" "\<lambda>x. JStr (effect_name x)"
proof (rule table_exact)
  show "distinct (map fst validEffectLevels)" by code_simp
  show "(s, x) \<in> set validEffectLevels \<longleftrightarrow> s = effect_name x" for x s by (cases x; simp add: validEffectLevels_def)
qed

text \<open>A reader of a record: its keys are exactly the ones read, and each field keeps its data.\<close>

lemma record_exact:
  assumes "\<And>v x. rd v = Inr x \<Longrightarrow> \<exists>fs. v = Some (JObj fs) \<and> list_all (\<lambda>f. fst f \<in> set ks) fs
      \<and> list_all (\<lambda>k. field_same fs k (map_of (flds x) k)) ks"
    and "\<And>x. list_all (\<lambda>f. fst f \<in> set ks) (flds x)"
  shows "exact_reader rd (\<lambda>x. JObj (flds x))"
proof
  fix v x assume "rd v = Inr x"
  with assms(1) obtain fs where "v = Some (JObj fs)" "list_all (\<lambda>f. fst f \<in> set ks) fs"
    "list_all (\<lambda>k. field_same fs k (map_of (flds x) k)) ks" by blast
  then show "\<exists>j. v = Some j \<and> same_json j (JObj (flds x))" using same_json_obj [OF _ assms(2)] by blast
qed

interpretation xcase: exact_reader read_case case_json
  unfolding case_json_def
  by (rule record_exact [where ks = "[''id'', ''source'']"])
    (auto simp: read_case_def xmachine.kept xtext.optional_kept list_all_opt_field split: option.split)

interpretation xcases: exact_reader validateCaseSpecs "\<lambda>xs. JArr (map case_json xs)"
  unfolding validateCaseSpecs_def by (rule xcase.list_exact)

interpretation xexclusion: exact_reader read_exclusion exclusion_json
  unfolding exclusion_json_def
  by (rule record_exact [where ks = "[''target'', ''reason'']"]) (auto simp: read_exclusion_def xtext.kept)

interpretation xexclusions: exact_reader "ct_list read_exclusion ce_target" "\<lambda>xs. JArr (map exclusion_json xs)"
  by (rule xexclusion.list_exact)

interpretation xcoverage: exact_reader validateCoverage coverage_json
  unfolding coverage_json_def
  by (rule record_exact [where ks = "[''includes'', ''exclusions'']"]) (auto simp: validateCoverage_def xtexts.kept xexclusions.kept)

interpretation xparameter: exact_reader read_parameter parameter_json
  unfolding parameter_json_def
proof (rule record_exact [where ks = "[''type'', ''description'', ''enum'', ''default'']"])
  fix v p assume "read_parameter v = Inr p"
  then obtain fs where v: "v = Some (JObj fs)" and r: "oneOf parameterTypes (map_of fs ''type'') = Inr (pd_type p)"
    "ct_text (map_of fs ''description'') = Inr (pd_description p)"
    "ct_optional (ct_items (parameterValue (pd_type p))) (map_of fs ''enum'') = Inr (pd_enum p)"
    "ct_optional (parameterValue (pd_type p)) (map_of fs ''default'') = Inr (pd_default p)"
    "list_all (\<lambda>f. fst f \<in> set ([''type'', ''description''] @ [''default'', ''enum''])) fs"
    by (auto simp: read_parameter_def)
  have "list_all (\<lambda>f. fst f \<in> set [''type'', ''description'', ''enum'', ''default'']) fs"
    using r(5) by (auto simp: list_all_iff)
  then show "\<exists>fs. v = Some (JObj fs) \<and> list_all (\<lambda>f. fst f \<in> set [''type'', ''description'', ''enum'', ''default'']) fs
      \<and> list_all (\<lambda>k. field_same fs k (map_of ((''type'', JStr (type_name (pd_type p))) # (''description'', JStr (pd_description p))
         # opt_field ''enum'' JArr (pd_enum p) @ opt_field ''default'' (\<lambda>j. j) (pd_default p)) k)) [''type'', ''description'', ''enum'', ''default'']"
    using v xtype.kept [OF r(1)] xtext.kept [OF r(2)] xvalues.optional_kept [OF r(3)] xvalue.optional_kept [OF r(4)]
    by (cases "pd_enum p"; cases "pd_default p") (simp_all add: opt_field_def)
qed (simp add: list_all_opt_field split: option.split)


lemma props_kept:
  assumes "rmap validateParameter props = Inr ps"
  shows "same_json (JObj props) (JObj (map (\<lambda>f. (fst f, parameter_json (snd f))) ps))"
proof -
  have "list_all2 (\<lambda>f g. fst f = fst g \<and> same_data (=) (snd f) (snd g))
      (map (\<lambda>(k, j). (k, json_value j)) props) (map (\<lambda>(k, j). (k, json_value j)) (map (\<lambda>f. (fst f, parameter_json (snd f))) ps))"
    using assms
  proof (induction props arbitrary: ps)
    case (Cons f props)
    obtain k j where f: "f = (k, j)" by (cases f)
    then obtain p qs where p: "read_parameter (Some j) = Inr p" "rmap validateParameter props = Inr qs" "ps = (k, p) # qs"
      using Cons.prems by auto
    have "same_json j (parameter_json p)" using xparameter.read_same [OF p(1)] by simp
    then show ?case using Cons.IH [OF p(2)] by (simp add: f p(3) same_json_def)
  qed simp
  from same_fields [OF this] show ?thesis unfolding same_json_def json_value.simps by (intro same_obj) blast+
qed

interpretation xschema: exact_reader validateParameters schema_json
  unfolding schema_json_def
  by (rule record_exact [where ks = "[''type'', ''properties'', ''required'', ''additionalProperties'']"])
    (auto simp: validateParameters_def xtexts.kept field_same_def [of _ _ "Some (JStr ''object'')"] field_same_def [of _ _ "Some (JBool False)"]
      field_same_def [of _ _ "Some (JObj _)"] simp del: validateParameter.simps dest: props_kept)

interpretation xruntime: exact_reader validateRuntime runtime_json
  unfolding runtime_json_def
  by (rule record_exact [where ks = "[''executorId'', ''kind'']"]) (auto simp: validateRuntime_def xmachine.kept xkind.kept)

interpretation xrequirements: exact_reader validateRequirements requirements_json
  unfolding requirements_json_def
  by (rule record_exact [where ks = "[''platforms'', ''capabilities'', ''environment'']"])
    (auto simp: validateRequirements_def xplatforms.kept xtexts.kept)

interpretation xartifact: exact_reader read_artifact_output artifact_output_json
  unfolding artifact_output_json_def
  by (rule record_exact [where ks = "[''name'', ''mediaType'', ''required'']"])
    (auto simp: read_artifact_output_def xmachine.kept xtext.kept xflag.kept)

interpretation xartifacts: exact_reader "ct_list read_artifact_output ad_name" "\<lambda>xs. JArr (map artifact_output_json xs)"
  by (rule xartifact.list_exact)

interpretation xoutput: exact_reader validateOutput output_json
  unfolding output_json_def
  by (rule record_exact [where ks = "[''resultFormat'', ''artifacts'']"])
    (auto simp: validateOutput_def xartifacts.kept field_same_def [of _ _ "Some (JStr result_format)"])

lemma definition_kept:
  assumes "read_definition (Some (JObj fs)) = Inr d" "list_all (\<lambda>f. fst f \<in> set definition_keys) fs"
  shows "same_json (JObj fs) (JObj (definition_fields d))"
proof (rule same_json_obj [OF assms(2)])
  show "list_all (\<lambda>f. fst f \<in> set definition_keys) (definition_fields d)"
    by (simp add: definition_fields_def definition_keys_def)
  have r: "map_of fs ''schemaVersion'' = Some (JNum 1)"
    "ct_when test_id_ok (map_of fs ''testId'') = Inr (td_testId d)" "ct_text (map_of fs ''title'') = Inr (td_title d)"
    "ct_text (map_of fs ''description'') = Inr (td_description d)"
    "validateCaseSpecs (map_of fs ''caseSpecs'') = Inr (td_caseSpecs d)"
    "validateCoverage (map_of fs ''coverage'') = Inr (td_coverage d)"
    "validateParameters (map_of fs ''parameters'') = Inr (td_parameters d)"
    "validateRuntime (map_of fs ''runtime'') = Inr (td_runtime d)"
    "oneOf validEffectLevels (map_of fs ''effect'') = Inr (td_effect d)"
    "validateRequirements (map_of fs ''requirements'') = Inr (td_requirements d)"
    "validateOutput (map_of fs ''output'') = Inr (td_artifacts d)"
    using assms(1) by (auto simp: read_definition_def)
  show "list_all (\<lambda>k. field_same fs k (map_of (definition_fields d) k)) definition_keys"
    using field_same_def [of fs "''schemaVersion''" "Some (JNum 1)"] r(1) xtest_id.kept [OF r(2)] xtext.kept [OF r(3)] xtext.kept [OF r(4)]
      xcases.kept [OF r(5)] xcoverage.kept [OF r(6)] xschema.kept [OF r(7)] xruntime.kept [OF r(8)] xeffect.kept [OF r(9)]
      xrequirements.kept [OF r(10)] xoutput.kept [OF r(11)]
    by (simp add: definition_keys_def definition_lookup)
qed

text \<open>An accepted value holds exactly the data its definition is written as.\<close>

lemma definition_data:
  assumes "validateTestDefinition v = Inr d"
  shows "same_data (=) v (encode_definition d)"
proof -
  obtain r j where r: "readSafeRecordEnvelope v = Inr r" "list_all (\<lambda>f. fst f \<in> set definition_keys) r"
    and j: "cloneSafeData (obj r) = Inr j" "read_definition (Some j) = Inr d"
    using assms by (auto simp: validateTestDefinition_def)
  obtain fs where fs: "j = JObj fs" using j(2) by (auto simp: read_definition_def)
  have c: "same_data (=) (obj r) (json_value (JObj fs))" using cloneSafeData_same [OF j(1)] fs by simp
  obtain q where q: "json_value (JObj fs) = obj q" "fst ` set r = fst ` set q" using same_data_obj [OF c] by blast
  have "fst ` set r = fst ` set fs" using q keys_json [of fs] by simp
  moreover have "\<forall>k \<in> fst ` set r. k \<in> set definition_keys" using r(2) by (auto simp: list_all_iff)
  ultimately have "\<forall>k \<in> fst ` set fs. k \<in> set definition_keys" by simp
  then have "list_all (\<lambda>f. fst f \<in> set definition_keys) fs" by (simp add: list_all_iff)
  from definition_kept [OF j(2) [unfolded fs] this] have "same_data (=) (json_value (JObj fs)) (encode_definition d)"
    unfolding same_json_def encode_definition_def .
  note last = this
  have "same_data (=) v (json_value (JObj fs))" by (rule same_data_trans [OF _ envelope_same [OF r(1)] c]) (rule HOL.trans)
  then show ?thesis by (rule same_data_trans [OF _ _ last, rotated]) (rule HOL.trans)
qed

section \<open>The values of the parameters\<close>

text \<open>Each declared parameter has the value supplied for it, or its default, or is left out.\<close>

definition takes_values :: "test_definition \<Rightarrow> fields \<Rightarrow> jfields \<Rightarrow> bool" where
  "takes_values d source r = list_all (\<lambda>(k, p). case map_of r k of
       None \<Rightarrow> supplied_value source k p = VUndefined
     | Some j \<Rightarrow> supplied_value source k p = json_value j) (ps_properties (td_parameters d))"

lemma normalizeParameters_values:
  assumes d: "distinct (map fst (ps_properties (td_parameters d)))" and n: "normalizeParameters d v = Inr r"
  shows "\<exists>source. readSafeRecordEnvelope v = Inr source \<and> takes_values d source r"
proof -
  let ?ps = "ps_properties (td_parameters d)" and ?needed = "ps_required (td_parameters d)"
  obtain source where s: "readSafeRecordEnvelope v = Inr source" "normalize_loop ?needed source ?ps [] = Inr r"
    using n by (auto simp: normalizeParameters_def)
  then have acc: "list_all (accepted ?needed source) ?ps" and r: "r = concat (map (contribution source) ?ps)"
    using loop_start [OF d] by blast+
  have "case map_of r k of None \<Rightarrow> supplied_value source k p = VUndefined | Some j \<Rightarrow> supplied_value source k p = json_value j"
    if kp: "(k, p) \<in> set ?ps" for k p
  proof -
    have p: "map_of ?ps k = Some p" using kp d by simp
    have look: "map_of r k = (case normal_value p (supplied_value source k p) of Inl _ \<Rightarrow> None | Inr j \<Rightarrow> Some j)"
      unfolding r by (rule contributions_lookup [OF d p])
    have a: "accepted ?needed source (k, p)" using acc kp unfolding list_all_iff by blast
    show ?thesis
    proof (cases "normal_value p (supplied_value source k p)")
      case (Inl e)
      then show ?thesis using a by (auto simp: look accepted_def Let_def is_ok_iff split: if_splits)
    next
      case (Inr j)
      then show ?thesis using normal_value_Inr [of p "supplied_value source k p" j] by (simp add: look)
    qed
  qed
  then have "takes_values d source r" by (auto simp: takes_values_def list_all_iff)
  with s(1) show ?thesis by blast
qed

end
