(* ===== verification/AgentService.thy ===== *)
theory AgentService
  imports RunServiceProps TestCatalogProps
begin

text \<open>
  The interface of the test service to agents: \<open>packages/service/src/agent-service.ts\<close> and the request
  snapshots of \<open>executors/command/request-snapshot.ts\<close>. A start is a call with two waits, the lookup of its
  request and the reservation of its run; preparations, other starts and the runs themselves go on in between.
  Messages are dropped; metadata of a workspace is not part of the model.
\<close>

section \<open>Configuration and state\<close>

text \<open>What a start hands to the run service.\<close>

record execution =
  ex_workspace :: workspace_snapshot
  ex_definition :: test_definition
  ex_parameters :: jfields
  ex_taskId :: "string option"
  ex_links :: "json option"

text \<open>
  The configuration, with what the platform answers: the length of a serialized store, its limit, \<open>Date.parse\<close>,
  \<open>path.isAbsolute\<close>, and the SHA-256 fingerprint of an execution.
\<close>

record agent_config =
  ac_textBytes :: "json list \<Rightarrow> nat"
  ac_maxBytes :: nat
  ac_parsesDate :: "string \<Rightarrow> bool"
  ac_absolute :: "string \<Rightarrow> bool"
  ac_fingerprint :: "execution \<Rightarrow> string"
  ac_executorId :: string
  ac_platform :: service_platform
  ac_providerId :: string
  ac_sources :: "(string \<times> string) list"   \<comment> \<open>public keys with the locators of their sources\<close>

datatype agent_error = AgCatalog catalog_error | AgStore store_error | AgRejected

record start_request =
  sq_requestId :: string
  sq_snapshotId :: string
  sq_testId :: string
  sq_parameters :: jsv
  sq_taskId :: "string option"
  sq_acknowledged :: "side_effect option"

text \<open>A start under way: before the lookup, and before the reservation (\<open>None\<close>: the request was rejected).\<close>

datatype start_call =
    AwaitLookup start_request test_definition jfields "string option"
  | AwaitReserve "reservation option" workspace_snapshot string bool

record agent =
  ag_service :: service
  ag_catalog :: catalog
  ag_snapshots :: "(string \<times> workspace_snapshot) list"
  ag_owners :: "(string \<times> string) list"
  ag_preparations :: "string list"
  ag_starts :: "(nat \<times> start_call) list"

datatype agent_output =
    StartRefused nat agent_error
  | StartAnswered nat string bool
  | Submitted nat start_request execution
  | PrepareAnswered string
  | PrepareRefused agent_error

section \<open>Requests\<close>

definition agent_text :: "nat \<Rightarrow> jsv \<Rightarrow> catalog_error + string" where
  "agent_text maximum v = (case v of
     VStr s \<Rightarrow> if s = [] \<or> list_ex (\<lambda>c. code c = 0) s \<or> maximum < utf8_length s then bad_type else Inr s
   | _ \<Rightarrow> bad_type)"

definition acknowledged_effect :: "jsv \<Rightarrow> catalog_error + side_effect option" where
  "acknowledged_effect v = (case v of
     VUndefined \<Rightarrow> Inr None
   | VStr s \<Rightarrow> (case map_of validEffectLevels s of None \<Rightarrow> bad_type | Some x \<Rightarrow> Inr (Some x))
   | _ \<Rightarrow> bad_type)"

definition optional_text :: "nat \<Rightarrow> jsv \<Rightarrow> catalog_error + string option" where
  "optional_text maximum v = (if v = VUndefined then Inr None else rbind (agent_text maximum v) (\<lambda>s. Inr (Some s)))"

text \<open>\<open>request.parameters ?? {}\<close>\<close>

definition given_parameters :: "jsv \<Rightarrow> jsv" where
  "given_parameters v = (if v = VUndefined \<or> v = VNull then obj [] else v)"

definition snapshotStartRequest :: "jsv \<Rightarrow> catalog_error + start_request" where
  "snapshotStartRequest v =
     rbind (as_safe (readSafeRecordEnvelope v)) (\<lambda>r.
     rbind (exact_fields [''requestId'', ''snapshotId'', ''testId''] [''parameters'', ''taskId'', ''acknowledgedEffect''] r) (\<lambda>_.
     rbind (acknowledged_effect (fld r ''acknowledgedEffect'')) (\<lambda>a.
     rbind (agent_text 256 (fld r ''requestId'')) (\<lambda>q.
     rbind (agent_text 128 (fld r ''snapshotId'')) (\<lambda>s.
     rbind (agent_text 256 (fld r ''testId'')) (\<lambda>t.
     rbind (optional_text 128 (fld r ''taskId'')) (\<lambda>k.
     Inr \<lparr>sq_requestId = q, sq_snapshotId = s, sq_testId = t, sq_parameters = given_parameters (fld r ''parameters''),
       sq_taskId = k, sq_acknowledged = a\<rparr>)))))))"

definition parse_task :: "string option \<Rightarrow> catalog_error + string option" where
  "parse_task t = (case t of None \<Rightarrow> Inr None | Some s \<Rightarrow> if task_id_ok s then Inr (Some s) else bad_type)"

text \<open>\<open>isDeepStrictEqual\<close> on the parameters of two requests: the same properties, in any order.\<close>

definition same_parameters :: "jfields \<Rightarrow> jfields \<Rightarrow> bool" where
  "same_parameters a b = (length a = length b \<and> list_all (\<lambda>(k, j). map_of b k = Some j) a)"

definition assertSameIntent :: "stored_run \<Rightarrow> string \<Rightarrow> string \<Rightarrow> jfields \<Rightarrow> string option \<Rightarrow> bool" where
  "assertSameIntent r sid tid ps task =
     (fst (sr_snapshot r) = sid \<and> sr_testId r = tid \<and> same_parameters (sr_parameters r) ps \<and> sr_taskId r = task)"

text \<open>\<open>snapshotExecuteRequest\<close> on a request built by \<open>start\<close>.\<close>

definition execute_text_ok :: "string \<Rightarrow> bool" where
  "execute_text_ok s = (s \<noteq> [] \<and> list_all (\<lambda>c. code c \<noteq> 0) s)"

definition snapshotWorkspace :: "(string \<Rightarrow> bool) \<Rightarrow> workspace_snapshot \<Rightarrow> bool" where
  "snapshotWorkspace absolute w = (execute_text_ok (wk_rootPath w) \<and> absolute (wk_rootPath w)
     \<and> operation_id_ok (wk_operationId w) \<and> execute_text_ok (wk_snapshotId w) \<and> execute_text_ok (wk_resolvedRevision w))"

definition snapshotExecuteRequest :: "(string \<Rightarrow> bool) \<Rightarrow> string \<Rightarrow> execution \<Rightarrow> bool" where
  "snapshotExecuteRequest absolute rid x =
     (run_id_ok rid \<and> test_id_ok (td_testId (ex_definition x))
      \<and> is_ok (validateTestDefinition (encode_definition (ex_definition x)))
      \<and> snapshotWorkspace absolute (ex_workspace x)
      \<and> is_ok (cloneSafeData (json_value (JObj (ex_parameters x))))
      \<and> (case ex_taskId x of None \<Rightarrow> True | Some t \<Rightarrow> task_id_ok t)
      \<and> (case ex_links x of None \<Rightarrow> True | Some l \<Rightarrow> is_ok (cloneSafeData (json_value l))))"

definition execution_reservation :: "agent_config \<Rightarrow> string \<Rightarrow> string \<Rightarrow> string \<Rightarrow> execution \<Rightarrow> reservation" where
  "execution_reservation cf requestId rid time x =
     \<lparr>rv_requestId = requestId, rv_fingerprint = ac_fingerprint cf x, rv_runId = rid,
      rv_snapshot = json_value (pair_json (wk_snapshotId (ex_workspace x), wk_resolvedRevision (ex_workspace x))),
      rv_testId = td_testId (ex_definition x), rv_parameters = json_value (JObj (ex_parameters x)),
      rv_taskId = ex_taskId x, rv_links = map_option json_value (ex_links x), rv_createdAt = time\<rparr>"

text \<open>The links of a run of a SurfaceLoom test: its one case.\<close>

definition execution_links :: "test_definition \<Rightarrow> json option" where
  "execution_links d = (case (rn_kind (td_runtime d), td_caseSpecs d) of
     (SurfaceLoomRuntime, c # _) \<Rightarrow> Some (JObj [(''caseSpecs'', JArr [JObj [(''namespace'', JStr ''case-spec''),
         (''caseSpecId'', JStr (cf_id c))]]), (''agentRuns'', JArr []), (''nativeOperations'', JArr [])])
   | _ \<Rightarrow> None)"

section \<open>Starts\<close>

definition sensitive_effect :: "side_effect \<Rightarrow> bool" where
  "sensitive_effect e = (e \<in> {ExternalEffect, SecuritySensitive})"

text \<open>The checks between the lookup and the submission, in the order of the code.\<close>

definition start_checks :: "agent_config \<Rightarrow> agent \<Rightarrow> start_request \<Rightarrow> test_definition \<Rightarrow> catalog_error + workspace_snapshot" where
  "start_checks cf ag rq d =
     rbind (agent_text 128 (VStr (sq_snapshotId rq))) (\<lambda>sid.
     case map_of (ag_snapshots ag) sid of
       None \<Rightarrow> bad_type
     | Some w \<Rightarrow>
         if rn_executorId (td_runtime d) \<noteq> ac_executorId cf then bad_type
         else if rn_kind (td_runtime d) = SurfaceLoomRuntime \<and> length (td_caseSpecs d) \<noteq> 1 then bad_type
         else if ac_platform cf \<notin> set (tq_platforms (td_requirements d)) then bad_type
         else if sensitive_effect (td_effect d) \<and> sq_acknowledged rq \<noteq> Some (td_effect d) then bad_type
         else (case map_of (ag_owners ag) sid of
             Some owner \<Rightarrow> if owner \<noteq> sq_requestId rq then bad_type else Inr w
           | None \<Rightarrow> Inr w))"

definition set_start :: "nat \<Rightarrow> start_call \<Rightarrow> agent \<Rightarrow> agent" where
  "set_start n c ag = ag\<lparr>ag_starts := map_set n c (ag_starts ag)\<rparr>"

definition end_start :: "nat \<Rightarrow> agent \<Rightarrow> agent" where
  "end_start n ag = ag\<lparr>ag_starts := map_delete n (ag_starts ag)\<rparr>"

definition start_called :: "nat \<Rightarrow> jsv \<Rightarrow> agent \<Rightarrow> agent \<times> agent_output list" where
  "start_called n v ag =
     (if map_has (ag_starts ag) n then (ag, []) else
      case rbind (snapshotStartRequest v) (\<lambda>rq. rbind (catalog_require (sq_testId rq) (ag_catalog ag)) (\<lambda>d.
          rbind (normalizeParameters d (sq_parameters rq)) (\<lambda>ps. rbind (parse_task (sq_taskId rq)) (\<lambda>t. Inr (rq, d, ps, t))))) of
        Inl e \<Rightarrow> (ag, [StartRefused n (AgCatalog e)])
      | Inr (rq, d, ps, t) \<Rightarrow> (set_start n (AwaitLookup rq d ps t) ag, []))"

definition submit_start :: "agent_config \<Rightarrow> string \<Rightarrow> string \<Rightarrow> nat \<Rightarrow> start_request \<Rightarrow> execution \<Rightarrow> agent \<Rightarrow> agent \<times> agent_output list" where
  "submit_start cf rid time n rq x ag =
     (let sid = sq_snapshotId rq;
          i = (if snapshotExecuteRequest (ac_absolute cf) rid x then Some (execution_reservation cf (sq_requestId rq) rid time x) else None);
          ag1 = ag\<lparr>ag_owners := map_set sid (sq_requestId rq) (ag_owners ag)\<rparr> in
      (set_start n (AwaitReserve i (ex_workspace x) sid (map_of (ag_owners ag) sid = None)) ag1, [Submitted n rq x]))"

definition start_looked_up :: "agent_config \<Rightarrow> string \<Rightarrow> string \<Rightarrow> nat \<Rightarrow> start_request \<Rightarrow> test_definition \<Rightarrow> jfields
    \<Rightarrow> string option \<Rightarrow> agent \<Rightarrow> agent \<times> agent_output list" where
  "start_looked_up cf rid time n rq d ps task ag =
     (case get_by_request (sq_requestId rq) (sv_store (ag_service ag)) of
        Inl e \<Rightarrow> (end_start n ag, [StartRefused n (AgStore e)])
      | Inr (Some r) \<Rightarrow>
          if assertSameIntent r (sq_snapshotId rq) (td_testId d) ps task
          then (end_start n ag, [StartAnswered n (sr_runId r) True])
          else (end_start n ag, [StartRefused n (AgCatalog CatType)])
      | Inr None \<Rightarrow> (case start_checks cf ag rq d of
          Inl e \<Rightarrow> (end_start n ag, [StartRefused n (AgCatalog e)])
        | Inr w \<Rightarrow> submit_start cf rid time n rq \<lparr>ex_workspace = w, ex_definition = d, ex_parameters = ps, ex_taskId = task,
            ex_links = execution_links d\<rparr> ag))"

text \<open>The reservation settles; a failure gives the snapshot up when this call was the one that claimed it.\<close>

definition forget_owner :: "string \<Rightarrow> bool \<Rightarrow> agent \<Rightarrow> agent" where
  "forget_owner sid claimed ag = (if claimed then ag\<lparr>ag_owners := map_delete sid (ag_owners ag)\<rparr> else ag)"

definition start_reserved :: "agent_config \<Rightarrow> answers \<Rightarrow> nat \<Rightarrow> reservation option \<Rightarrow> workspace_snapshot \<Rightarrow> string \<Rightarrow> bool
    \<Rightarrow> agent \<Rightarrow> agent \<times> agent_output list" where
  "start_reserved cf an n i w sid claimed ag = (case i of
     None \<Rightarrow> (end_start n (forget_owner sid claimed ag), [StartRefused n AgRejected])
   | Some i \<Rightarrow> (let (sv, os) = start_run (ac_textBytes cf) (ac_maxBytes cf) True an i w sid (ag_service ag);
         ag1 = ag\<lparr>ag_service := sv\<rparr> in
       case os of
         [StartReply rid reused] \<Rightarrow> (end_start n ag1, [StartAnswered n rid reused])
       | _ \<Rightarrow> (end_start n (forget_owner sid claimed ag1), [StartRefused n AgRejected])))"

section \<open>Preparations\<close>

definition prepare_value :: "agent_config \<Rightarrow> string \<Rightarrow> string \<Rightarrow> string \<Rightarrow> jsv" where
  "prepare_value cf oid locator revision = obj [(''operationId'', VStr oid),
     (''source'', obj [(''provider'', VStr (ac_providerId cf)), (''locator'', VStr locator)]), (''revision'', VStr revision)]"

definition learn_snapshots :: "ws_output list \<Rightarrow> agent \<Rightarrow> agent" where
  "learn_snapshots os ag = foldl (\<lambda>ag out. case out of
     Prepared w \<Rightarrow> ag\<lparr>ag_snapshots := map_set (wk_snapshotId w) w (ag_snapshots ag)\<rparr> | _ \<Rightarrow> ag) ag os"

definition workspace_event :: "agent_config \<Rightarrow> ws_event \<Rightarrow> agent \<Rightarrow> agent \<times> ws_output list" where
  "workspace_event cf e ag = (let (p, os) = ws_step (ac_parsesDate cf) (sv_provider (ag_service ag)) e in
     (learn_snapshots os (ag\<lparr>ag_service := (ag_service ag)\<lparr>sv_provider := p\<rparr>\<rparr>), os))"

definition agent_prepare :: "agent_config \<Rightarrow> string \<Rightarrow> string \<Rightarrow> jsv \<Rightarrow> jsv \<Rightarrow> clock \<Rightarrow> clock \<Rightarrow> agent \<Rightarrow> agent \<times> agent_output list" where
  "agent_prepare cf uuid suuid key revision now later ag =
     (case rbind (agent_text 128 key) (\<lambda>k. case map_of (ac_sources cf) k of
          None \<Rightarrow> bad_type | Some l \<Rightarrow> rbind (agent_text 256 revision) (\<lambda>r. Inr (l, r))) of
        Inl e \<Rightarrow> (ag, [PrepareRefused (AgCatalog e)])
      | Inr (l, r) \<Rightarrow> (let oid = ''operation:'' @ uuid;
            (ag1, os) = workspace_event cf (PrepareCall (prepare_value cf oid l r) suuid now later) ag;
            waiting = list_ex (\<lambda>out. case out of PrepareStarted _ _ \<Rightarrow> True | _ \<Rightarrow> False) os in
          (if waiting then ag1\<lparr>ag_preparations := set_add oid (ag_preparations ag1)\<rparr> else ag1, [PrepareAnswered oid])))"

text \<open>An event of the provider; the end of a preparation is the end of its promise.\<close>

definition provider_event :: "agent_config \<Rightarrow> ws_event \<Rightarrow> agent \<Rightarrow> agent" where
  "provider_event cf e ag = (let ag1 = fst (workspace_event cf e ag) in
     case e of PrepareDone k out aborted now later \<Rightarrow> ag1\<lparr>ag_preparations := filter (\<lambda>i. i \<noteq> k) (ag_preparations ag1)\<rparr> | _ \<Rightarrow> ag1)"

text \<open>\<open>snapshotSources\<close>: the configured sources by their public keys.\<close>

definition read_source :: "string \<Rightarrow> jsv \<Rightarrow> catalog_error + string" where
  "read_source provider_id v =
     rbind (as_safe (readSafeRecordEnvelope v)) (\<lambda>r.
     rbind (exact_fields [''provider'', ''locator''] [] r) (\<lambda>_.
     if fld r ''provider'' \<noteq> VStr provider_id then bad_type else
     rbind (agent_text 128 (fld r ''provider'')) (\<lambda>_. agent_text 1024 (fld r ''locator''))))"

fun sources_loop :: "string \<Rightarrow> fields \<Rightarrow> (string \<times> string) list \<Rightarrow> catalog_error + (string \<times> string) list" where
  "sources_loop provider_id [] m = Inr m"
| "sources_loop provider_id ((k, v) # r) m =
     rbind (agent_text 128 (VStr k)) (\<lambda>key.
     if map_has m key then bad_type else
     rbind (read_source provider_id v) (\<lambda>l. sources_loop provider_id r (map_set key l m)))"

definition snapshotSources :: "jsv \<Rightarrow> string \<Rightarrow> catalog_error + (string \<times> string) list" where
  "snapshotSources v provider_id = rbind (as_safe (readSafeRecordEnvelope v)) (\<lambda>r. sources_loop provider_id r [])"

section \<open>Reading and cancelling\<close>

definition agent_operation :: "string \<Rightarrow> agent \<Rightarrow> catalog_error + operation_record option" where
  "agent_operation k ag = (if operation_id_ok k then Inr (map_of (pv_operations (sv_provider (ag_service ag))) k) else bad_type)"

definition agent_run :: "string \<Rightarrow> agent \<Rightarrow> agent_error + stored_run option" where
  "agent_run k ag = (if \<not> run_id_ok k then Inl (AgCatalog CatType)
     else case get_run k (sv_store (ag_service ag)) of Inl e \<Rightarrow> Inl (AgStore e) | Inr r \<Rightarrow> Inr r)"

text \<open>An event of the run service, and a cancellation through the interface.\<close>

definition service_event :: "agent_config \<Rightarrow> answers \<Rightarrow> sv_event \<Rightarrow> agent \<Rightarrow> agent" where
  "service_event cf an e ag =
     ag\<lparr>ag_service := fst (service_step (ac_textBytes cf) (ac_maxBytes cf) (ac_parsesDate cf) True (ag_service ag) (an, e))\<rparr>"

definition agent_cancel :: "agent_config \<Rightarrow> answers \<Rightarrow> string \<Rightarrow> jsv \<Rightarrow> agent \<Rightarrow> agent" where
  "agent_cancel cf an k reason ag =
     (if run_id_ok k \<and> is_ok (agent_text 500 reason) then service_event cf an (SvCancel k) ag else ag)"

section \<open>Artifacts\<close>

definition maxArtifactChunkBytes :: int where "maxArtifactChunkBytes = 262144"

text \<open>A chunk of a stored artifact, and the offset of the next one.\<close>

definition agent_artifact :: "'a list \<Rightarrow> jsnum \<Rightarrow> jsnum \<Rightarrow> catalog_error + 'a list \<times> int option" where
  "agent_artifact data offset limit = (case (offset, limit) of
     (Fin o', Fin l) \<Rightarrow>
       if \<not> is_safe_integer offset \<or> o' < 0 then bad_type
       else if \<not> is_safe_integer limit \<or> l \<le> 0 \<or> l > of_int maxArtifactChunkBytes then bad_type
       else let start = floor o'; stop = min (start + floor l) (int (length data)) in
         if start > int (length data) then bad_type
         else Inr (take (nat (stop - start)) (drop (nat start) data), if stop < int (length data) then Some stop else None)
   | _ \<Rightarrow> bad_type)"

section \<open>The interface as a machine\<close>

datatype agent_event =
    AgPrepare string string jsv jsv clock clock
  | AgStart nat jsv
  | AgResume nat string answers
  | AgCancel answers string jsv
  | AgService answers sv_event

fun agent_step :: "agent_config \<Rightarrow> agent \<Rightarrow> agent_event \<Rightarrow> agent \<times> agent_output list" where
  "agent_step cf ag (AgPrepare uuid suuid key revision now later) = agent_prepare cf uuid suuid key revision now later ag"
| "agent_step cf ag (AgStart n v) = start_called n v ag"
| "agent_step cf ag (AgResume n rid an) = (case map_of (ag_starts ag) n of
     None \<Rightarrow> (ag, [])
   | Some (AwaitLookup rq d ps task) \<Rightarrow> start_looked_up cf rid (an_time an) n rq d ps task ag
   | Some (AwaitReserve i w sid claimed) \<Rightarrow> start_reserved cf an n i w sid claimed ag)"
| "agent_step cf ag (AgCancel an k reason) = (agent_cancel cf an k reason ag, [])"
| "agent_step cf ag (AgService an e) = ((case e of
     SvStart i w sid \<Rightarrow> ag
   | SvWorkspace x \<Rightarrow> provider_event cf x ag
   | SvRestart \<Rightarrow> (service_event cf an SvRestart ag)\<lparr>ag_snapshots := [], ag_owners := [], ag_preparations := [], ag_starts := []\<rparr>
   | _ \<Rightarrow> service_event cf an e ag), [])"

definition new_agent :: "catalog \<Rightarrow> agent" where
  "new_agent c = \<lparr>ag_service = fresh_service, ag_catalog = c, ag_snapshots = [], ag_owners = [], ag_preparations = [], ag_starts = []\<rparr>"

end
