(* ===== verification/AgentServiceProps.thy ===== *)
theory AgentServiceProps
  imports AgentService
begin

text \<open>
  What the interface promises: every execution it submits passed the checks of its test; and a stored
  artifact is read completely by following the offsets it returns.
\<close>

section \<open>What is submitted\<close>

definition parameters_ok :: "test_definition \<Rightarrow> jfields \<Rightarrow> bool" where
  "parameters_ok d ps = (if distinct (map fst (ps_properties (td_parameters d))) then normalized d ps else True)"

definition start_allowed :: "agent_config \<Rightarrow> catalog \<Rightarrow> start_request \<Rightarrow> execution \<Rightarrow> bool" where
  "start_allowed cf c rq x = (map_of c (sq_testId rq) = Some (ex_definition x) \<and> parameters_ok (ex_definition x) (ex_parameters x)
     \<and> rn_executorId (td_runtime (ex_definition x)) = ac_executorId cf
     \<and> ac_platform cf \<in> set (tq_platforms (td_requirements (ex_definition x)))
     \<and> (if sensitive_effect (td_effect (ex_definition x)) then sq_acknowledged rq = Some (td_effect (ex_definition x)) else True)
     \<and> wk_snapshotId (ex_workspace x) = sq_snapshotId rq)"

definition output_allowed :: "agent_config \<Rightarrow> catalog \<Rightarrow> agent_output \<Rightarrow> bool" where
  "output_allowed cf c out = (case out of Submitted n rq x \<Rightarrow> start_allowed cf c rq x | _ \<Rightarrow> True)"

definition call_ok :: "catalog \<Rightarrow> start_call \<Rightarrow> bool" where
  "call_ok c x = (case x of AwaitLookup rq d ps t \<Rightarrow> map_of c (sq_testId rq) = Some d \<and> parameters_ok d ps | _ \<Rightarrow> True)"

definition agent_ok :: "catalog \<Rightarrow> agent \<Rightarrow> bool" where
  "agent_ok c ag = (ag_catalog ag = c \<and> catalog_ok c
     \<and> (\<forall>n x. map_of (ag_starts ag) n = Some x \<longrightarrow> call_ok c x)
     \<and> (\<forall>k w. map_of (ag_snapshots ag) k = Some w \<longrightarrow> wk_snapshotId w = k))"

lemma agent_ok_service [simp]: "agent_ok c (ag\<lparr>ag_service := sv\<rparr>) \<longleftrightarrow> agent_ok c ag"
  "agent_ok c (ag\<lparr>ag_owners := m\<rparr>) \<longleftrightarrow> agent_ok c ag" "agent_ok c (ag\<lparr>ag_preparations := ps\<rparr>) \<longleftrightarrow> agent_ok c ag"
  by (simp_all add: agent_ok_def)

lemma agent_ok_end [simp]: "agent_ok c ag \<Longrightarrow> agent_ok c (end_start n ag)"
  by (auto simp: agent_ok_def end_start_def map_of_map_delete split: if_splits)

lemma agent_ok_set: "agent_ok c ag \<Longrightarrow> call_ok c x \<Longrightarrow> agent_ok c (set_start n x ag)"
  by (auto simp: agent_ok_def set_start_def map_of_map_set split: if_splits)

lemma agent_ok_forget [simp]: "agent_ok c ag \<Longrightarrow> agent_ok c (forget_owner sid b ag)"
  by (simp add: forget_owner_def)

lemma agent_ok_learn [simp]: "agent_ok c ag \<Longrightarrow> agent_ok c (learn_snapshots os ag)"
  unfolding learn_snapshots_def
proof (induction os arbitrary: ag)
  case (Cons x os)
  have "agent_ok c (case x of Prepared w \<Rightarrow> ag\<lparr>ag_snapshots := map_set (wk_snapshotId w) w (ag_snapshots ag)\<rparr> | _ \<Rightarrow> ag)"
    using Cons.prems by (cases x) (auto simp: agent_ok_def map_of_map_set)
  from Cons.IH [OF this] show ?case by simp
qed simp

lemma agent_ok_provider [simp]: "agent_ok c ag \<Longrightarrow> agent_ok c (fst (workspace_event cf e ag))"
  by (simp add: workspace_event_def split_beta)

lemma agent_ok_service_event [simp]: "agent_ok c (service_event cf an e ag) \<longleftrightarrow> agent_ok c ag"
  by (simp add: service_event_def)

definition agent_step_ok :: "agent_config \<Rightarrow> catalog \<Rightarrow> agent \<times> agent_output list \<Rightarrow> bool" where
  "agent_step_ok cf c r = (agent_ok c (fst r) \<and> list_all (output_allowed cf c) (snd r))"

lemma output_allowed_simps [simp]: "output_allowed cf c (StartRefused n e)" "output_allowed cf c (StartAnswered n k b)"
  "output_allowed cf c (PrepareAnswered k)" "output_allowed cf c (PrepareRefused e)"
  "output_allowed cf c (Submitted n rq x) \<longleftrightarrow> start_allowed cf c rq x"
  by (simp_all add: output_allowed_def)

lemma catalog_require_Inr: "catalog_require k c = Inr d \<longleftrightarrow> test_id_ok k \<and> map_of c k = Some d"
  by (auto simp: catalog_require_def parse_test_id_def split: option.splits if_splits)

lemma called_ok:
  assumes "agent_ok c ag"
  shows "agent_step_ok cf c (start_called n v ag)"
proof -
  have call: "call_ok c (AwaitLookup rq d ps t)"
    if "catalog_require (sq_testId rq) (ag_catalog ag) = Inr d" "normalizeParameters d (sq_parameters rq) = Inr ps" for rq d ps t
  proof -
    have d: "map_of c (sq_testId rq) = Some d" "wf_definition d"
      using that(1) assms map_of_SomeD [of c "sq_testId rq" d]
      by (auto simp: catalog_require_Inr agent_ok_def catalog_ok_def list_all_iff)
    then have "schema_ok (td_parameters d)" by (simp add: wf_definition_def definition_ok_def)
    then show ?thesis using normalizeParameters_ok [OF _ _ that(2)] d by (simp add: call_ok_def parameters_ok_def)
  qed
  show ?thesis using assms agent_ok_set call by (fastforce simp: start_called_def agent_step_ok_def split: sum.split)
qed

lemma start_checks_Inr: "start_checks cf ag rq d = Inr w \<Longrightarrow> map_of (ag_snapshots ag) (sq_snapshotId rq) = Some w
    \<and> rn_executorId (td_runtime d) = ac_executorId cf \<and> ac_platform cf \<in> set (tq_platforms (td_requirements d))
    \<and> (sensitive_effect (td_effect d) \<longrightarrow> sq_acknowledged rq = Some (td_effect d))
    \<and> (map_of (ag_owners ag) (sq_snapshotId rq) = None \<or> map_of (ag_owners ag) (sq_snapshotId rq) = Some (sq_requestId rq))"
  by (auto simp: start_checks_def agent_text_def split: option.splits if_splits)

lemma looked_up_ok:
  assumes "agent_ok c ag" "call_ok c (AwaitLookup rq d ps task)"
  shows "agent_step_ok cf c (start_looked_up cf rid time n rq d ps task ag)"
proof -
  have "agent_step_ok cf c (submit_start cf rid time n rq \<lparr>ex_workspace = w, ex_definition = d, ex_parameters = ps,
      ex_taskId = task, ex_links = execution_links d\<rparr> ag)" if w: "start_checks cf ag rq d = Inr w" for w
  proof -
    have "start_allowed cf c rq \<lparr>ex_workspace = w, ex_definition = d, ex_parameters = ps, ex_taskId = task, ex_links = execution_links d\<rparr>"
      using start_checks_Inr [OF w] assms by (auto simp: start_allowed_def call_ok_def agent_ok_def)
    moreover have "call_ok c (AwaitReserve i w' sid b)" for i w' sid b by (simp add: call_ok_def)
    ultimately show ?thesis using assms(1) by (simp add: submit_start_def agent_step_ok_def Let_def agent_ok_set)
  qed
  then show ?thesis using assms(1)
    by (simp add: start_looked_up_def agent_step_ok_def split: sum.split option.split)
qed

lemma reserved_ok: "agent_ok c ag \<Longrightarrow> agent_step_ok cf c (start_reserved cf an n i w sid claimed ag)"
  by (auto simp: start_reserved_def agent_step_ok_def split_beta Let_def split: option.split list.split sv_reply.split)

lemma prepare_ok: "agent_ok c ag \<Longrightarrow> agent_step_ok cf c (agent_prepare cf uuid suuid key revision now later ag)"
  by (auto simp: agent_prepare_def agent_step_ok_def split_beta Let_def split: sum.split)

lemma agent_step_all_ok: "agent_ok c ag \<Longrightarrow> agent_step_ok cf c (agent_step cf ag e)"
proof (cases e)
  case (AgResume n rid an)
  assume ok: "agent_ok c ag"
  then have "call_ok c x" if "map_of (ag_starts ag) n = Some x" for x using that by (auto simp: agent_ok_def)
  then show ?thesis using ok looked_up_ok reserved_ok
    by (auto simp: AgResume agent_step_ok_def [of _ _ "(_, [])"] split: option.split start_call.split)
next
  case (AgService an x)
  assume "agent_ok c ag"
  then show ?thesis
    by (auto simp: AgService agent_step_ok_def provider_event_def Let_def split: sv_event.split ws_event.split)
      (auto simp: agent_ok_def service_event_def)
next
  case (AgCancel an k reason)
  assume "agent_ok c ag"
  then show ?thesis by (simp add: AgCancel agent_cancel_def agent_step_ok_def)
qed (simp_all add: prepare_ok called_ok)

interpretation agent_machine: step_machine "agent_step cf" "agent_ok c" for cf c
  by unfold_locales (use agent_step_all_ok in \<open>simp add: agent_step_ok_def\<close>)

lemma run_allowed: "agent_ok c ag \<Longrightarrow> list_all (output_allowed cf c) (snd (run_steps (agent_step cf) ag es))"
proof (induction es arbitrary: ag)
  case (Cons e es)
  from agent_step_all_ok [OF Cons.prems, of cf e] Cons.IH show ?case
    by (simp add: agent_step_ok_def Let_def split_beta)
qed simp

lemma new_agent_ok: "catalog_ok c \<Longrightarrow> agent_ok c (new_agent c)"
  by (simp add: agent_ok_def new_agent_def)

section \<open>A claim that is lost\<close>

text \<open>
  The claim of a snapshot is given up by the call that made it, whatever other calls of the same request
  still wait: the check of the owner then lets another request through.
\<close>

lemma write_refused: "\<exists>e. persist tb mx False s = Inl e"
  by (simp add: persist_def writeRunStoreFile_def)

lemma reserve_unwritten: "\<exists>e. snd (store_step tb mx s (False, OpReserve i)) = [StoreRefused e]"
proof -
  obtain r s' where r: "reserve_run i s = (r, s')" by fastforce
  obtain e where "persist tb mx False s' = Inl e" using write_refused by blast
  then show ?thesis by (cases r) (simp_all add: r mutate_def reply_def)
qed

lemma start_unwritten: "\<not> an_io an \<Longrightarrow> snd (start_run tb mx lc an i w sid sv) = [CallFailed]"
  using reserve_unwritten [of tb mx "sv_store sv" i] by (auto simp: start_run_def Let_def split_beta)

lemma reserved_unwritten:
  assumes "\<not> an_io an"
  shows "ag_owners (fst (start_reserved cf an n i w sid claimed ag)) = (if claimed then map_delete sid (ag_owners ag) else ag_owners ag)"
    and "ag_starts (fst (start_reserved cf an n i w sid claimed ag)) = map_delete n (ag_starts ag)"
  using start_unwritten [OF assms] by (auto simp: start_reserved_def forget_owner_def end_start_def split_beta Let_def split: option.split)

lemma claim_lost:
  assumes "map_of (ag_owners ag) (sq_snapshotId rq) = None" "n \<noteq> m" "\<not> an_io an"
    and ag1: "ag1 = fst (submit_start cf rid1 t1 n rq x ag)" and ag2: "ag2 = fst (submit_start cf rid2 t2 m rq y ag1)"
    and ag3: "ag3 = fst (agent_step cf ag2 (AgResume n rid3 an))"
  shows "map_of (ag_owners ag2) (sq_snapshotId rq) = Some (sq_requestId rq)" "map_of (ag_owners ag3) (sq_snapshotId rq) = None"
    and "\<exists>i. map_of (ag_starts ag3) m = Some (AwaitReserve i (ex_workspace y) (sq_snapshotId rq) False)"
proof -
  have a1: "map_of (ag_owners ag1) (sq_snapshotId rq) = Some (sq_requestId rq)"
    "\<exists>i. map_of (ag_starts ag1) n = Some (AwaitReserve i (ex_workspace x) (sq_snapshotId rq) True)"
    using assms(1) by (simp_all add: ag1 submit_start_def set_start_def Let_def map_of_map_set)
  have a2: "map_of (ag_starts ag2) n = map_of (ag_starts ag1) n"
    "\<exists>i. map_of (ag_starts ag2) m = Some (AwaitReserve i (ex_workspace y) (sq_snapshotId rq) False)"
    using assms(2) a1(1) by (simp_all add: ag2 submit_start_def set_start_def Let_def map_of_map_set)
  show "map_of (ag_owners ag2) (sq_snapshotId rq) = Some (sq_requestId rq)"
    by (simp add: ag2 submit_start_def set_start_def Let_def map_of_map_set)
  obtain i where "map_of (ag_starts ag2) n = Some (AwaitReserve i (ex_workspace x) (sq_snapshotId rq) True)"
    using a1(2) a2(1) by auto
  then have s3: "ag3 = fst (start_reserved cf an n i (ex_workspace x) (sq_snapshotId rq) True ag2)" by (simp add: ag3)
  show "map_of (ag_owners ag3) (sq_snapshotId rq) = None" by (simp add: s3 reserved_unwritten [OF assms(3)] map_of_map_delete)
  show "\<exists>i. map_of (ag_starts ag3) m = Some (AwaitReserve i (ex_workspace y) (sq_snapshotId rq) False)"
    using a2(2) assms(2) by (simp add: s3 reserved_unwritten [OF assms(3)] map_of_map_delete)
qed

section \<open>Artifacts in chunks\<close>

text \<open>A reader that follows the offsets.\<close>

fun read_chunks :: "nat \<Rightarrow> 'a list \<Rightarrow> int \<Rightarrow> int \<Rightarrow> 'a list option" where
  "read_chunks 0 data limit offset = None"
| "read_chunks (Suc n) data limit offset = (case agent_artifact data (Fin (of_int offset)) (Fin (of_int limit)) of
     Inl _ \<Rightarrow> None
   | Inr (bs, None) \<Rightarrow> Some bs
   | Inr (bs, Some next) \<Rightarrow> map_option (\<lambda>rest. bs @ rest) (read_chunks n data limit next))"

lemma chunk_read:
  assumes "0 < limit" "limit \<le> maxArtifactChunkBytes" "0 \<le> offset" "offset \<le> int (length data)" "int (length data) \<le> max_safe_integer"
  shows "agent_artifact data (Fin (of_int offset)) (Fin (of_int limit)) =
    Inr (take (nat limit) (drop (nat offset) data), if offset + limit < int (length data) then Some (offset + limit) else None)"
proof -
  have "limit \<le> max_safe_integer" using assms(2) by (simp add: maxArtifactChunkBytes_def max_safe_integer_def)
  then have "is_safe_integer (Fin (of_int limit))" "is_safe_integer (Fin (of_int offset))"
    using assms by (simp_all add: is_safe_integer_def)
  moreover have "(of_int limit :: rat) \<le> of_int maxArtifactChunkBytes" using assms(2) by (simp only: of_int_le_iff)
  ultimately have read: "agent_artifact data (Fin (of_int offset)) (Fin (of_int limit)) = (let stop = min (offset + limit) (int (length data)) in
      Inr (take (nat (stop - offset)) (drop (nat offset) data), if stop < int (length data) then Some stop else None))"
    using assms(1,3,4) by (simp add: agent_artifact_def Let_def not_le [symmetric])
  show ?thesis
  proof (cases "offset + limit < int (length data)")
    case True
    then show ?thesis by (simp add: read)
  next
    case False
    then have "take (nat limit) (drop (nat offset) data) = drop (nat offset) data"
      "take (nat (int (length data) - offset)) (drop (nat offset) data) = drop (nat offset) data"
      using assms(3) by (simp_all add: nat_le_iff)
    then show ?thesis using False by (simp add: read)
  qed
qed

lemma chunks_rejoin:
  assumes "0 < limit" "limit \<le> maxArtifactChunkBytes" "int (length data) \<le> max_safe_integer"
    and "0 \<le> offset" "offset \<le> int (length data)" "length data - nat offset < n"
  shows "read_chunks n data limit offset = Some (drop (nat offset) data)"
  using assms(4-6)
proof (induction n arbitrary: offset)
  case (Suc n)
  note c = chunk_read [OF assms(1,2) Suc.prems(1,2) assms(3)]
  show ?case
  proof (cases "offset + limit < int (length data)")
    case True
    have "read_chunks n data limit (offset + limit) = Some (drop (nat (offset + limit)) data)"
      using Suc.prems True assms(1) by (intro Suc.IH) auto
    moreover have "take (nat limit) (drop (nat offset) data) @ drop (nat (offset + limit)) data = drop (nat offset) data"
    proof -
      have "nat (offset + limit) = nat limit + nat offset" using Suc.prems(1) assms(1) by simp
      then show ?thesis using append_take_drop_id [of "nat limit" "drop (nat offset) data"] by (simp only: drop_drop)
    qed
    ultimately show ?thesis using True by (simp add: c)
  next
    case False
    then show ?thesis using Suc.prems assms(1) by (simp add: c)
  qed
qed simp

section \<open>A claim given up\<close>

lemma submitted_looked_up:
  assumes "Submitted i rq x \<in> set (snd (agent_step cf ag (AgResume n rid an)))"
  shows "i = n \<and> start_checks cf ag rq (ex_definition x) = Inr (ex_workspace x)
    \<and> agent_step cf ag (AgResume n rid an) = submit_start cf rid (an_time an) n rq x ag"
proof -
  obtain c where c: "map_of (ag_starts ag) n = Some c" using assms by (auto split: option.splits)
  show ?thesis
  proof (cases c)
    case (AwaitReserve j w sid claimed)
    then have False using assms c by (auto simp: start_reserved_def Let_def split_beta split: option.splits list.splits sv_reply.splits)
    then show ?thesis ..
  next
    case (AwaitLookup rq' d ps task)
    then have a: "Submitted i rq x \<in> set (snd (start_looked_up cf rid (an_time an) n rq' d ps task ag))" using assms c by simp
    then obtain w where w: "get_by_request (sq_requestId rq') (sv_store (ag_service ag)) = Inr None" "start_checks cf ag rq' d = Inr w"
      by (auto simp: start_looked_up_def split: sum.splits option.splits if_splits)
    then have e: "start_looked_up cf rid (an_time an) n rq' d ps task ag
        = submit_start cf rid (an_time an) n rq' \<lparr>ex_workspace = w, ex_definition = d, ex_parameters = ps, ex_taskId = task,
            ex_links = execution_links d\<rparr> ag"
      by (simp add: start_looked_up_def)
    then have "i = n" "rq' = rq" "x = \<lparr>ex_workspace = w, ex_definition = d, ex_parameters = ps, ex_taskId = task, ex_links = execution_links d\<rparr>"
      using a by (simp_all add: submit_start_def Let_def)
    then show ?thesis using w(2) e AwaitLookup c by simp
  qed
qed

lemma submit_starts: "map_of (ag_starts (fst (submit_start cf rid t n rq x ag))) n
    = Some (AwaitReserve (if snapshotExecuteRequest (ac_absolute cf) rid x then Some (execution_reservation cf (sq_requestId rq) rid t x) else None)
        (ex_workspace x) (sq_snapshotId rq) (map_of (ag_owners ag) (sq_snapshotId rq) = None))"
  by (simp add: submit_start_def set_start_def Let_def map_of_map_set)

lemma reserved_snapshots: "ag_snapshots (fst (start_reserved cf an n i w sid claimed ag)) = ag_snapshots ag"
  by (auto simp: start_reserved_def forget_owner_def end_start_def split_beta Let_def split: option.split list.split sv_reply.split)

lemma submit_snapshots: "ag_snapshots (fst (submit_start cf rid t n rq x ag)) = ag_snapshots ag"
  by (simp add: submit_start_def set_start_def Let_def)

text \<open>The checks of another request for the same snapshot and test, when nobody owns the snapshot.\<close>

lemma checks_unowned:
  assumes "start_checks cf ag rq d = Inr w" "ag_snapshots ag' = ag_snapshots ag" "map_of (ag_owners ag') (sq_snapshotId rq) = None"
    "sq_snapshotId rq' = sq_snapshotId rq" "sq_acknowledged rq' = sq_acknowledged rq"
  shows "start_checks cf ag' rq' d = Inr w"
proof -
  obtain sid where s: "agent_text 128 (VStr (sq_snapshotId rq)) = Inr sid" using assms(1) by (auto simp: start_checks_def)
  then have "sid = sq_snapshotId rq" by (auto simp: agent_text_def bad_type_def split: if_splits)
  then show ?thesis using assms s by (auto simp: start_checks_def bad_type_def split: option.splits if_splits)
qed

lemma checked_snapshot: "start_checks cf ag rq d = Inr w \<Longrightarrow> map_of (ag_snapshots ag) (sq_snapshotId rq) = Some w"
  by (auto simp: start_checks_def agent_text_def bad_type_def split: option.splits if_splits)

lemma claim_given_up:
  assumes two: "snd (run_steps (agent_step cf) ag [AgResume n rid1 an1, AgResume m rid2 an2]) = [Submitted n rq x, Submitted m rq y]"
    and free: "map_of (ag_owners ag) (sq_snapshotId rq) = None" and bad: "\<not> an_io an"
    and ag3: "ag3 = fst (run_steps (agent_step cf) ag [AgResume n rid1 an1, AgResume m rid2 an2, AgResume n rid3 an])"
  shows "\<exists>i. map_of (ag_starts ag3) m = Some (AwaitReserve i (ex_workspace y) (sq_snapshotId rq) False)"
    and "map_of (ag_owners ag3) (sq_snapshotId rq) = None"
    and "sq_snapshotId rq' = sq_snapshotId rq \<Longrightarrow> sq_acknowledged rq' = sq_acknowledged rq \<Longrightarrow>
      start_checks cf ag3 rq' (ex_definition x) = Inr (ex_workspace y)"
proof -
  let ?r1 = "agent_step cf ag (AgResume n rid1 an1)"
  let ?ag1 = "fst ?r1"
  let ?r2 = "agent_step cf ?ag1 (AgResume m rid2 an2)"
  have outs: "snd ?r1 @ snd ?r2 = [Submitted n rq x, Submitted m rq y]" using two by (simp add: Let_def split_beta del: agent_step.simps)
  have single: "length (snd (agent_step cf a (AgResume j r b))) \<le> 1" for a j r b
    by (auto simp: start_looked_up_def submit_start_def start_reserved_def Let_def split_beta
        split: option.split start_call.split sum.split list.split sv_reply.split)
  have s1: "snd ?r1 = [Submitted n rq x]" and s2: "snd ?r2 = [Submitted m rq y]"
    using outs single [of ag n rid1 an1] single [of ?ag1 m rid2 an2] by (cases "snd ?r1"; auto)+
  have w: "start_checks cf ag rq (ex_definition x) = Inr (ex_workspace x)" and e1: "?r1 = submit_start cf rid1 (an_time an1) n rq x ag"
    using submitted_looked_up [of n rq x cf ag n rid1 an1] s1 by auto
  have w2: "start_checks cf ?ag1 rq (ex_definition y) = Inr (ex_workspace y)" and e2: "?r2 = submit_start cf rid2 (an_time an2) m rq y ?ag1"
    using submitted_looked_up [of m rq y cf ?ag1 m rid2 an2] s2 by auto
  have "n \<noteq> m"
  proof
    assume "n = m"
    then have "map_of (ag_starts ?ag1) m = Some (AwaitReserve (if snapshotExecuteRequest (ac_absolute cf) rid1 x
        then Some (execution_reservation cf (sq_requestId rq) rid1 (an_time an1) x) else None)
        (ex_workspace x) (sq_snapshotId rq) (map_of (ag_owners ag) (sq_snapshotId rq) = None))"
      using e1 submit_starts [of cf rid1 "an_time an1" n rq x ag] by simp
    then have "\<forall>i q z. Submitted i q z \<notin> set (snd ?r2)"
      by (auto simp: start_reserved_def Let_def split_beta split: option.splits list.splits sv_reply.splits)
    then show False using s2 by simp
  qed
  have g3: "ag3 = fst (agent_step cf (fst (submit_start cf rid2 (an_time an2) m rq y (fst (submit_start cf rid1 (an_time an1) n rq x ag))))
      (AgResume n rid3 an))"
    unfolding ag3 using e1 e2 by (simp add: Let_def split_beta del: agent_step.simps)
  note lost = claim_lost [OF free \<open>n \<noteq> m\<close> bad HOL.refl HOL.refl g3]
  show "\<exists>i. map_of (ag_starts ag3) m = Some (AwaitReserve i (ex_workspace y) (sq_snapshotId rq) False)"
    and own: "map_of (ag_owners ag3) (sq_snapshotId rq) = None" using lost by blast+
  have "ag_snapshots ag3 = ag_snapshots ag"
    unfolding g3 by (simp add: submit_snapshots reserved_snapshots split: option.split start_call.split)
      (simp add: submit_start_def set_start_def Let_def map_of_map_set \<open>n \<noteq> m\<close>)
  moreover have "ex_workspace x = ex_workspace y"
    using checked_snapshot [OF w] checked_snapshot [OF w2] by (simp add: e1 submit_snapshots del: agent_step.simps)
  ultimately show "start_checks cf ag3 rq' (ex_definition x) = Inr (ex_workspace y)"
    if "sq_snapshotId rq' = sq_snapshotId rq" "sq_acknowledged rq' = sq_acknowledged rq"
    using checks_unowned [OF w _ own that] by simp
qed


section \<open>An example of a lost claim\<close>

definition example_definition :: test_definition where
  "example_definition = \<lparr>td_testId = ''service-test:a/b'', td_title = ''t'', td_description = ''d'', td_caseSpecs = [],
     td_coverage = \<lparr>cd_includes = [], cd_exclusions = []\<rparr>, td_parameters = \<lparr>ps_properties = [], ps_required = []\<rparr>,
     td_runtime = \<lparr>rn_executorId = ''e'', rn_kind = NodeRuntime\<rparr>, td_effect = ReadOnly,
     td_requirements = \<lparr>tq_platforms = [OnLinux], tq_capabilities = [], tq_environment = []\<rparr>, td_artifacts = []\<rparr>"

definition example_config :: agent_config where
  "example_config = \<lparr>ac_textBytes = (\<lambda>_. 0), ac_maxBytes = 1, ac_parsesDate = (\<lambda>_. True), ac_absolute = (\<lambda>_. True),
     ac_fingerprint = (\<lambda>_. ''f''), ac_executorId = ''e'', ac_platform = OnLinux, ac_providerId = ''local-git'',
     ac_sources = [(''key'', ''loc'')]\<rparr>"

definition example_uuid :: string where "example_uuid = ''00000000-0000-4000-8000-000000000000''"

definition example_start :: "string \<Rightarrow> jsv" where
  "example_start q = obj [(''requestId'', VStr q), (''snapshotId'', VStr (''snapshot:'' @ example_uuid)), (''testId'', VStr ''service-test:a/b'')]"

definition example_answers :: answers where
  "example_answers = \<lparr>an_io = False, an_time = ''t'', an_result = None, an_message = ''m'', an_timeout = False\<rparr>"

definition example_events :: "agent_event list" where
  "example_events = [AgPrepare example_uuid example_uuid (VStr ''key'') (VStr ''main'') (Some ''t'') (Some ''t''),
     AgService example_answers (SvWorkspace (PrepareDone (''operation:'' @ example_uuid)
       (SnapshotMade \<lparr>di_path = ''/s'', di_device = 1, di_inode = 1\<rparr> \<lparr>di_path = ''/'', di_device = 1, di_inode = 0\<rparr> ''r'') False (Some ''t'') (Some ''t''))),
     AgStart 1 (example_start ''one''), AgStart 2 (example_start ''one''), AgStart 3 (example_start ''two'')]"


abbreviation example_run :: "agent_event list \<Rightarrow> agent" where
  "example_run es \<equiv> fst (run_steps (agent_step example_config) (new_agent [(''service-test:a/b'', example_definition)]) es)"

definition example_snapshot :: workspace_snapshot where
  "example_snapshot = \<lparr>wk_operationId = ''operation:'' @ example_uuid, wk_snapshotId = ''snapshot:'' @ example_uuid,
     wk_resolvedRevision = ''r'', wk_rootPath = ''/s''\<rparr>"

lemma example_uuid_ok: "uuid_ok example_uuid" "operation_id_ok (''operation:'' @ example_uuid)" "run_id_ok (''run:'' @ example_uuid)"
  by code_simp+

lemma example_read: "readRequest (prepare_value example_config (''operation:'' @ example_uuid) ''loc'' ''main'')
    = Inr \<lparr>pq_operationId = ''operation:'' @ example_uuid, pq_provider = ''local-git'', pq_locator = ''loc'', pq_revision = ''main''\<rparr>"
proof -
  let ?j = "JObj [(''operationId'', JStr (''operation:'' @ example_uuid)),
     (''source'', JObj [(''provider'', JStr ''local-git''), (''locator'', JStr ''loc'')]), (''revision'', JStr ''main'')]"
  have v: "prepare_value example_config (''operation:'' @ example_uuid) ''loc'' ''main'' = json_value ?j"
    by (simp add: prepare_value_def example_config_def del: append_Cons)
  have "safe_shape 0 ?j" "json_bytes ?j \<le> 999" by code_simp+
  then have "within_budget ?j" by (simp add: within_budget_def sd_maxNodes_def sd_maxStringBytes_def)
  from vsafe.decode_encode [OF this] have c: "cloneSafeData (json_value ?j) = Inr ?j" .
  have "revision_ok ''main''" by code_simp
  then show ?thesis unfolding v readRequest_def record_fields_def c
    by (simp add: assertExactKeys_def rd_when_def example_uuid_ok del: append_Cons)
qed

lemma unwritten_lookup:
  assumes "\<not> an_io an"
  shows "get_by_request q (sv_store (ag_service (fst (start_reserved cf an n i w sid claimed ag)))) = get_by_request q (sv_store (ag_service ag))"
proof -
  have m: "st_runs (fst (store_step tb mx s (False, OpReserve j))) = st_runs s \<and> st_requests (fst (store_step tb mx s (False, OpReserve j))) = st_requests s" for tb mx s j
  proof -
    obtain r s' where r: "reserve_run j s = (r, s')" by fastforce
    obtain e where "persist tb mx False s' = Inl e" using write_refused by blast
    then show ?thesis by (cases r) (simp_all add: r mutate_def reply_def restore_def)
  qed
  have run: "st_runs (sv_store (fst (start_run tb mx lc an j w sid sv))) = st_runs (sv_store sv)
      \<and> st_requests (sv_store (fst (start_run tb mx lc an j w sid sv))) = st_requests (sv_store sv)" for tb mx lc j sv
    using start_unwritten [OF assms, of tb mx lc j w sid sv] m [of tb mx "sv_store sv" j] assms
    by (auto simp: start_run_def Let_def split_beta split: list.splits store_reply.splits bool.splits)
  have same: "get_by_request q s' = get_by_request q s" if "st_runs s' = st_runs s" "st_requests s' = st_requests s" for s s'
  proof -
    have "require_run k s' = require_run k s" for k using that by (simp add: require_run_def)
    then show ?thesis using that by (simp add: get_by_request_def cong: option.case_cong)
  qed
  show ?thesis
  proof (cases i)
    case None
    then show ?thesis by (simp add: start_reserved_def forget_owner_def end_start_def)
  next
    case (Some j)
    let ?run = "start_run (ac_textBytes cf) (ac_maxBytes cf) True an j w sid (ag_service ag)"
    have "?run = (fst ?run, [CallFailed])" using start_unwritten [OF assms] by (metis prod.collapse)
    then obtain sv where p: "?run = (sv, [CallFailed])" by blast
    then have "get_by_request q (sv_store sv) = get_by_request q (sv_store (ag_service ag))"
      using run [of "ac_textBytes cf" "ac_maxBytes cf" True j "ag_service ag"] by (intro same) simp_all
    then show ?thesis by (simp add: Some start_reserved_def p forget_owner_def end_start_def Let_def)
  qed
qed


lemma example_prepare:
  "prepare_start (prepare_value example_config (''operation:'' @ example_uuid) ''loc'' ''main'') example_uuid (Some ''t'') (Some ''t'') empty_provider
   = (empty_provider\<lparr>pv_operations := [(''operation:'' @ example_uuid, \<lparr>or_status = OpPreparing, or_requestedRevision = ''main'',
          or_startedAt = ''t'', or_finishedAt = None\<rparr>)], pv_reserved := [''snapshot:'' @ example_uuid],
        pv_waiting := [(''operation:'' @ example_uuid, \<lparr>pr_request = \<lparr>pq_operationId = ''operation:'' @ example_uuid, pq_provider = ''local-git'',
          pq_locator = ''loc'', pq_revision = ''main''\<rparr>, pr_snapshotId = ''snapshot:'' @ example_uuid, pr_startedAt = ''t''\<rparr>)]\<rparr>,
      [PrepareStarted (''operation:'' @ example_uuid) (''snapshot:'' @ example_uuid)])"
proof -
  have "parseRelativeLocator ''loc'' = Inr [''loc'']" by code_simp
  then show ?thesis unfolding prepare_start_def example_read
    by (simp add: Let_def empty_provider_def map_has_def set_operation_def workspaceTimestamp_def example_uuid_ok set_add_def
        del: append_Cons)
qed

lemma example_prepared:
  "\<exists>p ps. example_run (take 2 example_events) = \<lparr>ag_service = fresh_service\<lparr>sv_provider := p\<rparr>,
     ag_catalog = [(''service-test:a/b'', example_definition)], ag_snapshots = [(''snapshot:'' @ example_uuid, example_snapshot)],
     ag_owners = [], ag_preparations = ps, ag_starts = []\<rparr>"
proof -
  have t: "agent_text 128 (VStr ''key'') = Inr ''key''" "agent_text 256 (VStr ''main'') = Inr ''main''" by code_simp+
  have c: "map_of (ac_sources example_config) ''key'' = Some ''loc''" by (simp add: example_config_def)
  let ?call = "agent_prepare example_config example_uuid example_uuid (VStr ''key'') (VStr ''main'') (Some ''t'') (Some ''t'')
    (new_agent [(''service-test:a/b'', example_definition)])"
  have call: "fst ?call = (new_agent [(''service-test:a/b'', example_definition)])\<lparr>ag_service := fresh_service\<lparr>sv_provider :=
      empty_provider\<lparr>pv_operations := [(''operation:'' @ example_uuid, \<lparr>or_status = OpPreparing, or_requestedRevision = ''main'',
          or_startedAt = ''t'', or_finishedAt = None\<rparr>)], pv_reserved := [''snapshot:'' @ example_uuid],
        pv_waiting := [(''operation:'' @ example_uuid, \<lparr>pr_request = \<lparr>pq_operationId = ''operation:'' @ example_uuid, pq_provider = ''local-git'',
          pq_locator = ''loc'', pq_revision = ''main''\<rparr>, pr_snapshotId = ''snapshot:'' @ example_uuid, pr_startedAt = ''t''\<rparr>)]\<rparr>\<rparr>,
      ag_preparations := [''operation:'' @ example_uuid]\<rparr>"
    by (simp add: agent_prepare_def t c workspace_event_def new_agent_def fresh_service_def example_prepare
        learn_snapshots_def Let_def set_add_def del: append_Cons)
  show ?thesis
    by (simp add: example_events_def Let_def split_beta call del: append_Cons)
      (simp add: provider_event_def workspace_event_def learn_snapshots_def prepare_settles_def new_agent_def fresh_service_def
        empty_provider_def empty_registry_def add_snapshot_def map_has_def set_snapshot_def workspaceTimestamp_def set_operation_def
        example_snapshot_def Let_def map_delete_def del: append_Cons)
qed


definition example_request :: "string \<Rightarrow> start_request" where
  "example_request q = \<lparr>sq_requestId = q, sq_snapshotId = ''snapshot:'' @ example_uuid, sq_testId = ''service-test:a/b'',
     sq_parameters = obj [], sq_taskId = None, sq_acknowledged = None\<rparr>"

lemma example_called:
  assumes "agent_text 256 (VStr q) = Inr q" "map_of (ag_starts ag) n = None" "ag_catalog ag = [(''service-test:a/b'', example_definition)]"
  shows "start_called n (example_start q) ag = (set_start n (AwaitLookup (example_request q) example_definition [] None) ag, [])"
proof -
  have t: "agent_text 128 (VStr (''snapshot:'' @ example_uuid)) = Inr (''snapshot:'' @ example_uuid)"
    "agent_text 256 (VStr ''service-test:a/b'') = Inr ''service-test:a/b''" "test_id_ok ''service-test:a/b''" by code_simp+
  have e: "readSafeRecordEnvelope (obj r) = Inr r" if "length r \<le> 3" for r
    by (rule envelope_obj) (use that in \<open>simp add: sd_maxCollectionEntries_def\<close>)
  have r: "snapshotStartRequest (example_start q) = Inr (example_request q)"
    by (simp add: snapshotStartRequest_def example_start_def e acknowledged_effect_def assms(1) t optional_text_def given_parameters_def
        example_request_def del: append_Cons)
  have p: "normalizeParameters example_definition (obj []) = Inr []" by (simp add: normalizeParameters_def e example_definition_def)
  show ?thesis using assms(2,3)
    by (simp add: start_called_def r map_has_def map_of_eq_None_iff catalog_require_def parse_test_id_def example_request_def t p parse_task_def
        del: append_Cons)
qed

lemma example_started:
  "\<exists>p ps. example_run example_events = \<lparr>ag_service = fresh_service\<lparr>sv_provider := p\<rparr>,
     ag_catalog = [(''service-test:a/b'', example_definition)], ag_snapshots = [(''snapshot:'' @ example_uuid, example_snapshot)],
     ag_owners = [], ag_preparations = ps, ag_starts = [(1, AwaitLookup (example_request ''one'') example_definition [] None),
       (2, AwaitLookup (example_request ''one'') example_definition [] None), (3, AwaitLookup (example_request ''two'') example_definition [] None)]\<rparr>"
proof -
  obtain p ps where two: "example_run (take 2 example_events) = \<lparr>ag_service = fresh_service\<lparr>sv_provider := p\<rparr>,
     ag_catalog = [(''service-test:a/b'', example_definition)], ag_snapshots = [(''snapshot:'' @ example_uuid, example_snapshot)],
     ag_owners = [], ag_preparations = ps, ag_starts = []\<rparr>" using example_prepared by blast
  have q: "agent_text 256 (VStr ''one'') = Inr ''one''" "agent_text 256 (VStr ''two'') = Inr ''two''" by code_simp+
  have "example_events = take 2 example_events @ [AgStart 1 (example_start ''one''), AgStart 2 (example_start ''one''), AgStart 3 (example_start ''two'')]"
    by (simp add: example_events_def)
  then have "example_run example_events = example_run (take 2 example_events @ [AgStart 1 (example_start ''one''), AgStart 2 (example_start ''one''),
      AgStart 3 (example_start ''two'')])" by simp
  then have "example_run example_events = fst (run_steps (agent_step example_config) (example_run (take 2 example_events))
      [AgStart 1 (example_start ''one''), AgStart 2 (example_start ''one''), AgStart 3 (example_start ''two'')])"
    by (simp only: run_steps_append Let_def split_beta fst_conv)
  then have "example_run example_events = \<lparr>ag_service = fresh_service\<lparr>sv_provider := p\<rparr>,
     ag_catalog = [(''service-test:a/b'', example_definition)], ag_snapshots = [(''snapshot:'' @ example_uuid, example_snapshot)],
     ag_owners = [], ag_preparations = ps, ag_starts = [(1, AwaitLookup (example_request ''one'') example_definition [] None),
       (2, AwaitLookup (example_request ''one'') example_definition [] None), (3, AwaitLookup (example_request ''two'') example_definition [] None)]\<rparr>"
    unfolding two by (simp add: example_called q set_start_def Let_def del: append_Cons One_nat_def)
  then show ?thesis by blast
qed


definition example_execution :: execution where
  "example_execution = \<lparr>ex_workspace = example_snapshot, ex_definition = example_definition, ex_parameters = [], ex_taskId = None, ex_links = None\<rparr>"

lemma example_submits:
  assumes "get_by_request q (sv_store (ag_service ag)) = Inr None" "map_of (ag_starts ag) n = Some (AwaitLookup (example_request q) example_definition [] None)"
    "ag_snapshots ag = [(''snapshot:'' @ example_uuid, example_snapshot)]" "map_of (ag_owners ag) (''snapshot:'' @ example_uuid) \<in> {None, Some q}"
  shows "agent_step example_config ag (AgResume n rid an) = submit_start example_config rid (an_time an) n (example_request q) example_execution ag"
proof -
  have t: "agent_text 128 (VStr (''snapshot:'' @ example_uuid)) = Inr (''snapshot:'' @ example_uuid)" by code_simp
  have "start_checks example_config ag (example_request q) example_definition = Inr example_snapshot"
    using assms(3,4) by (auto simp: start_checks_def example_request_def t example_config_def example_definition_def sensitive_effect_def simp del: append_Cons)
  moreover have "execution_links example_definition = None" by (simp add: execution_links_def example_definition_def)
  ultimately show ?thesis using assms(1,2) by (simp add: start_looked_up_def example_request_def example_execution_def del: append_Cons)
qed

abbreviation example_resumes :: "agent_event list" where
  "example_resumes \<equiv> [AgResume 1 (''run:'' @ example_uuid) example_answers, AgResume 2 (''run:'' @ example_uuid) example_answers,
     AgResume 1 (''run:'' @ example_uuid) example_answers]"

end
