(* ===== verification/JudgeData.thy ===== *)
theory JudgeData
  imports JsData
begin

text \<open>
  The data the judge reads: \<open>packages/llm-judge/src/validation-primitives.ts\<close>. Requests and provider
  outcomes are untrusted values; \<open>sanitizeUntrusted\<close> copies one through its own property descriptors
  within a budget of depth, nodes and bytes, and the primitives below read the copy. Values are finite
  trees, so the rejection of cycles, aliases and proxies has no counterpart; the paths and messages of
  errors are left out.
\<close>

section \<open>Errors, budgets and plain data\<close>

text \<open>\<open>JudgeContractError\<close>, and the \<open>Error\<close> or \<open>TypeError\<close> of a configuration.\<close>

datatype judge_error = ContractError | ConfigError

record data_budget =
  bg_maxDepth :: nat
  bg_maxNodes :: nat
  bg_maxBytes :: nat

record walk_state =
  wk_nodes :: nat
  wk_bytes :: nat

definition request_budget :: data_budget where
  "request_budget = \<lparr>bg_maxDepth = 16, bg_maxNodes = 20000, bg_maxBytes = 20971520\<rparr>"

definition outcome_budget :: data_budget where
  "outcome_budget = \<lparr>bg_maxDepth = 16, bg_maxNodes = 10000, bg_maxBytes = 2097152\<rparr>"

text \<open>A frozen copy: plain data, in which \<open>undefined\<close> and the non-finite numbers may occur.\<close>

datatype pdata = PNull | PUndef | PBool bool | PNum jsnum | PStr string | PArr "pdata list"
  | PObj "(string \<times> pdata) list"

type_synonym pfields = "(string \<times> pdata) list"

fun plain_value :: "pdata \<Rightarrow> jsv" where
  "plain_value PNull = VNull"
| "plain_value PUndef = VUndefined"
| "plain_value (PBool b) = VBool b"
| "plain_value (PNum x) = VNum x"
| "plain_value (PStr s) = VStr s"
| "plain_value (PArr ps) = arr (map plain_value ps)"
| "plain_value (PObj fs) = obj (map (\<lambda>(k, p). (k, plain_value p)) fs)"

section \<open>The copy\<close>

definition spend :: "data_budget \<Rightarrow> nat \<Rightarrow> walk_state \<Rightarrow> judge_error + walk_state" where
  "spend bg b st = (let s = \<lparr>wk_nodes = wk_nodes st + 1, wk_bytes = wk_bytes st + b\<rparr> in
     if wk_nodes s > bg_maxNodes bg then Inl ContractError
     else if wk_bytes s > bg_maxBytes bg then Inl ContractError else Inr s)"

fun jd_symbol :: "pkey \<Rightarrow> bool" where
  "jd_symbol (SymKey _) = True"
| "jd_symbol (StrKey _) = False"

definition ownDataDescriptors :: "pkey list \<Rightarrow> jsprop list \<Rightarrow> judge_error + unit" where
  "ownDataDescriptors ks ps = rguard (\<not> list_ex jd_symbol ks \<and> AccProp \<notin> set ps) ContractError"

fun copyData :: "data_budget \<Rightarrow> nat \<Rightarrow> walk_state \<Rightarrow> jsv \<Rightarrow> judge_error + pdata \<times> walk_state"
  and copy_items :: "data_budget \<Rightarrow> nat \<Rightarrow> walk_state \<Rightarrow> jsprop option list \<Rightarrow> judge_error + pdata list \<times> walk_state"
  and copy_fields :: "data_budget \<Rightarrow> nat \<Rightarrow> walk_state \<Rightarrow> (pkey \<times> jsprop) list \<Rightarrow> judge_error + pfields \<times> walk_state" where
  "copyData bg depth st VNull = (if depth > bg_maxDepth bg then Inl ContractError else
     rbind (spend bg 0 st) (\<lambda>s. Inr (PNull, s)))"
| "copyData bg depth st VUndefined = (if depth > bg_maxDepth bg then Inl ContractError else
     rbind (spend bg 0 st) (\<lambda>s. Inr (PUndef, s)))"
| "copyData bg depth st (VBool b) = (if depth > bg_maxDepth bg then Inl ContractError else
     rbind (spend bg 0 st) (\<lambda>s. Inr (PBool b, s)))"
| "copyData bg depth st (VStr t) = (if depth > bg_maxDepth bg then Inl ContractError else
     rbind (spend bg (utf8_length t) st) (\<lambda>s. Inr (PStr t, s)))"
| "copyData bg depth st (VNum x) = (if depth > bg_maxDepth bg then Inl ContractError else
     rbind (spend bg 8 st) (\<lambda>s. Inr (PNum x, s)))"
| "copyData bg depth st (VSym _) = Inl ContractError"
| "copyData bg depth st (VFun _) = Inl ContractError"
| "copyData bg depth st (VArr b ps ks) = (if depth > bg_maxDepth bg then Inl ContractError else
     rbind (spend bg 0 st) (\<lambda>s.
     rbind (ownDataDescriptors ks (map the (filter (\<lambda>p. p \<noteq> None) ps))) (\<lambda>_.
     if \<not> b then Inl ContractError
     else if length ps > bg_maxNodes bg then Inl ContractError
     else if length (filter (\<lambda>p. p \<noteq> None) ps) + length ks \<noteq> length ps then Inl ContractError
     else rbind (copy_items bg (Suc depth) s ps) (\<lambda>(qs, s2). Inr (PArr qs, s2)))))"
| "copyData bg depth st (VObj p ps) = (if depth > bg_maxDepth bg then Inl ContractError else
     rbind (spend bg 0 st) (\<lambda>s.
     rbind (ownDataDescriptors (map fst ps) (map snd ps)) (\<lambda>_.
     if p = OtherProto then Inl ContractError
     else rbind (copy_fields bg (Suc depth) s ps) (\<lambda>(fs, s2). Inr (PObj fs, s2)))))"
| "copy_items bg depth st [] = Inr ([], st)"
| "copy_items bg depth st (None # ps) = Inl ContractError"
| "copy_items bg depth st (Some AccProp # ps) = Inl ContractError"
| "copy_items bg depth st (Some (DataProp e v) # ps) =
     rbind (copyData bg depth st v) (\<lambda>(q, s1).
     rbind (copy_items bg depth s1 ps) (\<lambda>(qs, s2). Inr (q # qs, s2)))"
| "copy_fields bg depth st [] = Inr ([], st)"
| "copy_fields bg depth st ((SymKey _, _) # ps) = Inl ContractError"
| "copy_fields bg depth st ((StrKey k, AccProp) # ps) = Inl ContractError"
| "copy_fields bg depth st ((StrKey k, DataProp e v) # ps) =
     rbind (spend bg (utf8_length k) st) (\<lambda>s0.
     rbind (copyData bg depth s0 v) (\<lambda>(q, s1).
     rbind (copy_fields bg depth s1 ps) (\<lambda>(fs, s2). Inr ((k, q) # fs, s2))))"

definition sanitizeUntrusted :: "data_budget \<Rightarrow> jsv \<Rightarrow> judge_error + pdata" where
  "sanitizeUntrusted bg v = rbind (copyData bg 0 \<lparr>wk_nodes = 0, wk_bytes = 0\<rparr> v) (\<lambda>(p, _). Inr p)"

section \<open>Reading primitives\<close>

definition js_trim :: "string \<Rightarrow> string" where
  "js_trim s = rev (dropWhile js_space (rev (dropWhile js_space s)))"

definition pfld :: "pfields \<Rightarrow> string \<Rightarrow> pdata" where
  "pfld r k = (case map_of r k of None \<Rightarrow> PUndef | Some p \<Rightarrow> p)"

definition jd_record :: "pdata \<Rightarrow> judge_error + pfields" where
  "jd_record p = (case p of PObj fs \<Rightarrow> Inr fs | _ \<Rightarrow> Inl ContractError)"

definition jd_exactKeys :: "string list \<Rightarrow> pfields \<Rightarrow> judge_error + unit" where
  "jd_exactKeys keys r = rguard (list_all (\<lambda>f. fst f \<in> set keys) r) ContractError"

definition jd_text :: "nat \<Rightarrow> pdata \<Rightarrow> judge_error + string" where
  "jd_text m p = (case p of
     PStr s \<Rightarrow> let t = js_trim s in
       if length t = 0 then Inl ContractError else if length t > m then Inl ContractError else Inr t
   | _ \<Rightarrow> Inl ContractError)"

definition jd_identifier :: "pdata \<Rightarrow> judge_error + string" where
  "jd_identifier p = rbind (jd_text 128 p) (\<lambda>t.
     if ident_shape ''._:-'' t then Inr t else Inl ContractError)"

definition jd_array :: "nat \<Rightarrow> pdata \<Rightarrow> judge_error + pdata list" where
  "jd_array m p = (case p of PArr ps \<Rightarrow> if length ps > m then Inl ContractError else Inr ps | _ \<Rightarrow> Inl ContractError)"

definition finiteInteger :: "int \<Rightarrow> pdata \<Rightarrow> judge_error + int" where
  "finiteInteger m p = (case p of
     PNum (Fin q) \<Rightarrow> if \<not> is_safe_integer (Fin q) \<or> q < 0 \<or> q > of_int m then Inl ContractError else Inr (floor q)
   | _ \<Rightarrow> Inl ContractError)"

definition unique :: "string list \<Rightarrow> judge_error + unit" where
  "unique vs = rguard (card (set vs) = length vs) ContractError"

section \<open>What is copied\<close>

fun pnodes :: "pdata \<Rightarrow> nat" where
  "pnodes (PArr ps) = Suc (sum_list (map pnodes ps))"
| "pnodes (PObj fs) = Suc (sum_list (map (\<lambda>f. Suc (pnodes (snd f))) fs))"
| "pnodes _ = 1"

fun pbytes :: "pdata \<Rightarrow> nat" where
  "pbytes (PStr s) = utf8_length s"
| "pbytes (PNum _) = 8"
| "pbytes (PArr ps) = sum_list (map pbytes ps)"
| "pbytes (PObj fs) = sum_list (map (\<lambda>f. utf8_length (fst f) + pbytes (snd f)) fs)"
| "pbytes _ = 0"

fun pdepth_ok :: "data_budget \<Rightarrow> nat \<Rightarrow> pdata \<Rightarrow> bool" where
  "pdepth_ok bg d (PArr ps) = (d \<le> bg_maxDepth bg \<and> length ps \<le> bg_maxNodes bg \<and> list_all (pdepth_ok bg (Suc d)) ps)"
| "pdepth_ok bg d (PObj fs) = (d \<le> bg_maxDepth bg \<and> list_all (\<lambda>f. pdepth_ok bg (Suc d) (snd f)) fs)"
| "pdepth_ok bg d _ = (d \<le> bg_maxDepth bg)"

definition in_budget :: "data_budget \<Rightarrow> pdata \<Rightarrow> bool" where
  "in_budget bg p = (pdepth_ok bg 0 p \<and> pnodes p \<le> bg_maxNodes bg \<and> pbytes p \<le> bg_maxBytes bg)"

text \<open>Spending a whole subtree at once.\<close>

definition wspent :: "nat \<Rightarrow> nat \<Rightarrow> walk_state \<Rightarrow> walk_state" where
  "wspent n b st = \<lparr>wk_nodes = wk_nodes st + n, wk_bytes = wk_bytes st + b\<rparr>"

definition wfits :: "data_budget \<Rightarrow> walk_state \<Rightarrow> bool" where
  "wfits bg st = (wk_nodes st \<le> bg_maxNodes bg \<and> wk_bytes st \<le> bg_maxBytes bg)"

lemma wspent_simps [simp]: "wspent n b (wspent m c st) = wspent (m + n) (c + b) st" "wspent 0 0 st = st"
  by (simp_all add: wspent_def)

lemma wfits_mono: "wfits bg (wspent n b st) \<Longrightarrow> m \<le> n \<Longrightarrow> c \<le> b \<Longrightarrow> wfits bg (wspent m c st)"
  by (simp add: wfits_def wspent_def)

lemma spend_Inr [simp]: "spend bg b st = Inr s \<longleftrightarrow> wfits bg s \<and> s = wspent 1 b st"
  by (auto simp: spend_def wfits_def wspent_def Let_def)

lemma spend_fits: "wfits bg (wspent 1 b st) \<Longrightarrow> spend bg b st = Inr (wspent 1 b st)"
  by simp

lemma descriptors_plain [simp]:
  "ownDataDescriptors [] (map the (map (\<lambda>v. Some (DataProp True v)) vs)) = Inr ()"
  "ownDataDescriptors (map fst (map (\<lambda>(k, v). (StrKey k, DataProp True v)) r)) (map snd (map (\<lambda>(k, v). (StrKey k, DataProp True v)) r)) = Inr ()"
  by (auto simp: ownDataDescriptors_def list_ex_iff)

lemma copy_items_embed:
  "(\<And>p st. p \<in> set ps \<Longrightarrow> pdepth_ok bg d p \<Longrightarrow> wfits bg (wspent (pnodes p) (pbytes p) st) \<Longrightarrow>
      copyData bg d st (plain_value p) = Inr (p, wspent (pnodes p) (pbytes p) st)) \<Longrightarrow>
   list_all (pdepth_ok bg d) ps \<Longrightarrow> wfits bg (wspent (sum_list (map pnodes ps)) (sum_list (map pbytes ps)) st) \<Longrightarrow>
   copy_items bg d st (map (\<lambda>v. Some (DataProp True v)) (map plain_value ps))
     = Inr (ps, wspent (sum_list (map pnodes ps)) (sum_list (map pbytes ps)) st)"
proof (induction ps arbitrary: st)
  case (Cons p ps)
  have "copyData bg d st (plain_value p) = Inr (p, wspent (pnodes p) (pbytes p) st)"
    by (rule Cons.prems(1)) (use Cons.prems in \<open>auto elim: wfits_mono\<close>)
  moreover have "copy_items bg d (wspent (pnodes p) (pbytes p) st) (map (\<lambda>v. Some (DataProp True v)) (map plain_value ps))
      = Inr (ps, wspent (sum_list (map pnodes ps)) (sum_list (map pbytes ps)) (wspent (pnodes p) (pbytes p) st))"
    by (rule Cons.IH) (use Cons.prems in auto)
  ultimately show ?case by simp
qed simp

lemma copy_fields_embed:
  "(\<And>f st. f \<in> set fs \<Longrightarrow> pdepth_ok bg d (snd f) \<Longrightarrow> wfits bg (wspent (pnodes (snd f)) (pbytes (snd f)) st) \<Longrightarrow>
      copyData bg d st (plain_value (snd f)) = Inr (snd f, wspent (pnodes (snd f)) (pbytes (snd f)) st)) \<Longrightarrow>
   list_all (\<lambda>f. pdepth_ok bg d (snd f)) fs \<Longrightarrow>
   wfits bg (wspent (sum_list (map (\<lambda>f. Suc (pnodes (snd f))) fs)) (sum_list (map (\<lambda>f. utf8_length (fst f) + pbytes (snd f)) fs)) st) \<Longrightarrow>
   copy_fields bg d st (map (\<lambda>(k, v). (StrKey k, DataProp True v)) (map (\<lambda>(k, p). (k, plain_value p)) fs))
     = Inr (fs, wspent (sum_list (map (\<lambda>f. Suc (pnodes (snd f))) fs))
         (sum_list (map (\<lambda>f. utf8_length (fst f) + pbytes (snd f)) fs)) st)"
proof (induction fs arbitrary: st)
  case (Cons f fs)
  obtain k p where f: "f = (k, p)" by (cases f)
  let ?s0 = "wspent 1 (utf8_length k) st"
  have "spend bg (utf8_length k) st = Inr ?s0"
    by (rule spend_fits, rule wfits_mono [OF Cons.prems(3)]) (simp_all add: f)
  moreover have "copyData bg d ?s0 (plain_value p) = Inr (p, wspent (pnodes p) (pbytes p) ?s0)"
    using Cons.prems(1) [of f ?s0] Cons.prems(2) wfits_mono [OF Cons.prems(3), of "1 + pnodes p" "utf8_length k + pbytes p"]
    by (simp add: f)
  moreover have "copy_fields bg d (wspent (pnodes p) (pbytes p) ?s0)
      (map (\<lambda>(k, v). (StrKey k, DataProp True v)) (map (\<lambda>(k, p). (k, plain_value p)) fs))
      = Inr (fs, wspent (sum_list (map (\<lambda>f. Suc (pnodes (snd f))) fs))
         (sum_list (map (\<lambda>f. utf8_length (fst f) + pbytes (snd f)) fs)) (wspent (pnodes p) (pbytes p) ?s0))"
    by (rule Cons.IH) (use Cons.prems f in \<open>auto simp: add.assoc\<close>)
  ultimately show ?case by (simp add: f add.assoc)
qed simp

lemma copy_embed:
  "pdepth_ok bg d p \<Longrightarrow> wfits bg (wspent (pnodes p) (pbytes p) st) \<Longrightarrow>
   copyData bg d st (plain_value p) = Inr (p, wspent (pnodes p) (pbytes p) st)"
proof (induction p arbitrary: d st)
  case (PArr ps)
  have "spend bg 0 st = Inr (wspent 1 0 st)"
    by (rule spend_fits, rule wfits_mono [OF PArr.prems(2)]) simp_all
  moreover have "copy_items bg (Suc d) (wspent 1 0 st) (map (\<lambda>v. Some (DataProp True v)) (map plain_value ps))
      = Inr (ps, wspent (sum_list (map pnodes ps)) (sum_list (map pbytes ps)) (wspent 1 0 st))"
    by (rule copy_items_embed) (use PArr in auto)
  ultimately show ?case using PArr.prems(1) by (simp add: arr_def del: map_map)
next
  case (PObj fs)
  have "spend bg 0 st = Inr (wspent 1 0 st)"
    by (rule spend_fits, rule wfits_mono [OF PObj.prems(2)]) simp_all
  moreover have "copy_fields bg (Suc d) (wspent 1 0 st)
      (map (\<lambda>(k, v). (StrKey k, DataProp True v)) (map (\<lambda>(k, p). (k, plain_value p)) fs))
      = Inr (fs, wspent (sum_list (map (\<lambda>f. Suc (pnodes (snd f))) fs))
         (sum_list (map (\<lambda>f. utf8_length (fst f) + pbytes (snd f)) fs)) (wspent 1 0 st))"
  proof (rule copy_fields_embed)
    fix f st' assume f: "f \<in> set fs" "pdepth_ok bg (Suc d) (snd f)" "wfits bg (wspent (pnodes (snd f)) (pbytes (snd f)) st')"
    have "snd f \<in> Basic_BNFs.snds f" by (cases f) simp
    from PObj.IH [OF f(1) this f(2,3)]
    show "copyData bg (Suc d) st' (plain_value (snd f)) = Inr (snd f, wspent (pnodes (snd f)) (pbytes (snd f)) st')" .
  qed (use PObj.prems in auto)
  ultimately show ?case using PObj.prems(1) by (simp add: obj_def del: map_map)
qed (auto simp: spend_fits)

definition copied :: "data_budget \<Rightarrow> nat \<Rightarrow> walk_state \<Rightarrow> pdata \<Rightarrow> walk_state \<Rightarrow> bool" where
  "copied bg d st p st' = (st' = wspent (pnodes p) (pbytes p) st \<and> pdepth_ok bg d p \<and> wfits bg st')"

definition copied_items :: "data_budget \<Rightarrow> nat \<Rightarrow> walk_state \<Rightarrow> pdata list \<Rightarrow> walk_state \<Rightarrow> bool" where
  "copied_items bg d st ps st' = (st' = wspent (sum_list (map pnodes ps)) (sum_list (map pbytes ps)) st
     \<and> list_all (pdepth_ok bg d) ps \<and> (wfits bg st \<longrightarrow> wfits bg st'))"

definition copied_fields :: "data_budget \<Rightarrow> nat \<Rightarrow> walk_state \<Rightarrow> pfields \<Rightarrow> walk_state \<Rightarrow> bool" where
  "copied_fields bg d st fs st' = (st' = wspent (sum_list (map (\<lambda>f. Suc (pnodes (snd f))) fs))
       (sum_list (map (\<lambda>f. utf8_length (fst f) + pbytes (snd f)) fs)) st
     \<and> list_all (\<lambda>f. pdepth_ok bg d (snd f)) fs \<and> (wfits bg st \<longrightarrow> wfits bg st'))"

lemma copy_items_length: "copy_items bg d st ps = Inr (qs, st') \<Longrightarrow> length qs = length ps"
proof (induction ps arbitrary: st qs st')
  case (Cons p ps)
  then show ?case by (cases p rule: option.exhaust; cases "the p") fastforce+
qed simp

lemma copy_bounds:
  "copyData bg d st v = Inr (p, st') \<Longrightarrow> copied bg d st p st'"
  "copy_items bg d st ps = Inr (qs, st') \<Longrightarrow> copied_items bg d st qs st'"
  "copy_fields bg d st rs = Inr (fs, st') \<Longrightarrow> copied_fields bg d st fs st'"
proof (induction bg d st v and bg d st ps and bg d st rs arbitrary: p st' and qs st' and fs st'
    rule: copyData_copy_items_copy_fields.induct)
  case (8 bg depth st b ps ks)
  obtain s qs where s: "\<not> depth > bg_maxDepth bg" "spend bg 0 st = Inr s"
    "ownDataDescriptors ks (map the (filter (\<lambda>p. p \<noteq> None) ps)) = Inr ()" "\<not> \<not> b" "\<not> length ps > bg_maxNodes bg"
    "\<not> length (filter (\<lambda>p. p \<noteq> None) ps) + length ks \<noteq> length ps"
    "copy_items bg (Suc depth) s ps = Inr (qs, st')" and p: "p = PArr qs"
    using "8.prems" by (auto split: if_splits)
  have "copied_items bg (Suc depth) s qs st'" by (rule "8.IH" [OF s])
  then show ?case using s(1,2,5) copy_items_length [OF s(7)] p by (auto simp: copied_def copied_items_def)
next
  case (9 bg depth st q ps)
  obtain s fs where s: "\<not> depth > bg_maxDepth bg" "spend bg 0 st = Inr s"
    "ownDataDescriptors (map fst ps) (map snd ps) = Inr ()" "q \<noteq> OtherProto"
    "copy_fields bg (Suc depth) s ps = Inr (fs, st')" and p: "p = PObj fs"
    using "9.prems" by (auto split: if_splits)
  have "copied_fields bg (Suc depth) s fs st'" by (rule "9.IH" [OF s])
  then show ?case using s(1,2) p by (auto simp: copied_def copied_fields_def)
next
  case (13 bg depth st e v ps)
  obtain q s1 qs' where s: "copyData bg depth st v = Inr (q, s1)" "copy_items bg depth s1 ps = Inr (qs', st')" and qs: "qs = q # qs'"
    using "13.prems" by auto
  have "copied bg depth st q s1" "copied_items bg depth s1 qs' st'" using "13.IH" s by blast+
  then show ?case using qs by (auto simp: copied_def copied_items_def)
next
  case (17 bg depth st k e v ps)
  obtain s0 q s1 fs' where s: "spend bg (utf8_length k) st = Inr s0" "copyData bg depth s0 v = Inr (q, s1)"
    "copy_fields bg depth s1 ps = Inr (fs', st')" and fs: "fs = (k, q) # fs'"
    using "17.prems" by auto
  have "copied bg depth s0 q s1" "copied_fields bg depth s1 fs' st'" using "17.IH" s by blast+
  then show ?case using s(1) fs by (auto simp: copied_def copied_fields_def add.assoc)
qed (auto simp: copied_def copied_items_def copied_fields_def split: if_splits)

lemma sanitize_in_budget: "sanitizeUntrusted bg v = Inr p \<Longrightarrow> in_budget bg p"
  by (auto simp: sanitizeUntrusted_def in_budget_def wspent_def wfits_def copied_def dest!: copy_bounds(1))

lemma sanitize_plain: "in_budget bg p \<Longrightarrow> sanitizeUntrusted bg (plain_value p) = Inr p"
  using copy_embed [of bg 0 p "\<lparr>wk_nodes = 0, wk_bytes = 0\<rparr>"]
  by (simp add: in_budget_def sanitizeUntrusted_def wfits_def wspent_def)

text \<open>Conversely, plain data that is accepted is copied as it is, so it was in the budget.\<close>

lemma copy_items_same:
  "(\<And>p st q st'. p \<in> set ps \<Longrightarrow> copyData bg d st (plain_value p) = Inr (q, st') \<Longrightarrow> q = p) \<Longrightarrow>
   copy_items bg d st (map (\<lambda>v. Some (DataProp True v)) (map plain_value ps)) = Inr (qs, st') \<Longrightarrow> qs = ps"
proof (induction ps arbitrary: st qs)
  case (Cons p ps)
  from Cons.prems(2) obtain q s1 qs' where c: "copyData bg d st (plain_value p) = Inr (q, s1)"
    "copy_items bg d s1 (map (\<lambda>v. Some (DataProp True v)) (map plain_value ps)) = Inr (qs', st')" and qs: "qs = q # qs'"
    by auto
  have "qs' = ps" by (rule Cons.IH [OF _ c(2)]) (use Cons.prems(1) in auto)
  then show ?case using Cons.prems(1) [OF _ c(1)] qs by simp
qed simp

lemma copy_fields_same:
  "(\<And>f st q st'. f \<in> set fs \<Longrightarrow> copyData bg d st (plain_value (snd f)) = Inr (q, st') \<Longrightarrow> q = snd f) \<Longrightarrow>
   copy_fields bg d st (map (\<lambda>(k, v). (StrKey k, DataProp True v)) (map (\<lambda>(k, p). (k, plain_value p)) fs)) = Inr (gs, st') \<Longrightarrow>
   gs = fs"
proof (induction fs arbitrary: st gs)
  case (Cons f fs)
  obtain k p where f: "f = (k, p)" by (cases f)
  from Cons.prems(2) obtain s0 q s1 gs' where c: "copyData bg d s0 (plain_value p) = Inr (q, s1)"
    "copy_fields bg d s1 (map (\<lambda>(k, v). (StrKey k, DataProp True v)) (map (\<lambda>(k, p). (k, plain_value p)) fs)) = Inr (gs', st')"
    and gs: "gs = (k, q) # gs'"
    by (auto simp: f)
  have "gs' = fs" by (rule Cons.IH [OF _ c(2)]) (use Cons.prems(1) in auto)
  then show ?case using Cons.prems(1) [of f] c(1) gs by (simp add: f)
qed simp

lemma copy_same: "copyData bg d st (plain_value p) = Inr (q, st') \<Longrightarrow> q = p"
proof (induction p arbitrary: d st q st')
  case (PArr ps)
  then obtain s qs where c: "copy_items bg (Suc d) s (map (\<lambda>v. Some (DataProp True v)) (map plain_value ps)) = Inr (qs, st')"
    and q: "q = PArr qs"
    by (auto simp: arr_def simp del: map_map split: if_splits)
  show ?case using copy_items_same [OF _ c] PArr.IH q by blast
next
  case (PObj fs)
  then obtain s gs where c: "copy_fields bg (Suc d) s
      (map (\<lambda>(k, v). (StrKey k, DataProp True v)) (map (\<lambda>(k, p). (k, plain_value p)) fs)) = Inr (gs, st')" and q: "q = PObj gs"
    by (auto simp: obj_def simp del: map_map split: if_splits)
  have "gs = fs"
  proof (rule copy_fields_same [OF _ c])
    fix f st q st' assume f: "f \<in> set fs" "copyData bg (Suc d) st (plain_value (snd f)) = Inr (q, st')"
    have "snd f \<in> Basic_BNFs.snds f" by (cases f) simp
    from PObj.IH [OF f(1) this f(2)] show "q = snd f" .
  qed
  then show ?case using q by simp
qed (auto split: if_splits)

lemma sanitize_plain_iff: "sanitizeUntrusted bg (plain_value p) = Inr q \<longleftrightarrow> in_budget bg p \<and> q = p"
  using sanitize_plain sanitize_in_budget copy_same by (fastforce simp: sanitizeUntrusted_def)

section \<open>What the primitives accept\<close>

lemma dropWhile_idem [simp]: "dropWhile P (dropWhile P xs) = dropWhile P xs"
  by (induction xs) auto

lemma js_trim_idem [simp]: "js_trim (js_trim s) = js_trim s"
proof -
  let ?u = "dropWhile js_space s"
  let ?w = "dropWhile js_space (rev ?u)"
  have "dropWhile js_space (rev ?w) = rev ?w"
  proof (cases "rev ?w")
    case (Cons c cs)
    obtain xs where "rev ?u = xs @ ?w" by (metis takeWhile_dropWhile_id)
    then have "?u = rev ?w @ rev xs" by (metis rev_append rev_rev_ident)
    then have "?u = c # (cs @ rev xs)" using Cons by simp
    then have "\<not> js_space c" by (metis dropWhile_eq_Cons_conv)
    then show ?thesis by (simp add: Cons)
  next
    case Nil
    show ?thesis unfolding Nil by simp
  qed
  then show ?thesis by (simp add: js_trim_def)
qed

definition trimmed :: "nat \<Rightarrow> string \<Rightarrow> bool" where
  "trimmed m s = (js_trim s = s \<and> s \<noteq> [] \<and> length s \<le> m)"

definition jd_identifier_ok :: "string \<Rightarrow> bool" where
  "jd_identifier_ok s = (trimmed 128 s \<and> ident_shape ''._:-'' s)"

lemma jd_text_wf: "jd_text m p = Inr t \<Longrightarrow> trimmed m t"
  by (auto simp: jd_text_def trimmed_def Let_def split: pdata.splits if_splits)

lemma jd_text_same [simp]: "trimmed m t \<Longrightarrow> jd_text m (PStr t) = Inr t"
  by (simp add: jd_text_def trimmed_def Let_def)

lemma jd_identifier_wf: "jd_identifier p = Inr t \<Longrightarrow> jd_identifier_ok t"
  by (auto simp: jd_identifier_def jd_identifier_ok_def dest: jd_text_wf)

lemma jd_identifier_same [simp]: "jd_identifier_ok t \<Longrightarrow> jd_identifier (PStr t) = Inr t"
  by (simp add: jd_identifier_def jd_identifier_ok_def)

lemma jd_record_Inr [simp]: "jd_record p = Inr r \<longleftrightarrow> p = PObj r"
  by (auto simp: jd_record_def split: pdata.splits)

lemma jd_array_Inr [simp]: "jd_array m p = Inr ps \<longleftrightarrow> p = PArr ps \<and> length ps \<le> m"
  by (auto simp: jd_array_def split: pdata.splits)

lemma unique_Inr [simp]: "unique vs = Inr u \<longleftrightarrow> distinct vs"
  by (simp add: unique_def card_set_eq_length_iff)

lemma exactKeys_Inr [simp]: "jd_exactKeys keys r = Inr u \<longleftrightarrow> list_all (\<lambda>f. fst f \<in> set keys) r"
  by (simp add: jd_exactKeys_def)

lemma finiteInteger_wf: "finiteInteger m p = Inr n \<Longrightarrow> 0 \<le> n \<and> n \<le> m \<and> n \<le> max_safe_integer"
  by (auto simp: finiteInteger_def is_safe_integer_def num_integral_def le_floor_iff floor_le_iff split: pdata.splits jsnum.splits if_splits)

lemma finiteInteger_same [simp]: "0 \<le> n \<Longrightarrow> n \<le> m \<Longrightarrow> n \<le> max_safe_integer \<Longrightarrow> finiteInteger m (PNum (Fin (of_int n))) = Inr n"
  by (simp add: finiteInteger_def is_safe_integer_def)

lemma pfld_Cons [simp]: "pfld ((k, p) # r) k' = (if k = k' then p else pfld r k')"
  by (simp add: pfld_def)

lemma pfld_Nil [simp]: "pfld [] k = PUndef"
  by (simp add: pfld_def)

lemmas primitive_wf = jd_text_wf jd_identifier_wf finiteInteger_wf

end
