(* ===== verification/JudgeRequest.thy ===== *)
theory JudgeRequest
  imports JudgeData
begin

text \<open>
  Judge requests: \<open>packages/llm-judge/src/request-validation.ts\<close> with the types and limits of
  \<open>contracts.ts\<close>. A request names the service run, the rubric, the question, the labels that may be
  given and the evidence; \<open>normalizeJudgeRequest\<close> accepts exactly the well-formed ones.
\<close>

section \<open>Types and limits\<close>

definition maxAllowedLabels :: nat where "maxAllowedLabels = 32"
definition maxEvidenceItems :: nat where "maxEvidenceItems = 32"
definition maxQuestionChars :: nat where "maxQuestionChars = 4000"
definition maxTextCharsPerEvidence :: nat where "maxTextCharsPerEvidence = 32000"
definition maxTotalTextChars :: nat where "maxTotalTextChars = 128000"
definition maxImageBytesPerEvidence :: int where "maxImageBytesPerEvidence = 5242880"
definition maxTotalImageBytes :: int where "maxTotalImageBytes = 10485760"
definition maxReasons :: nat where "maxReasons = 16"
definition maxObservedFacts :: nat where "maxObservedFacts = 32"
definition maxHypotheses :: nat where "maxHypotheses = 32"

datatype image_media = Jpeg | Png | Webp

fun media_name :: "image_media \<Rightarrow> string" where
  "media_name Jpeg = ''image/jpeg''"
| "media_name Png = ''image/png''"
| "media_name Webp = ''image/webp''"

text \<open>An item of evidence; the origin of every item is a service artifact, named by its id.\<close>

datatype judge_evidence =
    TextEvidence (je_id: string) (je_run: string) (je_artifact: string) (je_text: string)
  | ImageEvidence (je_id: string) (je_run: string) (je_artifact: string) (je_media: image_media)
      (je_byteLength: int) (je_dataBase64: string)

record judge_request =
  jr_serviceRunId :: string
  jr_rubricVersion :: string
  jr_question :: string
  jr_allowedLabels :: "string list"
  jr_evidence :: "judge_evidence list"

section \<open>Base64\<close>

text \<open>
  \<open>Buffer.from(s, "base64")\<close> takes both alphabets and skips what is in neither; \<open>toString("base64")\<close>
  writes the standard alphabet with padding. A padding character before the end is skipped here; however
  it is read, the text written back has padding only at the end and differs from such a text.
\<close>

definition b64_alphabet :: string where
  "b64_alphabet = ''ABCDEFGHIJKLMNOPQRSTUVWXYZabcdefghijklmnopqrstuvwxyz0123456789+/''"

definition b64_sextet :: "char \<Rightarrow> nat option" where
  "b64_sextet c = (if is_upper c then Some (code c - 65) else if is_lower c then Some (code c - 71)
     else if is_digit c then Some (code c + 4) else if c \<in> set ''+-'' then Some 62
     else if c \<in> set ''/_'' then Some 63 else None)"

fun b64_bytes :: "nat list \<Rightarrow> nat list" where
  "b64_bytes (a # b # c # d # xs) =
     (a * 4 + b div 16) # ((b mod 16) * 16 + c div 4) # ((c mod 4) * 64 + d) # b64_bytes xs"
| "b64_bytes [a, b, c] = [a * 4 + b div 16, (b mod 16) * 16 + c div 4]"
| "b64_bytes [a, b] = [a * 4 + b div 16]"
| "b64_bytes _ = []"

definition b64_decode :: "string \<Rightarrow> nat list" where
  "b64_decode s = b64_bytes (List.map_filter b64_sextet s)"

fun b64_encode :: "nat list \<Rightarrow> string" where
  "b64_encode (x # y # z # bs) = b64_alphabet ! (x div 4) # b64_alphabet ! ((x mod 4) * 16 + y div 16)
     # b64_alphabet ! ((y mod 16) * 4 + z div 64) # b64_alphabet ! (z mod 64) # b64_encode bs"
| "b64_encode [x, y] = [b64_alphabet ! (x div 4), b64_alphabet ! ((x mod 4) * 16 + y div 16),
     b64_alphabet ! ((y mod 16) * 4), CHR ''='']"
| "b64_encode [x] = [b64_alphabet ! (x div 4), b64_alphabet ! ((x mod 4) * 16), CHR ''='', CHR ''='']"
| "b64_encode [] = []"

definition decodedBytes :: "string \<Rightarrow> judge_error + int" where
  "decodedBytes s = (let bs = b64_decode s in if b64_encode bs \<noteq> s then Inl ContractError else Inr (int (length bs)))"

section \<open>The request\<close>

definition normalizeOrigin :: "pdata \<Rightarrow> judge_error + string" where
  "normalizeOrigin p = rbind (jd_record p) (\<lambda>r.
     rbind (jd_exactKeys [''kind'', ''artifactId''] r) (\<lambda>_.
     if pfld r ''kind'' \<noteq> PStr ''serviceArtifact'' then Inl ContractError else jd_identifier (pfld r ''artifactId'')))"

definition media_of :: "pdata \<Rightarrow> judge_error + image_media" where
  "media_of p = (if p = PStr ''image/jpeg'' then Inr Jpeg else if p = PStr ''image/png'' then Inr Png
     else if p = PStr ''image/webp'' then Inr Webp else Inl ContractError)"

definition jd_string :: "pdata \<Rightarrow> judge_error + string" where
  "jd_string p = (case p of PStr s \<Rightarrow> Inr s | _ \<Rightarrow> Inl ContractError)"

definition text_evidence :: "string \<Rightarrow> string \<Rightarrow> string \<Rightarrow> pfields \<Rightarrow> judge_error + judge_evidence" where
  "text_evidence i run a r =
     rbind (jd_exactKeys [''kind'', ''evidenceId'', ''serviceRunId'', ''origin'', ''contentType'', ''text''] r) (\<lambda>_.
     if pfld r ''contentType'' \<noteq> PStr ''text/plain'' then Inl ContractError else
     rbind (jd_text maxTextCharsPerEvidence (pfld r ''text'')) (\<lambda>t. Inr (TextEvidence i run a t)))"

definition image_evidence :: "string \<Rightarrow> string \<Rightarrow> string \<Rightarrow> pfields \<Rightarrow> judge_error + judge_evidence" where
  "image_evidence i run a r =
     rbind (jd_exactKeys [''kind'', ''evidenceId'', ''serviceRunId'', ''origin'', ''mediaType'', ''byteLength'', ''dataBase64''] r) (\<lambda>_.
     rbind (media_of (pfld r ''mediaType'')) (\<lambda>m.
     rbind (finiteInteger maxImageBytesPerEvidence (pfld r ''byteLength'')) (\<lambda>n.
     if n = 0 then Inl ContractError else
     rbind (jd_string (pfld r ''dataBase64'')) (\<lambda>s.
     if int (length s) \<noteq> 4 * ((n + 2) div 3) then Inl ContractError else
     rbind (decodedBytes s) (\<lambda>k. if k \<noteq> n then Inl ContractError else Inr (ImageEvidence i run a m n s))))))"

definition normalizeEvidence :: "string \<Rightarrow> pdata \<Rightarrow> judge_error + judge_evidence" where
  "normalizeEvidence serviceRunId p = rbind (jd_record p) (\<lambda>r.
     rbind (jd_identifier (pfld r ''evidenceId'')) (\<lambda>i.
     rbind (jd_identifier (pfld r ''serviceRunId'')) (\<lambda>run.
     if run \<noteq> serviceRunId then Inl ContractError else
     rbind (normalizeOrigin (pfld r ''origin'')) (\<lambda>a.
     if pfld r ''kind'' = PStr ''text'' then text_evidence i run a r
     else if pfld r ''kind'' = PStr ''image'' then image_evidence i run a r
     else Inl ContractError))))"

fun text_chars :: "judge_evidence \<Rightarrow> nat" where
  "text_chars (TextEvidence _ _ _ t) = length t"
| "text_chars (ImageEvidence _ _ _ _ _ _) = 0"

fun image_bytes :: "judge_evidence \<Rightarrow> int" where
  "image_bytes (TextEvidence _ _ _ _) = 0"
| "image_bytes (ImageEvidence _ _ _ _ n _) = n"

text \<open>A request as the data it is an object of.\<close>

definition origin_data :: "string \<Rightarrow> pdata" where
  "origin_data a = PObj [(''kind'', PStr ''serviceArtifact''), (''artifactId'', PStr a)]"

fun evidence_data :: "judge_evidence \<Rightarrow> pdata" where
  "evidence_data (TextEvidence i run a t) = PObj [(''kind'', PStr ''text''), (''evidenceId'', PStr i),
     (''serviceRunId'', PStr run), (''origin'', origin_data a), (''contentType'', PStr ''text/plain''), (''text'', PStr t)]"
| "evidence_data (ImageEvidence i run a m n s) = PObj [(''kind'', PStr ''image''), (''evidenceId'', PStr i),
     (''serviceRunId'', PStr run), (''origin'', origin_data a), (''mediaType'', PStr (media_name m)),
     (''byteLength'', PNum (Fin (of_int n))), (''dataBase64'', PStr s)]"

definition request_data :: "judge_request \<Rightarrow> pdata" where
  "request_data q = PObj [(''serviceRunId'', PStr (jr_serviceRunId q)), (''rubricVersion'', PStr (jr_rubricVersion q)),
     (''question'', PStr (jr_question q)), (''allowedLabels'', PArr (map PStr (jr_allowedLabels q))),
     (''evidence'', PArr (map evidence_data (jr_evidence q)))]"

definition request_keys :: "string list" where
  "request_keys = [''serviceRunId'', ''rubricVersion'', ''question'', ''allowedLabels'', ''evidence'']"

definition read_request :: "pfields \<Rightarrow> judge_error + judge_request" where
  "read_request r =
     rbind (jd_exactKeys request_keys r) (\<lambda>_.
     rbind (jd_identifier (pfld r ''serviceRunId'')) (\<lambda>run.
     rbind (jd_array maxAllowedLabels (pfld r ''allowedLabels'')) (\<lambda>ls.
     rbind (rmap jd_identifier ls) (\<lambda>labels.
     if length labels = 0 then Inl ContractError else
     rbind (unique labels) (\<lambda>_.
     rbind (jd_array maxEvidenceItems (pfld r ''evidence'')) (\<lambda>es.
     rbind (rmap (normalizeEvidence run) es) (\<lambda>evidence.
     rbind (unique (map je_id evidence)) (\<lambda>_.
     if sum_list (map text_chars evidence) > maxTotalTextChars then Inl ContractError
     else if sum_list (map image_bytes evidence) > maxTotalImageBytes then Inl ContractError else
     rbind (jd_identifier (pfld r ''rubricVersion'')) (\<lambda>rubric.
     rbind (jd_text maxQuestionChars (pfld r ''question'')) (\<lambda>question.
     Inr \<lparr>jr_serviceRunId = run, jr_rubricVersion = rubric, jr_question = question,
       jr_allowedLabels = labels, jr_evidence = evidence\<rparr>))))))))))"

definition normalizeJudgeRequest :: "jsv \<Rightarrow> judge_error + judge_request" where
  "normalizeJudgeRequest v =
     rbind (sanitizeUntrusted request_budget v) (\<lambda>p.
     rbind (jd_record p) (\<lambda>r.
     rbind (read_request r) (\<lambda>q.
     rbind (sanitizeUntrusted request_budget (plain_value (request_data q))) (\<lambda>_. Inr q))))"

section \<open>Well-formed requests\<close>

fun evidence_ok :: "string \<Rightarrow> judge_evidence \<Rightarrow> bool" where
  "evidence_ok run (TextEvidence i r a t) =
     (jd_identifier_ok i \<and> r = run \<and> jd_identifier_ok run \<and> jd_identifier_ok a \<and> trimmed maxTextCharsPerEvidence t)"
| "evidence_ok run (ImageEvidence i r a m n s) =
     (jd_identifier_ok i \<and> r = run \<and> jd_identifier_ok run \<and> jd_identifier_ok a \<and> 0 < n \<and> n \<le> maxImageBytesPerEvidence
      \<and> int (length s) = 4 * ((n + 2) div 3) \<and> decodedBytes s = Inr n)"

definition request_ok :: "judge_request \<Rightarrow> bool" where
  "request_ok q = (jd_identifier_ok (jr_serviceRunId q) \<and> jd_identifier_ok (jr_rubricVersion q)
     \<and> trimmed maxQuestionChars (jr_question q)
     \<and> jr_allowedLabels q \<noteq> [] \<and> length (jr_allowedLabels q) \<le> maxAllowedLabels \<and> distinct (jr_allowedLabels q)
     \<and> list_all jd_identifier_ok (jr_allowedLabels q)
     \<and> length (jr_evidence q) \<le> maxEvidenceItems \<and> distinct (map je_id (jr_evidence q))
     \<and> list_all (evidence_ok (jr_serviceRunId q)) (jr_evidence q)
     \<and> sum_list (map text_chars (jr_evidence q)) \<le> maxTotalTextChars
     \<and> sum_list (map image_bytes (jr_evidence q)) \<le> maxTotalImageBytes)"

definition judge_request_wf :: "judge_request \<Rightarrow> bool" where
  "judge_request_wf q = (request_ok q \<and> in_budget request_budget (request_data q))"

lemma media_of_wf: "media_of p = Inr m \<Longrightarrow> p = PStr (media_name m)"
  by (auto simp: media_of_def split: if_splits)

lemma media_of_same [simp]: "media_of (PStr (media_name m)) = Inr m"
  by (cases m) (simp_all add: media_of_def)

lemma normalizeOrigin_wf: "normalizeOrigin p = Inr a \<Longrightarrow> jd_identifier_ok a"
  by (auto simp: normalizeOrigin_def dest: jd_identifier_wf)

lemma normalizeOrigin_same [simp]: "jd_identifier_ok a \<Longrightarrow> normalizeOrigin (origin_data a) = Inr a"
  by (simp add: normalizeOrigin_def origin_data_def)

lemma evidence_wf: "normalizeEvidence run p = Inr e \<Longrightarrow> evidence_ok run e"
  by (auto simp: normalizeEvidence_def text_evidence_def image_evidence_def split: if_splits
      dest!: primitive_wf normalizeOrigin_wf)

lemma evidence_same: "evidence_ok run e \<Longrightarrow> normalizeEvidence run (evidence_data e) = Inr e"
  by (cases e) (auto simp: normalizeEvidence_def text_evidence_def image_evidence_def jd_string_def
      maxImageBytesPerEvidence_def max_safe_integer_def)

lemma rmap_wf:
  "(\<And>x y. f x = Inr y \<Longrightarrow> P y) \<Longrightarrow> rmap f xs = Inr ys \<Longrightarrow> list_all P ys \<and> length ys = length xs"
  by (auto simp: list_all_iff dest: rmap_set rmap_length)

lemma identifiers_wf: "rmap jd_identifier ps = Inr ls \<Longrightarrow> list_all jd_identifier_ok ls \<and> length ls = length ps"
  by (erule rmap_wf [rotated], erule jd_identifier_wf)

lemma evidences_wf: "rmap (normalizeEvidence run) ps = Inr es \<Longrightarrow> list_all (evidence_ok run) es \<and> length es = length ps"
  by (erule rmap_wf [rotated], erule evidence_wf)

lemma read_request_ok: "read_request r = Inr q \<Longrightarrow> request_ok q"
  unfolding read_request_def rbind_eq_Inr_iff if_Inl_eq_Inr
  by (elim exE conjE) (auto simp: request_ok_def dest!: identifiers_wf evidences_wf jd_identifier_wf jd_text_wf)

lemma read_request_same:
  assumes ok: "request_ok q" and r: "request_data q = PObj r"
  shows "read_request r = Inr q"
proof -
  have "rmap jd_identifier (map PStr (jr_allowedLabels q)) = Inr (jr_allowedLabels q)"
    by (rule rmap_map_Inr) (use ok in \<open>simp add: request_ok_def list_all_iff\<close>)
  moreover have "rmap (normalizeEvidence (jr_serviceRunId q)) (map evidence_data (jr_evidence q)) = Inr (jr_evidence q)"
    by (rule rmap_map_Inr) (use ok in \<open>simp add: request_ok_def list_all_iff evidence_same\<close>)
  ultimately show ?thesis using r ok
    by (auto simp: request_data_def request_ok_def read_request_def request_keys_def)
qed

interpretation vrequest: validator normalizeJudgeRequest "\<lambda>q. plain_value (request_data q)" judge_request_wf
proof
  fix v q assume "normalizeJudgeRequest v = Inr q"
  then show "judge_request_wf q"
    by (auto simp: normalizeJudgeRequest_def judge_request_wf_def read_request_ok sanitize_plain_iff)
next
  fix q assume wf: "judge_request_wf q"
  then have s: "sanitizeUntrusted request_budget (plain_value (request_data q)) = Inr (request_data q)"
    by (simp add: judge_request_wf_def sanitize_plain)
  obtain r where "request_data q = PObj r" by (simp add: request_data_def)
  then have "read_request r = Inr q" using wf read_request_same \<open>request_data q = PObj r\<close> by (simp add: judge_request_wf_def)
  then show "normalizeJudgeRequest (plain_value (request_data q)) = Inr q"
    by (simp add: normalizeJudgeRequest_def s) (simp add: \<open>request_data q = PObj r\<close>)
qed

section \<open>The data of a request\<close>

text \<open>A text may lose the blanks around it; all other data are kept.\<close>

definition text_kept :: "string \<Rightarrow> string \<Rightarrow> bool" where
  "text_kept s t = (t = s \<or> t = js_trim s)"

definition same_plain :: "pdata \<Rightarrow> pdata \<Rightarrow> bool" where
  "same_plain p q = same_data text_kept (plain_value p) (plain_value q)"

lemma same_plain_refl [simp]: "same_plain p p"
  by (simp add: same_plain_def same_data.same)

lemma same_plain_str: "t = js_trim s \<Longrightarrow> same_plain (PStr s) (PStr t)"
  by (auto simp: same_plain_def text_kept_def intro: same_data.str)

lemma same_plain_arr: "list_all2 same_plain ps qs \<Longrightarrow> same_plain (PArr ps) (PArr qs)"
  unfolding same_plain_def plain_value.simps by (rule same_arr) (simp add: list.rel_map same_plain_def [abs_def])

lemma fld_plain: "fld (map (\<lambda>(k, p). (k, plain_value p)) fs) k = plain_value (pfld fs k)"
  by (simp add: fld_def pfld_def map_of_map split: option.split)

lemma keys_plain: "fst ` set (map (\<lambda>(k, p). (k, plain_value p)) fs) = fst ` set fs"
  by force

lemma pfld_missing: "k \<notin> fst ` set fs \<Longrightarrow> pfld fs k = PUndef"
  by (simp add: pfld_def map_of_eq_None_iff [THEN iffD2])

lemma same_plain_obj:
  assumes "list_all (\<lambda>f. fst f \<in> set ks) fs" "map fst es = ks"
    "list_all (\<lambda>k. pfld fs k \<noteq> PUndef \<and> same_plain (pfld fs k) (pfld es k)) ks"
  shows "same_plain (PObj fs) (PObj es)"
proof -
  have es: "fst ` set es = set ks" using assms(2) by (metis set_map)
  have "set ks \<subseteq> fst ` set fs" using assms(3) pfld_missing [of _ fs] by (auto simp: list_all_iff)
  moreover have "fst ` set fs \<subseteq> set ks" using assms(1) by (auto simp: list_all_iff)
  ultimately have "fst ` set fs = fst ` set es" using es by blast
  then show ?thesis unfolding same_plain_def plain_value.simps
    using assms(3) by (intro same_obj) (simp_all only: keys_plain fld_plain es, auto simp: list_all_iff same_plain_def)
qed

lemma jd_text_kept: "jd_text m p = Inr t \<Longrightarrow> p \<noteq> PUndef \<and> same_plain p (PStr t)"
  by (auto simp: jd_text_def Let_def same_plain_str split: pdata.splits if_splits)

lemma jd_identifier_kept: "jd_identifier p = Inr t \<Longrightarrow> p \<noteq> PUndef \<and> same_plain p (PStr t)"
  by (auto simp: jd_identifier_def dest: jd_text_kept split: if_splits)

lemma jd_record_read: "jd_record p = Inr r \<longleftrightarrow> p = PObj r"
  by (auto simp: jd_record_def split: pdata.splits)

lemma finiteInteger_kept: "finiteInteger m p = Inr n \<Longrightarrow> p = PNum (Fin (of_int n))"
  by (auto simp: finiteInteger_def is_safe_integer_def split: pdata.splits jsnum.splits if_splits elim!: num_integralE)

lemma origin_kept:
  assumes "normalizeOrigin p = Inr a"
  shows "p \<noteq> PUndef \<and> same_plain p (origin_data a)"
proof -
  obtain r where r: "p = PObj r" "list_all (\<lambda>f. fst f \<in> set [''kind'', ''artifactId'']) r"
      "pfld r ''kind'' = PStr ''serviceArtifact''" "jd_identifier (pfld r ''artifactId'') = Inr a"
    using assms by (auto simp: normalizeOrigin_def jd_record_read split: if_splits)
  have "same_plain (PObj r) (origin_data a)" unfolding origin_data_def
    by (rule same_plain_obj [OF r(2)]) (use r(3) jd_identifier_kept [OF r(4)] in simp_all)
  then show ?thesis using r(1) by simp
qed

lemma text_evidence_kept:
  assumes "text_evidence i run a r = Inr e" "pfld r ''kind'' = PStr ''text''" "jd_identifier (pfld r ''evidenceId'') = Inr i"
    "jd_identifier (pfld r ''serviceRunId'') = Inr run" "normalizeOrigin (pfld r ''origin'') = Inr a"
  shows "same_plain (PObj r) (evidence_data e)"
proof -
  obtain t where r: "list_all (\<lambda>f. fst f \<in> set [''kind'', ''evidenceId'', ''serviceRunId'', ''origin'', ''contentType'', ''text'']) r"
      "pfld r ''contentType'' = PStr ''text/plain''" "jd_text maxTextCharsPerEvidence (pfld r ''text'') = Inr t" "e = TextEvidence i run a t"
    using assms(1) by (auto simp: text_evidence_def split: if_splits)
  show ?thesis unfolding r(4) evidence_data.simps
    by (rule same_plain_obj [OF r(1)])
      (use assms(2) r(2) jd_text_kept [OF r(3)] jd_identifier_kept [OF assms(3)] jd_identifier_kept [OF assms(4)]
        origin_kept [OF assms(5)] in simp_all)
qed

lemma image_evidence_kept:
  assumes "image_evidence i run a r = Inr e" "pfld r ''kind'' = PStr ''image''" "jd_identifier (pfld r ''evidenceId'') = Inr i"
    "jd_identifier (pfld r ''serviceRunId'') = Inr run" "normalizeOrigin (pfld r ''origin'') = Inr a"
  shows "same_plain (PObj r) (evidence_data e)"
proof -
  obtain m n s where r: "list_all (\<lambda>f. fst f \<in> set [''kind'', ''evidenceId'', ''serviceRunId'', ''origin'', ''mediaType'', ''byteLength'', ''dataBase64'']) r"
      "pfld r ''mediaType'' = PStr (media_name m)" "finiteInteger maxImageBytesPerEvidence (pfld r ''byteLength'') = Inr n"
      "pfld r ''dataBase64'' = PStr s" "e = ImageEvidence i run a m n s"
    using assms(1) by (auto simp: image_evidence_def jd_string_def dest: media_of_wf split: if_splits pdata.splits)
  show ?thesis unfolding r(5) evidence_data.simps
    by (rule same_plain_obj [OF r(1)])
      (use assms(2) r(2,4) finiteInteger_kept [OF r(3)] jd_identifier_kept [OF assms(3)] jd_identifier_kept [OF assms(4)]
        origin_kept [OF assms(5)] in simp_all)
qed

lemma evidence_kept: "normalizeEvidence run p = Inr e \<Longrightarrow> same_plain p (evidence_data e)"
  by (auto simp: normalizeEvidence_def jd_record_read split: if_splits intro: text_evidence_kept image_evidence_kept)

lemma request_kept:
  assumes "read_request r = Inr q"
  shows "same_plain (PObj r) (request_data q)"
proof -
  obtain ls es where r: "list_all (\<lambda>f. fst f \<in> set request_keys) r"
      "jd_identifier (pfld r ''serviceRunId'') = Inr (jr_serviceRunId q)" "pfld r ''allowedLabels'' = PArr ls"
      "rmap jd_identifier ls = Inr (jr_allowedLabels q)" "pfld r ''evidence'' = PArr es"
      "rmap (normalizeEvidence (jr_serviceRunId q)) es = Inr (jr_evidence q)"
      "jd_identifier (pfld r ''rubricVersion'') = Inr (jr_rubricVersion q)"
      "jd_text maxQuestionChars (pfld r ''question'') = Inr (jr_question q)"
    using assms unfolding read_request_def rbind_eq_Inr_iff if_Inl_eq_Inr by (elim exE conjE) auto
  have "same_plain (PArr ls) (PArr (map PStr (jr_allowedLabels q)))"
    by (rule same_plain_arr, rule rmap_same [OF _ r(4)]) (use jd_identifier_kept in blast)
  moreover have "same_plain (PArr es) (PArr (map evidence_data (jr_evidence q)))"
    by (rule same_plain_arr, rule rmap_same [OF _ r(6)]) (rule evidence_kept)
  ultimately show ?thesis unfolding request_data_def
    by (intro same_plain_obj [OF r(1)])
      (use r(3,5) jd_identifier_kept [OF r(2)] jd_identifier_kept [OF r(7)] jd_text_kept [OF r(8)] in \<open>simp_all add: request_keys_def\<close>)
qed

text \<open>An accepted value, as it is copied, holds the data of its request.\<close>

lemma request_data_kept:
  assumes "normalizeJudgeRequest v = Inr q"
  shows "\<exists>p. sanitizeUntrusted request_budget v = Inr p \<and> same_plain p (request_data q)"
  using assms request_kept by (auto simp: normalizeJudgeRequest_def jd_record_read)

end
