(* ===== verification/JudgeOutcome.thy ===== *)
theory JudgeOutcome
  imports JudgeRequest
begin

text \<open>
  Judge outcomes: \<open>packages/llm-judge/src/outcome-validation.ts\<close>. What a provider answers is untrusted;
  \<open>normalizeProviderOutcome\<close> accepts only outcomes that are supported by the request: a label that was
  allowed, citations of the request's own evidence, facts that are cited by the outcome itself.
\<close>

section \<open>Types\<close>

datatype support_scope = UiScope | ArtifactScope | BackendScope

fun support_name :: "support_scope \<Rightarrow> string" where
  "support_name UiScope = ''ui''"
| "support_name ArtifactScope = ''artifact''"
| "support_name BackendScope = ''backend''"

record observed_fact =
  of_scope :: support_scope
  of_statement :: string
  of_refs :: "string list"

record hypothesis =
  hy_scope :: support_scope
  hy_statement :: string
  hy_refs :: "string list"
  hy_verificationNeeded :: string

record provider_usage =
  us_inputTokens :: "int option"
  us_outputTokens :: "int option"
  us_totalTokens :: "int option"

record provider_metadata =
  pm_provider :: string
  pm_model :: string
  pm_requestId :: "string option"
  pm_latencyMs :: "int option"
  pm_usage :: "provider_usage option"

record judge_support =
  su_reasons :: "string list"
  su_refs :: "string list"
  su_facts :: "observed_fact list"
  su_hypotheses :: "hypothesis list"
  su_metadata :: provider_metadata

datatype failure_kind = Aborted | DeadlineExceeded | Authentication | RateLimited | Server | InvalidResponse | OtherFailure

fun failure_name :: "failure_kind \<Rightarrow> string" where
  "failure_name Aborted = ''aborted''"
| "failure_name DeadlineExceeded = ''deadlineExceeded''"
| "failure_name Authentication = ''authentication''"
| "failure_name RateLimited = ''rateLimited''"
| "failure_name Server = ''server''"
| "failure_name InvalidResponse = ''invalidResponse''"
| "failure_name OtherFailure = ''provider''"

text \<open>The messages of failures are fixed texts of the program and are left out.\<close>

datatype judge_outcome =
    Classified (oc_label: string) (oc_confidence: rat) (oc_support: judge_support)
  | Insufficient (oc_reason: string) (oc_support: judge_support)
  | ProviderFailure (oc_kind: failure_kind) (oc_retryable: bool) (oc_metadata: "provider_metadata option")

section \<open>Validation\<close>

definition one_ref :: "string list \<Rightarrow> pdata \<Rightarrow> judge_error + string" where
  "one_ref permitted p = rbind (jd_text 128 p) (\<lambda>t. if t \<in> set permitted then Inr t else Inl ContractError)"

definition refs :: "string list \<Rightarrow> bool \<Rightarrow> pdata \<Rightarrow> judge_error + string list" where
  "refs permitted allowEmpty p =
     rbind (jd_array maxEvidenceItems p) (\<lambda>ps.
     rbind (rmap (one_ref permitted) ps) (\<lambda>rs.
     if \<not> allowEmpty \<and> length rs = 0 then Inl ContractError else
     rbind (unique rs) (\<lambda>_. Inr rs)))"

definition jd_optional :: "(pdata \<Rightarrow> judge_error + 'a) \<Rightarrow> pdata \<Rightarrow> judge_error + 'a option" where
  "jd_optional f p = (if p = PUndef then Inr None else rbind (f p) (\<lambda>a. Inr (Some a)))"

definition jd_usage :: "pdata \<Rightarrow> judge_error + provider_usage" where
  "jd_usage p = rbind (jd_record p) (\<lambda>r.
     rbind (jd_exactKeys [''inputTokens'', ''outputTokens'', ''totalTokens''] r) (\<lambda>_.
     rbind (jd_optional (finiteInteger max_safe_integer) (pfld r ''inputTokens'')) (\<lambda>i.
     rbind (jd_optional (finiteInteger max_safe_integer) (pfld r ''outputTokens'')) (\<lambda>out.
     rbind (jd_optional (finiteInteger max_safe_integer) (pfld r ''totalTokens'')) (\<lambda>t.
     Inr \<lparr>us_inputTokens = i, us_outputTokens = out, us_totalTokens = t\<rparr>)))))"

definition jd_metadata :: "pdata \<Rightarrow> judge_error + provider_metadata" where
  "jd_metadata p = rbind (jd_record p) (\<lambda>r.
     rbind (jd_exactKeys [''provider'', ''model'', ''requestId'', ''latencyMs'', ''usage''] r) (\<lambda>_.
     rbind (jd_text 128 (pfld r ''provider'')) (\<lambda>pr.
     rbind (jd_text 128 (pfld r ''model'')) (\<lambda>m.
     rbind (jd_optional (jd_text 256) (pfld r ''requestId'')) (\<lambda>i.
     rbind (jd_optional (finiteInteger max_safe_integer) (pfld r ''latencyMs'')) (\<lambda>l.
     rbind (jd_optional jd_usage (pfld r ''usage'')) (\<lambda>u.
     Inr \<lparr>pm_provider = pr, pm_model = m, pm_requestId = i, pm_latencyMs = l, pm_usage = u\<rparr>)))))))"

definition scope_field :: "support_scope list \<Rightarrow> pdata \<Rightarrow> judge_error + support_scope" where
  "scope_field allowed p = (case find (\<lambda>s. p = PStr (support_name s)) allowed of
     None \<Rightarrow> Inl ContractError | Some s \<Rightarrow> Inr s)"

definition fact_of :: "string list \<Rightarrow> string list \<Rightarrow> pdata \<Rightarrow> judge_error + observed_fact" where
  "fact_of permitted outcomeRefs p = rbind (jd_record p) (\<lambda>r.
     rbind (jd_exactKeys [''kind'', ''scope'', ''statement'', ''evidenceRefs''] r) (\<lambda>_.
     if pfld r ''kind'' \<noteq> PStr ''observed'' then Inl ContractError else
     rbind (scope_field [UiScope, ArtifactScope] (pfld r ''scope'')) (\<lambda>sc.
     rbind (refs permitted False (pfld r ''evidenceRefs'')) (\<lambda>rs.
     if list_ex (\<lambda>x. x \<notin> set outcomeRefs) rs then Inl ContractError else
     rbind (jd_text 2000 (pfld r ''statement'')) (\<lambda>st.
     Inr \<lparr>of_scope = sc, of_statement = st, of_refs = rs\<rparr>)))))"

definition facts :: "string list \<Rightarrow> string list \<Rightarrow> pdata \<Rightarrow> judge_error + observed_fact list" where
  "facts permitted outcomeRefs p = rbind (jd_array maxObservedFacts p) (rmap (fact_of permitted outcomeRefs))"

definition hypothesis_of :: "string list \<Rightarrow> string list \<Rightarrow> pdata \<Rightarrow> judge_error + hypothesis" where
  "hypothesis_of permitted outcomeRefs p = rbind (jd_record p) (\<lambda>r.
     rbind (jd_exactKeys [''kind'', ''scope'', ''statement'', ''evidenceRefs'', ''verificationNeeded''] r) (\<lambda>_.
     if pfld r ''kind'' \<noteq> PStr ''hypothesis'' then Inl ContractError else
     rbind (scope_field [UiScope, ArtifactScope, BackendScope] (pfld r ''scope'')) (\<lambda>sc.
     rbind (refs permitted True (pfld r ''evidenceRefs'')) (\<lambda>rs.
     if list_ex (\<lambda>x. x \<notin> set outcomeRefs) rs then Inl ContractError else
     rbind (jd_text 2000 (pfld r ''statement'')) (\<lambda>st.
     rbind (jd_text 2000 (pfld r ''verificationNeeded'')) (\<lambda>vn.
     Inr \<lparr>hy_scope = sc, hy_statement = st, hy_refs = rs, hy_verificationNeeded = vn\<rparr>))))))"

definition hypotheses :: "string list \<Rightarrow> string list \<Rightarrow> pdata \<Rightarrow> judge_error + hypothesis list" where
  "hypotheses permitted outcomeRefs p = rbind (jd_array maxHypotheses p) (rmap (hypothesis_of permitted outcomeRefs))"

definition support :: "pfields \<Rightarrow> judge_request \<Rightarrow> bool \<Rightarrow> judge_error + judge_support" where
  "support r q needed = (let permitted = map je_id (jr_evidence q) in
     rbind (refs permitted (\<not> needed) (pfld r ''evidenceRefs'')) (\<lambda>rs.
     rbind (jd_array maxReasons (pfld r ''reasons'')) (\<lambda>xs.
     rbind (rmap (jd_text 2000) xs) (\<lambda>reasons.
     if length reasons = 0 then Inl ContractError else
     rbind (facts permitted rs (pfld r ''observedFacts'')) (\<lambda>fs.
     if needed \<and> length fs = 0 then Inl ContractError else
     rbind (hypotheses permitted rs (pfld r ''hypotheses'')) (\<lambda>hs.
     rbind (jd_metadata (pfld r ''providerMetadata'')) (\<lambda>m.
     Inr \<lparr>su_reasons = reasons, su_refs = rs, su_facts = fs, su_hypotheses = hs, su_metadata = m\<rparr>)))))))"

definition allowed_label :: "judge_request \<Rightarrow> pdata \<Rightarrow> judge_error + string" where
  "allowed_label q p = (case p of PStr s \<Rightarrow> if s \<in> set (jr_allowedLabels q) then Inr s else Inl ContractError
     | _ \<Rightarrow> Inl ContractError)"

definition confidence_of :: "pdata \<Rightarrow> judge_error + rat" where
  "confidence_of p = (case p of PNum (Fin c) \<Rightarrow> if c < 0 \<or> c > 1 then Inl ContractError else Inr c
     | _ \<Rightarrow> Inl ContractError)"

definition classified_outcome :: "judge_request \<Rightarrow> pfields \<Rightarrow> judge_error + judge_outcome" where
  "classified_outcome q r = (if length (jr_evidence q) = 0 then Inl ContractError else
     rbind (jd_exactKeys [''status'', ''label'', ''confidence'', ''reasons'', ''evidenceRefs'', ''observedFacts'',
       ''hypotheses'', ''providerMetadata''] r) (\<lambda>_.
     rbind (allowed_label q (pfld r ''label'')) (\<lambda>l.
     rbind (confidence_of (pfld r ''confidence'')) (\<lambda>c.
     rbind (support r q True) (\<lambda>s. Inr (Classified l c s))))))"

definition insufficient_outcome :: "judge_request \<Rightarrow> pfields \<Rightarrow> judge_error + judge_outcome" where
  "insufficient_outcome q r =
     rbind (jd_exactKeys [''status'', ''reason'', ''reasons'', ''evidenceRefs'', ''observedFacts'',
       ''hypotheses'', ''providerMetadata''] r) (\<lambda>_.
     rbind (jd_text 2000 (pfld r ''reason'')) (\<lambda>t.
     rbind (support r q False) (\<lambda>s. Inr (Insufficient t s))))"

definition failure_kinds :: "failure_kind list" where
  "failure_kinds = [Aborted, DeadlineExceeded, Authentication, RateLimited, Server, InvalidResponse, OtherFailure]"

definition failure_kind_of :: "pdata \<Rightarrow> judge_error + failure_kind" where
  "failure_kind_of p = (case find (\<lambda>k. p = PStr (failure_name k)) failure_kinds of
     None \<Rightarrow> Inl ContractError | Some k \<Rightarrow> Inr k)"

definition jd_bool :: "pdata \<Rightarrow> judge_error + bool" where
  "jd_bool p = (case p of PBool b \<Rightarrow> Inr b | _ \<Rightarrow> Inl ContractError)"

definition failure_outcome :: "pfields \<Rightarrow> judge_error + judge_outcome" where
  "failure_outcome r =
     rbind (jd_exactKeys [''status'', ''failure'', ''providerMetadata''] r) (\<lambda>_.
     rbind (jd_record (pfld r ''failure'')) (\<lambda>f.
     rbind (jd_exactKeys [''kind'', ''message'', ''retryable''] f) (\<lambda>_.
     rbind (failure_kind_of (pfld f ''kind'')) (\<lambda>k.
     rbind (jd_bool (pfld f ''retryable'')) (\<lambda>b.
     rbind (jd_text 2000 (pfld f ''message'')) (\<lambda>_.
     rbind (jd_optional jd_metadata (pfld r ''providerMetadata'')) (\<lambda>m.
     Inr (ProviderFailure k b m))))))))"

definition normalizeProviderOutcome :: "jsv \<Rightarrow> judge_request \<Rightarrow> judge_error + judge_outcome" where
  "normalizeProviderOutcome v q =
     rbind (normalizeJudgeRequest (plain_value (request_data q))) (\<lambda>baseline.
     rbind (sanitizeUntrusted outcome_budget v) (\<lambda>p.
     rbind (jd_record p) (\<lambda>r.
     if pfld r ''status'' = PStr ''classified'' then classified_outcome baseline r
     else if pfld r ''status'' = PStr ''insufficient'' then insufficient_outcome baseline r
     else if pfld r ''status'' = PStr ''providerFailure'' then failure_outcome r
     else Inl ContractError)))"

section \<open>Supported outcomes\<close>

definition refs_ok :: "string list \<Rightarrow> bool \<Rightarrow> string list \<Rightarrow> bool" where
  "refs_ok permitted allowEmpty rs = (length rs \<le> maxEvidenceItems \<and> distinct rs \<and> list_all (\<lambda>x. x \<in> set permitted) rs
     \<and> (allowEmpty \<or> rs \<noteq> []))"

definition fact_ok :: "judge_request \<Rightarrow> string list \<Rightarrow> observed_fact \<Rightarrow> bool" where
  "fact_ok q cited f = (of_scope f \<noteq> BackendScope \<and> trimmed 2000 (of_statement f)
     \<and> refs_ok (map je_id (jr_evidence q)) False (of_refs f) \<and> list_all (\<lambda>x. x \<in> set cited) (of_refs f))"

definition hypothesis_ok :: "judge_request \<Rightarrow> string list \<Rightarrow> hypothesis \<Rightarrow> bool" where
  "hypothesis_ok q cited h = (trimmed 2000 (hy_statement h) \<and> trimmed 2000 (hy_verificationNeeded h)
     \<and> refs_ok (map je_id (jr_evidence q)) True (hy_refs h) \<and> list_all (\<lambda>x. x \<in> set cited) (hy_refs h))"

definition support_ok :: "judge_request \<Rightarrow> bool \<Rightarrow> judge_support \<Rightarrow> bool" where
  "support_ok q needed s = (refs_ok (map je_id (jr_evidence q)) (\<not> needed) (su_refs s)
     \<and> su_reasons s \<noteq> [] \<and> length (su_reasons s) \<le> maxReasons \<and> list_all (trimmed 2000) (su_reasons s)
     \<and> length (su_facts s) \<le> maxObservedFacts \<and> list_all (fact_ok q (su_refs s)) (su_facts s)
     \<and> (needed \<longrightarrow> su_facts s \<noteq> [])
     \<and> length (su_hypotheses s) \<le> maxHypotheses \<and> list_all (hypothesis_ok q (su_refs s)) (su_hypotheses s))"

fun outcome_supported :: "judge_request \<Rightarrow> judge_outcome \<Rightarrow> bool" where
  "outcome_supported q (Classified l c s) =
     (l \<in> set (jr_allowedLabels q) \<and> 0 \<le> c \<and> c \<le> 1 \<and> jr_evidence q \<noteq> [] \<and> support_ok q True s)"
| "outcome_supported q (Insufficient t s) = (trimmed 2000 t \<and> support_ok q False s)"
| "outcome_supported q (ProviderFailure k b m) = True"

lemma refs_wf: "refs permitted allowEmpty p = Inr rs \<Longrightarrow> refs_ok permitted allowEmpty rs"
  by (auto simp: refs_def refs_ok_def one_ref_def list_all_iff dest: rmap_length rmap_set)

lemma support_scope_wf: "scope_field allowed p = Inr s \<Longrightarrow> s \<in> set allowed"
  by (auto simp: scope_field_def find_Some_iff in_set_conv_nth split: option.splits)

lemma fact_wf: "fact_of (map je_id (jr_evidence q)) cited p = Inr f \<Longrightarrow> fact_ok q cited f"
  by (auto simp: fact_of_def fact_ok_def list_all_iff list_ex_iff dest!: refs_wf support_scope_wf jd_text_wf)

lemma hypothesis_wf: "hypothesis_of (map je_id (jr_evidence q)) cited p = Inr h \<Longrightarrow> hypothesis_ok q cited h"
  by (auto simp: hypothesis_of_def hypothesis_ok_def list_all_iff list_ex_iff dest!: refs_wf jd_text_wf)

lemma facts_wf: "facts (map je_id (jr_evidence q)) cited p = Inr fs \<Longrightarrow> length fs \<le> maxObservedFacts \<and> list_all (fact_ok q cited) fs"
  unfolding facts_def using rmap_wf [of "fact_of (map je_id (jr_evidence q)) cited" "fact_ok q cited", OF fact_wf] by fastforce

lemma hypotheses_wf: "hypotheses (map je_id (jr_evidence q)) cited p = Inr hs \<Longrightarrow>
    length hs \<le> maxHypotheses \<and> list_all (hypothesis_ok q cited) hs"
  unfolding hypotheses_def
  using rmap_wf [of "hypothesis_of (map je_id (jr_evidence q)) cited" "hypothesis_ok q cited", OF hypothesis_wf] by fastforce

lemma reasons_wf: "rmap (jd_text m) ps = Inr ts \<Longrightarrow> list_all (trimmed m) ts \<and> length ts = length ps"
  by (erule rmap_wf [rotated], erule jd_text_wf)

lemma support_wf: "support r q needed = Inr s \<Longrightarrow> support_ok q needed s"
  unfolding support_def Let_def rbind_eq_Inr_iff if_Inl_eq_Inr jd_array_Inr
  by (elim exE conjE) (auto simp: support_ok_def dest!: refs_wf facts_wf hypotheses_wf reasons_wf)

lemma outcome_wf:
  assumes "normalizeProviderOutcome v q = Inr out" and "judge_request_wf q"
  shows "outcome_supported q out"
proof -
  have b: "normalizeJudgeRequest (plain_value (request_data q)) = Inr q" using vrequest.decode_encode [OF assms(2)] .
  show ?thesis using assms(1) unfolding normalizeProviderOutcome_def b rbind_simps
    by (auto simp: classified_outcome_def insufficient_outcome_def failure_outcome_def allowed_label_def confidence_of_def
        split: if_splits pdata.splits jsnum.splits dest!: support_wf jd_text_wf)
qed

end
