(* ===== verification/JudgeRun.thy ===== *)
theory JudgeRun
  imports JudgeOutcome
begin

text \<open>
  One judge invocation: \<open>packages/llm-judge/src/judge.ts\<close> and \<open>invocation.ts\<close>. The call to the
  provider races the caller's signal and an absolute deadline. The invocation is a step machine: its
  events are the microtask that calls the provider, the provider's answer, the signal, the timer, the two
  reactions of \<open>Promise.race\<close> and the code after it. Each reading of the clock and of the signal is a
  \<open>moment\<close> given with the event in which the code takes it.
\<close>

section \<open>The invocation\<close>

record invocation_snapshot =
  iv_deadlineAt :: int
  iv_signal :: "jsv option"

definition data_value :: "(pkey \<times> jsprop) list \<Rightarrow> string \<Rightarrow> bool \<Rightarrow> judge_error + jsv" where
  "data_value ps k needed = (case map_of ps (StrKey k) of
     None \<Rightarrow> if needed then Inl ContractError else Inr VUndefined
   | Some AccProp \<Rightarrow> Inl ContractError
   | Some (DataProp e v) \<Rightarrow> Inr v)"

text \<open>\<open>branded\<close> is the runtime's check that a value is an \<open>AbortSignal\<close>.\<close>

definition snapshotInvocation :: "(jsv \<Rightarrow> bool) \<Rightarrow> jsv \<Rightarrow> judge_error + invocation_snapshot" where
  "snapshotInvocation branded v = (case v of
     VObj p ps \<Rightarrow>
       if list_ex (\<lambda>f. jd_symbol (fst f)) ps then Inl ContractError
       else if p = OtherProto then Inl ContractError
       else if list_ex (\<lambda>f. fst f \<noteq> StrKey ''deadlineAt'' \<and> fst f \<noteq> StrKey ''signal'') ps then Inl ContractError
       else rbind (data_value ps ''deadlineAt'' True) (\<lambda>d.
         (case d of
            VNum (Fin q) \<Rightarrow> if \<not> is_safe_integer (Fin q) \<or> q < 0 then Inl ContractError else
              rbind (data_value ps ''signal'' False) (\<lambda>s.
              if s = VUndefined then Inr \<lparr>iv_deadlineAt = floor q, iv_signal = None\<rparr>
              else if \<not> branded s then Inl ContractError
              else Inr \<lparr>iv_deadlineAt = floor q, iv_signal = Some s\<rparr>)
          | _ \<Rightarrow> Inl ContractError))
   | _ \<Rightarrow> Inl ContractError)"

text \<open>What one reading of the signal and of \<open>Date.now()\<close> gives.\<close>

record moment =
  mo_aborted :: bool
  mo_now :: int

datatype stop_reason = StopAborted | StopDeadline

definition isAborted :: "invocation_snapshot \<Rightarrow> moment \<Rightarrow> bool" where
  "isAborted iv mo = (case iv_signal iv of None \<Rightarrow> False | Some _ \<Rightarrow> mo_aborted mo)"

definition currentStop :: "invocation_snapshot \<Rightarrow> moment \<Rightarrow> stop_reason option" where
  "currentStop iv mo = (if isAborted iv mo then Some StopAborted
     else if mo_now mo \<ge> iv_deadlineAt iv then Some StopDeadline else None)"

fun stopOutcome :: "stop_reason \<Rightarrow> judge_outcome" where
  "stopOutcome StopAborted = ProviderFailure Aborted False None"
| "stopOutcome StopDeadline = ProviderFailure DeadlineExceeded False None"

section \<open>Errors of providers\<close>

text \<open>
  What a provider threw: an object whose prototype is \<open>JudgeProviderError.prototype\<close>, with its own
  descriptors of \<open>kind\<close>, \<open>retryable\<close> and \<open>providerMetadata\<close>, or anything else.
\<close>

datatype thrown_error = JudgeProviderError "jsprop option" "jsprop option" "jsprop option" | OtherError

fun descriptor_value :: "jsprop option \<Rightarrow> jsv option" where
  "descriptor_value None = Some VUndefined"
| "descriptor_value (Some AccProp) = None"
| "descriptor_value (Some (DataProp e v)) = Some v"

fun providerErrorData :: "thrown_error \<Rightarrow> (jsv \<times> jsv \<times> jsv) option" where
  "providerErrorData (JudgeProviderError k r m) =
     (case (descriptor_value k, descriptor_value r, descriptor_value m) of
        (Some kv, Some rv, Some mv) \<Rightarrow> Some (kv, rv, mv) | _ \<Rightarrow> None)"
| "providerErrorData OtherError = None"

definition providerDiagnostic :: "jsv \<Rightarrow> string" where
  "providerDiagnostic k = (if k = VStr ''authentication'' then ''Provider authentication failed''
     else if k = VStr ''rateLimited'' then ''Provider rate limit was reached''
     else if k = VStr ''server'' then ''Provider server failed'' else ''Provider invocation failed'')"

fun error_candidate :: "jsv \<times> jsv \<times> jsv \<Rightarrow> jsv" where
  "error_candidate (k, r, m) = obj ([(''status'', VStr ''providerFailure''),
     (''failure'', obj [(''kind'', k), (''message'', VStr (providerDiagnostic k)), (''retryable'', r)])]
     @ (if m = VUndefined then [] else [(''providerMetadata'', m)]))"

section \<open>The race\<close>

datatype race_result = RaceValue jsv | RaceError thrown_error | RaceStop stop_reason

datatype call_stage = NotDispatched | AwaitingProvider | CallSettled race_result

datatype judge_phase = Racing | RaceSettled race_result | JudgeReturned

record judge_state =
  jn_invocation :: invocation_snapshot
  jn_request :: judge_request
  jn_phase :: judge_phase
  jn_call :: call_stage
  jn_stop :: "stop_reason option"
  jn_timer :: bool
  jn_listening :: bool

datatype judge_output =
    ProviderCalled judge_request
  | TimerArmed int
  | ControllerAborted
  | JudgeResult judge_outcome

text \<open>What \<open>provider.judge(...)\<close> does synchronously: a plain value, a promise, or an exception.\<close>

datatype supplied = SuppliedValue jsv | SuppliedPromise | SuppliedThrow thrown_error

datatype judge_event =
    DispatchCall moment supplied moment
  | ProviderFulfilled jsv moment
  | ProviderRejected thrown_error moment
  | SignalFired
  | TimerFired int
  | RaceSeesCall
  | RaceSeesStop
  | AfterRace moment moment

definition max_timer :: int where "max_timer = 2147483647"

text \<open>
  The first part of the call. The request is normalized three times: the copy that is validated
  against, and the copy the provider gets, are the normalized request again.
\<close>

definition start_judge :: "(jsv \<Rightarrow> bool) \<Rightarrow> jsv \<Rightarrow> jsv \<Rightarrow> moment \<Rightarrow> int \<Rightarrow> judge_error + judge_state \<times> judge_output list" where
  "start_judge branded request invocation mo now =
     rbind (snapshotInvocation branded invocation) (\<lambda>iv.
     rbind (normalizeJudgeRequest request) (\<lambda>q.
     rbind (normalizeJudgeRequest (plain_value (request_data q))) (\<lambda>baseline.
     rbind (normalizeJudgeRequest (plain_value (request_data q))) (\<lambda>sent.
     let fresh = \<lparr>jn_invocation = iv, jn_request = baseline, jn_phase = JudgeReturned, jn_call = NotDispatched,
           jn_stop = None, jn_timer = False, jn_listening = False\<rparr> in
     (case currentStop iv mo of
        Some r \<Rightarrow> Inr (fresh, [JudgeResult (stopOutcome r)])
      | None \<Rightarrow>
          let left = iv_deadlineAt iv - now in
          if left \<le> 0 then Inr (fresh, [JudgeResult (stopOutcome StopDeadline)])
          else Inr (fresh\<lparr>jn_phase := Racing, jn_timer := True, jn_listening := (iv_signal iv \<noteq> None)\<rparr>,
            [TimerArmed (min left max_timer)]))))))"

definition settle_call :: "moment \<Rightarrow> race_result \<Rightarrow> judge_state \<Rightarrow> judge_state" where
  "settle_call mo r s = s\<lparr>jn_call := CallSettled (case currentStop (jn_invocation s) mo of
     None \<Rightarrow> r | Some why \<Rightarrow> RaceStop why)\<rparr>"

definition dispatch_call :: "moment \<Rightarrow> supplied \<Rightarrow> moment \<Rightarrow> judge_state \<Rightarrow> judge_state \<times> judge_output list" where
  "dispatch_call before answer after s = (case currentStop (jn_invocation s) before of
     Some why \<Rightarrow> (s\<lparr>jn_call := CallSettled (RaceStop why)\<rparr>, [])
   | None \<Rightarrow> ((case answer of
         SuppliedValue v \<Rightarrow> settle_call after (RaceValue v) s
       | SuppliedPromise \<Rightarrow> s\<lparr>jn_call := AwaitingProvider\<rparr>
       | SuppliedThrow e \<Rightarrow> settle_call after (RaceError e) s), [ProviderCalled (jn_request s)]))"

text \<open>\<open>finishStop\<close> resolves the stop promise once.\<close>

definition finish_stop :: "stop_reason \<Rightarrow> judge_state \<Rightarrow> judge_state" where
  "finish_stop r s = (case jn_stop s of None \<Rightarrow> s\<lparr>jn_stop := Some r\<rparr> | Some _ \<Rightarrow> s)"

definition reach_deadline :: "int \<Rightarrow> judge_state \<Rightarrow> judge_state \<times> judge_output list" where
  "reach_deadline now s = (let delay = iv_deadlineAt (jn_invocation s) - now in
     if delay > 0 then (s, [TimerArmed (min delay max_timer)])
     else (finish_stop StopDeadline (s\<lparr>jn_timer := False\<rparr>), [ControllerAborted]))"

text \<open>After the race: a validated outcome is returned unless the signal or the deadline came first.\<close>

definition unless_stopped :: "invocation_snapshot \<Rightarrow> moment \<Rightarrow> judge_outcome \<Rightarrow> judge_outcome" where
  "unless_stopped iv mo out = (case currentStop iv mo of None \<Rightarrow> out | Some why \<Rightarrow> stopOutcome why)"

definition validated :: "judge_state \<Rightarrow> jsv \<Rightarrow> moment \<Rightarrow> judge_outcome" where
  "validated s v mo = unless_stopped (jn_invocation s) mo (case normalizeProviderOutcome v (jn_request s) of
     Inr out \<Rightarrow> out | Inl _ \<Rightarrow> ProviderFailure InvalidResponse False None)"

fun after_race :: "judge_state \<Rightarrow> moment \<Rightarrow> moment \<Rightarrow> race_result \<Rightarrow> judge_outcome" where
  "after_race s before after (RaceStop why) = stopOutcome why"
| "after_race s before after (RaceError e) = (case providerErrorData e of
     Some d \<Rightarrow> validated s (error_candidate d) after
   | None \<Rightarrow> ProviderFailure OtherFailure False None)"
| "after_race s before after (RaceValue v) = (case currentStop (jn_invocation s) before of
     Some why \<Rightarrow> stopOutcome why
   | None \<Rightarrow> validated s v after)"

fun judge_step :: "judge_state \<Rightarrow> judge_event \<Rightarrow> judge_state \<times> judge_output list" where
  "judge_step s (DispatchCall before answer after) =
     (if jn_call s = NotDispatched \<and> jn_phase s = Racing then dispatch_call before answer after s else (s, []))"
| "judge_step s (ProviderFulfilled v after) =
     (if jn_call s = AwaitingProvider then (settle_call after (RaceValue v) s, []) else (s, []))"
| "judge_step s (ProviderRejected e after) =
     (if jn_call s = AwaitingProvider then (settle_call after (RaceError e) s, []) else (s, []))"
| "judge_step s SignalFired =
     (if jn_listening s then (finish_stop StopAborted (s\<lparr>jn_listening := False\<rparr>), [ControllerAborted]) else (s, []))"
| "judge_step s (TimerFired now) = (if jn_timer s then reach_deadline now s else (s, []))"
| "judge_step s RaceSeesCall = (case (jn_phase s, jn_call s) of
     (Racing, CallSettled r) \<Rightarrow> (s\<lparr>jn_phase := RaceSettled r\<rparr>, []) | _ \<Rightarrow> (s, []))"
| "judge_step s RaceSeesStop = (case (jn_phase s, jn_stop s) of
     (Racing, Some why) \<Rightarrow> (s\<lparr>jn_phase := RaceSettled (RaceStop why)\<rparr>, []) | _ \<Rightarrow> (s, []))"
| "judge_step s (AfterRace before after) = (case jn_phase s of
     RaceSettled r \<Rightarrow> (s\<lparr>jn_phase := JudgeReturned, jn_timer := False, jn_listening := False\<rparr>,
       [JudgeResult (after_race s before after r)])
   | _ \<Rightarrow> (s, []))"

section \<open>Invariant\<close>

text \<open>
  While the race is on, either the timer is armed or a stop has been recorded: the invocation cannot
  hang on a provider that never answers.
\<close>

definition judge_ok :: "judge_state \<Rightarrow> bool" where
  "judge_ok s = (judge_request_wf (jn_request s) \<and> (jn_phase s = Racing \<longrightarrow> jn_timer s \<or> jn_stop s \<noteq> None))"

lemmas judge_state_defs = dispatch_call_def settle_call_def finish_stop_def reach_deadline_def Let_def

lemma step_request: "jn_request (fst (judge_step s e)) = jn_request s \<and> jn_invocation (fst (judge_step s e)) = jn_invocation s"
  by (cases "(s, e)" rule: judge_step.cases)
    (auto simp: judge_state_defs split: option.splits supplied.splits judge_phase.splits call_stage.splits)

interpretation judge_machine: step_machine judge_step judge_ok
proof
  fix s e assume ok: "judge_ok s"
  then show "judge_ok (fst (judge_step s e))"
    by (cases "(s, e)" rule: judge_step.cases)
      (auto simp: judge_ok_def judge_state_defs split: option.splits supplied.splits judge_phase.splits call_stage.splits)
qed

lemma start_ok: "start_judge branded request invocation mo now = Inr (s, os) \<Longrightarrow> judge_ok s"
  by (auto simp: start_judge_def judge_ok_def Let_def split: option.splits if_splits dest!: vrequest.decode_wf)

section \<open>At most one result, at most one call\<close>

fun result_of :: "judge_output \<Rightarrow> unit list" where
  "result_of (JudgeResult _) = [()]"
| "result_of _ = []"

fun provider_call :: "judge_output \<Rightarrow> unit list" where
  "provider_call (ProviderCalled _) = [()]"
| "provider_call _ = []"

definition can_return :: "judge_state \<Rightarrow> unit \<Rightarrow> bool" where
  "can_return s _ = (jn_phase s \<noteq> JudgeReturned)"

definition can_call :: "judge_state \<Rightarrow> unit \<Rightarrow> bool" where
  "can_call s _ = (jn_call s = NotDispatched \<and> jn_phase s = Racing)"

interpretation returns: once_only judge_step judge_ok can_return result_of
proof
  fix s :: judge_state and e :: judge_event and i :: unit
  show "distinct (concat (map result_of (snd (judge_step s e))))"
    by (cases "(s, e)" rule: judge_step.cases)
      (auto simp: judge_state_defs split: option.splits supplied.splits judge_phase.splits call_stage.splits)
  show "i \<in> set (concat (map result_of (snd (judge_step s e)))) \<Longrightarrow> can_return s i \<and> \<not> can_return (fst (judge_step s e)) i"
    by (cases "(s, e)" rule: judge_step.cases)
      (auto simp: can_return_def judge_state_defs split: option.splits supplied.splits judge_phase.splits call_stage.splits if_splits)
  show "\<not> can_return s i \<Longrightarrow> \<not> can_return (fst (judge_step s e)) i"
    by (cases "(s, e)" rule: judge_step.cases)
      (auto simp: can_return_def judge_state_defs split: option.splits supplied.splits judge_phase.splits call_stage.splits)
qed

interpretation calls: once_only judge_step judge_ok can_call provider_call
proof
  fix s :: judge_state and e :: judge_event and i :: unit
  show "distinct (concat (map provider_call (snd (judge_step s e))))"
    by (cases "(s, e)" rule: judge_step.cases)
      (auto simp: judge_state_defs split: option.splits supplied.splits judge_phase.splits call_stage.splits)
  show "i \<in> set (concat (map provider_call (snd (judge_step s e)))) \<Longrightarrow> can_call s i \<and> \<not> can_call (fst (judge_step s e)) i"
    by (cases "(s, e)" rule: judge_step.cases)
      (auto simp: can_call_def judge_state_defs split: option.splits supplied.splits judge_phase.splits call_stage.splits if_splits)
  show "\<not> can_call s i \<Longrightarrow> \<not> can_call (fst (judge_step s e)) i"
    by (cases "(s, e)" rule: judge_step.cases)
      (auto simp: can_call_def judge_state_defs split: option.splits supplied.splits judge_phase.splits call_stage.splits)
qed

section \<open>What is returned\<close>

text \<open>A decision is a classification or an explained insufficiency, as opposed to a failure.\<close>

fun decision :: "judge_outcome \<Rightarrow> bool" where
  "decision (ProviderFailure _ _ _) = False"
| "decision _ = True"

fun output_supported :: "judge_request \<Rightarrow> judge_output \<Rightarrow> bool" where
  "output_supported q (JudgeResult out) = outcome_supported q out"
| "output_supported q (ProviderCalled sent) = (sent = q)"
| "output_supported q _ = True"

lemma stop_no_decision [simp]: "\<not> decision (stopOutcome why)" "outcome_supported q (stopOutcome why)"
  by (cases why; simp)+

lemma validated_supported: "judge_request_wf (jn_request s) \<Longrightarrow> outcome_supported (jn_request s) (validated s v mo)"
  by (auto simp: validated_def unless_stopped_def dest: outcome_wf split: option.split sum.split)

lemma validated_timely: "decision (validated s v mo) \<Longrightarrow> currentStop (jn_invocation s) mo = None"
  by (auto simp: validated_def unless_stopped_def split: option.splits)

lemma after_race_supported: "judge_request_wf (jn_request s) \<Longrightarrow> outcome_supported (jn_request s) (after_race s before after r)"
  by (cases r) (auto simp: validated_supported split: option.split)

lemma after_race_timely: "decision (after_race s before after r) \<Longrightarrow> currentStop (jn_invocation s) after = None"
  by (cases r) (auto dest: validated_timely split: option.splits)

lemma step_supported: "judge_ok s \<Longrightarrow> list_all (output_supported (jn_request s)) (snd (judge_step s e))"
  by (cases "(s, e)" rule: judge_step.cases)
    (auto simp: judge_ok_def judge_state_defs after_race_supported
      split: option.splits supplied.splits judge_phase.splits call_stage.splits)

lemma run_supported: "judge_ok s \<Longrightarrow> list_all (output_supported (jn_request s)) (snd (run_steps judge_step s es))"
proof (induction es arbitrary: s)
  case (Cons e es)
  then show ?case using step_supported [of s e] Cons.IH [OF judge_machine.step_inv [OF Cons.prems, of e]] step_request [of s e]
    by (simp add: Let_def split_beta)
qed simp

text \<open>A decision is returned only by code that read the clock before the deadline and saw no abort.\<close>

lemma step_timely: "JudgeResult out \<in> set (snd (judge_step s e)) \<Longrightarrow> decision out \<Longrightarrow>
    \<exists>before after. e = AfterRace before after \<and> currentStop (jn_invocation s) after = None"
  by (cases "(s, e)" rule: judge_step.cases)
    (auto simp: judge_state_defs dest: after_race_timely split: option.splits supplied.splits judge_phase.splits call_stage.splits if_splits)

lemma run_timely: "JudgeResult out \<in> set (snd (run_steps judge_step s es)) \<Longrightarrow> decision out \<Longrightarrow>
    \<exists>before after. AfterRace before after \<in> set es \<and> currentStop (jn_invocation s) after = None"
proof (induction es arbitrary: s)
  case (Cons e es)
  consider "JudgeResult out \<in> set (snd (judge_step s e))"
    | "JudgeResult out \<in> set (snd (run_steps judge_step (fst (judge_step s e)) es))"
    using Cons.prems(1) by (auto simp: Let_def split_beta)
  then show ?case
    using step_timely Cons.IH [OF _ Cons.prems(2)] Cons.prems(2) step_request [of s e] by cases (metis list.set_intros)+
qed simp

section \<open>The deadline ends the invocation\<close>

lemma judge_cases: "jn_phase s = JudgeReturned \<or> (\<exists>r. jn_phase s = RaceSettled r) \<or> jn_phase s = Racing"
  by (cases "jn_phase s") auto

lemma deadline_step:
  assumes "judge_ok s" "iv_deadlineAt (jn_invocation s) \<le> now"
  defines "t \<equiv> fst (judge_step s (TimerFired now))"
  shows "jn_phase t = jn_phase s" and "jn_phase s = Racing \<longrightarrow> jn_stop t \<noteq> None"
  using assms by (auto simp: judge_ok_def judge_state_defs split: option.split)

lemma stop_seen: "jn_stop t \<noteq> None \<or> jn_phase t \<noteq> Racing \<Longrightarrow> jn_phase (fst (judge_step t RaceSeesStop)) \<noteq> Racing"
  by (cases "jn_phase t"; cases "jn_stop t") auto

lemma deadline_returns:
  assumes "judge_ok s" "iv_deadlineAt (jn_invocation s) \<le> now"
  shows "jn_phase (fst (run_steps judge_step s [TimerFired now, RaceSeesStop, AfterRace m1 m2])) = JudgeReturned"
proof -
  let ?t = "fst (judge_step s (TimerFired now))"
  have "jn_phase (fst (judge_step ?t RaceSeesStop)) \<noteq> Racing"
    by (rule stop_seen) (use deadline_step [OF assms] in auto)
  then have "jn_phase (fst (judge_step (fst (judge_step ?t RaceSeesStop)) (AfterRace m1 m2))) = JudgeReturned"
    by (cases "jn_phase (fst (judge_step ?t RaceSeesStop))") auto
  then show ?thesis by (simp add: split_beta del: judge_step.simps)
qed

section \<open>From the start\<close>

lemma run_invocation: "jn_invocation (fst (run_steps judge_step s es)) = jn_invocation s"
  by (induction es arbitrary: s) (simp_all add: Let_def split_beta step_request)

text \<open>What a start gives: a result, and then the invocation has already returned; or an armed timer.\<close>

lemma started_shape:
  assumes "start_judge branded request invocation mo now = Inr (s, os)"
  shows "(jn_phase s = JudgeReturned \<and> (\<exists>why. os = [JudgeResult (stopOutcome why)])) \<or> (\<exists>t. os = [TimerArmed t])"
  using assms
  by (auto simp: start_judge_def Let_def simp del: stopOutcome.simps split: option.splits if_splits)

lemma distinct_units: "distinct (us :: unit list) \<Longrightarrow> length us \<le> 1"
  by (cases us; cases "tl us") auto

lemma started_returns_once:
  assumes "start_judge branded request invocation mo now = Inr (s, os)"
  shows "length (concat (map result_of (os @ snd (run_steps judge_step s es)))) \<le> 1"
proof -
  have run: "distinct (concat (map result_of (snd (run_steps judge_step s es))))"
    "\<forall>i \<in> set (concat (map result_of (snd (run_steps judge_step s es)))). can_return s i"
    using returns.run_once [OF start_ok [OF assms]] by blast+
  from started_shape [OF assms] show ?thesis
  proof (elim disjE exE conjE)
    fix why assume "jn_phase s = JudgeReturned" "os = [JudgeResult (stopOutcome why)]"
    then have "concat (map result_of (snd (run_steps judge_step s es))) = []"
      using run(2) unfolding can_return_def by (metis list.set_intros(1) neq_Nil_conv)
    then show ?thesis using \<open>os = _\<close> by simp
  next
    fix t assume "os = [TimerArmed t]"
    then show ?thesis using distinct_units [OF run(1)] by simp
  qed
qed

lemma started_calls_once:
  assumes "start_judge branded request invocation mo now = Inr (s, os)"
  shows "length (concat (map provider_call (os @ snd (run_steps judge_step s es)))) \<le> 1"
proof -
  have "distinct (concat (map provider_call (snd (run_steps judge_step s es))))"
    using calls.run_once [OF start_ok [OF assms]] by blast
  moreover have "concat (map provider_call os) = []" using started_shape [OF assms] by auto
  ultimately show ?thesis using distinct_units by (metis append_Nil concat_append map_append)
qed

lemma started_supported:
  "start_judge branded request invocation mo now = Inr (s, os) \<Longrightarrow> list_all (output_supported (jn_request s)) os"
  using started_shape [of branded request invocation mo now s os] by auto

lemma started_timely:
  assumes "start_judge branded request invocation mo now = Inr (s, os)"
    and "JudgeResult out \<in> set (os @ snd (run_steps judge_step s es))" "decision out"
  shows "\<exists>before after. AfterRace before after \<in> set es \<and> currentStop (jn_invocation s) after = None"
  using started_shape [OF assms(1)] assms(2,3) run_timely [of out s es] by auto

lemma started_all_timely:
  assumes "start_judge branded request invocation mo now = Inr (s, os)"
  shows "list_all (\<lambda>out. case out of
      JudgeResult res \<Rightarrow> if decision res then list_ex (\<lambda>ev. case ev of
          AfterRace before after \<Rightarrow> currentStop (jn_invocation s) after = None | _ \<Rightarrow> False) es else True
    | _ \<Rightarrow> True) (os @ snd (run_steps judge_step s es))"
  unfolding list_all_iff
proof
  fix out assume o: "out \<in> set (os @ snd (run_steps judge_step s es))"
  show "case out of
      JudgeResult res \<Rightarrow> if decision res then list_ex (\<lambda>ev. case ev of
          AfterRace before after \<Rightarrow> currentStop (jn_invocation s) after = None | _ \<Rightarrow> False) es else True
    | _ \<Rightarrow> True"
  proof (cases out)
    case (JudgeResult res)
    show ?thesis
    proof (cases "decision res")
      case True
      then obtain before after where "AfterRace before after \<in> set es" "currentStop (jn_invocation s) after = None"
        using started_timely [OF assms] o JudgeResult by blast
      then show ?thesis using JudgeResult by (force simp: list_ex_iff)
    qed (simp add: JudgeResult)
  qed simp_all
qed

end
