(* ===== verification/JudgeRouter.thy ===== *)
theory JudgeRouter
  imports JudgeRun JsMap
begin

text \<open>
  Routing between judge providers: \<open>packages/llm-judge/src/router-config.ts\<close>, \<open>router.ts\<close>,
  \<open>providers/provider-runtime.ts\<close> and the answer binding of \<open>providers/structured-output.ts\<close>. A route
  is a list of candidates that were resolved against the configured profiles; a classification tries
  them in order and goes on only after a retryable failure of the provider's service.
\<close>

section \<open>Provider options\<close>

text \<open>
  The URL parser of the platform is a parameter; of what it returns the code reads the protocol, the
  host name and the credentials.
\<close>

record url_parts =
  up_protocol :: string
  up_hostname :: string
  up_username :: string
  up_password :: string

record provider_options =
  po_model :: string
  po_baseURL :: "string option"
  po_apiKeyEnv :: string
  po_maxOutputTokens :: int

definition env_name_ok :: "string \<Rightarrow> bool" where
  "env_name_ok s = (case s of [] \<Rightarrow> False
     | c # cs \<Rightarrow> (is_alpha c \<or> c = CHR ''_'') \<and> list_all (\<lambda>d. is_alnum d \<or> d = CHR ''_'') cs)"

definition strip_slashes :: "string \<Rightarrow> string" where
  "strip_slashes s = rev (dropWhile (\<lambda>c. c = CHR ''/'') (rev s))"

definition baseURL :: "(string \<Rightarrow> url_parts option) \<Rightarrow> pdata \<Rightarrow> judge_error + string" where
  "baseURL parse p = rbind (jd_text 2048 p) (\<lambda>raw. (case parse raw of
     None \<Rightarrow> Inl ConfigError
   | Some u \<Rightarrow>
       if up_protocol u \<noteq> ''https:'' \<and> up_protocol u \<noteq> ''http:'' then Inl ConfigError
       else if up_protocol u = ''http:'' \<and> up_hostname u \<notin> {''127.0.0.1'', ''::1'', ''localhost''} then Inl ConfigError
       else if up_username u \<noteq> [] \<or> up_password u \<noteq> [] then Inl ConfigError
       else Inr (strip_slashes raw)))"

definition env_name :: "pdata \<Rightarrow> judge_error + string" where
  "env_name p = rbind (jd_text 128 p) (\<lambda>n. if env_name_ok n then Inr n else Inl ConfigError)"

definition token_limit :: "pdata \<Rightarrow> judge_error + int" where
  "token_limit p = rbind (finiteInteger 32768 p) (\<lambda>n. if n = 0 then Inl ConfigError else Inr n)"

text \<open>The options a router hands over are its own validated data, so they are read without a copy.\<close>

definition normalizeProviderOptions ::
    "(string \<Rightarrow> url_parts option) \<Rightarrow> string \<Rightarrow> string \<Rightarrow> string option \<Rightarrow> int option \<Rightarrow> judge_error + provider_options" where
  "normalizeProviderOptions parse model env url limit =
     rbind (env_name (PStr env)) (\<lambda>e.
     rbind (case limit of None \<Rightarrow> Inr 4096 | Some n \<Rightarrow> token_limit (PNum (Fin (of_int n)))) (\<lambda>n.
     rbind (jd_text 256 (PStr model)) (\<lambda>m.
     rbind (case url of None \<Rightarrow> Inr None | Some u \<Rightarrow> rbind (baseURL parse (PStr u)) (\<lambda>b. Inr (Some b))) (\<lambda>b.
     Inr \<lparr>po_model = m, po_baseURL = b, po_apiKeyEnv = e, po_maxOutputTokens = n\<rparr>))))"

section \<open>Profiles and candidates\<close>

datatype api_kind = OpenAICompatible | Anthropic

text \<open>\<open>'p\<close> is trusted application code: the implementations registered by id.\<close>

datatype 'p judge_provider = ApiProvider api_kind provider_options | RegisteredProvider 'p

record api_profile =
  ap_kind :: api_kind
  ap_apiKeyEnv :: string
  ap_models :: "string list"
  ap_baseURL :: "string option"
  ap_maxOutputTokens :: "int option"

datatype 'p judge_profile = ApiProfile api_profile | RegisteredProfile string 'p

record 'p prepared_candidate =
  pc_profileId :: string
  pc_model :: "string option"
  pc_providerId :: "string option"
  pc_provider :: "'p judge_provider"

definition api_kind_of :: "pdata \<Rightarrow> judge_error + api_kind" where
  "api_kind_of p = (if p = PStr ''openai-compatible'' then Inr OpenAICompatible
     else if p = PStr ''anthropic'' then Inr Anthropic else Inl ConfigError)"

definition createProvider ::
    "(string \<Rightarrow> url_parts option) \<Rightarrow> string \<Rightarrow> api_profile \<Rightarrow> judge_error + 'p judge_provider" where
  "createProvider parse model pr =
     rbind (normalizeProviderOptions parse model (ap_apiKeyEnv pr) (ap_baseURL pr) (ap_maxOutputTokens pr)) (\<lambda>opts.
     Inr (ApiProvider (ap_kind pr) opts))"

definition registered_profile :: "(string \<times> 'p) list \<Rightarrow> pfields \<Rightarrow> judge_error + 'p judge_profile" where
  "registered_profile registered r =
     rbind (jd_exactKeys [''provider'', ''providerId''] r) (\<lambda>_.
     rbind (jd_identifier (pfld r ''providerId'')) (\<lambda>i.
     (case map_of registered i of None \<Rightarrow> Inl ConfigError | Some x \<Rightarrow> Inr (RegisteredProfile i x))))"

definition model_list :: "pdata \<Rightarrow> judge_error + string list" where
  "model_list p = rbind (jd_array 64 p) (\<lambda>ps.
     rbind (rmap (jd_text 256) ps) (\<lambda>ms.
     if length ms = 0 then Inl ConfigError else
     rbind (unique ms) (\<lambda>_. Inr ms)))"

definition api_profile_of :: "(string \<Rightarrow> url_parts option) \<Rightarrow> pfields \<Rightarrow> judge_error + api_profile" where
  "api_profile_of parse r =
     rbind (jd_exactKeys [''provider'', ''apiKeyEnv'', ''baseURL'', ''models'', ''maxOutputTokens''] r) (\<lambda>_.
     rbind (api_kind_of (pfld r ''provider'')) (\<lambda>k.
     rbind (env_name (pfld r ''apiKeyEnv'')) (\<lambda>e.
     rbind (model_list (pfld r ''models'')) (\<lambda>ms.
     rbind (jd_optional token_limit (pfld r ''maxOutputTokens'')) (\<lambda>n.
     rbind (jd_optional (jd_text 2048) (pfld r ''baseURL'')) (\<lambda>u.
     let pr = \<lparr>ap_kind = k, ap_apiKeyEnv = e, ap_models = ms, ap_baseURL = u, ap_maxOutputTokens = n\<rparr> in
     rbind (createProvider parse (hd ms) pr) (\<lambda>_ :: unit judge_provider. Inr pr)))))))"

definition normalizeProfile ::
    "(string \<Rightarrow> url_parts option) \<Rightarrow> (string \<times> 'p) list \<Rightarrow> pdata \<Rightarrow> judge_error + 'p judge_profile" where
  "normalizeProfile parse registered p = rbind (jd_record p) (\<lambda>r.
     if pfld r ''provider'' = PStr ''registered'' then registered_profile registered r
     else rbind (api_profile_of parse r) (\<lambda>pr. Inr (ApiProfile pr)))"

definition candidate_of ::
    "(string \<Rightarrow> url_parts option) \<Rightarrow> string \<Rightarrow> pdata \<Rightarrow> 'p judge_profile \<Rightarrow> judge_error + 'p prepared_candidate" where
  "candidate_of parse i m pr = (case pr of
     RegisteredProfile pid x \<Rightarrow>
       if m \<noteq> PUndef then Inl ConfigError
       else Inr \<lparr>pc_profileId = i, pc_model = None, pc_providerId = Some pid, pc_provider = RegisteredProvider x\<rparr>
   | ApiProfile ap \<Rightarrow>
       rbind (jd_text 256 m) (\<lambda>model.
       if model \<notin> set (ap_models ap) then Inl ConfigError else
       rbind (createProvider parse model ap) (\<lambda>x.
       Inr \<lparr>pc_profileId = i, pc_model = Some model, pc_providerId = None, pc_provider = x\<rparr>)))"

definition prepareCandidate ::
    "(string \<Rightarrow> url_parts option) \<Rightarrow> (string \<times> 'p judge_profile) list \<Rightarrow> pdata \<Rightarrow> judge_error + 'p prepared_candidate" where
  "prepareCandidate parse profiles p = rbind (jd_record p) (\<lambda>r.
     rbind (jd_exactKeys [''profileId'', ''model''] r) (\<lambda>_.
     rbind (jd_identifier (pfld r ''profileId'')) (\<lambda>i.
     (case map_of profiles i of None \<Rightarrow> Inl ConfigError | Some pr \<Rightarrow> candidate_of parse i (pfld r ''model'') pr))))"

section \<open>The router configuration\<close>

definition router_budget :: data_budget where
  "router_budget = \<lparr>bg_maxDepth = 8, bg_maxNodes = 4096, bg_maxBytes = 262144\<rparr>"

definition max_profiles :: nat where "max_profiles = 64"
definition max_routes :: nat where "max_routes = 128"
definition max_candidates :: nat where "max_candidates = 16"

text \<open>
  The loops over the entries of a record put each value under its trimmed identifier; two keys that
  trim to the same identifier leave the later one.
\<close>

fun entries_loop :: "(pdata \<Rightarrow> judge_error + 'v) \<Rightarrow> pfields \<Rightarrow> (string \<times> 'v) list \<Rightarrow> judge_error + (string \<times> 'v) list" where
  "entries_loop f [] m = Inr m"
| "entries_loop f ((k, p) # es) m =
     rbind (jd_identifier (PStr k)) (\<lambda>i. rbind (f p) (\<lambda>x. entries_loop f es (map_set i x m)))"

definition prepare_route ::
    "(string \<Rightarrow> url_parts option) \<Rightarrow> (string \<times> 'p judge_profile) list \<Rightarrow> pdata \<Rightarrow> judge_error + 'p prepared_candidate list" where
  "prepare_route parse profiles p = rbind (jd_array max_candidates p) (\<lambda>ps.
     if length ps = 0 then Inl ConfigError else
     rbind (rmap (prepareCandidate parse profiles) ps) (\<lambda>cs.
     rbind (rguard (distinct (map (\<lambda>c. (pc_profileId c, pc_model c)) cs)) ContractError) (\<lambda>_. Inr cs)))"

definition normalizeRouter ::
    "(string \<Rightarrow> url_parts option) \<Rightarrow> (string \<times> 'p) list \<Rightarrow> jsv \<Rightarrow> judge_error + (string \<times> 'p prepared_candidate list) list" where
  "normalizeRouter parse registered v =
     rbind (sanitizeUntrusted router_budget v) (\<lambda>p.
     rbind (jd_record p) (\<lambda>r.
     rbind (jd_exactKeys [''profiles'', ''routes''] r) (\<lambda>_.
     rbind (jd_record (pfld r ''profiles'')) (\<lambda>ps.
     if length ps = 0 \<or> length ps > max_profiles then Inl ConfigError else
     rbind (entries_loop (normalizeProfile parse registered) ps []) (\<lambda>profiles.
     rbind (jd_record (pfld r ''routes'')) (\<lambda>rs.
     if length rs = 0 \<or> length rs > max_routes then Inl ConfigError else
     entries_loop (prepare_route parse profiles) rs []))))))"

section \<open>Classification\<close>

definition shouldFallback :: "judge_outcome \<Rightarrow> bool" where
  "shouldFallback out = (case out of
     ProviderFailure k retryable _ \<Rightarrow> retryable \<and> (k = RateLimited \<or> k = Server)
   | _ \<Rightarrow> False)"

datatype disposition = Selected | Fallback | Failed

record routing_attempt =
  ra_profileId :: string
  ra_model :: "string option"
  ra_providerId :: "string option"
  ra_disposition :: disposition
  ra_failureKind :: "failure_kind option"

definition failure_of :: "judge_outcome \<Rightarrow> failure_kind option" where
  "failure_of out = (case out of ProviderFailure k _ _ \<Rightarrow> Some k | _ \<Rightarrow> None)"

definition attempt :: "'p prepared_candidate \<Rightarrow> judge_outcome \<Rightarrow> bool \<Rightarrow> routing_attempt" where
  "attempt c out fallback = \<lparr>ra_profileId = pc_profileId c, ra_model = pc_model c, ra_providerId = pc_providerId c,
     ra_disposition = (if fallback then Fallback else if failure_of out \<noteq> None then Failed else Selected),
     ra_failureKind = failure_of out\<rparr>"

text \<open>
  The loop over the candidates. The outcomes are those of the successive \<open>judge\<close> calls, in the order
  the loop makes them; with fewer outcomes than calls the loop is still waiting (\<open>None\<close>).
\<close>

fun classify_loop :: "'p prepared_candidate list \<Rightarrow> judge_outcome list \<Rightarrow> (judge_outcome \<times> routing_attempt list) option" where
  "classify_loop (c # cs) (out # outs) =
     (let fallback = cs \<noteq> [] \<and> shouldFallback out in
      if fallback then map_option (\<lambda>(res, as). (res, attempt c out True # as)) (classify_loop cs outs)
      else Some (out, [attempt c out False]))"
| "classify_loop _ _ = None"

definition resolveRoute ::
    "(string \<times> 'p prepared_candidate list) list \<Rightarrow> string \<Rightarrow> judge_error + string \<times> 'p prepared_candidate list" where
  "resolveRoute routes routeId = rbind (jd_identifier (PStr routeId)) (\<lambda>i.
     (case map_of routes i of None \<Rightarrow> Inl ConfigError | Some cs \<Rightarrow> Inr (i, cs)))"

definition classify ::
    "(jsv \<Rightarrow> bool) \<Rightarrow> (string \<times> 'p prepared_candidate list) list \<Rightarrow> string \<Rightarrow> jsv \<Rightarrow> jsv \<Rightarrow> judge_outcome list \<Rightarrow>
     judge_error + (judge_outcome \<times> routing_attempt list) option" where
  "classify branded routes routeId request invocation outs =
     rbind (resolveRoute routes routeId) (\<lambda>(i, cs).
     rbind (normalizeJudgeRequest request) (\<lambda>q.
     rbind (snapshotInvocation branded invocation) (\<lambda>iv.
     Inr (classify_loop cs outs))))"

section \<open>Failures of the provider services\<close>

text \<open>The \<open>status\<close> of what an SDK threw, when it is an own data property with a safe integer.\<close>

definition numericStatus :: "jsprop option \<Rightarrow> int option" where
  "numericStatus d = (case d of
     Some (DataProp e (VNum (Fin q))) \<Rightarrow> if is_safe_integer (Fin q) then Some (floor q) else None
   | _ \<Rightarrow> None)"

definition mapped_failure :: "int option \<Rightarrow> failure_kind \<times> bool" where
  "mapped_failure status = (case status of
     None \<Rightarrow> (OtherFailure, True)
   | Some n \<Rightarrow> if n = 401 \<or> n = 403 then (Authentication, False)
       else if n = 429 then (RateLimited, True)
       else if 500 \<le> n \<and> n \<le> 599 then (Server, True)
       else (OtherFailure, False))"

text \<open>\<open>throwMappedProviderError\<close>: an error of the judge's own is thrown on, any other is mapped.\<close>

fun throwMappedProviderError :: "thrown_error + jsprop option \<Rightarrow> jsv \<Rightarrow> thrown_error" where
  "throwMappedProviderError (Inl e) metadata = e"
| "throwMappedProviderError (Inr status) metadata =
     (let f = mapped_failure (numericStatus status) in
      JudgeProviderError (Some (DataProp True (VStr (failure_name (fst f))))) (Some (DataProp True (VBool (snd f))))
        (Some (DataProp True metadata)))"

text \<open>The parsed answer of a provider is bound to the metadata of the call; \<open>None\<close>: it was no JSON.\<close>

definition invalidProviderResponse :: "jsv \<Rightarrow> jsv" where
  "invalidProviderResponse metadata = obj [(''status'', VStr ''providerFailure''),
     (''failure'', obj [(''kind'', VStr ''invalidResponse''), (''message'', VStr ''Provider response was invalid''),
       (''retryable'', VBool False)]),
     (''providerMetadata'', metadata)]"

definition bound_support :: "fields \<Rightarrow> jsv \<Rightarrow> fields" where
  "bound_support r metadata = [(''reasons'', fld r ''reasons''), (''evidenceRefs'', fld r ''evidenceRefs''),
     (''observedFacts'', fld r ''observedFacts''), (''hypotheses'', fld r ''hypotheses''), (''providerMetadata'', metadata)]"

definition bindStructuredDecision :: "fields option \<Rightarrow> jsv \<Rightarrow> jsv" where
  "bindStructuredDecision answer metadata = (case answer of
     None \<Rightarrow> invalidProviderResponse metadata
   | Some r \<Rightarrow>
       if fld r ''status'' = VStr ''classified'' \<and> fld r ''reason'' = VNull then
         obj ([(''status'', VStr ''classified''), (''label'', fld r ''label''), (''confidence'', fld r ''confidence'')]
           @ bound_support r metadata)
       else if fld r ''status'' = VStr ''insufficient'' \<and> fld r ''label'' = VNull \<and> fld r ''confidence'' = VNull then
         obj ([(''status'', VStr ''insufficient''), (''reason'', fld r ''reason'')] @ bound_support r metadata)
       else invalidProviderResponse metadata)"

section \<open>What a route does\<close>

text \<open>
  The specification of a classification: the first outcome that does not fall back, or the last one,
  with one attempt per candidate that was tried.
\<close>

definition last_tried :: "'p prepared_candidate list \<Rightarrow> judge_outcome list \<Rightarrow> nat \<Rightarrow> bool" where
  "last_tried cs outs n = (n < length cs \<and> n < length outs \<and> list_all shouldFallback (take n outs)
     \<and> (Suc n = length cs \<or> \<not> shouldFallback (outs ! n)))"

definition attempts_until :: "'p prepared_candidate list \<Rightarrow> judge_outcome list \<Rightarrow> nat \<Rightarrow> routing_attempt list" where
  "attempts_until cs outs n = map (\<lambda>i. attempt (cs ! i) (outs ! i) (i < n)) [0..<Suc n]"

lemma attempts_until_Suc:
  "attempts_until (c # cs) (out # outs) (Suc n) = attempt c out True # attempts_until cs outs n"
proof -
  have "[0..<Suc (Suc n)] = 0 # map Suc [0..<Suc n]" by (rule upt_conv_Cons [of 0 "Suc (Suc n)", simplified map_Suc_upt [symmetric]]) simp
  then show ?thesis by (simp add: attempts_until_def del: upt_Suc)
qed

lemma classify_loop_iff:
  "classify_loop cs outs = Some (res, as) \<longleftrightarrow>
     (\<exists>n. last_tried cs outs n \<and> res = outs ! n \<and> as = attempts_until cs outs n)"
proof (induction cs outs arbitrary: res as rule: classify_loop.induct)
  case (1 c cs out outs)
  show ?case
  proof (cases "cs \<noteq> [] \<and> shouldFallback out")
    case True
    have "(\<exists>n. last_tried (c # cs) (out # outs) n \<and> res = (out # outs) ! n \<and> as = attempts_until (c # cs) (out # outs) n)
      \<longleftrightarrow> (\<exists>n. last_tried cs outs n \<and> res = outs ! n \<and> as = attempt c out True # attempts_until cs outs n)" (is "?L \<longleftrightarrow> ?R")
    proof
      assume ?L
      then obtain n where n: "last_tried (c # cs) (out # outs) n" "res = (out # outs) ! n"
        "as = attempts_until (c # cs) (out # outs) n" by blast
      with True obtain m where "n = Suc m" by (cases n) (auto simp: last_tried_def)
      with n True show ?R by (auto simp: last_tried_def attempts_until_Suc)
    next
      assume ?R
      then obtain n where "last_tried cs outs n" "res = outs ! n" "as = attempt c out True # attempts_until cs outs n" by blast
      with True have "last_tried (c # cs) (out # outs) (Suc n) \<and> res = (out # outs) ! Suc n
          \<and> as = attempts_until (c # cs) (out # outs) (Suc n)"
        by (auto simp: last_tried_def attempts_until_Suc)
      then show ?L by blast
    qed
    moreover have "classify_loop (c # cs) (out # outs) = Some (res, as) \<longleftrightarrow>
        (\<exists>bs. classify_loop cs outs = Some (res, bs) \<and> as = attempt c out True # bs)"
      using True by (auto simp: Let_def)
    ultimately show ?thesis using "1.IH" [of True] True by (auto simp: Let_def)
  next
    case False
    have "last_tried (c # cs) (out # outs) n \<longleftrightarrow> n = 0" for n
      using False by (cases n) (auto simp: last_tried_def)
    then show ?thesis using False by (auto simp: attempts_until_def)
  qed
qed (auto simp: last_tried_def)

text \<open>Every route of a router has candidates, each resolved against a profile that allows it.\<close>

definition candidate_ok :: "(string \<times> 'p judge_profile) list \<Rightarrow> 'p prepared_candidate \<Rightarrow> bool" where
  "candidate_ok profiles c = (case map_of profiles (pc_profileId c) of
     None \<Rightarrow> False
   | Some (RegisteredProfile i x) \<Rightarrow> pc_model c = None \<and> pc_providerId c = Some i \<and> pc_provider c = RegisteredProvider x
   | Some (ApiProfile ap) \<Rightarrow> (case (pc_model c, pc_provider c) of
        (Some m, ApiProvider k opts) \<Rightarrow> m \<in> set (ap_models ap) \<and> k = ap_kind ap \<and> po_apiKeyEnv opts = ap_apiKeyEnv ap
      | _ \<Rightarrow> False))"

lemma createProvider_ok:
  "createProvider parse m ap = Inr x \<Longrightarrow> ap_apiKeyEnv ap = js_trim (ap_apiKeyEnv ap) \<Longrightarrow>
    \<exists>opts. x = ApiProvider (ap_kind ap) opts \<and> po_apiKeyEnv opts = ap_apiKeyEnv ap"
  by (auto simp: createProvider_def normalizeProviderOptions_def env_name_def jd_text_def Let_def split: if_splits)

definition profile_ok :: "'p judge_profile \<Rightarrow> bool" where
  "profile_ok pr = (case pr of ApiProfile ap \<Rightarrow> js_trim (ap_apiKeyEnv ap) = ap_apiKeyEnv ap | _ \<Rightarrow> True)"

lemma normalizeProfile_ok: "normalizeProfile parse registered p = Inr pr \<Longrightarrow> profile_ok pr"
  by (auto simp: normalizeProfile_def profile_ok_def registered_profile_def api_profile_of_def env_name_def Let_def
      trimmed_def split: if_splits option.splits dest!: jd_text_wf)

lemma candidate_wf:
  assumes "prepareCandidate parse profiles p = Inr c" "list_all (\<lambda>e. profile_ok (snd e)) profiles"
  shows "candidate_ok profiles c"
proof -
  obtain r i pr where c: "map_of profiles i = Some pr" "candidate_of parse i (pfld r ''model'') pr = Inr c"
    using assms(1) by (auto simp: prepareCandidate_def split: option.splits)
  have "profile_ok pr" using assms(2) map_of_SomeD [OF c(1)] by (auto simp: list_all_iff)
  then show ?thesis using c
    by (auto simp: candidate_of_def candidate_ok_def profile_ok_def split: judge_profile.splits if_splits dest!: createProvider_ok)
qed

definition route_ok :: "(string \<times> 'p judge_profile) list \<Rightarrow> 'p prepared_candidate list \<Rightarrow> bool" where
  "route_ok profiles cs = (cs \<noteq> [] \<and> length cs \<le> max_candidates \<and> list_all (candidate_ok profiles) cs
     \<and> distinct (map (\<lambda>c. (pc_profileId c, pc_model c)) cs))"

lemma candidates_wf:
  "rmap (prepareCandidate parse profiles) ps = Inr cs \<Longrightarrow> list_all (\<lambda>e. profile_ok (snd e)) profiles \<Longrightarrow>
    list_all (candidate_ok profiles) cs \<and> length cs = length ps"
  by (erule rmap_wf [rotated], erule candidate_wf)

lemma prepare_route_wf:
  "prepare_route parse profiles p = Inr cs \<Longrightarrow> list_all (\<lambda>e. profile_ok (snd e)) profiles \<Longrightarrow> route_ok profiles cs"
  by (auto simp: prepare_route_def route_ok_def dest!: candidates_wf)

lemma entries_loop_all:
  "entries_loop f es m = Inr m' \<Longrightarrow> (\<And>p x. f p = Inr x \<Longrightarrow> P x) \<Longrightarrow> list_all (\<lambda>e. P (snd e)) m \<Longrightarrow>
   list_all (\<lambda>e. P (snd e)) m'"
proof (induction f es m rule: entries_loop.induct)
  case (2 f k p es m)
  then obtain i x where i: "jd_identifier (PStr k) = Inr i" "f p = Inr x" "entries_loop f es (map_set i x m) = Inr m'" by auto
  have "list_all (\<lambda>e. P (snd e)) (map_set i x m)"
    using 2(3) [OF i(2)] 2(4) set_map_set_subset [of i x m] by (auto simp: list_all_iff)
  from 2(1) [OF i 2(3) this] show ?case .
qed simp

lemma router_routes:
  assumes "normalizeRouter parse registered v = Inr routes"
  shows "\<exists>profiles. list_all (\<lambda>e. route_ok profiles (snd e)) routes"
proof -
  obtain ps profiles rs where p: "entries_loop (normalizeProfile parse registered) ps [] = Inr profiles"
    and r: "entries_loop (prepare_route parse profiles) rs [] = Inr routes"
    using assms by (auto simp: normalizeRouter_def)
  have "list_all (\<lambda>e. profile_ok (snd e)) profiles"
    by (rule entries_loop_all [OF p, where P = profile_ok]) (auto dest: normalizeProfile_ok)
  then have "list_all (\<lambda>e. route_ok profiles (snd e)) routes"
    by (intro entries_loop_all [OF r, where P = "route_ok profiles"]) (auto intro: prepare_route_wf)
  then show ?thesis by blast
qed

text \<open>A routed classification ends: with as many outcomes as candidates the loop has a result.\<close>

lemma classify_loop_total: "cs \<noteq> [] \<Longrightarrow> length cs \<le> length outs \<Longrightarrow> \<exists>res as. classify_loop cs outs = Some (res, as)"
proof (induction cs outs rule: classify_loop.induct)
  case (1 c cs out outs)
  show ?case
  proof (cases "cs \<noteq> [] \<and> shouldFallback out")
    case True
    then obtain res as where "classify_loop cs outs = Some (res, as)" using "1.IH" [of True] "1.prems" by auto
    then show ?thesis using True by simp
  qed (auto simp: Let_def)
qed auto

text \<open>What the mapping of service failures lets a router fall back on: rate limits and server errors.\<close>

lemma mapped_fallback: "(case mapped_failure status of (k, retryable) \<Rightarrow> shouldFallback (ProviderFailure k retryable m)) \<longleftrightarrow>
    (case status of None \<Rightarrow> False | Some n \<Rightarrow> n = 429 \<or> 500 \<le> n \<and> n \<le> 599)"
  by (auto simp: mapped_failure_def shouldFallback_def split: option.split)

end
