(* ===== verification/JsRegex.thy ===== *)
theory JsRegex
  imports JsData
begin

text \<open>
  The part of JavaScript's regular expressions the program uses to find secrets: character classes,
  sequences, ordered alternatives, greedy repetition, word boundaries and the start of the input, with
  backtracking. A position in a text is the text before it, reversed, and the text after it;
  \<open>rx_matches\<close> lists the ends of the matches from a position in the order in which backtracking
  finds them, so the first is the match. Classes are predicates on code units below 256.
\<close>

section \<open>Patterns\<close>

datatype rx =
    RxEps
  | RxClass "char \<Rightarrow> bool"
  | RxSeq rx rx
  | RxAlt rx rx
  | RxStar rx
  | RxBoundary
  | RxStart

definition word_char :: "char \<Rightarrow> bool" where
  "word_char c = (is_alnum c \<or> c = CHR ''_'')"

fun starts_word :: "string \<Rightarrow> bool" where
  "starts_word [] = False"
| "starts_word (c # _) = word_char c"

text \<open>
  An iteration of a repetition must consume something. The guards on the remaining length hold always
  (\<open>rx_matches_shrink\<close>); they carry the termination proof.
\<close>

function rx_matches :: "rx \<Rightarrow> string \<Rightarrow> string \<Rightarrow> (string \<times> string) list" where
  "rx_matches RxEps b s = [(b, s)]"
| "rx_matches (RxClass p) b s = (case s of [] \<Rightarrow> [] | c # cs \<Rightarrow> if p c then [(c # b, cs)] else [])"
| "rx_matches (RxSeq r1 r2) b s = concat (map (\<lambda>m. if length (snd m) \<le> length s then rx_matches r2 (fst m) (snd m) else [])
     (rx_matches r1 b s))"
| "rx_matches (RxAlt r1 r2) b s = rx_matches r1 b s @ rx_matches r2 b s"
| "rx_matches (RxStar r) b s = concat (map (\<lambda>m. if length (snd m) < length s then rx_matches (RxStar r) (fst m) (snd m) else [])
     (rx_matches r b s)) @ [(b, s)]"
| "rx_matches RxBoundary b s = (if starts_word b \<noteq> starts_word s then [(b, s)] else [])"
| "rx_matches RxStart b s = (if b = [] then [(b, s)] else [])"
  by pat_completeness auto

termination
  by (relation "inv_image (less_than <*lex*> less_than) (\<lambda>(r, b, s). (length s, size r))") auto

text \<open>The equation of repetition unfolds without end as a rewrite rule.\<close>

declare rx_matches.simps(5) [simp del]

lemma rx_star_iff: "m \<in> set (rx_matches (RxStar r) b s) \<longleftrightarrow> m = (b, s) \<or>
    (\<exists>n \<in> set (rx_matches r b s). length (snd n) < length s \<and> m \<in> set (rx_matches (RxStar r) (fst n) (snd n)))"
  by (subst rx_matches.simps(5)) auto

lemma rx_matches_shrink: "m \<in> set (rx_matches r b s) \<Longrightarrow> length (snd m) \<le> length s"
proof (induction r b s arbitrary: m rule: rx_matches.induct)
  case (3 r1 r2 b s)
  then obtain n where n: "n \<in> set (rx_matches r1 b s)" "length (snd n) \<le> length s" "m \<in> set (rx_matches r2 (fst n) (snd n))"
    by (auto split: if_splits)
  from "3.IH"(2) [OF n] n(2) show ?case by (rule order_trans)
next
  case (5 r b s)
  from "5.prems" consider "m = (b, s)"
    | n where "n \<in> set (rx_matches r b s)" "length (snd n) < length s" "m \<in> set (rx_matches (RxStar r) (fst n) (snd n))"
    using rx_star_iff by blast
  then show ?case
  proof cases
    case 2
    then show ?thesis using "5.IH"(2) [OF 2(1,2,3)] by simp
  qed simp
qed (auto split: list.splits if_splits)

text \<open>A match reads on from where it stands: the text before and after it stay one text.\<close>

lemma rx_matches_text: "m \<in> set (rx_matches r b s) \<Longrightarrow> rev (fst m) @ snd m = rev b @ s"
proof (induction r b s arbitrary: m rule: rx_matches.induct)
  case (3 r1 r2 b s)
  then obtain n where n: "n \<in> set (rx_matches r1 b s)" "length (snd n) \<le> length s" "m \<in> set (rx_matches r2 (fst n) (snd n))"
    by (auto split: if_splits)
  from "3.IH"(2) [OF n] "3.IH"(1) [OF n(1)] show ?case by (rule trans)
next
  case (5 r b s)
  from "5.prems" consider "m = (b, s)"
    | n where "n \<in> set (rx_matches r b s)" "length (snd n) < length s" "m \<in> set (rx_matches (RxStar r) (fst n) (snd n))"
    using rx_star_iff by blast
  then show ?case
  proof cases
    case 2
    then show ?thesis using "5.IH"(1) [OF 2(1)] "5.IH"(2) [OF 2(1,2,3)] by simp
  qed simp
qed (auto split: list.splits if_splits)

section \<open>Derived patterns\<close>

definition rx_plus :: "rx \<Rightarrow> rx" where
  "rx_plus r = RxSeq r (RxStar r)"

definition rx_opt :: "rx \<Rightarrow> rx" where
  "rx_opt r = RxAlt r RxEps"

fun rx_upto :: "nat \<Rightarrow> rx \<Rightarrow> rx" where
  "rx_upto 0 r = RxEps"
| "rx_upto (Suc n) r = RxAlt (RxSeq r (rx_upto n r)) RxEps"

fun rx_copies :: "nat \<Rightarrow> rx \<Rightarrow> rx" where
  "rx_copies 0 r = RxEps"
| "rx_copies (Suc n) r = RxSeq r (rx_copies n r)"

definition rx_atleast :: "nat \<Rightarrow> rx \<Rightarrow> rx" where
  "rx_atleast n r = RxSeq (rx_copies n r) (RxStar r)"

fun rx_seq :: "rx list \<Rightarrow> rx" where
  "rx_seq [] = RxEps"
| "rx_seq [r] = r"
| "rx_seq (r # rs) = RxSeq r (rx_seq rs)"

fun rx_alts :: "rx list \<Rightarrow> rx" where
  "rx_alts [] = RxClass (\<lambda>_. False)"
| "rx_alts [r] = r"
| "rx_alts (r # rs) = RxAlt r (rx_alts rs)"

definition rx_text :: "string \<Rightarrow> rx" where
  "rx_text s = rx_seq (map (\<lambda>c. RxClass (\<lambda>d. d = c)) s)"

definition rx_lower :: "char \<Rightarrow> char" where
  "rx_lower c = (if is_upper c then char_of (code c + 32) else c)"

text \<open>A text under the \<open>i\<close> flag; the text is given in lower case.\<close>

definition rx_itext :: "string \<Rightarrow> rx" where
  "rx_itext s = rx_seq (map (\<lambda>c. RxClass (\<lambda>d. rx_lower d = c)) s)"

definition rx_set :: "string \<Rightarrow> rx" where
  "rx_set cs = RxClass (\<lambda>d. d \<in> set cs)"

definition rx_alnum :: "string \<Rightarrow> rx" where
  "rx_alnum cs = RxClass (\<lambda>d. is_alnum d \<or> d \<in> set cs)"

definition rx_none :: "string \<Rightarrow> rx" where
  "rx_none cs = RxClass (\<lambda>d. d \<notin> set cs)"

definition rx_space :: rx where
  "rx_space = RxClass js_space"

section \<open>Searching and replacing\<close>

definition rx_first :: "rx \<Rightarrow> string \<Rightarrow> string \<Rightarrow> (string \<times> string) option" where
  "rx_first r b s = (case rx_matches r b s of [] \<Rightarrow> None | m # _ \<Rightarrow> Some m)"

text \<open>How much the match from a position consumes.\<close>

definition rx_len :: "rx \<Rightarrow> string \<Rightarrow> string \<Rightarrow> nat option" where
  "rx_len r b s = map_option (\<lambda>m. length s - length (snd m)) (rx_first r b s)"

text \<open>\<open>pattern.test(text)\<close>: a match at the position or later.\<close>

fun rx_search :: "rx \<Rightarrow> string \<Rightarrow> string \<Rightarrow> bool" where
  "rx_search r b [] = (rx_len r b [] \<noteq> None)"
| "rx_search r b (c # cs) = (rx_len r b (c # cs) \<noteq> None \<or> rx_search r (c # b) cs)"

text \<open>
  \<open>text.replace(pattern, f)\<close> with the \<open>g\<close> flag, for a pattern that consumes something: the first
  part of the pattern is its group \<open>$1\<close>, and \<open>f\<close> gets the text of the group.
\<close>

definition rx_capture :: "rx \<Rightarrow> rx \<Rightarrow> string \<Rightarrow> string \<Rightarrow> (nat \<times> nat) option" where
  "rx_capture g t b s = (case concat (map (\<lambda>m. map (\<lambda>n. (length s - length (snd m), length s - length (snd n)))
       (rx_matches t (fst m) (snd m))) (rx_matches g b s)) of
     [] \<Rightarrow> None | x # _ \<Rightarrow> Some x)"

function rx_replace :: "rx \<Rightarrow> rx \<Rightarrow> (string \<Rightarrow> string) \<Rightarrow> string \<Rightarrow> string \<Rightarrow> string" where
  "rx_replace g t f b [] = []"
| "rx_replace g t f b (c # cs) = (case rx_capture g t b (c # cs) of
     Some (k, Suc n) \<Rightarrow> f (take k (c # cs)) @ rx_replace g t f (rev (take n cs) @ c # b) (drop n cs)
   | _ \<Rightarrow> c # rx_replace g t f (c # b) cs)"
  by pat_completeness auto

termination
  by (relation "measure (\<lambda>(g, t, f, b, s). length s)") auto

definition replaceAll :: "rx \<Rightarrow> string \<Rightarrow> string \<Rightarrow> string" where
  "replaceAll r new s = rx_replace RxEps r (\<lambda>_. new) [] s"

definition replaceGroup :: "rx \<Rightarrow> rx \<Rightarrow> string \<Rightarrow> string \<Rightarrow> string" where
  "replaceGroup g t new s = rx_replace g t (\<lambda>captured. captured @ new) [] s"

text \<open>Where the pattern matches nowhere, nothing is replaced.\<close>

lemma first_None: "(case xs of [] \<Rightarrow> None | x # _ \<Rightarrow> Some x) = None \<longleftrightarrow> xs = []"
  by (cases xs) auto

lemma rx_capture_None: "rx_capture g t b s = None \<longleftrightarrow> rx_matches (RxSeq g t) b s = []"
proof -
  have "rx_matches (RxSeq g t) b s = concat (map (\<lambda>m. rx_matches t (fst m) (snd m)) (rx_matches g b s))"
    by (simp cong: map_cong) (rule arg_cong [where f = concat], rule map_cong, simp_all add: rx_matches_shrink)
  moreover have "rx_capture g t b s = None \<longleftrightarrow> concat (map (\<lambda>m. map (\<lambda>n. (length s - length (snd m),
      length s - length (snd n))) (rx_matches t (fst m) (snd m))) (rx_matches g b s)) = []"
    unfolding rx_capture_def by (rule first_None)
  ultimately show ?thesis by (auto simp: concat_eq_Nil_conv)
qed

lemma rx_replace_nowhere: "\<not> rx_search (RxSeq g t) b s \<Longrightarrow> rx_replace g t f b s = s"
proof (induction s arbitrary: b)
  case (Cons c cs)
  then have "rx_capture g t b (c # cs) = None"
    by (auto simp: rx_capture_None rx_len_def rx_first_def split: list.splits)
  then show ?case using Cons by simp
qed simp

section \<open>Plain texts\<close>

definition js_lower :: "string \<Rightarrow> string" where
  "js_lower s = map rx_lower s"

fun starts_with :: "string \<Rightarrow> string \<Rightarrow> bool" where
  "starts_with [] s = True"
| "starts_with (p # ps) [] = False"
| "starts_with (p # ps) (c # cs) = (p = c \<and> starts_with ps cs)"

definition ends_with :: "string \<Rightarrow> string \<Rightarrow> bool" where
  "ends_with p s = starts_with (rev p) (rev s)"

text \<open>\<open>s.split(old).join(new)\<close> for a nonempty \<open>old\<close>.\<close>

function split_join :: "string \<Rightarrow> string \<Rightarrow> string \<Rightarrow> string" where
  "split_join old new [] = []"
| "split_join old new (c # cs) =
     (if old \<noteq> [] \<and> starts_with old (c # cs) then new @ split_join old new (drop (length old - 1) cs)
      else c # split_join old new cs)"
  by pat_completeness auto

termination
  by (relation "measure (\<lambda>(old, new, s). length s)") auto

lemma starts_with_iff: "starts_with p s \<longleftrightarrow> (\<exists>t. s = p @ t)"
  by (induction p s rule: starts_with.induct) auto

lemma ends_with_iff: "ends_with p s \<longleftrightarrow> (\<exists>t. s = t @ p)"
proof
  assume "ends_with p s"
  then obtain t where "rev s = rev p @ t" by (auto simp: ends_with_def starts_with_iff)
  then have "rev (rev s) = rev t @ p" by simp
  then show "\<exists>t. s = t @ p" by auto
qed (auto simp: ends_with_def starts_with_iff)

end
