(* ===== verification/Redact.thy ===== *)
theory Redact
  imports JsRegex NativeSchema JsMap
begin

text \<open>
  Redaction of secrets in reports: \<open>packages/reporter/src/redact.ts\<close>. A text loses the values of
  credential-like assignments and headers, tokens of known shapes and home directories; a data value is
  redacted at every depth, a field with a credential-like key entirely. \<open>os.homedir()\<close> is a parameter.
\<close>

section \<open>Credential keys\<close>

definition credentialKeySuffixes :: "string list" where
  "credentialKeySuffixes = [''token'', ''password'', ''passwd'', ''secret'', ''authorization'', ''cookie'', ''credential'',
     ''credentials'', ''apikey'', ''privatekey'', ''secretkey'', ''secretaccesskey'', ''accesskeyid'']"

definition normalized_key :: "string \<Rightarrow> string" where
  "normalized_key key = filter (\<lambda>c. c \<notin> set ''_./-'') (js_lower key)"

definition isCredentialKey :: "string \<Rightarrow> bool" where
  "isCredentialKey key = (let normalized = normalized_key key in
     list_ex (\<lambda>suffix. ends_with suffix normalized \<or> ends_with (suffix @ ''value'') normalized
       \<or> ends_with (suffix @ ''hash'') normalized) credentialKeySuffixes)"

section \<open>Values of assignments\<close>

definition redactedMarker :: string where "redactedMarker = ''[REDACTED]''"

definition blank_char :: "char \<Rightarrow> bool" where
  "blank_char c = (c = CHR 0x20 \<or> c = CHR 0x09)"

definition line_break :: "char \<Rightarrow> bool" where
  "line_break c = (c = CHR 0x0A \<or> c = CHR 0x0D)"

definition quote_char :: "char \<Rightarrow> bool" where
  "quote_char c = (c = CHR 0x22 \<or> c = CHR 0x27)"

definition key_pattern :: rx where
  "key_pattern = RxSeq (RxClass is_alpha) (rx_upto 127 (rx_alnum ''_./-''))"

definition nextAssignment :: rx where
  "nextAssignment = rx_seq [rx_opt (RxClass quote_char), key_pattern, rx_opt (RxClass quote_char),
     RxStar (RxClass blank_char), rx_set '':='']"

text \<open>
  The ends of values, as the number of code units from the start of the value. The remaining text is the
  argument; the text before it does not matter to the patterns used.
\<close>

definition to_line_break :: "string \<Rightarrow> nat" where
  "to_line_break s = length (takeWhile (\<lambda>c. \<not> line_break c) s)"

definition ends_marker :: "char \<Rightarrow> bool" where
  "ends_marker c = (line_break c \<or> c \<in> set '',;&}]'')"

definition assignment_follows :: "string \<Rightarrow> bool" where
  "assignment_follows s = (rx_len nextAssignment [] s \<noteq> None)"

text \<open>What follows the marker \<open>[REDACTED]\<close> and still belongs to the value.\<close>

definition markerValueEnd :: "string \<Rightarrow> nat" where
  "markerValueEnd s = (case s of
     [] \<Rightarrow> 0
   | c # cs \<Rightarrow>
       if ends_marker c then 0
       else if quote_char c \<and> (case cs of [] \<Rightarrow> True | d # _ \<Rightarrow> ends_marker d \<or> blank_char d) then 0
       else if blank_char c \<and> (let after = dropWhile blank_char s in
           (case after of [] \<Rightarrow> True | d # _ \<Rightarrow> line_break d) \<or> assignment_follows after) then 0
       else to_line_break s)"

fun quotedValueEnd :: "char \<Rightarrow> bool \<Rightarrow> string \<Rightarrow> nat" where
  "quotedValueEnd q escaped [] = 0"
| "quotedValueEnd q escaped (c # cs) =
     (if line_break c then 0
      else if escaped then Suc (quotedValueEnd q False cs)
      else if c = CHR 0x5C then Suc (quotedValueEnd q True cs)
      else if c = q then 1
      else Suc (quotedValueEnd q False cs))"

fun closer :: "char \<Rightarrow> char" where
  "closer c = (if c = CHR ''{'' then CHR ''}'' else if c = CHR ''['' then CHR '']'' else CHR '')'')"

fun structuredValueEnd :: "char list \<Rightarrow> char option \<Rightarrow> bool \<Rightarrow> string \<Rightarrow> nat" where
  "structuredValueEnd closers q escaped [] = 0"
| "structuredValueEnd closers q escaped (c # cs) = (case q of
     Some qc \<Rightarrow>
       if escaped then Suc (structuredValueEnd closers q False cs)
       else if c = CHR 0x5C then Suc (structuredValueEnd closers q True cs)
       else if c = qc then Suc (structuredValueEnd closers None False cs)
       else Suc (structuredValueEnd closers q False cs)
   | None \<Rightarrow>
       if quote_char c then Suc (structuredValueEnd closers (Some c) escaped cs)
       else if c \<in> set ''{[('' then Suc (structuredValueEnd (closer c # closers) None escaped cs)
       else (case closers of
           [] \<Rightarrow> Suc (structuredValueEnd closers None escaped cs)
         | d # ds \<Rightarrow> if c = d then (if ds = [] then 1 else Suc (structuredValueEnd ds None escaped cs))
             else Suc (structuredValueEnd closers None escaped cs)))"

fun unquotedValueEnd :: "string \<Rightarrow> nat" where
  "unquotedValueEnd [] = 0"
| "unquotedValueEnd (c # cs) =
     (if ends_marker c \<or> quote_char c then 0
      else if js_space c \<and> assignment_follows (dropWhile blank_char (c # cs)) then 0
      else Suc (unquotedValueEnd cs))"

definition readSensitiveValue :: "string \<Rightarrow> (nat \<times> string) option" where
  "readSensitiveValue s = (case s of
     [] \<Rightarrow> None
   | c # cs \<Rightarrow>
       if line_break c then None
       else if starts_with redactedMarker s then
         Some (length redactedMarker + markerValueEnd (drop (length redactedMarker) s), redactedMarker)
       else if quote_char c then Some (Suc (quotedValueEnd c False cs), [c] @ redactedMarker @ [c])
       else if c \<in> set ''{[('' then
         Some (Suc (structuredValueEnd [closer c] None False cs), [CHR 0x22] @ redactedMarker @ [CHR 0x22])
       else (let n = unquotedValueEnd s in if n = 0 then None else Some (n, redactedMarker)))"

section \<open>Assignments\<close>

text \<open>
  \<open>sensitiveAssignment\<close>: a boundary, an optionally quoted key and its separator. A match gives the
  lengths of the boundary and of the whole, and the key.
\<close>

definition key_boundary :: rx where
  "key_boundary = RxAlt RxStart (RxClass (\<lambda>c. \<not> (is_alnum c \<or> c = CHR ''_'')))"

definition separator :: rx where
  "separator = rx_seq [rx_opt (RxClass quote_char), RxStar (RxClass blank_char), rx_set '':='', RxStar (RxClass blank_char)]"

definition assignment_matches :: "string \<Rightarrow> string \<Rightarrow> (nat \<times> nat \<times> string) list" where
  "assignment_matches b s =
     concat (map (\<lambda>m. concat (map (\<lambda>k. concat (map (\<lambda>e. map (\<lambda>w.
         (length s - length (snd m), length s - length (snd w), take (length (snd k) - length (snd e)) (snd k)))
       (rx_matches separator (fst e) (snd e)))
       (rx_matches key_pattern (fst k) (snd k))))
       (rx_matches (rx_opt (RxClass quote_char)) (fst m) (snd m))))
       (rx_matches key_boundary b s))"

text \<open>
  The scan of \<open>redactAssignments\<close>: \<open>kept\<close> is the text since the last replacement, reversed. A
  credential's value is replaced and the scan goes on behind it; another key is read over, up to its
  last character, which may be the boundary of the next key.
\<close>

function redact_scan :: "string \<Rightarrow> string \<Rightarrow> string \<Rightarrow> string" where
  "redact_scan b kept [] = rev kept"
| "redact_scan b kept (c # cs) = (case assignment_matches b (c # cs) of
     [] \<Rightarrow> redact_scan (c # b) (c # kept) cs
   | (nb, nw, key) # _ \<Rightarrow>
       if \<not> isCredentialKey key then
         (let n = max (nw - 1) 1; skipped = take n (c # cs) in
          redact_scan (rev skipped @ b) (rev skipped @ kept) (drop n (c # cs)))
       else (case readSensitiveValue (drop nw (c # cs)) of
           None \<Rightarrow> (let n = max nw 1; skipped = take n (c # cs) in
             redact_scan (rev skipped @ b) (rev skipped @ kept) (drop n (c # cs)))
         | Some (len, replacement) \<Rightarrow> (let n = max (nw + len) 1 in
             rev kept @ take nw (c # cs) @ replacement @ redact_scan (rev (take n (c # cs)) @ b) [] (drop n (c # cs)))))"
  by pat_completeness auto

termination
  by (relation "measure (\<lambda>(b, kept, s). length s)") (auto simp: Let_def max_def)

definition redactAssignments :: "string \<Rightarrow> string" where
  "redactAssignments s = redact_scan [] [] s"

section \<open>Texts\<close>

definition sensitive_header_name :: rx where
  "sensitive_header_name = RxSeq RxBoundary (rx_alts [RxSeq (rx_opt (rx_itext ''proxy-'')) (rx_itext ''authorization''),
     rx_itext ''cookie'', rx_itext ''set-cookie''])"

definition sensitive_header_rest :: rx where
  "sensitive_header_rest = rx_seq [RxStar (RxClass blank_char), rx_text '':'', RxStar (RxClass blank_char),
     RxStar (RxClass (\<lambda>c. \<not> line_break c))]"

definition bearer_pattern :: rx where
  "bearer_pattern = rx_seq [RxBoundary, rx_itext ''bearer'', rx_plus rx_space, rx_plus (rx_alnum ''._~+/=-'')]"

definition basic_pattern :: rx where
  "basic_pattern = rx_seq [RxBoundary, rx_itext ''basic'', rx_plus rx_space, rx_atleast 8 (rx_alnum ''+/='')]"

definition upper_alnum :: "char \<Rightarrow> bool" where
  "upper_alnum c = (is_upper c \<or> is_digit c)"

definition highConfidenceSecrets :: "rx list" where
  "highConfidenceSecrets =
    [rx_seq [RxBoundary, rx_alts [rx_seq [rx_text ''gh'', rx_set ''pour'', rx_text ''_'', rx_atleast 20 (rx_alnum '''')],
        RxSeq (rx_text ''ghs_'') (rx_atleast 12 (rx_alnum ''_.-'')),
        RxSeq (rx_text ''github_pat_'') (rx_atleast 20 (rx_alnum ''_''))], RxBoundary],
     rx_seq [RxBoundary, rx_alts [rx_text ''sk'', rx_text ''rk''], rx_text ''_'', rx_alts [rx_text ''live'', rx_text ''test''],
        rx_text ''_'', rx_atleast 12 (rx_alnum ''''), RxBoundary],
     rx_seq [RxBoundary, rx_text ''whsec_'', rx_atleast 12 (rx_alnum ''''), RxBoundary],
     rx_seq [RxBoundary, rx_alts [rx_text ''AKIA'', rx_text ''ASIA''], rx_copies 16 (RxClass upper_alnum), RxBoundary],
     rx_seq [RxBoundary, rx_alts [RxSeq (rx_text ''npm_'') (rx_atleast 20 (rx_alnum '''')),
        RxSeq (rx_text ''glpat-'') (rx_atleast 20 (rx_alnum ''_-''))], RxBoundary],
     rx_seq [RxBoundary, rx_text ''sk-'', rx_atleast 12 (rx_alnum ''_-''), RxBoundary]]"

definition redact_tokens :: "string \<Rightarrow> string" where
  "redact_tokens s = foldl (\<lambda>t pattern. replaceAll pattern redactedMarker t) s highConfidenceSecrets"

definition redact_homes :: "string \<Rightarrow> string" where
  "redact_homes s =
     replaceAll (rx_seq [RxClass is_alpha, rx_text '':'', rx_set [CHR 0x5C], rx_itext ''users'', rx_set [CHR 0x5C],
         rx_plus (RxClass (\<lambda>c. c \<noteq> CHR 0x5C \<and> \<not> js_space c))]) ''%USERPROFILE%''
     (replaceAll (RxSeq (rx_text ''/home/'') (rx_plus (RxClass (\<lambda>c. c \<noteq> CHR ''/'' \<and> \<not> js_space c)))) ''$USER_HOME''
     (replaceAll (RxSeq (rx_text ''/Users/'') (rx_plus (RxClass (\<lambda>c. c \<noteq> CHR ''/'' \<and> \<not> js_space c)))) ''$USER_HOME'' s))"

definition strip_separators :: "string \<Rightarrow> string" where
  "strip_separators s = rev (dropWhile (\<lambda>c. c = CHR ''/'' \<or> c = CHR 0x5C) (rev s))"

definition redactReportText :: "string \<Rightarrow> string \<Rightarrow> string" where
  "redactReportText home s =
     (let redacted = redact_homes (redact_tokens (replaceAll basic_pattern ''Basic [REDACTED]''
            (replaceAll bearer_pattern ''Bearer [REDACTED]''
            (redactAssignments (replaceGroup sensitive_header_name sensitive_header_rest '': [REDACTED]'' s)))));
          currentHome = strip_separators home in
      if length currentHome \<le> 1 then redacted else split_join currentHome ''$USER_HOME'' redacted)"

section \<open>Data\<close>

text \<open>Decimal numerals, as template literals write them.\<close>

fun decimal_digits :: "nat \<Rightarrow> string" where
  "decimal_digits n = (if n < 10 then [char_of (48 + n)] else decimal_digits (n div 10) @ [char_of (48 + n mod 10)])"

declare decimal_digits.simps [simp del]

definition field_name :: "nat \<Rightarrow> nat option \<Rightarrow> string" where
  "field_name index suffix = ''field-'' @ decimal_digits index
     @ (case suffix of None \<Rightarrow> [] | Some n \<Rightarrow> ''-'' @ decimal_digits n)"

text \<open>
  The loop over suffixes. With \<open>length used\<close> tries it always finds a name (\<open>free_suffix_found\<close>), so the
  last case does not arise.
\<close>

fun free_suffix :: "nat \<Rightarrow> string list \<Rightarrow> nat \<Rightarrow> nat \<Rightarrow> string" where
  "free_suffix 0 used index n = field_name index (Some n)"
| "free_suffix (Suc tries) used index n =
     (if field_name index (Some n) \<in> set used then free_suffix tries used index (Suc n) else field_name index (Some n))"

definition safe_key :: "string list \<Rightarrow> nat \<Rightarrow> string \<Rightarrow> string" where
  "safe_key used index candidate =
     (if candidate \<notin> set used then candidate
      else if field_name index None \<notin> set used then field_name index None
      else free_suffix (length used) used index 1)"

definition conversation_pattern :: rx where
  "conversation_pattern = rx_alts [rx_itext ''prompt'', rx_itext ''transcript'', rx_itext ''conversation'']"

definition withheld_key :: "string \<Rightarrow> bool" where
  "withheld_key key = (isCredentialKey key \<or> rx_search conversation_pattern [] key)"

fun redactTraceValue :: "(string \<Rightarrow> string) \<Rightarrow> nat \<Rightarrow> json \<Rightarrow> json"
  and redact_fields :: "(string \<Rightarrow> string) \<Rightarrow> nat \<Rightarrow> nat \<Rightarrow> string list \<Rightarrow> (string \<times> json) list \<Rightarrow> (string \<times> json) list" where
  "redactTraceValue red depth (JStr s) = JStr (red s)"
| "redactTraceValue red depth (JArr js) =
     (case depth of 0 \<Rightarrow> JStr ''[TRUNCATED]'' | Suc d \<Rightarrow> JArr (map (redactTraceValue red d) js))"
| "redactTraceValue red depth (JObj fs) =
     (case depth of 0 \<Rightarrow> JStr ''[TRUNCATED]'' | Suc d \<Rightarrow> JObj (redact_fields red d 0 [] fs))"
| "redactTraceValue red depth j = j"
| "redact_fields red d index used [] = []"
| "redact_fields red d index used ((k, j) # fs) =
     (let key = safe_key used index (red k) in
      (key, if withheld_key k then JStr redactedMarker else redactTraceValue red d j)
        # redact_fields red d (Suc index) (key # used) fs)"

section \<open>Numerals are injective, so a free name exists\<close>

definition numeral_value :: "string \<Rightarrow> nat" where
  "numeral_value s = foldl (\<lambda>n c. 10 * n + (of_char c - 48)) 0 s"

lemma decimal_digits_value: "numeral_value (decimal_digits n) = n"
proof (induction n rule: decimal_digits.induct)
  case (1 n)
  have d: "of_char (char_of (48 + m) :: char) - 48 = (m :: nat)" if "m < 10" for m
    using that by (simp add: of_char_of)
  show ?case
  proof (cases "n < 10")
    case True
    then show ?thesis by (subst decimal_digits.simps) (simp add: numeral_value_def d)
  next
    case False
    then have "numeral_value (decimal_digits n) = 10 * (n div 10) + n mod 10"
      using 1 by (subst decimal_digits.simps) (simp add: numeral_value_def d)
    then show ?thesis by simp
  qed
qed

lemma field_name_inj: "field_name i (Some m) = field_name i (Some n) \<longleftrightarrow> m = n"
proof
  assume "field_name i (Some m) = field_name i (Some n)"
  then have "decimal_digits m = decimal_digits n" by (simp add: field_name_def)
  then show "m = n" by (metis decimal_digits_value)
qed simp

lemma free_suffix_spec:
  "(\<exists>k. n \<le> k \<and> k \<le> n + tries \<and> field_name i (Some k) \<notin> set used) \<Longrightarrow> free_suffix tries used i n \<notin> set used"
proof (induction tries used i n rule: free_suffix.induct)
  case (2 tries used i n)
  show ?case
  proof (cases "field_name i (Some n) \<in> set used")
    case True
    from "2.prems" obtain k where k: "n \<le> k" "k \<le> n + Suc tries" "field_name i (Some k) \<notin> set used" by blast
    then have "Suc n \<le> k" using True by (cases "k = n") auto
    then show ?thesis using "2.IH" [OF True] k True by auto
  qed simp
qed auto

lemma free_suffix_found: "free_suffix (length used) used i n \<notin> set used"
proof (rule free_suffix_spec, rule ccontr)
  let ?K = "{n .. n + length used}"
  assume "\<nexists>k. n \<le> k \<and> k \<le> n + length used \<and> field_name i (Some k) \<notin> set used"
  then have "(\<lambda>k. field_name i (Some k)) ` ?K \<subseteq> set used" by auto
  then have "card ((\<lambda>k. field_name i (Some k)) ` ?K) \<le> length used"
    using card_mono [of "set used"] card_length [of used] by (meson List.finite_set le_trans)
  moreover have "card ((\<lambda>k. field_name i (Some k)) ` ?K) = card ?K"
    by (rule card_image) (simp add: inj_on_def field_name_inj)
  ultimately show False by simp
qed

lemma safe_key_fresh: "safe_key used i c \<notin> set used"
  by (simp add: safe_key_def free_suffix_found)

section \<open>Redacted data\<close>

text \<open>Redaction keeps every field: as many as before, under distinct keys.\<close>

lemma redact_fields_length: "length (redact_fields red d i used fs) = length fs"
  by (induction fs arbitrary: i used) (auto simp: Let_def split_beta)

lemma redact_fields_keys:
  "distinct (map fst (redact_fields red d i used fs)) \<and> set (map fst (redact_fields red d i used fs)) \<inter> set used = {}"
proof (induction fs arbitrary: i used)
  case (Cons f fs)
  obtain k j where f: "f = (k, j)" by (cases f)
  let ?key = "safe_key used i (red k)"
  show ?case using Cons [of "Suc i" "?key # used"] safe_key_fresh [of used i "red k"] by (auto simp: f Let_def)
qed simp

text \<open>A field with a withheld key is redacted, at every depth that is kept.\<close>

fun withheld_gone :: "json \<Rightarrow> json \<Rightarrow> bool" where
  "withheld_gone (JArr js) (JArr ks) = list_all2 withheld_gone js ks"
| "withheld_gone (JObj fs) (JObj gs) = list_all2 (\<lambda>f g. if withheld_key (fst f) then snd g = JStr redactedMarker
     else withheld_gone (snd f) (snd g)) fs gs"
| "withheld_gone _ _ = True"

lemma withheld_redacted:
  "withheld_gone j (redactTraceValue red d j)"
  "list_all2 (\<lambda>f g. if withheld_key (fst f) then snd g = JStr redactedMarker else withheld_gone (snd f) (snd g))
     fs (redact_fields red d i used fs)"
proof (induction red d j and red d i used fs rule: redactTraceValue_redact_fields.induct)
  case (2 red depth js)
  then show ?case by (auto simp: list_all2_map2 list_all2_same split: nat.split)
next
  case (3 red depth fs)
  then show ?case by (auto split: nat.split)
next
  case (6 red d index used k j fs)
  then show ?case by (simp add: Let_def)
qed simp_all

text \<open>A text in which nothing is found is left as it is.\<close>

definition quiet_text :: "string \<Rightarrow> bool" where
  "quiet_text s = (\<not> rx_search (RxSeq sensitive_header_name sensitive_header_rest) [] s
     \<and> \<not> rx_search (RxSeq RxEps bearer_pattern) [] s \<and> \<not> rx_search (RxSeq RxEps basic_pattern) [] s)"

lemma replaceAll_nowhere: "\<not> rx_search (RxSeq RxEps r) [] s \<Longrightarrow> replaceAll r new s = s"
  by (simp add: replaceAll_def rx_replace_nowhere)

section \<open>The scan keeps the text between the values\<close>

text \<open>
  What a redacted text may be: the given text with some stretches replaced, each by a marker in its
  delimiters.
\<close>

definition marker_text :: "string \<Rightarrow> bool" where
  "marker_text r = (r = redactedMarker \<or> (\<exists>q. r = [q] @ redactedMarker @ [q] \<and> quote_char q))"

inductive masked :: "string \<Rightarrow> string \<Rightarrow> bool" where
  nothing: "masked [] []"
| kept: "masked s t \<Longrightarrow> masked (c # s) (c # t)"
| replaced: "marker_text r \<Longrightarrow> masked s t \<Longrightarrow> masked (value @ s) (r @ t)"

lemma masked_refl: "masked s s"
  by (induction s) (auto intro: masked.intros)

lemma masked_append: "masked s t \<Longrightarrow> masked (p @ s) (p @ t)"
  by (induction p) (auto intro: masked.intros)

lemma readSensitiveValue_marker: "readSensitiveValue s = Some (n, r) \<Longrightarrow> marker_text r"
  by (auto simp: readSensitiveValue_def marker_text_def quote_char_def Let_def split: list.splits if_splits)

lemma redact_scan_masked: "masked (rev kept @ s) (redact_scan b kept s)"
proof (induction b kept s rule: redact_scan.induct)
  case (1 b kept)
  then show ?case by (simp add: masked_refl)
next
  case (2 b kept c cs)
  show ?case
  proof (cases "assignment_matches b (c # cs)")
    case Nil
    then show ?thesis using "2.IH"(1) by simp
  next
    case (Cons m ms)
    obtain nb nw key where m: "m = (nb, nw, key)" by (cases m)
    show ?thesis
    proof (cases "isCredentialKey key")
      case False
      let ?n = "max (nw - 1) 1"
      have "masked (rev (rev (take ?n (c # cs)) @ kept) @ drop ?n (c # cs))
          (redact_scan (rev (take ?n (c # cs)) @ b) (rev (take ?n (c # cs)) @ kept) (drop ?n (c # cs)))"
        using "2.IH"(2) [OF Cons [unfolded m] refl refl] False by simp
      then show ?thesis using Cons m False by (simp add: Let_def)
    next
      case True
      show ?thesis
      proof (cases "readSensitiveValue (drop nw (c # cs))")
        case None
        let ?n = "max nw 1"
        have "masked (rev (rev (take ?n (c # cs)) @ kept) @ drop ?n (c # cs))
            (redact_scan (rev (take ?n (c # cs)) @ b) (rev (take ?n (c # cs)) @ kept) (drop ?n (c # cs)))"
          using "2.IH"(3) [OF Cons [unfolded m] refl refl] True None by simp
        then show ?thesis using Cons m True None by (simp add: Let_def)
      next
        case (Some v)
        obtain len r where v: "v = (len, r)" by (cases v)
        let ?n = "max (nw + len) 1"
        let ?out = "redact_scan (rev (take ?n (c # cs)) @ b) [] (drop ?n (c # cs))"
        have ih: "masked (drop ?n (c # cs)) ?out"
          using "2.IH"(4) [OF Cons [unfolded m] refl refl] True Some v by simp
        have "c # cs = take nw (c # cs) @ take (?n - nw) (drop nw (c # cs)) @ drop ?n (c # cs)"
          by (metis append_take_drop_id drop_drop le_add_diff_inverse2 le_add1 max.coboundedI1)
        moreover have "masked (rev kept @ take nw (c # cs) @ take (?n - nw) (drop nw (c # cs)) @ drop ?n (c # cs))
            (rev kept @ take nw (c # cs) @ r @ ?out)"
          by (intro masked_append replaced ih readSensitiveValue_marker [of "drop nw (c # cs)" len]) (simp add: Some v)
        ultimately have "masked (rev kept @ c # cs) (rev kept @ take nw (c # cs) @ r @ ?out)" by simp
        then show ?thesis using Cons m True Some v by (simp add: Let_def)
      qed
    qed
  qed
qed

lemma redactAssignments_masked: "masked s (redactAssignments s)"
  using redact_scan_masked [of "[]" s "[]"] by (simp add: redactAssignments_def)

end
