(* ===== verification/Trace.thy ===== *)
theory Trace
  imports JsRegex NativeSchema
begin

text \<open>
  The trace recorder: \<open>packages/core/src/trace.ts\<close>. Every event is sanitized before it is stored: the
  fields of its details with sensitive keys are withheld, texts lose credentials, nesting is cut off.
  Values are finite trees, so the check for cycles has no counterpart.
\<close>

section \<open>Texts\<close>

definition trace_bearer :: rx where
  "trace_bearer = rx_seq [RxBoundary, rx_itext ''bearer'', rx_plus rx_space, rx_plus (rx_alnum ''._~+/=-'')]"

definition trace_assignment_key :: rx where
  "trace_assignment_key = rx_seq [RxBoundary, RxStar (RxSeq (rx_plus (rx_alnum '''')) (rx_set ''_-'')),
     rx_alts [rx_seq [rx_itext ''api'', rx_opt (rx_set ''_-''), rx_itext ''key''], rx_itext ''token'', rx_itext ''password'',
       rx_itext ''secret'', rx_itext ''authorization'', rx_itext ''cookie'']]"

definition trace_assignment_value :: rx where
  "trace_assignment_value = rx_seq [RxStar rx_space, rx_set '':='', RxStar rx_space,
     rx_plus (RxClass (\<lambda>c. \<not> js_space c \<and> c \<notin> set '',;''))]"

definition trace_api_key :: rx where
  "trace_api_key = rx_seq [RxBoundary, rx_text ''sk-'', rx_atleast 12 (rx_alnum ''_-''), RxBoundary]"

definition redactText :: "string \<Rightarrow> string" where
  "redactText s = replaceAll trace_api_key ''[REDACTED]''
     (replaceGroup trace_assignment_key trace_assignment_value ''=[REDACTED]''
     (replaceAll trace_bearer ''Bearer [REDACTED]'' s))"

text \<open>The default \<open>sensitiveKeyPattern\<close>; a recorder may be given another.\<close>

definition default_sensitive :: rx where
  "default_sensitive = rx_alts [rx_itext ''secret'', rx_itext ''token'', rx_itext ''password'', rx_itext ''authorization'',
     rx_itext ''cookie'', rx_seq [rx_itext ''api'', rx_opt (rx_set ''-_''), rx_itext ''key''], rx_itext ''credential'',
     rx_itext ''prompt'', rx_itext ''transcript'', rx_itext ''conversation'', rx_itext ''arguments'', rx_itext ''filepath'']"

definition matchesSensitiveKey :: "rx option \<Rightarrow> string \<Rightarrow> bool" where
  "matchesSensitiveKey pattern key = rx_search (case pattern of None \<Rightarrow> default_sensitive | Some p \<Rightarrow> p) [] key"

section \<open>Values\<close>

text \<open>
  \<open>levels\<close> is the source's \<open>depth\<close> plus one, so that cutting off is level 0; the details of an event
  start at depth 8.
\<close>

fun sanitizeValue :: "(string \<Rightarrow> bool) \<Rightarrow> nat \<Rightarrow> json \<Rightarrow> json" where
  "sanitizeValue sensitive levels (JStr s) = JStr (redactText s)"
| "sanitizeValue sensitive 0 j = JStr ''[TRUNCATED]''"
| "sanitizeValue sensitive (Suc n) (JArr js) = JArr (map (sanitizeValue sensitive n) js)"
| "sanitizeValue sensitive (Suc n) (JObj fs) =
     JObj (map (\<lambda>(k, j). (k, if sensitive k then JStr ''[REDACTED]'' else sanitizeValue sensitive n j)) fs)"
| "sanitizeValue sensitive (Suc n) j = j"

definition sanitizeRecord :: "(string \<Rightarrow> bool) \<Rightarrow> nat \<Rightarrow> (string \<times> json) list \<Rightarrow> (string \<times> json) list" where
  "sanitizeRecord sensitive n fs =
     map (\<lambda>(k, j). (k, if sensitive k then JStr ''[REDACTED]'' else sanitizeValue sensitive n j)) fs"

definition details_levels :: nat where "details_levels = 8"

section \<open>Events\<close>

record trace_context =
  tx_sessionId :: "string option"
  tx_componentId :: "string option"
  tx_action :: "string option"
  tx_locatorKey :: "string option"

datatype trace_outcome = TracePassed | TraceFailed | TraceUnsupported

datatype trace_level = TraceInfo | TraceWarning | TraceError

datatype trace_input =
    OperationStarted trace_context string "(string \<times> json) list option"
  | OperationFinished trace_context string trace_outcome rat "(string \<times> json) list option"
  | Diagnostic trace_context trace_level string bool "(string \<times> json) list option"
  | Attachment trace_context string string string bool

record trace_event =
  te_input :: trace_input
  te_sequence :: nat
  te_timestamp :: string

fun sanitizeEvent :: "(string \<Rightarrow> bool) \<Rightarrow> trace_input \<Rightarrow> trace_input" where
  "sanitizeEvent sensitive (OperationStarted c i d) =
     OperationStarted c i (map_option (sanitizeRecord sensitive details_levels) d)"
| "sanitizeEvent sensitive (OperationFinished c i oc t d) =
     OperationFinished c i oc t (map_option (sanitizeRecord sensitive details_levels) d)"
| "sanitizeEvent sensitive (Diagnostic c l msg secret d) =
     Diagnostic c l (if secret then ''[REDACTED]'' else redactText msg) secret
       (map_option (sanitizeRecord sensitive details_levels) d)"
| "sanitizeEvent sensitive (Attachment c name ct path secret) =
     Attachment c (redactText name) ct (if secret then ''[REDACTED]'' else redactText path) secret"

text \<open>The recorder's state is its list of events; \<open>stamp\<close> is what the clock gives.\<close>

definition record_event :: "rx option \<Rightarrow> string \<Rightarrow> trace_input \<Rightarrow> trace_event list \<Rightarrow> trace_event list" where
  "record_event pattern stamp e evs = evs @ [\<lparr>te_input = sanitizeEvent (matchesSensitiveKey pattern) e,
     te_sequence = length evs + 1, te_timestamp = stamp\<rparr>]"

fun record_all :: "rx option \<Rightarrow> (string \<times> trace_input) list \<Rightarrow> trace_event list \<Rightarrow> trace_event list" where
  "record_all pattern [] evs = evs"
| "record_all pattern ((stamp, e) # es) evs = record_all pattern es (record_event pattern stamp e evs)"

section \<open>What is stored\<close>

text \<open>No field with a sensitive key keeps a value, and what is nested beyond the limit is cut off.\<close>

fun field_free :: "(string \<Rightarrow> bool) \<Rightarrow> nat \<Rightarrow> json \<Rightarrow> bool" where
  "field_free sensitive levels (JStr s) = True"
| "field_free sensitive 0 j = False"
| "field_free sensitive (Suc n) (JArr js) = list_all (field_free sensitive n) js"
| "field_free sensitive (Suc n) (JObj fs) =
     list_all (\<lambda>f. if sensitive (fst f) then snd f = JStr ''[REDACTED]'' else field_free sensitive n (snd f)) fs"
| "field_free sensitive (Suc n) j = True"

definition details_free :: "(string \<Rightarrow> bool) \<Rightarrow> (string \<times> json) list option \<Rightarrow> bool" where
  "details_free sensitive d = (case d of None \<Rightarrow> True
     | Some fs \<Rightarrow> field_free sensitive (Suc details_levels) (JObj fs))"

fun event_free :: "(string \<Rightarrow> bool) \<Rightarrow> trace_input \<Rightarrow> bool" where
  "event_free sensitive (OperationStarted c i d) = details_free sensitive d"
| "event_free sensitive (OperationFinished c i oc t d) = details_free sensitive d"
| "event_free sensitive (Diagnostic c l msg secret d) = ((secret \<longrightarrow> msg = ''[REDACTED]'') \<and> details_free sensitive d)"
| "event_free sensitive (Attachment c name ct path secret) = (secret \<longrightarrow> path = ''[REDACTED]'')"

lemma sanitize_free: "field_free sensitive n (sanitizeValue sensitive n j)"
proof (induction sensitive n j rule: sanitizeValue.induct)
  case (4 sensitive n fs)
  then show ?case by (fastforce simp: list_all_iff)
qed (auto simp: list_all_iff)

lemma details_sanitized: "details_free sensitive (map_option (sanitizeRecord sensitive details_levels) d)"
  by (auto simp: details_free_def sanitizeRecord_def list_all_iff sanitize_free split: option.split)

lemma event_sanitized: "event_free sensitive (sanitizeEvent sensitive e)"
  by (cases e) (auto simp: details_sanitized)

lemma record_all_stored:
  "record_all pattern es evs = evs @ map (\<lambda>(i, stamp, e). \<lparr>te_input = sanitizeEvent (matchesSensitiveKey pattern) e,
     te_sequence = Suc i, te_timestamp = stamp\<rparr>) (enumerate (length evs) es)"
  by (induction pattern es evs rule: record_all.induct) (auto simp: record_event_def)

lemma enumerate_sequence: "map (\<lambda>x. Suc (fst x)) (enumerate n es) = map Suc [n..<n + length es]"
  by (induction es arbitrary: n) (simp_all add: upt_conv_Cons del: upt_Suc)

lemma record_all_free:
  "list_all (\<lambda>v. event_free (matchesSensitiveKey pattern) (te_input v)) (record_all pattern es [])
   \<and> map te_sequence (record_all pattern es []) = [1..<Suc (length es)]"
proof
  show "list_all (\<lambda>v. event_free (matchesSensitiveKey pattern) (te_input v)) (record_all pattern es [])"
    by (auto simp: record_all_stored list_all_iff event_sanitized)
  have "map te_sequence (record_all pattern es []) = map (\<lambda>x. Suc (fst x)) (enumerate 0 es)"
    by (simp add: record_all_stored split_beta comp_def)
  also have "\<dots> = map Suc [0..<length es]"
    by (simp add: enumerate_sequence)
  finally show "map te_sequence (record_all pattern es []) = [1..<Suc (length es)]"
    by (simp add: map_Suc_upt del: upt_Suc)
qed

end
