(* ===== verification/Contracts.thy ===== *)
theory Contracts
  imports CaseSpec NativeSchema
begin

text \<open>
  The remaining contracts of \<open>packages/core/src\<close>: locators (\<open>locator.ts\<close>), component manifests
  (\<open>component.ts\<close>), application targets (\<open>platform.ts\<close>) and doctor reports (\<open>doctor.ts\<close>). Locators and
  manifests are checked as the typed values they are, with the checks the code makes at run time on the
  parts types do not settle. Doctor reports are untyped input, read as plain data as in the case
  contracts.
\<close>

section \<open>Locators\<close>

text \<open>A match policy as given: its \<open>kind\<close> and \<open>index\<close> are whatever the object holds.\<close>

record raw_policy =
  rp_kind :: jsv
  rp_index :: jsv

datatype match_policy = StrictMatch | IndexMatch int

text \<open>\<open>'r\<close> stands for the parts of a locator that are copied without a check.\<close>

datatype ('m, 'r) locator =
  Locator (lo_key: string) (lo_index: "jsnum option") (lo_match: "'m option") (lo_scope: "('m, 'r) locator_scope option") (lo_rest: 'r)
and ('m, 'r) locator_scope =
    DesktopScope | ApplicationScope | ActiveWindowScope
  | WindowScope "('m, 'r) locator" | DialogScope "('m, 'r) locator" | ElementScope string | UnknownScope

datatype locator_error = EmptyKey | BadIndex | MatchAndIndex | StrictWithIndex | BadMatchIndex | UnknownPolicy | UnknownLocatorScope

definition index_number :: "jsnum \<Rightarrow> bool" where
  "index_number n = (case n of Fin q \<Rightarrow> num_integral q \<and> 0 \<le> q | _ \<Rightarrow> False)"

definition freezeMatchPolicy :: "raw_policy \<Rightarrow> locator_error + match_policy" where
  "freezeMatchPolicy p =
     (if rp_kind p = VStr ''strict'' then
        (if rp_index p \<noteq> VUndefined then Inl StrictWithIndex else Inr StrictMatch)
      else if rp_kind p = VStr ''index'' then
        (case rp_index p of
           VNum (Fin q) \<Rightarrow> if num_integral q \<and> 0 \<le> q then Inr (IndexMatch (floor q)) else Inl BadMatchIndex
         | _ \<Rightarrow> Inl BadMatchIndex)
      else Inl UnknownPolicy)"

definition rlift :: "('a \<Rightarrow> 'e + 'b) \<Rightarrow> 'a option \<Rightarrow> 'e + 'b option" where
  "rlift f x = (case x of None \<Rightarrow> Inr None | Some a \<Rightarrow> rbind (f a) (\<lambda>b. Inr (Some b)))"

lemma rlift_cong [fundef_cong]: "x = y \<Longrightarrow> (\<And>a. y = Some a \<Longrightarrow> f a = g a) \<Longrightarrow> rlift f x = rlift g y"
  by (auto simp: rlift_def split: option.split)

fun defineLocator :: "(raw_policy, 'r) locator \<Rightarrow> locator_error + (match_policy, 'r) locator"
  and freezeScope :: "(raw_policy, 'r) locator_scope \<Rightarrow> locator_error + (match_policy, 'r) locator_scope" where
  "defineLocator (Locator key index m scope rest) =
     (if blank key then Inl EmptyKey
      else if \<not> (case index of None \<Rightarrow> True | Some n \<Rightarrow> index_number n) then Inl BadIndex
      else if m \<noteq> None \<and> index \<noteq> None then Inl MatchAndIndex
      else rbind (rlift freezeMatchPolicy m) (\<lambda>p. rbind (rlift freezeScope scope) (\<lambda>s. Inr (Locator key index p s rest))))"
| "freezeScope DesktopScope = Inr DesktopScope"
| "freezeScope ApplicationScope = Inr ApplicationScope"
| "freezeScope ActiveWindowScope = Inr ActiveWindowScope"
| "freezeScope (WindowScope l) = rbind (defineLocator l) (\<lambda>d. Inr (WindowScope d))"
| "freezeScope (DialogScope l) = rbind (defineLocator l) (\<lambda>d. Inr (DialogScope d))"
| "freezeScope (ElementScope i) = Inr (ElementScope i)"
| "freezeScope UnknownScope = Inl UnknownLocatorScope"

text \<open>The frozen policy is a policy again.\<close>

fun policy_object :: "match_policy \<Rightarrow> raw_policy" where
  "policy_object StrictMatch = \<lparr>rp_kind = VStr ''strict'', rp_index = VUndefined\<rparr>"
| "policy_object (IndexMatch i) = \<lparr>rp_kind = VStr ''index'', rp_index = VNum (Fin (of_int i))\<rparr>"

definition resolveLocatorMatchPolicy :: "(raw_policy, 'r) locator \<Rightarrow> locator_error + match_policy" where
  "resolveLocatorMatchPolicy l = (case (lo_match l, lo_index l) of
     (Some p, _) \<Rightarrow> freezeMatchPolicy p
   | (None, Some n) \<Rightarrow> freezeMatchPolicy \<lparr>rp_kind = VStr ''index'', rp_index = VNum n\<rparr>
   | (None, None) \<Rightarrow> Inr StrictMatch)"

fun match_policy_ok :: "match_policy \<Rightarrow> bool" where
  "match_policy_ok StrictMatch = True"
| "match_policy_ok (IndexMatch i) = (0 \<le> i)"

fun locator_ok :: "(match_policy, 'r) locator \<Rightarrow> bool" and locator_scope_ok :: "(match_policy, 'r) locator_scope \<Rightarrow> bool" where
  "locator_ok (Locator key index m scope rest) = (\<not> blank key \<and> pred_option index_number index \<and> (m = None \<or> index = None)
     \<and> pred_option match_policy_ok m \<and> pred_option locator_scope_ok scope)"
| "locator_scope_ok (WindowScope l) = locator_ok l"
| "locator_scope_ok (DialogScope l) = locator_ok l"
| "locator_scope_ok UnknownScope = False"
| "locator_scope_ok _ = True"

lemma freezeMatchPolicy_ok: "freezeMatchPolicy p = Inr q \<Longrightarrow> match_policy_ok q"
  by (auto simp: freezeMatchPolicy_def split: if_splits jsv.splits jsnum.splits)

lemma freezeMatchPolicy_again: "match_policy_ok q \<Longrightarrow> freezeMatchPolicy (policy_object q) = Inr q"
  by (cases q) (simp_all add: freezeMatchPolicy_def)

text \<open>What is defined is well formed; defining it again, as an object, gives the same.\<close>

lemma rlift_Inr: "rlift f x = Inr y \<longleftrightarrow> (case x of None \<Rightarrow> y = None | Some a \<Rightarrow> \<exists>b. f a = Inr b \<and> y = Some b)"
  by (auto simp: rlift_def split: option.split)

lemma defineLocator_ok:
  "defineLocator (l :: (raw_policy, 'r) locator) = Inr d \<Longrightarrow> locator_ok d"
  "freezeScope (s :: (raw_policy, 'r) locator_scope) = Inr t \<Longrightarrow> locator_scope_ok t"
proof (induction l and s arbitrary: d and t rule: defineLocator_freezeScope.induct)
  case (1 key index m scope rest)
  from 1(2) obtain p t where c: "\<not> blank key" "case index of None \<Rightarrow> True | Some n \<Rightarrow> index_number n"
      "m = None \<or> index = None" "rlift freezeMatchPolicy m = Inr p" "rlift freezeScope scope = Inr t"
      and d: "d = Locator key index p t rest"
    by (auto split: if_splits)
  have "pred_option match_policy_ok p" "p = None \<longleftrightarrow> m = None"
    using c(4) by (cases m, auto simp: rlift_Inr freezeMatchPolicy_ok)+
  moreover have "pred_option locator_scope_ok t"
  proof (cases scope)
    case (Some s)
    then obtain u where "freezeScope s = Inr u" "t = Some u" using c(5) by (auto simp: rlift_Inr)
    then show ?thesis using 1(1) [of p s] Some c by simp
  qed (use c(5) in \<open>simp add: rlift_Inr\<close>)
  ultimately show ?case using c(1-3) by (auto simp: d pred_option_def split: option.splits)
qed auto

lemma define_again:
  "locator_ok (l :: (match_policy, 'r) locator) \<Longrightarrow> defineLocator (map_locator policy_object (\<lambda>r. r) l) = Inr l"
  "locator_scope_ok (s :: (match_policy, 'r) locator_scope) \<Longrightarrow> freezeScope (map_locator_scope policy_object (\<lambda>r. r) s) = Inr s"
proof (induction l and s rule: locator_ok_locator_scope_ok.induct)
  case (1 key index m scope rest)
  then show ?case
    by (cases m; cases scope; cases index) (auto simp: rlift_def freezeMatchPolicy_again)
qed auto

lemma resolved_policy:
  "locator_ok l \<Longrightarrow> resolveLocatorMatchPolicy (map_locator policy_object (\<lambda>r. r) l) =
     Inr (case (lo_match l, lo_index l) of
       (Some p, _) \<Rightarrow> p | (None, Some (Fin q)) \<Rightarrow> IndexMatch (floor q) | _ \<Rightarrow> StrictMatch)"
proof (cases l)
  case (Locator key index m scope rest)
  assume "locator_ok l"
  with Locator show ?thesis
    by (cases m; cases index) (auto simp: resolveLocatorMatchPolicy_def freezeMatchPolicy_again
        index_number_def freezeMatchPolicy_def [of "\<lparr>rp_kind = _, rp_index = VNum _\<rparr>"] split: jsnum.splits)
qed

section \<open>Application targets\<close>

text \<open>\<open>isAppTarget\<close> reads properties of any object; one that is no plain data property reads as \<open>VSym\<close>,
  which passes no check.\<close>

definition target_prop :: "(pkey \<times> jsprop) list \<Rightarrow> string \<Rightarrow> jsv" where
  "target_prop ps k = (case map_of ps (StrKey k) of None \<Rightarrow> VUndefined | Some AccProp \<Rightarrow> VSym [] | Some (DataProp e v) \<Rightarrow> v)"

definition isNonEmptyString :: "jsv \<Rightarrow> bool" where
  "isNonEmptyString v = (case v of VStr s \<Rightarrow> length s > 0 | _ \<Rightarrow> False)"

definition isAppTarget :: "jsv \<Rightarrow> bool" where
  "isAppTarget v = (case v of
     VObj p ps \<Rightarrow>
       if \<not> isNonEmptyString (target_prop ps ''id'') \<or> \<not> isNonEmptyString (target_prop ps ''displayName'') then False
       else if target_prop ps ''platform'' = VStr ''macos'' then
         isNonEmptyString (target_prop ps ''bundleId'') \<or> isNonEmptyString (target_prop ps ''appPath'')
       else if target_prop ps ''platform'' = VStr ''windows'' then
         isNonEmptyString (target_prop ps ''executablePath'') \<or> isNonEmptyString (target_prop ps ''appUserModelId'')
       else False
   | _ \<Rightarrow> False)"

section \<open>Component manifests\<close>

record action_manifest =
  am_name :: string
  am_summary :: string
  am_sideEffect :: "side_effect option"
  am_capabilities :: "string list option"
  am_checks :: "string list option"

record component_manifest =
  cm_id :: string
  cm_version :: string
  cm_name :: string
  cm_platforms :: "string list"
  cm_capabilities :: "string list"
  cm_sideEffect :: side_effect
  cm_actions :: "action_manifest list"
  cm_assertions :: "string list"
  cm_locatorKeys :: "string list"
  cm_fixtures :: "string list option"

datatype manifest_error = MfEmpty | MfDuplicate | MfUnknownPlatform | MfUnknownCapability | MfExceedsLevel | MfUnknownCheck

definition desktopPlatforms :: "string list" where
  "desktopPlatforms = [''macos'', ''windows'']"

definition assertNonEmpty :: "string \<Rightarrow> manifest_error + unit" where
  "assertNonEmpty s = rguard (\<not> blank s) MfEmpty"

fun assert_unique_from :: "string list \<Rightarrow> string list \<Rightarrow> manifest_error + unit" where
  "assert_unique_from seen [] = Inr ()"
| "assert_unique_from seen (x # xs) = (if x \<in> set seen then Inl MfDuplicate else assert_unique_from (x # seen) xs)"

definition assertUnique :: "string list \<Rightarrow> manifest_error + unit" where
  "assertUnique xs = assert_unique_from [] xs"

definition or_empty :: "'a list option \<Rightarrow> 'a list" where
  "or_empty x = (case x of None \<Rightarrow> [] | Some xs \<Rightarrow> xs)"

text \<open>\<open>caps\<close> and \<open>checks\<close> are the tables \<open>desktopCapabilities\<close> and \<open>actionabilityChecks\<close>.\<close>

definition check_action :: "string list \<Rightarrow> string list \<Rightarrow> side_effect \<Rightarrow> action_manifest \<Rightarrow> manifest_error + unit" where
  "check_action caps checks level a =
     rbind (assertNonEmpty (am_name a)) (\<lambda>_.
     rbind (assertNonEmpty (am_summary a)) (\<lambda>_.
     if (case am_sideEffect a of None \<Rightarrow> False | Some l \<Rightarrow> \<not> isSideEffectAtMost l level) then Inl MfExceedsLevel else
     rbind (rall (\<lambda>c. rguard (c \<in> set caps) MfUnknownCapability) (or_empty (am_capabilities a))) (\<lambda>_.
     rbind (assertUnique (or_empty (am_checks a))) (\<lambda>_.
     rall (\<lambda>c. rguard (c \<in> set checks) MfUnknownCheck) (or_empty (am_checks a))))))"

definition defineComponentManifest :: "string list \<Rightarrow> string list \<Rightarrow> component_manifest \<Rightarrow> manifest_error + component_manifest" where
  "defineComponentManifest caps checks m =
     rbind (assertNonEmpty (cm_id m)) (\<lambda>_.
     rbind (assertNonEmpty (cm_name m)) (\<lambda>_.
     rbind (assertNonEmpty (cm_version m)) (\<lambda>_.
     rbind (assertUnique (cm_platforms m)) (\<lambda>_.
     rbind (assertUnique (cm_capabilities m)) (\<lambda>_.
     rbind (assertUnique (map am_name (cm_actions m))) (\<lambda>_.
     rbind (assertUnique (cm_assertions m)) (\<lambda>_.
     rbind (assertUnique (cm_locatorKeys m)) (\<lambda>_.
     rbind (assertUnique (or_empty (cm_fixtures m))) (\<lambda>_.
     rbind (rall assertNonEmpty (or_empty (cm_fixtures m))) (\<lambda>_.
     rbind (rall (\<lambda>p. rguard (p \<in> set desktopPlatforms) MfUnknownPlatform) (cm_platforms m)) (\<lambda>_.
     rbind (rall (\<lambda>c. rguard (c \<in> set caps) MfUnknownCapability) (cm_capabilities m)) (\<lambda>_.
     rbind (rall (check_action caps checks (cm_sideEffect m)) (cm_actions m)) (\<lambda>_. Inr m)))))))))))))"

lemma assert_unique_from_Inr: "assert_unique_from seen xs = Inr u \<longleftrightarrow> distinct xs \<and> set xs \<inter> set seen = {}"
  by (induction seen xs rule: assert_unique_from.induct) auto

lemma assertUnique_Inr [simp]: "assertUnique xs = Inr u \<longleftrightarrow> distinct xs"
  by (simp add: assertUnique_def assert_unique_from_Inr)

lemma manifest_accepted:
  "defineComponentManifest caps checks m = Inr d \<longleftrightarrow> d = m \<and> \<not> blank (cm_id m) \<and> \<not> blank (cm_name m) \<and> \<not> blank (cm_version m)
     \<and> distinct (cm_platforms m) \<and> set (cm_platforms m) \<subseteq> set desktopPlatforms
     \<and> distinct (cm_capabilities m) \<and> set (cm_capabilities m) \<subseteq> set caps
     \<and> distinct (cm_assertions m) \<and> distinct (cm_locatorKeys m)
     \<and> distinct (or_empty (cm_fixtures m)) \<and> (\<forall>f \<in> set (or_empty (cm_fixtures m)). \<not> blank f)
     \<and> distinct (map am_name (cm_actions m))
     \<and> (\<forall>a \<in> set (cm_actions m). \<not> blank (am_name a) \<and> \<not> blank (am_summary a)
          \<and> (case am_sideEffect a of None \<Rightarrow> True | Some l \<Rightarrow> l \<le> cm_sideEffect m)
          \<and> set (or_empty (am_capabilities a)) \<subseteq> set caps
          \<and> distinct (or_empty (am_checks a)) \<and> set (or_empty (am_checks a)) \<subseteq> set checks)"
  unfolding defineComponentManifest_def rbind_eq_Inr_iff assertUnique_Inr rall_Inr_iff assertNonEmpty_def rguard_eq_Inr_iff
  by (auto simp: check_action_def rall_Inr_iff assertNonEmpty_def subset_iff split: option.splits)

section \<open>Doctor reports\<close>

datatype doctor_status = CheckPass | CheckWarn | CheckFail | CheckUnsupported

definition doctorStatuses :: "(string \<times> doctor_status) list" where
  "doctorStatuses = [(''pass'', CheckPass), (''warn'', CheckWarn), (''fail'', CheckFail), (''unsupported'', CheckUnsupported)]"

record doctor_check =
  dk_id :: string
  dk_summary :: string
  dk_status :: doctor_status
  dk_required :: bool
  dk_details :: "(string \<times> json) list option"
  dk_remediation :: "string option"

record doctor_report =
  dr_schemaVersion :: string
  dr_platform :: string
  dr_targetId :: "string option"
  dr_generatedAt :: string
  dr_checks :: "doctor_check list"

record doctor_summary =
  ds_canStartSession :: bool
  ds_passed :: nat
  ds_warnings :: nat
  ds_failures :: nat
  ds_unsupported :: nat

datatype doctor_error = DrInvalid | DrNotPlain

definition dr_record :: "jsv \<Rightarrow> doctor_error + fields" where
  "dr_record v = (case v of
     VObj p ps \<Rightarrow> (case data_fields True (\<lambda>_. True) ps of None \<Rightarrow> Inl DrNotPlain | Some r \<Rightarrow> Inr r)
   | _ \<Rightarrow> Inl DrInvalid)"

definition requireString :: "jsv \<Rightarrow> doctor_error + string" where
  "requireString v = (case v of VStr s \<Rightarrow> if blank s then Inl DrInvalid else Inr s | _ \<Rightarrow> Inl DrInvalid)"

definition dr_optional :: "(jsv \<Rightarrow> doctor_error + 'a) \<Rightarrow> jsv \<Rightarrow> doctor_error + 'a option" where
  "dr_optional f v = (if v = VUndefined then Inr None else rbind (f v) (\<lambda>a. Inr (Some a)))"

fun parseDetailValue :: "nat \<Rightarrow> jsv \<Rightarrow> doctor_error + json"
  and detail_items :: "nat \<Rightarrow> jsprop option list \<Rightarrow> doctor_error + json list"
  and detail_fields :: "nat \<Rightarrow> (pkey \<times> jsprop) list \<Rightarrow> doctor_error + (string \<times> json) list" where
  "parseDetailValue depth VNull = (if depth > 8 then Inl DrInvalid else Inr JNull)"
| "parseDetailValue depth (VStr s) = (if depth > 8 then Inl DrInvalid else Inr (JStr s))"
| "parseDetailValue depth (VBool b) = (if depth > 8 then Inl DrInvalid else Inr (JBool b))"
| "parseDetailValue depth (VNum x) = (if depth > 8 then Inl DrInvalid else (case x of Fin q \<Rightarrow> Inr (JNum q) | _ \<Rightarrow> Inl DrInvalid))"
| "parseDetailValue depth (VArr b ps ks) = (if depth > 8 then Inl DrInvalid else
     rbind (detail_items (Suc depth) ps) (\<lambda>js. Inr (JArr js)))"
| "parseDetailValue depth (VObj p ps) = (if depth > 8 then Inl DrInvalid else
     rbind (detail_fields (Suc depth) ps) (\<lambda>fs. Inr (JObj fs)))"
| "parseDetailValue depth VUndefined = Inl DrInvalid"
| "parseDetailValue depth (VSym s) = Inl DrInvalid"
| "parseDetailValue depth (VFun s) = Inl DrInvalid"
| "detail_items depth [] = Inr []"
| "detail_items depth (Some (DataProp e v) # ps) =
     rbind (parseDetailValue depth v) (\<lambda>j. rbind (detail_items depth ps) (\<lambda>js. Inr (j # js)))"
| "detail_items depth (_ # ps) = Inl DrNotPlain"
| "detail_fields depth [] = Inr []"
| "detail_fields depth ((StrKey k, DataProp True v) # ps) =
     rbind (parseDetailValue depth v) (\<lambda>j. rbind (detail_fields depth ps) (\<lambda>fs. Inr ((k, j) # fs)))"
| "detail_fields depth ((SymKey k, _) # ps) = detail_fields depth ps"
| "detail_fields depth (_ # ps) = Inl DrNotPlain"

definition parseDetails :: "jsv \<Rightarrow> doctor_error + (string \<times> json) list" where
  "parseDetails v = (case v of VObj p ps \<Rightarrow> detail_fields 1 ps | _ \<Rightarrow> Inl DrInvalid)"

definition dr_status :: "jsv \<Rightarrow> doctor_error + doctor_status" where
  "dr_status v = rbind (requireString v) (\<lambda>s. (case map_of doctorStatuses s of None \<Rightarrow> Inl DrInvalid | Some st \<Rightarrow> Inr st))"

definition dr_bool :: "jsv \<Rightarrow> doctor_error + bool" where
  "dr_bool v = (case v of VBool b \<Rightarrow> Inr b | _ \<Rightarrow> Inl DrInvalid)"

definition parseCheck :: "jsv \<Rightarrow> doctor_error + doctor_check" where
  "parseCheck v = rbind (dr_record v) (\<lambda>r.
     rbind (dr_status (fld r ''status'')) (\<lambda>st.
     rbind (dr_bool (fld r ''required'')) (\<lambda>b.
     rbind (dr_optional parseDetails (fld r ''details'')) (\<lambda>d.
     rbind (dr_optional requireString (fld r ''remediation'')) (\<lambda>m.
     rbind (requireString (fld r ''id'')) (\<lambda>i.
     rbind (requireString (fld r ''summary'')) (\<lambda>s.
     Inr \<lparr>dk_id = i, dk_summary = s, dk_status = st, dk_required = b, dk_details = d, dk_remediation = m\<rparr>)))))))"

fun check_ids :: "string list \<Rightarrow> doctor_check list \<Rightarrow> doctor_error + string list" where
  "check_ids ids [] = Inr ids"
| "check_ids ids (c # cs) = (if dk_id c \<in> set ids then Inl DrInvalid else check_ids (dk_id c # ids) cs)"

definition validateChecks :: "doctor_check list \<Rightarrow> string list \<Rightarrow> doctor_error + unit" where
  "validateChecks checks expected = (if length checks = 0 then Inl DrInvalid else
     rbind (check_ids [] checks) (\<lambda>ids. rall (\<lambda>e. rguard (e \<in> set ids) DrInvalid) expected))"

text \<open>\<open>date_ok\<close>: \<open>Date.parse\<close> of the runtime gives a number.\<close>

definition dr_items :: "jsv \<Rightarrow> doctor_error + jsv list" where
  "dr_items v = (case v of
     VArr b ps ks \<Rightarrow> (case data_items False ps of None \<Rightarrow> Inl DrNotPlain | Some vs \<Rightarrow> Inr vs)
   | _ \<Rightarrow> Inl DrInvalid)"

definition parseDoctorReport :: "(string \<Rightarrow> bool) \<Rightarrow> string list \<Rightarrow> jsv \<Rightarrow> doctor_error + doctor_report" where
  "parseDoctorReport date_ok expected v = rbind (dr_record v) (\<lambda>r.
     rbind (requireString (fld r ''schemaVersion'')) (\<lambda>sv.
     rbind (requireString (fld r ''platform'')) (\<lambda>p.
     if p \<notin> set desktopPlatforms then Inl DrInvalid else
     rbind (requireString (fld r ''generatedAt'')) (\<lambda>g.
     if \<not> date_ok g then Inl DrInvalid
     else if fld r ''readOnly'' \<noteq> VBool True then Inl DrInvalid else
     rbind (dr_items (fld r ''checks'')) (\<lambda>vs.
     rbind (rmap parseCheck vs) (\<lambda>cs.
     rbind (validateChecks cs expected) (\<lambda>_.
     rbind (dr_optional requireString (fld r ''targetId'')) (\<lambda>t.
     Inr \<lparr>dr_schemaVersion = sv, dr_platform = p, dr_targetId = t, dr_generatedAt = g, dr_checks = cs\<rparr>))))))))"

definition count_status :: "doctor_status \<Rightarrow> doctor_check list \<Rightarrow> nat" where
  "count_status st cs = length (filter (\<lambda>c. dk_status c = st) cs)"

definition summarizeDoctor :: "doctor_report \<Rightarrow> doctor_error + doctor_summary" where
  "summarizeDoctor d = rbind (validateChecks (dr_checks d) []) (\<lambda>_.
     Inr \<lparr>ds_canStartSession = (\<not> list_ex (\<lambda>c. dk_required c \<and> (dk_status c = CheckFail \<or> dk_status c = CheckUnsupported)) (dr_checks d)),
       ds_passed = count_status CheckPass (dr_checks d), ds_warnings = count_status CheckWarn (dr_checks d),
       ds_failures = count_status CheckFail (dr_checks d), ds_unsupported = count_status CheckUnsupported (dr_checks d)\<rparr>)"

lemma check_ids_Inr: "check_ids ids cs = Inr js \<longleftrightarrow>
    distinct (map dk_id cs) \<and> set (map dk_id cs) \<inter> set ids = {} \<and> js = rev (map dk_id cs) @ ids"
  by (induction ids cs rule: check_ids.induct) auto

lemma validateChecks_Inr [simp]: "validateChecks cs expected = Inr u \<longleftrightarrow>
    cs \<noteq> [] \<and> distinct (map dk_id cs) \<and> set expected \<subseteq> set (map dk_id cs)"
  by (auto simp: validateChecks_def check_ids_Inr rall_Inr_iff)

text \<open>A report that was parsed has a summary, which counts every check once.\<close>

lemma counts_add: "count_status CheckPass cs + count_status CheckWarn cs + count_status CheckFail cs
    + count_status CheckUnsupported cs = length cs"
proof (induction cs)
  case (Cons c cs)
  then show ?case by (cases "dk_status c") (simp_all add: count_status_def)
qed (simp add: count_status_def)

lemma doctor_summarized:
  assumes "parseDoctorReport date_ok expected v = Inr d"
  shows "\<exists>s. summarizeDoctor d = Inr s
     \<and> ds_passed s + ds_warnings s + ds_failures s + ds_unsupported s = length (dr_checks d)
     \<and> (ds_canStartSession s \<longleftrightarrow> (\<forall>c \<in> set (dr_checks d). dk_required c \<longrightarrow> dk_status c = CheckPass \<or> dk_status c = CheckWarn))
     \<and> set expected \<subseteq> set (map dk_id (dr_checks d))"
proof -
  have v: "dr_checks d \<noteq> [] \<and> distinct (map dk_id (dr_checks d)) \<and> set expected \<subseteq> set (map dk_id (dr_checks d))"
    using assms unfolding parseDoctorReport_def rbind_eq_Inr_iff if_Inl_eq_Inr validateChecks_Inr
    by (elim exE conjE) (auto simp: dr_optional_def split: if_splits)
  have "dk_status c = CheckPass \<or> dk_status c = CheckWarn \<longleftrightarrow> dk_status c \<noteq> CheckFail \<and> dk_status c \<noteq> CheckUnsupported" for c
    by (cases "dk_status c") simp_all
  then show ?thesis using v counts_add [of "dr_checks d"] by (simp add: summarizeDoctor_def list_ex_iff) blast
qed

end
