(* ===== verification/ReportData.thy ===== *)
theory ReportData
  imports CaseSpec Redact
begin

text \<open>
  The data of reports: \<open>packages/reporter/src/model.ts\<close>, the shape of untrusted report input
  (\<open>runtime-shape.ts\<close>) and the primitives of its validation (\<open>validation-primitives.ts\<close>). Reading the
  shape gives the input as records. Inputs are plain data: an object with accessors or hidden properties,
  which the second version reads like any other, is refused here, as the case contracts refuse it. The
  choices a report makes (statuses, kinds, phases) are the strings they are, because they are validated
  after the shape.
\<close>

section \<open>The model\<close>

datatype report_error = RpShape | RpContent | RpCase

record report_step =
  st_id :: string
  st_title :: string
  st_status :: string
  st_durationMs :: jsnum
  st_componentId :: "string option"
  st_action :: "string option"
  st_assertion :: "string option"
  st_diagnostic :: "string option"
  st_criterionIds :: "string list option"

record error_summary =
  es_category :: string
  es_message :: string
  es_expected :: "json option"
  es_actual :: "json option"

record source_artifact =
  sa_id :: string
  sa_kind :: string
  sa_phase :: string
  sa_title :: string
  sa_captureStatus :: string
  sa_sourcePath :: "string option"
  sa_contentType :: string
  sa_capturedAt :: string
  sa_reviewPriority :: "string option"
  sa_stepId :: "string option"
  sa_description :: "string option"
  sa_sensitive :: "bool option"
  sa_durationMs :: "jsnum option"
  sa_relatedArtifactIds :: "string list option"
  sa_captureError :: "string option"

record case_result =
  cr_status :: string
  cr_startedAt :: string
  cr_durationMs :: jsnum
  cr_steps :: "report_step list"
  cr_artifacts :: "source_artifact list option"
  cr_error :: "error_summary option"
  cr_reason :: "string option"

record report_environment =
  en_osName :: "string option"
  en_osVersion :: "string option"
  en_runnerName :: "string option"
  en_runnerVersion :: "string option"
  en_commit :: "string option"
  en_branch :: "string option"
  en_ci :: "bool option"

record reported_app =
  ra_id :: string
  ra_name :: string
  ra_version :: "string option"
  ra_build :: "string option"

record report_run =
  rr_id :: string
  rr_title :: string
  rr_platform :: string
  rr_startedAt :: string
  rr_finishedAt :: string
  rr_app :: reported_app
  rr_environment :: "report_environment option"

text \<open>A test as given: its specification is still the fields of an object.\<close>

record shaped_test =
  sh_spec :: fields
  sh_result :: case_result

record shaped_report =
  sb_run :: report_run
  sb_tests :: "shaped_test list"

section \<open>Reading fields\<close>

definition rs_record :: "jsv \<Rightarrow> report_error + fields" where
  "rs_record v = (case v of
     VObj p ps \<Rightarrow>
       if p = OtherProto then Inl RpShape
       else (case data_fields True (\<lambda>_. True) ps of None \<Rightarrow> Inl RpShape | Some r \<Rightarrow> Inr r)
   | _ \<Rightarrow> Inl RpShape)"

definition rs_exactKeys :: "fields \<Rightarrow> string list \<Rightarrow> report_error + unit" where
  "rs_exactKeys r allowed = rguard (list_all (\<lambda>f. fst f \<in> set allowed) r) RpShape"

definition rs_required :: "fields \<Rightarrow> string \<Rightarrow> report_error + jsv" where
  "rs_required r k = (if has_own r k then Inr (fld r k) else Inl RpShape)"

definition rs_string :: "jsv \<Rightarrow> report_error + string" where
  "rs_string v = (case v of VStr s \<Rightarrow> Inr s | _ \<Rightarrow> Inl RpShape)"

definition rs_number :: "jsv \<Rightarrow> report_error + jsnum" where
  "rs_number v = (case v of VNum n \<Rightarrow> Inr n | _ \<Rightarrow> Inl RpShape)"

definition rs_boolean :: "jsv \<Rightarrow> report_error + bool" where
  "rs_boolean v = (case v of VBool b \<Rightarrow> Inr b | _ \<Rightarrow> Inl RpShape)"

text \<open>\<open>array\<close> and what iterating over one sees; \<open>stringArray\<close> wants every slot to be there.\<close>

definition rs_slot :: "jsprop option \<Rightarrow> report_error + jsv" where
  "rs_slot p = (case p of None \<Rightarrow> Inr VUndefined | Some (DataProp e v) \<Rightarrow> Inr v | Some AccProp \<Rightarrow> Inl RpShape)"

definition rs_array :: "jsv \<Rightarrow> report_error + jsv list" where
  "rs_array v = (case v of VArr b ps ks \<Rightarrow> rmap rs_slot ps | _ \<Rightarrow> Inl RpShape)"

definition stringArray :: "jsv \<Rightarrow> report_error + string list" where
  "stringArray v = rbind (rs_array v) (rmap rs_string)"

definition rs_field :: "(jsv \<Rightarrow> report_error + 'a) \<Rightarrow> fields \<Rightarrow> string \<Rightarrow> report_error + 'a" where
  "rs_field f r k = rbind (rs_required r k) f"

definition rs_optional :: "(jsv \<Rightarrow> report_error + 'a) \<Rightarrow> fields \<Rightarrow> string \<Rightarrow> report_error + 'a option" where
  "rs_optional f r k = (if has_own r k then rbind (f (fld r k)) (\<lambda>a. Inr (Some a)) else Inr None)"

text \<open>\<open>traceValue\<close>: JSON-safe data of at most 32 levels. \<open>forEach\<close> skips holes.\<close>

fun traceValue :: "nat \<Rightarrow> jsv \<Rightarrow> report_error + json"
  and trace_items :: "nat \<Rightarrow> jsprop option list \<Rightarrow> report_error + json list"
  and trace_fields :: "nat \<Rightarrow> (pkey \<times> jsprop) list \<Rightarrow> report_error + (string \<times> json) list" where
  "traceValue depth VNull = Inr JNull"
| "traceValue depth (VStr s) = Inr (JStr s)"
| "traceValue depth (VBool b) = Inr (JBool b)"
| "traceValue depth (VNum n) = (case n of Fin q \<Rightarrow> Inr (JNum q) | _ \<Rightarrow> Inl RpShape)"
| "traceValue depth (VArr b ps ks) = (if depth \<ge> 32 then Inl RpShape else
     rbind (trace_items (Suc depth) ps) (\<lambda>js. Inr (JArr js)))"
| "traceValue depth (VObj p ps) = (if depth \<ge> 32 then Inl RpShape else if p = OtherProto then Inl RpShape else
     rbind (trace_fields (Suc depth) ps) (\<lambda>fs. Inr (JObj fs)))"
| "traceValue depth VUndefined = Inl RpShape"
| "traceValue depth (VSym s) = Inl RpShape"
| "traceValue depth (VFun s) = Inl RpShape"
| "trace_items depth [] = Inr []"
| "trace_items depth (None # ps) = rbind (trace_items depth ps) (\<lambda>js. Inr (JNull # js))"
| "trace_items depth (Some AccProp # ps) = Inl RpShape"
| "trace_items depth (Some (DataProp e v) # ps) =
     rbind (traceValue depth v) (\<lambda>j. rbind (trace_items depth ps) (\<lambda>js. Inr (j # js)))"
| "trace_fields depth [] = Inr []"
| "trace_fields depth ((SymKey s, p) # ps) = trace_fields depth ps"
| "trace_fields depth ((StrKey k, AccProp) # ps) = Inl RpShape"
| "trace_fields depth ((StrKey k, DataProp e v) # ps) = (if \<not> e then trace_fields depth ps else
     rbind (traceValue depth v) (\<lambda>j. rbind (trace_fields depth ps) (\<lambda>fs. Inr ((k, j) # fs))))"

section \<open>The shape of a report\<close>

definition shape_environment :: "jsv \<Rightarrow> report_error + report_environment" where
  "shape_environment v =
     rbind (rs_record v) (\<lambda>r.
     rbind (rs_exactKeys r [''osName'', ''osVersion'', ''runnerName'', ''runnerVersion'', ''commit'', ''branch'', ''ci'']) (\<lambda>_.
     rbind (rs_optional rs_string r ''osName'') (\<lambda>on.
     rbind (rs_optional rs_string r ''osVersion'') (\<lambda>ov.
     rbind (rs_optional rs_string r ''runnerName'') (\<lambda>rn.
     rbind (rs_optional rs_string r ''runnerVersion'') (\<lambda>rv.
     rbind (rs_optional rs_string r ''commit'') (\<lambda>c.
     rbind (rs_optional rs_string r ''branch'') (\<lambda>b.
     rbind (rs_optional rs_boolean r ''ci'') (\<lambda>ci.
     Inr \<lparr>en_osName = on, en_osVersion = ov, en_runnerName = rn, en_runnerVersion = rv, en_commit = c,
       en_branch = b, en_ci = ci\<rparr>)))))))))"

definition shape_app :: "jsv \<Rightarrow> report_error + reported_app" where
  "shape_app v =
     rbind (rs_record v) (\<lambda>r.
     rbind (rs_exactKeys r [''id'', ''name'', ''version'', ''build'']) (\<lambda>_.
     rbind (rs_field rs_string r ''id'') (\<lambda>i.
     rbind (rs_field rs_string r ''name'') (\<lambda>n.
     rbind (rs_optional rs_string r ''version'') (\<lambda>vs.
     rbind (rs_optional rs_string r ''build'') (\<lambda>b.
     Inr \<lparr>ra_id = i, ra_name = n, ra_version = vs, ra_build = b\<rparr>))))))"

definition shape_run :: "jsv \<Rightarrow> report_error + report_run" where
  "shape_run v =
     rbind (rs_record v) (\<lambda>r.
     rbind (rs_exactKeys r [''id'', ''title'', ''platform'', ''startedAt'', ''finishedAt'', ''app'', ''environment'']) (\<lambda>_.
     rbind (rs_field rs_string r ''id'') (\<lambda>i.
     rbind (rs_field rs_string r ''title'') (\<lambda>t.
     rbind (rs_field rs_string r ''platform'') (\<lambda>p.
     rbind (rs_field rs_string r ''startedAt'') (\<lambda>s.
     rbind (rs_field rs_string r ''finishedAt'') (\<lambda>f.
     rbind (rs_field shape_app r ''app'') (\<lambda>a.
     rbind (rs_optional shape_environment r ''environment'') (\<lambda>e.
     Inr \<lparr>rr_id = i, rr_title = t, rr_platform = p, rr_startedAt = s, rr_finishedAt = f, rr_app = a,
       rr_environment = e\<rparr>)))))))))"

definition shape_clause :: "jsv \<Rightarrow> report_error + unit" where
  "shape_clause v =
     rbind (rs_record v) (\<lambda>r.
     rbind (rs_exactKeys r [''id'', ''text'']) (\<lambda>_.
     rbind (rs_field rs_string r ''id'') (\<lambda>_.
     rbind (rs_field rs_string r ''text'') (\<lambda>_. Inr ()))))"

definition shape_suite :: "jsv \<Rightarrow> report_error + unit" where
  "shape_suite v =
     rbind (rs_record v) (\<lambda>r.
     rbind (rs_exactKeys r [''id'', ''name'']) (\<lambda>_.
     rbind (rs_field rs_string r ''id'') (\<lambda>_.
     rbind (rs_field rs_string r ''name'') (\<lambda>_. Inr ()))))"

definition shape_clauses :: "jsv \<Rightarrow> report_error + unit" where
  "shape_clauses v = rbind (rs_array v) (rall shape_clause)"

definition shape_caseSpec :: "jsv \<Rightarrow> report_error + fields" where
  "shape_caseSpec v =
     rbind (rs_record v) (\<lambda>r.
     rbind (rs_exactKeys r spec_keys) (\<lambda>_.
     rbind (rall (\<lambda>k. rbind (rs_field rs_string r k) (\<lambda>_. Inr ())) [''id'', ''locale'', ''name'', ''intent'', ''sideEffect'']) (\<lambda>_.
     rbind (rs_optional rs_string r ''sourceName'') (\<lambda>_.
     rbind (rs_optional stringArray r ''platforms'') (\<lambda>_.
     rbind (rs_field shape_suite r ''suite'') (\<lambda>_.
     rbind (rall (\<lambda>k. rs_field shape_clauses r k) [''preconditions'', ''acceptanceCriteria'']) (\<lambda>_.
     rbind (rs_optional stringArray r ''tags'') (\<lambda>_. Inr r))))))))"

definition shape_step :: "jsv \<Rightarrow> report_error + report_step" where
  "shape_step v =
     rbind (rs_record v) (\<lambda>r.
     rbind (rs_exactKeys r [''id'', ''title'', ''status'', ''durationMs'', ''componentId'', ''action'', ''assertion'',
       ''diagnostic'', ''criterionIds'']) (\<lambda>_.
     rbind (rs_field rs_string r ''id'') (\<lambda>i.
     rbind (rs_field rs_string r ''title'') (\<lambda>t.
     rbind (rs_field rs_string r ''status'') (\<lambda>s.
     rbind (rs_field rs_number r ''durationMs'') (\<lambda>d.
     rbind (rs_optional rs_string r ''componentId'') (\<lambda>c.
     rbind (rs_optional rs_string r ''action'') (\<lambda>a.
     rbind (rs_optional rs_string r ''assertion'') (\<lambda>as.
     rbind (rs_optional rs_string r ''diagnostic'') (\<lambda>dg.
     rbind (rs_optional stringArray r ''criterionIds'') (\<lambda>cs.
     Inr \<lparr>st_id = i, st_title = t, st_status = s, st_durationMs = d, st_componentId = c, st_action = a,
       st_assertion = as, st_diagnostic = dg, st_criterionIds = cs\<rparr>)))))))))))"

definition shape_artifact :: "jsv \<Rightarrow> report_error + source_artifact" where
  "shape_artifact v =
     rbind (rs_record v) (\<lambda>r.
     rbind (rs_exactKeys r [''id'', ''kind'', ''phase'', ''title'', ''captureStatus'', ''sourcePath'', ''contentType'',
       ''capturedAt'', ''reviewPriority'', ''stepId'', ''description'', ''sensitive'', ''durationMs'',
       ''relatedArtifactIds'', ''captureError'']) (\<lambda>_.
     rbind (rs_field rs_string r ''id'') (\<lambda>i.
     rbind (rs_field rs_string r ''kind'') (\<lambda>k.
     rbind (rs_field rs_string r ''phase'') (\<lambda>p.
     rbind (rs_field rs_string r ''title'') (\<lambda>t.
     rbind (rs_field rs_string r ''captureStatus'') (\<lambda>s.
     rbind (rs_field rs_string r ''contentType'') (\<lambda>ct.
     rbind (rs_field rs_string r ''capturedAt'') (\<lambda>ca.
     rbind (rs_optional rs_string r ''sourcePath'') (\<lambda>sp.
     rbind (rs_optional rs_string r ''reviewPriority'') (\<lambda>rp.
     rbind (rs_optional rs_string r ''stepId'') (\<lambda>si.
     rbind (rs_optional rs_string r ''description'') (\<lambda>de.
     rbind (rs_optional rs_string r ''captureError'') (\<lambda>ce.
     rbind (rs_optional rs_boolean r ''sensitive'') (\<lambda>se.
     rbind (rs_optional rs_number r ''durationMs'') (\<lambda>d.
     rbind (rs_optional stringArray r ''relatedArtifactIds'') (\<lambda>rel.
     Inr \<lparr>sa_id = i, sa_kind = k, sa_phase = p, sa_title = t, sa_captureStatus = s, sa_sourcePath = sp,
       sa_contentType = ct, sa_capturedAt = ca, sa_reviewPriority = rp, sa_stepId = si, sa_description = de,
       sa_sensitive = se, sa_durationMs = d, sa_relatedArtifactIds = rel, sa_captureError = ce\<rparr>)))))))))))))))))"

definition shape_error :: "jsv \<Rightarrow> report_error + error_summary" where
  "shape_error v =
     rbind (rs_record v) (\<lambda>r.
     rbind (rs_exactKeys r [''category'', ''message'', ''expected'', ''actual'']) (\<lambda>_.
     rbind (rs_field rs_string r ''category'') (\<lambda>c.
     rbind (rs_field rs_string r ''message'') (\<lambda>m.
     rbind (rs_optional (traceValue 0) r ''expected'') (\<lambda>e.
     rbind (rs_optional (traceValue 0) r ''actual'') (\<lambda>a.
     Inr \<lparr>es_category = c, es_message = m, es_expected = e, es_actual = a\<rparr>))))))"

definition shape_result :: "jsv \<Rightarrow> report_error + case_result" where
  "shape_result v =
     rbind (rs_record v) (\<lambda>r.
     rbind (rs_exactKeys r [''status'', ''startedAt'', ''durationMs'', ''steps'', ''artifacts'', ''error'', ''reason'']) (\<lambda>_.
     rbind (rs_field rs_string r ''status'') (\<lambda>s.
     rbind (rs_field rs_string r ''startedAt'') (\<lambda>t.
     rbind (rs_field rs_number r ''durationMs'') (\<lambda>d.
     rbind (rbind (rs_field rs_array r ''steps'') (rmap shape_step)) (\<lambda>steps.
     rbind (rs_optional (\<lambda>a. rbind (rs_array a) (rmap shape_artifact)) r ''artifacts'') (\<lambda>as.
     rbind (rs_optional shape_error r ''error'') (\<lambda>e.
     rbind (rs_optional rs_string r ''reason'') (\<lambda>why.
     Inr \<lparr>cr_status = s, cr_startedAt = t, cr_durationMs = d, cr_steps = steps, cr_artifacts = as, cr_error = e,
       cr_reason = why\<rparr>)))))))))"

definition shape_test :: "jsv \<Rightarrow> report_error + shaped_test" where
  "shape_test v =
     rbind (rs_record v) (\<lambda>r.
     rbind (rs_exactKeys r [''spec'', ''result'']) (\<lambda>_.
     rbind (rs_field shape_caseSpec r ''spec'') (\<lambda>s.
     rbind (rs_field shape_result r ''result'') (\<lambda>x.
     Inr \<lparr>sh_spec = s, sh_result = x\<rparr>))))"

definition validateRuntimeShape :: "jsv \<Rightarrow> report_error + shaped_report" where
  "validateRuntimeShape v =
     rbind (rs_record v) (\<lambda>r.
     rbind (rs_exactKeys r [''run'', ''tests'']) (\<lambda>_.
     rbind (rs_field shape_run r ''run'') (\<lambda>run.
     rbind (rbind (rs_field rs_array r ''tests'') (rmap shape_test)) (\<lambda>tests.
     Inr \<lparr>sb_run = run, sb_tests = tests\<rparr>))))"

section \<open>Timestamps\<close>

text \<open>
  \<open>validateTimestamp\<close>: the ISO shape is read from the left, two or four digits at a time; then the calendar
  and the ranges are checked, and \<open>Date.parse\<close> gives milliseconds since 1970. It counts three digits of
  the fraction.
\<close>

definition digit_value :: "char \<Rightarrow> int" where
  "digit_value c = int (code c) - 48"

definition report_digits :: "string \<Rightarrow> int" where
  "report_digits s = foldl (\<lambda>n c. 10 * n + digit_value c) 0 s"

definition take_digits :: "nat \<Rightarrow> string \<Rightarrow> (int \<times> string) option" where
  "take_digits n s = (if length s \<ge> n \<and> list_all is_digit (take n s) then Some (report_digits (take n s), drop n s) else None)"

definition take_char :: "char \<Rightarrow> string \<Rightarrow> string option" where
  "take_char c s = (case s of [] \<Rightarrow> None | d # ds \<Rightarrow> if d = c then Some ds else None)"

definition obind :: "'a option \<Rightarrow> ('a \<Rightarrow> 'b option) \<Rightarrow> 'b option" where
  "obind x f = (case x of None \<Rightarrow> None | Some a \<Rightarrow> f a)"

definition isLeapYear :: "int \<Rightarrow> bool" where
  "isLeapYear y = (y mod 4 = 0 \<and> (y mod 100 \<noteq> 0 \<or> y mod 400 = 0))"

definition monthDays :: "int \<Rightarrow> int list" where
  "monthDays y = [31, if isLeapYear y then 29 else 28, 31, 30, 31, 30, 31, 31, 30, 31, 30, 31]"

text \<open>Days since 1970-01-01 of the proleptic Gregorian calendar.\<close>

definition days_before_year :: "int \<Rightarrow> int" where
  "days_before_year y = 365 * (y - 1970) + ((y - 1) div 4 - (y - 1) div 100 + (y - 1) div 400) - 477"

definition epoch_days :: "int \<Rightarrow> nat \<Rightarrow> int \<Rightarrow> int" where
  "epoch_days y m d = days_before_year y + sum_list (take (m - 1) (monthDays y)) + (d - 1)"

text \<open>The fraction, as milliseconds, and the zone, as minutes to subtract.\<close>

definition fraction :: "string \<Rightarrow> (int \<times> string) option" where
  "fraction s = (case s of
     [] \<Rightarrow> Some (0, s)
   | c # cs \<Rightarrow> if c \<noteq> CHR ''.'' then Some (0, s) else
       (let ds = takeWhile is_digit cs in
        if ds = [] \<or> length ds > 9 then None else Some (report_digits (take 3 (ds @ ''00'')), drop (length ds) cs)))"

definition zone :: "string \<Rightarrow> (int \<times> int \<times> int) option" where
  "zone s = (case s of
     [] \<Rightarrow> None
   | c # cs \<Rightarrow>
       if c = CHR ''Z'' then (if cs = [] then Some (0, 0, 0) else None)
       else if c = CHR ''+'' \<or> c = CHR ''-'' then
         obind (take_digits 2 cs) (\<lambda>(h, s1).
         obind (take_char CHR '':'' s1) (\<lambda>s2.
         obind (take_digits 2 s2) (\<lambda>(m, s3).
         if s3 = [] then Some (if c = CHR ''+'' then 1 else -1, h, m) else None)))
       else None)"

definition date_part :: "string \<Rightarrow> ((int \<times> int \<times> int) \<times> string) option" where
  "date_part s =
     obind (take_digits 4 s) (\<lambda>(y, s1).
     obind (take_char CHR ''-'' s1) (\<lambda>s2.
     obind (take_digits 2 s2) (\<lambda>(mo, s3).
     obind (take_char CHR ''-'' s3) (\<lambda>s4.
     obind (take_digits 2 s4) (\<lambda>(d, s5). Some ((y, mo, d), s5))))))"

definition time_part :: "string \<Rightarrow> ((int \<times> int \<times> int) \<times> string) option" where
  "time_part s =
     obind (take_digits 2 s) (\<lambda>(h, s1).
     obind (take_char CHR '':'' s1) (\<lambda>s2.
     obind (take_digits 2 s2) (\<lambda>(mi, s3).
     obind (take_char CHR '':'' s3) (\<lambda>s4.
     obind (take_digits 2 s4) (\<lambda>(sec, s5). Some ((h, mi, sec), s5))))))"

definition validateTimestamp :: "string \<Rightarrow> report_error + int" where
  "validateTimestamp s =
     (case obind (date_part s) (\<lambda>(ymd, s1). obind (take_char CHR ''T'' s1) (\<lambda>s2. obind (time_part s2) (\<lambda>(hms, s3).
        obind (fraction s3) (\<lambda>(ms, s4). obind (zone s4) (\<lambda>z. Some (ymd, hms, ms, z)))))) of
        None \<Rightarrow> Inl RpContent
      | Some ((y, mo, d), (h, mi, sec), ms, (sign, oh, om)) \<Rightarrow>
          if mo < 1 \<or> mo > 12 \<or> d < 1 \<or> d > monthDays y ! nat (mo - 1)
             \<or> h > 23 \<or> mi > 59 \<or> sec > 59 \<or> oh > 23 \<or> om > 59 then Inl RpContent
          else Inr (((epoch_days y (nat mo) d * 24 + h) * 60 + mi - sign * (oh * 60 + om)) * 60000 + sec * 1000 + ms))"

section \<open>Primitive checks\<close>

definition test_statuses :: "string list" where
  "test_statuses = [''passed'', ''failed'', ''timedOut'', ''skipped'', ''unsupported'']"

definition validateStatus :: "string \<Rightarrow> report_error + unit" where
  "validateStatus s = rguard (s \<in> set test_statuses) RpContent"

definition duration_ok :: "jsnum \<Rightarrow> bool" where
  "duration_ok n = (case n of Fin q \<Rightarrow> 0 \<le> q | _ \<Rightarrow> False)"

definition validateDuration :: "jsnum \<Rightarrow> report_error + unit" where
  "validateDuration n = rguard (duration_ok n) RpContent"

definition validateNonEmpty :: "string \<Rightarrow> report_error + unit" where
  "validateNonEmpty s = rguard (\<not> blank s) RpContent"

text \<open>\<open>red\<close> is \<open>redactReportText\<close>, with the home directory of the process.\<close>

definition report_id_ok :: "(string \<Rightarrow> string) \<Rightarrow> string \<Rightarrow> bool" where
  "report_id_ok red s = (\<not> blank s \<and> length s \<le> 200 \<and> ident_shape ''._:@-'' s \<and> red s = s)"

definition validateIdentifier :: "(string \<Rightarrow> string) \<Rightarrow> string \<Rightarrow> report_error + unit" where
  "validateIdentifier red s = rbind (validateNonEmpty s) (\<lambda>_.
     if length s > 200 then Inl RpContent
     else if \<not> ident_shape ''._:@-'' s then Inl RpContent
     else if red s \<noteq> s then Inl RpContent else Inr ())"

fun unique_from :: "string list \<Rightarrow> string list \<Rightarrow> report_error + unit" where
  "unique_from seen [] = Inr ()"
| "unique_from seen (x # xs) = (if x \<in> set seen then Inl RpContent else unique_from (x # seen) xs)"

definition validateUnique :: "string list \<Rightarrow> report_error + unit" where
  "validateUnique xs = unique_from [] xs"

lemma validateStatus_Inr [simp]: "validateStatus s = Inr u \<longleftrightarrow> s \<in> set test_statuses"
  by (simp add: validateStatus_def)

lemma validateDuration_Inr [simp]: "validateDuration n = Inr u \<longleftrightarrow> duration_ok n"
  by (simp add: validateDuration_def)

lemma validateNonEmpty_Inr [simp]: "validateNonEmpty s = Inr u \<longleftrightarrow> \<not> blank s"
  by (simp add: validateNonEmpty_def)

lemma validateIdentifier_Inr [simp]: "validateIdentifier red s = Inr u \<longleftrightarrow> report_id_ok red s"
  by (auto simp: validateIdentifier_def report_id_ok_def)

lemma unique_from_Inr: "unique_from seen xs = Inr u \<longleftrightarrow> distinct xs \<and> set xs \<inter> set seen = {}"
  by (induction seen xs rule: unique_from.induct) auto

lemma validateUnique_Inr [simp]: "validateUnique xs = Inr u \<longleftrightarrow> distinct xs"
  by (simp add: validateUnique_def unique_from_Inr)

end
