(* ===== verification/ReportValidate.thy ===== *)
theory ReportValidate
  imports ReportData "HOL-Library.Multiset"
begin

text \<open>
  The validation of report input: \<open>packages/reporter/src/validate.ts\<close> and \<open>validate-artifact.ts\<close>; the
  retention of evidence (\<open>evidence-policy.ts\<close>) and the summary of a report (\<open>summary.ts\<close>). An input that is
  accepted is consistent: what its statuses claim is what its steps, errors and reasons show.
  \<open>red\<close> is \<open>redactReportText\<close>, \<open>han\<close> the Unicode script test of the case contracts.
\<close>

section \<open>Artifacts\<close>

definition captureStatuses :: "string list" where
  "captureStatuses = [''captured'', ''captureFailed'', ''unsupported'', ''notRequested'']"

definition artifactPhases :: "string list" where
  "artifactPhases = [''before'', ''step'', ''after'', ''failure'']"

definition contentTypes :: "(string \<times> string list) list" where
  "contentTypes = [
     (''screenshot'', [''image/png'', ''image/jpeg'', ''image/webp'']),
     (''videoFrame'', [''image/png'', ''image/jpeg'', ''image/webp'']),
     (''video'', [''video/mp4'', ''video/webm'', ''video/quicktime'']),
     (''trace'', [''application/json'', ''application/x-ndjson'', ''application/zip'']),
     (''agentLoop'', [''text/html'', ''application/json'']),
     (''accessibilityTree'', [''application/json'', ''text/plain'']),
     (''log'', [''text/plain'', ''application/x-ndjson'']),
     (''diagnostics'', [''application/json'', ''application/zip'', ''text/plain''])]"

definition validateCaptureOutcome :: "source_artifact \<Rightarrow> report_error + unit" where
  "validateCaptureOutcome a =
     rbind (if sa_captureStatus a = ''captured'' then
        (case sa_sourcePath a of
           None \<Rightarrow> Inl RpContent
         | Some p \<Rightarrow> rbind (validateNonEmpty p) (\<lambda>_. rguard (sa_captureError a = None) RpContent))
      else rguard (sa_sourcePath a = None) RpContent) (\<lambda>_.
     rguard (sa_captureStatus a \<noteq> ''captureFailed'' \<or> sa_captureError a \<noteq> None) RpContent)"

definition or_else :: "'a option \<Rightarrow> 'a \<Rightarrow> 'a" where
  "or_else x d = (case x of None \<Rightarrow> d | Some a \<Rightarrow> a)"

definition validateArtifact :: "(string \<Rightarrow> string) \<Rightarrow> report_step list \<Rightarrow> source_artifact \<Rightarrow> report_error + unit" where
  "validateArtifact red steps a =
     rbind (validateIdentifier red (sa_id a)) (\<lambda>_.
     rbind (validateNonEmpty (sa_title a)) (\<lambda>_.
     rbind (rguard (sa_captureStatus a \<in> set captureStatuses) RpContent) (\<lambda>_.
     rbind (rguard (sa_phase a \<in> set artifactPhases) RpContent) (\<lambda>_.
     (case map_of contentTypes (sa_kind a) of
        None \<Rightarrow> Inl RpContent
      | Some types \<Rightarrow>
     rbind (rguard (sa_reviewPriority a \<in> {None, Some ''primary'', Some ''secondary''}) RpContent) (\<lambda>_.
     rbind (validateCaptureOutcome a) (\<lambda>_.
     rbind (validateTimestamp (sa_capturedAt a)) (\<lambda>_.
     rbind (validateDuration (or_else (sa_durationMs a) (Fin 0))) (\<lambda>_.
     rbind (rguard (sa_contentType a \<in> set types) RpContent) (\<lambda>_.
     rbind (rguard (case sa_stepId a of None \<Rightarrow> True | Some i \<Rightarrow> i \<in> set (map st_id steps)) RpContent) (\<lambda>_.
     rall (validateIdentifier red) (or_else (sa_relatedArtifactIds a) []))))))))))))"

section \<open>Tests\<close>

text \<open>A test whose specification is defined.\<close>

record report_test =
  rt_spec :: case_spec
  rt_result :: case_result

record report_bundle =
  rb_run :: report_run
  rb_tests :: "report_test list"

definition failing :: "string \<Rightarrow> bool" where
  "failing s = (s = ''failed'' \<or> s = ''timedOut'')"

definition needsReason :: "string \<Rightarrow> bool" where
  "needsReason s = (s = ''skipped'' \<or> s = ''unsupported'')"

definition duration_of :: "jsnum \<Rightarrow> rat" where
  "duration_of n = (case n of Fin q \<Rightarrow> q | _ \<Rightarrow> 0)"

definition coveredCriteria :: "report_step list \<Rightarrow> string list" where
  "coveredCriteria steps = concat (map (\<lambda>s. if st_status s = ''passed'' then or_else (st_criterionIds s) [] else []) steps)"

definition check_error :: "case_result \<Rightarrow> report_error + unit" where
  "check_error r =
     rbind (rguard (failing (cr_status r) = (cr_error r \<noteq> None)) RpContent) (\<lambda>_.
     (case cr_error r of
        None \<Rightarrow> Inr ()
      | Some e \<Rightarrow> rbind (validateNonEmpty (es_category e)) (\<lambda>_. validateNonEmpty (es_message e))))"

definition check_reason :: "(string \<Rightarrow> bool) \<Rightarrow> case_spec \<Rightarrow> case_result \<Rightarrow> report_error + unit" where
  "check_reason han spec r =
     rbind (rguard (needsReason (cr_status r) = (cr_reason r \<noteq> None)) RpContent) (\<lambda>_.
     (case cr_reason r of
        None \<Rightarrow> Inr ()
      | Some t \<Rightarrow> rbind (validateNonEmpty t) (\<lambda>_. rguard (\<not> is_zh (sp_locale spec) \<or> han t) RpContent)))"

definition check_step :: "(string \<Rightarrow> string) \<Rightarrow> case_spec \<Rightarrow> report_step \<Rightarrow> report_error + unit" where
  "check_step red spec s =
     rbind (validateIdentifier red (st_id s)) (\<lambda>_.
     rbind (validateNonEmpty (st_title s)) (\<lambda>_.
     rbind (validateStatus (st_status s)) (\<lambda>_.
     rbind (validateDuration (st_durationMs s)) (\<lambda>_.
     rbind (validateUnique (or_else (st_criterionIds s) [])) (\<lambda>_.
     rall (\<lambda>i. rbind (validateIdentifier red i) (\<lambda>_. rguard (i \<in> set (map cl_id (sp_acceptanceCriteria spec))) RpContent))
       (or_else (st_criterionIds s) []))))))"

definition check_steps :: "case_spec \<Rightarrow> case_result \<Rightarrow> report_error + unit" where
  "check_steps spec r =
     rbind (rguard (cr_status r = ''passed'' \<longrightarrow> list_all (\<lambda>s. st_status s = ''passed'') (cr_steps r)) RpContent) (\<lambda>_.
     rbind (rguard (cr_status r = ''passed'' \<longrightarrow>
        list_all (\<lambda>c. cl_id c \<in> set (coveredCriteria (cr_steps r))) (sp_acceptanceCriteria spec)) RpContent) (\<lambda>_.
     rguard (failing (cr_status r) \<or> \<not> list_ex (\<lambda>s. failing (st_status s)) (cr_steps r)) RpContent))"

definition check_window :: "int \<Rightarrow> int \<Rightarrow> case_result \<Rightarrow> report_error + unit" where
  "check_window runStarted runFinished r =
     rbind (validateTimestamp (cr_startedAt r)) (\<lambda>testStarted.
     rbind (validateDuration (cr_durationMs r)) (\<lambda>_.
     rbind (rguard (\<not> (testStarted < runStarted \<or> testStarted > runFinished)) RpContent) (\<lambda>_.
     rguard (\<not> of_int testStarted + duration_of (cr_durationMs r) > of_int runFinished) RpContent)))"

definition check_artifacts :: "(string \<Rightarrow> string) \<Rightarrow> case_result \<Rightarrow> report_error + unit" where
  "check_artifacts red r = (let as = or_else (cr_artifacts r) [] in
     rbind (rall (\<lambda>a. validateIdentifier red (sa_id a)) as) (\<lambda>_.
     rbind (validateUnique (map sa_id as)) (\<lambda>_.
     rbind (rall (validateArtifact red (cr_steps r)) as) (\<lambda>_.
     rall (\<lambda>a. rall (\<lambda>i. rguard (i \<in> set (map sa_id as)) RpContent) (or_else (sa_relatedArtifactIds a) [])) as))))"

definition check_spec_ids :: "(string \<Rightarrow> string) \<Rightarrow> case_spec \<Rightarrow> report_error + unit" where
  "check_spec_ids red spec =
     rbind (validateIdentifier red (sp_id spec)) (\<lambda>_.
     rbind (validateIdentifier red (sp_suite_id spec)) (\<lambda>_.
     rbind (rall (\<lambda>c. validateIdentifier red (cl_id c)) (sp_preconditions spec @ sp_acceptanceCriteria spec)) (\<lambda>_.
     rbind (validateUnique (map cl_id (sp_preconditions spec))) (\<lambda>_.
     validateUnique (map cl_id (sp_acceptanceCriteria spec))))))"

definition validateTest :: "(string \<Rightarrow> string) \<Rightarrow> (string \<Rightarrow> bool) \<Rightarrow> string \<Rightarrow> int \<Rightarrow> int \<Rightarrow> report_test \<Rightarrow> report_error + unit" where
  "validateTest red han runPlatform runStarted runFinished t = (let spec = rt_spec t; r = rt_result t in
     rbind (rguard (runPlatform \<in> set (map platform_name (sp_platforms spec))) RpContent) (\<lambda>_.
     rbind (check_spec_ids red spec) (\<lambda>_.
     rbind (validateStatus (cr_status r)) (\<lambda>_.
     rbind (check_window runStarted runFinished r) (\<lambda>_.
     rbind (check_error r) (\<lambda>_.
     rbind (check_reason han spec r) (\<lambda>_.
     rbind (rall (\<lambda>s. validateIdentifier red (st_id s)) (cr_steps r)) (\<lambda>_.
     rbind (validateUnique (map st_id (cr_steps r))) (\<lambda>_.
     rbind (rall (check_step red spec) (cr_steps r)) (\<lambda>_.
     rbind (check_steps spec r) (\<lambda>_.
     check_artifacts red r)))))))))))"

section \<open>The report\<close>

definition validateNormalizedReportInput :: "(string \<Rightarrow> string) \<Rightarrow> (string \<Rightarrow> bool) \<Rightarrow> report_bundle \<Rightarrow> report_error + unit" where
  "validateNormalizedReportInput red han b = (let run = rb_run b in
     rbind (validateIdentifier red (rr_id run)) (\<lambda>_.
     rbind (validateNonEmpty (rr_title run)) (\<lambda>_.
     rbind (validateIdentifier red (ra_id (rr_app run))) (\<lambda>_.
     rbind (validateNonEmpty (ra_name (rr_app run))) (\<lambda>_.
     rbind (validateTimestamp (rr_startedAt run)) (\<lambda>started.
     rbind (validateTimestamp (rr_finishedAt run)) (\<lambda>finished.
     if finished < started then Inl RpContent
     else if length (rb_tests b) = 0 then Inl RpContent else
     rbind (rall (\<lambda>t. validateIdentifier red (sp_id (rt_spec t))) (rb_tests b)) (\<lambda>_.
     rbind (validateUnique (map (\<lambda>t. sp_id (rt_spec t)) (rb_tests b))) (\<lambda>_.
     rall (validateTest red han (rr_platform run) started finished) (rb_tests b))))))))))"

text \<open>A specification without platforms gets the platform of the run.\<close>

definition with_platforms :: "string \<Rightarrow> fields \<Rightarrow> fields" where
  "with_platforms platform r = (if has_own r ''platforms'' then r else r @ [(''platforms'', arr [VStr platform])])"

definition define_spec :: "(string \<Rightarrow> bool) \<Rightarrow> string \<Rightarrow> fields \<Rightarrow> report_error + case_spec" where
  "define_spec han platform r = (case defineCaseSpec han (obj (with_platforms platform r)) of
     Inl e \<Rightarrow> Inl RpCase | Inr s \<Rightarrow> Inr s)"

definition normalize_shaped :: "(string \<Rightarrow> string) \<Rightarrow> (string \<Rightarrow> bool) \<Rightarrow> shaped_report \<Rightarrow> report_error + report_bundle" where
  "normalize_shaped red han s =
     rbind (rguard (rr_platform (sb_run s) \<in> fst ` set testPlatforms) RpContent) (\<lambda>_.
     rbind (rmap (\<lambda>t. rbind (define_spec han (rr_platform (sb_run s)) (sh_spec t)) (\<lambda>spec.
        Inr \<lparr>rt_spec = spec, rt_result = sh_result t\<rparr>)) (sb_tests s)) (\<lambda>tests.
     let b = \<lparr>rb_run = sb_run s, rb_tests = tests\<rparr> in
     rbind (validateNormalizedReportInput red han b) (\<lambda>_. Inr b)))"

definition normalizeReportInput :: "(string \<Rightarrow> string) \<Rightarrow> (string \<Rightarrow> bool) \<Rightarrow> jsv \<Rightarrow> report_error + report_bundle" where
  "normalizeReportInput red han v = rbind (validateRuntimeShape v) (normalize_shaped red han)"

section \<open>Evidence policy\<close>

datatype retention = RetainOff | RetainOnFailure | RetainAlways

fun retention_name :: "retention \<Rightarrow> string" where
  "retention_name RetainOff = ''off''"
| "retention_name RetainOnFailure = ''on-failure''"
| "retention_name RetainAlways = ''always''"

record evidence_policy =
  ep_screenshots :: retention
  ep_video :: retention
  ep_trace :: retention
  ep_accessibilityTree :: retention
  ep_logs :: retention

definition defaultEvidencePolicy :: evidence_policy where
  "defaultEvidencePolicy = \<lparr>ep_screenshots = RetainOnFailure, ep_video = RetainOnFailure, ep_trace = RetainAlways,
     ep_accessibilityTree = RetainOnFailure, ep_logs = RetainAlways\<rparr>"

definition retention_of :: "retention list \<Rightarrow> fields \<Rightarrow> string \<Rightarrow> report_error + retention" where
  "retention_of accepted r k = (case find (\<lambda>m. fld r k = VStr (retention_name m)) accepted of
     None \<Rightarrow> Inl RpContent | Some m \<Rightarrow> Inr m)"

text \<open>\<open>Object.keys(policy)\<close> are exactly the five, and each has a mode it may have.\<close>

definition policy_entries :: "jsv \<Rightarrow> report_error + fields" where
  "policy_entries v = (case v of
     VObj p ps \<Rightarrow> (case data_fields True (\<lambda>_. True) ps of None \<Rightarrow> Inl RpContent | Some r \<Rightarrow> Inr r)
   | _ \<Rightarrow> Inl RpContent)"

definition validateEvidencePolicy :: "jsv \<Rightarrow> report_error + evidence_policy" where
  "validateEvidencePolicy v =
     rbind (policy_entries v) (\<lambda>r.
     rbind (rguard (length r = 5 \<and> set (map fst r) = {''accessibilityTree'', ''logs'', ''screenshots'', ''trace'', ''video''}) RpContent) (\<lambda>_.
     rbind (retention_of [RetainOff, RetainOnFailure, RetainAlways] r ''screenshots'') (\<lambda>s.
     rbind (retention_of [RetainOff, RetainOnFailure, RetainAlways] r ''video'') (\<lambda>vi.
     rbind (retention_of [RetainOff, RetainAlways] r ''trace'') (\<lambda>t.
     rbind (retention_of [RetainOff, RetainOnFailure, RetainAlways] r ''accessibilityTree'') (\<lambda>ac.
     rbind (retention_of [RetainOff, RetainAlways] r ''logs'') (\<lambda>l.
     Inr \<lparr>ep_screenshots = s, ep_video = vi, ep_trace = t, ep_accessibilityTree = ac, ep_logs = l\<rparr>)))))))"

definition retentionFor :: "string \<Rightarrow> evidence_policy \<Rightarrow> retention option" where
  "retentionFor kind p =
     (if kind = ''screenshot'' \<or> kind = ''videoFrame'' then Some (ep_screenshots p)
      else if kind = ''video'' then Some (ep_video p)
      else if kind = ''trace'' \<or> kind = ''agentLoop'' then Some (ep_trace p)
      else if kind = ''accessibilityTree'' then Some (ep_accessibilityTree p)
      else if kind = ''log'' \<or> kind = ''diagnostics'' then Some (ep_logs p)
      else None)"

definition retainEvidence :: "source_artifact \<Rightarrow> string \<Rightarrow> evidence_policy \<Rightarrow> bool" where
  "retainEvidence a status p =
     (if sa_captureStatus a \<noteq> ''captured'' then True
      else (case retentionFor (sa_kind a) p of
         Some RetainOff \<Rightarrow> False
       | Some RetainAlways \<Rightarrow> True
       | _ \<Rightarrow> failing status))"

section \<open>Summaries\<close>

record report_summary =
  su_discovered :: nat
  su_executed :: nat
  su_passed :: nat
  su_failed :: nat
  su_timedOut :: nat
  su_skipped :: nat
  su_unsupported :: nat
  su_evidence :: "(string \<times> nat) list"

definition count_tests :: "string \<Rightarrow> report_test list \<Rightarrow> nat" where
  "count_tests status ts = length (filter (\<lambda>t. cr_status (rt_result t) = status) ts)"

definition summarizeTests :: "report_test list \<Rightarrow> report_summary" where
  "summarizeTests ts =
     (let artifacts = concat (map (\<lambda>t. or_else (cr_artifacts (rt_result t)) []) ts);
          p = count_tests ''passed'' ts; f = count_tests ''failed'' ts; t = count_tests ''timedOut'' ts;
          u = count_tests ''unsupported'' ts in
      \<lparr>su_discovered = length ts, su_executed = p + f + t + u, su_passed = p, su_failed = f, su_timedOut = t,
       su_skipped = count_tests ''skipped'' ts, su_unsupported = u,
       su_evidence = map (\<lambda>s. (s, length (filter (\<lambda>a. sa_captureStatus a = s) artifacts))) captureStatuses\<rparr>)"

datatype run_verdict = RunPassed | RunFailed | RunTimedOut | RunIncomplete

definition overallStatus :: "report_summary \<Rightarrow> run_verdict" where
  "overallStatus s =
     (if su_failed s > 0 then RunFailed
      else if su_timedOut s > 0 then RunTimedOut
      else if su_unsupported s > 0 \<or> su_skipped s > 0 then RunIncomplete
      else RunPassed)"

definition verdict_rank :: "string \<Rightarrow> nat" where
  "verdict_rank s = (if s = ''failed'' then 0 else if s = ''timedOut'' then 1 else if s = ''unsupported'' then 2
     else if s = ''skipped'' then 3 else 4)"

definition review_rank :: "report_test \<Rightarrow> nat" where
  "review_rank t = verdict_rank (cr_status (rt_result t))"

definition testsForReview :: "report_test list \<Rightarrow> report_test list" where
  "testsForReview ts = sort_key review_rank ts"

section \<open>Consistency of an accepted report\<close>

definition step_consistent :: "case_spec \<Rightarrow> case_result \<Rightarrow> report_step \<Rightarrow> bool" where
  "step_consistent spec r s = (st_status s \<in> set test_statuses
     \<and> list_all (\<lambda>i. i \<in> set (map cl_id (sp_acceptanceCriteria spec))) (or_else (st_criterionIds s) [])
     \<and> (cr_status r = ''passed'' \<longrightarrow> st_status s = ''passed'')
     \<and> (failing (st_status s) \<longrightarrow> failing (cr_status r)))"

definition artifact_consistent :: "case_result \<Rightarrow> source_artifact \<Rightarrow> bool" where
  "artifact_consistent r a = ((sa_captureStatus a = ''captured'' \<longleftrightarrow> sa_sourcePath a \<noteq> None)
     \<and> (sa_captureStatus a = ''captureFailed'' \<longrightarrow> sa_captureError a \<noteq> None)
     \<and> (case sa_stepId a of None \<Rightarrow> True | Some i \<Rightarrow> i \<in> set (map st_id (cr_steps r)))
     \<and> list_all (\<lambda>i. i \<in> set (map sa_id (or_else (cr_artifacts r) []))) (or_else (sa_relatedArtifactIds a) []))"

definition test_consistent :: "report_test \<Rightarrow> bool" where
  "test_consistent t = (let spec = rt_spec t; r = rt_result t in
     cr_status r \<in> set test_statuses
     \<and> (failing (cr_status r) \<longleftrightarrow> cr_error r \<noteq> None)
     \<and> (needsReason (cr_status r) \<longleftrightarrow> cr_reason r \<noteq> None)
     \<and> distinct (map st_id (cr_steps r)) \<and> list_all (step_consistent spec r) (cr_steps r)
     \<and> (cr_status r = ''passed'' \<longrightarrow>
          list_all (\<lambda>c. list_ex (\<lambda>s. st_status s = ''passed'' \<and> cl_id c \<in> set (or_else (st_criterionIds s) [])) (cr_steps r))
            (sp_acceptanceCriteria spec))
     \<and> distinct (map sa_id (or_else (cr_artifacts r) [])) \<and> list_all (artifact_consistent r) (or_else (cr_artifacts r) []))"

definition in_window :: "report_run \<Rightarrow> case_result \<Rightarrow> bool" where
  "in_window run r = (\<exists>a b c. validateTimestamp (rr_startedAt run) = Inr a \<and> validateTimestamp (rr_finishedAt run) = Inr b
     \<and> validateTimestamp (cr_startedAt r) = Inr c \<and> a \<le> c \<and> duration_ok (cr_durationMs r)
     \<and> of_int c + duration_of (cr_durationMs r) \<le> (of_int b :: rat))"

lemma covered_iff: "i \<in> set (coveredCriteria ss) \<longleftrightarrow>
    (\<exists>s \<in> set ss. st_status s = ''passed'' \<and> i \<in> set (or_else (st_criterionIds s) []))"
  by (auto simp: coveredCriteria_def split: if_splits)

lemma check_error_Inr: "check_error r = Inr u \<Longrightarrow> failing (cr_status r) \<longleftrightarrow> cr_error r \<noteq> None"
  by (auto simp: check_error_def)

lemma check_reason_Inr: "check_reason han spec r = Inr u \<Longrightarrow> needsReason (cr_status r) \<longleftrightarrow> cr_reason r \<noteq> None"
  by (auto simp: check_reason_def)

lemma check_steps_Inr: "check_steps spec r = Inr u \<Longrightarrow>
    (cr_status r = ''passed'' \<longrightarrow> (\<forall>s \<in> set (cr_steps r). st_status s = ''passed'')
       \<and> (\<forall>c \<in> set (sp_acceptanceCriteria spec). cl_id c \<in> set (coveredCriteria (cr_steps r))))
    \<and> (failing (cr_status r) \<or> (\<forall>s \<in> set (cr_steps r). \<not> failing (st_status s)))"
  by (auto simp: check_steps_def list_all_iff list_ex_iff)

lemma check_step_Inr: "check_step red spec s = Inr u \<Longrightarrow> st_status s \<in> set test_statuses
    \<and> set (or_else (st_criterionIds s) []) \<subseteq> set (map cl_id (sp_acceptanceCriteria spec))"
  by (auto simp: check_step_def rall_Inr_iff)

lemma validateArtifact_Inr: "validateArtifact red steps a = Inr u \<Longrightarrow>
    (sa_captureStatus a = ''captured'' \<longleftrightarrow> sa_sourcePath a \<noteq> None) \<and> (sa_captureStatus a = ''captureFailed'' \<longrightarrow> sa_captureError a \<noteq> None)
    \<and> (case sa_stepId a of None \<Rightarrow> True | Some i \<Rightarrow> i \<in> set (map st_id steps))"
  by (auto simp: validateArtifact_def validateCaptureOutcome_def split: option.splits if_splits)

lemma check_artifacts_Inr: "check_artifacts red r = Inr u \<Longrightarrow>
    distinct (map sa_id (or_else (cr_artifacts r) [])) \<and> list_all (artifact_consistent r) (or_else (cr_artifacts r) [])"
  by (auto simp: check_artifacts_def Let_def rall_Inr_iff list_all_iff artifact_consistent_def dest!: validateArtifact_Inr)

lemma check_window_Inr:
  "check_window a b r = Inr u \<Longrightarrow> validateTimestamp (rr_startedAt run) = Inr a \<Longrightarrow> validateTimestamp (rr_finishedAt run) = Inr b \<Longrightarrow>
    in_window run r"
  by (auto simp: check_window_def in_window_def)

lemma validateTest_consistent:
  assumes "validateTest red han p a b t = Inr u"
  shows "test_consistent t" and "check_window a b (rt_result t) = Inr ()" and "p \<in> set (map platform_name (sp_platforms (rt_spec t)))"
proof -
  note parts = assms [unfolded validateTest_def Let_def rbind_eq_Inr_iff rall_Inr_iff validateUnique_Inr validateStatus_Inr
      rguard_eq_Inr_iff]
  have s: "\<forall>s \<in> set (cr_steps (rt_result t)). check_step red (rt_spec t) s = Inr ()" using parts by blast
  have c: "check_steps (rt_spec t) (rt_result t) = Inr ()" using parts by (metis (full_types) old.unit.exhaust)
  have "list_all (step_consistent (rt_spec t) (rt_result t)) (cr_steps (rt_result t))"
  proof -
    have "\<forall>s \<in> set (cr_steps (rt_result t)). st_status s \<in> set test_statuses
        \<and> set (or_else (st_criterionIds s) []) \<subseteq> set (map cl_id (sp_acceptanceCriteria (rt_spec t)))"
      using s check_step_Inr by blast
    then show ?thesis using check_steps_Inr [OF c] by (auto simp: list_all_iff step_consistent_def)
  qed
  then show "test_consistent t"
    using parts check_steps_Inr [OF c]
    by (auto simp: test_consistent_def Let_def list_all_iff list_ex_iff covered_iff
        dest: check_error_Inr check_reason_Inr check_artifacts_Inr)
  show "check_window a b (rt_result t) = Inr ()" "p \<in> set (map platform_name (sp_platforms (rt_spec t)))"
    using parts by (auto simp: unit_eq)
qed

lemma shaped_facts:
  assumes sh: "normalize_shaped red han sh = Inr b"
  shows "rb_tests b \<noteq> []" and "distinct (map (\<lambda>t. sp_id (rt_spec t)) (rb_tests b))"
    and "list_all (\<lambda>t. test_consistent t \<and> wf_case han (rt_spec t) \<and> in_window (rb_run b) (rt_result t)) (rb_tests b)"
proof -
  from sh have v: "validateNormalizedReportInput red han b = Inr ()"
    and t: "rmap (\<lambda>t. rbind (define_spec han (rr_platform (sb_run sh)) (sh_spec t)) (\<lambda>spec.
        Inr \<lparr>rt_spec = spec, rt_result = sh_result t\<rparr>)) (sb_tests sh) = Inr (rb_tests b)"
    by (auto simp: normalize_shaped_def Let_def unit_eq)
  have wf: "wf_case han (rt_spec t)" if mem: "t \<in> set (rb_tests b)" for t
  proof -
    from rmap_set [OF t mem] show ?thesis
      by (elim bexE) (auto simp: define_spec_def split: sum.split_asm intro: vcase.decode_wf)
  qed
  obtain a f where tm: "validateTimestamp (rr_startedAt (rb_run b)) = Inr a" "validateTimestamp (rr_finishedAt (rb_run b)) = Inr f"
    and ts: "\<forall>t \<in> set (rb_tests b). validateTest red han (rr_platform (rb_run b)) a f t = Inr ()"
    and d: "rb_tests b \<noteq> []" "distinct (map (\<lambda>t. sp_id (rt_spec t)) (rb_tests b))"
    using v by (auto simp: validateNormalizedReportInput_def Let_def rall_Inr_iff)
  show "rb_tests b \<noteq> []" "distinct (map (\<lambda>t. sp_id (rt_spec t)) (rb_tests b))" using d .
  show "list_all (\<lambda>t. test_consistent t \<and> wf_case han (rt_spec t) \<and> in_window (rb_run b) (rt_result t)) (rb_tests b)"
    using ts wf by (auto simp: list_all_iff dest: validateTest_consistent intro: check_window_Inr [OF _ tm])
qed

lemma shaped_consistent: "normalize_shaped red han sh = Inr b \<Longrightarrow> list_all test_consistent (rb_tests b)"
  using shaped_facts(3) by (fastforce simp: list_all_iff)

lemma accepted_shaped: "normalizeReportInput red han v = Inr b \<Longrightarrow> \<exists>sh. normalize_shaped red han sh = Inr b"
  by (auto simp: normalizeReportInput_def)

section \<open>Counting\<close>

lemma counts_all:
  "list_all (\<lambda>t. cr_status (rt_result t) \<in> set test_statuses) ts \<Longrightarrow>
    count_tests ''passed'' ts + count_tests ''failed'' ts + count_tests ''timedOut'' ts + count_tests ''skipped'' ts
      + count_tests ''unsupported'' ts = length ts"
  by (induction ts) (auto simp: count_tests_def test_statuses_def)

lemma count_none: "count_tests s ts = 0 \<longleftrightarrow> list_all (\<lambda>t. cr_status (rt_result t) \<noteq> s) ts"
  by (auto simp: count_tests_def list_all_iff filter_empty_conv)

lemma overall_passed:
  assumes "list_all (\<lambda>t. cr_status (rt_result t) \<in> set test_statuses) ts"
  shows "overallStatus (summarizeTests ts) = RunPassed \<longleftrightarrow> list_all (\<lambda>t. cr_status (rt_result t) = ''passed'') ts"
proof -
  have "overallStatus (summarizeTests ts) = RunPassed \<longleftrightarrow>
      count_tests ''failed'' ts = 0 \<and> count_tests ''timedOut'' ts = 0 \<and> count_tests ''unsupported'' ts = 0 \<and> count_tests ''skipped'' ts = 0"
    by (auto simp: overallStatus_def summarizeTests_def Let_def)
  also have "\<dots> \<longleftrightarrow> list_all (\<lambda>t. cr_status (rt_result t) = ''passed'') ts"
    unfolding count_none using assms by (auto simp: list_all_iff test_statuses_def)
  finally show ?thesis .
qed

lemma review_order:
  "mset (testsForReview ts) = mset ts" "sorted (map review_rank (testsForReview ts))"
  "filter (\<lambda>t. review_rank t = k) (testsForReview ts) = filter (\<lambda>t. review_rank t = k) ts"
  by (simp_all add: testsForReview_def sort_key_stable)

end
