(* ===== verification/JsPath.thy ===== *)
theory JsPath
  imports JsData
begin

text \<open>
  Paths as Node's \<open>path.posix\<close> sees them: \<open>split("/")\<close>, \<open>isAbsolute\<close> and \<open>normalize\<close>, which the reporter
  (\<open>safe-artifact-path.ts\<close>) and the command executor (\<open>executors/command/config.ts\<close>) use to keep a path below
  a directory.
\<close>

section \<open>Segments\<close>

text \<open>\<open>value.split("/")\<close>\<close>

fun slash_parts :: "string \<Rightarrow> string list" where
  "slash_parts [] = [[]]"
| "slash_parts (c # cs) = (if c = CHR ''/'' then [] # slash_parts cs
     else (case slash_parts cs of [] \<Rightarrow> [[c]] | p # ps \<Rightarrow> (c # p) # ps))"

fun slash_join :: "string list \<Rightarrow> string" where
  "slash_join [] = []"
| "slash_join [p] = p"
| "slash_join (p # ps) = p @ CHR ''/'' # slash_join ps"

text \<open>The depth a path reaches below its start; \<open>None\<close> once it leaves it.\<close>

fun path_depth :: "nat \<Rightarrow> string list \<Rightarrow> nat option" where
  "path_depth n [] = Some n"
| "path_depth n (p # ps) = (if p = ''..'' then (case n of 0 \<Rightarrow> None | Suc m \<Rightarrow> path_depth m ps)
     else if p = ''.'' \<or> p = [] then path_depth n ps else path_depth (Suc n) ps)"

definition plain_part :: "string \<Rightarrow> bool" where
  "plain_part p = (p \<noteq> [] \<and> p \<noteq> ''.'' \<and> p \<noteq> ''..'')"

lemma path_depth_plain: "list_all (\<lambda>p. p \<noteq> [] \<and> p \<noteq> ''.'' \<and> p \<noteq> ''..'') ps \<Longrightarrow> path_depth n ps = Some (n + length ps)"
  by (induction ps arbitrary: n) auto

lemma path_depth_skip: "path_depth n (ps @ [[]]) = path_depth n ps"
  by (induction ps arbitrary: n) (auto split: nat.split)

lemma slash_parts_some: "slash_parts s \<noteq> []"
  by (induction s) (auto split: list.splits)

lemma slash_parts_free: "p \<in> set (slash_parts s) \<Longrightarrow> CHR ''/'' \<notin> set p"
  by (induction s arbitrary: p) (fastforce split: if_splits list.splits)+

lemma slash_parts_word: "CHR ''/'' \<notin> set p \<Longrightarrow> slash_parts p = [p]"
  by (induction p) auto

lemma slash_parts_append: "CHR ''/'' \<notin> set p \<Longrightarrow> slash_parts (p @ CHR ''/'' # s) = p # slash_parts s"
  by (induction p) auto

lemma slash_parts_join: "ps \<noteq> [] \<Longrightarrow> (\<forall>p \<in> set ps. CHR ''/'' \<notin> set p) \<Longrightarrow> slash_parts (slash_join ps) = ps"
  by (induction ps rule: slash_join.induct) (simp_all add: slash_parts_word slash_parts_append)

lemma slash_join_append: "ps \<noteq> [] \<Longrightarrow> slash_join ps @ CHR ''/'' # s = slash_join (ps @ [s])"
  by (induction ps rule: slash_join.induct) (auto simp: neq_Nil_conv)

section \<open>Absolute paths and normalization\<close>

definition posix_absolute :: "string \<Rightarrow> bool" where
  "posix_absolute s = (case s of [] \<Rightarrow> False | c # cs \<Rightarrow> c = CHR ''/'')"

text \<open>\<open>normalizeString\<close>: the segments kept so far are given last first.\<close>

fun norm_parts :: "bool \<Rightarrow> string list \<Rightarrow> string list \<Rightarrow> string list" where
  "norm_parts up acc [] = rev acc"
| "norm_parts up acc (p # ps) =
     (if p = [] \<or> p = ''.'' then norm_parts up acc ps
      else if p = ''..'' then (case acc of
          [] \<Rightarrow> norm_parts up (if up then [''..''] else []) ps
        | q # qs \<Rightarrow> if q \<noteq> ''..'' then norm_parts up qs ps
            else norm_parts up (if up then ''..'' # acc else acc) ps)
      else norm_parts up (p # acc) ps)"

definition posix_normalize :: "string \<Rightarrow> string" where
  "posix_normalize s =
     (if s = [] then ''.'' else
      let absolute = posix_absolute s; trailing = (last s = CHR ''/'');
          p = slash_join (norm_parts (\<not> absolute) [] (slash_parts s)) in
      if p = [] then (if absolute then ''/'' else if trailing then ''./'' else ''.'')
      else (let q = p @ (if trailing then ''/'' else []) in if absolute then CHR ''/'' # q else q))"

text \<open>The segments kept, last first: plain segments after steps up.\<close>

definition normal_stack :: "string list \<Rightarrow> bool" where
  "normal_stack acc = list_all (\<lambda>p. p = ''..'') (dropWhile plain_part acc)"

lemma normal_stack_simps [simp]:
  "normal_stack []" "normal_stack (''..'' # qs) \<longleftrightarrow> list_all (\<lambda>p. p = ''..'') qs"
  "plain_part q \<Longrightarrow> normal_stack (q # qs) \<longleftrightarrow> normal_stack qs"
  by (simp_all add: normal_stack_def plain_part_def)

lemma normal_stack_pop: "normal_stack (q # qs) \<Longrightarrow> q \<noteq> ''..'' \<Longrightarrow> normal_stack qs"
  by (auto simp: normal_stack_def split: if_splits)

lemma norm_parts_stack:
  "normal_stack acc \<Longrightarrow> \<exists>acc'. norm_parts up acc ps = rev acc' \<and> normal_stack acc' \<and> set acc' \<subseteq> set acc \<union> set ps \<union> {''..''}"
proof (induction ps arbitrary: acc)
  case Nil
  then show ?case by auto
next
  case (Cons p ps)
  have step: "\<exists>acc'. norm_parts up acc (p # ps) = rev acc' \<and> normal_stack acc' \<and> set acc' \<subseteq> set acc \<union> set (p # ps) \<union> {''..''}"
    if "norm_parts up acc (p # ps) = norm_parts up nxt ps" "normal_stack nxt" "set nxt \<subseteq> set acc \<union> {p, ''..''}" for nxt
    using Cons.IH [OF that(2)] that(1,3) by fastforce
  consider "plain_part p" | "p = [] \<or> p = ''.''" | (upward) "p = ''..''" by (auto simp: plain_part_def)
  then show ?case
  proof cases
    case 1
    then show ?thesis using Cons.prems by (intro step [of "p # acc"]) (auto simp: plain_part_def normal_stack_def)
  next
    case 2
    then show ?thesis using Cons.prems by (intro step [of acc]) auto
  next
    case upward
    show ?thesis
    proof (cases acc)
      case Nil
      then show ?thesis using upward by (intro step [of "if up then [''..''] else []"]) auto
    next
      case (Cons q qs)
      then have "normal_stack (if q \<noteq> ''..'' then qs else if up then ''..'' # acc else acc)"
        using Cons.prems normal_stack_pop [of q qs] by (auto simp: normal_stack_def plain_part_def)
      then show ?thesis using upward Cons
        by (intro step [of "if q \<noteq> ''..'' then qs else if up then ''..'' # acc else acc"]) auto
    qed
  qed
qed

lemma normal_stack_plain:
  assumes "normal_stack acc" "acc \<noteq> []" "last acc \<noteq> ''..''"
  shows "list_all plain_part acc"
proof (rule ccontr)
  assume "\<not> list_all plain_part acc"
  then have ne: "dropWhile plain_part acc \<noteq> []" by (simp add: list_all_iff)
  have "last acc = last (takeWhile plain_part acc @ dropWhile plain_part acc)" by simp
  also have "\<dots> = last (dropWhile plain_part acc)" using ne by (rule last_appendR)
  finally have "last acc \<in> set (dropWhile plain_part acc)" using ne by simp
  then show False using assms(1,3) unfolding normal_stack_def list_all_iff by blast
qed

lemma slash_join_Nil: "slash_join ps = [] \<longleftrightarrow> ps = [] \<or> ps = [[]]"
  by (cases ps rule: slash_join.cases) auto

text \<open>A relative path whose normal form is neither \<open>..\<close> nor begins with \<open>../\<close> never leaves its directory.\<close>

lemma normalized_inside:
  assumes rel: "\<not> posix_absolute s" and noup: "posix_normalize s \<noteq> ''..''" "take 3 (posix_normalize s) \<noteq> ''../''"
  shows "path_depth 0 (slash_parts (posix_normalize s)) \<noteq> None"
proof -
  obtain acc where acc: "norm_parts True [] (slash_parts s) = rev acc" "normal_stack acc" "set acc \<subseteq> set (slash_parts s) \<union> {''..''}"
    using norm_parts_stack [of "[]" True "slash_parts s"] by auto
  have free: "\<forall>p \<in> set (rev acc). CHR ''/'' \<notin> set p" using acc(3) slash_parts_free by fastforce
  show ?thesis
  proof (cases "s = [] \<or> acc = []")
    case True
    then show ?thesis using rel acc(1) by (auto simp: posix_normalize_def Let_def)
  next
    case False
    obtain p ps where rp: "rev acc = p # ps" using False by (cases "rev acc") auto
    have la: "last acc = p" using rp by (metis last_rev list.sel(1) rev_rev_ident rev_is_Nil_conv list.distinct(1))
    have n: "posix_normalize s = slash_join (rev acc) @ (if last s = CHR ''/'' then ''/'' else [])" if "slash_join (rev acc) \<noteq> []"
      using that False rel acc(1) by (simp add: posix_normalize_def Let_def)
    have "p \<noteq> ''..''"
    proof
      assume "p = ''..''"
      then have "slash_join (rev acc) = ''..'' \<or> take 3 (slash_join (rev acc)) = ''../''" "slash_join (rev acc) \<noteq> []"
        using rp by (cases ps; simp)+
      then show False using n noup by (auto split: if_splits)
    qed
    then have plain: "list_all plain_part (rev acc)" using normal_stack_plain [OF acc(2)] False la by simp
    then have "slash_join (rev acc) \<noteq> []" using rp by (auto simp: slash_join_Nil plain_part_def)
    from n [OF this] have "slash_parts (posix_normalize s) = rev acc \<or> slash_parts (posix_normalize s) = rev acc @ [[]]"
      using slash_parts_join [of "rev acc"] slash_parts_join [of "rev acc @ [[]]"] slash_join_append [of "rev acc" "[]"] free rp
      by (auto split: if_splits)
    moreover have "path_depth 0 (rev acc) \<noteq> None"
      using path_depth_plain [of "rev acc" 0] plain unfolding plain_part_def by simp
    ultimately show ?thesis by (auto simp: path_depth_skip)
  qed
qed

end
