(* ===== verification/ReportSanitize.thy ===== *)
theory ReportSanitize
  imports ReportValidate JsPath
begin

text \<open>
  What of an accepted report is redacted before it is written: \<open>packages/reporter/src/sanitize.ts\<close>, and
  the paths of artifacts in a bundle (\<open>safe-artifact-path.ts\<close>). Identifiers, statuses, times, kinds and
  references are kept; texts and data go through the redaction, which is a parameter here.
\<close>

section \<open>Sanitizing\<close>

definition sanitizeEnvironment :: "(string \<Rightarrow> string) \<Rightarrow> report_environment \<Rightarrow> report_environment" where
  "sanitizeEnvironment red e = \<lparr>en_osName = map_option red (en_osName e), en_osVersion = map_option red (en_osVersion e),
     en_runnerName = map_option red (en_runnerName e), en_runnerVersion = map_option red (en_runnerVersion e),
     en_commit = map_option red (en_commit e), en_branch = map_option red (en_branch e), en_ci = en_ci e\<rparr>"

definition sanitize_app :: "(string \<Rightarrow> string) \<Rightarrow> reported_app \<Rightarrow> reported_app" where
  "sanitize_app red a = \<lparr>ra_id = ra_id a, ra_name = red (ra_name a), ra_version = map_option red (ra_version a),
     ra_build = map_option red (ra_build a)\<rparr>"

definition sanitizeRunInput :: "(string \<Rightarrow> string) \<Rightarrow> report_run \<Rightarrow> report_run" where
  "sanitizeRunInput red run = \<lparr>rr_id = rr_id run, rr_title = red (rr_title run), rr_platform = rr_platform run,
     rr_startedAt = rr_startedAt run, rr_finishedAt = rr_finishedAt run, rr_app = sanitize_app red (rr_app run),
     rr_environment = map_option (sanitizeEnvironment red) (rr_environment run)\<rparr>"

definition sanitize_step :: "(string \<Rightarrow> string) \<Rightarrow> report_step \<Rightarrow> report_step" where
  "sanitize_step red s = \<lparr>st_id = st_id s, st_title = red (st_title s), st_status = st_status s,
     st_durationMs = st_durationMs s, st_componentId = map_option red (st_componentId s),
     st_action = map_option red (st_action s), st_assertion = map_option red (st_assertion s),
     st_diagnostic = map_option red (st_diagnostic s), st_criterionIds = st_criterionIds s\<rparr>"

definition sanitizeArtifact :: "(string \<Rightarrow> string) \<Rightarrow> source_artifact \<Rightarrow> source_artifact" where
  "sanitizeArtifact red a = \<lparr>sa_id = sa_id a, sa_kind = sa_kind a, sa_phase = sa_phase a, sa_title = red (sa_title a),
     sa_captureStatus = sa_captureStatus a, sa_sourcePath = sa_sourcePath a, sa_contentType = sa_contentType a,
     sa_capturedAt = sa_capturedAt a, sa_reviewPriority = sa_reviewPriority a, sa_stepId = sa_stepId a,
     sa_description = map_option red (sa_description a), sa_sensitive = sa_sensitive a, sa_durationMs = sa_durationMs a,
     sa_relatedArtifactIds = sa_relatedArtifactIds a, sa_captureError = map_option red (sa_captureError a)\<rparr>"

definition trace_levels :: nat where "trace_levels = 8"

definition sanitizeError :: "(string \<Rightarrow> string) \<Rightarrow> error_summary \<Rightarrow> error_summary" where
  "sanitizeError red e = \<lparr>es_category = red (es_category e), es_message = red (es_message e),
     es_expected = map_option (redactTraceValue red trace_levels) (es_expected e),
     es_actual = map_option (redactTraceValue red trace_levels) (es_actual e)\<rparr>"

definition sanitize_clause :: "(string \<Rightarrow> string) \<Rightarrow> case_clause \<Rightarrow> case_clause" where
  "sanitize_clause red c = \<lparr>cl_id = cl_id c, cl_text = red (cl_text c)\<rparr>"

definition sanitizeCaseSpec :: "(string \<Rightarrow> string) \<Rightarrow> case_spec \<Rightarrow> case_spec" where
  "sanitizeCaseSpec red s = \<lparr>sp_id = sp_id s, sp_locale = sp_locale s, sp_platforms = sp_platforms s,
     sp_suite_id = sp_suite_id s, sp_suite_name = red (sp_suite_name s), sp_name = red (sp_name s),
     sp_sourceName = map_option red (sp_sourceName s), sp_intent = red (sp_intent s),
     sp_preconditions = map (sanitize_clause red) (sp_preconditions s),
     sp_acceptanceCriteria = map (sanitize_clause red) (sp_acceptanceCriteria s),
     sp_sideEffect = sp_sideEffect s, sp_tags = map_option (map red) (sp_tags s)\<rparr>"

definition sanitize_result :: "(string \<Rightarrow> string) \<Rightarrow> case_result \<Rightarrow> case_result" where
  "sanitize_result red r = \<lparr>cr_status = cr_status r, cr_startedAt = cr_startedAt r, cr_durationMs = cr_durationMs r,
     cr_steps = map (sanitize_step red) (cr_steps r),
     cr_artifacts = map_option (map (sanitizeArtifact red)) (cr_artifacts r),
     cr_error = map_option (sanitizeError red) (cr_error r), cr_reason = map_option red (cr_reason r)\<rparr>"

definition sanitizeTestCase :: "(string \<Rightarrow> string) \<Rightarrow> report_test \<Rightarrow> report_test" where
  "sanitizeTestCase red t = \<lparr>rt_spec = sanitizeCaseSpec red (rt_spec t), rt_result = sanitize_result red (rt_result t)\<rparr>"

section \<open>Artifact paths\<close>

definition safeArtifactPath :: "string \<Rightarrow> string option" where
  "safeArtifactPath s =
     (if \<not> ident_shape ''._/-'' s then None
      else if list_ex (\<lambda>p. p = [] \<or> p = ''.'' \<or> p = ''..'') (slash_parts s) then None
      else Some s)"

text \<open>A path that is accepted is relative and stays below the directory it is joined to.\<close>

lemma safe_path_below: "safeArtifactPath s = Some t \<Longrightarrow> t = s \<and> (\<exists>c cs. s = c # cs \<and> is_alnum c)
    \<and> (\<exists>n. path_depth 0 (slash_parts s) = Some (Suc n))"
  using slash_parts_some [of s]
  by (auto simp: safeArtifactPath_def ident_shape_def list_ex_iff list_all_iff path_depth_plain
      split: if_splits list.splits intro: gr0_implies_Suc)

section \<open>Sanitizing keeps what a report claims\<close>

lemma or_else_map [simp]: "or_else (map_option (map f) x) [] = map f (or_else x [])"
  by (cases x) (simp_all add: or_else_def)

lemma sanitized_step_fields [simp]:
  "st_id (sanitize_step red s) = st_id s" "st_status (sanitize_step red s) = st_status s"
  "st_criterionIds (sanitize_step red s) = st_criterionIds s" "st_durationMs (sanitize_step red s) = st_durationMs s"
  by (simp_all add: sanitize_step_def)

lemma sanitized_artifact_fields [simp]:
  "sa_id (sanitizeArtifact red a) = sa_id a" "sa_captureStatus (sanitizeArtifact red a) = sa_captureStatus a"
  "sa_sourcePath (sanitizeArtifact red a) = sa_sourcePath a" "sa_stepId (sanitizeArtifact red a) = sa_stepId a"
  "sa_relatedArtifactIds (sanitizeArtifact red a) = sa_relatedArtifactIds a"
  "sa_captureError (sanitizeArtifact red a) = map_option red (sa_captureError a)"
  by (simp_all add: sanitizeArtifact_def)

lemma sanitized_ids [simp]:
  "map (\<lambda>s. st_id (sanitize_step red s)) ss = map st_id ss" "map (\<lambda>a. sa_id (sanitizeArtifact red a)) as = map sa_id as"
  by simp_all

lemma sanitized_result_fields [simp]:
  "cr_status (sanitize_result red r) = cr_status r" "cr_durationMs (sanitize_result red r) = cr_durationMs r"
  "cr_startedAt (sanitize_result red r) = cr_startedAt r"
  "cr_steps (sanitize_result red r) = map (sanitize_step red) (cr_steps r)"
  "cr_artifacts (sanitize_result red r) = map_option (map (sanitizeArtifact red)) (cr_artifacts r)"
  "cr_error (sanitize_result red r) = map_option (sanitizeError red) (cr_error r)"
  "cr_reason (sanitize_result red r) = map_option red (cr_reason r)"
  by (simp_all add: sanitize_result_def)

lemma sanitized_criteria [simp]:
  "sp_acceptanceCriteria (sanitizeCaseSpec red s) = map (sanitize_clause red) (sp_acceptanceCriteria s)"
  "cl_id (sanitize_clause red c) = cl_id c"
  by (simp_all add: sanitizeCaseSpec_def sanitize_clause_def)

lemma step_consistent_sanitized:
  "step_consistent (sanitizeCaseSpec red spec) (sanitize_result red r) (sanitize_step red s) \<longleftrightarrow> step_consistent spec r s"
  by (simp add: step_consistent_def comp_def)

lemma artifact_consistent_sanitized:
  "artifact_consistent (sanitize_result red r) (sanitizeArtifact red a) \<longleftrightarrow> artifact_consistent r a"
  by (auto simp: artifact_consistent_def comp_def split: option.split)

lemma sanitized_consistent: "test_consistent (sanitizeTestCase red t) \<longleftrightarrow> test_consistent t"
  by (simp add: test_consistent_def sanitizeTestCase_def Let_def comp_def list_all_iff list_ex_iff
      step_consistent_sanitized artifact_consistent_sanitized)

lemma sanitized_status [simp]: "cr_status (rt_result (sanitizeTestCase red t)) = cr_status (rt_result t)"
  by (simp add: sanitizeTestCase_def)

lemma sanitized_count: "count_tests s (map (sanitizeTestCase red) ts) = count_tests s ts"
  by (induction ts) (simp_all add: count_tests_def)

lemma sanitized_captures:
  "length (filter (\<lambda>a. sa_captureStatus a = s) (concat (map (\<lambda>t. or_else (cr_artifacts (rt_result t)) []) (map (sanitizeTestCase red) ts))))
   = length (filter (\<lambda>a. sa_captureStatus a = s) (concat (map (\<lambda>t. or_else (cr_artifacts (rt_result t)) []) ts)))"
  by (induction ts) (simp_all add: sanitizeTestCase_def filter_map comp_def)

lemma sanitized_summary: "summarizeTests (map (sanitizeTestCase red) ts) = summarizeTests ts"
  unfolding summarizeTests_def Let_def sanitized_count sanitized_captures by simp

end
