(* ===== verification/ReportV3.thy ===== *)
theory ReportV3
  imports ReportSanitize "HOL-Library.Char_ord" "HOL-Library.List_Lexorder"
begin

text \<open>
  Reports of the third version: \<open>packages/reporter/src/v3\<close> (\<open>model.ts\<close>, \<open>runtime-shape.ts\<close>,
  \<open>validate.ts\<close>, \<open>result.ts\<close>, \<open>summary.ts\<close>, \<open>sanitize.ts\<close>). A test has attempts, which name the hosts and
  surfaces they ran on; a context that was not recorded says so. The results of attempts are validated
  by the second version's rules.
\<close>

section \<open>Model\<close>

text \<open>A context as given: unknown with a reason, or a value under a state that is still to be checked.\<close>

datatype 'a ctx = UnknownCtx (ctx_reason: string) (ctx_detail: "string option") | StatedCtx string 'a

record host3 =
  h3_id :: string
  h3_os :: string
  h3_name :: "string option"
  h3_osVersion :: "string option"
  h3_architecture :: "string option"

record surface3 =
  s3_id :: string
  s3_kind :: string
  s3_hostId :: "string ctx"
  s3_name :: "string option"
  s3_capabilities :: "string list option"

datatype provenance3 = NativeProvenance | ImportedProvenance string string string "string list"

record run3 =
  r3_id :: string
  r3_title :: string
  r3_startedAt :: string
  r3_finishedAt :: string
  r3_app :: reported_app
  r3_environment :: "report_environment option"
  r3_provenance :: provenance3
  r3_hosts :: "host3 list ctx"
  r3_surfaces :: "surface3 list ctx"

record 'r attempt3 =
  a3_id :: string
  a3_ordinal :: jsnum
  a3_platforms :: "string list"
  a3_runnerHostId :: "string ctx"
  a3_surfaceIds :: "string list ctx"
  a3_result :: 'r

datatype 'r attempts3 = UnknownAttempts string "string option" 'r
  | StatedAttempts string string "'r attempt3 list"

record ('s, 'r) test3 =
  t3_spec :: 's
  t3_attempts :: "'r attempts3"

record ('s, 'r) bundle3 =
  b3_run :: run3
  b3_tests :: "('s, 'r) test3 list"

section \<open>A snapshot of the data\<close>

text \<open>\<open>record\<close> and \<open>array\<close> here want enumerable data properties, and no custom keys of an array.\<close>

definition v3_array :: "jsv \<Rightarrow> report_error + jsv list" where
  "v3_array v = (case v of
     VArr b ps ks \<Rightarrow> if ks \<noteq> [] then Inl RpShape
       else (case data_items True ps of None \<Rightarrow> Inl RpShape | Some vs \<Rightarrow> Inr vs)
   | _ \<Rightarrow> Inl RpShape)"

definition v3_strings :: "jsv \<Rightarrow> report_error + string list" where
  "v3_strings v = rbind (v3_array v) (rmap rs_string)"

fun snapshotDataValue :: "nat \<Rightarrow> jsv \<Rightarrow> report_error + jsv"
  and snapshot_items3 :: "nat \<Rightarrow> jsprop option list \<Rightarrow> report_error + jsv list"
  and snapshot_fields3 :: "nat \<Rightarrow> (pkey \<times> jsprop) list \<Rightarrow> report_error + fields" where
  "snapshotDataValue depth (VArr b ps ks) = (if depth > 64 then Inl RpShape else if ks \<noteq> [] then Inl RpShape
     else rbind (snapshot_items3 (Suc depth) ps) (\<lambda>vs. Inr (arr vs)))"
| "snapshotDataValue depth (VObj p ps) = (if depth > 64 then Inl RpShape else if p = OtherProto then Inl RpShape
     else rbind (snapshot_fields3 (Suc depth) ps) (\<lambda>r. Inr (obj r)))"
| "snapshotDataValue depth v = (if depth > 64 then Inl RpShape else Inr v)"
| "snapshot_items3 depth [] = Inr []"
| "snapshot_items3 depth (Some (DataProp True v) # ps) =
     rbind (snapshotDataValue depth v) (\<lambda>w. rbind (snapshot_items3 depth ps) (\<lambda>ws. Inr (w # ws)))"
| "snapshot_items3 depth (_ # ps) = Inl RpShape"
| "snapshot_fields3 depth [] = Inr []"
| "snapshot_fields3 depth ((SymKey s, p) # ps) = snapshot_fields3 depth ps"
| "snapshot_fields3 depth ((StrKey k, DataProp True v) # ps) =
     rbind (snapshotDataValue depth v) (\<lambda>w. rbind (snapshot_fields3 depth ps) (\<lambda>r. Inr ((k, w) # r)))"
| "snapshot_fields3 depth ((StrKey k, _) # ps) = Inl RpShape"

section \<open>Shape\<close>

definition shape_unknown :: "string list \<Rightarrow> fields \<Rightarrow> report_error + string \<times> string option" where
  "shape_unknown extra r =
     rbind (rs_exactKeys r ([''state'', ''reason'', ''detail''] @ extra)) (\<lambda>_.
     rbind (rs_field rs_string r ''reason'') (\<lambda>why.
     rbind (rs_optional rs_string r ''detail'') (\<lambda>d. Inr (why, d))))"

text \<open>A context whose value is read by \<open>f\<close>.\<close>

definition shape_ctx :: "(jsv \<Rightarrow> report_error + 'a) \<Rightarrow> jsv \<Rightarrow> report_error + 'a ctx" where
  "shape_ctx f v =
     rbind (rs_record v) (\<lambda>r.
     rbind (rs_field rs_string r ''state'') (\<lambda>s.
     if s = ''unknown'' then rbind (shape_unknown [] r) (\<lambda>(why, d). Inr (UnknownCtx why d))
     else rbind (rs_exactKeys r [''state'', ''value'']) (\<lambda>_.
       rbind (rs_field f r ''value'') (\<lambda>a. Inr (StatedCtx s a)))))"

definition shape_host3 :: "jsv \<Rightarrow> report_error + host3" where
  "shape_host3 v =
     rbind (rs_record v) (\<lambda>r.
     rbind (rs_exactKeys r [''id'', ''os'', ''name'', ''osVersion'', ''architecture'']) (\<lambda>_.
     rbind (rs_field rs_string r ''id'') (\<lambda>i.
     rbind (rs_field rs_string r ''os'') (\<lambda>os.
     rbind (rs_optional rs_string r ''name'') (\<lambda>n.
     rbind (rs_optional rs_string r ''osVersion'') (\<lambda>ov.
     rbind (rs_optional rs_string r ''architecture'') (\<lambda>a.
     Inr \<lparr>h3_id = i, h3_os = os, h3_name = n, h3_osVersion = ov, h3_architecture = a\<rparr>)))))))"

definition shape_surface3 :: "jsv \<Rightarrow> report_error + surface3" where
  "shape_surface3 v =
     rbind (rs_record v) (\<lambda>r.
     rbind (rs_exactKeys r [''id'', ''kind'', ''hostId'', ''name'', ''capabilities'']) (\<lambda>_.
     rbind (rs_field rs_string r ''id'') (\<lambda>i.
     rbind (rs_field rs_string r ''kind'') (\<lambda>k.
     rbind (rs_optional rs_string r ''name'') (\<lambda>n.
     rbind (rs_field (shape_ctx rs_string) r ''hostId'') (\<lambda>h.
     rbind (rs_optional v3_strings r ''capabilities'') (\<lambda>c.
     Inr \<lparr>s3_id = i, s3_kind = k, s3_hostId = h, s3_name = n, s3_capabilities = c\<rparr>)))))))"

definition shape_provenance :: "jsv \<Rightarrow> report_error + provenance3" where
  "shape_provenance v =
     rbind (rs_record v) (\<lambda>r.
     rbind (rs_field rs_string r ''kind'') (\<lambda>k.
     if k = ''native'' then rbind (rs_exactKeys r [''kind'']) (\<lambda>_. Inr NativeProvenance)
     else rbind (rs_exactKeys r [''kind'', ''sourceSchemaVersion'', ''sourcePlatform'', ''limitations'']) (\<lambda>_.
       rbind (rs_field rs_string r ''sourceSchemaVersion'') (\<lambda>sv.
       rbind (rs_field rs_string r ''sourcePlatform'') (\<lambda>p.
       rbind (rs_field v3_strings r ''limitations'') (\<lambda>l.
       Inr (ImportedProvenance k sv p l)))))))"

definition shape_run3 :: "jsv \<Rightarrow> report_error + run3" where
  "shape_run3 v =
     rbind (rs_record v) (\<lambda>r.
     rbind (rs_exactKeys r [''id'', ''title'', ''startedAt'', ''finishedAt'', ''app'', ''environment'', ''provenance'',
       ''hosts'', ''surfaces'']) (\<lambda>_.
     rbind (rs_field rs_string r ''id'') (\<lambda>i.
     rbind (rs_field rs_string r ''title'') (\<lambda>t.
     rbind (rs_field rs_string r ''startedAt'') (\<lambda>s.
     rbind (rs_field rs_string r ''finishedAt'') (\<lambda>f.
     rbind (rs_field shape_app r ''app'') (\<lambda>a.
     rbind (rs_optional shape_environment r ''environment'') (\<lambda>e.
     rbind (rs_field shape_provenance r ''provenance'') (\<lambda>p.
     rbind (rs_field (shape_ctx (\<lambda>x. rbind (v3_array x) (rmap shape_host3))) r ''hosts'') (\<lambda>hs.
     rbind (rs_field (shape_ctx (\<lambda>x. rbind (v3_array x) (rmap shape_surface3))) r ''surfaces'') (\<lambda>ss.
     Inr \<lparr>r3_id = i, r3_title = t, r3_startedAt = s, r3_finishedAt = f, r3_app = a, r3_environment = e,
       r3_provenance = p, r3_hosts = hs, r3_surfaces = ss\<rparr>)))))))))))"

text \<open>A result is only known to be a record.\<close>

definition shape_record_only :: "jsv \<Rightarrow> report_error + jsv" where
  "shape_record_only v = rbind (rs_record v) (\<lambda>_. Inr v)"

definition shape_attempt :: "jsv \<Rightarrow> report_error + jsv attempt3" where
  "shape_attempt v =
     rbind (rs_record v) (\<lambda>r.
     rbind (rs_exactKeys r [''id'', ''ordinal'', ''executionPlatforms'', ''runnerHostId'', ''surfaceIds'', ''result'']) (\<lambda>_.
     rbind (rs_field rs_string r ''id'') (\<lambda>i.
     rbind (rs_field rs_number r ''ordinal'') (\<lambda>n.
     rbind (rs_field v3_strings r ''executionPlatforms'') (\<lambda>ps.
     rbind (rs_field (shape_ctx rs_string) r ''runnerHostId'') (\<lambda>h.
     rbind (rs_field (shape_ctx v3_strings) r ''surfaceIds'') (\<lambda>ss.
     rbind (rs_field shape_record_only r ''result'') (\<lambda>x.
     Inr \<lparr>a3_id = i, a3_ordinal = n, a3_platforms = ps, a3_runnerHostId = h, a3_surfaceIds = ss, a3_result = x\<rparr>))))))))"

definition shape_attempts :: "jsv \<Rightarrow> report_error + jsv attempts3" where
  "shape_attempts v =
     rbind (rs_record v) (\<lambda>r.
     rbind (rs_field rs_string r ''state'') (\<lambda>s.
     if s = ''unknown'' then
       rbind (shape_unknown [''result''] r) (\<lambda>(why, d).
       rbind (rs_field shape_record_only r ''result'') (\<lambda>x. Inr (UnknownAttempts why d x)))
     else rbind (rs_exactKeys r [''state'', ''finalAttemptId'', ''items'']) (\<lambda>_.
       rbind (rs_field rs_string r ''finalAttemptId'') (\<lambda>f.
       rbind (rs_field (\<lambda>x. rbind (v3_array x) (rmap shape_attempt)) r ''items'') (\<lambda>items.
       Inr (StatedAttempts s f items))))))"

definition shape_test3 :: "jsv \<Rightarrow> report_error + (jsv, jsv) test3" where
  "shape_test3 v =
     rbind (rs_record v) (\<lambda>r.
     rbind (rs_exactKeys r [''spec'', ''attempts'']) (\<lambda>_.
     rbind (rs_field shape_record_only r ''spec'') (\<lambda>s.
     rbind (rs_field shape_attempts r ''attempts'') (\<lambda>a.
     Inr \<lparr>t3_spec = s, t3_attempts = a\<rparr>))))"

definition validateRuntimeShapeV3 :: "jsv \<Rightarrow> report_error + (jsv, jsv) bundle3" where
  "validateRuntimeShapeV3 v =
     rbind (rs_record v) (\<lambda>r.
     rbind (rs_exactKeys r [''run'', ''tests'']) (\<lambda>_.
     rbind (rs_field shape_run3 r ''run'') (\<lambda>run.
     rbind (rs_field (\<lambda>x. rbind (v3_array x) (rmap shape_test3)) r ''tests'') (\<lambda>ts.
     Inr \<lparr>b3_run = run, b3_tests = ts\<rparr>))))"

definition snapshotReportV3Input :: "jsv \<Rightarrow> report_error + (jsv, jsv) bundle3" where
  "snapshotReportV3Input v = rbind (snapshotDataValue 0 v) validateRuntimeShapeV3"

end
