(* ===== verification/ReportV3Rules.thy ===== *)
theory ReportV3Rules
  imports ReportV3
begin

text \<open>
  Validation, summary and sanitizing of third-version reports: \<open>packages/reporter/src/v3/validate.ts\<close>,
  \<open>result.ts\<close>, \<open>summary.ts\<close> and \<open>sanitize.ts\<close>. Sorting by text compares code units.
\<close>

section \<open>Contexts\<close>

definition unknownReasons :: "string list" where
  "unknownReasons = [''notRecorded'', ''unavailable'', ''redacted'', ''notApplicable'']"

definition check_detail :: "string option \<Rightarrow> report_error + unit" where
  "check_detail d = (case d of None \<Rightarrow> Inr () | Some t \<Rightarrow> validateNonEmpty t)"

definition validate_unknown :: "string \<Rightarrow> string option \<Rightarrow> report_error + unit" where
  "validate_unknown why d = rbind (rguard (why \<in> set unknownReasons) RpContent) (\<lambda>_. check_detail d)"

fun validateContext :: "'a ctx \<Rightarrow> report_error + unit" where
  "validateContext (UnknownCtx why d) = validate_unknown why d"
| "validateContext (StatedCtx s a) = rguard (s = ''known'') RpContent"

text \<open>The identifiers a known catalog offers.\<close>

definition known_ids :: "('a \<Rightarrow> string) \<Rightarrow> 'a list ctx \<Rightarrow> string list option" where
  "known_ids f c = (case c of StatedCtx s xs \<Rightarrow> if s = ''known'' then Some (map f xs) else None | _ \<Rightarrow> None)"

definition validateReference :: "(string \<Rightarrow> string) \<Rightarrow> string list option \<Rightarrow> string ctx \<Rightarrow> report_error + unit" where
  "validateReference red ids c = rbind (validateContext c) (\<lambda>_.
     (case c of
        UnknownCtx why d \<Rightarrow> Inr ()
      | StatedCtx s i \<Rightarrow> rbind (validateIdentifier red i) (\<lambda>_.
          (case ids of None \<Rightarrow> Inl RpContent | Some is \<Rightarrow> rguard (i \<in> set is) RpContent))))"

section \<open>The run\<close>

definition hostOperatingSystems :: "string list" where
  "hostOperatingSystems = [''macos'', ''windows'', ''linux'']"

definition reportSurfaceKinds :: "string list" where
  "reportSurfaceKinds = [''browser'', ''desktop'', ''system'']"

definition importLimitations :: "string list" where
  "importLimitations = [''hostNotRecorded'', ''surfacesNotRecorded'', ''attemptsNotRecorded'']"

fun ctx_unknown :: "'a ctx \<Rightarrow> bool" where
  "ctx_unknown (UnknownCtx why d) = True"
| "ctx_unknown (StatedCtx s a) = False"

fun attempts_unknown :: "'r attempts3 \<Rightarrow> bool" where
  "attempts_unknown (UnknownAttempts why d r) = True"
| "attempts_unknown (StatedAttempts s f items) = False"

definition validateProvenance :: "(jsv, jsv) bundle3 \<Rightarrow> report_error + unit" where
  "validateProvenance b = (case r3_provenance (b3_run b) of
     NativeProvenance \<Rightarrow> Inr ()
   | ImportedProvenance k sv p l \<Rightarrow>
       rbind (rguard (k = ''imported-v2'' \<and> sv = ''surfaceloom.report/v2'' \<and> p \<in> fst ` set testPlatforms) RpContent) (\<lambda>_.
       rbind (rguard (l = importLimitations) RpContent) (\<lambda>_.
       rguard (ctx_unknown (r3_hosts (b3_run b)) \<and> ctx_unknown (r3_surfaces (b3_run b))
         \<and> list_all (\<lambda>t. attempts_unknown (t3_attempts t)) (b3_tests b)) RpContent)))"

definition check_host :: "(string \<Rightarrow> string) \<Rightarrow> host3 \<Rightarrow> report_error + unit" where
  "check_host red h =
     rbind (validateIdentifier red (h3_id h)) (\<lambda>_.
     rbind (rguard (h3_os h \<in> set hostOperatingSystems) RpContent) (\<lambda>_.
     rbind (check_detail (h3_name h)) (\<lambda>_.
     rbind (check_detail (h3_osVersion h)) (\<lambda>_. check_detail (h3_architecture h)))))"

definition validateHosts :: "(string \<Rightarrow> string) \<Rightarrow> host3 list ctx \<Rightarrow> report_error + unit" where
  "validateHosts red c = (case c of
     UnknownCtx why d \<Rightarrow> Inr ()
   | StatedCtx s hs \<Rightarrow>
       if length hs = 0 then Inl RpContent else
       rbind (validateUnique (map h3_id hs)) (\<lambda>_. rall (check_host red) hs))"

definition check_surface :: "(string \<Rightarrow> string) \<Rightarrow> string list option \<Rightarrow> surface3 \<Rightarrow> report_error + unit" where
  "check_surface red hostIds s =
     rbind (validateIdentifier red (s3_id s)) (\<lambda>_.
     rbind (rguard (s3_kind s \<in> set reportSurfaceKinds) RpContent) (\<lambda>_.
     rbind (validateReference red hostIds (s3_hostId s)) (\<lambda>_.
     rbind (check_detail (s3_name s)) (\<lambda>_.
     rbind (validateUnique (or_else (s3_capabilities s) [])) (\<lambda>_.
     rall (validateIdentifier red) (or_else (s3_capabilities s) []))))))"

definition validateSurfaces :: "(string \<Rightarrow> string) \<Rightarrow> surface3 list ctx \<Rightarrow> host3 list ctx \<Rightarrow> report_error + unit" where
  "validateSurfaces red c hosts = (case c of
     UnknownCtx why d \<Rightarrow> Inr ()
   | StatedCtx s ss \<Rightarrow>
       if length ss = 0 then Inl RpContent else
       rbind (validateUnique (map s3_id ss)) (\<lambda>_. rall (check_surface red (known_ids h3_id hosts)) ss))"

section \<open>Tests and attempts\<close>

text \<open>The adapter to the rules of the second version: a run with one test, on one of its platforms.\<close>

definition validation_run :: "run3 \<Rightarrow> case_spec \<Rightarrow> report_run" where
  "validation_run run spec = \<lparr>rr_id = r3_id run, rr_title = r3_title run,
     rr_platform = (case sp_platforms spec of [] \<Rightarrow> [] | p # ps \<Rightarrow> platform_name p), rr_startedAt = r3_startedAt run,
     rr_finishedAt = r3_finishedAt run, rr_app = r3_app run, rr_environment = r3_environment run\<rparr>"

definition validateResult :: "(string \<Rightarrow> string) \<Rightarrow> (string \<Rightarrow> bool) \<Rightarrow> run3 \<Rightarrow> case_spec \<Rightarrow> jsv \<Rightarrow> report_error + case_result" where
  "validateResult red han run spec v =
     rbind (shape_result v) (\<lambda>r.
     rbind (normalize_shaped red han \<lparr>sb_run = validation_run run spec,
       sb_tests = [\<lparr>sh_spec = case_fields spec, sh_result = r\<rparr>]\<rparr>) (\<lambda>_. Inr r))"

definition ordinal_of :: "'r attempt3 \<Rightarrow> rat" where
  "ordinal_of a = (case a3_ordinal a of Fin q \<Rightarrow> q | _ \<Rightarrow> 0)"

definition by_ordinal :: "'r attempt3 list \<Rightarrow> 'r attempt3 list" where
  "by_ordinal items = sort_key ordinal_of items"

definition check_ordinal :: "nat \<times> 'r attempt3 \<Rightarrow> report_error + unit" where
  "check_ordinal x = rguard (is_safe_integer (a3_ordinal (snd x)) \<and> a3_ordinal (snd x) = Fin (of_nat (Suc (fst x)))) RpContent"

definition check_attempt :: "(string \<Rightarrow> string) \<Rightarrow> (string \<Rightarrow> bool) \<Rightarrow> run3 \<Rightarrow> case_spec \<Rightarrow> jsv attempt3 \<Rightarrow> report_error + case_result attempt3" where
  "check_attempt red han run spec a =
     rbind (validateIdentifier red (a3_id a)) (\<lambda>_.
     if length (a3_platforms a) = 0 then Inl RpContent else
     rbind (validateUnique (a3_platforms a)) (\<lambda>_.
     rbind (rall (\<lambda>p. rguard (p \<in> fst ` set testPlatforms \<and> p \<in> set (map platform_name (sp_platforms spec))) RpContent) (a3_platforms a)) (\<lambda>_.
     rbind (validateReference red (known_ids h3_id (r3_hosts run)) (a3_runnerHostId a)) (\<lambda>_.
     rbind (validateContext (a3_surfaceIds a)) (\<lambda>_.
     rbind (case a3_surfaceIds a of
         UnknownCtx why d \<Rightarrow> Inr ()
       | StatedCtx s is \<Rightarrow>
           if length is = 0 then Inl RpContent else
           rbind (validateUnique is) (\<lambda>_.
           rall (\<lambda>i. rbind (validateIdentifier red i) (\<lambda>_.
             rguard (case known_ids s3_id (r3_surfaces run) of None \<Rightarrow> True | Some known \<Rightarrow> i \<in> set known) RpContent)) is)) (\<lambda>_.
     rbind (validateResult red han run spec (a3_result a)) (\<lambda>r.
     Inr \<lparr>a3_id = a3_id a, a3_ordinal = a3_ordinal a, a3_platforms = a3_platforms a, a3_runnerHostId = a3_runnerHostId a,
       a3_surfaceIds = a3_surfaceIds a, a3_result = r\<rparr>)))))))"

definition check_attempts :: "(string \<Rightarrow> string) \<Rightarrow> (string \<Rightarrow> bool) \<Rightarrow> run3 \<Rightarrow> case_spec \<Rightarrow> jsv attempts3 \<Rightarrow> report_error + case_result attempts3" where
  "check_attempts red han run spec ats = (case ats of
     UnknownAttempts why d v \<Rightarrow>
       rbind (validate_unknown why d) (\<lambda>_.
       rbind (validateResult red han run spec v) (\<lambda>r. Inr (UnknownAttempts why d r)))
   | StatedAttempts s final items \<Rightarrow>
       if length items = 0 then Inl RpContent else
       rbind (validateIdentifier red final) (\<lambda>_.
       rbind (validateUnique (map a3_id items)) (\<lambda>_.
       rbind (rguard (distinct (map a3_ordinal items)) RpContent) (\<lambda>_.
       rbind (rall (\<lambda>p. rbind (check_ordinal p) (\<lambda>_. rbind (check_attempt red han run spec (snd p)) (\<lambda>_. Inr ())))
          (enumerate 0 (by_ordinal items))) (\<lambda>_.
       rbind (rmap (check_attempt red han run spec) items) (\<lambda>checked.
       rbind (rguard (list_ex (\<lambda>a. a3_id a = final) items) RpContent) (\<lambda>_.
       rbind (rguard (a3_id (last (by_ordinal items)) = final) RpContent) (\<lambda>_.
       Inr (StatedAttempts s final checked)))))))))"

definition define_spec3 :: "(string \<Rightarrow> bool) \<Rightarrow> jsv \<Rightarrow> report_error + case_spec" where
  "define_spec3 han v = (case defineCaseSpec han v of Inl e \<Rightarrow> Inl RpCase | Inr s \<Rightarrow> Inr s)"

definition validateTest3 :: "(string \<Rightarrow> string) \<Rightarrow> (string \<Rightarrow> bool) \<Rightarrow> run3 \<Rightarrow> (jsv, jsv) test3 \<Rightarrow> report_error + (case_spec, case_result) test3" where
  "validateTest3 red han run t =
     rbind (define_spec3 han (t3_spec t)) (\<lambda>spec.
     rbind (validateIdentifier red (sp_id spec)) (\<lambda>_.
     rbind (check_attempts red han run spec (t3_attempts t)) (\<lambda>ats.
     Inr \<lparr>t3_spec = spec, t3_attempts = ats\<rparr>)))"

definition raw_id :: "jsv \<Rightarrow> jsv" where
  "raw_id v = (case v of VObj p ps \<Rightarrow> (case data_fields True (\<lambda>_. True) ps of None \<Rightarrow> VUndefined | Some r \<Rightarrow> fld r ''id'') | _ \<Rightarrow> VUndefined)"

text \<open>The validation gives the checked bundle, with its specifications and results read.\<close>

definition validateReportV3 :: "(string \<Rightarrow> string) \<Rightarrow> (string \<Rightarrow> bool) \<Rightarrow> (jsv, jsv) bundle3 \<Rightarrow> report_error + (case_spec, case_result) bundle3" where
  "validateReportV3 red han b = (let run = b3_run b in
     rbind (validateIdentifier red (r3_id run)) (\<lambda>_.
     rbind (validateNonEmpty (r3_title run)) (\<lambda>_.
     rbind (validateIdentifier red (ra_id (r3_app run))) (\<lambda>_.
     rbind (validateNonEmpty (ra_name (r3_app run))) (\<lambda>_.
     rbind (validateTimestamp (r3_startedAt run)) (\<lambda>started.
     rbind (validateTimestamp (r3_finishedAt run)) (\<lambda>finished.
     if finished < started then Inl RpContent
     else if length (b3_tests b) = 0 then Inl RpContent else
     rbind (validateProvenance b) (\<lambda>_.
     rbind (validateContext (r3_hosts run)) (\<lambda>_.
     rbind (validateContext (r3_surfaces run)) (\<lambda>_.
     rbind (validateHosts red (r3_hosts run)) (\<lambda>_.
     rbind (validateSurfaces red (r3_surfaces run) (r3_hosts run)) (\<lambda>_.
     rbind (rguard (distinct (map (\<lambda>t. raw_id (t3_spec t)) (b3_tests b))) RpContent) (\<lambda>_.
     rbind (rmap (validateTest3 red han run) (b3_tests b)) (\<lambda>ts.
     Inr \<lparr>b3_run = run, b3_tests = ts\<rparr>))))))))))))))"

section \<open>Final results and summaries\<close>

definition final_result :: "'r attempts3 \<Rightarrow> 'r option" where
  "final_result ats = (case ats of
     UnknownAttempts why d r \<Rightarrow> Some r
   | StatedAttempts s final items \<Rightarrow> map_option a3_result (find (\<lambda>a. a3_id a = final) items))"

definition finalStatus :: "('s, case_result) test3 \<Rightarrow> string option" where
  "finalStatus t = map_option cr_status (final_result (t3_attempts t))"

definition allReportedResults :: "'r attempts3 \<Rightarrow> 'r list" where
  "allReportedResults ats = (case ats of
     UnknownAttempts why d r \<Rightarrow> [r]
   | StatedAttempts s final items \<Rightarrow> map a3_result items)"

record report_summary3 = report_summary +
  su_attempts :: nat
  su_unknownAttempts :: nat

definition count_final :: "string \<Rightarrow> ('s, case_result) test3 list \<Rightarrow> nat" where
  "count_final s ts = length (filter (\<lambda>t. finalStatus t = Some s) ts)"

definition attempt_count :: "'r attempts3 \<Rightarrow> nat" where
  "attempt_count ats = (case ats of UnknownAttempts why d r \<Rightarrow> 0
     | StatedAttempts s final items \<Rightarrow> if s = ''known'' then length items else 0)"

definition summarizeTestsV3 :: "('s, case_result) test3 list \<Rightarrow> report_summary3" where
  "summarizeTestsV3 ts =
     (let artifacts = concat (map (\<lambda>t. concat (map (\<lambda>r. or_else (cr_artifacts r) []) (allReportedResults (t3_attempts t)))) ts);
          p = count_final ''passed'' ts; f = count_final ''failed'' ts; t = count_final ''timedOut'' ts;
          u = count_final ''unsupported'' ts in
      \<lparr>su_discovered = length ts, su_executed = p + f + t + u, su_passed = p, su_failed = f, su_timedOut = t,
       su_skipped = count_final ''skipped'' ts, su_unsupported = u,
       su_evidence = map (\<lambda>s. (s, length (filter (\<lambda>a. sa_captureStatus a = s) artifacts))) captureStatuses,
       su_attempts = sum_list (map (\<lambda>t. attempt_count (t3_attempts t)) ts),
       su_unknownAttempts = length (filter (\<lambda>t. attempts_unknown (t3_attempts t)) ts)\<rparr>)"

definition overallStatusV3 :: "report_summary3 \<Rightarrow> run_verdict" where
  "overallStatusV3 s =
     (if su_failed s > 0 then RunFailed
      else if su_timedOut s > 0 then RunTimedOut
      else if su_unsupported s > 0 \<or> su_skipped s > 0 then RunIncomplete
      else RunPassed)"

definition testsForReviewV3 :: "('s, case_result) test3 list \<Rightarrow> ('s, case_result) test3 list" where
  "testsForReviewV3 ts = sort_key (\<lambda>t. case finalStatus t of None \<Rightarrow> 5 | Some s \<Rightarrow> verdict_rank s) ts"

section \<open>Sanitizing\<close>

fun sanitize_ctx :: "(string \<Rightarrow> string) \<Rightarrow> ('a \<Rightarrow> 'a) \<Rightarrow> 'a ctx \<Rightarrow> 'a ctx" where
  "sanitize_ctx red f (UnknownCtx why d) = UnknownCtx why (map_option red d)"
| "sanitize_ctx red f (StatedCtx s a) = StatedCtx ''known'' (f a)"

definition sanitize_host3 :: "(string \<Rightarrow> string) \<Rightarrow> host3 \<Rightarrow> host3" where
  "sanitize_host3 red h = \<lparr>h3_id = h3_id h, h3_os = h3_os h, h3_name = map_option red (h3_name h),
     h3_osVersion = map_option red (h3_osVersion h), h3_architecture = map_option red (h3_architecture h)\<rparr>"

definition sanitize_surface3 :: "(string \<Rightarrow> string) \<Rightarrow> surface3 \<Rightarrow> surface3" where
  "sanitize_surface3 red s = \<lparr>s3_id = s3_id s, s3_kind = s3_kind s, s3_hostId = sanitize_ctx red (\<lambda>i. i) (s3_hostId s),
     s3_name = map_option red (s3_name s), s3_capabilities = map_option sort (s3_capabilities s)\<rparr>"

definition sanitizeRun3 :: "(string \<Rightarrow> string) \<Rightarrow> run3 \<Rightarrow> run3" where
  "sanitizeRun3 red run = \<lparr>r3_id = r3_id run, r3_title = red (r3_title run), r3_startedAt = r3_startedAt run,
     r3_finishedAt = r3_finishedAt run, r3_app = sanitize_app red (r3_app run),
     r3_environment = map_option (sanitizeEnvironment red) (r3_environment run), r3_provenance = r3_provenance run,
     r3_hosts = sanitize_ctx red (\<lambda>hs. map (sanitize_host3 red) (sort_key h3_id hs)) (r3_hosts run),
     r3_surfaces = sanitize_ctx red (\<lambda>ss. map (sanitize_surface3 red) (sort_key s3_id ss)) (r3_surfaces run)\<rparr>"

definition platformOrder :: "string \<Rightarrow> int" where
  "platformOrder p = (if p = ''macos'' then 0 else if p = ''windows'' then 1 else if p = ''web'' then 2 else - 1)"

definition sanitize_attempt3 :: "(string \<Rightarrow> string) \<Rightarrow> case_result attempt3 \<Rightarrow> case_result attempt3" where
  "sanitize_attempt3 red a = \<lparr>a3_id = a3_id a, a3_ordinal = a3_ordinal a,
     a3_platforms = sort_key platformOrder (a3_platforms a),
     a3_runnerHostId = sanitize_ctx red (\<lambda>i. i) (a3_runnerHostId a),
     a3_surfaceIds = sanitize_ctx red sort (a3_surfaceIds a), a3_result = sanitize_result red (a3_result a)\<rparr>"

text \<open>Attempts are sorted by ordinal, then by identifier: two stable sorts.\<close>

fun sanitizeAttempts :: "(string \<Rightarrow> string) \<Rightarrow> case_result attempts3 \<Rightarrow> case_result attempts3" where
  "sanitizeAttempts red (UnknownAttempts why d r) = UnknownAttempts why (map_option red d) (sanitize_result red r)"
| "sanitizeAttempts red (StatedAttempts s final items) =
     StatedAttempts ''known'' final (map (sanitize_attempt3 red) (sort_key ordinal_of (sort_key a3_id items)))"

definition sanitizeCase3 :: "(string \<Rightarrow> string) \<Rightarrow> (case_spec, case_result) test3 \<Rightarrow> (case_spec, case_result) test3" where
  "sanitizeCase3 red t = \<lparr>t3_spec = sanitizeCaseSpec red (t3_spec t), t3_attempts = sanitizeAttempts red (t3_attempts t)\<rparr>"

definition sanitizeReportV3Input :: "(string \<Rightarrow> string) \<Rightarrow> (string \<Rightarrow> bool) \<Rightarrow> jsv \<Rightarrow> report_error + (case_spec, case_result) bundle3" where
  "sanitizeReportV3Input red han v =
     rbind (snapshotReportV3Input v) (\<lambda>b.
     rbind (validateReportV3 red han b) (\<lambda>c.
     Inr \<lparr>b3_run = sanitizeRun3 red (b3_run c), b3_tests = map (sanitizeCase3 red) (b3_tests c)\<rparr>))"

section \<open>What an accepted report is\<close>

definition host_ref_ok :: "string list option \<Rightarrow> string ctx \<Rightarrow> bool" where
  "host_ref_ok ids c = (case c of UnknownCtx why d \<Rightarrow> True | StatedCtx s i \<Rightarrow> (case ids of None \<Rightarrow> False | Some is \<Rightarrow> i \<in> set is))"

definition attempt_ok :: "run3 \<Rightarrow> case_spec \<Rightarrow> case_result attempt3 \<Rightarrow> bool" where
  "attempt_ok run spec a = (a3_platforms a \<noteq> [] \<and> set (a3_platforms a) \<subseteq> set (map platform_name (sp_platforms spec))
     \<and> host_ref_ok (known_ids h3_id (r3_hosts run)) (a3_runnerHostId a)
     \<and> (case a3_surfaceIds a of UnknownCtx why d \<Rightarrow> True
        | StatedCtx s is \<Rightarrow> is \<noteq> [] \<and> (case known_ids s3_id (r3_surfaces run) of None \<Rightarrow> True | Some known \<Rightarrow> set is \<subseteq> set known))
     \<and> test_consistent \<lparr>rt_spec = spec, rt_result = a3_result a\<rparr>)"

definition attempts_ok :: "run3 \<Rightarrow> case_spec \<Rightarrow> case_result attempts3 \<Rightarrow> bool" where
  "attempts_ok run spec ats = (case ats of
     UnknownAttempts why d r \<Rightarrow> test_consistent \<lparr>rt_spec = spec, rt_result = r\<rparr>
   | StatedAttempts s final items \<Rightarrow>
       items \<noteq> [] \<and> distinct (map a3_id items)
       \<and> map a3_ordinal (by_ordinal items) = map (\<lambda>i. Fin (of_nat (Suc i))) [0..<length items]
       \<and> a3_id (last (by_ordinal items)) = final \<and> list_all (attempt_ok run spec) items)"

definition report3_ok :: "(case_spec, case_result) bundle3 \<Rightarrow> bool" where
  "report3_ok b = (b3_tests b \<noteq> [] \<and> list_all (\<lambda>t. attempts_ok (b3_run b) (t3_spec t) (t3_attempts t)) (b3_tests b)
     \<and> (case r3_provenance (b3_run b) of
          NativeProvenance \<Rightarrow> True
        | ImportedProvenance k sv p l \<Rightarrow> ctx_unknown (r3_hosts (b3_run b)) \<and> ctx_unknown (r3_surfaces (b3_run b))
            \<and> list_all (\<lambda>t. attempts_unknown (t3_attempts t)) (b3_tests b)))"

lemma validateContext_Inr: "validateContext c = Inr u \<Longrightarrow> (case c of UnknownCtx why d \<Rightarrow> True | StatedCtx s a \<Rightarrow> s = ''known'')"
  by (cases c) simp_all

lemma validateReference_ok: "validateReference red ids c = Inr u \<Longrightarrow> host_ref_ok ids c"
  by (auto simp: validateReference_def host_ref_ok_def split: ctx.splits option.splits)

lemma validateResult_ok:
  assumes "validateResult red han run spec v = Inr r" "wf_case han spec"
  shows "test_consistent \<lparr>rt_spec = spec, rt_result = r\<rparr>"
proof -
  let ?sh = "\<lparr>sb_run = validation_run run spec, sb_tests = [\<lparr>sh_spec = case_fields spec, sh_result = r\<rparr>]\<rparr>"
  obtain b where b: "normalize_shaped red han ?sh = Inr b" using assms(1) by (auto simp: validateResult_def)
  have "with_platforms p (case_fields spec) = case_fields spec" for p
    by (simp add: with_platforms_def has_own_def case_fields_def)
  then have "define_spec han p (case_fields spec) = Inr spec" for p
    using vcase.decode_encode [OF assms(2)] by (simp add: define_spec_def case_value_def)
  then have "rb_tests b = [\<lparr>rt_spec = spec, rt_result = r\<rparr>]" using b by (auto simp: normalize_shaped_def Let_def)
  moreover have "list_all test_consistent (rb_tests b)" using shaped_consistent [OF b] .
  ultimately show ?thesis by simp
qed

lemma check_attempt_ok:
  assumes "check_attempt red han run spec a = Inr c" "wf_case han spec"
  shows "attempt_ok run spec c \<and> a3_id c = a3_id a \<and> a3_ordinal c = a3_ordinal a"
  using assms(1) unfolding check_attempt_def rbind_eq_Inr_iff if_Inl_eq_Inr rall_Inr_iff
  by (elim exE conjE) (auto simp: attempt_ok_def rall_Inr_iff validateResult_ok [OF _ assms(2)] validateReference_ok
      split: ctx.splits option.splits)

lemma check_ordinals: "rall check_ordinal (enumerate n items) = Inr u \<Longrightarrow>
    map a3_ordinal items = map (\<lambda>i. Fin (of_nat (Suc i))) [n..<n + length items]"
  by (induction items arbitrary: n) (auto simp: check_ordinal_def upt_conv_Cons simp del: upt_Suc)

lemma ordered_checked:
  assumes "list_all2 (\<lambda>a c. a3_id c = a3_id a \<and> a3_ordinal c = a3_ordinal a) items checked"
  shows "list_all2 (\<lambda>a c. a3_id c = a3_id a \<and> a3_ordinal c = a3_ordinal a) (by_ordinal items) (by_ordinal checked)"
proof -
  let ?R = "\<lambda>a c. a3_id c = a3_id a \<and> a3_ordinal c = a3_ordinal a"
  have ins: "list_all2 ?R (insort_key ordinal_of a xs) (insort_key ordinal_of c ys)"
    if "list_all2 ?R xs ys" "?R a c" for xs ys and a :: "'a attempt3" and c :: "'b attempt3"
    using that by (induction rule: list_all2_induct) (auto simp: ordinal_of_def)
  show ?thesis unfolding by_ordinal_def sort_key_def using assms by (induction rule: list_all2_induct) (auto intro: ins)
qed

lemma paired_fields:
  "list_all2 (\<lambda>a x. f x = g a \<and> h x = k a) xs ys \<Longrightarrow> map f ys = map g xs \<and> map h ys = map k xs \<and> length ys = length xs"
  by (induction rule: list_all2_induct) auto

lemma check_attempts_ok:
  assumes "check_attempts red han run spec ats = Inr checked" "wf_case han spec"
  shows "attempts_ok run spec checked \<and> attempts_unknown checked = attempts_unknown ats"
proof (cases ats)
  case (UnknownAttempts why d v)
  then show ?thesis using assms(1)
    by (auto simp: check_attempts_def attempts_ok_def validateResult_ok [OF _ assms(2)])
next
  case (StatedAttempts s final items)
  then obtain cs where c: "items \<noteq> []" "distinct (map a3_id items)" "rall check_ordinal (enumerate 0 (by_ordinal items)) = Inr ()"
      "rmap (check_attempt red han run spec) items = Inr cs" "a3_id (last (by_ordinal items)) = final"
      "checked = StatedAttempts s final cs"
    using assms(1) by (auto simp: check_attempts_def unit_eq rall_Inr_iff)
  have all: "list_all2 (\<lambda>a x. attempt_ok run spec x \<and> a3_id x = a3_id a \<and> a3_ordinal x = a3_ordinal a) items cs"
    using c(4) unfolding rmap_Inr_iff by (rule list_all2_mono) (use check_attempt_ok [OF _ assms(2)] in blast)
  then have ok: "list_all (attempt_ok run spec) cs"
    by (auto simp: list_all2_conv_all_nth list_all_length)
  have same: "list_all2 (\<lambda>a x. a3_id x = a3_id a \<and> a3_ordinal x = a3_ordinal a) items cs"
    using all by (rule list_all2_mono) blast
  then have len: "length cs = length items" and ids: "map a3_id cs = map a3_id items"
    using paired_fields [OF same] by blast+
  have o: "list_all2 (\<lambda>a x. a3_id x = a3_id a \<and> a3_ordinal x = a3_ordinal a) (by_ordinal items) (by_ordinal cs)"
    by (rule ordered_checked [OF same])
  then have om: "map a3_ordinal (by_ordinal cs) = map a3_ordinal (by_ordinal items)" "map a3_id (by_ordinal cs) = map a3_id (by_ordinal items)"
    using paired_fields [OF o] by blast+
  have "length (by_ordinal items) = length items" "length (by_ordinal cs) = length cs" by (simp_all add: by_ordinal_def)
  then have "by_ordinal items \<noteq> []" "by_ordinal cs \<noteq> []" using c(1) len by auto
  then have "a3_id (last (by_ordinal cs)) = a3_id (last (by_ordinal items))" using om(2) by (metis last_map)
  then show ?thesis using c ok om(1) len ids StatedAttempts check_ordinals [OF c(3)]
    by (auto simp: attempts_ok_def by_ordinal_def)
qed

lemma validateTest3_ok:
  "validateTest3 red han run t = Inr c \<Longrightarrow> attempts_ok run (t3_spec c) (t3_attempts c)
     \<and> attempts_unknown (t3_attempts c) = attempts_unknown (t3_attempts t)"
  by (auto simp: validateTest3_def define_spec3_def split: sum.splits dest!: vcase.decode_wf check_attempts_ok)

lemma accepted_report3:
  assumes "validateReportV3 red han b = Inr c"
  shows "report3_ok c"
proof -
  obtain ts where ts: "rmap (validateTest3 red han (b3_run b)) (b3_tests b) = Inr ts" "c = \<lparr>b3_run = b3_run b, b3_tests = ts\<rparr>"
      "validateProvenance b = Inr ()" "b3_tests b \<noteq> []"
    using assms unfolding validateReportV3_def Let_def rbind_eq_Inr_iff if_Inl_eq_Inr by (auto simp: unit_eq)
  have all: "list_all2 (\<lambda>t c. attempts_ok (b3_run b) (t3_spec c) (t3_attempts c)
      \<and> attempts_unknown (t3_attempts c) = attempts_unknown (t3_attempts t)) (b3_tests b) ts"
    using ts(1) unfolding rmap_Inr_iff by (rule list_all2_mono) (rule validateTest3_ok)
  then have "list_all (\<lambda>t. attempts_ok (b3_run b) (t3_spec t) (t3_attempts t)) ts" "ts \<noteq> []"
    using ts(4) by (auto simp: list_all2_conv_all_nth list_all_length)
  moreover have "list_all (\<lambda>t. attempts_unknown (t3_attempts t)) ts"
    if "list_all (\<lambda>t. attempts_unknown (t3_attempts t)) (b3_tests b)"
    using all that by (auto simp: list_all2_conv_all_nth list_all_length)
  ultimately show ?thesis using ts(2,3)
    by (auto simp: report3_ok_def validateProvenance_def split: provenance3.splits)
qed

section \<open>Sanitizing keeps verdicts\<close>

lemma find_key: "distinct (map k xs) \<Longrightarrow> a \<in> set xs \<Longrightarrow> find (\<lambda>x. k x = k a) xs = Some a"
  by (induction xs) (auto simp: image_iff)

lemma distinct_map_sort: "distinct (map k (sort_key f xs)) \<longleftrightarrow> distinct (map k xs)"
  by (simp add: distinct_map)

lemma find_sorted:
  assumes "distinct (map a3_id items)"
  shows "find (\<lambda>a. a3_id a = i) (sort_key f items) = find (\<lambda>a. a3_id a = i) items"
proof (cases "\<exists>a \<in> set items. a3_id a = i")
  case True
  then obtain a where "a \<in> set items" "i = a3_id a" by blast
  then show ?thesis using assms by (simp add: find_key distinct_map_sort)
next
  case False
  then have "find (\<lambda>a. a3_id a = i) xs = None" if "set xs = set items" for xs
    using that by (auto simp: find_None_iff)
  then show ?thesis by simp
qed

lemma find_map_same: "(\<And>a. P (f a) = P a) \<Longrightarrow> find P (map f xs) = map_option f (find P xs)"
  by (induction xs) auto

lemma sanitize_attempt3_id [simp]: "a3_id (sanitize_attempt3 red a) = a3_id a" "a3_result (sanitize_attempt3 red a) = sanitize_result red (a3_result a)"
  by (simp_all add: sanitize_attempt3_def)

lemma sanitized_final:
  "attempts_ok run spec ats \<Longrightarrow> final_result (sanitizeAttempts red ats) = map_option (sanitize_result red) (final_result ats)"
  by (cases ats)
    (auto simp: final_result_def attempts_ok_def find_map_same find_sorted distinct_map_sort comp_def option.map_comp)

lemma sanitized_finalStatus:
  "attempts_ok run (t3_spec t) (t3_attempts t) \<Longrightarrow> finalStatus (sanitizeCase3 red t) = finalStatus t"
  by (auto simp: finalStatus_def sanitizeCase3_def sanitized_final option.map_comp comp_def intro!: option.map_cong)

lemma verdict_kept:
  assumes "list_all (\<lambda>t. attempts_ok run (t3_spec t) (t3_attempts t)) ts"
  shows "overallStatusV3 (summarizeTestsV3 (map (sanitizeCase3 red) ts)) = overallStatusV3 (summarizeTestsV3 ts)"
proof -
  have "count_final s (map (sanitizeCase3 red) ts) = count_final s ts" for s
    using assms by (induction ts) (auto simp: count_final_def sanitized_finalStatus)
  then show ?thesis by (simp add: overallStatusV3_def summarizeTestsV3_def Let_def)
qed

lemma overall3_passed:
  assumes "list_all (\<lambda>t. \<exists>s \<in> set test_statuses. finalStatus t = Some s) ts"
  shows "overallStatusV3 (summarizeTestsV3 ts) = RunPassed \<longleftrightarrow> list_all (\<lambda>t. finalStatus t = Some ''passed'') ts"
proof -
  have none: "count_final s ts = 0 \<longleftrightarrow> list_all (\<lambda>t. finalStatus t \<noteq> Some s) ts" for s
    by (auto simp: count_final_def list_all_iff filter_empty_conv)
  have "overallStatusV3 (summarizeTestsV3 ts) = RunPassed \<longleftrightarrow>
      count_final ''failed'' ts = 0 \<and> count_final ''timedOut'' ts = 0 \<and> count_final ''unsupported'' ts = 0 \<and> count_final ''skipped'' ts = 0"
    by (auto simp: overallStatusV3_def summarizeTestsV3_def Let_def)
  also have "\<dots> \<longleftrightarrow> list_all (\<lambda>t. finalStatus t = Some ''passed'') ts"
    unfolding none using assms by (auto simp: list_all_iff test_statuses_def)
  finally show ?thesis .
qed

lemma final_status_known:
  "attempts_ok run (t3_spec t) (t3_attempts t) \<Longrightarrow> \<exists>s \<in> set test_statuses. finalStatus t = Some s"
proof (cases "t3_attempts t")
  case (StatedAttempts s final items)
  assume ok: "attempts_ok run (t3_spec t) (t3_attempts t)"
  then have i: "items \<noteq> []" "a3_id (last (by_ordinal items)) = final" "list_all (attempt_ok run (t3_spec t)) items"
    by (auto simp: attempts_ok_def StatedAttempts)
  then have "last (by_ordinal items) \<in> set items" by (metis by_ordinal_def last_in_set set_empty set_sort)
  then obtain a where "find (\<lambda>a. a3_id a = final) items = Some a"
    using i(2) by (cases "find (\<lambda>a. a3_id a = final) items") (auto simp: find_None_iff)
  then have "finalStatus t = Some (cr_status (a3_result a))" "a \<in> set items"
    by (auto simp: finalStatus_def final_result_def StatedAttempts find_Some_iff)
  then show ?thesis using i(3) by (auto simp: list_all_iff attempt_ok_def test_consistent_def Let_def)
qed (auto simp: attempts_ok_def finalStatus_def final_result_def test_consistent_def Let_def)

end
