(* ===== verification/ReportImport.thy ===== *)
theory ReportImport
  imports ReportV3Rules
begin

text \<open>
  The import of second-version reports into the third: \<open>packages/reporter/src/v3/import-v2.ts\<close>. An imported
  report makes no claim the source did not make: its hosts, surfaces and attempts are unknown, and its
  verdict is the one its tests show. An artifact of a report is a source artifact without its path, with the
  file it was copied to.
\<close>

section \<open>Reading a report\<close>

record artifact_file =
  af_path :: "string option"
  af_size :: "jsnum option"
  af_sha :: "jsv option"

record reported_test =
  re_test :: report_test
  re_platforms :: bool
  re_files :: "artifact_file list"

text \<open>After the snapshot an object is its fields; spreading anything else gives nothing the validation accepts.\<close>

definition im_object :: "jsv \<Rightarrow> report_error + fields" where
  "im_object v = (case v of
     VObj p ps \<Rightarrow> (case data_fields True (\<lambda>_. True) ps of None \<Rightarrow> Inl RpShape | Some r \<Rightarrow> Inr r)
   | _ \<Rightarrow> Inl RpShape)"

definition im_list :: "jsv \<Rightarrow> report_error + jsv list" where
  "im_list v = (case v of
     VArr b ps ks \<Rightarrow> (case data_items True ps of None \<Rightarrow> Inl RpShape | Some vs \<Rightarrow> Inr vs)
   | _ \<Rightarrow> Inl RpShape)"

definition without :: "string list \<Rightarrow> fields \<Rightarrow> fields" where
  "without ks r = filter (\<lambda>f. fst f \<notin> set ks) r"

definition asValidationArtifact :: "fields \<Rightarrow> fields" where
  "asValidationArtifact r = (let source = without [''contentTrust'', ''relativePath'', ''sizeBytes'', ''sha256''] r in
     if fld r ''captureStatus'' = VStr ''captured''
     then without [''sourcePath''] source @ [(''sourcePath'', VStr ''/imported-v2/evidence'')]
     else source)"

text \<open>\<open>RegExp.test\<close> reads an array of one element as that element.\<close>

fun regexp_text :: "jsv \<Rightarrow> string" where
  "regexp_text (VStr s) = s"
| "regexp_text (VArr b [Some (DataProp e v)] ks) = regexp_text v"
| "regexp_text v = []"

definition hex_char :: "char \<Rightarrow> bool" where
  "hex_char c = (is_digit c \<or> c \<in> set ''abcdef'')"

definition evidence_sha_ok :: "jsv \<Rightarrow> bool" where
  "evidence_sha_ok v = (let t = regexp_text v in length t = 64 \<and> list_all hex_char t)"

definition given :: "fields \<Rightarrow> string \<Rightarrow> jsv option" where
  "given r k = (if fld r k = VUndefined then None else Some (fld r k))"

definition byte_size :: "jsv \<Rightarrow> report_error + jsnum" where
  "byte_size v = (case v of
     VNum n \<Rightarrow> if is_safe_integer n \<and> (case n of Fin q \<Rightarrow> 0 \<le> q | _ \<Rightarrow> False) then Inr n else Inl RpContent
   | _ \<Rightarrow> Inl RpContent)"

definition validateReportedArtifact :: "fields \<Rightarrow> report_error + artifact_file" where
  "validateReportedArtifact r =
     (if fld r ''contentTrust'' \<noteq> VStr ''untrusted'' then Inl RpContent
      else if fld r ''captureStatus'' = VStr ''captured'' then
        (case fld r ''relativePath'' of
           VStr p \<Rightarrow>
             if safeArtifactPath p = None then Inl RpContent
             else rbind (byte_size (fld r ''sizeBytes'')) (\<lambda>n.
               if evidence_sha_ok (fld r ''sha256'')
               then Inr \<lparr>af_path = Some p, af_size = Some n, af_sha = Some (fld r ''sha256'')\<rparr>
               else Inl RpContent)
         | _ \<Rightarrow> Inl RpContent)
      else if given r ''relativePath'' \<noteq> None \<or> given r ''sizeBytes'' \<noteq> None \<or> given r ''sha256'' \<noteq> None then Inl RpContent
      else Inr \<lparr>af_path = None, af_size = None, af_sha = None\<rparr>)"

section \<open>Checking the claims of a report\<close>

definition im_number :: "fields \<Rightarrow> string \<Rightarrow> nat \<Rightarrow> bool" where
  "im_number r k n = (fld r k = VNum (Fin (of_nat n)))"

definition sameSummary :: "report_summary \<Rightarrow> jsv \<Rightarrow> report_error + bool" where
  "sameSummary s v =
     rbind (im_object v) (\<lambda>r.
     rbind (im_object (fld r ''evidence'')) (\<lambda>e.
     Inr (im_number r ''discovered'' (su_discovered s) \<and> im_number r ''executed'' (su_executed s)
       \<and> im_number r ''passed'' (su_passed s) \<and> im_number r ''failed'' (su_failed s)
       \<and> im_number r ''timedOut'' (su_timedOut s) \<and> im_number r ''skipped'' (su_skipped s)
       \<and> im_number r ''unsupported'' (su_unsupported s)
       \<and> list_all (\<lambda>(k, n). im_number e k n) (su_evidence s))))"

fun verdict_name :: "run_verdict \<Rightarrow> string" where
  "verdict_name RunPassed = ''passed''"
| "verdict_name RunFailed = ''failed''"
| "verdict_name RunTimedOut = ''timedOut''"
| "verdict_name RunIncomplete = ''incomplete''"

text \<open>The artifacts of a test as given, and the test with the artifacts the validation reads.\<close>

definition raw_artifacts :: "fields \<Rightarrow> report_error + fields list" where
  "raw_artifacts r = rbind (im_object (fld r ''result'')) (\<lambda>x.
     rbind (im_list (fld x ''artifacts'')) (rmap im_object))"

definition validation_test :: "fields \<Rightarrow> fields list \<Rightarrow> fields \<Rightarrow> jsv" where
  "validation_test r as x = obj [(''spec'', fld r ''spec''),
     (''result'', obj (without [''artifacts''] x @ [(''artifacts'', arr (map (\<lambda>a. obj (asValidationArtifact a)) as))]))]"

record raw_test =
  rw_fields :: fields
  rw_result :: fields
  rw_artifacts :: "fields list"

definition raw_of :: "jsv \<Rightarrow> report_error + raw_test" where
  "raw_of v = rbind (im_object v) (\<lambda>r. rbind (im_object (fld r ''result'')) (\<lambda>x. rbind (raw_artifacts r) (\<lambda>as.
     Inr \<lparr>rw_fields = r, rw_result = x, rw_artifacts = as\<rparr>)))"

definition names_platforms :: "fields \<Rightarrow> bool" where
  "names_platforms r = (case im_object (fld r ''spec'') of Inl e \<Rightarrow> False | Inr s \<Rightarrow> has_own s ''platforms'')"

definition validateCanonicalV2 :: "(string \<Rightarrow> string) \<Rightarrow> (string \<Rightarrow> bool) \<Rightarrow> jsv
    \<Rightarrow> report_error + evidence_policy \<times> report_run \<times> reported_test list" where
  "validateCanonicalV2 red han v =
     rbind (im_object v) (\<lambda>r.
     if fld r ''schemaVersion'' \<noteq> VStr ''surfaceloom.report/v2'' then Inl RpContent else
     rbind (validateEvidencePolicy (fld r ''evidencePolicy'')) (\<lambda>policy.
     rbind (rbind (im_list (fld r ''tests'')) (rmap raw_of)) (\<lambda>raws.
     rbind (normalizeReportInput red han (obj [(''run'', fld r ''run''),
        (''tests'', arr (map (\<lambda>t. validation_test (rw_fields t) (rw_artifacts t) (rw_result t)) raws))])) (\<lambda>b.
     rbind (rmap (\<lambda>t. rmap validateReportedArtifact (rw_artifacts t)) raws) (\<lambda>files.
     let summary = summarizeTests (rb_tests b) in
     rbind (sameSummary summary (fld r ''summary'')) (\<lambda>same.
     if \<not> same \<or> fld r ''status'' \<noteq> VStr (verdict_name (overallStatus summary)) then Inl RpContent
     else Inr (policy, rb_run b, map (\<lambda>(t, raw, fs). \<lparr>re_test = t, re_platforms = names_platforms (rw_fields raw), re_files = fs\<rparr>)
       (zip (rb_tests b) (zip raws files)))))))))"

section \<open>The imported report\<close>

record imported_test =
  it_case :: "(case_spec, case_result) test3"
  it_platforms :: bool
  it_files :: "artifact_file list"

record imported_report =
  im_run :: run3
  im_status :: run_verdict
  im_summary :: report_summary3
  im_policy :: evidence_policy
  im_tests :: "imported_test list"

definition drop_path :: "source_artifact \<Rightarrow> source_artifact" where
  "drop_path a = a\<lparr>sa_sourcePath := None\<rparr>"

definition reported_result :: "case_result \<Rightarrow> case_result" where
  "reported_result r = r\<lparr>cr_artifacts := map_option (map drop_path) (cr_artifacts r)\<rparr>"

definition importTest :: "(string \<Rightarrow> string) \<Rightarrow> reported_test \<Rightarrow> imported_test" where
  "importTest red t = (let safe = sanitizeTestCase red (re_test t) in
     \<lparr>it_case = \<lparr>t3_spec = rt_spec safe,
        t3_attempts = UnknownAttempts ''notRecorded'' (Some ''report/v2 recorded a Case result without an attempt boundary.'')
          (reported_result (rt_result safe))\<rparr>,
      it_platforms = re_platforms t, it_files = re_files t\<rparr>)"

definition import_run :: "(string \<Rightarrow> string) \<Rightarrow> report_run \<Rightarrow> run3" where
  "import_run red run = (let safe = sanitizeRunInput red run in
     \<lparr>r3_id = rr_id safe, r3_title = rr_title safe, r3_startedAt = rr_startedAt safe, r3_finishedAt = rr_finishedAt safe,
      r3_app = rr_app safe, r3_environment = rr_environment safe,
      r3_provenance = ImportedProvenance ''imported-v2'' ''surfaceloom.report/v2'' (rr_platform safe) importLimitations,
      r3_hosts = UnknownCtx ''notRecorded'' (Some ''report/v2 did not record host identity.''),
      r3_surfaces = UnknownCtx ''notRecorded'' (Some ''report/v2 platform does not identify a surface or surface count.'')\<rparr>)"

definition importReportV2 :: "(string \<Rightarrow> string) \<Rightarrow> (string \<Rightarrow> bool) \<Rightarrow> jsv \<Rightarrow> report_error + imported_report" where
  "importReportV2 red han v =
     rbind (snapshotDataValue 0 v) (\<lambda>w.
     rbind (validateCanonicalV2 red han w) (\<lambda>(policy, run, ts).
     let tests = map (importTest red) ts; summary = summarizeTestsV3 (map it_case tests) in
     Inr \<lparr>im_run = import_run red run, im_status = overallStatusV3 summary, im_summary = summary, im_policy = policy,
       im_tests = tests\<rparr>))"

section \<open>What an import keeps\<close>

lemma imported_status [simp]: "finalStatus (it_case (importTest red t)) = Some (cr_status (rt_result (re_test t)))"
  by (simp add: finalStatus_def importTest_def Let_def final_result_def reported_result_def sanitizeTestCase_def)

lemma imported_unknown [simp]: "attempts_unknown (t3_attempts (it_case (importTest red t)))"
  by (simp add: importTest_def Let_def)

lemma imported_count: "count_final s (map (\<lambda>t. it_case (importTest red t)) ts) = count_tests s (map re_test ts)"
  by (induction ts) (simp_all add: count_final_def count_tests_def)

lemma imported_verdict:
  "overallStatusV3 (summarizeTestsV3 (map (\<lambda>t. it_case (importTest red t)) ts)) = overallStatus (summarizeTests (map re_test ts))"
  by (simp add: overallStatusV3_def overallStatus_def summarizeTestsV3_def summarizeTests_def Let_def imported_count)

definition file_ok :: "artifact_file \<Rightarrow> bool" where
  "file_ok f = (case af_path f of
     None \<Rightarrow> af_size f = None \<and> af_sha f = None
   | Some p \<Rightarrow> safeArtifactPath p = Some p \<and> af_size f \<noteq> None \<and> (\<exists>x. af_sha f = Some x \<and> evidence_sha_ok x))"

lemma reported_file_ok: "validateReportedArtifact r = Inr f \<Longrightarrow> file_ok f"
  by (auto simp: validateReportedArtifact_def file_ok_def safeArtifactPath_def split: if_splits jsv.splits)

text \<open>The claims of the source, in its own words.\<close>

definition claimed_status :: "jsv \<Rightarrow> jsv" where
  "claimed_status w = (case im_object w of Inl e \<Rightarrow> VUndefined | Inr r \<Rightarrow> fld r ''status'')"

lemma plain_array: "rs_array (arr vs) = Inr vs"
proof -
  have "rmap rs_slot (map (\<lambda>v. Some (DataProp True v)) vs) = Inr vs"
    by (simp add: rmap_Inr_iff list_all2_map1 rs_slot_def list.rel_refl)
  then show ?thesis by (simp add: rs_array_def arr_def)
qed

lemma normalized_length:
  assumes "normalizeReportInput red han (obj [(''run'', a), (''tests'', arr vs)]) = Inr b"
  shows "length (rb_tests b) = length vs"
proof -
  have r: "rs_record (obj [(''run'', a), (''tests'', arr vs)]) = Inr [(''run'', a), (''tests'', arr vs)]"
    by (simp add: rs_record_def obj_def)
  from assms obtain sh where sh: "validateRuntimeShape (obj [(''run'', a), (''tests'', arr vs)]) = Inr sh"
      "normalize_shaped red han sh = Inr b" by (auto simp: normalizeReportInput_def)
  have "rmap shape_test vs = Inr (sb_tests sh)"
    using sh(1) by (auto simp: validateRuntimeShape_def r rs_field_def rs_required_def fld_def has_own_def plain_array split: if_splits)
  then have "length (sb_tests sh) = length vs" by (rule rmap_length)
  moreover have "length (rb_tests b) = length (sb_tests sh)"
    using sh(2) by (auto simp: normalize_shaped_def Let_def dest!: rmap_length)
  ultimately show ?thesis by simp
qed

lemma canonical_claims:
  assumes "validateCanonicalV2 red han w = Inr (policy, run, ts)"
  shows "claimed_status w = VStr (verdict_name (overallStatus (summarizeTests (map re_test ts))))"
    and "list_all test_consistent (map re_test ts)" and "list_all (\<lambda>t. list_all file_ok (re_files t)) ts"
    and "ts \<noteq> []"
proof -
  obtain r b files and raws :: "raw_test list" where r: "im_object w = Inr r"
      and nb: "normalizeReportInput red han (obj [(''run'', fld r ''run''),
        (''tests'', arr (map (\<lambda>t. validation_test (rw_fields t) (rw_artifacts t) (rw_result t)) raws))]) = Inr b"
      and fs: "rmap (\<lambda>t. rmap validateReportedArtifact (rw_artifacts t)) raws = Inr files"
      and st: "fld r ''status'' = VStr (verdict_name (overallStatus (summarizeTests (rb_tests b))))"
      and ts: "ts = map (\<lambda>(t, raw, fs). \<lparr>re_test = t, re_platforms = names_platforms (rw_fields raw), re_files = fs\<rparr>)
        (zip (rb_tests b) (zip raws files))"
    using assms unfolding validateCanonicalV2_def Let_def rbind_eq_Inr_iff if_Inl_eq_Inr
    by (elim exE conjE) (rule that, assumption+, simp_all)
  obtain sh where sh: "normalize_shaped red han sh = Inr b" using accepted_shaped [OF nb] by blast
  have "length (rb_tests b) = length raws" using normalized_length [OF nb] by simp
  moreover have "length files = length raws" using fs by (simp add: rmap_Inr_iff list_all2_lengthD)
  ultimately have m: "map re_test ts = rb_tests b" "map re_files ts = files" "length ts = length (rb_tests b)"
    by (auto simp: ts intro!: nth_equalityI)
  show "claimed_status w = VStr (verdict_name (overallStatus (summarizeTests (map re_test ts))))"
    using r st m by (simp add: claimed_status_def)
  show "list_all test_consistent (map re_test ts)" using shaped_consistent [OF sh] m by simp
  show "ts \<noteq> []" using shaped_facts(1) [OF sh] m by auto
  have "list_all (list_all file_ok) files"
    using fs reported_file_ok by (fastforce simp: rmap_Inr_iff list_all2_conv_all_nth list_all_length)
  then show "list_all (\<lambda>t. list_all file_ok (re_files t)) ts" using m(2) by (auto simp: list_all_iff)
qed

lemma import_claims:
  assumes "importReportV2 red han v = Inr r"
  shows "\<exists>w ts. snapshotDataValue 0 v = Inr w \<and> im_tests r = map (importTest red) ts \<and> ts \<noteq> []
      \<and> list_all test_consistent (map re_test ts) \<and> im_status r = overallStatus (summarizeTests (map re_test ts))
      \<and> claimed_status w = VStr (verdict_name (im_status r)) \<and> list_all (\<lambda>t. list_all file_ok (re_files t)) ts"
proof -
  obtain w policy run ts where w: "snapshotDataValue 0 v = Inr w" "validateCanonicalV2 red han w = Inr (policy, run, ts)"
      and r: "im_tests r = map (importTest red) ts"
        "im_status r = overallStatusV3 (summarizeTestsV3 (map (\<lambda>t. it_case (importTest red t)) ts))"
    using assms by (auto simp: importReportV2_def Let_def comp_def)
  show ?thesis using w r canonical_claims [OF w(2)] by (auto simp: imported_verdict)
qed

lemma import_unknown:
  assumes "importReportV2 red han v = Inr r"
  shows "ctx_unknown (r3_hosts (im_run r)) \<and> ctx_unknown (r3_surfaces (im_run r))
      \<and> list_all (\<lambda>t. attempts_unknown (t3_attempts (it_case t))) (im_tests r)"
  using assms by (auto simp: importReportV2_def Let_def import_run_def list_all_iff)

lemma import_passed:
  assumes "importReportV2 red han v = Inr r"
  shows "im_status r = RunPassed \<longleftrightarrow> list_all (\<lambda>t. finalStatus (it_case t) = Some ''passed'') (im_tests r)"
proof -
  obtain ts where t: "im_tests r = map (importTest red) ts" "list_all test_consistent (map re_test ts)"
      "im_status r = overallStatus (summarizeTests (map re_test ts))" using import_claims [OF assms] by blast
  have "list_all (\<lambda>t. cr_status (rt_result t) \<in> set test_statuses) (map re_test ts)"
    using t(2) by (auto simp: list_all_iff test_consistent_def Let_def)
  from overall_passed [OF this] show ?thesis using t by (simp add: list_all_iff)
qed

section \<open>What accepting a report means\<close>

lemma accepted_report:
  assumes "normalizeReportInput red han v = Inr b"
  shows "rb_tests b \<noteq> [] \<and> distinct (map (\<lambda>t. sp_id (rt_spec t)) (rb_tests b))
       \<and> list_all (\<lambda>t. test_consistent t \<and> wf_case han (rt_spec t) \<and> in_window (rb_run b) (rt_result t)) (rb_tests b)
       \<and> (let s = summarizeTests (map (sanitizeTestCase red) (rb_tests b)) in
            su_passed s + su_failed s + su_timedOut s + su_skipped s + su_unsupported s = length (rb_tests b)
            \<and> s = summarizeTests (rb_tests b)
            \<and> (overallStatus s = RunPassed \<longleftrightarrow> list_all (\<lambda>t. cr_status (rt_result t) = ''passed'') (rb_tests b)))"
proof -
  obtain sh where sh: "normalize_shaped red han sh = Inr b" using accepted_shaped [OF assms] by blast
  have st: "list_all (\<lambda>t. cr_status (rt_result t) \<in> set test_statuses) (rb_tests b)"
    using shaped_consistent [OF sh] by (auto simp: list_all_iff test_consistent_def Let_def)
  have "su_passed s + su_failed s + su_timedOut s + su_skipped s + su_unsupported s = length (rb_tests b)"
    if s: "s = summarizeTests (rb_tests b)" for s
    using counts_all [OF st] by (simp add: s summarizeTests_def Let_def)
  then show ?thesis
    unfolding Let_def sanitized_summary using shaped_facts [OF sh] overall_passed [OF st] by blast
qed

lemma accepted_verdict3:
  assumes "validateReportV3 red han b = Inr c"
  shows "report3_ok c
       \<and> (let s = overallStatusV3 (summarizeTestsV3 (map (sanitizeCase3 red) (b3_tests c))) in
            s = overallStatusV3 (summarizeTestsV3 (b3_tests c))
            \<and> (s = RunPassed \<longleftrightarrow> list_all (\<lambda>t. finalStatus t = Some ''passed'') (b3_tests c)))"
proof -
  have ok: "list_all (\<lambda>t. attempts_ok (b3_run c) (t3_spec t) (t3_attempts t)) (b3_tests c)"
    using accepted_report3 [OF assms] by (simp add: report3_ok_def)
  have "list_all (\<lambda>t. \<exists>s \<in> set test_statuses. finalStatus t = Some s) (b3_tests c)"
    using ok final_status_known by (fastforce simp: list_all_iff)
  from overall3_passed [OF this] show ?thesis
    unfolding Let_def verdict_kept [OF ok] using accepted_report3 [OF assms] by blast
qed

text \<open>The tests of the source, and what one of them is read as.\<close>

definition source_tests :: "jsv \<Rightarrow> jsv list" where
  "source_tests w = (case rbind (im_object w) (\<lambda>r. im_list (fld r ''tests'')) of Inl e \<Rightarrow> [] | Inr vs \<Rightarrow> vs)"

definition read_from :: "(string \<Rightarrow> bool) \<Rightarrow> jsv \<Rightarrow> reported_test \<Rightarrow> bool" where
  "read_from han v t = (\<exists>raw sh platform. raw_of v = Inr raw
     \<and> shape_test (validation_test (rw_fields raw) (rw_artifacts raw) (rw_result raw)) = Inr sh
     \<and> define_spec han platform (sh_spec sh) = Inr (rt_spec (re_test t)) \<and> rt_result (re_test t) = sh_result sh
     \<and> re_platforms t = names_platforms (rw_fields raw)
     \<and> rmap validateReportedArtifact (rw_artifacts raw) = Inr (re_files t))"

lemma normalized_tests:
  assumes "normalizeReportInput red han (obj [(''run'', a), (''tests'', arr vs)]) = Inr b"
  shows "list_all2 (\<lambda>v t. \<exists>sh platform. shape_test v = Inr sh \<and> define_spec han platform (sh_spec sh) = Inr (rt_spec t)
     \<and> rt_result t = sh_result sh) vs (rb_tests b)"
proof -
  have r: "rs_record (obj [(''run'', a), (''tests'', arr vs)]) = Inr [(''run'', a), (''tests'', arr vs)]"
    by (simp add: rs_record_def obj_def)
  from assms obtain sh where sh: "validateRuntimeShape (obj [(''run'', a), (''tests'', arr vs)]) = Inr sh"
      "normalize_shaped red han sh = Inr b" by (auto simp: normalizeReportInput_def)
  have "rmap shape_test vs = Inr (sb_tests sh)"
    using sh(1) by (auto simp: validateRuntimeShape_def r rs_field_def rs_required_def fld_def has_own_def plain_array split: if_splits)
  then have s: "list_all2 (\<lambda>v x. shape_test v = Inr x) vs (sb_tests sh)" by (simp add: rmap_Inr_iff)
  have "list_all2 (\<lambda>x t. define_spec han (rr_platform (sb_run sh)) (sh_spec x) = Inr (rt_spec t) \<and> rt_result t = sh_result x)
      (sb_tests sh) (rb_tests b)"
    using sh(2) by (auto simp: normalize_shaped_def Let_def rmap_Inr_iff elim!: list_all2_mono)
  with s show ?thesis by (rule list_all2_trans [rotated]) blast
qed

lemma list_all2_zip3:
  assumes "list_all2 P rs ts" "list_all2 Q rs fs"
  shows "list_all2 (\<lambda>r (t, r', f). r' = r \<and> P r t \<and> Q r f) rs (zip ts (zip rs fs))"
  using assms by (simp add: list_all2_conv_all_nth)

lemma canonical_tests:
  assumes "validateCanonicalV2 red han w = Inr (policy, run, ts)"
  shows "list_all2 (read_from han) (source_tests w) ts"
proof -
  obtain r b files vs and raws :: "raw_test list" where r: "im_object w = Inr r" "im_list (fld r ''tests'') = Inr vs"
      and raws: "rmap raw_of vs = Inr raws"
      and nb: "normalizeReportInput red han (obj [(''run'', fld r ''run''),
        (''tests'', arr (map (\<lambda>t. validation_test (rw_fields t) (rw_artifacts t) (rw_result t)) raws))]) = Inr b"
      and fs: "rmap (\<lambda>t. rmap validateReportedArtifact (rw_artifacts t)) raws = Inr files"
      and ts: "ts = map (\<lambda>(t, raw, fs). \<lparr>re_test = t, re_platforms = names_platforms (rw_fields raw), re_files = fs\<rparr>)
        (zip (rb_tests b) (zip raws files))"
    using assms unfolding validateCanonicalV2_def Let_def rbind_eq_Inr_iff if_Inl_eq_Inr
    by (elim exE conjE) (rule that, assumption+, simp_all)
  have src: "source_tests w = vs" using r by (simp add: source_tests_def)
  have "list_all2 (\<lambda>v x. raw_of v = Inr x) vs raws" using raws by (simp add: rmap_Inr_iff)
  moreover have "list_all2 (\<lambda>raw (t, raw', f). raw' = raw
      \<and> (\<exists>sh platform. shape_test (validation_test (rw_fields raw) (rw_artifacts raw) (rw_result raw)) = Inr sh
        \<and> define_spec han platform (sh_spec sh) = Inr (rt_spec t) \<and> rt_result t = sh_result sh)
      \<and> rmap validateReportedArtifact (rw_artifacts raw) = Inr f) raws (zip (rb_tests b) (zip raws files))"
    by (rule list_all2_zip3) (use normalized_tests [OF nb] fs in \<open>simp_all add: rmap_Inr_iff list_all2_map1\<close>)
  ultimately show ?thesis unfolding src ts list_all2_map2
    by (rule list_all2_trans [rotated]) (auto simp: read_from_def)
qed

lemma import_from_source:
  assumes "importReportV2 red han v = Inr r"
  shows "\<exists>w ts. snapshotDataValue 0 v = Inr w \<and> list_all2 (read_from han) (source_tests w) ts
      \<and> im_tests r = map (importTest red) ts \<and> ts \<noteq> []
      \<and> list_all test_consistent (map re_test ts) \<and> im_status r = overallStatus (summarizeTests (map re_test ts))
      \<and> claimed_status w = VStr (verdict_name (im_status r)) \<and> list_all (\<lambda>t. list_all file_ok (re_files t)) ts"
proof -
  obtain w policy run ts where w: "snapshotDataValue 0 v = Inr w" "validateCanonicalV2 red han w = Inr (policy, run, ts)"
      and r: "im_tests r = map (importTest red) ts"
        "im_status r = overallStatusV3 (summarizeTestsV3 (map (\<lambda>t. it_case (importTest red t)) ts))"
    using assms by (auto simp: importReportV2_def Let_def comp_def)
  show ?thesis using w r canonical_claims [OF w(2)] canonical_tests [OF w(2)] by (auto simp: imported_verdict)
qed

end
