(* ===== verification/CommandConfig.thy ===== *)
theory CommandConfig
  imports TestCatalogProps JsPath
begin

text \<open>
  The configuration of the command executor: \<open>packages/service/src/executors/command/config.ts\<close>, and the
  environment and directory a command gets (\<open>runtime.ts\<close>). Commands are registered by the service: a run
  selects one by its test and adds nothing to it. Paths are POSIX paths; \<open>realpath\<close> answers
  through an input. Data has no identity here, so the objects of a configuration count as distinct (\<open>seen\<close>),
  and an environment is read by its own names.
\<close>

section \<open>Registered commands\<close>

record registered_command =
  rc_testId :: string
  rc_executorId :: string
  rc_executable :: string
  rc_argv :: "string list"
  rc_cwd :: string
  rc_inherit :: "string list"
  rc_timeoutMs :: int
  rc_passed :: "int list"
  rc_failed :: "int list"

record command_config =
  cf_commands :: "(string \<times> registered_command) list"
  cf_environment :: "(string \<times> string option) list"
  cf_maxStdoutBytes :: int
  cf_maxStderrBytes :: int
  cf_terminateGraceMs :: int
  cf_forceKillWaitMs :: int
  cf_stdioCloseWaitMs :: int
  cf_processTreeWaitMs :: int
  cf_functions :: "string list"     \<comment> \<open>which of the optional functions are given\<close>
  cf_contained :: bool              \<comment> \<open>a process-tree controller is given\<close>

definition has_nul :: "string \<Rightarrow> bool" where
  "has_nul s = list_ex (\<lambda>c. code c = 0) s"

definition cm_string :: "jsv \<Rightarrow> catalog_error + string" where
  "cm_string v = (case v of VStr s \<Rightarrow> if s = [] \<or> has_nul s then bad_type else Inr s | _ \<Rightarrow> bad_type)"

definition cm_record :: "jsv \<Rightarrow> catalog_error + fields" where
  "cm_record v = as_safe (readSafeRecordEnvelope v)"

definition cm_array :: "jsv \<Rightarrow> catalog_error + jsv list" where
  "cm_array v = as_safe (readSafeArrayEnvelope sd_maxCollectionEntries v)"

definition env_name_shape :: "string \<Rightarrow> bool" where
  "env_name_shape s = (case s of [] \<Rightarrow> False
     | c # cs \<Rightarrow> (is_alpha c \<or> c = CHR ''_'') \<and> list_all (\<lambda>d. is_alnum d \<or> d = CHR ''_'') cs)"

definition validateEnvironmentName :: "jsv \<Rightarrow> catalog_error + string" where
  "validateEnvironmentName v = (case v of VStr s \<Rightarrow> if env_name_shape s then Inr s else bad_type | _ \<Rightarrow> bad_type)"

definition validateRelativeCwd :: "jsv \<Rightarrow> catalog_error + string" where
  "validateRelativeCwd v = rbind (cm_string v) (\<lambda>s.
     if posix_absolute s then bad_type else
     let n = posix_normalize s in
     if n = ''..'' \<or> take 3 n = ''../'' then bad_type else Inr n)"

definition readStrings :: "(jsv \<Rightarrow> catalog_error + string) \<Rightarrow> jsv \<Rightarrow> catalog_error + string list" where
  "readStrings f v = rbind (cm_array v) (\<lambda>vs. rbind (rmap f vs) (\<lambda>ss. if distinct ss then Inr ss else bad_type))"

definition readArgv :: "jsv \<Rightarrow> catalog_error + string list" where
  "readArgv v = rbind (cm_array v) (rmap (\<lambda>x. case x of
     VStr s \<Rightarrow> if has_nul s then bad_type else Inr s | _ \<Rightarrow> bad_type))"

definition max_int32 :: int where "max_int32 = 2147483647"

text \<open>\<open>value ?? fallback\<close>, then the range.\<close>

definition cm_integer :: "int option \<Rightarrow> jsv \<Rightarrow> catalog_error + int" where
  "cm_integer fallback v =
     (let actual = (if v = VUndefined \<or> v = VNull then (case fallback of None \<Rightarrow> VUndefined | Some n \<Rightarrow> VNum (Fin (of_int n))) else v) in
      case actual of
        VNum (Fin q) \<Rightarrow> if is_safe_integer (Fin q) \<and> 0 \<le> q \<and> q \<le> of_int max_int32 then Inr (floor q) else bad_type
      | _ \<Rightarrow> bad_type)"

definition exit_code :: "jsv \<Rightarrow> catalog_error + int" where
  "exit_code v = (case v of
     VNum (Fin q) \<Rightarrow> if num_integral q \<and> 0 \<le> q \<and> q \<le> 255 then Inr (floor q) else bad_type
   | _ \<Rightarrow> bad_type)"

definition exitCodes :: "jsv \<Rightarrow> catalog_error + int list" where
  "exitCodes v = rbind (cm_array v) (\<lambda>vs. rbind (rmap exit_code vs) (\<lambda>cs. if distinct cs then Inr cs else bad_type))"

definition allowed_in :: "string list \<Rightarrow> string \<Rightarrow> catalog_error + string" where
  "allowed_in allowed s = (if s \<in> set allowed then Inr s else bad_type)"

definition parseTestId :: "jsv \<Rightarrow> catalog_error + string" where
  "parseTestId v = (case v of VStr s \<Rightarrow> if test_id_ok s then Inr s else bad_type | _ \<Rightarrow> bad_type)"

definition snapshotCommand :: "string list \<Rightarrow> string list \<Rightarrow> jsv \<Rightarrow> catalog_error + registered_command" where
  "snapshotCommand cwds envs v =
     rbind (cm_record v) (\<lambda>r.
     rbind (exact_fields [''testId'', ''executorId'', ''executable'', ''argv'', ''cwd'', ''inheritEnvironment'', ''timeoutMs'', ''exitCodes''] [] r) (\<lambda>_.
     rbind (cm_string (fld r ''executable'')) (\<lambda>exe.
     if \<not> posix_absolute exe then bad_type else
     rbind (validateRelativeCwd (fld r ''cwd'')) (\<lambda>cwd0.
     rbind (allowed_in cwds cwd0) (\<lambda>cwd.
     rbind (readStrings (\<lambda>x. rbind (validateEnvironmentName x) (allowed_in envs)) (fld r ''inheritEnvironment'')) (\<lambda>inh.
     rbind (cm_record (fld r ''exitCodes'')) (\<lambda>x.
     rbind (exact_fields [''passed'', ''failed''] [] x) (\<lambda>_.
     rbind (exitCodes (fld x ''passed'')) (\<lambda>passed.
     rbind (exitCodes (fld x ''failed'')) (\<lambda>failed.
     if list_ex (\<lambda>c. c \<in> set failed) passed then bad_type else
     rbind (parseTestId (fld r ''testId'')) (\<lambda>tid.
     rbind (cm_string (fld r ''executorId'')) (\<lambda>eid.
     rbind (readArgv (fld r ''argv'')) (\<lambda>argv.
     rbind (cm_integer None (fld r ''timeoutMs'')) (\<lambda>t.
     Inr \<lparr>rc_testId = tid, rc_executorId = eid, rc_executable = exe, rc_argv = argv, rc_cwd = cwd, rc_inherit = inh,
       rc_timeoutMs = t, rc_passed = passed, rc_failed = failed\<rparr>))))))))))))))"

fun command_loop :: "string list \<Rightarrow> string list \<Rightarrow> jsv list \<Rightarrow> (string \<times> registered_command) list
    \<Rightarrow> catalog_error + (string \<times> registered_command) list" where
  "command_loop cwds envs [] m = Inr m"
| "command_loop cwds envs (v # vs) m = rbind (snapshotCommand cwds envs v) (\<lambda>c.
     if map_of m (rc_testId c) \<noteq> None then bad_type else command_loop cwds envs vs (m @ [(rc_testId c, c)]))"

section \<open>Options\<close>

definition env_value :: "string \<times> jsv \<Rightarrow> catalog_error + string \<times> string option" where
  "env_value kv = (if \<not> env_name_shape (fst kv) then bad_type else
     (case snd kv of VUndefined \<Rightarrow> Inr (fst kv, None) | VStr s \<Rightarrow> Inr (fst kv, Some s) | _ \<Rightarrow> bad_type))"

text \<open>\<open>penv\<close> is \<open>process.env\<close>.\<close>

definition snapshotCommandEnvironment :: "(string \<times> string option) list \<Rightarrow> jsv \<Rightarrow> catalog_error + (string \<times> string option) list" where
  "snapshotCommandEnvironment penv v = (if v = VUndefined then Inr penv else rbind (cm_record v) (rmap env_value))"

definition optionalFunction :: "fields \<Rightarrow> string \<Rightarrow> catalog_error + string list" where
  "optionalFunction r k = (case fld r k of VUndefined \<Rightarrow> Inr [] | VFun f \<Rightarrow> Inr [k] | _ \<Rightarrow> bad_type)"

definition optionalCapability :: "fields \<Rightarrow> string \<Rightarrow> catalog_error + bool" where
  "optionalCapability r k = (case fld r k of
     VUndefined \<Rightarrow> Inr False
   | VObj p ps \<Rightarrow> (case map_of ps (StrKey ''launch'') of Some (DataProp e (VFun f)) \<Rightarrow> Inr True | _ \<Rightarrow> bad_type)
   | _ \<Rightarrow> bad_type)"

definition snapshotCommandConfig :: "(string \<times> string option) list \<Rightarrow> jsv \<Rightarrow> catalog_error + command_config" where
  "snapshotCommandConfig penv v =
     rbind (cm_record v) (\<lambda>r.
     rbind (exact_fields [''commands'', ''allowedCwds'', ''allowedEnvironment'']
       [''environment'', ''maxStdoutBytes'', ''maxStderrBytes'', ''terminateGraceMs'', ''forceKillWaitMs'',
        ''stdioCloseWaitMs'', ''processTreeWaitMs'', ''spawn'', ''processTree'', ''monotonicNow'', ''wallNow''] r) (\<lambda>_.
     rbind (readStrings validateRelativeCwd (fld r ''allowedCwds'')) (\<lambda>cwds.
     rbind (readStrings validateEnvironmentName (fld r ''allowedEnvironment'')) (\<lambda>envs.
     rbind (rbind (cm_array (fld r ''commands'')) (\<lambda>vs. command_loop cwds envs vs [])) (\<lambda>cs.
     rbind (snapshotCommandEnvironment penv (fld r ''environment'')) (\<lambda>env.
     rbind (cm_integer (Some 1048576) (fld r ''maxStdoutBytes'')) (\<lambda>mo.
     rbind (cm_integer (Some 1048576) (fld r ''maxStderrBytes'')) (\<lambda>me.
     rbind (cm_integer (Some 250) (fld r ''terminateGraceMs'')) (\<lambda>tg.
     rbind (cm_integer (Some 1000) (fld r ''forceKillWaitMs'')) (\<lambda>fk.
     rbind (cm_integer (Some 250) (fld r ''stdioCloseWaitMs'')) (\<lambda>sc.
     rbind (cm_integer (Some 1000) (fld r ''processTreeWaitMs'')) (\<lambda>pt.
     rbind (optionalFunction r ''spawn'') (\<lambda>f1.
     rbind (optionalCapability r ''processTree'') (\<lambda>cap.
     rbind (optionalFunction r ''monotonicNow'') (\<lambda>f2.
     rbind (optionalFunction r ''wallNow'') (\<lambda>f3.
     Inr \<lparr>cf_commands = cs, cf_environment = env, cf_maxStdoutBytes = mo, cf_maxStderrBytes = me, cf_terminateGraceMs = tg,
       cf_forceKillWaitMs = fk, cf_stdioCloseWaitMs = sc, cf_processTreeWaitMs = pt, cf_functions = f1 @ f2 @ f3,
       cf_contained = cap\<rparr>))))))))))))))))"

section \<open>What a command gets\<close>

text \<open>\<open>resolveRegisteredCwd\<close> on the two answers of \<open>realpath\<close>.\<close>

definition resolveRegisteredCwd :: "string option \<Rightarrow> string option \<Rightarrow> string option" where
  "resolveRegisteredCwd real_root real_cwd = (case (real_root, real_cwd) of
     (Some r, Some c) \<Rightarrow> if c \<noteq> r \<and> take (length r + 1) c \<noteq> r @ ''/'' then None else Some c
   | _ \<Rightarrow> None)"

fun env_required :: "registered_command \<Rightarrow> (string \<times> string option) list \<Rightarrow> string list \<Rightarrow> bool" where
  "env_required c source [] = True"
| "env_required c source (k # ks) = (if k \<notin> set (rc_inherit c) then False
     else if map_of source k = None \<or> map_of source k = Some None then False else env_required c source ks)"

fun env_inherit :: "(string \<times> string option) list \<Rightarrow> string list \<Rightarrow> (string \<times> string) list" where
  "env_inherit source [] = []"
| "env_inherit source (k # ks) = (case map_of source k of
     Some (Some v) \<Rightarrow> (k, v) # env_inherit source ks | _ \<Rightarrow> env_inherit source ks)"

definition selectEnvironment :: "registered_command \<Rightarrow> string list \<Rightarrow> (string \<times> string option) list \<Rightarrow> (string \<times> string) list option" where
  "selectEnvironment c needed source = (if env_required c source needed then Some (env_inherit source (rc_inherit c)) else None)"

section \<open>Bounds of a configuration\<close>

definition command_ok :: "string list \<Rightarrow> string list \<Rightarrow> registered_command \<Rightarrow> bool" where
  "command_ok cwds envs c = (test_id_ok (rc_testId c) \<and> posix_absolute (rc_executable c) \<and> \<not> has_nul (rc_executable c)
     \<and> rc_cwd c \<in> set cwds \<and> path_depth 0 (slash_parts (rc_cwd c)) \<noteq> None
     \<and> set (rc_inherit c) \<subseteq> set envs \<and> list_all env_name_shape (rc_inherit c) \<and> distinct (rc_inherit c)
     \<and> \<not> list_ex has_nul (rc_argv c) \<and> 0 \<le> rc_timeoutMs c \<and> rc_timeoutMs c \<le> max_int32
     \<and> set (rc_passed c) \<inter> set (rc_failed c) = {} \<and> set (rc_passed c) \<union> set (rc_failed c) \<subseteq> {0..255})"

lemma cm_string_Inr [simp]: "cm_string v = Inr s \<longleftrightarrow> v = VStr s \<and> s \<noteq> [] \<and> \<not> has_nul s"
  by (auto simp: cm_string_def bad_type_def split: jsv.splits if_splits)

lemma allowed_in_Inr [simp]: "allowed_in xs s = Inr t \<longleftrightarrow> t = s \<and> s \<in> set xs"
  by (auto simp: allowed_in_def bad_type_def)

lemma validateEnvironmentName_Inr [simp]: "validateEnvironmentName v = Inr s \<longleftrightarrow> v = VStr s \<and> env_name_shape s"
  by (auto simp: validateEnvironmentName_def bad_type_def split: jsv.splits if_splits)

lemma relative_cwd_inside:
  assumes "validateRelativeCwd v = Inr n"
  shows "path_depth 0 (slash_parts n) \<noteq> None"
proof -
  obtain s where "\<not> posix_absolute s" "n = posix_normalize s" "n \<noteq> ''..''" "take 3 n \<noteq> ''../''"
    using assms by (auto simp: validateRelativeCwd_def bad_type_def Let_def split: if_splits)
  then show ?thesis using normalized_inside by blast
qed

lemma cm_integer_range: "cm_integer d v = Inr n \<Longrightarrow> 0 \<le> n \<and> n \<le> max_int32"
  by (auto simp: cm_integer_def bad_type_def Let_def floor_le_iff split: jsv.splits jsnum.splits if_splits option.splits)

lemma exit_code_range: "exit_code v = Inr n \<Longrightarrow> n \<in> {0..255}"
  by (auto simp: exit_code_def bad_type_def floor_le_iff split: jsv.splits jsnum.splits if_splits)

lemma exitCodes_range: "exitCodes v = Inr cs \<Longrightarrow> set cs \<subseteq> {0..255}"
proof -
  assume "exitCodes v = Inr cs"
  then obtain vs where r: "rmap exit_code vs = Inr cs" by (auto simp: exitCodes_def bad_type_def split: if_splits)
  show ?thesis
  proof
    fix n assume "n \<in> set cs"
    then obtain v where "exit_code v = Inr n" using rmap_set [OF r] by blast
    then show "n \<in> {0..255}" by (rule exit_code_range)
  qed
qed

lemma readStrings_Inr: "readStrings f v = Inr ss \<Longrightarrow> distinct ss \<and> (\<forall>s \<in> set ss. \<exists>x. f x = Inr s)"
  by (auto simp: readStrings_def bad_type_def split: if_splits dest: rmap_set)

lemma argv_item: "(case x of VStr s \<Rightarrow> if has_nul s then bad_type else Inr s | _ \<Rightarrow> bad_type) = Inr t \<Longrightarrow> \<not> has_nul t"
  by (cases x) (auto simp: bad_type_def split: if_split_asm)

lemma readArgv_Inr: "readArgv v = Inr ss \<Longrightarrow> \<not> list_ex has_nul ss"
proof -
  assume "readArgv v = Inr ss"
  then obtain vs where r: "rmap (\<lambda>x. case x of VStr s \<Rightarrow> if has_nul s then bad_type else Inr s | _ \<Rightarrow> bad_type) vs = Inr ss"
    by (auto simp: readArgv_def)
  show ?thesis unfolding list_ex_iff using rmap_set [OF r] argv_item by blast
qed

lemma snapshotCommand_ok:
  assumes "snapshotCommand cwds envs v = Inr c"
  shows "command_ok cwds envs c"
proof -
  obtain r x exe passed failed where p: "cm_string (fld r ''executable'') = Inr exe" "posix_absolute exe"
      "validateRelativeCwd (fld r ''cwd'') = Inr (rc_cwd c)" "rc_cwd c \<in> set cwds"
      "readStrings (\<lambda>x. rbind (validateEnvironmentName x) (allowed_in envs)) (fld r ''inheritEnvironment'') = Inr (rc_inherit c)"
      "exitCodes (fld x ''passed'') = Inr (rc_passed c)" "exitCodes (fld x ''failed'') = Inr (rc_failed c)"
      "\<not> list_ex (\<lambda>n. n \<in> set (rc_failed c)) (rc_passed c)" "parseTestId (fld r ''testId'') = Inr (rc_testId c)"
      "readArgv (fld r ''argv'') = Inr (rc_argv c)" "cm_integer None (fld r ''timeoutMs'') = Inr (rc_timeoutMs c)"
      "rc_executable c = exe"
    using assms unfolding snapshotCommand_def rbind_eq_Inr_iff if_Inl_eq_Inr bad_type_def sum.inject allowed_in_Inr
    by (elim exE conjE, hypsubst) (rule that, assumption, simp, (simp del: cm_string_Inr)+)
  have "test_id_ok (rc_testId c)" using p(9) by (auto simp: parseTestId_def bad_type_def split: jsv.split_asm if_split_asm)
  moreover have "distinct (rc_inherit c)" "\<forall>s \<in> set (rc_inherit c). env_name_shape s \<and> s \<in> set envs"
    using readStrings_Inr [OF p(5)] by auto
  ultimately show ?thesis
    using p(1,2,4,8,12) relative_cwd_inside [OF p(3)] exitCodes_range [OF p(6)] exitCodes_range [OF p(7)] readArgv_Inr [OF p(10)]
      cm_integer_range [OF p(11)]
    unfolding command_ok_def list_all_iff list_ex_iff by auto
qed

lemma command_loop_ok:
  "command_loop cwds envs vs m = Inr cs \<Longrightarrow> distinct (map fst m) \<Longrightarrow> list_all (\<lambda>(k, c). k = rc_testId c \<and> command_ok cwds envs c) m \<Longrightarrow>
    distinct (map fst cs) \<and> list_all (\<lambda>(k, c). k = rc_testId c \<and> command_ok cwds envs c) cs"
proof (induction cwds envs vs m rule: command_loop.induct)
  case (2 cwds envs v vs m)
  obtain c where c: "snapshotCommand cwds envs v = Inr c" "\<not> map_of m (rc_testId c) \<noteq> None"
      "command_loop cwds envs vs (m @ [(rc_testId c, c)]) = Inr cs"
    using 2(2) unfolding command_loop.simps rbind_eq_Inr_iff if_Inl_eq_Inr bad_type_def by blast
  then have "rc_testId c \<notin> fst ` set m" by (simp add: map_of_eq_None_iff)
  then show ?case using 2(1) [OF c(1) c(2) c(3)] 2(3,4) snapshotCommand_ok [OF c(1)] by simp
qed simp

lemma config_bounded:
  assumes "snapshotCommandConfig penv v = Inr cf"
  shows "\<exists>cwds envs. distinct (map fst (cf_commands cf))
    \<and> list_all (\<lambda>(k, c). k = rc_testId c \<and> command_ok cwds envs c) (cf_commands cf)
    \<and> list_all (\<lambda>n. 0 \<le> n \<and> n \<le> max_int32) [cf_maxStdoutBytes cf, cf_maxStderrBytes cf, cf_terminateGraceMs cf,
        cf_forceKillWaitMs cf, cf_stdioCloseWaitMs cf, cf_processTreeWaitMs cf]"
proof -
  obtain r cwds envs vs where p: "command_loop cwds envs vs [] = Inr (cf_commands cf)"
      "cm_integer (Some 1048576) (fld r ''maxStdoutBytes'') = Inr (cf_maxStdoutBytes cf)"
      "cm_integer (Some 1048576) (fld r ''maxStderrBytes'') = Inr (cf_maxStderrBytes cf)"
      "cm_integer (Some 250) (fld r ''terminateGraceMs'') = Inr (cf_terminateGraceMs cf)"
      "cm_integer (Some 1000) (fld r ''forceKillWaitMs'') = Inr (cf_forceKillWaitMs cf)"
      "cm_integer (Some 250) (fld r ''stdioCloseWaitMs'') = Inr (cf_stdioCloseWaitMs cf)"
      "cm_integer (Some 1000) (fld r ''processTreeWaitMs'') = Inr (cf_processTreeWaitMs cf)"
    using assms unfolding snapshotCommandConfig_def rbind_eq_Inr_iff by (elim exE conjE) auto
  show ?thesis using command_loop_ok [OF p(1)] p(2-7) [THEN cm_integer_range] by auto
qed

lemma inherited_environment:
  "selectEnvironment c needed source = Some env \<Longrightarrow>
    set (map fst env) \<subseteq> set (rc_inherit c) \<and> (\<forall>(k, v) \<in> set env. map_of source k = Some (Some v)) \<and> set needed \<subseteq> set (map fst env)"
proof -
  assume s: "selectEnvironment c needed source = Some env"
  then have e: "env = env_inherit source (rc_inherit c)" and n: "env_required c source needed"
    by (auto simp: selectEnvironment_def split: if_splits)
  have "set (map fst (env_inherit source ks)) \<subseteq> set ks" for ks
    by (induction ks) (auto split: option.splits)
  moreover have "\<forall>(k, v) \<in> set (env_inherit source ks). map_of source k = Some (Some v)" for ks
    by (induction ks) (auto split: option.splits)
  moreover have "k \<in> set ks \<Longrightarrow> map_of source k = Some (Some v) \<Longrightarrow> k \<in> set (map fst (env_inherit source ks))" for k v ks
    by (induction ks) (auto split: option.splits)
  moreover have "k \<in> set needed \<Longrightarrow> k \<in> set (rc_inherit c) \<and> (\<exists>v. map_of source k = Some (Some v))" for k
    using n by (induction needed) (auto split: if_splits)
  ultimately show ?thesis unfolding e by blast
qed

lemma command_loop_reads:
  "command_loop cwds envs vs m = Inr cs \<Longrightarrow> \<exists>new. cs = m @ map (\<lambda>c. (rc_testId c, c)) new
     \<and> list_all2 (\<lambda>v c. snapshotCommand cwds envs v = Inr c) vs new"
proof (induction cwds envs vs m rule: command_loop.induct)
  case (2 cwds envs v vs m)
  obtain c where c: "snapshotCommand cwds envs v = Inr c" "\<not> map_of m (rc_testId c) \<noteq> None"
      "command_loop cwds envs vs (m @ [(rc_testId c, c)]) = Inr cs"
    using 2(2) unfolding command_loop.simps rbind_eq_Inr_iff if_Inl_eq_Inr bad_type_def by blast
  obtain new where "cs = (m @ [(rc_testId c, c)]) @ map (\<lambda>c. (rc_testId c, c)) new"
      "list_all2 (\<lambda>v c. snapshotCommand cwds envs v = Inr c) vs new"
    using 2(1) [OF c] by blast
  then show ?case using c(1) by (intro exI [of _ "c # new"]) simp
qed simp

text \<open>What the lists of the configuration say, and one command per item of its \<open>commands\<close>.\<close>

lemma config_listed:
  assumes "snapshotCommandConfig penv v = Inr cf"
  shows "\<exists>r cwds envs vs. cm_record v = Inr r
    \<and> readStrings validateRelativeCwd (fld r ''allowedCwds'') = Inr cwds
    \<and> readStrings validateEnvironmentName (fld r ''allowedEnvironment'') = Inr envs
    \<and> cm_array (fld r ''commands'') = Inr vs
    \<and> list_all2 (\<lambda>v kc. snapshotCommand cwds envs v = Inr (snd kc)) vs (cf_commands cf)
    \<and> distinct (map fst (cf_commands cf))
    \<and> list_all (\<lambda>(k, c). k = rc_testId c \<and> command_ok cwds envs c) (cf_commands cf)
    \<and> snapshotCommandEnvironment penv (fld r ''environment'') = Inr (cf_environment cf)"
proof -
  obtain r cwds envs vs where p: "cm_record v = Inr r"
      "readStrings validateRelativeCwd (fld r ''allowedCwds'') = Inr cwds"
      "readStrings validateEnvironmentName (fld r ''allowedEnvironment'') = Inr envs"
      "cm_array (fld r ''commands'') = Inr vs" "command_loop cwds envs vs [] = Inr (cf_commands cf)"
      "snapshotCommandEnvironment penv (fld r ''environment'') = Inr (cf_environment cf)"
    using assms unfolding snapshotCommandConfig_def rbind_eq_Inr_iff by (elim exE conjE) auto
  obtain new where n: "cf_commands cf = map (\<lambda>c. (rc_testId c, c)) new"
      "list_all2 (\<lambda>v c. snapshotCommand cwds envs v = Inr c) vs new"
    using command_loop_reads [OF p(5)] by auto
  have "list_all2 (\<lambda>v kc. snapshotCommand cwds envs v = Inr (snd kc)) vs (cf_commands cf)"
    unfolding n(1) list_all2_map2 snd_conv by (rule n(2))
  then show ?thesis using p command_loop_ok [OF p(5)] by simp
qed

lemma env_inherit_map: "distinct ks \<Longrightarrow>
  map_of (env_inherit source ks) k = (if k \<in> set ks then Option.bind (map_of source k) id else None)"
  by (induction ks) (auto split: option.splits)

lemma env_inherit_sub: "set (map fst (env_inherit source ks)) \<subseteq> set ks"
  by (induction ks) (auto split: option.splits)

lemma env_inherit_distinct: "distinct ks \<Longrightarrow> distinct (map fst (env_inherit source ks))"
  using env_inherit_sub by (induction ks) (fastforce split: option.splits)+

lemma inherited_exactly:
  assumes "selectEnvironment c needed source = Some env" "distinct (rc_inherit c)"
  shows "distinct (map fst env)
    \<and> (\<forall>k. map_of env k = (if k \<in> set (rc_inherit c) then Option.bind (map_of source k) id else None))"
  using assms by (auto simp: selectEnvironment_def env_inherit_map env_inherit_distinct split: if_splits)

lemma selected_iff: "selectEnvironment c needed source \<noteq> None \<longleftrightarrow>
   (\<forall>k \<in> set needed. k \<in> set (rc_inherit c) \<and> Option.bind (map_of source k) id \<noteq> None)"
proof -
  have "env_required c source ks \<longleftrightarrow> (\<forall>k \<in> set ks. k \<in> set (rc_inherit c) \<and> Option.bind (map_of source k) id \<noteq> None)" for ks
    by (induction ks) (auto simp: bind_eq_None_conv)
  then show ?thesis by (simp add: selectEnvironment_def)
qed

end
