(* ===== verification/CommandRun.thy ===== *)
theory CommandRun
  imports CommandConfig
begin

text \<open>
  One run of a registered command: \<open>process-observer.ts\<close>, \<open>bounded-output.ts\<close>, \<open>lifecycle.ts\<close>,
  \<open>containment.ts\<close>, \<open>results.ts\<close> and \<open>#run\<close> of \<open>command-executor.ts\<close>, under
  \<open>packages/service/src/executors/command\<close>. The run is a step machine: its events are those of the child
  process and its streams, the abort signal, the timers, the reactions of \<open>Promise.race\<close> and the answers of
  the process-tree controller, in any order. Readings of the clock and of the signal come with the event in
  which the code takes them. Texts of messages are dropped, and output stays bytes. A child emits nothing
  before its launch returns, and a launch does not call back into the executor.
\<close>

section \<open>Observing the child\<close>

record bounded_output =
  bo_limit :: nat
  bo_retained :: "nat list"
  bo_seen :: nat
  bo_terminal :: bool
  bo_error :: bool

definition new_output :: "nat \<Rightarrow> bounded_output" where
  "new_output limit = \<lparr>bo_limit = limit, bo_retained = [], bo_seen = 0, bo_terminal = False, bo_error = False\<rparr>"

definition push_output :: "nat list \<Rightarrow> bounded_output \<Rightarrow> bounded_output" where
  "push_output bytes b =
     (let b1 = b\<lparr>bo_seen := bo_seen b + length bytes\<rparr>; remaining = bo_limit b - length (bo_retained b) in
      if remaining = 0 then b1
      else b1\<lparr>bo_retained := bo_retained b @ take (min remaining (length bytes)) bytes\<rparr>)"

definition end_output :: "bool \<Rightarrow> bounded_output \<Rightarrow> bounded_output" where
  "end_output failed b = b\<lparr>bo_terminal := True, bo_error := bo_error b \<or> failed\<rparr>"

definition truncated :: "bounded_output \<Rightarrow> bool" where
  "truncated b = (bo_seen b > length (bo_retained b))"

datatype process_exit = NotSpawned | ProcessExited "int option" "string option" | ExitUnconfirmed

datatype stream_name = Stdout | Stderr

record process_observer =
  po_stdout :: bounded_output
  po_stderr :: bounded_output
  po_spawned :: bool
  po_pid :: "nat option"
  po_exit :: "process_exit option"
  po_closed :: bool
  po_failure :: bool

definition new_observer :: "nat \<Rightarrow> nat \<Rightarrow> process_observer" where
  "new_observer out err = \<lparr>po_stdout = new_output out, po_stderr = new_output err, po_spawned = False, po_pid = None,
     po_exit = None, po_closed = False, po_failure = False\<rparr>"

definition stdio_terminal :: "process_observer \<Rightarrow> bool" where
  "stdio_terminal p = (bo_terminal (po_stdout p) \<and> bo_terminal (po_stderr p))"

text \<open>\<open>#settleExit\<close> and \<open>#settleFailure\<close>: the first one counts.\<close>

definition settle_exit :: "process_exit \<Rightarrow> process_observer \<Rightarrow> process_observer" where
  "settle_exit x p = (if po_exit p \<noteq> None then p else p\<lparr>po_exit := Some x\<rparr>)"

definition settle_failure :: "process_observer \<Rightarrow> process_observer" where
  "settle_failure p = (if po_failure p then p else p\<lparr>po_failure := True\<rparr>)"

definition on_stream :: "stream_name \<Rightarrow> (bounded_output \<Rightarrow> bounded_output) \<Rightarrow> process_observer \<Rightarrow> process_observer" where
  "on_stream which f p = (case which of
     Stdout \<Rightarrow> p\<lparr>po_stdout := f (po_stdout p)\<rparr> | Stderr \<Rightarrow> p\<lparr>po_stderr := f (po_stderr p)\<rparr>)"

definition stream_of :: "stream_name \<Rightarrow> process_observer \<Rightarrow> bounded_output" where
  "stream_of which p = (case which of Stdout \<Rightarrow> po_stdout p | Stderr \<Rightarrow> po_stderr p)"

text \<open>\<open>settle\<close> of \<open>#wireStream\<close>, whose \<open>settled\<close> is that the output is terminal.\<close>

definition settle_stream :: "stream_name \<Rightarrow> bool \<Rightarrow> process_observer \<Rightarrow> process_observer" where
  "settle_stream which failed p =
     (if bo_terminal (stream_of which p) then p
      else (let p1 = on_stream which (end_output failed) p in if failed then settle_failure p1 else p1))"

datatype child_event =
    ChildSpawn "nat option"
  | ChildError
  | ChildExit "int option" "string option"
  | ChildClose
  | StreamData stream_name "nat list"
  | StreamDone stream_name      \<comment> \<open>\<open>end\<close> or \<open>close\<close>\<close>
  | StreamError stream_name

fun observe_child :: "child_event \<Rightarrow> process_observer \<Rightarrow> process_observer" where
  "observe_child (ChildSpawn pid) p = p\<lparr>po_spawned := True, po_pid := (case pid of None \<Rightarrow> po_pid p | Some n \<Rightarrow> Some n)\<rparr>"
| "observe_child ChildError p = (let p1 = settle_failure p in if \<not> po_spawned p then settle_exit NotSpawned p1 else p1)"
| "observe_child (ChildExit c sg) p = settle_exit (ProcessExited c sg) p"
| "observe_child ChildClose p = p\<lparr>po_closed := True\<rparr>"
| "observe_child (StreamData which bytes) p = on_stream which (push_output bytes) p"
| "observe_child (StreamDone which) p = settle_stream which False p"
| "observe_child (StreamError which) p = settle_stream which True p"

datatype identity_status = IdentityNotSpawned | SpawnObserved | SpawnUnconfirmed

definition identity :: "process_observer \<Rightarrow> identity_status" where
  "identity p = (if po_spawned p then SpawnObserved else if po_exit p = Some NotSpawned then IdentityNotSpawned else SpawnUnconfirmed)"

section \<open>Launching under a process-tree controller\<close>

datatype tree_receipt = TreeConfirmed | TreeUnconfirmed | TreeNotRequired

text \<open>
  What the controller's \<open>launch\<close> did: how often it called the spawn function it was given, whether the spawn
  made a child, and what it gave back. Without a controller the spawn function is called once.
\<close>

datatype launch_child = NoDataChild | SameChild | OtherChild
datatype launch_handle = NoDataHandle | BadHandle | GoodHandle
datatype launch_value = LaunchThrew | LaunchNoObject | LaunchPromise | LaunchThenable | LaunchObject launch_child launch_handle

record launch_report =
  lr_calls :: nat
  lr_pid :: "nat option"       \<comment> \<open>\<open>child.pid\<close> when the child is registered\<close>
  lr_spawnWorks :: bool
  lr_swallows :: bool          \<comment> \<open>a throw of the spawn function is caught by the controller\<close>
  lr_value :: launch_value

datatype tree_handle = NoContainment | OwnedTree

text \<open>Whether there is a child, and the handle unless the launch threw.\<close>

definition launchOwnedProcess :: "bool \<Rightarrow> launch_report \<Rightarrow> bool \<times> tree_handle option" where
  "launchOwnedProcess owned l =
     (if \<not> owned then (if lr_spawnWorks l then (True, Some NoContainment) else (False, None))
      else (let spawned = (lr_calls l > 0 \<and> lr_spawnWorks l);
                refused = (lr_calls l > 1 \<or> (lr_calls l > 0 \<and> \<not> lr_spawnWorks l)) in
        if refused \<and> \<not> lr_swallows l then (spawned, None)
        else (case lr_value l of
            LaunchObject c h \<Rightarrow>
              if c = NoDataChild \<or> h = NoDataHandle then (spawned, None)
              else if \<not> spawned then (False, None)
              else if c \<noteq> SameChild then (True, None)
              else if h = BadHandle then (True, None)
              else (True, Some OwnedTree)
          | _ \<Rightarrow> (spawned, None))))"

text \<open>\<open>validateReceipt\<close>; a receipt that is refused, like a cleanup that throws, is unconfirmed.\<close>

definition validateReceipt :: "jsv \<Rightarrow> catalog_error + tree_receipt" where
  "validateReceipt v = rbind (cm_record v) (\<lambda>r.
     if fld r ''status'' = VStr ''confirmed'' then rbind (exact_fields [''status''] [] r) (\<lambda>_. Inr TreeConfirmed)
     else if fld r ''status'' = VStr ''not-required'' then rbind (exact_fields [''status''] [] r) (\<lambda>_. Inr TreeNotRequired)
     else if fld r ''status'' = VStr ''unconfirmed'' then rbind (exact_fields [''status'', ''detail''] [] r) (\<lambda>_.
       (case fld r ''detail'' of VStr d \<Rightarrow> if d = [] then bad_type else Inr TreeUnconfirmed | _ \<Rightarrow> bad_type))
     else bad_type)"

datatype tree_answer = TreeValue jsv | TreeThrew | TreeTimedOut

definition cleanupProcessTree :: "tree_handle \<Rightarrow> tree_answer \<Rightarrow> tree_receipt" where
  "cleanupProcessTree h a = (case h of
     NoContainment \<Rightarrow> TreeUnconfirmed
   | OwnedTree \<Rightarrow> (case a of
       TreeValue v \<Rightarrow> (case validateReceipt v of Inl e \<Rightarrow> TreeUnconfirmed | Inr t \<Rightarrow> t)
     | _ \<Rightarrow> TreeUnconfirmed))"

section \<open>Results\<close>

datatype trigger = Natural | TriggerAbort | TriggerDeadline | Infrastructure

datatype command_code = CommandNotRegistered | CommandCancelled | CommandPolicyRejected | CommandDeadlineExceeded
  | SpawnFailed | CommandStreamFailed | ProcessExitUnconfirmed | CommandSignalled | CommandExitUnclassified
  | CommandCleanupUnconfirmed

datatype execution_status = ExecutionCompleted | ExecutionFailed | ExecutionCancelled

record process_cleanup =
  pc_status :: receipt_status
  pc_tainted :: bool
  pc_tree :: tree_receipt

datatype signal_name = SigTerm | SigKill
datatype signal_outcome = SignalAccepted | SignalRejected | SignalThrew

record command_result =
  cx_status :: execution_status
  cx_outcome :: "business_outcome option"
  cx_code :: "command_code option"
  cx_termination :: trigger
  cx_signals :: "(signal_name \<times> signal_outcome) list"
  cx_exit :: process_exit
  cx_observer :: "process_observer option"
  cx_cleanup :: process_cleanup
  cx_deadlineAt :: int

definition processCleanup :: "process_exit option \<Rightarrow> bool \<Rightarrow> tree_receipt \<Rightarrow> process_cleanup" where
  "processCleanup x terminal tree =
     (if x = Some NotSpawned then \<lparr>pc_status = ReceiptNotRequired, pc_tainted = False, pc_tree = TreeNotRequired\<rparr>
      else if (case x of Some (ProcessExited c sg) \<Rightarrow> True | _ \<Rightarrow> False) \<and> terminal \<and> tree = TreeConfirmed
      then \<lparr>pc_status = ReceiptConfirmed, pc_tainted = False, pc_tree = tree\<rparr>
      else \<lparr>pc_status = ReceiptUnconfirmed, pc_tainted = True, pc_tree = tree\<rparr>)"

datatype classification = ClassPassed | ClassBusinessFailed | ClassError command_code

definition finish_command :: "int \<Rightarrow> trigger \<Rightarrow> process_observer \<Rightarrow> (signal_name \<times> signal_outcome) list \<Rightarrow> tree_receipt
    \<Rightarrow> classification \<Rightarrow> command_result" where
  "finish_command deadlineAt termination p sigs tree cls =
     (let cleanup = processCleanup (po_exit p) (stdio_terminal p) tree;
          result = (\<lambda>st out er. \<lparr>cx_status = st, cx_outcome = out, cx_code = er, cx_termination = termination, cx_signals = sigs,
            cx_exit = (case po_exit p of None \<Rightarrow> ExitUnconfirmed | Some x \<Rightarrow> x), cx_observer = Some p, cx_cleanup = cleanup,
            cx_deadlineAt = deadlineAt\<rparr>) in
      if pc_status cleanup = ReceiptUnconfirmed \<and> (cls = ClassPassed \<or> cls = ClassBusinessFailed)
      then result ExecutionFailed None (Some CommandCleanupUnconfirmed)
      else (case cls of
          ClassPassed \<Rightarrow> result ExecutionCompleted (Some BizPassed) None
        | ClassBusinessFailed \<Rightarrow> result ExecutionCompleted (Some BizFailed) None
        | ClassError e \<Rightarrow> result (if e = CommandCancelled then ExecutionCancelled else ExecutionFailed) None (Some e)))"

definition finishForEvent :: "registered_command \<Rightarrow> int \<Rightarrow> trigger \<Rightarrow> process_observer \<Rightarrow> (signal_name \<times> signal_outcome) list
    \<Rightarrow> tree_receipt \<Rightarrow> command_result" where
  "finishForEvent c deadlineAt tr p sigs tree =
     (if tr = Natural \<and> po_failure p then finish_command deadlineAt Infrastructure p sigs tree (ClassError CommandStreamFailed)
      else if tr = TriggerAbort then finish_command deadlineAt tr p sigs tree (ClassError CommandCancelled)
      else if tr = TriggerDeadline then finish_command deadlineAt tr p sigs tree (ClassError CommandDeadlineExceeded)
      else if tr = Infrastructure then finish_command deadlineAt tr p sigs tree
        (ClassError (if po_exit p = Some NotSpawned then SpawnFailed else CommandStreamFailed))
      else (case po_exit p of
          Some (ProcessExited cd sg) \<Rightarrow>
            (case (sg, cd) of
               (None, Some n) \<Rightarrow>
                 if n \<in> set (rc_passed c) then finish_command deadlineAt tr p sigs tree ClassPassed
                 else if n \<in> set (rc_failed c) then finish_command deadlineAt tr p sigs tree ClassBusinessFailed
                 else finish_command deadlineAt Infrastructure p sigs tree (ClassError CommandExitUnclassified)
             | _ \<Rightarrow> finish_command deadlineAt Infrastructure p sigs tree (ClassError CommandSignalled))
        | _ \<Rightarrow> finish_command deadlineAt Infrastructure p sigs tree (ClassError ProcessExitUnconfirmed)))"

definition finishLaunchFailure :: "int \<Rightarrow> process_observer \<Rightarrow> (signal_name \<times> signal_outcome) list \<Rightarrow> command_result" where
  "finishLaunchFailure deadlineAt p sigs = finish_command deadlineAt Infrastructure p sigs TreeUnconfirmed (ClassError SpawnFailed)"

definition noProcessResult :: "int \<Rightarrow> trigger \<Rightarrow> command_code \<Rightarrow> command_result" where
  "noProcessResult deadlineAt termination e =
     \<lparr>cx_status = (if e = CommandCancelled then ExecutionCancelled else ExecutionFailed), cx_outcome = None, cx_code = Some e,
      cx_termination = termination, cx_signals = [], cx_exit = NotSpawned, cx_observer = None,
      cx_cleanup = \<lparr>pc_status = ReceiptNotRequired, pc_tainted = False, pc_tree = TreeNotRequired\<rparr>, cx_deadlineAt = deadlineAt\<rparr>"

section \<open>The run\<close>

text \<open>How the run ends: after its first event, or because the launch failed with a child.\<close>

datatype end_mode = EndRun trigger tree_handle | EndLaunch

datatype command_phase =
    AwaitCwd
  | AwaitFirstEvent tree_handle
  | AwaitGrace end_mode
  | AwaitForce end_mode
  | AwaitTree trigger tree_handle
  | AwaitStdio end_mode tree_receipt
  | CommandDone

record command_run =
  cm_command :: registered_command
  cm_needed :: "string list"                 \<comment> \<open>the environment names the test requires\<close>
  cm_deadlineAt :: int
  cm_aborted :: bool
  cm_observer :: process_observer
  cm_phase :: command_phase
  cm_first :: "trigger option"               \<comment> \<open>the settled race of \<open>waitForFirstEvent\<close>\<close>
  cm_signals :: "(signal_name \<times> signal_outcome) list"

datatype command_event =
    CwdAnswered "string option" "string option" int launch_report signal_outcome int
  | ChildDoes child_event
  | AbortFired
  | ExitReaction int
  | FailureReaction
  | DeadlineCheck int
  | FirstResumes signal_outcome
  | GraceEnds signal_outcome
  | ForceEnds
  | TreeAnswered tree_answer
  | StdioEnds

datatype command_output =
    ProcessSpawned string "string list" string "(string \<times> string) list"
  | SignalSent signal_name
  | CommandResult command_result
  | ChildReleased

definition command_finish :: "command_result \<Rightarrow> command_run \<Rightarrow> command_run \<times> command_output list" where
  "command_finish r s = (s\<lparr>cm_phase := CommandDone\<rparr>, [CommandResult r])"

text \<open>The result of a run whose child exists; when its cleanup is unconfirmed the child is let go.\<close>

definition settle_command :: "end_mode \<Rightarrow> tree_receipt \<Rightarrow> command_run \<Rightarrow> command_run \<times> command_output list" where
  "settle_command m tree s =
     (let r = (case m of
          EndRun tr h \<Rightarrow> finishForEvent (cm_command s) (cm_deadlineAt s) tr (cm_observer s) (cm_signals s) tree
        | EndLaunch \<Rightarrow> finishLaunchFailure (cm_deadlineAt s) (cm_observer s) (cm_signals s)) in
      (s\<lparr>cm_phase := CommandDone\<rparr>,
       (if pc_status (cx_cleanup r) = ReceiptUnconfirmed then [ChildReleased] else []) @ [CommandResult r]))"

definition drain_stdio :: "end_mode \<Rightarrow> tree_receipt \<Rightarrow> command_run \<Rightarrow> command_run \<times> command_output list" where
  "drain_stdio m tree s =
     (if stdio_terminal (cm_observer s) then settle_command m tree s else (s\<lparr>cm_phase := AwaitStdio m tree\<rparr>, []))"

text \<open>After the termination the exit is settled, observed or not.\<close>

definition after_termination :: "end_mode \<Rightarrow> command_run \<Rightarrow> command_run \<times> command_output list" where
  "after_termination m s =
     (let s1 = s\<lparr>cm_observer := settle_exit ExitUnconfirmed (cm_observer s)\<rparr> in
      case m of
        EndRun tr h \<Rightarrow> (s1\<lparr>cm_phase := AwaitTree tr h\<rparr>, [])
      | EndLaunch \<Rightarrow> drain_stdio EndLaunch TreeUnconfirmed s1)"

definition has_exited :: "command_run \<Rightarrow> bool" where
  "has_exited s = (po_exit (cm_observer s) \<noteq> None)"

definition attemptSignal :: "signal_name \<Rightarrow> signal_outcome \<Rightarrow> command_run \<Rightarrow> command_run" where
  "attemptSignal sg out s = s\<lparr>cm_signals := cm_signals s @ [(sg, out)]\<rparr>"

definition terminateOwnedProcess :: "end_mode \<Rightarrow> signal_outcome \<Rightarrow> command_run \<Rightarrow> command_run \<times> command_output list" where
  "terminateOwnedProcess m out s =
     (if has_exited s then after_termination m s
      else ((attemptSignal SigTerm out s)\<lparr>cm_phase := AwaitGrace m\<rparr>, [SignalSent SigTerm]))"

definition grace_over :: "end_mode \<Rightarrow> signal_outcome \<Rightarrow> command_run \<Rightarrow> command_run \<times> command_output list" where
  "grace_over m out s =
     (if has_exited s then after_termination m s
      else ((attemptSignal SigKill out s)\<lparr>cm_phase := AwaitForce m\<rparr>, [SignalSent SigKill]))"

text \<open>The race settles once. A signal that has fired and a deadline that has passed are seen at its start.\<close>

definition settle_first :: "trigger \<Rightarrow> command_run \<Rightarrow> command_run" where
  "settle_first tr s = (if cm_first s = None then s\<lparr>cm_first := Some tr\<rparr> else s)"

definition waitForFirstEvent :: "tree_handle \<Rightarrow> int \<Rightarrow> command_run \<Rightarrow> command_run" where
  "waitForFirstEvent h now s =
     (let s1 = s\<lparr>cm_phase := AwaitFirstEvent h, cm_first := None\<rparr> in
      if cm_aborted s1 then settle_first TriggerAbort s1
      else if now \<ge> cm_deadlineAt s1 then settle_first TriggerDeadline s1 else s1)"

text \<open>\<open>#run\<close>: the registered command, then the working directory and the environment, then the launch.\<close>

datatype command_start = StartedCommand command_run | NoProcess command_result

definition start_command :: "command_config \<Rightarrow> string \<Rightarrow> string \<Rightarrow> string \<Rightarrow> string list \<Rightarrow> int \<Rightarrow> bool \<Rightarrow> command_start" where
  "start_command cf executor testId runtimeExecutor needed now aborted =
     (case map_of (cf_commands cf) testId of
        None \<Rightarrow> NoProcess (noProcessResult now Infrastructure CommandNotRegistered)
      | Some c \<Rightarrow>
          if rc_executorId c \<noteq> runtimeExecutor \<or> rc_executorId c \<noteq> executor
          then NoProcess (noProcessResult now Infrastructure CommandNotRegistered)
          else if aborted then NoProcess (noProcessResult (now + rc_timeoutMs c) TriggerAbort CommandCancelled)
          else StartedCommand \<lparr>cm_command = c, cm_needed = needed, cm_deadlineAt = now + rc_timeoutMs c, cm_aborted = False,
            cm_observer = new_observer (nat (cf_maxStdoutBytes cf)) (nat (cf_maxStderrBytes cf)), cm_phase = AwaitCwd,
            cm_first = None, cm_signals = []\<rparr>)"

definition attach_child :: "nat option \<Rightarrow> command_run \<Rightarrow> command_run" where
  "attach_child pid s = s\<lparr>cm_observer := (cm_observer s)\<lparr>po_pid := pid\<rparr>\<rparr>"

definition launch_command :: "command_config \<Rightarrow> string \<Rightarrow> (string \<times> string) list \<Rightarrow> launch_report \<Rightarrow> signal_outcome \<Rightarrow> int
    \<Rightarrow> command_run \<Rightarrow> command_run \<times> command_output list" where
  "launch_command cf cwd env l out now s =
     (let spawned = [ProcessSpawned (rc_executable (cm_command s)) (rc_argv (cm_command s)) cwd env] in
      case launchOwnedProcess (cf_contained cf) l of
        (True, Some h) \<Rightarrow> (waitForFirstEvent h now (attach_child (lr_pid l) s), spawned)
      | (True, None) \<Rightarrow> (case terminateOwnedProcess EndLaunch out (attach_child (lr_pid l) s) of (s1, os) \<Rightarrow> (s1, spawned @ os))
      | (False, _) \<Rightarrow> command_finish (noProcessResult (cm_deadlineAt s) Infrastructure SpawnFailed) s)"

definition cwd_answered :: "command_config \<Rightarrow> string option \<Rightarrow> string option \<Rightarrow> int \<Rightarrow> launch_report \<Rightarrow> signal_outcome \<Rightarrow> int
    \<Rightarrow> command_run \<Rightarrow> command_run \<times> command_output list" where
  "cwd_answered cf real_root real_cwd now l out now2 s =
     (case (resolveRegisteredCwd real_root real_cwd, selectEnvironment (cm_command s) (cm_needed s) (cf_environment cf)) of
        (Some cwd, Some env) \<Rightarrow>
          if cm_aborted s then command_finish (noProcessResult (cm_deadlineAt s) TriggerAbort CommandCancelled) s
          else if now \<ge> cm_deadlineAt s then command_finish (noProcessResult (cm_deadlineAt s) TriggerDeadline CommandDeadlineExceeded) s
          else launch_command cf cwd env l out now2 s
      | _ \<Rightarrow> command_finish (noProcessResult (cm_deadlineAt s) Infrastructure CommandPolicyRejected) s)"

definition spawned_phase :: "command_phase \<Rightarrow> bool" where
  "spawned_phase p = (p \<noteq> AwaitCwd)"

definition racing :: "command_run \<Rightarrow> bool" where
  "racing s = (case cm_phase s of AwaitFirstEvent h \<Rightarrow> cm_first s = None | _ \<Rightarrow> False)"

fun command_step :: "command_config \<Rightarrow> command_run \<Rightarrow> command_event \<Rightarrow> command_run \<times> command_output list" where
  "command_step cf s (CwdAnswered r c now l out now2) =
     (if cm_phase s = AwaitCwd then cwd_answered cf r c now l out now2 s else (s, []))"
| "command_step cf s (ChildDoes e) =
     (if spawned_phase (cm_phase s) then (s\<lparr>cm_observer := observe_child e (cm_observer s)\<rparr>, []) else (s, []))"
| "command_step cf s AbortFired =
     (let s1 = s\<lparr>cm_aborted := True\<rparr> in (if racing s then settle_first TriggerAbort s1 else s1, []))"
| "command_step cf s (ExitReaction now) =
     (if racing s \<and> has_exited s then
        (settle_first (if cm_aborted s then TriggerAbort else if now \<ge> cm_deadlineAt s then TriggerDeadline else Natural) s, [])
      else (s, []))"
| "command_step cf s FailureReaction =
     (if racing s \<and> po_failure (cm_observer s) then (settle_first Infrastructure s, []) else (s, []))"
| "command_step cf s (DeadlineCheck now) =
     (if racing s \<and> now \<ge> cm_deadlineAt s then (settle_first TriggerDeadline s, []) else (s, []))"
| "command_step cf s (FirstResumes out) =
     (case (cm_phase s, cm_first s) of
        (AwaitFirstEvent h, Some tr) \<Rightarrow>
          if tr = Natural then after_termination (EndRun Natural h) s else terminateOwnedProcess (EndRun tr h) out s
      | _ \<Rightarrow> (s, []))"
| "command_step cf s (GraceEnds out) = (case cm_phase s of AwaitGrace m \<Rightarrow> grace_over m out s | _ \<Rightarrow> (s, []))"
| "command_step cf s ForceEnds = (case cm_phase s of AwaitForce m \<Rightarrow> after_termination m s | _ \<Rightarrow> (s, []))"
| "command_step cf s (TreeAnswered a) =
     (case cm_phase s of AwaitTree tr h \<Rightarrow> drain_stdio (EndRun tr h) (cleanupProcessTree h a) s | _ \<Rightarrow> (s, []))"
| "command_step cf s StdioEnds = (case cm_phase s of AwaitStdio m tree \<Rightarrow> settle_command m tree s | _ \<Rightarrow> (s, []))"

end
