(* ===== verification/CommandProps.thy ===== *)
theory CommandProps
  imports CommandRun "HOL-Library.Sublist"
begin

text \<open>
  What a run of a command guarantees: one result, which is a verdict only when everything it rests on was
  observed; no verdict once the run was aborted; and an end after a bounded number of waits.
\<close>

section \<open>Verdicts\<close>

definition observed_verdict :: "registered_command \<Rightarrow> command_result \<Rightarrow> bool" where
  "observed_verdict c r = (case (cx_exit r, cx_observer r) of
     (ProcessExited (Some n) None, Some p) \<Rightarrow>
       ((cx_outcome r = Some BizPassed \<and> n \<in> set (rc_passed c)) \<or> (cx_outcome r = Some BizFailed \<and> n \<in> set (rc_failed c) - set (rc_passed c)))
       \<and> stdio_terminal p \<and> \<not> po_failure p \<and> po_exit p = Some (cx_exit r)
       \<and> cx_termination r = Natural \<and> cx_signals r = []
       \<and> pc_status (cx_cleanup r) = ReceiptConfirmed \<and> pc_tree (cx_cleanup r) = TreeConfirmed
   | _ \<Rightarrow> False)"

definition honest_result :: "registered_command \<Rightarrow> command_result \<Rightarrow> bool" where
  "honest_result c r =
     ((if cx_status r = ExecutionCompleted then cx_code r = None \<and> observed_verdict c r
       else cx_outcome r = None \<and> cx_code r \<noteq> None)
      \<and> (pc_tainted (cx_cleanup r) \<longleftrightarrow> pc_status (cx_cleanup r) = ReceiptUnconfirmed))"

lemma error_result_honest: "honest_result c (finish_command d tr p sigs tree (ClassError e))"
  by (auto simp: finish_command_def honest_result_def processCleanup_def Let_def)

lemma no_process_honest: "honest_result c (noProcessResult d tr e)"
  by (simp add: noProcessResult_def honest_result_def)

lemma launch_failure_honest: "honest_result c (finishLaunchFailure d p sigs)"
  unfolding finishLaunchFailure_def by (rule error_result_honest)

lemma verdict_honest:
  assumes "po_exit p = Some (ProcessExited (Some n) None)" "\<not> po_failure p"
  shows "n \<in> set (rc_passed c) \<Longrightarrow> honest_result c (finish_command d Natural p [] tree ClassPassed)"
    and "n \<in> set (rc_failed c) - set (rc_passed c) \<Longrightarrow> honest_result c (finish_command d Natural p [] tree ClassBusinessFailed)"
  using assms
  by (cases "stdio_terminal p \<and> tree = TreeConfirmed";
      simp add: finish_command_def honest_result_def observed_verdict_def processCleanup_def Let_def; fastforce)+

lemma event_result_honest:
  assumes "tr = Natural \<longrightarrow> sigs = []"
  shows "honest_result c (finishForEvent c d tr p sigs tree)"
proof (cases "tr = Natural \<and> \<not> po_failure p \<and> (\<exists>n. po_exit p = Some (ProcessExited (Some n) None) \<and> n \<in> set (rc_passed c) \<union> set (rc_failed c))")
  case True
  then obtain n where n: "po_exit p = Some (ProcessExited (Some n) None)" "\<not> po_failure p" "n \<in> set (rc_passed c) \<union> set (rc_failed c)"
      "tr = Natural" "sigs = []" using assms by blast
  then show ?thesis using verdict_honest [OF n(1,2)] by (simp add: finishForEvent_def error_result_honest)
next
  case False
  then show ?thesis
    by (cases tr; cases "po_exit p") (auto simp: finishForEvent_def error_result_honest split: process_exit.split option.split)
qed

section \<open>The invariant\<close>

fun natural_end :: "end_mode \<Rightarrow> bool" where
  "natural_end (EndRun tr h) = (tr = Natural)"
| "natural_end EndLaunch = False"

definition command_inv :: "command_run \<Rightarrow> bool" where
  "command_inv s = (case cm_phase s of
     AwaitCwd \<Rightarrow> cm_signals s = []
   | AwaitFirstEvent h \<Rightarrow> cm_signals s = []
   | AwaitGrace m \<Rightarrow> \<not> natural_end m
   | AwaitForce m \<Rightarrow> \<not> natural_end m
   | AwaitTree tr h \<Rightarrow> tr = Natural \<longrightarrow> cm_signals s = []
   | AwaitStdio m tree \<Rightarrow> natural_end m \<longrightarrow> cm_signals s = []
   | CommandDone \<Rightarrow> True)"

fun result_out :: "command_output \<Rightarrow> command_result list" where
  "result_out (CommandResult r) = [r]"
| "result_out o1 = []"

definition results_of :: "command_output list \<Rightarrow> command_result list" where
  "results_of os = concat (map result_out os)"

lemma results_of_simps [simp]:
  "results_of [] = []" "results_of (CommandResult r # os) = r # results_of os"
  "results_of (ChildReleased # os) = results_of os" "results_of (SignalSent g # os) = results_of os"
  "results_of (ProcessSpawned a b c d # os) = results_of os" "results_of (xs @ ys) = results_of xs @ results_of ys"
  by (simp_all add: results_of_def)

text \<open>What one step promises: the command stays, results are honest, and a result ends the run.\<close>

definition good_step :: "command_run \<Rightarrow> command_run \<times> command_output list \<Rightarrow> bool" where
  "good_step s x = (command_inv (fst x) \<and> cm_command (fst x) = cm_command s
     \<and> list_all (honest_result (cm_command s)) (results_of (snd x)) \<and> length (results_of (snd x)) \<le> 1
     \<and> (results_of (snd x) \<noteq> [] \<longrightarrow> cm_phase (fst x) = CommandDone))"

lemma good_finish: "honest_result (cm_command s) r \<Longrightarrow> good_step s (command_finish r s)"
  by (simp add: good_step_def command_finish_def command_inv_def)

lemma good_settle: "(natural_end m \<longrightarrow> cm_signals s = []) \<Longrightarrow> good_step s (settle_command m tree s)"
  by (cases m) (auto simp: good_step_def settle_command_def command_inv_def Let_def launch_failure_honest event_result_honest)

lemma good_drain: "(natural_end m \<longrightarrow> cm_signals s = []) \<Longrightarrow> good_step s (drain_stdio m tree s)"
  by (cases "stdio_terminal (cm_observer s)") (simp add: drain_stdio_def good_settle, simp add: drain_stdio_def good_step_def command_inv_def)

lemma cm_good_same: "cm_command s1 = cm_command s \<Longrightarrow> good_step s1 x \<Longrightarrow> good_step s x"
  by (simp add: good_step_def)

lemma good_after: "(natural_end m \<longrightarrow> cm_signals s = []) \<Longrightarrow> good_step s (after_termination m s)"
  by (cases m) (auto simp: after_termination_def Let_def good_step_def [where x = "(_, [])"] command_inv_def intro!: cm_good_same [OF _ good_drain])

lemma good_terminate: "\<not> natural_end m \<Longrightarrow> good_step s (terminateOwnedProcess m out s)"
  by (cases "has_exited s") (simp add: terminateOwnedProcess_def good_after, simp add: terminateOwnedProcess_def good_step_def attemptSignal_def command_inv_def)

lemma good_grace: "\<not> natural_end m \<Longrightarrow> good_step s (grace_over m out s)"
  by (cases "has_exited s") (simp add: grace_over_def good_after, simp add: grace_over_def good_step_def attemptSignal_def command_inv_def)

lemma good_quiet: "command_inv s1 \<Longrightarrow> cm_command s1 = cm_command s \<Longrightarrow> good_step s (s1, [])"
  by (simp add: good_step_def)

lemma good_spawned: "good_step s (s1, os) \<Longrightarrow> good_step s (s1, ProcessSpawned a b c d # os)"
  by (simp add: good_step_def)

lemma settle_first_fields [simp]:
  "cm_phase (settle_first tr s) = cm_phase s" "cm_signals (settle_first tr s) = cm_signals s"
  "cm_command (settle_first tr s) = cm_command s" "cm_aborted (settle_first tr s) = cm_aborted s"
  "cm_deadlineAt (settle_first tr s) = cm_deadlineAt s" "cm_observer (settle_first tr s) = cm_observer s"
  by (simp_all add: settle_first_def)

lemma attach_child_fields [simp]:
  "cm_phase (attach_child p s) = cm_phase s" "cm_signals (attach_child p s) = cm_signals s"
  "cm_command (attach_child p s) = cm_command s" "cm_aborted (attach_child p s) = cm_aborted s"
  "cm_deadlineAt (attach_child p s) = cm_deadlineAt s"
  by (simp_all add: attach_child_def)

lemma good_attach [simp]: "good_step (attach_child p s) = good_step s"
  by (simp add: fun_eq_iff good_step_def)

lemma good_cwd:
  assumes "cm_signals s = []"
  shows "good_step s (cwd_answered cf r c now l out now2 s)"
proof -
  have launch: "good_step s (launch_command cf cwd env l out now2 s)" for cwd env
    using assms good_terminate [of EndLaunch "attach_child (lr_pid l) s" out]
    by (auto simp: launch_command_def Let_def good_finish no_process_honest good_spawned good_quiet waitForFirstEvent_def command_inv_def
        split: prod.split bool.split option.split)
  show ?thesis
    by (auto simp: cwd_answered_def launch good_finish no_process_honest split: option.split)
qed

lemma command_good: "command_inv s \<Longrightarrow> good_step s (command_step cf s e)"
proof (cases e)
  case (FirstResumes out)
  assume i: "command_inv s"
  show ?thesis
  proof (cases "\<exists>h tr. cm_phase s = AwaitFirstEvent h \<and> cm_first s = Some tr")
    case True
    then obtain h tr where p: "cm_phase s = AwaitFirstEvent h" "cm_first s = Some tr" by blast
    then have "cm_signals s = []" using i by (simp add: command_inv_def)
    then show ?thesis using p FirstResumes by (simp add: good_after good_terminate)
  next
    case False
    then show ?thesis using i FirstResumes by (auto simp: good_quiet split: command_phase.split option.split)
  qed
qed (auto simp: good_cwd good_grace good_after good_drain good_settle good_quiet command_inv_def Let_def racing_def
    split: command_phase.split command_phase.split_asm)

lemma command_done: "cm_phase s = CommandDone \<Longrightarrow> cm_phase (fst (command_step cf s e)) = CommandDone \<and> results_of (snd (command_step cf s e)) = []"
  by (cases e) (auto simp: racing_def Let_def)

lemma result_units: "concat (map (\<lambda>o1. map (\<lambda>r. ()) (result_out o1)) os) = map (\<lambda>r. ()) (results_of os)"
  by (simp add: results_of_def map_concat comp_def)

interpretation command_once: once_only "command_step cf" command_inv "\<lambda>s (u :: unit). cm_phase s \<noteq> CommandDone" "\<lambda>o1. map (\<lambda>r. ()) (result_out o1)"
  for cf
proof unfold_locales
  fix s e
  show "command_inv s \<Longrightarrow> command_inv (fst (command_step cf s e))" using command_good by (auto simp: good_step_def)
  assume i: "command_inv s"
  note g = command_good [OF i, of cf e, unfolded good_step_def]
  show "distinct (concat (map (\<lambda>o1. map (\<lambda>r. ()) (result_out o1)) (snd (command_step cf s e))))"
    unfolding result_units using g by (cases "results_of (snd (command_step cf s e))") auto
  show "cm_phase s \<noteq> CommandDone \<and> \<not> cm_phase (fst (command_step cf s e)) \<noteq> CommandDone"
    if "i \<in> set (concat (map (\<lambda>o1. map (\<lambda>r. ()) (result_out o1)) (snd (command_step cf s e))))" for i
  proof -
    have "results_of (snd (command_step cf s e)) \<noteq> []" using that unfolding result_units by auto
    then show ?thesis using g command_done [of s cf e] by blast
  qed
  show "\<not> cm_phase s \<noteq> CommandDone \<Longrightarrow> \<not> cm_phase (fst (command_step cf s e)) \<noteq> CommandDone" using command_done by blast
qed

lemma run_results:
  "command_inv s \<Longrightarrow> length (results_of (snd (run_steps (command_step cf) s es))) \<le> 1
     \<and> list_all (honest_result (cm_command s)) (results_of (snd (run_steps (command_step cf) s es)))"
proof -
  assume i: "command_inv s"
  have "distinct (map (\<lambda>r. ()) (results_of (snd (run_steps (command_step cf) s es))))"
    using command_once.run_once [OF i, of cf es] unfolding result_units by blast
  then have "length (results_of (snd (run_steps (command_step cf) s es))) \<le> 1"
    by (cases "results_of (snd (run_steps (command_step cf) s es))"; cases "tl (results_of (snd (run_steps (command_step cf) s es)))") auto
  moreover have "list_all (honest_result (cm_command s)) (results_of (snd (run_steps (command_step cf) s es)))"
    using i
  proof (induction es arbitrary: s)
    case (Cons e es)
    have g: "command_inv (fst (command_step cf s e))" "cm_command (fst (command_step cf s e)) = cm_command s"
        "list_all (honest_result (cm_command s)) (results_of (snd (command_step cf s e)))"
      using command_good [OF Cons.prems, of cf e] by (simp_all add: good_step_def)
    then show ?case using Cons.IH [OF g(1)] by (simp add: Let_def split_beta)
  qed simp
  ultimately show ?thesis by blast
qed

section \<open>Aborted runs\<close>

text \<open>A run whose signal fired while nothing had settled, or that was decided otherwise, is not natural any more.\<close>

definition not_natural :: "command_run \<Rightarrow> bool" where
  "not_natural s = (cm_aborted s \<and> (case cm_phase s of
     AwaitCwd \<Rightarrow> True
   | AwaitFirstEvent h \<Rightarrow> cm_first s \<noteq> None \<and> cm_first s \<noteq> Some Natural
   | AwaitGrace m \<Rightarrow> \<not> natural_end m
   | AwaitForce m \<Rightarrow> \<not> natural_end m
   | AwaitTree tr h \<Rightarrow> tr \<noteq> Natural
   | AwaitStdio m tree \<Rightarrow> \<not> natural_end m
   | CommandDone \<Rightarrow> True))"

definition no_verdict :: "command_run \<times> command_output list \<Rightarrow> bool" where
  "no_verdict x = (not_natural (fst x) \<and> list_all (\<lambda>r. cx_status r \<noteq> ExecutionCompleted) (results_of (snd x)))"

lemma error_not_completed: "cx_status (finish_command d tr p sigs tree (ClassError e)) \<noteq> ExecutionCompleted"
  by (auto simp: finish_command_def Let_def)

lemma unnatural_not_completed: "tr \<noteq> Natural \<Longrightarrow> cx_status (finishForEvent c d tr p sigs tree) \<noteq> ExecutionCompleted"
  by (cases tr) (simp_all add: finishForEvent_def error_not_completed)

lemma no_verdict_finish: "cm_aborted s \<Longrightarrow> cx_status r \<noteq> ExecutionCompleted \<Longrightarrow> no_verdict (command_finish r s)"
  by (simp add: no_verdict_def command_finish_def not_natural_def)

lemma no_process_not_completed: "cx_status (noProcessResult d tr e) \<noteq> ExecutionCompleted"
  by (simp add: noProcessResult_def)

lemma no_verdict_settle: "cm_aborted s \<Longrightarrow> \<not> natural_end m \<Longrightarrow> no_verdict (settle_command m tree s)"
  by (cases m) (simp_all add: no_verdict_def settle_command_def not_natural_def Let_def unnatural_not_completed finishLaunchFailure_def
      error_not_completed)

lemma no_verdict_drain: "cm_aborted s \<Longrightarrow> \<not> natural_end m \<Longrightarrow> no_verdict (drain_stdio m tree s)"
  by (cases "stdio_terminal (cm_observer s)") (simp add: drain_stdio_def no_verdict_settle, simp add: drain_stdio_def no_verdict_def not_natural_def)

lemma no_verdict_after: "cm_aborted s \<Longrightarrow> \<not> natural_end m \<Longrightarrow> no_verdict (after_termination m s)"
  by (cases m) (simp_all add: after_termination_def Let_def no_verdict_drain, simp add: no_verdict_def not_natural_def)

lemma no_verdict_terminate: "cm_aborted s \<Longrightarrow> \<not> natural_end m \<Longrightarrow> no_verdict (terminateOwnedProcess m out s)"
  by (cases "has_exited s") (simp add: terminateOwnedProcess_def no_verdict_after, simp add: terminateOwnedProcess_def no_verdict_def not_natural_def attemptSignal_def)

lemma no_verdict_grace: "cm_aborted s \<Longrightarrow> \<not> natural_end m \<Longrightarrow> no_verdict (grace_over m out s)"
  by (cases "has_exited s") (simp add: grace_over_def no_verdict_after, simp add: grace_over_def no_verdict_def not_natural_def attemptSignal_def)

lemma no_verdict_cwd: "cm_aborted s \<Longrightarrow> no_verdict (cwd_answered cf r c now l out now2 s)"
  by (auto simp: cwd_answered_def no_verdict_finish no_process_not_completed split: option.split)

lemma aborted_step:
  assumes "not_natural s"
  shows "no_verdict (command_step cf s e)"
proof -
  have a: "cm_aborted s" using assms by (simp add: not_natural_def)
  have quiet: "not_natural s1 \<Longrightarrow> no_verdict (s1, [])" for s1 by (simp add: no_verdict_def)
  show ?thesis
    using assms a
    by (cases e; cases "cm_phase s")
      (auto simp: not_natural_def quiet no_verdict_cwd no_verdict_grace no_verdict_after no_verdict_drain no_verdict_settle
        no_verdict_terminate racing_def Let_def split: option.split)
qed

lemma aborted_run:
  "not_natural s \<Longrightarrow> list_all (\<lambda>r. cx_status r \<noteq> ExecutionCompleted) (results_of (snd (run_steps (command_step cf) s es)))"
proof (induction es arbitrary: s)
  case (Cons e es)
  have "not_natural (fst (command_step cf s e))" "list_all (\<lambda>r. cx_status r \<noteq> ExecutionCompleted) (results_of (snd (command_step cf s e)))"
    using aborted_step [OF Cons.prems, of cf e] by (simp_all add: no_verdict_def)
  then show ?case using Cons.IH by (simp add: Let_def split_beta)
qed simp

text \<open>When the signal fires before anything has settled, the rest of the run is not natural.\<close>

definition undecided :: "command_run \<Rightarrow> bool" where
  "undecided s = (cm_phase s = AwaitCwd \<or> (\<exists>h. cm_phase s = AwaitFirstEvent h \<and> cm_first s = None))"

lemma abort_undecided: "undecided s \<Longrightarrow> not_natural (fst (command_step cf s AbortFired))"
  by (auto simp: undecided_def not_natural_def racing_def settle_first_def Let_def split: command_phase.splits)

section \<open>Every run ends\<close>

fun answers_cwd :: "command_event \<Rightarrow> bool" where
  "answers_cwd (CwdAnswered r c now l out now2) = True"
| "answers_cwd e = False"

fun command_rank :: "command_phase \<Rightarrow> nat" where
  "command_rank AwaitCwd = 0"
| "command_rank (AwaitFirstEvent h) = 1"
| "command_rank (AwaitGrace m) = 2"
| "command_rank (AwaitForce m) = 3"
| "command_rank (AwaitTree tr h) = 4"
| "command_rank (AwaitStdio m tree) = 5"
| "command_rank CommandDone = 6"

lemma rank_settle [simp]: "command_rank (cm_phase (fst (settle_command m tree s))) = 6"
  by (simp add: settle_command_def Let_def)

lemma rank_drain: "command_rank (cm_phase (fst (drain_stdio m tree s))) \<ge> 5"
  by (simp add: drain_stdio_def)

lemma rank_after: "command_rank (cm_phase (fst (after_termination m s))) \<ge> 4"
  using rank_drain by (cases m) (simp_all add: after_termination_def Let_def order_trans [OF _ rank_drain])

lemma rank_terminate: "command_rank (cm_phase (fst (terminateOwnedProcess m out s))) \<ge> 2"
  using rank_after [of m s] by (simp add: terminateOwnedProcess_def)

lemma rank_grace: "command_rank (cm_phase (fst (grace_over m out s))) \<ge> 3"
  using rank_after [of m s] by (simp add: grace_over_def)

lemma rank_cwd: "command_rank (cm_phase (fst (cwd_answered cf r c now l out now2 s))) \<ge> 1"
  using rank_terminate [of EndLaunch out "attach_child (lr_pid l) s"]
  by (auto simp: cwd_answered_def launch_command_def command_finish_def waitForFirstEvent_def Let_def split: option.split prod.split bool.split)

lemmas ranks = order_trans [OF _ rank_cwd] order_trans [OF _ rank_terminate] order_trans [OF _ rank_grace]
  order_trans [OF _ rank_after] order_trans [OF _ rank_drain]

lemma rank_step: "command_rank (cm_phase s) \<le> command_rank (cm_phase (fst (command_step cf s e)))"
  by (cases e; cases "cm_phase s") (auto simp: Let_def split: option.split intro!: ranks)

lemma cwd_keeps_deadline: "cm_deadlineAt (fst (cwd_answered cf r c now l out now2 s)) = cm_deadlineAt s"
  by (auto simp: cwd_answered_def launch_command_def command_finish_def waitForFirstEvent_def terminateOwnedProcess_def
      after_termination_def drain_stdio_def settle_command_def attemptSignal_def Let_def split: option.split prod.split bool.split)

lemma rank_cwd_answered: "answers_cwd e \<Longrightarrow> command_rank (cm_phase (fst (command_step cf s e))) \<ge> 1"
  by (cases e; cases "cm_phase s") (simp_all add: rank_cwd [simplified])

text \<open>How far a run is, and the wait an event ends; a time below the deadline ends none.\<close>

definition command_mile :: "command_run \<Rightarrow> nat" where
  "command_mile s = (case cm_phase s of
     AwaitCwd \<Rightarrow> 0 | AwaitFirstEvent h \<Rightarrow> if cm_first s = None then 1 else 2 | AwaitGrace m \<Rightarrow> 3 | AwaitForce m \<Rightarrow> 4
   | AwaitTree tr h \<Rightarrow> 5 | AwaitStdio m tree \<Rightarrow> 6 | CommandDone \<Rightarrow> 7)"

fun ended_wait :: "int \<Rightarrow> command_event \<Rightarrow> nat option" where
  "ended_wait d (CwdAnswered r c now l out now2) = Some 0"
| "ended_wait d (DeadlineCheck now) = (if d \<le> now then Some 1 else None)"
| "ended_wait d (FirstResumes out) = Some 2"
| "ended_wait d (GraceEnds out) = Some 3"
| "ended_wait d ForceEnds = Some 4"
| "ended_wait d (TreeAnswered a) = Some 5"
| "ended_wait d StdioEnds = Some 6"
| "ended_wait d e = None"

lemma mile_rank: "2 \<le> command_rank (cm_phase s) \<Longrightarrow> command_mile s = Suc (command_rank (cm_phase s))"
  by (cases "cm_phase s") (simp_all add: command_mile_def)

lemma mile_later: "2 \<le> command_rank (cm_phase s) \<Longrightarrow> command_mile s \<le> command_mile (fst (command_step cf s e))"
  using rank_step [of s cf e] by (simp add: mile_rank)

lemma mile_phase [simp]:
  "cm_phase s = AwaitCwd \<Longrightarrow> command_mile s = 0"
  "cm_phase s = AwaitFirstEvent h \<Longrightarrow> command_mile s = (if cm_first s = None then 1 else 2)"
  "cm_phase s = AwaitGrace m \<Longrightarrow> command_mile s = 3" "cm_phase s = AwaitForce m \<Longrightarrow> command_mile s = 4"
  "cm_phase s = AwaitTree tr h \<Longrightarrow> command_mile s = 5" "cm_phase s = AwaitStdio m tree \<Longrightarrow> command_mile s = 6"
  "cm_phase s = CommandDone \<Longrightarrow> command_mile s = 7"
  by (simp_all add: command_mile_def)

lemma rank_mile: "2 \<le> n \<Longrightarrow> n \<le> command_rank (cm_phase s) \<Longrightarrow> Suc n \<le> command_mile s"
  by (simp add: mile_rank)

lemma rank_mile1: "1 \<le> command_rank (cm_phase s) \<Longrightarrow> 1 \<le> command_mile s"
  by (cases "cm_phase s") simp_all

lemma mile_helpers:
  "1 \<le> command_mile (fst (cwd_answered cf r c now l out now2 s))" "3 \<le> command_mile (fst (terminateOwnedProcess m out s))"
  "4 \<le> command_mile (fst (grace_over m out s))" "5 \<le> command_mile (fst (after_termination m s))"
  "6 \<le> command_mile (fst (drain_stdio m tree s))" "7 \<le> command_mile (fst (settle_command m tree s))"
  using rank_mile1 [OF rank_cwd] rank_mile [OF _ rank_terminate] rank_mile [OF _ rank_grace] rank_mile [OF _ rank_after]
    rank_mile [OF _ rank_drain] rank_mile [of 6 "fst (settle_command m tree s)"] by fastforce+

lemmas mile_intros = order_trans [OF _ mile_helpers(1)] order_trans [OF _ mile_helpers(2)] order_trans [OF _ mile_helpers(3)]
  order_trans [OF _ mile_helpers(4)] order_trans [OF _ mile_helpers(5)] order_trans [OF _ mile_helpers(6)]

lemma mile_step:
  "command_mile s \<le> command_mile (fst (command_step cf s e))"
  "ended_wait (cm_deadlineAt s) e = Some k \<Longrightarrow> k \<le> command_mile s \<Longrightarrow> Suc k \<le> command_mile (fst (command_step cf s e))"
  "cm_deadlineAt (fst (command_step cf s e)) = cm_deadlineAt s"
proof -
  show "command_mile s \<le> command_mile (fst (command_step cf s e))"
    by (cases e; cases "cm_phase s") (auto simp: racing_def settle_first_def Let_def intro!: mile_intros split: option.split)
  show "Suc k \<le> command_mile (fst (command_step cf s e))" if "ended_wait (cm_deadlineAt s) e = Some k" "k \<le> command_mile s"
    using that
    by (cases e; cases "cm_phase s")
      (auto simp: racing_def settle_first_def Let_def intro!: mile_intros split: option.split if_split_asm)
  show "cm_deadlineAt (fst (command_step cf s e)) = cm_deadlineAt s"
    by (cases e; cases "cm_phase s")
      (auto simp: cwd_keeps_deadline settle_first_def racing_def terminateOwnedProcess_def grace_over_def
        after_termination_def drain_stdio_def settle_command_def attemptSignal_def Let_def split: option.split end_mode.split)
qed

lemma waits_advance:
  "subseq [k..<7] (List.map_filter (ended_wait (cm_deadlineAt s)) es) \<Longrightarrow> k \<le> command_mile s \<Longrightarrow> k \<le> 7
     \<Longrightarrow> 7 \<le> command_mile (fst (run_steps (command_step cf) s es))"
proof (induction es arbitrary: s k)
  case Nil
  then show ?case by (cases "k < 7") (auto simp: map_filter_simps upt_rec [of k])
next
  case (Cons e es)
  let ?t = "fst (command_step cf s e)"
  have d: "cm_deadlineAt ?t = cm_deadlineAt s" and m: "k \<le> command_mile ?t"
    using mile_step(1) [of s cf e] mile_step(3) [of cf s e] Cons.prems(2) by simp_all
  have run: "fst (run_steps (command_step cf) s (e # es)) = fst (run_steps (command_step cf) ?t es)"
    by (simp add: Let_def split_beta del: command_step.simps)
  have stay: ?case if "subseq [k..<7] (List.map_filter (ended_wait (cm_deadlineAt s)) es)"
    unfolding run using Cons.IH [of k ?t] that d m Cons.prems(3) by simp
  show ?case
  proof (cases "ended_wait (cm_deadlineAt s) e = Some k \<and> k < 7")
    case True
    then have "subseq [Suc k..<7] (List.map_filter (ended_wait (cm_deadlineAt s)) es)"
      using Cons.prems(1) by (simp add: upt_rec [of k] map_filter_simps)
    then show ?thesis unfolding run
      using Cons.IH [of "Suc k" ?t] d True mile_step(2) [of s e k cf] Cons.prems(2) by simp
  next
    case False
    then have "subseq [k..<7] (List.map_filter (ended_wait (cm_deadlineAt s)) es)" using Cons.prems(1,3)
      by (cases "ended_wait (cm_deadlineAt s) e"; cases "k < 7") (auto simp: map_filter_simps upt_rec [of k])
    then show ?thesis by (rule stay)
  qed
qed

lemma mile_done: "7 \<le> command_mile s \<longleftrightarrow> cm_phase s = CommandDone"
  by (cases "cm_phase s") simp_all

text \<open>A run is done when it has given its result.\<close>

definition done_results :: "command_run \<times> command_output list \<Rightarrow> bool" where
  "done_results x = (cm_phase (fst x) = CommandDone \<longrightarrow> results_of (snd x) \<noteq> [])"

lemma done_helpers:
  "done_results (command_finish r s)" "done_results (settle_command m tree s)" "done_results (drain_stdio m tree s)"
  "done_results (after_termination m s)" "done_results (terminateOwnedProcess m out s)" "done_results (grace_over m out s)"
proof -
  show "done_results (command_finish r s)" by (simp add: done_results_def command_finish_def)
  show a: "done_results (settle_command m tree s)" for m tree s by (simp add: done_results_def settle_command_def Let_def)
  show b: "done_results (drain_stdio m tree s)" for m tree s by (simp add: drain_stdio_def a, simp add: done_results_def)
  show c: "done_results (after_termination m s)" for m s
    by (cases m) (simp_all add: after_termination_def Let_def b, simp add: done_results_def)
  show "done_results (terminateOwnedProcess m out s)" by (simp add: terminateOwnedProcess_def c, simp add: done_results_def)
  show "done_results (grace_over m out s)" by (simp add: grace_over_def c, simp add: done_results_def)
qed

lemma done_cwd: "done_results (cwd_answered cf r c now l out now2 s)"
proof -
  have "done_results (launch_command cf cwd env l out now2 s)" for cwd env
    using done_helpers(5) [of EndLaunch out "attach_child (lr_pid l) s"]
    by (auto simp: launch_command_def Let_def done_helpers(1) split_beta split: bool.split option.split)
      (auto simp: done_results_def waitForFirstEvent_def settle_first_def Let_def)
  then show ?thesis by (auto simp: cwd_answered_def done_helpers(1) split: option.split)
qed

lemma step_done: "cm_phase s \<noteq> CommandDone \<Longrightarrow> done_results (command_step cf s e)"
proof -
  assume n: "cm_phase s \<noteq> CommandDone"
  have quiet: "cm_phase s1 \<noteq> CommandDone \<Longrightarrow> done_results (s1, [])" for s1 by (simp add: done_results_def)
  show ?thesis using n
    by (cases e; cases "cm_phase s") (auto simp: done_helpers done_cwd quiet racing_def settle_first_def Let_def split: option.split)
qed

lemma run_done:
  "cm_phase s \<noteq> CommandDone \<Longrightarrow> cm_phase (fst (run_steps (command_step cf) s es)) = CommandDone
     \<Longrightarrow> results_of (snd (run_steps (command_step cf) s es)) \<noteq> []"
proof (induction es arbitrary: s)
  case (Cons e es)
  show ?case
  proof (cases "cm_phase (fst (command_step cf s e)) = CommandDone")
    case True
    then show ?thesis using step_done [OF Cons.prems(1), of cf e] by (simp add: done_results_def Let_def split_beta del: command_step.simps)
  next
    case False
    then show ?thesis using Cons.IH [OF False] Cons.prems(2) by (simp add: Let_def split_beta del: command_step.simps)
  qed
qed simp

lemma command_ends:
  assumes "command_inv s" "cm_phase s \<noteq> CommandDone" "subseq [0..<7] (List.map_filter (ended_wait (cm_deadlineAt s)) es)"
  shows "length (results_of (snd (run_steps (command_step cf) s es))) = 1"
proof -
  have "cm_phase (fst (run_steps (command_step cf) s es)) = CommandDone"
    using waits_advance [OF assms(3), of cf] by (simp add: mile_done)
  from run_done [OF assms(2) this] run_results [OF assms(1), of cf es] show ?thesis
    by (cases "results_of (snd (run_steps (command_step cf) s es))") auto
qed

lemma start_running: "start_command cf xid t r ns now aborted = StartedCommand s \<Longrightarrow> command_inv s \<and> cm_phase s \<noteq> CommandDone"
  by (auto simp: start_command_def command_inv_def split: option.split_asm if_split_asm)

lemma start_no_process: "start_command cf xid t r ns now aborted = NoProcess res \<Longrightarrow> cx_status res \<noteq> ExecutionCompleted \<and> cx_outcome res = None"
  by (auto simp: start_command_def noProcessResult_def split: option.split_asm if_split_asm)

lemma abort_from_undecided:
  "undecided s \<Longrightarrow> list_all (\<lambda>res. cx_status res \<noteq> ExecutionCompleted) (results_of (snd (run_steps (command_step cf) s (AbortFired # es))))"
proof -
  assume u: "undecided s"
  have "results_of (snd (command_step cf s AbortFired)) = []" by (simp add: Let_def)
  then show ?thesis using aborted_run [OF abort_undecided [OF u, of cf], where cf = cf and es = es] by (simp add: Let_def split_beta del: command_step.simps)
qed

section \<open>An example\<close>

definition sample_command_config :: command_config where
  "sample_command_config = \<lparr>cf_commands = [(''ui.smoke'', \<lparr>rc_testId = ''ui.smoke'', rc_executorId = ''local'', rc_executable = ''/bin/run'',
       rc_argv = [''--once''], rc_cwd = ''.'', rc_inherit = [], rc_timeoutMs = 10, rc_passed = [0], rc_failed = [1]\<rparr>)],
     cf_environment = [], cf_maxStdoutBytes = 16, cf_maxStderrBytes = 16, cf_terminateGraceMs = 5, cf_forceKillWaitMs = 5,
     cf_stdioCloseWaitMs = 5, cf_processTreeWaitMs = 5, cf_functions = [], cf_contained = True\<rparr>"

text \<open>A child that never exits.\<close>

definition sample_command_events :: "command_event list" where
  "sample_command_events = [CwdAnswered (Some ''/w'') (Some ''/w'') 0
       \<lparr>lr_calls = 1, lr_pid = Some 7, lr_spawnWorks = True, lr_swallows = False, lr_value = LaunchObject SameChild GoodHandle\<rparr> SignalAccepted 1,
     ChildDoes (ChildSpawn (Some 7)), DeadlineCheck 5, DeadlineCheck 10, FirstResumes SignalAccepted, GraceEnds SignalAccepted,
     ForceEnds, TreeAnswered TreeTimedOut, StdioEnds]"

end
