(* ===== verification/CommandExecutor.thy ===== *)
theory CommandExecutor
  imports CommandProps "HOL-Library.Char_ord" "HOL-Library.List_Lexorder"
begin

text \<open>
  The executor of registered commands: \<open>command-executor.ts\<close> and the snapshots of its requests
  (\<open>request-snapshot.ts\<close>), under \<open>packages/service/src/executors/command\<close>. A run identifier stands for
  one run: the same request joins it, another one is refused. A step is a call, an event of one run, or a
  call of \<open>cleanup\<close> going on after its run has settled. Times of receipts are dropped.
\<close>

section \<open>Requests\<close>

record command_workspace =
  cw_operationId :: string
  cw_snapshotId :: string
  cw_resolvedRevision :: string
  cw_rootPath :: string
  cw_runtimeMetadata :: jfields
  cw_autMetadata :: jfields

record command_request =
  cq_runId :: string
  cq_snapshot :: "string \<times> string"
  cq_testId :: string
  cq_parameters :: jfields
  cq_definition :: test_definition
  cq_workspace :: command_workspace
  cq_taskId :: "string option"
  cq_links :: "jfields option"

definition parse_identity :: "(string \<Rightarrow> bool) \<Rightarrow> jsv \<Rightarrow> catalog_error + string" where
  "parse_identity ok v = (case v of VStr s \<Rightarrow> if ok s then Inr s else bad_type | _ \<Rightarrow> bad_type)"

definition safePlainClone :: "jsv \<Rightarrow> catalog_error + jfields" where
  "safePlainClone v = rbind (as_safe (cloneSafeData v)) (\<lambda>j. (case j of JObj fs \<Rightarrow> Inr fs | _ \<Rightarrow> Inl (CatUnsafe SdUnsupportedData)))"

definition stringRecord :: "jsv \<Rightarrow> catalog_error + jfields" where
  "stringRecord v = rbind (safePlainClone v) (\<lambda>fs.
     if list_all (\<lambda>(k, j). case j of JStr s \<Rightarrow> True | _ \<Rightarrow> False) fs then Inr fs else bad_type)"

definition read_workspace :: "jsv \<Rightarrow> catalog_error + command_workspace" where
  "read_workspace v =
     rbind (cm_record v) (\<lambda>r.
     rbind (exact_fields [''operationId'', ''snapshotId'', ''resolvedRevision'', ''rootPath'', ''runtimeMetadata'', ''autMetadata''] [] r) (\<lambda>_.
     rbind (cm_string (fld r ''rootPath'')) (\<lambda>root_path.
     if \<not> posix_absolute root_path then bad_type else
     rbind (parse_identity operation_id_ok (fld r ''operationId'')) (\<lambda>oid.
     rbind (cm_string (fld r ''snapshotId'')) (\<lambda>sid.
     rbind (cm_string (fld r ''resolvedRevision'')) (\<lambda>rev1.
     rbind (stringRecord (fld r ''runtimeMetadata'')) (\<lambda>rm.
     rbind (stringRecord (fld r ''autMetadata'')) (\<lambda>am.
     Inr \<lparr>cw_operationId = oid, cw_snapshotId = sid, cw_resolvedRevision = rev1, cw_rootPath = root_path,
       cw_runtimeMetadata = rm, cw_autMetadata = am\<rparr>))))))))"

definition snapshotCorrelation :: "jsv \<Rightarrow> catalog_error + string \<times> string" where
  "snapshotCorrelation v =
     rbind (cm_record v) (\<lambda>r.
     rbind (exact_fields [''snapshotId'', ''resolvedRevision''] [] r) (\<lambda>_.
     rbind (cm_string (fld r ''snapshotId'')) (\<lambda>s.
     rbind (cm_string (fld r ''resolvedRevision'')) (\<lambda>v. Inr (s, v)))))"

definition cm_optional :: "(jsv \<Rightarrow> catalog_error + 'a) \<Rightarrow> jsv \<Rightarrow> catalog_error + 'a option" where
  "cm_optional f v = (if v = VUndefined then Inr None else rbind (f v) (\<lambda>a. Inr (Some a)))"

definition read_execute_request :: "jsv \<Rightarrow> catalog_error + command_request" where
  "read_execute_request v =
     rbind (cm_record v) (\<lambda>r.
     rbind (exact_fields [''runId'', ''snapshot'', ''testId'', ''parameters'', ''definition'', ''workspace''] [''taskId'', ''executionLinks''] r) (\<lambda>_.
     rbind (parse_identity run_id_ok (fld r ''runId'')) (\<lambda>rid.
     rbind (parseTestId (fld r ''testId'')) (\<lambda>tid.
     rbind (validateTestDefinition (fld r ''definition'')) (\<lambda>d.
     if td_testId d \<noteq> tid then bad_type else
     rbind (read_workspace (fld r ''workspace'')) (\<lambda>w.
     rbind (snapshotCorrelation (fld r ''snapshot'')) (\<lambda>c.
     if c \<noteq> (cw_snapshotId w, cw_resolvedRevision w) then bad_type else
     rbind (safePlainClone (fld r ''parameters'')) (\<lambda>ps.
     rbind (cm_optional (parse_identity task_id_ok) (fld r ''taskId'')) (\<lambda>t.
     rbind (cm_optional safePlainClone (fld r ''executionLinks'')) (\<lambda>l.
     Inr \<lparr>cq_runId = rid, cq_snapshot = c, cq_testId = tid, cq_parameters = ps, cq_definition = d, cq_workspace = w,
       cq_taskId = t, cq_links = l\<rparr>))))))))))"

definition snapshotCancelRequest :: "jsv \<Rightarrow> catalog_error + string \<times> string" where
  "snapshotCancelRequest v =
     rbind (cm_record v) (\<lambda>r.
     rbind (exact_fields [''runId'', ''reason''] [] r) (\<lambda>_.
     rbind (parse_identity run_id_ok (fld r ''runId'')) (\<lambda>rid.
     rbind (cm_string (fld r ''reason'')) (\<lambda>why. Inr (rid, why)))))"

definition snapshotCleanupRequest :: "jsv \<Rightarrow> catalog_error + string \<times> command_workspace" where
  "snapshotCleanupRequest v =
     rbind (cm_record v) (\<lambda>r.
     rbind (exact_fields [''runId'', ''snapshot''] [] r) (\<lambda>_.
     rbind (parse_identity run_id_ok (fld r ''runId'')) (\<lambda>rid.
     rbind (read_workspace (fld r ''snapshot'')) (\<lambda>w. Inr (rid, w)))))"

text \<open>
  \<open>stableStringify\<close> sorts the keys of every object. \<open>JSON.stringify\<close> writes different data differently, so
  the fingerprint is the sorted data itself.
\<close>

fun stable_json :: "json \<Rightarrow> json" where
  "stable_json (JArr js) = JArr (map stable_json js)"
| "stable_json (JObj fs) = JObj (sort_key fst (map (\<lambda>(k, j). (k, stable_json j)) fs))"
| "stable_json j = j"

definition request_json :: "command_request \<Rightarrow> json" where
  "request_json q = (let w = cq_workspace q in JObj ([(''runId'', JStr (cq_runId q)),
     (''snapshot'', JObj [(''snapshotId'', JStr (fst (cq_snapshot q))), (''resolvedRevision'', JStr (snd (cq_snapshot q)))]),
     (''testId'', JStr (cq_testId q)), (''parameters'', JObj (cq_parameters q)),
     (''definition'', JObj (definition_fields (cq_definition q))),
     (''workspace'', JObj [(''operationId'', JStr (cw_operationId w)), (''snapshotId'', JStr (cw_snapshotId w)),
        (''resolvedRevision'', JStr (cw_resolvedRevision w)), (''rootPath'', JStr (cw_rootPath w)),
        (''runtimeMetadata'', JObj (cw_runtimeMetadata w)), (''autMetadata'', JObj (cw_autMetadata w))])]
     @ (case cq_taskId q of None \<Rightarrow> [] | Some t \<Rightarrow> [(''taskId'', JStr t)])
     @ (case cq_links q of None \<Rightarrow> [] | Some l \<Rightarrow> [(''executionLinks'', JObj l)])))"

definition requestFingerprint :: "command_request \<Rightarrow> json" where
  "requestFingerprint q = stable_json (request_json q)"

definition sameWorkspaceIdentity :: "command_workspace \<Rightarrow> command_workspace \<Rightarrow> bool" where
  "sameWorkspaceIdentity a b = (cw_operationId a = cw_operationId b \<and> cw_snapshotId a = cw_snapshotId b
     \<and> cw_resolvedRevision a = cw_resolvedRevision b \<and> cw_rootPath a = cw_rootPath b)"

section \<open>The executor\<close>

datatype entry_state = EntryRunning command_run | EntrySettled command_result

record run_entry =
  xr_request :: command_request
  xr_fingerprint :: json
  xr_state :: entry_state
  xr_terminal :: bool

text \<open>The runs, and the calls of \<open>cleanup\<close> that wait for one.\<close>

record command_executor =
  xc_runs :: "(string \<times> run_entry) list"
  xc_cleanups :: "(nat \<times> string) list"

datatype cancel_disposition = CancelNotFound | CancelTerminal | CancelAccepted

datatype executor_output =
    ExecuteRefused nat
  | ExecuteShares nat string        \<comment> \<open>the call gets the promise of the run\<close>
  | RunOutput string command_output
  | CancelRefused nat
  | CancelAnswered nat cancel_disposition
  | CleanupRefused nat
  | CleanupAnswered nat string receipt_status bool

datatype executor_event =
    ExecuteCall nat jsv int bool
  | CancelCall nat jsv
  | CleanupCall nat jsv
  | RunEvent string command_event
  | PromiseReacted string
  | CleanupResumes nat

definition new_entry :: "command_config \<Rightarrow> string \<Rightarrow> command_request \<Rightarrow> int \<Rightarrow> bool \<Rightarrow> run_entry" where
  "new_entry cf xid q now aborted = \<lparr>xr_request = q, xr_fingerprint = requestFingerprint q,
     xr_state = (case start_command cf xid (cq_testId q) (rn_executorId (td_runtime (cq_definition q)))
         (tq_environment (td_requirements (cq_definition q))) now aborted of
       StartedCommand s \<Rightarrow> EntryRunning s | NoProcess r \<Rightarrow> EntrySettled r),
     xr_terminal = False\<rparr>"

definition settled_output :: "string \<Rightarrow> run_entry \<Rightarrow> executor_output list" where
  "settled_output rid en = (case xr_state en of EntryRunning s \<Rightarrow> [] | EntrySettled r \<Rightarrow> [RunOutput rid (CommandResult r)])"

definition execute_call :: "command_config \<Rightarrow> string \<Rightarrow> nat \<Rightarrow> jsv \<Rightarrow> int \<Rightarrow> bool \<Rightarrow> command_executor \<Rightarrow> command_executor \<times> executor_output list" where
  "execute_call cf xid n v now aborted x =
     (case read_execute_request v of
        Inl e \<Rightarrow> (x, [ExecuteRefused n])
      | Inr q \<Rightarrow>
          (case map_of (xc_runs x) (cq_runId q) of
             Some en \<Rightarrow> (x, [if xr_fingerprint en \<noteq> requestFingerprint q then ExecuteRefused n else ExecuteShares n (cq_runId q)])
           | None \<Rightarrow> (let en = new_entry cf xid q now aborted in
               (x\<lparr>xc_runs := map_set (cq_runId q) en (xc_runs x)\<rparr>, ExecuteShares n (cq_runId q) # settled_output (cq_runId q) en))))"

definition run_event :: "command_config \<Rightarrow> string \<Rightarrow> command_event \<Rightarrow> command_executor \<Rightarrow> command_executor \<times> executor_output list" where
  "run_event cf rid e x =
     (case map_of (xc_runs x) rid of
        None \<Rightarrow> (x, [])
      | Some en \<Rightarrow> (case xr_state en of
          EntrySettled r \<Rightarrow> (x, [])
        | EntryRunning s \<Rightarrow> (case command_step cf s e of (s1, os) \<Rightarrow>
            (x\<lparr>xc_runs := map_set rid (en\<lparr>xr_state := (case results_of os of [] \<Rightarrow> EntryRunning s1 | r # rs \<Rightarrow> EntrySettled r)\<rparr>) (xc_runs x)\<rparr>,
             map (RunOutput rid) os))))"

definition cancel_call :: "command_config \<Rightarrow> nat \<Rightarrow> jsv \<Rightarrow> command_executor \<Rightarrow> command_executor \<times> executor_output list" where
  "cancel_call cf n v x =
     (case snapshotCancelRequest v of
        Inl e \<Rightarrow> (x, [CancelRefused n])
      | Inr (rid, why) \<Rightarrow>
          (case map_of (xc_runs x) rid of
             None \<Rightarrow> (x, [CancelAnswered n CancelNotFound])
           | Some en \<Rightarrow> if xr_terminal en then (x, [CancelAnswered n CancelTerminal])
               else (case run_event cf rid AbortFired x of (x1, os) \<Rightarrow> (x1, os @ [CancelAnswered n CancelAccepted]))))"

definition cleanup_call :: "command_config \<Rightarrow> nat \<Rightarrow> jsv \<Rightarrow> command_executor \<Rightarrow> command_executor \<times> executor_output list" where
  "cleanup_call cf n v x =
     (case snapshotCleanupRequest v of
        Inl e \<Rightarrow> (x, [CleanupRefused n])
      | Inr (rid, w) \<Rightarrow>
          (case map_of (xc_runs x) rid of
             None \<Rightarrow> (x, [CleanupAnswered n rid ReceiptNotRequired False])
           | Some en \<Rightarrow> if \<not> sameWorkspaceIdentity (cq_workspace (xr_request en)) w
               then (x, [CleanupAnswered n rid ReceiptUnconfirmed True])
               else (case run_event cf rid AbortFired x of (x1, os) \<Rightarrow>
                 (x1\<lparr>xc_cleanups := map_set n rid (xc_cleanups x1)\<rparr>, os))))"

definition cleanup_resumes :: "nat \<Rightarrow> command_executor \<Rightarrow> command_executor \<times> executor_output list" where
  "cleanup_resumes n x =
     (case map_of (xc_cleanups x) n of
        None \<Rightarrow> (x, [])
      | Some rid \<Rightarrow> (case map_option xr_state (map_of (xc_runs x) rid) of
          Some (EntrySettled r) \<Rightarrow> (x\<lparr>xc_cleanups := map_delete n (xc_cleanups x)\<rparr>,
            [CleanupAnswered n rid (pc_status (cx_cleanup r)) (pc_tainted (cx_cleanup r))])
        | _ \<Rightarrow> (x, [])))"

definition promise_reacted :: "string \<Rightarrow> command_executor \<Rightarrow> command_executor \<times> executor_output list" where
  "promise_reacted rid x =
     (case map_of (xc_runs x) rid of
        Some en \<Rightarrow> (case xr_state en of
            EntrySettled r \<Rightarrow> (x\<lparr>xc_runs := map_set rid (en\<lparr>xr_terminal := True\<rparr>) (xc_runs x)\<rparr>, [])
          | _ \<Rightarrow> (x, []))
      | None \<Rightarrow> (x, []))"

fun executor_step :: "command_config \<Rightarrow> string \<Rightarrow> command_executor \<Rightarrow> executor_event \<Rightarrow> command_executor \<times> executor_output list" where
  "executor_step cf xid x (ExecuteCall n v now aborted) = execute_call cf xid n v now aborted x"
| "executor_step cf xid x (CancelCall n v) = cancel_call cf n v x"
| "executor_step cf xid x (CleanupCall n v) = cleanup_call cf n v x"
| "executor_step cf xid x (RunEvent rid e) = run_event cf rid e x"
| "executor_step cf xid x (PromiseReacted rid) = promise_reacted rid x"
| "executor_step cf xid x (CleanupResumes n) = cleanup_resumes n x"

definition new_executor :: command_executor where
  "new_executor = \<lparr>xc_runs = [], xc_cleanups = []\<rparr>"

section \<open>One process per run\<close>

fun spawned_out :: "command_output \<Rightarrow> bool" where
  "spawned_out (ProcessSpawned a b c d) = True"
| "spawned_out o1 = False"

fun spawns_of :: "executor_output \<Rightarrow> string list" where
  "spawns_of (RunOutput rid o1) = (if spawned_out o1 then [rid] else [])"
| "spawns_of o1 = []"

fun settles_of :: "executor_output \<Rightarrow> string list" where
  "settles_of (RunOutput rid o1) = (if result_out o1 = [] then [] else [rid])"
| "settles_of o1 = []"

text \<open>Where a process can still be spawned, or a result given: no entry yet, or one that runs.\<close>

definition can_spawn :: "command_executor \<Rightarrow> string \<Rightarrow> bool" where
  "can_spawn x rid = (case map_of (xc_runs x) rid of None \<Rightarrow> True
     | Some en \<Rightarrow> (case xr_state en of EntryRunning s \<Rightarrow> cm_phase s = AwaitCwd | EntrySettled r \<Rightarrow> False))"

definition can_settle :: "command_executor \<Rightarrow> string \<Rightarrow> bool" where
  "can_settle x rid = (case map_of (xc_runs x) rid of None \<Rightarrow> True
     | Some en \<Rightarrow> (case xr_state en of EntryRunning s \<Rightarrow> True | EntrySettled r \<Rightarrow> False))"

definition entry_ok :: "run_entry \<Rightarrow> bool" where
  "entry_ok en = (case xr_state en of EntryRunning s \<Rightarrow> command_inv s | EntrySettled r \<Rightarrow> \<exists>c. honest_result c r)"

definition executor_inv :: "command_executor \<Rightarrow> bool" where
  "executor_inv x = (\<forall>rid en. map_of (xc_runs x) rid = Some en \<longrightarrow> entry_ok en)"

lemma quiet_spawns [simp]:
  "filter spawned_out (snd (settle_command m tree s)) = []" "filter spawned_out (snd (drain_stdio m tree s)) = []"
  "filter spawned_out (snd (after_termination m s)) = []" "filter spawned_out (snd (terminateOwnedProcess m out s)) = []"
  "filter spawned_out (snd (grace_over m out s)) = []" "filter spawned_out (snd (command_finish r s)) = []"
proof -
  show a: "filter spawned_out (snd (settle_command m tree s)) = []" for m tree s by (simp add: settle_command_def Let_def)
  show b: "filter spawned_out (snd (drain_stdio m tree s)) = []" for m tree s by (simp add: drain_stdio_def a)
  show c: "filter spawned_out (snd (after_termination m s)) = []" for m s by (simp add: after_termination_def Let_def b split: end_mode.split)
  show "filter spawned_out (snd (terminateOwnedProcess m out s)) = []" by (simp add: terminateOwnedProcess_def c)
  show "filter spawned_out (snd (grace_over m out s)) = []" by (simp add: grace_over_def c)
  show "filter spawned_out (snd (command_finish r s)) = []" by (simp add: command_finish_def)
qed

lemma cwd_spawns: "length (filter spawned_out (snd (cwd_answered cf r c now l out now2 s))) \<le> 1"
proof -
  have "length (filter spawned_out (snd (launch_command cf cwd env l out now2 s))) \<le> 1" for cwd env
    by (auto simp: launch_command_def Let_def split_beta split: bool.split option.split)
  then show ?thesis by (auto simp: cwd_answered_def split: option.split)
qed

lemma step_spawns:
  "filter spawned_out (snd (command_step cf s e)) = []
   \<or> (length (filter spawned_out (snd (command_step cf s e))) = 1 \<and> cm_phase s = AwaitCwd \<and> cm_phase (fst (command_step cf s e)) \<noteq> AwaitCwd)"
proof (cases "answers_cwd e \<and> cm_phase s = AwaitCwd")
  case True
  then obtain r c now l out now2 where e: "e = CwdAnswered r c now l out now2" by (cases e) auto
  have "cm_phase (fst (command_step cf s e)) \<noteq> AwaitCwd" using rank_cwd_answered [of e cf s] True by auto
  then show ?thesis using True cwd_spawns [of cf r c now l out now2 s] unfolding e
    by (cases "filter spawned_out (snd (cwd_answered cf r c now l out now2 s))") auto
next
  case False
  then show ?thesis by (cases e; cases "cm_phase s") (auto simp: Let_def split: option.split)
qed

lemma phase_leaves: "cm_phase s \<noteq> AwaitCwd \<Longrightarrow> cm_phase (fst (command_step cf s e)) \<noteq> AwaitCwd"
  using rank_step [of s cf e] by (cases "cm_phase s") auto

text \<open>What a step does for the identifiers it emits.\<close>

definition once_step :: "('s \<Rightarrow> 'i \<Rightarrow> bool) \<Rightarrow> 's \<Rightarrow> 'i list \<Rightarrow> 's \<Rightarrow> bool" where
  "once_step live s ids t = ((ids = [] \<or> (\<exists>i. ids = [i] \<and> live s i \<and> \<not> live t i)) \<and> (\<forall>i. \<not> live s i \<longrightarrow> \<not> live t i))"

lemma once_step_same: "once_step live s [] s"
  by (simp add: once_step_def)

lemma run_spawns: "concat (map spawns_of (map (RunOutput rid) os)) = map (\<lambda>o1. rid) (filter spawned_out os)"
  by (induction os) auto

lemma run_settles: "concat (map settles_of (map (RunOutput rid) os)) = map (\<lambda>r. rid) (results_of os)"
proof (induction os)
  case (Cons o1 os)
  then show ?case by (cases o1) auto
qed simp

lemma settled_spawns [simp]: "concat (map spawns_of (settled_output rid en)) = []"
  by (cases "xr_state en") (simp_all add: settled_output_def)

lemma event_spawns: "once_step can_spawn x (concat (map spawns_of (snd (run_event cf rid e x)))) (fst (run_event cf rid e x))"
proof (cases "map_of (xc_runs x) rid")
  case (Some en)
  show ?thesis
  proof (cases "xr_state en")
    case (EntryRunning s)
    obtain s1 os where st: "command_step cf s e = (s1, os)" by (cases "command_step cf s e")
    have "filter spawned_out os = [] \<or> (\<exists>o1. filter spawned_out os = [o1] \<and> cm_phase s = AwaitCwd \<and> cm_phase s1 \<noteq> AwaitCwd)"
      using step_spawns [of cf s e] by (auto simp: st length_Suc_conv)
    then show ?thesis using Some EntryRunning phase_leaves [of s cf e]
      by (auto simp: run_event_def st once_step_def run_spawns can_spawn_def jm.get_put simp del: map_map split: list.split)
  qed (simp add: run_event_def Some once_step_same)
qed (simp add: run_event_def once_step_same)

lemma event_settles:
  assumes "executor_inv x"
  shows "once_step can_settle x (concat (map settles_of (snd (run_event cf rid e x)))) (fst (run_event cf rid e x))
    \<and> executor_inv (fst (run_event cf rid e x))"
proof (cases "map_of (xc_runs x) rid")
  case (Some en)
  show ?thesis
  proof (cases "xr_state en")
    case (EntryRunning s)
    obtain s1 os where st: "command_step cf s e = (s1, os)" by (cases "command_step cf s e")
    have i: "command_inv s" using assms [unfolded executor_inv_def, rule_format, OF Some] EntryRunning by (simp add: entry_ok_def)
    have g: "command_inv s1" "list_all (honest_result (cm_command s)) (results_of os)" "length (results_of os) \<le> 1"
      using command_good [OF i, of cf e] by (simp_all add: st good_step_def)
    have "once_step can_settle x (map (\<lambda>r. rid) (results_of os)) (fst (run_event cf rid e x))"
      using Some EntryRunning g(3)
      by (cases "results_of os") (auto simp: run_event_def st once_step_def can_settle_def jm.get_put)
    moreover have "entry_ok (en\<lparr>xr_state := (case results_of os of [] \<Rightarrow> EntryRunning s1 | r # rs \<Rightarrow> EntrySettled r)\<rparr>)"
      using g(1,2) by (auto simp: entry_ok_def split: list.split)
    ultimately show ?thesis using Some EntryRunning assms
      by (simp add: run_event_def st run_settles executor_inv_def jm.get_put del: map_map)
  qed (use assms in \<open>simp add: run_event_def Some once_step_same\<close>)
qed (use assms in \<open>simp add: run_event_def once_step_same\<close>)

lemma cleanups_irrelevant [simp]:
  "can_spawn (x\<lparr>xc_cleanups := c\<rparr>) = can_spawn x" "can_settle (x\<lparr>xc_cleanups := c\<rparr>) = can_settle x"
  "executor_inv (x\<lparr>xc_cleanups := c\<rparr>) = executor_inv x"
  by (simp_all add: fun_eq_iff can_spawn_def can_settle_def executor_inv_def)

lemma once_cleanups [simp]:
  "once_step can_spawn x ids (y\<lparr>xc_cleanups := c\<rparr>) = once_step can_spawn x ids y"
  "once_step can_settle x ids (y\<lparr>xc_cleanups := c\<rparr>) = once_step can_settle x ids y"
  by (simp_all add: once_step_def)

lemma command_start_ok: "case start_command cf xid t r ns now aborted of StartedCommand s \<Rightarrow> command_inv s | NoProcess r \<Rightarrow> \<exists>c. honest_result c r"
  by (auto simp: start_command_def command_inv_def no_process_honest split: option.split)

lemma new_entry_ok: "entry_ok (new_entry cf xid q now aborted)"
  using command_start_ok [of cf xid "cq_testId q" "rn_executorId (td_runtime (cq_definition q))" "tq_environment (td_requirements (cq_definition q))" now aborted]
  by (simp add: new_entry_def entry_ok_def split: command_start.split command_start.split_asm)

definition good_executor_step :: "command_executor \<Rightarrow> command_executor \<times> executor_output list \<Rightarrow> bool" where
  "good_executor_step x y = (once_step can_spawn x (concat (map spawns_of (snd y))) (fst y)
     \<and> once_step can_settle x (concat (map settles_of (snd y))) (fst y) \<and> executor_inv (fst y))"

lemma good_executor_quiet:
  "executor_inv x \<Longrightarrow> concat (map spawns_of os) = [] \<Longrightarrow> concat (map settles_of os) = [] \<Longrightarrow> good_executor_step x (x, os)"
  unfolding good_executor_step_def by (simp add: once_step_same del: concat_eq_Nil_conv)

lemma good_run_event: "executor_inv x \<Longrightarrow> good_executor_step x (run_event cf rid e x)"
  using event_spawns event_settles by (simp add: good_executor_step_def)

lemma good_execute: "executor_inv x \<Longrightarrow> good_executor_step x (execute_call cf xid n v now aborted x)"
proof (cases "read_execute_request v")
  case (Inr q)
  assume i: "executor_inv x"
  show ?thesis
  proof (cases "map_of (xc_runs x) (cq_runId q)")
    case None
    let ?en = "new_entry cf xid q now aborted"
    have "executor_inv (x\<lparr>xc_runs := map_set (cq_runId q) ?en (xc_runs x)\<rparr>)"
      using i new_entry_ok [of cf xid q now aborted] by (simp add: executor_inv_def jm.get_put)
    then show ?thesis using None Inr
      by (cases "xr_state ?en")
        (auto simp: execute_call_def Let_def good_executor_step_def once_step_def can_spawn_def can_settle_def settled_output_def jm.get_put)
  qed (use i Inr in \<open>simp add: execute_call_def good_executor_quiet\<close>)
qed (simp add: execute_call_def good_executor_quiet)

lemma good_with_call:
  assumes "good_executor_step x y" "concat (map spawns_of os) = []" "concat (map settles_of os) = []"
  shows "good_executor_step x (fst y, snd y @ os)" and "good_executor_step x ((fst y)\<lparr>xc_cleanups := c\<rparr>, snd y)"
  using assms unfolding good_executor_step_def by (simp_all del: concat_eq_Nil_conv)

lemma good_cancel: "executor_inv x \<Longrightarrow> good_executor_step x (cancel_call cf n v x)"
  by (auto simp: cancel_call_def good_executor_quiet split_beta good_with_call(1) [OF good_run_event] split: sum.split option.split)

lemma good_cleanup: "executor_inv x \<Longrightarrow> good_executor_step x (cleanup_call cf n v x)"
  by (auto simp: cleanup_call_def good_executor_quiet split_beta good_with_call(2) [OF good_run_event, of x "[]"] split: sum.split option.split)

lemma good_resume: "executor_inv x \<Longrightarrow> good_executor_step x (cleanup_resumes n x)"
  by (auto simp: cleanup_resumes_def good_executor_quiet good_executor_step_def once_step_def split: option.split entry_state.split)

lemma good_reacted: "executor_inv x \<Longrightarrow> good_executor_step x (promise_reacted rid x)"
proof (cases "map_of (xc_runs x) rid")
  case (Some en)
  assume i: "executor_inv x"
  have "entry_ok en" using i [unfolded executor_inv_def, rule_format, OF Some] .
  then show ?thesis using i Some
    by (cases "xr_state en")
      (auto simp: promise_reacted_def good_executor_quiet good_executor_step_def once_step_def can_spawn_def can_settle_def executor_inv_def
        entry_ok_def jm.get_put)
qed (simp add: promise_reacted_def good_executor_quiet)

lemma executor_good: "executor_inv x \<Longrightarrow> good_executor_step x (executor_step cf xid x e)"
  by (cases e) (simp_all add: good_execute good_cancel good_cleanup good_run_event good_reacted good_resume)

lemma once_emits:
  assumes "once_step live s ids t"
  shows "distinct ids" "i \<in> set ids \<Longrightarrow> live s i \<and> \<not> live t i" "\<not> live s i \<Longrightarrow> \<not> live t i"
  using assms by (auto simp: once_step_def)

interpretation executor_spawns: once_only "executor_step cf xid" executor_inv can_spawn spawns_of for cf xid
proof unfold_locales
  fix s e
  assume "executor_inv s"
  note g = executor_good [OF this, of cf xid e, unfolded good_executor_step_def]
  have o: "once_step can_spawn s (concat (map spawns_of (snd (executor_step cf xid s e)))) (fst (executor_step cf xid s e))"
    using g by (elim conjE)
  show "executor_inv (fst (executor_step cf xid s e))" using g by blast
  show "distinct (concat (map spawns_of (snd (executor_step cf xid s e))))" by (rule once_emits(1) [OF o])
  show "i \<in> set (concat (map spawns_of (snd (executor_step cf xid s e)))) \<Longrightarrow> can_spawn s i \<and> \<not> can_spawn (fst (executor_step cf xid s e)) i" for i
    by (rule once_emits(2) [OF o])
  show "\<not> can_spawn s i \<Longrightarrow> \<not> can_spawn (fst (executor_step cf xid s e)) i" for i by (rule once_emits(3) [OF o])
qed

interpretation executor_settles: once_only "executor_step cf xid" executor_inv can_settle settles_of for cf xid
proof unfold_locales
  fix s e
  assume "executor_inv s"
  note g = executor_good [OF this, of cf xid e, unfolded good_executor_step_def]
  have o: "once_step can_settle s (concat (map settles_of (snd (executor_step cf xid s e)))) (fst (executor_step cf xid s e))"
    using g by (elim conjE)
  show "distinct (concat (map settles_of (snd (executor_step cf xid s e))))" by (rule once_emits(1) [OF o])
  show "i \<in> set (concat (map settles_of (snd (executor_step cf xid s e)))) \<Longrightarrow> can_settle s i \<and> \<not> can_settle (fst (executor_step cf xid s e)) i" for i
    by (rule once_emits(2) [OF o])
  show "\<not> can_settle s i \<Longrightarrow> \<not> can_settle (fst (executor_step cf xid s e)) i" for i by (rule once_emits(3) [OF o])
qed

lemma new_executor_inv: "executor_inv new_executor"
  by (simp add: new_executor_def executor_inv_def)

section \<open>What a cleanup says\<close>

text \<open>A cleanup of a known run answers with the cleanup of its result; of an unknown one there is nothing to clean.\<close>

lemma command_cleanup_answer:
  assumes "CleanupAnswered n rid st t \<in> set (snd (executor_step cf xid x e))"
  shows "(map_of (xc_runs x) rid = None \<and> st = ReceiptNotRequired \<and> \<not> t)
    \<or> (st = ReceiptUnconfirmed \<and> t)
    \<or> (\<exists>en r. map_of (xc_runs x) rid = Some en \<and> xr_state en = EntrySettled r \<and> st = pc_status (cx_cleanup r) \<and> t = pc_tainted (cx_cleanup r))"
proof (cases e)
  case (CleanupResumes m)
  then show ?thesis using assms by (auto simp: cleanup_resumes_def split: option.split_asm entry_state.split_asm)
next
  case (CleanupCall m v)
  have "CleanupAnswered n rid st t \<notin> set (snd (run_event cf k AbortFired x))" for k
    by (auto simp: run_event_def split: option.split entry_state.split prod.split)
  then show ?thesis using assms CleanupCall
    by (auto simp: cleanup_call_def split_beta split: sum.split_asm option.split_asm if_split_asm)
next
  case (CancelCall m v)
  have "CleanupAnswered n rid st t \<notin> set (snd (run_event cf k AbortFired x))" for k
    by (auto simp: run_event_def split: option.split entry_state.split prod.split)
  then show ?thesis using assms CancelCall
    by (auto simp: cancel_call_def split_beta split: sum.split_asm option.split_asm if_split_asm)
next
  case (RunEvent k ev)
  then show ?thesis using assms by (auto simp: run_event_def split: option.split_asm entry_state.split_asm prod.split_asm)
next
  case (ExecuteCall m v now aborted)
  then show ?thesis using assms
    by (auto simp: execute_call_def settled_output_def Let_def split: sum.split_asm option.split_asm if_split_asm entry_state.split_asm)
next
  case (PromiseReacted k)
  then show ?thesis using assms by (auto simp: promise_reacted_def split: option.split_asm entry_state.split_asm)
qed

fun cleanup_honest :: "command_executor \<Rightarrow> executor_output \<Rightarrow> bool" where
  "cleanup_honest x (CleanupAnswered n rid st t) = ((t \<longleftrightarrow> st = ReceiptUnconfirmed)
     \<and> (st = ReceiptConfirmed \<longrightarrow> (case map_of (xc_runs x) rid of None \<Rightarrow> False
          | Some en \<Rightarrow> (case xr_state en of EntryRunning s \<Rightarrow> False | EntrySettled r \<Rightarrow> pc_status (cx_cleanup r) = ReceiptConfirmed))))"
| "cleanup_honest x o1 = True"

lemma cleanups_honest:
  assumes "executor_inv x"
  shows "list_all (cleanup_honest x) (snd (executor_step cf xid x e))"
  unfolding list_all_iff
proof
  fix o1
  assume m: "o1 \<in> set (snd (executor_step cf xid x e))"
  show "cleanup_honest x o1"
  proof (cases o1)
    case (CleanupAnswered n rid st t)
    have "entry_ok en" if "map_of (xc_runs x) rid = Some en" for en
      using assms that by (simp add: executor_inv_def)
    then show ?thesis using command_cleanup_answer [OF m [unfolded CleanupAnswered]] CleanupAnswered
      by (fastforce simp: entry_ok_def honest_result_def)
  qed simp_all
qed

end
