(* ===== verification/Spec2Isabelle.thy ===== *)
theory Spec2Isabelle
  imports NativeClientProps NodeProcess FixtureRuntime Actions EvidenceProps Resources Policy Deadline AgentServiceProps JudgeRouter Redact Trace Contracts ReportImport CommandExecutor
begin

text \<open>
  A verification development of surfaceloom, a TypeScript framework that lets agents test desktop, browser and
  system software. This header says what is modelled, how the model corresponds to the code under src/packages,
  what is proved, and what is left out. Each theory opens with a shorter text of its own.

  The program. A host process (macOS or Windows) drives an application; packages/native talks to it over a
  child process and a framed JSON protocol (packages/native/src). packages/contracts holds the vocabulary of
  tests: case specifications, platforms, components, evidence graphs, fixtures and guarded actions.
  packages/test runs the tests: execution plans with declared effects are checked against a policy, work runs
  under deadlines, and resources are cleaned up in scopes. packages/service runs tests for agents: a catalog of
  test definitions, snapshots of workspaces, a durable store of runs, a coordinator that dispatches each run to
  an executor, and the interface the agents call. packages/llm-judge asks a model provider to classify evidence
  of a run, under a contract and a deadline. packages/reporter redacts and writes what was found. The parts call each other downwards in this order: the agent
  interface calls the catalog, the coordinator and the workspace provider; the coordinator calls the run store
  and the workspace registry; the native client calls the protocol validators and a transport.

  Theories and sources.
    Prelude           throwing computations as sums, JavaScript loops, step machines, once-only signals
    JsData, JsMap     JavaScript values with their property descriptors; Map objects in insertion order
    NativeSchema, NativeSchemaProps     native/src: constants.ts, contracts.ts, protocol-error.ts,
                      validation-primitives.ts, schema.ts, correlation.ts
    NativeClient, NativeClientProps     native/src/client: client.ts, codec.ts, errors.ts
    NodeStreams, NodeProcess            native/src/node-transport: framer.ts, write-admission.ts, lifecycle.ts,
                      node-process-transport.ts
    CaseSpec          contracts: case-spec.ts, platform.ts, component.ts and capabilities.ts (in part)
    GraphOrder, EvidenceContext, EvidenceProps   contracts: evidence-context.ts
    FixtureRuntime    contracts: fixture.ts, fixture-registry.ts, fixture-runtime.ts
    Actions           contracts: actionability.ts, action-invocation.ts, guarded-actions.ts
    Policy            test: effects.ts, plan.ts, plan-preflight.ts, policy.ts and what they import
    Resources         test: resources.ts, resources-cleanup.ts, resources-validation.ts
    Deadline          test: deadline.ts, deadline-clock.ts
    SafeData          service: safe-data.ts
    StoredRuns, StoredRunProps          service: stores/contracts.ts, stores/validation.ts, ids.ts, execution.ts
    RunStore, RunStoreProps             service: stores/file-run-store.ts, run-store-file.ts
    Workspaces, WorkspaceProps          service: workspaces/snapshot-lifecycle.ts, local-git-support.ts,
                      local-git-provider.ts
    RunService, RunServiceProps         service: persistent-service.ts, run-lifecycle.ts
    TestCatalog, TestCatalogProps       service: catalog.ts, validate-definition.ts, validation.ts,
                      parameter-normalization.ts, test-definition.ts
    AgentService, AgentServiceProps     service: agent-service.ts, executors/command/request-snapshot.ts
    JsPath            POSIX paths: split, isAbsolute, normalize
    CommandConfig, CommandRun, CommandProps, CommandExecutor   service: executors/command (contracts.ts, config.ts,
                      runtime.ts, bounded-output.ts, process-observer.ts, containment.ts, lifecycle.ts, results.ts,
                      request-snapshot.ts, command-executor.ts)
    JudgeData, JudgeRequest, JudgeOutcome        llm-judge: validation-primitives.ts, request-validation.ts,
                      outcome-validation.ts, contracts.ts
    JudgeRun          llm-judge: judge.ts, invocation.ts
    JudgeRouter       llm-judge: router.ts, router-config.ts and, of providers, provider-runtime.ts and
                      structured-output.ts
    JsRegex           the part of JavaScript's regular expressions the redactions use
    Redact            reporter: redact.ts
    Trace             core: trace.ts
    ReportData, ReportValidate, ReportSanitize   reporter: model.ts, runtime-shape.ts, validate.ts,
                      validate-artifact.ts, validation-primitives.ts, evidence-policy.ts, summary.ts, sanitize.ts,
                      safe-artifact-path.ts
    ReportV3, ReportV3Rules, ReportImport        reporter/v3: model.ts, runtime-shape.ts, validate.ts, result.ts,
                      summary.ts, sanitize.ts, import-v2.ts
    Contracts         core: locator.ts, component.ts, platform.ts, doctor.ts

  How the code is translated. A function that returns or throws is a function into a sum type whose left side
  is the error, kept as its code; messages and details are dropped. An object with state is a record, its
  methods are functions on it, and a class whose promises, timers and callbacks interleave is a step machine:
  one event per public call, settled promise, timer or frame, with the outputs of the step (settled promises,
  frames written, callbacks called) as its second component. The runs of a machine are all sequences of its
  events, so a statement over a run covers every interleaving. What the surroundings answer (clocks, file
  system, git, the child process, executors, identities, hashes) is an input of the events or a parameter.

  Interfaces. The locales of the development are validator (a codec of untrusted data: what it returns is well
  formed, and well-formed data is accepted in its written form), step_machine and once_only (invariants of
  machines and signals given at most once), record_change (what a change of a stored record keeps),
  field_reader (a reader of one field with the data it reads back) and exact_reader (a reader that keeps the data of
  its field). Each is interpreted on the definitions of
  the components: the validators of messages, hosts, cases, evidence, stored runs, safe data, test
  definitions and judge requests; the readers of stored records and of definitions; the machines of the client, the transport, the writer, scopes, tasks, actions, fixtures, the run
  store, the workspaces, the coordinator, the catalog, the agent interface, the judge, the run of a command and the
  executor of commands.

  What is proved, by groups. Native client: promises settle at most once and none is lost, an operation is called not
  executed only when the run, the transport or the host vouches for it (vouched), and only allowed requests are written. Transport: one-shot signals, honest exits, an end
  of every close, frames independent of chunks, a bounded write budget. Data: each validator accepts exactly
  the well-formed data, in the form it is written in, and what the validators of messages, hosts, definitions and judge
  requests accept holds the same data as their result (the inductive relation same_data: the same keys at every level,
  under each the same value). Evidence: the cycle check decides acyclicity. Policy: preflight and authorization are
  exact and agree. Cleanup, deadlines, fixtures, actions: callbacks at most once, an end of cleanup, rollback
  without a trace (rolled_back: what was set up is torn down, last first), submission only when guarded. Test service: the run store refines an abstract table of runs
  (the inductive relation table_step, an atomic step per operation, with the file always equal to the maps),
  a refused operation leaves no trace, records only move forward, recovery ends every run; snapshots are
  removed once and never leased after it, and a lease ends only by its own completion (lease_step); completed runs are clean; the catalog, the parameters and the
  submissions of the agent interface are exact. Command executor: one process and one result per run, verdicts
  only on observed ends and confirmed cleanups, an end of every run. Judge: at most one outcome, supported by cited evidence and
  decided before the deadline, candidates of a route in order. Reports: an accepted report claims no more than
  its tests show, in both versions, sanitizing and importing keep the verdict,
  and the tests of an imported report are the ones of its source (read_from). Redaction: declared secrets are withheld and
  nothing else is lost. Contracts: what is defined is well formed (defineLocator_ok, define_again,
  manifest_accepted, doctor_summarized). Two theorems show where the code falls short of what it means
  to do, failure_without_message_unfinished and agent_claim_lost, both from any reachable state; RunServiceProps and
  AgentServiceProps end with the reachable states (example_service, example_events) at which their witnesses apply them.

  Bounds and fuel. The resolution of fixtures takes fuel, and fixture_use_ends proves that more fuel than there
  are fixture identifiers always gives a result. The shutdown of a child takes two waits, a command seven, the cleanup of a
  scope one round per owned resource, and a reader of an artifact at most one chunk per byte; the theorems
  state these counts. Every other definition is total by structural recursion or a measure.

  Not modelled. Values are finite trees, so proxies, shared references and cycles of objects have no
  counterpart; accessors, symbols, holes and prototypes do. Calls back into an object from its own listeners or
  property traps are not modelled. Numbers are exact rationals with the three non-finite values, and strings
  have code units below 256 (16 bits in the framing). Freezing a result has no counterpart. Parts of the
  program that are left out: process configuration, the stderr tail and the text parser of frames (native);
  driver interfaces (core); the runner of cases, workers and projects, with its evidence collection and
  surfaces (test); desktop sessions and Windows control (native); the HTTP and MCP servers, the artifact files and the
  git commands (service); rendering and writing of reports (reporter);
  the calls of model SDKs and their prompts (llm-judge); the agent loop, the browser driver and the scripts.
  The first four are further work; the others are input and output, glue over third-party code, or rendering.
\<close>

section \<open>The native client\<close>

abbreviation client_run :: "(id_kind \<Rightarrow> nat \<Rightarrow> string) \<Rightarrow> (wire_message \<Rightarrow> nat) \<Rightarrow> client_event list \<Rightarrow> client \<times> client_out list" where
  "client_run idf fb es \<equiv> run_steps (client_step idf fb) new_client es"

lemma client_run_inv: "client_inv (fst (client_run idf fb es))"
  by (rule client_machine.run_inv [OF client_inv_new])

text \<open>
  C1 (safety): Over every run of the client from its start, whatever the caller, the transport, the timers and
  the abort signals do, the promise of a request is settled at most once.
\<close>

theorem client_settles_once:
  "distinct (settled (snd (client_run idf fb es)))"
proof -
  have "ids_inv new_client" using client_inv_new by (simp add: client_inv_def)
  from client_once.run_once [OF this] show ?thesis by (simp add: settled_def)
qed

text \<open>
  C2 (safety): No request is forgotten: a request that is pending at some point of a run is, at every later
  point, still pending or settled in between.
\<close>

theorem client_loses_nothing:
  "pending_ids (fst (client_run idf fb es1))
     \<subseteq> pending_ids (fst (client_run idf fb (es1 @ es2)))
       \<union> set (settled (snd (run_steps (client_step idf fb) (fst (client_run idf fb es1)) es2)))"
  using run_careful [OF client_run_inv, where es = es2 and idf = idf and fb = fb]
  by (simp add: careful_def keeps_def run_steps_append Let_def split_beta)

text \<open>
  C3 (safety): An operation is called ``not executed'' only when somebody who knows vouches for it. In any reachable state and
  for any event, a request rejected with that outcome was not handed to the transport by any write of the run up to
  and including this event, or the transport says in this very event that it wrote nothing of it (a failed, empty or
  refused write); only the error of a result that could not be decoded repeats the outcome of the host's own receipt
  for that request. A call rejected before it became a request wrote nothing.
\<close>

theorem client_outcomes_honest:
  "list_all (vouched (set (wrote (snd (client_run idf fb es)))) e (snd (client_step idf fb (fst (client_run idf fb es)) e)))
     (snd (client_step idf fb (fst (client_run idf fb es)) e))"
  using step_says [of "fst (client_run idf fb es)"] run_wrote [OF client_inv_new, of idf fb es] client_run_inv [of idf fb es]
  by (simp add: client_inv_def)

text \<open>
  C4 (functional): What a call puts on the wire, in any reachable state: one request that is well-formed, under a
  fresh identifier, for the connected host and a session and handle it still tracks, as the host's
  manifest allows it, within the frame bounds, with a positive deadline that does not exceed what is
  left of the caller's.
\<close>

theorem client_writes_only_allowed:
  "list_all (\<lambda>out. case out of
       WriteFrame m \<Rightarrow> (\<exists>rq. m = MRequest rq \<and> allowed_request fb (fst (client_run idf fb es)) ck iv rq)
     | _ \<Rightarrow> True) (snd (invoke idf fb ck iv (fst (client_run idf fb es))))"
  using invoke_written [OF client_run_inv] by (auto simp: list_all_iff split: client_out.split)

section \<open>The test service\<close>

text \<open>
  C5 (safety): The service fails closed. Over every run of the coordinator, whatever the executor returns or throws and
  however starts, cancellations, deadlines, write failures and restarts interleave: a run recorded as
  completed is not tainted and carries a safe cleanup receipt, and, where the service owns the workspace, a safe
  receipt of its release. A receipt is safe when it reports no taint and its status is confirmed or not required,
  never unconfirmed.
\<close>

theorem service_completed_clean:
  "records_clean lc (table_of (sv_store (fst (run_steps (service_step tb mx dp lc) fresh_service es))))"
  using reached_service [of mx lc tb dp es] by (simp add: service_ok_def)

text \<open>
  C6 (refinement): The run store implements an atomic durable table. In every state it can reach, each operation is one step
  of the abstract table of runs (leave it, add one queued run under a new identity and a new request, move one
  record forward, or end every unfinished run as interrupted), and opening the file afterwards gives exactly
  the maps in memory.
\<close>

theorem store_refines_table:
  "(let s = fst (run_steps (store_step tb mx) fresh_store es); s' = fst (store_step tb mx s (io, x)) in
     table_step (table_of s) (table_of s') \<and> open_store mx (st_disk s') = Inr s')"
  using store_step_refines [OF reached_ok [of mx tb es], of tb io x] open_store_ok
  by (simp add: Let_def store_refines_def)

text \<open>
  A refused operation leaves no trace: when it throws, exceeds the size limit or cannot be written, the maps
  and the file are those before the call.
\<close>

theorem store_refusal_traceless:
  "(let s = fst (run_steps (store_step tb mx) fresh_store es) in
     case snd (store_step tb mx s (io, x)) of [StoreRefused e] \<Rightarrow> fst (store_step tb mx s (io, x)) = s | _ \<Rightarrow> True)"
  using store_step_refused [OF reached_ok [of mx tb es], of _ tb io x]
  by (auto simp: Let_def split: list.split store_reply.split)

text \<open>
  C7 (safety): A record is never lost and its run only moves forward: it keeps its identity (request, fingerprint, run,
  snapshot, test and parameters), every change raises its revision and never its status rank downwards, and a
  terminal record never changes again.
\<close>

theorem store_records_advance:
  "(case table_of (fst (run_steps (store_step tb mx) fresh_store es1)) k of None \<Rightarrow> True
    | Some r \<Rightarrow> (case table_of (fst (run_steps (store_step tb mx) fresh_store (es1 @ es2))) k of
        None \<Rightarrow> False | Some r' \<Rightarrow> advances r r'))"
proof (cases "table_of (fst (run_steps (store_step tb mx) fresh_store es1)) k")
  case (Some r)
  from run_advances [OF reached_ok this, of tb es2] show ?thesis
    by (auto simp: Some run_steps_append Let_def split_beta)
qed simp

text \<open>
  C8 (error): Recovery after a restart is complete or refused: once it has returned its list, no run of the store is
  unfinished.
\<close>

theorem store_recovery_ends_all:
  "(let s = fst (run_steps (store_step tb mx) fresh_store es); r = store_step tb mx s (io, OpRecover now) in
     case snd r of [Recovered rs] \<Rightarrow> list_all (\<lambda>x. isTerminal (sr_status x)) (st_values (fst r)) | _ \<Rightarrow> fst r = s)"
  using recover_reply [OF reached_ok [of mx tb es], of tb io now] store_step_refused [OF reached_ok [of mx tb es], of _ tb io "OpRecover now"]
  by (auto simp: Let_def reply_def split: list.split store_reply.split sum.splits)

text \<open>
  \<open>parseStoredRun\<close> accepts exactly the well-formed records: identities, digests and times in their
  canonical shapes, a result only for its own run and its own status, receipts only of its own run; and every
  such record is read back as it was written.
\<close>

theorem stored_run_accepts_exactly_wf: "(\<exists>v. parseStoredRun v = Inr r) \<longleftrightarrow> wf_stored r"
  by (rule vstored.range_iff)

text \<open>
  C9 (safety): The tree of a workspace snapshot is removed at most once; and after its removal has begun, or after a lease
  on it was completed on unsafe evidence, it is never leased or removed again.
\<close>

theorem workspace_closed_for_good:
  "(let r = run_steps (ws_step dp) empty_provider es1 in
     distinct (outs removals r) \<and> list_all (\<lambda>k. k \<notin> set (outs uses (run_steps (ws_step dp) (fst r) es2))) (outs closings r))"
  using removal_once.run_once [OF empty_ok(1), of dp es1] run_closings [OF empty_ok(1), of _ dp es1]
    closed_untouched [OF reached_registry, of dp es1 _ dp es2]
  by (auto simp: Let_def list_all_iff)

text \<open>
  C10 (invariant): Leases are exclusive. Over any run, the leases given on a snapshot are the ones completed and at most one more, the
  active one. And in any state so reached, whatever the next event: the active lease of a snapshot stays, and nothing
  on that snapshot is completed, unless the event is the completion of this very lease (its run, its generation and its
  time included), which then ends it; and a lease is given only on a snapshot without one, becomes its active lease,
  and has the next generation, which only grows.
\<close>

theorem workspace_lease_exclusive:
  "(let r = run_steps (ws_step dp) empty_provider es in
     count_list (outs leases r) k = count_list (outs completions r) k + leased_now (pv_registry (fst r)) k
     \<and> leased_now (pv_registry (fst r)) k \<le> 1
     \<and> lease_step (pv_registry (fst r)) e (pv_registry (fst (ws_step dp (fst r) e)), snd (ws_step dp (fst r) e)))"
  using lease_count [OF empty_ok(1), of dp es k] ws_lease_step [OF reached_registry [of dp es], where e = e and dp = dp]
  by (simp add: Let_def leased_now_def empty_provider_def empty_registry_def split: option.split)

text \<open>
  C11 (error): A failure without a message is not recorded. In any reachable state of the coordinator, a dispatch that waits for its
  executor, whose answer is a throw with an empty message, goes through its catch: the three steps (the throw, the
  reading of the record, the interruption), whatever the clock and the file system answer in the last two, end the
  dispatch with every record as it was, so an unfinished run stays unfinished (the store refuses an error without text,
  and the coordinator ignores the refusal).
\<close>

theorem failure_without_message_unfinished:
  assumes "sv = fst (run_steps (service_step tb mx dp lc) fresh_service es)"
    and "map_of (sv_active sv) k = Some d" "ds_phase d = AwaitExecute" "an_result an1 = None" "an_message an1 = []"
    and "sv' = fst (run_steps (service_step tb mx dp lc) sv (advances_of k [an1, an2, an3]))"
  shows "table_of (sv_store sv') = table_of (sv_store sv) \<and> map_of (sv_active sv') k = None"
proof -
  have "store_ok mx (sv_store sv)" using reached_service [of mx lc tb dp es] by (simp add: service_ok_def assms(1))
  from empty_throw_unrecorded [OF this assms(2-6)] show ?thesis .
qed

theorem failure_without_message_unfinished_witness:
  "let sv' = fst (run_steps (service_step (\<lambda>_. 0) 0 (\<lambda>_. True) False) example_service (advances_of example_id [throwing, throwing, throwing]))
   in table_of (sv_store sv') example_id = Some example_running \<and> map_of (sv_active sv') example_id = None"
proof -
  have "table_of (sv_store example_service) example_id = Some example_running"
    using example_dispatched by (simp add: table_of_def)
  with failure_without_message_unfinished [OF example_service_def conjunct1 [OF example_dispatched] _ _ _ HOL.refl,
      of throwing throwing throwing] show ?thesis by (simp add: Let_def throwing_def del: run_steps.simps)
qed

text \<open>
  C12 (type): The catalog holds exactly what it may. \<open>validateTestDefinition\<close> returns exactly the well-formed definitions,
  and each of them is accepted in the data it is written as; whatever else is accepted holds that same data: the same
  keys at every level and, under each, the same value, so nothing is dropped, added or read from another place. Over any
  registrations the entries keep their identities and stay well formed, and a registered definition is never replaced
  or removed.
\<close>

theorem catalog_exact:
  "((\<exists>v. validateTestDefinition v = Inr d) \<longleftrightarrow> wf_definition d)
   \<and> wf_definition d = (validateTestDefinition (encode_definition d) = Inr d)
   \<and> (case validateTestDefinition w of Inl _ \<Rightarrow> True | Inr x \<Rightarrow> same_data (=) w (encode_definition x))
   \<and> catalog_ok (fst (run_steps catalog_step [] vs))
   \<and> (\<exists>later. fst (run_steps catalog_step [] (vs @ ws)) = fst (run_steps catalog_step [] vs) @ later)"
proof (intro conjI)
  show "(\<exists>v. validateTestDefinition v = Inr d) \<longleftrightarrow> wf_definition d" by (rule vcatalog.range_iff)
  show "wf_definition d = (validateTestDefinition (encode_definition d) = Inr d)"
    using vcatalog.decode_encode vcatalog.decode_wf by blast
  show "case validateTestDefinition w of Inl _ \<Rightarrow> True | Inr x \<Rightarrow> same_data (=) w (encode_definition x)"
    using definition_data by (auto split: sum.split)
  show "catalog_ok (fst (run_steps catalog_step [] vs))" by (rule catalog_machine.run_inv [OF empty_catalog_ok])
  show "\<exists>later. fst (run_steps catalog_step [] (vs @ ws)) = fst (run_steps catalog_step [] vs) @ later"
    using catalog_grows [of "fst (run_steps catalog_step [] vs)" ws] by (simp add: run_steps_append Let_def split_beta)
qed



text \<open>
  C14 (safety): Every execution the interface submits is allowed: its test is the registered one of the request, with
  normalized parameters, for the executor of the service and its platform, with the effect acknowledged
  when it is sensitive, on the snapshot the request names; whatever calls, preparations and runs go on.
\<close>

theorem agent_submits_only_allowed:
  "list_all (output_allowed cf (fst (run_steps catalog_step [] vs)))
     (snd (run_steps (agent_step cf) (new_agent (fst (run_steps catalog_step [] vs))) es))"
  by (rule run_allowed [OF new_agent_ok [OF catalog_machine.run_inv [OF empty_catalog_ok]]])

text \<open>
  C15 (roundtrip): A stored artifact is read completely by following the offsets returned: with any chunk size within the
  limit, the chunks from offset 0 put together are the artifact.
\<close>

theorem artifact_chunks_rejoin:
  "0 < limit \<Longrightarrow> limit \<le> maxArtifactChunkBytes \<Longrightarrow> int (length data) \<le> max_safe_integer \<Longrightarrow>
   read_chunks (Suc (length data)) data limit 0 = Some data"
  using chunks_rejoin [of limit data 0 "Suc (length data)"] by simp

theorem artifact_chunks_rejoin_witness:
  "read_chunks (Suc (length ''artifact'')) ''artifact'' 3 0 = Some ''artifact''"
  by (rule artifact_chunks_rejoin) (simp_all add: maxArtifactChunkBytes_def max_safe_integer_def)

text \<open>
  C16 (error): A claim of a snapshot can be lost. In any reachable state of the agent's service, two calls of one request are resumed
  and both submitted on a snapshot nobody owned; then the reservation of the first cannot be written. While the second
  call still waits to reserve its run on that workspace, the checks of a call of another request for the same snapshot
  and test pass, and it is submitted on the same workspace.
\<close>

theorem agent_claim_lost:
  assumes "ag = fst (run_steps (agent_step cf) (new_agent c) es)"
    and "snd (run_steps (agent_step cf) ag [AgResume n rid1 an1, AgResume m rid2 an2]) = [Submitted n rq x, Submitted m rq y]"
    and "map_of (ag_owners ag) (sq_snapshotId rq) = None" and "\<not> an_io an"
    and "ag3 = fst (run_steps (agent_step cf) ag [AgResume n rid1 an1, AgResume m rid2 an2, AgResume n rid3 an])"
    and "map_of (ag_starts ag3) k = Some (AwaitLookup rq' (ex_definition x) ps task)"
    and "sq_snapshotId rq' = sq_snapshotId rq" "sq_acknowledged rq' = sq_acknowledged rq" "sq_requestId rq' \<noteq> sq_requestId rq"
    and "get_by_request (sq_requestId rq') (sv_store (ag_service ag3)) = Inr None"
  shows "(\<exists>i. map_of (ag_starts ag3) m = Some (AwaitReserve i (ex_workspace y) (sq_snapshotId rq) False))
    \<and> (\<exists>z. snd (agent_step cf ag3 (AgResume k rid4 an4)) = [Submitted k rq' z] \<and> ex_workspace z = ex_workspace y)"
proof -
  note lost = claim_given_up [OF assms(2-5)]
  show ?thesis using lost(1) lost(3) [OF assms(7,8)] assms(6,10) by (auto simp: start_looked_up_def submit_start_def Let_def)
qed

theorem agent_claim_lost_witness:
  "\<exists>z. snd (agent_step example_config (example_run (example_events @ example_resumes)) (AgResume 3 (''run:'' @ example_uuid) example_answers))
     = [Submitted 3 (example_request ''two'') z] \<and> ex_workspace z = example_snapshot"
proof -
  let ?ag = "example_run example_events" and ?rid = "''run:'' @ example_uuid"
  obtain p ps where ag: "?ag = \<lparr>ag_service = fresh_service\<lparr>sv_provider := p\<rparr>,
     ag_catalog = [(''service-test:a/b'', example_definition)], ag_snapshots = [(''snapshot:'' @ example_uuid, example_snapshot)],
     ag_owners = [], ag_preparations = ps, ag_starts = [(1, AwaitLookup (example_request ''one'') example_definition [] None),
       (2, AwaitLookup (example_request ''one'') example_definition [] None), (3, AwaitLookup (example_request ''two'') example_definition [] None)]\<rparr>"
    using example_started by blast
  have empty: "get_by_request ''one'' fresh_store = Inr None" "get_by_request ''two'' fresh_store = Inr None" by code_simp+
  let ?x = example_execution and ?rq = "example_request ''one''"
  let ?r1 = "agent_step example_config ?ag (AgResume 1 ?rid example_answers)"
  have r1: "?r1 = submit_start example_config ?rid ''t'' 1 ?rq ?x ?ag"
    using example_submits [of "''one''" ?ag 1 ?rid example_answers] empty
    by (simp add: ag fresh_service_def example_answers_def del: append_Cons agent_step.simps)
  have s1: "ag_service (fst ?r1) = fresh_service\<lparr>sv_provider := p\<rparr>" "ag_snapshots (fst ?r1) = [(''snapshot:'' @ example_uuid, example_snapshot)]"
      "ag_owners (fst ?r1) = [(''snapshot:'' @ example_uuid, ''one'')]"
      "map_of (ag_starts (fst ?r1)) 2 = Some (AwaitLookup ?rq example_definition [] None)"
      "map_of (ag_starts (fst ?r1)) 3 = Some (AwaitLookup (example_request ''two'') example_definition [] None)" "snd ?r1 = [Submitted 1 ?rq ?x]"
    unfolding r1 by (simp_all add: submit_start_def set_start_def Let_def ag map_of_map_set example_request_def del: append_Cons)
  let ?r2 = "agent_step example_config (fst ?r1) (AgResume 2 ?rid example_answers)"
  have r2: "?r2 = submit_start example_config ?rid ''t'' 2 ?rq ?x (fst ?r1)"
    using example_submits [of "''one''" "fst ?r1" 2 ?rid example_answers] empty s1
    by (simp add: fresh_service_def example_answers_def del: append_Cons agent_step.simps)
  have first: "\<exists>i w sid claimed. map_of (ag_starts (fst ?r1)) 1 = Some (AwaitReserve i w sid claimed)"
    unfolding r1 submit_starts by blast
  have s2: "ag_service (fst ?r2) = fresh_service\<lparr>sv_provider := p\<rparr>" "snd ?r2 = [Submitted 2 ?rq ?x]"
      "map_of (ag_starts (fst ?r2)) 3 = Some (AwaitLookup (example_request ''two'') example_definition [] None)"
      "map_of (ag_starts (fst ?r2)) 1 = map_of (ag_starts (fst ?r1)) 1"
    using s1 unfolding r2 by (simp_all add: submit_start_def set_start_def Let_def map_of_map_set del: append_Cons agent_step.simps)
  have bad: "\<not> an_io example_answers" by (simp add: example_answers_def)
  let ?ag3 = "fst (run_steps (agent_step example_config) ?ag example_resumes)"
  obtain i w sid claimed where h: "map_of (ag_starts (fst ?r2)) 1 = Some (AwaitReserve i w sid claimed)" using first s2(4) by metis
  then have "agent_step example_config (fst ?r2) (AgResume 1 ?rid example_answers) = start_reserved example_config example_answers 1 i w sid claimed (fst ?r2)"
    by (simp del: append_Cons)
  then have g3: "?ag3 = fst (start_reserved example_config example_answers 1 i w sid claimed (fst ?r2))"
    by (simp add: Let_def split_beta del: append_Cons agent_step.simps)
  have three: "map_of (ag_starts ?ag3) 3 = Some (AwaitLookup (example_request ''two'') (ex_definition ?x) [] None)"
    unfolding g3 using s2(3) by (simp add: reserved_unwritten(2) [OF bad] map_of_map_delete example_execution_def del: agent_step.simps)
  have none: "get_by_request (sq_requestId (example_request ''two'')) (sv_store (ag_service ?ag3)) = Inr None"
    unfolding g3 unwritten_lookup [OF bad] using s2(1) empty(2) by (simp add: example_request_def fresh_service_def del: agent_step.simps append_Cons)
  have two: "snd (run_steps (agent_step example_config) ?ag [AgResume 1 ?rid example_answers, AgResume 2 ?rid example_answers])
      = [Submitted 1 ?rq ?x, Submitted 2 ?rq ?x]"
    using s1(6) s2(2) by (simp add: Let_def split_beta del: append_Cons agent_step.simps)
  have free: "map_of (ag_owners ?ag) (sq_snapshotId ?rq) = None" by (simp only: ag agent.simps map_of.simps)
  have rest: "sq_snapshotId (example_request ''two'') = sq_snapshotId ?rq" "sq_acknowledged (example_request ''two'') = sq_acknowledged ?rq"
    "sq_requestId (example_request ''two'') \<noteq> sq_requestId ?rq" by (simp_all add: example_request_def)
  have "\<exists>z. snd (agent_step example_config ?ag3 (AgResume 3 ?rid example_answers)) = [Submitted 3 (example_request ''two'') z] \<and> ex_workspace z = ex_workspace ?x"
    using agent_claim_lost [OF HOL.refl two free bad HOL.refl three rest none] by blast
  moreover have "?ag3 = example_run (example_events @ example_resumes)"
    by (simp only: run_steps_append Let_def split_beta fst_conv)
  ultimately show ?thesis by (simp only: example_execution_def execution.simps)
qed

section \<open>The command executor\<close>

text \<open>
  C17 (safety): A command gives at most one result, and its verdict is honest: a run is only completed, as passed or as
  failed, when it ended by itself with an exit code registered for that verdict, no signal was sent, no stream
  failed, both streams ended, and the process tree is confirmed to be gone; every other run has an error and no
  outcome; a cleanup taints exactly when it is unconfirmed. A run that is aborted before its first event is decided
  is never completed, and one that starts no process is not either.
\<close>

theorem command_verdict_honest:
  "case start_command cf xid t r ns now aborted of
     NoProcess res \<Rightarrow> cx_status res \<noteq> ExecutionCompleted \<and> cx_outcome res = None
   | StartedCommand s \<Rightarrow>
       (let run = run_steps (command_step cf) s es;
            aborted_run = run_steps (command_step cf) (fst run) (AbortFired # fs) in
        length (results_of (snd run)) \<le> 1
        \<and> list_all (honest_result (cm_command s)) (results_of (snd run))
        \<and> (if undecided (fst run)
           then list_all (\<lambda>res. cx_status res \<noteq> ExecutionCompleted) (results_of (snd aborted_run)) else True))"
proof (cases "start_command cf xid t r ns now aborted")
  case (NoProcess res)
  then show ?thesis using start_no_process [OF NoProcess] by simp
next
  case (StartedCommand s)
  have i: "command_inv s" using start_running [OF StartedCommand] by blast
  show ?thesis
    unfolding StartedCommand command_start.case Let_def
    using run_results [OF i, of cf es] abort_from_undecided [of "fst (run_steps (command_step cf) s es)" cf fs] by auto
qed

text \<open>
  C18 (liveness): A command always ends: whatever else happens in between, once the working directory is resolved, the
  deadline is reached, the wait for the first event resumes and the four bounded waits after it (two signals,
  the process tree, the streams) are over, in this order, the run has given exactly one result.
\<close>

theorem command_run_ends:
  "start_command cf xid t r ns now aborted = StartedCommand s \<Longrightarrow>
   subseq [0..<7] (List.map_filter (ended_wait (cm_deadlineAt s)) es) \<Longrightarrow>
   length (results_of (snd (run_steps (command_step cf) s es))) = 1"
  using command_ends [of s es cf] start_running by auto

theorem command_run_ends_witness:
  "case start_command sample_command_config ''local'' ''ui.smoke'' ''local'' [] 0 False of
     NoProcess res \<Rightarrow> False
   | StartedCommand s \<Rightarrow> length (results_of (snd (run_steps (command_step sample_command_config) s sample_command_events))) = 1"
proof -
  obtain s where s: "start_command sample_command_config ''local'' ''ui.smoke'' ''local'' [] 0 False = StartedCommand s"
      "cm_deadlineAt s = 10"
    by (simp add: start_command_def sample_command_config_def)
  have "subseq [0..<7] (List.map_filter (ended_wait 10) sample_command_events)" unfolding sample_command_events_def by code_simp
  from command_run_ends [OF s(1), unfolded s(2), OF this] show ?thesis unfolding s(1) by simp
qed

text \<open>
  C19 (safety): One process and one result per run identifier: over any calls of the executor (with the same or with other
  requests), cancellations, cleanups and events of its runs, at most one process is spawned and one result is
  given for each run identifier. And a cleanup never claims more than the result: it is confirmed only for a
  settled run whose own cleanup was confirmed, and tainted exactly when it is unconfirmed.
\<close>

theorem one_process_per_run:
  "let run = run_steps (executor_step cf xid) new_executor es in
   distinct (concat (map spawns_of (snd run))) \<and> distinct (concat (map settles_of (snd run)))
   \<and> list_all (cleanup_honest (fst run)) (snd (executor_step cf xid (fst run) e))"
  using executor_spawns.run_once [OF new_executor_inv, of cf xid es] executor_settles.run_once [OF new_executor_inv, of cf xid es]
    cleanups_honest [OF executor_spawns.run_inv [OF new_executor_inv, of cf xid es], where cf = cf and xid = xid and e = e]
  by (simp add: Let_def)


section \<open>Case specifications, execution plans and the effect policy\<close>

text \<open>
  \<open>defineCaseSpec\<close> accepts exactly the well-formed cases: stable identifiers, a language tag,
  distinct platforms, clauses with distinct ids and at least one acceptance criterion, distinct tags, and
  Chinese text where the locale is Chinese; and every such case is accepted in its object form.
\<close>

theorem case_accepts_exactly_wf: "(\<exists>v. defineCaseSpec han v = Inr s) \<longleftrightarrow> wf_case han s"
  by (rule vcase.range_iff)

text \<open>
  Preflight passes a defined plan exactly when the environment satisfies its platform, host and
  surface requirements, the policy's maximum covers the case's ceiling, and every declared effect is
  granted by a resource grant of the policy.
\<close>

theorem preflight_exact:
  "preflightExecution (DefinedPlan p) env v = Inr g \<longleftrightarrow>
     (\<exists>po en. snapshotEffectPolicy v = Inr po \<and> snapshotEnvironment env = Inr en \<and> permitted p po en
        \<and> g = \<lparr>pg_plan = p, pg_policy = po\<rparr>)"
  by (rule preflight_Inr)

text \<open>
  C21 (safety): The gate runs an action only with an authorized effect: within the case's ceiling, one of the
  declared effects when the plan declares them, and granted by the policy (resource, operation, boundary,
  security sensitivity, recovery); and an authorized effect is never refused.
\<close>

theorem dispatch_exactly_authorized:
  "(case preflightExecution p env v of Inl _ \<Rightarrow> True
     | Inr g \<Rightarrow> e \<in> set (fst (dispatch_effect g callable w)) \<longleftrightarrow>
         callable \<and> defineEffect w = Inr e \<and> authorized g e)"
proof (cases "preflightExecution p env v")
  case (Inr g)
  note check = check_effect_Inr [OF preflight_policy_ok [OF Inr], of w e]
  show ?thesis using check by (cases "check_effect g w") (auto simp: Inr dispatch_effect_def)
qed simp

text \<open>
  C22 (safety): Preflight's promise: for a plan that was defined and passed preflight, no effect it declares can be
  refused later at its authorization.
\<close>

theorem preflight_keeps_its_promise:
  "(case defineExecutionPlan han w of Inl _ \<Rightarrow> True
     | Inr p \<Rightarrow> (case (preflightExecution (DefinedPlan p) env v, pl_effects p) of
          (Inr g, PreciseEffects es) \<Rightarrow> list_all (\<lambda>e. check_effect g (effect_value e) = Inr e) es
        | _ \<Rightarrow> True))"
  using preflight_promise [of _ env v _ han w]
  by (auto simp: list_all_iff split: sum.split effect_declaration.split)

section \<open>Resource cleanup\<close>

text \<open>
  C23 (safety): Whatever is registered, however often \<open>close\<close> is called and whenever the callbacks answer, the
  cleanup of a resource is called at most once; and the first failure recorded (of the body, of a
  registration or of a cleanup) stays the primary failure whatever happens later.
\<close>

theorem cleanup_called_once:
  "distinct (concat (map cleanup_calls (snd (run_steps scope_step (new_scope timeout deadline) es))))
   \<and> (case primaryFailure (fst (run_steps scope_step (new_scope timeout deadline) es)) of None \<Rightarrow> True
      | Some f \<Rightarrow> primaryFailure (fst (run_steps scope_step (new_scope timeout deadline) (es @ es2))) = Some f)"
proof
  show "distinct (concat (map cleanup_calls (snd (run_steps scope_step (new_scope timeout deadline) es))))"
    using scope_once.run_once [OF scope_inv_new] by blast
  show "case primaryFailure (fst (run_steps scope_step (new_scope timeout deadline) es)) of None \<Rightarrow> True
      | Some f \<Rightarrow> primaryFailure (fst (run_steps scope_step (new_scope timeout deadline) (es @ es2))) = Some f"
    using primary_stays [OF scope_once.run_inv [OF scope_inv_new]]
    by (simp add: run_steps_append Let_def split_beta split: option.split)
qed

text \<open>
  C24 (safety): A scope only passes when everything is known to be released: the outcomes are, in the reverse order
  of registration, ``released'' for every owned and ``borrowed'' for every borrowed resource.
\<close>

theorem cleanup_passed_released:
  "scope_status (fst (run_steps scope_step (new_scope timeout deadline) es)) = Passed \<Longrightarrow>
   outcomes (fst (run_steps scope_step (new_scope timeout deadline) es))
     = map (\<lambda>r. if is_owned r then OutReleased (resource_id r) else OutBorrowed (resource_id r))
        (rev (resources (fst (run_steps scope_step (new_scope timeout deadline) es))))"
  by (rule passed_released [OF scope_once.run_inv [OF scope_inv_new]])

theorem cleanup_passed_released_witness:
  "let s = fst (run_steps scope_step (new_scope 10 100)
       [Register (obj [(''id'', VStr ''db''), (''ownership'', VStr ''owned''), (''cleanup'', VFun ''f'')]),
        Register (obj [(''id'', VStr ''ui''), (''ownership'', VStr ''borrowed'')]),
        CloseScope 0, DrainTurn (\<lambda>_. 0) (\<lambda>_. 1), Answer ''db'' (AnsValue (obj [(''status'', VStr ''released'')]) 1 2),
        DrainTurn (\<lambda>_. 0) (\<lambda>_. 1)])
   in scope_status s = Passed \<and> outcomes s = [OutBorrowed ''ui'', OutReleased ''db'']"
proof -
  let ?es = "[Register (obj [(''id'', VStr ''db''), (''ownership'', VStr ''owned''), (''cleanup'', VFun ''f'')]),
        Register (obj [(''id'', VStr ''ui''), (''ownership'', VStr ''borrowed'')]),
        CloseScope 0, DrainTurn (\<lambda>_. 0) (\<lambda>_. 1), Answer ''db'' (AnsValue (obj [(''status'', VStr ''released'')]) 1 2),
        DrainTurn (\<lambda>_. 0) (\<lambda>_. 1)]"
  have ok: "scope_status (fst (run_steps scope_step (new_scope 10 100) ?es)) = Passed"
    and res: "resources (fst (run_steps scope_step (new_scope 10 100) ?es)) = [OwnedResource ''db'', BorrowedResource ''ui'']"
    by code_simp+
  from cleanup_passed_released [OF ok] show ?thesis using ok res by (simp add: Let_def)
qed

text \<open>
  Cleanup ends: from the call of \<open>close\<close>, when every callback answers (its budget's timer
  answers for a silent one), one answer and one turn per owned resource bring the scope to its end.
\<close>

theorem cleanup_ends:
  "drain_at (fst (run_steps scope_step (new_scope timeout deadline) es)) = Queued \<Longrightarrow>
   drain_at (fst (run_steps scope_step (fst (run_steps scope_step (new_scope timeout deadline) es))
     (DrainTurn began now # cleanup_rounds began now ans
        (rev (resources (fst (run_steps scope_step (new_scope timeout deadline) es))))))) = Drained"
  by (rule queued_closes [OF scope_once.run_inv [OF scope_inv_new]])

theorem cleanup_ends_witness:
  "drain_at (fst (run_steps scope_step (fst (run_steps scope_step (new_scope 10 100)
      [Register (obj [(''id'', VStr ''ui''), (''ownership'', VStr ''borrowed'')]), CloseScope 0]))
     (DrainTurn (\<lambda>_. 0) (\<lambda>_. 1) # cleanup_rounds (\<lambda>_. 0) (\<lambda>_. 1) (\<lambda>_. AnsTimer)
        (rev (resources (fst (run_steps scope_step (new_scope 10 100)
      [Register (obj [(''id'', VStr ''ui''), (''ownership'', VStr ''borrowed'')]), CloseScope 0]))))))) = Drained"
  by (rule cleanup_ends) code_simp

section \<open>Deadline tasks\<close>

text \<open>
  C25 (safety): A bounded task: its body runs at most once, its signal is aborted at most once, its outcome and its
  settlement are given at most once; and the outcome is honest: ``settled'' means that no cancellation came
  and the settlement was observed strictly before the deadline, ``unconfirmed'' that the body has not
  settled, ``cooperative'' that it acknowledged the cancellation and settled.
\<close>

theorem task_outcome_once_honest:
  "(case run_task timeout grace sig r0 r ok es of None \<Rightarrow> True
     | Some (t, out) \<Rightarrow> distinct (tsignals out) \<and> list_all (out_ok (tk_deadline t)) out)"
  using run_task_begun [of timeout grace sig r0 r ok es]
  by (auto simp: task_begun_def split: option.split)

text \<open>
  A running task always has its timer armed (for its deadline, or for the grace after a cancellation), and
  the first cancellation and the first settlement are the last: no later event changes either.
\<close>

theorem task_decisions_stay:
  "(case start_task timeout grace sig r0 r ok of None \<Rightarrow> True
    | Some (t, _) \<Rightarrow> let t1 = fst (run_steps task_step t es1); t2 = fst (run_steps task_step t (es1 @ es2)) in
     (tk_finished t1 \<or> (case tk_armed t1 of Disarmed \<Rightarrow> False
          | ArmedFor g target _ \<Rightarrow> g = (tk_cancellation t1 \<noteq> None) \<and> (g \<or> target = tk_deadline t1)))
     \<and> (tk_cancellation t1 = None \<or> tk_cancellation t2 = tk_cancellation t1)
     \<and> (tk_settlement t1 = None \<or> tk_settlement t2 = tk_settlement t1))"
proof (cases "start_task timeout grace sig r0 r ok")
  case (Some p)
  obtain t os where p: "p = (t, os)" by (cases p)
  have inv: "task_inv t" using start_task_begun Some p by (fastforce simp: task_begun_def)
  from task_once.run_inv [OF inv, of es1] have inv1: "task_inv (fst (run_steps task_step t es1))" .
  show ?thesis using inv1 run_task_fixed [OF inv1, of es2]
    by (cases "tk_cancellation (fst (run_steps task_step t es1))"; cases "tk_settlement (fst (run_steps task_step t es1))")
      (auto simp: Some p Let_def run_steps_append split_beta task_inv_def)
qed simp

section \<open>The process transport\<close>

text \<open>
  C26 (safety): Over every run of the transport of a child process, each of its one-shot signals (the promise of
  \<open>open\<close>, the disconnect notification, the exit receipt, the promise of \<open>close\<close>, the forced kill) is
  given at most once; and the exit receipt is honest: one that names an exit exists only when the exit of a
  spawned process was observed, an unconfirmed one only when the transport is closed.
\<close>

theorem transport_signals_once:
  "(let r = run_steps (transport_step cf) new_transport es in
     distinct (concat (map signals (snd r)))
     \<and> (case t_exit (fst r) of
          Some (Exited i p c s) \<Rightarrow> t_exitObserved (fst r) \<and> t_spawned (fst r)
        | Some Unconfirmed \<Rightarrow> t_state (fst r) = TClosed
        | _ \<Rightarrow> True))"
  using transport_once.run_once [OF transport_inv_new, of cf es] transport_once.run_inv [OF transport_inv_new, of cf es]
  by (auto simp: Let_def transport_inv_def split: option.splits exit_receipt.splits)

text \<open>
  C27 (liveness): A close always ends. Once the transport is closing, whatever happens then, in any order (writes and reads, the child's
  events, further calls of close), two of the waits of the shutdown ending are enough: the transport is closed, and stays
  so.
\<close>

theorem transport_close_ends:
  "t_state (fst (run_steps (transport_step cf) new_transport es)) = TClosing \<Longrightarrow> 2 \<le> count_list later TShutdownResume \<Longrightarrow>
   t_state (fst (run_steps (transport_step cf) new_transport (es @ later))) = TClosed"
  using waits_run_out [OF transport_once.run_inv [OF transport_inv_new, of cf es], of 2 later cf]
  by (simp add: waits_left_def run_steps_append Let_def split_beta)

theorem transport_close_ends_witness:
  "t_state (fst (run_steps (transport_step \<lparr>cf_maxFrameBytes = 64, cf_maxOutstandingWriteBytes = 64,
       cf_startupTimeoutMs = 10\<rparr>) new_transport ([TOpenCall ''i'' False, TCloseCall True]
         @ [TShutdownResume, TCloseCall True, TStdoutEnd False, TShutdownResume]))) = TClosed"
  by (rule transport_close_ends) code_simp+

text \<open>
  C28 (roundtrip): What a peer writes frame by frame is what the client reads: a sequence of frames within the bound,
  concatenated and cut into chunks anywhere, is read back as exactly these frames, with no error and
  nothing left over.
\<close>

theorem frames_read_back:
  "0 < maximum \<Longrightarrow> list_all (is_frame maximum) fs \<Longrightarrow> concat cs = concat fs \<Longrightarrow>
   push_all maximum cs new_framer = (new_framer, fs, None)"
  by (rule push_all_frames)

theorem frames_read_back_witness:
  "push_all 8 [[65], [10, 66], [], [66, 10]] new_framer = (new_framer, [[65, 10], [66, 66, 10]], None)"
  by (rule frames_read_back) (simp_all add: is_frame_def)

text \<open>
  C29 (equivalence): The framer's chunk-wise scan equals the byte-at-a-time reference: frames and errors depend only on
  the bytes of the stream, never on how the pipe cut it into chunks.
\<close>

theorem chunking_irrelevant:
  "0 < maximum \<Longrightarrow> concat cs = concat ds \<Longrightarrow>
   observed (push_all maximum cs new_framer) = observed (push_all maximum ds new_framer)"
  by (simp add: push_all_feed framer_ok_new new_framer_def [THEN arg_cong [of _ _ fr_ended]])

theorem chunking_irrelevant_witness:
  "observed (push_all 8 [[65, 10], [66]] new_framer) = observed (push_all 8 [[65], [10, 66]] new_framer)"
  by (rule chunking_irrelevant) simp_all

text \<open>
  The write budget: at every point of a run the outstanding bytes are exactly those of the writes not
  yet accounted for, and they never exceed the maximum; and every write is settled at most once, whether
  its callback, its deadline or the stop of the writer comes first.
\<close>

theorem writer_budget:
  "wr_outstanding (fst (run_steps (writer_step maximum) new_writer es))
     = sum_list (map unaccounted (wr_writes (fst (run_steps (writer_step maximum) new_writer es))))
   \<and> wr_outstanding (fst (run_steps (writer_step maximum) new_writer es)) \<le> maximum
   \<and> distinct (concat (map write_settled (snd (run_steps (writer_step maximum) new_writer es))))"
  using writer_once.run_inv [OF writer_inv_new, of maximum es] writer_once.run_once [OF writer_inv_new, of maximum es]
  unfolding writer_inv_def by blast

section \<open>The native wire protocol\<close>

text \<open>
  C30 (type): The validators of the protocol return exactly the well-formed data: \<open>validateWireMessage\<close> the messages
  within the bounds and shapes of the protocol (identifiers, deadline, scope against method, operation id
  against intent, bounded JSON), \<open>validateHostDescriptor\<close> the hosts with distinct methods, the handshake
  advertised as observe/bootstrap and nothing else on the bootstrap scope, session launch as lifecycle/host,
  and a frame bound within the protocol's. Each is accepted in its wire form; and whatever is accepted holds the same
  data as the wire form of the result: the same keys at every level and, under each, the same value.
\<close>

theorem wire_accepts_exactly_wf:
  "((\<exists>v. validateWireMessage v = Inr m) \<longleftrightarrow> wf_message m)
   \<and> (wf_message m = (validateWireMessage (message_value m) = Inr m))
   \<and> ((\<exists>v. validateHostDescriptor v = Inr h) \<longleftrightarrow> wf_host h)
   \<and> (wf_host h = (validateHostDescriptor (host_value h) = Inr h))
   \<and> (case validateWireMessage w of Inl _ \<Rightarrow> True | Inr x \<Rightarrow> same_data (=) w (message_value x))
   \<and> (case validateHostDescriptor w of Inl _ \<Rightarrow> True | Inr x \<Rightarrow> same_data (=) w (host_value x))"
proof (intro conjI)
  show "case validateWireMessage w of Inl _ \<Rightarrow> True | Inr x \<Rightarrow> same_data (=) w (message_value x)"
    using message_same by (auto split: sum.split)
  show "case validateHostDescriptor w of Inl _ \<Rightarrow> True | Inr x \<Rightarrow> same_data (=) w (host_value x)"
    using host_same by (auto split: sum.split)
qed (use vmessage.range_iff vmessage.decode_encode vhost.range_iff vhost.decode_encode vmessage.decode_wf vhost.decode_wf in blast)+

section \<open>Evidence graphs\<close>

text \<open>
  C31 (functional): The cycle check (Kahn's algorithm over \<open>Map\<close> objects) accepts a list of relations exactly when
  their edges form an acyclic graph.
\<close>

theorem cycle_check_exact: "rejectCycles es = Inr () \<longleftrightarrow> acyclic ((\<lambda>e. (er_from e, er_to e)) ` set es)"
  by (rule rejectCycles_Inr)

text \<open>
  \<open>defineEvidenceContext\<close> accepts exactly the well-formed graphs: rooted, every parent present,
  no duplicate node, relation id or edge, no dangling, cross-case or cross-attempt edge, endpoints in the
  documented matrix, and no cycle; every such graph within the size limits is accepted (the data budget
  never rejects one).
\<close>

theorem evidence_accepts_exactly_wf: "(\<exists>v. defineEvidenceContext v = Inr c) \<longleftrightarrow> wf_context c"
  by (rule evidence.range_iff)

text \<open>
  The snapshot of untrusted data is bounded: what it accepts is plain data of at most 500,000 values,
  20 levels, 10,000 items an array and 1,000 fields an object, and the units it charges are exactly
  the number of values it holds.
\<close>

theorem evidence_snapshot_bounded:
  "(case snapshot v of Inl _ \<Rightarrow> True
     | Inr j \<Rightarrow> data_units j \<le> 500000 \<and> data_ok 0 j)"
  using snapshot_bounds(1) [of 0 max_snapshot_units v]
  by (auto simp: snapshot_def max_snapshot_units_def split: sum.split)

section \<open>Test fixtures\<close>

text \<open>
  C32 (termination): Resolving a fixture always ends: with more fuel than there are fixture identifiers the model
  returns a result, so the recursion of the code is bounded by the number of identifiers, whatever the
  dependency graph (a cycle is reported, not followed).
\<close>

theorem fixture_use_ends:
  "finite I \<Longrightarrow> range (\<lambda>r. fx_id (defs r)) \<subseteq> I \<Longrightarrow> card I < fuel \<Longrightarrow> use_fixture defs td fuel self r w \<noteq> None"
  by (rule use_ends)

theorem fixture_use_ends_witness:
  "use_fixture (\<lambda>r. \<lparr>fx_id = ''a'', fx_scope = TestFixture, fx_deps = [0], fx_reads = [], fx_setup = \<lambda>_. Inr (0, True)\<rparr>)
     (\<lambda>_. False) 2 TestFixture 0 \<lparr>rs_test = None, rs_worker = None\<rparr> \<noteq> None"
  by (rule fixture_use_ends [of "{''a''}"]) simp_all

text \<open>
  C33 (safety): A failed \<open>use\<close> leaves no trace in the runtime it ran in: that runtime is the one before the call, and of the
  fixtures whose setup succeeded on the way, the ones set up in that runtime were then torn down, last first, each
  whose setup had returned a teardown; nothing else was torn down. What was set up in the worker on the way of a test's
  \<open>use\<close> is kept there.
\<close>

theorem fixture_failure_rolls_back:
  "world_inv defs w \<Longrightarrow> ordered defs w \<Longrightarrow> self = TestFixture \<or> rs_worker w \<noteq> None \<Longrightarrow>
   use_fixture defs td fuel self r w = Some (w', lg, Inl e) \<Longrightarrow> runtimeFor self w (defs r) = Inr target \<Longrightarrow>
   runtime_at target w' = runtime_at target w \<and> rolled_back defs target w w' lg"
  by (rule conjI, rule use_sound(3), assumption+, rule HOL.refl, assumption, rule use_rolled_back, assumption+)

theorem fixture_failure_rolls_back_witness:
  "let defs = (\<lambda>r. if r = 0 then \<lparr>fx_id = ''a'', fx_scope = TestFixture, fx_deps = [1], fx_reads = [], fx_setup = \<lambda>_. Inl ''broken''\<rparr>
       else \<lparr>fx_id = ''b'', fx_scope = TestFixture, fx_deps = [], fx_reads = [], fx_setup = \<lambda>_. Inr (7, True)\<rparr>);
     w = \<lparr>rs_test = None, rs_worker = None\<rparr>
   in use_fixture defs (\<lambda>_. False) (Suc (Suc (Suc 0))) TestFixture 0 w
        = Some (w\<lparr>rs_test := Some new_runtime\<rparr>, [SetUp ''b'', TornDown ''b''], Inl (SetupThrew ''broken''))
      \<and> runtime_at TestFixture (w\<lparr>rs_test := Some new_runtime\<rparr>) = runtime_at TestFixture w
      \<and> rolled_back defs TestFixture w (w\<lparr>rs_test := Some new_runtime\<rparr>) [SetUp ''b'', TornDown ''b'']"
proof -
  let ?defs = "\<lambda>r. if r = 0 then \<lparr>fx_id = ''a'', fx_scope = TestFixture, fx_deps = [1], fx_reads = [], fx_setup = \<lambda>_. Inl ''broken''\<rparr>
       else \<lparr>fx_id = ''b'', fx_scope = TestFixture, fx_deps = [], fx_reads = [], fx_setup = \<lambda>_. Inr (7, True)\<rparr> :: fixture"
  let ?w = "\<lparr>rs_test = None, rs_worker = None\<rparr>"
  have u: "use_fixture ?defs (\<lambda>_. False) (Suc (Suc (Suc 0))) TestFixture 0 ?w
      = Some (?w\<lparr>rs_test := Some new_runtime\<rparr>, [SetUp ''b'', TornDown ''b''], Inl (SetupThrew ''broken''))"
    by (simp add: use_fixture_def runtimeFor_def setup_fixture_def assertFixtureId_def blank_def js_space_def code_def
        new_runtime_def rollback.simps map_delete_def Let_def)
  show ?thesis unfolding Let_def
    using u fixture_failure_rolls_back [OF empty_world _ u, of TestFixture] by (simp add: runtimeFor_def)
qed

text \<open>
  A worker outlives its tests: whatever the calls, a worker runtime that is closing (or closed) has
  only closed test scopes, and no scope joins it any more.
\<close>

theorem fixture_worker_closes_last:
  "(let ws = fst (run_steps runtime_step [] es) in
     \<forall>p m c cm. map_of ws p = Some m \<and> rm_closing m \<and> rm_scope m = WorkerFixture
       \<and> map_of ws c = Some cm \<and> rm_parent cm = Some p \<longrightarrow> rm_closed cm)"
  using worker_closes_last [OF fixture_scopes.run_inv [of "[]" es]] by (simp add: Let_def scopes_inv_def) blast

theorem fixture_worker_closes_last_witness:
  "let ws = fst (run_steps runtime_step [] [NewWorker 0, NewTest 1 0, CloseCall 1, CloseDone 1, CloseCall 0]) in
     rm_closing (the (map_of ws 0)) \<and> rm_closed (the (map_of ws 1))"
proof -
  let ?es = "[NewWorker 0, NewTest 1 0, CloseCall 1, CloseDone 1, CloseCall 0]"
  let ?ws = "fst (run_steps runtime_step [] ?es)"
  have p: "map_of ?ws 0 = Some \<lparr>rm_scope = WorkerFixture, rm_parent = None, rm_children = [], rm_closing = True, rm_closed = False\<rparr>"
    and c: "map_of ?ws 1 = Some \<lparr>rm_scope = TestFixture, rm_parent = Some 0, rm_children = [], rm_closing = True, rm_closed = True\<rparr>"
    by code_simp+
  then show ?thesis using fixture_worker_closes_last [of ?es, unfolded Let_def, rule_format, of 0 _ 1] by simp
qed

section \<open>Guarded actions\<close>

text \<open>
  C34 (safety): An action is submitted at most once and settled at most once, from the outputs of its start on and whatever the order
  of the backend's answers, the timer and the abort signal; and it is submitted only with an element the backend
  resolved and the facade validated, before its deadline and unless the signal fired.
\<close>

theorem action_submits_once_guarded:
  "distinct (concat (map action_signals (snd (start_action supported action opts started waiting ab)
     @ snd (run_steps action_step (fst (start_action supported action opts started waiting ab)) es))))
   \<and> list_all (\<lambda>out. case out of
        Submit a e c \<Rightarrow> (\<exists>now. ev = Continue now \<and> a = ar_action s \<and> c = ar_context s
          \<and> ar_phase s = Actions.Resolved e \<and> validateResolvedElement e = Inr e \<and> \<not> (ic_signal c \<and> ar_aborted s)
          \<and> pred_option (\<lambda>t. now < ic_startedAt c + t) (ic_timeoutMs c))
      | _ \<Rightarrow> True) (snd (action_step s ev))"
proof
  show "distinct (concat (map action_signals (snd (start_action supported action opts started waiting ab)
     @ snd (run_steps action_step (fst (start_action supported action opts started waiting ab)) es))))"
    by (rule started_once)
  show "list_all (\<lambda>out. case out of
        Submit a e c \<Rightarrow> (\<exists>now. ev = Continue now \<and> a = ar_action s \<and> c = ar_context s
          \<and> ar_phase s = Actions.Resolved e \<and> validateResolvedElement e = Inr e \<and> \<not> (ic_signal c \<and> ar_aborted s)
          \<and> pred_option (\<lambda>t. now < ic_startedAt c + t) (ic_timeoutMs c))
      | _ \<Rightarrow> True) (snd (action_step s ev))"
    using submit_guarded [of _ _ _ s ev]
    by (fastforce simp: list_all_iff pred_option_def split: action_out.split)
qed

section \<open>The judge\<close>

text \<open>
  C35 (safety): What a judge answers. Whatever the provider does, and however its answer, the caller's signal and the timer
  interleave: the provider is called at most once, and only with the normalized request; the caller gets at most
  one outcome; a decision (classification or explained insufficiency) cites only evidence of the request, with an
  allowed label and observed facts for a classification; and it comes from code that found, after validating it,
  the signal not aborted and the deadline not reached.
\<close>

theorem judge_answers_once_supported:
  "(case start_judge branded request invocation mo now of
      Inl _ \<Rightarrow> True
    | Inr (s, os) \<Rightarrow>
        let out = os @ snd (run_steps judge_step s es) in
          length (concat (map result_of out)) \<le> 1 \<and> length (concat (map provider_call out)) \<le> 1
          \<and> list_all (output_supported (jn_request s)) out
          \<and> list_all (\<lambda>out. case out of
               JudgeResult res \<Rightarrow> if decision res then list_ex (\<lambda>ev. case ev of
                   AfterRace before after \<Rightarrow> currentStop (jn_invocation s) after = None | _ \<Rightarrow> False) es else True
             | _ \<Rightarrow> True) out)"
proof (cases "start_judge branded request invocation mo now")
  case (Inr st)
  obtain s os where st: "st = (s, os)" by (cases st)
  note start = Inr [unfolded st]
  have "length (concat (map result_of (os @ snd (run_steps judge_step s es)))) \<le> 1"
    by (rule started_returns_once [OF start])
  moreover have "length (concat (map provider_call (os @ snd (run_steps judge_step s es)))) \<le> 1"
    by (rule started_calls_once [OF start])
  moreover have "list_all (output_supported (jn_request s)) (os @ snd (run_steps judge_step s es))"
    using run_supported [OF start_ok [OF start]] started_supported [OF start] by simp
  moreover have "list_all (\<lambda>out. case out of
               JudgeResult res \<Rightarrow> if decision res then list_ex (\<lambda>ev. case ev of
                   AfterRace before after \<Rightarrow> currentStop (jn_invocation s) after = None | _ \<Rightarrow> False) es else True
             | _ \<Rightarrow> True) (os @ snd (run_steps judge_step s es))"
    by (rule started_all_timely [OF start])
  ultimately show ?thesis by (simp add: start Let_def)
qed simp

text \<open>
  A judge invocation cannot hang on its provider: in every state it can reach, the timer firing at or after the
  deadline, the reaction of the race to it and the code after the race end the invocation.
\<close>

theorem judge_deadline_ends:
  "(case start_judge branded request invocation mo now of
      Inl _ \<Rightarrow> True
    | Inr (s, os) \<Rightarrow>
        jn_phase (fst (run_steps judge_step s
          (es @ [TimerFired (iv_deadlineAt (jn_invocation s) + int late), RaceSeesStop, AfterRace m1 m2]))) = JudgeReturned)"
proof (cases "start_judge branded request invocation mo now")
  case (Inr st)
  obtain s os where st: "st = (s, os)" by (cases st)
  let ?t = "fst (run_steps judge_step s es)"
  have ok: "judge_ok ?t" by (rule judge_machine.run_inv [OF start_ok [OF Inr [unfolded st]]])
  have "jn_phase (fst (run_steps judge_step ?t [TimerFired (iv_deadlineAt (jn_invocation s) + int late), RaceSeesStop, AfterRace m1 m2]))
      = JudgeReturned"
    by (rule deadline_returns [OF ok]) (simp add: run_invocation)
  then show ?thesis by (simp add: Inr st run_steps_append Let_def split_beta del: run_steps.simps judge_step.simps)
qed simp

text \<open>
  C36 (type): \<open>normalizeJudgeRequest\<close> returns exactly the well-formed requests: identifiers, distinct labels and evidence
  of the same run, texts trimmed and within their limits, images in canonical base64 of their declared length,
  totals within the limits, the whole within the data budget. It gives such a request back unchanged, so the
  copies made for the provider and for validation equal the request; and whatever is accepted was copied as plain data
  that hold the request: the same keys at every level and, under each, the same value, but for texts, which may lose the
  blanks around them.
\<close>

theorem judge_requests_exact:
  "((\<exists>v. normalizeJudgeRequest v = Inr q) \<longleftrightarrow> judge_request_wf q)
   \<and> judge_request_wf q = (normalizeJudgeRequest (plain_value (request_data q)) = Inr q)
   \<and> (case normalizeJudgeRequest w of
        Inl _ \<Rightarrow> True
      | Inr r \<Rightarrow> (\<exists>p. sanitizeUntrusted request_budget w = Inr p \<and> same_plain p (request_data r)))"
  using vrequest.range_iff vrequest.decode_encode request_data_kept by (auto split: sum.split)

text \<open>
  A route tries its candidates in order: the result is the first outcome that does not fall back (only a
  retryable rate limit or server failure does), or the last one, with one recorded attempt per candidate tried;
  and every route of a validated router has at least one candidate, no candidate twice, each allowed by the
  profile it names.
\<close>

theorem judge_routes_in_order:
  "(classify_loop cs answers = Some (res, as) \<longleftrightarrow>
      (\<exists>n. last_tried cs answers n \<and> res = answers ! n \<and> as = attempts_until cs answers n))
   \<and> (case normalizeRouter parse registered v of
        Inl _ \<Rightarrow> True
      | Inr routes \<Rightarrow> \<exists>profiles. list_all (\<lambda>e. route_ok profiles (snd e)) routes)"
  by (auto simp: classify_loop_iff router_routes split: sum.split)

section \<open>Redaction\<close>

text \<open>
  C37 (safety): Secrets are withheld where they are declared. Redacting the data of a report replaces every field with a
  credential-like key, at every depth that is kept, and keeps every other field under a distinct key; redacting
  the assignments of a text changes nothing but stretches replaced by the marker; and what the trace recorder has
  stored, whatever was recorded, has no sensitive field left, in the order of recording, numbered from 1.
\<close>

theorem secrets_withheld:
  "withheld_gone j (redactTraceValue red depth j)
   \<and> distinct (map fst (redact_fields red depth i [] fs)) \<and> length (redact_fields red depth i [] fs) = length fs
   \<and> masked s (redactAssignments s)
   \<and> list_all (\<lambda>v. event_free (matchesSensitiveKey pattern) (te_input v)) (record_all pattern es [])
   \<and> map te_sequence (record_all pattern es []) = [1..<Suc (length es)]"
  by (intro conjI withheld_redacted(1) redact_fields_keys [THEN conjunct1] redact_fields_length redactAssignments_masked
      record_all_free [THEN conjunct1] record_all_free [THEN conjunct2])

section \<open>Reports\<close>

text \<open>
  C38 (safety): A report that is accepted is honest. Its tests are distinct and specified by well-formed cases, and run within
  the window of the report; a test that is passed has only passed steps, which cover every acceptance criterion;
  errors and reasons are there exactly for the statuses that need them; artifacts refer to steps and artifacts of
  their test and have a path exactly when they were captured. Its summary counts every test once, and its verdict
  is passed exactly when every test is, before and after sanitizing.
\<close>

theorem reports_honest:
  "case normalizeReportInput red han v of
     Inl _ \<Rightarrow> True
   | Inr b \<Rightarrow>
       rb_tests b \<noteq> [] \<and> distinct (map (\<lambda>t. sp_id (rt_spec t)) (rb_tests b))
       \<and> list_all (\<lambda>t. test_consistent t \<and> wf_case han (rt_spec t) \<and> in_window (rb_run b) (rt_result t)) (rb_tests b)
       \<and> (let s = summarizeTests (map (sanitizeTestCase red) (rb_tests b)) in
            su_passed s + su_failed s + su_timedOut s + su_skipped s + su_unsupported s = length (rb_tests b)
            \<and> s = summarizeTests (rb_tests b)
            \<and> (overallStatus s = RunPassed \<longleftrightarrow> list_all (\<lambda>t. cr_status (rt_result t) = ''passed'') (rb_tests b)))"
  by (cases "normalizeReportInput red han v") (simp_all only: sum.case accepted_report simp_thms)

text \<open>
  C39 (safety): A third-version report that is accepted is honest: attempts are numbered from 1 without gaps and the final one is
  the last; each attempt ran on declared platforms and has a consistent result; the runner host it names is one of the
  hosts the report lists, and the surfaces it names are among the ones the report lists (a report that leaves its surfaces
  unknown does not restrict them, and names no runner host where it leaves its hosts unknown); an imported report claims no host, surface or attempt. The verdict is passed exactly when the
  final result of every test is, and sanitizing (which sorts and redacts) keeps it.
\<close>

theorem reports3_honest:
  "case rbind (snapshotReportV3Input v) (validateReportV3 red han) of
     Inl _ \<Rightarrow> True
   | Inr c \<Rightarrow>
       report3_ok c
       \<and> (let s = overallStatusV3 (summarizeTestsV3 (map (sanitizeCase3 red) (b3_tests c))) in
            s = overallStatusV3 (summarizeTestsV3 (b3_tests c))
            \<and> (s = RunPassed \<longleftrightarrow> list_all (\<lambda>t. finalStatus t = Some ''passed'') (b3_tests c)))"
proof (cases "rbind (snapshotReportV3Input v) (validateReportV3 red han)")
  case (Inr c)
  then obtain b where "validateReportV3 red han b = Inr c" by auto
  from accepted_verdict3 [OF this] show ?thesis by (simp only: Inr sum.case simp_thms)
qed (simp only: sum.case)


end
